(* ===== verification/Json.thy ===== *)
theory Json
  imports Prelude
begin

text \<open>
  Values of \<open>json.loads\<close> as the governance documents, the tool arguments and the
  persisted monitors carry them, with the Python operations the code applies to them:
  truth testing, \<open>==\<close> against an integer, \<open>str()\<close>, \<open>isinstance\<close> tests and
  \<open>dict.get\<close>. Finite floats are exact rationals; infinities and NaN are separate
  constructors because the validators treat them separately.
\<close>

datatype pyfloat = Fin rat | PosInf | NegInf | NaN

datatype json =
    JNull
  | JBool bool
  | JInt int
  | JFloat pyfloat
  | JStr string
  | JArr "json list"
  | JObj "(string \<times> json) list"

type_synonym jobj = "(string, json) dict"

fun truthy :: "json \<Rightarrow> bool" where
  "truthy JNull = False"
| "truthy (JBool b) = b"
| "truthy (JInt n) = (n \<noteq> 0)"
| "truthy (JFloat (Fin q)) = (q \<noteq> 0)"
| "truthy (JFloat _) = True"
| "truthy (JStr s) = (s \<noteq> [])"
| "truthy (JArr xs) = (xs \<noteq> [])"
| "truthy (JObj kvs) = (kvs \<noteq> [])"

text \<open>\<open>v == n\<close> for an integer \<open>n\<close>: Python compares booleans and floats as numbers.\<close>

fun py_eq_int :: "json \<Rightarrow> int \<Rightarrow> bool" where
  "py_eq_int (JBool b) n = ((if b then 1 else 0) = n)"
| "py_eq_int (JInt m) n = (m = n)"
| "py_eq_int (JFloat (Fin q)) n = (q = of_int n)"
| "py_eq_int _ n = False"

text \<open>
  \<open>str(v)\<close>. The rendering of numbers and containers is CPython's \<open>repr\<close> and enters as
  the argument \<open>rep\<close>; strings, \<open>None\<close> and booleans are written out.
\<close>

fun py_str :: "(json \<Rightarrow> string) \<Rightarrow> json \<Rightarrow> string" where
  "py_str rep (JStr s) = s"
| "py_str rep JNull = ''None''"
| "py_str rep (JBool b) = (if b then ''True'' else ''False'')"
| "py_str rep v = rep v"

fun as_str :: "json \<Rightarrow> string option" where
  "as_str (JStr s) = Some s"
| "as_str _ = None"

fun as_obj :: "json \<Rightarrow> jobj option" where
  "as_obj (JObj d) = Some d"
| "as_obj _ = None"

lemma as_str_Some [simp]: "as_str v = Some s \<longleftrightarrow> v = JStr s"
  by (cases v) auto

lemma as_obj_Some [simp]: "as_obj v = Some d \<longleftrightarrow> v = JObj d"
  by (cases v) auto

text \<open>\<open>d.get(k, default)\<close> and \<open>d.get(k)\<close> (whose default is \<open>None\<close>).\<close>

definition jget :: "jobj \<Rightarrow> string \<Rightarrow> json" where
  "jget d k = dict_get_default d k JNull"

definition jget_default :: "jobj \<Rightarrow> string \<Rightarrow> json \<Rightarrow> json" where
  "jget_default d k v = dict_get_default d k v"

definition jhas :: "jobj \<Rightarrow> string \<Rightarrow> bool" where
  "jhas d k \<longleftrightarrow> k \<in> set (map fst d)"

text \<open>\<open>a or b\<close> on JSON values.\<close>

definition jor :: "json \<Rightarrow> json \<Rightarrow> json" where
  "jor a b = (if truthy a then a else b)"

text \<open>The items whose value is an object: \<open>for k, v in d.items() if isinstance(v, dict)\<close>.\<close>

fun objects :: "jobj \<Rightarrow> (string \<times> jobj) list" where
  "objects [] = []"
| "objects ((k, v) # d) = (case as_obj v of None \<Rightarrow> objects d | Some o1 \<Rightarrow> (k, o1) # objects d)"

lemma objects_keys: "fst ` set (objects d) \<subseteq> fst ` set d"
  by (induction d rule: objects.induct) (auto split: option.splits)

lemma objects_distinct: "dict_wf d \<Longrightarrow> dict_wf (objects d)"
proof (induction d rule: objects.induct)
  case (2 k v d)
  then have "k \<notin> fst ` set (objects d)" using objects_keys [of d] by auto
  with 2 show ?case by (cases "as_obj v") auto
qed simp

text \<open>A value \<open>json.loads\<close> returns: the keys of every object are distinct.\<close>

fun json_wf :: "json \<Rightarrow> bool" where
  "json_wf (JObj kvs) = (distinct (map fst kvs) \<and> (\<forall>kv \<in> set kvs. json_wf (snd kv)))"
| "json_wf (JArr xs) = (\<forall>x \<in> set xs. json_wf x)"
| "json_wf _ = True"

lemma json_wf_get: "json_wf (JObj d) \<Longrightarrow> dict_get d k = Some v \<Longrightarrow> json_wf v"
  by (auto dest!: dict_get_Some_in_set)

lemma json_wf_jget: "json_wf (JObj d) \<Longrightarrow> json_wf (jget d k)"
  using json_wf_get [of d k]
  by (auto simp: jget_def dict_get_default_def split: option.splits)

lemma jget_in: "dict_get d k = Some v \<Longrightarrow> jget d k = v"
  by (simp add: jget_def dict_get_default_def)

lemma jget_missing: "dict_get d k = None \<Longrightarrow> jget d k = JNull"
  by (simp add: jget_def dict_get_default_def)

end
