(* ===== verification/Gov_Match.thy ===== *)
theory Gov_Match
  imports Json
begin

text \<open>
  The match strategies of the governance evaluator
  (\<^verbatim>\<open>src/codex_crew/platform/governance.py\<close>, \<open>_MATCHERS\<close>): shell globbing as
  \<open>fnmatch\<close> defines it, the five built-in matchers, the lexical path normalisation that
  the path matcher applies to a queried item, and the code-owned class table of the
  computer-use actions. The environment of the gateway process (\<open>~\<close> and \<open>$VAR\<close>
  expansion, working directory) is the record \<open>host\<close>.

  Globbing follows CPython's \<open>fnmatch.translate\<close> on a POSIX host, where
  \<open>os.path.normcase\<close> is the identity. Text is ASCII.
\<close>

section \<open>fnmatch\<close>

datatype glob_tok = Star | AnyChar | Lit char | Cls bool "(char \<times> char) list"

text \<open>The items of a bracket expression: \<open>a-b\<close> is a range, anything else is itself.\<close>

fun cls_items :: "string \<Rightarrow> (char \<times> char) list" where
  "cls_items [] = []"
| "cls_items [a] = [(a, a)]"
| "cls_items [a, b] = [(a, a), (b, b)]"
| "cls_items (a # d # b # r) =
     (if d = CHR ''-'' then (a, b) # cls_items r else (a, a) # cls_items (d # b # r))"

text \<open>
  After an opening bracket: an optional \<open>!\<close>, a \<open>]\<close> in first place taken literally,
  then everything up to the closing \<open>]\<close>; \<open>None\<close> when there is none.
\<close>

definition split_class :: "string \<Rightarrow> (bool \<times> (char \<times> char) list \<times> string) option" where
  "split_class cs =
     (let neg = (cs \<noteq> [] \<and> hd cs = CHR ''!'');
          body0 = (if neg then tl cs else cs);
          lit = (body0 \<noteq> [] \<and> hd body0 = CHR '']'');
          body = (if lit then tl body0 else body0)
      in case partition_at (CHR '']'') body of
           (h, found, t) \<Rightarrow>
             if found then Some (neg, cls_items ((if lit then [CHR '']''] else []) @ h), t)
             else None)"

lemma partition_at_length: "partition_at c s = (h, True, t) \<Longrightarrow> length t < length s"
  by (auto dest: partition_at_found)

lemma split_class_shorter:
  "split_class cs = Some (neg, items, rest) \<Longrightarrow> length rest < length cs"
  by (auto simp: split_class_def Let_def split: prod.splits if_splits
      dest!: partition_at_length)

function fn_translate :: "string \<Rightarrow> glob_tok list" where
  "fn_translate [] = []"
| "fn_translate (c # cs) =
     (if c = CHR ''*'' then Star # fn_translate cs
      else if c = CHR ''?'' then AnyChar # fn_translate cs
      else if c = CHR ''['' then
        (case split_class cs of
           None \<Rightarrow> Lit c # fn_translate cs
         | Some (neg, items, rest) \<Rightarrow> Cls neg items # fn_translate rest)
      else Lit c # fn_translate cs)"
  by pat_completeness auto
termination
  by (relation "measure length") (auto dest: split_class_shorter)

definition in_class :: "char \<Rightarrow> (char \<times> char) list \<Rightarrow> bool" where
  "in_class c items \<longleftrightarrow>
     list_ex (\<lambda>(a, b). (of_char a :: nat) \<le> of_char c \<and> (of_char c :: nat) \<le> of_char b) items"

fun glob_match :: "glob_tok list \<Rightarrow> string \<Rightarrow> bool" where
  "glob_match [] s = (s = [])"
| "glob_match (Star # ts) [] = glob_match ts []"
| "glob_match (Star # ts) (c # cs) = (glob_match ts (c # cs) \<or> glob_match (Star # ts) cs)"
| "glob_match (AnyChar # ts) [] = False"
| "glob_match (AnyChar # ts) (c # cs) = glob_match ts cs"
| "glob_match (Lit a # ts) [] = False"
| "glob_match (Lit a # ts) (c # cs) = (a = c \<and> glob_match ts cs)"
| "glob_match (Cls neg items # ts) [] = False"
| "glob_match (Cls neg items # ts) (c # cs) = (in_class c items \<noteq> neg \<and> glob_match ts cs)"

definition fnmatchcase :: "string \<Rightarrow> string \<Rightarrow> bool" where
  "fnmatchcase name pat = glob_match (fn_translate pat) name"

definition glob_literal :: "string \<Rightarrow> bool" where
  "glob_literal s \<longleftrightarrow> (\<forall>c \<in> set s. c \<noteq> CHR ''*'' \<and> c \<noteq> CHR ''?'' \<and> c \<noteq> CHR ''['')"

lemma fn_translate_literal:
  "glob_literal p \<Longrightarrow> fn_translate (p @ q) = map Lit p @ fn_translate q"
  by (induction p) (auto simp: glob_literal_def)

lemma glob_match_literal:
  "glob_match (map Lit p @ ts) s \<longleftrightarrow> (\<exists>r. s = p @ r \<and> glob_match ts r)"
proof (induction p arbitrary: s)
  case Nil
  then show ?case by simp
next
  case (Cons a p)
  then show ?case by (cases s) auto
qed

lemma glob_match_star: "glob_match [Star] s"
  by (induction s) auto

lemma glob_match_starstar: "glob_match [Star, Star] s"
proof (cases s)
  case (Cons c cs)
  then show ?thesis using glob_match_star by auto
qed simp

text \<open>A pattern without metacharacters matches exactly itself.\<close>

lemma fnmatchcase_literal: "glob_literal p \<Longrightarrow> fnmatchcase s p \<longleftrightarrow> s = p"
  using fn_translate_literal [of p "[]"] glob_match_literal [of p "[]" s]
  by (auto simp: fnmatchcase_def)

text \<open>The glob \<open>dir/**\<close> matches exactly what lies lexically below \<open>dir/\<close>.\<close>

lemma fnmatchcase_below:
  "glob_literal d \<Longrightarrow> fnmatchcase s (d @ ''/**'') \<longleftrightarrow> (\<exists>r. s = d @ ''/'' @ r)"
proof -
  assume lit: "glob_literal d"
  then have "glob_literal (d @ ''/'')" by (simp add: glob_literal_def)
  from fn_translate_literal [OF this, of "''**''"]
  have "fn_translate (d @ ''/**'') = map Lit (d @ ''/'') @ [Star, Star]" by simp
  with glob_match_literal [of "d @ ''/''" "[Star, Star]" s] show ?thesis
    by (simp add: fnmatchcase_def glob_match_starstar)
qed

section \<open>Lexical path normalisation\<close>

record host =
  expand_env :: "string \<Rightarrow> string"  \<comment> \<open>\<open>expanduser(expandvars(s))\<close> in this process\<close>
  work_dir :: string                \<comment> \<open>\<open>os.getcwd()\<close>\<close>
  bracket_ok :: "string \<Rightarrow> bool"      \<comment> \<open>whether \<open>urllib\<close> accepts a bracketed (IPv6) netloc\<close>
  distribution_url_env :: string    \<comment> \<open>the environment's policy distribution URL, or empty\<close>

abbreviation slash :: char where
  "slash \<equiv> CHR ''/''"

text \<open>
  One step of \<open>posixpath.normpath\<close>'s loop over the components; the kept components are
  a stack with the last one first.
\<close>

definition norm_step :: "bool \<Rightarrow> string \<Rightarrow> string list \<Rightarrow> string list" where
  "norm_step rooted part acc =
     (if part = [] \<or> part = ''.'' then acc
      else if part \<noteq> ''..'' \<or> (\<not> rooted \<and> acc = []) \<or> (acc \<noteq> [] \<and> hd acc = ''..'')
      then part # acc
      else tl acc)"

definition norm_comps :: "bool \<Rightarrow> string list \<Rightarrow> string list" where
  "norm_comps rooted comps = rev (fold (norm_step rooted) comps [])"

definition normpath :: "string \<Rightarrow> string" where
  "normpath path =
     (let slashes = (if starts_with path ''//'' \<and> \<not> starts_with path ''///'' then ''//''
                     else if starts_with path ''/'' then ''/'' else '''');
          out = slashes @ join_with slash (norm_comps (slashes \<noteq> []) (split_on slash path))
      in if path = [] then ''.'' else if out = [] then ''.'' else out)"

definition abspath :: "host \<Rightarrow> string \<Rightarrow> string" where
  "abspath h path =
     normpath (if starts_with path ''/'' then path
               else if work_dir h = [] \<or> last (work_dir h) = slash then work_dir h @ path
               else work_dir h @ ''/'' @ path)"

definition expand :: "host \<Rightarrow> string \<Rightarrow> string" where
  "expand h path_str = expand_env h path_str"

definition norm_item :: "host \<Rightarrow> string \<Rightarrow> string" where
  "norm_item h path_str =
     (let p = abspath h (expand h path_str)
      in if starts_with p ''//'' \<and> \<not> starts_with p ''///'' then tl p else p)"

text \<open>A component a resolved absolute path can have.\<close>

definition plain_comp :: "string \<Rightarrow> bool" where
  "plain_comp c \<longleftrightarrow> c \<noteq> [] \<and> c \<noteq> ''.'' \<and> c \<noteq> ''..'' \<and> slash \<notin> set c"

lemma norm_step_plain:
  assumes "list_all plain_comp acc" and "slash \<notin> set part"
  shows "list_all plain_comp (norm_step True part acc)"
  using assms by (cases acc) (auto simp: norm_step_def plain_comp_def)

lemma fold_norm_step_plain:
  "list_all plain_comp acc \<Longrightarrow> \<forall>c \<in> set comps. slash \<notin> set c \<Longrightarrow>
   list_all plain_comp (fold (norm_step True) comps acc)"
  by (induction comps arbitrary: acc) (auto intro: norm_step_plain)

lemma norm_comps_plain:
  "\<forall>c \<in> set comps. slash \<notin> set c \<Longrightarrow> list_all plain_comp (norm_comps True comps)"
  using fold_norm_step_plain [of "[]" comps] by (simp add: norm_comps_def list_all_iff)

lemma normpath_rooted:
  assumes "starts_with p ''/''"
  shows "\<exists>sl cs. normpath p = sl @ join_with slash cs \<and> (sl = ''/'' \<or> sl = ''//'')
           \<and> list_all plain_comp cs"
proof -
  let ?sl = "if starts_with p ''//'' \<and> \<not> starts_with p ''///'' then ''//'' else ''/''"
  let ?cs = "norm_comps True (split_on slash p)"
  have "list_all plain_comp ?cs"
    by (rule norm_comps_plain) (auto dest: split_on_parts)
  moreover have "normpath p = ?sl @ join_with slash ?cs"
    using assms by (auto simp: normpath_def Let_def)
  ultimately show ?thesis by (intro exI [of _ ?sl] exI [of _ ?cs]) auto
qed

lemma abspath_rooted:
  assumes "starts_with (work_dir h) ''/''"
  shows "\<exists>p'. starts_with p' ''/'' \<and> abspath h p = normpath p'"
  using assms by (auto simp: abspath_def starts_with_iff)

lemma join_plain_no_slash_head:
  "list_all plain_comp cs \<Longrightarrow> \<not> starts_with (join_with slash cs) ''/''"
  by (cases "(slash, cs)" rule: join_with.cases)
     (auto simp: plain_comp_def starts_with_iff neq_Nil_conv)

text \<open>The normalised item is one slash followed by plain components.\<close>

lemma norm_item_shape:
  assumes "starts_with (work_dir h) ''/''"
  shows "\<exists>cs. norm_item h p = ''/'' @ join_with slash cs \<and> list_all plain_comp cs"
proof -
  obtain p' where p': "starts_with p' ''/''" "abspath h (expand h p) = normpath p'"
    using abspath_rooted [OF assms] by blast
  obtain sl cs where n: "normpath p' = sl @ join_with slash cs"
    and sl: "sl = ''/'' \<or> sl = ''//''" and cs: "list_all plain_comp cs"
    using normpath_rooted [OF p'(1)] by blast
  have ns: "\<not> starts_with (join_with slash cs) ''/''"
    using cs by (rule join_plain_no_slash_head)
  show ?thesis
    using sl ns n p'(2) cs by (auto simp: norm_item_def Let_def)
qed

lemma split_norm_item:
  assumes "list_all plain_comp cs"
  shows "split_on slash (''/'' @ join_with slash cs) = [] # (if cs = [] then [[]] else cs)"
  using assms by (auto simp: split_join plain_comp_def list_all_iff)

text \<open>A host for the concrete instances: nothing to expand, a given working directory.\<close>

definition plain_host :: "string \<Rightarrow> host" where
  "plain_host wd = \<lparr>expand_env = (\<lambda>s. s), work_dir = wd, bracket_ok = (\<lambda>n. True),
     distribution_url_env = []\<rparr>"

section \<open>The matchers\<close>

definition match_identifier :: "string \<Rightarrow> string \<Rightarrow> bool" where
  "match_identifier item pattern = fnmatchcase (casefold (strip item)) (casefold (strip pattern))"

definition match_command :: "string \<Rightarrow> string \<Rightarrow> bool" where
  "match_command item pattern = fnmatchcase item pattern"

definition match_path :: "host \<Rightarrow> string \<Rightarrow> string \<Rightarrow> bool" where
  "match_path h item pattern = fnmatchcase (norm_item h item) (expand h pattern)"

definition match_host :: "string \<Rightarrow> string \<Rightarrow> bool" where
  "match_host item pattern = fnmatchcase (casefold (strip item)) (casefold (strip pattern))"

definition match_mcp :: "string \<Rightarrow> string \<Rightarrow> bool" where
  "match_mcp item pattern =
     (let it = casefold (strip item); pat = casefold (strip pattern)
      in if it = pat then True
         else if slash \<notin> set pat then starts_with it (pat @ ''/'')
         else False)"

type_synonym matcher = "string \<Rightarrow> string \<Rightarrow> bool"
type_synonym registry = "(string, matcher) dict"

definition MATCHERS :: "host \<Rightarrow> registry" where
  "MATCHERS h =
     [(''identifier'', match_identifier),
      (''command'', match_command),
      (''path'', match_path h),
      (''host'', match_host),
      (''mcp'', match_mcp)]"

lemma MATCHERS_get [simp]:
  "dict_get (MATCHERS h) ''identifier'' = Some match_identifier"
  "dict_get (MATCHERS h) ''command'' = Some match_command"
  "dict_get (MATCHERS h) ''path'' = Some (match_path h)"
  "dict_get (MATCHERS h) ''host'' = Some match_host"
  "dict_get (MATCHERS h) ''mcp'' = Some match_mcp"
  by (simp_all add: MATCHERS_def)

section \<open>Computer-use action classes\<close>

text \<open>
  The code-owned table that classifies a computer-use action; an action outside the
  table is treated as mutating.
\<close>

datatype cu_class = CU_OBSERVE | CU_MUTATE | CU_POINTER | CU_KEYBOARD | CU_TEXT_ENTRY | CU_CONTROL

definition CU_ACTION_TOOL_PREFIX :: string where
  "CU_ACTION_TOOL_PREFIX = ''computer_''"

definition CU_ACTION_CLASSES :: "(string, cu_class list) dict" where
  "CU_ACTION_CLASSES =
     [(''list_apps'', [CU_OBSERVE]),
      (''get_state'', [CU_OBSERVE]),
      (''end_turn'', [CU_CONTROL]),
      (''click'', [CU_MUTATE, CU_POINTER]),
      (''drag'', [CU_MUTATE, CU_POINTER]),
      (''scroll'', [CU_MUTATE, CU_POINTER]),
      (''perform_action'', [CU_MUTATE, CU_POINTER]),
      (''type_text'', [CU_MUTATE, CU_KEYBOARD, CU_TEXT_ENTRY]),
      (''press_key'', [CU_MUTATE, CU_KEYBOARD]),
      (''set_value'', [CU_MUTATE, CU_TEXT_ENTRY]),
      (''get_app_state'', [CU_OBSERVE]),
      (''perform_secondary_action'', [CU_MUTATE, CU_POINTER])]"

definition CU_UNKNOWN_ACTION_CLASSES :: "cu_class list" where
  "CU_UNKNOWN_ACTION_CLASSES = [CU_MUTATE]"

definition cu_action_key :: "string \<Rightarrow> string" where
  "cu_action_key name =
     (let key = casefold (strip name)
      in if starts_with key CU_ACTION_TOOL_PREFIX
         then drop (length CU_ACTION_TOOL_PREFIX) key else key)"

definition computer_use_action_classes :: "string \<Rightarrow> cu_class list" where
  "computer_use_action_classes action =
     dict_get_default CU_ACTION_CLASSES (cu_action_key action) CU_UNKNOWN_ACTION_CLASSES"

text \<open>Every row is an observation, a control action or a mutation, and only one of these.\<close>

lemma cu_table_exclusive:
  "(k, cs) \<in> set CU_ACTION_CLASSES \<Longrightarrow>
   (CU_MUTATE \<in> set cs) \<noteq> (cs = [CU_OBSERVE] \<or> cs = [CU_CONTROL])"
  by (auto simp: CU_ACTION_CLASSES_def)

lemma cu_classes_cases:
  "(CU_MUTATE \<in> set (computer_use_action_classes a))
   \<noteq> (computer_use_action_classes a = [CU_OBSERVE] \<or> computer_use_action_classes a = [CU_CONTROL])"
proof (cases "dict_get CU_ACTION_CLASSES (cu_action_key a)")
  case None
  then show ?thesis
    by (simp add: computer_use_action_classes_def dict_get_default_def CU_UNKNOWN_ACTION_CLASSES_def)
next
  case (Some cs)
  then have "(cu_action_key a, cs) \<in> set CU_ACTION_CLASSES" by (rule dict_get_Some_in_set)
  from cu_table_exclusive [OF this] Some show ?thesis
    by (simp add: computer_use_action_classes_def dict_get_default_def)
qed

text \<open>Computer-use actions fail closed: however an action is spelled, it is classified as
  mutating unless its key is one of the four the table lists as observation or control.\<close>

theorem unknown_actions_mutate:
  "CU_MUTATE \<in> set (computer_use_action_classes a) \<or>
   cu_action_key a \<in> {''list_apps'', ''get_state'', ''end_turn'', ''get_app_state''}"
proof (cases "dict_get CU_ACTION_CLASSES (cu_action_key a)")
  case None
  then show ?thesis
    by (simp add: computer_use_action_classes_def dict_get_default_def CU_UNKNOWN_ACTION_CLASSES_def)
next
  case (Some cs)
  then have "(cu_action_key a, cs) \<in> set CU_ACTION_CLASSES" by (rule dict_get_Some_in_set)
  moreover from this have "CU_MUTATE \<in> set cs \<or> cu_action_key a \<in> {''list_apps'', ''get_state'', ''end_turn'', ''get_app_state''}"
    unfolding CU_ACTION_CLASSES_def by auto
  ultimately show ?thesis
    using Some by (simp add: computer_use_action_classes_def dict_get_default_def)
qed

end
