(* ===== verification/Gov_Controls.thy ===== *)
theory Gov_Controls
  imports Gov_Match
begin

text \<open>
  The four control archetypes of the governance model
  (\<^verbatim>\<open>src/codex_crew/platform/governance.py\<close>): \<open>ScopedRuleset\<close> (with the \<open>_AndRuleset\<close> view),
  \<open>OrdinalControl\<close>, \<open>CapabilityGate\<close> and \<open>ScopedMap\<close>: their queries, their composition
  and the algebra of composition. A match strategy is looked up in the registry the
  evaluator owns (\<open>_MATCHERS\<close>), which is an argument of every query; a ruleset that names
  an unregistered strategy raises \<open>KeyError\<close>.

  The locale \<open>narrowing\<close> is the contract "composition intersects"; \<open>chain_narrowing\<close> adds
  that composition may be iterated. Each archetype interprets one of them.
\<close>

section \<open>Decisions\<close>

text \<open>The message of a decision, one constructor per message of the code.\<close>

datatype reason =
    InAllowSet string | NotInAllowSet string
  | MatchesDeny string string | NotDenied string
  | ByPolicy reason | ByProfile reason | ByBoth
  | CapabilityDisabled | CapabilityEnabled | ScopeUnconstrained string
  | NoPosture string | NoPostureLeaf string string
  | NotGoverned | OrdinalNotQueried
  | PolicyDenies reason | ProfileDenies reason | Permitted
  | TitleNotGoverned | PermittedByAllScopes

datatype rule_tag = Rule1Allow | Rule1Deny | Rule2Intersect | OrdinalRule | GateRule | ScopedMapRule | DefaultRule

datatype layer_tag = NoLayer | PolicyLayer | ProfileLayer | BothLayers | DefaultLayer

record decision =
  permitted :: bool
  d_reason :: reason
  d_rule :: rule_tag
  d_layer :: layer_tag
  d_item :: string

definition Decision :: "bool \<Rightarrow> reason \<Rightarrow> rule_tag \<Rightarrow> layer_tag \<Rightarrow> decision" where
  "Decision ok r t l = \<lparr>permitted = ok, d_reason = r, d_rule = t, d_layer = l, d_item = []\<rparr>"

lemma Decision_simps [simp]:
  "permitted (Decision ok r t l) = ok"
  "d_reason (Decision ok r t l) = r"
  "d_rule (Decision ok r t l) = t"
  "d_layer (Decision ok r t l) = l"
  by (simp_all add: Decision_def)

text \<open>What a fallible query grants: an exception grants nothing.\<close>

definition grants :: "decision res \<Rightarrow> bool" where
  "grants q = (case q of Inl e \<Rightarrow> False | Inr d \<Rightarrow> permitted d)"

lemma grants_simps [simp]: "grants (Inr d) = permitted d" "grants (Inl e) = False"
  by (simp_all add: grants_def)

section \<open>ScopedRuleset\<close>

datatype ruleset_mode = MODE_ALLOW | MODE_DENY

record scoped_ruleset =
  rs_mode :: ruleset_mode
  rs_allow :: "string list"
  rs_deny :: "string list"
  rs_matcher :: string

text \<open>
  What the evaluator may hold in a ruleset position. \<open>Opaque\<close> is an object without a
  \<open>permits\<close> method: the dynamically typed composition does not exclude it, and querying
  it raises \<open>AttributeError\<close>.
\<close>

datatype ruleset_like =
    Scoped scoped_ruleset
  | AndRuleset ruleset_like ruleset_like
  | Opaque

definition scoped_permits :: "registry \<Rightarrow> scoped_ruleset \<Rightarrow> string \<Rightarrow> decision res" where
  "scoped_permits R rs x =
     (case dict_get R (rs_matcher rs) of
        None \<Rightarrow> Inl KeyError
      | Some match \<Rightarrow>
          (case rs_mode rs of
             MODE_ALLOW \<Rightarrow>
               (let ok = list_ex (match x) (rs_allow rs)
                in Inr (Decision ok (if ok then InAllowSet x else NotInAllowSet x) Rule1Allow NoLayer))
           | MODE_DENY \<Rightarrow>
               (case List.find (match x) (rs_deny rs) of
                  Some pat \<Rightarrow> Inr (Decision False (MatchesDeny x pat) Rule1Deny NoLayer)
                | None \<Rightarrow> Inr (Decision True (NotDenied x) Rule1Deny NoLayer))))"

fun permits :: "registry \<Rightarrow> ruleset_like \<Rightarrow> string \<Rightarrow> decision res" where
  "permits R (Scoped rs) x = scoped_permits R rs x"
| "permits R (AndRuleset ceil prof) x =
     rbind (permits R ceil x) (\<lambda>c.
       if \<not> permitted c
       then Inr (Decision False (ByPolicy (d_reason c)) Rule2Intersect PolicyLayer)
       else rbind (permits R prof x) (\<lambda>p.
         if \<not> permitted p
         then Inr (Decision False (ByProfile (d_reason p)) Rule2Intersect ProfileLayer)
         else Inr (Decision True ByBoth Rule2Intersect BothLayers)))"
| "permits R Opaque x = Inl AttributeError"

definition scoped_compose :: "scoped_ruleset \<Rightarrow> ruleset_like \<Rightarrow> ruleset_like" where
  "scoped_compose self narrower =
     (case narrower of
        Scoped n \<Rightarrow>
          if rs_mode self = MODE_DENY \<and> rs_mode n = MODE_DENY \<and> rs_matcher self = rs_matcher n
          then Scoped \<lparr>rs_mode = MODE_DENY, rs_allow = [],
                       rs_deny = dedup (rs_deny self @ rs_deny n), rs_matcher = rs_matcher self\<rparr>
          else AndRuleset (Scoped self) narrower
      | _ \<Rightarrow> AndRuleset (Scoped self) narrower)"

fun ruleset_compose :: "ruleset_like \<Rightarrow> ruleset_like \<Rightarrow> ruleset_like" where
  "ruleset_compose (Scoped s) n = scoped_compose s n"
| "ruleset_compose r n = AndRuleset r n"

fun ruleset_ok :: "registry \<Rightarrow> ruleset_like \<Rightarrow> bool" where
  "ruleset_ok R (Scoped rs) = (rs_matcher rs \<in> set (map fst R))"
| "ruleset_ok R (AndRuleset a b) = (ruleset_ok R a \<and> ruleset_ok R b)"
| "ruleset_ok R Opaque = False"

definition allows :: "registry \<Rightarrow> ruleset_like \<Rightarrow> string \<Rightarrow> bool" where
  "allows R r x = grants (permits R r x)"

lemma find_None: "List.find P xs = None \<longleftrightarrow> \<not> list_ex P xs"
  by (auto simp: find_None_iff list_ex_iff)

lemma scoped_allows:
  "allows R (Scoped rs) x \<longleftrightarrow>
     (\<exists>m. dict_get R (rs_matcher rs) = Some m \<and>
        (if rs_mode rs = MODE_ALLOW then list_ex (m x) (rs_allow rs)
         else \<not> list_ex (m x) (rs_deny rs)))"
  by (auto simp: allows_def scoped_permits_def Let_def find_None [symmetric]
      split: option.splits ruleset_mode.splits)

lemma and_allows [simp]: "allows R (AndRuleset a b) x \<longleftrightarrow> allows R a x \<and> allows R b x"
  by (auto simp: allows_def grants_def rbind_def split: sum.splits)

lemma opaque_allows [simp]: "\<not> allows R Opaque x"
  by (simp add: allows_def)

lemma permits_total: "ruleset_ok R r \<Longrightarrow> \<exists>d. permits R r x = Inr d"
proof (induction r)
  case (Scoped rs)
  then obtain m where "dict_get R (rs_matcher rs) = Some m"
    by (auto simp: map_of_eq_None_iff [symmetric] dest: weak_map_of_SomeI)
  then show ?case
    by (auto simp: scoped_permits_def Let_def split: ruleset_mode.splits option.splits)
qed auto

lemma list_ex_dedup [simp]: "list_ex P (dedup xs) = list_ex P xs"
  by (simp add: list_ex_iff)

lemma scoped_compose_allows:
  "allows R (scoped_compose s n) x \<longleftrightarrow> allows R (Scoped s) x \<and> allows R n x"
  by (cases n) (auto simp: scoped_compose_def scoped_allows)

lemma ruleset_compose_allows:
  "allows R (ruleset_compose a b) x \<longleftrightarrow> allows R a x \<and> allows R b x"
  by (cases a) (simp_all add: scoped_compose_allows)

lemma ruleset_compose_ok: "ruleset_ok R a \<Longrightarrow> ruleset_ok R b \<Longrightarrow> ruleset_ok R (ruleset_compose a b)"
  by (cases a; cases b) (auto simp: scoped_compose_def)

section \<open>The contract of composition\<close>

text \<open>
  \<open>base\<close> are the controls as a document declares them, \<open>ok\<close> those the evaluator can hold,
  \<open>compat\<close> relates controls that may meet in one scope, and \<open>allow c i\<close> is what a control
  lets through.
\<close>

locale narrowing =
  fixes base :: "'c \<Rightarrow> bool"
    and ok :: "'c \<Rightarrow> bool"
    and compat :: "'c \<Rightarrow> 'c \<Rightarrow> bool"
    and allow :: "'c \<Rightarrow> 'i \<Rightarrow> bool"
    and compose :: "'c \<Rightarrow> 'c \<Rightarrow> 'c res"
  assumes base_ok: "base a \<Longrightarrow> ok a"
    and compose_total: "base a \<Longrightarrow> base b \<Longrightarrow> compat a b \<Longrightarrow> \<exists>c. compose a b = Inr c \<and> ok c"
    and compose_allow:
      "base a \<Longrightarrow> base b \<Longrightarrow> compat a b \<Longrightarrow> compose a b = Inr c \<Longrightarrow>
       allow c i \<longleftrightarrow> allow a i \<and> allow b i"
begin

lemma narrows_left:
  "base a \<Longrightarrow> base b \<Longrightarrow> compat a b \<Longrightarrow> compose a b = Inr c \<Longrightarrow> allow c i \<Longrightarrow> allow a i"
  by (simp add: compose_allow)

lemma narrows_right:
  "base a \<Longrightarrow> base b \<Longrightarrow> compat a b \<Longrightarrow> compose a b = Inr c \<Longrightarrow> allow c i \<Longrightarrow> allow b i"
  by (simp add: compose_allow)

lemma order_irrelevant:
  "base a \<Longrightarrow> base b \<Longrightarrow> compat a b \<Longrightarrow> compat b a \<Longrightarrow>
   compose a b = Inr c \<Longrightarrow> compose b a = Inr d \<Longrightarrow> allow c i = allow d i"
  by (auto simp: compose_allow)

end

locale chain_narrowing = narrowing base base compat allow compose
  for base :: "'c \<Rightarrow> bool" and compat :: "'c \<Rightarrow> 'c \<Rightarrow> bool"
    and allow :: "'c \<Rightarrow> 'i \<Rightarrow> bool" and compose :: "'c \<Rightarrow> 'c \<Rightarrow> 'c res" +
  assumes compat_compose: "compat a b \<Longrightarrow> compat a x \<Longrightarrow> compose a b = Inr c \<Longrightarrow> compat c x"
begin

text \<open>A whole chain of narrower controls: it composes, and the result is the intersection.\<close>

lemma chain_total:
  "base a \<Longrightarrow> \<forall>b \<in> set bs. base b \<and> compat a b \<Longrightarrow>
   \<exists>c. fold_res (\<lambda>b acc. compose acc b) bs a = Inr c \<and> base c"
proof (induction bs arbitrary: a)
  case Nil
  then show ?case by simp
next
  case (Cons b bs)
  then obtain c where c: "compose a b = Inr c" "base c"
    using compose_total [of a b] by auto
  have "\<forall>x \<in> set bs. base x \<and> compat c x"
    using Cons.prems(2) compat_compose [OF _ _ c(1)] by simp
  from Cons.IH [OF c(2) this] c(1) show ?case by simp
qed

lemma chain_allow:
  "base a \<Longrightarrow> \<forall>b \<in> set bs. base b \<and> compat a b \<Longrightarrow>
   fold_res (\<lambda>b acc. compose acc b) bs a = Inr c \<Longrightarrow>
   allow c i \<longleftrightarrow> allow a i \<and> (\<forall>b \<in> set bs. allow b i)"
proof (induction bs arbitrary: a)
  case Nil
  then show ?case by simp
next
  case (Cons b bs)
  then obtain d where d: "compose a b = Inr d" "base d"
    using compose_total [of a b] by auto
  have "\<forall>x \<in> set bs. base x \<and> compat d x"
    using Cons.prems(2) compat_compose [OF _ _ d(1)] by simp
  moreover have "fold_res (\<lambda>b acc. compose acc b) bs d = Inr c"
    using Cons.prems(3) d(1) by simp
  ultimately have "allow c i \<longleftrightarrow> allow d i \<and> (\<forall>b \<in> set bs. allow b i)"
    using Cons.IH d(2) by blast
  moreover have "allow d i \<longleftrightarrow> allow a i \<and> allow b i"
    using Cons.prems d(1) by (auto simp: compose_allow)
  ultimately show ?case by auto
qed

end

interpretation rulesets: chain_narrowing
  "ruleset_ok R" "\<lambda>_ _. True" "allows R" "\<lambda>a b. Inr (ruleset_compose a b)"
  for R
  by unfold_locales (auto simp: ruleset_compose_allows ruleset_compose_ok)

section \<open>OrdinalControl\<close>

text \<open>The enforcer-owned strictness scales, loosest value first.\<close>

definition ORDINAL_SCALES :: "(string, string list) dict" where
  "ORDINAL_SCALES =
     [(''approval'', [''yolo'', ''auto'', ''interactive'']),
      (''sandbox'', [''off'', ''standard'', ''cc'', ''strict''])]"

record ordinal =
  o_scale :: string
  o_value :: string

text \<open>\<open>list.index\<close>: the position of the first occurrence.\<close>

fun index_of :: "'a \<Rightarrow> 'a list \<Rightarrow> nat option" where
  "index_of x [] = None"
| "index_of x (y # ys) = (if x = y then Some 0 else map_option Suc (index_of x ys))"

lemma index_of_None: "index_of x ys = None \<longleftrightarrow> x \<notin> set ys"
  by (induction ys) auto

definition OrdinalControl :: "string \<Rightarrow> string \<Rightarrow> ordinal res" where
  "OrdinalControl scale v =
     (case dict_get ORDINAL_SCALES scale of
        None \<Rightarrow> Inl PlatformCompositionError
      | Some vs \<Rightarrow> if v \<in> set vs then Inr \<lparr>o_scale = scale, o_value = v\<rparr>
                   else Inl PlatformCompositionError)"

definition ordinal_rank :: "ordinal \<Rightarrow> nat res" where
  "ordinal_rank o1 =
     (case dict_get ORDINAL_SCALES (o_scale o1) of
        None \<Rightarrow> Inl KeyError
      | Some vs \<Rightarrow> (case index_of (o_value o1) vs of None \<Rightarrow> Inl ValueError | Some i \<Rightarrow> Inr i))"

definition ordinal_compose :: "ordinal \<Rightarrow> ordinal \<Rightarrow> ordinal res" where
  "ordinal_compose self narrower =
     (if o_scale narrower \<noteq> o_scale self then Inl PlatformCompositionError
      else rbind (ordinal_rank self) (\<lambda>r.
           rbind (ordinal_rank narrower) (\<lambda>q. Inr (if r \<ge> q then self else narrower))))"

definition is_at_least_as_strict_as :: "ordinal \<Rightarrow> ordinal \<Rightarrow> bool res" where
  "is_at_least_as_strict_as self c =
     rbind (ordinal_rank self) (\<lambda>r. rbind (ordinal_rank c) (\<lambda>q. Inr (r \<ge> q)))"

definition ordinal_ok :: "ordinal \<Rightarrow> bool" where
  "ordinal_ok o1 \<longleftrightarrow> OrdinalControl (o_scale o1) (o_value o1) = Inr o1"

lemma OrdinalControl_ok: "OrdinalControl s v = Inr o1 \<Longrightarrow> ordinal_ok o1 \<and> o_scale o1 = s \<and> o_value o1 = v"
  by (auto simp: OrdinalControl_def ordinal_ok_def split: option.splits if_splits)

lemma ordinal_rank_total: "ordinal_ok o1 \<Longrightarrow> \<exists>r. ordinal_rank o1 = Inr r"
  by (auto simp: ordinal_ok_def OrdinalControl_def ordinal_rank_def
      split: option.splits if_splits) (metis index_of_None option.exhaust)

text \<open>The level an ordinal demands, and whether a run at rank \<open>r\<close> meets it.\<close>

definition ordinal_admits :: "ordinal \<Rightarrow> nat \<Rightarrow> bool" where
  "ordinal_admits o1 r \<longleftrightarrow> (case ordinal_rank o1 of Inl _ \<Rightarrow> False | Inr q \<Rightarrow> q \<le> r)"

interpretation ordinals: chain_narrowing
  ordinal_ok "\<lambda>a b. o_scale a = o_scale b" ordinal_admits ordinal_compose
proof
  fix a b
  assume "ordinal_ok a" "ordinal_ok b" "o_scale a = o_scale b"
  then show "\<exists>c. ordinal_compose a b = Inr c \<and> ordinal_ok c"
    using ordinal_rank_total [of a] ordinal_rank_total [of b]
    by (auto simp: ordinal_compose_def)
next
  fix a b c i
  assume "ordinal_ok a" "ordinal_ok b" "ordinal_compose a b = Inr c"
  then show "ordinal_admits c i = (ordinal_admits a i \<and> ordinal_admits b i)"
    using ordinal_rank_total [of a] ordinal_rank_total [of b]
    by (auto simp: ordinal_compose_def ordinal_admits_def split: if_splits)
next
  fix a b x c
  assume "o_scale a = o_scale b" "o_scale a = o_scale x" "ordinal_compose a b = Inr c"
  then show "o_scale c = o_scale x"
    by (auto simp: ordinal_compose_def res_simps split: if_splits)
qed auto

section \<open>CapabilityGate\<close>

record capability_gate =
  g_enabled :: bool
  g_scopes :: "(string, ruleset_like) dict"

text \<open>\<open>base.compose\<close> exists on a \<open>ScopedRuleset\<close>; any other base is wrapped.\<close>

definition gate_merge_scope ::
  "string \<times> ruleset_like \<Rightarrow> (string, ruleset_like) dict \<Rightarrow> (string, ruleset_like) dict" where
  "gate_merge_scope nr merged =
     (case nr of (name, ruleset) \<Rightarrow>
        (case dict_get merged name of
           Some (Scoped base) \<Rightarrow> dict_set name (scoped_compose base ruleset) merged
         | Some base \<Rightarrow> dict_set name (AndRuleset base ruleset) merged
         | None \<Rightarrow> dict_set name ruleset merged))"

definition gate_compose :: "capability_gate \<Rightarrow> capability_gate \<Rightarrow> capability_gate" where
  "gate_compose self narrower =
     \<lparr>g_enabled = (g_enabled self \<and> g_enabled narrower),
      g_scopes = fold gate_merge_scope (g_scopes narrower) (g_scopes self)\<rparr>"

definition permits_scope_item :: "registry \<Rightarrow> capability_gate \<Rightarrow> string \<Rightarrow> string \<Rightarrow> decision res" where
  "permits_scope_item R g scope_name x =
     (if \<not> g_enabled g then Inr (Decision False CapabilityDisabled GateRule BothLayers)
      else case dict_get (g_scopes g) scope_name of
             None \<Rightarrow> Inr (Decision True (ScopeUnconstrained scope_name) GateRule NoLayer)
           | Some ruleset \<Rightarrow> permits R ruleset x)"

definition gate_ok :: "registry \<Rightarrow> capability_gate \<Rightarrow> bool" where
  "gate_ok R g \<longleftrightarrow> dict_wf (g_scopes g) \<and> (\<forall>(n, r) \<in> set (g_scopes g). ruleset_ok R r)"

lemma gate_merge_scope_eq:
  "gate_merge_scope (n, r) m =
     dict_set n (case dict_get m n of None \<Rightarrow> r | Some b \<Rightarrow> ruleset_compose b r) m"
  by (auto simp: gate_merge_scope_def split: option.splits ruleset_like.splits)

text \<open>The merged scopes: absent on both sides, from one side, or composed.\<close>

lemma fold_gate_merge:
  "dict_wf ns \<Longrightarrow>
   dict_get (fold gate_merge_scope ns m) k =
     (case dict_get ns k of
        None \<Rightarrow> dict_get m k
      | Some r \<Rightarrow> Some (case dict_get m k of None \<Rightarrow> r | Some b \<Rightarrow> ruleset_compose b r))"
proof (induction ns arbitrary: m)
  case Nil
  then show ?case by simp
next
  case (Cons p ns)
  obtain n r where p: "p = (n, r)" by (cases p)
  show ?case
  proof (cases "k = n")
    case True
    have "dict_get ns n = None" using Cons.prems p by (simp add: map_of_eq_None_iff)
    with Cons p True show ?thesis by (simp add: gate_merge_scope_eq)
  next
    case False
    with Cons p show ?thesis by (auto simp: gate_merge_scope_eq split: option.splits)
  qed
qed

lemma fold_gate_merge_wf:
  "dict_wf m \<Longrightarrow> dict_wf (fold gate_merge_scope ns m)"
  by (induction ns arbitrary: m) (auto simp: gate_merge_scope_eq split_paired_all)

lemma gate_ok_get: "gate_ok R g \<Longrightarrow> dict_get (g_scopes g) k = Some r \<Longrightarrow> ruleset_ok R r"
  by (auto simp: gate_ok_def dest!: dict_get_Some_in_set)

lemma gate_okI:
  "dict_wf (g_scopes g) \<Longrightarrow> (\<And>n r. dict_get (g_scopes g) n = Some r \<Longrightarrow> ruleset_ok R r) \<Longrightarrow> gate_ok R g"
  unfolding gate_ok_def by (metis (no_types, lifting) case_prodI2 dict_get_eq_Some)

lemma gate_compose_ok:
  assumes "gate_ok R a" "gate_ok R b"
  shows "gate_ok R (gate_compose a b)"
proof (rule gate_okI)
  show "dict_wf (g_scopes (gate_compose a b))"
    using assms by (simp add: gate_compose_def gate_ok_def fold_gate_merge_wf)
next
  fix n r
  assume n: "dict_get (g_scopes (gate_compose a b)) n = Some r"
  have wf: "dict_wf (g_scopes b)" using assms(2) by (simp add: gate_ok_def)
  show "ruleset_ok R r"
  proof (cases "dict_get (g_scopes b) n")
    case None
    with n have "dict_get (g_scopes a) n = Some r"
      by (simp add: gate_compose_def fold_gate_merge [OF wf])
    then show ?thesis by (rule gate_ok_get [OF assms(1)])
  next
    case (Some rb)
    with n have "r = (case dict_get (g_scopes a) n of None \<Rightarrow> rb | Some ra \<Rightarrow> ruleset_compose ra rb)"
      by (simp add: gate_compose_def fold_gate_merge [OF wf])
    then show ?thesis
      using gate_ok_get [OF assms(2) Some] gate_ok_get [OF assms(1)]
      by (simp add: ruleset_compose_ok split: option.splits)
  qed
qed

text \<open>
  What a gate lets through: the capability itself (\<open>None\<close>), or an item of one of its
  inner scopes.
\<close>

definition gate_allows :: "registry \<Rightarrow> capability_gate \<Rightarrow> (string \<times> string) option \<Rightarrow> bool" where
  "gate_allows R g q =
     (case q of None \<Rightarrow> g_enabled g | Some (s, x) \<Rightarrow> grants (permits_scope_item R g s x))"

lemma gate_compose_allows:
  assumes "gate_ok R b"
  shows "gate_allows R (gate_compose a b) q \<longleftrightarrow> gate_allows R a q \<and> gate_allows R b q"
proof (cases q)
  case None
  then show ?thesis by (simp add: gate_allows_def gate_compose_def)
next
  case (Some sx)
  obtain s x where sx: "sx = (s, x)" by (cases sx)
  have wf: "dict_wf (g_scopes b)" using assms by (simp add: gate_ok_def)
  show ?thesis
    using ruleset_compose_allows [of R _ _ x]
    by (auto simp: gate_allows_def Some sx permits_scope_item_def gate_compose_def
        fold_gate_merge [OF wf] allows_def split: option.splits)
qed

interpretation gates: chain_narrowing
  "gate_ok R" "\<lambda>_ _. True" "gate_allows R" "\<lambda>a b. Inr (gate_compose a b)"
  for R
  by unfold_locales (auto simp: gate_compose_allows gate_compose_ok)

section \<open>ScopedMap\<close>

record scoped_map =
  m_members :: ruleset_like
  m_posture :: "(string, (string, scoped_ruleset) dict) dict"

text \<open>
  \<open>base.compose\<close> is called on a \<open>ScopedRuleset\<close> only; any other base is returned as it is.
\<close>

definition map_compose :: "scoped_map \<Rightarrow> scoped_map \<Rightarrow> scoped_map" where
  "map_compose self narrower =
     \<lparr>m_members = (case m_members self of
                     Scoped base \<Rightarrow> scoped_compose base (m_members narrower)
                   | base \<Rightarrow> base),
      m_posture = m_posture self\<rparr>"

definition permits_member :: "registry \<Rightarrow> scoped_map \<Rightarrow> string \<Rightarrow> decision res" where
  "permits_member R m member = permits R (m_members m) member"

definition posture_permits ::
  "registry \<Rightarrow> scoped_map \<Rightarrow> string \<Rightarrow> string \<Rightarrow> string \<Rightarrow> decision res" where
  "posture_permits R m member leaf x =
     (case dict_get (m_posture m) member of
        None \<Rightarrow> Inr (Decision True (NoPosture member) ScopedMapRule NoLayer)
      | Some [] \<Rightarrow> Inr (Decision True (NoPosture member) ScopedMapRule NoLayer)
      | Some leaves \<Rightarrow>
          (case dict_get leaves leaf of
             None \<Rightarrow> Inr (Decision True (NoPostureLeaf leaf member) ScopedMapRule NoLayer)
           | Some rs \<Rightarrow> scoped_permits R rs x))"

text \<open>A map as a document declares it: its members are one ruleset, not a composition.\<close>

fun is_scoped :: "ruleset_like \<Rightarrow> bool" where
  "is_scoped (Scoped _) = True"
| "is_scoped _ = False"

definition posture_ok :: "registry \<Rightarrow> (string, (string, scoped_ruleset) dict) dict \<Rightarrow> bool" where
  "posture_ok R ps \<longleftrightarrow>
     list_all (\<lambda>(member, leaves). list_all (\<lambda>(leaf, rs). ruleset_ok R (Scoped rs)) leaves) ps"

definition map_ok :: "registry \<Rightarrow> scoped_map \<Rightarrow> bool" where
  "map_ok R m \<longleftrightarrow> ruleset_ok R (m_members m) \<and> posture_ok R (m_posture m)"

definition map_base :: "registry \<Rightarrow> scoped_map \<Rightarrow> bool" where
  "map_base R m \<longleftrightarrow> map_ok R m \<and> is_scoped (m_members m)"

definition map_allows :: "registry \<Rightarrow> scoped_map \<Rightarrow> string \<Rightarrow> bool" where
  "map_allows R m member = grants (permits_member R m member)"

lemma map_allows_eq: "map_allows R m x = allows R (m_members m) x"
  by (simp add: map_allows_def permits_member_def allows_def)

lemma map_compose_allows:
  "is_scoped (m_members a) \<Longrightarrow>
   map_allows R (map_compose a b) x \<longleftrightarrow> map_allows R a x \<and> map_allows R b x"
  by (cases "m_members a")
     (simp_all add: map_allows_eq map_compose_def scoped_compose_allows)

lemma map_compose_posture [simp]: "m_posture (map_compose a b) = m_posture a"
  by (simp add: map_compose_def)

lemma map_compose_ok: "map_ok R a \<Longrightarrow> map_ok R b \<Longrightarrow> map_ok R (map_compose a b)"
  using ruleset_compose_ok [of R "m_members a" "m_members b"]
  by (cases "m_members a") (auto simp: map_ok_def map_compose_def)

lemma posture_ok_get:
  "posture_ok R ps \<Longrightarrow> dict_get ps member = Some leaves \<Longrightarrow> dict_get leaves leaf = Some rs \<Longrightarrow>
   ruleset_ok R (Scoped rs)"
  by (fastforce simp: posture_ok_def list_all_iff dest!: dict_get_Some_in_set)

lemma posture_ok_set:
  "posture_ok R ps \<Longrightarrow> list_all (\<lambda>(leaf, rs). ruleset_ok R (Scoped rs)) ls \<Longrightarrow>
   posture_ok R (dict_set member ls ps)"
  unfolding posture_ok_def by (induction ps) auto

lemma posture_total: "posture_ok R (m_posture m) \<Longrightarrow> \<exists>d. posture_permits R m member leaf x = Inr d"
proof (cases "dict_get (m_posture m) member")
  case (Some leaves)
  assume ok: "posture_ok R (m_posture m)"
  have "\<exists>d. scoped_permits R rs x = Inr d" if "dict_get leaves leaf = Some rs" for rs
    using permits_total [OF posture_ok_get [OF ok Some that]] by simp
  with Some show ?thesis by (cases leaves) (auto simp: posture_permits_def split: option.splits)
qed (simp add: posture_permits_def)

interpretation maps: narrowing
  "map_base R" "map_ok R" "\<lambda>_ _. True" "map_allows R" "\<lambda>a b. Inr (map_compose a b)"
  for R
  by unfold_locales (auto simp: map_base_def map_compose_allows intro: map_compose_ok)

section \<open>Controls of any archetype\<close>

text \<open>
  A parsed control. \<open>CFlags\<close> is the raw object under the reserved scope
  \<open>sandbox._flags\<close>, which no query accepts.
\<close>

datatype control =
    CRuleset ruleset_like
  | COrdinal ordinal
  | CGate capability_gate
  | CMap scoped_map
  | CFlags jobj

text \<open>
  \<open>_compose_controls\<close>. A ruleset composes with whatever it is given; a non-ruleset then
  sits in a ruleset position.
\<close>

definition as_ruleset :: "control \<Rightarrow> ruleset_like" where
  "as_ruleset c = (case c of CRuleset r \<Rightarrow> r | _ \<Rightarrow> Opaque)"

fun compose_controls :: "control \<Rightarrow> control \<Rightarrow> control res" where
  "compose_controls (CRuleset (Scoped s)) n = Inr (CRuleset (scoped_compose s (as_ruleset n)))"
| "compose_controls (CRuleset (AndRuleset a b)) n =
     Inr (CRuleset (AndRuleset (AndRuleset a b) (as_ruleset n)))"
| "compose_controls (COrdinal o1) (COrdinal o2) =
     rbind (ordinal_compose o1 o2) (\<lambda>c. Inr (COrdinal c))"
| "compose_controls (CGate a) (CGate b) = Inr (CGate (gate_compose a b))"
| "compose_controls (CMap a) (CMap b) = Inr (CMap (map_compose a b))"
| "compose_controls _ _ = Inl PlatformCompositionError"

end
