(* ===== verification/Gov_Parse.thy ===== *)
theory Gov_Parse
  imports Gov_Controls
begin

text \<open>
  The scope catalog and the parser that turns a policy or profile document into controls
  (\<^verbatim>\<open>src/codex_crew/platform/governance.py\<close>: the \<open>from_dict\<close> constructors,
  \<open>SCOPE_CATALOG\<close>, \<open>register_scope\<close>, \<open>_parse_control\<close>, \<open>_parse_controls\<close>).
  The registries the enforcer owns are one record, an argument of every function: the match
  strategies, the scope catalog, and CPython's \<open>repr\<close> for the values \<open>str()\<close> renders.
  Logging is not modelled.
\<close>

section \<open>Catalog entries\<close>

datatype scope_kind = RULESET | ORDINAL | CAPABILITY | SCOPEDMAP

record scope_spec =
  sp_kind :: scope_kind
  sp_matcher :: string
  sp_ordinal_scale :: string
  sp_capability_default :: bool
  sp_scope_matchers :: "(string, string) dict"
  sp_always_permitted :: "string list"

definition ScopeSpec :: "scope_kind \<Rightarrow> scope_spec" where
  "ScopeSpec k = \<lparr>sp_kind = k, sp_matcher = ''identifier'', sp_ordinal_scale = [],
     sp_capability_default = False, sp_scope_matchers = [], sp_always_permitted = []\<rparr>"

record enforcer =
  e_matchers :: registry
  e_catalog :: "(string, scope_spec) dict"
  e_repr :: "json \<Rightarrow> string"

definition ruleset_spec :: "string \<Rightarrow> scope_spec" where
  "ruleset_spec m = (ScopeSpec RULESET)\<lparr>sp_matcher := m\<rparr>"

definition ordinal_spec :: "string \<Rightarrow> scope_spec" where
  "ordinal_spec sc = (ScopeSpec ORDINAL)\<lparr>sp_ordinal_scale := sc\<rparr>"

definition capability_spec :: "bool \<Rightarrow> (string, string) dict \<Rightarrow> scope_spec" where
  "capability_spec dflt ms =
     (ScopeSpec CAPABILITY)\<lparr>sp_capability_default := dflt, sp_scope_matchers := ms\<rparr>"

definition SCOPE_CATALOG :: "(string, scope_spec) dict" where
  "SCOPE_CATALOG =
     [(''tools'', ruleset_spec ''identifier''),
      (''approval_modes'', (ruleset_spec ''identifier'')
         \<lparr>sp_always_permitted := [''normal'', ''trust'', ''trust_reads'']\<rparr>),
      (''mcp'', ruleset_spec ''mcp''),
      (''apps'', ruleset_spec ''identifier''),
      (''commands'', ruleset_spec ''command''),
      (''filesystem.read'', ruleset_spec ''path''),
      (''filesystem.write'', ruleset_spec ''path''),
      (''folders.read'', ruleset_spec ''path''),
      (''folders.write'', ruleset_spec ''path''),
      (''network.egress'', ruleset_spec ''host''),
      (''channels'', ScopeSpec SCOPEDMAP),
      (''approval_mode'', ordinal_spec ''approval''),
      (''sandbox.min_level'', ordinal_spec ''sandbox''),
      (''yolo_duration'', ruleset_spec ''identifier''),
      (''agent_backend'', ruleset_spec ''identifier''),
      (''capabilities.spawn'', capability_spec True [(''agents'', ''identifier'')]),
      (''capabilities.memory_writes'', capability_spec True []),
      (''capabilities.browse'', capability_spec True []),
      (''capabilities.script_hooks'', capability_spec False []),
      (''capabilities.cron'', capability_spec False []),
      (''capabilities.messaging'', capability_spec False []),
      (''capabilities.agentcore'', capability_spec False []),
      (''capabilities.publish'', capability_spec False [(''destinations'', ''identifier'')]),
      (''capabilities.theme_persona'', capability_spec True []),
      (''capabilities.theme_install'', capability_spec True []),
      (''capabilities.telemetry'', capability_spec True []),
      (''capabilities.tailnet_origin'', capability_spec True []),
      (''capabilities.mobile_connect'', capability_spec True [(''methods'', ''identifier'')]),
      (''capabilities.social_share'', capability_spec True [])]"

text \<open>The registries as the module initialises them.\<close>

definition stock_enforcer :: "host \<Rightarrow> (json \<Rightarrow> string) \<Rightarrow> enforcer" where
  "stock_enforcer h rep = \<lparr>e_matchers = MATCHERS h, e_catalog = SCOPE_CATALOG, e_repr = rep\<rparr>"

definition register_scope :: "string \<Rightarrow> scope_spec \<Rightarrow> enforcer \<Rightarrow> enforcer res" where
  "register_scope name spec E =
     rbind (case dict_get (e_catalog E) name of
              Some existing \<Rightarrow> ensure (existing = spec) ValueError
            | None \<Rightarrow> Inr ()) (\<lambda>_.
     rbind (ensure (sp_ordinal_scale spec = [] \<or>
              sp_ordinal_scale spec \<in> set (map fst ORDINAL_SCALES)) ValueError) (\<lambda>_.
     rbind (ensure (sp_matcher spec \<in> set (map fst (e_matchers E))) ValueError) (\<lambda>_.
     Inr (E\<lparr>e_catalog := dict_set name spec (e_catalog E)\<rparr>))))"

section \<open>Constructors from JSON objects\<close>

definition reject_unknown_keys :: "jobj \<Rightarrow> string list \<Rightarrow> unit res" where
  "reject_unknown_keys d known =
     ensure (list_all (\<lambda>k. k \<in> set known) (map fst d)) PlatformCompositionError"

definition str_tuple :: "enforcer \<Rightarrow> json \<Rightarrow> string list" where
  "str_tuple E v =
     (case v of JStr s \<Rightarrow> [s] | JArr xs \<Rightarrow> map (py_str (e_repr E)) xs | _ \<Rightarrow> [])"

definition scoped_from_dict :: "enforcer \<Rightarrow> string \<Rightarrow> jobj \<Rightarrow> scoped_ruleset res" where
  "scoped_from_dict E m d =
     rbind (reject_unknown_keys d [''mode'', ''allow'', ''deny'']) (\<lambda>_.
     let mode = casefold (strip (py_str (e_repr E) (jget_default d ''mode'' (JStr []))))
     in rbind (if mode = ''allow'' then Inr MODE_ALLOW
               else if mode = ''deny'' then Inr MODE_DENY
               else Inl PlatformCompositionError) (\<lambda>md.
        rbind (ensure (m \<in> set (map fst (e_matchers E))) PlatformCompositionError) (\<lambda>_.
        Inr \<lparr>rs_mode = md, rs_allow = str_tuple E (jget d ''allow''),
             rs_deny = str_tuple E (jget d ''deny''), rs_matcher = m\<rparr>)))"

definition gate_from_dict ::
  "enforcer \<Rightarrow> bool \<Rightarrow> (string, string) dict \<Rightarrow> jobj \<Rightarrow> capability_gate res" where
  "gate_from_dict E default_enabled matchers d =
     rbind (reject_unknown_keys d [''enabled'', ''scopes'']) (\<lambda>_.
     rbind (case jor (jget d ''scopes'') (JObj []) of
              JObj o1 \<Rightarrow> Inr o1 | _ \<Rightarrow> Inl PlatformCompositionError) (\<lambda>raw_scopes.
     rbind (traverse (\<lambda>(k, v). rbind
              (scoped_from_dict E (dict_get_default matchers k ''identifier'') v)
              (\<lambda>rs. Inr (k, Scoped rs)))
            (objects raw_scopes)) (\<lambda>scopes.
     rbind (case dict_get d ''enabled'' of
              None \<Rightarrow> Inr default_enabled
            | Some (JBool b) \<Rightarrow> Inr b
            | Some _ \<Rightarrow> Inl PlatformCompositionError) (\<lambda>enabled.
     Inr \<lparr>g_enabled = enabled, g_scopes = scopes\<rparr>))))"

text \<open>One member of the posture object: a non-object is skipped, an orphan is refused.\<close>

definition posture_entry ::
  "enforcer \<Rightarrow> scoped_ruleset \<Rightarrow> string \<times> json \<Rightarrow>
   (string, (string, scoped_ruleset) dict) dict \<Rightarrow> (string, (string, scoped_ruleset) dict) dict res" where
  "posture_entry E members entry acc =
     (case entry of (member, leaves_raw) \<Rightarrow>
        (case as_obj leaves_raw of
           None \<Rightarrow> Inr acc
         | Some leaves \<Rightarrow>
             rbind (scoped_permits (e_matchers E) members member) (\<lambda>dec.
             if \<not> permitted dec then Inl PlatformCompositionError
             else rbind (traverse (\<lambda>(leaf, val). rbind (scoped_from_dict E ''identifier'' val)
                            (\<lambda>rs. Inr (leaf, rs)))
                          (objects leaves))
                  (\<lambda>ls. Inr (dict_set member ls acc)))))"

definition map_from_dict :: "enforcer \<Rightarrow> bool \<Rightarrow> jobj \<Rightarrow> scoped_map res" where
  "map_from_dict E allow_posture d =
     rbind (reject_unknown_keys d [''members'', ''posture'']) (\<lambda>_.
     (case jget d ''members'' of
        JObj raw_members \<Rightarrow>
          rbind (scoped_from_dict E ''identifier'' raw_members) (\<lambda>members.
          let raw_posture = jget d ''posture''
          in if truthy raw_posture \<and> \<not> allow_posture then Inl PlatformCompositionError
             else rbind (case raw_posture of
                           JObj ps \<Rightarrow> fold_res (posture_entry E members) ps []
                         | _ \<Rightarrow> Inr []) (\<lambda>posture.
                  Inr \<lparr>m_members = Scoped members, m_posture = posture\<rparr>))
      | _ \<Rightarrow> Inl PlatformCompositionError))"

section \<open>One control\<close>

definition AGENTCORE_SCOPE :: string where
  "AGENTCORE_SCOPE = ''capabilities.agentcore''"

definition AGENTCORE_POLICY_ONLY :: "string list" where
  "AGENTCORE_POLICY_ONLY = [''posture'', ''gateway_url'', ''workload_name'']"

definition capability_raw_for_gate :: "string \<Rightarrow> bool \<Rightarrow> jobj \<Rightarrow> jobj res" where
  "capability_raw_for_gate scope is_policy raw =
     (if scope \<noteq> AGENTCORE_SCOPE then Inr raw
      else if \<not> list_ex (\<lambda>k. k \<in> set (map fst raw)) AGENTCORE_POLICY_ONLY then Inr raw
      else if \<not> is_policy then Inl PlatformCompositionError
      else Inr (filter (\<lambda>(k, v). k \<notin> set AGENTCORE_POLICY_ONLY) raw))"

definition floor_check :: "registry \<Rightarrow> scoped_ruleset \<Rightarrow> string \<Rightarrow> unit \<Rightarrow> unit res" where
  "floor_check R rs fl u =
     rbind (scoped_permits R rs fl) (\<lambda>dec. ensure (permitted dec) PlatformCompositionError)"

definition parse_control :: "enforcer \<Rightarrow> string \<Rightarrow> scope_spec \<Rightarrow> json \<Rightarrow> bool \<Rightarrow> control res" where
  "parse_control E scope spec raw is_policy =
     (case raw of
        JObj d \<Rightarrow>
          (case sp_kind spec of
             RULESET \<Rightarrow>
               rbind (scoped_from_dict E (sp_matcher spec) d) (\<lambda>rs.
               rbind (fold_res (floor_check (e_matchers E) rs) (sp_always_permitted spec) ()) (\<lambda>_.
               Inr (CRuleset (Scoped rs))))
           | ORDINAL \<Rightarrow>
               (case jor (jor (jget d ''value'') (jget d ''min_level'')) (jget d ''mode'') of
                  JStr v \<Rightarrow> rbind (OrdinalControl (sp_ordinal_scale spec) v) (\<lambda>o1. Inr (COrdinal o1))
                | _ \<Rightarrow> Inl PlatformCompositionError)
           | CAPABILITY \<Rightarrow>
               rbind (capability_raw_for_gate scope is_policy d) (\<lambda>gate_raw.
               rbind (gate_from_dict E (sp_capability_default spec) (sp_scope_matchers spec) gate_raw)
                 (\<lambda>g. Inr (CGate g)))
           | SCOPEDMAP \<Rightarrow>
               rbind (map_from_dict E is_policy d) (\<lambda>m. Inr (CMap m)))
      | JStr v \<Rightarrow>
          (if sp_kind spec = ORDINAL
           then rbind (OrdinalControl (sp_ordinal_scale spec) v) (\<lambda>o1. Inr (COrdinal o1))
           else Inl PlatformCompositionError)
      | _ \<Rightarrow> Inl PlatformCompositionError)"

section \<open>A document\<close>

definition STRUCTURAL_KEYS :: "string list" where
  "STRUCTURAL_KEYS =
     [''version'', ''boot'', ''identity'', ''name'', ''bind'', ''extends'', ''description'',
      ''updates'', ''distribution'', ''fallback'']"

definition KEY_OPEN_NAMESPACES :: "string list" where
  "KEY_OPEN_NAMESPACES = [''capabilities'']"

definition SANDBOX_FLAGS_SCOPE :: string where
  "SANDBOX_FLAGS_SCOPE = ''sandbox._flags''"

definition SANDBOX_RESERVED_FLAGS :: "string list" where
  "SANDBOX_RESERVED_FLAGS = [''require_isolation'', ''env_scrub_prefixes'']"

definition SCOPE_ALIASES :: "(string, string) dict" where
  "SCOPE_ALIASES =
     [(''folders.read'', ''filesystem.read''), (''folders.write'', ''filesystem.write'')]"

text \<open>The namespaces that have a fixed dotted child in the catalog (\<open>nested_children\<close>).\<close>

definition nested_heads :: "enforcer \<Rightarrow> string list" where
  "nested_heads E =
     List.map_filter (\<lambda>scope. case partition_at (CHR ''.'') scope of
         (h, found, t) \<Rightarrow> if found \<and> \<not> starts_with t ''_'' then Some h else None)
       (map fst (e_catalog E))"

type_synonym controls = "(string, control) dict"

text \<open>
  The state of the parser: the controls so far and, when the caller passed \<open>unknown_out\<close>,
  the tolerated unknown scopes.
\<close>

type_synonym parse_state = "controls \<times> string list option"

definition take_scope ::
  "enforcer \<Rightarrow> bool \<Rightarrow> bool \<Rightarrow> string \<Rightarrow> json \<Rightarrow> parse_state \<Rightarrow> parse_state res" where
  "take_scope E is_policy tolerate_unknown scope0 raw st =
     (let scope = dict_get_default SCOPE_ALIASES scope0 scope0;
          controls = fst st; unknown_out = snd st
      in case dict_get (e_catalog E) scope of
           None \<Rightarrow>
             (case unknown_out of
                Some us \<Rightarrow>
                  if tolerate_unknown \<and> raw = JObj [(''enabled'', JBool True)]
                  then Inr (controls, Some (us @ [scope]))
                  else Inl PlatformCompositionError
              | None \<Rightarrow> Inl PlatformCompositionError)
         | Some spec \<Rightarrow>
             rbind (parse_control E scope spec raw is_policy) (\<lambda>new.
             (case dict_get controls scope of
                Some existing \<Rightarrow>
                  rbind (compose_controls existing new)
                    (\<lambda>c. Inr (dict_set scope c controls, unknown_out))
              | None \<Rightarrow> Inr (dict_set scope new controls, unknown_out))))"

definition put_sandbox_flag :: "string \<Rightarrow> json \<Rightarrow> controls \<Rightarrow> controls" where
  "put_sandbox_flag sub raw controls =
     dict_set SANDBOX_FLAGS_SCOPE
       (CFlags (dict_set sub raw
          (case dict_get controls SANDBOX_FLAGS_SCOPE of Some (CFlags d) \<Rightarrow> d | _ \<Rightarrow> [])))
       controls"

definition take_child ::
  "enforcer \<Rightarrow> bool \<Rightarrow> string \<Rightarrow> string \<times> json \<Rightarrow> parse_state \<Rightarrow> parse_state res" where
  "take_child E is_policy key kv st =
     (case kv of (sub, sub_raw) \<Rightarrow>
        let dotted = key @ ''.'' @ sub
        in if dotted \<in> set (map fst (e_catalog E)) then take_scope E is_policy False dotted sub_raw st
           else if key = ''sandbox'' \<and> sub \<in> set SANDBOX_RESERVED_FLAGS
           then Inr (put_sandbox_flag sub sub_raw (fst st), snd st)
           else Inl PlatformCompositionError)"

definition take_open ::
  "enforcer \<Rightarrow> bool \<Rightarrow> bool \<Rightarrow> string \<Rightarrow> string \<times> json \<Rightarrow> parse_state \<Rightarrow> parse_state res" where
  "take_open E is_policy tolerate key kv st =
     (case kv of (child, child_raw) \<Rightarrow> take_scope E is_policy tolerate (key @ ''.'' @ child) child_raw st)"

definition take_key ::
  "enforcer \<Rightarrow> bool \<Rightarrow> string \<times> json \<Rightarrow> parse_state \<Rightarrow> parse_state res" where
  "take_key E is_policy kv st =
     (case kv of (key, raw) \<Rightarrow>
        if key \<in> set STRUCTURAL_KEYS then Inr st
        else if key \<in> set (map fst (e_catalog E)) then take_scope E is_policy False key raw st
        else (case as_obj raw of
                None \<Rightarrow> Inl PlatformCompositionError
              | Some children \<Rightarrow>
                  if key \<in> set KEY_OPEN_NAMESPACES
                  then fold_res (take_open E is_policy (\<not> is_policy \<and> snd st \<noteq> None) key) children st
                  else if key \<in> set (nested_heads E)
                  then fold_res (take_child E is_policy key) children st
                  else Inl PlatformCompositionError))"

definition parse_controls ::
  "enforcer \<Rightarrow> bool \<Rightarrow> string list option \<Rightarrow> jobj \<Rightarrow> parse_state res" where
  "parse_controls E is_policy unknown_out data =
     fold_res (take_key E is_policy) data ([], unknown_out)"

section \<open>What parsing guarantees\<close>

text \<open>
  A control fits its catalog entry: it has the archetype the entry names, its parts are
  well formed, and it lets through every identifier the scope may not forbid.
\<close>

fun leaf_matcher :: "string \<Rightarrow> ruleset_like \<Rightarrow> bool" where
  "leaf_matcher m (Scoped rs) = (rs_matcher rs = m)"
| "leaf_matcher m (AndRuleset a b) = (leaf_matcher m a \<and> leaf_matcher m b)"
| "leaf_matcher m Opaque = False"

fun kind_fits :: "registry \<Rightarrow> bool \<Rightarrow> scope_spec \<Rightarrow> control \<Rightarrow> bool" where
  "kind_fits R p spec (CRuleset r) =
     (sp_kind spec = RULESET \<and> ruleset_ok R r \<and> leaf_matcher (sp_matcher spec) r \<and> list_all (allows R r) (sp_always_permitted spec))"
| "kind_fits R p spec (COrdinal o1) =
     (sp_kind spec = ORDINAL \<and> ordinal_ok o1 \<and> o_scale o1 = sp_ordinal_scale spec)"
| "kind_fits R p spec (CGate g) = (sp_kind spec = CAPABILITY \<and> gate_ok R g)"
| "kind_fits R p spec (CMap m) = (sp_kind spec = SCOPEDMAP \<and> map_ok R m \<and> (\<not> p \<longrightarrow> m_posture m = []))"
| "kind_fits R p spec (CFlags d) = False"

fun is_flags :: "control \<Rightarrow> bool" where
  "is_flags (CFlags d) = True"
| "is_flags _ = False"

definition control_ok :: "enforcer \<Rightarrow> bool \<Rightarrow> string \<Rightarrow> control \<Rightarrow> bool" where
  "control_ok E p scope c \<longleftrightarrow>
     (if scope = SANDBOX_FLAGS_SCOPE then is_flags c
      else (case dict_get (e_catalog E) scope of
              None \<Rightarrow> False | Some spec \<Rightarrow> kind_fits (e_matchers E) p spec c))"

lemma control_ok_iff:
  "control_ok E p scope c \<longleftrightarrow>
     (if scope = SANDBOX_FLAGS_SCOPE then \<exists>d. c = CFlags d
      else \<exists>spec. dict_get (e_catalog E) scope = Some spec \<and> kind_fits (e_matchers E) p spec c)"
  by (cases c) (auto simp: control_ok_def split: option.splits)

definition controls_ok :: "enforcer \<Rightarrow> bool \<Rightarrow> controls \<Rightarrow> bool" where
  "controls_ok E p cs \<longleftrightarrow> dict_wf cs \<and> (\<forall>s c. dict_get cs s = Some c \<longrightarrow> control_ok E p s c)"

definition enforcer_ok :: "enforcer \<Rightarrow> bool" where
  "enforcer_ok E \<longleftrightarrow> SANDBOX_FLAGS_SCOPE \<notin> set (map fst (e_catalog E))"

lemma scoped_from_dict_ok:
  "scoped_from_dict E m d = Inr rs \<Longrightarrow> rs_matcher rs \<in> fst ` set (e_matchers E)"
  by (auto simp: scoped_from_dict_def res_simps Let_def split: if_splits intro: rev_image_eqI)

lemma scoped_from_dict_matcher: "scoped_from_dict E m d = Inr rs \<Longrightarrow> rs_matcher rs = m"
  by (auto simp: scoped_from_dict_def res_simps Let_def split: if_splits)

lemma traverse_keys:
  "traverse (\<lambda>(k, v). rbind (f k v) (\<lambda>r. Inr (k, g r))) xs = Inr ys \<Longrightarrow> map fst ys = map fst xs"
  by (induction xs arbitrary: ys) (auto simp: res_simps)

lemma gate_from_dict_ok:
  assumes "gate_from_dict E dflt ms d = Inr g" and "json_wf (JObj d)"
  shows "gate_ok (e_matchers E) g"
proof -
  let ?mk = "\<lambda>(k, v). rbind (scoped_from_dict E (dict_get_default ms k ''identifier'') v)
              (\<lambda>rs. Inr (k, Scoped rs))"
  obtain raw scopes where raw: "jor (jget d ''scopes'') (JObj []) = JObj raw"
    and tr: "traverse ?mk (objects raw) = Inr scopes" and g: "g_scopes g = scopes"
    using assms(1) unfolding gate_from_dict_def
    by (auto simp: res_simps split: json.splits)
  have "json_wf (JObj raw)"
    using raw json_wf_jget [OF assms(2), of "''scopes''"] by (auto simp: jor_def split: if_splits)
  then have "distinct (map fst (objects raw))" by (intro objects_distinct) simp
  moreover have "map fst scopes = map fst (objects raw)" using tr by (rule traverse_keys)
  moreover have "ruleset_ok (e_matchers E) r" if "(n, r) \<in> set scopes" for n r
    using traverse_set [OF tr that] by (auto simp: res_simps scoped_from_dict_ok)
  ultimately show ?thesis by (auto simp: gate_ok_def g)
qed

lemma posture_entry_ok:
  assumes "posture_entry E members entry acc = Inr acc'" and "posture_ok (e_matchers E) acc"
  shows "posture_ok (e_matchers E) acc'"
proof -
  obtain member raw where e: "entry = (member, raw)" by (cases entry)
  note run = assms(1) [unfolded e posture_entry_def prod.case]
  show ?thesis
  proof (cases "as_obj raw")
    case None
    with run assms(2) show ?thesis by simp
  next
    case (Some leaves)
    with run obtain ls where ls: "acc' = dict_set member ls acc"
      and tr: "traverse (\<lambda>(leaf, val). rbind (scoped_from_dict E ''identifier'' val)
                 (\<lambda>rs. Inr (leaf, rs))) (objects leaves) = Inr ls"
      by (auto simp: res_simps split: if_splits)
    have "ruleset_ok (e_matchers E) (Scoped rs)" if "(leaf, rs) \<in> set ls" for leaf rs
      using traverse_set [OF tr that] by (auto simp: res_simps scoped_from_dict_ok)
    with assms(2) ls show ?thesis by (auto intro!: posture_ok_set simp: list_all_iff)
  qed
qed

lemma map_from_dict_ok:
  assumes "map_from_dict E ap d = Inr m"
  shows "map_base (e_matchers E) m \<and> (\<not> ap \<longrightarrow> m_posture m = [])"
proof -
  obtain raw where raw: "jget d ''members'' = JObj raw"
    using assms by (cases "jget d ''members''") (auto simp: map_from_dict_def res_simps)
  with assms obtain members posture
    where mem: "scoped_from_dict E ''identifier'' raw = Inr members"
      and post: "(case jget d ''posture'' of JObj ps \<Rightarrow> fold_res (posture_entry E members) ps []
                   | _ \<Rightarrow> Inr []) = Inr posture"
      and m: "m = \<lparr>m_members = Scoped members, m_posture = posture\<rparr>"
      and ap: "\<not> ap \<longrightarrow> \<not> truthy (jget d ''posture'')"
    by (auto simp: map_from_dict_def res_simps Let_def split: if_splits)
  have "posture_ok (e_matchers E) posture"
  proof (cases "jget d ''posture''")
    case (JObj ps)
    with post have "fold_res (posture_entry E members) ps [] = Inr posture" by simp
    then show ?thesis
      by (rule fold_res_invariant) (simp add: posture_ok_def, rule posture_entry_ok)
  qed (use post in \<open>auto simp: posture_ok_def\<close>)
  moreover have "\<not> ap \<longrightarrow> posture = []"
    using ap post by (cases "jget d ''posture''") auto
  ultimately show ?thesis using m mem by (simp add: map_base_def map_ok_def scoped_from_dict_ok)
qed

lemma floor_checked:
  "fold_res (floor_check R rs) fls u = Inr v \<Longrightarrow> list_all (allows R (Scoped rs)) fls"
  by (induction fls arbitrary: u) (auto simp: floor_check_def res_simps allows_def)

lemma capability_raw_wf:
  "capability_raw_for_gate s p d = Inr d' \<Longrightarrow> json_wf (JObj d) \<Longrightarrow> json_wf (JObj d')"
  by (auto simp: capability_raw_for_gate_def distinct_map_filter split: if_splits)

lemma parse_control_fits:
  assumes "parse_control E scope spec raw p = Inr c" and "json_wf raw"
  shows "kind_fits (e_matchers E) p spec c"
proof (cases raw)
  case (JObj d)
  note parse = assms(1) [unfolded parse_control_def JObj json.case]
  show ?thesis
  proof (cases "sp_kind spec")
    case RULESET
    with parse obtain rs where "scoped_from_dict E (sp_matcher spec) d = Inr rs"
      and "fold_res (floor_check (e_matchers E) rs) (sp_always_permitted spec) () = Inr ()"
      and "c = CRuleset (Scoped rs)"
      by (auto simp: res_simps)
    with RULESET show ?thesis by (auto dest: scoped_from_dict_ok scoped_from_dict_matcher floor_checked)
  next
    case ORDINAL
    with parse show ?thesis by (auto simp: res_simps split: json.splits dest!: OrdinalControl_ok)
  next
    case CAPABILITY
    with parse obtain d' g where "capability_raw_for_gate scope p d = Inr d'"
      and g: "gate_from_dict E (sp_capability_default spec) (sp_scope_matchers spec) d' = Inr g"
      and "c = CGate g"
      by (auto simp: res_simps)
    moreover have "json_wf (JObj d')"
      using assms(2) JObj calculation(1) capability_raw_wf by blast
    ultimately show ?thesis using CAPABILITY gate_from_dict_ok [OF g] by simp
  next
    case SCOPEDMAP
    with parse show ?thesis by (auto simp: res_simps map_base_def dest: map_from_dict_ok)
  qed
next
  case (JStr v)
  with assms show ?thesis
    by (auto simp: parse_control_def res_simps split: if_splits dest!: OrdinalControl_ok)
qed (use assms in \<open>auto simp: parse_control_def\<close>)

lemma leaf_matcher_compose:
  "leaf_matcher m a \<Longrightarrow> leaf_matcher m b \<Longrightarrow> leaf_matcher m (ruleset_compose a b)"
  by (cases a; cases b) (auto simp: scoped_compose_def)

lemma compose_controls_fits:
  assumes "compose_controls a b = Inr c" and "kind_fits R p spec a" and "kind_fits R p spec b"
  shows "kind_fits R p spec c"
proof -
  have floors: "list_all (allows R (ruleset_compose r t)) (sp_always_permitted spec)"
    if "list_all (allows R r) (sp_always_permitted spec)"
      and "list_all (allows R t) (sp_always_permitted spec)" for r t
    using that by (simp add: list_all_iff ruleset_compose_allows)
  consider r t where "a = CRuleset r" "b = CRuleset t"
    | x y where "a = COrdinal x" "b = COrdinal y"
    | x y where "a = CGate x" "b = CGate y"
    | x y where "a = CMap x" "b = CMap y"
    using assms by (cases a; cases b) auto
  then show ?thesis
  proof cases
    case 1
    moreover from this assms have "c = CRuleset (ruleset_compose r t)"
      by (cases r) (auto simp: as_ruleset_def)
    ultimately show ?thesis
      using assms floors by (simp add: ruleset_compose_ok leaf_matcher_compose)
  next
    case 2
    with assms obtain z where "ordinal_compose x y = Inr z" "c = COrdinal z"
      by (auto simp: res_simps)
    moreover have "ordinal_ok z \<and> o_scale z = o_scale x"
      using 2 assms calculation by (auto simp: ordinal_compose_def res_simps split: if_splits)
    ultimately show ?thesis using 2 assms by simp
  next
    case 3
    with assms show ?thesis by (auto intro: gate_compose_ok)
  next
    case 4
    with assms show ?thesis by (auto simp: map_compose_ok)
  qed
qed

lemma controls_ok_get: "controls_ok E p cs \<Longrightarrow> dict_get cs s = Some c \<Longrightarrow> control_ok E p s c"
  by (simp add: controls_ok_def)

lemma kind_fits_mono: "kind_fits R p spec c \<Longrightarrow> kind_fits R True spec c"
  by (cases c) auto

lemma controls_ok_mono: "controls_ok E p cs \<Longrightarrow> controls_ok E True cs"
  unfolding controls_ok_def control_ok_iff using kind_fits_mono by meson

lemma controls_ok_Nil: "controls_ok E p []"
  by (simp add: controls_ok_def)

lemma controls_ok_set:
  "controls_ok E p cs \<Longrightarrow> control_ok E p s c \<Longrightarrow> controls_ok E p (dict_set s c cs)"
  by (simp add: controls_ok_def)

lemma take_scope_ok:
  assumes "take_scope E p t s raw st = Inr st'" and "enforcer_ok E"
    and "controls_ok E p (fst st)" and "json_wf raw"
  shows "controls_ok E p (fst st')"
proof -
  define sc where "sc = dict_get_default SCOPE_ALIASES s s"
  note run = assms(1) [unfolded take_scope_def Let_def, folded sc_def]
  show ?thesis
  proof (cases "dict_get (e_catalog E) sc")
    case None
    with run assms(3) show ?thesis by (auto split: option.splits if_splits)
  next
    case (Some spec)
    then have sb: "sc \<noteq> SANDBOX_FLAGS_SCOPE"
      using assms(2) by (auto simp: enforcer_ok_def image_iff dest!: dict_get_Some_in_set)
    from run Some obtain new where new: "parse_control E sc spec raw p = Inr new"
      by (auto simp: res_simps)
    have fit: "kind_fits (e_matchers E) p spec new"
      using new assms(4) by (rule parse_control_fits)
    show ?thesis
    proof (cases "dict_get (fst st) sc")
      case None
      with run Some new have "fst st' = dict_set sc new (fst st)" by auto
      with fit sb Some assms(3) show ?thesis by (simp add: controls_ok_set control_ok_iff)
    next
      case (Some old)
      with run \<open>dict_get (e_catalog E) sc = Some spec\<close> new obtain c
        where c: "compose_controls old new = Inr c" "fst st' = dict_set sc c (fst st)"
        by (auto simp: res_simps)
      have "kind_fits (e_matchers E) p spec old"
        using assms(3) Some sb \<open>dict_get (e_catalog E) sc = Some spec\<close>
        by (auto dest!: controls_ok_get simp: control_ok_iff)
      then have "kind_fits (e_matchers E) p spec c"
        using compose_controls_fits [OF c(1)] fit by blast
      with c(2) sb \<open>dict_get (e_catalog E) sc = Some spec\<close> assms(3)
      show ?thesis by (simp add: controls_ok_set control_ok_iff)
    qed
  qed
qed

lemma put_sandbox_flag_ok: "controls_ok E p cs \<Longrightarrow> controls_ok E p (put_sandbox_flag k v cs)"
  by (simp add: put_sandbox_flag_def controls_ok_set control_ok_iff)

lemma take_child_ok:
  assumes "take_child E p key kv st = Inr st'" and "enforcer_ok E"
    and "controls_ok E p (fst st)" and "json_wf (snd kv)"
  shows "controls_ok E p (fst st')"
  using assms
  by (cases kv) (auto simp: take_child_def Let_def put_sandbox_flag_ok split: if_splits
      intro: take_scope_ok)

lemma take_open_ok:
  assumes "take_open E p t key kv st = Inr st'" and "enforcer_ok E"
    and "controls_ok E p (fst st)" and "json_wf (snd kv)"
  shows "controls_ok E p (fst st')"
  using assms by (cases kv) (auto simp: take_open_def intro: take_scope_ok)

lemma take_key_ok:
  assumes "take_key E p kv st = Inr st'" and "enforcer_ok E"
    and "controls_ok E p (fst st)" and "json_wf (snd kv)"
  shows "controls_ok E p (fst st')"
proof -
  obtain key raw where kv: "kv = (key, raw)" by (cases kv)
  note run = assms(1) [unfolded kv take_key_def prod.case]
  show ?thesis
  proof (cases "key \<in> set STRUCTURAL_KEYS \<or> key \<in> set (map fst (e_catalog E))")
    case True
    with run assms kv show ?thesis by (auto split: if_splits intro: take_scope_ok)
  next
    case False
    with run obtain children where ch: "raw = JObj children" by (cases "as_obj raw") auto
    then have wf: "\<forall>kv \<in> set children. json_wf (snd kv)" using assms(4) kv by simp
    from run ch False consider
        (open_ns) "fold_res (take_open E p (\<not> p \<and> snd st \<noteq> None) key) children st = Inr st'"
      | (fixed) "fold_res (take_child E p key) children st = Inr st'"
      by (auto split: if_splits)
    then show ?thesis
    proof cases
      case open_ns
      then show ?thesis
        by (rule fold_res_invariant [where P = "\<lambda>st. controls_ok E p (fst st)"])
           (use assms wf in \<open>auto elim: take_open_ok\<close>)
    next
      case fixed
      then show ?thesis
        by (rule fold_res_invariant [where P = "\<lambda>st. controls_ok E p (fst st)"])
           (use assms wf in \<open>auto elim: take_child_ok\<close>)
    qed
  qed
qed

lemma parse_controls_ok:
  assumes "parse_controls E p u d = Inr st" and "enforcer_ok E" and "json_wf (JObj d)"
  shows "controls_ok E p (fst st)"
  using assms(1) unfolding parse_controls_def
  by (rule fold_res_invariant [where P = "\<lambda>st. controls_ok E p (fst st)"])
     (use assms in \<open>auto simp: controls_ok_Nil elim: take_key_ok\<close>)

section \<open>Only recognised keys\<close>

definition known_scope :: "enforcer \<Rightarrow> string \<Rightarrow> bool" where
  "known_scope E s \<longleftrightarrow> dict_get (e_catalog E) (dict_get_default SCOPE_ALIASES s s) \<noteq> None"

text \<open>
  The keys a document may carry: structural ones, catalog scopes, the known children of a
  key-open namespace (an unknown child only where tolerated, and only as exactly
  \<open>{"enabled": true}\<close>), the catalog children of a fixed namespace, and the reserved sandbox
  flags.
\<close>

definition recognised :: "enforcer \<Rightarrow> bool \<Rightarrow> string \<times> json \<Rightarrow> bool" where
  "recognised E tolerate kv =
     (case kv of (key, raw) \<Rightarrow>
        key \<in> set STRUCTURAL_KEYS \<or> key \<in> set (map fst (e_catalog E)) \<or>
        (case as_obj raw of
           None \<Rightarrow> False
         | Some children \<Rightarrow>
             if key \<in> set KEY_OPEN_NAMESPACES
             then list_all (\<lambda>(child, v). known_scope E (key @ ''.'' @ child) \<or>
                     (tolerate \<and> v = JObj [(''enabled'', JBool True)])) children
             else if key \<in> set (nested_heads E)
             then list_all (\<lambda>(sub, v). key @ ''.'' @ sub \<in> set (map fst (e_catalog E)) \<or>
                     (key = ''sandbox'' \<and> sub \<in> set SANDBOX_RESERVED_FLAGS)) children
             else False))"

lemma take_scope_recognised:
  "take_scope E p t s raw st = Inr st' \<Longrightarrow>
   known_scope E s \<or> (t \<and> snd st \<noteq> None \<and> raw = JObj [(''enabled'', JBool True)])"
  by (auto simp: take_scope_def known_scope_def Let_def split: option.splits if_splits)

lemma take_scope_out: "take_scope E p t s raw st = Inr st' \<Longrightarrow> (snd st' = None) = (snd st = None)"
  by (auto simp: take_scope_def Let_def res_simps split: option.splits if_splits)

lemma take_child_out: "take_child E p key kv st = Inr st' \<Longrightarrow> (snd st' = None) = (snd st = None)"
  by (cases kv) (auto simp: take_child_def Let_def split: if_splits dest: take_scope_out)

lemma fold_res_step:
  "fold_res f xs s = Inr t \<Longrightarrow> x \<in> set xs \<Longrightarrow> (\<And>y u v. f y u = Inr v \<Longrightarrow> P u = P v) \<Longrightarrow>
   \<exists>u v. f x u = Inr v \<and> P u = P s"
proof (induction xs arbitrary: s)
  case (Cons y xs)
  then obtain u where u: "f y s = Inr u" "fold_res f xs u = Inr t" by (auto simp: res_simps)
  show ?case
  proof (cases "x = y")
    case True
    with u(1) show ?thesis by blast
  next
    case False
    with Cons.prems(2) have "x \<in> set xs" by simp
    from Cons.IH [OF u(2) this Cons.prems(3)] Cons.prems(3) [OF u(1)] show ?thesis by simp
  qed
qed simp

lemma take_open_out: "take_open E p t key kv st = Inr st' \<Longrightarrow> (snd st' = None) = (snd st = None)"
  by (cases kv) (auto simp: take_open_def dest: take_scope_out)

lemma fold_res_out:
  assumes "fold_res f cs st = Inr st'" and "\<And>x s s'. f x s = Inr s' \<Longrightarrow> (snd s' = None) = (snd s = None)"
  shows "(snd st' = None) = (snd st = None)"
  using assms(1)
  by (rule fold_res_invariant [where P = "\<lambda>s. (snd s = None) = (snd st = None)"])
     (simp_all only: assms(2))

lemma take_key_out:
  assumes "take_key E p kv st = Inr st'"
  shows "(snd st' = None) = (snd st = None)"
proof -
  obtain key raw where kv: "kv = (key, raw)" by (cases kv)
  note run = assms [unfolded kv take_key_def prod.case]
  show ?thesis
  proof (cases "key \<in> set STRUCTURAL_KEYS")
    case True
    with run show ?thesis by simp
  next
    case ns: False
    show ?thesis
    proof (cases "key \<in> set (map fst (e_catalog E))")
      case True
      with run ns have "take_scope E p False key raw st = Inr st'" by simp
      then show ?thesis by (rule take_scope_out)
    next
      case nc: False
      with run ns obtain cs where cs: "raw = JObj cs" by (cases "as_obj raw") auto
      show ?thesis
      proof (cases "key \<in> set KEY_OPEN_NAMESPACES")
        case True
        from run cs ns nc True have "fold_res (take_open E p (\<not> p \<and> snd st \<noteq> None) key) cs st = Inr st'"
          by simp
        then show ?thesis using take_open_out by (rule fold_res_out)
      next
        case False
        with run cs ns nc have "fold_res (take_child E p key) cs st = Inr st'"
          by (simp split: if_splits)
        then show ?thesis using take_child_out by (rule fold_res_out)
      qed
    qed
  qed
qed

lemma take_key_recognised:
  assumes "take_key E p kv st = Inr st'"
  shows "recognised E (\<not> p \<and> snd st \<noteq> None) kv"
proof -
  obtain key raw where kv: "kv = (key, raw)" by (cases kv)
  note run = assms [unfolded kv take_key_def prod.case]
  show ?thesis
  proof (cases "key \<in> set STRUCTURAL_KEYS \<or> key \<in> set (map fst (e_catalog E))")
    case True
    then show ?thesis unfolding kv recognised_def prod.case by blast
  next
    case False
    with run obtain children where ch: "raw = JObj children" by (cases "as_obj raw") auto
    show ?thesis
    proof (cases "key \<in> set KEY_OPEN_NAMESPACES")
      case True
      with run ch False have f: "fold_res (take_open E p (\<not> p \<and> snd st \<noteq> None) key) children st = Inr st'"
        by auto
      have "known_scope E (key @ ''.'' @ child) \<or> ((\<not> p \<and> snd st \<noteq> None) \<and> v = JObj [(''enabled'', JBool True)])"
        if "(child, v) \<in> set children" for child v
        using fold_res_step [OF f that, of "\<lambda>s. snd s = None"] take_open_out
        by (fastforce simp: take_open_def dest: take_scope_recognised)
      with ch True show ?thesis
        unfolding kv recognised_def prod.case by (auto simp: list_all_iff)
    next
      case ko: False
      with run ch False have kn: "key \<in> set (nested_heads E)"
        and f: "fold_res (take_child E p key) children st = Inr st'" by (auto split: if_splits)
      have "key @ ''.'' @ sub \<in> set (map fst (e_catalog E)) \<or> (key = ''sandbox'' \<and> sub \<in> set SANDBOX_RESERVED_FLAGS)"
        if "(sub, v) \<in> set children" for sub v
        using fold_res_step [OF f that, of "\<lambda>s. True"] by (auto simp: take_child_def Let_def split: if_splits)
      with ch ko kn show ?thesis
        unfolding kv recognised_def prod.case by (auto simp: list_all_iff)
    qed
  qed
qed

text \<open>A document with an unrecognised key does not load: whatever the parser accepts carries
  recognised keys only, at the top level, inside \<open>capabilities\<close> and inside every fixed
  namespace; a policy tolerates no unknown capability, a profile only one it declares enabled.\<close>

theorem accepted_keys_are_recognised:
  assumes "parse_controls E is_policy unknown_out data = Inr st"
  shows "list_all (recognised E (\<not> is_policy \<and> unknown_out \<noteq> None)) data"
proof (unfold list_all_iff, intro ballI)
  fix kv
  assume "kv \<in> set data"
  from fold_res_step [OF assms [unfolded parse_controls_def] this, of "\<lambda>s. snd s = None"] take_key_out
  obtain u v where "take_key E is_policy kv u = Inr v" "(snd u = None) = (unknown_out = None)"
    by auto
  then show "recognised E (\<not> is_policy \<and> unknown_out \<noteq> None) kv"
    using take_key_recognised by fastforce
qed

lemma accepted_keys_are_recognised_witness:
  "list_all (recognised (stock_enforcer (plain_host ''/'') (\<lambda>v. [])) True)
     [(''sandbox'', JObj [(''min_level'', JStr ''strict'')]),
      (''capabilities'', JObj [(''vault'', JObj [(''enabled'', JBool True)])])]"
proof -
  let ?d = "[(''sandbox'', JObj [(''min_level'', JStr ''strict'')]),
      (''capabilities'', JObj [(''vault'', JObj [(''enabled'', JBool True)])])]"
  have "\<not> isl (parse_controls (stock_enforcer (plain_host ''/'') (\<lambda>v. [])) False (Some []) ?d)"
    by code_simp
  then obtain st where st: "parse_controls (stock_enforcer (plain_host ''/'') (\<lambda>v. [])) False (Some []) ?d = Inr st"
    by (metis isl_def sumE)
  show ?thesis using accepted_keys_are_recognised [OF st] by simp
qed

end
