(* ===== verification/Url.thy ===== *)
theory Url
  imports Gov_Match
begin

text \<open>
  URLs as the governance code reads them: \<open>urllib.parse.urlsplit\<close> on ASCII text, the
  authority's userinfo and port, the host extraction of the egress gate (\<open>_url_host\<close> and
  \<open>_looks_like_host\<close> in \<^verbatim>\<open>src/codex_crew/platform/governance.py\<close>) and the validators of
  \<^verbatim>\<open>src/codex_crew/platform/agentcore_schema.py\<close>. Whether a bracketed host is a valid
  address literal is decided by CPython's \<open>ipaddress\<close> and enters through the \<open>host\<close> record.
\<close>

section \<open>urlsplit\<close>

definition is_alpha :: "char \<Rightarrow> bool" where
  "is_alpha c \<longleftrightarrow> (let n = (of_char c :: nat) in (65 \<le> n \<and> n \<le> 90) \<or> (97 \<le> n \<and> n \<le> 122))"

definition scheme_char :: "char \<Rightarrow> bool" where
  "scheme_char c \<longleftrightarrow> is_alpha c \<or> is_digit c \<or> c \<in> {CHR ''+'', CHR ''-'', CHR ''.''}"

definition c0_or_space :: "char \<Rightarrow> bool" where
  "c0_or_space c \<longleftrightarrow> (of_char c :: nat) \<le> 32"

definition unsafe_char :: "char \<Rightarrow> bool" where
  "unsafe_char c \<longleftrightarrow> (of_char c :: nat) \<in> {9, 10, 13}"

definition netloc_delim :: "char \<Rightarrow> bool" where
  "netloc_delim c \<longleftrightarrow> c \<in> {CHR ''/'', CHR ''?'', CHR ''#''}"

record split_url =
  u_scheme :: string
  u_netloc :: string
  u_path :: string
  u_query :: string
  u_fragment :: string

definition split_scheme :: "string \<Rightarrow> string \<times> string" where
  "split_scheme url =
     (case partition_at (CHR '':'') url of
        (h, found, t) \<Rightarrow>
          if found \<and> h \<noteq> [] \<and> is_alpha (hd h) \<and> list_all scheme_char h then (casefold h, t)
          else ([], url))"

definition urlsplit :: "host \<Rightarrow> string \<Rightarrow> split_url res" where
  "urlsplit h url0 =
     (let url1 = filter (\<lambda>c. \<not> unsafe_char c) (dropWhile c0_or_space url0);
          (scheme, url2) = split_scheme url1;
          (netloc, url3) = (if starts_with url2 ''//''
                            then (takeWhile (\<lambda>c. \<not> netloc_delim c) (drop 2 url2),
                                  dropWhile (\<lambda>c. \<not> netloc_delim c) (drop 2 url2))
                            else ([], url2));
          lb = CHR ''['' \<in> set netloc; rb = CHR '']'' \<in> set netloc;
          (url4, _, fragment) = partition_at (CHR ''#'') url3;
          (url5, _, query) = partition_at (CHR ''?'') url4
      in if lb \<noteq> rb then Inl ValueError
         else if lb \<and> \<not> bracket_ok h netloc then Inl ValueError
         else Inr \<lparr>u_scheme = scheme, u_netloc = netloc, u_path = url5,
                   u_query = query, u_fragment = fragment\<rparr>)"

text \<open>\<open>s.rpartition(c)\<close>: split at the last occurrence; without one the head is empty.\<close>

definition rpartition_at :: "char \<Rightarrow> string \<Rightarrow> string \<times> bool \<times> string" where
  "rpartition_at c s =
     (case partition_at c (rev s) of (t, found, h) \<Rightarrow> if found then (rev h, True, rev t) else ([], False, s))"

lemma rpartition_at_append [simp]:
  "c \<notin> set t \<Longrightarrow> rpartition_at c (h @ c # t) = (h, True, t)"
  using partition_at_append [of c "rev t" "rev h"] by (simp add: rpartition_at_def)

lemma rpartition_at_none [simp]: "c \<notin> set s \<Longrightarrow> rpartition_at c s = ([], False, s)"
  by (simp add: rpartition_at_def)

definition url_username :: "split_url \<Rightarrow> string option" where
  "url_username u =
     (case rpartition_at (CHR ''@'') (u_netloc u) of
        (userinfo, have_info, _) \<Rightarrow>
          if have_info then Some (fst (partition_at (CHR '':'') userinfo)) else None)"

definition url_password :: "split_url \<Rightarrow> string option" where
  "url_password u =
     (case rpartition_at (CHR ''@'') (u_netloc u) of
        (userinfo, have_info, _) \<Rightarrow>
          (case partition_at (CHR '':'') userinfo of
             (_, have_password, password) \<Rightarrow>
               if have_info \<and> have_password then Some password else None))"

definition some_text :: "string option \<Rightarrow> bool" where
  "some_text v \<longleftrightarrow> v \<noteq> None \<and> v \<noteq> Some []"

fun digits_val :: "string \<Rightarrow> nat \<Rightarrow> nat" where
  "digits_val [] acc = acc"
| "digits_val (c # cs) acc = digits_val cs (10 * acc + (of_char c - 48))"

definition url_port :: "split_url \<Rightarrow> nat option res" where
  "url_port u =
     (let hostinfo = snd (snd (rpartition_at (CHR ''@'') (u_netloc u)));
          (_, have_open_br, bracketed) = partition_at (CHR ''['') hostinfo;
          port = (if have_open_br
                  then snd (snd (partition_at (CHR '':'') (snd (snd (partition_at (CHR '']'') bracketed)))))
                  else snd (snd (partition_at (CHR '':'') hostinfo)))
      in if port = [] then Inr None
         else if \<not> list_all is_digit port then Inl ValueError
         else if digits_val port 0 > 65535 then Inl ValueError
         else Inr (Some (digits_val port 0)))"

section \<open>The host of an egress\<close>

definition NETWORK_SCHEMES :: "string list" where
  "NETWORK_SCHEMES = [''http'', ''https'', ''ws'', ''wss'', ''ftp'', ''ftps'']"

definition looks_like_host :: "string \<Rightarrow> bool" where
  "looks_like_host token =
     (let t = casefold token in t = ''localhost'' \<or> CHR ''.'' \<in> set t \<or> list_ex is_digit t)"

text \<open>
  The authority the request would contact. \<open>urlparse\<close> strips \<open>;params\<close> off the path for a
  few schemes only; none of them looks like a host, so the split path decides the same.
\<close>

fun contains :: "string \<Rightarrow> string \<Rightarrow> bool" where
  "contains [] p = (p = [])"
| "contains (c # s) p = (starts_with (c # s) p \<or> contains s p)"

definition url_authority :: "host \<Rightarrow> string \<Rightarrow> string res" where
  "url_authority h url =
     (let s = strip url
      in rbind (urlsplit h s) (\<lambda>parsed.
         let netloc = u_netloc parsed; scheme = casefold (u_scheme parsed)
         in if contains s ''://'' then Inr (if scheme \<in> set NETWORK_SCHEMES then netloc else [])
            else if scheme = [] then
              (if netloc \<noteq> [] then Inr netloc
               else rbind (urlsplit h (''//'' @ s)) (\<lambda>p. Inr (u_netloc p)))
            else if netloc = [] then
              (let first_seg = hd (split_on slash (u_path parsed))
               in if first_seg \<noteq> [] \<and> list_all is_digit first_seg \<and> looks_like_host scheme
                  then rbind (urlsplit h (''//'' @ s)) (\<lambda>p. Inr (u_netloc p))
                  else Inr [])
            else Inr netloc))"

definition authority_host :: "string \<Rightarrow> string" where
  "authority_host netloc =
     (let hst = snd (snd (rpartition_at (CHR ''@'') netloc))
      in if starts_with hst ''['' then
           (case partition_at (CHR '']'') (drop 1 hst) of
              (lit, found, _) \<Rightarrow> if found then lit else hst)
         else (case rpartition_at (CHR '':'') hst of
                 (before, found, _) \<Rightarrow> if found then before else hst))"

definition url_host :: "host \<Rightarrow> string \<Rightarrow> string" where
  "url_host h url = (case url_authority h url of Inl _ \<Rightarrow> [] | Inr netloc \<Rightarrow> authority_host netloc)"

section \<open>AgentCore values\<close>

definition AGENTCORE_GATEWAY_URL_MAX :: nat where
  "AGENTCORE_GATEWAY_URL_MAX = 512"

definition WORKLOAD_NAME_MIN :: nat where "WORKLOAD_NAME_MIN = 3"
definition WORKLOAD_NAME_MAX :: nat where "WORKLOAD_NAME_MAX = 255"

definition normalize_agentcore_gateway_url :: "host \<Rightarrow> string \<Rightarrow> string res" where
  "normalize_agentcore_gateway_url h v =
     (let url = strip v
      in if url = [] then Inr []
         else if length url > AGENTCORE_GATEWAY_URL_MAX then Inl ValueError
         else if list_ex is_space url then Inl ValueError
         else rbind (urlsplit h url) (\<lambda>parsed.
              if u_scheme parsed \<noteq> ''https'' \<or> u_netloc parsed = []
                 \<or> some_text (url_username parsed) \<or> some_text (url_password parsed)
                 \<or> u_fragment parsed \<noteq> []
              then Inl ValueError else Inr url))"

definition workload_char :: "char \<Rightarrow> bool" where
  "workload_char c \<longleftrightarrow> is_alpha c \<or> is_digit c \<or> c \<in> {CHR ''_'', CHR ''.'', CHR ''-''}"

definition normalize_agentcore_workload_name :: "string \<Rightarrow> string res" where
  "normalize_agentcore_workload_name v =
     (let name = strip v
      in if name = [] then Inr []
         else if length name < WORKLOAD_NAME_MIN \<or> length name > WORKLOAD_NAME_MAX
                 \<or> \<not> list_all workload_char name
         then Inl ValueError else Inr name)"

section \<open>The host that is contacted\<close>

text \<open>Visible ASCII: no space and no control character.\<close>

definition visible :: "string \<Rightarrow> bool" where
  "visible s \<longleftrightarrow> list_all (\<lambda>c. \<not> c0_or_space c) s"

definition host_text :: "string \<Rightarrow> bool" where
  "host_text s \<longleftrightarrow> list_all (\<lambda>c. \<not> netloc_delim c \<and> c \<notin> {CHR ''@'', CHR '':'', CHR ''['', CHR '']''}) s"

definition netloc_char :: "char \<Rightarrow> bool" where
  "netloc_char c \<longleftrightarrow> \<not> netloc_delim c \<and> c \<notin> {CHR ''['', CHR '']''}"

definition userinfo_text :: "string \<Rightarrow> bool" where
  "userinfo_text s \<longleftrightarrow> list_all netloc_char s"

lemma host_text_netloc: "host_text s \<Longrightarrow> list_all netloc_char s"
  by (auto simp: host_text_def netloc_char_def list_all_iff)

lemma punct_netloc: "list_all netloc_char ''@''" "list_all netloc_char '':''"
  by (simp_all add: netloc_char_def netloc_delim_def)

lemma visible_append [simp]: "visible (s @ t) \<longleftrightarrow> visible s \<and> visible t"
  by (simp add: visible_def)

lemma visible_char: "\<not> c0_or_space c \<Longrightarrow> \<not> is_space c \<and> \<not> unsafe_char c"
  by (auto simp: c0_or_space_def is_space_def unsafe_char_def)

lemma dropWhile_none: "list_all (\<lambda>c. \<not> P c) s \<Longrightarrow> dropWhile P s = s"
  by (cases s) auto

lemma visible_strip [simp]: "visible s \<Longrightarrow> strip s = s"
proof -
  assume v: "visible s"
  then have "list_all (\<lambda>c. \<not> is_space c) s" "list_all (\<lambda>c. \<not> is_space c) (rev s)"
    using visible_char by (auto simp: visible_def list_all_iff)
  then show ?thesis by (simp add: strip_def lstrip_def rstrip_def dropWhile_none)
qed

lemma visible_clean [simp]:
  "visible s \<Longrightarrow> filter (\<lambda>c. \<not> unsafe_char c) (dropWhile c0_or_space s) = s"
  using visible_char by (auto simp: visible_def list_all_iff dropWhile_none filter_id_conv)

lemma contains_append: "contains (h @ p @ t) p"
proof (induction h)
  case Nil
  have "starts_with (p @ t) p" by simp
  then show ?case by (cases "p @ t") auto
qed simp

lemma network_scheme_visible: "sch \<in> set NETWORK_SCHEMES \<Longrightarrow> visible sch"
  by (auto simp: NETWORK_SCHEMES_def visible_def c0_or_space_def)

lemma network_scheme_lower: "sch \<in> set NETWORK_SCHEMES \<Longrightarrow> casefold sch = sch"
  by (auto simp: NETWORK_SCHEMES_def lower_char_def)

lemma visible_punct [simp]: "visible ''://''" "visible '':''" "visible ''@''"
  by (simp_all add: visible_def c0_or_space_def)

lemma split_scheme_network:
  "sch \<in> set NETWORK_SCHEMES \<Longrightarrow> split_scheme (sch @ CHR '':'' # rest) = (sch, rest)"
  by (auto simp: NETWORK_SCHEMES_def split_scheme_def is_alpha_def scheme_char_def is_digit_def
      lower_char_def)

lemma take_netloc:
  assumes "list_all (\<lambda>c. \<not> netloc_delim c) n" and "rest = [] \<or> netloc_delim (hd rest)"
  shows "takeWhile (\<lambda>c. \<not> netloc_delim c) (n @ rest) = n"
  using assms by (cases rest) (auto simp: list_all_iff takeWhile_append)

lemma urlsplit_network:
  assumes "sch \<in> set NETWORK_SCHEMES" and "visible n" and "visible rest"
    and "list_all netloc_char n"
    and "rest = [] \<or> netloc_delim (hd rest)"
  shows "\<exists>u. urlsplit h (sch @ ''://'' @ n @ rest) = Inr u \<and> u_netloc u = n \<and> u_scheme u = sch"
proof -
  have v: "visible (sch @ ''://'' @ n @ rest)"
    using assms(2,3) network_scheme_visible [OF assms(1)]
    by (simp only: visible_append visible_punct simp_thms)
  have n: "takeWhile (\<lambda>c. \<not> netloc_delim c) (n @ rest) = n"
    using assms(4,5) by (intro take_netloc) (auto simp: list_all_iff netloc_char_def)
  have b: "CHR ''['' \<notin> set n" "CHR '']'' \<notin> set n"
    using assms(4) by (auto simp: list_all_iff netloc_char_def)
  have sp: "split_scheme (sch @ ''://'' @ n @ rest) = (sch, ''//'' @ n @ rest)"
    using split_scheme_network [OF assms(1), of "''//'' @ n @ rest"] by simp
  have st: "starts_with (''//'' @ n @ rest) ''//''" "drop 2 (''//'' @ n @ rest) = n @ rest"
    by simp_all
  obtain a f fr where p1: "partition_at (CHR ''#'') (dropWhile (\<lambda>c. \<not> netloc_delim c) (n @ rest)) = (a, f, fr)"
    by (metis prod_cases3)
  obtain pth g q where p2: "partition_at (CHR ''?'') a = (pth, g, q)"
    by (metis prod_cases3)
  show ?thesis
    unfolding urlsplit_def Let_def visible_clean [OF v] sp prod.case st if_True n
    by (simp add: b p1 p2)
qed

lemma url_host_network:
  assumes "sch \<in> set NETWORK_SCHEMES" and "visible ui" "visible hst" "visible port" "visible rest"
    and "userinfo_text ui" and "host_text hst" and "host_text port"
    and "rest = [] \<or> netloc_delim (hd rest)"
  shows "url_host h (sch @ ''://'' @ (ui @ ''@'' @ hst @ '':'' @ port) @ rest) = hst"
proof -
  let ?n = "ui @ ''@'' @ hst @ '':'' @ port"
  let ?s = "sch @ ''://'' @ ?n @ rest"
  have vn: "visible ?n" using assms(2-4) by (simp only: visible_append visible_punct simp_thms)
  have nd: "list_all netloc_char ?n"
    using assms(6) host_text_netloc [OF assms(7)] host_text_netloc [OF assms(8)] punct_netloc
    by (simp only: list_all_append userinfo_text_def simp_thms)
  obtain u where u: "urlsplit h ?s = Inr u" "u_netloc u = ?n" "u_scheme u = sch"
    using urlsplit_network [OF assms(1) vn assms(5) nd assms(9)] by blast
  have vs: "visible ?s"
    using assms(5) vn network_scheme_visible [OF assms(1)] by (simp only: visible_append visible_punct simp_thms)
  have cs: "contains ?s ''://''" by (rule contains_append)
  have low: "casefold sch = sch"
    by (rule network_scheme_lower [OF assms(1)])
  have "url_authority h ?s = Inr ?n"
    unfolding url_authority_def Let_def visible_strip [OF vs] u(1) rbind_Inr u(2,3) low
    using cs assms(1) by simp
  moreover have "authority_host ?n = hst"
  proof -
    have "CHR ''@'' \<notin> set (hst @ '':'' @ port)" "CHR '':'' \<notin> set port"
      using assms(7,8) by (simp_all add: host_text_def list_all_iff) blast+
    moreover have "\<not> starts_with (hst @ '':'' @ port) ''[''"
      using assms(7) by (cases hst) (auto simp: host_text_def)
    ultimately show ?thesis
      using rpartition_at_append [of "CHR ''@''" "hst @ '':'' @ port" ui]
        rpartition_at_append [of "CHR '':''" port hst]
      by (simp add: authority_host_def Let_def)
  qed
  ultimately show ?thesis by (simp only: url_host_def sum.case)
qed

text \<open>The egress check sees the host that is contacted: for a URL on a network scheme with
  userinfo, port and rest, the extracted host is the one after the last \<open>@\<close>, whatever decoy
  host the userinfo spells.\<close>

theorem egress_host_is_contacted_host:
  assumes "sch \<in> set NETWORK_SCHEMES" and "visible ui" and "visible hst" and "visible port"
    and "visible rest" and "userinfo_text ui" and "host_text hst" and "host_text port"
    and "rest = [] \<or> netloc_delim (hd rest)"
  shows "url_host h (sch @ ''://'' @ (ui @ ''@'' @ hst @ '':'' @ port) @ rest) = hst"
  using assms by (rule url_host_network)

lemma egress_host_is_contacted_host_witness:
  "url_host (plain_host ''/'') (''https'' @ ''://'' @ (''allowed.com:443@x'' @ ''@'' @ ''evil.net'' @ '':'' @ ''80'') @ ''/a'')
   = ''evil.net''"
  by (rule egress_host_is_contacted_host) code_simp+

end
