(* ===== verification/Gov_Policy.thy ===== *)
theory Gov_Policy
  imports Gov_Parse Url
begin

text \<open>
  The carriers of the governance documents and their loaders
  (\<^verbatim>\<open>src/codex_crew/platform/governance.py\<close>): boot controls, update pins, distribution
  pins, the ceiling (\<open>GovernanceCeiling\<close>), the profile (\<open>Profile\<close>), the built-in deny-all
  profile, the AgentCore fields, \<open>parse_policy\<close> and \<open>parse_profile\<close>.
  A ceiling's version is always \<open>POLICY_VERSION\<close> and has no field here.
\<close>

section \<open>Boot controls and update pins\<close>

definition POLICY_VERSION :: int where "POLICY_VERSION = 1"

record boot_controls =
  require_sandbox :: bool
  allow_terminal :: bool
  fail_closed :: bool

text \<open>
  \<open>int(chunk)\<close> on text without a sign (the core was cut at the first sign): surrounding
  space is ignored and single underscores may separate digits.
\<close>

definition int_chunk :: "string \<Rightarrow> nat option" where
  "int_chunk s =
     (let parts = split_on (CHR ''_'') (strip s)
      in if list_all (\<lambda>p. p \<noteq> [] \<and> list_all is_digit p) parts
         then Some (digits_val (concat parts) 0) else None)"

fun all_some :: "'a option list \<Rightarrow> 'a list option" where
  "all_some [] = Some []"
| "all_some (None # xs) = None"
| "all_some (Some x # xs) = map_option ((#) x) (all_some xs)"

definition version_tuple :: "string \<Rightarrow> nat list" where
  "version_tuple v =
     (let core = takeWhile (\<lambda>c. c \<noteq> CHR ''-'' \<and> c \<noteq> CHR ''+'') (strip v)
      in case all_some (map int_chunk (split_on (CHR ''.'') core)) of None \<Rightarrow> [] | Some ns \<Rightarrow> ns)"

text \<open>Tuple comparison \<open>a >= b\<close>.\<close>

fun tuple_ge :: "nat list \<Rightarrow> nat list \<Rightarrow> bool" where
  "tuple_ge a [] = True"
| "tuple_ge [] (y # b) = False"
| "tuple_ge (x # a) (y # b) = (x > y \<or> (x = y \<and> tuple_ge a b))"

definition pad_to :: "nat \<Rightarrow> nat list \<Rightarrow> nat list" where
  "pad_to width a = a @ replicate (width - length a) 0"

record update_pins =
  up_source :: string
  up_min_version :: string
  up_check_command :: string
  up_apply_command :: string
  up_platform_commands :: "(string, (string, string) dict) dict"

definition no_pins :: update_pins where
  "no_pins = \<lparr>up_source = [], up_min_version = [], up_check_command = [], up_apply_command = [],
     up_platform_commands = []\<rparr>"

definition permits_source :: "update_pins \<Rightarrow> string \<Rightarrow> bool" where
  "permits_source pins url =
     (if up_source pins = [] then True
      else let candidate = strip url;
               parts = split_on slash (map (\<lambda>c. if c = CHR 0x5C then slash else c) candidate)
           in if candidate = [] \<or> list_ex (\<lambda>p. p = ''.'' \<or> p = ''..'') parts then False
              else fnmatchcase candidate (strip (up_source pins)))"

definition meets_min_version :: "update_pins \<Rightarrow> string \<Rightarrow> bool" where
  "meets_min_version pins version =
     (let floor = (if up_min_version pins \<noteq> [] then version_tuple (up_min_version pins) else [])
      in if floor = [] then True
         else let current = version_tuple version
              in if current = [] then False
                 else let width = max (length current) (length floor)
                      in tuple_ge (pad_to width current) (pad_to width floor))"

text \<open>\<open>str(d.get(k) or "").strip()\<close> on a value already checked to be a string or absent.\<close>

definition opt_text :: "enforcer \<Rightarrow> jobj \<Rightarrow> string \<Rightarrow> string" where
  "opt_text E d k = strip (py_str (e_repr E) (jor (jget d k) (JStr [])))"

definition platform_entry :: "string \<times> json \<Rightarrow> (string \<times> (string, string) dict) res" where
  "platform_entry kv =
     (case kv of (plat_key, plat_val) \<Rightarrow>
        (case as_obj plat_val of
           None \<Rightarrow> Inl PlatformCompositionError
         | Some cmds \<Rightarrow>
             rbind (traverse (\<lambda>(cmd_key, cmd_val).
                      if cmd_key \<notin> {''check_command'', ''apply_command''}
                      then Inl PlatformCompositionError
                      else (case as_str cmd_val of
                              None \<Rightarrow> Inl PlatformCompositionError
                            | Some s \<Rightarrow> Inr (cmd_key, strip s))) cmds)
               (\<lambda>entry. Inr (plat_key, entry))))"

definition UpdatePins_from_dict :: "enforcer \<Rightarrow> jobj \<Rightarrow> update_pins res" where
  "UpdatePins_from_dict E d =
     rbind (reject_unknown_keys d [''source'', ''min_version'', ''check_command'',
              ''apply_command'', ''platform_commands'']) (\<lambda>_.
     rbind (ensure (list_all (\<lambda>k. jget d k = JNull \<or> as_str (jget d k) \<noteq> None)
              [''source'', ''min_version'', ''check_command'', ''apply_command''])
              PlatformCompositionError) (\<lambda>_.
     rbind (case jget d ''platform_commands'' of
              JNull \<Rightarrow> Inr []
            | JObj ps \<Rightarrow> traverse platform_entry ps
            | _ \<Rightarrow> Inl PlatformCompositionError) (\<lambda>platform_commands.
     Inr \<lparr>up_source = opt_text E d ''source'', up_min_version = opt_text E d ''min_version'',
          up_check_command = opt_text E d ''check_command'',
          up_apply_command = opt_text E d ''apply_command'',
          up_platform_commands = platform_commands\<rparr>)))"

section \<open>Distribution pins\<close>

datatype disposition = FailClosed | Degrade

definition MIN_REFRESH_INTERVAL_SECS :: int where "MIN_REFRESH_INTERVAL_SECS = 60"
definition DEFAULT_FETCH_TIMEOUT_SECS :: rat where "DEFAULT_FETCH_TIMEOUT_SECS = 10"

text \<open>\<open>threading.TIMEOUT_MAX\<close> on a 64-bit host.\<close>

definition MAX_DURATION_SECS :: rat where "MAX_DURATION_SECS = 9223372036"

record policy_distribution =
  pd_source :: string
  pd_refresh_interval :: int
  pd_timeout :: rat
  pd_max_cache_age :: int
  pd_on_unavailable :: disposition

definition no_distribution :: policy_distribution where
  "no_distribution = \<lparr>pd_source = [], pd_refresh_interval = 0, pd_timeout = 0,
     pd_max_cache_age = 0, pd_on_unavailable = FailClosed\<rparr>"

definition distribution_enabled :: "policy_distribution \<Rightarrow> bool" where
  "distribution_enabled pd \<longleftrightarrow> pd_source pd \<noteq> []"

definition effective_timeout :: "policy_distribution \<Rightarrow> rat" where
  "effective_timeout pd = (if pd_timeout pd > 0 then pd_timeout pd else DEFAULT_FETCH_TIMEOUT_SECS)"

definition effective_refresh_interval :: "policy_distribution \<Rightarrow> int" where
  "effective_refresh_interval pd =
     (if pd_refresh_interval pd \<le> 0 then 0 else max (pd_refresh_interval pd) MIN_REFRESH_INTERVAL_SECS)"

definition cache_too_old :: "policy_distribution \<Rightarrow> rat \<Rightarrow> bool" where
  "cache_too_old pd age =
     (if pd_max_cache_age pd \<le> 0 then False else age > of_int (pd_max_cache_age pd))"

definition check_distribution_source :: "host \<Rightarrow> string \<Rightarrow> unit res" where
  "check_distribution_source h source =
     (if source = [] then Inr ()
      else case urlsplit h source of
             Inl _ \<Rightarrow> Inl PlatformCompositionError
           | Inr parsed \<Rightarrow>
               (case url_port parsed of
                  Inl _ \<Rightarrow> Inl PlatformCompositionError
                | Inr _ \<Rightarrow>
                    ensure (\<not> some_text (url_username parsed) \<and> \<not> some_text (url_password parsed)
                            \<and> u_query parsed = []) PlatformCompositionError))"

definition distribution_number :: "jobj \<Rightarrow> string \<Rightarrow> bool \<Rightarrow> rat res" where
  "distribution_number d key allow_float =
     (case jget d key of
        JNull \<Rightarrow> Inr 0
      | JInt n \<Rightarrow>
          if n < 0 then Inl PlatformCompositionError
          else if of_int n > MAX_DURATION_SECS then Inl PlatformCompositionError
          else Inr (of_int n)
      | JFloat (Fin q) \<Rightarrow>
          if q < 0 then Inl PlatformCompositionError
          else if \<not> allow_float \<and> q \<noteq> of_int \<lfloor>q\<rfloor> then Inl PlatformCompositionError
          else if q > MAX_DURATION_SECS then Inl PlatformCompositionError
          else Inr q
      | _ \<Rightarrow> Inl PlatformCompositionError)"

definition distribution_disposition :: "jobj \<Rightarrow> disposition res" where
  "distribution_disposition d =
     (case jget d ''on_unavailable'' of
        JNull \<Rightarrow> Inr FailClosed
      | JStr s \<Rightarrow>
          if strip s = ''fail_closed'' then Inr FailClosed
          else if strip s = ''degrade'' then Inr Degrade
          else Inl PlatformCompositionError
      | _ \<Rightarrow> Inl PlatformCompositionError)"

definition PolicyDistribution_from_dict :: "host \<Rightarrow> enforcer \<Rightarrow> jobj \<Rightarrow> policy_distribution res" where
  "PolicyDistribution_from_dict h E d =
     rbind (reject_unknown_keys d [''source'', ''refresh_interval_secs'', ''timeout_secs'',
              ''max_cache_age_secs'', ''on_unavailable'']) (\<lambda>_.
     rbind (ensure (jget d ''source'' = JNull \<or> as_str (jget d ''source'') \<noteq> None)
              PlatformCompositionError) (\<lambda>_.
     let source = opt_text E d ''source''
     in rbind (check_distribution_source h source) (\<lambda>_.
        rbind (distribution_number d ''refresh_interval_secs'' False) (\<lambda>refresh.
        rbind (distribution_number d ''timeout_secs'' True) (\<lambda>timeout.
        rbind (distribution_number d ''max_cache_age_secs'' False) (\<lambda>max_age.
        rbind (distribution_disposition d) (\<lambda>disposition.
        if source = [] \<and> strip (distribution_url_env h) = [] \<and>
           (refresh \<noteq> 0 \<or> timeout \<noteq> 0 \<or> max_age \<noteq> 0 \<or> jget d ''on_unavailable'' \<noteq> JNull)
        then Inl PlatformCompositionError
        else Inr \<lparr>pd_source = source, pd_refresh_interval = \<lfloor>refresh\<rfloor>, pd_timeout = timeout,
                  pd_max_cache_age = \<lfloor>max_age\<rfloor>, pd_on_unavailable = disposition\<rparr>)))))))"

section \<open>Ceiling and profile\<close>

datatype bind_type = BSurface | BApp | BTask

record bind =
  b_type :: bind_type
  b_id :: string

record profile =
  p_name :: string
  p_bind :: "bind option"
  p_extends :: string
  p_controls :: controls
  p_unknown_scopes :: "string list"

datatype signature_state = Verified | Unverified | Unsigned | Unchecked

record ceiling =
  c_boot :: boot_controls
  c_controls :: controls
  c_identity_issuer :: string
  c_identity_signature :: string
  c_signature_state :: signature_state
  c_updates :: update_pins
  c_distribution :: policy_distribution
  c_fallback_profile :: "profile option"
  c_agentcore_posture :: "string option"
  c_agentcore_gateway_url :: string
  c_agentcore_workload_name :: string

text \<open>A ceiling with the given controls and every other field at its default.\<close>

definition bare_ceiling :: "controls \<Rightarrow> ceiling" where
  "bare_ceiling cs = \<lparr>c_boot = \<lparr>require_sandbox = True, allow_terminal = False, fail_closed = True\<rparr>,
     c_controls = cs, c_identity_issuer = [], c_identity_signature = [],
     c_signature_state = Unchecked, c_updates = no_pins, c_distribution = no_distribution,
     c_fallback_profile = None, c_agentcore_posture = None, c_agentcore_gateway_url = [],
     c_agentcore_workload_name = []\<rparr>"

definition bare_profile :: "string \<Rightarrow> controls \<Rightarrow> profile" where
  "bare_profile name cs = \<lparr>p_name = name, p_bind = None, p_extends = [], p_controls = cs,
     p_unknown_scopes = []\<rparr>"

lemma bare_simps [simp]:
  "c_controls (bare_ceiling cs) = cs" "c_fallback_profile (bare_ceiling cs) = None"
  "p_controls (bare_profile n cs) = cs" "p_bind (bare_profile n cs) = None"
  "p_extends (bare_profile n cs) = []"
  by (simp_all add: bare_ceiling_def bare_profile_def)

definition ceiling_get :: "ceiling \<Rightarrow> string \<Rightarrow> control option" where
  "ceiling_get ceil scope = dict_get (c_controls ceil) scope"

definition profile_get :: "profile \<Rightarrow> string \<Rightarrow> control option" where
  "profile_get prof scope = dict_get (p_controls prof) scope"

definition COMMANDS_SCOPE :: string where "COMMANDS_SCOPE = ''commands''"

definition command_deny_patterns :: "control option \<Rightarrow> string list" where
  "command_deny_patterns c =
     (case c of
        Some (CRuleset (Scoped rs)) \<Rightarrow> if rs_mode rs = MODE_DENY then rs_deny rs else []
      | _ \<Rightarrow> [])"

definition ceiling_pinned_commands :: "ceiling \<Rightarrow> string list" where
  "ceiling_pinned_commands ceil = command_deny_patterns (ceiling_get ceil COMMANDS_SCOPE)"

definition profile_pinned_commands :: "profile \<Rightarrow> string list" where
  "profile_pinned_commands prof = command_deny_patterns (profile_get prof COMMANDS_SCOPE)"

definition empty_allow :: "string \<Rightarrow> scoped_ruleset" where
  "empty_allow m = \<lparr>rs_mode = MODE_ALLOW, rs_allow = [], rs_deny = [], rs_matcher = m\<rparr>"

definition put_disabled :: "string \<times> scope_spec \<Rightarrow> controls \<Rightarrow> controls" where
  "put_disabled entry cs =
     (case entry of (scope, spec) \<Rightarrow>
        if sp_kind spec = CAPABILITY
        then dict_set scope (CGate \<lparr>g_enabled = False, g_scopes = []\<rparr>) cs else cs)"

definition deny_all_controls :: "(string, scope_spec) dict \<Rightarrow> controls" where
  "deny_all_controls catalog =
     (let rulesets = List.map_filter (\<lambda>(scope, spec).
            if sp_kind spec = RULESET \<and> scope \<notin> set (map fst SCOPE_ALIASES)
            then Some (scope, CRuleset (Scoped (empty_allow (sp_matcher spec)))) else None) catalog;
          with_channels = dict_set ''channels''
            (CMap \<lparr>m_members = Scoped (empty_allow ''identifier''), m_posture = []\<rparr>) rulesets
      in fold put_disabled catalog with_channels)"

definition deny_all_profile :: "enforcer \<Rightarrow> string \<Rightarrow> profile" where
  "deny_all_profile E name =
     \<lparr>p_name = name, p_bind = None, p_extends = [], p_controls = deny_all_controls (e_catalog E),
      p_unknown_scopes = []\<rparr>"

section \<open>AgentCore fields\<close>

definition AGENTCORE_POSTURES :: "string list" where
  "AGENTCORE_POSTURES = [''workload'', ''login'']"

text \<open>
  The raw row and its gate when \<open>capabilities.agentcore\<close> is an object of the document and
  the parsed capability is enabled; the three \<open>_apply_\<close> functions begin with this test.
\<close>

definition enabled_agentcore :: "jobj \<Rightarrow> controls \<Rightarrow> (jobj \<times> capability_gate) option" where
  "enabled_agentcore data controls =
     (case as_obj (jget data ''capabilities'') of
        None \<Rightarrow> None
      | Some raw_caps \<Rightarrow>
          (case as_obj (jget raw_caps ''agentcore'') of
             None \<Rightarrow> None
           | Some raw \<Rightarrow>
               (case dict_get controls AGENTCORE_SCOPE of
                  Some (CGate g) \<Rightarrow> if g_enabled g then Some (raw, g) else None
                | _ \<Rightarrow> None)))"

definition apply_agentcore_posture ::
  "jobj \<Rightarrow> controls \<Rightarrow> boot_controls \<Rightarrow> (string option \<times> controls) res" where
  "apply_agentcore_posture data controls boot =
     (case enabled_agentcore data controls of
        None \<Rightarrow> Inr (None, controls)
      | Some (raw, g) \<Rightarrow>
          (case as_str (jget raw ''posture'') of
             Some s \<Rightarrow>
               if s \<in> set AGENTCORE_POSTURES then Inr (Some s, controls)
               else if fail_closed boot then Inl PlatformCompositionError
               else Inr (None, dict_set AGENTCORE_SCOPE
                      (CGate \<lparr>g_enabled = False, g_scopes = g_scopes g\<rparr>) controls)
           | None \<Rightarrow>
               if fail_closed boot then Inl PlatformCompositionError
               else Inr (None, dict_set AGENTCORE_SCOPE
                      (CGate \<lparr>g_enabled = False, g_scopes = g_scopes g\<rparr>) controls)))"

definition agentcore_posture :: "ceiling option \<Rightarrow> string option" where
  "agentcore_posture ceil =
     (case ceil of
        None \<Rightarrow> None
      | Some c \<Rightarrow>
          (case c_agentcore_posture c of
             None \<Rightarrow> None
           | Some stored \<Rightarrow>
               if stored \<notin> set AGENTCORE_POSTURES then None
               else (case dict_get (c_controls c) AGENTCORE_SCOPE of
                       Some (CGate g) \<Rightarrow> if g_enabled g then Some stored else None
                     | _ \<Rightarrow> None)))"

text \<open>The common shape of the two optional text fields of the row.\<close>

definition apply_agentcore_text ::
  "string \<Rightarrow> (string \<Rightarrow> string res) \<Rightarrow> jobj \<Rightarrow> controls \<Rightarrow> boot_controls \<Rightarrow> string res" where
  "apply_agentcore_text key normal data controls boot =
     (case enabled_agentcore data controls of
        None \<Rightarrow> Inr []
      | Some (raw, g) \<Rightarrow>
          (case jget raw key of
             JNull \<Rightarrow> Inr []
           | JStr s \<Rightarrow>
               if s = [] then Inr []
               else (case normal s of
                       Inr v \<Rightarrow> Inr v
                     | Inl _ \<Rightarrow> if fail_closed boot then Inl PlatformCompositionError else Inr [])
           | _ \<Rightarrow> if fail_closed boot then Inl PlatformCompositionError else Inr []))"

definition apply_agentcore_gateway_url :: "host \<Rightarrow> jobj \<Rightarrow> controls \<Rightarrow> boot_controls \<Rightarrow> string res" where
  "apply_agentcore_gateway_url h =
     apply_agentcore_text ''gateway_url'' (normalize_agentcore_gateway_url h)"

definition apply_agentcore_workload_name :: "jobj \<Rightarrow> controls \<Rightarrow> boot_controls \<Rightarrow> string res" where
  "apply_agentcore_workload_name =
     apply_agentcore_text ''workload_name'' normalize_agentcore_workload_name"

definition agentcore_gateway_url :: "ceiling option \<Rightarrow> string" where
  "agentcore_gateway_url ceil =
     (case ceil of None \<Rightarrow> [] | Some c \<Rightarrow> if agentcore_posture ceil = None then [] else c_agentcore_gateway_url c)"

definition agentcore_workload_name :: "ceiling option \<Rightarrow> string" where
  "agentcore_workload_name ceil =
     (case ceil of None \<Rightarrow> [] | Some c \<Rightarrow> if agentcore_posture ceil = None then [] else c_agentcore_workload_name c)"

section \<open>Loaders\<close>

definition identity_text :: "enforcer \<Rightarrow> jobj \<Rightarrow> string \<Rightarrow> string" where
  "identity_text E data key =
     (case as_obj (jor (jget data ''identity'') (JObj [])) of
        Some d \<Rightarrow> py_str (e_repr E) (jget_default d key (JStr []))
      | None \<Rightarrow> [])"

definition optional_object :: "jobj \<Rightarrow> string \<Rightarrow> jobj option res" where
  "optional_object data key =
     (case jget data key of JNull \<Rightarrow> Inr None | JObj d \<Rightarrow> Inr (Some d) | _ \<Rightarrow> Inl PlatformCompositionError)"

definition parse_fallback :: "enforcer \<Rightarrow> jobj option \<Rightarrow> profile option res" where
  "parse_fallback E raw =
     (case raw of
        None \<Rightarrow> Inr None
      | Some d \<Rightarrow>
          rbind (ensure (\<not> list_ex (\<lambda>k. k \<in> set STRUCTURAL_KEYS) (map fst d)) PlatformCompositionError) (\<lambda>_.
          rbind (parse_controls E False None d) (\<lambda>st.
          Inr (Some \<lparr>p_name = ''_fallback'', p_bind = None, p_extends = [],
                     p_controls = fst st, p_unknown_scopes = []\<rparr>))))"

definition parse_policy :: "host \<Rightarrow> enforcer \<Rightarrow> jobj \<Rightarrow> signature_state \<Rightarrow> ceiling res" where
  "parse_policy h E data sig =
     rbind (ensure (py_eq_int (jget data ''version'') POLICY_VERSION) PlatformCompositionError) (\<lambda>_.
     case as_obj (jget data ''boot'') of
       None \<Rightarrow> Inl PlatformCompositionError
     | Some boot_raw \<Rightarrow>
     let boot = \<lparr>require_sandbox = truthy (jget_default boot_raw ''require_sandbox'' (JBool True)),
                 allow_terminal = truthy (jget_default boot_raw ''allow_terminal'' (JBool False)),
                 fail_closed = truthy (jget_default boot_raw ''fail_closed'' (JBool True))\<rparr>
     in rbind (parse_controls E True None data) (\<lambda>st.
        rbind (apply_agentcore_posture data (fst st) boot) (\<lambda>(posture, controls).
        rbind (apply_agentcore_gateway_url h data controls boot) (\<lambda>gateway_url.
        rbind (apply_agentcore_workload_name data controls boot) (\<lambda>workload_name.
        rbind (optional_object data ''updates'') (\<lambda>raw_updates.
        rbind (optional_object data ''distribution'') (\<lambda>raw_distribution.
        rbind (optional_object data ''fallback'') (\<lambda>raw_fallback.
        rbind (parse_fallback E raw_fallback) (\<lambda>fallback_profile.
        rbind (UpdatePins_from_dict E (case raw_updates of None \<Rightarrow> [] | Some d \<Rightarrow> d)) (\<lambda>updates.
        rbind (PolicyDistribution_from_dict h E (case raw_distribution of None \<Rightarrow> [] | Some d \<Rightarrow> d))
          (\<lambda>distribution.
        Inr \<lparr>c_boot = boot, c_controls = controls,
             c_identity_issuer = identity_text E data ''issuer'',
             c_identity_signature = identity_text E data ''signature'',
             c_signature_state = sig, c_updates = updates, c_distribution = distribution,
             c_fallback_profile = fallback_profile, c_agentcore_posture = posture,
             c_agentcore_gateway_url = gateway_url,
             c_agentcore_workload_name = workload_name\<rparr>)))))))))))"

definition profile_name_char :: "char \<Rightarrow> bool" where
  "profile_name_char c \<longleftrightarrow> (let n = (of_char c :: nat) in (97 \<le> n \<and> n \<le> 122) \<or> is_digit c)"

text \<open>\<open>^[a-z0-9][a-z0-9-]*$\<close>.\<close>

definition profile_name_ok :: "string \<Rightarrow> bool" where
  "profile_name_ok s =
     (case s of [] \<Rightarrow> False
      | c # cs \<Rightarrow> profile_name_char c \<and> list_all (\<lambda>x. profile_name_char x \<or> x = CHR ''-'') cs)"

definition parse_bind :: "enforcer \<Rightarrow> json \<Rightarrow> bind option res" where
  "parse_bind E raw =
     (case as_obj raw of
        None \<Rightarrow> Inr None
      | Some d \<Rightarrow>
          (let btype = strip (py_str (e_repr E) (jget_default d ''type'' (JStr [])));
               bid = py_str (e_repr E) (jget_default d ''id'' (JStr []))
           in if btype = ''surface'' then Inr (Some \<lparr>b_type = BSurface, b_id = bid\<rparr>)
              else if btype = ''app'' then Inr (Some \<lparr>b_type = BApp, b_id = bid\<rparr>)
              else if btype = ''task'' then Inr (Some \<lparr>b_type = BTask, b_id = bid\<rparr>)
              else Inl PlatformCompositionError))"

definition parse_profile :: "enforcer \<Rightarrow> jobj \<Rightarrow> profile res" where
  "parse_profile E data =
     (let name = strip (py_str (e_repr E) (jget_default data ''name'' (JStr [])))
      in rbind (ensure (name \<noteq> []) PlatformCompositionError) (\<lambda>_.
         rbind (ensure (profile_name_ok name) PlatformCompositionError) (\<lambda>_.
         rbind (ensure (\<not> jhas data ''updates'') PlatformCompositionError) (\<lambda>_.
         rbind (ensure (\<not> jhas data ''distribution'') PlatformCompositionError) (\<lambda>_.
         rbind (ensure (\<not> jhas data ''fallback'') PlatformCompositionError) (\<lambda>_.
         rbind (parse_bind E (jget data ''bind'')) (\<lambda>b.
         rbind (parse_controls E False (Some []) data) (\<lambda>st.
         Inr \<lparr>p_name = name, p_bind = b,
              p_extends = py_str (e_repr E) (jget_default data ''extends'' (JStr [])),
              p_controls = fst st,
              p_unknown_scopes = (case snd st of None \<Rightarrow> [] | Some us \<Rightarrow> us)\<rparr>))))))))"

section \<open>What loading guarantees\<close>

definition profile_ok :: "enforcer \<Rightarrow> profile \<Rightarrow> bool" where
  "profile_ok E prof \<longleftrightarrow> controls_ok E False (p_controls prof)"

definition ceiling_ok :: "enforcer \<Rightarrow> ceiling \<Rightarrow> bool" where
  "ceiling_ok E ceil \<longleftrightarrow>
     controls_ok E True (c_controls ceil) \<and>
     (\<forall>p. c_fallback_profile ceil = Some p \<longrightarrow> profile_ok E p)"

lemma AGENTCORE_not_flags [simp]: "AGENTCORE_SCOPE \<noteq> SANDBOX_FLAGS_SCOPE"
  by (simp add: AGENTCORE_SCOPE_def SANDBOX_FLAGS_SCOPE_def)

lemma apply_agentcore_posture_ok:
  assumes "apply_agentcore_posture data cs boot = Inr (po, cs')" and "controls_ok E True cs"
  shows "controls_ok E True cs'"
proof (cases "enabled_agentcore data cs")
  case None
  with assms show ?thesis by (simp add: apply_agentcore_posture_def)
next
  case (Some rg)
  then obtain raw g where rg: "rg = (raw, g)" and g: "dict_get cs AGENTCORE_SCOPE = Some (CGate g)"
    by (cases rg) (auto simp: enabled_agentcore_def split: option.splits control.splits if_splits)
  let ?off = "CGate \<lparr>g_enabled = False, g_scopes = g_scopes g\<rparr>"
  have "control_ok E True AGENTCORE_SCOPE (CGate g)"
    using assms(2) g by (rule controls_ok_get)
  then have "control_ok E True AGENTCORE_SCOPE ?off" by (auto simp: control_ok_iff gate_ok_def)
  then have "controls_ok E True (dict_set AGENTCORE_SCOPE ?off cs)"
    by (rule controls_ok_set [OF assms(2)])
  with assms Some rg show ?thesis
    by (auto simp: apply_agentcore_posture_def split: option.splits if_splits)
qed

lemma parse_fallback_ok:
  assumes "parse_fallback E raw = Inr (Some p)" and "enforcer_ok E"
    and "\<And>d. raw = Some d \<Longrightarrow> json_wf (JObj d)"
  shows "profile_ok E p"
proof -
  obtain d where d: "raw = Some d" using assms(1) by (cases raw) (auto simp: parse_fallback_def)
  with assms(1) obtain st where st: "parse_controls E False None d = Inr st" "p_controls p = fst st"
    by (auto simp: parse_fallback_def res_simps)
  from parse_controls_ok [OF st(1) assms(2) assms(3) [OF d]] st(2) show ?thesis
    by (simp add: profile_ok_def)
qed

lemma optional_object_wf:
  "optional_object data k = Inr (Some d) \<Longrightarrow> json_wf (JObj data) \<Longrightarrow> json_wf (JObj d)"
  using json_wf_jget [of data k] by (cases "jget data k") (auto simp: optional_object_def)

lemma parse_policy_parts:
  assumes "parse_policy h E data sig = Inr c"
  obtains st boot_raw raw_fallback raw_updates raw_distribution where
    "jget data ''boot'' = JObj boot_raw"
    "parse_controls E True None data = Inr st"
    "apply_agentcore_posture data (fst st) (c_boot c) = Inr (c_agentcore_posture c, c_controls c)"
    "optional_object data ''fallback'' = Inr raw_fallback"
    "parse_fallback E raw_fallback = Inr (c_fallback_profile c)"
    "optional_object data ''updates'' = Inr raw_updates"
    "UpdatePins_from_dict E (case raw_updates of None \<Rightarrow> [] | Some d \<Rightarrow> d) = Inr (c_updates c)"
    "optional_object data ''distribution'' = Inr raw_distribution"
    "PolicyDistribution_from_dict h E (case raw_distribution of None \<Rightarrow> [] | Some d \<Rightarrow> d)
       = Inr (c_distribution c)"
    "fail_closed (c_boot c) = truthy (jget_default boot_raw ''fail_closed'' (JBool True))"
proof -
  obtain boot_raw where b: "jget data ''boot'' = JObj boot_raw"
    using assms by (cases "as_obj (jget data ''boot'')") (auto simp: parse_policy_def res_simps)
  show ?thesis
    using assms b that [of boot_raw]
    unfolding parse_policy_def Let_def
    by (auto simp: res_simps)
qed

lemma parse_policy_posture:
  "parse_policy h E data sig = Inr c \<Longrightarrow>
   \<exists>cs. apply_agentcore_posture data cs (c_boot c) = Inr (c_agentcore_posture c, c_controls c)"
  by (erule parse_policy_parts) (rule exI, assumption)

lemma parse_policy_ok:
  assumes "parse_policy h E data sig = Inr c" and "enforcer_ok E" and "json_wf (JObj data)"
  shows "ceiling_ok E c"
proof -
  from assms(1) obtain st rf where
    st: "parse_controls E True None data = Inr st"
    and ap: "apply_agentcore_posture data (fst st) (c_boot c) = Inr (c_agentcore_posture c, c_controls c)"
    and rf: "optional_object data ''fallback'' = Inr rf"
    and fb: "parse_fallback E rf = Inr (c_fallback_profile c)"
    by (rule parse_policy_parts)
  have "controls_ok E True (c_controls c)"
    using ap parse_controls_ok [OF st assms(2,3)] by (rule apply_agentcore_posture_ok)
  moreover have "profile_ok E p" if "c_fallback_profile c = Some p" for p
  proof (rule parse_fallback_ok [of E rf])
    show "parse_fallback E rf = Inr (Some p)" using fb that by simp
    show "json_wf (JObj d)" if "rf = Some d" for d
      using optional_object_wf [OF rf [unfolded that] assms(3)] .
  qed (rule assms(2))
  ultimately show ?thesis by (simp add: ceiling_ok_def)
qed

lemma parse_profile_parts:
  assumes "parse_profile E data = Inr p"
  obtains st where
    "parse_bind E (jget data ''bind'') = Inr (p_bind p)"
    "parse_controls E False (Some []) data = Inr st" "p_controls p = fst st"
  using assms by (auto simp: parse_profile_def Let_def res_simps)

lemma parse_profile_ok:
  assumes "parse_profile E data = Inr p" and "enforcer_ok E" and "json_wf (JObj data)"
  shows "profile_ok E p"
  using assms(1)
proof (rule parse_profile_parts)
  fix st
  assume "parse_controls E False (Some []) data = Inr st" "p_controls p = fst st"
  then show ?thesis using parse_controls_ok assms(2,3) by (metis profile_ok_def)
qed

section \<open>Properties\<close>

text \<open>An identifier a scope may not forbid stays permitted by every loaded ceiling, whether
  the document's list is an allow-list or a deny-list and whatever its patterns are.\<close>

theorem undeniable_items_stay_permitted:
  assumes "parse_policy h E data sig = Inr c" and "enforcer_ok E" and "json_wf (JObj data)"
    and "dict_get (e_catalog E) s = Some spec" and "fl \<in> set (sp_always_permitted spec)"
    and "ceiling_get c s = Some (CRuleset r)"
  shows "allows (e_matchers E) r fl"
proof -
  have "controls_ok E True (c_controls c)"
    using parse_policy_ok [OF assms(1-3)] by (simp add: ceiling_ok_def)
  then have "control_ok E True s (CRuleset r)"
    using assms(6) by (auto simp: ceiling_get_def intro: controls_ok_get)
  moreover have "s \<noteq> SANDBOX_FLAGS_SCOPE"
    using assms(2,4) by (auto simp: enforcer_ok_def image_iff dest!: dict_get_Some_in_set)
  ultimately show ?thesis using assms(4,5) by (auto simp: control_ok_iff list_all_iff)
qed

definition modes_policy :: jobj where
  "modes_policy = [(''version'', JInt 1), (''boot'', JObj []),
     (''approval_modes'', JObj [(''mode'', JStr ''deny''), (''deny'', JArr [JStr ''yolo''])])]"

lemma undeniable_items_stay_permitted_witness:
  "\<exists>c r. parse_policy (plain_host ''/'') (stock_enforcer (plain_host ''/'') (\<lambda>v. [])) modes_policy Unchecked = Inr c \<and>
     ceiling_get c ''approval_modes'' = Some (CRuleset r) \<and> allows (MATCHERS (plain_host ''/'')) r ''normal''"
proof -
  let ?h = "plain_host ''/''"
  let ?E = "stock_enforcer ?h (\<lambda>v. [])"
  have "case parse_policy ?h ?E modes_policy Unchecked of Inl e \<Rightarrow> False
        | Inr c \<Rightarrow> (case ceiling_get c ''approval_modes'' of Some (CRuleset r) \<Rightarrow> True | _ \<Rightarrow> False)"
    by code_simp
  then obtain c r where c: "parse_policy ?h ?E modes_policy Unchecked = Inr c"
    and r: "ceiling_get c ''approval_modes'' = Some (CRuleset r)"
    by (auto split: sum.splits option.splits control.splits)
  have "enforcer_ok ?E" "json_wf (JObj modes_policy)" by code_simp+
  from undeniable_items_stay_permitted [OF c this _ _ r, of
      "(ruleset_spec ''identifier'')\<lparr>sp_always_permitted := [''normal'', ''trust'', ''trust_reads'']\<rparr>" "''normal''"]
  have "allows (e_matchers ?E) r ''normal''" by (simp add: stock_enforcer_def SCOPE_CATALOG_def)
  with c r show ?thesis by (auto simp: stock_enforcer_def)
qed

lemma distribution_number_bounds:
  "distribution_number d k fl = Inr q \<Longrightarrow> 0 \<le> q \<and> q \<le> MAX_DURATION_SECS \<and> (\<not> fl \<longrightarrow> q = of_int \<lfloor>q\<rfloor>)"
  by (auto simp: distribution_number_def MAX_DURATION_SECS_def
      split: json.splits pyfloat.splits if_splits)

text \<open>Distribution pins that load are usable and carry no credential: every duration lies
  between zero and the longest wait the platform supports, polling is off or no faster than the
  floor, a request always has a positive timeout, a declared source parses and has neither
  userinfo nor query, and a block without any source tunes nothing.\<close>

theorem loaded_distribution_is_usable:
  assumes "PolicyDistribution_from_dict h E d = Inr pd"
  shows "0 \<le> pd_refresh_interval pd \<and> of_int (pd_refresh_interval pd) \<le> MAX_DURATION_SECS \<and>
     0 \<le> pd_max_cache_age pd \<and> of_int (pd_max_cache_age pd) \<le> MAX_DURATION_SECS \<and>
     0 < effective_timeout pd \<and> effective_timeout pd \<le> MAX_DURATION_SECS \<and>
     (effective_refresh_interval pd = 0 \<or> MIN_REFRESH_INTERVAL_SECS \<le> effective_refresh_interval pd) \<and>
     (if distribution_enabled pd
      then (\<exists>u. urlsplit h (pd_source pd) = Inr u \<and> \<not> some_text (url_username u) \<and>
              \<not> some_text (url_password u) \<and> u_query u = [])
      else strip (distribution_url_env h) \<noteq> [] \<or> pd = no_distribution)"
proof -
  from assms obtain refresh timeout age disp where
    src: "check_distribution_source h (opt_text E d ''source'') = Inr ()"
    and nums: "distribution_number d ''refresh_interval_secs'' False = Inr refresh"
      "distribution_number d ''timeout_secs'' True = Inr timeout"
      "distribution_number d ''max_cache_age_secs'' False = Inr age"
    and disp: "distribution_disposition d = Inr disp"
    and inert: "\<not> (opt_text E d ''source'' = [] \<and> strip (distribution_url_env h) = [] \<and>
           (refresh \<noteq> 0 \<or> timeout \<noteq> 0 \<or> age \<noteq> 0 \<or> jget d ''on_unavailable'' \<noteq> JNull))"
    and pd: "pd = \<lparr>pd_source = opt_text E d ''source'', pd_refresh_interval = \<lfloor>refresh\<rfloor>,
        pd_timeout = timeout, pd_max_cache_age = \<lfloor>age\<rfloor>, pd_on_unavailable = disp\<rparr>"
    unfolding PolicyDistribution_from_dict_def Let_def by (auto simp: res_simps split: if_splits)
  note b = nums [THEN distribution_number_bounds]
  have durations: "0 \<le> pd_refresh_interval pd" "of_int (pd_refresh_interval pd) \<le> MAX_DURATION_SECS"
    "0 \<le> pd_max_cache_age pd" "of_int (pd_max_cache_age pd) \<le> MAX_DURATION_SECS"
    using b(1,3) by (auto simp: pd)
  have to: "0 < effective_timeout pd" "effective_timeout pd \<le> MAX_DURATION_SECS"
    using b(2) by (auto simp: pd effective_timeout_def DEFAULT_FETCH_TIMEOUT_SECS_def MAX_DURATION_SECS_def)
  have poll: "effective_refresh_interval pd = 0 \<or> MIN_REFRESH_INTERVAL_SECS \<le> effective_refresh_interval pd"
    by (auto simp: effective_refresh_interval_def)
  have source: "if distribution_enabled pd
      then (\<exists>u. urlsplit h (pd_source pd) = Inr u \<and> \<not> some_text (url_username u) \<and>
              \<not> some_text (url_password u) \<and> u_query u = [])
      else strip (distribution_url_env h) \<noteq> [] \<or> pd = no_distribution"
  proof (cases "distribution_enabled pd")
    case True
    with src show ?thesis
      by (auto simp: pd distribution_enabled_def check_distribution_source_def res_simps split: sum.splits)
  next
    case False
    with inert disp show ?thesis
      by (auto simp: pd distribution_enabled_def no_distribution_def distribution_disposition_def)
  qed
  show ?thesis using durations to poll source by (intro conjI)
qed

definition sample_distribution :: jobj where
  "sample_distribution = [(''source'', JStr ''https://policy.corp/p.json''), (''refresh_interval_secs'', JInt 5)]"

lemma loaded_distribution_is_usable_witness:
  "\<exists>pd. PolicyDistribution_from_dict (plain_host ''/'') (stock_enforcer (plain_host ''/'') (\<lambda>v. [])) sample_distribution
      = Inr pd \<and> 0 < effective_timeout pd"
proof -
  have "\<not> isl (PolicyDistribution_from_dict (plain_host ''/'') (stock_enforcer (plain_host ''/'') (\<lambda>v. [])) sample_distribution)"
    by code_simp
  then obtain pd where "PolicyDistribution_from_dict (plain_host ''/'') (stock_enforcer (plain_host ''/'') (\<lambda>v. [])) sample_distribution = Inr pd"
    by (metis isl_def sumE)
  with loaded_distribution_is_usable [OF this] show ?thesis by blast
qed

text \<open>Under \<open>fail_closed\<close> an AgentCore row inside \<open>capabilities\<close> never loads enabled without a
  posture: either the capability is off or the ceiling carries one of the two known postures.\<close>

theorem enabled_agentcore_has_posture:
  assumes "parse_policy h E data sig = Inr c" and "fail_closed (c_boot c)"
    and "jget data ''capabilities'' = JObj caps" and "jget caps ''agentcore'' = JObj row"
    and "ceiling_get c AGENTCORE_SCOPE = Some (CGate g)" and "g_enabled g"
  shows "\<exists>po \<in> set AGENTCORE_POSTURES. agentcore_posture (Some c) = Some po"
proof -
  from assms(1) obtain cs where
    ap: "apply_agentcore_posture data cs (c_boot c) = Inr (c_agentcore_posture c, c_controls c)"
    using parse_policy_posture by blast
  show ?thesis
  proof (cases "enabled_agentcore data cs")
    case None
    with ap have "c_controls c = cs" by (simp add: apply_agentcore_posture_def)
    with None assms(3-6) show ?thesis by (simp add: enabled_agentcore_def ceiling_get_def)
  next
    case (Some rg)
    with ap assms(2) obtain po where "c_agentcore_posture c = Some po" "po \<in> set AGENTCORE_POSTURES"
      by (cases rg) (auto simp: apply_agentcore_posture_def eq_commute split: option.splits if_splits)
    with assms(5,6) show ?thesis by (simp add: agentcore_posture_def ceiling_get_def)
  qed
qed

definition agentcore_policy :: jobj where
  "agentcore_policy = [(''version'', JInt 1), (''boot'', JObj []),
     (''capabilities'', JObj [(''agentcore'', JObj [(''enabled'', JBool True), (''posture'', JStr ''login'')])])]"

lemma enabled_agentcore_has_posture_witness:
  "\<exists>c. parse_policy (plain_host ''/'') (stock_enforcer (plain_host ''/'') (\<lambda>v. [])) agentcore_policy Unchecked = Inr c \<and>
     (\<exists>po \<in> set AGENTCORE_POSTURES. agentcore_posture (Some c) = Some po)"
proof -
  let ?h = "plain_host ''/''"
  let ?E = "stock_enforcer ?h (\<lambda>v. [])"
  have "case parse_policy ?h ?E agentcore_policy Unchecked of Inl e \<Rightarrow> False
        | Inr c \<Rightarrow> fail_closed (c_boot c) \<and> (case ceiling_get c AGENTCORE_SCOPE of Some (CGate g) \<Rightarrow> g_enabled g | _ \<Rightarrow> False)"
    by code_simp
  then obtain c g where c: "parse_policy ?h ?E agentcore_policy Unchecked = Inr c" "fail_closed (c_boot c)"
    and g: "ceiling_get c AGENTCORE_SCOPE = Some (CGate g)" "g_enabled g"
    by (auto split: sum.splits option.splits control.splits)
  have row: "jget agentcore_policy ''capabilities'' =
      JObj [(''agentcore'', JObj [(''enabled'', JBool True), (''posture'', JStr ''login'')])]"
    "jget [(''agentcore'', JObj [(''enabled'', JBool True), (''posture'', JStr ''login'')])] ''agentcore'' =
      JObj [(''enabled'', JBool True), (''posture'', JStr ''login'')]"
    by code_simp+
  show ?thesis using enabled_agentcore_has_posture [OF c row g] c(1) by blast
qed

definition flat_agentcore_policy :: jobj where
  "flat_agentcore_policy = [(''version'', JInt 1), (''boot'', JObj [(''fail_closed'', JBool True)]),
     (''capabilities.agentcore'', JObj [(''enabled'', JBool True)])]"

text \<open>The flat spelling escapes the posture check: a policy that enables the capability under
  the dotted key loads under \<open>fail_closed\<close> with the capability on and no posture.\<close>

theorem flat_agentcore_needs_no_posture:
  "case parse_policy (plain_host ''/'') (stock_enforcer (plain_host ''/'') (\<lambda>v. [])) flat_agentcore_policy Unchecked of
     Inl e \<Rightarrow> False
   | Inr c \<Rightarrow> fail_closed (c_boot c) \<and> agentcore_posture (Some c) = None \<and>
       (case ceiling_get c AGENTCORE_SCOPE of Some (CGate g) \<Rightarrow> g_enabled g | _ \<Rightarrow> False)"
  by code_simp

section \<open>Versions\<close>

lemma tuple_ge_trans: "tuple_ge a b \<Longrightarrow> tuple_ge b c \<Longrightarrow> tuple_ge a c"
proof (induction a b arbitrary: c rule: tuple_ge.induct)
  case (1 a)
  then show ?case by (cases c) auto
next
  case (3 x a y b)
  then show ?case by (cases c) auto
qed simp

lemma tuple_ge_zeros:
  "length a = length b \<Longrightarrow> tuple_ge (a @ replicate k 0) (b @ replicate k 0) = tuple_ge a b"
proof (induction a b rule: list_induct2)
  case Nil
  show ?case by (induction k) auto
qed auto

lemma pad_to_pad: "length a \<le> w \<Longrightarrow> w \<le> v \<Longrightarrow> pad_to v a = pad_to w a @ replicate (v - w) 0"
  by (simp add: pad_to_def replicate_add [symmetric])

lemma padded_ge:
  assumes "length a \<le> w" "length b \<le> w" "w \<le> v"
  shows "tuple_ge (pad_to v a) (pad_to v b) = tuple_ge (pad_to w a) (pad_to w b)"
proof -
  have "length (pad_to w a) = length (pad_to w b)" using assms by (simp add: pad_to_def)
  then show ?thesis
    unfolding pad_to_pad [OF assms(1,3)] pad_to_pad [OF assms(2,3)] by (rule tuple_ge_zeros)
qed

lemma tuple_ge_refl: "tuple_ge a a"
  by (induction a) auto

text \<open>Version floors are consistent: a build meets its own version as a floor, and a build that
  meets a floor meets every lower floor, with missing components read as zero.\<close>

theorem version_floor_is_a_preorder:
  assumes "version_tuple fl \<noteq> []" and "fl \<noteq> []"
  shows "meets_min_version (no_pins\<lparr>up_min_version := fl\<rparr>) fl \<and>
     (meets_min_version (no_pins\<lparr>up_min_version := fl\<rparr>) build \<longrightarrow>
      meets_min_version (no_pins\<lparr>up_min_version := lower\<rparr>) fl \<longrightarrow>
      meets_min_version (no_pins\<lparr>up_min_version := lower\<rparr>) build)"
proof (intro conjI impI)
  show "meets_min_version (no_pins\<lparr>up_min_version := fl\<rparr>) fl"
    using assms by (simp add: meets_min_version_def Let_def tuple_ge_refl)
next
  assume b: "meets_min_version (no_pins\<lparr>up_min_version := fl\<rparr>) build"
    and l: "meets_min_version (no_pins\<lparr>up_min_version := lower\<rparr>) fl"
  let ?l = "if lower \<noteq> [] then version_tuple lower else []"
  let ?f = "version_tuple fl" and ?b = "version_tuple build"
  define w where "w = max (length ?b) (max (length ?f) (length ?l))"
  have bn: "?b \<noteq> []" and bf: "tuple_ge (pad_to (max (length ?b) (length ?f)) ?b) (pad_to (max (length ?b) (length ?f)) ?f)"
    using b assms by (auto simp: meets_min_version_def Let_def split: if_splits)
  show "meets_min_version (no_pins\<lparr>up_min_version := lower\<rparr>) build"
  proof (cases "?l = []")
    case True
    then show ?thesis by (simp add: meets_min_version_def Let_def split: if_splits)
  next
    case False
    then have "tuple_ge (pad_to (max (length ?f) (length ?l)) ?f) (pad_to (max (length ?f) (length ?l)) ?l)"
      using l assms by (auto simp: meets_min_version_def Let_def split: if_splits)
    then have "tuple_ge (pad_to w ?f) (pad_to w ?l)"
      using padded_ge [of ?f "max (length ?f) (length ?l)" ?l w] by (simp add: w_def)
    moreover have "tuple_ge (pad_to w ?b) (pad_to w ?f)"
      using bf padded_ge [of ?b "max (length ?b) (length ?f)" ?f w] by (simp add: w_def)
    ultimately have "tuple_ge (pad_to w ?b) (pad_to w ?l)" using tuple_ge_trans by blast
    then have "tuple_ge (pad_to (max (length ?b) (length ?l)) ?b) (pad_to (max (length ?b) (length ?l)) ?l)"
      using padded_ge [of ?b "max (length ?b) (length ?l)" ?l w] by (simp add: w_def)
    with False bn show ?thesis by (auto simp: meets_min_version_def Let_def split: if_splits)
  qed
qed

lemma version_floor_is_a_preorder_witness:
  "meets_min_version (no_pins\<lparr>up_min_version := ''0.2.1''\<rparr>) ''0.2.1'' \<and>
   meets_min_version (no_pins\<lparr>up_min_version := ''0.2''\<rparr>) ''0.3.0-nightly.20260728''"
proof -
  have a: "version_tuple ''0.2.1'' \<noteq> []" by code_simp
  have b: "meets_min_version (no_pins\<lparr>up_min_version := ''0.2.1''\<rparr>) ''0.3.0-nightly.20260728''"
    "meets_min_version (no_pins\<lparr>up_min_version := ''0.2''\<rparr>) ''0.2.1''" by code_simp+
  from version_floor_is_a_preorder [OF a, of "''0.3.0-nightly.20260728''" "''0.2''"] b show ?thesis by simp
qed

end
