(* ===== verification/Tool_Paths.thy ===== *)
theory Tool_Paths
  imports Json
begin

text \<open>
  The bounded extraction of a tool call's target paths
  (\<^verbatim>\<open>src/codex_crew/platform/tool_paths.py\<close>). The two explicit stacks are lists whose
  head is the top; \<open>seen\<close> is the set of the paths found so far and is read off \<open>found\<close>.
  A result is the list with its \<open>truncated\<close> attribute.
\<close>

definition TARGET_PATH_KEYS :: "string list" where
  "TARGET_PATH_KEYS = [''path'', ''file_path'', ''filePath'']"

definition TARGET_PATH_MAX_PATHS :: nat where
  "TARGET_PATH_MAX_PATHS = 256"

definition TARGET_PATH_MAX_NODES :: nat where
  "TARGET_PATH_MAX_NODES = 10000"

record target_paths =
  tp_found :: "string list"
  tp_truncated :: bool

definition no_paths :: target_paths where
  "no_paths = \<lparr>tp_found = [], tp_truncated = False\<rparr>"

function collect_path_strings :: "json list \<Rightarrow> target_paths \<Rightarrow> target_paths" where
  "collect_path_strings [] tp = tp"
| "collect_path_strings (item1 # pending) tp =
     (case item1 of
        JStr s \<Rightarrow>
          if strip s \<noteq> [] \<and> s \<notin> set (tp_found tp)
          then (if length (tp_found tp) \<ge> TARGET_PATH_MAX_PATHS then tp\<lparr>tp_truncated := True\<rparr>
                else collect_path_strings pending (tp\<lparr>tp_found := tp_found tp @ [s]\<rparr>))
          else collect_path_strings pending tp
      | JArr xs \<Rightarrow> collect_path_strings (xs @ pending) tp
      | _ \<Rightarrow> collect_path_strings pending tp)"
  by pat_completeness auto
termination
  by (relation "measure (\<lambda>(p, _). sum_list (map (\<lambda>v. Suc (size v)) p))")
     (auto simp: size_list_conv_sum_list sum_list_Suc)

definition collect_keys :: "jobj \<Rightarrow> target_paths \<Rightarrow> target_paths" where
  "collect_keys d tp = fold (\<lambda>k. collect_path_strings [jget d k]) TARGET_PATH_KEYS tp"

function walk_paths :: "json list \<Rightarrow> nat \<Rightarrow> target_paths \<Rightarrow> target_paths" where
  "walk_paths stack nodes tp =
     (case stack of
        [] \<Rightarrow> tp
      | node # rest \<Rightarrow>
          if length (tp_found tp) \<ge> TARGET_PATH_MAX_PATHS \<or> nodes \<ge> TARGET_PATH_MAX_NODES
          then tp\<lparr>tp_truncated := True\<rparr>
          else (case node of
                  JObj d \<Rightarrow> walk_paths (map snd d @ rest) (Suc nodes) (collect_keys d tp)
                | JArr xs \<Rightarrow> walk_paths (xs @ rest) (Suc nodes) tp
                | _ \<Rightarrow> walk_paths rest (Suc nodes) tp))"
  by pat_completeness auto
termination
  by (relation "measure (\<lambda>(_, nodes, _). TARGET_PATH_MAX_NODES - nodes)") auto

declare walk_paths.simps [simp del]

definition target_paths_of :: "jobj option \<Rightarrow> target_paths" where
  "target_paths_of raw_params =
     (case raw_params of None \<Rightarrow> no_paths | Some d \<Rightarrow> walk_paths [JObj d] 0 no_paths)"

section \<open>What the walk is to find\<close>

text \<open>\<open>carries v s\<close>: the string \<open>s\<close> is \<open>v\<close> or sits in a nest of lists \<open>v\<close>.\<close>

inductive carries :: "json \<Rightarrow> string \<Rightarrow> bool" where
  here: "carries (JStr s) s"
| item: "x \<in> set xs \<Longrightarrow> carries x s \<Longrightarrow> carries (JArr xs) s"

text \<open>
  \<open>targets v s\<close>: \<open>v\<close> names the non-blank path \<open>s\<close> under an accepted key, at any depth.
\<close>

inductive targets :: "json \<Rightarrow> string \<Rightarrow> bool" where
  key: "k \<in> set TARGET_PATH_KEYS \<Longrightarrow> dict_get d k = Some v \<Longrightarrow> carries v s \<Longrightarrow> strip s \<noteq> [] \<Longrightarrow>
        targets (JObj d) s"
| in_obj: "(k, v) \<in> set d \<Longrightarrow> targets v s \<Longrightarrow> targets (JObj d) s"
| in_arr: "x \<in> set xs \<Longrightarrow> targets x s \<Longrightarrow> targets (JArr xs) s"

inductive_simps carries_simps [simp]:
  "carries (JStr t) s" "carries (JArr xs) s" "carries (JObj d) s" "carries JNull s"
  "carries (JBool b) s" "carries (JInt n) s" "carries (JFloat f) s"

inductive_simps targets_simps [simp]:
  "targets (JStr t) s" "targets (JArr xs) s" "targets JNull s"
  "targets (JBool b) s" "targets (JInt n) s" "targets (JFloat f) s"

inductive_simps targets_obj: "targets (JObj d) s"

text \<open>The properties of a partial result that the walk keeps.\<close>

definition tp_ok :: "target_paths \<Rightarrow> bool" where
  "tp_ok tp \<longleftrightarrow> length (tp_found tp) \<le> TARGET_PATH_MAX_PATHS \<and> distinct (tp_found tp)"

definition extends_tp :: "target_paths \<Rightarrow> target_paths \<Rightarrow> bool" where
  "extends_tp a b \<longleftrightarrow> set (tp_found a) \<subseteq> set (tp_found b) \<and> (tp_truncated a \<longrightarrow> tp_truncated b)"

lemma extends_tp_refl [simp]: "extends_tp a a"
  and extends_tp_trans [trans]: "extends_tp a b \<Longrightarrow> extends_tp b c \<Longrightarrow> extends_tp a c"
  by (auto simp: extends_tp_def)

text \<open>
  What a collecting function guarantees of the strings \<open>wanted\<close>: it only adds wanted ones,
  and all of them unless it reports truncation.
\<close>

definition collects :: "(string \<Rightarrow> bool) \<Rightarrow> target_paths \<Rightarrow> target_paths \<Rightarrow> bool" where
  "collects wanted a b \<longleftrightarrow>
     extends_tp a b \<and> (tp_ok a \<longrightarrow> tp_ok b) \<and>
     (\<forall>s \<in> set (tp_found b). s \<in> set (tp_found a) \<or> wanted s) \<and>
     (\<not> tp_truncated b \<longrightarrow> (\<forall>s. wanted s \<longrightarrow> s \<in> set (tp_found b)))"

lemma collects_trans:
  "collects p a b \<Longrightarrow> collects q b c \<Longrightarrow> (\<And>s. r s \<longleftrightarrow> p s \<or> q s) \<Longrightarrow> collects r a c"
  unfolding collects_def extends_tp_def by blast

lemma collects_cong: "collects p a b \<Longrightarrow> (\<And>s. r s \<longleftrightarrow> p s) \<Longrightarrow> collects r a b"
  by (simp add: collects_def)

lemma collects_none: "(\<And>s. \<not> p s) \<Longrightarrow> collects p a a"
  by (auto simp: collects_def)

lemma collects_truncate: "collects p a (a\<lparr>tp_truncated := True\<rparr>)"
  by (auto simp: collects_def extends_tp_def tp_ok_def)

lemma collects_one:
  "length (tp_found a) < TARGET_PATH_MAX_PATHS \<Longrightarrow> t \<notin> set (tp_found a) \<Longrightarrow>
   collects (\<lambda>s. s = t) a (a\<lparr>tp_found := tp_found a @ [t]\<rparr>)"
  by (auto simp: collects_def extends_tp_def tp_ok_def)

lemma collects_seen: "t \<in> set (tp_found a) \<Longrightarrow> collects (\<lambda>s. s = t) a a"
  by (auto simp: collects_def)

lemma collect_path_strings_collects:
  "collects (\<lambda>s. strip s \<noteq> [] \<and> (\<exists>v \<in> set pending. carries v s)) tp (collect_path_strings pending tp)"
proof (induction pending tp rule: collect_path_strings.induct)
  case (1 tp)
  then show ?case by (simp add: collects_none)
next
  case (2 v pending tp)
  show ?case
  proof (cases v)
    case (JStr t)
    show ?thesis
    proof (cases "strip t \<noteq> []")
      case False
      then show ?thesis
        using 2(6) [OF JStr] JStr by (auto elim!: collects_cong)
    next
      case nb: True
      consider (seen) "t \<in> set (tp_found tp)"
        | (full) "t \<notin> set (tp_found tp)" "length (tp_found tp) \<ge> TARGET_PATH_MAX_PATHS"
        | (new) "t \<notin> set (tp_found tp)" "length (tp_found tp) < TARGET_PATH_MAX_PATHS"
        by fastforce
      then show ?thesis
      proof cases
        case seen
        then show ?thesis
          using JStr nb 2(6) [OF JStr] by (auto elim!: collects_trans [OF collects_seen [OF seen]])
      next
        case full
        with JStr nb show ?thesis by (simp add: collects_truncate)
      next
        case new
        then show ?thesis
          using JStr nb 2(5) [OF JStr]
          by (auto elim!: collects_trans [OF collects_one [OF new(2,1)]])
      qed
    qed
  next
    case (JArr xs)
    from 2(7) [OF JArr] show ?thesis
      using JArr by (auto elim!: collects_cong)
  qed (use 2 in auto)
qed

lemma fold_collects:
  "(\<And>k tp. collects (w k) tp (f k tp)) \<Longrightarrow> collects (\<lambda>s. \<exists>k \<in> set ks. w k s) tp (fold f ks tp)"
proof (induction ks arbitrary: tp)
  case Nil
  then show ?case by (simp add: collects_none)
next
  case (Cons k ks)
  have "collects (\<lambda>s. \<exists>k \<in> set ks. w k s) (f k tp) (fold f ks (f k tp))"
    by (rule Cons.IH) (rule Cons.prems)
  from collects_trans [OF Cons.prems [of k tp] this] show ?case by simp
qed

lemma collect_keys_collects:
  "collects (\<lambda>s. \<exists>k \<in> set TARGET_PATH_KEYS. strip s \<noteq> [] \<and> carries (jget d k) s) tp (collect_keys d tp)"
  unfolding collect_keys_def
  by (rule fold_collects) (use collect_path_strings_collects [of "[jget d _]"] in \<open>simp\<close>)

lemma targets_obj_iff:
  "targets (JObj d) s \<longleftrightarrow>
     (\<exists>k \<in> set TARGET_PATH_KEYS. strip s \<noteq> [] \<and> carries (jget d k) s) \<or> (\<exists>v \<in> snd ` set d. targets v s)"
proof -
  have "carries (jget d k) s \<longleftrightarrow> (\<exists>v. dict_get d k = Some v \<and> carries v s)" for k
    by (cases "dict_get d k") (auto simp: jget_def dict_get_default_def)
  then show ?thesis by (auto simp: targets_obj) force+
qed

lemma walk_paths_collects:
  "collects (\<lambda>s. \<exists>v \<in> set stack. targets v s) tp (walk_paths stack nodes tp)"
proof (induction stack nodes tp rule: walk_paths.induct)
  case (1 stack nodes tp)
  show ?case
  proof (cases stack)
    case Nil
    then show ?thesis by (simp add: walk_paths.simps [of "[]"] collects_none)
  next
    case (Cons node rest)
    show ?thesis
    proof (cases "length (tp_found tp) \<ge> TARGET_PATH_MAX_PATHS \<or> nodes \<ge> TARGET_PATH_MAX_NODES")
      case True
      with Cons show ?thesis by (simp add: walk_paths.simps [of "_ # _"] collects_truncate)
    next
      case False
      note step = walk_paths.simps [of "node # rest" nodes tp]
      show ?thesis
      proof (cases node)
        case (JObj d)
        from 1(7) [OF Cons False JObj] have
          "collects (\<lambda>s. \<exists>v \<in> set (map snd d @ rest). targets v s) (collect_keys d tp)
             (walk_paths (map snd d @ rest) (Suc nodes) (collect_keys d tp))" .
        from collects_trans [OF collect_keys_collects this] show ?thesis
          using Cons False JObj step by (simp add: targets_obj_iff bex_Un disj_assoc)
      next
        case (JArr xs)
        from 1(6) [OF Cons False JArr] show ?thesis
          using Cons False JArr step by (auto elim!: collects_cong)
      qed (use 1 Cons False step in auto)
    qed
  qed
qed

lemma target_paths_of_collects:
  "collects (\<lambda>s. targets (JObj d) s) no_paths (target_paths_of (Some d))"
  using walk_paths_collects [of "[JObj d]"] by (simp add: target_paths_of_def)

lemma target_paths_complete:
  "\<not> tp_truncated (target_paths_of (Some d)) \<Longrightarrow> targets (JObj d) s \<Longrightarrow>
   s \<in> set (tp_found (target_paths_of (Some d)))"
  using target_paths_of_collects [of d] by (simp add: collects_def)

lemma target_paths_sound:
  "s \<in> set (tp_found (target_paths_of (Some d))) \<Longrightarrow> targets (JObj d) s"
  using target_paths_of_collects [of d] by (auto simp: collects_def no_paths_def)

lemma target_paths_bounded:
  "length (tp_found (target_paths_of r)) \<le> TARGET_PATH_MAX_PATHS \<and> distinct (tp_found (target_paths_of r))"
proof (cases r)
  case None
  then show ?thesis by (simp add: target_paths_of_def no_paths_def)
next
  case (Some d)
  with target_paths_of_collects [of d] show ?thesis
    by (simp add: collects_def tp_ok_def no_paths_def)
qed

text \<open>C38. The path scan is exact: it reports each string at most once, never more than the
  cap, only paths the arguments name under an accepted key, and all of those at any depth
  unless it says it was cut short.\<close>

theorem path_scan_is_exact:
  "length (tp_found (target_paths_of (Some d))) \<le> TARGET_PATH_MAX_PATHS \<and>
   distinct (tp_found (target_paths_of (Some d))) \<and>
   (\<forall>s \<in> set (tp_found (target_paths_of (Some d))). targets (JObj d) s) \<and>
   (tp_truncated (target_paths_of (Some d)) \<or>
    (\<forall>s. targets (JObj d) s \<longrightarrow> s \<in> set (tp_found (target_paths_of (Some d)))))"
  using target_paths_bounded [of "Some d"] target_paths_sound [of _ d] target_paths_complete [of d]
  by blast

definition sample_args :: jobj where
  "sample_args = [(''edits'', JArr [JObj [(''path'', JStr ''/w/a'')], JObj [(''path'', JStr ''/w/b'')]])]"

lemma path_scan_is_exact_witness:
  "tp_found (target_paths_of (Some sample_args)) = [''/w/a'', ''/w/b''] \<and>
   targets (JObj sample_args) ''/w/b''"
proof -
  have e: "tp_found (target_paths_of (Some sample_args)) = [''/w/a'', ''/w/b'']" by code_simp
  then have "''/w/b'' \<in> set (tp_found (target_paths_of (Some sample_args)))" by simp
  then have "targets (JObj sample_args) ''/w/b''" using path_scan_is_exact [of sample_args] by blast
  with e show ?thesis ..
qed

end
