(* ===== verification/Gov_Gate.thy ===== *)
theory Gov_Gate
  imports Gov_Policy Tool_Paths
begin

text \<open>
  The decisions of the governance evaluator (\<^verbatim>\<open>src/codex_crew/platform/governance.py\<close>):
  classification of a tool title and of a call's arguments into governed scope/item pairs,
  \<open>resolve\<close> and \<open>gate_decision\<close>, the pinned commands, the auto-approve predicates
  (\<open>may_skip_gate\<close> and its callers), the ordinals and the boot checks.
  Audit records and logging are not modelled.
\<close>

section \<open>Classification\<close>

definition CU_TITLE_PREFIX :: string where
  "CU_TITLE_PREFIX = ''mcp__codexcrew-computer__''"

definition RUNNING_PREFIX :: string where "RUNNING_PREFIX = ''Running: ''"
definition READING_PREFIX :: string where "READING_PREFIX = ''Reading ''"

definition is_computer_use_title :: "string \<Rightarrow> bool" where
  "is_computer_use_title tool_name = starts_with tool_name CU_TITLE_PREFIX"

definition computer_use_action_from_title :: "string \<Rightarrow> string" where
  "computer_use_action_from_title tool_name =
     (if is_computer_use_title tool_name then drop (length CU_TITLE_PREFIX) tool_name else [])"

text \<open>\<open>rest.rpartition("__")\<close>: the split at the last occurrence.\<close>

fun rsplit_dunder :: "string \<Rightarrow> (string \<times> string) option" where
  "rsplit_dunder [] = None"
| "rsplit_dunder (c # cs) =
     (case rsplit_dunder cs of
        Some (a, b) \<Rightarrow> Some (c # a, b)
      | None \<Rightarrow> if starts_with (c # cs) ''__'' then Some ([], drop 2 (c # cs)) else None)"

definition mcp_title_to_ref :: "string \<Rightarrow> string" where
  "mcp_title_to_ref title =
     (if \<not> starts_with title ''mcp__'' then title
      else let rest = drop 5 title
           in case rsplit_dunder rest of
                Some (server, tool) \<Rightarrow> ''@'' @ server @ ''/'' @ tool
              | None \<Rightarrow> ''@'' @ rest)"

type_synonym pair = "string \<times> string"

definition classify_tool_title :: "string \<Rightarrow> pair list" where
  "classify_tool_title tool_name =
     (if starts_with tool_name ''mcp__'' then [(''mcp'', mcp_title_to_ref tool_name)]
      else if starts_with tool_name RUNNING_PREFIX
      then [(''commands'', drop (length RUNNING_PREFIX) tool_name)]
      else if starts_with tool_name READING_PREFIX
      then (let path = strip (drop (length READING_PREFIX) tool_name)
            in if path = [] then [] else [(''filesystem.read'', path)])
      else [(''commands'', tool_name), (''tools'', tool_name)])"

definition TRUNCATED_SCAN_ITEM :: string where
  "TRUNCATED_SCAN_ITEM = CHR 0x00 # ''<governance:path-scan-truncated-unverifiable>''"

definition egress_pairs :: "host \<Rightarrow> json \<Rightarrow> pair list" where
  "egress_pairs h url =
     (case as_str url of
        None \<Rightarrow> []
      | Some u \<Rightarrow> if u = [] then []
                  else let hst = url_host h u in if hst = [] then [] else [(''network.egress'', hst)])"

definition classify_tool_args :: "host \<Rightarrow> string \<Rightarrow> jobj option \<Rightarrow> pair list" where
  "classify_tool_args h tool_kind raw_params =
     (case raw_params of
        None \<Rightarrow> []
      | Some d \<Rightarrow>
          if d = [] then []
          else let tp = target_paths_of (Some d);
                   paths = tp_found tp; cut = tp_truncated tp;
                   url = jor (jget d ''url'') (jget d ''uri'');
                   has_command = truthy (jget d ''command'')
               in if tool_kind = ''edit'' then
                    map (Pair ''filesystem.write'') paths
                      @ (if cut then [(''filesystem.write'', TRUNCATED_SCAN_ITEM)] else [])
                  else if tool_kind = ''read'' then
                    map (Pair ''filesystem.read'') paths
                      @ (if cut then [(''filesystem.read'', TRUNCATED_SCAN_ITEM)] else [])
                  else if tool_kind = ''fetch'' then egress_pairs h url
                  else if \<not> has_command then
                    egress_pairs h url
                      @ concat (map (\<lambda>p. [(''filesystem.read'', p), (''filesystem.write'', p)]) paths)
                      @ (if cut then [(''filesystem.read'', TRUNCATED_SCAN_ITEM),
                                      (''filesystem.write'', TRUNCATED_SCAN_ITEM)] else [])
                  else [])"

section \<open>Resolution\<close>

definition query_level :: "registry \<Rightarrow> control option \<Rightarrow> string \<Rightarrow> string \<Rightarrow> decision res" where
  "query_level R c scope x =
     (case c of
        None \<Rightarrow> Inr (Decision True NotGoverned DefaultRule DefaultLayer)
      | Some (CRuleset r) \<Rightarrow> permits R r x
      | Some (CGate g) \<Rightarrow>
          (case partition_at (CHR '':'') x of
             (inner, sep, v) \<Rightarrow>
               if sep then permits_scope_item R g inner v
               else Inr (if g_enabled g then Decision True CapabilityEnabled GateRule NoLayer
                         else Decision False CapabilityDisabled GateRule NoLayer))
      | Some (CMap m) \<Rightarrow>
          (case partition_at slash x of
             (member, sep, rest) \<Rightarrow>
               if \<not> sep then permits_member R m member
               else (case partition_at (CHR '':'') rest of
                       (leaf, _, v) \<Rightarrow> posture_permits R m member leaf v))
      | Some (COrdinal o1) \<Rightarrow> Inr (Decision True OrdinalNotQueried OrdinalRule NoLayer)
      | Some (CFlags d) \<Rightarrow> Inl PlatformCompositionError)"

definition policy_control :: "ceiling option \<Rightarrow> string \<Rightarrow> control option" where
  "policy_control ceil scope = (case ceil of None \<Rightarrow> None | Some c \<Rightarrow> ceiling_get c scope)"

definition profile_control :: "profile option \<Rightarrow> string \<Rightarrow> control option" where
  "profile_control prof scope = (case prof of None \<Rightarrow> None | Some p \<Rightarrow> profile_get p scope)"

definition resolve :: "registry \<Rightarrow> ceiling option \<Rightarrow> profile option \<Rightarrow> string \<Rightarrow> string \<Rightarrow> decision res" where
  "resolve R ceil prof scope x =
     (let pc = policy_control ceil scope; fc = profile_control prof scope
      in rbind (query_level R pc scope x) (\<lambda>policy_dec.
         if \<not> permitted policy_dec
         then Inr (Decision False (PolicyDenies (d_reason policy_dec)) (d_rule policy_dec) PolicyLayer)
         else rbind (query_level R fc scope x) (\<lambda>profile_dec.
         if \<not> permitted profile_dec
         then Inr (Decision False (ProfileDenies (d_reason profile_dec)) (d_rule profile_dec) ProfileLayer)
         else Inr (Decision True Permitted Rule2Intersect
                (if pc \<noteq> None \<and> fc \<noteq> None then BothLayers
                 else if pc \<noteq> None then PolicyLayer
                 else if fc \<noteq> None then ProfileLayer else DefaultLayer)))))"

text \<open>The loop over the pairs: the first denial is returned, with its item.\<close>

fun first_denial ::
  "registry \<Rightarrow> ceiling option \<Rightarrow> profile option \<Rightarrow> pair list \<Rightarrow> decision res" where
  "first_denial R ceil prof [] = Inr (Decision True PermittedByAllScopes Rule2Intersect NoLayer)"
| "first_denial R ceil prof ((scope, x) # ps) =
     rbind (resolve R ceil prof scope x) (\<lambda>dec.
       if \<not> permitted dec then Inr (dec\<lparr>d_item := x\<rparr>) else first_denial R ceil prof ps)"

record call =
  tool_title :: string
  tool_kind :: string
  raw_params :: "jobj option"
  mcp_ref :: string
  extra_titles :: "string list"

definition titled :: "string \<Rightarrow> call" where
  "titled t = \<lparr>tool_title = t, tool_kind = [], raw_params = None, mcp_ref = [], extra_titles = []\<rparr>"

definition call_pairs :: "host \<Rightarrow> call \<Rightarrow> pair list" where
  "call_pairs h c =
     dedup (classify_tool_title (tool_title c)
            @ concat (map classify_tool_title (filter (\<lambda>t. t \<noteq> []) (extra_titles c)))
            @ classify_tool_args h (tool_kind c) (raw_params c)
            @ (if mcp_ref c \<noteq> [] then [(''mcp'', mcp_ref c)] else []))"

definition gate_decision ::
  "host \<Rightarrow> registry \<Rightarrow> ceiling option \<Rightarrow> profile option \<Rightarrow> call \<Rightarrow> decision res" where
  "gate_decision h R ceil prof c =
     (let pairs = call_pairs h c
      in if pairs = [] then Inr (Decision True TitleNotGoverned DefaultRule NoLayer)
         else first_denial R ceil prof pairs)"

definition resolve_pinned_commands :: "ceiling option \<Rightarrow> profile option \<Rightarrow> string list" where
  "resolve_pinned_commands ceil prof =
     dedup ((case ceil of None \<Rightarrow> [] | Some c \<Rightarrow> ceiling_pinned_commands c)
            @ (case prof of None \<Rightarrow> [] | Some p \<Rightarrow> profile_pinned_commands p))"

section \<open>Auto-approve\<close>

definition BUILTIN_TOOL_SCOPES :: "(string, string list) dict" where
  "BUILTIN_TOOL_SCOPES =
     [(''code'', [''commands'', ''tools'', ''filesystem.write'']),
      (''execute_bash'', [''commands'']),
      (''fs_read'', [''filesystem.read'']),
      (''fs_write'', [''filesystem.write'']),
      (''glob'', [''filesystem.read'']),
      (''grep'', [''filesystem.read'']),
      (''web_fetch'', [''network.egress'']),
      (''web_search'', [''network.egress''])]"

definition FLOOR_GATE_SCOPES :: "string list" where
  "FLOOR_GATE_SCOPES = [''filesystem.read'', ''filesystem.write'', ''commands'']"

definition ceiling_mentions_mcp_server :: "ceiling \<Rightarrow> string \<Rightarrow> bool" where
  "ceiling_mentions_mcp_server ceil server =
     (case ceiling_get ceil ''mcp'' of
        Some (CRuleset (Scoped rs)) \<Rightarrow>
          (let prefix = casefold (''@'' @ server)
           in list_ex (\<lambda>p. let candidate = casefold (strip p)
                           in candidate = prefix \<or> starts_with candidate (prefix @ ''/''))
                (rs_allow rs @ rs_deny rs))
      | _ \<Rightarrow> False)"

definition ruleset_has_an_opinion :: "control option \<Rightarrow> bool" where
  "ruleset_has_an_opinion c =
     (case c of
        None \<Rightarrow> False
      | Some (CRuleset (Scoped rs)) \<Rightarrow>
          (case rs_mode rs of MODE_ALLOW \<Rightarrow> True | MODE_DENY \<Rightarrow> rs_deny rs \<noteq> [])
      | _ \<Rightarrow> True)"

definition builtin_scopes :: "string \<Rightarrow> string list" where
  "builtin_scopes ref = dict_get_default BUILTIN_TOOL_SCOPES ref []"

definition ARG_SCOPES :: "string list" where
  "ARG_SCOPES = [''filesystem.read'', ''filesystem.write'', ''network.egress'']"

definition may_skip_gate :: "host \<Rightarrow> registry \<Rightarrow> json \<Rightarrow> ceiling option \<Rightarrow> bool" where
  "may_skip_gate h R ref_value ceil =
     (case as_str ref_value of
        None \<Rightarrow> False
      | Some ref \<Rightarrow>
          if \<not> starts_with ref ''@'' \<and> list_ex (\<lambda>s. s \<in> set FLOOR_GATE_SCOPES) (builtin_scopes ref)
          then False
          else (case ceil of
                  None \<Rightarrow> True
                | Some c \<Rightarrow>
                    if starts_with ref ''@'' then
                      (let server = hd (split_on slash (drop 1 ref))
                       in if server = [] then False
                          else (case gate_decision h R ceil None (titled (''mcp__'' @ server @ ''__probe'')) of
                                  Inl _ \<Rightarrow> False
                                | Inr dec \<Rightarrow>
                                    if \<not> permitted dec then False
                                    else if ceiling_mentions_mcp_server c server then False
                                    else \<not> list_ex (\<lambda>s. ruleset_has_an_opinion (ceiling_get c s)) ARG_SCOPES))
                    else \<not> list_ex (\<lambda>s. ruleset_has_an_opinion (ceiling_get c s))
                              (''tools'' # builtin_scopes ref)))"

text \<open>
  \<open>may_skip_gate_now\<close>: the installed ceiling and the profile scan are calls that may raise.
\<close>

definition may_skip_gate_now ::
  "host \<Rightarrow> registry \<Rightarrow> ceiling option res \<Rightarrow> (json \<Rightarrow> bool res) \<Rightarrow> json \<Rightarrow> bool" where
  "may_skip_gate_now h R installed profile_governs ref =
     (case installed of
        Inl _ \<Rightarrow> False
      | Inr ceil \<Rightarrow>
          may_skip_gate h R ref ceil \<and>
          (case profile_governs ref of Inl _ \<Rightarrow> False | Inr g \<Rightarrow> \<not> g))"

definition strip_ungoverned_auto_approve :: "(json \<Rightarrow> bool) \<Rightarrow> jobj \<Rightarrow> jobj" where
  "strip_ungoverned_auto_approve may_skip servers =
     map (\<lambda>(name, spec).
            case as_obj spec of
              None \<Rightarrow> (name, spec)
            | Some d \<Rightarrow>
                if \<not> jhas d ''autoApprove'' then (name, spec)
                else if may_skip (JStr (''@'' @ name)) then (name, spec)
                else (name, JObj (dict_del ''autoApprove'' d))) servers"

definition sanitize_agent_config_governance :: "(json \<Rightarrow> bool) \<Rightarrow> jobj \<Rightarrow> jobj" where
  "sanitize_agent_config_governance may_skip config =
     (let config1 = (case jget config ''allowedTools'' of
                       JArr allowed \<Rightarrow>
                         dict_set ''allowedTools''
                           (JArr (filter (\<lambda>ref. as_str ref \<noteq> None \<and> may_skip ref) allowed)) config
                     | _ \<Rightarrow> config)
      in case jget config1 ''mcpServers'' of
           JObj servers \<Rightarrow>
             dict_set ''mcpServers'' (JObj (strip_ungoverned_auto_approve may_skip servers)) config1
         | _ \<Rightarrow> config1)"

section \<open>Ordinals and boot checks\<close>

definition resolve_ordinal ::
  "ceiling option \<Rightarrow> profile option \<Rightarrow> string \<Rightarrow> ordinal option res" where
  "resolve_ordinal ceil prof scope =
     (case policy_control ceil scope of
        None \<Rightarrow>
          (case profile_control prof scope of
             None \<Rightarrow> Inr None
           | Some (COrdinal p) \<Rightarrow> Inr (Some p)
           | Some _ \<Rightarrow> Inl PlatformCompositionError)
      | Some (COrdinal c) \<Rightarrow>
          (case profile_control prof scope of
             None \<Rightarrow> Inr (Some c)
           | Some (COrdinal p) \<Rightarrow> rbind (ordinal_compose c p) (\<lambda>o1. Inr (Some o1))
           | Some _ \<Rightarrow> Inl PlatformCompositionError)
      | Some _ \<Rightarrow> Inl PlatformCompositionError)"

definition floor_row :: "ceiling \<Rightarrow> profile \<Rightarrow> string \<times> scope_spec \<Rightarrow> unit \<Rightarrow> unit res" where
  "floor_row ceil prof row u =
     (case row of (scope, spec) \<Rightarrow>
        if sp_kind spec \<noteq> ORDINAL then Inr ()
        else (case (ceiling_get ceil scope, profile_get prof scope) of
                (Some (COrdinal pol), Some (COrdinal pro)) \<Rightarrow>
                  rbind (is_at_least_as_strict_as pro pol) (\<lambda>ok. ensure ok PlatformCompositionError)
              | _ \<Rightarrow> Inr ()))"

definition assert_governance_floor :: "enforcer \<Rightarrow> ceiling option \<Rightarrow> profile option \<Rightarrow> unit res" where
  "assert_governance_floor E ceil prof =
     (case (ceil, prof) of
        (Some c, Some p) \<Rightarrow> fold_res (floor_row c p) (e_catalog E) ()
      | _ \<Rightarrow> Inr ())"

definition compose_entry :: "string \<times> control \<Rightarrow> controls \<Rightarrow> controls res" where
  "compose_entry entry merged =
     (case entry of (scope, c_control) \<Rightarrow>
        (case dict_get merged scope of
           None \<Rightarrow> Inr (dict_set scope c_control merged)
         | Some p_control \<Rightarrow>
             rbind (compose_controls p_control c_control) (\<lambda>c. Inr (dict_set scope c merged))))"

definition compose_profiles :: "profile \<Rightarrow> profile \<Rightarrow> profile res" where
  "compose_profiles parent child =
     rbind (fold_res compose_entry (p_controls child) (p_controls parent)) (\<lambda>merged.
     Inr \<lparr>p_name = p_name child,
          p_bind = (case p_bind child of None \<Rightarrow> p_bind parent | Some b \<Rightarrow> Some b),
          p_extends = [], p_controls = merged,
          p_unknown_scopes = dedup (p_unknown_scopes parent @ p_unknown_scopes child)\<rparr>)"

section \<open>Queries that cannot raise\<close>

text \<open>A control every query of which has an answer.\<close>

fun askable :: "registry \<Rightarrow> control \<Rightarrow> bool" where
  "askable R (CRuleset r) = ruleset_ok R r"
| "askable R (COrdinal o1) = True"
| "askable R (CGate g) = gate_ok R g"
| "askable R (CMap m) = map_ok R m"
| "askable R (CFlags d) = False"

lemma kind_fits_askable: "kind_fits R p spec c \<Longrightarrow> askable R c"
  by (cases c) auto

lemma controls_ok_askable:
  "controls_ok E p cs \<Longrightarrow> dict_get cs s = Some c \<Longrightarrow> s \<noteq> SANDBOX_FLAGS_SCOPE \<Longrightarrow> askable (e_matchers E) c"
  by (drule (1) controls_ok_get) (auto simp: control_ok_iff dest: kind_fits_askable)

lemma query_total:
  assumes "\<And>ctl. c = Some ctl \<Longrightarrow> askable R ctl"
  shows "\<exists>d. query_level R c s x = Inr d"
proof (cases c)
  case None
  then show ?thesis by (simp add: query_level_def)
next
  case (Some ctl)
  then have a: "askable R ctl" using assms by simp
  show ?thesis
  proof (cases ctl)
    case (CRuleset r)
    with a Some show ?thesis by (simp add: query_level_def permits_total)
  next
    case (CGate g)
    obtain inner sep v where p: "partition_at (CHR '':'') x = (inner, sep, v)" by (metis prod_cases3)
    have "\<exists>d. permits_scope_item R g inner v = Inr d"
      using a CGate by (auto simp: permits_scope_item_def split: option.split
          intro: permits_total gate_ok_get)
    with CGate Some p show ?thesis by (simp add: query_level_def)
  next
    case (CMap m)
    then have "\<exists>d. permits_member R m i = Inr d" "\<exists>d. posture_permits R m j l v = Inr d" for i j l v
      using a by (auto simp: map_ok_def permits_member_def intro: permits_total posture_total)
    with CMap Some show ?thesis by (simp add: query_level_def split: prod.splits)
  qed (use a Some in \<open>simp_all add: query_level_def\<close>)
qed

lemma resolve_grants:
  "grants (resolve R ceil prof s x) \<longleftrightarrow>
     grants (query_level R (policy_control ceil s) s x) \<and>
     grants (query_level R (profile_control prof s) s x)"
  unfolding resolve_def Let_def
  by (cases "query_level R (policy_control ceil s) s x";
      cases "query_level R (profile_control prof s) s x") auto

lemma first_denial_grants:
  "grants (first_denial R ceil prof ps) \<longleftrightarrow> list_all (\<lambda>(s, x). grants (resolve R ceil prof s x)) ps"
proof (induction ps)
  case (Cons p ps)
  obtain s x where p: "p = (s, x)" by (cases p)
  from Cons show ?case by (cases "resolve R ceil prof s x") (auto simp: p)
qed simp

lemma gate_grants:
  "grants (gate_decision h R ceil prof c) \<longleftrightarrow>
     list_all (\<lambda>(s, x). grants (resolve R ceil prof s x)) (call_pairs h c)"
  by (auto simp: gate_decision_def Let_def first_denial_grants)

lemma ungoverned_query [simp]: "grants (query_level R None s x)"
  by (simp add: query_level_def)

lemma resolve_total:
  assumes "\<And>ctl. policy_control ceil s = Some ctl \<Longrightarrow> askable R ctl"
    and "\<And>ctl. profile_control prof s = Some ctl \<Longrightarrow> askable R ctl"
  shows "\<exists>d. resolve R ceil prof s x = Inr d"
proof -
  obtain d where d: "query_level R (policy_control ceil s) s x = Inr d"
    using query_total [of "policy_control ceil s" R] assms(1) by blast
  obtain e where e: "query_level R (profile_control prof s) s x = Inr e"
    using query_total [of "profile_control prof s" R] assms(2) by blast
  show ?thesis by (simp add: resolve_def Let_def d e)
qed

lemma first_denial_total:
  "list_all (\<lambda>(s, x). \<exists>d. resolve R ceil prof s x = Inr d) ps \<Longrightarrow>
   \<exists>d. first_denial R ceil prof ps = Inr d"
  by (induction ps) auto

text \<open>The scopes a call can be classified into.\<close>

definition GATE_SCOPES :: "string list" where
  "GATE_SCOPES = [''mcp'', ''commands'', ''tools'', ''filesystem.read'', ''filesystem.write'', ''network.egress'']"

lemma title_scopes: "(s, x) \<in> set (classify_tool_title t) \<Longrightarrow> s \<in> set GATE_SCOPES"
  by (auto simp: classify_tool_title_def GATE_SCOPES_def Let_def split: if_splits)

lemma egress_scopes: "(s, x) \<in> set (egress_pairs h u) \<Longrightarrow> s = ''network.egress''"
  by (auto simp: egress_pairs_def Let_def split: option.splits if_splits)

lemma args_scopes: "(s, x) \<in> set (classify_tool_args h k r) \<Longrightarrow> s \<in> set ARG_SCOPES"
  by (auto simp: classify_tool_args_def ARG_SCOPES_def Let_def
      split: option.splits if_splits dest: egress_scopes)

lemma arg_scopes_gate: "s \<in> set ARG_SCOPES \<Longrightarrow> s \<in> set GATE_SCOPES"
  by (auto simp: GATE_SCOPES_def ARG_SCOPES_def)

lemma mcp_gate_scope: "''mcp'' \<in> set GATE_SCOPES"
  by (simp add: GATE_SCOPES_def)

lemma call_scopes: "(s, x) \<in> set (call_pairs h c) \<Longrightarrow> s \<in> set GATE_SCOPES"
  by (auto simp: call_pairs_def mcp_gate_scope split: if_splits
      dest: title_scopes args_scopes [THEN arg_scopes_gate])

lemma gate_scope_not_flags: "s \<in> set GATE_SCOPES \<Longrightarrow> s \<noteq> SANDBOX_FLAGS_SCOPE"
  by (auto simp: GATE_SCOPES_def SANDBOX_FLAGS_SCOPE_def)

lemma gate_total:
  assumes "\<And>c. ceil = Some c \<Longrightarrow> ceiling_ok E c" and "\<And>p. prof = Some p \<Longrightarrow> profile_ok E p"
  shows "\<exists>d. gate_decision h (e_matchers E) ceil prof c = Inr d"
proof -
  have "\<exists>d. resolve (e_matchers E) ceil prof s x = Inr d" if "(s, x) \<in> set (call_pairs h c)" for s x
  proof (rule resolve_total)
    have s: "s \<noteq> SANDBOX_FLAGS_SCOPE" using that by (intro gate_scope_not_flags call_scopes)
    show "askable (e_matchers E) ctl" if "policy_control ceil s = Some ctl" for ctl
      using that assms(1) controls_ok_askable [OF _ _ s]
      by (auto simp: policy_control_def ceiling_get_def ceiling_ok_def split: option.splits)
    show "askable (e_matchers E) ctl" if "profile_control prof s = Some ctl" for ctl
      using that assms(2) controls_ok_askable [OF _ _ s]
      by (auto simp: profile_control_def profile_get_def profile_ok_def split: option.splits)
  qed
  then show ?thesis
    by (auto simp: gate_decision_def Let_def list_all_iff intro!: first_denial_total)
qed

section \<open>Properties of the gate\<close>

text \<open>C1. The gate permits a call exactly when, for every scope and item its title, arguments
  and trusted references map to, the policy's control and the profile's control both permit it;
  a level that does not govern a scope contributes a permit.\<close>

theorem gate_is_policy_and_profile:
  "grants (gate_decision h R ceil prof c) =
     list_all (\<lambda>(s, x). grants (query_level R (policy_control ceil s) s x) \<and>
                        grants (query_level R (profile_control prof s) s x)) (call_pairs h c)"
  unfolding gate_grants by (rule list.pred_cong) (auto simp: resolve_grants)

text \<open>C3. A policy denial is final: a call the ceiling alone does not let through is not let
  through under any profile, and a profile alone never widens the ceiling.\<close>

theorem policy_denial_is_final:
  assumes "\<not> grants (gate_decision h R ceil None c)"
  shows "\<not> grants (gate_decision h R ceil prof c)"
  using assms by (auto simp: gate_grants resolve_grants list_all_iff profile_control_def)

definition sample_host :: host where
  "sample_host = plain_host ''/work/app''"

definition sample_enforcer :: enforcer where
  "sample_enforcer = stock_enforcer sample_host (\<lambda>v. [])"

definition deny_report :: control where
  "deny_report = CRuleset (Scoped \<lparr>rs_mode = MODE_DENY, rs_allow = [], rs_deny = [''report''],
     rs_matcher = ''identifier''\<rparr>)"

lemma policy_denial_is_final_witness:
  "\<not> grants (gate_decision sample_host (MATCHERS sample_host)
       (Some (bare_ceiling [(''tools'', deny_report)])) (Some (bare_profile ''p'' [])) (titled ''report''))"
  by (rule policy_denial_is_final) code_simp

text \<open>C5. Documents that load can be enforced: for a ceiling from \<open>parse_policy\<close> and a profile
  from \<open>parse_profile\<close> the gate answers every call, whatever its title, kind and arguments;
  no query raises.\<close>

theorem loaded_documents_answer_every_call:
  assumes "parse_policy h E policy_doc sig = Inr ceil" and "parse_profile E profile_doc = Inr prof"
    and "enforcer_ok E" and "json_wf (JObj policy_doc)" and "json_wf (JObj profile_doc)"
  shows "\<exists>d. gate_decision h (e_matchers E) (Some ceil) (Some prof) c = Inr d"
proof (rule gate_total)
  show "ceiling_ok E k" if "Some ceil = Some k" for k
    using parse_policy_ok [OF assms(1,3,4)] that by simp
  show "profile_ok E k" if "Some prof = Some k" for k
    using parse_profile_ok [OF assms(2,3,5)] that by simp
qed

definition sample_policy :: jobj where
  "sample_policy =
     [(''version'', JInt 1), (''boot'', JObj []),
      (''tools'', JObj [(''mode'', JStr ''deny''), (''deny'', JArr [JStr ''report''])]),
      (''channels'', JObj [(''members'', JObj [(''mode'', JStr ''allow''), (''allow'', JArr [JStr ''slack''])])])]"

definition sample_profile :: jobj where
  "sample_profile =
     [(''name'', JStr ''child''), (''bind'', JObj [(''type'', JStr ''app''), (''id'', JStr ''notes'')]),
      (''commands'', JObj [(''mode'', JStr ''deny''), (''deny'', JArr [JStr ''rm *''])])]"

lemma sample_documents:
  "\<not> isl (parse_policy sample_host sample_enforcer sample_policy Unchecked)"
  "\<not> isl (parse_profile sample_enforcer sample_profile)"
  "enforcer_ok sample_enforcer"
  "json_wf (JObj sample_policy)" "json_wf (JObj sample_profile)"
  by code_simp+

lemma loaded_documents_answer_every_call_witness:
  "\<exists>ceil prof d. parse_policy sample_host sample_enforcer sample_policy Unchecked = Inr ceil \<and>
     gate_decision sample_host (e_matchers sample_enforcer) (Some ceil) (Some prof) (titled ''report'') = Inr d"
proof -
  obtain ceil prof where
    "parse_policy sample_host sample_enforcer sample_policy Unchecked = Inr ceil"
    "parse_profile sample_enforcer sample_profile = Inr prof"
    using sample_documents(1,2) by (metis isl_def sumE)
  with loaded_documents_answer_every_call [OF this sample_documents(3-5)] show ?thesis by blast
qed

lemma in_call_pairs_title: "p \<in> set (classify_tool_title (tool_title c)) \<Longrightarrow> p \<in> set (call_pairs h c)"
  and in_call_pairs_args: "p \<in> set (classify_tool_args h (tool_kind c) (raw_params c)) \<Longrightarrow> p \<in> set (call_pairs h c)"
  by (auto simp: call_pairs_def)

lemma gate_denies_pair:
  "(s, x) \<in> set (call_pairs h c) \<Longrightarrow> \<not> grants (resolve R ceil prof s x) \<Longrightarrow>
   \<not> grants (gate_decision h R ceil prof c)"
  by (auto simp: gate_grants list_all_iff)

lemma deny_patterns_deny:
  assumes "p \<in> set (command_deny_patterns ctl)" and "match_command cmd p"
    and "\<And>c. ctl = Some c \<Longrightarrow> kind_fits R q (ruleset_spec ''command'') c"
    and "dict_get R ''command'' = Some match_command"
  shows "\<not> grants (query_level R ctl ''commands'' cmd)"
proof -
  from assms(1) obtain rs where rs: "ctl = Some (CRuleset (Scoped rs))" "rs_mode rs = MODE_DENY" "p \<in> set (rs_deny rs)"
    by (auto simp: command_deny_patterns_def
        split: option.splits control.splits ruleset_like.splits if_splits)
  have "rs_matcher rs = ''command''"
    using assms(3) [OF rs(1)] by (simp add: ruleset_spec_def ScopeSpec_def)
  with rs assms(2,4) show ?thesis
    using scoped_allows [of R rs cmd] by (auto simp: query_level_def allows_def list_ex_iff)
qed

text \<open>A pinned command cannot run: when a pattern of the effective pins matches a command,
  the gate refuses the call that runs it, under the ceiling and the profile the pins came from.\<close>

theorem pinned_command_cannot_run:
  assumes "ceiling_ok E ceil" and "profile_ok E prof"
    and "dict_get (e_catalog E) ''commands'' = Some (ruleset_spec ''command'')"
    and "dict_get (e_matchers E) ''command'' = Some match_command"
    and "p \<in> set (resolve_pinned_commands (Some ceil) (Some prof))" and "match_command cmd p"
  shows "\<not> grants (gate_decision h (e_matchers E) (Some ceil) (Some prof) (titled (''Running: '' @ cmd)))"
proof -
  have fits: "kind_fits (e_matchers E) q (ruleset_spec ''command'') c"
    if "controls_ok E q cs" "dict_get cs ''commands'' = Some c" for cs c q
    using controls_ok_get [OF that] assms(3) by (simp add: control_ok_iff SANDBOX_FLAGS_SCOPE_def)
  have pair: "(''commands'', cmd) \<in> set (call_pairs h (titled (''Running: '' @ cmd)))"
    by (rule in_call_pairs_title)
       (simp add: titled_def classify_tool_title_def RUNNING_PREFIX_def)
  from assms(5) consider
      (policy) "p \<in> set (command_deny_patterns (ceiling_get ceil ''commands''))"
    | (prof) "p \<in> set (command_deny_patterns (profile_get prof ''commands''))"
    by (auto simp: resolve_pinned_commands_def ceiling_pinned_commands_def
        profile_pinned_commands_def COMMANDS_SCOPE_def)
  then have "\<not> grants (resolve (e_matchers E) (Some ceil) (Some prof) ''commands'' cmd)"
  proof cases
    case policy
    then show ?thesis
      using deny_patterns_deny [OF policy assms(6) _ assms(4), of True] assms(1) fits
      by (auto simp: resolve_grants policy_control_def ceiling_ok_def ceiling_get_def)
  next
    case prof
    then show ?thesis
      using deny_patterns_deny [OF prof assms(6) _ assms(4), of False] assms(2) fits
      by (auto simp: resolve_grants profile_control_def profile_ok_def profile_get_def)
  qed
  with pair show ?thesis by (rule gate_denies_pair)
qed

definition deny_rm :: control where
  "deny_rm = CRuleset (Scoped \<lparr>rs_mode = MODE_DENY, rs_allow = [], rs_deny = [''rm *''],
     rs_matcher = ''command''\<rparr>)"

lemma deny_rm_profile_ok: "profile_ok sample_enforcer (bare_profile ''p'' [(''commands'', deny_rm)])"
proof -
  have "control_ok sample_enforcer False ''commands'' deny_rm" by code_simp
  then show ?thesis
    using controls_ok_set [OF controls_ok_Nil, of sample_enforcer False "''commands''" deny_rm]
    by (simp add: profile_ok_def)
qed

lemma empty_ceiling_ok: "ceiling_ok E (bare_ceiling [])"
  by (simp add: ceiling_ok_def controls_ok_Nil)

lemma pinned_command_cannot_run_witness:
  "\<not> grants (gate_decision sample_host (e_matchers sample_enforcer) (Some (bare_ceiling []))
      (Some (bare_profile ''p'' [(''commands'', deny_rm)])) (titled (''Running: '' @ ''rm -rf build'')))"
  by (rule pinned_command_cannot_run [where p = "''rm *''", OF empty_ceiling_ok deny_rm_profile_ok])
     (simp_all add: sample_enforcer_def stock_enforcer_def SCOPE_CATALOG_def, code_simp+)

section \<open>Paths\<close>

text \<open>The filesystem scopes a tool kind implies.\<close>

definition implied_scopes :: "string \<Rightarrow> jobj \<Rightarrow> string list" where
  "implied_scopes kind d =
     (if kind = ''edit'' then [''filesystem.write'']
      else if kind = ''read'' then [''filesystem.read'']
      else if kind = ''fetch'' \<or> truthy (jget d ''command'') then []
      else [''filesystem.read'', ''filesystem.write''])"

text \<open>No path escapes by nesting: a non-blank path under any accepted key, at any depth of
  the arguments, is checked in every filesystem scope the tool kind implies, or the scan was
  cut short and the marker item is checked there instead.\<close>

theorem nested_paths_reach_the_gate:
  assumes "raw_params c = Some d" and "targets (JObj d) path"
    and "scope \<in> set (implied_scopes (tool_kind c) d)"
  shows "(scope, path) \<in> set (call_pairs h c) \<or> (scope, TRUNCATED_SCAN_ITEM) \<in> set (call_pairs h c)"
proof -
  have ne: "d \<noteq> []" using assms(2) by (auto simp: targets_obj)
  have "tp_truncated (target_paths_of (Some d)) \<or> path \<in> set (tp_found (target_paths_of (Some d)))"
    using target_paths_complete assms(2) by blast
  then have "(scope, path) \<in> set (classify_tool_args h (tool_kind c) (raw_params c)) \<or>
        (scope, TRUNCATED_SCAN_ITEM) \<in> set (classify_tool_args h (tool_kind c) (raw_params c))"
    using assms(1,3) ne
    by (auto simp: implied_scopes_def classify_tool_args_def Let_def split: if_splits)
  then show ?thesis using in_call_pairs_args by blast
qed

definition batch_edit :: call where
  "batch_edit = \<lparr>tool_title = ''edit'', tool_kind = ''edit'',
     raw_params = Some [(''operations'', JArr [JObj [(''mode'', JStr ''Line''), (''filePath'', JStr ''/etc/passwd'')]])],
     mcp_ref = [], extra_titles = []\<rparr>"

lemma nested_paths_reach_the_gate_witness:
  "(''filesystem.write'', ''/etc/passwd'') \<in> set (call_pairs sample_host batch_edit) \<or>
   (''filesystem.write'', TRUNCATED_SCAN_ITEM) \<in> set (call_pairs sample_host batch_edit)"
proof (rule nested_paths_reach_the_gate)
  show "raw_params batch_edit = Some [(''operations'',
      JArr [JObj [(''mode'', JStr ''Line''), (''filePath'', JStr ''/etc/passwd'')]])]"
    by (simp add: batch_edit_def)
  have "targets (JObj [(''mode'', JStr ''Line''), (''filePath'', JStr ''/etc/passwd'')]) ''/etc/passwd''"
    by (rule targets.key [of "''filePath''" _ "JStr ''/etc/passwd''"])
       (simp_all add: TARGET_PATH_KEYS_def strip_def lstrip_def rstrip_def is_space_def)
  then show "targets (JObj [(''operations'', JArr [JObj [(''mode'', JStr ''Line''),
      (''filePath'', JStr ''/etc/passwd'')]])]) ''/etc/passwd''"
    by (auto simp: targets_obj)
qed (simp add: batch_edit_def implied_scopes_def)

text \<open>An allow pattern \<open>dir/**\<close> confines: an item the path matcher accepts under it
  normalises to a rooted path without empty, \<open>.\<close> or \<open>..\<close> components that lies below \<open>dir\<close>,
  however the item was written.\<close>

theorem allowed_path_lies_below:
  assumes "starts_with (work_dir h) ''/''" and "glob_literal dir"
    and "expand_env h (dir @ ''/**'') = dir @ ''/**''" and "match_path h x (dir @ ''/**'')"
  shows "\<exists>cs. norm_item h x = ''/'' @ join_with slash cs \<and> list_all plain_comp cs \<and>
              starts_with (norm_item h x) (dir @ ''/'')"
proof -
  obtain cs where "norm_item h x = ''/'' @ join_with slash cs" "list_all plain_comp cs"
    using norm_item_shape [OF assms(1)] by blast
  moreover have "\<exists>r. norm_item h x = dir @ ''/'' @ r"
    using assms(3,4) fnmatchcase_below [OF assms(2)] by (simp add: match_path_def expand_def)
  ultimately show ?thesis by (auto simp: starts_with_iff)
qed

lemma allowed_path_lies_below_witness:
  "\<exists>cs. norm_item sample_host ''../app/./src//main.py'' = ''/'' @ join_with slash cs \<and>
     list_all plain_comp cs \<and> starts_with (norm_item sample_host ''../app/./src//main.py'') (''/work/app'' @ ''/'')"
  by (rule allowed_path_lies_below) code_simp+

lemma fold_norm_plain:
  "list_all plain_comp cs \<Longrightarrow> fold (norm_step True) cs acc = rev cs @ acc"
  by (induction cs arbitrary: acc) (auto simp: norm_step_def plain_comp_def)

lemma norm_comps_id: "list_all plain_comp cs \<Longrightarrow> norm_comps True ([] # cs) = cs"
  using fold_norm_plain [of cs "[]"] by (simp add: norm_comps_def norm_step_def)

lemma marker_plain: "plain_comp TRUNCATED_SCAN_ITEM"
  by (simp add: plain_comp_def TRUNCATED_SCAN_ITEM_def)

lemma join_with_snoc: "cs \<noteq> [] \<Longrightarrow> join_with c (cs @ [x]) = join_with c cs @ c # x"
  by (induction c cs rule: join_with.induct) auto

lemma norm_item_marker:
  assumes "work_dir h = ''/'' @ join_with slash cs" and "cs \<noteq> []" and "list_all plain_comp cs"
    and "expand_env h TRUNCATED_SCAN_ITEM = TRUNCATED_SCAN_ITEM"
  shows "norm_item h TRUNCATED_SCAN_ITEM = work_dir h @ ''/'' @ TRUNCATED_SCAN_ITEM"
proof -
  let ?cs = "cs @ [TRUNCATED_SCAN_ITEM]"
  let ?p = "''/'' @ join_with slash ?cs"
  have plain: "list_all plain_comp ?cs" using assms(3) marker_plain by simp
  have path: "work_dir h @ ''/'' @ TRUNCATED_SCAN_ITEM = ?p"
    using assms(1,2) by (simp add: join_with_snoc)
  have "\<not> starts_with TRUNCATED_SCAN_ITEM ''/''" by (simp add: TRUNCATED_SCAN_ITEM_def)
  moreover have "last (work_dir h) \<noteq> slash"
  proof -
    obtain b l where b: "cs = b @ [l]" using assms(2) by (cases cs rule: rev_cases) auto
    then have "plain_comp l" using assms(3) by simp
    then have "l \<noteq> []" "last l \<noteq> slash" by (auto simp: plain_comp_def) (metis last_in_set)
    with assms(1) b show ?thesis by (cases "b = []") (auto simp: join_with_snoc)
  qed
  ultimately have "abspath h (expand h TRUNCATED_SCAN_ITEM) = normpath ?p"
    using assms(1,4) path by (simp add: abspath_def expand_def)
  also have "normpath ?p = ?p"
  proof -
    have ns: "\<not> starts_with (join_with slash ?cs) ''/''"
      using plain by (rule join_plain_no_slash_head)
    have "split_on slash ?p = [] # ?cs" using split_norm_item [OF plain] by simp
    then show ?thesis
      using ns norm_comps_id [OF plain] by (simp add: normpath_def Let_def)
  qed
  finally have ab: "abspath h (expand h TRUNCATED_SCAN_ITEM) = ?p" .
  have "\<not> starts_with ?p ''//''"
    using join_plain_no_slash_head [OF plain] by simp
  then show ?thesis using path by (simp only: norm_item_def Let_def ab) simp
qed

text \<open>The marker of a truncated scan is anchored at the working directory like any relative
  item: an allow pattern \<open>dir/**\<close> refuses it exactly when the gateway runs outside \<open>dir\<close>.
  A gateway that runs inside the allowed tree permits a scan it could not finish.\<close>

theorem truncated_marker_follows_working_directory:
  assumes "work_dir h = ''/'' @ join_with slash cs" and "cs \<noteq> []" and "list_all plain_comp cs"
    and "expand_env h TRUNCATED_SCAN_ITEM = TRUNCATED_SCAN_ITEM"
    and "glob_literal dir" and "expand_env h (dir @ ''/**'') = dir @ ''/**''"
  shows "match_path h TRUNCATED_SCAN_ITEM (dir @ ''/**'') \<longleftrightarrow> starts_with (work_dir h @ ''/'') (dir @ ''/'')"
proof -
  have "match_path h TRUNCATED_SCAN_ITEM (dir @ ''/**'') \<longleftrightarrow>
          (\<exists>r. work_dir h @ ''/'' @ TRUNCATED_SCAN_ITEM = dir @ ''/'' @ r)"
    using fnmatchcase_below [OF assms(5)] norm_item_marker [OF assms(1-4)] assms(6)
    by (simp add: match_path_def expand_def)
  also have "\<dots> \<longleftrightarrow> (\<exists>r. work_dir h @ ''/'' = dir @ ''/'' @ r)"
  proof
    assume "\<exists>r. work_dir h @ ''/'' @ TRUNCATED_SCAN_ITEM = dir @ ''/'' @ r"
    then obtain r where r: "(work_dir h @ ''/'') @ TRUNCATED_SCAN_ITEM = (dir @ ''/'') @ r" by auto
    have "slash \<notin> set TRUNCATED_SCAN_ITEM" using marker_plain by (simp add: plain_comp_def)
    from append_eq_append_conv2 [THEN iffD1, OF r] consider us where "work_dir h @ ''/'' = (dir @ ''/'') @ us"
      | us where "(work_dir h @ ''/'') @ us = dir @ ''/''" "TRUNCATED_SCAN_ITEM = us @ r"
      by blast
    then show "\<exists>r. work_dir h @ ''/'' = dir @ ''/'' @ r"
    proof cases
      case 1
      then show ?thesis by auto
    next
      case 2
      have "slash \<notin> set us"
        using \<open>slash \<notin> set TRUNCATED_SCAN_ITEM\<close> unfolding 2(2) by simp
      then have "us = []" using 2(1) by (cases us rule: rev_cases) auto
      with 2(1) show ?thesis by (intro exI [of _ "[]"]) simp
    qed
  next
    assume "\<exists>r. work_dir h @ ''/'' = dir @ ''/'' @ r"
    then obtain r where "work_dir h @ ''/'' = dir @ ''/'' @ r" ..
    then have "work_dir h @ ''/'' @ TRUNCATED_SCAN_ITEM = dir @ ''/'' @ (r @ TRUNCATED_SCAN_ITEM)"
      by (metis append.assoc)
    then show "\<exists>r. work_dir h @ ''/'' @ TRUNCATED_SCAN_ITEM = dir @ ''/'' @ r" ..
  qed
  finally show ?thesis by (auto simp: starts_with_iff)
qed

lemma truncated_marker_follows_working_directory_witness:
  "match_path sample_host TRUNCATED_SCAN_ITEM (''/work'' @ ''/**'') \<longleftrightarrow>
     starts_with (work_dir sample_host @ ''/'') (''/work'' @ ''/'')"
  by (rule truncated_marker_follows_working_directory [where cs = "[''work'', ''app'']"])
     (simp_all add: sample_host_def plain_host_def plain_comp_def glob_literal_def)

end
