(* ===== verification/Gov_Extends.thy ===== *)
theory Gov_Extends
  imports Gov_Gate
begin

text \<open>
  Inheritance of profiles and the ordinal floors: what \<open>compose_profiles\<close>,
  \<open>resolve_ordinal\<close> and \<open>assert_governance_floor\<close>
  (\<^verbatim>\<open>src/codex_crew/platform/governance.py\<close>) guarantee, on the facts of the composition
  contracts of \<^theory_text>\<open>Gov_Controls\<close>.
\<close>

section \<open>Composed controls\<close>

text \<open>A control as one document declares it: its members are a single ruleset.\<close>

fun base_control :: "control \<Rightarrow> bool" where
  "base_control (CMap m) = is_scoped (m_members m)"
| "base_control _ = True"

definition base_profile :: "profile \<Rightarrow> bool" where
  "base_profile prof \<longleftrightarrow> list_all (\<lambda>(s, c). base_control c) (p_controls prof)"

lemma base_profile_get: "base_profile p \<Longrightarrow> dict_get (p_controls p) s = Some c \<Longrightarrow> base_control c"
  by (auto simp: base_profile_def list_all_iff dest!: dict_get_Some_in_set)

lemma query_ruleset: "grants (query_level R (Some (CRuleset r)) s x) = allows R r x"
  by (simp add: query_level_def allows_def)

lemma query_gate:
  "grants (query_level R (Some (CGate g)) s x) =
     gate_allows R g (case partition_at (CHR '':'') x of (i, sep, v) \<Rightarrow> if sep then Some (i, v) else None)"
  by (auto simp: query_level_def gate_allows_def split: prod.splits)

lemma posture_nil [simp]: "m_posture m = [] \<Longrightarrow> grants (posture_permits R m i l v)"
  by (simp add: posture_permits_def)

lemma posture_permits_cong: "m_posture a = m_posture b \<Longrightarrow> posture_permits R a i l v = posture_permits R b i l v"
  by (simp add: posture_permits_def)

lemma query_map_compose:
  assumes "map_base R a" and "map_base R b" and "m_posture b = []"
  shows "grants (query_level R (Some (CMap (map_compose a b))) s x) \<longleftrightarrow>
     grants (query_level R (Some (CMap a)) s x) \<and> grants (query_level R (Some (CMap b)) s x)"
proof -
  obtain i sep v where p: "partition_at slash x = (i, sep, v)" by (metis prod_cases3)
  have "map_allows R (map_compose a b) i \<longleftrightarrow> map_allows R a i \<and> map_allows R b i"
    by (rule maps.compose_allow [OF assms(1,2)]) simp_all
  then show ?thesis
    using assms(3) posture_permits_cong [of "map_compose a b" a R]
    by (cases sep) (auto simp: query_level_def p map_allows_def split: prod.splits)
qed

text \<open>The composition of two controls that fit one catalog entry exists and intersects.\<close>

lemma compose_controls_total:
  assumes "kind_fits R p spec a" and "kind_fits R q spec b"
  shows "\<exists>c. compose_controls a b = Inr c"
proof (cases a)
  case (CRuleset r)
  then show ?thesis by (cases r) (use assms in auto)
next
  case (COrdinal x)
  then obtain y where "b = COrdinal y" using assms by (cases b) auto
  then show ?thesis using assms COrdinal ordinals.compose_total [of x y] by auto
next
  case (CGate g)
  then show ?thesis using assms by (cases b) auto
next
  case (CMap m)
  then show ?thesis using assms by (cases b) auto
qed (use assms in simp)

lemma compose_controls_grants:
  assumes "kind_fits R p spec a" and "kind_fits R False spec b"
    and "base_control a" and "base_control b" and "compose_controls a b = Inr c"
  shows "grants (query_level R (Some c) s x) \<longleftrightarrow>
     grants (query_level R (Some a) s x) \<and> grants (query_level R (Some b) s x)"
proof (cases a)
  case (CRuleset r)
  then obtain t where b: "b = CRuleset t" using assms by (cases b) auto
  have "c = CRuleset (ruleset_compose r t)"
    using assms(5) CRuleset b by (cases r) (auto simp: as_ruleset_def)
  then show ?thesis
    using rulesets.compose_allow [of R r t _ x] assms CRuleset b by (simp add: query_ruleset)
next
  case (COrdinal y)
  then obtain z where "b = COrdinal z" using assms by (cases b) auto
  with COrdinal assms(5) obtain w where "c = COrdinal w" by (auto simp: res_simps)
  with COrdinal \<open>b = COrdinal z\<close> show ?thesis by (simp add: query_level_def)
next
  case (CGate g)
  then obtain k where b: "b = CGate k" using assms by (cases b) auto
  with assms(5) CGate have "c = CGate (gate_compose g k)" by simp
  then show ?thesis
    using gates.compose_allow [of R g k] assms CGate b by (simp add: query_gate)
next
  case (CMap m)
  then obtain n where b: "b = CMap n" using assms by (cases b) auto
  with assms(5) CMap have "c = CMap (map_compose m n)" by simp
  then show ?thesis
    using query_map_compose [of R m n s x] assms CMap b by (simp add: map_base_def)
qed (use assms in simp)

section \<open>Composed profiles\<close>

text \<open>What the loop over the child's controls leaves in the merged dictionary.\<close>

definition merged_entry :: "control option \<Rightarrow> control option \<Rightarrow> control option \<Rightarrow> bool" where
  "merged_entry pc cc mc \<longleftrightarrow>
     (case cc of
        None \<Rightarrow> mc = pc
      | Some c \<Rightarrow> (case pc of None \<Rightarrow> mc = Some c
                   | Some p \<Rightarrow> \<exists>r. compose_controls p c = Inr r \<and> mc = Some r))"

lemma compose_entry_Inr:
  "compose_entry (s, c) m = Inr m' \<Longrightarrow> merged_entry (dict_get m s) (Some c) (dict_get m' s)
     \<and> (\<forall>k. k \<noteq> s \<longrightarrow> dict_get m' k = dict_get m k) \<and> (dict_wf m \<longrightarrow> dict_wf m')"
  by (auto simp: compose_entry_def merged_entry_def res_simps split: option.splits)

lemma fold_compose_entry:
  assumes "fold_res compose_entry cs m = Inr m'" and "dict_wf cs"
  shows "merged_entry (dict_get m k) (dict_get cs k) (dict_get m' k)"
  using assms
proof (induction cs arbitrary: m)
  case Nil
  then show ?case by (simp add: merged_entry_def)
next
  case (Cons e cs)
  obtain s c where e: "e = (s, c)" by (cases e)
  from Cons.prems e obtain m1 where m1: "compose_entry (s, c) m = Inr m1"
    and rest: "fold_res compose_entry cs m1 = Inr m'"
    by (auto simp: res_simps)
  note IH = Cons.IH [OF rest]
  show ?case
  proof (cases "k = s")
    case True
    have "dict_get cs s = None" using Cons.prems e by (simp add: map_of_eq_None_iff)
    with IH Cons.prems have "dict_get m' s = dict_get m1 s"
      using True by (simp add: merged_entry_def)
    then show ?thesis using compose_entry_Inr [OF m1] True e by simp
  next
    case False
    then show ?thesis using compose_entry_Inr [OF m1] IH Cons.prems e by simp
  qed
qed

lemma fold_compose_entry_total:
  assumes "dict_wf cs"
    and "\<And>s c p. dict_get cs s = Some c \<Longrightarrow> dict_get m s = Some p \<Longrightarrow> \<exists>r. compose_controls p c = Inr r"
  shows "\<exists>m'. fold_res compose_entry cs m = Inr m'"
  using assms
proof (induction cs arbitrary: m)
  case Nil
  then show ?case by simp
next
  case (Cons e cs)
  obtain s c where e: "e = (s, c)" by (cases e)
  have "\<exists>m1. compose_entry (s, c) m = Inr m1"
    using Cons.prems(2) [of s c] e by (auto simp: compose_entry_def split: option.split)
  then obtain m1 where m1: "compose_entry (s, c) m = Inr m1" ..
  have "\<exists>m'. fold_res compose_entry cs m1 = Inr m'"
  proof (rule Cons.IH)
    fix s' c' p
    assume *: "dict_get cs s' = Some c'" "dict_get m1 s' = Some p"
    then have "s' \<in> fst ` set cs" by (auto dest!: dict_get_Some_in_set intro: rev_image_eqI)
    then have "s' \<noteq> s" using Cons.prems(1) e by auto
    with * compose_entry_Inr [OF m1] show "\<exists>r. compose_controls p c' = Inr r"
      using Cons.prems(2) [of s' c' p] e by simp
  qed (use Cons.prems in simp)
  with m1 e show ?case by simp
qed

text \<open>At most one of two profiles sets the raw sandbox flags.\<close>

definition flags_apart :: "profile \<Rightarrow> profile \<Rightarrow> bool" where
  "flags_apart parent child \<longleftrightarrow>
     profile_get parent SANDBOX_FLAGS_SCOPE = None \<or> profile_get child SANDBOX_FLAGS_SCOPE = None"

lemma profile_fits:
  assumes "profile_ok E p" and "dict_get (p_controls p) s = Some c" and "s \<noteq> SANDBOX_FLAGS_SCOPE"
  shows "\<exists>spec. dict_get (e_catalog E) s = Some spec \<and> kind_fits (e_matchers E) False spec c"
  using controls_ok_get [OF assms(1) [unfolded profile_ok_def] assms(2)] assms(3)
  by (simp add: control_ok_iff)

lemma compose_profiles_total:
  assumes "profile_ok E parent" and "profile_ok E child" and "flags_apart parent child"
  shows "\<exists>m. compose_profiles parent child = Inr m"
proof -
  have "\<exists>m'. fold_res compose_entry (p_controls child) (p_controls parent) = Inr m'"
  proof (rule fold_compose_entry_total)
    show "dict_wf (p_controls child)" using assms(2) by (simp add: profile_ok_def controls_ok_def)
  next
    fix s c p
    assume c: "dict_get (p_controls child) s = Some c" and p: "dict_get (p_controls parent) s = Some p"
    then have "s \<noteq> SANDBOX_FLAGS_SCOPE"
      using assms(3) by (auto simp: flags_apart_def profile_get_def)
    with profile_fits [OF assms(1) p] profile_fits [OF assms(2) c]
    show "\<exists>r. compose_controls p c = Inr r" by (auto intro: compose_controls_total)
  qed
  then show ?thesis by (auto simp: compose_profiles_def)
qed

lemma compose_profiles_parts:
  assumes "compose_profiles parent child = Inr m" and "profile_ok E child"
  shows "merged_entry (profile_get parent s) (profile_get child s) (profile_get m s)"
  using assms fold_compose_entry [of "p_controls child" "p_controls parent"]
  by (auto simp: compose_profiles_def res_simps profile_get_def profile_ok_def controls_ok_def)

lemma compose_profiles_grants:
  assumes "compose_profiles parent child = Inr m" and "profile_ok E parent" and "profile_ok E child"
    and "base_profile parent" and "base_profile child" and "s \<noteq> SANDBOX_FLAGS_SCOPE"
  shows "grants (query_level (e_matchers E) (profile_get m s) s x) \<longleftrightarrow>
     grants (query_level (e_matchers E) (profile_get parent s) s x) \<and>
     grants (query_level (e_matchers E) (profile_get child s) s x)"
proof -
  note me = compose_profiles_parts [OF assms(1,3), of s, unfolded merged_entry_def]
  show ?thesis
  proof (cases "profile_get child s")
    case None
    with me show ?thesis by simp
  next
    case (Some c)
    show ?thesis
    proof (cases "profile_get parent s")
      case None
      with me Some show ?thesis by simp
    next
      case (Some p)
      with me \<open>profile_get child s = Some c\<close> obtain r
        where r: "compose_controls p c = Inr r" "profile_get m s = Some r" by auto
      obtain spec where "kind_fits (e_matchers E) False spec p" "kind_fits (e_matchers E) False spec c"
        using profile_fits [OF assms(2) _ assms(6)] profile_fits [OF assms(3) _ assms(6)]
          Some \<open>profile_get child s = Some c\<close> by (fastforce simp: profile_get_def)
      then show ?thesis
        using compose_controls_grants [OF _ _ _ _ r(1)] r(2) Some \<open>profile_get child s = Some c\<close>
          base_profile_get [OF assms(4)] base_profile_get [OF assms(5)]
        by (simp add: profile_get_def)
    qed
  qed
qed

section \<open>Ordinals\<close>

lemma index_of_nth: "index_of x ys = Some i \<Longrightarrow> i < length ys \<and> ys ! i = x"
  by (induction ys arbitrary: i) (auto split: if_splits)

lemma ordinal_rank_inj:
  "ordinal_rank a = Inr r \<Longrightarrow> ordinal_rank b = Inr r \<Longrightarrow> o_scale a = o_scale b \<Longrightarrow> a = b"
  by (cases a; cases b) (auto simp: ordinal_rank_def split: option.splits dest!: index_of_nth)

lemma compose_of_stricter:
  assumes "ordinal_ok a" "ordinal_ok b" "o_scale a = o_scale b"
    and "is_at_least_as_strict_as b a = Inr True"
  shows "ordinal_compose a b = Inr b"
proof -
  obtain r q where r: "ordinal_rank a = Inr r" and q: "ordinal_rank b = Inr q"
    using assms(1,2) ordinal_rank_total by blast
  with assms(4) have "r \<le> q" by (simp add: is_at_least_as_strict_as_def)
  moreover have "r = q \<Longrightarrow> a = b" using ordinal_rank_inj [OF r] q assms(3) by simp
  ultimately show ?thesis using r q assms(3) by (auto simp: ordinal_compose_def)
qed

lemma fold_res_all:
  "fold_res f xs () = Inr () \<Longrightarrow> x \<in> set xs \<Longrightarrow> f x () = Inr ()"
  by (induction xs) (auto simp: res_simps)

lemma floor_row_strict:
  assumes "floor_row c p (s, spec) () = Inr ()" and "sp_kind spec = ORDINAL"
    and "ceiling_get c s = Some (COrdinal a)" and "profile_get p s = Some (COrdinal b)"
  shows "is_at_least_as_strict_as b a = Inr True"
  using assms by (auto simp: floor_row_def res_simps)

lemma level_ordinal_ok:
  assumes "controls_ok E q cs" and "dict_get cs s = Some (COrdinal a)"
    and "dict_get (e_catalog E) s = Some spec" and "s \<noteq> SANDBOX_FLAGS_SCOPE"
  shows "ordinal_ok a \<and> o_scale a = sp_ordinal_scale spec"
  using controls_ok_get [OF assms(1,2)] assms(3,4) by (simp add: control_ok_iff)

section \<open>Properties\<close>

text \<open>C26. Inheritance only narrows: a child profile that extends a parent composes with it, and
  under any ceiling the composed profile permits a call exactly when the parent and the child
  each permit it.\<close>

theorem extends_intersects:
  assumes "profile_ok E parent" and "profile_ok E child"
    and "base_profile parent" and "base_profile child" and "flags_apart parent child"
  shows "\<exists>m. compose_profiles parent child = Inr m \<and>
     (\<forall>h ceil c. grants (gate_decision h (e_matchers E) ceil (Some m) c) \<longleftrightarrow>
        grants (gate_decision h (e_matchers E) ceil (Some parent) c) \<and>
        grants (gate_decision h (e_matchers E) ceil (Some child) c))"
proof -
  obtain m where m: "compose_profiles parent child = Inr m"
    using compose_profiles_total [OF assms(1,2,5)] ..
  have level: "grants (query_level (e_matchers E) (profile_get m s) s x) \<longleftrightarrow>
      grants (query_level (e_matchers E) (profile_get parent s) s x) \<and>
      grants (query_level (e_matchers E) (profile_get child s) s x)"
    if "(s, x) \<in> set (call_pairs h c)" for s x h c
    using compose_profiles_grants [OF m assms(1-4)] gate_scope_not_flags [OF call_scopes [OF that]]
    by blast
  show ?thesis
    by (intro exI conjI allI, rule m)
       (use level in \<open>fastforce simp: gate_grants resolve_grants profile_control_def list_all_iff\<close>)
qed

definition allow_fs :: control where
  "allow_fs = CRuleset (Scoped \<lparr>rs_mode = MODE_ALLOW, rs_allow = [''fs_*''], rs_deny = [],
     rs_matcher = ''identifier''\<rparr>)"

definition deny_fs_write :: control where
  "deny_fs_write = CRuleset (Scoped \<lparr>rs_mode = MODE_DENY, rs_allow = [], rs_deny = [''fs_write''],
     rs_matcher = ''identifier''\<rparr>)"

lemma sample_profile_ok:
  "control_ok sample_enforcer False ''tools'' ctl \<Longrightarrow>
   profile_ok sample_enforcer (bare_profile n [(''tools'', ctl)])"
  using controls_ok_set [OF controls_ok_Nil, of sample_enforcer False "''tools''" ctl]
  by (simp add: profile_ok_def)

lemma sample_tool_controls:
  "control_ok sample_enforcer False ''tools'' allow_fs"
  "control_ok sample_enforcer False ''tools'' deny_fs_write"
  by code_simp+

lemma extends_intersects_witness:
  "\<exists>m. compose_profiles (bare_profile ''parent'' [(''tools'', allow_fs)])
         (bare_profile ''child'' [(''tools'', deny_fs_write)]) = Inr m \<and>
       (\<forall>h ceil c. grants (gate_decision h (e_matchers sample_enforcer) ceil (Some m) c) \<longleftrightarrow>
          grants (gate_decision h (e_matchers sample_enforcer) ceil
            (Some (bare_profile ''parent'' [(''tools'', allow_fs)])) c) \<and>
          grants (gate_decision h (e_matchers sample_enforcer) ceil
            (Some (bare_profile ''child'' [(''tools'', deny_fs_write)])) c))"
  by (rule extends_intersects)
     (simp_all add: sample_profile_ok sample_tool_controls base_profile_def allow_fs_def
       deny_fs_write_def flags_apart_def profile_get_def SANDBOX_FLAGS_SCOPE_def
       sample_tool_controls [unfolded allow_fs_def deny_fs_write_def])

definition flagged_profile :: "string \<Rightarrow> jobj" where
  "flagged_profile n = [(''name'', JStr n), (''sandbox'', JObj [(''require_isolation'', JBool True)])]"

text \<open>Reserved sandbox flags do not compose: when parent and child both carry one, extending
  raises instead of producing a profile, although each document is valid alone.\<close>

theorem flagged_profiles_do_not_compose:
  "\<exists>p c. parse_profile sample_enforcer (flagged_profile ''a'') = Inr p \<and>
         parse_profile sample_enforcer (flagged_profile ''b'') = Inr c \<and>
         compose_profiles p c = Inl PlatformCompositionError"
proof -
  have "case parse_profile sample_enforcer (flagged_profile ''a'') of Inl e \<Rightarrow> False
        | Inr p \<Rightarrow> (case parse_profile sample_enforcer (flagged_profile ''b'') of Inl e \<Rightarrow> False
           | Inr c \<Rightarrow> (case compose_profiles p c of Inl e \<Rightarrow> e = PlatformCompositionError | Inr m \<Rightarrow> False))"
    by code_simp
  then show ?thesis by (auto split: sum.splits)
qed

text \<open>Where policy and profile both set an ordinal, the resolved level exists, is one of the
  two, and is met by a run exactly when the run meets both.\<close>

theorem resolved_ordinal_meets_both:
  assumes "policy_control ceil s = Some (COrdinal a)" and "profile_control prof s = Some (COrdinal b)"
    and "ordinal_ok a" and "ordinal_ok b" and "o_scale a = o_scale b"
  shows "\<exists>r. resolve_ordinal ceil prof s = Inr (Some r) \<and> (r = a \<or> r = b) \<and>
     (\<forall>rank. ordinal_admits r rank \<longleftrightarrow> ordinal_admits a rank \<and> ordinal_admits b rank)"
proof -
  obtain r where r: "ordinal_compose a b = Inr r"
    using ordinals.compose_total [OF assms(3-5)] by blast
  then have "r = a \<or> r = b" by (auto simp: ordinal_compose_def res_simps split: if_splits)
  with r ordinals.compose_allow [OF assms(3-5) r] assms(1,2) show ?thesis
    by (simp add: resolve_ordinal_def)
qed

lemma resolved_ordinal_meets_both_witness:
  "\<exists>r. resolve_ordinal
        (Some (bare_ceiling [(''sandbox.min_level'', COrdinal \<lparr>o_scale = ''sandbox'', o_value = ''standard''\<rparr>)]))
        (Some (bare_profile ''p'' [(''sandbox.min_level'', COrdinal \<lparr>o_scale = ''sandbox'', o_value = ''strict''\<rparr>)]))
        ''sandbox.min_level'' = Inr (Some r)"
  using resolved_ordinal_meets_both
    [of "Some (bare_ceiling [(''sandbox.min_level'', COrdinal \<lparr>o_scale = ''sandbox'', o_value = ''standard''\<rparr>)])"
        "''sandbox.min_level''" "\<lparr>o_scale = ''sandbox'', o_value = ''standard''\<rparr>"
        "Some (bare_profile ''p'' [(''sandbox.min_level'', COrdinal \<lparr>o_scale = ''sandbox'', o_value = ''strict''\<rparr>)])"
        "\<lparr>o_scale = ''sandbox'', o_value = ''strict''\<rparr>"]
  by (auto simp: policy_control_def profile_control_def ceiling_get_def profile_get_def ordinal_ok_def
      OrdinalControl_def ORDINAL_SCALES_def)

text \<open>The boot floor makes the profile's ordinal the effective one: after
  \<open>assert_governance_floor\<close> passes, every ordinal that policy and profile both set resolves to
  the profile's value.\<close>

theorem boot_floor_keeps_profile_level:
  assumes "assert_governance_floor E (Some c) (Some p) = Inr ()"
    and "ceiling_ok E c" and "profile_ok E p" and "enforcer_ok E"
    and "dict_get (e_catalog E) s = Some spec" and "sp_kind spec = ORDINAL"
    and "ceiling_get c s = Some (COrdinal a)" and "profile_get p s = Some (COrdinal b)"
  shows "resolve_ordinal (Some c) (Some p) s = Inr (Some b)"
proof -
  have sf: "s \<noteq> SANDBOX_FLAGS_SCOPE"
    using assms(4,5) by (auto simp: enforcer_ok_def image_iff dest!: dict_get_Some_in_set)
  have "ordinal_ok a \<and> o_scale a = sp_ordinal_scale spec"
    using assms(2,5,7) sf by (intro level_ordinal_ok) (auto simp: ceiling_ok_def ceiling_get_def)
  moreover have "ordinal_ok b \<and> o_scale b = sp_ordinal_scale spec"
    using assms(3,5,8) sf by (intro level_ordinal_ok) (auto simp: profile_ok_def profile_get_def)
  moreover have "is_at_least_as_strict_as b a = Inr True"
    using fold_res_all [of "floor_row c p" "e_catalog E" "(s, spec)"] assms(1)
      dict_get_Some_in_set [OF assms(5)] floor_row_strict [OF _ assms(6-8)]
    by (simp add: assert_governance_floor_def)
  ultimately have "ordinal_compose a b = Inr b" by (intro compose_of_stricter) auto
  with assms(7,8) show ?thesis
    by (simp add: resolve_ordinal_def policy_control_def profile_control_def)
qed

definition mode_ordinal :: "string \<Rightarrow> control" where
  "mode_ordinal v = COrdinal \<lparr>o_scale = ''approval'', o_value = v\<rparr>"

lemma mode_controls_ok:
  "v \<in> set [''yolo'', ''auto'', ''interactive''] \<Longrightarrow>
   controls_ok sample_enforcer p [(''approval_mode'', mode_ordinal v)]"
proof -
  assume "v \<in> set [''yolo'', ''auto'', ''interactive'']"
  then have "control_ok sample_enforcer p ''approval_mode'' (mode_ordinal v)"
    by (auto simp: control_ok_def mode_ordinal_def sample_enforcer_def stock_enforcer_def
        SCOPE_CATALOG_def SANDBOX_FLAGS_SCOPE_def ordinal_spec_def ScopeSpec_def ordinal_ok_def
        OrdinalControl_def ORDINAL_SCALES_def ruleset_spec_def)
  then show ?thesis
    using controls_ok_set [OF controls_ok_Nil, of sample_enforcer p "''approval_mode''"] by simp
qed

lemma boot_floor_keeps_profile_level_witness:
  "resolve_ordinal (Some (bare_ceiling [(''approval_mode'', mode_ordinal ''auto'')]))
     (Some (bare_profile ''p'' [(''approval_mode'', mode_ordinal ''interactive'')])) ''approval_mode''
   = Inr (Some \<lparr>o_scale = ''approval'', o_value = ''interactive''\<rparr>)"
proof (rule boot_floor_keeps_profile_level [where E = sample_enforcer and spec = "ordinal_spec ''approval''"
      and a = "\<lparr>o_scale = ''approval'', o_value = ''auto''\<rparr>"])
  show "assert_governance_floor sample_enforcer (Some (bare_ceiling [(''approval_mode'', mode_ordinal ''auto'')]))
     (Some (bare_profile ''p'' [(''approval_mode'', mode_ordinal ''interactive'')])) = Inr ()"
    by code_simp
  show "dict_get (e_catalog sample_enforcer) ''approval_mode'' = Some (ordinal_spec ''approval'')"
    by code_simp
qed (simp_all add: sample_documents(3) ceiling_ok_def profile_ok_def mode_controls_ok ordinal_spec_def
      ScopeSpec_def ceiling_get_def profile_get_def mode_ordinal_def
      mode_controls_ok [unfolded mode_ordinal_def])

end
