(* ===== verification/Gov_Auto.thy ===== *)
theory Gov_Auto
  imports Gov_Gate
begin

text \<open>
  Why an auto-approve entry may bypass the gate: the lemmas and properties of
  \<open>may_skip_gate\<close> and of the filters built on it
  (\<^verbatim>\<open>src/codex_crew/platform/governance.py\<close>).
\<close>

section \<open>MCP references\<close>

text \<open>A tool name the title form can carry: it neither contains nor begins a \<open>__\<close>.\<close>

definition tool_name_ok :: "string \<Rightarrow> bool" where
  "tool_name_ok tool \<longleftrightarrow> rsplit_dunder (CHR ''_'' # tool) = None"

lemma rsplit_dunder_tool:
  assumes "tool_name_ok tool"
  shows "rsplit_dunder (server @ ''__'' @ tool) = Some (server, tool)"
proof (induction server)
  case Nil
  then show ?case using assms by (simp add: tool_name_ok_def)
qed simp

lemma mcp_ref_of_title:
  "tool_name_ok tool \<Longrightarrow>
   mcp_title_to_ref (''mcp__'' @ server @ ''__'' @ tool) = ''@'' @ server @ ''/'' @ tool"
  using rsplit_dunder_tool [of tool server]
  by (simp add: mcp_title_to_ref_def Let_def)

lemma classify_mcp_title:
  "tool_name_ok tool \<Longrightarrow>
   classify_tool_title (''mcp__'' @ server @ ''__'' @ tool) = [(''mcp'', ''@'' @ server @ ''/'' @ tool)]"
  using mcp_ref_of_title [of tool server] by (simp add: classify_tool_title_def)

lemma probe_name_ok: "tool_name_ok ''probe''"
  by (simp add: tool_name_ok_def)

section \<open>What a silent ceiling permits\<close>

lemma query_ruleset_scoped:
  "grants (query_level R (Some (CRuleset (Scoped rs))) s x) \<longleftrightarrow>
     (\<exists>m. dict_get R (rs_matcher rs) = Some m \<and>
        (if rs_mode rs = MODE_ALLOW then list_ex (m x) (rs_allow rs) else \<not> list_ex (m x) (rs_deny rs)))"
  using scoped_allows [of R rs x] by (simp add: query_level_def allows_def)

lemma no_opinion_permits:
  assumes "\<not> ruleset_has_an_opinion (ceiling_get c s)" and "ceiling_ok E c"
    and "s \<noteq> SANDBOX_FLAGS_SCOPE"
  shows "grants (query_level (e_matchers E) (ceiling_get c s) s x)"
proof (cases "ceiling_get c s")
  case None
  then show ?thesis by simp
next
  case (Some ctl)
  with assms(1) obtain rs where rs: "ctl = CRuleset (Scoped rs)" "rs_mode rs = MODE_DENY" "rs_deny rs = []"
    by (auto simp: ruleset_has_an_opinion_def
        split: control.splits ruleset_like.splits ruleset_mode.splits)
  have "askable (e_matchers E) ctl"
    using assms Some controls_ok_askable by (auto simp: ceiling_ok_def ceiling_get_def)
  then obtain m where "dict_get (e_matchers E) (rs_matcher rs) = Some m"
    using rs(1) by (auto dest: weak_map_of_SomeI)
  with Some rs show ?thesis
    by (simp add: query_level_def grants_def scoped_permits_def)
qed

text \<open>The \<open>mcp\<close> scope as the loader leaves it: one ruleset under the \<open>mcp\<close> matcher.\<close>

definition mcp_plain :: "ceiling \<Rightarrow> bool" where
  "mcp_plain c \<longleftrightarrow>
     (case ceiling_get c ''mcp'' of
        None \<Rightarrow> True
      | Some (CRuleset (Scoped rs)) \<Rightarrow> rs_matcher rs = ''mcp''
      | _ \<Rightarrow> False)"

lemma lower_slash [simp]: "lower_char (CHR ''/'') = CHR ''/''"
  and lower_at [simp]: "lower_char (CHR ''@'') = CHR ''@''"
  by (simp_all add: lower_char_def)

lemma lower_slash_iff: "lower_char c = CHR ''/'' \<longleftrightarrow> c = CHR ''/''"
proof -
  have "char_of (n + 32) \<noteq> CHR ''/''" if "65 \<le> n" "n \<le> 90" for n :: nat
  proof
    assume "char_of (n + 32) = CHR ''/''"
    then have "of_char (char_of (n + 32) :: char) = (of_char (CHR ''/'') :: nat)" by (rule arg_cong)
    with that show False by (simp add: of_char_of)
  qed
  then show ?thesis by (auto simp: lower_char_def Let_def)
qed

lemma slash_in_casefold [simp]: "slash \<in> set (casefold s) \<longleftrightarrow> slash \<in> set s"
  by (simp add: casefold_def image_iff lower_slash_iff eq_commute [of slash])

lemma rstrip_after: "\<not> is_space c \<Longrightarrow> rstrip (a @ c # t) = a @ c # rstrip t"
proof -
  assume c: "\<not> is_space c"
  have "dropWhile is_space (u @ c # rev a) = dropWhile is_space u @ c # rev a" for u
    using c by (induction u) auto
  then show ?thesis by (simp add: rstrip_def)
qed

lemma strip_ref: "strip (''@'' @ server @ ''/'' @ tool) = ''@'' @ server @ ''/'' @ rstrip tool"
  using rstrip_after [of slash "CHR ''@'' # server" tool]
  by (simp add: strip_def lstrip_def is_space_def)

lemma first_slash: "slash \<notin> set a \<Longrightarrow> slash \<notin> set b \<Longrightarrow> a @ slash # s = b @ slash # t \<Longrightarrow> a = b"
  using split_on_append [of slash a s] split_on_append [of slash b t] by simp

text \<open>A pattern that matches one tool of a server names that server.\<close>

lemma match_mcp_names_server:
  assumes "match_mcp (''@'' @ server @ ''/'' @ tool) p" and "slash \<notin> set server"
  shows "casefold (strip p) = casefold (''@'' @ server) \<or>
         starts_with (casefold (strip p)) (casefold (''@'' @ server) @ ''/'')"
proof -
  let ?pre = "casefold (''@'' @ server)" and ?pat = "casefold (strip p)"
  have item: "casefold (strip (''@'' @ server @ ''/'' @ tool)) = ?pre @ slash # casefold (rstrip tool)"
    by (simp only: strip_ref) simp
  from assms(1) consider
      (eq) "?pre @ slash # casefold (rstrip tool) = ?pat"
    | (below) "slash \<notin> set ?pat" "starts_with (?pre @ slash # casefold (rstrip tool)) (?pat @ ''/'')"
    unfolding match_mcp_def Let_def item by (auto split: if_splits)
  then show ?thesis
  proof cases
    case eq
    then have "starts_with ?pat (?pre @ ''/'')" unfolding starts_with_iff by (metis append.assoc append_Cons append_Nil)
    then show ?thesis ..
  next
    case below
    then obtain r where "?pre @ slash # casefold (rstrip tool) = ?pat @ slash # r"
      by (auto simp: starts_with_iff)
    moreover have "slash \<notin> set ?pre" using assms(2) by (simp only: slash_in_casefold) simp
    ultimately have "?pre = ?pat" using below(1) first_slash by metis
    then show ?thesis by simp
  qed
qed

lemma silent_mcp_permits:
  assumes "\<not> ceiling_mentions_mcp_server c server" and "mcp_plain c" and "slash \<notin> set server"
    and "dict_get R ''mcp'' = Some match_mcp"
    and "grants (query_level R (ceiling_get c ''mcp'') ''mcp'' (''@'' @ server @ ''/probe''))"
  shows "grants (query_level R (ceiling_get c ''mcp'') ''mcp'' (''@'' @ server @ ''/'' @ tool))"
proof (cases "ceiling_get c ''mcp''")
  case None
  then show ?thesis by simp
next
  case (Some ctl)
  with assms(2) obtain rs where rs: "ceiling_get c ''mcp'' = Some (CRuleset (Scoped rs))" "rs_matcher rs = ''mcp''"
    by (auto simp: mcp_plain_def split: control.splits ruleset_like.splits)
  have none: "\<not> match_mcp (''@'' @ server @ ''/'' @ t) p" if "p \<in> set (rs_allow rs @ rs_deny rs)" for t p
    using match_mcp_names_server [of server t p] assms(1,3) that rs(1)
    by (auto simp: ceiling_mentions_mcp_server_def Let_def list_ex_iff)
  have "rs_mode rs = MODE_DENY"
  proof (rule ccontr)
    assume "rs_mode rs \<noteq> MODE_DENY"
    then have "rs_mode rs = MODE_ALLOW" by (cases "rs_mode rs") auto
    with assms(4,5) rs none [of _ "''probe''"] show False
      unfolding rs(1) query_ruleset_scoped by (auto simp: list_ex_iff)
  qed
  with assms(4) rs none [of _ tool] show ?thesis
    unfolding rs(1) query_ruleset_scoped by (auto simp: list_ex_iff)
qed

section \<open>Properties\<close>

lemma silent_server_permits:
  assumes "may_skip_gate h (e_matchers E) (JStr (''@'' @ server)) (Some c)"
    and "ceiling_ok E c" and "mcp_plain c" and "dict_get (e_matchers E) ''mcp'' = Some match_mcp"
    and "slash \<notin> set server" and "tool_name_ok tool"
  shows "grants (gate_decision h (e_matchers E) (Some c) None
           \<lparr>tool_title = ''mcp__'' @ server @ ''__'' @ tool, tool_kind = kind, raw_params = params,
            mcp_ref = [], extra_titles = []\<rparr>)"
proof -
  have "hd (split_on slash server) = server" using assms(5) by simp
  with assms(1) have probe: "grants (gate_decision h (e_matchers E) (Some c) None
        (titled (''mcp__'' @ server @ ''__'' @ ''probe'')))"
    and silent: "\<not> ceiling_mentions_mcp_server c server"
    and args: "\<not> list_ex (\<lambda>s. ruleset_has_an_opinion (ceiling_get c s)) ARG_SCOPES"
    by (auto simp: may_skip_gate_def Let_def builtin_scopes_def dict_get_default_def
        BUILTIN_TOOL_SCOPES_def split: sum.splits if_splits)
  have "grants (query_level (e_matchers E) (ceiling_get c ''mcp'') ''mcp'' (''@'' @ server @ ''/probe''))"
    using probe classify_mcp_title [OF probe_name_ok, of server]
    by (simp add: gate_grants call_pairs_def titled_def classify_tool_args_def resolve_grants
        policy_control_def)
  from silent_mcp_permits [OF silent assms(3,5,4) this]
  have mcp: "grants (query_level (e_matchers E) (ceiling_get c ''mcp'') ''mcp'' (''@'' @ server @ ''/'' @ tool))" .
  have arg: "grants (query_level (e_matchers E) (ceiling_get c s) s x)"
    if "(s, x) \<in> set (classify_tool_args h kind params)" for s x
    using args_scopes [OF that] args gate_scope_not_flags [OF arg_scopes_gate]
    by (intro no_opinion_permits assms(2)) (auto simp: list_ex_iff)
  show ?thesis
    using mcp arg classify_mcp_title [OF assms(6), of server]
    by (auto simp: gate_grants call_pairs_def resolve_grants policy_control_def profile_control_def
        list_all_iff)
qed

text \<open>An MCP server that may skip the gate is one the gate would never refuse: if the
  predicate clears \<open>@server\<close> under a ceiling, then every tool of that server, called with any
  kind and any arguments, is permitted by that ceiling.\<close>

theorem skipped_server_is_never_refused:
  assumes "may_skip_gate h (e_matchers E) (JStr (''@'' @ server)) (Some c)"
    and "ceiling_ok E c" and "mcp_plain c" and "dict_get (e_matchers E) ''mcp'' = Some match_mcp"
    and "slash \<notin> set server" and "tool_name_ok tool"
  shows "grants (gate_decision h (e_matchers E) (Some c) None
           \<lparr>tool_title = ''mcp__'' @ server @ ''__'' @ tool, tool_kind = kind, raw_params = params,
            mcp_ref = [], extra_titles = []\<rparr>)"
  using assms by (rule silent_server_permits)

definition other_server_denied :: control where
  "other_server_denied = CRuleset (Scoped \<lparr>rs_mode = MODE_DENY, rs_allow = [],
     rs_deny = [''@shell/run''], rs_matcher = ''mcp''\<rparr>)"

lemma other_server_denied_ok: "ceiling_ok sample_enforcer (bare_ceiling [(''mcp'', other_server_denied)])"
proof -
  have "control_ok sample_enforcer True ''mcp'' other_server_denied" by code_simp
  then show ?thesis
    using controls_ok_set [OF controls_ok_Nil, of sample_enforcer True "''mcp''" other_server_denied]
    by (simp add: ceiling_ok_def)
qed

lemma skipped_server_is_never_refused_witness:
  "grants (gate_decision sample_host (e_matchers sample_enforcer)
     (Some (bare_ceiling [(''mcp'', other_server_denied)])) None
     \<lparr>tool_title = ''mcp__'' @ ''search'' @ ''__'' @ ''query'', tool_kind = ''fetch'',
      raw_params = Some [(''url'', JStr ''https://example.com/'')], mcp_ref = [], extra_titles = []\<rparr>)"
proof (rule skipped_server_is_never_refused)
  show "may_skip_gate sample_host (e_matchers sample_enforcer) (JStr (''@'' @ ''search''))
          (Some (bare_ceiling [(''mcp'', other_server_denied)]))"
    by code_simp
  show "mcp_plain (bare_ceiling [(''mcp'', other_server_denied)])"
    by code_simp
  show "dict_get (e_matchers sample_enforcer) ''mcp'' = Some match_mcp"
    by (simp add: sample_enforcer_def stock_enforcer_def)
qed (simp_all add: other_server_denied_ok tool_name_ok_def)

text \<open>The builtins whose sensitive-path or denied-command floor runs at the gate.\<close>

definition FLOOR_BUILTINS :: "string list" where
  "FLOOR_BUILTINS = [''code'', ''execute_bash'', ''fs_read'', ''fs_write'', ''glob'', ''grep'']"

lemma floor_builtins: "b \<in> set FLOOR_BUILTINS \<Longrightarrow>
  \<not> may_skip_gate h R (JStr b) ceil"
  by (auto simp: may_skip_gate_def builtin_scopes_def BUILTIN_TOOL_SCOPES_def FLOOR_GATE_SCOPES_def
      dict_get_default_def FLOOR_BUILTINS_def)

lemma jhas_del [simp]: "\<not> jhas (dict_del k d) k"
  unfolding jhas_def delete_keys by simp

lemma sanitize_servers:
  "(n, JObj d) \<in> set (strip_ungoverned_auto_approve f sv) \<Longrightarrow> jhas d ''autoApprove'' \<Longrightarrow> f (JStr (''@'' @ n))"
  by (auto simp: strip_ungoverned_auto_approve_def split: option.splits if_splits)

lemma strip_keeps_names:
  "map fst (strip_ungoverned_auto_approve f sv) = map fst sv"
  by (auto simp: strip_ungoverned_auto_approve_def split: option.split)

lemma jget_set [simp]: "jget (dict_set k v d) k' = (if k' = k then v else jget d k')"
  by (simp add: jget_def dict_get_default_def)

lemma sanitize_allowed:
  "jget (sanitize_agent_config_governance f cfg) ''allowedTools'' =
     (case jget cfg ''allowedTools'' of
        JArr xs \<Rightarrow> JArr (filter (\<lambda>ref. as_str ref \<noteq> None \<and> f ref) xs) | v \<Rightarrow> v)"
  by (auto simp: sanitize_agent_config_governance_def Let_def split: json.splits)

lemma sanitize_mcp:
  "jget (sanitize_agent_config_governance f cfg) ''mcpServers'' =
     (case jget cfg ''mcpServers'' of
        JObj sv \<Rightarrow> JObj (strip_ungoverned_auto_approve f sv) | v \<Rightarrow> v)"
  by (auto simp: sanitize_agent_config_governance_def Let_def split: json.splits)

lemma sanitize_other:
  "k \<noteq> ''allowedTools'' \<Longrightarrow> k \<noteq> ''mcpServers'' \<Longrightarrow>
   jget (sanitize_agent_config_governance f cfg) k = jget cfg k"
  by (auto simp: sanitize_agent_config_governance_def Let_def split: json.splits)

text \<open>A sanitised agent configuration holds no exemption the ceiling could revoke: what is
  left in \<open>allowedTools\<close> are names that may skip the gate now, none of them a builtin whose
  floor runs at the gate, and a server that keeps \<open>autoApprove\<close> may skip the gate now; no
  server is dropped and no other key changes.\<close>

theorem sanitized_config_is_safe:
  fixes h R installed governs cfg
  defines "f \<equiv> may_skip_gate_now h R installed governs"
    and "cfg' \<equiv> sanitize_agent_config_governance (may_skip_gate_now h R installed governs) cfg"
  assumes "jget cfg ''allowedTools'' = JArr refs" and "jget cfg ''mcpServers'' = JObj servers"
  shows "\<exists>refs' servers'. jget cfg' ''allowedTools'' = JArr refs' \<and> jget cfg' ''mcpServers'' = JObj servers' \<and>
     list_all (\<lambda>v. \<exists>s. v = JStr s \<and> f v \<and>
        s \<notin> set FLOOR_BUILTINS) refs' \<and>
     list_all (\<lambda>(n, v). \<forall>d. v = JObj d \<longrightarrow> jhas d ''autoApprove'' \<longrightarrow> f (JStr (''@'' @ n))) servers' \<and>
     map fst servers' = map fst servers \<and>
     (\<forall>k. k \<noteq> ''allowedTools'' \<longrightarrow> k \<noteq> ''mcpServers'' \<longrightarrow> jget cfg' k = jget cfg k)"
proof (intro exI conjI)
  let ?refs = "filter (\<lambda>ref. as_str ref \<noteq> None \<and> f ref) refs"
  let ?servers = "strip_ungoverned_auto_approve f servers"
  show "jget cfg' ''allowedTools'' = JArr ?refs"
    using assms(3) by (simp add: sanitize_allowed cfg'_def f_def)
  show "jget cfg' ''mcpServers'' = JObj ?servers"
    using assms(4) by (simp add: sanitize_mcp cfg'_def f_def)
  have skips: "f v \<Longrightarrow> \<exists>ceil. may_skip_gate h R v ceil" for v
    by (auto simp: f_def may_skip_gate_now_def split: sum.splits)
  show "list_all (\<lambda>v. \<exists>s. v = JStr s \<and> f v \<and>
        s \<notin> set FLOOR_BUILTINS) ?refs"
  proof (unfold list_all_iff, intro ballI)
    fix v
    assume "v \<in> set ?refs"
    then obtain s where "v = JStr s" "f v" by auto
    then show "\<exists>s. v = JStr s \<and> f v \<and> s \<notin> set FLOOR_BUILTINS"
      using skips floor_builtins by blast
  qed
  show "list_all (\<lambda>(n, v). \<forall>d. v = JObj d \<longrightarrow> jhas d ''autoApprove'' \<longrightarrow> f (JStr (''@'' @ n))) ?servers"
    unfolding list_all_iff by (auto dest: sanitize_servers)
  show "map fst ?servers = map fst servers" by (rule strip_keeps_names)
  show "\<forall>k. k \<noteq> ''allowedTools'' \<longrightarrow> k \<noteq> ''mcpServers'' \<longrightarrow> jget cfg' k = jget cfg k"
    by (simp add: cfg'_def sanitize_other)
qed

definition sample_config :: jobj where
  "sample_config =
     [(''allowedTools'', JArr [JStr ''fs_read'', JStr ''@search'', JInt 1]),
      (''mcpServers'', JObj [(''search'', JObj [(''autoApprove'', JArr [])])])]"

lemma sanitized_config_is_safe_witness:
  "\<exists>refs' servers'.
     jget (sanitize_agent_config_governance
       (may_skip_gate_now sample_host (MATCHERS sample_host) (Inr None) (\<lambda>v. Inr False)) sample_config)
       ''allowedTools'' = JArr refs' \<and>
     jget (sanitize_agent_config_governance
       (may_skip_gate_now sample_host (MATCHERS sample_host) (Inr None) (\<lambda>v. Inr False)) sample_config)
       ''mcpServers'' = JObj servers' \<and> map fst servers' = [''search'']"
proof -
  have a: "jget sample_config ''allowedTools'' = JArr [JStr ''fs_read'', JStr ''@search'', JInt 1]"
    by code_simp
  have b: "jget sample_config ''mcpServers'' = JObj [(''search'', JObj [(''autoApprove'', JArr [])])]"
    by code_simp
  from sanitized_config_is_safe [OF a b, of sample_host "MATCHERS sample_host" "Inr None" "\<lambda>v. Inr False"]
  show ?thesis by (elim exE conjE) (intro exI conjI, assumption, assumption, simp)
qed

definition only_git :: control where
  "only_git = CRuleset (Scoped \<lparr>rs_mode = MODE_ALLOW, rs_allow = [''git *''], rs_deny = [],
     rs_matcher = ''command''\<rparr>)"

text \<open>The exemption of a network builtin does not look at the \<open>commands\<close> scope although its
  bare title is checked there: a ceiling exists under which \<open>web_fetch\<close> may skip a gate that
  would refuse it.\<close>

theorem network_builtin_skips_a_refusing_gate:
  "may_skip_gate sample_host (MATCHERS sample_host) (JStr ''web_fetch'')
     (Some (bare_ceiling [(''commands'', only_git)])) \<and>
   \<not> grants (gate_decision sample_host (MATCHERS sample_host)
     (Some (bare_ceiling [(''commands'', only_git)])) None (titled ''web_fetch''))"
  by code_simp

end
