(* ===== verification/Gov_Profiles.thy ===== *)
theory Gov_Profiles
  imports Gov_Extends Gov_Auto
begin

text \<open>
  The profile store (\<^verbatim>\<open>src/codex_crew/platform/governance_profiles.py\<close>): the reload that
  parses every profile file, resolves \<open>extends\<close> and builds the bind index; freshness and
  the lock; the profile that is active for a call; the chokepoint \<open>governance_permits\<close>; the
  boot checks. Reading the directory and parsing the JSON text happen outside: a reload is
  given what each file turned out to be. A fingerprint is any value with equality.
  Logging, audit records and health marks are not modelled.
\<close>

section \<open>Reload\<close>

text \<open>
  What reading one profile file gave: it vanished meanwhile, its bytes could not be read,
  its text is not JSON, or a JSON value.
\<close>

datatype file_state = Vanished | Unreadable | NotJson | Document json

datatype dir_state =
    DirMissing
  | DirError string                     \<comment> \<open>the directory, which could not be enumerated\<close>
  | DirFiles "(string \<times> file_state) list"  \<comment> \<open>the stems in sorted order\<close>

record snapshot =
  s_by_name :: "(string, profile) dict"
  s_by_bind :: "(bind_type \<times> string, string) dict"
  s_unrecoverable :: "string list"
  s_fallback_profiles :: "string list"
  s_loaded :: bool

definition empty_snapshot :: snapshot where
  "empty_snapshot = \<lparr>s_by_name = [], s_by_bind = [], s_unrecoverable = [],
     s_fallback_profiles = [], s_loaded = False\<rparr>"

text \<open>
  \<open>_fallback_profile\<close>: the profile the installed ceiling declares for an unusable file, or
  deny-all; \<open>Inl\<close> when the context cannot be read.
\<close>

definition fallback_profile :: "enforcer \<Rightarrow> ceiling option res \<Rightarrow> string \<Rightarrow> profile" where
  "fallback_profile E installed name =
     (case installed of
        Inr (Some c) \<Rightarrow>
          (case c_fallback_profile c of
             Some declared \<Rightarrow> declared\<lparr>p_name := name\<rparr>
           | None \<Rightarrow> deny_all_profile E name)
      | _ \<Rightarrow> deny_all_profile E name)"

definition salvage_bind :: "enforcer \<Rightarrow> json option \<Rightarrow> bind option" where
  "salvage_bind E data =
     (case data of
        Some (JObj d) \<Rightarrow> (case parse_bind E (jget d ''bind'') of Inl _ \<Rightarrow> None | Inr b \<Rightarrow> b)
      | _ \<Rightarrow> None)"

type_synonym pass1 = "(string, profile) dict \<times> string list \<times> string list"

definition use_fallback :: "profile \<Rightarrow> bind option \<Rightarrow> string \<Rightarrow> pass1 \<Rightarrow> pass1" where
  "use_fallback fb b stem st =
     (case st of (by_name, unrec, fallbacks) \<Rightarrow>
        (case b of
           Some bd \<Rightarrow> (dict_set stem (fb\<lparr>p_bind := Some bd\<rparr>) by_name, unrec, stem # fallbacks)
         | None \<Rightarrow> (dict_set stem fb by_name, unrec @ [stem @ ''.json''], stem # fallbacks)))"

definition prior_bind :: "(string, profile) dict \<Rightarrow> string \<Rightarrow> bind option" where
  "prior_bind prior stem = (case dict_get prior stem of None \<Rightarrow> None | Some p \<Rightarrow> p_bind p)"

definition load_file ::
  "enforcer \<Rightarrow> ceiling option res \<Rightarrow> (string, profile) dict \<Rightarrow> string \<times> file_state \<Rightarrow> pass1 \<Rightarrow> pass1" where
  "load_file E installed prior file st =
     (case file of (stem, content) \<Rightarrow>
        let fb = fallback_profile E installed stem;
            invalid = (\<lambda>data. use_fallback fb
               (case salvage_bind E data of Some b \<Rightarrow> Some b | None \<Rightarrow> prior_bind prior stem) stem st)
        in case content of
             Vanished \<Rightarrow> st
           | Unreadable \<Rightarrow> use_fallback fb (prior_bind prior stem) stem st
           | NotJson \<Rightarrow> invalid None
           | Document v \<Rightarrow>
               (case as_obj v of
                  None \<Rightarrow> invalid (Some v)
                | Some d \<Rightarrow>
                    (case parse_profile E d of
                       Inr p \<Rightarrow> (dict_set stem p (fst st), snd st)
                     | Inl _ \<Rightarrow> invalid (Some v))))"

text \<open>
  One step of pass 2 for an entry of the listing taken before the pass; \<open>orig\<close> is the
  \<open>extends\<close> of every profile as it was then.
\<close>

definition extend_one ::
  "enforcer \<Rightarrow> ceiling option res \<Rightarrow> (string \<Rightarrow> string) \<Rightarrow> string \<times> profile \<Rightarrow>
   (string, profile) dict \<times> string list \<Rightarrow> ((string, profile) dict \<times> string list) res" where
  "extend_one E installed orig entry st =
     (case entry of (name, prof) \<Rightarrow> case st of (by_name, fallbacks) \<Rightarrow>
        if p_extends prof = [] then Inr st
        else (case dict_get by_name (p_extends prof) of
                Some parent \<Rightarrow>
                  if orig (p_extends prof) = []
                  then rbind (compose_profiles parent prof) (\<lambda>c. Inr (dict_set name c by_name, fallbacks))
                  else Inr (dict_set name
                         (let fb = fallback_profile E installed name
                          in if p_bind prof \<noteq> None then fb\<lparr>p_bind := p_bind prof\<rparr> else fb) by_name,
                         name # fallbacks)
              | None \<Rightarrow>
                  Inr (dict_set name
                         (let fb = fallback_profile E installed name
                          in if p_bind prof \<noteq> None then fb\<lparr>p_bind := p_bind prof\<rparr> else fb) by_name,
                       name # fallbacks)))"

definition orig_extends :: "(string, profile) dict \<Rightarrow> string \<Rightarrow> string" where
  "orig_extends by_name name = (case dict_get by_name name of None \<Rightarrow> [] | Some p \<Rightarrow> p_extends p)"

definition resolve_extends ::
  "enforcer \<Rightarrow> ceiling option res \<Rightarrow> (string, profile) dict \<Rightarrow> string list \<Rightarrow>
   ((string, profile) dict \<times> string list) res" where
  "resolve_extends E installed by_name fallbacks =
     fold_res (extend_one E installed (orig_extends by_name)) by_name (by_name, fallbacks)"

definition bind_index :: "(string, profile) dict \<Rightarrow> (bind_type \<times> string, string) dict" where
  "bind_index by_name =
     fold (\<lambda>(name, prof) idx.
             case p_bind prof of None \<Rightarrow> idx | Some b \<Rightarrow> dict_set (b_type b, b_id b) name idx) by_name []"

definition reload :: "enforcer \<Rightarrow> ceiling option res \<Rightarrow> dir_state \<Rightarrow> snapshot \<Rightarrow> snapshot res" where
  "reload E installed dir snap =
     (let publish = (\<lambda>files.
            case fold (load_file E installed (s_by_name snap)) files ([], [], []) of
              (by_name, unrec, fallbacks) \<Rightarrow>
                rbind (resolve_extends E installed by_name fallbacks) (\<lambda>(by_name2, fallbacks2).
                Inr \<lparr>s_by_name = by_name2, s_by_bind = bind_index by_name2, s_unrecoverable = unrec,
                     s_fallback_profiles = fallbacks2, s_loaded = True\<rparr>))
      in case dir of
           DirMissing \<Rightarrow> publish []
         | DirFiles files \<Rightarrow> publish files
         | DirError d \<Rightarrow>
             if s_by_name snap \<noteq> [] then Inr snap
             else Inr \<lparr>s_by_name = [], s_by_bind = [], s_unrecoverable = [''<dir:'' @ d @ ''>''],
                       s_fallback_profiles = [], s_loaded = True\<rparr>)"

section \<open>Freshness\<close>

record 'f store =
  ps_snap :: snapshot
  ps_fingerprint :: "'f option"
  ps_generation :: nat

text \<open>
  \<open>_ensure_fresh\<close>: \<open>fp\<close> is the current fingerprint, \<open>acquired\<close> whether the reload lock was
  free. The answer is whether the snapshot is safe to authorize against; an exception of
  the reload leaves the store as it was.
\<close>

definition ensure_fresh ::
  "enforcer \<Rightarrow> ceiling option res \<Rightarrow> dir_state \<Rightarrow> 'f \<Rightarrow> bool \<Rightarrow> 'f store \<Rightarrow> (bool \<times> 'f store) res" where
  "ensure_fresh E installed dir fp acquired st =
     (if s_loaded (ps_snap st) \<and> ps_fingerprint st = Some fp then Inr (True, st)
      else if \<not> acquired then Inr (s_loaded (ps_snap st), st)
      else rbind (reload E installed dir (ps_snap st)) (\<lambda>snap.
           Inr (True, st\<lparr>ps_snap := snap, ps_fingerprint := Some fp,
                         ps_generation := Suc (ps_generation st)\<rparr>)))"

section \<open>The active profile\<close>

definition NAMESPACES :: "string list" where
  "NAMESPACES = [''discord'', ''telegram'', ''wecom'', ''weixin'', ''whatsapp'', ''feishu'',
     ''webex'', ''teams'', ''imessage'', ''slack'']"

text \<open>\<open>sel._infer_source\<close>.\<close>

definition infer_surface :: "string \<Rightarrow> string" where
  "infer_surface key =
     (if key = [] then ''unknown''
      else if key = ''_host'' then ''host''
      else if starts_with key ''dashboard:'' then ''dashboard''
      else if starts_with key ''cron:'' then ''cron''
      else if starts_with key ''subagent:'' then ''subagent''
      else if starts_with key ''taskrunner'' then ''taskrunner''
      else if key = ''_bg'' then ''background''
      else if key = ''_hb'' then ''heartbeat''
      else if key = ''cli_chat'' then ''cli''
      else (case List.find (\<lambda>ns. starts_with (casefold key) (ns @ '':'')
                               \<or> starts_with (casefold key) (ns @ ''_'')) NAMESPACES of
              Some ns \<Rightarrow> ns | None \<Rightarrow> ''slack''))"

definition UNATTENDED_SURFACES :: "string list" where
  "UNATTENDED_SURFACES = [''cron'', ''subagent'', ''background'', ''heartbeat'', ''taskrunner'']"

definition for_bind :: "snapshot \<Rightarrow> bind_type \<Rightarrow> string \<Rightarrow> profile option" where
  "for_bind snap ty i =
     (case dict_get (s_by_bind snap) (ty, i) of
        None \<Rightarrow> None
      | Some name \<Rightarrow> if name = [] then None else dict_get (s_by_name snap) name)"

record caller =
  session_key :: string
  agent :: string
  app :: string
  task :: string

text \<open>\<open>resolved\<close> is the answer of the freshness check that opens the function.\<close>

definition resolve_active_scope :: "enforcer \<Rightarrow> bool \<Rightarrow> snapshot \<Rightarrow> caller \<Rightarrow> profile option" where
  "resolve_active_scope E resolved snap who =
     (let surface = infer_surface (session_key who);
          lookup = (\<lambda>ty i. if i = [] then None else for_bind snap ty i);
          proven = session_key who \<noteq> [] \<and> session_key who \<noteq> ''_bg'' \<and> session_key who \<noteq> ''_hb''
      in if \<not> resolved then Some (deny_all_profile E (''_deny_all_unloaded:'' @ surface))
         else case lookup BApp (app who) of Some p \<Rightarrow> Some p | None \<Rightarrow>
              (case lookup BTask (task who) of Some p \<Rightarrow> Some p | None \<Rightarrow>
              (case lookup BTask (agent who) of Some p \<Rightarrow> Some p | None \<Rightarrow>
              (case for_bind snap BSurface surface of Some p \<Rightarrow> Some p | None \<Rightarrow>
                 if surface \<in> set UNATTENDED_SURFACES \<and> \<not> proven
                 then Some (deny_all_profile E (''_deny_all:'' @ surface)) else None))))"

section \<open>Chokepoints and boot checks\<close>

text \<open>
  An exception of the evaluation: a composition error propagates, any other becomes the
  caller's disposition. \<open>installed\<close> is the ceiling as the context gives it, \<open>active\<close> the
  active profile, either of which may raise.
\<close>

definition governance_permits ::
  "registry \<Rightarrow> ceiling option res \<Rightarrow> profile option res \<Rightarrow> bool \<Rightarrow> string \<Rightarrow> string \<Rightarrow> decision res" where
  "governance_permits R installed active fail_closed_flag scope x =
     (case rbind installed (\<lambda>ceil. rbind active (\<lambda>prof.
             if ceil = None \<and> prof = None then Inr (Decision True NotGoverned DefaultRule NoLayer)
             else resolve R ceil prof scope x)) of
        Inr dec \<Rightarrow> Inr dec
      | Inl e \<Rightarrow>
          if e = PlatformCompositionError then Inl PlatformCompositionError
          else Inr (Decision (\<not> fail_closed_flag) NotGoverned DefaultRule NoLayer))"

definition governance_floor_ordinal ::
  "ceiling option res \<Rightarrow> profile option res \<Rightarrow> string \<Rightarrow> string option res" where
  "governance_floor_ordinal installed active scope =
     (case rbind installed (\<lambda>ceil. rbind active (\<lambda>prof.
             rbind (resolve_ordinal ceil prof scope) (\<lambda>eff. Inr (map_option o_value eff)))) of
        Inr v \<Rightarrow> Inr v
      | Inl e \<Rightarrow> if e = PlatformCompositionError then Inl PlatformCompositionError else Inr None)"

text \<open>
  \<open>may_skip_gate\<close> reads a profile through \<open>get\<close> only; the ceiling with the profile's
  controls answers the same.
\<close>

definition any_configured_profile_governs ::
  "host \<Rightarrow> registry \<Rightarrow> bool \<Rightarrow> snapshot \<Rightarrow> json \<Rightarrow> bool" where
  "any_configured_profile_governs h R resolved snap ref =
     (if \<not> resolved then True
      else list_ex (\<lambda>(_, prof). \<not> may_skip_gate h R ref (Some (bare_ceiling (p_controls prof))))
             (s_by_name snap))"

definition all_profile_pinned_commands :: "snapshot \<Rightarrow> string list" where
  "all_profile_pinned_commands snap =
     dedup (concat (map (\<lambda>(_, prof). profile_pinned_commands prof) (s_by_name snap)))"

definition unknown_profile_scopes :: "bool \<Rightarrow> snapshot \<Rightarrow> (string \<times> string list) list" where
  "unknown_profile_scopes resolved snap =
     (if \<not> resolved then []
      else map (\<lambda>(stem, prof). (stem, p_unknown_scopes prof))
             (filter (\<lambda>(_, prof). p_unknown_scopes prof \<noteq> []) (s_by_name snap)))"

definition assert_profile_floor :: "enforcer \<Rightarrow> ceiling option \<Rightarrow> snapshot \<Rightarrow> unit res" where
  "assert_profile_floor E ceil snap =
     (case ceil of
        None \<Rightarrow> Inr ()
      | Some c \<Rightarrow>
          fold_res (\<lambda>(_, prof) u. assert_governance_floor E (Some c) (Some prof)) (s_by_name snap) ())"

definition assert_profiles_within_ceiling :: "enforcer \<Rightarrow> ceiling option \<Rightarrow> snapshot \<Rightarrow> unit res" where
  "assert_profiles_within_ceiling E ceil snap =
     (case ceil of
        None \<Rightarrow> Inr ()
      | Some c \<Rightarrow>
          if s_unrecoverable snap \<noteq> [] then Inl PlatformCompositionError
          else assert_profile_floor E ceil snap)"

section \<open>Resolution of extends\<close>

text \<open>What pass 2 makes of one profile, read off the listing taken before the pass.\<close>

definition substitute :: "enforcer \<Rightarrow> ceiling option res \<Rightarrow> string \<Rightarrow> profile \<Rightarrow> profile" where
  "substitute E installed name prof =
     (let fb = fallback_profile E installed name
      in if p_bind prof \<noteq> None then fb\<lparr>p_bind := p_bind prof\<rparr> else fb)"

definition extended_profile ::
  "enforcer \<Rightarrow> ceiling option res \<Rightarrow> (string, profile) dict \<Rightarrow> string \<Rightarrow> profile \<Rightarrow> profile res" where
  "extended_profile E installed listing name prof =
     (if p_extends prof = [] then Inr prof
      else (case dict_get listing (p_extends prof) of
              None \<Rightarrow> Inr (substitute E installed name prof)
            | Some parent \<Rightarrow>
                if p_extends parent = [] then compose_profiles parent prof
                else Inr (substitute E installed name prof)))"

text \<open>Profiles that extend nothing are still as listed: the state pass 2 works in.\<close>

definition roots_kept :: "(string, profile) dict \<Rightarrow> (string, profile) dict \<Rightarrow> bool" where
  "roots_kept listing by_name \<longleftrightarrow>
     (\<forall>n. orig_extends listing n = [] \<longrightarrow> dict_get by_name n = dict_get listing n) \<and>
     (\<forall>n. dict_get listing n = None \<longleftrightarrow> dict_get by_name n = None)"

lemma extend_one_step:
  assumes "extend_one E installed (orig_extends listing) (name, prof) (bn, fb) = Inr (bn', fb')"
    and "roots_kept listing bn" and "dict_get listing name = Some prof" and "dict_get bn name = Some prof"
  shows "roots_kept listing bn' \<and> (\<forall>k. k \<noteq> name \<longrightarrow> dict_get bn' k = dict_get bn k) \<and>
     (\<exists>q. extended_profile E installed listing name prof = Inr q \<and> dict_get bn' name = Some q)"
proof (cases "p_extends prof = []")
  case True
  with assms show ?thesis by (simp add: extend_one_def extended_profile_def)
next
  case False
  have own: "orig_extends listing name \<noteq> []"
    using assms(3) False by (simp add: orig_extends_def)
  have parent: "dict_get bn (p_extends prof) = None \<longleftrightarrow> dict_get listing (p_extends prof) = None"
    "orig_extends listing (p_extends prof) = [] \<Longrightarrow> dict_get bn (p_extends prof) = dict_get listing (p_extends prof)"
    using assms(2) by (auto simp: roots_kept_def)
  have "\<exists>q. extended_profile E installed listing name prof = Inr q \<and> bn' = dict_set name q bn"
  proof (cases "dict_get listing (p_extends prof)")
    case None
    with assms(1) False parent(1) show ?thesis
      by (auto simp: extend_one_def extended_profile_def substitute_def Let_def)
  next
    case (Some q)
    then obtain q' where q': "dict_get bn (p_extends prof) = Some q'" using parent(1) by auto
    show ?thesis
    proof (cases "p_extends q = []")
      case True
      then have "q' = q" using parent(2) Some q' by (simp add: orig_extends_def)
      with assms(1) False Some q' True show ?thesis
        by (auto simp: extend_one_def extended_profile_def orig_extends_def res_simps)
    next
      case chain: False
      with assms(1) False Some q' show ?thesis
        by (auto simp: extend_one_def extended_profile_def orig_extends_def substitute_def Let_def)
    qed
  qed
  then obtain q where q: "extended_profile E installed listing name prof = Inr q" "bn' = dict_set name q bn"
    by blast
  moreover have "roots_kept listing bn'"
    using assms(2-4) own q(2) by (auto simp: roots_kept_def)
  ultimately show ?thesis by simp
qed

lemma fold_extend_one:
  assumes "fold_res (extend_one E installed (orig_extends listing)) es (bn, fb) = Inr (bn', fb')"
    and "roots_kept listing bn" and "dict_wf es"
    and "\<And>n p. dict_get es n = Some p \<Longrightarrow> dict_get listing n = Some p \<and> dict_get bn n = Some p"
  shows "case dict_get es k of
           None \<Rightarrow> dict_get bn' k = dict_get bn k
         | Some p \<Rightarrow> \<exists>q. extended_profile E installed listing k p = Inr q \<and> dict_get bn' k = Some q"
  using assms
proof (induction es arbitrary: bn fb)
  case Nil
  then show ?case by simp
next
  case (Cons e es)
  obtain name prof where e: "e = (name, prof)" by (cases e)
  from Cons.prems(1) e obtain bn1 fb1
    where step: "extend_one E installed (orig_extends listing) (name, prof) (bn, fb) = Inr (bn1, fb1)"
      and rest: "fold_res (extend_one E installed (orig_extends listing)) es (bn1, fb1) = Inr (bn', fb')"
    by (auto simp: res_simps)
  have here: "dict_get listing name = Some prof" "dict_get bn name = Some prof"
    using Cons.prems(4) [of name prof] e by simp_all
  note one = extend_one_step [OF step Cons.prems(2) here]
  have fresh: "dict_get es name = None" using Cons.prems(3) e by (simp add: map_of_eq_None_iff)
  have IH: "case dict_get es k of
           None \<Rightarrow> dict_get bn' k = dict_get bn1 k
         | Some p \<Rightarrow> \<exists>q. extended_profile E installed listing k p = Inr q \<and> dict_get bn' k = Some q"
  proof (rule Cons.IH [OF rest])
    fix n p
    assume n: "dict_get es n = Some p"
    then have "n \<noteq> name" using fresh by auto
    with n Cons.prems(4) [of n p] e one show "dict_get listing n = Some p \<and> dict_get bn1 n = Some p"
      by simp
  qed (use one Cons.prems(3) e in simp_all)
  show ?case
  proof (cases "k = name")
    case True
    with IH fresh one e show ?thesis by simp
  next
    case False
    with IH one e show ?thesis by (simp split: option.splits)
  qed
qed

lemma resolve_extends_spec:
  assumes "resolve_extends E installed bn fb = Inr (bn', fb')" and "dict_wf bn"
  shows "case dict_get bn k of
           None \<Rightarrow> dict_get bn' k = None
         | Some p \<Rightarrow> \<exists>q. extended_profile E installed bn k p = Inr q \<and> dict_get bn' k = Some q"
proof -
  have "roots_kept bn bn" by (simp add: roots_kept_def)
  from fold_extend_one [OF assms(1) [unfolded resolve_extends_def] this assms(2), of k]
  show ?thesis by (cases "dict_get bn k") simp_all
qed

text \<open>The verdict on an \<open>extends\<close> chain does not depend on the order of the files: two
  listings with the same profiles, in any order, resolve to the same profiles.\<close>

theorem extends_is_order_independent:
  assumes "dict_wf bn1" and "dict_wf bn2" and "\<And>n. dict_get bn1 n = dict_get bn2 n"
    and "resolve_extends E installed bn1 fb1 = Inr (r1, g1)"
    and "resolve_extends E installed bn2 fb2 = Inr (r2, g2)"
  shows "dict_get r1 k = dict_get r2 k"
proof -
  have "extended_profile E installed bn1 k p = extended_profile E installed bn2 k p" for p
    by (simp add: extended_profile_def assms(3))
  then show ?thesis
    using resolve_extends_spec [OF assms(4,1), of k] resolve_extends_spec [OF assms(5,2), of k] assms(3)
    by (auto split: option.splits)
qed

definition chain_a :: profile where "chain_a = bare_profile ''a'' []"
definition chain_b :: profile where "chain_b = (bare_profile ''b'' [])\<lparr>p_extends := ''a''\<rparr>"
definition chain_c :: profile where "chain_c = (bare_profile ''c'' [])\<lparr>p_extends := ''b''\<rparr>"

definition resolved_listing :: "(string, profile) dict \<Rightarrow> (string, profile) dict" where
  "resolved_listing bn = (case resolve_extends sample_enforcer (Inr None) bn [] of Inl e \<Rightarrow> [] | Inr r \<Rightarrow> fst r)"

lemma extends_is_order_independent_witness:
  "dict_get (resolved_listing [(''a'', chain_a), (''b'', chain_b), (''c'', chain_c)]) ''c'' =
   dict_get (resolved_listing [(''c'', chain_c), (''b'', chain_b), (''a'', chain_a)]) ''c''"
proof -
  let ?l1 = "[(''a'', chain_a), (''b'', chain_b), (''c'', chain_c)]"
  let ?l2 = "[(''c'', chain_c), (''b'', chain_b), (''a'', chain_a)]"
  have "\<not> isl (resolve_extends sample_enforcer (Inr None) ?l1 [])"
    "\<not> isl (resolve_extends sample_enforcer (Inr None) ?l2 [])"
    by code_simp+
  then obtain r1 g1 r2 g2
    where r: "resolve_extends sample_enforcer (Inr None) ?l1 [] = Inr (r1, g1)"
      "resolve_extends sample_enforcer (Inr None) ?l2 [] = Inr (r2, g2)"
    by (metis isl_def sumE surj_pair)
  have "dict_get r1 ''c'' = dict_get r2 ''c''"
    by (rule extends_is_order_independent [OF _ _ _ r]) simp_all
  with r show ?thesis by (simp add: resolved_listing_def)
qed

section \<open>Bindings survive a reload\<close>

text \<open>
  The binding a file is known to want: what its document says, or, when the content cannot
  be used, what the profile of the last reload said.
\<close>

definition known_bind :: "enforcer \<Rightarrow> (string, profile) dict \<Rightarrow> string \<Rightarrow> file_state \<Rightarrow> bind option" where
  "known_bind E prior stem content =
     (case content of
        Vanished \<Rightarrow> None
      | Unreadable \<Rightarrow> prior_bind prior stem
      | NotJson \<Rightarrow> prior_bind prior stem
      | Document (JObj d) \<Rightarrow> (case parse_bind E (jget d ''bind'') of Inl _ \<Rightarrow> None | Inr b \<Rightarrow> b)
      | Document _ \<Rightarrow> prior_bind prior stem)"

lemma load_file_stem:
  assumes "known_bind E prior stem content = Some b"
  shows "\<exists>p. dict_get (fst (load_file E installed prior (stem, content) st)) stem = Some p \<and> p_bind p = Some b"
proof (cases content)
  case Vanished
  with assms show ?thesis by (simp add: known_bind_def)
next
  case (Document v)
  show ?thesis
  proof (cases v)
    case (JObj d)
    with assms Document have b: "parse_bind E (jget d ''bind'') = Inr (Some b)"
      by (auto simp: known_bind_def split: sum.splits)
    show ?thesis
    proof (cases "parse_profile E d")
      case (Inr p)
      from parse_profile_parts [OF Inr] b have "p_bind p = Some b" by (metis sum.inject(2))
      with Document JObj Inr show ?thesis by (simp add: load_file_def Let_def)
    next
      case (Inl e)
      with Document JObj b show ?thesis
        by (cases st) (simp add: load_file_def Let_def salvage_bind_def use_fallback_def)
    qed
  qed (use assms Document in
      \<open>cases st; simp add: load_file_def Let_def known_bind_def salvage_bind_def use_fallback_def\<close>)+
qed (use assms in \<open>cases st; simp add: load_file_def Let_def known_bind_def salvage_bind_def use_fallback_def\<close>)+

lemma load_file_other:
  "k \<noteq> stem \<Longrightarrow> dict_get (fst (load_file E installed prior (stem, content) st)) k = dict_get (fst st) k"
  by (cases st) (auto simp: load_file_def Let_def use_fallback_def split: file_state.splits option.splits sum.splits)

lemma load_file_keys:
  "fst ` set (fst (load_file E installed prior (stem, content) st)) \<subseteq> insert stem (fst ` set (fst st))"
  by (cases st)
     (auto simp: load_file_def Let_def use_fallback_def dict_keys_set
        split: file_state.splits option.splits sum.splits)

lemma load_file_wf:
  "dict_wf (fst st) \<Longrightarrow> dict_wf (fst (load_file E installed prior f st))"
  by (cases st; cases f)
     (auto simp: load_file_def Let_def use_fallback_def split: file_state.splits option.splits sum.splits)

lemma fold_load_wf: "dict_wf (fst st) \<Longrightarrow> dict_wf (fst (fold (load_file E installed prior) fs st))"
  by (induction fs arbitrary: st) (simp_all add: load_file_wf)

lemma fold_load_keys:
  "fst ` set (fst (fold (load_file E installed prior) fs st)) \<subseteq> fst ` set fs \<union> fst ` set (fst st)"
proof (induction fs arbitrary: st)
  case (Cons f fs)
  obtain stem content where f: "f = (stem, content)" by (cases f)
  show ?case
    using Cons.IH [of "load_file E installed prior f st"]
      load_file_keys [of E installed prior stem content st] f by auto
qed simp

lemma fold_load_other:
  "k \<notin> fst ` set fs \<Longrightarrow> dict_get (fst (fold (load_file E installed prior) fs st)) k = dict_get (fst st) k"
proof (induction fs arbitrary: st)
  case (Cons f fs)
  obtain stem content where f: "f = (stem, content)" by (cases f)
  then show ?case
    using Cons.IH [of "load_file E installed prior f st"] Cons.prems load_file_other [of k stem E] by simp
qed simp

lemma fold_load_stem:
  assumes "(stem, content) \<in> set fs" and "dict_wf fs" and "known_bind E prior stem content = Some b"
  shows "\<exists>p. dict_get (fst (fold (load_file E installed prior) fs st)) stem = Some p \<and> p_bind p = Some b"
  using assms(1,2)
proof (induction fs arbitrary: st)
  case (Cons f fs)
  show ?case
  proof (cases "f = (stem, content)")
    case True
    with Cons.prems have "stem \<notin> fst ` set fs" by auto
    with True load_file_stem [OF assms(3), of installed st] show ?thesis by (simp add: fold_load_other)
  next
    case False
    with Cons show ?thesis by auto
  qed
qed simp

lemma extended_keeps_bind:
  "extended_profile E installed listing k p = Inr q \<Longrightarrow> p_bind p = Some b \<Longrightarrow> p_bind q = Some b"
  by (auto simp: extended_profile_def substitute_def Let_def compose_profiles_def res_simps
      split: if_splits option.splits)

lemma fold_bind_index:
  fixes idx0 :: "(bind_type \<times> string, string) dict"
  defines "step \<equiv> (\<lambda>(name :: string, prof) idx.
      case p_bind prof of None \<Rightarrow> idx | Some b \<Rightarrow> dict_set (b_type b, b_id b) name idx)"
  assumes "dict_get (fold step bn idx0) key = Some name"
  shows "dict_get idx0 key = Some name \<or>
     (\<exists>p b. (name, p) \<in> set bn \<and> p_bind p = Some b \<and> key = (b_type b, b_id b))"
  using assms(2)
proof (induction bn arbitrary: idx0)
  case (Cons e bn)
  obtain n p where e: "e = (n, p)" by (cases e)
  from Cons.prems have "dict_get (fold step bn (step e idx0)) key = Some name" by simp
  from Cons.IH [OF this] e show ?case
    by (cases "p_bind p") (auto simp: step_def split: if_splits)
qed simp

lemma fold_bind_index_some:
  fixes idx0 :: "(bind_type \<times> string, string) dict"
  defines "step \<equiv> (\<lambda>(name :: string, prof) idx.
      case p_bind prof of None \<Rightarrow> idx | Some b \<Rightarrow> dict_set (b_type b, b_id b) name idx)"
  assumes "dict_get idx0 (b_type b, b_id b) \<noteq> None \<or> (\<exists>name p. (name, p) \<in> set bn \<and> p_bind p = Some b)"
  shows "dict_get (fold step bn idx0) (b_type b, b_id b) \<noteq> None"
  using assms(2)
proof (induction bn arbitrary: idx0)
  case (Cons e bn)
  obtain n p where e: "e = (n, p)" by (cases e)
  have "dict_get (step e idx0) (b_type b, b_id b) \<noteq> None \<or> (\<exists>name p. (name, p) \<in> set bn \<and> p_bind p = Some b)"
    using Cons.prems e by (auto simp: step_def split: option.splits)
  from Cons.IH [OF this] show ?case by simp
qed simp

lemma bind_eq: "b_type (a :: bind) = b_type b \<Longrightarrow> b_id a = b_id b \<Longrightarrow> a = b"
  by simp

text \<open>Every indexed binding names a profile that has it, and every bound profile is indexed.\<close>

lemma bind_index_get:
  assumes "dict_get (bind_index bn) (b_type b, b_id b) = Some name" and "dict_wf bn"
  shows "\<exists>p. dict_get bn name = Some p \<and> p_bind p = Some b"
  using fold_bind_index [OF assms(1) [unfolded bind_index_def]] assms(2)
  by (auto simp: dict_get_eq_Some [OF assms(2)] intro: bind_eq)

lemma bind_index_some:
  "dict_get bn name = Some p \<Longrightarrow> p_bind p = Some b \<Longrightarrow> dict_get (bind_index bn) (b_type b, b_id b) \<noteq> None"
  unfolding bind_index_def by (rule fold_bind_index_some) (auto dest: dict_get_Some_in_set)

lemma extend_one_wf:
  "extend_one E installed orig e st = Inr st' \<Longrightarrow> dict_wf (fst st) \<Longrightarrow>
   dict_wf (fst st')"
  by (cases e; cases st)
     (auto simp: extend_one_def res_simps split: if_splits option.splits)

lemma resolve_extends_wf:
  assumes "resolve_extends E installed bn fb = Inr (bn', fb')" and "dict_wf bn"
  shows "dict_wf bn'"
proof -
  have "dict_wf (fst (bn', fb'))"
    by (rule fold_res_invariant [OF assms(1) [unfolded resolve_extends_def], of "\<lambda>st. dict_wf (fst st)"])
       (use assms(2) extend_one_wf in auto)
  then show ?thesis by simp
qed

lemma resolve_extends_keys:
  assumes "resolve_extends E installed bn fb = Inr (bn', fb')" and "dict_wf bn" and "dict_get bn' k \<noteq> None"
  shows "dict_get bn k \<noteq> None"
  using resolve_extends_spec [OF assms(1,2), of k] assms(3) by (auto split: option.splits)

text \<open>A broken profile never frees its surface: after a reload, every file whose binding is
  known - from its document, however malformed the rest is, or from the previous load - has that
  binding in force on some profile, so a call from the bound app, task or surface does not fall
  back to the policy alone.\<close>

theorem bound_surface_stays_bound:
  assumes "reload E installed (DirFiles files) snap = Inr snap'" and "dict_wf files"
    and "[] \<notin> set (map fst files)"
    and "(stem, content) \<in> set files" and "known_bind E (s_by_name snap) stem content = Some b"
  shows "\<exists>p. for_bind snap' (b_type b) (b_id b) = Some p \<and> p_bind p = Some b"
proof -
  obtain bn unrec fb where f: "fold (load_file E installed (s_by_name snap)) files ([], [], []) = (bn, unrec, fb)"
    by (metis prod_cases3)
  have bn: "bn = fst (fold (load_file E installed (s_by_name snap)) files ([], [], []))"
    using f by simp
  have wf: "dict_wf bn" unfolding bn by (rule fold_load_wf) simp
  obtain p where p: "dict_get bn stem = Some p" "p_bind p = Some b"
    using fold_load_stem [OF assms(4,2,5), of installed "([], [], [])"] unfolding bn by blast
  from assms(1) f obtain bn' fb' where r: "resolve_extends E installed bn fb = Inr (bn', fb')"
    and snap': "s_by_name snap' = bn'" "s_by_bind snap' = bind_index bn'"
    by (auto simp: reload_def res_simps)
  have wf': "dict_wf bn'" using r wf by (rule resolve_extends_wf)
  obtain q where q: "dict_get bn' stem = Some q" "p_bind q = Some b"
    using resolve_extends_spec [OF r wf, of stem] p by (auto dest: extended_keeps_bind)
  then obtain name where name: "dict_get (bind_index bn') (b_type b, b_id b) = Some name"
    using bind_index_some by blast
  then obtain t where t: "dict_get bn' name = Some t" "p_bind t = Some b"
    using bind_index_get [OF _ wf'] by blast
  have "name \<in> fst ` set files"
  proof -
    have "dict_get bn name \<noteq> None" using resolve_extends_keys [OF r wf] t(1) by simp
    then have "name \<in> fst ` set bn" by (auto dest!: dict_get_Some_in_set intro: rev_image_eqI)
    then show ?thesis
      using fold_load_keys [of E installed "s_by_name snap" files "([], [], [])"] unfolding bn by auto
  qed
  then have "name \<noteq> []" using assms(3) by (metis set_map)
  with name t snap' show ?thesis by (simp add: for_bind_def)
qed

definition broken_file :: "string \<times> file_state" where
  "broken_file = (''notes'', Document (JObj [(''bind'', JObj [(''type'', JStr ''app''), (''id'', JStr ''notes'')]),
     (''tools'', JStr ''bad'')]))"

definition reloaded :: snapshot where
  "reloaded = (case reload sample_enforcer (Inr None) (DirFiles [broken_file]) empty_snapshot of
     Inl e \<Rightarrow> empty_snapshot | Inr s \<Rightarrow> s)"

lemma bound_surface_stays_bound_witness:
  "\<exists>p. for_bind reloaded BApp ''notes'' = Some p \<and> p_bind p = Some \<lparr>b_type = BApp, b_id = ''notes''\<rparr>"
proof -
  have "\<not> isl (reload sample_enforcer (Inr None) (DirFiles [broken_file]) empty_snapshot)"
    by code_simp
  then obtain s where s: "reload sample_enforcer (Inr None) (DirFiles [broken_file]) empty_snapshot = Inr s"
    by (metis isl_def sumE)
  have kb: "known_bind sample_enforcer (s_by_name empty_snapshot) ''notes'' (snd broken_file)
      = Some \<lparr>b_type = BApp, b_id = ''notes''\<rparr>"
    by code_simp
  have "(''notes'', snd broken_file) \<in> set [broken_file]" by (simp add: broken_file_def)
  from bound_surface_stays_bound [OF s _ _ this kb] s show ?thesis
    by (simp add: reloaded_def broken_file_def)
qed

section \<open>Deny-all and freshness\<close>

lemma deny_all_entry:
  "dict_get (deny_all_controls SCOPE_CATALOG) ''mcp'' = Some (CRuleset (Scoped (empty_allow ''mcp'')))"
  "dict_get (deny_all_controls SCOPE_CATALOG) ''commands'' = Some (CRuleset (Scoped (empty_allow ''command'')))"
  "dict_get (deny_all_controls SCOPE_CATALOG) ''tools'' = Some (CRuleset (Scoped (empty_allow ''identifier'')))"
  "dict_get (deny_all_controls SCOPE_CATALOG) ''filesystem.read'' = Some (CRuleset (Scoped (empty_allow ''path'')))"
  "dict_get (deny_all_controls SCOPE_CATALOG) ''filesystem.write'' = Some (CRuleset (Scoped (empty_allow ''path'')))"
  "dict_get (deny_all_controls SCOPE_CATALOG) ''network.egress'' = Some (CRuleset (Scoped (empty_allow ''host'')))"
  by code_simp+

lemma empty_allow_denies: "\<not> grants (query_level R (Some (CRuleset (Scoped (empty_allow m)))) s x)"
  using scoped_allows [of R "empty_allow m" x] by (simp add: query_level_def allows_def empty_allow_def)

lemma deny_all_denies:
  assumes "e_catalog E = SCOPE_CATALOG" and "call_pairs h c \<noteq> []"
  shows "\<not> grants (gate_decision h R ceil (Some (deny_all_profile E n)) c)"
proof -
  obtain s x where sx: "(s, x) \<in> set (call_pairs h c)"
    using assms(2) by (metis list.set_intros(1) neq_Nil_conv surj_pair)
  have "\<exists>m. profile_control (Some (deny_all_profile E n)) s = Some (CRuleset (Scoped (empty_allow m)))"
    using call_scopes [OF sx] deny_all_entry assms(1)
    by (auto simp: GATE_SCOPES_def profile_control_def profile_get_def deny_all_profile_def)
  then have "\<not> grants (resolve R ceil (Some (deny_all_profile E n)) s x)"
    using empty_allow_denies by (auto simp: resolve_grants)
  with sx show ?thesis by (rule gate_denies_pair)
qed

text \<open>An unloaded profile store denies: while the first load is pending, every caller gets a
  profile under which no call that maps to any governed scope is permitted.\<close>

theorem unloaded_store_denies:
  assumes "call_pairs h c \<noteq> []"
  shows "\<exists>p. resolve_active_scope (stock_enforcer h rep) False snap who = Some p \<and>
     \<not> grants (gate_decision h (MATCHERS h) ceil (Some p) c)"
  using deny_all_denies [OF _ assms, of "stock_enforcer h rep"]
  by (simp add: resolve_active_scope_def Let_def stock_enforcer_def)

lemma unloaded_store_denies_witness:
  "\<exists>p. resolve_active_scope (stock_enforcer sample_host (\<lambda>v. [])) False empty_snapshot
        \<lparr>session_key = ''dashboard:1'', agent = [], app = [], task = []\<rparr> = Some p \<and>
     \<not> grants (gate_decision sample_host (MATCHERS sample_host) None (Some p) (titled ''fs_read''))"
  by (rule unloaded_store_denies) code_simp

definition store_ok :: "'f store \<Rightarrow> bool" where
  "store_ok st \<longleftrightarrow> (s_by_name (ps_snap st) \<noteq> [] \<longrightarrow> s_loaded (ps_snap st)) \<and>
     (ps_fingerprint st \<noteq> None \<longrightarrow> s_loaded (ps_snap st))"

lemma reload_loaded:
  "reload E installed dir snap = Inr snap' \<Longrightarrow> (s_by_name snap \<noteq> [] \<Longrightarrow> s_loaded snap) \<Longrightarrow> s_loaded snap'"
  by (auto simp: reload_def Let_def res_simps split: dir_state.splits if_splits prod.splits)

text \<open>The freshness check never vouches for an unloaded store: its answer is whether the
  snapshot it leaves is a loaded one; a caller that could not take the lock changes nothing,
  and every published snapshot moves the generation.\<close>

theorem freshness_answer_is_loaded:
  assumes "ensure_fresh E installed dir fp acquired st = Inr (ok, st')" and "store_ok st"
  shows "store_ok st' \<and> (ok \<longleftrightarrow> s_loaded (ps_snap st')) \<and>
     (\<not> acquired \<longrightarrow> st' = st) \<and>
     (ps_snap st' \<noteq> ps_snap st \<longrightarrow> ps_generation st' = Suc (ps_generation st) \<and> ps_fingerprint st' = Some fp)"
  using assms
  by (auto simp: ensure_fresh_def store_ok_def res_simps split: if_splits
      intro: reload_loaded dest: reload_loaded)

definition fresh_store :: "nat store" where
  "fresh_store = \<lparr>ps_snap = empty_snapshot, ps_fingerprint = None, ps_generation = 0\<rparr>"

lemma freshness_answer_is_loaded_witness:
  "\<not> s_loaded (ps_snap fresh_store)"
  using freshness_answer_is_loaded [of sample_enforcer "Inr None" DirMissing 7 False fresh_store False fresh_store]
  by (simp add: ensure_fresh_def store_ok_def fresh_store_def empty_snapshot_def)

section \<open>Exemptions under every profile\<close>

text \<open>C28. An exemption granted now holds under every profile whose rules for MCP servers are one ruleset:
  when \<open>may_skip_gate_now\<close> clears an MCP server, whose name has no slash, against the installed
  ceiling and the loaded profiles, then no tool of that server is refused by that ceiling with a
  loaded profile, whichever turns out to be active, provided the \<open>mcp\<close> control of the two, where
  they have one, is a single ruleset under the registered \<open>mcp\<close> matcher. That leaves out a
  profile whose ruleset was composed with its parent's to a pair.\<close>

theorem skip_now_is_safe_under_every_profile:
  assumes "may_skip_gate_now h (e_matchers E) (Inr (Some c))
             (\<lambda>ref. Inr (any_configured_profile_governs h (e_matchers E) True snap ref)) (JStr (''@'' @ server))"
    and "(stem, p) \<in> set (s_by_name snap)"
    and "ceiling_ok E c" and "mcp_plain c" and "profile_ok E p" and "mcp_plain (bare_ceiling (p_controls p))"
    and "dict_get (e_matchers E) ''mcp'' = Some match_mcp" and "slash \<notin> set server" and "tool_name_ok tool"
  shows "grants (gate_decision h (e_matchers E) (Some c) (Some p)
           \<lparr>tool_title = ''mcp__'' @ server @ ''__'' @ tool, tool_kind = kind, raw_params = params,
            mcp_ref = [], extra_titles = []\<rparr>)"
proof -
  let ?call = "\<lparr>tool_title = ''mcp__'' @ server @ ''__'' @ tool, tool_kind = kind, raw_params = params,
            mcp_ref = [], extra_titles = []\<rparr>"
  let ?pc = "bare_ceiling (p_controls p)"
  have skip_c: "may_skip_gate h (e_matchers E) (JStr (''@'' @ server)) (Some c)"
    and skip_p: "may_skip_gate h (e_matchers E) (JStr (''@'' @ server)) (Some ?pc)"
    using assms(1,2) by (auto simp: may_skip_gate_now_def any_configured_profile_governs_def list_ex_iff)
  have "ceiling_ok E ?pc"
    using assms(5) controls_ok_mono by (auto simp: ceiling_ok_def profile_ok_def)
  note under_p = silent_server_permits [OF skip_p this assms(6-9), of kind params]
  note under_c = silent_server_permits [OF skip_c assms(3,4,7-9), of kind params]
  have "query_level R (ceiling_get ?pc s) s x = query_level R (profile_get p s) s x" for R s x
    by (simp add: ceiling_get_def profile_get_def)
  with under_p under_c show ?thesis
    by (simp add: gate_grants resolve_grants policy_control_def profile_control_def list_all_iff split_beta)
qed

lemma skip_now_is_safe_under_every_profile_witness:
  "grants (gate_decision sample_host (e_matchers sample_enforcer)
     (Some (bare_ceiling [(''mcp'', other_server_denied)])) (Some (bare_profile ''p'' []))
     \<lparr>tool_title = ''mcp__'' @ ''search'' @ ''__'' @ ''query'', tool_kind = [], raw_params = None,
      mcp_ref = [], extra_titles = []\<rparr>)"
proof (rule skip_now_is_safe_under_every_profile
    [where snap = "empty_snapshot\<lparr>s_by_name := [(''p'', bare_profile ''p'' [])]\<rparr>" and stem = "''p''"])
  show "may_skip_gate_now sample_host (e_matchers sample_enforcer)
     (Inr (Some (bare_ceiling [(''mcp'', other_server_denied)])))
     (\<lambda>ref. Inr (any_configured_profile_governs sample_host (e_matchers sample_enforcer) True
        (empty_snapshot\<lparr>s_by_name := [(''p'', bare_profile ''p'' [])]\<rparr>) ref)) (JStr (''@'' @ ''search''))"
    by code_simp
  show "mcp_plain (bare_ceiling [(''mcp'', other_server_denied)])"
    "mcp_plain (bare_ceiling (p_controls (bare_profile ''p'' [])))"
    by code_simp+
  show "dict_get (e_matchers sample_enforcer) ''mcp'' = Some match_mcp"
    by (simp add: sample_enforcer_def stock_enforcer_def)
qed (simp_all add: other_server_denied_ok tool_name_ok_def profile_ok_def controls_ok_Nil)

text \<open>
  The condition is needed. A ruleset of a profile that could not be merged with its parent's stays
  a pair, whose patterns \<open>_ceiling_mentions_mcp_server\<close> does not find: the server is cleared
  because its probe passes, and the profile refuses its other tools.
\<close>

definition parent_mcp :: control where
  "parent_mcp = CRuleset (Scoped \<lparr>rs_mode = MODE_DENY, rs_allow = [], rs_deny = [''@other''], rs_matcher = ''mcp''\<rparr>)"

definition child_mcp :: control where
  "child_mcp = CRuleset (Scoped \<lparr>rs_mode = MODE_ALLOW, rs_allow = [''@srv/probe''], rs_deny = [], rs_matcher = ''mcp''\<rparr>)"

definition paired_profile :: profile where
  "paired_profile = bare_profile ''p''
     (case compose_controls parent_mcp child_mcp of Inl e \<Rightarrow> [] | Inr c \<Rightarrow> [(''mcp'', c)])"

theorem composed_profile_refuses_a_cleared_server:
  "may_skip_gate_now sample_host (e_matchers sample_enforcer) (Inr (Some (bare_ceiling [])))
     (\<lambda>ref. Inr (any_configured_profile_governs sample_host (e_matchers sample_enforcer) True
        (empty_snapshot\<lparr>s_by_name := [(''p'', paired_profile)]\<rparr>) ref)) (JStr ''@srv'') \<and>
   \<not> grants (gate_decision sample_host (e_matchers sample_enforcer) (Some (bare_ceiling []))
     (Some paired_profile) (titled ''mcp__srv__delete''))"
  by code_simp

end
