(* ===== verification/Pool_Key.thy ===== *)
theory Pool_Key
  imports Json "HOL-Library.List_Lexorder" "HOL-Library.Char_ord"
begin

text \<open>
  The identity of a poolable MCP backend (\<open>PoolKey\<close> in \<open>mcp_gateway/pool.py\<close>): its twelve
  dimensions, the constructor that reads them from a stub's Register payload, and the digest
  the pool is indexed by.

  The digest is SHA-256 over \<open>json.dumps(asdict(self), sort_keys=True)\<close>. The canonical text is
  written out here (\<open>dumps_str\<close> is the ASCII escaping of \<open>json.dumps\<close>, \<open>dumps_obj\<close> the compact
  object with sorted keys) and shown to determine the key; the hash itself is the parameter
  \<open>sha\<close>, whose collision freedom on these texts is the named hypothesis of the properties.
  Characters are those below 256, the characters of HOL.
\<close>

section \<open>The key and its constructor\<close>

record pool_key =
  server_name :: string
  agent_name :: string
  command_args_hash :: string
  effective_env_hash :: string
  work_dir :: string
  binary_version :: string
  os_uid :: int
  sandbox_mode :: string
  autoapprove_set_hash :: string
  approval_mode :: string
  trust_all_tools :: bool
  config_snapshot_hash :: string

definition POOL_KEY_FIELDS :: "string list" where
  "POOL_KEY_FIELDS = [''server_name'', ''agent_name'', ''command_args_hash'', ''effective_env_hash'',
     ''work_dir'', ''binary_version'', ''os_uid'', ''sandbox_mode'', ''autoapprove_set_hash'',
     ''approval_mode'', ''trust_all_tools'', ''config_snapshot_hash'']"

fun as_int :: "json \<Rightarrow> int option" where
  "as_int (JInt n) = Some n"
| "as_int _ = None"

fun as_bool :: "json \<Rightarrow> bool option" where
  "as_bool (JBool b) = Some b"
| "as_bool _ = None"

text \<open>\<open>PoolKey.from_register\<close>: a missing field, an \<open>os_uid\<close> that is no integer (a boolean is
  none) or a \<open>trust_all_tools\<close> that is no boolean is refused, everything else is \<open>str()\<close>.\<close>

definition from_register :: "(json \<Rightarrow> string) \<Rightarrow> jobj \<Rightarrow> pool_key res" where
  "from_register rep register =
     (if \<not> list_all (jhas register) POOL_KEY_FIELDS then Inl ValueError
      else case as_int (jget register ''os_uid'') of
        None \<Rightarrow> Inl ValueError
      | Some uid \<Rightarrow>
        (case as_bool (jget register ''trust_all_tools'') of
           None \<Rightarrow> Inl ValueError
         | Some trust \<Rightarrow>
             let text = (\<lambda>f. py_str rep (jget register f))
             in Inr \<lparr>server_name = text ''server_name'', agent_name = text ''agent_name'',
                     command_args_hash = text ''command_args_hash'',
                     effective_env_hash = text ''effective_env_hash'',
                     work_dir = text ''work_dir'', binary_version = text ''binary_version'',
                     os_uid = uid, sandbox_mode = text ''sandbox_mode'',
                     autoapprove_set_hash = text ''autoapprove_set_hash'',
                     approval_mode = text ''approval_mode'', trust_all_tools = trust,
                     config_snapshot_hash = text ''config_snapshot_hash''\<rparr>))"

section \<open>The canonical text\<close>

definition QUOTE :: char where "QUOTE = CHR 0x22"
definition BACKSLASH :: char where "BACKSLASH = CHR 0x5C"

definition hex_digit :: "nat \<Rightarrow> char" where
  "hex_digit n = ''0123456789abcdef'' ! n"

text \<open>One character as \<open>json.dumps\<close> writes it with \<open>ensure_ascii\<close>.\<close>

definition dumps_char :: "char \<Rightarrow> string" where
  "dumps_char c =
     (let n = (of_char c :: nat)
      in if c = BACKSLASH then [BACKSLASH, BACKSLASH]
         else if c = QUOTE then [BACKSLASH, QUOTE]
         else if n = 10 then [BACKSLASH, CHR ''n'']
         else if n = 13 then [BACKSLASH, CHR ''r'']
         else if n = 9 then [BACKSLASH, CHR ''t'']
         else if n = 12 then [BACKSLASH, CHR ''f'']
         else if n = 8 then [BACKSLASH, CHR ''b'']
         else if 32 \<le> n \<and> n \<le> 126 then [c]
         else [BACKSLASH, CHR ''u'', CHR ''0'', CHR ''0'', hex_digit (n div 16), hex_digit (n mod 16)])"

definition dumps_str :: "string \<Rightarrow> string" where
  "dumps_str s = QUOTE # concat (map dumps_char s) @ [QUOTE]"

fun decimal :: "nat \<Rightarrow> string" where
  "decimal n = (if n < 10 then [hex_digit n] else decimal (n div 10) @ [hex_digit (n mod 10)])"

declare decimal.simps [simp del]

definition dumps_int :: "int \<Rightarrow> string" where
  "dumps_int i = (if i < 0 then CHR ''-'' # decimal (nat (- i)) else decimal (nat i))"

datatype field = FStr string | FInt int | FBool bool

fun dumps_field :: "field \<Rightarrow> string" where
  "dumps_field (FStr s) = dumps_str s"
| "dumps_field (FInt i) = dumps_int i"
| "dumps_field (FBool b) = (if b then ''true'' else ''false'')"

fun dumps_items :: "(string \<times> field) list \<Rightarrow> string" where
  "dumps_items [] = ''}''"
| "dumps_items [(k, v)] = dumps_str k @ CHR '':'' # dumps_field v @ ''}''"
| "dumps_items ((k, v) # kvs) = dumps_str k @ CHR '':'' # dumps_field v @ CHR '','' # dumps_items kvs"

definition dumps_obj :: "(string \<times> field) list \<Rightarrow> string" where
  "dumps_obj kvs = CHR ''{'' # dumps_items (sort_key fst kvs)"

definition asdict :: "pool_key \<Rightarrow> (string \<times> field) list" where
  "asdict k = [(''server_name'', FStr (server_name k)), (''agent_name'', FStr (agent_name k)),
     (''command_args_hash'', FStr (command_args_hash k)),
     (''effective_env_hash'', FStr (effective_env_hash k)), (''work_dir'', FStr (work_dir k)),
     (''binary_version'', FStr (binary_version k)), (''os_uid'', FInt (os_uid k)),
     (''sandbox_mode'', FStr (sandbox_mode k)),
     (''autoapprove_set_hash'', FStr (autoapprove_set_hash k)),
     (''approval_mode'', FStr (approval_mode k)), (''trust_all_tools'', FBool (trust_all_tools k)),
     (''config_snapshot_hash'', FStr (config_snapshot_hash k))]"

definition pool_payload :: "pool_key \<Rightarrow> string" where
  "pool_payload k = dumps_obj (asdict k)"

definition stable_hash :: "(string \<Rightarrow> string) \<Rightarrow> pool_key \<Rightarrow> string" where
  "stable_hash sha k = sha (pool_payload k)"

section \<open>The text determines the key\<close>

text \<open>Each rendering is a prefix code: what follows it can be read off.\<close>

lemma hex_digit_eq: "m < 16 \<Longrightarrow> n < 16 \<Longrightarrow> hex_digit m = hex_digit n \<longleftrightarrow> m = n"
  unfolding hex_digit_def by (rule nth_eq_iff_index_eq) simp_all

lemma hex_pair:
  assumes "m < 256" "n < 256"
    and "hex_digit (m div 16) = hex_digit (n div 16)" "hex_digit (m mod 16) = hex_digit (n mod 16)"
  shows "m = n"
proof -
  from assms have "m div 16 = n div 16" "m mod 16 = n mod 16"
    using hex_digit_eq [of "m div 16" "n div 16"] hex_digit_eq [of "m mod 16" "n mod 16"] by simp_all
  then show ?thesis by (metis div_mult_mod_eq)
qed

lemma dumps_char_prefix:
  "dumps_char c @ u = dumps_char d @ v \<longleftrightarrow> c = d \<and> u = v"
proof
  assume eq: "dumps_char c @ u = dumps_char d @ v"
  have hex: "c = d" if "hex_digit (of_char c div 16) = hex_digit (of_char d div 16)"
    "hex_digit (of_char c mod 16) = hex_digit (of_char d mod 16)"
    using hex_pair [OF nat_of_char_less_256 nat_of_char_less_256 that] by simp
  have code: "of_char c = (k :: nat) \<Longrightarrow> of_char d = k \<Longrightarrow> c = d" for k
    by (metis char_of_char)
  from eq show "c = d \<and> u = v"
    by (simp add: dumps_char_def Let_def split: if_splits)
       (auto simp: BACKSLASH_def QUOTE_def intro: hex code)
qed simp

lemma dumps_char_not_quote: "dumps_char c @ u \<noteq> QUOTE # v"
  by (auto simp: dumps_char_def Let_def BACKSLASH_def QUOTE_def)

lemma dumps_chars_prefix:
  "concat (map dumps_char s) @ QUOTE # u = concat (map dumps_char t) @ QUOTE # v \<longleftrightarrow> s = t \<and> u = v"
proof (induction s arbitrary: t)
  case Nil
  then show ?case using dumps_char_not_quote by (cases t) (auto dest: sym)
next
  case (Cons c s)
  then show ?case using dumps_char_not_quote by (cases t) (auto simp: dumps_char_prefix)
qed

lemma dumps_str_prefix [simp]: "dumps_str s @ u = dumps_str t @ v \<longleftrightarrow> s = t \<and> u = v"
  by (simp add: dumps_str_def dumps_chars_prefix)

definition digit :: "char \<Rightarrow> bool" where "digit c \<longleftrightarrow> c \<in> hex_digit ` {..<10}"

lemma decimal_digits: "c \<in> set (decimal n) \<Longrightarrow> digit c"
proof (induction n rule: decimal.induct)
  case (1 n)
  then show ?case by (subst (asm) (2) decimal.simps) (auto simp: digit_def split: if_splits)
qed

lemma decimal_inj: "decimal m = decimal n \<Longrightarrow> m = n"
proof (induction m arbitrary: n rule: decimal.induct)
  case (1 m)
  have ne: "decimal k \<noteq> []" for k by (subst decimal.simps) simp
  show ?case
  proof (cases "m < 10 \<or> n < 10")
    case True
    with 1(2) show ?thesis
      using ne [of "m div 10"] ne [of "n div 10"]
      by (subst (asm) (1 2) decimal.simps) (auto simp: hex_digit_eq dest: sym split: if_splits)
  next
    case False
    with 1(2) have "decimal (m div 10) = decimal (n div 10)" "m mod 10 = n mod 10"
      by (subst (asm) (1 2) decimal.simps, simp add: hex_digit_eq)+
    with 1(1) False have "m div 10 = n div 10" by simp
    with \<open>m mod 10 = n mod 10\<close> show ?thesis by (metis div_mult_mod_eq)
  qed
qed

lemma digit_prefix:
  assumes "\<And>c. c \<in> set xs \<Longrightarrow> digit c" "\<And>c. c \<in> set ys \<Longrightarrow> digit c" "\<not> digit d" "\<not> digit e"
  shows "xs @ d # u = ys @ e # v \<longleftrightarrow> xs = ys \<and> d = e \<and> u = v"
  using assms
proof (induction xs arbitrary: ys)
  case Nil
  then show ?case by (cases ys) auto
next
  case (Cons x xs)
  then show ?case by (cases ys) auto
qed

lemma not_digit: "\<not> digit (CHR '','')" "\<not> digit (CHR ''-'')"
  by (auto simp: digit_def hex_digit_def lessThan_Suc eval_nat_numeral)

lemma decimal_prefix: "decimal m @ CHR '','' # u = decimal n @ CHR '','' # v \<longleftrightarrow> m = n \<and> u = v"
  using decimal_inj by (subst digit_prefix) (auto simp: not_digit decimal_digits)

lemma decimal_unsigned: "decimal n @ u \<noteq> CHR ''-'' # v"
proof
  assume eq: "decimal n @ u = CHR ''-'' # v"
  have "decimal n \<noteq> []" by (subst decimal.simps) simp
  with eq have "CHR ''-'' \<in> set (decimal n)" by (cases "decimal n") auto
  then show False using decimal_digits not_digit by blast
qed

lemma dumps_int_prefix [simp]:
  "dumps_int i @ CHR '','' # u = dumps_int j @ CHR '','' # v \<longleftrightarrow> i = j \<and> u = v"
  using decimal_unsigned by (auto simp: dumps_int_def decimal_prefix dest: sym)

lemma sorted_fields:
  "sort_key fst (asdict k) =
     [(''agent_name'', FStr (agent_name k)), (''approval_mode'', FStr (approval_mode k)),
      (''autoapprove_set_hash'', FStr (autoapprove_set_hash k)),
      (''binary_version'', FStr (binary_version k)),
      (''command_args_hash'', FStr (command_args_hash k)),
      (''config_snapshot_hash'', FStr (config_snapshot_hash k)),
      (''effective_env_hash'', FStr (effective_env_hash k)), (''os_uid'', FInt (os_uid k)),
      (''sandbox_mode'', FStr (sandbox_mode k)), (''server_name'', FStr (server_name k)),
      (''trust_all_tools'', FBool (trust_all_tools k)), (''work_dir'', FStr (work_dir k))]"
  by (simp add: asdict_def sort_key_simps insort_key.simps)

lemma dumps_str_inj [simp]: "dumps_str s = dumps_str t \<longleftrightarrow> s = t"
  using dumps_str_prefix [of s "[]" t "[]"] by simp

lemma pool_payload_inj: "pool_payload k = pool_payload k' \<longleftrightarrow> k = k'"
  by (auto simp: pool_payload_def dumps_obj_def sorted_fields intro: pool_key.equality split: if_splits)

lemma stable_hash_inj:
  "inj_on sha (pool_payload ` K) \<Longrightarrow> k \<in> K \<Longrightarrow> k' \<in> K \<Longrightarrow>
     stable_hash sha k = stable_hash sha k' \<longleftrightarrow> k = k'"
  by (auto simp: stable_hash_def pool_payload_inj dest: inj_onD)

section \<open>The sharing boundary of registrations\<close>

text \<open>What one field of a Register payload contributes: the two typed dimensions count as they
  are, the others through \<open>str()\<close>.\<close>

definition dimension :: "(json \<Rightarrow> string) \<Rightarrow> jobj \<Rightarrow> string \<Rightarrow> json + string" where
  "dimension rep register f =
     (if f \<in> {''os_uid'', ''trust_all_tools''} then Inl (jget register f)
      else Inr (py_str rep (jget register f)))"

lemma as_int_Some [simp]: "as_int v = Some n \<longleftrightarrow> v = JInt n"
  by (cases v) auto

lemma as_bool_Some [simp]: "as_bool v = Some b \<longleftrightarrow> v = JBool b"
  by (cases v) auto

lemma from_register_dimensions:
  assumes "from_register rep r1 = Inr k1" "from_register rep r2 = Inr k2"
  shows "k1 = k2 \<longleftrightarrow> list_all (\<lambda>f. dimension rep r1 f = dimension rep r2 f) POOL_KEY_FIELDS"
  using assms
  by (auto simp: from_register_def Let_def dimension_def POOL_KEY_FIELDS_def
      split: if_splits option.splits)

text \<open>Two registrations that are accepted share a pool digest exactly when all twelve
  dimensions of their payloads coincide, provided the hash does not collide on their two
  canonical texts; whatever else a payload carries (a channel, a user identity) plays no part.\<close>

theorem registrations_share_only_when_equal:
  assumes "from_register rep r1 = Inr k1" "from_register rep r2 = Inr k2"
    and "inj_on sha {pool_payload k1, pool_payload k2}"
  shows "stable_hash sha k1 = stable_hash sha k2 \<longleftrightarrow>
         list_all (\<lambda>f. dimension rep r1 f = dimension rep r2 f) POOL_KEY_FIELDS"
  using from_register_dimensions [OF assms(1,2)] stable_hash_inj [of sha "{k1, k2}" k1 k2] assms(3)
  by simp

definition sample_register :: "string \<Rightarrow> json \<Rightarrow> jobj" where
  "sample_register mode trust = [(''server_name'', JStr ''fs''), (''agent_name'', JStr ''dev''),
     (''command_args_hash'', JStr ''c0''), (''effective_env_hash'', JStr ''e0''),
     (''work_dir'', JStr ''/w''), (''binary_version'', JStr ''1''), (''os_uid'', JInt 1000),
     (''sandbox_mode'', JStr mode), (''autoapprove_set_hash'', JStr ''a0''),
     (''approval_mode'', JStr ''ask''), (''trust_all_tools'', trust),
     (''config_snapshot_hash'', JStr ''s0''), (''channel_id'', JStr mode)]"

definition sample_key :: "string \<Rightarrow> pool_key" where
  "sample_key mode = \<lparr>server_name = ''fs'', agent_name = ''dev'', command_args_hash = ''c0'',
     effective_env_hash = ''e0'', work_dir = ''/w'', binary_version = ''1'', os_uid = 1000,
     sandbox_mode = mode, autoapprove_set_hash = ''a0'', approval_mode = ''ask'',
     trust_all_tools = False, config_snapshot_hash = ''s0''\<rparr>"

lemma sample_register_key:
  "from_register rep (sample_register mode (JBool False)) = Inr (sample_key mode)"
  by (simp add: from_register_def POOL_KEY_FIELDS_def sample_register_def sample_key_def jhas_def
      jget_def dict_get_default_def)

lemma registrations_share_only_when_equal_witness:
  "stable_hash (\<lambda>s. s) (sample_key ''off'') \<noteq> stable_hash (\<lambda>s. s) (sample_key ''strict'') \<and>
   from_register (\<lambda>_. []) (sample_register ''off'' (JInt 1)) = Inl ValueError"
proof
  have "\<not> list_all (\<lambda>f. dimension (\<lambda>_. []) (sample_register ''off'' (JBool False)) f =
      dimension (\<lambda>_. []) (sample_register ''strict'' (JBool False)) f) POOL_KEY_FIELDS"
    by (simp add: dimension_def POOL_KEY_FIELDS_def sample_register_def jget_def dict_get_default_def)
  then show "stable_hash (\<lambda>s. s) (sample_key ''off'') \<noteq> stable_hash (\<lambda>s. s) (sample_key ''strict'')"
    using registrations_share_only_when_equal
      [where sha = "\<lambda>s. s", OF sample_register_key [where rep = "\<lambda>_. []"] sample_register_key]
    by simp
  show "from_register (\<lambda>_. []) (sample_register ''off'' (JInt 1)) = Inl ValueError"
    by (simp add: from_register_def POOL_KEY_FIELDS_def sample_register_def jhas_def
        jget_def dict_get_default_def)
qed

end
