(* ===== verification/Breaker.thy ===== *)
theory Breaker
  imports Prelude
begin

text \<open>
  The circuit breaker of the MCP gateway (\<open>mcp_gateway/breaker.py\<close>): one bookkeeping
  record per key in a dictionary, a sliding window of fast deaths, an OPEN state with a
  cooldown, and the pruning that bounds the dictionary.

  Clock readings and durations are rationals; each operation takes the reading of
  \<open>now_fn\<close> it makes as an argument. A reference breaker for a single key
  (\<open>key_step\<close>) gives the meaning of a trace of events, and the dictionary version is
  shown to implement it for every key as long as no key has to be evicted.
\<close>

section \<open>State and operations\<close>

definition FAST_DEATH_THRESHOLD_SECS :: rat where "FAST_DEATH_THRESHOLD_SECS = 5"
definition FAST_DEATH_LIMIT :: int where "FAST_DEATH_LIMIT = 5"
definition WINDOW_SECS :: rat where "WINDOW_SECS = 60"
definition MAX_TRACKED_KEYS :: nat where "MAX_TRACKED_KEYS = 512"
definition OPEN_COOLDOWN_SECS :: rat where "OPEN_COOLDOWN_SECS = 60"

record key_state =
  deaths :: "rat list"
  opened_at :: "rat option"

record tunables =
  fast_threshold :: rat
  fast_limit :: int
  window :: rat
  cooldown :: rat

type_synonym tracked = "(string, key_state) dict"

text \<open>The constructor: the four guards in their order.\<close>

definition CircuitBreaker :: "tunables \<Rightarrow> (tunables \<times> tracked) res" where
  "CircuitBreaker cfg =
     rbind (ensure (1 \<le> fast_limit cfg) ValueError) (\<lambda>_.
     rbind (ensure (0 < fast_threshold cfg) ValueError) (\<lambda>_.
     rbind (ensure (0 < window cfg) ValueError) (\<lambda>_.
     rbind (ensure (0 < cooldown cfg) ValueError) (\<lambda>_.
       Inr (cfg, [])))))"

definition default_tunables :: tunables where
  "default_tunables = \<lparr>fast_threshold = FAST_DEATH_THRESHOLD_SECS, fast_limit = FAST_DEATH_LIMIT,
     window = WINDOW_SECS, cooldown = OPEN_COOLDOWN_SECS\<rparr>"

definition fresh_state :: key_state where
  "fresh_state = \<lparr>deaths = [], opened_at = None\<rparr>"

text \<open>What one fast death does to the record of its key.\<close>

definition count_death :: "tunables \<Rightarrow> rat \<Rightarrow> key_state \<Rightarrow> key_state" where
  "count_death cfg now s =
     (let ds = filter (\<lambda>t. t \<ge> now - window cfg) (deaths s) @ [now]
      in \<lparr>deaths = ds,
          opened_at = (if opened_at s = None \<and> int (length ds) \<ge> fast_limit cfg then Some now
                       else opened_at s)\<rparr>)"

text \<open>\<open>_prune\<close>: first the inactive keys, then OPEN keys from the oldest while over the cap.\<close>

definition inactive :: "rat \<Rightarrow> key_state \<Rightarrow> bool" where
  "inactive cutoff s \<longleftrightarrow> opened_at s = None \<and> list_all (\<lambda>t. t < cutoff) (deaths s)"

definition evict :: "string \<Rightarrow> tracked \<Rightarrow> tracked" where
  "evict k d = (if length d \<le> MAX_TRACKED_KEYS then d else dict_del k d)"

definition oldest_open :: "tracked \<Rightarrow> string list" where
  "oldest_open d = map fst (sort_key (\<lambda>(k, s). case opened_at s of None \<Rightarrow> 0 | Some t \<Rightarrow> t)
     (filter (\<lambda>(k, s). opened_at s \<noteq> None) d))"

definition prune :: "tunables \<Rightarrow> rat \<Rightarrow> tracked \<Rightarrow> tracked" where
  "prune cfg now d =
     (let d = filter (\<lambda>(k, s). \<not> inactive (now - window cfg) s) d
      in if length d \<le> MAX_TRACKED_KEYS then d else fold evict (oldest_open d) d)"

definition record_death :: "tunables \<Rightarrow> string \<Rightarrow> rat \<Rightarrow> rat \<Rightarrow> tracked \<Rightarrow> tracked" where
  "record_death cfg key uptime now d =
     (if uptime \<ge> fast_threshold cfg then d
      else let d = dict_set key (count_death cfg now (dict_get_default d key fresh_state)) d
           in if length d > MAX_TRACKED_KEYS then prune cfg now d else d)"

definition record_healthy :: "string \<Rightarrow> tracked \<Rightarrow> tracked" where
  "record_healthy key d = (case dict_get d key of None \<Rightarrow> d | Some _ \<Rightarrow> dict_del key d)"

definition allow :: "tunables \<Rightarrow> string \<Rightarrow> rat \<Rightarrow> tracked \<Rightarrow> bool \<times> tracked" where
  "allow cfg key now d =
     (case dict_get d key of
        None \<Rightarrow> (True, d)
      | Some s \<Rightarrow> (case opened_at s of
            None \<Rightarrow> (True, d)
          | Some t \<Rightarrow> if now - t \<ge> cooldown cfg then (True, dict_del key d) else (False, d)))"

section \<open>The reference breaker of one key\<close>

datatype event = Died string rat rat | Survived string | Probed string rat

fun event_key :: "event \<Rightarrow> string" where
  "event_key (Died k u t) = k"
| "event_key (Survived k) = k"
| "event_key (Probed k t) = k"

fun key_step :: "tunables \<Rightarrow> event \<Rightarrow> key_state option \<Rightarrow> key_state option" where
  "key_step cfg (Died k u t) s =
     (if u \<ge> fast_threshold cfg then s
      else Some (count_death cfg t (case s of None \<Rightarrow> fresh_state | Some s \<Rightarrow> s)))"
| "key_step cfg (Survived k) s = None"
| "key_step cfg (Probed k t) s =
     (case s of None \<Rightarrow> None
      | Some st \<Rightarrow> (case opened_at st of
            None \<Rightarrow> Some st
          | Some o1 \<Rightarrow> if t - o1 \<ge> cooldown cfg then None else Some st))"

fun apply_event :: "tunables \<Rightarrow> event \<Rightarrow> tracked \<Rightarrow> tracked" where
  "apply_event cfg (Died k u t) d = record_death cfg k u t d"
| "apply_event cfg (Survived k) d = record_healthy k d"
| "apply_event cfg (Probed k t) d = snd (allow cfg k t d)"

definition run_events :: "tunables \<Rightarrow> event list \<Rightarrow> tracked" where
  "run_events cfg evs = fold (apply_event cfg) evs []"

section \<open>The dictionary\<close>

lemma evict_sublist: "fst ` set (evict k d) \<subseteq> fst ` set d" "dict_wf d \<Longrightarrow> dict_wf (evict k d)"
  by (auto simp: evict_def dict_keys_del)

lemma fold_evict_wf: "dict_wf d \<Longrightarrow> dict_wf (fold evict ks d)"
  by (induction ks arbitrary: d) (auto simp: evict_sublist)

lemma dict_wf_filter: "dict_wf d \<Longrightarrow> dict_wf (filter P d)"
  by (rule distinct_map_filter)

lemma prune_wf: "dict_wf d \<Longrightarrow> dict_wf (prune cfg now d)"
  by (simp add: prune_def Let_def fold_evict_wf dict_wf_filter)

lemma apply_event_wf: "dict_wf d \<Longrightarrow> dict_wf (apply_event cfg e d)"
  by (cases e)
     (auto simp: record_death_def Let_def prune_wf record_healthy_def allow_def split: option.splits)

lemma run_events_wf: "dict_wf (run_events cfg evs)"
proof -
  have "dict_wf (fold (apply_event cfg) evs d)" if "dict_wf d" for d
    using that by (induction evs arbitrary: d) (auto simp: apply_event_wf)
  then show ?thesis by (simp add: run_events_def)
qed

text \<open>With room for the event's key, an event changes only the record of its own key.\<close>

definition has_room :: "string \<Rightarrow> tracked \<Rightarrow> bool" where
  "has_room k d \<longleftrightarrow> (if k \<in> fst ` set d then length d else Suc (length d)) \<le> MAX_TRACKED_KEYS"

lemma record_death_room:
  assumes "has_room k d"
  shows "record_death cfg k u t d =
    (if u \<ge> fast_threshold cfg then d
     else dict_set k (count_death cfg t (dict_get_default d k fresh_state)) d)"
proof -
  have "\<not> length (dict_set k s d) > MAX_TRACKED_KEYS" for s
    using assms unfolding has_room_def length_dict_set by simp
  then show ?thesis unfolding record_death_def Let_def by simp
qed

lemma apply_event_get:
  assumes "has_room (event_key e) d"
  shows "dict_get (apply_event cfg e d) k' =
         (if k' = event_key e then key_step cfg e (dict_get d k') else dict_get d k')"
proof (cases e)
  case (Died k u t)
  with assms have r: "has_room k d" by simp
  show ?thesis
    by (simp add: Died record_death_room [OF r] dict_get_default_def)
next
  case (Survived k)
  then show ?thesis by (simp add: record_healthy_def split: option.split)
next
  case (Probed k t)
  then show ?thesis by (simp add: allow_def split: option.split)
qed

lemma fold_evict_keys: "fst ` set (fold evict ks d) \<subseteq> fst ` set d"
proof (induction ks arbitrary: d)
  case (Cons k ks)
  show ?case
    using Cons.IH [of "evict k d"] evict_sublist(1) [of k d] by simp
qed simp

definition active :: "tunables \<Rightarrow> rat \<Rightarrow> tracked \<Rightarrow> tracked" where
  "active cfg now d = filter (\<lambda>(k, s). \<not> inactive (now - window cfg) s) d"

lemma prune_eq:
  "prune cfg now d = (if length (active cfg now d) \<le> MAX_TRACKED_KEYS then active cfg now d
     else fold evict (oldest_open (active cfg now d)) (active cfg now d))"
  by (simp only: prune_def Let_def active_def)

lemma active_keys: "fst ` set (active cfg now d) \<subseteq> fst ` set d"
  unfolding active_def by (intro image_mono) simp

lemma prune_keys: "fst ` set (prune cfg now d) \<subseteq> fst ` set d"
proof (cases "length (active cfg now d) \<le> MAX_TRACKED_KEYS")
  case True
  then show ?thesis using active_keys by (simp only: prune_eq if_True)
next
  case False
  then show ?thesis
    using subset_trans [OF fold_evict_keys active_keys] by (simp only: prune_eq if_False)
qed

lemma record_death_keys: "fst ` set (record_death cfg k u t d) \<subseteq> insert k (fst ` set d)"
  using prune_keys [of cfg t "dict_set k (count_death cfg t (dict_get_default d k fresh_state)) d"]
  unfolding record_death_def Let_def dict_keys_set
  by (simp add: dict_keys_set subset_insertI split: if_split)

lemma apply_event_keys: "fst ` set (apply_event cfg e d) \<subseteq> insert (event_key e) (fst ` set d)"
proof (cases e)
  case (Died k u t)
  then show ?thesis using record_death_keys by simp
next
  case (Survived k)
  then show ?thesis by (auto simp: record_healthy_def dict_keys_del split: option.split)
next
  case (Probed k t)
  then show ?thesis by (auto simp: allow_def dict_keys_del split: option.split)
qed

section \<open>Isolation of keys\<close>

lemma fold_keys: "fst ` set (fold (apply_event cfg) evs d) \<subseteq> event_key ` set evs \<union> fst ` set d"
proof (induction evs arbitrary: d)
  case (Cons e evs)
  show ?case using Cons.IH [of "apply_event cfg e d"] apply_event_keys [of cfg e d] by auto
qed simp

lemma fold_wf: "dict_wf d \<Longrightarrow> dict_wf (fold (apply_event cfg) evs d)"
  by (induction evs arbitrary: d) (simp_all add: apply_event_wf)

lemma room_by_card:
  assumes "dict_wf d" and "insert k (fst ` set d) \<subseteq> K" and "finite K" and "card K \<le> MAX_TRACKED_KEYS"
  shows "has_room k d"
proof -
  have "card (fst ` set d) = length d" using distinct_card [OF assms(1)] by simp
  moreover have "card (insert k (fst ` set d)) \<le> card K" using assms(2,3) by (rule card_mono [rotated])
  ultimately show ?thesis using assms(4) by (auto simp: has_room_def card_insert_if split: if_splits)
qed

lemma fold_get:
  assumes "dict_wf d" and "card (event_key ` set evs \<union> fst ` set d) \<le> MAX_TRACKED_KEYS"
  shows "dict_get (fold (apply_event cfg) evs d) k =
         fold (key_step cfg) (filter (\<lambda>e. event_key e = k) evs) (dict_get d k)"
  using assms
proof (induction evs arbitrary: d)
  case Nil
  show ?case by simp
next
  case (Cons e evs)
  let ?d = "apply_event cfg e d"
  have room: "has_room (event_key e) d"
    by (rule room_by_card [OF Cons.prems(1) _ _ Cons.prems(2)]) auto
  have "card (event_key ` set evs \<union> fst ` set ?d) \<le> card (event_key ` set (e # evs) \<union> fst ` set d)"
    by (rule card_mono) (use apply_event_keys [of cfg e d] in auto)
  with Cons.prems have "dict_get (fold (apply_event cfg) evs ?d) k =
      fold (key_step cfg) (filter (\<lambda>e. event_key e = k) evs) (dict_get ?d k)"
    by (intro Cons.IH) (simp_all add: apply_event_wf)
  with apply_event_get [OF room, of cfg k] show ?case by simp
qed

text \<open>C40. Keys are isolated: as long as a trace names no more keys than the breaker tracks, the
  record of a key is the one a breaker that saw only this key's events would hold, so a
  crashing server never opens the breaker of another one.\<close>

theorem breaker_isolates_keys:
  assumes "card (event_key ` set evs) \<le> MAX_TRACKED_KEYS"
  shows "dict_get (run_events cfg evs) k =
         fold (key_step cfg) (filter (\<lambda>e. event_key e = k) evs) None"
  using fold_get [of "[]" evs cfg k] assms by (simp add: run_events_def)

definition sample_trace :: "event list" where
  "sample_trace = [Died ''a'' 1 10, Died ''b'' 9 11, Died ''a'' 2 12, Probed ''a'' 13]"

lemma breaker_isolates_keys_witness:
  "dict_get (run_events default_tunables sample_trace) ''a'' =
     fold (key_step default_tunables) [Died ''a'' 1 10, Died ''a'' 2 12, Probed ''a'' 13] None \<and>
   dict_get (run_events default_tunables sample_trace) ''b'' = None"
proof
  have c: "card (event_key ` set sample_trace) \<le> MAX_TRACKED_KEYS" by code_simp
  have "filter (\<lambda>e. event_key e = ''a'') sample_trace = [Died ''a'' 1 10, Died ''a'' 2 12, Probed ''a'' 13]"
    by (simp add: sample_trace_def)
  with breaker_isolates_keys [OF c, of default_tunables "''a''"]
  show "dict_get (run_events default_tunables sample_trace) ''a'' =
      fold (key_step default_tunables) [Died ''a'' 1 10, Died ''a'' 2 12, Probed ''a'' 13] None"
    by (simp only:)
  have "fold (key_step default_tunables) (filter (\<lambda>e. event_key e = ''b'') sample_trace) None = None"
    by code_simp
  with breaker_isolates_keys [OF c, of default_tunables "''b''"]
  show "dict_get (run_events default_tunables sample_trace) ''b'' = None" by (simp only:)
qed

section \<open>Opening and the cooldown\<close>

text \<open>
  The state of a key while deaths from \<open>t0\<close> on are counted: open since then, or closed with
  at least \<open>n\<close> of them recorded, fewer than the limit in all.
\<close>

definition counting :: "tunables \<Rightarrow> rat \<Rightarrow> rat \<Rightarrow> nat \<Rightarrow> key_state \<Rightarrow> bool" where
  "counting cfg t0 t1 n s \<longleftrightarrow>
     (case opened_at s of
        Some o1 \<Rightarrow> t0 \<le> o1 \<and> o1 \<le> t1
      | None \<Rightarrow> n \<le> length (filter (\<lambda>t. t0 \<le> t) (deaths s)) \<and>
                (0 < n \<longrightarrow> int (length (deaths s)) < fast_limit cfg))"

lemma count_death_counting:
  assumes "counting cfg t0 t1 n s" and "t0 \<le> t" "t \<le> t1" "t1 - t0 \<le> window cfg"
  shows "counting cfg t0 t1 (Suc n) (count_death cfg t s)"
proof (cases "opened_at s")
  case (Some o1)
  with assms(1) show ?thesis by (simp add: counting_def count_death_def Let_def)
next
  case None
  have "(t0 \<le> x \<and> t - window cfg \<le> x) = (t0 \<le> x)" for x using assms(2-4) by auto
  with None assms show ?thesis
    by (simp add: counting_def count_death_def Let_def conj_commute)
qed

lemma fold_count_death:
  assumes "counting cfg t0 t1 n s" and "list_all (\<lambda>t. t0 \<le> t \<and> t \<le> t1) ts" "t1 - t0 \<le> window cfg"
  shows "counting cfg t0 t1 (n + length ts) (fold (count_death cfg) ts s)"
  using assms(1,2)
proof (induction ts arbitrary: n s)
  case (Cons t ts)
  have "counting cfg t0 t1 (Suc n) (count_death cfg t s)"
    using Cons.prems assms(3) by (intro count_death_counting) simp_all
  from Cons.IH [OF this] Cons.prems(2) show ?case by simp
qed simp

definition die_all :: "tunables \<Rightarrow> string \<Rightarrow> (rat \<times> rat) list \<Rightarrow> tracked \<Rightarrow> tracked" where
  "die_all cfg k ds = fold (\<lambda>(u, t). record_death cfg k u t) ds"

lemma has_room_set: "has_room k d \<Longrightarrow> has_room k (dict_set k s d)"
  unfolding has_room_def length_dict_set dict_keys_set by auto

lemma die_all_get:
  assumes "has_room k d" and "list_all (\<lambda>(u, t). u < fast_threshold cfg) ds" and "ds \<noteq> []"
  shows "dict_get (die_all cfg k ds d) k =
         Some (fold (count_death cfg) (map snd ds) (dict_get_default d k fresh_state))"
  using assms
proof (induction ds arbitrary: d)
  case (Cons p ds)
  obtain u t where p: "p = (u, t)" by (cases p)
  let ?s = "count_death cfg t (dict_get_default d k fresh_state)"
  have one: "record_death cfg k u t d = dict_set k ?s d"
    using record_death_room [OF Cons.prems(1)] Cons.prems(2) p by simp
  have d: "die_all cfg k (p # ds) d = die_all cfg k ds (dict_set k ?s d)"
    by (simp add: die_all_def p one)
  show ?case
  proof (cases "ds = []")
    case True
    then show ?thesis unfolding d by (simp add: die_all_def p)
  next
    case False
    have "dict_get (die_all cfg k ds (dict_set k ?s d)) k =
          Some (fold (count_death cfg) (map snd ds) (dict_get_default (dict_set k ?s d) k fresh_state))"
      using Cons.prems False by (intro Cons.IH) (simp_all add: has_room_set)
    then show ?thesis unfolding d by (simp add: p dict_get_default_def)
  qed
qed simp

definition is_open :: "tracked \<Rightarrow> string \<Rightarrow> bool" where
  "is_open d k \<longleftrightarrow> (case dict_get d k of None \<Rightarrow> False | Some s \<Rightarrow> opened_at s \<noteq> None)"

text \<open>A crash loop trips the breaker: once a closed key has seen the limit of fast deaths
  within one window, spawns are refused, from a moment inside that window until exactly the
  cooldown later.\<close>

theorem crash_loop_opens_the_breaker:
  assumes "1 \<le> fast_limit cfg" and "has_room k d" and "\<not> is_open d k"
    and "list_all (\<lambda>(u, t). u < fast_threshold cfg \<and> t0 \<le> t \<and> t \<le> t1) ds"
    and "t1 - t0 \<le> window cfg" and "fast_limit cfg \<le> int (length ds)"
  shows "\<exists>since. t0 \<le> since \<and> since \<le> t1 \<and>
           (\<forall>now. fst (allow cfg k now (die_all cfg k ds d)) = (cooldown cfg \<le> now - since))"
proof -
  let ?s = "fold (count_death cfg) (map snd ds) (dict_get_default d k fresh_state)"
  from assms(1,6) have ne: "ds \<noteq> []" by auto
  have fast: "list_all (\<lambda>(u, t). u < fast_threshold cfg) ds"
    and times: "list_all (\<lambda>t. t0 \<le> t \<and> t \<le> t1) (map snd ds)"
    using assms(4) by (auto simp: list_all_iff)
  have "opened_at (dict_get_default d k fresh_state) = None"
    using assms(3) by (simp add: is_open_def dict_get_default_def fresh_state_def split: option.splits)
  then have "counting cfg t0 t1 0 (dict_get_default d k fresh_state)" by (simp add: counting_def)
  from fold_count_death [OF this times assms(5)]
  have c: "counting cfg t0 t1 (length ds) ?s" by simp
  have "opened_at ?s \<noteq> None"
  proof
    assume "opened_at ?s = None"
    with c ne have "length ds \<le> length (deaths ?s)" "int (length (deaths ?s)) < fast_limit cfg"
      by (simp_all add: counting_def) (meson dual_order.trans length_filter_le)
    with assms(6) show False by simp
  qed
  then obtain o1 where o1: "opened_at ?s = Some o1" by blast
  with c have "t0 \<le> o1" "o1 \<le> t1" by (simp_all add: counting_def)
  moreover have "fst (allow cfg k now (die_all cfg k ds d)) = (cooldown cfg \<le> now - o1)" for now
    using die_all_get [OF assms(2) fast ne] o1 by (simp add: allow_def)
  ultimately show ?thesis by blast
qed

lemma crash_loop_opens_the_breaker_witness:
  "\<exists>since. 10 \<le> since \<and> since \<le> (18 :: rat) \<and>
     (\<forall>now. fst (allow default_tunables ''srv'' now
        (die_all default_tunables ''srv'' [(1, 10), (1, 12), (0, 14), (2, 16), (1, 18)] [])) =
        (60 \<le> now - since))"
  using crash_loop_opens_the_breaker [of default_tunables "''srv''" "[]" 10 18
      "[(1, 10), (1, 12), (0, 14), (2, 16), (1, 18)]"]
  by (simp add: default_tunables_def FAST_DEATH_LIMIT_def FAST_DEATH_THRESHOLD_SECS_def
      WINDOW_SECS_def OPEN_COOLDOWN_SECS_def has_room_def MAX_TRACKED_KEYS_def is_open_def)

lemma key_steps_keep_open:
  assumes "opened_at s = Some o1"
    and "list_all (\<lambda>e. e \<noteq> Survived k \<and> (\<forall>t. e = Probed k t \<longrightarrow> t - o1 < cooldown cfg)) evs"
    and "list_all (\<lambda>e. event_key e = k) evs"
  shows "\<exists>s'. fold (key_step cfg) evs (Some s) = Some s' \<and> opened_at s' = Some o1"
  using assms
proof (induction evs arbitrary: s)
  case (Cons e evs)
  have "\<exists>s1. key_step cfg e (Some s) = Some s1 \<and> opened_at s1 = Some o1"
    using Cons.prems by (cases e) (auto simp: count_death_def Let_def not_le)
  then obtain s1 where "key_step cfg e (Some s) = Some s1" "opened_at s1 = Some o1" by blast
  with Cons.IH [of s1] Cons.prems show ?case by simp
qed simp

text \<open>The cooldown is neither extended nor cut short: while no backend of the key reports
  healthy and no probe comes after the cooldown, any further deaths and any events of other
  keys leave the moment of opening unchanged, and a probe is refused until exactly the
  cooldown after it; that probe forgets the key.\<close>

theorem open_breaker_keeps_its_cooldown:
  assumes "dict_wf d" and "card (event_key ` set evs \<union> fst ` set d) \<le> MAX_TRACKED_KEYS"
    and "dict_get d k = Some s" and "opened_at s = Some since"
    and "list_all (\<lambda>e. e \<noteq> Survived k \<and> (\<forall>t. e = Probed k t \<longrightarrow> t - since < cooldown cfg)) evs"
  shows "fst (allow cfg k now (fold (apply_event cfg) evs d)) = (cooldown cfg \<le> now - since) \<and>
    (dict_get (snd (allow cfg k now (fold (apply_event cfg) evs d))) k = None \<longleftrightarrow>
         cooldown cfg \<le> now - since)"
proof -
  have "list_all (\<lambda>e. e \<noteq> Survived k \<and> (\<forall>t. e = Probed k t \<longrightarrow> t - since < cooldown cfg))
          (filter (\<lambda>e. event_key e = k) evs)"
    using assms(5) by (auto simp: list_all_iff)
  then have "\<exists>s'. fold (key_step cfg) (filter (\<lambda>e. event_key e = k) evs) (Some s) = Some s' \<and>
      opened_at s' = Some since"
    by (intro key_steps_keep_open assms(4)) (auto simp: list_all_iff)
  then obtain s' where s': "dict_get (fold (apply_event cfg) evs d) k = Some s'" "opened_at s' = Some since"
    using fold_get [OF assms(1,2), of cfg k] assms(3) by auto
  then show ?thesis by (simp add: allow_def)
qed

definition opened_sample :: tracked where
  "opened_sample = [(''a'', \<lparr>deaths = [1, 2, 3, 4, 5], opened_at = Some 5\<rparr>)]"

lemma open_breaker_keeps_its_cooldown_witness:
  "\<not> fst (allow default_tunables ''a'' 64 (fold (apply_event default_tunables)
      [Died ''a'' 1 30, Survived ''b'', Probed ''a'' 40, Died ''a'' 2 50] opened_sample))"
proof -
  have c: "card (event_key ` set [Died ''a'' 1 30, Survived ''b'', Probed ''a'' 40, Died ''a'' 2 50]
      \<union> fst ` set opened_sample) \<le> MAX_TRACKED_KEYS" by code_simp
  have "dict_wf opened_sample" by (simp add: opened_sample_def)
  then show ?thesis
    using open_breaker_keeps_its_cooldown [OF _ c, of "''a''" "\<lparr>deaths = [1, 2, 3, 4, 5], opened_at = Some 5\<rparr>" 5
        default_tunables 64]
    by (simp add: opened_sample_def default_tunables_def OPEN_COOLDOWN_SECS_def)
qed

section \<open>The bound on tracked keys\<close>

lemma fold_evict_result:
  "length (fold evict ks d) \<le> MAX_TRACKED_KEYS \<or>
   fold evict ks d = filter (\<lambda>p. fst p \<notin> set ks) d"
proof (induction ks arbitrary: d)
  case (Cons k ks)
  show ?case
  proof (cases "length d \<le> MAX_TRACKED_KEYS")
    case True
    then have "length (fold evict ks d) \<le> MAX_TRACKED_KEYS" for ks
      by (induction ks) (simp_all add: evict_def)
    then show ?thesis by blast
  next
    case False
    then have "evict k d = filter (\<lambda>p. fst p \<noteq> k) d"
      by (auto simp: evict_def AList.delete_eq intro: filter_cong)
    with Cons.IH [of "evict k d"] show ?thesis by (simp add: conj_commute)
  qed
qed simp

lemma set_oldest_open: "set (oldest_open d) = {k. \<exists>s. (k, s) \<in> set d \<and> opened_at s \<noteq> None}"
  by (force simp: oldest_open_def)

text \<open>A record no pruning may drop: closed, with a death inside the window.\<close>

definition busy :: "tunables \<Rightarrow> rat \<Rightarrow> key_state \<Rightarrow> bool" where
  "busy cfg now s \<longleftrightarrow> opened_at s = None \<and> (\<exists>t \<in> set (deaths s). now - window cfg \<le> t)"

lemma prune_leaves_busy:
  assumes "dict_wf d"
  shows "length (prune cfg now d) \<le> MAX_TRACKED_KEYS \<or> list_all (\<lambda>(k, s). busy cfg now s) (prune cfg now d)"
proof (cases "length (active cfg now d) \<le> MAX_TRACKED_KEYS")
  case True
  then show ?thesis by (simp add: prune_eq)
next
  case False
  let ?a = "active cfg now d"
  have wf: "dict_wf ?a" unfolding active_def using assms by (rule dict_wf_filter)
  have keep: "busy cfg now s" if p: "(k, s) \<in> set ?a" "k \<notin> set (oldest_open ?a)" for k s
  proof -
    have "opened_at s = None" using p unfolding set_oldest_open by blast
    moreover have "\<not> inactive (now - window cfg) s" using p(1) by (simp add: active_def)
    ultimately show ?thesis by (auto simp: inactive_def busy_def list_all_iff not_less)
  qed
  from fold_evict_result [of "oldest_open ?a" ?a] show ?thesis
  proof
    assume "length (fold evict (oldest_open ?a) ?a) \<le> MAX_TRACKED_KEYS"
    then show ?thesis using False by (simp add: prune_eq)
  next
    assume "fold evict (oldest_open ?a) ?a = filter (\<lambda>p. fst p \<notin> set (oldest_open ?a)) ?a"
    then have "prune cfg now d = filter (\<lambda>p. fst p \<notin> set (oldest_open ?a)) ?a"
      using False by (simp add: prune_eq)
    then show ?thesis using keep by (auto simp: list_all_iff)
  qed
qed

text \<open>The dictionary stays within its cap except for keys that are closed and died fast
  within the window: whatever a counted death leaves over the cap consists of such keys only.\<close>

theorem tracked_keys_are_bounded:
  assumes "dict_wf d" and "uptime < fast_threshold cfg"
  shows "length (record_death cfg key uptime now d) \<le> MAX_TRACKED_KEYS \<or>
         list_all (\<lambda>(k, s). busy cfg now s) (record_death cfg key uptime now d)"
proof -
  let ?d = "dict_set key (count_death cfg now (dict_get_default d key fresh_state)) d"
  have "record_death cfg key uptime now d = (if length ?d > MAX_TRACKED_KEYS then prune cfg now ?d else ?d)"
    using assms(2) by (simp only: record_death_def Let_def not_le [symmetric] if_False simp_thms)
  moreover have "dict_wf ?d" using assms(1) by simp
  ultimately show ?thesis using prune_leaves_busy [of ?d cfg now] by (metis not_less)
qed

lemma tracked_keys_are_bounded_witness:
  "length (record_death default_tunables ''b'' 1 20 opened_sample) \<le> MAX_TRACKED_KEYS \<or>
   list_all (\<lambda>(k, s). busy default_tunables 20 s) (record_death default_tunables ''b'' 1 20 opened_sample)"
  using tracked_keys_are_bounded [of opened_sample 1 default_tunables "''b''" 20]
  by (simp add: opened_sample_def default_tunables_def FAST_DEATH_THRESHOLD_SECS_def)

text \<open>
  Such keys can crowd out the very state the breaker exists for: when they fill the cap, the
  key whose death trips the breaker is the only OPEN one, and its own pruning evicts it.
\<close>

definition crowded :: "tunables \<Rightarrow> string \<Rightarrow> rat \<Rightarrow> tracked \<Rightarrow> bool" where
  "crowded cfg k now d \<longleftrightarrow> dict_wf d \<and> MAX_TRACKED_KEYS \<le> length (filter (\<lambda>p. fst p \<noteq> k) d) \<and>
     list_all (\<lambda>(k', s). busy cfg now s) (filter (\<lambda>p. fst p \<noteq> k) d)"

lemma crowded_prune:
  assumes "crowded cfg k now d" and "dict_get d k = Some s" and "opened_at s = None \<longrightarrow> now \<in> set (deaths s)"
    and "0 < window cfg"
  shows "dict_get (prune cfg now d) k = (if opened_at s = None then Some s else None)"
proof -
  have in_d: "(k, s) \<in> set d" using assms(2) by (rule dict_get_Some_in_set)
  have state: "k' \<noteq> k \<and> busy cfg now s' \<or> k' = k \<and> s' = s" if "(k', s') \<in> set d" for k' s'
    using that assms(1,2)
    by (cases "k' = k") (auto simp: crowded_def list_all_iff dict_get_eq_Some eq_key_imp_eq_value)
  have "\<not> inactive (now - window cfg) s'" if m: "(k', s') \<in> set d" for k' s'
  proof (cases "k' = k")
    case True
    with state [OF m] have "s' = s" by blast
    with assms(3,4) show ?thesis by (force simp: inactive_def list_all_iff)
  next
    case False
    with state [OF m] show ?thesis by (auto simp: busy_def inactive_def list_all_iff not_less)
  qed
  then have act: "active cfg now d = d" unfolding active_def by (intro filter_True) auto
  have "length (filter (\<lambda>p. fst p \<noteq> k) d) < length d"
    using in_d length_filter_less [of "(k, s)" d "\<lambda>p. fst p \<noteq> k"] by simp
  then have big: "\<not> length d \<le> MAX_TRACKED_KEYS" using assms(1) by (simp add: crowded_def)
  then have p: "prune cfg now d = fold evict (oldest_open d) d"
    unfolding prune_eq [of cfg now d] act by (simp only: if_False)
  have ks: "set (oldest_open d) = (if opened_at s = None then {} else {k})"
  proof -
    have o: "k' = k \<and> opened_at s \<noteq> None" if "k' \<in> set (oldest_open d)" for k'
    proof -
      from that obtain s' where "(k', s') \<in> set d" "opened_at s' \<noteq> None"
        unfolding set_oldest_open by blast
      with state [of k' s'] show ?thesis by (simp add: busy_def)
    qed
    show ?thesis
    proof (cases "opened_at s = None")
      case True
      have "set (oldest_open d) = {}"
      proof (rule equals0I)
        fix k' assume "k' \<in> set (oldest_open d)"
        from o [OF this] True show False by simp
      qed
      with True show ?thesis by simp
    next
      case False
      with in_d have "k \<in> set (oldest_open d)" unfolding set_oldest_open by blast
      then have "set (oldest_open d) = {k}" by (auto dest: o)
      with False show ?thesis by simp
    qed
  qed
  show ?thesis
  proof (cases "opened_at s = None")
    case True
    with ks p assms(2) show ?thesis by simp
  next
    case False
    with ks obtain ks' where "oldest_open d = k # ks'" by (cases "oldest_open d") auto
    then have "prune cfg now d = fold evict ks' (dict_del k d)" using p big by (simp add: evict_def)
    then have "k \<notin> fst ` set (prune cfg now d)"
      using fold_evict_keys [of ks' "dict_del k d"] by (auto simp: dict_keys_del)
    then have "dict_get (prune cfg now d) k = None" by (simp add: map_of_eq_None_iff)
    then show ?thesis by (simp only: if_not_P [OF False])
  qed
qed

lemma filter_other_set: "filter (\<lambda>p. fst p \<noteq> k) (dict_set k s d) = filter (\<lambda>p. fst p \<noteq> k) d"
  by (induction d) auto

text \<open>A crowded breaker never opens: when the cap is filled by other keys that are closed
  with a recent death, every fast death of a closed key leaves its spawns allowed, however
  many there were before.\<close>

theorem crowded_breaker_never_opens:
  assumes "crowded cfg k now d" and "\<not> is_open d k" and "uptime < fast_threshold cfg" "0 < window cfg"
  shows "fst (allow cfg k later (record_death cfg k uptime now d))"
proof -
  define s where "s = count_death cfg now (dict_get_default d k fresh_state)"
  let ?d = "dict_set k s d"
  have c: "crowded cfg k now ?d"
    using assms(1) by (simp add: crowded_def filter_other_set)
  have "(k, s) \<in> set ?d" by (rule dict_get_Some_in_set) simp
  then have "length (filter (\<lambda>p. fst p \<noteq> k) ?d) < length ?d"
    using length_filter_less [of "(k, s)" ?d "\<lambda>p. fst p \<noteq> k"] by simp
  then have "length ?d > MAX_TRACKED_KEYS" using c by (simp add: crowded_def)
  then have r: "record_death cfg k uptime now d = prune cfg now ?d"
    using assms(3) by (simp add: record_death_def Let_def s_def)
  have "now \<in> set (deaths s)" by (simp add: s_def count_death_def Let_def)
  then have "dict_get (prune cfg now ?d) k = (if opened_at s = None then Some s else None)"
    by (intro crowded_prune c assms(4)) simp_all
  then show ?thesis by (simp add: r allow_def)
qed

definition other_key :: "nat \<Rightarrow> string" where
  "other_key i = replicate (Suc i) CHR ''x''"

definition crowd :: tracked where
  "crowd = map (\<lambda>i. (other_key i, \<lparr>deaths = [1], opened_at = None\<rparr>)) [0..<512]
     @ [(''srv'', \<lparr>deaths = [2, 3, 4, 5], opened_at = None\<rparr>)]"

lemma crowd_crowded: "crowded default_tunables ''srv'' 6 crowd"
proof -
  have other: "other_key i \<noteq> ''srv''" for i
    by (auto simp: other_key_def dest!: arg_cong [where f = "hd"])
  have inj: "inj other_key"
    by (rule injI) (auto simp: other_key_def dest: arg_cong [where f = "length"])
  have f: "filter (\<lambda>p. fst p \<noteq> ''srv'') crowd =
      map (\<lambda>i. (other_key i, \<lparr>deaths = [1], opened_at = None\<rparr>)) [0..<512]"
    by (simp add: crowd_def filter_map comp_def other)
  have "dict_wf crowd"
    using inj other other [symmetric] by (auto simp: crowd_def comp_def distinct_map inj_on_def)
  then show ?thesis
    unfolding crowded_def f
    by (simp add: MAX_TRACKED_KEYS_def list_all_iff busy_def default_tunables_def WINDOW_SECS_def)
qed

lemma crowded_breaker_never_opens_witness:
  "fst (allow default_tunables ''srv'' 7 (record_death default_tunables ''srv'' 1 6 crowd))"
proof (rule crowded_breaker_never_opens [OF crowd_crowded])
  have "dict_get crowd ''srv'' = Some \<lparr>deaths = [2, 3, 4, 5], opened_at = None\<rparr>"
    using crowd_crowded by (simp add: crowded_def dict_get_eq_Some) (simp add: crowd_def)
  then show "\<not> is_open crowd ''srv''" by (simp add: is_open_def)
qed (simp_all add: default_tunables_def FAST_DEATH_THRESHOLD_SECS_def WINDOW_SECS_def)

end
