(* ===== verification/Backend_Pool.thy ===== *)
theory Backend_Pool
  imports Pool_Key Breaker
begin

text \<open>
  The backend pool of the MCP gateway (\<open>mcp_gateway/pool.py\<close>): its state and its operations.

  Every body under \<open>async with self._lock\<close> runs without suspending, so each operation below
  is one atomic function on the state; the coroutine \<open>get_or_create\<close>, which does suspend, is
  cut at its awaits in \<open>Pool_Callers\<close>. Objects whose identity matters (backends, spawn locks)
  live in two stores indexed by number; the pool's dictionaries hold the numbers. Operations
  take \<open>key.stable_hash()\<close> where the code takes the key and hashes it in its first line; where
  a key is hashed in the middle, the hash is the argument \<open>digest_of\<close>, in the code
  \<open>stable_hash sha\<close>.

  The model adds one history field: \<open>credential_of\<close>, the generation of the credential files a
  backend's process was launched with.
\<close>

section \<open>State\<close>

datatype pool_exc =
    BackendUnavailable
  | PoolAtCapacity
  | DrainedDuringSpawn
  | PoolKeyCollision
  | SpawnError
  | ShutdownError
  | PoolCancelled

text \<open>The part of a \<open>Backend\<close> the pool reads: \<open>stubs\<close> are the keys of \<open>_stub_inboxes\<close>,
  \<open>exited\<close> is \<open>process.returncode is not None\<close>, \<open>dead\<close> is \<open>_dead_reason is not None\<close>.\<close>

record backend =
  pool_key_of :: pool_key
  exited :: bool
  dead :: bool
  created_at :: rat
  last_used_at :: rat
  stubs :: "string list"
  exclusive_token :: string
  pinned :: bool
  quarantined :: bool
  credential_of :: nat

definition refcount :: "backend \<Rightarrow> nat" where
  "refcount b = length (stubs b)"

definition is_alive :: "backend \<Rightarrow> bool" where
  "is_alive b \<longleftrightarrow> \<not> exited b \<and> \<not> dead b"

definition storage_digest :: "(pool_key \<Rightarrow> string) \<Rightarrow> backend \<Rightarrow> string" where
  "storage_digest digest_of b =
     (let base = digest_of (pool_key_of b)
      in if exclusive_token b \<noteq> [] then base @ CHR '':'' # exclusive_token b else base)"

text \<open>An \<open>asyncio.Lock\<close>: a flag and the queue of the tasks waiting for it.\<close>

record spawn_lock =
  locked :: bool
  waiters :: "nat list"

definition lock_idle :: "spawn_lock \<Rightarrow> bool" where
  "lock_idle l \<longleftrightarrow> \<not> locked l \<and> waiters l = []"

record draining_backend =
  d_backend :: nat
  d_deadline :: rat
  d_digest :: string

record pool =
  max_backends :: nat
  breaker :: "tunables option"
  deaths_seen :: tracked
  backends :: "(string, nat) dict"
  spawn_locks :: "(string, nat) dict"
  reserved_digests :: "(string, nat) dict"
  shutdown_tasks :: "nat list"
  evictions_idle :: nat
  evictions_lru :: nat
  spawns :: nat
  capacity_rejects :: nat
  draining :: "draining_backend list"
  exclusive :: "(string, nat) dict"
  drain_epoch :: nat
  backend_at :: "nat \<Rightarrow> backend"
  next_backend :: nat
  lock_at :: "nat \<Rightarrow> spawn_lock"
  next_lock :: nat

definition fresh_lock :: spawn_lock where
  "fresh_lock = \<lparr>locked = False, waiters = []\<rparr>"

definition BackendPool :: "int \<Rightarrow> tunables option \<Rightarrow> (nat \<Rightarrow> backend) \<Rightarrow> pool res" where
  "BackendPool cap brk store =
     (if cap < 1 then Inl ValueError
      else Inr \<lparr>max_backends = nat cap, breaker = brk, deaths_seen = [], backends = [],
        spawn_locks = [], reserved_digests = [], shutdown_tasks = [], evictions_idle = 0,
        evictions_lru = 0, spawns = 0, capacity_rejects = 0, draining = [], exclusive = [],
        drain_epoch = 0, backend_at = store, next_backend = 0, lock_at = (\<lambda>_. fresh_lock),
        next_lock = 0\<rparr>)"

section \<open>Operations\<close>

subsection \<open>Breaker reports\<close>

definition note_backend_death :: "string \<Rightarrow> rat \<Rightarrow> rat \<Rightarrow> ('a) pool_scheme \<Rightarrow> 'a pool_scheme" where
  "note_backend_death key uptime now p =
     (case breaker p of None \<Rightarrow> p
      | Some cfg \<Rightarrow> p\<lparr>deaths_seen := record_death cfg key uptime now (deaths_seen p)\<rparr>)"

definition note_backend_healthy :: "string \<Rightarrow> 'a pool_scheme \<Rightarrow> 'a pool_scheme" where
  "note_backend_healthy key p =
     (case breaker p of None \<Rightarrow> p
      | Some cfg \<Rightarrow> p\<lparr>deaths_seen := record_healthy key (deaths_seen p)\<rparr>)"

text \<open>\<open>self._breaker is not None and not self._breaker.allow(...)\<close>, with the state it leaves.\<close>

definition breaker_refuses :: "string \<Rightarrow> rat \<Rightarrow> 'a pool_scheme \<Rightarrow> bool \<times> 'a pool_scheme" where
  "breaker_refuses key now p =
     (case breaker p of None \<Rightarrow> (False, p)
      | Some cfg \<Rightarrow> let (ok, d) = allow cfg key now (deaths_seen p)
                    in (\<not> ok, p\<lparr>deaths_seen := d\<rparr>))"

subsection \<open>Reservations\<close>

definition reserve :: "string \<Rightarrow> 'a pool_scheme \<Rightarrow> 'a pool_scheme" where
  "reserve digest p = p\<lparr>reserved_digests :=
     dict_set digest (dict_get_default (reserved_digests p) digest 0 + 1) (reserved_digests p)\<rparr>"

definition unreserve :: "string \<Rightarrow> 'a pool_scheme \<Rightarrow> 'a pool_scheme" where
  "unreserve digest p =
     (let remaining = int (dict_get_default (reserved_digests p) digest 0) - 1
      in if remaining > 0
         then p\<lparr>reserved_digests := dict_set digest (nat remaining) (reserved_digests p)\<rparr>
         else p\<lparr>reserved_digests := dict_del digest (reserved_digests p)\<rparr>)"

definition is_reserved :: "'a pool_scheme \<Rightarrow> string \<Rightarrow> bool" where
  "is_reserved p digest \<longleftrightarrow> digest \<in> fst ` set (reserved_digests p)"

subsection \<open>Eviction\<close>

text \<open>\<open>_pick_lru_idle_locked\<close>: the loop keeps the first entry with the smallest reading.\<close>

definition reclaimable :: "'a pool_scheme \<Rightarrow> string \<Rightarrow> nat \<Rightarrow> bool" where
  "reclaimable p digest b \<longleftrightarrow> refcount (backend_at p b) = 0 \<and> \<not> is_reserved p digest"

definition pick_step :: "'a pool_scheme \<Rightarrow> (string \<times> nat) option \<Rightarrow> string \<times> nat \<Rightarrow> (string \<times> nat) option" where
  "pick_step p oldest entry =
     (if \<not> reclaimable p (fst entry) (snd entry) \<or> pinned (backend_at p (snd entry)) then oldest
      else case oldest of
        None \<Rightarrow> Some entry
      | Some (_, b) \<Rightarrow>
          if last_used_at (backend_at p (snd entry)) < last_used_at (backend_at p b) then Some entry else oldest)"

definition pick_lru_idle :: "'a pool_scheme \<Rightarrow> (string \<times> nat) option" where
  "pick_lru_idle p = foldl (pick_step p) None (backends p)"

definition evict_lru :: "'a pool_scheme \<Rightarrow> 'a pool_scheme \<times> nat option" where
  "evict_lru p =
     (case pick_lru_idle p of
        None \<Rightarrow> (p, None)
      | Some (digest, b) \<Rightarrow>
          (p\<lparr>backends := dict_del digest (backends p), spawn_locks := dict_del digest (spawn_locks p),
             evictions_lru := evictions_lru p + 1, shutdown_tasks := shutdown_tasks p @ [b]\<rparr>,
           Some b))"

definition pool_evict :: "string \<Rightarrow> bool \<Rightarrow> nat option \<Rightarrow> 'a pool_scheme \<Rightarrow> 'a pool_scheme \<times> nat option" where
  "pool_evict digest keep_spawn_lock expected p =
     (if expected \<noteq> None \<and> dict_get (backends p) digest \<noteq> expected then (p, None)
      else (p\<lparr>backends := dict_del digest (backends p),
              spawn_locks := (if keep_spawn_lock then spawn_locks p else dict_del digest (spawn_locks p))\<rparr>,
            dict_get (backends p) digest))"

definition idle_stale :: "rat \<Rightarrow> bool \<Rightarrow> 'a pool_scheme \<Rightarrow> string \<times> nat \<Rightarrow> bool" where
  "idle_stale cutoff include_pinned p entry \<longleftrightarrow>
     (let b = backend_at p (snd entry)
      in reclaimable p (fst entry) (snd entry) \<and> last_used_at b < cutoff \<and> (include_pinned \<or> \<not> pinned b))"

definition evict_idle :: "rat \<Rightarrow> bool \<Rightarrow> rat \<Rightarrow> 'a pool_scheme \<Rightarrow> 'a pool_scheme \<times> nat list" where
  "evict_idle older_than include_pinned now p =
     (let stale = filter (idle_stale (now - older_than) include_pinned p) (backends p);
          gone = map fst stale
      in (p\<lparr>backends := fold dict_del gone (backends p), spawn_locks := fold dict_del gone (spawn_locks p),
            evictions_idle := evictions_idle p + length stale\<rparr>,
          map snd stale))"

subsection \<open>Insertion\<close>

definition pool_add :: "string \<Rightarrow> nat \<Rightarrow> bool \<Rightarrow> nat option \<Rightarrow> 'a pool_scheme \<Rightarrow> 'a pool_scheme \<times> pool_exc option" where
  "pool_add digest b reserved spawn_epoch p =
     (if spawn_epoch \<noteq> None \<and> spawn_epoch \<noteq> Some (drain_epoch p) then (p, Some DrainedDuringSpawn)
      else if digest \<in> fst ` set (backends p) then (p, Some PoolKeyCollision)
      else let (q, room) =
             (if max_backends p \<le> length (backends p)
              then let (q, evicted) = evict_lru p in (q, evicted \<noteq> None)
              else (p, True))
        in if \<not> room then (q\<lparr>capacity_rejects := capacity_rejects q + 1\<rparr>, Some PoolAtCapacity)
           else let q = q\<lparr>backends := dict_set digest b (backends q)\<rparr>
                in (if reserved then reserve digest q else q, None))"

subsection \<open>Cutover to a new credential\<close>

definition drain_one :: "rat \<Rightarrow> string \<times> nat \<Rightarrow> 'a pool_scheme \<Rightarrow> 'a pool_scheme" where
  "drain_one deadline entry p =
     p\<lparr>backends := dict_del (fst entry) (backends p),
       spawn_locks :=
         (case dict_get (spawn_locks p) (fst entry) of
            Some l \<Rightarrow> if lock_idle (lock_at p l) then dict_del (fst entry) (spawn_locks p)
                      else spawn_locks p
          | None \<Rightarrow> spawn_locks p),
       draining := draining p @
         [\<lparr>d_backend = snd entry, d_deadline = deadline, d_digest = fst entry\<rparr>]\<rparr>"

definition DRAIN_DEADLINE_SECS :: rat where "DRAIN_DEADLINE_SECS = 60"

definition drain_all_to_bluegreen :: "rat \<Rightarrow> rat \<Rightarrow> 'a pool_scheme \<Rightarrow> 'a pool_scheme \<times> nat" where
  "drain_all_to_bluegreen deadline_secs now p =
     (fold (drain_one (now + deadline_secs)) (backends p) (p\<lparr>drain_epoch := drain_epoch p + 1\<rparr>),
      length (backends p))"

definition reapable :: "rat \<Rightarrow> 'a pool_scheme \<Rightarrow> draining_backend \<Rightarrow> bool" where
  "reapable now p e \<longleftrightarrow>
     d_deadline e \<le> now \<or> refcount (backend_at p (d_backend e)) = 0 \<and> \<not> is_reserved p (d_digest e)"

definition reap_draining :: "rat \<Rightarrow> 'a pool_scheme \<Rightarrow> 'a pool_scheme \<times> nat list" where
  "reap_draining now p =
     (p\<lparr>draining := filter (\<lambda>e. \<not> reapable now p e) (draining p)\<rparr>,
      map d_backend (filter (reapable now p) (draining p)))"

subsection \<open>Private backends and lookups\<close>

definition register_exclusive :: "string \<Rightarrow> nat \<Rightarrow> 'a pool_scheme \<Rightarrow> 'a pool_scheme \<times> nat option" where
  "register_exclusive stub b p =
     (p\<lparr>backend_at := (backend_at p)(b := (backend_at p b)\<lparr>exclusive_token := stub\<rparr>),
        exclusive := dict_set stub b (dict_del stub (exclusive p)), spawns := spawns p + 1\<rparr>,
      dict_get (exclusive p) stub)"

definition release_exclusive :: "string \<Rightarrow> 'a pool_scheme \<Rightarrow> 'a pool_scheme \<times> nat option" where
  "release_exclusive stub p = (p\<lparr>exclusive := dict_del stub (exclusive p)\<rparr>, dict_get (exclusive p) stub)"

definition get_by_digest :: "(pool_key \<Rightarrow> string) \<Rightarrow> string \<Rightarrow> 'a pool_scheme \<Rightarrow> nat option" where
  "get_by_digest digest_of digest p =
     (let found = (case dict_get (backends p) digest of
          Some b \<Rightarrow> Some b
        | None \<Rightarrow> find (\<lambda>b. storage_digest digest_of (backend_at p b) = digest) (map snd (exclusive p)))
      in case found of None \<Rightarrow> None | Some b \<Rightarrow> if is_alive (backend_at p b) then Some b else None)"

definition all_backends :: "'a pool_scheme \<Rightarrow> nat list" where
  "all_backends p = map snd (backends p) @ map d_backend (draining p) @ map snd (exclusive p)"

text \<open>\<open>live_backend_pids\<close>, with a backend standing for its process.\<close>

definition live_backend_pids :: "'a pool_scheme \<Rightarrow> nat list" where
  "live_backend_pids p =
     map snd (backends p) @ map d_backend (draining p) @ map snd (exclusive p)"

definition backends_hosting_stub :: "string \<Rightarrow> 'a pool_scheme \<Rightarrow> nat list" where
  "backends_hosting_stub stub p =
     filter (\<lambda>b. stub \<in> set (stubs (backend_at p b))) (map snd (backends p) @ map snd (exclusive p))"

definition shutdown_all :: "'a pool_scheme \<Rightarrow> 'a pool_scheme \<times> nat list" where
  "shutdown_all p =
     (p\<lparr>backends := [], spawn_locks := [], draining := [], exclusive := []\<rparr>,
      all_backends p @ shutdown_tasks p)"

end
