(* ===== verification/Pool_Callers.thy ===== *)
theory Pool_Callers
  imports Backend_Pool
begin

text \<open>
  The callers of the pool and everything that happens to it between their awaits.

  \<open>get_or_create\<close> suspends while it waits for the per-key spawn lock, while it shuts a
  quarantined or dead backend down, while it spawns, and while it discards a backend it may
  not pool. \<open>phase\<close> says where a task is suspended; each \<open>goc_\<close> function is the code from one
  suspension to the next. The gateway's sweepers, the credential watch and the connection
  handlers are the other actions; \<open>step\<close> runs one action, and is \<open>None\<close> where the action is
  not possible. \<open>closing\<close> holds the backends some task has taken out of the pool and is
  shutting down.

  Two history fields serve the statements: \<open>credential\<close> is the generation of the credential
  files, and \<open>drained_credential\<close> the generation at the last cutover.
\<close>

section \<open>State\<close>

datatype phase =
    Resting
  | Waiting nat
  | ClosingQuarantined nat nat
  | ClosingStale nat nat
  | Spawning nat nat nat nat
  | Discarding nat nat nat
  | Aborting nat nat pool_exc
  | Handed nat
  | Failed pool_exc

text \<open>The first argument is the spawn lock; \<open>Spawning\<close> also has the epoch it read, the attempt
  and the credential generation at its start.\<close>

record world = pool +
  phase_of :: "nat \<Rightarrow> phase"
  key_of :: "nat \<Rightarrow> pool_key"
  closing :: "nat list"
  credential :: nat
  drained_credential :: nat

definition usable :: "backend \<Rightarrow> bool" where
  "usable b \<longleftrightarrow> is_alive b \<and> \<not> quarantined b"

definition enter_phase :: "nat \<Rightarrow> phase \<Rightarrow> world \<Rightarrow> world" where
  "enter_phase t ph w = w\<lparr>phase_of := (phase_of w)(t := ph)\<rparr>"

definition set_lock :: "nat \<Rightarrow> spawn_lock \<Rightarrow> 'a pool_scheme \<Rightarrow> 'a pool_scheme" where
  "set_lock l s p = p\<lparr>lock_at := (lock_at p)(l := s)\<rparr>"

definition mark_exited :: "nat \<Rightarrow> 'a pool_scheme \<Rightarrow> 'a pool_scheme" where
  "mark_exited b p = p\<lparr>backend_at := (backend_at p)(b := (backend_at p b)\<lparr>exited := True, dead := True\<rparr>)\<rparr>"

section \<open>get_or_create\<close>

definition MAX_SPAWN_DRAIN_RETRIES :: nat where "MAX_SPAWN_DRAIN_RETRIES = 3"

text \<open>The \<open>finally\<close> clause: an idle lock of an absent digest is dropped from the table.\<close>

definition reap_spawn_lock :: "string \<Rightarrow> nat \<Rightarrow> 'a pool_scheme \<Rightarrow> 'a pool_scheme" where
  "reap_spawn_lock digest l p =
     (if digest \<notin> fst ` set (backends p) \<and> dict_get (spawn_locks p) digest = Some l \<and>
         lock_idle (lock_at p l)
      then p\<lparr>spawn_locks := dict_del digest (spawn_locks p)\<rparr> else p)"

text \<open>Leaving \<open>async with lock\<close> and the \<open>finally\<close> clause, with the result of the call.\<close>

definition finish :: "string \<Rightarrow> nat \<Rightarrow> nat \<Rightarrow> phase \<Rightarrow> world \<Rightarrow> world" where
  "finish digest l t result w =
     enter_phase t result
       (reap_spawn_lock digest l (set_lock l ((lock_at w l)\<lparr>locked := False\<rparr>) w))"

definition start_spawn :: "nat \<Rightarrow> nat \<Rightarrow> nat \<Rightarrow> world \<Rightarrow> world" where
  "start_spawn l t attempt w = enter_phase t (Spawning l (drain_epoch w) attempt (credential w)) w"

definition goc_respawn :: "string \<Rightarrow> nat \<Rightarrow> nat \<Rightarrow> rat \<Rightarrow> world \<Rightarrow> world" where
  "goc_respawn digest l t now w =
     (let (refused, w) = breaker_refuses digest now w
      in if refused then finish digest l t (Failed BackendUnavailable) w else start_spawn l t 0 w)"

text \<open>The body of the critical section up to its first await: the second look at the pool.\<close>

definition goc_critical :: "(pool_key \<Rightarrow> string) \<Rightarrow> nat \<Rightarrow> nat \<Rightarrow> rat \<Rightarrow> world \<Rightarrow> world" where
  "goc_critical digest_of l t now w =
     (let digest = digest_of (key_of w t)
      in case dict_get (backends w) digest of
        None \<Rightarrow> goc_respawn digest l t now w
      | Some b \<Rightarrow>
          if usable (backend_at w b) then finish digest l t (Handed b) (reserve digest w)
          else if is_alive (backend_at w b) then enter_phase t (ClosingQuarantined l b) w
          else enter_phase t (ClosingStale l b)
                 (fst (pool_evict digest True None
                    (note_backend_death (digest_of (pool_key_of (backend_at w b)))
                       (now - created_at (backend_at w b)) now w))))"

text \<open>The entry: reuse, or find the spawn lock and take it or queue for it.\<close>

definition find_lock :: "string \<Rightarrow> world \<Rightarrow> world \<times> nat" where
  "find_lock digest w =
     (case dict_get (spawn_locks w) digest of
        Some l \<Rightarrow> (w, l)
      | None \<Rightarrow>
          (w\<lparr>spawn_locks := dict_set digest (next_lock w) (spawn_locks w),
             lock_at := (lock_at w)(next_lock w := fresh_lock),
             next_lock := next_lock w + 1\<rparr>, next_lock w))"

definition goc_acquire :: "(pool_key \<Rightarrow> string) \<Rightarrow> nat \<Rightarrow> nat \<Rightarrow> rat \<Rightarrow> world \<Rightarrow> world" where
  "goc_acquire digest_of l t now w =
     (if lock_idle (lock_at w l)
      then goc_critical digest_of l t now (set_lock l ((lock_at w l)\<lparr>locked := True\<rparr>) w)
      else enter_phase t (Waiting l)
             (set_lock l ((lock_at w l)\<lparr>waiters := waiters (lock_at w l) @ [t]\<rparr>) w))"

definition goc_enter :: "(pool_key \<Rightarrow> string) \<Rightarrow> nat \<Rightarrow> pool_key \<Rightarrow> rat \<Rightarrow> world \<Rightarrow> world" where
  "goc_enter digest_of t key now w =
     (let w = w\<lparr>key_of := (key_of w)(t := key)\<rparr>; digest = digest_of key;
          lock_path = (let (w, l) = find_lock digest w in goc_acquire digest_of l t now w)
      in case dict_get (backends w) digest of
        Some b \<Rightarrow> if usable (backend_at w b) then enter_phase t (Handed b) (reserve digest w) else lock_path
      | None \<Rightarrow> lock_path)"

definition goc_resume :: "(pool_key \<Rightarrow> string) \<Rightarrow> nat \<Rightarrow> nat \<Rightarrow> rat \<Rightarrow> world \<Rightarrow> world" where
  "goc_resume digest_of l t now w = goc_critical digest_of l t now (set_lock l \<lparr>locked = True, waiters = tl (waiters (lock_at w l))\<rparr> w)"

text \<open>After the quarantined backend is shut down (an exception of the shutdown is swallowed).\<close>

definition goc_quarantine_closed :: "(pool_key \<Rightarrow> string) \<Rightarrow> nat \<Rightarrow> nat \<Rightarrow> nat \<Rightarrow> bool \<Rightarrow> rat \<Rightarrow> world \<Rightarrow> world" where
  "goc_quarantine_closed digest_of l b t ok now w =
     (let digest = digest_of (key_of w t); w = (if ok then mark_exited b w else w)
      in goc_respawn digest l t now (fst (pool_evict digest True None w)))"

definition goc_stale_closed :: "(pool_key \<Rightarrow> string) \<Rightarrow> nat \<Rightarrow> nat \<Rightarrow> nat \<Rightarrow> rat \<Rightarrow> world \<Rightarrow> world" where
  "goc_stale_closed digest_of l b t now w =
     goc_respawn (digest_of (key_of w t)) l t now (mark_exited b w)"

text \<open>\<open>spawn()\<close> returned: the new backend is added under the epoch guard.\<close>

definition new_backend :: "pool_key \<Rightarrow> nat \<Rightarrow> rat \<Rightarrow> backend" where
  "new_backend key cred now = \<lparr>pool_key_of = key, exited = False, dead = False, created_at = now,
     last_used_at = now, stubs = [], exclusive_token = [], pinned = False, quarantined = False,
     credential_of = cred\<rparr>"

definition launch :: "pool_key \<Rightarrow> nat \<Rightarrow> rat \<Rightarrow> 'a pool_scheme \<Rightarrow> 'a pool_scheme" where
  "launch key cred now p = p\<lparr>backend_at := (backend_at p)(next_backend p := new_backend key cred now),
     next_backend := next_backend p + 1\<rparr>"

definition goc_spawned :: "(pool_key \<Rightarrow> string) \<Rightarrow> nat \<Rightarrow> nat \<Rightarrow> nat \<Rightarrow> nat \<Rightarrow> nat \<Rightarrow> rat \<Rightarrow> world \<Rightarrow> world" where
  "goc_spawned digest_of l epoch attempt t cred now w =
     (let digest = digest_of (key_of w t); b = next_backend w;
          (w, failure) = pool_add digest b True (Some epoch) (launch (key_of w t) cred now w)
      in case failure of
           None \<Rightarrow> finish digest l t (Handed b) (w\<lparr>spawns := spawns w + 1\<rparr>)
         | Some DrainedDuringSpawn \<Rightarrow> enter_phase t (Discarding l b attempt) w
         | Some e \<Rightarrow> enter_phase t (Aborting l b e) w)"

definition goc_discarded :: "(pool_key \<Rightarrow> string) \<Rightarrow> nat \<Rightarrow> nat \<Rightarrow> nat \<Rightarrow> nat \<Rightarrow> world \<Rightarrow> world" where
  "goc_discarded digest_of l b attempt t w =
     (let w = mark_exited b w
      in if attempt < MAX_SPAWN_DRAIN_RETRIES then start_spawn l t (attempt + 1) w
         else finish (digest_of (key_of w t)) l t (Failed BackendUnavailable) w)"

text \<open>An exception at a suspension point. A waiter is dropped from the queue; the shielded
  shutdowns go on without their caller; a dead backend whose shutdown is interrupted is left.\<close>

fun goc_raise :: "(pool_key \<Rightarrow> string) \<Rightarrow> nat \<Rightarrow> pool_exc \<Rightarrow> phase \<Rightarrow> world \<Rightarrow> world option" where
  "goc_raise digest_of t e (Waiting l) w =
     (if e \<noteq> PoolCancelled then None
      else Some (enter_phase t (Failed e)
        (reap_spawn_lock (digest_of (key_of w t)) l
          (set_lock l ((lock_at w l)\<lparr>waiters := removeAll t (waiters (lock_at w l))\<rparr>) w))))"
| "goc_raise digest_of t e (ClosingQuarantined l b) w =
     (if e \<noteq> PoolCancelled then None
      else Some (finish (digest_of (key_of w t)) l t (Failed e) w))"
| "goc_raise digest_of t e (ClosingStale l b) w =
     (if e \<notin> {PoolCancelled, ShutdownError} then None
      else Some (finish (digest_of (key_of w t)) l t (Failed e) w))"
| "goc_raise digest_of t e (Spawning l epoch attempt cred) w =
     (if e \<notin> {PoolCancelled, SpawnError} then None
      else Some (finish (digest_of (key_of w t)) l t (Failed e) w))"
| "goc_raise digest_of t e (Discarding l b attempt) w =
     (if e \<noteq> PoolCancelled then None
      else Some (finish (digest_of (key_of w t)) l t (Failed e) (w\<lparr>closing := closing w @ [b]\<rparr>)))"
| "goc_raise digest_of t e (Aborting l b e') w =
     (if e \<noteq> PoolCancelled then None
      else Some (finish (digest_of (key_of w t)) l t (Failed e) (w\<lparr>closing := closing w @ [b]\<rparr>)))"
| "goc_raise digest_of t e _ w = None"

section \<open>Backends and the gateway's own tasks\<close>

definition set_object :: "nat \<Rightarrow> backend \<Rightarrow> 'a pool_scheme \<Rightarrow> 'a pool_scheme" where
  "set_object b v p = p\<lparr>backend_at := (backend_at p)(b := v)\<rparr>"

definition touch :: "rat \<Rightarrow> backend \<Rightarrow> backend" where
  "touch now b = b\<lparr>last_used_at := now\<rparr>"

definition attach_stub :: "string \<Rightarrow> rat \<Rightarrow> backend \<Rightarrow> backend option" where
  "attach_stub stub now b =
     (if stub \<in> set (stubs b) then None else Some (touch now (b\<lparr>stubs := stubs b @ [stub]\<rparr>)))"

definition detach_stub :: "string \<Rightarrow> rat \<Rightarrow> backend \<Rightarrow> backend" where
  "detach_stub stub now b =
     (let b = b\<lparr>stubs := removeAll stub (stubs b)\<rparr>
      in if refcount b = 0 then touch now b else b)"

text \<open>\<open>recycle_if_idle\<close>: with stubs attached quarantine, otherwise kill (when the signal goes
  through, \<open>killed\<close>).\<close>

definition recycle_if_idle :: "bool \<Rightarrow> backend \<Rightarrow> backend" where
  "recycle_if_idle killed b =
     (if refcount b > 0 then b\<lparr>quarantined := True\<rparr>
      else if is_alive b \<and> killed then b\<lparr>dead := True\<rparr> else b)"

text \<open>The heartbeat's treatment of a backend it found gone or wedged, and of a live one. A
  backend is found gone or wedged only once its process has exited or it is marked dead.\<close>

definition heartbeat_recycle :: "(pool_key \<Rightarrow> string) \<Rightarrow> nat \<Rightarrow> rat \<Rightarrow> world \<Rightarrow> world" where
  "heartbeat_recycle digest_of b now w =
     (let digest = digest_of (pool_key_of (backend_at w b));
          (w, evicted) = pool_evict digest False (Some b)
             (note_backend_death digest (now - created_at (backend_at w b)) now w)
      in case evicted of None \<Rightarrow> w | Some e \<Rightarrow> w\<lparr>closing := closing w @ [e]\<rparr>)"

text \<open>The credential watch: an idle sweep takes what is idle (a sweep with threshold 0, pinned ones
  included), then the rest is moved aside to be drained.\<close>

definition credential_cutover :: "rat \<Rightarrow> world \<Rightarrow> world" where
  "credential_cutover now w =
     (fst (drain_all_to_bluegreen DRAIN_DEADLINE_SECS now w))\<lparr>drained_credential := credential w\<rparr>"

definition sweep_idle :: "rat \<Rightarrow> bool \<Rightarrow> rat \<Rightarrow> world \<Rightarrow> world" where
  "sweep_idle older_than include_pinned now w =
     (let (w, gone) = evict_idle older_than include_pinned now w in w\<lparr>closing := closing w @ gone\<rparr>)"

definition acquire_exclusive :: "string \<Rightarrow> pool_key \<Rightarrow> nat \<Rightarrow> rat \<Rightarrow> world \<Rightarrow> world" where
  "acquire_exclusive stub key cred now w =
     (let (w', existing) = register_exclusive stub (next_backend w) (launch key cred now w)
      in case existing of None \<Rightarrow> w' | Some b \<Rightarrow> w'\<lparr>closing := closing w' @ [b]\<rparr>)"

section \<open>Actions\<close>

datatype pool_action =
    Enter nat pool_key rat
  | Resume nat rat
  | Closed nat bool rat
  | Spawned nat nat rat
  | Discarded nat
  | Raised nat pool_exc
  | Attach nat string rat
  | Unreserve nat
  | AttachPrivate string rat
  | Detach nat string rat
  | Touched nat rat
  | Exited nat
  | Died nat
  | Recycle nat bool
  | Pin nat bool
  | HeartbeatDead nat rat
  | HeartbeatAlive nat
  | IdleSweep rat bool rat
  | Rotate
  | Cutover rat
  | Reap rat
  | AcquireExclusive string pool_key nat rat
  | ReleaseExclusive string
  | ShutdownDone nat

fun step :: "(pool_key \<Rightarrow> string) \<Rightarrow> pool_action \<Rightarrow> world \<Rightarrow> world option" where
  "step digest_of (Enter t key now) w =
     (if phase_of w t \<noteq> Resting then None else Some (goc_enter digest_of t key now w))"
| "step digest_of (Resume t now) w =
     (case phase_of w t of
        Waiting l \<Rightarrow>
          if \<not> locked (lock_at w l) \<and> waiters (lock_at w l) \<noteq> [] \<and> hd (waiters (lock_at w l)) = t
          then Some (goc_resume digest_of l t now w) else None
      | _ \<Rightarrow> None)"
| "step digest_of (Closed t ok now) w =
     (case phase_of w t of
        ClosingQuarantined l b \<Rightarrow> Some (goc_quarantine_closed digest_of l b t ok now w)
      | ClosingStale l b \<Rightarrow> if ok then Some (goc_stale_closed digest_of l b t now w) else None
      | _ \<Rightarrow> None)"
| "step digest_of (Spawned t cred now) w =
     (case phase_of w t of
        Spawning l epoch attempt cred0 \<Rightarrow>
          if cred0 \<le> cred \<and> cred \<le> credential w
          then Some (goc_spawned digest_of l epoch attempt t cred now w) else None
      | _ \<Rightarrow> None)"
| "step digest_of (Discarded t) w =
     (case phase_of w t of
        Discarding l b attempt \<Rightarrow> Some (goc_discarded digest_of l b attempt t w)
      | Aborting l b e \<Rightarrow>
          Some (finish (digest_of (key_of w t)) l t (Failed e) (mark_exited b w))
      | _ \<Rightarrow> None)"
| "step digest_of (Raised t e) w = goc_raise digest_of t e (phase_of w t) w"
| "step digest_of (Attach t stub now) w =
     (case phase_of w t of
        Handed b \<Rightarrow> (case attach_stub stub now (backend_at w b) of
            None \<Rightarrow> None | Some v \<Rightarrow> Some (set_object b v w))
      | _ \<Rightarrow> None)"
| "step digest_of (Unreserve t) w =
     (case phase_of w t of
        Handed b \<Rightarrow> Some (enter_phase t Resting (unreserve (digest_of (key_of w t)) w))
      | Failed e \<Rightarrow> Some (enter_phase t Resting w)
      | _ \<Rightarrow> None)"
| "step digest_of (AttachPrivate stub now) w =
     (case dict_get (exclusive w) stub of
        Some b \<Rightarrow> (case attach_stub stub now (backend_at w b) of
            None \<Rightarrow> None | Some v \<Rightarrow> Some (set_object b v w))
      | None \<Rightarrow> None)"
| "step digest_of (Detach b stub now) w = Some (set_object b (detach_stub stub now (backend_at w b)) w)"
| "step digest_of (Touched b now) w = Some (set_object b (touch now (backend_at w b)) w)"
| "step digest_of (Exited b) w = Some (set_object b ((backend_at w b)\<lparr>exited := True\<rparr>) w)"
| "step digest_of (Died b) w = Some (set_object b ((backend_at w b)\<lparr>dead := True\<rparr>) w)"
| "step digest_of (Recycle b killed) w = Some (set_object b (recycle_if_idle killed (backend_at w b)) w)"
| "step digest_of (Pin b v) w = Some (set_object b ((backend_at w b)\<lparr>pinned := v\<rparr>) w)"
| "step digest_of (HeartbeatDead b now) w =
     (if b < next_backend w \<and> \<not> is_alive (backend_at w b) then Some (heartbeat_recycle digest_of b now w) else None)"
| "step digest_of (HeartbeatAlive b) w =
     Some (note_backend_healthy (digest_of (pool_key_of (backend_at w b))) w)"
| "step digest_of (IdleSweep older_than include_pinned now) w = Some (sweep_idle older_than include_pinned now w)"
| "step digest_of Rotate w = Some (w\<lparr>credential := credential w + 1\<rparr>)"
| "step digest_of (Cutover now) w = Some (credential_cutover now w)"
| "step digest_of (Reap now) w =
     (let (w, reaped) = reap_draining now w in Some (w\<lparr>closing := closing w @ reaped\<rparr>))"
| "step digest_of (AcquireExclusive stub key cred now) w =
     (if stub = [] \<or> credential w < cred then None else Some (acquire_exclusive stub key cred now w))"
| "step digest_of (ReleaseExclusive stub) w =
     (let (w, orphan) = release_exclusive stub w
      in Some (case orphan of None \<Rightarrow> w | Some b \<Rightarrow> w\<lparr>closing := closing w @ [b]\<rparr>))"
| "step digest_of (ShutdownDone b) w =
     (if b \<in> set (closing w) \<union> set (shutdown_tasks w)
      then Some ((mark_exited b w)\<lparr>closing := removeAll b (closing w),
                   shutdown_tasks := removeAll b (shutdown_tasks w)\<rparr>)
      else None)"

text \<open>The gateway's start: nothing pooled, every task at rest.\<close>

definition start_world :: "pool \<Rightarrow> world" where
  "start_world p = pool.extend p \<lparr>phase_of = (\<lambda>_. Resting),
     key_of = (\<lambda>_. \<lparr>server_name = [], agent_name = [], command_args_hash = [],
       effective_env_hash = [], work_dir = [], binary_version = [], os_uid = 0, sandbox_mode = [],
       autoapprove_set_hash = [], approval_mode = [], trust_all_tools = False,
       config_snapshot_hash = []\<rparr>),
     closing = [], credential = 0, drained_credential = 0\<rparr>"

text \<open>Runs whose every action satisfies \<open>P\<close> in the state it is taken in.\<close>

inductive pool_run :: "(pool_key \<Rightarrow> string) \<Rightarrow> (pool_action \<Rightarrow> world \<Rightarrow> bool) \<Rightarrow> world \<Rightarrow> bool"
  for digest_of P where
  pool_start: "BackendPool cap brk store = Inr p \<Longrightarrow> pool_run digest_of P (start_world p)"
| pool_step: "pool_run digest_of P w \<Longrightarrow> P a w \<Longrightarrow> step digest_of a w = Some w' \<Longrightarrow> pool_run digest_of P w'"

inductive_cases pool_runE: "pool_run digest_of P w"

abbreviation reachable :: "(pool_key \<Rightarrow> string) \<Rightarrow> world \<Rightarrow> bool" where
  "reachable digest_of \<equiv> pool_run digest_of (\<lambda>_ _. True)"

fun steps :: "(pool_key \<Rightarrow> string) \<Rightarrow> pool_action list \<Rightarrow> world \<Rightarrow> world option" where
  "steps digest_of [] w = Some w"
| "steps digest_of (a # as) w = (case step digest_of a w of None \<Rightarrow> None | Some w \<Rightarrow> steps digest_of as w)"

end
