(* ===== verification/Pool_Reservations.thy ===== *)
theory Pool_Reservations
  imports Pool_Callers
begin

text \<open>
  The reservation count of a digest is the number of callers a backend has been handed to and
  that have not let go of it, in every reachable state; from this, no reclaim under capacity
  pressure and no idle sweep touches a backend a caller is about to attach to.

  The theory opens with what the other invariants of the pool share: every operation as a plain
  update of the record (\<open>pool_updates\<close>) and the possible results of the segments of
  \<open>get_or_create\<close>.
\<close>

section \<open>Operations as updates\<close>

lemma note_backend_death_update:
  "note_backend_death k u n p = p\<lparr>deaths_seen := deaths_seen (note_backend_death k u n p)\<rparr>"
  by (simp add: note_backend_death_def split: option.split)

lemma note_backend_healthy_update:
  "note_backend_healthy k p = p\<lparr>deaths_seen := deaths_seen (note_backend_healthy k p)\<rparr>"
  by (simp add: note_backend_healthy_def split: option.split)

lemma unreserve_update:
  "unreserve d p = p\<lparr>reserved_digests := reserved_digests (unreserve d p)\<rparr>"
  by (simp add: unreserve_def Let_def)

lemma unreserve_world:
  "phase_of (unreserve d w) = phase_of w" "key_of (unreserve d w) = key_of w"
  by (subst unreserve_update, simp)+

lemma reap_spawn_lock_update:
  "reap_spawn_lock d l p = p\<lparr>spawn_locks :=
     (if d \<notin> fst ` set (backends p) \<and> dict_get (spawn_locks p) d = Some l \<and> lock_idle (lock_at p l)
      then dict_del d (spawn_locks p) else spawn_locks p)\<rparr>"
  by (simp add: reap_spawn_lock_def)

lemmas pool_updates = enter_phase_def set_lock_def mark_exited_def set_object_def launch_def
  reserve_def reap_spawn_lock_update finish_def start_spawn_def

lemma evict_lru_cases:
  obtains (none) "pick_lru_idle p = None" "evict_lru p = (p, None)"
  | (victim) d b where "pick_lru_idle p = Some (d, b)"
      "evict_lru p = (p\<lparr>backends := dict_del d (backends p), spawn_locks := dict_del d (spawn_locks p),
         evictions_lru := evictions_lru p + 1, shutdown_tasks := shutdown_tasks p @ [b]\<rparr>, Some b)"
  by (cases "pick_lru_idle p") (auto simp: evict_lru_def split: prod.splits)

text \<open>The result of an insertion that reserves, by the exception it raises.\<close>

lemma pool_add_cases:
  obtains (drained) "epoch \<noteq> drain_epoch p" "pool_add d b True (Some epoch) p = (p, Some DrainedDuringSpawn)"
  | (collision) "epoch = drain_epoch p" "d \<in> fst ` set (backends p)"
      "pool_add d b True (Some epoch) p = (p, Some PoolKeyCollision)"
  | (full) "epoch = drain_epoch p" "d \<notin> fst ` set (backends p)" "max_backends p \<le> length (backends p)"
      "pick_lru_idle p = None"
      "pool_add d b True (Some epoch) p =
         (p\<lparr>capacity_rejects := capacity_rejects p + 1\<rparr>, Some PoolAtCapacity)"
  | (room) "epoch = drain_epoch p" "d \<notin> fst ` set (backends p)" "length (backends p) < max_backends p"
      "pool_add d b True (Some epoch) p =
         (reserve d (p\<lparr>backends := dict_set d b (backends p)\<rparr>), None)"
  | (evicted) d' b' where "epoch = drain_epoch p" "d \<notin> fst ` set (backends p)"
      "max_backends p \<le> length (backends p)" "pick_lru_idle p = Some (d', b')"
      "pool_add d b True (Some epoch) p =
         (reserve d (p\<lparr>spawn_locks := dict_del d' (spawn_locks p), evictions_lru := evictions_lru p + 1,
            shutdown_tasks := shutdown_tasks p @ [b'],
            backends := dict_set d b (dict_del d' (backends p))\<rparr>), None)"
proof -
  consider "epoch \<noteq> drain_epoch p" | "epoch = drain_epoch p" "d \<in> fst ` set (backends p)"
    | "epoch = drain_epoch p" "d \<notin> fst ` set (backends p)" "length (backends p) < max_backends p"
    | "epoch = drain_epoch p" "d \<notin> fst ` set (backends p)" "max_backends p \<le> length (backends p)"
    by linarith
  then show ?thesis
  proof cases
    case 2
    then show ?thesis by (intro collision) (simp_all add: pool_add_def)
  next
    case 4
    show ?thesis
    proof (rule evict_lru_cases [of p])
      assume "pick_lru_idle p = None" "evict_lru p = (p, None)"
      with 4 show ?thesis by (intro full) (simp_all add: pool_add_def)
    next
      fix d' b'
      assume "pick_lru_idle p = Some (d', b')"
        "evict_lru p = (p\<lparr>backends := dict_del d' (backends p), spawn_locks := dict_del d' (spawn_locks p),
           evictions_lru := evictions_lru p + 1, shutdown_tasks := shutdown_tasks p @ [b']\<rparr>, Some b')"
      with 4 show ?thesis by (intro evicted [of d' b']) (simp_all add: pool_add_def reserve_def)
    qed
  qed (simp_all add: pool_add_def drained room)
qed

lemma breaker_refuses_cases:
  obtains refused ds where "breaker_refuses d now p = (refused, p\<lparr>deaths_seen := ds\<rparr>)"
proof (cases "breaker p")
  case None
  then show ?thesis by (intro that [of False "deaths_seen p"]) (simp add: breaker_refuses_def)
next
  case (Some cfg)
  then show ?thesis
    by (cases "allow cfg d now (deaths_seen p)") (auto simp: breaker_refuses_def intro: that)
qed

lemma goc_respawn_cases:
  obtains (refused) ds where "goc_respawn d l t now w = finish d l t (Failed BackendUnavailable) (w\<lparr>deaths_seen := ds\<rparr>)"
  | (spawns) ds where "goc_respawn d l t now w = start_spawn l t 0 (w\<lparr>deaths_seen := ds\<rparr>)"
proof (rule breaker_refuses_cases [of d now w])
  fix r ds assume "breaker_refuses d now w = (r, w\<lparr>deaths_seen := ds\<rparr>)"
  then show ?thesis by (cases r) (simp_all add: goc_respawn_def that)
qed

lemma goc_critical_cases:
  fixes digest_of t w defines "d \<equiv> digest_of (key_of w t)"
  obtains (absent) "dict_get (backends w) d = None" "goc_critical digest_of l t now w = goc_respawn d l t now w"
  | (reuse) b where "dict_get (backends w) d = Some b" "usable (backend_at w b)"
      "goc_critical digest_of l t now w = finish d l t (Handed b) (reserve d w)"
  | (quarantine) b where "dict_get (backends w) d = Some b" "is_alive (backend_at w b)"
      "goc_critical digest_of l t now w = enter_phase t (ClosingQuarantined l b) w"
  | (stale) b ds where "dict_get (backends w) d = Some b" "\<not> is_alive (backend_at w b)"
      "goc_critical digest_of l t now w =
         enter_phase t (ClosingStale l b) (w\<lparr>deaths_seen := ds, backends := dict_del d (backends w)\<rparr>)"
proof (cases "dict_get (backends w) d")
  case None
  then show ?thesis by (intro absent) (simp_all add: goc_critical_def d_def Let_def)
next
  case (Some b)
  let ?ds = "deaths_seen (note_backend_death (digest_of (pool_key_of (backend_at w b)))
    (now - created_at (backend_at w b)) now w)"
  consider "usable (backend_at w b)" | "\<not> usable (backend_at w b)" "is_alive (backend_at w b)"
    | "\<not> is_alive (backend_at w b)" by (auto simp: usable_def)
  then show ?thesis
  proof cases
    case 1
    with Some show ?thesis by (intro reuse) (simp_all add: goc_critical_def d_def Let_def)
  next
    case 2
    with Some show ?thesis by (intro quarantine) (simp_all add: goc_critical_def d_def Let_def)
  next
    case 3
    with Some show ?thesis
      by (intro stale [of b ?ds], simp_all add: goc_critical_def d_def usable_def Let_def)
         (subst note_backend_death_update, simp add: pool_evict_def)
  qed
qed

lemma find_lock_cases:
  obtains (found) l where "dict_get (spawn_locks w) d = Some l" "find_lock d w = (w, l)"
  | (created) "dict_get (spawn_locks w) d = None"
      "find_lock d w = (w\<lparr>spawn_locks := dict_set d (next_lock w) (spawn_locks w),
         lock_at := (lock_at w)(next_lock w := fresh_lock),
         next_lock := next_lock w + 1\<rparr>, next_lock w)"
  by (cases "dict_get (spawn_locks w) d") (auto simp: find_lock_def)

lemma goc_enter_cases:
  fixes digest_of key t w defines "d \<equiv> digest_of key" and "v \<equiv> w\<lparr>key_of := (key_of w)(t := key)\<rparr>"
  obtains (reuse) b where "dict_get (backends w) d = Some b" "usable (backend_at w b)"
      "goc_enter digest_of t key now w = enter_phase t (Handed b) (reserve d v)"
  | (lock) u l where "find_lock d v = (u, l)" "goc_enter digest_of t key now w = goc_acquire digest_of l t now u"
proof (cases "\<exists>b. dict_get (backends w) d = Some b \<and> usable (backend_at w b)")
  case True
  then show ?thesis using reuse by (auto simp: goc_enter_def d_def v_def Let_def)
next
  case False
  obtain u l where "find_lock d v = (u, l)" by (cases "find_lock d v")
  with False show ?thesis
    by (intro lock [of u l]) (auto simp: goc_enter_def d_def v_def Let_def split: option.splits)
qed

definition drop_idle_lock :: "(nat \<Rightarrow> spawn_lock) \<Rightarrow> string \<times> nat \<Rightarrow> (string, nat) dict \<Rightarrow> (string, nat) dict" where
  "drop_idle_lock locks entry sl =
     (case dict_get sl (fst entry) of
        Some l \<Rightarrow> if lock_idle (locks l) then dict_del (fst entry) sl else sl
      | None \<Rightarrow> sl)"

lemma drain_fold:
  "fold (drain_one deadline) es p =
     p\<lparr>backends := fold (\<lambda>e. dict_del (fst e)) es (backends p),
       spawn_locks := fold (drop_idle_lock (lock_at p)) es (spawn_locks p),
       draining := draining p @
         map (\<lambda>e. \<lparr>d_backend = snd e, d_deadline = deadline, d_digest = fst e\<rparr>) es\<rparr>"
  by (induction es arbitrary: p) (simp_all add: drain_one_def drop_idle_lock_def)

lemma fold_dict_del_keys: "fst ` set (fold (\<lambda>e. dict_del (fst e)) es d) = fst ` set d - fst ` set es"
  by (induction es arbitrary: d) (auto simp: dict_keys_del)

lemma cutover_update:
  "credential_cutover now w =
     w\<lparr>drain_epoch := drain_epoch w + 1, backends := [],
       spawn_locks := fold (drop_idle_lock (lock_at w)) (backends w) (spawn_locks w),
       draining := draining w @ map (\<lambda>e. \<lparr>d_backend = snd e,
         d_deadline = now + DRAIN_DEADLINE_SECS, d_digest = fst e\<rparr>) (backends w),
       drained_credential := credential w\<rparr>"
proof -
  have "fst ` set (fold (\<lambda>e. dict_del (fst e)) (backends w) (backends w)) = {}"
    by (simp add: fold_dict_del_keys)
  then have "fold (\<lambda>e. dict_del (fst e)) (backends w) (backends w) = []" by simp
  then show ?thesis by (simp add: credential_cutover_def drain_all_to_bluegreen_def drain_fold)
qed

lemma heartbeat_recycle_cases:
  obtains (gone) ds where "heartbeat_recycle digest_of b now w = w\<lparr>deaths_seen := ds\<rparr>"
  | (evicts) ds where "dict_get (backends w) (digest_of (pool_key_of (backend_at w b))) = Some b"
      "heartbeat_recycle digest_of b now w = w\<lparr>deaths_seen := ds,
         backends := dict_del (digest_of (pool_key_of (backend_at w b))) (backends w),
         spawn_locks := dict_del (digest_of (pool_key_of (backend_at w b))) (spawn_locks w),
         closing := closing w @ [b]\<rparr>"
proof -
  let ?d = "digest_of (pool_key_of (backend_at w b))"
  obtain ds where ds: "note_backend_death ?d (now - created_at (backend_at w b)) now w = w\<lparr>deaths_seen := ds\<rparr>"
    using note_backend_death_update by metis
  show ?thesis
  proof (cases "dict_get (backends w) ?d = Some b")
    case True
    then show ?thesis
      by (intro evicts [of ds]) (simp_all add: heartbeat_recycle_def ds Let_def pool_evict_def)
  next
    case False
    then show ?thesis
      by (intro gone [of ds]) (simp add: heartbeat_recycle_def ds Let_def pool_evict_def)
  qed
qed

section \<open>The ledger of reservations\<close>

definition handed :: "phase \<Rightarrow> bool" where
  "handed ph \<longleftrightarrow> (case ph of Handed b \<Rightarrow> True | _ \<Rightarrow> False)"

lemma handed_simps [simp]:
  "\<not> handed Resting" "\<not> handed (Waiting l)" "\<not> handed (ClosingQuarantined l b)" "\<not> handed (ClosingStale l b)"
  "\<not> handed (Spawning l e a c)" "\<not> handed (Discarding l b a)" "\<not> handed (Aborting l b x)"
  "handed (Handed b)" "\<not> handed (Failed x)"
  by (simp_all add: handed_def)

lemma handed_iff: "handed ph \<longleftrightarrow> (\<exists>b. ph = Handed b)"
  by (cases ph) simp_all

definition holders :: "(pool_key \<Rightarrow> string) \<Rightarrow> string \<Rightarrow> world \<Rightarrow> nat set" where
  "holders digest_of d w = {t. handed (phase_of w t) \<and> digest_of (key_of w t) = d}"

definition ledger_ok :: "(pool_key \<Rightarrow> string) \<Rightarrow> world \<Rightarrow> bool" where
  "ledger_ok digest_of w \<longleftrightarrow>
     (\<forall>d. finite (holders digest_of d w) \<and>
       dict_get (reserved_digests w) d =
         (if holders digest_of d w = {} then None else Some (card (holders digest_of d w))))"

text \<open>What a step may do to the ledger: nothing, hand a backend out, or let one go.\<close>

inductive ledger_move :: "(pool_key \<Rightarrow> string) \<Rightarrow> world \<Rightarrow> world \<Rightarrow> bool" for digest_of where
  untouched: "handed (phase_of w' t) = handed (phase_of w t) \<Longrightarrow>
      (\<And>u. u \<noteq> t \<Longrightarrow> phase_of w' u = phase_of w u \<and> key_of w' u = key_of w u) \<Longrightarrow>
      handed (phase_of w t) \<longrightarrow> key_of w' t = key_of w t \<Longrightarrow>
      reserved_digests w' = reserved_digests w \<Longrightarrow> ledger_move digest_of w w'"
| hand_out: "\<not> handed (phase_of w t) \<Longrightarrow> handed (phase_of w' t) \<Longrightarrow>
      (\<And>u. u \<noteq> t \<Longrightarrow> phase_of w' u = phase_of w u \<and> key_of w' u = key_of w u) \<Longrightarrow>
      d = digest_of (key_of w' t) \<Longrightarrow>
      reserved_digests w' = dict_set d (dict_get_default (reserved_digests w) d 0 + 1) (reserved_digests w) \<Longrightarrow>
      ledger_move digest_of w w'"
| let_go: "handed (phase_of w t) \<Longrightarrow> \<not> handed (phase_of w' t) \<Longrightarrow>
      (\<And>u. u \<noteq> t \<Longrightarrow> phase_of w' u = phase_of w u) \<Longrightarrow> key_of w' = key_of w \<Longrightarrow>
      reserved_digests w' = reserved_digests (unreserve (digest_of (key_of w t)) w) \<Longrightarrow>
      ledger_move digest_of w w'"

lemma ledger_moves:
  assumes "ledger_move digest_of w w'" and "ledger_ok digest_of w"
  shows "ledger_ok digest_of w'"
  using assms(1)
proof cases
  case (untouched t)
  then have "handed (phase_of w' u) = handed (phase_of w u) \<and>
      (handed (phase_of w u) \<longrightarrow> key_of w' u = key_of w u)" for u by (cases "u = t") auto
  then have "holders digest_of d w' = holders digest_of d w" for d by (auto simp: holders_def)
  with assms(2) untouched(4) show ?thesis by (simp add: ledger_ok_def)
next
  case (hand_out t d)
  have "holders digest_of e w' = (if e = d then insert t (holders digest_of d w) else holders digest_of e w)" for e
  proof -
    have "u \<in> holders digest_of e w' \<longleftrightarrow> u \<in> (if e = d then insert t (holders digest_of d w) else holders digest_of e w)" for u
      using hand_out(1-4) by (cases "u = t") (auto simp: holders_def)
    then show ?thesis by blast
  qed
  moreover have "t \<notin> holders digest_of d w" using hand_out(1) by (simp add: holders_def)
  ultimately show ?thesis
    using assms(2) hand_out(5) by (auto simp: ledger_ok_def dict_get_default_def split: if_splits)
next
  case (let_go t)
  let ?d = "digest_of (key_of w t)"
  have holders: "holders digest_of e w' = (if e = ?d then holders digest_of ?d w - {t} else holders digest_of e w)" for e
  proof -
    have "u \<in> holders digest_of e w' \<longleftrightarrow> u \<in> (if e = ?d then holders digest_of ?d w - {t} else holders digest_of e w)" for u
      using let_go(1-4) by (cases "u = t") (auto simp: holders_def)
    then show ?thesis by blast
  qed
  have t: "t \<in> holders digest_of ?d w" using let_go(1) by (simp add: holders_def)
  have fin: "finite (holders digest_of e w)" for e using assms(2) by (simp add: ledger_ok_def)
  have count: "dict_get (reserved_digests w) ?d = Some (card (holders digest_of ?d w))"
    using assms(2) t unfolding ledger_ok_def by fastforce
  define n where "n = card (holders digest_of ?d w - {t})"
  have n: "card (holders digest_of ?d w) = Suc n"
    using card.remove [OF fin t] by (simp add: n_def)
  have empty: "holders digest_of ?d w - {t} = {} \<longleftrightarrow> n = 0"
    using fin [of ?d] unfolding n_def by (simp add: card_eq_0_iff)
  have "reserved_digests w' = (if 0 < n then dict_set ?d n (reserved_digests w)
      else dict_del ?d (reserved_digests w))"
    using count let_go(5) by (simp add: unreserve_def dict_get_default_def n)
  then have "dict_get (reserved_digests w') e =
      (if e = ?d then if n = 0 then None else Some n else dict_get (reserved_digests w) e)" for e
    by simp
  with assms(2) holders fin empty n_def show ?thesis unfolding ledger_ok_def by simp
qed

text \<open>The segments of \<open>get_or_create\<close>: task \<open>t\<close> is in a new phase, with one more reservation
  exactly when a backend is handed to it.\<close>

definition ledger_result :: "(pool_key \<Rightarrow> string) \<Rightarrow> nat \<Rightarrow> world \<Rightarrow> world \<Rightarrow> bool" where
  "ledger_result digest_of t w w' \<longleftrightarrow> key_of w' = key_of w \<and>
     (\<exists>ph. phase_of w' = (phase_of w)(t := ph) \<and>
       (let d = digest_of (key_of w t)
        in reserved_digests w' =
             (if handed ph then dict_set d (dict_get_default (reserved_digests w) d 0 + 1) (reserved_digests w)
              else reserved_digests w)))"

lemma ledger_resultI:
  assumes "key_of w' = key_of w" "phase_of w' = (phase_of w)(t := ph)"
    and "reserved_digests w' = (if handed ph
      then dict_set (digest_of (key_of w t))
             (dict_get_default (reserved_digests w) (digest_of (key_of w t)) 0 + 1) (reserved_digests w)
      else reserved_digests w)"
  shows "ledger_result digest_of t w w'"
  using assms unfolding ledger_result_def by (auto simp: Let_def)

lemma respawn_ledger: "ledger_result digest_of t w (goc_respawn d l t now w)"
  by (rule goc_respawn_cases [of d l t now w]) (auto simp: pool_updates intro!: ledger_resultI)

lemma critical_ledger: "ledger_result digest_of t w (goc_critical digest_of l t now w)"
  by (rule goc_critical_cases [of w digest_of t l now])
     (auto simp: pool_updates respawn_ledger intro!: ledger_resultI)

text \<open>A segment may start from a state that differs only in what the ledger does not see.\<close>

lemma ledger_result_cong:
  assumes "ledger_result digest_of t v w'" "phase_of v = phase_of w" "key_of v = key_of w"
    "reserved_digests v = reserved_digests w"
  shows "ledger_result digest_of t w w'"
  using assms(1) unfolding ledger_result_def assms(2-4) .

lemma acquire_ledger: "ledger_result digest_of t w (goc_acquire digest_of l t now w)"
proof (cases "lock_idle (lock_at w l)")
  case True
  then have "goc_acquire digest_of l t now w =
      goc_critical digest_of l t now (set_lock l ((lock_at w l)\<lparr>locked := True\<rparr>) w)"
    by (simp add: goc_acquire_def)
  then show ?thesis
    using ledger_result_cong [OF critical_ledger, of "set_lock l ((lock_at w l)\<lparr>locked := True\<rparr>) w" w]
    by (simp add: pool_updates)
next
  case False
  then show ?thesis by (auto simp: goc_acquire_def pool_updates intro!: ledger_resultI)
qed

lemma resume_ledger: "ledger_result digest_of t w (goc_resume digest_of l t now w)"
  unfolding goc_resume_def
  by (rule ledger_result_cong [OF critical_ledger]) (simp_all add: pool_updates)

lemma quarantine_closed_ledger: "ledger_result digest_of t w (goc_quarantine_closed digest_of l b t ok now w)"
  unfolding goc_quarantine_closed_def Let_def
  by (rule ledger_result_cong [OF respawn_ledger]) (simp_all add: pool_evict_def pool_updates)

lemma stale_closed_ledger: "ledger_result digest_of t w (goc_stale_closed digest_of l b t now w)"
  unfolding goc_stale_closed_def
  by (rule ledger_result_cong [OF respawn_ledger]) (simp_all add: pool_updates)

lemma spawned_ledger: "ledger_result digest_of t w (goc_spawned digest_of l epoch attempt t cred now w)"
  by (rule pool_add_cases [of epoch "launch (key_of w t) cred now w" "digest_of (key_of w t)"
        "next_backend w"])
     (auto simp: goc_spawned_def Let_def pool_updates intro!: ledger_resultI)

lemma discarded_ledger: "ledger_result digest_of t w (goc_discarded digest_of l b attempt t w)"
  by (auto simp: goc_discarded_def Let_def pool_updates intro!: ledger_resultI)

lemma aborted_ledger: "ledger_result digest_of t w (finish d l t (Failed e) (mark_exited b w))"
  by (auto simp: pool_updates intro!: ledger_resultI)

lemma raise_ledger: "goc_raise digest_of t e ph w = Some w' \<Longrightarrow> ledger_result digest_of t w w'"
  by (cases ph) (auto simp: pool_updates split: if_splits intro!: ledger_resultI)

lemma enter_ledger:
  "ledger_result digest_of t (w\<lparr>key_of := (key_of w)(t := key)\<rparr>) (goc_enter digest_of t key now w)"
proof (rule goc_enter_cases [of w digest_of key t now])
  fix b assume "goc_enter digest_of t key now w =
    enter_phase t (Handed b) (reserve (digest_of key) (w\<lparr>key_of := (key_of w)(t := key)\<rparr>))"
  then show ?thesis by (auto simp: pool_updates intro!: ledger_resultI)
next
  fix u l
  assume u: "find_lock (digest_of key) (w\<lparr>key_of := (key_of w)(t := key)\<rparr>) = (u, l)"
    and eq: "goc_enter digest_of t key now w = goc_acquire digest_of l t now u"
  show ?thesis
    unfolding eq
    by (rule ledger_result_cong [OF acquire_ledger])
       (use u in \<open>auto simp: find_lock_def split: option.splits\<close>)
qed

text \<open>Every action is such a segment, a release, or does not touch the ledger at all.\<close>

lemma segment_move:
  assumes "\<not> handed (phase_of w t)" and "ledger_result digest_of t v w'"
    and "phase_of v = phase_of w" "reserved_digests v = reserved_digests w"
    and "\<And>u. u \<noteq> t \<Longrightarrow> key_of v u = key_of w u"
  shows "ledger_move digest_of w w'"
proof -
  from assms(2) obtain ph where k: "key_of w' = key_of v" and ph: "phase_of w' = (phase_of v)(t := ph)"
    and r: "reserved_digests w' = (if handed ph
      then dict_set (digest_of (key_of v t))
             (dict_get_default (reserved_digests v) (digest_of (key_of v t)) 0 + 1) (reserved_digests v)
      else reserved_digests v)"
    by (auto simp: ledger_result_def Let_def)
  show ?thesis
  proof (cases "handed ph")
    case True
    then show ?thesis
      using assms k ph r by (intro hand_out [of w t w' "digest_of (key_of v t)"]) simp_all
  next
    case False
    then show ?thesis using assms k ph r by (intro untouched [of w' t w]) simp_all
  qed
qed

lemma same_ledger_move:
  "phase_of w' = phase_of w \<Longrightarrow> key_of w' = key_of w \<Longrightarrow> reserved_digests w' = reserved_digests w \<Longrightarrow>
     ledger_move digest_of w w'"
  by (rule untouched) simp_all

lemma step_ledger_move: "step digest_of a w = Some w' \<Longrightarrow> ledger_move digest_of w w'"
proof (cases a)
  case (Enter t key now)
  moreover assume "step digest_of a w = Some w'"
  ultimately have "phase_of w t = Resting" "w' = goc_enter digest_of t key now w" by (auto split: if_splits)
  then show ?thesis using segment_move [of w t digest_of, OF _ enter_ledger [of digest_of t w key now]] by simp
next
  case (Resume t now)
  moreover assume "step digest_of a w = Some w'"
  ultimately have "\<not> handed (phase_of w t) \<and> ledger_result digest_of t w w'"
    by (auto simp: resume_ledger split: phase.splits if_splits)
  then show ?thesis by (auto intro: segment_move)
next
  case (Closed t ok now)
  moreover assume "step digest_of a w = Some w'"
  ultimately have "\<not> handed (phase_of w t) \<and> ledger_result digest_of t w w'"
    by (auto simp: quarantine_closed_ledger stale_closed_ledger split: phase.splits if_splits)
  then show ?thesis by (auto intro: segment_move)
next
  case (Spawned t cred now)
  moreover assume "step digest_of a w = Some w'"
  ultimately have "\<not> handed (phase_of w t) \<and> ledger_result digest_of t w w'"
    by (auto simp: spawned_ledger split: phase.splits if_splits)
  then show ?thesis by (auto intro: segment_move)
next
  case (Discarded t)
  moreover assume "step digest_of a w = Some w'"
  ultimately have "\<not> handed (phase_of w t) \<and> ledger_result digest_of t w w'"
    by (auto simp: discarded_ledger aborted_ledger split: phase.splits)
  then show ?thesis by (auto intro: segment_move)
next
  case (Raised t e)
  moreover assume "step digest_of a w = Some w'"
  ultimately have "goc_raise digest_of t e (phase_of w t) w = Some w'" by simp
  moreover from this have "\<not> handed (phase_of w t)" by (cases "phase_of w t") auto
  ultimately show ?thesis using raise_ledger by (intro segment_move [of w t]) simp_all
next
  case (Unreserve t)
  moreover assume "step digest_of a w = Some w'"
  ultimately show ?thesis
    by (auto simp: unreserve_world pool_updates split: phase.splits intro: let_go [of _ t] untouched [of _ t])
next
  case (HeartbeatDead b now)
  moreover assume "step digest_of a w = Some w'"
  ultimately have w': "w' = heartbeat_recycle digest_of b now w" by (auto split: if_splits)
  show ?thesis
    by (rule heartbeat_recycle_cases [of digest_of b now w]) (simp_all add: w' same_ledger_move)
next
  case (HeartbeatAlive b)
  moreover assume "step digest_of a w = Some w'"
  ultimately show ?thesis by (auto simp: note_backend_healthy_def split: option.splits intro!: same_ledger_move)
qed (auto simp: pool_updates cutover_update sweep_idle_def evict_idle_def reap_draining_def
    acquire_exclusive_def register_exclusive_def release_exclusive_def Let_def
    split: phase.splits option.splits if_splits intro!: same_ledger_move)

lemma reachable_ledger: "pool_run digest_of P w \<Longrightarrow> ledger_ok digest_of w"
proof (induction rule: pool_run.induct)
  case (pool_start cap brk store p)
  then have "reserved_digests p = []" by (auto simp: BackendPool_def split: if_splits)
  then show ?case by (simp add: ledger_ok_def holders_def start_world_def pool.defs)
next
  case (pool_step w a w')
  then show ?case by (auto intro: ledger_moves step_ledger_move)
qed

end
