(* ===== verification/Pool_Index.thy ===== *)
theory Pool_Index
  imports Pool_Reservations
begin

text \<open>
  The index of the pool: capacity, the digest of every entry, the private backends, and the
  fence that keeps a backend launched with a superseded credential out of it. Every segment of
  \<open>get_or_create\<close> except the insertion only takes entries away (\<open>segment_result\<close>), so the
  invariants are proved for that relation and once for the insertion.
\<close>

section \<open>Steps that only take entries away\<close>

definition identity :: "backend \<Rightarrow> pool_key \<times> string \<times> nat" where
  "identity b = (pool_key_of b, exclusive_token b, credential_of b)"

definition shrinks :: "(string, nat) dict \<Rightarrow> (string, nat) dict \<Rightarrow> bool" where
  "shrinks d d' \<longleftrightarrow> (\<forall>k v. dict_get d' k = Some v \<longrightarrow> dict_get d k = Some v) \<and>
     (dict_wf d \<longrightarrow> dict_wf d') \<and> length d' \<le> length d"

lemma shrinks_refl [simp]: "shrinks d d" and shrinks_Nil [simp]: "shrinks d []"
  by (simp_all add: shrinks_def)

lemma shrinks_trans: "shrinks d e \<Longrightarrow> shrinks e f \<Longrightarrow> shrinks d f"
  unfolding shrinks_def by (meson order_trans)

lemma shrinks_del [simp]: "shrinks d (dict_del k d)"
  by (simp add: shrinks_def length_dict_del_le)

lemma shrinks_fold_del: "shrinks d (fold dict_del ks d)"
  by (induction ks arbitrary: d) (auto intro: shrinks_trans shrinks_del)

definition same_index :: "world \<Rightarrow> world \<Rightarrow> bool" where
  "same_index w w' \<longleftrightarrow> shrinks (backends w) (backends w') \<and> shrinks (exclusive w) (exclusive w') \<and>
     max_backends w' = max_backends w \<and> next_backend w' = next_backend w \<and>
     (\<forall>b. identity (backend_at w' b) = identity (backend_at w b))"

text \<open>A segment of task \<open>t\<close>: entries are only removed; a backend handed out is the entry of the
  task's digest, and a spawn starts from the current epoch and credential.\<close>

definition segment_result :: "(pool_key \<Rightarrow> string) \<Rightarrow> nat \<Rightarrow> world \<Rightarrow> world \<Rightarrow> bool" where
  "segment_result digest_of t w w' \<longleftrightarrow> key_of w' = key_of w \<and> same_index w w' \<and>
     drain_epoch w' = drain_epoch w \<and> credential w' = credential w \<and>
     drained_credential w' = drained_credential w \<and>
     (\<exists>ph. phase_of w' = (phase_of w)(t := ph) \<and>
       (\<forall>b. ph = Handed b \<longrightarrow> dict_get (backends w) (digest_of (key_of w t)) = Some b) \<and>
       (\<forall>l e a c. ph = Spawning l e a c \<longrightarrow>
          e = drain_epoch w \<and> c = credential w \<and> a \<le> MAX_SPAWN_DRAIN_RETRIES))"

lemma segment_resultI:
  assumes "key_of w' = key_of w" "same_index w w'" "drain_epoch w' = drain_epoch w"
    "credential w' = credential w" "drained_credential w' = drained_credential w"
    "phase_of w' = (phase_of w)(t := ph)"
    "\<And>b. ph = Handed b \<Longrightarrow> dict_get (backends w) (digest_of (key_of w t)) = Some b"
    "\<And>l e a c. ph = Spawning l e a c \<Longrightarrow>
       e = drain_epoch w \<and> c = credential w \<and> a \<le> MAX_SPAWN_DRAIN_RETRIES"
  shows "segment_result digest_of t w w'"
  using assms unfolding segment_result_def by blast

lemma respawn_segment: "segment_result digest_of t w (goc_respawn d l t now w)"
  by (rule goc_respawn_cases [of d l t now w])
     (auto simp: pool_updates same_index_def intro!: segment_resultI)

lemma critical_segment: "segment_result digest_of t w (goc_critical digest_of l t now w)"
  by (rule goc_critical_cases [of w digest_of t l now])
     (auto simp: pool_updates respawn_segment same_index_def intro!: segment_resultI)

lemma segment_result_start:
  assumes "segment_result digest_of t v w'" and "same_index w v" and "phase_of v = phase_of w"
    "key_of v = key_of w" "drain_epoch v = drain_epoch w" "credential v = credential w"
    "drained_credential v = drained_credential w"
  shows "segment_result digest_of t w w'"
proof -
  have "same_index w w'"
    using assms(1,2) unfolding segment_result_def same_index_def by (metis shrinks_trans)
  moreover have "dict_get (backends v) d = Some b \<Longrightarrow> dict_get (backends w) d = Some b" for d b
    using assms(2) by (simp add: same_index_def shrinks_def)
  ultimately show ?thesis using assms unfolding segment_result_def by metis
qed

lemma lock_segment:
  assumes "segment_result digest_of t (set_lock l s w) w'"
  shows "segment_result digest_of t w w'"
  using assms by (rule segment_result_start) (simp_all add: pool_updates same_index_def)

lemma acquire_segment: "segment_result digest_of t w (goc_acquire digest_of l t now w)"
proof (cases "lock_idle (lock_at w l)")
  case True
  then show ?thesis by (simp add: goc_acquire_def lock_segment [OF critical_segment])
next
  case False
  then show ?thesis by (auto simp: goc_acquire_def pool_updates same_index_def intro!: segment_resultI)
qed

lemma resume_segment: "segment_result digest_of t w (goc_resume digest_of l t now w)"
  unfolding goc_resume_def by (rule lock_segment [OF critical_segment])

lemma quarantine_closed_segment: "segment_result digest_of t w (goc_quarantine_closed digest_of l b t ok now w)"
  unfolding goc_quarantine_closed_def Let_def
  by (rule segment_result_start [OF respawn_segment])
     (simp_all add: pool_evict_def pool_updates same_index_def identity_def)

lemma stale_closed_segment: "segment_result digest_of t w (goc_stale_closed digest_of l b t now w)"
  unfolding goc_stale_closed_def
  by (rule segment_result_start [OF respawn_segment])
     (simp_all add: pool_updates same_index_def identity_def)

lemma discarded_segment: "segment_result digest_of t w (goc_discarded digest_of l b attempt t w)"
  by (auto simp: goc_discarded_def Let_def pool_updates same_index_def identity_def
      intro!: segment_resultI)

lemma aborted_segment: "segment_result digest_of t w (finish d l t (Failed e) (mark_exited b w))"
  by (auto simp: pool_updates same_index_def identity_def intro!: segment_resultI)

lemma raise_segment: "goc_raise digest_of t e ph w = Some w' \<Longrightarrow> segment_result digest_of t w w'"
  by (cases ph) (auto simp: pool_updates same_index_def split: if_splits intro!: segment_resultI)

lemma enter_segment:
  "segment_result digest_of t (w\<lparr>key_of := (key_of w)(t := key)\<rparr>) (goc_enter digest_of t key now w)"
proof (rule goc_enter_cases [of w digest_of key t now])
  fix b assume "dict_get (backends w) (digest_of key) = Some b"
    "goc_enter digest_of t key now w =
      enter_phase t (Handed b) (reserve (digest_of key) (w\<lparr>key_of := (key_of w)(t := key)\<rparr>))"
  then show ?thesis by (auto simp: pool_updates same_index_def intro!: segment_resultI)
next
  fix u l
  assume u: "find_lock (digest_of key) (w\<lparr>key_of := (key_of w)(t := key)\<rparr>) = (u, l)"
    and eq: "goc_enter digest_of t key now w = goc_acquire digest_of l t now u"
  show ?thesis
    unfolding eq
    by (rule segment_result_start [OF acquire_segment])
       (use u in \<open>auto simp: find_lock_def same_index_def split: option.splits\<close>)
qed

section \<open>The invariant\<close>

text \<open>The index within its capacity, every entry and every private backend under its own digest or
  token, every backend handed out one of the caller's key, and the credential fence.\<close>

definition index_ok :: "(pool_key \<Rightarrow> string) \<Rightarrow> world \<Rightarrow> bool" where
  "index_ok digest_of w \<longleftrightarrow> dict_wf (backends w) \<and> length (backends w) \<le> max_backends w \<and> dict_wf (exclusive w) \<and>
     (\<forall>d b. dict_get (backends w) d = Some b \<longrightarrow> b < next_backend w \<and>
        digest_of (pool_key_of (backend_at w b)) = d \<and> exclusive_token (backend_at w b) = []) \<and>
     (\<forall>s b. dict_get (exclusive w) s = Some b \<longrightarrow> b < next_backend w \<and>
        exclusive_token (backend_at w b) = s \<and> s \<noteq> []) \<and>
     (\<forall>t b. phase_of w t = Handed b \<longrightarrow> b < next_backend w \<and>
        digest_of (pool_key_of (backend_at w b)) = digest_of (key_of w t))"

definition fence_ok :: "world \<Rightarrow> bool" where
  "fence_ok w \<longleftrightarrow> drained_credential w \<le> credential w \<and>
     (\<forall>d b. dict_get (backends w) d = Some b \<longrightarrow> b < next_backend w \<and>
        drained_credential w \<le> credential_of (backend_at w b)) \<and>
     (\<forall>t l e a c. phase_of w t = Spawning l e a c \<longrightarrow> e \<le> drain_epoch w \<and> c \<le> credential w \<and>
        a \<le> MAX_SPAWN_DRAIN_RETRIES \<and> (e = drain_epoch w \<longrightarrow> drained_credential w \<le> c))"

lemma rejects_ok [simp]:
  "index_ok digest_of (w\<lparr>capacity_rejects := n\<rparr>) = index_ok digest_of w"
  "fence_ok (w\<lparr>capacity_rejects := n\<rparr>) = fence_ok w"
  "index_ok digest_of (w\<lparr>reserved_digests := r\<rparr>) = index_ok digest_of w"
  "fence_ok (w\<lparr>reserved_digests := r\<rparr>) = fence_ok w"
  by (simp_all add: index_ok_def fence_ok_def del: map_of_eq_Some_iff)

lemma identity_eq:
  "identity b = identity b' \<longleftrightarrow> pool_key_of b = pool_key_of b' \<and>
     exclusive_token b = exclusive_token b' \<and> credential_of b = credential_of b'"
  by (simp add: identity_def)

lemma same_indexD:
  assumes "same_index w w'"
  shows "dict_get (backends w') d = Some b \<Longrightarrow> dict_get (backends w) d = Some b"
    "dict_get (exclusive w') s = Some b \<Longrightarrow> dict_get (exclusive w) s = Some b"
    "dict_wf (backends w) \<Longrightarrow> dict_wf (backends w')" "dict_wf (exclusive w) \<Longrightarrow> dict_wf (exclusive w')"
    "length (backends w') \<le> length (backends w)" "max_backends w' = max_backends w"
    "next_backend w' = next_backend w" "pool_key_of (backend_at w' b) = pool_key_of (backend_at w b)"
    "exclusive_token (backend_at w' b) = exclusive_token (backend_at w b)"
    "credential_of (backend_at w' b) = credential_of (backend_at w b)"
  using assms unfolding same_index_def shrinks_def identity_eq by simp_all

lemma same_index_ok:
  assumes "index_ok digest_of w" "same_index w w'"
    and "\<And>t b. phase_of w' t = Handed b \<Longrightarrow>
      (phase_of w t = Handed b \<or> dict_get (backends w) (digest_of (key_of w' t)) = Some b) \<and>
      (phase_of w t = Handed b \<longrightarrow> digest_of (key_of w' t) = digest_of (key_of w t))"
  shows "index_ok digest_of w'"
proof -
  note same = same_indexD [OF assms(2)]
  have "length (backends w') \<le> max_backends w'"
    using assms(1) same(5,6) unfolding index_ok_def by linarith
  moreover have "b < next_backend w' \<and>
      digest_of (pool_key_of (backend_at w' b)) = digest_of (key_of w' t)"
    if "phase_of w' t = Handed b" for t b
    using assms(1) assms(3) [OF that] unfolding index_ok_def same(7-9) by (metis that)
  ultimately show ?thesis using assms(1) same(1-4) unfolding index_ok_def same(7-9) by blast
qed

lemma same_index_fence:
  assumes "fence_ok w" "same_index w w'" "drained_credential w' = drained_credential w"
    "credential w \<le> credential w'" "drain_epoch w' = drain_epoch w"
    and "\<And>t l e a c. phase_of w' t = Spawning l e a c \<Longrightarrow> phase_of w t = Spawning l e a c \<or>
      e = drain_epoch w \<and> c = credential w \<and> a \<le> MAX_SPAWN_DRAIN_RETRIES"
  shows "fence_ok w'"
proof -
  note same = same_indexD [OF assms(2)]
  have "e \<le> drain_epoch w' \<and> c \<le> credential w' \<and> a \<le> MAX_SPAWN_DRAIN_RETRIES \<and>
      (e = drain_epoch w' \<longrightarrow> drained_credential w' \<le> c)" if "phase_of w' t = Spawning l e a c" for t l e a c
    using assms(1) assms(6) [OF that] assms(3-5) unfolding fence_ok_def
    by (metis order_trans order_refl)
  moreover have "drained_credential w' \<le> credential w'"
    using assms(1,3,4) unfolding fence_ok_def by linarith
  ultimately show ?thesis
    using assms(1) same(1) unfolding fence_ok_def same(7,10) assms(3) by blast
qed

lemma segment_ok:
  assumes "index_ok digest_of w" "fence_ok w" "segment_result digest_of t v w'"
    and "phase_of v = phase_of w" "same_index w v" "drain_epoch v = drain_epoch w"
    "credential v = credential w" "drained_credential v = drained_credential w"
    "\<And>u. u \<noteq> t \<Longrightarrow> key_of v u = key_of w u"
    and "\<And>b. phase_of w t \<noteq> Handed b"
  shows "index_ok digest_of w' \<and> fence_ok w'"
proof
  obtain ph where ph: "phase_of w' = (phase_of v)(t := ph)" and same: "same_index v w'"
    and keys: "key_of w' = key_of v"
    and handed: "\<forall>b. ph = Handed b \<longrightarrow> dict_get (backends v) (digest_of (key_of v t)) = Some b"
    and spawning: "\<forall>l e a c. ph = Spawning l e a c \<longrightarrow>
      e = drain_epoch v \<and> c = credential v \<and> a \<le> MAX_SPAWN_DRAIN_RETRIES"
    and rest: "drain_epoch w' = drain_epoch v" "credential w' = credential v"
      "drained_credential w' = drained_credential v"
    using assms(3) by (auto simp: segment_result_def)
  have index: "same_index w w'"
    using assms(5) same unfolding same_index_def by (metis shrinks_trans)
  have entry: "dict_get (backends v) d = Some b \<Longrightarrow> dict_get (backends w) d = Some b" for d b
    using assms(5) by (simp add: same_index_def shrinks_def)
  show "index_ok digest_of w'"
  proof (rule same_index_ok [OF assms(1) index])
    fix u b assume "phase_of w' u = Handed b"
    then show "(phase_of w u = Handed b \<or> dict_get (backends w) (digest_of (key_of w' u)) = Some b) \<and>
      (phase_of w u = Handed b \<longrightarrow> digest_of (key_of w' u) = digest_of (key_of w u))"
      using ph handed keys entry assms(4,9,10) by (cases "u = t") auto
  qed
  show "fence_ok w'"
  proof (rule same_index_fence [OF assms(2) index])
    fix u l e a c assume "phase_of w' u = Spawning l e a c"
    then show "phase_of w u = Spawning l e a c \<or>
        e = drain_epoch w \<and> c = credential w \<and> a \<le> MAX_SPAWN_DRAIN_RETRIES"
      using ph spawning assms(4,6,7) by (cases "u = t") auto
  qed (simp_all add: rest assms(6-8))
qed

section \<open>Every action keeps it\<close>

text \<open>The insertion: below the capacity, or in place of the victim.\<close>

lemma pick_step_member:
  "pick_step p oldest e = Some v \<Longrightarrow> v = e \<and> reclaimable p (fst e) (snd e) \<and> \<not> pinned (backend_at p (snd e)) \<or>
     oldest = Some v"
  by (auto simp: pick_step_def split: if_splits option.splits)

lemma pick_lru_idle_member:
  assumes "pick_lru_idle p = Some (d, b)"
  shows "(d, b) \<in> set (backends p) \<and> reclaimable p d b \<and> \<not> pinned (backend_at p b)"
proof -
  have "foldl (pick_step p) oldest es = Some v \<Longrightarrow>
      v \<in> set es \<and> reclaimable p (fst v) (snd v) \<and> \<not> pinned (backend_at p (snd v)) \<or> oldest = Some v"
    for es oldest v
  proof (induction es arbitrary: oldest)
    case (Cons e es)
    from Cons.prems have "foldl (pick_step p) (pick_step p oldest e) es = Some v" by simp
    from Cons.IH [OF this] show ?case by (auto dest: pick_step_member)
  qed simp
  from this [of None "backends p" "(d, b)"] assms show ?thesis by (simp add: pick_lru_idle_def)
qed

lemma index_okD:
  assumes "index_ok digest_of w"
  shows "dict_wf (backends w)" "length (backends w) \<le> max_backends w" "dict_wf (exclusive w)"
    "dict_get (backends w) d = Some b \<Longrightarrow> b < next_backend w"
    "dict_get (backends w) d = Some b \<Longrightarrow> digest_of (pool_key_of (backend_at w b)) = d"
    "dict_get (backends w) d = Some b \<Longrightarrow> exclusive_token (backend_at w b) = []"
    "dict_get (exclusive w) s = Some b \<Longrightarrow> b < next_backend w"
    "dict_get (exclusive w) s = Some b \<Longrightarrow> exclusive_token (backend_at w b) = s"
    "dict_get (exclusive w) s = Some b \<Longrightarrow> s \<noteq> []"
    "phase_of w t = Handed b \<Longrightarrow> b < next_backend w"
    "phase_of w t = Handed b \<Longrightarrow>
      digest_of (pool_key_of (backend_at w b)) = digest_of (key_of w t)"
  using assms unfolding index_ok_def by blast+

lemma fence_okD:
  assumes "fence_ok w"
  shows "drained_credential w \<le> credential w"
    "dict_get (backends w) d = Some b \<Longrightarrow> b < next_backend w"
    "dict_get (backends w) d = Some b \<Longrightarrow> drained_credential w \<le> credential_of (backend_at w b)"
    "phase_of w t = Spawning l e a c \<Longrightarrow> e \<le> drain_epoch w"
    "phase_of w t = Spawning l e a c \<Longrightarrow> c \<le> credential w"
    "phase_of w t = Spawning l e a c \<Longrightarrow> a \<le> MAX_SPAWN_DRAIN_RETRIES"
    "phase_of w t = Spawning l e a c \<Longrightarrow> e = drain_epoch w \<Longrightarrow> drained_credential w \<le> c"
  using assms unfolding fence_ok_def by blast+

text \<open>Growing the store of backends by one leaves the old ones as they are.\<close>

lemma grown_ok:
  assumes "index_ok digest_of w" "fence_ok w"
    and "backends w' = backends w" "max_backends w' = max_backends w" "phase_of w' = phase_of w"
      "key_of w' = key_of w" "next_backend w' = next_backend w + 1" "credential w' = credential w"
      "drained_credential w' = drained_credential w" "drain_epoch w' = drain_epoch w"
    and "\<And>b. b < next_backend w \<Longrightarrow> backend_at w' b = backend_at w b"
    and "dict_wf (exclusive w')"
    and "\<And>s b. dict_get (exclusive w') s = Some b \<Longrightarrow> dict_get (exclusive w) s = Some b \<or>
           b = next_backend w \<and> exclusive_token (backend_at w' b) = s \<and> s \<noteq> []"
  shows "index_ok digest_of w' \<and> fence_ok w'"
proof
  note old = index_okD [OF assms(1)] and new = assms(3-10)
  show "index_ok digest_of w'"
    unfolding index_ok_def new
  proof (intro conjI allI impI)
    fix s b assume "dict_get (exclusive w') s = Some b"
    from assms(13) [OF this] consider "dict_get (exclusive w) s = Some b"
      | "b = next_backend w \<and> exclusive_token (backend_at w' b) = s \<and> s \<noteq> []" by blast
    then show "b < next_backend w + 1" "exclusive_token (backend_at w' b) = s" "s \<noteq> []"
      by (cases; use old(7-9) [of s b] assms(11) [of b] in \<open>simp del: map_of_eq_Some_iff\<close>)+
  next
    fix d b assume e: "dict_get (backends w) d = Some b"
    show "b < next_backend w + 1" "digest_of (pool_key_of (backend_at w' b)) = d"
      "exclusive_token (backend_at w' b) = []"
      using old(4-6) [OF e] assms(11) by simp_all
  next
    fix t b assume h: "phase_of w t = Handed b"
    show "b < next_backend w + 1"
      "digest_of (pool_key_of (backend_at w' b)) = digest_of (key_of w t)"
      using old(10,11) [OF h] assms(11) by simp_all
  qed (use old assms(12) in simp_all)
  show "fence_ok w'"
    using assms(2) assms(11) unfolding fence_ok_def new by (metis less_SucI Suc_eq_plus1)
qed

lemma insert_ok:
  assumes ok: "index_ok digest_of w" "fence_ok w" and ph: "phase_of w t = Spawning l (drain_epoch w) a c0"
    and cred: "c0 \<le> cred" "cred \<le> credential w"
    and d: "d = digest_of (key_of w t)"
    and sub: "shrinks (backends w) es" "length es < max_backends w"
    and w': "backends w' = dict_set d (next_backend w) es" "exclusive w' = exclusive w"
      "max_backends w' = max_backends w" "next_backend w' = next_backend w + 1"
      "backend_at w' = (backend_at w)(next_backend w := new_backend (key_of w t) cred now)"
      "phase_of w' = (phase_of w)(t := Handed (next_backend w))" "key_of w' = key_of w"
      "credential w' = credential w" "drained_credential w' = drained_credential w"
      "drain_epoch w' = drain_epoch w"
  shows "index_ok digest_of w' \<and> fence_ok w'"
proof -
  have entry: "dict_get es k = Some b \<Longrightarrow> dict_get (backends w) k = Some b" for k b
    using sub(1) by (simp add: shrinks_def)
  have old: "dict_get (backends w) k = Some b \<Longrightarrow> b < next_backend w" for k b
    using ok(1) unfolding index_ok_def by blast
  have wf: "dict_wf es" using ok(1) sub(1) unfolding index_ok_def shrinks_def by blast
  have len: "length (dict_set d (next_backend w) es) \<le> max_backends w"
    using sub(2) by (simp add: length_dict_set)
  have fresh: "drained_credential w \<le> cred"
    using fence_okD(7) [OF ok(2) ph] cred(1) by simp
  note D = index_okD [OF ok(1)] and F = fence_okD [OF ok(2)]
  have "index_ok digest_of w'"
    unfolding index_ok_def w'
  proof (intro conjI allI impI)
    fix k b assume "dict_get (dict_set d (next_backend w) es) k = Some b"
    then consider "k = d" "b = next_backend w" | "dict_get (backends w) k = Some b"
      using entry [of k b] by (cases "k = d") (simp_all del: map_of_eq_Some_iff)
    then show "b < next_backend w + 1"
      "digest_of (pool_key_of (((backend_at w)(next_backend w := new_backend (key_of w t) cred now)) b)) = k"
      "exclusive_token (((backend_at w)(next_backend w := new_backend (key_of w t) cred now)) b) = []"
      by (cases; use D(4-6) [of k b] d in \<open>auto simp: new_backend_def\<close>)+
  next
    fix s b assume e: "dict_get (exclusive w) s = Some b"
    show "b < next_backend w + 1" "s \<noteq> []"
      "exclusive_token (((backend_at w)(next_backend w := new_backend (key_of w t) cred now)) b) = s"
      using D(7-9) [OF e] by simp_all
  next
    fix u b assume h: "((phase_of w)(t := Handed (next_backend w))) u = Handed b"
    then show "b < next_backend w + 1"
      "digest_of (pool_key_of (((backend_at w)(next_backend w := new_backend (key_of w t) cred now)) b)) =
         digest_of (key_of w u)"
      using D(10,11) [of u b] by (auto simp: new_backend_def split: if_splits)
  qed (use D wf len in simp_all)
  moreover have "fence_ok w'"
    unfolding fence_ok_def w'
  proof (intro conjI allI impI)
    fix k b assume "dict_get (dict_set d (next_backend w) es) k = Some b"
    then consider "k = d" "b = next_backend w" | "dict_get (backends w) k = Some b"
      using entry [of k b] by (cases "k = d") (simp_all del: map_of_eq_Some_iff)
    then show "b < next_backend w + 1" "drained_credential w \<le>
        credential_of (((backend_at w)(next_backend w := new_backend (key_of w t) cred now)) b)"
      by (cases; use F(2,3) [of k b] fresh in \<open>auto simp: new_backend_def\<close>)+
  next
    fix u l e a c assume "((phase_of w)(t := Handed (next_backend w))) u = Spawning l e a c"
    then have h: "phase_of w u = Spawning l e a c" by (simp split: if_splits)
    show "e \<le> drain_epoch w" "c \<le> credential w" "a \<le> MAX_SPAWN_DRAIN_RETRIES"
      "e = drain_epoch w \<Longrightarrow> drained_credential w \<le> c"
      using F(4-7) [OF h] by simp_all
  qed (rule F(1))
  ultimately show ?thesis ..
qed

lemma launch_ok:
  assumes "index_ok digest_of w" "fence_ok w"
  shows "index_ok digest_of (launch key cred now w) \<and> fence_ok (launch key cred now w)"
  by (rule grown_ok [OF assms]) (simp_all add: launch_def index_okD(3) [OF assms(1)])

lemma quiet_phase:
  assumes "index_ok digest_of w" "fence_ok w" "\<And>b. ph \<noteq> Handed b" "\<And>l e a c. ph \<noteq> Spawning l e a c"
  shows "index_ok digest_of (enter_phase t ph w) \<and> fence_ok (enter_phase t ph w)"
proof
  have same: "same_index w (enter_phase t ph w)" by (simp add: same_index_def enter_phase_def)
  show "index_ok digest_of (enter_phase t ph w)"
    by (rule same_index_ok [OF assms(1) same]) (use assms(3) in \<open>auto simp: enter_phase_def split: if_splits\<close>)
  show "fence_ok (enter_phase t ph w)"
    by (rule same_index_fence [OF assms(2) same])
       (use assms(4) in \<open>auto simp: enter_phase_def split: if_splits\<close>)
qed

lemma spawned_ok:
  assumes ok: "index_ok digest_of w" "fence_ok w" and ph: "phase_of w t = Spawning l epoch a c0"
    and cred: "c0 \<le> cred" "cred \<le> credential w"
  shows "index_ok digest_of (goc_spawned digest_of l epoch a t cred now w) \<and> fence_ok (goc_spawned digest_of l epoch a t cred now w)"
proof -
  let ?d = "digest_of (key_of w t)" and ?v = "launch (key_of w t) cred now w"
  note start = launch_ok [OF ok, of "key_of w t" cred now]
  have failed: "index_ok digest_of (enter_phase t ph' ?v) \<and> fence_ok (enter_phase t ph' ?v)"
    "index_ok digest_of (enter_phase t ph' (?v\<lparr>capacity_rejects := n\<rparr>)) \<and>
     fence_ok (enter_phase t ph' (?v\<lparr>capacity_rejects := n\<rparr>))"
    if "\<And>b. ph' \<noteq> Handed b" "\<And>l e a c. ph' \<noteq> Spawning l e a c" for n ph'
    by (rule quiet_phase; use start that in simp)+
  show ?thesis
  proof (rule pool_add_cases [of epoch ?v ?d "next_backend w"])
    assume "length (backends ?v) < max_backends ?v" "epoch = drain_epoch ?v"
      "pool_add ?d (next_backend w) True (Some epoch) ?v =
         (reserve ?d (?v\<lparr>backends := dict_set ?d (next_backend w) (backends ?v)\<rparr>), None)"
    then show ?thesis
      using ph by (intro insert_ok [OF ok _ cred refl, of t l a "backends w" _ now])
        (simp_all add: goc_spawned_def Let_def pool_updates)
  next
    fix d' b'
    assume a: "pick_lru_idle ?v = Some (d', b')" "epoch = drain_epoch ?v"
      "pool_add ?d (next_backend w) True (Some epoch) ?v =
         (reserve ?d (?v\<lparr>spawn_locks := dict_del d' (spawn_locks ?v), evictions_lru := evictions_lru ?v + 1,
            shutdown_tasks := shutdown_tasks ?v @ [b'],
            backends := dict_set ?d (next_backend w) (dict_del d' (backends ?v))\<rparr>), None)"
    have "d' \<in> fst ` set (backends w)"
      using pick_lru_idle_member [OF a(1)] by (force simp: launch_def)
    then have "length (dict_del d' (backends w)) < max_backends w"
      using ok(1) length_dict_del_present [of "backends w" d'] unfolding index_ok_def by simp
    then show ?thesis
      using ph a by (intro insert_ok [OF ok _ cred refl, of t l a "dict_del d' (backends w)" _ now])
        (simp_all add: goc_spawned_def Let_def pool_updates)
  qed (simp_all add: goc_spawned_def Let_def failed)
qed

lemma idle_sweep_same: "same_index w (sweep_idle older pin now w)"
  by (simp add: sweep_idle_def evict_idle_def Let_def same_index_def shrinks_fold_del)

text \<open>The remaining actions leave the tasks alone and only take entries away.\<close>

lemma quiet_ok:
  assumes "index_ok digest_of w" "fence_ok w" "same_index w w'" "phase_of w' = phase_of w" "key_of w' = key_of w"
    "drained_credential w' = drained_credential w" "credential w \<le> credential w'" "drain_epoch w' = drain_epoch w"
  shows "index_ok digest_of w' \<and> fence_ok w'"
  using same_index_ok [OF assms(1,3)] same_index_fence [OF assms(2,3,6-8)] assms(4,5) by simp

lemma cutover_ok:
  "index_ok digest_of w \<Longrightarrow> fence_ok w \<Longrightarrow> index_ok digest_of (credential_cutover now w) \<and> fence_ok (credential_cutover now w)"
  by (auto simp: cutover_update index_ok_def fence_ok_def)
     (meson le_SucI not_less_eq_eq)+

lemma exclusive_ok:
  assumes "index_ok digest_of w" "fence_ok w" "stub \<noteq> []"
  shows "index_ok digest_of (acquire_exclusive stub key cred now w) \<and> fence_ok (acquire_exclusive stub key cred now w)"
proof (rule grown_ok [OF assms(1,2)])
  let ?w' = "acquire_exclusive stub key cred now w"
  have ex: "exclusive ?w' = dict_set stub (next_backend w) (dict_del stub (exclusive w))"
    and at: "backend_at ?w' = (backend_at w)(next_backend w :=
      (new_backend key cred now)\<lparr>exclusive_token := stub\<rparr>)"
    by (simp_all add: acquire_exclusive_def register_exclusive_def launch_def split: option.split)
  show "dict_wf (exclusive ?w')" unfolding ex using index_okD(3) [OF assms(1)] by simp
  fix s b assume "dict_get (exclusive ?w') s = Some b"
  then show "dict_get (exclusive w) s = Some b \<or>
      b = next_backend w \<and> exclusive_token (backend_at ?w' b) = s \<and> s \<noteq> []"
    unfolding ex at using assms(3) by (simp del: map_of_eq_Some_iff split: if_splits)
qed (simp_all add: acquire_exclusive_def register_exclusive_def launch_def split: option.split)

theorem step_ok:
  assumes "index_ok digest_of w" "fence_ok w" "step digest_of a w = Some w'"
  shows "index_ok digest_of w' \<and> fence_ok w'"
proof -
  have segment: "index_ok digest_of w' \<and> fence_ok w'"
    if "segment_result digest_of t w w'" "\<And>b. phase_of w t \<noteq> Handed b" for t
    by (rule segment_ok [OF assms(1,2) that(1)]) (use that(2) in \<open>simp_all add: same_index_def\<close>)
  note quiet = quiet_ok [OF assms(1,2), of w']
  show ?thesis
  proof (cases a)
    case (Enter t key now)
    with assms(3) have "phase_of w t = Resting" "w' = goc_enter digest_of t key now w" by (auto split: if_splits)
    then show ?thesis
      by (intro segment_ok [OF assms(1,2), OF enter_segment [of digest_of t w key now, folded \<open>w' = _\<close>]])
         (simp_all add: same_index_def)
  next
    case (Resume t now)
    with assms(3) show ?thesis by (intro segment [of t]) (auto simp: resume_segment split: phase.splits if_splits)
  next
    case (Closed t ok now)
    with assms(3) show ?thesis
      by (intro segment [of t])
         (auto simp: quarantine_closed_segment stale_closed_segment split: phase.splits if_splits)
  next
    case (Spawned t cred now)
    with assms(3) show ?thesis using spawned_ok [OF assms(1,2)] by (auto split: phase.splits if_splits)
  next
    case (Discarded t)
    with assms(3) show ?thesis
      by (intro segment [of t]) (auto simp: discarded_segment aborted_segment split: phase.splits if_splits)
  next
    case (Raised t e)
    with assms(3) have r: "goc_raise digest_of t e (phase_of w t) w = Some w'" by simp
    then have "phase_of w t \<noteq> Handed b" for b by auto
    with r show ?thesis using raise_segment by (intro segment [of t])
  next
    case (Cutover now)
    with assms(3) show ?thesis using cutover_ok [OF assms(1,2)] by auto
  next
    case (AcquireExclusive stub key cred now)
    with assms(3) show ?thesis using exclusive_ok [OF assms(1,2)] by (auto split: if_splits)
  next
    case (HeartbeatDead b now)
    with assms(3) have w': "w' = heartbeat_recycle digest_of b now w" by (auto split: if_splits)
    show ?thesis
      by (rule heartbeat_recycle_cases [of digest_of b now w]) (rule quiet; simp add: w' same_index_def)+
  next
    case (Unreserve t)
    obtain r where "unreserve (digest_of (key_of w t)) w = w\<lparr>reserved_digests := r\<rparr>"
      using unreserve_update by metis
    then have "index_ok digest_of (enter_phase t Resting v) \<and> fence_ok (enter_phase t Resting v)"
      if "v = w \<or> v = unreserve (digest_of (key_of w t)) w" for v
      using that assms(1,2) by (intro quiet_phase) auto
    with Unreserve assms(3) show ?thesis by (auto split: phase.splits)
  next
    case (HeartbeatAlive b)
    with assms(3) show ?thesis
      by (intro quiet) (auto simp: same_index_def note_backend_healthy_def split: option.splits)
  qed (rule quiet; use assms(3) in \<open>auto simp: same_index_def pool_updates identity_def sweep_idle_def
      evict_idle_def shrinks_fold_del reap_draining_def release_exclusive_def Let_def
      attach_stub_def detach_stub_def touch_def recycle_if_idle_def
      split: phase.splits option.splits if_splits\<close>)+
qed

lemma reachable_ok: "pool_run digest_of P w \<Longrightarrow> index_ok digest_of w \<and> fence_ok w"
proof (induction rule: pool_run.induct)
  case (pool_start cap brk store p)
  then have "backends p = []" "exclusive p = []" by (auto simp: BackendPool_def split: if_splits)
  then show ?case by (simp add: index_ok_def fence_ok_def start_world_def pool.defs)
next
  case (pool_step w a w')
  then show ?case using step_ok by blast
qed

lemmas reachable_index = reachable_ok [THEN conjunct1, THEN index_okD(1)]
  reachable_ok [THEN conjunct1, THEN index_okD(2)] reachable_ok [THEN conjunct1, THEN index_okD(3)]

end
