(* ===== verification/Pool_Safety.thy ===== *)
theory Pool_Safety
  imports Pool_Index
begin

text \<open>
  What the pool promises, over every interleaving of its callers with the gateway's sweepers:
  the sharing boundary, the capacity, the choice of the victim, the protection of backends in
  use or handed out, the credential fence, and the exactness of the lookup by digest.
\<close>

section \<open>A sample run\<close>

text \<open>A pool of one backend: a caller spawns it, attaches, and a second caller shares it.\<close>

definition sample_store :: "nat \<Rightarrow> backend" where
  "sample_store b = new_backend (sample_key []) 0 0"

definition sample_pool :: pool where
  "sample_pool = \<lparr>max_backends = 1, breaker = None, deaths_seen = [], backends = [],
     spawn_locks = [], reserved_digests = [], shutdown_tasks = [], evictions_idle = 0,
     evictions_lru = 0, spawns = 0, capacity_rejects = 0, draining = [], exclusive = [],
     drain_epoch = 0, backend_at = sample_store, next_backend = 0, lock_at = (\<lambda>_. fresh_lock),
     next_lock = 0\<rparr>"

lemma sample_pool_new: "BackendPool 1 None sample_store = Inr sample_pool"
  by (simp add: BackendPool_def sample_pool_def)

lemma run_steps:
  "pool_run digest_of P w \<Longrightarrow> (\<And>a v. a \<in> set as \<Longrightarrow> P a v) \<Longrightarrow> steps digest_of as w = Some w' \<Longrightarrow> pool_run digest_of P w'"
proof (induction as arbitrary: w)
  case (Cons a as)
  then obtain v where v: "step digest_of a w = Some v" "steps digest_of as v = Some w'" by (auto split: option.splits)
  have "pool_run digest_of P v" using pool_run.pool_step [OF Cons.prems(1) _ v(1)] Cons.prems(2) by simp
  then show ?case using Cons.IH Cons.prems(2) v(2) by simp
qed simp

text \<open>The state after a list of actions from the start, and what is observed there.\<close>

definition after :: "pool_action list \<Rightarrow> world" where
  "after as = the (steps sandbox_mode as (start_world sample_pool))"

definition observe :: "pool_action list \<Rightarrow> (world \<Rightarrow> bool) \<Rightarrow> bool" where
  "observe as P = (case steps sandbox_mode as (start_world sample_pool) of None \<Rightarrow> False | Some w \<Rightarrow> P w)"

lemma observed:
  assumes "observe as P"
  shows "reachable sandbox_mode (after as)" "P (after as)"
proof -
  obtain w where w: "steps sandbox_mode as (start_world sample_pool) = Some w" "P w"
    using assms by (auto simp: observe_def split: option.splits)
  then show "P (after as)" by (simp add: after_def)
  have "reachable sandbox_mode w"
    by (rule run_steps [OF pool_run.pool_start [OF sample_pool_new] _ w(1)]) simp
  with w(1) show "reachable sandbox_mode (after as)" by (simp add: after_def)
qed

definition sharing :: "pool_action list" where
  "sharing = [Enter 0 (sample_key ''a'') 10, Spawned 0 0 11, Attach 0 ''s0'' 12, Unreserve 0,
     Enter 1 (sample_key ''a'') 13]"

lemma sharing_observed:
  "observe sharing (\<lambda>w. phase_of w 1 = Handed 0 \<and> refcount (backend_at w 0) = 1 \<and> spawns w = 1)"
  by code_simp

section \<open>The sharing boundary\<close>

text \<open>C10. A caller is only ever handed a backend that was spawned for its own pool key, whatever
  the other callers and the sweepers do, as long as the hash does not collide on the two keys.\<close>

theorem handed_backend_has_the_callers_key:
  assumes "reachable (stable_hash sha) w" and "phase_of w t = Handed b"
    and "inj_on sha {pool_payload (pool_key_of (backend_at w b)), pool_payload (key_of w t)}"
  shows "pool_key_of (backend_at w b) = key_of w t"
proof -
  have "stable_hash sha (pool_key_of (backend_at w b)) = stable_hash sha (key_of w t)"
    using reachable_ok [OF assms(1)] assms(2) index_okD(11) by blast
  then show ?thesis
    using stable_hash_inj [of sha "{pool_key_of (backend_at w b), key_of w t}"] assms(3) by simp
qed

text \<open>The index never outgrows its capacity, and an entry's digest is that of its backend's key.\<close>

theorem pool_stays_within_capacity:
  assumes "reachable digest_of w"
  shows "length (backends w) \<le> max_backends w \<and> distinct (map fst (backends w)) \<and>
    (\<forall>(d, b) \<in> set (backends w). digest_of (pool_key_of (backend_at w b)) = d)"
proof -
  note D = index_okD [OF reachable_ok [OF assms, THEN conjunct1]]
  have "digest_of (pool_key_of (backend_at w b)) = d" if "(d, b) \<in> set (backends w)" for d b
    using that D(5) [of d b] D(1) by simp
  with D(1,2) show ?thesis by auto
qed

lemma pool_stays_within_capacity_witness:
  "length (backends (after sharing)) \<le> max_backends (after sharing) \<and> backends (after sharing) = [(''a'', 0)]"
proof
  show "length (backends (after sharing)) \<le> max_backends (after sharing)"
    using pool_stays_within_capacity [OF observed(1) [OF sharing_observed]] by blast
  have "observe sharing (\<lambda>w. backends w = [(''a'', 0)])" by code_simp
  then show "backends (after sharing) = [(''a'', 0)]" by (rule observed(2))
qed

section \<open>What a reclaim may take\<close>

definition least_recent :: "'a pool_scheme \<Rightarrow> string \<times> nat \<Rightarrow> bool" where
  "least_recent p v \<longleftrightarrow> (\<forall>(d, b) \<in> set (backends p). reclaimable p d b \<and> \<not> pinned (backend_at p b) \<longrightarrow>
     last_used_at (backend_at p (snd v)) \<le> last_used_at (backend_at p b))"

text \<open>Under capacity pressure the victim is an idle, unreserved, unpinned backend that was used
  no later than any other such backend, and there is none only if every entry is in use.\<close>

theorem victim_is_least_recently_used:
  "case pick_lru_idle p of
     None \<Rightarrow> \<forall>(d, b) \<in> set (backends p). \<not> reclaimable p d b \<or> pinned (backend_at p b)
   | Some (d, b) \<Rightarrow> (d, b) \<in> set (backends p) \<and> reclaimable p d b \<and> \<not> pinned (backend_at p b) \<and>
       least_recent p (d, b)"
proof -
  define free where "free = (\<lambda>e :: string \<times> nat. reclaimable p (fst e) (snd e) \<and> \<not> pinned (backend_at p (snd e)))"
  define used where "used = (\<lambda>e :: string \<times> nat. last_used_at (backend_at p (snd e)))"
  define best where "best = (\<lambda>es oldest. case oldest of
      None \<Rightarrow> \<forall>e \<in> set es. \<not> free e
    | Some v \<Rightarrow> v \<in> set es \<and> free v \<and> (\<forall>e \<in> set es. free e \<longrightarrow> used v \<le> used e))"
  have step: "best (es @ [e]) (pick_step p oldest e)" if "best es oldest" for es oldest e
    using that by (cases oldest) (force simp: best_def pick_step_def free_def used_def)+
  have "best (ds @ es) (foldl (pick_step p) oldest es)" if "best ds oldest" for ds es oldest
    using that
  proof (induction es arbitrary: ds oldest)
    case (Cons e es)
    from Cons.IH [OF step [OF Cons.prems]] show ?case by simp
  qed simp
  from this [of "[]" None "backends p"] have "best (backends p) (pick_lru_idle p)"
    by (simp add: best_def pick_lru_idle_def)
  then show ?thesis
    by (auto simp: best_def free_def used_def least_recent_def split: option.splits)
qed

text \<open>Who keeps a backend from being reclaimed: a stub attached to it, or a caller about to attach.\<close>

definition claimed :: "(pool_key \<Rightarrow> string) \<Rightarrow> world \<Rightarrow> string \<Rightarrow> nat \<Rightarrow> bool" where
  "claimed digest_of w d b \<longleftrightarrow> stubs (backend_at w b) \<noteq> [] \<or>
     (\<exists>t b'. phase_of w t = Handed b' \<and> digest_of (key_of w t) = d)"

lemma claimed_not_reclaimable:
  assumes "ledger_ok digest_of w" "claimed digest_of w d b"
  shows "\<not> reclaimable w d b"
proof (cases "stubs (backend_at w b) = []")
  case True
  with assms(2) obtain t b' where t: "phase_of w t = Handed b'" "digest_of (key_of w t) = d"
    by (auto simp: claimed_def)
  then have "t \<in> holders digest_of d w" by (simp add: holders_def)
  then have "dict_get (reserved_digests w) d \<noteq> None" using assms(1) unfolding ledger_ok_def by auto
  then show ?thesis by (auto simp: reclaimable_def is_reserved_def map_of_eq_None_iff)
qed (simp add: reclaimable_def refcount_def)

lemma claimed_iff_not_reclaimable:
  assumes "ledger_ok digest_of w"
  shows "claimed digest_of w d b \<longleftrightarrow> \<not> reclaimable w d b"
proof
  assume "\<not> reclaimable w d b"
  then consider "stubs (backend_at w b) \<noteq> []" | "dict_get (reserved_digests w) d \<noteq> None"
    by (auto simp: reclaimable_def is_reserved_def refcount_def map_of_eq_None_iff)
  then show "claimed digest_of w d b"
  proof cases
    case 2
    then have "holders digest_of d w \<noteq> {}" using assms by (auto simp: ledger_ok_def)
    then show ?thesis
      by (auto simp: claimed_def holders_def handed_iff)
  qed (simp add: claimed_def)
qed (rule claimed_not_reclaimable [OF assms])

lemma fold_dict_del_get:
  "dict_get (fold dict_del ks d) k = (if k \<in> set ks then None else dict_get d k)"
  by (induction ks arbitrary: d) auto

lemma idle_sweep_keeps:
  assumes "\<not> reclaimable w d b" "dict_get (backends w) d = Some b" "dict_wf (backends w)"
  shows "dict_get (backends (sweep_idle older pin now w)) d = Some b"
proof -
  have "d \<notin> fst ` set (filter (idle_stale (now - older) pin w) (backends w))"
  proof
    assume "d \<in> fst ` set (filter (idle_stale (now - older) pin w) (backends w))"
    then obtain b' where "(d, b') \<in> set (backends w)" "reclaimable w d b'"
      by (auto simp: idle_stale_def Let_def)
    with assms show False by simp
  qed
  with assms(2) show ?thesis by (simp add: sweep_idle_def evict_idle_def Let_def fold_dict_del_get)
qed

lemma reclaimable_launch:
  "b < next_backend w \<Longrightarrow> reclaimable (launch key cred now w) d b = reclaimable w d b"
  by (simp add: reclaimable_def launch_def is_reserved_def)

lemma insertion_keeps:
  assumes "\<not> reclaimable w d b" "dict_get (backends w) d = Some b" "dict_wf (backends w)" "b < next_backend w"
  shows "dict_get (backends (goc_spawned digest_of l epoch a t cred now w)) d = Some b"
proof -
  let ?k = "digest_of (key_of w t)" and ?v = "launch (key_of w t) cred now w"
  have present: "d \<in> fst ` set (backends w)" using assms(2) by (force dest: dict_get_Some_in_set)
  have same: "backends ?v = backends w" by (simp add: launch_def)
  show ?thesis
  proof (rule pool_add_cases [of epoch ?v ?k "next_backend w"])
    fix d' b'
    assume v: "pick_lru_idle ?v = Some (d', b')" "?k \<notin> fst ` set (backends ?v)"
      "pool_add ?k (next_backend w) True (Some epoch) ?v =
         (reserve ?k (?v\<lparr>spawn_locks := dict_del d' (spawn_locks ?v), evictions_lru := evictions_lru ?v + 1,
            shutdown_tasks := shutdown_tasks ?v @ [b'],
            backends := dict_set ?k (next_backend w) (dict_del d' (backends ?v))\<rparr>), None)"
    have "(d', b') \<in> set (backends w)" "reclaimable ?v d' b'"
      using pick_lru_idle_member [OF v(1)] by (simp_all add: launch_def)
    then have "d' \<noteq> d"
      using assms reclaimable_launch [OF assms(4)] by (metis dict_get_eq_Some option.inject)
    moreover have "d \<noteq> ?k" using v(2) present unfolding same by metis
    ultimately show ?thesis
      using v(3) assms(2) by (simp add: goc_spawned_def Let_def pool_updates)
  next
    assume "?k \<notin> fst ` set (backends ?v)"
      "pool_add ?k (next_backend w) True (Some epoch) ?v =
         (reserve ?k (?v\<lparr>backends := dict_set ?k (next_backend w) (backends ?v)\<rparr>), None)"
    moreover from this have "d \<noteq> ?k" using present unfolding same by metis
    ultimately show ?thesis using assms(2) by (simp add: goc_spawned_def Let_def pool_updates)
  qed (use assms(2) in \<open>simp_all add: goc_spawned_def Let_def pool_updates\<close>)
qed

text \<open>C18. Neither an idle sweep nor another caller's insertion under capacity pressure takes a backend
  that has a stub attached or that has been handed to a caller not yet attached.\<close>

theorem claimed_backend_survives_reclaim:
  assumes "reachable digest_of w" and "dict_get (backends w) d = Some b" "claimed digest_of w d b"
    and "a = IdleSweep older pinned_too now \<or> a = Spawned t cred now" "step digest_of a w = Some w'"
  shows "dict_get (backends w') d = Some b"
proof -
  note D = index_okD [OF reachable_ok [OF assms(1), THEN conjunct1]]
  have "\<not> reclaimable w d b" using claimed_not_reclaimable reachable_ledger assms(1,3) by blast
  with assms(2,4,5) D(1,4) show ?thesis
    by (auto simp: idle_sweep_keeps insertion_keeps split: phase.splits if_splits simp del: map_of_eq_Some_iff)
qed

lemma claimed_backend_survives_reclaim_witness:
  "dict_get (backends (sweep_idle 0 True 99 (after sharing))) ''a'' = Some 0"
proof -
  have o: "observe sharing (\<lambda>w. dict_get (backends w) ''a'' = Some 0 \<and> stubs (backend_at w 0) \<noteq> [])"
    by code_simp
  show ?thesis
    by (rule claimed_backend_survives_reclaim [OF observed(1) [OF o],
          where a = "IdleSweep 0 True 99" and t = 0 and cred = 0 and b = 0])
       (use observed(2) [OF o] in \<open>auto simp: claimed_def\<close>)
qed

section \<open>Cutover to a new credential\<close>

text \<open>C17. No backend launched with a credential older than the last cutover is in the index, so no
  later caller is handed one, however a spawn and the cutovers interleave.\<close>

theorem no_backend_predates_the_cutover:
  assumes "reachable digest_of w" "dict_get (backends w) d = Some b"
  shows "drained_credential w \<le> credential_of (backend_at w b)"
  using reachable_ok [OF assms(1)] assms(2) fence_okD(3) by blast

definition rotating :: "pool_action list" where
  "rotating = [Enter 0 (sample_key ''a'') 10, Rotate, Cutover 11, Spawned 0 0 12, Discarded 0,
     Spawned 0 1 13]"

lemma no_backend_predates_the_cutover_witness:
  "dict_get (backends (after rotating)) ''a'' = Some 1 \<and>
   1 \<le> credential_of (backend_at (after rotating) 1) \<and> exited (backend_at (after rotating) 0)"
proof -
  have o: "observe rotating (\<lambda>w. dict_get (backends w) ''a'' = Some 1 \<and> drained_credential w = 1 \<and>
      exited (backend_at w 0))"
    by code_simp
  then show ?thesis
    using no_backend_predates_the_cutover [OF observed(1) [OF o], of "''a''" 1] observed(2) [OF o] by simp
qed

text \<open>A backend moved out by a cutover is kept, until its deadline, as long as a stub is attached
  or its digest is handed out; the first reap without either, or from the deadline on, shuts it
  down.\<close>

theorem draining_backend_finishes_its_work:
  assumes "reachable digest_of w" "e \<in> set (draining w)" "step digest_of (Reap now) w = Some w'"
  shows "if now < d_deadline e \<and> claimed digest_of w (d_digest e) (d_backend e)
         then e \<in> set (draining w') else e \<notin> set (draining w') \<and> d_backend e \<in> set (closing w')"
proof -
  have "reapable now w e \<longleftrightarrow> \<not> (now < d_deadline e \<and> claimed digest_of w (d_digest e) (d_backend e))"
    using claimed_iff_not_reclaimable [OF reachable_ledger [OF assms(1)]]
    by (auto simp: reapable_def reclaimable_def)
  with assms(2,3) show ?thesis by (auto simp: reap_draining_def)
qed

definition cut_over :: "pool_action list" where
  "cut_over = sharing @ [Rotate, Cutover 20]"

lemma draining_backend_finishes_its_work_witness:
  "(\<exists>w'. step sandbox_mode (Reap 30) (after cut_over) = Some w' \<and> d_backend (hd (draining w')) = 0) \<and>
   (\<exists>w'. step sandbox_mode (Reap 80) (after cut_over) = Some w' \<and> 0 \<in> set (closing w'))"
proof -
  define e where "e = \<lparr>d_backend = 0, d_deadline = 80, d_digest = ''a''\<rparr>"
  have o: "observe cut_over (\<lambda>w. draining w = [\<lparr>d_backend = 0, d_deadline = 80, d_digest = ''a''\<rparr>] \<and>
      stubs (backend_at w 0) \<noteq> [])"
    by code_simp
  have e: "draining (after cut_over) = [e]" "claimed sandbox_mode (after cut_over) (d_digest e) (d_backend e)"
    using observed(2) [OF o] by (simp_all add: e_def claimed_def)
  note rule = draining_backend_finishes_its_work [OF observed(1) [OF o], of e]
  obtain v where v: "step sandbox_mode (Reap 30) (after cut_over) = Some v" by (simp add: Let_def reap_draining_def)
  obtain u where u: "step sandbox_mode (Reap 80) (after cut_over) = Some u" by (simp add: Let_def reap_draining_def)
  have "set (draining v) \<subseteq> {e}" using v e(1) by (auto simp: reap_draining_def split: if_splits)
  moreover have "e \<in> set (draining v)" using rule [OF _ v] e by (simp add: e_def)
  ultimately have "hd (draining v) = e" by (metis empty_iff hd_in_set list.set(1) singletonD subsetD)
  moreover have "0 \<in> set (closing u)" using rule [OF _ u] e by (simp add: e_def)
  ultimately show ?thesis using u v by (simp add: e_def)
qed

section \<open>The lookup of an application callback\<close>

lemma token_split:
  assumes "CHR '':'' \<notin> set xs" "CHR '':'' \<notin> set ys" "xs @ CHR '':'' # s = ys @ CHR '':'' # t"
  shows "s = t"
  using assms
proof (induction xs arbitrary: ys)
  case Nil
  then show ?case by (cases ys) auto
next
  case (Cons x xs)
  from Cons.prems Cons.IH [of "tl ys"] show ?case by (cases ys) auto
qed

lemma find_unique:
  assumes "\<And>x y. x \<in> set xs \<Longrightarrow> y \<in> set xs \<Longrightarrow> P x \<Longrightarrow> P y \<Longrightarrow> x = y"
  shows "find P xs = Some b \<longleftrightarrow> b \<in> set xs \<and> P b"
proof
  show "find P xs = Some b \<Longrightarrow> b \<in> set xs \<and> P b" by (auto simp: find_Some_iff)
next
  assume b: "b \<in> set xs \<and> P b"
  then have "find P xs \<noteq> None" by (auto simp: find_None_iff)
  then obtain c where c: "find P xs = Some c" by blast
  then have "c \<in> set xs" "P c" by (auto simp: find_Some_iff)
  with assms b c show "find P xs = Some b" by blast
qed

text \<open>Which backend has which storage digest.\<close>

lemma storage_digests:
  assumes "index_ok digest_of w"
  shows "(k, c) \<in> set (backends w) \<Longrightarrow> storage_digest digest_of (backend_at w c) = k \<and> (\<exists>x. k = digest_of x)"
    and "(s, c) \<in> set (exclusive w) \<Longrightarrow> \<exists>x. storage_digest digest_of (backend_at w c) = digest_of x @ CHR '':'' # s"
proof -
  note D = index_okD [OF assms]
  show "storage_digest digest_of (backend_at w c) = k \<and> (\<exists>x. k = digest_of x)" if "(k, c) \<in> set (backends w)"
    using D(5,6) [of k c] D(1) that by (auto simp: storage_digest_def)
  show "\<exists>x. storage_digest digest_of (backend_at w c) = digest_of x @ CHR '':'' # s" if "(s, c) \<in> set (exclusive w)"
    using D(8,9) [of s c] D(3) that by (auto simp: storage_digest_def Let_def)
qed

lemma storage_digests_differ:
  assumes ok: "index_ok digest_of w" and no_colon: "\<And>k. CHR '':'' \<notin> set (digest_of k)"
    and b: "b \<in> snd ` set (backends w) \<union> snd ` set (exclusive w)"
    and c: "c \<in> snd ` set (backends w) \<union> snd ` set (exclusive w)"
    and eq: "storage_digest digest_of (backend_at w b) = storage_digest digest_of (backend_at w c)"
  shows "b = c"
proof -
  note D = index_okD [OF ok] and S = storage_digests [OF ok]
  have mixed: False if "(k, x) \<in> set (backends w)" "(s, y) \<in> set (exclusive w)"
    "storage_digest digest_of (backend_at w x) = storage_digest digest_of (backend_at w y)" for k s x y
    using S(1) [OF that(1)] S(2) [OF that(2)] that(3) no_colon by (metis in_set_conv_decomp)
  from b c consider k k' where "(k, b) \<in> set (backends w)" "(k', c) \<in> set (backends w)"
    | s s' where "(s, b) \<in> set (exclusive w)" "(s', c) \<in> set (exclusive w)"
    using mixed eq by force
  then show ?thesis
  proof cases
    case 1
    then show ?thesis using S(1) eq D(1) by (metis eq_key_imp_eq_value)
  next
    case 2
    then have "s = s'" using S(2) [OF 2(1)] S(2) [OF 2(2)] eq token_split no_colon by metis
    with 2 D(3) show ?thesis by (metis eq_key_imp_eq_value)
  qed
qed

text \<open>The lookup by storage digest finds exactly the live backend of the index or of a private
  connection that has this storage digest, and there is at most one: it never lands on another
  connection's private backend. The digests contain no colon (they are hexadecimal).\<close>

theorem app_callback_reaches_only_its_backend:
  assumes "reachable digest_of w" and no_colon: "\<And>k. CHR '':'' \<notin> set (digest_of k)"
  shows "get_by_digest digest_of d w = Some b \<longleftrightarrow>
    is_alive (backend_at w b) \<and> storage_digest digest_of (backend_at w b) = d \<and>
    b \<in> snd ` set (backends w) \<union> snd ` set (exclusive w)"
proof -
  have ok: "index_ok digest_of w" using reachable_ok [OF assms(1)] by blast
  note differ = storage_digests_differ [OF ok no_colon]
  have found: "find (\<lambda>b. storage_digest digest_of (backend_at w b) = d) (map snd (exclusive w)) = Some b \<longleftrightarrow>
      b \<in> set (map snd (exclusive w)) \<and> storage_digest digest_of (backend_at w b) = d"
    by (rule find_unique) (auto intro: differ)
  show ?thesis
  proof (cases "dict_get (backends w) d")
    case None
    then have "\<not> (b \<in> snd ` set (backends w) \<and> storage_digest digest_of (backend_at w b) = d)"
      using storage_digests(1) [OF ok, of d b] storage_digests(1) [OF ok, of _ b] by (force simp: map_of_eq_None_iff)
    with None found show ?thesis by (auto simp: get_by_digest_def Let_def split: option.splits if_splits)
  next
    case (Some c)
    then have c: "(d, c) \<in> set (backends w)" by (rule dict_get_Some_in_set)
    then have "storage_digest digest_of (backend_at w c) = d" "c \<in> snd ` set (backends w)"
      using storage_digests(1) [OF ok c] by force+
    then have "storage_digest digest_of (backend_at w b) = d \<and> b \<in> snd ` set (backends w) \<union> snd ` set (exclusive w) \<longleftrightarrow> b = c"
      using differ [of b c] by (metis UnI1)
    then show ?thesis using Some by (auto simp: get_by_digest_def Let_def simp del: map_of_eq_Some_iff)
  qed
qed

text \<open>One caller spawns a backend for itself, whatever the digests are.\<close>

lemma first_spawn:
  "\<exists>w. reachable digest_of w \<and> phase_of w 0 = Handed 0 \<and> key_of w 0 = key \<and>
     backends w = [(digest_of key, 0)] \<and> backend_at w 0 = new_backend key 0 11"
proof -
  obtain w where w: "steps digest_of [Enter 0 key 10, Spawned 0 0 11] (start_world sample_pool) = Some w"
    "phase_of w 0 = Handed 0" "key_of w 0 = key" "backends w = [(digest_of key, 0)]"
    "backend_at w 0 = new_backend key 0 11"
    by (simp add: start_world_def sample_pool_def pool.defs goc_enter_def find_lock_def goc_acquire_def
        lock_idle_def fresh_lock_def goc_critical_def goc_respawn_def breaker_refuses_def goc_spawned_def
        pool_add_def Let_def pool_updates)
  have "reachable digest_of w"
    by (rule run_steps [OF pool_run.pool_start [OF sample_pool_new] _ w(1)]) simp
  with w show ?thesis by blast
qed

lemma handed_backend_has_the_callers_key_witness:
  "\<exists>w. reachable (stable_hash (\<lambda>s. s)) w \<and> phase_of w 0 = Handed 0 \<and>
     pool_key_of (backend_at w 0) = sample_key ''a''"
proof -
  obtain w where w: "reachable (stable_hash (\<lambda>s. s)) w" "phase_of w 0 = Handed 0" "key_of w 0 = sample_key ''a''"
    using first_spawn by blast
  from handed_backend_has_the_callers_key [OF w(1,2)] w show ?thesis by auto
qed

lemma app_callback_reaches_only_its_backend_witness:
  "\<exists>w. reachable (\<lambda>_. ''x'') w \<and> get_by_digest (\<lambda>_. ''x'') ''x'' w = Some 0"
proof -
  obtain w where w: "reachable (\<lambda>_. ''x'') w" "backends w = [(''x'', 0)]"
    "backend_at w 0 = new_backend (sample_key []) 0 11"
    using first_spawn [of "\<lambda>_. ''x''" "sample_key []"] by blast
  from app_callback_reaches_only_its_backend [OF w(1), of "''x''" 0] w show ?thesis
    by (auto simp: storage_digest_def new_backend_def is_alive_def)
qed

end
