(* ===== verification/Pool_Locks.thy ===== *)
theory Pool_Locks
  imports Pool_Safety
begin

text \<open>
  The per-key spawn locks. The code counts on evictions dropping only locks nobody holds or
  waits for; \<open>calm\<close> says that of an action. \<open>locks_inv\<close> ties each task that holds or waits for
  a lock to the lock's flag and queue and to the table, and every calm action preserves it.
\<close>

section \<open>Calm actions\<close>

definition lock_free :: "world \<Rightarrow> string \<Rightarrow> bool" where
  "lock_free w d \<longleftrightarrow> (case dict_get (spawn_locks w) d of None \<Rightarrow> True | Some l \<Rightarrow> lock_idle (lock_at w l))"

fun calm :: "(pool_key \<Rightarrow> string) \<Rightarrow> pool_action \<Rightarrow> world \<Rightarrow> bool" where
  "calm digest_of (HeartbeatDead b now) w =
     (let d = digest_of (pool_key_of (backend_at w b))
      in dict_get (backends w) d = Some b \<longrightarrow> lock_free w d)"
| "calm digest_of (IdleSweep older pin now) w =
     list_all (\<lambda>(d, b). idle_stale (now - older) pin w (d, b) \<longrightarrow> lock_free w d) (backends w)"
| "calm digest_of (Spawned t cred now) w =
     (case pick_lru_idle w of None \<Rightarrow> True | Some (d, b) \<Rightarrow> lock_free w d)"
| "calm digest_of _ w = True"

section \<open>The invariant\<close>

fun hold_of :: "phase \<Rightarrow> nat option" where
  "hold_of (ClosingQuarantined l b) = Some l"
| "hold_of (ClosingStale l b) = Some l"
| "hold_of (Spawning l e a c) = Some l"
| "hold_of (Discarding l b a) = Some l"
| "hold_of (Aborting l b x) = Some l"
| "hold_of _ = None"

fun wait_of :: "phase \<Rightarrow> nat option" where
  "wait_of (Waiting l) = Some l"
| "wait_of _ = None"

lemma hold_wait: "hold_of ph = Some l \<Longrightarrow> wait_of ph = None"
  by (cases ph) auto

text \<open>What a phase says of the index: past the second look the digest is absent, except that the
  quarantined backend may still be there; and no insertion has collided.\<close>

fun phase_fits :: "phase \<Rightarrow> nat option \<Rightarrow> bool" where
  "phase_fits (ClosingQuarantined l b) entry = (entry = None \<or> entry = Some b)"
| "phase_fits (ClosingStale l b) entry = (entry = None)"
| "phase_fits (Spawning l e a c) entry = (entry = None)"
| "phase_fits (Discarding l b a) entry = (entry = None)"
| "phase_fits (Aborting l b x) entry = (entry = None \<and> x \<noteq> PoolKeyCollision)"
| "phase_fits (Failed x) entry = (x \<noteq> PoolKeyCollision)"
| "phase_fits _ entry = True"

text \<open>The invariant takes the phases as an argument, so that it can be stated between two
  suspensions of a task.\<close>

definition users_ok :: "(pool_key \<Rightarrow> string) \<Rightarrow> (nat \<Rightarrow> phase) \<Rightarrow> world \<Rightarrow> bool" where
  "users_ok digest_of f w \<longleftrightarrow>
     (\<forall>t l. hold_of (f t) = Some l \<longrightarrow> locked (lock_at w l)) \<and>
     (\<forall>t u l. hold_of (f t) = Some l \<longrightarrow> hold_of (f u) = Some l \<longrightarrow> t = u) \<and>
     (\<forall>l. locked (lock_at w l) \<longrightarrow> (\<exists>t. hold_of (f t) = Some l)) \<and>
     (\<forall>l. distinct (waiters (lock_at w l)) \<and> set (waiters (lock_at w l)) = {t. wait_of (f t) = Some l}) \<and>
     (\<forall>t l. hold_of (f t) = Some l \<or> wait_of (f t) = Some l \<longrightarrow>
        dict_get (spawn_locks w) (digest_of (key_of w t)) = Some l)"

definition table_ok :: "world \<Rightarrow> bool" where
  "table_ok w \<longleftrightarrow>
     (\<forall>d e l. dict_get (spawn_locks w) d = Some l \<longrightarrow> dict_get (spawn_locks w) e = Some l \<longrightarrow> d = e) \<and>
     (\<forall>d l. dict_get (spawn_locks w) d = Some l \<longrightarrow> l < next_lock w) \<and>
     (\<forall>d l. dict_get (spawn_locks w) d = Some l \<longrightarrow>
        dict_get (backends w) d \<noteq> None \<or> \<not> lock_idle (lock_at w l))"

definition phases_ok :: "(pool_key \<Rightarrow> string) \<Rightarrow> (nat \<Rightarrow> phase) \<Rightarrow> world \<Rightarrow> bool" where
  "phases_ok digest_of f w \<longleftrightarrow>
     (\<forall>t. phase_fits (f t) (dict_get (backends w) (digest_of (key_of w t))))"

definition locks_inv :: "(pool_key \<Rightarrow> string) \<Rightarrow> (nat \<Rightarrow> phase) \<Rightarrow> world \<Rightarrow> bool" where
  "locks_inv digest_of f w \<longleftrightarrow> users_ok digest_of f w \<and> table_ok w \<and> phases_ok digest_of f w"

lemma locks_invI:
  "users_ok digest_of f w \<Longrightarrow> table_ok w \<Longrightarrow> phases_ok digest_of f w \<Longrightarrow> locks_inv digest_of f w"
  by (simp add: locks_inv_def)

lemma locks_inv_waiters:
  assumes "locks_inv digest_of f w"
  shows "distinct (waiters (lock_at w l))" "set (waiters (lock_at w l)) = {t. wait_of (f t) = Some l}"
  using assms by (simp_all add: locks_inv_def users_ok_def)

lemma locks_inv_users:
  assumes "locks_inv digest_of f w"
  shows "hold_of (f t) = Some l \<Longrightarrow> locked (lock_at w l)"
    "hold_of (f t) = Some l \<Longrightarrow> hold_of (f u) = Some l \<Longrightarrow> t = u"
    "locked (lock_at w l) \<Longrightarrow> \<exists>t. hold_of (f t) = Some l"
    "hold_of (f t) = Some l \<Longrightarrow> dict_get (spawn_locks w) (digest_of (key_of w t)) = Some l"
    "wait_of (f t) = Some l \<Longrightarrow> dict_get (spawn_locks w) (digest_of (key_of w t)) = Some l"
  using assms by (simp_all add: locks_inv_def users_ok_def)

lemma locks_inv_table:
  assumes "locks_inv digest_of f w"
  shows "dict_get (spawn_locks w) d = Some l \<Longrightarrow> dict_get (spawn_locks w) e = Some l \<Longrightarrow> d = e"
    "dict_get (spawn_locks w) d = Some l \<Longrightarrow> l < next_lock w"
    "dict_get (spawn_locks w) d = Some l \<Longrightarrow> dict_get (backends w) d = None \<Longrightarrow> \<not> lock_idle (lock_at w l)"
    "phase_fits (f t) (dict_get (backends w) (digest_of (key_of w t)))"
  using assms unfolding locks_inv_def table_ok_def phases_ok_def by blast+

lemmas locks_invD = locks_inv_users(1-3) locks_inv_waiters locks_inv_users(4,5) locks_inv_table

lemma users_ok_cong:
  "key_of w' = key_of w \<Longrightarrow> spawn_locks w' = spawn_locks w \<Longrightarrow> lock_at w' = lock_at w \<Longrightarrow>
   users_ok digest_of f w' = users_ok digest_of f w"
  unfolding users_ok_def by (simp only:)

lemma locks_inv_cong:
  "key_of w' = key_of w \<Longrightarrow> spawn_locks w' = spawn_locks w \<Longrightarrow> lock_at w' = lock_at w \<Longrightarrow>
   next_lock w' = next_lock w \<Longrightarrow> backends w' = backends w \<Longrightarrow>
   locks_inv digest_of f w' = locks_inv digest_of f w"
  unfolding locks_inv_def users_ok_def table_ok_def phases_ok_def by (simp only:)

text \<open>An idle lock has no user.\<close>

lemma idle_unused:
  assumes "locks_inv digest_of f w" "lock_idle (lock_at w l)"
  shows "hold_of (f t) \<noteq> Some l \<and> wait_of (f t) \<noteq> Some l"
  using locks_invD(1,5) [OF assms(1), where l = l] assms(2) by (auto simp: lock_idle_def)

text \<open>Staying inside the critical section.\<close>

lemma stay_inv:
  assumes "locks_inv digest_of g w" "hold_of (g t) = Some l" "hold_of (f t) = Some l"
    and "\<And>u. u \<noteq> t \<Longrightarrow> f u = g u" "phase_fits (f t) (dict_get (backends w) (digest_of (key_of w t)))"
  shows "locks_inv digest_of f w"
proof -
  have h: "hold_of (f u) = hold_of (g u)" for u using assms(2-4) by (cases "u = t") simp_all
  have v: "wait_of (f u) = wait_of (g u)" for u using assms(2-4) by (cases "u = t") (simp_all add: hold_wait)
  have p: "phase_fits (f u) (dict_get (backends w) (digest_of (key_of w u)))" for u
    using locks_invD(11) [OF assms(1), of u] assms(4,5) by (cases "u = t") simp_all
  show ?thesis
    using assms(1) p unfolding locks_inv_def users_ok_def phases_ok_def h v by blast
qed

text \<open>Removing the entry of a digest one holds the lock of.\<close>

lemma fits_None: "phase_fits ph e \<Longrightarrow> phase_fits ph None"
  by (cases ph) simp_all

lemma evict_held_inv:
  assumes "locks_inv digest_of f w" "hold_of (f t) = Some l"
  shows "locks_inv digest_of f (w\<lparr>backends := dict_del (digest_of (key_of w t)) (backends w)\<rparr>)"
    (is "locks_inv _ _ ?w")
proof -
  note D = locks_invD [OF assms(1)]
  have l: "dict_get (spawn_locks w) (digest_of (key_of w t)) = Some l" "locked (lock_at w l)"
    using D(1,6) [of t l] assms(2) by simp_all
  have "\<not> lock_idle (lock_at w k)" if "dict_get (spawn_locks w) d = Some k"
    "dict_get (backends ?w) d = None" for d k
  proof (cases "d = digest_of (key_of w t)")
    case True
    with that(1) l show ?thesis by (simp add: lock_idle_def)
  next
    case False
    with that D(10) [of d k] show ?thesis by (simp del: map_of_eq_None_iff)
  qed
  then have "table_ok ?w"
    using assms(1) unfolding locks_inv_def table_ok_def by (simp del: map_of_eq_None_iff)
  moreover have "phases_ok digest_of f ?w"
    unfolding phases_ok_def using D(11) fits_None [OF D(11)] by simp
  moreover have "users_ok digest_of f ?w"
    using assms(1) users_ok_cong [of ?w w] by (simp add: locks_inv_def)
  ultimately show ?thesis by (intro locks_invI)
qed

text \<open>Leaving the critical section: the lock is released and, if nobody needs it, dropped.\<close>

lemma finish_inv:
  assumes "locks_inv digest_of g w" "hold_of (g t) = Some l"
    and "hold_of (f t) = None" "wait_of (f t) = None" "phase_fits (f t) None" "\<And>u. u \<noteq> t \<Longrightarrow> f u = g u"
    and "d = digest_of (key_of w t)"
  shows "locks_inv digest_of f (finish d l t ph w)"
proof -
  note D = locks_invD [OF assms(1)]
  let ?lk = "(lock_at w l)\<lparr>locked := False\<rparr>"
  let ?drop = "d \<notin> fst ` set (backends w) \<and> dict_get (spawn_locks w) d = Some l \<and> lock_idle ?lk"
  have at: "lock_at (finish d l t ph w) = (lock_at w)(l := ?lk)" by (simp add: pool_updates)
  have table: "spawn_locks (finish d l t ph w) = (if ?drop then dict_del d (spawn_locks w) else spawn_locks w)"
    by (simp add: pool_updates)
  have rest: "key_of (finish d l t ph w) = key_of w" "backends (finish d l t ph w) = backends w"
    "next_lock (finish d l t ph w) = next_lock w"
    by (simp_all add: pool_updates)
  have own: "dict_get (spawn_locks w) d = Some l" using D(6) [of t l] assms(2,7) by simp
  have h: "hold_of (f u) = Some k \<longleftrightarrow> u \<noteq> t \<and> hold_of (g u) = Some k" for u k
    using assms(2,3,6) by (cases "u = t") simp_all
  have v: "wait_of (f u) = wait_of (g u)" for u
    using assms(2,4,6) by (cases "u = t") (simp_all add: hold_wait)
  have sole: "u = t" if "hold_of (g u) = Some l" for u using D(2) [OF that assms(2)] .
  have kept: "dict_get (spawn_locks (finish d l t ph w)) (digest_of (key_of w u)) = Some k"
    if "u \<noteq> t \<and> hold_of (g u) = Some k \<or> wait_of (g u) = Some k" for u k
  proof -
    have e: "dict_get (spawn_locks w) (digest_of (key_of w u)) = Some k" using that D(6,7) by blast
    have "\<not> (?drop \<and> digest_of (key_of w u) = d)"
    proof
      assume a: "?drop \<and> digest_of (key_of w u) = d"
      with e have "k = l" by simp
      with that sole have "wait_of (g u) = Some l" by blast
      then have "u \<in> set (waiters (lock_at w l))" unfolding D(5) by simp
      with a show False by (simp add: lock_idle_def)
    qed
    with e show ?thesis unfolding table by auto
  qed
  have "users_ok digest_of f (finish d l t ph w)"
    unfolding users_ok_def at rest h v
  proof (intro conjI allI impI)
    fix u k assume u: "u \<noteq> t \<and> hold_of (g u) = Some k"
    with sole have "k \<noteq> l" by blast
    with D(1) [of u k] u show "locked (((lock_at w)(l := ?lk)) k)" by simp
  next
    fix k assume k: "locked (((lock_at w)(l := ?lk)) k)"
    then have "k \<noteq> l" by auto
    with k have "locked (lock_at w k)" by simp
    with D(3) [of k] obtain u where "hold_of (g u) = Some k" by blast
    with \<open>k \<noteq> l\<close> assms(2) show "\<exists>u. u \<noteq> t \<and> hold_of (g u) = Some k" by (intro exI [of _ u]) auto
  next
    fix k
    show "distinct (waiters (((lock_at w)(l := ?lk)) k))" using D(4) [of k] D(4) [of l] by simp
    show "set (waiters (((lock_at w)(l := ?lk)) k)) = {u. wait_of (g u) = Some k}"
      using D(5) [of k] D(5) [of l] by simp
  next
    fix u k assume "u \<noteq> t \<and> hold_of (g u) = Some k \<or> wait_of (g u) = Some k"
    then show "dict_get (spawn_locks (finish d l t ph w)) (digest_of (key_of w u)) = Some k" by (rule kept)
  qed (use D(2) in blast)
  moreover have "table_ok (finish d l t ph w)"
  proof -
    have sub: "dict_get (spawn_locks w) e = Some k"
      if "dict_get (spawn_locks (finish d l t ph w)) e = Some k" for e k
      using that unfolding table by (simp del: map_of_eq_Some_iff split: if_splits)
    have "dict_get (backends w) e \<noteq> None \<or> \<not> lock_idle (((lock_at w)(l := ?lk)) k)"
      if "dict_get (spawn_locks (finish d l t ph w)) e = Some k" for e k
    proof (cases "k = l")
      case False
      with D(10) [OF sub [OF that]] show ?thesis by auto
    next
      case True
      with D(8) [OF sub [OF that], of d] own have e: "e = d" by simp
      with that True have "\<not> ?drop" unfolding table by (simp split: if_splits)
      with own True e show ?thesis by (auto simp: map_of_eq_None_iff)
    qed
    with D(8,9) sub show ?thesis unfolding table_ok_def rest at by blast
  qed
  moreover have "phases_ok digest_of f (finish d l t ph w)"
    unfolding phases_ok_def rest
  proof
    fix u
    have "phase_fits (f t) e" for e using assms(3-5) by (cases "f t") simp_all
    with D(11) [of u] assms(6) show "phase_fits (f u) (dict_get (backends w) (digest_of (key_of w u)))"
      by (cases "u = t") simp_all
  qed
  ultimately show ?thesis by (intro locks_invI)
qed

section \<open>The segments of a caller\<close>

lemma finish_phase: "phase_of (finish d l t ph w) = (phase_of w)(t := ph)"
  by (simp add: pool_updates)

text \<open>A segment starts with the lock held, in a phase \<open>g t\<close> that need not be the stored one.\<close>

lemma finish_locks:
  assumes "locks_inv digest_of g w" "hold_of (g t) = Some l" "\<And>u. u \<noteq> t \<Longrightarrow> phase_of w u = g u"
    and "hold_of ph = None" "wait_of ph = None" "phase_fits ph None" "d = digest_of (key_of w t)"
  shows "locks_inv digest_of (phase_of (finish d l t ph w)) (finish d l t ph w)"
  by (rule finish_inv [OF assms(1,2)]) (use assms(3-7) in \<open>simp_all add: finish_phase\<close>)

lemma enter_locks:
  assumes "locks_inv digest_of g w" "hold_of (g t) = Some l" "\<And>u. u \<noteq> t \<Longrightarrow> phase_of w u = g u"
    and "hold_of ph = Some l" "phase_fits ph (dict_get (backends w) (digest_of (key_of w t)))"
  shows "locks_inv digest_of (phase_of (enter_phase t ph w)) (enter_phase t ph w)"
proof -
  have "locks_inv digest_of (phase_of (enter_phase t ph w)) w"
    by (rule stay_inv [OF assms(1,2)]) (use assms(3-5) in \<open>simp_all add: enter_phase_def\<close>)
  then show ?thesis by (subst locks_inv_cong [of _ w]) (simp_all add: enter_phase_def)
qed

lemma respawn_locks:
  assumes "locks_inv digest_of g w" "hold_of (g t) = Some l" "\<And>u. u \<noteq> t \<Longrightarrow> phase_of w u = g u"
    and "dict_get (backends w) (digest_of (key_of w t)) = None" "d = digest_of (key_of w t)"
  shows "locks_inv digest_of (phase_of (goc_respawn d l t now w)) (goc_respawn d l t now w)"
proof -
  have inv: "locks_inv digest_of g (w\<lparr>deaths_seen := ds\<rparr>)" for ds
    using assms(1) by (subst locks_inv_cong [of _ w]) simp_all
  show ?thesis
  proof (rule goc_respawn_cases [of d l t now w])
    fix ds assume "goc_respawn d l t now w = finish d l t (Failed BackendUnavailable) (w\<lparr>deaths_seen := ds\<rparr>)"
    then show ?thesis
      using finish_locks [OF inv assms(2)] assms(3,5) by simp
  next
    fix ds assume "goc_respawn d l t now w = start_spawn l t 0 (w\<lparr>deaths_seen := ds\<rparr>)"
    then show ?thesis
      using enter_locks [OF inv assms(2)] assms(3,4) by (simp add: start_spawn_def del: map_of_eq_None_iff)
  qed
qed

lemma critical_locks:
  assumes "locks_inv digest_of g w" "hold_of (g t) = Some l" "\<And>u. u \<noteq> t \<Longrightarrow> phase_of w u = g u"
  shows "locks_inv digest_of (phase_of (goc_critical digest_of l t now w)) (goc_critical digest_of l t now w)"
proof (rule goc_critical_cases [of w digest_of t l now])
  assume "dict_get (backends w) (digest_of (key_of w t)) = None"
    "goc_critical digest_of l t now w = goc_respawn (digest_of (key_of w t)) l t now w"
  then show ?thesis using respawn_locks [OF assms] by (simp del: map_of_eq_None_iff)
next
  fix b assume eq: "goc_critical digest_of l t now w =
      finish (digest_of (key_of w t)) l t (Handed b) (reserve (digest_of (key_of w t)) w)"
  have "locks_inv digest_of g (reserve (digest_of (key_of w t)) w)"
    using assms(1) by (subst locks_inv_cong [of _ w]) (simp_all add: reserve_def)
  from finish_locks [OF this assms(2)] assms(3) show ?thesis by (simp add: eq) (simp add: reserve_def)
next
  fix b assume "dict_get (backends w) (digest_of (key_of w t)) = Some b"
    "goc_critical digest_of l t now w = enter_phase t (ClosingQuarantined l b) w"
  then show ?thesis using enter_locks [OF assms] by (simp del: map_of_eq_Some_iff)
next
  fix b ds assume eq: "goc_critical digest_of l t now w =
      enter_phase t (ClosingStale l b)
        (w\<lparr>deaths_seen := ds, backends := dict_del (digest_of (key_of w t)) (backends w)\<rparr>)"
  have "locks_inv digest_of g (w\<lparr>deaths_seen := ds, backends := dict_del (digest_of (key_of w t)) (backends w)\<rparr>)"
    using evict_held_inv [OF assms(1,2)] by (subst locks_inv_cong [of _ "w\<lparr>backends := _\<rparr>"]) simp_all
  from enter_locks [OF this assms(2)] assms(3) show ?thesis by (simp add: eq)
qed

lemma table_ok_busy:
  assumes "table_ok w" "spawn_locks w' = spawn_locks w" "backends w' = backends w" "next_lock w' = next_lock w"
    and "\<And>k. lock_idle (lock_at w' k) \<Longrightarrow> lock_idle (lock_at w k)"
  shows "table_ok w'"
  using assms(1,5) unfolding table_ok_def assms(2-4) by blast

text \<open>A task that uses no lock takes a free one, from the queue or not.\<close>

definition taken :: "nat \<Rightarrow> nat \<Rightarrow> world \<Rightarrow> world" where
  "taken l t w = set_lock l \<lparr>locked = True, waiters = removeAll t (waiters (lock_at w l))\<rparr> w"

lemma take_inv:
  assumes "locks_inv digest_of f w" "\<not> locked (lock_at w l)" "hold_of (f t) = None"
    and "wait_of (f t) = None \<or> wait_of (f t) = Some l"
    and "dict_get (spawn_locks w) (digest_of (key_of w t)) = Some l"
    and "g t = ClosingQuarantined l (the (dict_get (backends w) (digest_of (key_of w t))))"
    and "\<And>u. u \<noteq> t \<Longrightarrow> g u = f u"
  shows "locks_inv digest_of g (taken l t w)"
proof -
  note D = locks_invD [OF assms(1)]
  have at: "lock_at (taken l t w) = (lock_at w)(l := \<lparr>locked = True, waiters = removeAll t (waiters (lock_at w l))\<rparr>)"
    and rest: "key_of (taken l t w) = key_of w" "backends (taken l t w) = backends w"
      "next_lock (taken l t w) = next_lock w" "spawn_locks (taken l t w) = spawn_locks w"
    by (simp_all add: taken_def set_lock_def)
  have h: "hold_of (g u) = Some k \<longleftrightarrow> u = t \<and> k = l \<or> u \<noteq> t \<and> hold_of (f u) = Some k" for u k
    using assms(6,7) by (cases "u = t") auto
  have v: "wait_of (g u) = Some k \<longleftrightarrow> u \<noteq> t \<and> wait_of (f u) = Some k" for u k
    using assms(6,7) by (cases "u = t") simp_all
  have unheld: "hold_of (f u) \<noteq> Some l" for u using D(1) assms(2) by blast
  have "users_ok digest_of g (taken l t w)"
    unfolding users_ok_def at rest h v
  proof (intro conjI allI impI)
    fix u k assume "u = t \<and> k = l \<or> u \<noteq> t \<and> hold_of (f u) = Some k"
    then show "locked (((lock_at w)(l := \<lparr>locked = True, waiters = removeAll t (waiters (lock_at w l))\<rparr>)) k)"
      using D(1) [of u k] by auto
  next
    fix u u' k
    assume "u = t \<and> k = l \<or> u \<noteq> t \<and> hold_of (f u) = Some k"
      "u' = t \<and> k = l \<or> u' \<noteq> t \<and> hold_of (f u') = Some k"
    then show "u = u'" using D(2) unheld by blast
  next
    fix k assume "locked (((lock_at w)(l := \<lparr>locked = True, waiters = removeAll t (waiters (lock_at w l))\<rparr>)) k)"
    then show "\<exists>u. u = t \<and> k = l \<or> u \<noteq> t \<and> hold_of (f u) = Some k"
      using D(3) [of k] assms(3) by (cases "k = l") (auto, metis option.distinct(1))
  next
    fix k
    show "distinct (waiters (((lock_at w)(l := \<lparr>locked = True, waiters = removeAll t (waiters (lock_at w l))\<rparr>)) k))"
      using D(4) [of k] D(4) [of l] by (simp add: distinct_removeAll)
    show "set (waiters (((lock_at w)(l := \<lparr>locked = True, waiters = removeAll t (waiters (lock_at w l))\<rparr>)) k)) =
        {u. u \<noteq> t \<and> wait_of (f u) = Some k}"
    proof (cases "k = l")
      case True
      then show ?thesis using D(5) [of l] by auto
    next
      case False
      then have "wait_of (f t) \<noteq> Some k" using assms(4) by auto
      with False show ?thesis using D(5) [of k] by auto
    qed
  next
    fix u k
    assume "(u = t \<and> k = l \<or> u \<noteq> t \<and> hold_of (f u) = Some k) \<or> u \<noteq> t \<and> wait_of (f u) = Some k"
    then show "dict_get (spawn_locks w) (digest_of (key_of w u)) = Some k" using D(6,7) assms(5) by blast
  qed
  moreover have "table_ok (taken l t w)"
  proof (rule table_ok_busy)
    show "table_ok w" using assms(1) by (simp add: locks_inv_def)
    fix k assume "lock_idle (lock_at (taken l t w) k)"
    then show "lock_idle (lock_at w k)" unfolding at by (cases "k = l") (simp_all add: lock_idle_def)
  qed (simp_all only: rest)
  moreover have "phases_ok digest_of g (taken l t w)"
    unfolding phases_ok_def rest
  proof
    fix u show "phase_fits (g u) (dict_get (backends w) (digest_of (key_of w u)))"
      using D(11) [of u] assms(6,7)
      by (cases "u = t"; cases "dict_get (backends w) (digest_of (key_of w t))") simp_all
  qed
  ultimately show ?thesis by (intro locks_invI)
qed

text \<open>Queueing for a busy lock.\<close>

lemma enqueue_inv:
  assumes "locks_inv digest_of f w" "\<not> lock_idle (lock_at w l)" "hold_of (f t) = None" "wait_of (f t) = None"
    and "dict_get (spawn_locks w) (digest_of (key_of w t)) = Some l"
    and "g t = Waiting l" "\<And>u. u \<noteq> t \<Longrightarrow> g u = f u"
  shows "locks_inv digest_of g (set_lock l ((lock_at w l)\<lparr>waiters := waiters (lock_at w l) @ [t]\<rparr>) w)"
    (is "locks_inv _ _ ?w")
proof -
  note D = locks_invD [OF assms(1)]
  have at: "lock_at ?w = (lock_at w)(l := (lock_at w l)\<lparr>waiters := waiters (lock_at w l) @ [t]\<rparr>)"
    and rest: "key_of ?w = key_of w" "backends ?w = backends w" "next_lock ?w = next_lock w"
      "spawn_locks ?w = spawn_locks w"
    by (simp_all add: set_lock_def)
  have h: "hold_of (g u) = hold_of (f u)" for u using assms(3,6,7) by (cases "u = t") simp_all
  have v: "wait_of (g u) = Some k \<longleftrightarrow> u = t \<and> k = l \<or> u \<noteq> t \<and> wait_of (f u) = Some k" for u k
    using assms(6,7) by (cases "u = t") auto
  have lk: "locked (((lock_at w)(l := (lock_at w l)\<lparr>waiters := waiters (lock_at w l) @ [t]\<rparr>)) k) = locked (lock_at w k)" for k
    by simp
  have "users_ok digest_of g ?w"
    unfolding users_ok_def at rest h v lk
  proof (intro conjI allI impI)
    fix k
    have "t \<notin> set (waiters (lock_at w k))" unfolding D(5) using assms(4) by simp
    then show "distinct (waiters (((lock_at w)(l := (lock_at w l)\<lparr>waiters := waiters (lock_at w l) @ [t]\<rparr>)) k))"
      using D(4) [of k] by auto
    show "set (waiters (((lock_at w)(l := (lock_at w l)\<lparr>waiters := waiters (lock_at w l) @ [t]\<rparr>)) k)) =
        {u. u = t \<and> k = l \<or> u \<noteq> t \<and> wait_of (f u) = Some k}"
      using D(5) [of k] assms(4) by (cases "k = l") auto
  next
    fix u k assume "hold_of (f u) = Some k \<or> u = t \<and> k = l \<or> u \<noteq> t \<and> wait_of (f u) = Some k"
    then show "dict_get (spawn_locks w) (digest_of (key_of w u)) = Some k" using D(6,7) assms(5) by blast
  qed (use D(1-3) in blast)+
  moreover have "table_ok (?w)"
  proof (rule table_ok_busy)
    show "table_ok w" using assms(1) by (simp add: locks_inv_def)
    fix k assume "lock_idle (lock_at (?w) k)"
    then show "lock_idle (lock_at w k)" unfolding at by (cases "k = l") (simp_all add: lock_idle_def)
  qed (simp_all only: rest)
  moreover have "phases_ok digest_of g ?w"
    unfolding phases_ok_def rest
  proof
    fix u show "phase_fits (g u) (dict_get (backends w) (digest_of (key_of w u)))"
      using D(11) [of u] assms(6,7) by (cases "u = t") simp_all
  qed
  ultimately show ?thesis by (intro locks_invI)
qed

lemma unheld_fresh:
  assumes "locks_inv digest_of f w"
  shows "\<not> locked (lock_at w (next_lock w))" "hold_of (f t) \<noteq> Some (next_lock w)"
    "wait_of (f t) \<noteq> Some (next_lock w)"
proof -
  note D = locks_invD [OF assms]
  show h: "hold_of (f t) \<noteq> Some (next_lock w)" for t using D(6) [of t] D(9) by blast
  show "wait_of (f t) \<noteq> Some (next_lock w)" using D(7) [of t] D(9) by blast
  show "\<not> locked (lock_at w (next_lock w))" using D(3) h by blast
qed

text \<open>Making the lock of a key: it is taken at once.\<close>

definition created :: "string \<Rightarrow> world \<Rightarrow> world" where
  "created d w = w\<lparr>spawn_locks := dict_set d (next_lock w) (spawn_locks w),
     next_lock := next_lock w + 1, lock_at := (lock_at w)(next_lock w := \<lparr>locked = True, waiters = []\<rparr>)\<rparr>"

lemma create_inv:
  assumes "locks_inv digest_of f w" "dict_get (spawn_locks w) (digest_of (key_of w t)) = None"
    and "hold_of (f t) = None" "wait_of (f t) = None"
    and "g t = ClosingQuarantined (next_lock w) (the (dict_get (backends w) (digest_of (key_of w t))))"
    and "\<And>u. u \<noteq> t \<Longrightarrow> g u = f u"
  shows "locks_inv digest_of g (created (digest_of (key_of w t)) w)" (is "locks_inv _ _ ?w")
proof -
  note D = locks_invD [OF assms(1)] and fresh = unheld_fresh [OF assms(1)]
  let ?n = "next_lock w" and ?d = "digest_of (key_of w t)"
  have at: "lock_at ?w = (lock_at w)(?n := \<lparr>locked = True, waiters = []\<rparr>)"
    and table: "spawn_locks ?w = dict_set ?d ?n (spawn_locks w)"
    and rest: "key_of ?w = key_of w" "backends ?w = backends w" "next_lock ?w = ?n + 1"
    by (simp_all add: created_def)
  have h: "hold_of (g u) = Some k \<longleftrightarrow> u = t \<and> k = ?n \<or> u \<noteq> t \<and> hold_of (f u) = Some k" for u k
    using assms(5,6) by (cases "u = t") auto
  have v: "wait_of (g u) = wait_of (f u)" for u
    using assms(4-6) by (cases "u = t") simp_all
  have "users_ok digest_of g ?w"
    unfolding users_ok_def rest h v
  proof (intro conjI allI impI)
    fix u k assume "u = t \<and> k = ?n \<or> u \<noteq> t \<and> hold_of (f u) = Some k"
    then show "locked (lock_at ?w k)" unfolding at using D(1) [of u k] by (cases "k = ?n") simp_all
  next
    fix u u' k
    assume "u = t \<and> k = ?n \<or> u \<noteq> t \<and> hold_of (f u) = Some k"
      "u' = t \<and> k = ?n \<or> u' \<noteq> t \<and> hold_of (f u') = Some k"
    then show "u = u'" using D(2) fresh(2) by blast
  next
    fix k assume k: "locked (lock_at ?w k)"
    show "\<exists>u. u = t \<and> k = ?n \<or> u \<noteq> t \<and> hold_of (f u) = Some k"
    proof (cases "k = ?n")
      case False
      with k have "locked (lock_at w k)" unfolding at by simp
      with D(3) [of k] assms(3) show ?thesis by (metis option.distinct(1))
    qed blast
  next
    fix k
    show "distinct (waiters (lock_at ?w k))" unfolding at using D(4) [of k] by simp
    show "set (waiters (lock_at ?w k)) = {u. wait_of (f u) = Some k}"
      unfolding at using D(5) [of k] fresh(3) by (cases "k = ?n") simp_all
  next
    fix u k assume u: "(u = t \<and> k = ?n \<or> u \<noteq> t \<and> hold_of (f u) = Some k) \<or> wait_of (f u) = Some k"
    show "dict_get (spawn_locks ?w) (digest_of (key_of w u)) = Some k"
    proof (cases "u = t \<and> k = ?n")
      case False
      with u have "dict_get (spawn_locks w) (digest_of (key_of w u)) = Some k" using D(6,7) by blast
      moreover from this have "digest_of (key_of w u) \<noteq> ?d" using assms(2) by auto
      ultimately show ?thesis unfolding table by (simp del: map_of_eq_Some_iff)
    qed (simp add: table)
  qed
  moreover have "table_ok ?w"
  proof -
    have new: "e = ?d \<and> k = ?n \<or> e \<noteq> ?d \<and> dict_get (spawn_locks w) e = Some k \<and> k < ?n"
      if "dict_get (spawn_locks ?w) e = Some k" for e k
      using that D(9) [of e k] unfolding table by (simp del: map_of_eq_Some_iff split: if_splits)
    show ?thesis
      unfolding table_ok_def rest
    proof (intro conjI allI impI)
      fix d e k assume "dict_get (spawn_locks ?w) d = Some k" "dict_get (spawn_locks ?w) e = Some k"
      then show "d = e" using new D(8) by (metis order_less_irrefl)
    next
      fix d k assume "dict_get (spawn_locks ?w) d = Some k"
      then show "k < ?n + 1" using new by fastforce
    next
      fix d k assume "dict_get (spawn_locks ?w) d = Some k"
      from new [OF this] show "dict_get (backends w) d \<noteq> None \<or> \<not> lock_idle (lock_at ?w k)"
        using D(10) [of d k] unfolding at by (cases "k = ?n") (auto simp: lock_idle_def)
    qed
  qed
  moreover have "phases_ok digest_of g ?w"
    unfolding phases_ok_def rest
  proof
    fix u show "phase_fits (g u) (dict_get (backends w) (digest_of (key_of w u)))"
      using D(11) [of u] assms(5,6)
      by (cases "u = t"; cases "dict_get (backends w) (digest_of (key_of w t))") simp_all
  qed
  ultimately show ?thesis by (intro locks_invI)
qed

text \<open>A task of another key at rest: its key may be replaced.\<close>

lemma rekey_inv:
  assumes "locks_inv digest_of f w" "f t = Resting"
  shows "locks_inv digest_of f (w\<lparr>key_of := (key_of w)(t := key)\<rparr>)" (is "locks_inv _ _ ?w")
proof -
  note D = locks_invD [OF assms(1)]
  have "users_ok digest_of f ?w"
    unfolding users_ok_def
  proof (intro conjI allI impI)
    fix u k assume u: "hold_of (f u) = Some k \<or> wait_of (f u) = Some k"
    then have "u \<noteq> t" using assms(2) by auto
    with u D(6,7) show "dict_get (spawn_locks ?w) (digest_of (key_of ?w u)) = Some k" by auto
  qed (use D(1-5) in simp_all)
  moreover have "table_ok ?w" using assms(1) by (simp add: locks_inv_def table_ok_def)
  moreover have "phases_ok digest_of f ?w"
    unfolding phases_ok_def
  proof
    fix u show "phase_fits (f u) (dict_get (backends ?w) (digest_of (key_of ?w u)))"
      using D(11) [of u] assms(2) by (cases "u = t") simp_all
  qed
  ultimately show ?thesis by (intro locks_invI)
qed

lemma acquire_locks:
  assumes "locks_inv digest_of (phase_of w) w" "phase_of w t = Resting"
    and "dict_get (spawn_locks w) (digest_of (key_of w t)) = Some l"
  shows "locks_inv digest_of (phase_of (goc_acquire digest_of l t now w)) (goc_acquire digest_of l t now w)"
proof (cases "lock_idle (lock_at w l)")
  case True
  define g where "g = (phase_of w)(t := ClosingQuarantined l (the (dict_get (backends w) (digest_of (key_of w t)))))"
  have "locks_inv digest_of g (taken l t w)"
    by (rule take_inv [OF assms(1)]) (use True assms in \<open>simp_all add: lock_idle_def g_def\<close>)
  moreover have "set_lock l ((lock_at w l)\<lparr>locked := True\<rparr>) w = taken l t w"
    using True by (cases "lock_at w l") (simp add: taken_def lock_idle_def)
  moreover have "phase_of (taken l t w) = phase_of w" by (simp add: taken_def set_lock_def)
  ultimately show ?thesis
    using True critical_locks [of digest_of g "taken l t w" t l now] by (simp add: goc_acquire_def g_def)
next
  case False
  then have eq: "goc_acquire digest_of l t now w = enter_phase t (Waiting l)
      (set_lock l ((lock_at w l)\<lparr>waiters := waiters (lock_at w l) @ [t]\<rparr>) w)" (is "_ = enter_phase t _ ?v")
    by (simp add: goc_acquire_def)
  have "locks_inv digest_of (phase_of (goc_acquire digest_of l t now w)) ?v"
    by (rule enqueue_inv [OF assms(1) False]) (use assms in \<open>simp_all add: eq enter_phase_def set_lock_def\<close>)
  then show ?thesis by (subst locks_inv_cong [of _ ?v]) (simp_all add: eq enter_phase_def)
qed

lemma create_acquire_locks:
  assumes "locks_inv digest_of (phase_of w) w" "phase_of w t = Resting"
    and "dict_get (spawn_locks w) (digest_of (key_of w t)) = None" "find_lock (digest_of (key_of w t)) w = (u, l)"
  shows "locks_inv digest_of (phase_of (goc_acquire digest_of l t now u)) (goc_acquire digest_of l t now u)"
proof -
  define g where "g = (phase_of w)(t :=
    ClosingQuarantined (next_lock w) (the (dict_get (backends w) (digest_of (key_of w t)))))"
  let ?v = "created (digest_of (key_of w t)) w"
  have inv: "locks_inv digest_of g ?v"
    by (rule create_inv [OF assms(1,3)]) (use assms(2) in \<open>simp_all add: g_def\<close>)
  have "goc_acquire digest_of l t now u = goc_critical digest_of l t now ?v" "l = next_lock w"
    using assms(3,4)
    by (auto simp: find_lock_def goc_acquire_def lock_idle_def fresh_lock_def created_def set_lock_def)
  moreover have "phase_of ?v = phase_of w" by (simp add: created_def)
  ultimately show ?thesis using critical_locks [OF inv, of t l now] by (simp add: g_def)
qed

lemma enter_call_locks:
  assumes "locks_inv digest_of (phase_of w) w" "phase_of w t = Resting"
  shows "locks_inv digest_of (phase_of (goc_enter digest_of t key now w)) (goc_enter digest_of t key now w)"
proof -
  let ?v = "w\<lparr>key_of := (key_of w)(t := key)\<rparr>"
  have inv: "locks_inv digest_of (phase_of ?v) ?v" using rekey_inv [OF assms] by simp
  show ?thesis
  proof (rule goc_enter_cases [of w digest_of key t now])
    fix b assume eq: "goc_enter digest_of t key now w = enter_phase t (Handed b) (reserve (digest_of key) ?v)"
    let ?r = "enter_phase t (Handed b) (reserve (digest_of key) ?v)"
    have h: "hold_of (phase_of ?r u) = hold_of (phase_of ?v u)" "wait_of (phase_of ?r u) = wait_of (phase_of ?v u)" for u
      using assms(2) by (simp_all add: enter_phase_def reserve_def)
    have "users_ok digest_of (phase_of ?r) ?v" using inv unfolding locks_inv_def users_ok_def h by blast
    moreover have "phases_ok digest_of (phase_of ?r) ?v"
      unfolding phases_ok_def
    proof
      fix u show "phase_fits (phase_of ?r u) (dict_get (backends ?v) (digest_of (key_of ?v u)))"
        using locks_invD(11) [OF inv, of u] by (cases "u = t") (simp_all add: enter_phase_def reserve_def)
    qed
    ultimately have "locks_inv digest_of (phase_of ?r) ?v" using inv by (simp add: locks_inv_def)
    then show ?thesis unfolding eq by (subst locks_inv_cong [of _ ?v]) (simp_all add: enter_phase_def reserve_def)
  next
    fix u l assume u: "find_lock (digest_of key) ?v = (u, l)"
      "goc_enter digest_of t key now w = goc_acquire digest_of l t now u"
    show ?thesis
    proof (cases "dict_get (spawn_locks ?v) (digest_of key)")
      case None
      then show ?thesis using create_acquire_locks [OF inv, of t u l now] assms(2) u by simp
    next
      case (Some k)
      with u have "u = ?v" "l = k" by (simp_all add: find_lock_def)
      then show ?thesis using acquire_locks [OF inv, of t l now] assms(2) u(2) Some by simp
    qed
  qed
qed

lemma resume_locks:
  assumes "locks_inv digest_of (phase_of w) w" "phase_of w t = Waiting l" "\<not> locked (lock_at w l)"
    and "waiters (lock_at w l) \<noteq> []" "hd (waiters (lock_at w l)) = t"
  shows "locks_inv digest_of (phase_of (goc_resume digest_of l t now w)) (goc_resume digest_of l t now w)"
proof -
  note D = locks_invD [OF assms(1)]
  define g where "g = (phase_of w)(t := ClosingQuarantined l (the (dict_get (backends w) (digest_of (key_of w t)))))"
  have "locks_inv digest_of g (taken l t w)"
    by (rule take_inv [OF assms(1,3)]) (use assms(2) D(7) [of t l] in \<open>simp_all add: g_def\<close>)
  moreover have "tl (waiters (lock_at w l)) = removeAll t (waiters (lock_at w l))"
    using D(4) [of l] assms(4,5) by (cases "waiters (lock_at w l)") auto
  then have "goc_resume digest_of l t now w = goc_critical digest_of l t now (taken l t w)"
    by (simp add: goc_resume_def taken_def)
  moreover have "phase_of (taken l t w) = phase_of w" by (simp add: taken_def set_lock_def)
  ultimately show ?thesis using critical_locks [of digest_of g "taken l t w" t l now] by (simp add: g_def)
qed

lemma held_segments:
  assumes "locks_inv digest_of (phase_of w) w" "hold_of (phase_of w t) = Some l"
  shows "phase_of w t = ClosingQuarantined l b \<Longrightarrow>
      locks_inv digest_of (phase_of (goc_quarantine_closed digest_of l b t ok now w)) (goc_quarantine_closed digest_of l b t ok now w)"
    and "phase_of w t = ClosingStale l b \<Longrightarrow>
      locks_inv digest_of (phase_of (goc_stale_closed digest_of l b t now w)) (goc_stale_closed digest_of l b t now w)"
    and "phase_of w t = Discarding l b a \<Longrightarrow>
      locks_inv digest_of (phase_of (goc_discarded digest_of l b a t w)) (goc_discarded digest_of l b a t w)"
proof -
  have exited: "locks_inv digest_of (phase_of w) (mark_exited c w)" for c
    using assms(1) by (subst locks_inv_cong [of _ w]) (simp_all add: mark_exited_def)
  note fits = locks_invD(11) [OF assms(1), of t]
  show "locks_inv digest_of (phase_of (goc_quarantine_closed digest_of l b t ok now w))
      (goc_quarantine_closed digest_of l b t ok now w)" if "phase_of w t = ClosingQuarantined l b"
  proof -
    define v where "v = (if ok then mark_exited b w else w)"
    let ?u = "v\<lparr>backends := dict_del (digest_of (key_of v t)) (backends v)\<rparr>"
    have v: "locks_inv digest_of (phase_of w) v" using exited assms(1) by (simp add: v_def)
    have k: "key_of v = key_of w" "phase_of v = phase_of w" by (simp_all add: v_def mark_exited_def)
    have eq: "goc_quarantine_closed digest_of l b t ok now w = goc_respawn (digest_of (key_of w t)) l t now ?u"
      by (simp add: goc_quarantine_closed_def Let_def pool_evict_def v_def [symmetric] k(1))
    show ?thesis
      unfolding eq by (rule respawn_locks [OF evict_held_inv [OF v assms(2)] assms(2)]) (simp_all add: k)
  qed
  show "locks_inv digest_of (phase_of (goc_stale_closed digest_of l b t now w))
      (goc_stale_closed digest_of l b t now w)" if "phase_of w t = ClosingStale l b"
    unfolding goc_stale_closed_def
    by (rule respawn_locks [OF exited assms(2)]) (use fits that in \<open>simp_all add: mark_exited_def del: map_of_eq_None_iff\<close>)
  show "locks_inv digest_of (phase_of (goc_discarded digest_of l b a t w)) (goc_discarded digest_of l b a t w)"
    if "phase_of w t = Discarding l b a"
  proof (cases "a < MAX_SPAWN_DRAIN_RETRIES")
    case True
    then show ?thesis
      using enter_locks [OF exited [of b] assms(2), of "Spawning l (drain_epoch w) (a + 1) (credential w)"] fits that
      by (simp add: goc_discarded_def Let_def start_spawn_def mark_exited_def del: map_of_eq_None_iff)
  next
    case False
    then show ?thesis
      using finish_locks [OF exited [of b] assms(2), of "Failed BackendUnavailable" "digest_of (key_of w t)"]
      by (simp add: goc_discarded_def Let_def mark_exited_def)
  qed
qed

text \<open>A cancelled waiter leaves the queue.\<close>

lemma dequeue_inv:
  assumes "locks_inv digest_of f w" "f t = Waiting l" "g t = Failed e" "e \<noteq> PoolKeyCollision"
    and "\<And>u. u \<noteq> t \<Longrightarrow> g u = f u" "d = digest_of (key_of w t)"
  shows "locks_inv digest_of g (reap_spawn_lock d l
           (set_lock l ((lock_at w l)\<lparr>waiters := removeAll t (waiters (lock_at w l))\<rparr>) w))"
    (is "locks_inv _ _ ?w")
proof -
  note D = locks_invD [OF assms(1)]
  let ?lk = "(lock_at w l)\<lparr>waiters := removeAll t (waiters (lock_at w l))\<rparr>"
  let ?drop = "d \<notin> fst ` set (backends w) \<and> dict_get (spawn_locks w) d = Some l \<and> lock_idle ?lk"
  have at: "lock_at ?w = (lock_at w)(l := ?lk)"
    and table: "spawn_locks ?w = (if ?drop then dict_del d (spawn_locks w) else spawn_locks w)"
    and rest: "key_of ?w = key_of w" "backends ?w = backends w" "next_lock ?w = next_lock w"
    by (simp_all add: pool_updates)
  have own: "dict_get (spawn_locks w) d = Some l" using D(7) [of t l] assms(2,6) by simp
  have h: "hold_of (g u) = hold_of (f u)" for u using assms(2,3,5) by (cases "u = t") simp_all
  have v: "wait_of (g u) = Some k \<longleftrightarrow> u \<noteq> t \<and> wait_of (f u) = Some k" for u k
    using assms(3,5) by (cases "u = t") simp_all
  have lk: "locked (((lock_at w)(l := ?lk)) k) = locked (lock_at w k)" for k by simp
  have ws: "set (waiters (((lock_at w)(l := ?lk)) k)) = {u. u \<noteq> t \<and> wait_of (f u) = Some k}" for k
    using D(5) [of k] assms(2) by (cases "k = l") auto
  have "users_ok digest_of g ?w"
    unfolding users_ok_def at rest h v lk ws
  proof (intro conjI allI impI)
    fix k show "distinct (waiters (((lock_at w)(l := ?lk)) k))"
      using D(4) [of k] by (auto simp: distinct_removeAll)
  next
    fix u k assume u: "hold_of (f u) = Some k \<or> u \<noteq> t \<and> wait_of (f u) = Some k"
    have e: "dict_get (spawn_locks w) (digest_of (key_of w u)) = Some k" using u D(6,7) by blast
    have "\<not> (?drop \<and> digest_of (key_of w u) = d)"
    proof
      assume a: "?drop \<and> digest_of (key_of w u) = d"
      with e have k: "k = l" by simp
      from u show False
      proof
        assume "hold_of (f u) = Some k"
        with D(1) k a show False by (auto simp: lock_idle_def)
      next
        assume "u \<noteq> t \<and> wait_of (f u) = Some k"
        then have "u \<in> set (waiters (((lock_at w)(l := ?lk)) k))" unfolding ws by simp
        with a k show False by (simp add: lock_idle_def)
      qed
    qed
    with e show "dict_get (spawn_locks ?w) (digest_of (key_of w u)) = Some k" unfolding table by auto
  qed (use D(1-3) in blast)+
  moreover have "table_ok ?w"
  proof -
    have sub: "dict_get (spawn_locks w) e = Some k" if "dict_get (spawn_locks ?w) e = Some k" for e k
      using that unfolding table by (simp del: map_of_eq_Some_iff split: if_splits)
    have "dict_get (backends w) e \<noteq> None \<or> \<not> lock_idle (((lock_at w)(l := ?lk)) k)"
      if "dict_get (spawn_locks ?w) e = Some k" for e k
    proof (cases "k = l")
      case False
      with D(10) [OF sub [OF that]] show ?thesis by auto
    next
      case True
      with D(8) [OF sub [OF that], of d] own have e: "e = d" by simp
      with that True have "\<not> ?drop" unfolding table by (simp split: if_splits)
      with own True e show ?thesis by (auto simp: map_of_eq_None_iff)
    qed
    with D(8,9) sub show ?thesis unfolding table_ok_def rest at by blast
  qed
  moreover have "phases_ok digest_of g ?w"
    unfolding phases_ok_def rest
  proof
    fix u show "phase_fits (g u) (dict_get (backends w) (digest_of (key_of w u)))"
      using D(11) [of u] assms(3-5) by (cases "u = t") simp_all
  qed
  ultimately show ?thesis by (intro locks_invI)
qed

lemma raise_locks:
  assumes "locks_inv digest_of (phase_of w) w" "goc_raise digest_of t e (phase_of w t) w = Some w'"
  shows "locks_inv digest_of (phase_of w') w'"
proof (cases "phase_of w t")
  case (Waiting l)
  let ?v = "reap_spawn_lock (digest_of (key_of w t)) l
    (set_lock l ((lock_at w l)\<lparr>waiters := removeAll t (waiters (lock_at w l))\<rparr>) w)"
  from Waiting assms(2) have w': "w' = enter_phase t (Failed e) ?v" and e: "e = PoolCancelled"
    by (auto split: if_splits)
  have p: "phase_of w' = (phase_of w)(t := Failed e)" by (simp add: w' pool_updates)
  have "locks_inv digest_of (phase_of w') ?v"
    by (rule dequeue_inv [OF assms(1) Waiting, where e = e]) (simp_all add: p e)
  then show ?thesis by (subst locks_inv_cong [of _ ?v]) (simp_all add: w' enter_phase_def)
next
  case Resting then show ?thesis using assms(2) by simp
next
  case (Handed b) then show ?thesis using assms(2) by simp
next
  case (Failed x) then show ?thesis using assms(2) by simp
next
  case (ClosingQuarantined l b)
  then show ?thesis
    using assms finish_locks [OF assms(1), of t l "Failed e"] by (auto split: if_splits)
next
  case (ClosingStale l b)
  then show ?thesis
    using assms finish_locks [OF assms(1), of t l "Failed e"] by (auto split: if_splits)
next
  case (Spawning l ep a c)
  then show ?thesis
    using assms finish_locks [OF assms(1), of t l "Failed e"] by (auto split: if_splits)
next
  case (Discarding l b a)
  have "locks_inv digest_of (phase_of w) (w\<lparr>closing := closing w @ [b]\<rparr>)"
    using assms(1) by (subst locks_inv_cong [of _ w]) simp_all
  from finish_locks [OF this, of t l "Failed e"] Discarding assms(2) show ?thesis
    by (auto split: if_splits)
next
  case (Aborting l b x)
  have "locks_inv digest_of (phase_of w) (w\<lparr>closing := closing w @ [b]\<rparr>)"
    using assms(1) by (subst locks_inv_cong [of _ w]) simp_all
  from finish_locks [OF this, of t l "Failed e"] Aborting assms(2) show ?thesis
    by (auto split: if_splits)
qed

section \<open>Evictions, insertions and the cutover\<close>

lemma victim_inv:
  assumes "locks_inv digest_of f w" "lock_free w d"
  shows "locks_inv digest_of f (w\<lparr>backends := dict_del d (backends w), spawn_locks := dict_del d (spawn_locks w)\<rparr>)"
    (is "locks_inv _ _ ?w")
proof -
  note D = locks_invD [OF assms(1)]
  have other: "digest_of (key_of w t) \<noteq> d" if "hold_of (f t) = Some l \<or> wait_of (f t) = Some l" for t l
  proof
    assume "digest_of (key_of w t) = d"
    with that D(6,7) have "dict_get (spawn_locks w) d = Some l" by blast
    with assms(2) have "lock_idle (lock_at w l)" by (simp add: lock_free_def del: map_of_eq_Some_iff)
    with idle_unused [OF assms(1)] that show False by blast
  qed
  have "users_ok digest_of f ?w"
    unfolding users_ok_def
  proof (intro conjI allI impI)
    fix t l assume t: "hold_of (f t) = Some l \<or> wait_of (f t) = Some l"
    with D(6,7) have "dict_get (spawn_locks w) (digest_of (key_of w t)) = Some l" by blast
    with other [OF t] show "dict_get (spawn_locks ?w) (digest_of (key_of ?w t)) = Some l" by simp
  qed (use D(1-5) in simp_all)
  moreover have "table_ok ?w"
    unfolding table_ok_def
  proof (intro conjI allI impI)
    fix e e' k assume "dict_get (spawn_locks ?w) e = Some k" "dict_get (spawn_locks ?w) e' = Some k"
    then show "e = e'" using D(8) by (simp del: map_of_eq_Some_iff split: if_splits)
  next
    fix e k assume "dict_get (spawn_locks ?w) e = Some k"
    then show "k < next_lock ?w" using D(9) by (simp del: map_of_eq_Some_iff split: if_splits)
  next
    fix e k assume "dict_get (spawn_locks ?w) e = Some k"
    then have "e \<noteq> d" "dict_get (spawn_locks w) e = Some k"
      by (simp_all del: map_of_eq_Some_iff split: if_splits)
    with D(10) [of e k] show "dict_get (backends ?w) e \<noteq> None \<or> \<not> lock_idle (lock_at ?w k)"
      by (auto simp del: map_of_eq_None_iff)
  qed
  moreover have "phases_ok digest_of f ?w"
    unfolding phases_ok_def using D(11) fits_None [OF D(11)] by simp
  ultimately show ?thesis by (intro locks_invI)
qed

lemma victims_inv:
  assumes "locks_inv digest_of f w" "\<And>d. d \<in> set ds \<Longrightarrow> lock_free w d"
  shows "locks_inv digest_of f
    (w\<lparr>backends := fold dict_del ds (backends w), spawn_locks := fold dict_del ds (spawn_locks w)\<rparr>)"
  using assms
proof (induction ds arbitrary: w)
  case (Cons d ds)
  let ?w = "w\<lparr>backends := dict_del d (backends w), spawn_locks := dict_del d (spawn_locks w)\<rparr>"
  have "lock_free ?w e" if "e \<in> set ds" for e
    using Cons.prems(2) [of e] that by (simp add: lock_free_def split: option.splits)
  from Cons.IH [OF victim_inv [OF Cons.prems(1)] this] Cons.prems(2) show ?case by simp
qed simp

text \<open>The holder of the lock inserts; afterwards it counts as inside until it has released.\<close>

lemma insert_inv:
  assumes "locks_inv digest_of f w" "hold_of (f t) = Some l" "d = digest_of (key_of w t)"
    and "g t = ClosingQuarantined l b" "\<And>u. u \<noteq> t \<Longrightarrow> g u = f u"
  shows "locks_inv digest_of g (w\<lparr>backends := dict_set d b (backends w)\<rparr>)" (is "locks_inv _ _ ?w")
proof -
  note D = locks_invD [OF assms(1)]
  have h: "hold_of (g u) = hold_of (f u)" for u using assms(2,4,5) by (cases "u = t") simp_all
  have v: "wait_of (g u) = wait_of (f u)" for u using assms(2,4,5) by (cases "u = t") (simp_all add: hold_wait)
  have "users_ok digest_of g ?w"
    using assms(1) users_ok_cong [of ?w w digest_of g] unfolding locks_inv_def
    by (simp add: users_ok_def h v)
  moreover have "table_ok ?w" using assms(1) by (auto simp: locks_inv_def table_ok_def)
  moreover have "phases_ok digest_of g ?w"
    unfolding phases_ok_def
  proof
    fix u
    show "phase_fits (g u) (dict_get (backends ?w) (digest_of (key_of ?w u)))"
    proof (cases "u = t \<or> digest_of (key_of w u) \<noteq> d")
      case True
      then show ?thesis using D(11) [of u] assms(3-5) by (cases "u = t") simp_all
    next
      case False
      have "hold_of (f u) = None"
      proof (rule ccontr)
        assume "hold_of (f u) \<noteq> None"
        then obtain k where k: "hold_of (f u) = Some k" by blast
        then have "k = l" using D(6) [OF k] D(6) [OF assms(2)] False assms(3) by simp
        with D(2) [OF k, of t] assms(2) False show False by simp
      qed
      then show ?thesis using D(11) [of u] assms(5) False by (cases "f u") simp_all
    qed
  qed
  ultimately show ?thesis by (intro locks_invI)
qed

text \<open>The choice of the victim does not see the backend that is about to be inserted.\<close>

lemma pick_lru_idle_launch:
  assumes "index_ok digest_of w"
  shows "pick_lru_idle (launch key cred now w) = pick_lru_idle w"
proof -
  let ?v = "launch key cred now w"
  have "foldl (pick_step ?v) oldest es = foldl (pick_step w) oldest es"
    if "\<forall>e \<in> set es. snd e < next_backend w" "\<forall>v. oldest = Some v \<longrightarrow> snd v < next_backend w" for es oldest
    using that
  proof (induction es arbitrary: oldest)
    case (Cons e es)
    have eq: "pick_step ?v oldest e = pick_step w oldest e"
      using Cons.prems
      by (cases oldest) (auto simp: pick_step_def reclaimable_def launch_def is_reserved_def)
    have "\<forall>v. pick_step w oldest e = Some v \<longrightarrow> snd v < next_backend w"
      using Cons.prems by (auto simp: pick_step_def split: option.splits if_splits)
    with Cons.IH [of "pick_step w oldest e"] Cons.prems(1) eq show ?case by simp
  qed simp
  moreover have "\<forall>e \<in> set (backends w). snd e < next_backend w"
    using index_okD(1,4) [OF assms] by auto
  ultimately show ?thesis by (simp add: pick_lru_idle_def launch_def)
qed

lemma spawned_locks:
  assumes inv: "locks_inv digest_of (phase_of w) w" and idx: "index_ok digest_of w"
    and ph: "phase_of w t = Spawning l epoch a c0" and calm: "calm digest_of (Spawned t cred now) w"
  shows "locks_inv digest_of (phase_of (goc_spawned digest_of l epoch a t cred now w))
           (goc_spawned digest_of l epoch a t cred now w)"
proof -
  let ?d = "digest_of (key_of w t)" and ?v = "launch (key_of w t) cred now w"
  note D = locks_invD [OF inv]
  have held: "hold_of (phase_of w t) = Some l" by (simp add: ph)
  have v: "locks_inv digest_of (phase_of w) (?v\<lparr>capacity_rejects := n\<rparr>)" "locks_inv digest_of (phase_of w) ?v" for n
    using inv by (subst locks_inv_cong [of _ w]; simp add: launch_def)+
  have k: "key_of ?v = key_of w" "phase_of ?v = phase_of w" "backends ?v = backends w"
    by (simp_all add: launch_def)
  have absent: "dict_get (backends w) ?d = None" using D(11) [of t] ph by simp
  have inserted: "locks_inv digest_of (phase_of w') w'"
    if u: "locks_inv digest_of (phase_of w) u" "key_of u = key_of w" "phase_of u = phase_of w"
      and w': "w' = finish ?d l t (Handed b) ((reserve ?d (u\<lparr>backends := dict_set ?d b (backends u)\<rparr>))\<lparr>spawns := n\<rparr>)"
    for u b n w'
  proof -
    let ?u = "(reserve ?d (u\<lparr>backends := dict_set ?d b (backends u)\<rparr>))\<lparr>spawns := n\<rparr>"
    define g where "g = (phase_of w)(t := ClosingQuarantined l b)"
    have "locks_inv digest_of g (u\<lparr>backends := dict_set ?d b (backends u)\<rparr>)"
      by (rule insert_inv [OF u(1) held]) (simp_all add: u(2) g_def)
    then have "locks_inv digest_of g ?u" by (subst locks_inv_cong [of _ "u\<lparr>backends := _\<rparr>"]) (simp_all add: reserve_def)
    then show ?thesis
      unfolding w' by (rule finish_locks) (simp_all add: g_def reserve_def u(2,3))
  qed
  show ?thesis
  proof (rule pool_add_cases [of epoch ?v ?d "next_backend w"])
    assume "pool_add ?d (next_backend w) True (Some epoch) ?v = (?v, Some DrainedDuringSpawn)"
    then have "goc_spawned digest_of l epoch a t cred now w = enter_phase t (Discarding l (next_backend w) a) ?v"
      by (simp add: goc_spawned_def Let_def)
    then show ?thesis
      using enter_locks [OF v(2) held, of "Discarding l (next_backend w) a"] absent k
      by (simp del: map_of_eq_None_iff)
  next
    assume "?d \<in> fst ` set (backends ?v)"
    with absent show ?thesis by (simp add: k map_of_eq_None_iff)
  next
    let ?r = "?v\<lparr>capacity_rejects := capacity_rejects ?v + 1\<rparr>"
    assume "pool_add ?d (next_backend w) True (Some epoch) ?v = (?r, Some PoolAtCapacity)"
    then have eq: "goc_spawned digest_of l epoch a t cred now w =
        enter_phase t (Aborting l (next_backend w) PoolAtCapacity) ?r"
      by (simp add: goc_spawned_def Let_def)
    show ?thesis
      unfolding eq by (rule enter_locks [OF v(1) held]) (use absent k in \<open>simp_all del: map_of_eq_None_iff\<close>)
  next
    assume "pool_add ?d (next_backend w) True (Some epoch) ?v =
      (reserve ?d (?v\<lparr>backends := dict_set ?d (next_backend w) (backends ?v)\<rparr>), None)"
    then show ?thesis
      by (intro inserted [OF v(2) k(1,2)]) (simp add: goc_spawned_def Let_def)
  next
    fix d' b'
    let ?u = "?v\<lparr>backends := dict_del d' (backends ?v), spawn_locks := dict_del d' (spawn_locks ?v),
      evictions_lru := evictions_lru ?v + 1, shutdown_tasks := shutdown_tasks ?v @ [b']\<rparr>"
    assume p: "pick_lru_idle ?v = Some (d', b')"
      "pool_add ?d (next_backend w) True (Some epoch) ?v =
         (reserve ?d (?v\<lparr>spawn_locks := dict_del d' (spawn_locks ?v), evictions_lru := evictions_lru ?v + 1,
            shutdown_tasks := shutdown_tasks ?v @ [b'],
            backends := dict_set ?d (next_backend w) (dict_del d' (backends ?v))\<rparr>), None)"
    have "lock_free w d'" using calm p(1) pick_lru_idle_launch [OF idx] by simp
    then have "lock_free ?v d'" by (simp add: lock_free_def launch_def split: option.splits)
    from victim_inv [OF v(2) this] have u: "locks_inv digest_of (phase_of w) ?u"
      by (subst locks_inv_cong [of _ "?v\<lparr>backends := _, spawn_locks := _\<rparr>"]) simp_all
    show ?thesis
      by (rule inserted [OF u, of _ "next_backend w" "spawns w + 1"])
         (simp_all add: k goc_spawned_def Let_def p(2), simp add: reserve_def launch_def)
  qed
qed

lemma drop_idle_locks_get:
  "dict_get (fold (drop_idle_lock lk) es sl) d = Some l \<longleftrightarrow>
     dict_get sl d = Some l \<and> \<not> (d \<in> fst ` set es \<and> lock_idle (lk l))"
proof (induction es arbitrary: sl)
  case (Cons e es)
  have "dict_get (drop_idle_lock lk e sl) d = Some l \<longleftrightarrow>
      dict_get sl d = Some l \<and> \<not> (d = fst e \<and> lock_idle (lk l))"
    by (cases "dict_get sl (fst e)") (auto simp: drop_idle_lock_def simp del: map_of_eq_Some_iff map_of_eq_None_iff)
  then show ?case by (simp add: Cons.IH del: map_of_eq_Some_iff) blast
qed simp

lemma cutover_locks:
  assumes "locks_inv digest_of f w"
  shows "locks_inv digest_of f (credential_cutover now w)" (is "locks_inv _ _ ?w")
proof -
  note D = locks_invD [OF assms]
  have at: "lock_at ?w = lock_at w" "key_of ?w = key_of w" "backends ?w = []" "next_lock ?w = next_lock w"
    by (simp_all add: cutover_update)
  have get: "dict_get (spawn_locks ?w) d = Some l \<longleftrightarrow>
      dict_get (spawn_locks w) d = Some l \<and> \<not> (dict_get (backends w) d \<noteq> None \<and> lock_idle (lock_at w l))" for d l
    by (simp add: cutover_update drop_idle_locks_get map_of_eq_None_iff del: map_of_eq_Some_iff)
  have "users_ok digest_of f ?w"
    unfolding users_ok_def at get
  proof (intro conjI allI impI)
    fix t l assume t: "hold_of (f t) = Some l \<or> wait_of (f t) = Some l"
    with D(6,7) show "dict_get (spawn_locks w) (digest_of (key_of w t)) = Some l" by blast
    show "\<not> (dict_get (backends w) (digest_of (key_of w t)) \<noteq> None \<and> lock_idle (lock_at w l))"
      using idle_unused [OF assms] t by blast
  qed (use D(1-5) in simp_all)
  moreover have "table_ok ?w"
    unfolding table_ok_def at get using D(8-10) by blast
  moreover have "phases_ok digest_of f ?w"
    unfolding phases_ok_def at using fits_None [OF D(11)] by simp
  ultimately show ?thesis by (intro locks_invI)
qed

lemma heartbeat_locks:
  assumes "locks_inv digest_of f w" "calm digest_of (HeartbeatDead b now) w"
  shows "locks_inv digest_of f (heartbeat_recycle digest_of b now w)"
proof (rule heartbeat_recycle_cases [of digest_of b now w])
  fix ds assume eq: "heartbeat_recycle digest_of b now w = w\<lparr>deaths_seen := ds\<rparr>"
  show ?thesis unfolding eq using assms(1) by (subst locks_inv_cong [of _ w]) simp_all
next
  let ?d = "digest_of (pool_key_of (backend_at w b))"
  fix ds
  assume "dict_get (backends w) ?d = Some b"
    and eq: "heartbeat_recycle digest_of b now w = w\<lparr>deaths_seen := ds, backends := dict_del ?d (backends w),
      spawn_locks := dict_del ?d (spawn_locks w), closing := closing w @ [b]\<rparr>"
  then have "lock_free w ?d" using assms(2) by (simp add: Let_def)
  from victim_inv [OF assms(1) this] show ?thesis
    unfolding eq by (subst locks_inv_cong [of _ "w\<lparr>backends := _, spawn_locks := _\<rparr>"]) simp_all
qed

lemma idle_sweep_locks:
  assumes "locks_inv digest_of f w" "calm digest_of (IdleSweep older pin now) w"
  shows "locks_inv digest_of f (sweep_idle older pin now w)"
proof -
  define gone where "gone = map fst (filter (idle_stale (now - older) pin w) (backends w))"
  have "lock_free w d" if "d \<in> set gone" for d
    using that assms(2) by (auto simp: gone_def list_all_iff)
  then have "locks_inv digest_of f (w\<lparr>backends := fold dict_del gone (backends w),
      spawn_locks := fold dict_del gone (spawn_locks w)\<rparr>)" (is "locks_inv _ _ ?v")
    by (rule victims_inv [OF assms(1)])
  then show ?thesis
    by (subst locks_inv_cong [of _ ?v]) (simp_all add: sweep_idle_def evict_idle_def Let_def gone_def)
qed

text \<open>An action that leaves the tasks, the locks and the index alone.\<close>

lemma aside_locks:
  assumes "locks_inv digest_of (phase_of w) w" "phase_of w' = phase_of w" "key_of w' = key_of w"
    "spawn_locks w' = spawn_locks w" "lock_at w' = lock_at w" "next_lock w' = next_lock w" "backends w' = backends w"
  shows "locks_inv digest_of (phase_of w') w'"
  using assms locks_inv_cong [of w' w] by simp

lemma release_locks:
  assumes "locks_inv digest_of (phase_of w) w" "hold_of (phase_of w t) = None" "wait_of (phase_of w t) = None"
    and "w' = enter_phase t Resting v" "v = w \<or> v = w\<lparr>reserved_digests := r\<rparr>"
  shows "locks_inv digest_of (phase_of w') w'"
proof -
  have p: "phase_of w' = (phase_of w)(t := Resting)" using assms(4,5) by (auto simp: enter_phase_def)
  have h: "hold_of (phase_of w' u) = hold_of (phase_of w u)" "wait_of (phase_of w' u) = wait_of (phase_of w u)" for u
    using assms(2,3) by (simp_all add: p)
  have "users_ok digest_of (phase_of w') w" using assms(1) unfolding locks_inv_def users_ok_def h by blast
  moreover have "phases_ok digest_of (phase_of w') w"
    using assms(1) by (auto simp: locks_inv_def phases_ok_def p)
  ultimately have "locks_inv digest_of (phase_of w') w" using assms(1) by (simp add: locks_inv_def)
  then show ?thesis using assms(4,5) by (subst locks_inv_cong [of _ w]) (auto simp: enter_phase_def)
qed

theorem calm_step_locks:
  assumes inv: "locks_inv digest_of (phase_of w) w" and idx: "index_ok digest_of w"
    and calm: "calm digest_of a w" and step: "step digest_of a w = Some w'"
  shows "locks_inv digest_of (phase_of w') w'"
proof (cases a)
  case (Enter t key now)
  with step show ?thesis using enter_call_locks [OF inv, of t key now] by (auto split: if_splits)
next
  case (Resume t now)
  with step show ?thesis using resume_locks [OF inv, of t] by (auto split: phase.splits if_splits)
next
  case (Closed t ok now)
  with step show ?thesis using held_segments(1,2) [OF inv, of t] by (auto split: phase.splits if_splits)
next
  case (Spawned t cred now)
  with step calm show ?thesis using spawned_locks [OF inv idx] by (auto split: phase.splits if_splits)
next
  case (Discarded t)
  have exited: "locks_inv digest_of (phase_of w) (mark_exited b w)" for b
    using inv by (subst locks_inv_cong [of _ w]) (simp_all add: mark_exited_def)
  have abort: "locks_inv digest_of (phase_of v) v"
    if "phase_of w t = Aborting l b e" "v = finish (digest_of (key_of w t)) l t (Failed e) (mark_exited b w)" for l b e v
    unfolding that(2)
    by (rule finish_locks [OF exited]) (use that(1) locks_invD(11) [OF inv, of t] in \<open>simp_all add: mark_exited_def\<close>)
  from Discarded step show ?thesis
    using held_segments(3) [OF inv, of t] abort by (auto split: phase.splits)
next
  case (Raised t e)
  with step show ?thesis using raise_locks [OF inv] by simp
next
  case (Unreserve t)
  obtain r where "unreserve (digest_of (key_of w t)) w = w\<lparr>reserved_digests := r\<rparr>"
    using unreserve_update by metis
  with Unreserve step obtain v where "w' = enter_phase t Resting v" "v = w \<or> v = w\<lparr>reserved_digests := r\<rparr>"
    by (auto split: phase.splits)
  then show ?thesis
    by (rule release_locks [OF inv, rotated 2]) (use Unreserve step in \<open>auto split: phase.splits\<close>)
next
  case (HeartbeatDead b now)
  with step have w': "w' = heartbeat_recycle digest_of b now w" by (auto split: if_splits)
  have "phase_of w' = phase_of w"
    unfolding w' by (rule heartbeat_recycle_cases [of digest_of b now w]) simp_all
  then show ?thesis using heartbeat_locks [OF inv] calm HeartbeatDead w' by simp
next
  case (HeartbeatAlive b)
  with step show ?thesis
    by (intro aside_locks [OF inv]) (auto simp: note_backend_healthy_def split: option.splits)
next
  case (IdleSweep older pin now)
  with step have w': "w' = sweep_idle older pin now w" by simp
  then have "phase_of w' = phase_of w" by (simp add: sweep_idle_def evict_idle_def Let_def)
  then show ?thesis using idle_sweep_locks [OF inv] calm IdleSweep w' by simp
next
  case (Cutover now)
  with step have w': "w' = credential_cutover now w" by simp
  then have "phase_of w' = phase_of w" by (simp add: cutover_update)
  then show ?thesis using cutover_locks [OF inv] w' by simp
qed (rule aside_locks [OF inv]; use step in \<open>auto simp: pool_updates reap_draining_def release_exclusive_def
    acquire_exclusive_def register_exclusive_def Let_def split: phase.splits option.splits if_splits\<close>)+

end
