(* ===== verification/Pool_Tracking.thy ===== *)
theory Pool_Tracking
  imports Pool_Locks
begin

text \<open>
  What calm runs of the pool guarantee: one caller per key past the spawn lock, no collision,
  a lock table without leftovers, and no running backend that nobody will shut down. The last
  section shows runs outside of this: the code lets the heartbeat drop a spawn lock that is
  held, and it abandons a dead backend whose shutdown is interrupted.
\<close>

lemma calm_locks: "pool_run digest_of (calm digest_of) w \<Longrightarrow> locks_inv digest_of (phase_of w) w"
proof (induction rule: pool_run.induct)
  case (pool_start cap brk store p)
  then have "backends p = []" "spawn_locks p = []" "lock_at p = (\<lambda>_. fresh_lock)"
    by (auto simp: BackendPool_def split: if_splits)
  then show ?case
    by (simp add: locks_inv_def users_ok_def table_ok_def phases_ok_def start_world_def pool.defs fresh_lock_def)
next
  case (pool_step w a w')
  then show ?case using calm_step_locks reachable_ok by blast
qed

text \<open>C8. In a calm run at most one caller per key is between taking and releasing the spawn lock,
  so at most one backend is being spawned for it, and no insertion finds its digest taken.\<close>

theorem one_caller_spawns_per_key:
  assumes "pool_run digest_of (calm digest_of) w"
  shows "(\<forall>t u. hold_of (phase_of w t) \<noteq> None \<longrightarrow> hold_of (phase_of w u) \<noteq> None \<longrightarrow>
            digest_of (key_of w t) = digest_of (key_of w u) \<longrightarrow> t = u) \<and>
         (\<forall>t l b. phase_of w t \<noteq> Aborting l b PoolKeyCollision \<and> phase_of w t \<noteq> Failed PoolKeyCollision)"
proof (intro conjI allI impI)
  note D = locks_invD [OF calm_locks [OF assms]]
  fix t u
  assume "hold_of (phase_of w t) \<noteq> None" "hold_of (phase_of w u) \<noteq> None"
    and d: "digest_of (key_of w t) = digest_of (key_of w u)"
  then obtain l k where h: "hold_of (phase_of w t) = Some l" "hold_of (phase_of w u) = Some k" by blast
  with D(6) [OF h(1)] D(6) [OF h(2)] d have "k = l" by simp
  with D(2) h show "t = u" by blast
next
  fix t l b
  show "phase_of w t \<noteq> Aborting l b PoolKeyCollision"
    using locks_invD(11) [OF calm_locks [OF assms], of t] by auto
  show "phase_of w t \<noteq> Failed PoolKeyCollision"
    using locks_invD(11) [OF calm_locks [OF assms], of t] by auto
qed

text \<open>In a calm run the table of spawn locks holds an entry only for a pooled digest or for one
  that some caller holds or waits for: it does not grow with the keys ever tried.\<close>

theorem spawn_locks_are_needed:
  assumes "pool_run digest_of (calm digest_of) w" and "dict_get (spawn_locks w) d = Some l"
  shows "dict_get (backends w) d \<noteq> None \<or>
    (\<exists>t. digest_of (key_of w t) = d \<and> (hold_of (phase_of w t) = Some l \<or> wait_of (phase_of w t) = Some l))"
proof (cases "dict_get (backends w) d")
  case None
  note D = locks_invD [OF calm_locks [OF assms(1)]]
  have "\<not> lock_idle (lock_at w l)" using D(10) [OF assms(2) None] .
  then consider "locked (lock_at w l)" | "set (waiters (lock_at w l)) \<noteq> {}" by (auto simp: lock_idle_def)
  then obtain t where t: "hold_of (phase_of w t) = Some l \<or> wait_of (phase_of w t) = Some l"
  proof cases
    case 1
    with D(3) [OF 1] that show ?thesis by blast
  next
    case 2
    then show ?thesis using that unfolding D(5) by blast
  qed
  then have "dict_get (spawn_locks w) (digest_of (key_of w t)) = Some l" using D(6,7) by blast
  with D(8) assms(2) t show ?thesis by blast
qed simp

section \<open>Every running backend is known to somebody\<close>

text \<open>Where the pool and the tasks that close backends keep them.\<close>

definition home :: "world \<Rightarrow> nat set" where
  "home w = snd ` set (backends w) \<union> d_backend ` set (draining w) \<union> snd ` set (exclusive w) \<union>
     set (shutdown_tasks w) \<union> set (closing w)"

fun minds :: "phase \<Rightarrow> nat option" where
  "minds (ClosingStale l b) = Some b"
| "minds (Discarding l b a) = Some b"
| "minds (Aborting l b x) = Some b"
| "minds _ = None"

definition settled_but :: "nat set \<Rightarrow> world \<Rightarrow> nat \<Rightarrow> bool" where
  "settled_but T w b \<longleftrightarrow> b \<in> home w \<or> exited (backend_at w b) \<or> (\<exists>t. t \<notin> T \<and> minds (phase_of w t) = Some b)"

text \<open>An orderly action is calm, and no shutdown the pool relies on is cut short: the one of a
  quarantined backend does not raise, the one of a dead backend is not cancelled.\<close>

definition orderly :: "(pool_key \<Rightarrow> string) \<Rightarrow> pool_action \<Rightarrow> world \<Rightarrow> bool" where
  "orderly digest_of a w \<longleftrightarrow> calm digest_of a w \<and>
     (case a of Closed t ok now \<Rightarrow> ok
      | Raised t e \<Rightarrow> (case phase_of w t of ClosingStale l b \<Rightarrow> False | _ \<Rightarrow> True)
      | _ \<Rightarrow> True)"

lemma pool_run_mono: "pool_run digest_of P w \<Longrightarrow> (\<And>a w. P a w \<Longrightarrow> Q a w) \<Longrightarrow> pool_run digest_of Q w"
  by (induction rule: pool_run.induct) (auto intro: pool_run.intros)

lemma entry_values_del:
  "dict_wf d \<Longrightarrow> b \<in> snd ` set d \<Longrightarrow> b \<in> snd ` set (dict_del k d) \<or> dict_get d k = Some b"
proof -
  assume wf: "dict_wf d" and "b \<in> snd ` set d"
  then obtain e where e: "(e, b) \<in> set d" by force
  show ?thesis
  proof (cases "e = k")
    case True
    with e wf show ?thesis by simp
  next
    case False
    with e have "(e, b) \<in> set (dict_del k d)" by (simp add: AList.delete_eq)
    then show ?thesis by force
  qed
qed

lemma settled_start:
  "minds (phase_of w t) = None \<Longrightarrow> settled_but {} w b \<Longrightarrow> settled_but {t} w b"
  unfolding settled_but_def by (metis empty_iff insert_iff option.distinct(1))

text \<open>Task \<open>t\<close> ends a segment: what it does not mind any more has to be settled otherwise.\<close>

lemma settled_end:
  assumes "settled_but {t} w b" "home w \<subseteq> home w'" "\<And>c. exited (backend_at w c) \<Longrightarrow> exited (backend_at w' c)"
    and "\<And>u. u \<noteq> t \<Longrightarrow> phase_of w' u = phase_of w u"
  shows "settled_but {} w' b"
  using assms unfolding settled_but_def by (metis empty_iff insert_iff subsetD)

lemma finish_settled: "settled_but {t} w b \<Longrightarrow> settled_but {} (finish d l t ph w) b"
  by (erule settled_end) (auto simp: pool_updates home_def)

lemma enter_settled: "settled_but {t} w b \<Longrightarrow> settled_but {} (enter_phase t ph w) b"
  by (erule settled_end) (auto simp: enter_phase_def home_def)

text \<open>What the settling does not see.\<close>

lemma settled_cong:
  "backends w' = backends w \<Longrightarrow> draining w' = draining w \<Longrightarrow> exclusive w' = exclusive w \<Longrightarrow>
   shutdown_tasks w' = shutdown_tasks w \<Longrightarrow> closing w' = closing w \<Longrightarrow> phase_of w' = phase_of w \<Longrightarrow>
   (\<And>c. exited (backend_at w' c) = exited (backend_at w c)) \<Longrightarrow> settled_but T w' b = settled_but T w b"
  by (simp add: settled_but_def home_def)

lemma respawn_settled:
  assumes "settled_but {t} w b"
  shows "settled_but {} (goc_respawn d l t now w) b"
proof -
  have s: "settled_but {t} (w\<lparr>deaths_seen := ds\<rparr>) b" for ds
    using assms by (subst settled_cong [of _ w]) simp_all
  show ?thesis
    by (rule goc_respawn_cases [of d l t now w])
       (simp_all add: start_spawn_def finish_settled enter_settled s)
qed

lemma critical_settled:
  assumes "settled_but {t} w b" "dict_wf (backends w)"
  shows "settled_but {} (goc_critical digest_of l t now w) b"
proof (rule goc_critical_cases [of w digest_of t l now])
  fix c assume "goc_critical digest_of l t now w =
    finish (digest_of (key_of w t)) l t (Handed c) (reserve (digest_of (key_of w t)) w)"
  moreover have "settled_but {t} (reserve (digest_of (key_of w t)) w) b"
    using assms(1) by (subst settled_cong [of _ w]) (simp_all add: reserve_def)
  ultimately show ?thesis by (simp add: finish_settled)
next
  fix c ds
  assume c: "dict_get (backends w) (digest_of (key_of w t)) = Some c"
    and eq: "goc_critical digest_of l t now w = enter_phase t (ClosingStale l c)
      (w\<lparr>deaths_seen := ds, backends := dict_del (digest_of (key_of w t)) (backends w)\<rparr>)" (is "_ = ?w'")
  show ?thesis
  proof (cases "b = c")
    case True
    then show ?thesis unfolding eq settled_but_def by (auto simp: enter_phase_def intro!: exI [of _ t])
  next
    case False
    have "b \<in> home ?w'" if "b \<in> home w"
      using that entry_values_del [OF assms(2), of b "digest_of (key_of w t)"] c False
      by (auto simp: home_def enter_phase_def simp del: map_of_eq_Some_iff)
    moreover have "backend_at ?w' = backend_at w" "\<And>u. u \<noteq> t \<Longrightarrow> phase_of ?w' u = phase_of w u"
      by (simp_all add: enter_phase_def)
    ultimately show ?thesis
      using assms(1) unfolding eq settled_but_def by (metis empty_iff insert_iff)
  qed
qed (simp_all add: assms(1) respawn_settled enter_settled)

lemma lock_settled: "settled_but T (set_lock l s w) b = settled_but T w b"
  by (rule settled_cong) (simp_all add: set_lock_def)

lemma acquire_settled:
  assumes "settled_but {t} w b" "dict_wf (backends w)"
  shows "settled_but {} (goc_acquire digest_of l t now w) b"
  using assms by (auto simp: goc_acquire_def lock_settled set_lock_def intro!: critical_settled enter_settled)
     (simp_all add: lock_settled [unfolded set_lock_def])

lemma resume_settled:
  assumes "settled_but {t} w b" "dict_wf (backends w)"
  shows "settled_but {} (goc_resume digest_of l t now w) b"
proof -
  have "dict_wf (backends (set_lock l s w))" for s using assms(2) by (simp add: set_lock_def)
  then show ?thesis unfolding goc_resume_def using assms(1) by (intro critical_settled) (simp_all add: lock_settled)
qed

lemma enter_call_settled:
  assumes "settled_but {} w b" "phase_of w t = Resting" "dict_wf (backends w)"
  shows "settled_but {} (goc_enter digest_of t key now w) b"
proof -
  let ?v = "w\<lparr>key_of := (key_of w)(t := key)\<rparr>"
  have s: "settled_but {t} ?v b"
    using settled_start [of w t b] assms(1,2) by (subst settled_cong [of _ w]) simp_all
  show ?thesis
  proof (rule goc_enter_cases [of w digest_of key t now])
    fix c assume eq: "goc_enter digest_of t key now w = enter_phase t (Handed c) (reserve (digest_of key) ?v)"
    have "settled_but {t} (reserve (digest_of key) ?v) b"
      using s by (subst settled_cong [of _ ?v]) (simp_all add: reserve_def)
    then show ?thesis unfolding eq by (rule enter_settled)
  next
    fix u l assume u: "find_lock (digest_of key) ?v = (u, l)" and eq: "goc_enter digest_of t key now w = goc_acquire digest_of l t now u"
    have "settled_but {t} u b \<and> backends u = backends w"
    proof (cases "dict_get (spawn_locks ?v) (digest_of key)")
      case None
      then have u': "u = ?v\<lparr>spawn_locks := dict_set (digest_of key) (next_lock ?v) (spawn_locks ?v),
          lock_at := (lock_at ?v)(next_lock ?v := fresh_lock), next_lock := next_lock ?v + 1\<rparr>"
        using u by (auto simp: find_lock_def)
      have "settled_but {t} u b = settled_but {t} ?v b" unfolding u' by (rule settled_cong) simp_all
      with s u' show ?thesis by simp
    next
      case (Some k)
      then have "u = ?v" using u by (simp add: find_lock_def)
      with s show ?thesis by simp
    qed
    then show ?thesis unfolding eq using assms(3) by (simp add: acquire_settled)
  qed
qed

lemma settled_split:
  assumes "settled_but {} w b" "minds (phase_of w t) = None \<or> minds (phase_of w t) = Some c"
  shows "settled_but {t} w b \<or> b = c"
proof (cases "minds (phase_of w t) = Some b")
  case True
  with assms(2) show ?thesis by auto
next
  case False
  then have "minds (phase_of w u) = Some b \<Longrightarrow> u \<notin> {t}" for u by auto
  with assms(1) show ?thesis unfolding settled_but_def by blast
qed

lemma exited_settled:
  assumes "settled_but {} w b" "minds (phase_of w t) = None \<or> minds (phase_of w t) = Some c"
  shows "settled_but {t} (mark_exited c w) b"
  using settled_split [OF assms] by (auto simp: settled_but_def mark_exited_def home_def)

lemma quarantine_closed_settled:
  assumes "settled_but {} w b" "phase_of w t = ClosingQuarantined l c" "dict_wf (backends w)"
    and "dict_get (backends w) (digest_of (key_of w t)) = None \<or> dict_get (backends w) (digest_of (key_of w t)) = Some c"
  shows "settled_but {} (goc_quarantine_closed digest_of l c t True now w) b"
proof -
  let ?d = "digest_of (key_of w t)"
  let ?v = "mark_exited c w" and ?u = "(mark_exited c w)\<lparr>backends := dict_del (digest_of (key_of w t)) (backends w)\<rparr>"
  have v: "settled_but {t} ?v b" by (rule exited_settled [OF assms(1)]) (simp add: assms(2))
  have "settled_but {t} ?u b"
  proof (cases "b = c")
    case False
    then have "b \<in> snd ` set (backends w) \<Longrightarrow> b \<in> snd ` set (dict_del ?d (backends w))"
      using entry_values_del [OF assms(3), of b ?d] assms(4) by fastforce
    then have "b \<in> home ?v \<Longrightarrow> b \<in> home ?u" by (simp add: home_def mark_exited_def) blast
    moreover have "backend_at ?u = backend_at ?v" "phase_of ?u = phase_of ?v" by simp_all
    ultimately show ?thesis using v unfolding settled_but_def by metis
  qed (simp add: settled_but_def mark_exited_def)
  moreover have "goc_quarantine_closed digest_of l c t True now w = goc_respawn ?d l t now ?u"
    by (simp add: goc_quarantine_closed_def Let_def pool_evict_def mark_exited_def)
  ultimately show ?thesis by (simp add: respawn_settled)
qed

lemma stale_closed_settled:
  "settled_but {} w b \<Longrightarrow> phase_of w t = ClosingStale l c \<Longrightarrow>
     settled_but {} (goc_stale_closed digest_of l c t now w) b"
  unfolding goc_stale_closed_def by (rule respawn_settled, rule exited_settled) simp_all

lemma discarded_settled:
  "settled_but {} w b \<Longrightarrow> phase_of w t = Discarding l c a \<Longrightarrow>
     settled_but {} (goc_discarded digest_of l c a t w) b"
  using exited_settled [of w b t c]
  by (auto simp: goc_discarded_def Let_def start_spawn_def intro: enter_settled finish_settled)

lemma aborted_settled:
  "settled_but {} w b \<Longrightarrow> phase_of w t = Aborting l c x \<Longrightarrow>
     settled_but {} (finish d l t ph (mark_exited c w)) b"
  by (rule finish_settled, rule exited_settled) simp_all

lemma handover_settled:
  assumes "settled_but {} w b" "minds (phase_of w t) = Some c"
  shows "settled_but {t} (w\<lparr>closing := closing w @ [c]\<rparr>) b"
  using settled_split [OF assms(1), of t c] assms(2) by (auto simp: settled_but_def home_def)

lemma raise_settled:
  assumes "settled_but {} w b" "goc_raise digest_of t e (phase_of w t) w = Some w'"
    and "\<And>l c. phase_of w t \<noteq> ClosingStale l c"
  shows "settled_but {} w' b"
proof (cases "phase_of w t")
  case (Waiting l)
  have "settled_but {t} (reap_spawn_lock d l (set_lock l s w)) b" for d s
    using settled_start [of w t b] assms(1) Waiting
    by (subst settled_cong [of _ w]) (simp_all add: reap_spawn_lock_def set_lock_def)
  with Waiting assms(2) show ?thesis by (auto intro: enter_settled split: if_splits)
qed (use assms settled_start [of w t b] handover_settled [of w b t] in
      \<open>auto intro: finish_settled split: if_splits\<close>)


lemma values_set: "k \<notin> fst ` set d \<Longrightarrow> snd ` set (dict_set k v d) = insert v (snd ` set d)"
  by (induction d) auto

text \<open>A new backend is in somebody's hands from the start.\<close>

lemma spawned_settled:
  assumes old: "\<And>c. c < next_backend w \<Longrightarrow> settled_but {} w c" and idx: "index_ok digest_of w"
    and ph: "phase_of w t = Spawning l epoch a c0" and b: "b < Suc (next_backend w)"
  shows "settled_but {} (goc_spawned digest_of l epoch a t cred now w) b"
proof -
  let ?d = "digest_of (key_of w t)" and ?n = "next_backend w" and ?v = "launch (key_of w t) cred now w"
  have wf: "dict_wf (backends w)" using index_okD(1) [OF idx] .
  have k: "backends ?v = backends w" "phase_of ?v = phase_of w" by (simp_all add: launch_def)
  have v: "settled_but {t} ?v b" if "b \<noteq> ?n"
    using settled_start [of w t b] old [of b] b that ph by (auto simp: settled_but_def home_def launch_def)
  have failed: "settled_but {} (enter_phase t ph' (?v\<lparr>capacity_rejects := n\<rparr>)) b" "settled_but {} (enter_phase t ph' ?v) b"
    if "minds ph' = Some ?n" for ph' n
  proof -
    have u: "settled_but {t} (?v\<lparr>capacity_rejects := n\<rparr>) b = settled_but {t} ?v b" by (rule settled_cong) simp_all
    show "settled_but {} (enter_phase t ph' (?v\<lparr>capacity_rejects := n\<rparr>)) b"
      using enter_settled [of t "?v\<lparr>capacity_rejects := n\<rparr>" b ph'] u v that
      by (cases "b = ?n") (auto simp: settled_but_def enter_phase_def)
    show "settled_but {} (enter_phase t ph' ?v) b"
      using enter_settled [of t ?v b ph'] v that by (cases "b = ?n") (auto simp: settled_but_def enter_phase_def)
  qed
  have inserted: "settled_but {} w' b"
    if u: "b \<noteq> ?n \<Longrightarrow> settled_but {t} u b" "?d \<notin> fst ` set (backends u)"
      and w': "w' = finish ?d l t (Handed ?n) ((reserve ?d (u\<lparr>backends := dict_set ?d ?n (backends u)\<rparr>))\<lparr>spawns := n\<rparr>)"
    for u n w'
  proof -
    let ?u = "u\<lparr>backends := dict_set ?d ?n (backends u)\<rparr>"
    have "home ?u = insert ?n (home u)" by (auto simp: home_def values_set [OF u(2)])
    then have "settled_but {t} ?u b" using u(1) by (cases "b = ?n") (auto simp: settled_but_def)
    then have "settled_but {t} ((reserve ?d ?u)\<lparr>spawns := n\<rparr>) b"
      by (subst settled_cong [of _ ?u]) (simp_all add: reserve_def)
    then show ?thesis unfolding w' by (rule finish_settled)
  qed
  show ?thesis
  proof (rule pool_add_cases [of epoch ?v ?d ?n])
    assume "?d \<notin> fst ` set (backends ?v)"
      "pool_add ?d ?n True (Some epoch) ?v = (reserve ?d (?v\<lparr>backends := dict_set ?d ?n (backends ?v)\<rparr>), None)"
    then show ?thesis by (intro inserted [OF v]) (simp_all add: goc_spawned_def Let_def)
  next
    fix d' b'
    let ?u = "?v\<lparr>spawn_locks := dict_del d' (spawn_locks ?v), evictions_lru := evictions_lru ?v + 1,
      shutdown_tasks := shutdown_tasks ?v @ [b'], backends := dict_del d' (backends ?v)\<rparr>"
    assume p: "pick_lru_idle ?v = Some (d', b')" "?d \<notin> fst ` set (backends ?v)"
      "pool_add ?d ?n True (Some epoch) ?v =
         (reserve ?d (?v\<lparr>spawn_locks := dict_del d' (spawn_locks ?v), evictions_lru := evictions_lru ?v + 1,
            shutdown_tasks := shutdown_tasks ?v @ [b'],
            backends := dict_set ?d ?n (dict_del d' (backends ?v))\<rparr>), None)"
    have "(d', b') \<in> set (backends w)" using pick_lru_idle_member [OF p(1)] by (simp add: k)
    then have "dict_get (backends w) d' = Some b'" using wf by (simp add: dict_get_eq_Some)
    then have "c \<in> snd ` set (backends w) \<Longrightarrow> c \<in> snd ` set (dict_del d' (backends w)) \<or> c = b'" for c
      using entry_values_del [OF wf, of c d'] by (simp del: map_of_eq_Some_iff) blast
    then have "home ?v \<subseteq> home ?u" by (auto simp: home_def k simp del: map_of_eq_Some_iff)
    then have "b \<noteq> ?n \<Longrightarrow> settled_but {t} ?u b" using v by (auto simp: settled_but_def)
    then show ?thesis
      by (rule inserted) (use p(2) in \<open>auto simp: goc_spawned_def Let_def p(3) dict_keys_del k\<close>)
  qed (simp_all add: goc_spawned_def Let_def failed)
qed

text \<open>Actions that no task takes.\<close>

lemma aside_settled:
  assumes "settled_but {} w b" "home w \<subseteq> insert c (home w')" "exited (backend_at w' c)"
    "\<And>x. exited (backend_at w x) \<Longrightarrow> exited (backend_at w' x)" "phase_of w' = phase_of w"
  shows "settled_but {} w' b"
  using assms unfolding settled_but_def by (metis insertE subsetD)

lemma moved_settled:
  assumes "settled_but {} w b" "home w \<subseteq> home w'"
    "\<And>x. exited (backend_at w x) \<Longrightarrow> exited (backend_at w' x)" "phase_of w' = phase_of w"
  shows "settled_but {} w' b"
  using assms unfolding settled_but_def by (metis subsetD)

lemma values_fold_del:
  assumes "dict_wf d" "b \<in> snd ` set d"
  shows "b \<in> snd ` set (fold dict_del ks d) \<or> (\<exists>k \<in> set ks. dict_get d k = Some b)"
  using assms
proof (induction ks arbitrary: d)
  case (Cons k ks)
  consider "b \<in> snd ` set (dict_del k d)" | "dict_get d k = Some b"
    using entry_values_del [OF Cons.prems] by blast
  then show ?case
  proof cases
    case 1
    have "dict_wf (dict_del k d)" using Cons.prems(1) by simp
    from Cons.IH [OF this 1] have "b \<in> snd ` set (fold dict_del ks (dict_del k d)) \<or>
        (\<exists>j\<in>set ks. dict_get (dict_del k d) j = Some b)" .
    then show ?thesis by (auto simp del: map_of_eq_Some_iff split: if_splits)
  next
    case 2
    then show ?thesis by (auto simp del: map_of_eq_Some_iff)
  qed
qed simp

lemma idle_sweep_settled:
  assumes "settled_but {} w b" "dict_wf (backends w)"
  shows "settled_but {} (sweep_idle older pin now w) b"
proof (rule moved_settled [OF assms(1)])
  let ?stale = "filter (idle_stale (now - older) pin w) (backends w)"
  have "c \<in> snd ` set (fold dict_del (map fst ?stale) (backends w)) \<or> c \<in> snd ` set ?stale"
    if "c \<in> snd ` set (backends w)" for c
    using values_fold_del [OF assms(2) that, of "map fst ?stale"]
  proof
    assume "\<exists>k\<in>set (map fst ?stale). dict_get (backends w) k = Some c"
    then obtain e where e: "e \<in> set ?stale" "dict_get (backends w) (fst e) = Some c" by auto
    have "(fst e, snd e) \<in> set (backends w)" using e(1) by simp
    then have "dict_get (backends w) (fst e) = Some (snd e)" using assms(2) by (simp only: dict_get_eq_Some)
    with e(2) have "snd e = c" by simp
    with e(1) show ?thesis by force
  qed blast
  then show "home w \<subseteq> home (sweep_idle older pin now w)"
    unfolding home_def sweep_idle_def evict_idle_def Let_def by auto
qed (simp_all add: sweep_idle_def evict_idle_def Let_def)


lemma exclusive_settled:
  assumes old: "\<And>c. c < next_backend w \<Longrightarrow> settled_but {} w c" and wf: "dict_wf (exclusive w)"
    and b: "b < Suc (next_backend w)"
  shows "settled_but {} (acquire_exclusive stub key cred now w) b"
proof -
  let ?n = "next_backend w"
  let ?w = "acquire_exclusive stub key cred now w"
  have vals: "snd ` set (dict_set stub ?n (dict_del stub (exclusive w))) = insert ?n (snd ` set (dict_del stub (exclusive w)))"
    by (rule values_set) (simp add: dict_keys_del)
  have same: "phase_of ?w = phase_of w" "backends ?w = backends w" "draining ?w = draining w"
    "shutdown_tasks ?w = shutdown_tasks w" "set (closing w) \<subseteq> set (closing ?w)"
    "exclusive ?w = dict_set stub ?n (dict_del stub (exclusive w))"
    by (auto simp: acquire_exclusive_def register_exclusive_def launch_def split: option.split)
  have old_exited: "exited (backend_at ?w c) = exited (backend_at w c)" if "c \<noteq> ?n" for c
    using that by (auto simp: acquire_exclusive_def register_exclusive_def launch_def split: option.split)
  have taken: "c \<in> set (closing ?w)" if "dict_get (exclusive w) stub = Some c" for c
    using that by (simp add: acquire_exclusive_def register_exclusive_def launch_def del: map_of_eq_Some_iff)
  have new: "?n \<in> home ?w" by (simp add: home_def same vals)
  show ?thesis
  proof (cases "b = ?n")
    case True
    with new show ?thesis by (simp add: settled_but_def)
  next
    case False
    have "c \<in> home ?w" if "c \<in> home w" for c
      using that entry_values_del [OF wf, of c stub] taken same(5)
      unfolding home_def same(2-4,6) vals by (auto simp del: map_of_eq_Some_iff)
    then show ?thesis using old [of b] b False old_exited [OF False] unfolding settled_but_def same(1) by auto
  qed
qed

lemma release_exclusive_settled:
  assumes "settled_but {} w b" "dict_wf (exclusive w)" "step digest_of (ReleaseExclusive stub) w = Some w'"
  shows "settled_but {} w' b"
proof (rule moved_settled [OF assms(1)])
  show "home w \<subseteq> home w'"
  proof (cases "dict_get (exclusive w) stub")
    case None
    then have "exclusive w' = dict_del stub (exclusive w)" "closing w' = closing w" "backends w' = backends w"
      "draining w' = draining w" "shutdown_tasks w' = shutdown_tasks w"
      using assms(3) by (auto simp: release_exclusive_def)
    moreover have "snd ` set (exclusive w) \<subseteq> snd ` set (dict_del stub (exclusive w))"
      using entry_values_del [OF assms(2), of _ stub] None by (simp del: map_of_eq_None_iff) blast
    ultimately show ?thesis unfolding home_def by auto
  next
    case (Some c)
    then have "exclusive w' = dict_del stub (exclusive w)" "closing w' = closing w @ [c]" "backends w' = backends w"
      "draining w' = draining w" "shutdown_tasks w' = shutdown_tasks w"
      using assms(3) by (auto simp: release_exclusive_def simp del: map_of_eq_Some_iff)
    moreover have "snd ` set (exclusive w) \<subseteq> insert c (snd ` set (dict_del stub (exclusive w)))"
      using entry_values_del [OF assms(2), of _ stub] Some by (simp del: map_of_eq_Some_iff) blast
    ultimately show ?thesis unfolding home_def by auto
  qed
qed (use assms(3) in \<open>auto simp: release_exclusive_def split: option.splits\<close>)

lemma heartbeat_settled:
  assumes "settled_but {} w b" "dict_wf (backends w)"
  shows "settled_but {} (heartbeat_recycle digest_of c now w) b"
proof (rule heartbeat_recycle_cases [of digest_of c now w])
  fix ds assume "heartbeat_recycle digest_of c now w = w\<lparr>deaths_seen := ds\<rparr>"
  then show ?thesis using assms(1) by (intro moved_settled [OF assms(1)]) (simp_all add: home_def)
next
  let ?d = "digest_of (pool_key_of (backend_at w c))"
  fix ds
  assume c: "dict_get (backends w) ?d = Some c"
    and eq: "heartbeat_recycle digest_of c now w = w\<lparr>deaths_seen := ds, backends := dict_del ?d (backends w),
      spawn_locks := dict_del ?d (spawn_locks w), closing := closing w @ [c]\<rparr>"
  have "x \<in> snd ` set (dict_del ?d (backends w)) \<or> x = c" if "x \<in> snd ` set (backends w)" for x
    using entry_values_del [OF assms(2) that, of ?d] c by (auto simp del: map_of_eq_Some_iff)
  then have "home w \<subseteq> home (heartbeat_recycle digest_of c now w)" unfolding eq home_def by auto
  then show ?thesis by (rule moved_settled [OF assms(1)]) (simp_all add: eq)
qed

lemma cutover_settled:
  assumes "settled_but {} w b"
  shows "settled_but {} (credential_cutover now w) b"
  by (rule moved_settled [OF assms]) (auto simp: cutover_update home_def image_Un image_image)

lemma reap_settled:
  assumes "settled_but {} w b" "step digest_of (Reap now) w = Some w'"
  shows "settled_but {} w' b"
proof -
  let ?gone = "filter (reapable now w) (draining w)" and ?stay = "filter (\<lambda>e. \<not> reapable now w e) (draining w)"
  have w': "w' = w\<lparr>draining := ?stay, closing := closing w @ map d_backend ?gone\<rparr>"
    using assms(2) by (simp add: reap_draining_def)
  then have at: "draining w' = ?stay" "closing w' = closing w @ map d_backend ?gone" "backends w' = backends w"
    "exclusive w' = exclusive w" "shutdown_tasks w' = shutdown_tasks w" "backend_at w' = backend_at w"
    "phase_of w' = phase_of w" by simp_all
  have "set (draining w) \<subseteq> set ?stay \<union> set ?gone" by auto
  then have "d_backend ` set (draining w) \<subseteq> d_backend ` set ?stay \<union> set (map d_backend ?gone)"
    unfolding set_map by blast
  then have "home w \<subseteq> home w'" unfolding home_def at by auto
  then show ?thesis by (rule moved_settled [OF assms(1)]) (simp_all add: at)
qed

lemma shutdown_done_settled:
  assumes "settled_but {} w b" "step digest_of (ShutdownDone c) w = Some w'"
  shows "settled_but {} w' b"
  by (rule aside_settled [OF assms(1), of c])
     (use assms(2) in \<open>auto simp: mark_exited_def home_def split: if_splits\<close>)


lemma unreserve_settled:
  assumes "settled_but {} w b" "step digest_of (Unreserve t) w = Some w'"
  shows "settled_but {} w' b"
proof -
  have "minds (phase_of w t) = None" using assms(2) by (auto split: phase.splits)
  then have s: "settled_but {t} w b" using settled_start assms(1) by blast
  have "settled_but {t} (unreserve d w) b" for d
    using s by (subst settled_cong [of _ w]) (subst unreserve_update, simp)+
  with s show ?thesis using assms(2) by (auto intro: enter_settled split: phase.splits)
qed

definition all_settled :: "world \<Rightarrow> bool" where
  "all_settled w \<longleftrightarrow> (\<forall>b < next_backend w. settled_but {} w b)"

lemma step_settled:
  assumes known: "all_settled w" and idx: "index_ok digest_of w" and locks: "locks_inv digest_of (phase_of w) w"
    and orderly: "orderly digest_of a w" and step: "step digest_of a w = Some w'"
  shows "all_settled w'"
proof -
  have old: "settled_but {} w b" if "b < next_backend w" for b using known that by (simp add: all_settled_def)
  have same: "all_settled w'" if "next_backend w' = next_backend w" "\<And>b. settled_but {} w b \<Longrightarrow> settled_but {} w' b"
    using that old by (simp add: all_settled_def)
  have segment: "all_settled w'"
    if "segment_result digest_of t v w'" "next_backend v = next_backend w"
      "\<And>b. settled_but {} w b \<Longrightarrow> settled_but {} w' b" for t v
    using that by (intro same) (simp_all add: segment_result_def same_index_def)
  have quiet: "all_settled w'" if "next_backend w' = next_backend w" "home w' = home w" "phase_of w' = phase_of w"
      "\<And>x. exited (backend_at w x) \<Longrightarrow> exited (backend_at w' x)"
    by (rule same [OF that(1)]) (rule moved_settled; use that in simp)
  note wf = index_okD(1) [OF idx] index_okD(3) [OF idx]
  show ?thesis
  proof (cases a)
    case (Enter t key now)
    with step have "phase_of w t = Resting" "w' = goc_enter digest_of t key now w" by (auto split: if_splits)
    then show ?thesis
      using segment [OF enter_segment [of digest_of t w key now, folded \<open>w' = _\<close>]] enter_call_settled [OF _ _ wf(1)]
      by simp
  next
    case (Resume t now)
    then obtain l where "phase_of w t = Waiting l" and w': "w' = goc_resume digest_of l t now w"
      using step by (auto split: phase.splits if_splits)
    then have "settled_but {} w b \<Longrightarrow> settled_but {} w' b" for b
      using resume_settled [OF settled_start wf(1)] by simp
    then show ?thesis using segment [OF resume_segment [of digest_of t w l now, folded w']] by simp
  next
    case (Closed t ok now)
    with orderly have ok by (simp add: orderly_def)
    with Closed step consider l b where "phase_of w t = ClosingQuarantined l b" "w' = goc_quarantine_closed digest_of l b t True now w"
      | l b where "phase_of w t = ClosingStale l b" "w' = goc_stale_closed digest_of l b t now w"
      by (auto split: phase.splits if_splits)
    then show ?thesis
    proof cases
      case (1 l b)
      then show ?thesis
        using segment [OF quarantine_closed_segment [of digest_of t w l b True now, folded 1(2)]]
          quarantine_closed_settled [OF _ 1(1) wf(1)] locks_invD(11) [OF locks, of t] by simp
    next
      case (2 l b)
      then show ?thesis
        using segment [OF stale_closed_segment [of digest_of t w l b now, folded 2(2)]] stale_closed_settled by simp
    qed
  next
    case (Spawned t cred now)
    then obtain l e a c0 where ph: "phase_of w t = Spawning l e a c0" and w': "w' = goc_spawned digest_of l e a t cred now w"
      using step by (auto split: phase.splits if_splits)
    have "next_backend w' \<le> Suc (next_backend w)"
      unfolding w' by (rule pool_add_cases [of e "launch (key_of w t) cred now w" "digest_of (key_of w t)" "next_backend w"])
        (simp_all add: goc_spawned_def Let_def pool_updates)
    then show ?thesis
      unfolding all_settled_def w' using spawned_settled [OF old idx ph] by simp
  next
    case (Discarded t)
    then consider l b a where "phase_of w t = Discarding l b a" "w' = goc_discarded digest_of l b a t w"
      | l b e where "phase_of w t = Aborting l b e"
          "w' = finish (digest_of (key_of w t)) l t (Failed e) (mark_exited b w)"
      using step by (auto split: phase.splits)
    then show ?thesis
    proof cases
      case (1 l b a)
      then show ?thesis
        using segment [OF discarded_segment [of digest_of t w l b a, folded 1(2)]] discarded_settled by simp
    next
      case (2 l b e)
      then show ?thesis
        using segment [OF aborted_segment [of digest_of t w "digest_of (key_of w t)" l e b, folded 2(2)]]
          aborted_settled by simp
    qed
  next
    case (Raised t e)
    with step have r: "goc_raise digest_of t e (phase_of w t) w = Some w'" by simp
    moreover have "phase_of w t \<noteq> ClosingStale l c" for l c
      using orderly Raised by (auto simp: orderly_def split: phase.splits)
    ultimately show ?thesis using segment [OF raise_segment [OF r]] raise_settled [OF _ r] by simp
  next
    case (Unreserve t)
    have "next_backend w' = next_backend w" using step Unreserve
      by (auto simp: enter_phase_def split: phase.splits) (subst unreserve_update, simp)
    with Unreserve step show ?thesis using unreserve_settled by (intro same) blast+
  next
    case (HeartbeatDead b now)
    with step have w': "w' = heartbeat_recycle digest_of b now w" by (auto split: if_splits)
    have "next_backend w' = next_backend w"
      unfolding w' by (rule heartbeat_recycle_cases [of digest_of b now w]) simp_all
    then show ?thesis unfolding w' using heartbeat_settled [OF _ wf(1)] by (intro same [unfolded w']) blast+
  next
    case (IdleSweep older pin now)
    with step have w': "w' = sweep_idle older pin now w" by simp
    have "next_backend w' = next_backend w" by (simp add: w' sweep_idle_def evict_idle_def Let_def)
    then show ?thesis unfolding w' using idle_sweep_settled [OF _ wf(1)] by (intro same [unfolded w']) blast+
  next
    case (Cutover now)
    with step show ?thesis using cutover_settled by (intro same) (auto simp: cutover_update)
  next
    case (Reap now)
    with step show ?thesis using reap_settled by (intro same) (auto simp: reap_draining_def)
  next
    case (AcquireExclusive stub key cred now)
    with step have w': "w' = acquire_exclusive stub key cred now w" by (auto split: if_splits)
    have "next_backend w' = Suc (next_backend w)"
      by (simp add: w' acquire_exclusive_def register_exclusive_def launch_def split: option.split)
    then show ?thesis using exclusive_settled [OF old wf(2)] by (simp add: all_settled_def w')
  next
    case (ReleaseExclusive stub)
    with step show ?thesis using release_exclusive_settled [OF _ wf(2)]
      by (intro same) (auto simp: release_exclusive_def split: option.splits)
  next
    case (ShutdownDone b)
    with step show ?thesis using shutdown_done_settled by (intro same) (auto simp: mark_exited_def split: if_splits)
  next
    case (HeartbeatAlive b)
    with step have "w' = note_backend_healthy (digest_of (pool_key_of (backend_at w b))) w" by simp
    then show ?thesis
      by (intro same) (auto simp: note_backend_healthy_def home_def split: option.splits intro: moved_settled)
  qed (rule quiet; use step in \<open>auto simp: home_def pool_updates attach_stub_def detach_stub_def touch_def
      recycle_if_idle_def Let_def split: phase.splits option.splits if_splits\<close>)+
qed

lemma orderly_settled: "pool_run digest_of (orderly digest_of) w \<Longrightarrow> all_settled w"
proof (induction rule: pool_run.induct)
  case (pool_start cap brk store p)
  then have "next_backend p = 0" by (auto simp: BackendPool_def split: if_splits)
  then show ?case by (simp add: all_settled_def start_world_def pool.defs)
next
  case (pool_step w a w')
  then have "pool_run digest_of (calm digest_of) w" by (elim pool_run_mono) (simp add: orderly_def)
  with pool_step show ?case using step_settled calm_locks reachable_ok by blast
qed

text \<open>C9. In an orderly run every backend process that is still running is in the pool (shared,
  draining or private), or some task has it in hand to shut it down: none is forgotten.\<close>

theorem running_backends_are_known:
  assumes "pool_run digest_of (orderly digest_of) w" "b < next_backend w" "\<not> exited (backend_at w b)"
  shows "b \<in> set (all_backends w) \<union> set (shutdown_tasks w) \<union> set (closing w) \<or> (\<exists>t. minds (phase_of w t) = Some b)"
  using orderly_settled [OF assms(1)] assms(2,3)
  by (auto simp: all_settled_def settled_but_def home_def all_backends_def)


section \<open>Checked runs\<close>

text \<open>\<open>steps\<close>, with every action checked before it is taken.\<close>

fun checked_steps :: "(pool_key \<Rightarrow> string) \<Rightarrow> (pool_action \<Rightarrow> world \<Rightarrow> bool) \<Rightarrow> pool_action list \<Rightarrow> world \<Rightarrow> world option" where
  "checked_steps digest_of P [] w = Some w"
| "checked_steps digest_of P (a # as) w =
     (if P a w then (case step digest_of a w of None \<Rightarrow> None | Some v \<Rightarrow> checked_steps digest_of P as v) else None)"

lemma checked_run:
  "checked_steps digest_of P as w = Some w' \<Longrightarrow> pool_run digest_of P w \<Longrightarrow> pool_run digest_of P w'"
  by (induction as arbitrary: w) (auto split: if_splits option.splits intro: pool_run.pool_step)

definition checked :: "(pool_action \<Rightarrow> world \<Rightarrow> bool) \<Rightarrow> pool_action list \<Rightarrow> (world \<Rightarrow> bool) \<Rightarrow> bool" where
  "checked P as Q = (case checked_steps sandbox_mode P as (start_world sample_pool) of None \<Rightarrow> False | Some w \<Rightarrow> Q w)"

lemma checkedD:
  assumes "checked P as Q"
  obtains w where "pool_run sandbox_mode P w" "Q w"
  using assms checked_run pool_run.pool_start [OF sample_pool_new]
  by (fastforce simp: checked_def split: option.splits)

text \<open>Two callers of one key: the second waits for the first.\<close>

definition two_callers :: "pool_action list" where
  "two_callers = [Enter 0 (sample_key ''a'') 10, Enter 1 (sample_key ''a'') 10]"

lemma two_callers_checked:
  "checked (calm sandbox_mode) two_callers (\<lambda>w. phase_of w 0 = Spawning 0 0 0 0 \<and> phase_of w 1 = Waiting 0 \<and>
     key_of w 0 = sample_key ''a'' \<and> dict_get (spawn_locks w) ''a'' = Some 0 \<and> backends w = [])"
  by code_simp

lemma one_caller_spawns_per_key_witness:
  "\<exists>w :: world. phase_of w 1 = Waiting 0 \<and>
     {t. hold_of (phase_of w t) \<noteq> None \<and> sandbox_mode (key_of w t) = ''a''} = {0}"
proof -
  obtain w where w: "pool_run sandbox_mode (calm sandbox_mode) w" "phase_of w 0 = Spawning 0 0 0 0"
    "phase_of w 1 = Waiting 0" "key_of w 0 = sample_key ''a''"
    by (rule checkedD [OF two_callers_checked]) (elim conjE, rule that)
  have "t = 0" if "hold_of (phase_of w t) \<noteq> None" "sandbox_mode (key_of w t) = ''a''" for t
    using one_caller_spawns_per_key [OF w(1), THEN conjunct1, rule_format, of t 0] that w(2,4)
    by (simp add: sample_key_def)
  moreover have "hold_of (phase_of w 0) \<noteq> None" "sandbox_mode (key_of w 0) = ''a''"
    using w(2,4) by (simp_all add: sample_key_def)
  ultimately have "{t. hold_of (phase_of w t) \<noteq> None \<and> sandbox_mode (key_of w t) = ''a''} = {0}" by blast
  with w(3) show ?thesis by - (rule exI [of _ w], intro conjI)
qed

lemma spawn_locks_are_needed_witness:
  "\<exists>w :: world. dict_get (spawn_locks w) ''a'' = Some 0 \<and>
     (\<exists>t. sandbox_mode (key_of w t) = ''a'' \<and> (hold_of (phase_of w t) = Some 0 \<or> wait_of (phase_of w t) = Some 0))"
proof -
  obtain w where w: "pool_run sandbox_mode (calm sandbox_mode) w" "dict_get (spawn_locks w) ''a'' = Some 0"
    "backends w = []"
    by (rule checkedD [OF two_callers_checked]) (elim conjE, rule that)
  from spawn_locks_are_needed [OF w(1,2)] w(3)
  obtain t where "sandbox_mode (key_of w t) = ''a''" "hold_of (phase_of w t) = Some 0 \<or> wait_of (phase_of w t) = Some 0"
    by auto
  with w(2) show ?thesis by - (rule exI [of _ w], intro conjI exI [of _ t])
qed

text \<open>A backend in use at a cutover is found among the draining ones.\<close>

lemma running_backends_are_known_witness:
  "\<exists>w :: world. \<not> exited (backend_at w 0) \<and> backends w = [] \<and> map d_backend (draining w) = [0] \<and>
     (0 \<in> set (all_backends w) \<union> set (shutdown_tasks w) \<union> set (closing w) \<or> (\<exists>t. minds (phase_of w t) = Some 0))"
proof -
  have "checked (orderly sandbox_mode) (sharing @ [Rotate, Cutover 20])
      (\<lambda>w. next_backend w = 1 \<and> \<not> exited (backend_at w 0) \<and> backends w = [] \<and> map d_backend (draining w) = [0])"
    by code_simp
  then obtain w where w: "pool_run sandbox_mode (orderly sandbox_mode) w" "next_backend w = 1"
    "\<not> exited (backend_at w 0)" "backends w = []" "map d_backend (draining w) = [0]"
    by (rule checkedD) (elim conjE, rule that)
  have "0 < next_backend w" by (simp add: w(2))
  from running_backends_are_known [OF w(1) this w(3)] w(3-5) show ?thesis
    by - (rule exI [of _ w], intro conjI)
qed

section \<open>Outside calm and orderly runs\<close>

text \<open>A quarantined backend is being shut down under the spawn lock when its process exits and the
  heartbeat sees it: the heartbeat's eviction drops the held lock, so the next caller of the
  same key makes a new one.\<close>

definition lock_dropped :: "pool_action list" where
  "lock_dropped = [Enter 0 (sample_key ''a'') 10, Spawned 0 0 11, Attach 0 ''s0'' 12, Unreserve 0, Recycle 0 True,
     Enter 1 (sample_key ''a'') 13, Exited 0, HeartbeatDead 0 14, Enter 2 (sample_key ''a'') 15]"

text \<open>Two callers of one key are then spawning or about to, each under its own lock.\<close>

theorem heartbeat_breaks_the_spawn_lock:
  "\<exists>w. reachable sandbox_mode w \<and> key_of w 1 = key_of w 2 \<and>
     hold_of (phase_of w 1) = Some 0 \<and> hold_of (phase_of w 2) = Some 1"
proof -
  have "observe lock_dropped (\<lambda>w. key_of w 1 = key_of w 2 \<and> hold_of (phase_of w 1) = Some 0 \<and>
      hold_of (phase_of w 2) = Some 1)"
    by code_simp
  from observed [OF this] show ?thesis by blast
qed

text \<open>When the second caller has its new backend and the shutdown of the first ends, the first
  caller's eviction, which does not say which backend it means, takes the new one out of the
  pool; its result is dropped, so the running backend is left with nobody to shut it down.\<close>

theorem quarantine_evicts_a_newcomer:
  "\<exists>w. reachable sandbox_mode w \<and> phase_of w 2 = Handed 1 \<and> usable (backend_at w 1) \<and> 1 \<notin> home w"
proof -
  have "observe (lock_dropped @ [Spawned 2 0 16, Closed 1 True 17])
      (\<lambda>w. phase_of w 2 = Handed 1 \<and> usable (backend_at w 1) \<and> 1 \<notin> home w)"
    by code_simp
  from observed [OF this] show ?thesis by blast
qed

text \<open>The first caller spawning first instead, the second caller's insertion collides.\<close>

theorem dropped_lock_makes_insertions_collide:
  "\<exists>w. reachable sandbox_mode w \<and> phase_of w 2 = Aborting 1 2 PoolKeyCollision"
proof -
  have "observe (lock_dropped @ [Closed 1 True 16, Spawned 1 0 17, Spawned 2 0 18])
      (\<lambda>w. phase_of w 2 = Aborting 1 2 PoolKeyCollision)"
    by code_simp
  from observed [OF this] show ?thesis by blast
qed

text \<open>A caller cancelled while it shuts down a dead backend whose process still runs leaves the
  process to nobody: it is out of the pool and the shutdown is not shielded.\<close>

theorem cancelled_shutdown_forgets_a_process:
  "\<exists>w. reachable sandbox_mode w \<and> \<not> exited (backend_at w 0) \<and> 0 \<notin> home w \<and>
     phase_of w 0 = Resting \<and> phase_of w 1 = Failed PoolCancelled"
proof -
  have "observe [Enter 0 (sample_key ''a'') 10, Spawned 0 0 11, Attach 0 ''s0'' 12, Unreserve 0, Died 0,
        Enter 1 (sample_key ''a'') 13, Raised 1 PoolCancelled]
      (\<lambda>w. \<not> exited (backend_at w 0) \<and> 0 \<notin> home w \<and> phase_of w 0 = Resting \<and> phase_of w 1 = Failed PoolCancelled)"
    by code_simp
  from observed [OF this] show ?thesis by blast
qed

text \<open>A victim of capacity pressure may have its spawn lock held as well: a quarantined backend that
  lost its last stub while its replacement waits for the shutdown.\<close>

theorem victim_with_a_held_lock:
  "\<exists>w. reachable sandbox_mode w \<and> hold_of (phase_of w 1) = Some 0 \<and> locked (lock_at w 0) \<and>
     shutdown_tasks w = [0] \<and> dict_get (spawn_locks w) (sandbox_mode (key_of w 1)) = None"
proof -
  have "observe [Enter 0 (sample_key ''a'') 10, Spawned 0 0 11, Attach 0 ''s0'' 12, Unreserve 0, Recycle 0 True,
        Enter 1 (sample_key ''a'') 13, Detach 0 ''s0'' 14, Enter 2 (sample_key ''b'') 15, Spawned 2 0 16]
      (\<lambda>w. hold_of (phase_of w 1) = Some 0 \<and> locked (lock_at w 0) \<and>
        shutdown_tasks w = [0] \<and> dict_get (spawn_locks w) (sandbox_mode (key_of w 1)) = None)"
    by code_simp
  from observed [OF this] show ?thesis by blast
qed

end
