(* ===== verification/Monitor_Model.thy ===== *)
theory Monitor_Model
  imports Json
begin

text \<open>
  The data of the structured monitors (\<open>monitoring/models.py\<close>): the enumerations with
  their wire values, budgets, observations and completions with the checks of their
  constructors, and the restart-durable state with its decoding, its quarantine and its
  encoding.

  Timestamps are rationals: an integer and a float with the same value decode to the same
  timestamp, and encoding writes it as a number. Counters are naturals, as the constructor
  guarantees.
\<close>

section \<open>Constants and enumerations\<close>

definition MONITOR_STATE_VERSION :: int where "MONITOR_STATE_VERSION = 1"
definition DEFAULT_MONITOR_RUNTIME_SECS :: int where "DEFAULT_MONITOR_RUNTIME_SECS = 14400"
definition DEFAULT_MONITOR_AGENT_TURNS :: int where "DEFAULT_MONITOR_AGENT_TURNS = 8"
definition DEFAULT_MONITOR_TOKENS :: int where "DEFAULT_MONITOR_TOKENS = 250000"
definition DEFAULT_MONITOR_PROVIDER_ERRORS :: int where "DEFAULT_MONITOR_PROVIDER_ERRORS = 3"
definition DEFAULT_MONITOR_CADENCE_SECS :: int where "DEFAULT_MONITOR_CADENCE_SECS = 300"
definition MAX_MONITOR_STOP_REASON_CHARS :: nat where "MAX_MONITOR_STOP_REASON_CHARS = 500"
definition MONITOR_COMPLETION_EVIDENCE_TIMEOUT_SECS :: rat where
  "MONITOR_COMPLETION_EVIDENCE_TIMEOUT_SECS = 7260"
definition MONITOR_BUSY_RETRY_SECS :: int where "MONITOR_BUSY_RETRY_SECS = 15"

datatype monitor_decision =
  NO_CHANGE | RECORD_ONLY | WAKE_ACTIONABLE | STOP_SUCCESS | STOP_BLOCKED | RETRY_PROVIDER | STOP_BUDGET

datatype observation_status =
  OBS_PENDING | OBS_ACTIONABLE | OBS_SUCCESS | OBS_BLOCKED | OBS_PROVIDER_ERROR

datatype provider_error_kind =
  TRANSIENT | RATE_LIMITED | AUTHENTICATION | AUTHORIZATION | NOT_FOUND | SETUP

datatype monitor_outcome =
  OUT_SUCCESS | OUT_BLOCKED | OUT_BUDGET | OUT_USER_STOP | OUT_SESSION_CLOSE | OUT_TARGET_UNAVAILABLE

datatype action_disposition =
  ACT_SUCCESS | ACT_FAILURE | ACT_CANCELLATION | ACT_APPROVAL_STALL

datatype dispatch_result = DISPATCHED | BUSY | UNAVAILABLE

text \<open>The wire values: \<open>Enum(value)\<close> looks a value up, \<open>member.value\<close> reads it off.\<close>

definition decision_values :: "(string \<times> monitor_decision) list" where
  "decision_values = [(''no_change'', NO_CHANGE), (''record_only'', RECORD_ONLY),
     (''wake_actionable'', WAKE_ACTIONABLE), (''stop_success'', STOP_SUCCESS),
     (''stop_blocked'', STOP_BLOCKED), (''retry_provider'', RETRY_PROVIDER),
     (''stop_budget'', STOP_BUDGET)]"

definition provider_error_values :: "(string \<times> provider_error_kind) list" where
  "provider_error_values = [(''transient'', TRANSIENT), (''rate_limited'', RATE_LIMITED),
     (''authentication'', AUTHENTICATION), (''authorization'', AUTHORIZATION),
     (''not_found'', NOT_FOUND), (''setup'', SETUP)]"

definition outcome_values :: "(string \<times> monitor_outcome) list" where
  "outcome_values = [(''success'', OUT_SUCCESS), (''blocked'', OUT_BLOCKED), (''budget'', OUT_BUDGET),
     (''user_stop'', OUT_USER_STOP), (''session_close'', OUT_SESSION_CLOSE),
     (''target_unavailable'', OUT_TARGET_UNAVAILABLE)]"

definition disposition_values :: "(string \<times> action_disposition) list" where
  "disposition_values = [(''success'', ACT_SUCCESS), (''failure'', ACT_FAILURE),
     (''cancellation'', ACT_CANCELLATION), (''approval_stall'', ACT_APPROVAL_STALL)]"

definition dispatch_values :: "(string \<times> dispatch_result) list" where
  "dispatch_values = [(''dispatched'', DISPATCHED), (''busy'', BUSY), (''unavailable'', UNAVAILABLE)]"

fun value_of :: "(string \<times> 'a) list \<Rightarrow> 'a \<Rightarrow> string" where
  "value_of [] x = []"
| "value_of ((v, y) # tbl) x = (if y = x then v else value_of tbl x)"

definition enum_table_ok :: "(string \<times> 'a) list \<Rightarrow> bool" where
  "enum_table_ok tbl \<longleftrightarrow> distinct (map fst tbl) \<and> (\<forall>x. \<exists>v. (v, x) \<in> set tbl)"

lemma value_of_in: "(v, x) \<in> set tbl \<Longrightarrow> (value_of tbl x, x) \<in> set tbl"
  by (induction tbl x rule: value_of.induct) auto

lemma enum_roundtrip: "enum_table_ok tbl \<Longrightarrow> map_of tbl (value_of tbl x) = Some x"
  using value_of_in by (fastforce simp: enum_table_ok_def intro: map_of_is_SomeI)

lemma enum_tables_ok:
  "enum_table_ok decision_values" "enum_table_ok provider_error_values" "enum_table_ok outcome_values"
  "enum_table_ok disposition_values" "enum_table_ok dispatch_values"
proof -
  have "\<exists>v. (v, x) \<in> set decision_values" for x by (cases x) (auto simp: decision_values_def)
  then show "enum_table_ok decision_values" by (simp add: enum_table_ok_def) (simp add: decision_values_def)
  have "\<exists>v. (v, x) \<in> set provider_error_values" for x by (cases x) (auto simp: provider_error_values_def)
  then show "enum_table_ok provider_error_values"
    by (simp add: enum_table_ok_def) (simp add: provider_error_values_def)
  have "\<exists>v. (v, x) \<in> set outcome_values" for x by (cases x) (auto simp: outcome_values_def)
  then show "enum_table_ok outcome_values" by (simp add: enum_table_ok_def) (simp add: outcome_values_def)
  have "\<exists>v. (v, x) \<in> set disposition_values" for x by (cases x) (auto simp: disposition_values_def)
  then show "enum_table_ok disposition_values"
    by (simp add: enum_table_ok_def) (simp add: disposition_values_def)
  have "\<exists>v. (v, x) \<in> set dispatch_values" for x by (cases x) (auto simp: dispatch_values_def)
  then show "enum_table_ok dispatch_values" by (simp add: enum_table_ok_def) (simp add: dispatch_values_def)
qed

section \<open>Numbers\<close>

text \<open>The least integer that does not convert to a float.\<close>

definition FLOAT_OVERFLOW :: int where "FLOAT_OVERFLOW = 2 ^ 1024 - 2 ^ 970"

fun is_finite_non_negative_number :: "json \<Rightarrow> bool" where
  "is_finite_non_negative_number (JInt n) = (0 \<le> n \<and> n < FLOAT_OVERFLOW)"
| "is_finite_non_negative_number (JFloat (Fin q)) = (0 \<le> q)"
| "is_finite_non_negative_number _ = False"

fun number_value :: "json \<Rightarrow> rat" where
  "number_value (JInt n) = of_int n"
| "number_value (JFloat (Fin q)) = q"
| "number_value _ = 0"

lemma number_value_nonneg: "is_finite_non_negative_number v \<Longrightarrow> 0 \<le> number_value v"
  by (cases v rule: is_finite_non_negative_number.cases) auto

text \<open>\<open>json.dumps(value, allow_nan=False)\<close> succeeds.\<close>

fun strict_json :: "json \<Rightarrow> bool" where
  "strict_json (JFloat (Fin q)) = True"
| "strict_json (JFloat _) = False"
| "strict_json (JArr xs) = list_all strict_json xs"
| "strict_json (JObj kvs) = list_all (\<lambda>kv. strict_json (snd kv)) kvs"
| "strict_json _ = True"

section \<open>Budgets, observations, completions\<close>

record budgets =
  max_runtime_secs :: int
  max_agent_turns :: int
  max_tokens :: int
  max_provider_errors :: int

definition default_budgets :: budgets where
  "default_budgets = \<lparr>max_runtime_secs = DEFAULT_MONITOR_RUNTIME_SECS,
     max_agent_turns = DEFAULT_MONITOR_AGENT_TURNS, max_tokens = DEFAULT_MONITOR_TOKENS,
     max_provider_errors = DEFAULT_MONITOR_PROVIDER_ERRORS\<rparr>"

definition budgets_ok :: "budgets \<Rightarrow> bool" where
  "budgets_ok b \<longleftrightarrow> 0 < max_runtime_secs b \<and> 0 < max_agent_turns b \<and> 0 < max_tokens b \<and>
     0 < max_provider_errors b \<and> max_agent_turns b \<le> DEFAULT_MONITOR_AGENT_TURNS"

definition MonitorBudgets :: "budgets \<Rightarrow> budgets res" where
  "MonitorBudgets b = rbind (ensure (budgets_ok b) ValueError) (\<lambda>_. Inr b)"

fun budget_int :: "json \<Rightarrow> int res" where
  "budget_int (JInt n) = Inr n"
| "budget_int _ = Inl ValueError"

definition BUDGET_FIELDS :: "string list" where
  "BUDGET_FIELDS = [''max_runtime_secs'', ''max_agent_turns'', ''max_tokens'', ''max_provider_errors'']"

text \<open>\<open>MonitorBudgets(**d)\<close>: an unknown keyword is a \<open>TypeError\<close>.\<close>

definition budgets_from_dict :: "jobj \<Rightarrow> budgets res" where
  "budgets_from_dict d =
     rbind (ensure (list_all (\<lambda>(k, v). k \<in> set BUDGET_FIELDS) d) TypeError) (\<lambda>_.
     rbind (budget_int (jget_default d ''max_runtime_secs'' (JInt DEFAULT_MONITOR_RUNTIME_SECS))) (\<lambda>r.
     rbind (budget_int (jget_default d ''max_agent_turns'' (JInt DEFAULT_MONITOR_AGENT_TURNS))) (\<lambda>t.
     rbind (budget_int (jget_default d ''max_tokens'' (JInt DEFAULT_MONITOR_TOKENS))) (\<lambda>k.
     rbind (budget_int (jget_default d ''max_provider_errors'' (JInt DEFAULT_MONITOR_PROVIDER_ERRORS))) (\<lambda>p.
       MonitorBudgets \<lparr>max_runtime_secs = r, max_agent_turns = t, max_tokens = k,
         max_provider_errors = p\<rparr>)))))"

definition budgets_to_dict :: "budgets \<Rightarrow> jobj" where
  "budgets_to_dict b = [(''max_runtime_secs'', JInt (max_runtime_secs b)),
     (''max_agent_turns'', JInt (max_agent_turns b)), (''max_tokens'', JInt (max_tokens b)),
     (''max_provider_errors'', JInt (max_provider_errors b))]"

lemma budgets_roundtrip: "budgets_ok b \<Longrightarrow> budgets_from_dict (budgets_to_dict b) = Inr b"
  by (cases b) (simp add: budgets_from_dict_def budgets_to_dict_def BUDGET_FIELDS_def MonitorBudgets_def
      jget_default_def dict_get_default_def)

lemma budgets_from_dict_ok: "budgets_from_dict d = Inr b \<Longrightarrow> budgets_ok b"
  by (auto simp: budgets_from_dict_def MonitorBudgets_def res_simps)

record observation =
  o_fingerprint :: string
  o_status :: observation_status
  o_provider_error :: "provider_error_kind option"
  o_supplemental :: "provider_error_kind option"
  o_reason_code :: string
  o_summary :: string
  o_head_changed :: bool

definition MonitorObservation :: "observation \<Rightarrow> observation res" where
  "MonitorObservation ob =
     (if o_status ob = OBS_PROVIDER_ERROR then
        rbind (ensure (o_provider_error ob \<noteq> None) ValueError) (\<lambda>_.
        rbind (ensure (o_supplemental ob = None) ValueError) (\<lambda>_.
        rbind (ensure (\<not> o_head_changed ob) ValueError) (\<lambda>_. Inr ob)))
      else
        rbind (ensure (o_fingerprint ob \<noteq> []) ValueError) (\<lambda>_.
        rbind (ensure (o_provider_error ob = None) ValueError) (\<lambda>_. Inr ob)))"

definition observation_ok :: "observation \<Rightarrow> bool" where
  "observation_ok ob \<longleftrightarrow> MonitorObservation ob = Inr ob"

lemma observation_ok_cases:
  assumes "observation_ok ob"
  obtains (error) "o_status ob = OBS_PROVIDER_ERROR" "o_provider_error ob \<noteq> None"
      "o_supplemental ob = None" "\<not> o_head_changed ob"
    | (comparable) "o_status ob \<noteq> OBS_PROVIDER_ERROR" "o_fingerprint ob \<noteq> []" "o_provider_error ob = None"
proof (cases "o_status ob = OBS_PROVIDER_ERROR")
  case True
  with assms have "o_provider_error ob \<noteq> None" "o_supplemental ob = None" "\<not> o_head_changed ob"
    by (simp_all add: observation_ok_def MonitorObservation_def rbind_eq_Inr ensure_eq_Inr del: not_None_eq)
  with True show ?thesis by (rule error)
next
  case False
  with assms have "o_fingerprint ob \<noteq> []" "o_provider_error ob = None"
    by (simp_all add: observation_ok_def MonitorObservation_def rbind_eq_Inr ensure_eq_Inr)
  with False show ?thesis by (rule comparable)
qed

record completion =
  c_monitor_id :: string
  c_fingerprint :: string
  c_disposition :: action_disposition
  c_completed_ts :: rat
  c_input_tokens :: "nat option"
  c_output_tokens :: "nat option"

definition MonitorActionCompletion :: "completion \<Rightarrow> completion res" where
  "MonitorActionCompletion c =
     rbind (ensure (c_monitor_id c \<noteq> []) ValueError) (\<lambda>_.
     rbind (ensure (c_fingerprint c \<noteq> []) ValueError) (\<lambda>_.
     rbind (ensure (0 \<le> c_completed_ts c) ValueError) (\<lambda>_. Inr c)))"

section \<open>The durable state\<close>

record monitor_state =
  kind :: string
  target :: string
  objective :: string
  created_ts :: rat
  version :: int
  config_generation :: int
  m_budgets :: budgets
  cadence_secs :: int
  wake_instructions :: string
  last_observation :: jobj
  last_fingerprint :: string
  last_observed_at :: rat
  last_wake_fingerprint :: string
  wake_in_flight :: bool
  wake_delivery :: "dispatch_result option"
  wake_count :: nat
  completion_evidence_deadline :: rat
  last_wake_reason_code :: string
  last_completion_fingerprint :: string
  last_completion_disposition :: "action_disposition option"
  last_completed_at :: rat
  token_usage_known :: bool
  agent_turns :: nat
  input_tokens :: nat
  output_tokens :: nat
  consecutive_provider_errors :: nat
  probe_count :: nat
  provider_error_count :: nat
  last_probe_at :: rat
  last_decision :: "monitor_decision option"
  last_provider_error :: "provider_error_kind option"
  quiet_ticks :: nat
  wakes :: nat
  gate_fallbacks :: nat
  followup_ticks :: nat
  quiet_streak :: nat
  floor_ticks :: nat
  poll_in_flight :: bool
  terminal_pending :: string
  next_probe_at :: rat
  outcome :: "monitor_outcome option"
  stopped_reason :: string
  user_stop_reason :: string
  stopped_at :: rat
  extra_fields :: jobj
  raw_payload :: "jobj option"

text \<open>\<open>MonitorState(kind=k, target=t, objective=o, created_ts=c)\<close>, every other field at its default.\<close>

definition fresh_monitor :: "string \<Rightarrow> string \<Rightarrow> string \<Rightarrow> rat \<Rightarrow> monitor_state" where
  "fresh_monitor k t o1 c = \<lparr>kind = k, target = t, objective = o1, created_ts = c, version = MONITOR_STATE_VERSION,
     config_generation = 1, m_budgets = default_budgets, cadence_secs =
     DEFAULT_MONITOR_CADENCE_SECS, wake_instructions = [], last_observation = [],
     last_fingerprint = [], last_observed_at = 0, last_wake_fingerprint = [], wake_in_flight
     = False, wake_delivery = None, wake_count = 0, completion_evidence_deadline = 0,
     last_wake_reason_code = [], last_completion_fingerprint = [],
     last_completion_disposition = None, last_completed_at = 0, token_usage_known = True,
     agent_turns = 0, input_tokens = 0, output_tokens = 0, consecutive_provider_errors = 0,
     probe_count = 0, provider_error_count = 0, last_probe_at = 0, last_decision = None,
     last_provider_error = None, quiet_ticks = 0, wakes = 0, gate_fallbacks = 0,
     followup_ticks = 0, quiet_streak = 0, floor_ticks = 0, poll_in_flight = False,
     terminal_pending = [], next_probe_at = 0, outcome = None, stopped_reason = [],
     user_stop_reason = [], stopped_at = 0, extra_fields = [], raw_payload = None\<rparr>"

definition total_tokens :: "monitor_state \<Rightarrow> nat" where
  "total_tokens st = input_tokens st + output_tokens st"

text \<open>What \<open>__post_init__\<close> demands beyond the types of the record.\<close>

definition state_ok :: "monitor_state \<Rightarrow> bool" where
  "state_ok st \<longleftrightarrow>
     kind st \<noteq> [] \<and> target st \<noteq> [] \<and> objective st \<noteq> [] \<and>
     0 < version st \<and> 0 < config_generation st \<and>
     0 \<le> created_ts st \<and> 0 \<le> last_observed_at st \<and> 0 \<le> last_completed_at st \<and>
     0 \<le> completion_evidence_deadline st \<and> 0 \<le> last_probe_at st \<and> 0 \<le> next_probe_at st \<and>
     0 \<le> stopped_at st \<and> budgets_ok (m_budgets st) \<and> 0 < cadence_secs st \<and>
     strict_json (JObj (last_observation st)) \<and>
     length (user_stop_reason st) \<le> MAX_MONITOR_STOP_REASON_CHARS \<and>
     strict_json (JObj (extra_fields st)) \<and>
     (case raw_payload st of None \<Rightarrow> True | Some d \<Rightarrow> strict_json (JObj d))"

section \<open>Decoding\<close>

text \<open>The readers of one field, each with the check its constructor makes.\<close>

fun read_str :: "json \<Rightarrow> string res" where
  "read_str (JStr s) = Inr s"
| "read_str _ = Inl ValueError"

definition read_name :: "json \<Rightarrow> string res" where
  "read_name v = rbind (read_str v) (\<lambda>s. rbind (ensure (s \<noteq> []) ValueError) (\<lambda>_. Inr s))"

definition read_reason :: "json \<Rightarrow> string res" where
  "read_reason v = rbind (read_str v) (\<lambda>s.
     rbind (ensure (length s \<le> MAX_MONITOR_STOP_REASON_CHARS) ValueError) (\<lambda>_. Inr s))"

definition read_ts :: "json \<Rightarrow> rat res" where
  "read_ts v = rbind (ensure (is_finite_non_negative_number v) ValueError) (\<lambda>_. Inr (number_value v))"

fun read_pos :: "json \<Rightarrow> int res" where
  "read_pos (JInt n) = (if 0 < n then Inr n else Inl ValueError)"
| "read_pos _ = Inl ValueError"

fun read_count :: "json \<Rightarrow> nat res" where
  "read_count (JInt n) = (if 0 \<le> n then Inr (nat n) else Inl ValueError)"
| "read_count _ = Inl ValueError"

fun read_bool :: "json \<Rightarrow> bool res" where
  "read_bool (JBool b) = Inr b"
| "read_bool _ = Inl ValueError"

text \<open>\<open>poll_in_flight\<close> and \<open>terminal_pending\<close> are normalised instead of refused.\<close>

fun read_poll :: "json \<Rightarrow> bool res" where
  "read_poll (JBool b) = Inr b"
| "read_poll _ = Inr True"

fun read_pending :: "json \<Rightarrow> string res" where
  "read_pending (JStr s) = Inr s"
| "read_pending v = Inr (if truthy v then ''blocked'' else [])"

fun read_obj :: "json \<Rightarrow> jobj res" where
  "read_obj (JObj d) = (if strict_json (JObj d) then Inr d else Inl ValueError)"
| "read_obj _ = Inl ValueError"

fun read_enum :: "(string \<times> 'a) list \<Rightarrow> json \<Rightarrow> 'a option res" where
  "read_enum tbl JNull = Inr None"
| "read_enum tbl (JStr s) = (case map_of tbl s of None \<Rightarrow> Inl ValueError | Some x \<Rightarrow> Inr (Some x))"
| "read_enum tbl _ = Inl ValueError"

text \<open>One keyword argument: absent, the field keeps its default.\<close>

definition field :: "string \<Rightarrow> (json \<Rightarrow> 'a res) \<Rightarrow> ('a \<Rightarrow> monitor_state \<Rightarrow> monitor_state) \<Rightarrow>
    jobj \<Rightarrow> monitor_state \<Rightarrow> monitor_state res" where
  "field name reader put d st =
     (case dict_get d name of None \<Rightarrow> Inr st | Some v \<Rightarrow> rbind (reader v) (\<lambda>x. Inr (put x st)))"

text \<open>
  \<open>budgets\<close> is converted when it is an object; a \<open>null\<close> passes the conversion and is refused by the
  constructor.
\<close>

definition convert_budgets :: "jobj \<Rightarrow> monitor_state \<Rightarrow> monitor_state res" where
  "convert_budgets d st =
     (case dict_get d ''budgets'' of
        None \<Rightarrow> Inr st
      | Some JNull \<Rightarrow> Inr st
      | Some (JObj b) \<Rightarrow> rbind (budgets_from_dict b) (\<lambda>x. Inr (st\<lparr>m_budgets := x\<rparr>))
      | Some _ \<Rightarrow> Inl ValueError)"

definition check_budgets :: "jobj \<Rightarrow> monitor_state \<Rightarrow> monitor_state res" where
  "check_budgets d st = (if dict_get d ''budgets'' = Some JNull then Inl ValueError else Inr st)"

text \<open>The conversions that precede the constructor, and the checks of the constructor.\<close>

definition CONVERSIONS :: "(jobj \<Rightarrow> monitor_state \<Rightarrow> monitor_state res) list" where
  "CONVERSIONS = [
     convert_budgets,
     field ''outcome'' (read_enum outcome_values) (\<lambda>v s. s\<lparr>outcome := v\<rparr>),
     field ''last_completion_disposition'' (read_enum disposition_values) (\<lambda>v s. s\<lparr>last_completion_disposition := v\<rparr>),
     field ''wake_delivery'' (read_enum dispatch_values) (\<lambda>v s. s\<lparr>wake_delivery := v\<rparr>),
     field ''last_decision'' (read_enum decision_values) (\<lambda>v s. s\<lparr>last_decision := v\<rparr>),
     field ''last_provider_error'' (read_enum provider_error_values) (\<lambda>v s. s\<lparr>last_provider_error := v\<rparr>)]"

definition REQUIRED_FIELDS :: "string list" where
  "REQUIRED_FIELDS = [''kind'', ''target'', ''objective'', ''created_ts'']"

definition NAME_CHECKS :: "(jobj \<Rightarrow> monitor_state \<Rightarrow> monitor_state res) list" where
  "NAME_CHECKS = [
     field ''kind'' read_name (\<lambda>v s. s\<lparr>kind := v\<rparr>),
     field ''target'' read_name (\<lambda>v s. s\<lparr>target := v\<rparr>),
     field ''objective'' read_name (\<lambda>v s. s\<lparr>objective := v\<rparr>)]"

definition FIELD_CHECKS :: "(jobj \<Rightarrow> monitor_state \<Rightarrow> monitor_state res) list" where
  "FIELD_CHECKS = [
     field ''created_ts'' read_ts (\<lambda>v s. s\<lparr>created_ts := v\<rparr>),
     field ''version'' read_pos (\<lambda>v s. s\<lparr>version := v\<rparr>),
     field ''config_generation'' read_pos (\<lambda>v s. s\<lparr>config_generation := v\<rparr>),
     field ''cadence_secs'' read_pos (\<lambda>v s. s\<lparr>cadence_secs := v\<rparr>),
     field ''wake_instructions'' read_str (\<lambda>v s. s\<lparr>wake_instructions := v\<rparr>),
     field ''last_observation'' read_obj (\<lambda>v s. s\<lparr>last_observation := v\<rparr>),
     field ''last_fingerprint'' read_str (\<lambda>v s. s\<lparr>last_fingerprint := v\<rparr>),
     field ''last_observed_at'' read_ts (\<lambda>v s. s\<lparr>last_observed_at := v\<rparr>),
     field ''last_wake_fingerprint'' read_str (\<lambda>v s. s\<lparr>last_wake_fingerprint := v\<rparr>),
     field ''wake_in_flight'' read_bool (\<lambda>v s. s\<lparr>wake_in_flight := v\<rparr>),
     field ''wake_count'' read_count (\<lambda>v s. s\<lparr>wake_count := v\<rparr>),
     field ''completion_evidence_deadline'' read_ts (\<lambda>v s. s\<lparr>completion_evidence_deadline := v\<rparr>),
     field ''last_wake_reason_code'' read_str (\<lambda>v s. s\<lparr>last_wake_reason_code := v\<rparr>),
     field ''last_completion_fingerprint'' read_str (\<lambda>v s. s\<lparr>last_completion_fingerprint := v\<rparr>),
     field ''last_completed_at'' read_ts (\<lambda>v s. s\<lparr>last_completed_at := v\<rparr>),
     field ''token_usage_known'' read_bool (\<lambda>v s. s\<lparr>token_usage_known := v\<rparr>),
     field ''agent_turns'' read_count (\<lambda>v s. s\<lparr>agent_turns := v\<rparr>),
     field ''input_tokens'' read_count (\<lambda>v s. s\<lparr>input_tokens := v\<rparr>),
     field ''output_tokens'' read_count (\<lambda>v s. s\<lparr>output_tokens := v\<rparr>),
     field ''consecutive_provider_errors'' read_count (\<lambda>v s. s\<lparr>consecutive_provider_errors := v\<rparr>),
     field ''probe_count'' read_count (\<lambda>v s. s\<lparr>probe_count := v\<rparr>),
     field ''provider_error_count'' read_count (\<lambda>v s. s\<lparr>provider_error_count := v\<rparr>),
     field ''last_probe_at'' read_ts (\<lambda>v s. s\<lparr>last_probe_at := v\<rparr>),
     field ''quiet_ticks'' read_count (\<lambda>v s. s\<lparr>quiet_ticks := v\<rparr>),
     field ''wakes'' read_count (\<lambda>v s. s\<lparr>wakes := v\<rparr>),
     field ''gate_fallbacks'' read_count (\<lambda>v s. s\<lparr>gate_fallbacks := v\<rparr>),
     field ''followup_ticks'' read_count (\<lambda>v s. s\<lparr>followup_ticks := v\<rparr>),
     field ''quiet_streak'' read_count (\<lambda>v s. s\<lparr>quiet_streak := v\<rparr>),
     field ''floor_ticks'' read_count (\<lambda>v s. s\<lparr>floor_ticks := v\<rparr>),
     field ''poll_in_flight'' read_poll (\<lambda>v s. s\<lparr>poll_in_flight := v\<rparr>),
     field ''terminal_pending'' read_pending (\<lambda>v s. s\<lparr>terminal_pending := v\<rparr>),
     field ''next_probe_at'' read_ts (\<lambda>v s. s\<lparr>next_probe_at := v\<rparr>),
     field ''stopped_reason'' read_str (\<lambda>v s. s\<lparr>stopped_reason := v\<rparr>),
     field ''user_stop_reason'' read_reason (\<lambda>v s. s\<lparr>user_stop_reason := v\<rparr>),
     field ''stopped_at'' read_ts (\<lambda>v s. s\<lparr>stopped_at := v\<rparr>),
     check_budgets]"

definition CHECKS :: "(jobj \<Rightarrow> monitor_state \<Rightarrow> monitor_state res) list" where
  "CHECKS = NAME_CHECKS @ FIELD_CHECKS"

definition STATE_FIELDS :: "string list" where
  "STATE_FIELDS = [''kind'', ''target'', ''objective'', ''created_ts'', ''version'',
     ''config_generation'', ''budgets'', ''cadence_secs'', ''wake_instructions'',
     ''last_observation'', ''last_fingerprint'', ''last_observed_at'',
     ''last_wake_fingerprint'', ''wake_in_flight'', ''wake_delivery'', ''wake_count'',
     ''completion_evidence_deadline'', ''last_wake_reason_code'',
     ''last_completion_fingerprint'', ''last_completion_disposition'',
     ''last_completed_at'', ''token_usage_known'', ''agent_turns'', ''input_tokens'',
     ''output_tokens'', ''consecutive_provider_errors'', ''probe_count'',
     ''provider_error_count'', ''last_probe_at'', ''last_decision'',
     ''last_provider_error'', ''quiet_ticks'', ''wakes'', ''gate_fallbacks'',
     ''followup_ticks'', ''quiet_streak'', ''floor_ticks'', ''poll_in_flight'',
     ''terminal_pending'', ''next_probe_at'', ''outcome'', ''stopped_reason'',
     ''user_stop_reason'', ''stopped_at'']"

definition unknown_fields :: "jobj \<Rightarrow> jobj" where
  "unknown_fields d = filter (\<lambda>(k, v). k \<notin> set STATE_FIELDS) d"

definition identity_or :: "string \<Rightarrow> jobj \<Rightarrow> string \<Rightarrow> string" where
  "identity_or prefix d name =
     (case dict_get d name of Some (JStr s) \<Rightarrow> if s \<noteq> [] then s else prefix @ name | _ \<Rightarrow> prefix @ name)"

definition readable_created :: "jobj \<Rightarrow> rat" where
  "readable_created d =
     (if is_finite_non_negative_number (jget d ''created_ts'') then number_value (jget d ''created_ts'') else 0)"

text \<open>A record of another version stays an inert view around its raw payload.\<close>

definition newer_version_view :: "jobj \<Rightarrow> monitor_state res" where
  "newer_version_view d =
     rbind (read_pos (jget d ''version'')) (\<lambda>v.
     rbind (ensure (strict_json (JObj d)) ValueError) (\<lambda>_.
       Inr ((fresh_monitor (identity_or ''unsupported_'' d ''kind'') (identity_or ''unsupported_'' d ''target'')
              (identity_or ''unsupported_'' d ''objective'') (readable_created d))
            \<lparr>version := v, raw_payload := Some d\<rparr>)))"

definition monitor_state_from_dict :: "json \<Rightarrow> monitor_state res" where
  "monitor_state_from_dict raw =
     (case raw of
        JObj d \<Rightarrow>
          if \<not> py_eq_int (jget_default d ''version'' (JInt MONITOR_STATE_VERSION)) MONITOR_STATE_VERSION
          then newer_version_view d
          else
            rbind (fold_res (\<lambda>f. f d) CONVERSIONS (fresh_monitor [] [] [] 0)) (\<lambda>st.
            rbind (ensure (list_all (jhas d) REQUIRED_FIELDS) TypeError) (\<lambda>_.
            rbind (fold_res (\<lambda>f. f d) CHECKS st) (\<lambda>st.
            rbind (ensure (strict_json (JObj (unknown_fields d))) ValueError) (\<lambda>_.
              Inr (st\<lparr>extra_fields := unknown_fields d\<rparr>)))))
      | _ \<Rightarrow> Inl ValueError)"

definition MONITOR_STOP_INVALID_RECORD :: string where
  "MONITOR_STOP_INVALID_RECORD = ''invalid_monitor_record''"

definition quarantine_monitor_state :: "json \<Rightarrow> monitor_state res" where
  "quarantine_monitor_state raw =
     (case raw of
        JObj d \<Rightarrow>
          Inr ((fresh_monitor (identity_or ''invalid_'' d ''kind'') (identity_or ''invalid_'' d ''target'')
                 (identity_or ''invalid_'' d ''objective'') (readable_created d))
               \<lparr>outcome := Some OUT_BLOCKED, stopped_reason := MONITOR_STOP_INVALID_RECORD\<rparr>)
      | _ \<Rightarrow> Inl ValueError)"

section \<open>Encoding\<close>

definition ts_json :: "rat \<Rightarrow> json" where "ts_json t = JFloat (Fin t)"
definition count_json :: "nat \<Rightarrow> json" where "count_json n = JInt (int n)"
definition budgets_json :: "budgets \<Rightarrow> json" where "budgets_json b = JObj (budgets_to_dict b)"

definition enum_json :: "(string \<times> 'a) list \<Rightarrow> 'a option \<Rightarrow> json" where
  "enum_json tbl x = (case x of None \<Rightarrow> JNull | Some y \<Rightarrow> JStr (value_of tbl y))"

definition known_fields :: "monitor_state \<Rightarrow> jobj" where
  "known_fields st = [
     (''kind'', JStr (kind st)),
     (''target'', JStr (target st)),
     (''objective'', JStr (objective st)),
     (''created_ts'', ts_json (created_ts st)),
     (''version'', JInt (version st)),
     (''config_generation'', JInt (config_generation st)),
     (''budgets'', budgets_json (m_budgets st)),
     (''cadence_secs'', JInt (cadence_secs st)),
     (''wake_instructions'', JStr (wake_instructions st)),
     (''last_observation'', JObj (last_observation st)),
     (''last_fingerprint'', JStr (last_fingerprint st)),
     (''last_observed_at'', ts_json (last_observed_at st)),
     (''last_wake_fingerprint'', JStr (last_wake_fingerprint st)),
     (''wake_in_flight'', JBool (wake_in_flight st)),
     (''wake_delivery'', enum_json dispatch_values (wake_delivery st)),
     (''wake_count'', count_json (wake_count st)),
     (''completion_evidence_deadline'', ts_json (completion_evidence_deadline st)),
     (''last_wake_reason_code'', JStr (last_wake_reason_code st)),
     (''last_completion_fingerprint'', JStr (last_completion_fingerprint st)),
     (''last_completion_disposition'', enum_json disposition_values (last_completion_disposition st)),
     (''last_completed_at'', ts_json (last_completed_at st)),
     (''token_usage_known'', JBool (token_usage_known st)),
     (''agent_turns'', count_json (agent_turns st)),
     (''input_tokens'', count_json (input_tokens st)),
     (''output_tokens'', count_json (output_tokens st)),
     (''consecutive_provider_errors'', count_json (consecutive_provider_errors st)),
     (''probe_count'', count_json (probe_count st)),
     (''provider_error_count'', count_json (provider_error_count st)),
     (''last_probe_at'', ts_json (last_probe_at st)),
     (''last_decision'', enum_json decision_values (last_decision st)),
     (''last_provider_error'', enum_json provider_error_values (last_provider_error st)),
     (''quiet_ticks'', count_json (quiet_ticks st)),
     (''wakes'', count_json (wakes st)),
     (''gate_fallbacks'', count_json (gate_fallbacks st)),
     (''followup_ticks'', count_json (followup_ticks st)),
     (''quiet_streak'', count_json (quiet_streak st)),
     (''floor_ticks'', count_json (floor_ticks st)),
     (''poll_in_flight'', JBool (poll_in_flight st)),
     (''terminal_pending'', JStr (terminal_pending st)),
     (''next_probe_at'', ts_json (next_probe_at st)),
     (''outcome'', enum_json outcome_values (outcome st)),
     (''stopped_reason'', JStr (stopped_reason st)),
     (''user_stop_reason'', JStr (user_stop_reason st)),
     (''stopped_at'', ts_json (stopped_at st))]"

text \<open>\<open>payload.setdefault(key, value)\<close> for every preserved key.\<close>

definition monitor_state_to_dict :: "monitor_state \<Rightarrow> jobj" where
  "monitor_state_to_dict st =
     (case raw_payload st of
        Some d \<Rightarrow> d
      | None \<Rightarrow> fold (\<lambda>(k, v) p. if jhas p k then p else dict_set k v p) (extra_fields st) (known_fields st))"

definition MONITOR_PUBLIC_FIELDS :: "string list" where
  "MONITOR_PUBLIC_FIELDS = [''version'', ''config_generation'', ''kind'', ''target'', ''objective'',
     ''created_ts'', ''budgets'', ''cadence_secs'', ''wake_instructions'', ''last_observation'',
     ''last_fingerprint'', ''last_observed_at'', ''last_wake_fingerprint'', ''last_wake_reason_code'',
     ''wake_in_flight'', ''wake_delivery'', ''wake_count'', ''completion_evidence_deadline'',
     ''last_completion_fingerprint'', ''last_completion_disposition'', ''last_completed_at'',
     ''token_usage_known'', ''agent_turns'', ''input_tokens'', ''output_tokens'', ''probe_count'',
     ''provider_error_count'', ''consecutive_provider_errors'', ''last_probe_at'', ''last_decision'',
     ''last_provider_error'', ''next_probe_at'', ''outcome'', ''stopped_reason'', ''user_stop_reason'',
     ''stopped_at'']"

definition monitor_state_public_dict :: "monitor_state \<Rightarrow> jobj" where
  "monitor_state_public_dict st = map (\<lambda>k. (k, jget (known_fields st) k)) MONITOR_PUBLIC_FIELDS"

end
