(* ===== verification/Monitor_Decision.thy ===== *)
theory Monitor_Decision
  imports Monitor_Model
begin

text \<open>
  The decision policy of the monitors (\<open>monitoring/decision.py\<close>) and the mapping of a
  finished turn to accounting (\<open>monitoring/completion.py\<close>). A decision is a function of
  the state, one observation and the time; the lemmas characterise when it buys a turn.
\<close>

section \<open>The policy\<close>

definition RETRYABLE_PROVIDER_ERRORS :: "provider_error_kind list" where
  "RETRYABLE_PROVIDER_ERRORS = [TRANSIENT, RATE_LIMITED]"

fun terminal_decision_for_outcome :: "monitor_outcome option \<Rightarrow> monitor_decision option" where
  "terminal_decision_for_outcome None = None"
| "terminal_decision_for_outcome (Some OUT_SUCCESS) = Some STOP_SUCCESS"
| "terminal_decision_for_outcome (Some OUT_BUDGET) = Some STOP_BUDGET"
| "terminal_decision_for_outcome (Some _) = Some STOP_BLOCKED"

definition MONITOR_STOP_RUNTIME_BUDGET :: string where "MONITOR_STOP_RUNTIME_BUDGET = ''runtime_budget''"
definition MONITOR_STOP_AGENT_TURN_BUDGET :: string where "MONITOR_STOP_AGENT_TURN_BUDGET = ''agent_turn_budget''"
definition MONITOR_STOP_TOKEN_BUDGET :: string where "MONITOR_STOP_TOKEN_BUDGET = ''token_budget''"
definition MONITOR_STOP_PROVIDER_ERROR_BUDGET :: string where
  "MONITOR_STOP_PROVIDER_ERROR_BUDGET = ''provider_error_budget''"

definition monitor_budget_reason :: "monitor_state \<Rightarrow> rat \<Rightarrow> string" where
  "monitor_budget_reason st now =
     (let b = m_budgets st in
      if of_int (max_runtime_secs b) \<le> now - created_ts st then MONITOR_STOP_RUNTIME_BUDGET
      else if max_agent_turns b \<le> int (agent_turns st) then MONITOR_STOP_AGENT_TURN_BUDGET
      else if max_tokens b \<le> int (total_tokens st) then MONITOR_STOP_TOKEN_BUDGET
      else if max_provider_errors b \<le> int (provider_error_count st) then MONITOR_STOP_PROVIDER_ERROR_BUDGET
      else [])"

definition supplemental_provider_error_decision :: "monitor_state \<Rightarrow> monitor_decision" where
  "supplemental_provider_error_decision st =
     (if max_provider_errors (m_budgets st) \<le> int (consecutive_provider_errors st) + 1
      then STOP_BLOCKED else RETRY_PROVIDER)"

definition provider_error_decision :: "monitor_state \<Rightarrow> observation \<Rightarrow> monitor_decision" where
  "provider_error_decision st ob =
     (case o_provider_error ob of
        None \<Rightarrow> STOP_BLOCKED
      | Some e \<Rightarrow>
          if e \<notin> set RETRYABLE_PROVIDER_ERRORS then STOP_BLOCKED
          else if max_provider_errors (m_budgets st) \<le> int (consecutive_provider_errors st) + 1
          then STOP_BLOCKED else RETRY_PROVIDER)"

definition decide_monitor :: "monitor_state \<Rightarrow> observation \<Rightarrow> rat \<Rightarrow> monitor_decision" where
  "decide_monitor st ob now =
     (if version st \<noteq> MONITOR_STATE_VERSION then STOP_BLOCKED
      else case terminal_decision_for_outcome (outcome st) of
        Some d \<Rightarrow> d
      | None \<Rightarrow>
      if monitor_budget_reason st now \<noteq> [] then STOP_BUDGET
      else if o_status ob = OBS_PROVIDER_ERROR then provider_error_decision st ob
      else if o_status ob = OBS_ACTIONABLE then
        (if o_fingerprint ob = last_wake_fingerprint st then
           (if o_supplemental ob \<noteq> None then supplemental_provider_error_decision st else NO_CHANGE)
         else WAKE_ACTIONABLE)
      else if o_supplemental ob \<noteq> None then supplemental_provider_error_decision st
      else if o_status ob = OBS_SUCCESS then
        (if o_head_changed ob then WAKE_ACTIONABLE else STOP_SUCCESS)
      else if o_fingerprint ob = last_fingerprint st then NO_CHANGE
      else if o_status ob = OBS_PENDING then RECORD_ONLY
      else STOP_BLOCKED)"

section \<open>Completed turns\<close>

definition TURN_STOP_REASON_END_TURN :: string where "TURN_STOP_REASON_END_TURN = ''end_turn''"
definition TURN_STOP_REASON_CANCELLED :: string where "TURN_STOP_REASON_CANCELLED = ''cancelled''"

definition SYNTHETIC_STOP_REASONS :: "string list" where
  "SYNTHETIC_STOP_REASONS = [[], ''timeout'', ''stale_recover'', ''error: cancel unacked'',
     ''error: tool stall'', ''error: compaction failed'']"

definition is_monitor_completion_evidence :: "string \<Rightarrow> bool \<Rightarrow> bool" where
  "is_monitor_completion_evidence reason synthetic \<longleftrightarrow>
     \<not> synthetic \<and> reason \<notin> set SYNTHETIC_STOP_REASONS"

definition disposition_for_stop_reason :: "string \<Rightarrow> action_disposition" where
  "disposition_for_stop_reason reason =
     (if reason = TURN_STOP_REASON_END_TURN then ACT_SUCCESS
      else if reason = TURN_STOP_REASON_CANCELLED then ACT_CANCELLATION
      else ACT_FAILURE)"

text \<open>A usage report: none, or the two counters after \<open>int()\<close>, which may itself fail.\<close>

definition authoritative_token_counts :: "(int option \<times> int option) option \<Rightarrow> nat option \<times> nat option" where
  "authoritative_token_counts usage =
     (case usage of
        None \<Rightarrow> (None, None)
      | Some (Some i, Some n) \<Rightarrow>
          if i < 0 \<or> n < 0 \<or> (i = 0 \<and> n = 0) then (None, None) else (Some (nat i), Some (nat n))
      | Some _ \<Rightarrow> (None, None))"

section \<open>When a turn is bought\<close>

lemma budget_reason_empty:
  "monitor_budget_reason st now = [] \<longleftrightarrow>
     now - created_ts st < of_int (max_runtime_secs (m_budgets st)) \<and>
     int (agent_turns st) < max_agent_turns (m_budgets st) \<and>
     int (total_tokens st) < max_tokens (m_budgets st) \<and>
     int (provider_error_count st) < max_provider_errors (m_budgets st)"
  by (auto simp: monitor_budget_reason_def Let_def MONITOR_STOP_RUNTIME_BUDGET_def
      MONITOR_STOP_AGENT_TURN_BUDGET_def MONITOR_STOP_TOKEN_BUDGET_def MONITOR_STOP_PROVIDER_ERROR_BUDGET_def
      not_le)

lemma terminal_none: "terminal_decision_for_outcome x = None \<longleftrightarrow> x = None"
  by (cases x rule: terminal_decision_for_outcome.cases) auto

lemma terminal_never_wakes: "terminal_decision_for_outcome x = Some d \<Longrightarrow> d \<noteq> WAKE_ACTIONABLE"
  by (cases x rule: terminal_decision_for_outcome.cases) auto

lemma error_decisions:
  "supplemental_provider_error_decision st \<in> {STOP_BLOCKED, RETRY_PROVIDER}"
  "provider_error_decision st ob \<in> {STOP_BLOCKED, RETRY_PROVIDER}"
  by (simp_all add: supplemental_provider_error_decision_def provider_error_decision_def split: option.split)

text \<open>The live case: nothing but the observation and the fingerprints decides.\<close>

definition live_with_room :: "monitor_state \<Rightarrow> rat \<Rightarrow> bool" where
  "live_with_room st now \<longleftrightarrow>
     version st = MONITOR_STATE_VERSION \<and> outcome st = None \<and> monitor_budget_reason st now = []"

definition deserves_turn :: "monitor_state \<Rightarrow> observation \<Rightarrow> bool" where
  "deserves_turn st ob \<longleftrightarrow>
     o_status ob = OBS_ACTIONABLE \<and> o_fingerprint ob \<noteq> last_wake_fingerprint st \<or>
     o_status ob = OBS_SUCCESS \<and> o_head_changed ob \<and> o_supplemental ob = None"

lemma decide_wake_iff:
  "decide_monitor st ob now = WAKE_ACTIONABLE \<longleftrightarrow> live_with_room st now \<and> deserves_turn st ob"
proof (cases "live_with_room st now")
  case True
  have e: "provider_error_decision st ob \<noteq> WAKE_ACTIONABLE"
    "supplemental_provider_error_decision st \<noteq> WAKE_ACTIONABLE"
    using error_decisions(1) [of st] error_decisions(2) [of st ob] by auto
  from True have "decide_monitor st ob now =
      (if o_status ob = OBS_PROVIDER_ERROR then provider_error_decision st ob
      else if o_status ob = OBS_ACTIONABLE then
        (if o_fingerprint ob = last_wake_fingerprint st then
           (if o_supplemental ob \<noteq> None then supplemental_provider_error_decision st else NO_CHANGE)
         else WAKE_ACTIONABLE)
      else if o_supplemental ob \<noteq> None then supplemental_provider_error_decision st
      else if o_status ob = OBS_SUCCESS then
        (if o_head_changed ob then WAKE_ACTIONABLE else STOP_SUCCESS)
      else if o_fingerprint ob = last_fingerprint st then NO_CHANGE
      else if o_status ob = OBS_PENDING then RECORD_ONLY
      else STOP_BLOCKED)"
    by (simp add: decide_monitor_def live_with_room_def)
  with True e show ?thesis by (auto simp: deserves_turn_def split: if_splits)
next
  case False
  then have "decide_monitor st ob now \<noteq> WAKE_ACTIONABLE"
    by (auto simp: decide_monitor_def live_with_room_def terminal_none dest: terminal_never_wakes
        split: option.splits)
  with False show ?thesis by simp
qed

text \<open>A probe buys an agent turn exactly when the record is live and of this version, every
  budget has room, and the observation is a new actionable fingerprint or a success whose
  head revision changed.\<close>

theorem wake_exactly_when_deserved:
  "decide_monitor st ob now = WAKE_ACTIONABLE \<longleftrightarrow> live_with_room st now \<and> deserves_turn st ob"
  by (rule decide_wake_iff)

text \<open>A provider failure never ends a monitor early nor loops for ever: a retryable failure
  is retried exactly while fewer than the allowed consecutive failures have happened and the
  budgets have room, and any other failure stops the monitor.\<close>

theorem provider_failures_are_bounded:
  assumes "observation_ok ob" and "o_status ob = OBS_PROVIDER_ERROR" and "live_with_room st now"
  shows "decide_monitor st ob now =
    (if (\<exists>e \<in> set RETRYABLE_PROVIDER_ERRORS. o_provider_error ob = Some e) \<and>
        int (consecutive_provider_errors st) + 1 < max_provider_errors (m_budgets st)
     then RETRY_PROVIDER else STOP_BLOCKED)"
  using assms
  by (auto simp: decide_monitor_def live_with_room_def provider_error_decision_def not_le
      elim!: observation_ok_cases split: option.splits)

definition failed_probe :: observation where
  "failed_probe = \<lparr>o_fingerprint = [], o_status = OBS_PROVIDER_ERROR, o_provider_error = Some RATE_LIMITED,
     o_supplemental = None, o_reason_code = ''provider_rate_limited'', o_summary = [], o_head_changed = False\<rparr>"

definition young_monitor :: monitor_state where
  "young_monitor = fresh_monitor ''github_pull_request'' ''o/r#7'' ''merge it'' 100"

lemma provider_failures_are_bounded_witness:
  "decide_monitor young_monitor failed_probe 200 = RETRY_PROVIDER"
proof -
  have "observation_ok failed_probe" "o_status failed_probe = OBS_PROVIDER_ERROR"
    "live_with_room young_monitor 200" by code_simp+
  from provider_failures_are_bounded [OF this]
  show ?thesis
    by (simp add: failed_probe_def RETRYABLE_PROVIDER_ERRORS_def young_monitor_def fresh_monitor_def
        default_budgets_def DEFAULT_MONITOR_PROVIDER_ERRORS_def)
qed

end
