(* ===== verification/Monitor_Service.thy ===== *)
theory Monitor_Service
  imports Monitor_Decision
begin

text \<open>
  The monitor operations of the scheduler (\<open>autonudge.py\<close>): the loops it holds, the accepted
  turns, the firing window, the timers and the durable snapshot, with one definition per
  operation, whole: guards, staged copy, persist, timer bookkeeping.

  Every awaiting operation holds the service lock over its disk write, so it is one transition;
  what the outside decides enters as arguments: the clock readings and the outcome of the write
  (\<open>write_outcome\<close>). A cancelled write is published before the cancellation is raised, a
  failed one leaves memory as it was. \<open>mark_monitor_turn_accepted\<close> is synchronous and takes no
  lock: it runs between operations or during the write of one, and \<open>Monitor_Runs\<close> has both. The
  other synchronous hooks (a turn's end, user input, an approval stall, a timer's entry and exit)
  are transitions of their own between operations. Broadcasts to observers are not modelled.
\<close>

section \<open>State\<close>

definition MIN_IDLE_SECS :: int where "MIN_IDLE_SECS = 15"
definition MAX_IDLE_SECS :: int where "MAX_IDLE_SECS = 86400"
definition REARM_BACKOFF_MAX_SHIFT :: nat where "REARM_BACKOFF_MAX_SHIFT = 16"
definition MONITOR_RETRY_BACKOFF_SECS :: int where "MONITOR_RETRY_BACKOFF_SECS = 15"
definition MONITOR_RETRY_MAX_BACKOFF_SECS :: int where "MONITOR_RETRY_MAX_BACKOFF_SECS = 300"
definition OVERDUE_REARM_SECS :: rat where "OVERDUE_REARM_SECS = 10"

definition MONITOR_STOP_APPROVAL_STALL :: string where "MONITOR_STOP_APPROVAL_STALL = ''approval_stall''"
definition MONITOR_STOP_COMPLETION_UNAVAILABLE :: string where
  "MONITOR_STOP_COMPLETION_UNAVAILABLE = ''completion_evidence_unavailable''"
definition MONITOR_STOP_UNSUPPORTED_VERSION :: string where
  "MONITOR_STOP_UNSUPPORTED_VERSION = ''unsupported_monitor_version''"
definition MONITOR_STOP_USER :: string where "MONITOR_STOP_USER = ''user_stop''"
definition MONITOR_STOP_SESSION_UNAVAILABLE :: string where
  "MONITOR_STOP_SESSION_UNAVAILABLE = ''session_unavailable''"
definition MONITOR_STOP_SESSION_CLOSE :: string where "MONITOR_STOP_SESSION_CLOSE = ''session_close''"

record loop =
  l_id :: string
  l_slot_key :: string
  l_message :: string
  l_idle_secs :: int
  l_max_cycles :: int
  l_cycle_count :: int
  l_active :: bool
  l_last_fire_ts :: rat
  l_created_ts :: rat
  l_stop_sentinel_path :: string
  l_max_runtime_secs :: int
  l_gate :: bool
  l_stopped_reason :: string
  l_approval_stalled :: bool
  l_next_due_ts :: rat
  l_monitor :: "monitor_state option"
  l_banner :: string

text \<open>
  \<open>disk\<close> is the list of loops in the last durable snapshot; \<open>persist_pending\<close> records that a
  background write is scheduled; \<open>timers\<close> maps a loop to the delay its pending timer task was
  armed with (a finished task, which Python leaves in \<open>_timers\<close>, has no entry); \<open>candidates\<close> and
  \<open>quiescing\<close> are the reconciler's candidates and the loops an administrative cleanup owns.
\<close>

record service =
  loops :: "(string, loop) dict"
  accepted :: "(string, string) dict"
  firing :: "string list"
  rearm_pending :: "string list"
  timers :: "(string, rat) dict"
  disk :: "loop list"
  persist_pending :: bool
  tick_wired :: bool
  candidates :: "string list"
  quiescing :: "string list"

datatype write_outcome = WriteOk | WriteCancelled | WriteFailed

type_synonym 'a call = "service \<Rightarrow> service \<times> 'a res"

definition is_structured_monitor_loop :: "loop \<Rightarrow> bool" where
  "is_structured_monitor_loop l \<longleftrightarrow> l_monitor l \<noteq> None \<and> \<not> l_gate l"

text \<open>The loop and its monitor, when both exist.\<close>

definition find_monitor :: "service \<Rightarrow> string \<Rightarrow> (loop \<times> monitor_state) option" where
  "find_monitor s mid =
     (case dict_get (loops s) mid of
        None \<Rightarrow> None
      | Some l \<Rightarrow> (case l_monitor l of None \<Rightarrow> None | Some st \<Rightarrow> Some (l, st)))"

section \<open>Persisting a staged transition\<close>

definition monitor_snapshot_with_replacement :: "service \<Rightarrow> loop \<Rightarrow> loop \<Rightarrow> loop list" where
  "monitor_snapshot_with_replacement s l replacement =
     map (\<lambda>(k, c). if l_id c = l_id l then replacement else c) (loops s)"

definition apply_staged_monitor :: "loop \<Rightarrow> loop \<Rightarrow> service \<Rightarrow> service" where
  "apply_staged_monitor l staged s = s\<lparr>loops := dict_set (l_id l) staged (loops s)\<rparr>"

text \<open>
  The end of every staged operation: write, publish, then \<open>finish\<close> (the timer bookkeeping),
  which a failed or cancelled write skips.
\<close>

definition persist_staged_monitor :: "write_outcome \<Rightarrow> loop \<Rightarrow> loop \<Rightarrow> (service \<Rightarrow> service) \<Rightarrow> 'a \<Rightarrow> 'a call" where
  "persist_staged_monitor w l staged finish result s =
     (case w of
        WriteFailed \<Rightarrow> (s, Inl StoreWriteError)
      | WriteCancelled \<Rightarrow>
          (apply_staged_monitor l staged (s\<lparr>disk := monitor_snapshot_with_replacement s l staged\<rparr>),
           Inl CancelledError)
      | WriteOk \<Rightarrow>
          (finish (apply_staged_monitor l staged (s\<lparr>disk := monitor_snapshot_with_replacement s l staged\<rparr>)),
           Inr result))"

section \<open>Timers\<close>

definition cancel_timer :: "string \<Rightarrow> service \<Rightarrow> service" where
  "cancel_timer mid s = s\<lparr>timers := dict_del mid (timers s)\<rparr>"

definition arm_timer :: "string \<Rightarrow> rat \<Rightarrow> service \<Rightarrow> service" where
  "arm_timer mid delay s = s\<lparr>timers := dict_set mid delay (timers s)\<rparr>"

definition set_monitor_deadline :: "rat \<Rightarrow> loop \<Rightarrow> loop" where
  "set_monitor_deadline deadline l =
     l\<lparr>l_next_due_ts := deadline,
       l_monitor := map_option (\<lambda>st. st\<lparr>next_probe_at := deadline\<rparr>) (l_monitor l)\<rparr>"

text \<open>\<open>t\<close> is the reading of \<open>time.time()\<close>.\<close>

definition arm_from_deadline :: "rat \<Rightarrow> string \<Rightarrow> service \<Rightarrow> service" where
  "arm_from_deadline t mid s =
     (case dict_get (loops s) mid of
        None \<Rightarrow> s
      | Some l \<Rightarrow>
          if (case l_monitor l of None \<Rightarrow> False | Some st \<Rightarrow> version st \<noteq> MONITOR_STATE_VERSION) then s
          else
            let l' = (if l_next_due_ts l \<le> 0 then set_monitor_deadline (t + of_int (l_idle_secs l)) l else l);
                s = (if l_next_due_ts l \<le> 0
                     then s\<lparr>loops := dict_set mid l' (loops s), persist_pending := True\<rparr> else s);
                remaining = l_next_due_ts l' - t
            in arm_timer mid (if remaining \<le> 0 then OVERDUE_REARM_SECS
                              else min remaining (of_int (l_idle_secs l'))) s)"

text \<open>\<open>_persist_soon\<close>: the background write, when it runs.\<close>

definition flush_pending :: "service \<Rightarrow> service" where
  "flush_pending s = (if persist_pending s
     then s\<lparr>disk := map snd (loops s), persist_pending := False\<rparr> else s)"

definition defer_rearm :: "string \<Rightarrow> service \<Rightarrow> service" where
  "defer_rearm mid s = s\<lparr>rearm_pending := List.insert mid (rearm_pending s)\<rparr>"

definition arm_or_defer :: "rat \<Rightarrow> string \<Rightarrow> service \<Rightarrow> service" where
  "arm_or_defer t mid s = (if mid \<in> set (firing s) then defer_rearm mid s else arm_from_deadline t mid s)"

definition TERMINAL_WAITS :: "monitor_outcome list" where
  "TERMINAL_WAITS = [OUT_BUDGET, OUT_SESSION_CLOSE, OUT_USER_STOP]"

definition waits_for_terminal_completion :: "loop \<Rightarrow> bool" where
  "waits_for_terminal_completion l =
     (case l_monitor l of
        None \<Rightarrow> False
      | Some st \<Rightarrow> (case outcome st of None \<Rightarrow> False | Some x \<Rightarrow> x \<in> set TERMINAL_WAITS) \<and>
          wake_in_flight st \<and> 0 < completion_evidence_deadline st)"

definition sync_terminal_completion_timer :: "rat \<Rightarrow> string \<Rightarrow> service \<Rightarrow> service" where
  "sync_terminal_completion_timer t mid s =
     (case dict_get (loops s) mid of
        None \<Rightarrow> s
      | Some l \<Rightarrow> if waits_for_terminal_completion l then arm_or_defer t mid s else cancel_timer mid s)"

text \<open>\<open>if not loop.active: ...\<close> on the published loop.\<close>

definition active_in :: "service \<Rightarrow> string \<Rightarrow> bool" where
  "active_in s mid = (case dict_get (loops s) mid of None \<Rightarrow> False | Some l \<Rightarrow> l_active l)"

definition sync_if_stopped :: "rat \<Rightarrow> string \<Rightarrow> service \<Rightarrow> service" where
  "sync_if_stopped t mid s = (if active_in s mid then s else sync_terminal_completion_timer t mid s)"

section \<open>Terminal transitions of a staged copy\<close>

definition put_monitor :: "loop \<Rightarrow> monitor_state \<Rightarrow> loop" where
  "put_monitor l st = l\<lparr>l_monitor := Some st\<rparr>"

text \<open>\<open>_retain_accepted_terminal_completion\<close> on a copy with monitor \<open>st\<close>.\<close>

definition retain_accepted_terminal_completion ::
  "service \<Rightarrow> rat \<Rightarrow> loop \<Rightarrow> monitor_state \<Rightarrow> loop" where
  "retain_accepted_terminal_completion s stopped l st =
     (if dict_get (accepted s) (l_id l) \<noteq> Some (last_wake_fingerprint st)
      then set_monitor_deadline 0
             (put_monitor l (st\<lparr>wake_in_flight := False, wake_delivery := None,
                completion_evidence_deadline := 0\<rparr>))
      else let deadline = (if completion_evidence_deadline st \<le> stopped
                           then stopped + MONITOR_COMPLETION_EVIDENCE_TIMEOUT_SECS
                           else completion_evidence_deadline st)
           in set_monitor_deadline deadline
                (put_monitor l (st\<lparr>completion_evidence_deadline := deadline\<rparr>)))"

definition settle :: "monitor_outcome \<Rightarrow> string \<Rightarrow> rat \<Rightarrow> loop \<Rightarrow> loop" where
  "settle x reason stopped l =
     l\<lparr>l_active := False,
       l_monitor := map_option (\<lambda>st. st\<lparr>outcome := Some x, stopped_reason := reason, stopped_at := stopped\<rparr>)
         (l_monitor l)\<rparr>"

definition apply_monitor_budget_stop :: "service \<Rightarrow> string \<Rightarrow> rat \<Rightarrow> loop \<Rightarrow> monitor_state \<Rightarrow> loop" where
  "apply_monitor_budget_stop s reason stopped l st =
     settle OUT_BUDGET reason stopped (retain_accepted_terminal_completion s stopped l st)"

definition apply_monitor_user_stop :: "service \<Rightarrow> rat \<Rightarrow> loop \<Rightarrow> monitor_state \<Rightarrow> loop" where
  "apply_monitor_user_stop s stopped l st =
     settle OUT_USER_STOP MONITOR_STOP_USER stopped (retain_accepted_terminal_completion s stopped l st)"

definition drop_accepted :: "string \<Rightarrow> string \<Rightarrow> service \<Rightarrow> service" where
  "drop_accepted mid fp s =
     (if dict_get (accepted s) mid = Some fp then s\<lparr>accepted := dict_del mid (accepted s)\<rparr> else s)"

section \<open>Probes\<close>

text \<open>The accounting every probe does before its effect is applied.\<close>

definition record_probe ::
  "jobj \<Rightarrow> observation \<Rightarrow> rat \<Rightarrow> monitor_decision \<Rightarrow> monitor_state \<Rightarrow> monitor_state" where
  "record_probe canonical ob now d st =
     (let st = st\<lparr>probe_count := probe_count st + 1, last_probe_at := now, last_decision := Some d\<rparr>;
          err = (case o_provider_error ob of Some e \<Rightarrow> Some e | None \<Rightarrow> o_supplemental ob);
          st = (case err of
                  Some e \<Rightarrow> st\<lparr>provider_error_count := provider_error_count st + 1,
                     consecutive_provider_errors := consecutive_provider_errors st + 1,
                     last_provider_error := Some e\<rparr>
                | None \<Rightarrow> st\<lparr>consecutive_provider_errors := 0, last_provider_error := None\<rparr>)
      in if o_status ob \<noteq> OBS_PROVIDER_ERROR
         then st\<lparr>last_observation := canonical, last_fingerprint := o_fingerprint ob, last_observed_at := now\<rparr>
         else st)"

definition retry_delay :: "monitor_state \<Rightarrow> int" where
  "retry_delay st =
     min MONITOR_RETRY_MAX_BACKOFF_SECS
       (min (MONITOR_RETRY_BACKOFF_SECS *
               2 ^ min (consecutive_provider_errors st - 1) REARM_BACKOFF_MAX_SHIFT)
            (cadence_secs st))"

definition apply_decision ::
  "service \<Rightarrow> observation \<Rightarrow> rat \<Rightarrow> monitor_decision \<Rightarrow> loop \<Rightarrow> monitor_state \<Rightarrow> loop" where
  "apply_decision s ob now d l st =
     (case d of
        NO_CHANGE \<Rightarrow> set_monitor_deadline (now + of_int (cadence_secs st)) (put_monitor l st)
      | RECORD_ONLY \<Rightarrow> set_monitor_deadline (now + of_int (cadence_secs st)) (put_monitor l st)
      | RETRY_PROVIDER \<Rightarrow> set_monitor_deadline (now + of_int (retry_delay st)) (put_monitor l st)
      | WAKE_ACTIONABLE \<Rightarrow>
          set_monitor_deadline 0
            (put_monitor l (st\<lparr>last_wake_fingerprint := o_fingerprint ob,
               last_wake_reason_code := o_reason_code ob, wake_in_flight := True, wake_delivery := None\<rparr>))
      | STOP_BUDGET \<Rightarrow> apply_monitor_budget_stop s (monitor_budget_reason st now) now l st
      | STOP_SUCCESS \<Rightarrow>
          settle OUT_SUCCESS (if o_reason_code ob \<noteq> [] then o_reason_code ob else ''monitor_blocked'') now
            (set_monitor_deadline 0 (put_monitor l st))
      | STOP_BLOCKED \<Rightarrow>
          settle OUT_BLOCKED (if o_reason_code ob \<noteq> [] then o_reason_code ob else ''monitor_blocked'') now
            (set_monitor_deadline 0 (put_monitor l st)))"

definition apply_monitor_probe ::
  "string \<Rightarrow> jobj \<Rightarrow> observation \<Rightarrow> rat \<Rightarrow> int \<Rightarrow> rat \<Rightarrow> write_outcome \<Rightarrow> monitor_decision call" where
  "apply_monitor_probe mid canonical ob now generation t w s =
     (case find_monitor s mid of
        None \<Rightarrow> (s, Inr STOP_BLOCKED)
      | Some (l, st) \<Rightarrow>
          if \<not> l_active l \<or> outcome st \<noteq> None then (s, Inr STOP_BLOCKED)
          else if config_generation st \<noteq> generation then
            persist_staged_monitor w l (set_monitor_deadline (now + of_int (cadence_secs st)) l)
              (sync_if_stopped t mid) NO_CHANGE s
          else if wake_in_flight st then (s, Inr NO_CHANGE)
          else
            let d = decide_monitor st ob now;
                staged = apply_decision s ob now d l (record_probe canonical ob now d st)
            in persist_staged_monitor w l staged (sync_if_stopped t mid) d s)"

section \<open>Stopping, closing and restoring\<close>

definition stop_monitor :: "string \<Rightarrow> rat \<Rightarrow> string \<Rightarrow> rat \<Rightarrow> write_outcome \<Rightarrow> loop option call" where
  "stop_monitor mid now user_reason t w s =
     (case find_monitor s mid of
        None \<Rightarrow> (s, Inr None)
      | Some (l, st) \<Rightarrow>
          if outcome st \<noteq> None then (s, Inr (Some l))
          else
            let stopped = apply_monitor_user_stop s now l st;
                stopped = stopped\<lparr>l_monitor := map_option (\<lambda>st. st\<lparr>user_stop_reason := user_reason\<rparr>)
                                                  (l_monitor stopped)\<rparr>
            in persist_staged_monitor w l stopped (sync_terminal_completion_timer t mid) (Some stopped) s)"

definition retire_monitor_for_session_close ::
  "string \<Rightarrow> rat \<Rightarrow> rat \<Rightarrow> write_outcome \<Rightarrow> loop option call" where
  "retire_monitor_for_session_close mid now t w s =
     (case find_monitor s mid of
        None \<Rightarrow> (s, Inr None)
      | Some (l, st) \<Rightarrow>
          if outcome st \<noteq> None then (s, Inr (Some l))
          else
            let staged = settle OUT_SESSION_CLOSE MONITOR_STOP_SESSION_CLOSE now
                  (retain_accepted_terminal_completion s now l st)
            in persist_staged_monitor w l staged (sync_terminal_completion_timer t mid) (Some staged) s)"

text \<open>The copy a failed close is rolled back to.\<close>

definition restored_loop :: "rat \<Rightarrow> loop \<Rightarrow> monitor_state \<Rightarrow> loop" where
  "restored_loop now l st =
     (let st1 = st\<lparr>outcome := None, stopped_reason := [], stopped_at := 0\<rparr>
      in (if wake_in_flight st \<and> wake_delivery st = Some DISPATCHED \<and> 0 < completion_evidence_deadline st
          then set_monitor_deadline (completion_evidence_deadline st) (put_monitor l st1)
          else if wake_in_flight st
          then set_monitor_deadline (now + of_int (min MONITOR_BUSY_RETRY_SECS (cadence_secs st)))
            (put_monitor l (st1\<lparr>wake_delivery := Some BUSY, completion_evidence_deadline := 0\<rparr>))
          else set_monitor_deadline (now + of_int (cadence_secs st)) (put_monitor l st1))\<lparr>l_active := True\<rparr>)"

text \<open>\<open>admitted\<close> is the answer of \<open>admission_check\<close>.\<close>

definition restore_monitor_after_failed_session_close ::
  "string \<Rightarrow> rat \<Rightarrow> bool \<Rightarrow> rat \<Rightarrow> write_outcome \<Rightarrow> loop option call" where
  "restore_monitor_after_failed_session_close mid now admitted t w s =
     (case find_monitor s mid of
        None \<Rightarrow> (s, Inr None)
      | Some (l, st) \<Rightarrow>
          if outcome st \<noteq> Some OUT_SESSION_CLOSE \<or> \<not> admitted then (s, Inr None)
          else
            persist_staged_monitor w l (restored_loop now l st)
              (\<lambda>s. if tick_wired s then arm_from_deadline t mid s else s) (Some (restored_loop now l st)) s)"

definition deactivate_unwired_monitor :: "string \<Rightarrow> rat \<Rightarrow> write_outcome \<Rightarrow> unit call" where
  "deactivate_unwired_monitor mid now w s =
     (case find_monitor s mid of
        None \<Rightarrow> (s, Inr ())
      | Some (l, st) \<Rightarrow>
          let staged = set_monitor_deadline 0
                (settle OUT_BLOCKED MONITOR_STOP_SESSION_UNAVAILABLE now
                  (put_monitor l (st\<lparr>wake_in_flight := False, wake_delivery := None,
                     completion_evidence_deadline := 0\<rparr>)))
          in persist_staged_monitor w l staged (cancel_timer mid) () s)"

section \<open>Configuration\<close>

record monitor_patch =
  p_target :: "string option"
  p_objective :: "string option"
  p_cadence :: "int option"
  p_budgets :: "budgets option"
  p_budget_patch :: "(string, int) dict option"
  p_wake_instructions :: "string option"

definition clamp_cadence :: "int \<Rightarrow> int" where
  "clamp_cadence n = max MIN_IDLE_SECS (min MAX_IDLE_SECS n)"

definition patched_budgets :: "budgets \<Rightarrow> (string, int) dict \<Rightarrow> budgets res" where
  "patched_budgets b patch =
     rbind (ensure (list_all (\<lambda>(k, v). k \<in> set BUDGET_FIELDS) patch) ValueError) (\<lambda>_.
       MonitorBudgets
         \<lparr>max_runtime_secs = dict_get_default patch ''max_runtime_secs'' (max_runtime_secs b),
          max_agent_turns = dict_get_default patch ''max_agent_turns'' (max_agent_turns b),
          max_tokens = dict_get_default patch ''max_tokens'' (max_tokens b),
          max_provider_errors = dict_get_default patch ''max_provider_errors'' (max_provider_errors b)\<rparr>)"

definition resets_baseline :: "monitor_patch \<Rightarrow> monitor_state \<Rightarrow> bool" where
  "resets_baseline p st \<longleftrightarrow>
     (p_target p \<noteq> None \<and> p_target p \<noteq> Some (target st)) \<or>
     (p_objective p \<noteq> None \<and> p_objective p \<noteq> Some (objective st))"

definition set_or_keep :: "'a option \<Rightarrow> 'a \<Rightarrow> 'a" where
  "set_or_keep v x = (case v of None \<Rightarrow> x | Some y \<Rightarrow> y)"

definition clear_baseline :: "monitor_state \<Rightarrow> monitor_state" where
  "clear_baseline st = st\<lparr>config_generation := config_generation st + 1, last_observation := [],
     last_fingerprint := [], last_observed_at := 0, last_decision := None, last_wake_fingerprint := [],
     last_wake_reason_code := [], wake_in_flight := False, wake_delivery := None,
     completion_evidence_deadline := 0, last_completion_fingerprint := [],
     consecutive_provider_errors := 0, last_provider_error := None\<rparr>"

text \<open>The cadence part of the patch: \<open>t\<close> is the clock reading.\<close>

definition patch_cadence :: "int option \<Rightarrow> rat \<Rightarrow> loop \<Rightarrow> monitor_state \<Rightarrow> loop" where
  "patch_cadence c t l st =
     (case c of
        None \<Rightarrow> put_monitor l st
      | Some n \<Rightarrow>
          let l' = put_monitor (l\<lparr>l_idle_secs := clamp_cadence n\<rparr>) (st\<lparr>cadence_secs := clamp_cadence n\<rparr>)
          in if l_active l \<and> \<not> wake_in_flight st \<and> 0 < l_next_due_ts l
             then set_monitor_deadline (t + of_int (clamp_cadence n)) l' else l')"

definition update_monitor :: "string \<Rightarrow> monitor_patch \<Rightarrow> rat \<Rightarrow> rat \<Rightarrow> write_outcome \<Rightarrow> loop option call" where
  "update_monitor mid p t t' w s =
     (if p_budgets p \<noteq> None \<and> p_budget_patch p \<noteq> None then (s, Inl ValueError)
      else case find_monitor s mid of
        None \<Rightarrow> (s, Inr None)
      | Some (l, st) \<Rightarrow>
          if outcome st \<noteq> None then (s, Inr None)
          else if resets_baseline p st \<and> wake_in_flight st then (s, Inl MonitorUpdateConflict)
          else
            let st1 = st\<lparr>target := set_or_keep (p_target p) (target st),
                         objective := set_or_keep (p_objective p) (objective st)\<rparr>;
                l1 = patch_cadence (p_cadence p) t l st1;
                new_budgets = (case p_budget_patch p of
                    Some patch \<Rightarrow> patched_budgets (m_budgets st) patch
                  | None \<Rightarrow> Inr (set_or_keep (p_budgets p) (m_budgets st)))
            in case new_budgets of
                 Inl e \<Rightarrow> (s, Inl e)
               | Inr b \<Rightarrow>
                   let staged = l1\<lparr>l_monitor := map_option (\<lambda>st1.
                         let st2 = st1\<lparr>m_budgets := b,
                               wake_instructions := set_or_keep (p_wake_instructions p) (wake_instructions st1)\<rparr>
                         in if resets_baseline p st then clear_baseline st2 else st2) (l_monitor l1)\<rparr>
                   in persist_staged_monitor w l staged
                        (\<lambda>s. if l_active l \<and> \<not> wake_in_flight st \<and> mid \<notin> set (firing s)
                             then arm_from_deadline t' mid s else s) (Some staged) s)"

section \<open>Claims, dispatch and completion\<close>

text \<open>The claim an operation refers to: a wake in flight for exactly this fingerprint.\<close>

definition claims :: "monitor_state \<Rightarrow> string \<Rightarrow> bool" where
  "claims st fp \<longleftrightarrow> wake_in_flight st \<and> last_wake_fingerprint st = fp"

definition mark_monitor_action_in_flight ::
  "string \<Rightarrow> string \<Rightarrow> rat \<Rightarrow> rat \<Rightarrow> write_outcome \<Rightarrow> bool call" where
  "mark_monitor_action_in_flight mid fp now t w s =
     (if fp = [] then (s, Inl ValueError)
      else if now < 0 then (s, Inl ValueError)
      else case find_monitor s mid of
        None \<Rightarrow> (s, Inr False)
      | Some (l, st) \<Rightarrow>
          if \<not> l_active l \<or> outcome st \<noteq> None \<or> wake_in_flight st \<or> last_wake_fingerprint st = fp
          then (s, Inr False)
          else if monitor_budget_reason st now \<noteq> [] then
            persist_staged_monitor w l (apply_monitor_budget_stop s (monitor_budget_reason st now) now l st)
              (sync_if_stopped t mid) False s
          else
            persist_staged_monitor w l
              (put_monitor l (st\<lparr>last_wake_fingerprint := fp, wake_in_flight := True, wake_delivery := None\<rparr>))
              (sync_if_stopped t mid) True s)"

text \<open>Charging a completed turn: the counters of \<open>record_monitor_turn_completion\<close>.\<close>

definition charge :: "completion \<Rightarrow> action_disposition \<Rightarrow> monitor_state \<Rightarrow> monitor_state" where
  "charge c disp st = st\<lparr>
     wake_count := wake_count st + (if wake_delivery st \<noteq> Some DISPATCHED then 1 else 0),
     wake_in_flight := False, wake_delivery := None, completion_evidence_deadline := 0,
     last_completion_fingerprint := c_fingerprint c, last_completion_disposition := Some disp,
     last_completed_at := c_completed_ts c, agent_turns := agent_turns st + 1,
     token_usage_known := (token_usage_known st \<and> c_input_tokens c \<noteq> None \<and> c_output_tokens c \<noteq> None),
     input_tokens := input_tokens st + (case c_input_tokens c of None \<Rightarrow> 0 | Some n \<Rightarrow> n),
     output_tokens := output_tokens st + (case c_output_tokens c of None \<Rightarrow> 0 | Some n \<Rightarrow> n)\<rparr>"

definition stage_completion :: "service \<Rightarrow> completion \<Rightarrow> loop \<Rightarrow> monitor_state \<Rightarrow> loop" where
  "stage_completion s c l st =
     (let disp = (if l_approval_stalled l then ACT_APPROVAL_STALL else c_disposition c);
          now = c_completed_ts c;
          st = charge c disp st;
          reason = monitor_budget_reason st now
      in if outcome st \<noteq> None then set_monitor_deadline 0 (put_monitor l st)
         else if reason \<noteq> [] then apply_monitor_budget_stop s reason now l st
         else if disp = ACT_APPROVAL_STALL then
           settle OUT_BLOCKED MONITOR_STOP_APPROVAL_STALL now (set_monitor_deadline 0 (put_monitor l st))
         else if l_active l then set_monitor_deadline (now + of_int (cadence_secs st)) (put_monitor l st)
         else put_monitor l st)"

definition live_in :: "service \<Rightarrow> string \<Rightarrow> bool" where
  "live_in s mid = (case find_monitor s mid of None \<Rightarrow> False | Some (l, st) \<Rightarrow> l_active l \<and> outcome st = None)"

definition record_monitor_turn_completion :: "completion \<Rightarrow> rat \<Rightarrow> write_outcome \<Rightarrow> unit call" where
  "record_monitor_turn_completion c t w s =
     (let s = drop_accepted (c_monitor_id c) (c_fingerprint c) s
      in case find_monitor s (c_monitor_id c) of
        None \<Rightarrow> (s, Inr ())
      | Some (l, st) \<Rightarrow>
          if \<not> claims st (c_fingerprint c) then (s, Inr ())
          else persist_staged_monitor w l (stage_completion s c l st)
            (\<lambda>s. let s = sync_if_stopped t (c_monitor_id c) s
                 in if live_in s (c_monitor_id c) then arm_or_defer t (c_monitor_id c) s else s) () s)"

definition record_monitor_dispatch_failure ::
  "string \<Rightarrow> string \<Rightarrow> rat \<Rightarrow> write_outcome \<Rightarrow> unit call" where
  "record_monitor_dispatch_failure mid fp now w s =
     (let s = drop_accepted mid fp s
      in case find_monitor s mid of
        None \<Rightarrow> (s, Inr ())
      | Some (l, st) \<Rightarrow>
          if outcome st \<noteq> None \<or> \<not> claims st fp then (s, Inr ())
          else persist_staged_monitor w l
            (set_monitor_deadline 0
              (settle OUT_TARGET_UNAVAILABLE MONITOR_STOP_SESSION_UNAVAILABLE now
                (put_monitor l (st\<lparr>wake_in_flight := False, wake_delivery := Some UNAVAILABLE,
                   completion_evidence_deadline := 0\<rparr>))))
            (cancel_timer mid) () s)"

definition monitor_dispatch_is_authorized :: "service \<Rightarrow> string \<Rightarrow> string \<Rightarrow> bool" where
  "monitor_dispatch_is_authorized s mid fp =
     (case find_monitor s mid of
        None \<Rightarrow> False
      | Some (l, st) \<Rightarrow> l_active l \<and> outcome st = None \<and> claims st fp \<and> wake_delivery st \<noteq> Some DISPATCHED)"

definition mark_monitor_turn_accepted :: "string \<Rightarrow> string \<Rightarrow> service \<Rightarrow> service" where
  "mark_monitor_turn_accepted mid fp s =
     (case find_monitor s mid of
        None \<Rightarrow> s
      | Some (l, st) \<Rightarrow>
          if l_active l \<and> outcome st = None \<and> claims st fp
          then s\<lparr>accepted := dict_set mid fp (accepted s)\<rparr> else s)"

definition record_monitor_dispatch_busy ::
  "string \<Rightarrow> string \<Rightarrow> rat \<Rightarrow> rat \<Rightarrow> write_outcome \<Rightarrow> unit call" where
  "record_monitor_dispatch_busy mid fp now t w s =
     (let s = drop_accepted mid fp s
      in case find_monitor s mid of
        None \<Rightarrow> (s, Inr ())
      | Some (l, st) \<Rightarrow>
          if \<not> l_active l \<or> \<not> claims st fp then (s, Inr ())
          else
            let reason = monitor_budget_reason st now;
                staged = (if reason \<noteq> [] then apply_monitor_budget_stop s reason now l st
                  else set_monitor_deadline (now + of_int (min MONITOR_BUSY_RETRY_SECS (cadence_secs st)))
                    (put_monitor l (st\<lparr>wake_delivery := Some BUSY, completion_evidence_deadline := 0\<rparr>)))
            in persist_staged_monitor w l staged
                 (\<lambda>s. let s = sync_if_stopped t mid s
                      in if active_in s mid then arm_or_defer t mid s else s) () s)"

definition record_monitor_dispatched ::
  "string \<Rightarrow> string \<Rightarrow> rat \<Rightarrow> rat \<Rightarrow> write_outcome \<Rightarrow> unit call" where
  "record_monitor_dispatched mid fp now t w s =
     (case find_monitor s mid of
        None \<Rightarrow> (s, Inr ())
      | Some (l, st) \<Rightarrow>
          if \<not> l_active l \<or> \<not> claims st fp then (s, Inr ())
          else
            let deadline = now + MONITOR_COMPLETION_EVIDENCE_TIMEOUT_SECS
            in persist_staged_monitor w l
                 (set_monitor_deadline deadline
                   (put_monitor l (st\<lparr>
                      wake_count := wake_count st + (if wake_delivery st \<noteq> Some DISPATCHED then 1 else 0),
                      wake_delivery := Some DISPATCHED, completion_evidence_deadline := deadline\<rparr>)))
                 (arm_or_defer t mid) () s)"

definition record_monitor_completion_evidence_unavailable ::
  "string \<Rightarrow> string \<Rightarrow> rat \<Rightarrow> write_outcome \<Rightarrow> unit call" where
  "record_monitor_completion_evidence_unavailable mid fp now w s =
     (case find_monitor s mid of
        None \<Rightarrow> (s, Inr ())
      | Some (l, st) \<Rightarrow>
          if \<not> claims st fp \<or> completion_evidence_deadline st \<le> 0 \<or> now < completion_evidence_deadline st
          then (s, Inr ())
          else if (case outcome st of None \<Rightarrow> False | Some x \<Rightarrow> x \<notin> set TERMINAL_WAITS)
          then (s, Inr ())
          else
            let s = drop_accepted mid fp s;
                st1 = st\<lparr>wake_in_flight := False, wake_delivery := None, completion_evidence_deadline := 0\<rparr>;
                staged = set_monitor_deadline 0
                  (if outcome st = None
                   then settle OUT_BLOCKED MONITOR_STOP_COMPLETION_UNAVAILABLE now (put_monitor l st1)
                   else put_monitor l st1)
            in persist_staged_monitor w l staged (cancel_timer mid) () s)"

section \<open>Arming a monitor\<close>

text \<open>
  \<open>find_by_slot\<close> takes the fallback that matches a tab name by the dashboard's normaliser as an
  argument.
\<close>

definition find_by_slot :: "(service \<Rightarrow> string \<Rightarrow> loop option) \<Rightarrow> service \<Rightarrow> string \<Rightarrow> loop option" where
  "find_by_slot by_tab s slot =
     (case find (\<lambda>(k, l). l_slot_key l = slot) (loops s) of Some (k, l) \<Rightarrow> Some l | None \<Rightarrow> by_tab s slot)"

definition REPLACEABLE_LOOP_STOP_REASONS :: "string list" where
  "REPLACEABLE_LOOP_STOP_REASONS = [''cycle_cap'', ''runtime_budget'', ''approval_stalled'', ''monitor_terminal'']"

definition stopped_row_is_replaceable :: "loop \<Rightarrow> bool" where
  "stopped_row_is_replaceable l =
     (case l_monitor l of
        Some st \<Rightarrow> (case outcome st of
            Some x \<Rightarrow> stopped_reason st \<noteq> MONITOR_STOP_INVALID_RECORD \<and>
              x \<in> {OUT_BUDGET, OUT_SUCCESS, OUT_BLOCKED, OUT_TARGET_UNAVAILABLE}
          | None \<Rightarrow> l_stopped_reason l \<in> set REPLACEABLE_LOOP_STOP_REASONS)
      | None \<Rightarrow> l_stopped_reason l \<in> set REPLACEABLE_LOOP_STOP_REASONS)"

record arm_request =
  a_slot_key :: string
  a_kind :: string
  a_target :: string
  a_objective :: string
  a_cadence :: int
  a_budgets :: budgets
  a_wake_instructions :: string
  a_replace_existing :: bool
  a_replace_stopped :: bool
  a_expected :: "(string \<times> int option) option"
  a_admitted :: bool

definition expected_matches :: "(string \<times> int option) option \<Rightarrow> loop option \<Rightarrow> bool" where
  "expected_matches expected existing =
     (case expected of
        None \<Rightarrow> True
      | Some (eid, egen) \<Rightarrow> (case existing of
            None \<Rightarrow> False
          | Some l \<Rightarrow> l_id l = eid \<and> (case l_monitor l of
                None \<Rightarrow> False
              | Some st \<Rightarrow> Some (config_generation st) = egen)))"

definition existing_conflicts :: "arm_request \<Rightarrow> loop \<Rightarrow> bool" where
  "existing_conflicts r l \<longleftrightarrow>
     \<not> a_replace_existing r \<and> (l_active l \<or> \<not> a_replace_stopped r) \<or>
     \<not> a_replace_existing r \<and> (case l_monitor l of None \<Rightarrow> False | Some st \<Rightarrow> version st \<noteq> MONITOR_STATE_VERSION) \<or>
     \<not> a_replace_existing r \<and> a_replace_stopped r \<and> \<not> stopped_row_is_replaceable l \<or>
     (case l_monitor l of None \<Rightarrow> False | Some st \<Rightarrow> wake_in_flight st)"

text \<open>\<open>remove_sync(id, persist=False)\<close>.\<close>

definition forget_loop :: "string \<Rightarrow> service \<Rightarrow> service" where
  "forget_loop mid s = (if dict_get (loops s) mid = None then s else
     cancel_timer mid s\<lparr>loops := dict_del mid (loops s),
       rearm_pending := removeAll mid (rearm_pending s), accepted := dict_del mid (accepted s)\<rparr>)"

text \<open>
  \<open>_remove_unserialized\<close>: the row leaves memory, then the disk; a failed write puts it back.
  \<open>_pending_removals\<close> is empty between operations, so an unknown id is a no-op.
\<close>

definition remove_loop :: "string \<Rightarrow> rat \<Rightarrow> write_outcome \<Rightarrow> unit call" where
  "remove_loop mid t w s =
     (case dict_get (loops s) mid of
        None \<Rightarrow> (s, Inr ())
      | Some l \<Rightarrow>
          let s' = forget_loop mid s
          in case w of
               WriteFailed \<Rightarrow>
                 let s'' = s'\<lparr>loops := dict_set mid l (loops s')\<rparr>
                 in (if l_active l then arm_from_deadline t mid s'' else s'', Inl StoreWriteError)
             | WriteCancelled \<Rightarrow> (s'\<lparr>disk := map snd (loops s')\<rparr>, Inl CancelledError)
             | WriteOk \<Rightarrow> (s'\<lparr>disk := map snd (loops s')\<rparr>, Inr ()))"

definition armed_loop :: "arm_request \<Rightarrow> string \<Rightarrow> rat \<Rightarrow> loop" where
  "armed_loop r new_id created =
     (let cadence = clamp_cadence (a_cadence r); due = created + of_int cadence
      in \<lparr>l_id = new_id, l_slot_key = a_slot_key r, l_message = [], l_idle_secs = cadence,
          l_max_cycles = 0, l_cycle_count = 0, l_active = True, l_last_fire_ts = 0, l_created_ts = created,
          l_stop_sentinel_path = [], l_max_runtime_secs = 0, l_gate = False, l_stopped_reason = [],
          l_approval_stalled = False, l_next_due_ts = due,
          l_monitor = Some ((fresh_monitor (a_kind r) (a_target r) (a_objective r) created)
             \<lparr>m_budgets := a_budgets r, cadence_secs := cadence,
              wake_instructions := a_wake_instructions r, next_probe_at := due\<rparr>),
          l_banner = []\<rparr>)"

definition add_monitor ::
  "(service \<Rightarrow> string \<Rightarrow> loop option) \<Rightarrow> arm_request \<Rightarrow> string \<Rightarrow> rat \<Rightarrow> rat \<Rightarrow> write_outcome \<Rightarrow> loop call" where
  "add_monitor by_tab r new_id created t w s =
     (let existing = find_by_slot by_tab s (a_slot_key r)
      in if \<not> a_admitted r then (s, Inl NudgeAdmissionRefused)
         else if \<not> expected_matches (a_expected r) existing then (s, Inl MonitorUpdateConflict)
         else if (case existing of None \<Rightarrow> False | Some l \<Rightarrow> existing_conflicts r l)
         then (s, Inl MonitorUpdateConflict)
         else if a_kind r = [] \<or> a_target r = [] \<or> a_objective r = [] \<or> created < 0
         then (s, Inl ValueError)
         else
           let l = armed_loop r new_id created;
               kept = filter (\<lambda>c. case existing of None \<Rightarrow> True | Some e \<Rightarrow> l_id c \<noteq> l_id e) (map snd (loops s))
           in case w of
                WriteFailed \<Rightarrow> (s, Inl StoreWriteError)
              | WriteCancelled \<Rightarrow> (s\<lparr>disk := kept @ [l]\<rparr>, Inl CancelledError)
              | WriteOk \<Rightarrow>
                  let s = s\<lparr>disk := kept @ [l]\<rparr>;
                      s = (case existing of None \<Rightarrow> s | Some e \<Rightarrow> forget_loop (l_id e) s);
                      s = s\<lparr>loops := dict_set new_id l (loops s)\<rparr>
                  in ((if tick_wired s then arm_from_deadline t new_id s else s), Inr l))"

end
