(* ===== verification/Monitor_Codec.thy ===== *)
theory Monitor_Codec
  imports Monitor_Model
begin

text \<open>
  The persistence contract of the monitor state: whatever decodes is valid, encoding and
  decoding are inverse on valid states, and records and fields of newer versions survive.
\<close>

section \<open>Decoding yields valid states\<close>

lemma state_ok_fresh:
  "state_ok (fresh_monitor k t o1 c) \<longleftrightarrow> k \<noteq> [] \<and> t \<noteq> [] \<and> o1 \<noteq> [] \<and> 0 \<le> c"
  by (simp add: state_ok_def fresh_monitor_def MONITOR_STATE_VERSION_def default_budgets_def budgets_ok_def
      DEFAULT_MONITOR_RUNTIME_SECS_def DEFAULT_MONITOR_AGENT_TURNS_def DEFAULT_MONITOR_TOKENS_def
      DEFAULT_MONITOR_PROVIDER_ERRORS_def DEFAULT_MONITOR_CADENCE_SECS_def)

text \<open>What a successful reader guarantees of its value.\<close>

lemma reader_facts:
  "read_name v = Inr s \<Longrightarrow> s \<noteq> []"
  "read_reason v = Inr s \<Longrightarrow> length s \<le> MAX_MONITOR_STOP_REASON_CHARS"
  "read_ts v = Inr t \<Longrightarrow> 0 \<le> t"
  "read_pos v = Inr n \<Longrightarrow> 0 < n"
  "read_obj v = Inr d \<Longrightarrow> strict_json (JObj d)"
  subgoal by (auto simp: read_name_def res_simps)
  subgoal by (auto simp: read_reason_def res_simps)
  subgoal by (auto simp: read_ts_def res_simps number_value_nonneg)
  subgoal by (cases v rule: read_pos.cases) (auto split: if_splits)
  subgoal by (cases v rule: read_obj.cases) (auto split: if_splits)
  done

definition ok_but_identity :: "monitor_state \<Rightarrow> bool" where
  "ok_but_identity st \<longleftrightarrow>
     state_ok (st\<lparr>kind := ''k'', target := ''t'', objective := ''o''\<rparr>) \<and> raw_payload st = None"

lemma field_keeps:
  "field name reader put d st = Inr st' \<Longrightarrow> P st \<Longrightarrow> (\<And>v x. reader v = Inr x \<Longrightarrow> P (put x st)) \<Longrightarrow> P st'"
  by (auto simp: field_def res_simps split: option.splits)

lemma convert_budgets_keeps:
  "convert_budgets d st = Inr st' \<Longrightarrow> P st \<Longrightarrow> (\<And>b. budgets_ok b \<Longrightarrow> P (st\<lparr>m_budgets := b\<rparr>)) \<Longrightarrow> P st'"
  by (auto simp: convert_budgets_def res_simps dest: budgets_from_dict_ok split: option.splits json.splits)

lemma check_budgets_id: "check_budgets d st = Inr st' \<Longrightarrow> st' = st"
  by (simp add: check_budgets_def split: if_splits)

lemma conversions_keep:
  assumes "f \<in> set CONVERSIONS" and "ok_but_identity st" and "f d st = Inr st'"
  shows "ok_but_identity st'"
  using assms unfolding CONVERSIONS_def
  by (auto elim!: field_keeps convert_budgets_keeps dest!: reader_facts check_budgets_id simp: ok_but_identity_def state_ok_def)

lemma checks_keep:
  assumes "f \<in> set CHECKS" and "ok_but_identity st" and "f d st = Inr st'"
  shows "ok_but_identity st'"
  using assms unfolding CHECKS_def NAME_CHECKS_def FIELD_CHECKS_def
  by (auto elim!: field_keeps convert_budgets_keeps dest!: reader_facts check_budgets_id simp: ok_but_identity_def state_ok_def)

definition named :: "monitor_state \<Rightarrow> bool \<times> bool \<times> bool" where
  "named st = (kind st \<noteq> [], target st \<noteq> [], objective st \<noteq> [])"

definition names_kept :: "monitor_state \<Rightarrow> monitor_state \<Rightarrow> bool" where
  "names_kept st st' \<longleftrightarrow> (kind st \<noteq> [] \<longrightarrow> kind st' \<noteq> []) \<and> (target st \<noteq> [] \<longrightarrow> target st' \<noteq> []) \<and>
     (objective st \<noteq> [] \<longrightarrow> objective st' \<noteq> [])"

lemma names_kept_refl: "names_kept st st"
  by (simp add: names_kept_def)

lemma checks_keep_names:
  assumes "f \<in> set CHECKS" and "f d st = Inr st'"
  shows "names_kept st st'"
  using assms unfolding CHECKS_def NAME_CHECKS_def FIELD_CHECKS_def
  by (auto elim!: field_keeps intro: names_kept_refl dest!: reader_facts check_budgets_id) (auto simp: names_kept_def)

lemma field_present:
  assumes "field name reader put d st = Inr st'" and "jhas d name"
  obtains v x where "reader v = Inr x" "st' = put x st"
proof -
  from assms(2) obtain v where "dict_get d name = Some v"
    by (auto simp: jhas_def) (metis map_of_eq_None_iff image_eqI not_None_eq fst_conv)
  with assms(1) show ?thesis by (auto simp: field_def res_simps intro: that)
qed

lemma checks_set_names:
  assumes "fold_res (\<lambda>f. f d) CHECKS st = Inr st'" and "list_all (jhas d) REQUIRED_FIELDS"
  shows "kind st' \<noteq> []" "target st' \<noteq> []" "objective st' \<noteq> []"
proof -
  obtain s1 s2 s3 where
    s1: "field ''kind'' read_name (\<lambda>v s. s\<lparr>kind := v\<rparr>) d st = Inr s1" and
    s2: "field ''target'' read_name (\<lambda>v s. s\<lparr>target := v\<rparr>) d s1 = Inr s2" and
    s3: "field ''objective'' read_name (\<lambda>v s. s\<lparr>objective := v\<rparr>) d s2 = Inr s3" and
    rest: "fold_res (\<lambda>f. f d) FIELD_CHECKS s3 = Inr st'"
    using assms(1) by (auto simp: CHECKS_def fold_res_append NAME_CHECKS_def rbind_eq_Inr)
  have h: "jhas d ''kind''" "jhas d ''target''" "jhas d ''objective''"
    using assms(2) by (simp_all add: REQUIRED_FIELDS_def)
  have k: "kind s1 \<noteq> []" by (rule field_present [OF s1 h(1)]) (auto dest: reader_facts)
  have t: "target s2 \<noteq> []" "kind s2 = kind s1"
    by (rule field_present [OF s2 h(2)]; auto dest: reader_facts)+
  have o1: "objective s3 \<noteq> []" "target s3 = target s2" "kind s3 = kind s2"
    by (rule field_present [OF s3 h(3)]; auto dest: reader_facts)+
  have "kind st' \<noteq> [] \<and> target st' \<noteq> [] \<and> objective st' \<noteq> []"
  proof (rule fold_res_invariant [OF rest])
    show "kind s3 \<noteq> [] \<and> target s3 \<noteq> [] \<and> objective s3 \<noteq> []" using k t o1 by simp
    fix f s s' assume "f \<in> set FIELD_CHECKS" "f d s = Inr s'"
      "kind s \<noteq> [] \<and> target s \<noteq> [] \<and> objective s \<noteq> []"
    then show "kind s' \<noteq> [] \<and> target s' \<noteq> [] \<and> objective s' \<noteq> []"
      using checks_keep_names [of f d s s'] by (auto simp: names_kept_def CHECKS_def)
  qed
  then show "kind st' \<noteq> []" "target st' \<noteq> []" "objective st' \<noteq> []" by simp_all
qed

lemma identity_or_nonempty: "prefix \<noteq> [] \<Longrightarrow> identity_or prefix d name \<noteq> []"
  by (simp add: identity_or_def split: option.split json.split)

lemma readable_created_nonneg: "0 \<le> readable_created d"
  by (simp add: readable_created_def number_value_nonneg)

lemma inert_view_ok:
  "prefix \<noteq> [] \<Longrightarrow> state_ok (fresh_monitor (identity_or prefix d ''kind'') (identity_or prefix d ''target'')
     (identity_or prefix d ''objective'') (readable_created d))"
  by (simp add: state_ok_fresh identity_or_nonempty readable_created_nonneg)

lemma newer_view_ok:
  assumes "newer_version_view d = Inr st"
  shows "state_ok st" and "raw_payload st = Some d" and "read_pos (jget d ''version'') = Inr (version st)"
proof -
  let ?s = "fresh_monitor (identity_or ''unsupported_'' d ''kind'') (identity_or ''unsupported_'' d ''target'')
    (identity_or ''unsupported_'' d ''objective'') (readable_created d)"
  from assms obtain v where v: "read_pos (jget d ''version'') = Inr v" "strict_json (JObj d)"
    and st: "st = ?s\<lparr>version := v, raw_payload := Some d\<rparr>"
    by (auto simp: newer_version_view_def res_simps)
  show "state_ok st"
    using inert_view_ok [of "''unsupported_''" d] reader_facts(4) [OF v(1)] v(2)
    unfolding st by (simp add: state_ok_def)
  show "raw_payload st = Some d" "read_pos (jget d ''version'') = Inr (version st)"
    using v(1) by (simp_all add: st)
qed

lemma from_dict_current:
  assumes "monitor_state_from_dict (JObj d) = Inr st"
    and "py_eq_int (jget_default d ''version'' (JInt MONITOR_STATE_VERSION)) MONITOR_STATE_VERSION"
  obtains s1 s2 where "fold_res (\<lambda>f. f d) CONVERSIONS (fresh_monitor [] [] [] 0) = Inr s1"
    "list_all (jhas d) REQUIRED_FIELDS" "fold_res (\<lambda>f. f d) CHECKS s1 = Inr s2"
    "strict_json (JObj (unknown_fields d))" "st = s2\<lparr>extra_fields := unknown_fields d\<rparr>"
  using assms by (auto simp: monitor_state_from_dict_def res_simps intro: that)

lemma current_version_decodes:
  assumes "fold_res (\<lambda>f. f d) CONVERSIONS (fresh_monitor [] [] [] 0) = Inr s1"
    and "list_all (jhas d) REQUIRED_FIELDS" and "fold_res (\<lambda>f. f d) CHECKS s1 = Inr s2"
    and "strict_json (JObj (unknown_fields d))"
  shows "state_ok (s2\<lparr>extra_fields := unknown_fields d\<rparr>)" and "raw_payload s2 = None"
proof -
  have "ok_but_identity (fresh_monitor [] [] [] 0)"
    using state_ok_fresh [of "''k''" "''t''" "''o''" 0] by (simp add: ok_but_identity_def fresh_monitor_def)
  then have "ok_but_identity s1"
    by (rule fold_res_invariant [OF assms(1), where P = ok_but_identity]) (rule conversions_keep)
  then have "ok_but_identity s2"
    by (rule fold_res_invariant [OF assms(3), where P = ok_but_identity]) (rule checks_keep)
  with checks_set_names [OF assms(3,2)] assms(4)
  show "state_ok (s2\<lparr>extra_fields := unknown_fields d\<rparr>)" "raw_payload s2 = None"
    by (simp_all add: ok_but_identity_def state_ok_def)
qed

text \<open>Whatever decodes is a valid state: a record of this version passes every check of the
  constructor, one of another version becomes a valid inert view that keeps the whole record.\<close>

theorem decoded_state_is_valid:
  assumes "monitor_state_from_dict (JObj d) = Inr st"
  shows "state_ok st \<and> (raw_payload st = None \<or> raw_payload st = Some d)"
proof (cases "py_eq_int (jget_default d ''version'' (JInt MONITOR_STATE_VERSION)) MONITOR_STATE_VERSION")
  case False
  with assms have "newer_version_view d = Inr st" by (simp add: monitor_state_from_dict_def)
  then show ?thesis by (simp add: newer_view_ok)
next
  case True
  from from_dict_current [OF assms True] show ?thesis
    by (metis current_version_decodes monitor_state.select_convs(46) monitor_state.surjective
        monitor_state.update_convs(45))
qed

section \<open>Round trips\<close>

lemma setdefault_disjoint:
  "dict_wf ex \<Longrightarrow> fst ` set ex \<inter> fst ` set p = {} \<Longrightarrow>
   fold (\<lambda>(k, v) p. if jhas p k then p else dict_set k v p) ex p = p @ ex"
proof (induction ex arbitrary: p)
  case (Cons kv ex)
  obtain k v where kv: "kv = (k, v)" by (cases kv)
  with Cons.prems have k: "k \<notin> fst ` set p" by auto
  have "dict_set k v q = q @ [(k, v)]" if "k \<notin> fst ` set q" for q
    using that by (induction q) auto
  then have "dict_set k v p = p @ [(k, v)]" using k .
  moreover have "fold (\<lambda>(k, v) p. if jhas p k then p else dict_set k v p) ex (p @ [(k, v)]) = (p @ [(k, v)]) @ ex"
    using Cons.prems kv by (intro Cons.IH) auto
  ultimately show ?case using k by (simp add: kv jhas_def)
qed simp

lemma known_keys: "map fst (known_fields st) = STATE_FIELDS"
  by (simp add: known_fields_def STATE_FIELDS_def)

definition extras_apart :: "monitor_state \<Rightarrow> bool" where
  "extras_apart st \<longleftrightarrow> dict_wf (extra_fields st) \<and> fst ` set (extra_fields st) \<inter> set STATE_FIELDS = {}"

lemma to_dict_append:
  assumes "raw_payload st = None" and "extras_apart st"
  shows "monitor_state_to_dict st = known_fields st @ extra_fields st"
proof -
  have "fst ` set (known_fields st) = set STATE_FIELDS"
    using known_keys [of st] by (metis set_map)
  with assms show ?thesis
    by (simp add: monitor_state_to_dict_def extras_apart_def setdefault_disjoint)
qed

lemma unknown_of_append:
  assumes "extras_apart st"
  shows "unknown_fields (known_fields st @ extra_fields st) = extra_fields st"
proof -
  have "k \<in> set STATE_FIELDS" if "(k, v) \<in> set (known_fields st)" for k v
    using that known_keys [of st] by (metis fst_conv image_eqI set_map)
  moreover have "k \<notin> set STATE_FIELDS" if "(k, v) \<in> set (extra_fields st)" for k v
    using that assms by (auto simp: extras_apart_def)
  ultimately have "unknown_fields (known_fields st) = []" "unknown_fields (extra_fields st) = extra_fields st"
    unfolding unknown_fields_def by (auto simp: filter_empty_conv intro!: filter_True)
  then show ?thesis by (simp add: unknown_fields_def)
qed

definition wire :: "monitor_state \<Rightarrow> jobj \<Rightarrow> jobj" where
  "wire st ex = known_fields st @ ex"

lemma known_get:
  "dict_get (wire st ex) ''kind'' = Some (JStr (kind st))"
  "dict_get (wire st ex) ''target'' = Some (JStr (target st))"
  "dict_get (wire st ex) ''objective'' = Some (JStr (objective st))"
  "dict_get (wire st ex) ''created_ts'' = Some (ts_json (created_ts st))"
  "dict_get (wire st ex) ''version'' = Some (JInt (version st))"
  "dict_get (wire st ex) ''config_generation'' = Some (JInt (config_generation st))"
  "dict_get (wire st ex) ''budgets'' = Some (budgets_json (m_budgets st))"
  "dict_get (wire st ex) ''cadence_secs'' = Some (JInt (cadence_secs st))"
  "dict_get (wire st ex) ''wake_instructions'' = Some (JStr (wake_instructions st))"
  "dict_get (wire st ex) ''last_observation'' = Some (JObj (last_observation st))"
  "dict_get (wire st ex) ''last_fingerprint'' = Some (JStr (last_fingerprint st))"
  "dict_get (wire st ex) ''last_observed_at'' = Some (ts_json (last_observed_at st))"
  "dict_get (wire st ex) ''last_wake_fingerprint'' = Some (JStr (last_wake_fingerprint st))"
  "dict_get (wire st ex) ''wake_in_flight'' = Some (JBool (wake_in_flight st))"
  "dict_get (wire st ex) ''wake_delivery'' = Some (enum_json dispatch_values (wake_delivery st))"
  "dict_get (wire st ex) ''wake_count'' = Some (count_json (wake_count st))"
  "dict_get (wire st ex) ''completion_evidence_deadline'' = Some (ts_json (completion_evidence_deadline st))"
  "dict_get (wire st ex) ''last_wake_reason_code'' = Some (JStr (last_wake_reason_code st))"
  "dict_get (wire st ex) ''last_completion_fingerprint'' = Some (JStr (last_completion_fingerprint st))"
  "dict_get (wire st ex) ''last_completion_disposition'' = Some (enum_json disposition_values (last_completion_disposition st))"
  "dict_get (wire st ex) ''last_completed_at'' = Some (ts_json (last_completed_at st))"
  "dict_get (wire st ex) ''token_usage_known'' = Some (JBool (token_usage_known st))"
  "dict_get (wire st ex) ''agent_turns'' = Some (count_json (agent_turns st))"
  "dict_get (wire st ex) ''input_tokens'' = Some (count_json (input_tokens st))"
  "dict_get (wire st ex) ''output_tokens'' = Some (count_json (output_tokens st))"
  "dict_get (wire st ex) ''consecutive_provider_errors'' = Some (count_json (consecutive_provider_errors st))"
  "dict_get (wire st ex) ''probe_count'' = Some (count_json (probe_count st))"
  "dict_get (wire st ex) ''provider_error_count'' = Some (count_json (provider_error_count st))"
  "dict_get (wire st ex) ''last_probe_at'' = Some (ts_json (last_probe_at st))"
  "dict_get (wire st ex) ''last_decision'' = Some (enum_json decision_values (last_decision st))"
  "dict_get (wire st ex) ''last_provider_error'' = Some (enum_json provider_error_values (last_provider_error st))"
  "dict_get (wire st ex) ''quiet_ticks'' = Some (count_json (quiet_ticks st))"
  "dict_get (wire st ex) ''wakes'' = Some (count_json (wakes st))"
  "dict_get (wire st ex) ''gate_fallbacks'' = Some (count_json (gate_fallbacks st))"
  "dict_get (wire st ex) ''followup_ticks'' = Some (count_json (followup_ticks st))"
  "dict_get (wire st ex) ''quiet_streak'' = Some (count_json (quiet_streak st))"
  "dict_get (wire st ex) ''floor_ticks'' = Some (count_json (floor_ticks st))"
  "dict_get (wire st ex) ''poll_in_flight'' = Some (JBool (poll_in_flight st))"
  "dict_get (wire st ex) ''terminal_pending'' = Some (JStr (terminal_pending st))"
  "dict_get (wire st ex) ''next_probe_at'' = Some (ts_json (next_probe_at st))"
  "dict_get (wire st ex) ''outcome'' = Some (enum_json outcome_values (outcome st))"
  "dict_get (wire st ex) ''stopped_reason'' = Some (JStr (stopped_reason st))"
  "dict_get (wire st ex) ''user_stop_reason'' = Some (JStr (user_stop_reason st))"
  "dict_get (wire st ex) ''stopped_at'' = Some (ts_json (stopped_at st))"
  by (simp_all add: wire_def known_fields_def)

lemma reader_roundtrips:
  "s \<noteq> [] \<Longrightarrow> read_name (JStr s) = Inr s"
  "length s \<le> MAX_MONITOR_STOP_REASON_CHARS \<Longrightarrow> read_reason (JStr s) = Inr s"
  "0 \<le> t \<Longrightarrow> read_ts (ts_json t) = Inr t"
  "read_count (count_json n) = Inr n"
  "enum_table_ok tbl \<Longrightarrow> read_enum tbl (enum_json tbl x) = Inr x"
  by (simp_all add: read_name_def read_reason_def read_ts_def ts_json_def count_json_def budgets_json_def
      budgets_roundtrip enum_json_def enum_roundtrip split: option.split)

lemma budgets_step_roundtrip:
  "budgets_ok (m_budgets st) \<Longrightarrow>
     convert_budgets (wire st ex) s = Inr (s\<lparr>m_budgets := m_budgets st\<rparr>)"
  "check_budgets (wire st ex) s = Inr s"
  by (simp_all add: convert_budgets_def check_budgets_def known_get budgets_json_def budgets_roundtrip)

lemmas roundtrip_simps = budgets_step_roundtrip known_get reader_roundtrips enum_tables_ok field_def

lemma conversions_roundtrip:
  assumes "budgets_ok (m_budgets st)"
  shows "fold_res (\<lambda>f. f (wire st ex)) CONVERSIONS s =
     Inr (s\<lparr>m_budgets := m_budgets st, outcome := outcome st,
       last_completion_disposition := last_completion_disposition st, wake_delivery := wake_delivery st,
       last_decision := last_decision st, last_provider_error := last_provider_error st\<rparr>)"
  using assms by (simp add: CONVERSIONS_def roundtrip_simps)

lemma names_roundtrip:
  assumes "state_ok st"
  shows "fold_res (\<lambda>f. f (wire st ex)) NAME_CHECKS s =
     Inr (s\<lparr>kind := kind st, target := target st, objective := objective st\<rparr>)"
  using assms by (simp add: NAME_CHECKS_def roundtrip_simps state_ok_def)

lemma fields_roundtrip:
  assumes "state_ok st"
  shows "fold_res (\<lambda>f. f (wire st ex)) FIELD_CHECKS
     (fresh_monitor [] [] [] 0\<lparr>m_budgets := m_budgets st, outcome := outcome st,
       last_completion_disposition := last_completion_disposition st, wake_delivery := wake_delivery st,
       last_decision := last_decision st, last_provider_error := last_provider_error st,
       kind := kind st, target := target st, objective := objective st\<rparr>) =
     Inr (st\<lparr>extra_fields := [], raw_payload := None\<rparr>)"
  using assms by (simp add: FIELD_CHECKS_def roundtrip_simps state_ok_def fresh_monitor_def)

definition current_state :: "monitor_state \<Rightarrow> bool" where
  "current_state st \<longleftrightarrow> state_ok st \<and> version st = MONITOR_STATE_VERSION \<and> raw_payload st = None \<and> extras_apart st"

lemma codec_roundtrip:
  assumes "current_state st"
  shows "monitor_state_from_dict (JObj (monitor_state_to_dict st)) = Inr st"
proof -
  have ok: "state_ok st" and raw: "raw_payload st = None" and ex: "extras_apart st"
    and v: "version st = MONITOR_STATE_VERSION"
    using assms by (simp_all add: current_state_def)
  let ?d = "wire st (extra_fields st)"
  have d: "monitor_state_to_dict st = ?d" by (simp add: to_dict_append [OF raw ex] wire_def)
  have unk: "unknown_fields ?d = extra_fields st" by (simp add: wire_def unknown_of_append [OF ex])
  have ver: "py_eq_int (jget_default ?d ''version'' (JInt MONITOR_STATE_VERSION)) MONITOR_STATE_VERSION"
    by (simp add: jget_default_def dict_get_default_def known_get v)
  have req: "list_all (jhas ?d) REQUIRED_FIELDS"
    using known_get(1-4) [of st "extra_fields st"]
    by (auto simp: REQUIRED_FIELDS_def jhas_def dest!: dict_get_Some_in_set intro: image_eqI [rotated])
  have strict: "strict_json (JObj (extra_fields st))" using ok by (simp add: state_ok_def)
  have checks: "fold_res (\<lambda>f. f ?d) CHECKS s =
      rbind (fold_res (\<lambda>f. f ?d) NAME_CHECKS s) (fold_res (\<lambda>f. f ?d) FIELD_CHECKS)" for s
    by (simp add: CHECKS_def fold_res_append)
  have b: "budgets_ok (m_budgets st)" using ok by (simp add: state_ok_def)
  have "st\<lparr>extra_fields := extra_fields st, raw_payload := None\<rparr> = st" using raw by simp
  then show ?thesis
    unfolding d monitor_state_from_dict_def
    by (simp only: json.case ver not_True_eq_False if_False conversions_roundtrip [OF b] rbind_Inr req
        ensure_simps checks names_roundtrip [OF ok] fields_roundtrip [OF ok] unk strict
        monitor_state.update_convs) (simp add: raw)
qed

text \<open>Persisting loses nothing: a valid state of this version, with any preserved extra
  fields, decodes from its own encoding to itself.\<close>

theorem monitor_state_roundtrip:
  assumes "current_state st"
  shows "monitor_state_from_dict (JObj (monitor_state_to_dict st)) = Inr st"
  using assms by (rule codec_roundtrip)

definition sample_state :: monitor_state where
  "sample_state = (fresh_monitor ''github_pull_request'' ''o/r#7'' ''merge it'' 100)
     \<lparr>agent_turns := 2, last_fingerprint := ''f1'', outcome := Some OUT_BUDGET,
      extra_fields := [(''future'', JArr [JInt 1])]\<rparr>"

lemma sample_state_current: "current_state sample_state"
  by code_simp

lemma monitor_state_roundtrip_witness:
  "monitor_state_from_dict (JObj (monitor_state_to_dict sample_state)) = Inr sample_state"
  by (rule monitor_state_roundtrip [OF sample_state_current])

lemma fold_setdefault_get:
  "dict_get (fold (\<lambda>(k, v) p. if jhas p k then p else dict_set k v p) ex p) k =
     (case dict_get p k of Some v \<Rightarrow> Some v | None \<Rightarrow> dict_get ex k)"
proof (induction ex arbitrary: p)
  case (Cons kv ex)
  obtain k' v where kv: "kv = (k', v)" by (cases kv)
  have h: "jhas p k' \<longleftrightarrow> dict_get p k' \<noteq> None" by (simp add: jhas_def map_of_eq_None_iff)
  show ?case
    using h by (auto simp: kv Cons.IH split: option.splits)
qed (simp split: option.split)

lemma unknown_get: "k \<notin> set STATE_FIELDS \<Longrightarrow> dict_get (unknown_fields d) k = dict_get d k"
  by (induction d) (auto simp: unknown_fields_def)

definition this_version :: "jobj \<Rightarrow> bool" where
  "this_version d \<longleftrightarrow> py_eq_int (jget_default d ''version'' (JInt MONITOR_STATE_VERSION)) MONITOR_STATE_VERSION"

text \<open>Nothing a newer gateway wrote is lost: a record of another version is written back as
  it was read, and a record of this version keeps every field this version does not know.\<close>

theorem newer_data_survives:
  assumes "monitor_state_from_dict (JObj d) = Inr st"
  shows "(\<not> this_version d \<longrightarrow> monitor_state_to_dict st = d) \<and>
    (k \<notin> set STATE_FIELDS \<longrightarrow> dict_get (monitor_state_to_dict st) k = dict_get d k)"
proof -
  have other: "monitor_state_to_dict st = d" if "\<not> this_version d"
    using assms that by (simp add: monitor_state_from_dict_def this_version_def newer_view_ok monitor_state_to_dict_def)
  have "dict_get (monitor_state_to_dict st) k = dict_get d k" if k: "k \<notin> set STATE_FIELDS"
  proof (cases "this_version d")
    case True
    from from_dict_current [OF assms True [unfolded this_version_def]] obtain s1 s2 where
      s1: "fold_res (\<lambda>f. f d) CONVERSIONS (fresh_monitor [] [] [] 0) = Inr s1" and
      req: "list_all (jhas d) REQUIRED_FIELDS" and s2: "fold_res (\<lambda>f. f d) CHECKS s1 = Inr s2" and
      strict: "strict_json (JObj (unknown_fields d))" and st: "st = s2\<lparr>extra_fields := unknown_fields d\<rparr>" .
    have "k \<notin> fst ` set (known_fields st)" using k known_keys [of st] by (metis set_map)
    then have "dict_get (known_fields st) k = None" by (simp add: map_of_eq_None_iff)
    with current_version_decodes(2) [OF s1 req s2 strict] unknown_get [OF k, of d] show ?thesis
      by (simp add: st monitor_state_to_dict_def fold_setdefault_get)
  next
    case False
    then show ?thesis by (simp add: other)
  qed
  with other show ?thesis by blast
qed

definition newer_record :: jobj where
  "newer_record = [(''version'', JInt 2), (''kind'', JStr ''k''), (''policy'', JObj [])]"

definition extended_record :: jobj where
  "extended_record = [(''kind'', JStr ''k''), (''target'', JStr ''t''), (''objective'', JStr ''o''),
     (''created_ts'', JInt 5), (''policy'', JStr ''p'')]"

lemma newer_data_survives_witness:
  "(\<exists>st. monitor_state_from_dict (JObj newer_record) = Inr st \<and> monitor_state_to_dict st = newer_record) \<and>
   (\<exists>st. monitor_state_from_dict (JObj extended_record) = Inr st \<and>
      dict_get (monitor_state_to_dict st) ''policy'' = Some (JStr ''p''))"
proof
  have "\<not> isl (monitor_state_from_dict (JObj newer_record))" by code_simp
  then obtain st where st: "monitor_state_from_dict (JObj newer_record) = Inr st" by (metis isl_def sumE)
  have "\<not> this_version newer_record" by code_simp
  with newer_data_survives [OF st] st
  show "\<exists>st. monitor_state_from_dict (JObj newer_record) = Inr st \<and> monitor_state_to_dict st = newer_record"
    by blast
next
  have "\<not> isl (monitor_state_from_dict (JObj extended_record))" by code_simp
  then obtain st where st: "monitor_state_from_dict (JObj extended_record) = Inr st" by (metis isl_def sumE)
  have "''policy'' \<notin> set STATE_FIELDS" "dict_get extended_record ''policy'' = Some (JStr ''p'')"
    by code_simp+
  with newer_data_survives [OF st] st
  show "\<exists>st. monitor_state_from_dict (JObj extended_record) = Inr st \<and>
      dict_get (monitor_state_to_dict st) ''policy'' = Some (JStr ''p'')" by fastforce
qed

definition minimal_record :: jobj where
  "minimal_record = [(''kind'', JStr ''k''), (''target'', JStr ''t''), (''objective'', JStr ''o''),
     (''created_ts'', JInt 5)]"

lemma decoded_state_is_valid_witness:
  "\<exists>st. monitor_state_from_dict (JObj minimal_record) = Inr st \<and> state_ok st"
proof -
  have "\<not> isl (monitor_state_from_dict (JObj minimal_record))" by code_simp
  then obtain st where st: "monitor_state_from_dict (JObj minimal_record) = Inr st" by (metis isl_def sumE)
  with decoded_state_is_valid [OF st] show ?thesis by blast
qed

text \<open>Quarantine always succeeds on an object and yields a valid record that is terminal:
  outcome blocked, no wake in flight, no deadline.\<close>

theorem quarantine_is_inert:
  "case quarantine_monitor_state (JObj d) of Inl e \<Rightarrow> False
   | Inr st \<Rightarrow> current_state st \<and> outcome st = Some OUT_BLOCKED \<and>
       stopped_reason st = MONITOR_STOP_INVALID_RECORD \<and> \<not> wake_in_flight st \<and> next_probe_at st = 0"
  using inert_view_ok [of "''invalid_''" d]
  by (simp add: quarantine_monitor_state_def current_state_def extras_apart_def state_ok_def fresh_monitor_def)

end
