(* ===== verification/Monitor_Invariant.thy ===== *)
theory Monitor_Invariant
  imports Monitor_Service Monitor_Codec "HOL-Library.Multiset"
begin

text \<open>
  The invariant of the monitor service and its preservation by every operation under every
  outcome of the disk write: what a record promises about its schedule, its claim and its
  budget, and that the durable snapshot is the state in memory.
\<close>

section \<open>The invariant\<close>


definition monitor_ok :: "loop \<Rightarrow> monitor_state \<Rightarrow> bool" where
  "monitor_ok l st \<longleftrightarrow>
     state_ok st \<and> next_probe_at st = l_next_due_ts l \<and> 0 < l_idle_secs l \<and>
     (outcome st \<noteq> None \<longrightarrow> \<not> l_active l) \<and>
     (wake_in_flight st \<longrightarrow> last_wake_fingerprint st \<noteq> []) \<and>
     int (agent_turns st) + (if wake_in_flight st then 1 else 0) \<le> DEFAULT_MONITOR_AGENT_TURNS \<and>
     (wake_in_flight st \<and> outcome st \<noteq> None \<longrightarrow>
        outcome st \<in> Some ` set TERMINAL_WAITS \<and> 0 < completion_evidence_deadline st \<and>
        l_next_due_ts l = completion_evidence_deadline st) \<and>
     (l_active l \<and> \<not> wake_in_flight st \<longrightarrow> 0 < l_next_due_ts l) \<and>
     (version st \<noteq> MONITOR_STATE_VERSION \<longrightarrow> outcome st = Some OUT_BLOCKED \<and> \<not> wake_in_flight st) \<and>
     (version st = MONITOR_STATE_VERSION \<longrightarrow> raw_payload st = None \<and> extras_apart st)"

definition loop_ok :: "loop \<Rightarrow> bool" where
  "loop_ok l \<longleftrightarrow> (case l_monitor l of None \<Rightarrow> True | Some st \<Rightarrow> monitor_ok l st)"

text \<open>
  What the disk always has of a loop: everything but the approval flag and the countdown, which
  the turn hooks change in memory and leave to a background write. Every row on disk is fine as
  it stands. Nothing is required of the notes of accepted turns: a note made while another
  operation waits for its write can outlive the claim it was made for.
\<close>

definition settled_part :: "loop \<Rightarrow> loop" where
  "settled_part l = l\<lparr>l_approval_stalled := False, l_next_due_ts := 0,
     l_monitor := map_option (\<lambda>st. st\<lparr>next_probe_at := 0\<rparr>) (l_monitor l)\<rparr>"

definition disk_ok :: "(string, loop) dict \<Rightarrow> loop list \<Rightarrow> bool" where
  "disk_ok ls d \<longleftrightarrow> mset (map settled_part d) = mset (map settled_part (map snd ls)) \<and>
     list_all (loop_ok) d"

definition service_ok :: "service \<Rightarrow> bool" where
  "service_ok s \<longleftrightarrow>
     dict_wf (loops s) \<and>
     (\<forall>k l. dict_get (loops s) k = Some l \<longrightarrow> l_id l = k \<and> loop_ok l) \<and>
     disk_ok (loops s) (disk s)"


lemma saved_service_ok:
  assumes "dict_wf (loops s)" and "disk s = map snd (loops s)"
    and "\<And>k l. dict_get (loops s) k = Some l \<Longrightarrow> l_id l = k \<and> loop_ok l"
  shows "service_ok s"
proof -
  have "loop_ok l" if "l \<in> set (map snd (loops s))" for l
  proof -
    from that obtain k where "(k, l) \<in> set (loops s)" by auto
    with assms(1) have "dict_get (loops s) k = Some l" by (simp add: dict_get_eq_Some)
    with assms(3) show ?thesis by blast
  qed
  then have "disk_ok (loops s) (disk s)" by (simp add: disk_ok_def list_all_iff assms(2))
  with assms(1,3) show ?thesis unfolding service_ok_def by blast
qed

lemma find_monitor_Some:
  "find_monitor s mid = Some (l, st) \<longleftrightarrow> dict_get (loops s) mid = Some l \<and> l_monitor l = Some st"
  by (auto simp: find_monitor_def split: option.splits)

lemma service_ok_get:
  "service_ok s \<Longrightarrow> find_monitor s mid = Some (l, st) \<Longrightarrow> l_id l = mid \<and> monitor_ok l st"
proof -
  assume s: "service_ok s" and "find_monitor s mid = Some (l, st)"
  then have l: "dict_get (loops s) mid = Some l" "l_monitor l = Some st" by (simp_all add: find_monitor_Some)
  from s have "l_id l = mid \<and> loop_ok l"
    unfolding service_ok_def using l(1) by blast
  with l(2) show "l_id l = mid \<and> monitor_ok l st"
    by (simp add: loop_ok_def)
qed

lemma service_ok_loop:
  "service_ok s \<Longrightarrow> dict_get (loops s) mid = Some l \<Longrightarrow> l_id l = mid \<and> loop_ok l"
  unfolding service_ok_def by blast

section \<open>Persisting\<close>

lemma replacement_is_update:
  "dict_wf d \<Longrightarrow> dict_get d mid = Some l \<Longrightarrow> (\<And>k c. dict_get d k = Some c \<Longrightarrow> l_id c = k) \<Longrightarrow>
   map (\<lambda>(k, c). if l_id c = mid then staged else c) d = map snd (dict_set mid staged d)"
proof (induction d)
  case (Cons p d)
  obtain k c where p: "p = (k, c)" by (cases p)
  from Cons.prems(3) [of k c] have id: "l_id c = k" by (simp add: p)
  have ids: "l_id c' = k'" if g: "dict_get d k' = Some c'" for k' c'
  proof -
    have "k' \<noteq> k" using Cons.prems(1) dict_get_Some_in_set [OF g] by (auto simp: p intro: image_eqI [rotated])
    with g have "dict_get (p # d) k' = Some c'" by (simp add: p)
    then show ?thesis by (rule Cons.prems(3))
  qed
  show ?case
  proof (cases "k = mid")
    case True
    have "l_id c' \<noteq> mid" if "(k', c') \<in> set d" for k' c'
    proof -
      have "dict_get d k' = Some c'" using Cons.prems(1) that by (simp add: p)
      with ids have "l_id c' = k'" by blast
      moreover have "k' \<noteq> mid" using Cons.prems(1) that True by (auto simp: p intro: image_eqI [rotated])
      ultimately show ?thesis by simp
    qed
    then have "map (\<lambda>(k, c). if l_id c = mid then staged else c) d = map snd d" by auto
    with True id show ?thesis by (simp add: p)
  next
    case False
    have "map (\<lambda>(k, c). if l_id c = mid then staged else c) d = map snd (dict_set mid staged d)"
      using Cons.prems(1,2) False ids by (intro Cons.IH) (simp_all add: p)
    with False id show ?thesis by (simp add: p)
  qed
qed simp

lemma published_ok:
  assumes "service_ok s" and "dict_get (loops s) mid = Some l" and "l_id l = mid"
    and "l_id staged = mid" and "loop_ok staged"
  shows "service_ok (apply_staged_monitor l staged (s\<lparr>disk := monitor_snapshot_with_replacement s l staged\<rparr>))"
    (is "service_ok ?s")
proof -
  have D: "loops ?s = dict_set mid staged (loops s)" and A: "accepted ?s = accepted s"
    and K: "disk ?s = map (\<lambda>(k, c). if l_id c = mid then staged else c) (loops s)"
    by (simp_all add: apply_staged_monitor_def monitor_snapshot_with_replacement_def assms(3))
  show ?thesis
  proof (rule saved_service_ok)
    show "dict_wf (loops ?s)" unfolding D using assms(1) by (simp add: service_ok_def)
    show "disk ?s = map snd (loops ?s)"
      unfolding D K using assms(1,2) by (intro replacement_is_update) (auto simp: service_ok_def)
    show "l_id l' = k \<and> loop_ok l'" if "dict_get (loops ?s) k = Some l'" for k l'
      using that assms(4,5) service_ok_loop [OF assms(1), of k l'] unfolding D A by (simp split: if_splits)
  qed
qed

text \<open>What the bookkeeping after a successful write may touch.\<close>

definition timers_only :: "service \<Rightarrow> service \<Rightarrow> bool" where
  "timers_only s s' \<longleftrightarrow> loops s' = loops s \<and> accepted s' = accepted s \<and> disk s' = disk s \<and>
     persist_pending s' = persist_pending s \<and> tick_wired s' = tick_wired s"

lemma timers_only_refl [simp]: "timers_only s s"
  and timers_only_trans [trans]: "timers_only a b \<Longrightarrow> timers_only b c \<Longrightarrow> timers_only a c"
  by (simp_all add: timers_only_def)

lemma timers_only_ok: "timers_only s s' \<Longrightarrow> service_ok s \<Longrightarrow> service_ok s'"
  by (simp add: timers_only_def service_ok_def)

lemma timers_only_find: "timers_only s s' \<Longrightarrow> find_monitor s' mid = find_monitor s mid"
  by (simp add: timers_only_def find_monitor_def)

lemma cancel_timers_only [simp]: "timers_only s (cancel_timer mid s)"
  and defer_timers_only [simp]: "timers_only s (defer_rearm mid s)"
  by (simp_all add: timers_only_def cancel_timer_def defer_rearm_def)

lemma arm_timers_only:
  "(\<And>l. dict_get (loops s) mid = Some l \<Longrightarrow> 0 < l_next_due_ts l) \<Longrightarrow> timers_only s (arm_from_deadline t mid s)"
  by (auto simp: timers_only_def arm_from_deadline_def arm_timer_def Let_def split: option.splits)

lemma arm_or_defer_timers_only:
  "(\<And>l. dict_get (loops s) mid = Some l \<Longrightarrow> 0 < l_next_due_ts l) \<Longrightarrow> timers_only s (arm_or_defer t mid s)"
  by (simp add: arm_or_defer_def arm_timers_only)

lemma waits_due: "loop_ok l \<Longrightarrow> waits_for_terminal_completion l \<Longrightarrow> 0 < l_next_due_ts l"
  by (auto simp: loop_ok_def waits_for_terminal_completion_def monitor_ok_def split: option.splits)

lemma sync_timers_only: "service_ok s \<Longrightarrow> timers_only s (sync_terminal_completion_timer t mid s)"
proof (cases "dict_get (loops s) mid")
  case None
  then show ?thesis by (simp add: sync_terminal_completion_timer_def)
next
  case (Some l)
  assume s: "service_ok s"
  have "timers_only s (arm_or_defer t mid s)" if "waits_for_terminal_completion l"
    using waits_due [OF _ that] service_ok_loop [OF s Some] Some by (intro arm_or_defer_timers_only) auto
  with Some show ?thesis by (simp add: sync_terminal_completion_timer_def)
qed

lemma sync_if_timers_only: "service_ok s \<Longrightarrow> timers_only s (sync_if_stopped t mid s)"
  by (simp add: sync_if_stopped_def sync_timers_only)

text \<open>The end of an operation: the staged copy is fine and the bookkeeping touches timers only.\<close>

lemma persist_ok:
  assumes "service_ok s" and "find_monitor s mid = Some (l, st)"
    and "l_id staged = mid" and "loop_ok staged"
    and "\<And>s'. service_ok s' \<Longrightarrow> dict_get (loops s') mid = Some staged \<Longrightarrow> accepted s' = accepted s \<Longrightarrow>
           timers_only s' (finish s')"
  shows "service_ok (fst (persist_staged_monitor w l staged finish r s))"
proof -
  let ?s = "apply_staged_monitor l staged (s\<lparr>disk := monitor_snapshot_with_replacement s l staged\<rparr>)"
  have l: "dict_get (loops s) mid = Some l" "l_id l = mid"
    using assms(2) service_ok_get [OF assms(1,2)] by (simp_all add: find_monitor_Some)
  have pub: "service_ok ?s" by (rule published_ok [OF assms(1) l assms(3,4)])
  have "dict_get (loops ?s) mid = Some staged" "accepted ?s = accepted s"
    by (simp_all add: apply_staged_monitor_def l(2))
  from timers_only_ok [OF assms(5) [OF pub this] pub] pub assms(1) show ?thesis
    by (cases w) (simp_all add: persist_staged_monitor_def)
qed

section \<open>Staged copies\<close>

lemmas staging_defs = set_monitor_deadline_def put_monitor_def settle_def

lemmas ok_defs = staging_defs loop_ok_def monitor_ok_def state_ok_def claims_def extras_apart_def

lemma staging_ids [simp]:
  "l_id (set_monitor_deadline t l) = l_id l" "l_id (put_monitor l st) = l_id l"
  "l_id (settle x r t l) = l_id l" "l_id (retain_accepted_terminal_completion s t l st) = l_id l"
  "l_id (apply_monitor_budget_stop s r t l st) = l_id l" "l_id (apply_monitor_user_stop s t l st) = l_id l"
  by (simp_all add: set_monitor_deadline_def put_monitor_def settle_def apply_monitor_budget_stop_def
      apply_monitor_user_stop_def retain_accepted_terminal_completion_def Let_def)


lemma monitor_ok_turns: "monitor_ok l st \<Longrightarrow> int (agent_turns st) \<le> DEFAULT_MONITOR_AGENT_TURNS"
  by (auto simp: monitor_ok_def split: if_splits)

text \<open>A terminal stop that may keep an accepted claim.\<close>

lemma retained_stop_ok:
  assumes "monitor_ok l st" and "outcome st = None" and "x \<in> set TERMINAL_WAITS" and "0 \<le> stopped"
  shows "loop_ok (settle x reason stopped (retain_accepted_terminal_completion s stopped l st))"
  using assms monitor_ok_turns [OF assms(1)]
  by (auto simp: retain_accepted_terminal_completion_def Let_def ok_defs
      MONITOR_COMPLETION_EVIDENCE_TIMEOUT_SECS_def)

text \<open>A terminal stop that ends the claim.\<close>

lemma final_stop_ok:
  assumes "monitor_ok l st" and "0 \<le> stopped"
    and "x = OUT_BLOCKED \<or> version st = MONITOR_STATE_VERSION"
  shows "loop_ok (set_monitor_deadline 0 (settle x reason stopped (put_monitor l
    (st\<lparr>wake_in_flight := False, wake_delivery := d, completion_evidence_deadline := 0\<rparr>))))"
  using assms(3)
proof
  assume "x = OUT_BLOCKED"
  with assms(1,2) monitor_ok_turns [OF assms(1)] show ?thesis by (simp add: ok_defs)
next
  assume "version st = MONITOR_STATE_VERSION"
  with assms(1,2) monitor_ok_turns [OF assms(1)] show ?thesis by (simp add: ok_defs)
qed

lemma user_reason_ok:
  "loop_ok l \<Longrightarrow> length reason \<le> MAX_MONITOR_STOP_REASON_CHARS \<Longrightarrow>
   loop_ok (l\<lparr>l_monitor := map_option (\<lambda>st. st\<lparr>user_stop_reason := reason\<rparr>) (l_monitor l)\<rparr>)"
  by (cases "l_monitor l") (simp_all add: ok_defs)

lemma bare_deadline_ok:
  "monitor_ok l st \<Longrightarrow> l_monitor l = Some st \<Longrightarrow> outcome st = None \<Longrightarrow> 0 < t \<Longrightarrow> loop_ok (set_monitor_deadline t l)"
  by (simp add: ok_defs)

lemma deadline_ok:
  "monitor_ok l st \<Longrightarrow> outcome st = None \<Longrightarrow> 0 < t \<Longrightarrow> loop_ok (set_monitor_deadline t (put_monitor l st))"
  by (simp add: ok_defs)

lemma quiet_stop_ok:
  "monitor_ok l st \<Longrightarrow> outcome st = None \<Longrightarrow> \<not> wake_in_flight st \<Longrightarrow> 0 \<le> stopped \<Longrightarrow>
   loop_ok (settle x reason stopped (set_monitor_deadline 0 (put_monitor l st)))"
  by (simp add: ok_defs)

lemma claim_ok:
  assumes "monitor_ok l st" and "outcome st = None" and "\<not> wake_in_flight st" and "fp \<noteq> []"
    and "int (agent_turns st) < max_agent_turns (m_budgets st)"
  shows "loop_ok (put_monitor l (st\<lparr>last_wake_fingerprint := fp, wake_in_flight := True, wake_delivery := None\<rparr>))"
    and "loop_ok (set_monitor_deadline 0 (put_monitor l (st\<lparr>last_wake_fingerprint := fp,
           last_wake_reason_code := code, wake_in_flight := True, wake_delivery := None\<rparr>)))"
proof -
  have "int (agent_turns st) + 1 \<le> DEFAULT_MONITOR_AGENT_TURNS"
    using assms(1,5) by (simp add: monitor_ok_def state_ok_def budgets_ok_def)
  then show
    "loop_ok (put_monitor l (st\<lparr>last_wake_fingerprint := fp, wake_in_flight := True, wake_delivery := None\<rparr>))"
    "loop_ok (set_monitor_deadline 0 (put_monitor l (st\<lparr>last_wake_fingerprint := fp,
       last_wake_reason_code := code, wake_in_flight := True, wake_delivery := None\<rparr>)))"
    using assms(1-4) by (simp_all add: ok_defs)
qed

lemma record_probe_ok:
  assumes "monitor_ok l st" and "0 \<le> now" and "strict_json (JObj canonical)"
  shows "monitor_ok l (record_probe canonical ob now d st)"
proof -
  obtain err where err: "err = (case o_provider_error ob of Some e \<Rightarrow> Some e | None \<Rightarrow> o_supplemental ob)" by blast
  show ?thesis
    using assms unfolding record_probe_def Let_def err [symmetric]
    by (cases err; cases "o_status ob = OBS_PROVIDER_ERROR") (simp_all add: ok_defs)
qed

lemma record_probe_frame [simp]:
  "outcome (record_probe canonical ob now d st) = outcome st"
  "wake_in_flight (record_probe canonical ob now d st) = wake_in_flight st"
  "wake_delivery (record_probe canonical ob now d st) = wake_delivery st"
  "agent_turns (record_probe canonical ob now d st) = agent_turns st"
  "last_wake_fingerprint (record_probe canonical ob now d st) = last_wake_fingerprint st"
  "cadence_secs (record_probe canonical ob now d st) = cadence_secs st"
  "version (record_probe canonical ob now d st) = version st"
  "m_budgets (record_probe canonical ob now d st) = m_budgets st"
  "user_stop_reason (record_probe canonical ob now d st) = user_stop_reason st"
  by (simp_all add: record_probe_def Let_def split: option.split)

lemma retry_delay_pos: "0 < cadence_secs st \<Longrightarrow> 0 < retry_delay st"
  by (simp add: retry_delay_def MONITOR_RETRY_MAX_BACKOFF_SECS_def MONITOR_RETRY_BACKOFF_SECS_def)

lemma monitor_ok_cadence: "monitor_ok l st \<Longrightarrow> 0 < cadence_secs st"
  by (simp add: monitor_ok_def state_ok_def)

section \<open>Every operation keeps the invariant\<close>

lemma wake_has_fingerprint:
  assumes "observation_ok ob" and "decide_monitor st ob now = WAKE_ACTIONABLE"
  shows "o_fingerprint ob \<noteq> []" and "int (agent_turns st) < max_agent_turns (m_budgets st)"
  using assms(2) assms(1) unfolding decide_wake_iff
  by (auto simp: deserves_turn_def live_with_room_def budget_reason_empty elim!: observation_ok_cases)

lemma apply_decision_ok:
  assumes ok: "monitor_ok l st" and live: "outcome st = None" "\<not> wake_in_flight st"
    and ob: "observation_ok ob" "strict_json (JObj canonical)" and now: "0 \<le> now"
    and d: "d = decide_monitor st ob now"
  shows "loop_ok (apply_decision s ob now d l (record_probe canonical ob now d st))"
proof -
  let ?st = "\<lambda>d. record_probe canonical ob now d st"
  have ok': "monitor_ok l (?st d)" for d by (rule record_probe_ok [OF ok now ob(2)])
  have cad: "0 < cadence_secs st" by (rule monitor_ok_cadence [OF ok])
  have later: "loop_ok (set_monitor_deadline (now + of_int n) (put_monitor l (?st d)))" if "0 < n" for n d
  proof (rule deadline_ok [OF ok'])
    have "(0::rat) < of_int n" using that by simp
    then show "0 < now + of_int n" using now by linarith
  qed (use live in simp)
  have quiet: "loop_ok (settle x r now (set_monitor_deadline 0 (put_monitor l (?st d))))" for x r d
    by (rule quiet_stop_ok [OF ok' _ _ now]) (use live in simp_all)
  show ?thesis
  proof (cases d)
    case WAKE_ACTIONABLE
    with d wake_has_fingerprint [OF ob(1), of st now] have "o_fingerprint ob \<noteq> []"
      "int (agent_turns (?st d)) < max_agent_turns (m_budgets (?st d))" by simp_all
    from claim_ok(2) [OF ok' _ _ this] live show ?thesis by (simp add: WAKE_ACTIONABLE apply_decision_def)
  next
    case STOP_BUDGET
    show ?thesis
      unfolding STOP_BUDGET apply_decision_def apply_monitor_budget_stop_def monitor_decision.case
      by (rule retained_stop_ok) (use ok' live now in \<open>simp_all add: TERMINAL_WAITS_def\<close>)
  next
    case RETRY_PROVIDER
    have "0 < retry_delay (?st d)" by (rule retry_delay_pos) (use cad in simp)
    with later show ?thesis by (simp add: RETRY_PROVIDER apply_decision_def)
  qed (simp_all add: apply_decision_def quiet later cad)
qed

lemma apply_decision_id [simp]: "l_id (apply_decision s ob now d l st) = l_id l"
  by (cases d) (simp_all add: apply_decision_def)

text \<open>The frame of an operation: look the monitor up, then act on it.\<close>

lemma monitor_op_ok:
  assumes "service_ok s"
    and "\<And>l st. find_monitor s mid = Some (l, st) \<Longrightarrow> l_id l = mid \<Longrightarrow> l_monitor l = Some st \<Longrightarrow>
           monitor_ok l st \<Longrightarrow> service_ok (fst (f l st))"
  shows "service_ok (fst (case find_monitor s mid of None \<Rightarrow> (s, r) | Some (l, st) \<Rightarrow> f l st))"
proof (cases "find_monitor s mid")
  case None
  with assms(1) show ?thesis by simp
next
  case (Some p)
  obtain l st where p: "p = (l, st)" by (cases p)
  with Some have f: "find_monitor s mid = Some (l, st)" by simp
  have "l_monitor l = Some st" using f by (simp add: find_monitor_Some)
  with assms(2) [OF f] service_ok_get [OF assms(1) f] f show ?thesis by simp
qed

lemma later_pos: "0 \<le> now \<Longrightarrow> 0 < n \<Longrightarrow> 0 < now + (of_int n :: rat)"
  by (simp add: add_nonneg_pos)

lemma apply_monitor_probe_ok:
  assumes s: "service_ok s" and ob: "observation_ok ob" "strict_json (JObj canonical)" and now: "0 \<le> now"
  shows "service_ok (fst (apply_monitor_probe mid canonical ob now gen t w s))"
  unfolding apply_monitor_probe_def
proof (rule monitor_op_ok [OF s], goal_cases)
  case (1 l st)
  note f = 1(1) and id = 1(2) and m = 1(3) and ok = 1(4)
  have bare: "loop_ok (set_monitor_deadline (now + of_int (cadence_secs st)) l)"
    if "outcome st = None"
    by (rule bare_deadline_ok [OF ok m that later_pos [OF now monitor_ok_cadence [OF ok]]])
  have staged: "loop_ok
      (apply_decision s ob now (decide_monitor st ob now) l
        (record_probe canonical ob now (decide_monitor st ob now) st))"
    if "outcome st = None" "\<not> wake_in_flight st"
    by (rule apply_decision_ok [OF ok that ob now refl])
  show ?case
    unfolding Let_def
    using s id bare staged
    by (auto intro!: persist_ok [OF s f] sync_if_timers_only)
qed

lemma stop_monitor_ok:
  assumes s: "service_ok s" and now: "0 \<le> now" and r: "length user_reason \<le> MAX_MONITOR_STOP_REASON_CHARS"
  shows "service_ok (fst (stop_monitor mid now user_reason t w s))"
  unfolding stop_monitor_def
proof (rule monitor_op_ok [OF s], goal_cases)
  case (1 l st)
  note f = 1(1) and id = 1(2) and m = 1(3) and ok = 1(4)
  have "loop_ok (apply_monitor_user_stop s now l st)" if "outcome st = None"
    unfolding apply_monitor_user_stop_def
    by (rule retained_stop_ok [OF ok that]) (use id now in \<open>simp_all add: TERMINAL_WAITS_def\<close>)
  from user_reason_ok [OF this r] s id
  show ?case
    unfolding Let_def by (auto intro!: persist_ok [OF s f] sync_timers_only)
qed

lemma retire_monitor_ok:
  assumes s: "service_ok s" and now: "0 \<le> now"
  shows "service_ok (fst (retire_monitor_for_session_close mid now t w s))"
  unfolding retire_monitor_for_session_close_def
proof (rule monitor_op_ok [OF s], goal_cases)
  case (1 l st)
  note f = 1(1) and id = 1(2) and m = 1(3) and ok = 1(4)
  have "loop_ok (settle OUT_SESSION_CLOSE MONITOR_STOP_SESSION_CLOSE now
      (retain_accepted_terminal_completion s now l st))" if "outcome st = None"
    by (rule retained_stop_ok [OF ok that]) (use id now in \<open>simp_all add: TERMINAL_WAITS_def\<close>)
  with s id
  show ?case
    unfolding Let_def by (auto intro!: persist_ok [OF s f] sync_timers_only)
qed

lemma busy_delay_pos: "0 < n \<Longrightarrow> 0 < min MONITOR_BUSY_RETRY_SECS n"
  by (simp add: MONITOR_BUSY_RETRY_SECS_def)

lemma restored_loop_ok:
  assumes ok: "monitor_ok l st" and c: "outcome st = Some OUT_SESSION_CLOSE" and now: "0 \<le> now"
  shows "loop_ok (restored_loop now l st)" and "0 < l_next_due_ts (restored_loop now l st)"
    and "l_id (restored_loop now l st) = l_id l"
proof -
  have b: "0 < now + of_int (min MONITOR_BUSY_RETRY_SECS (cadence_secs st))"
    by (rule later_pos [OF now busy_delay_pos [OF monitor_ok_cadence [OF ok]]])
  have q: "0 < now + of_int (cadence_secs st)" by (rule later_pos [OF now monitor_ok_cadence [OF ok]])
  show "loop_ok (restored_loop now l st)"
    using ok c b q monitor_ok_turns [OF ok] unfolding restored_loop_def Let_def
    by (cases "wake_in_flight st \<and> wake_delivery st = Some DISPATCHED \<and> 0 < completion_evidence_deadline st";
        cases "wake_in_flight st") (simp_all add: ok_defs)
  show "0 < l_next_due_ts (restored_loop now l st)"
    using b q by (auto simp: restored_loop_def Let_def staging_defs)
  show "l_id (restored_loop now l st) = l_id l"
    by (simp add: restored_loop_def Let_def)
qed

lemma restore_monitor_ok:
  assumes s: "service_ok s" and now: "0 \<le> now"
  shows "service_ok (fst (restore_monitor_after_failed_session_close mid now adm t w s))"
  unfolding restore_monitor_after_failed_session_close_def
proof (rule monitor_op_ok [OF s], goal_cases)
  case (1 l st)
  note f = 1(1) and id = 1(2) and m = 1(3) and ok = 1(4)
  have p: "service_ok (fst (persist_staged_monitor w l (restored_loop now l st)
      (\<lambda>s. if tick_wired s then arm_from_deadline t mid s else s) (Some (restored_loop now l st)) s))"
    if "outcome st = Some OUT_SESSION_CLOSE"
    using restored_loop_ok [OF ok that now] id
    by (intro persist_ok [OF s f]) (auto intro: arm_timers_only)
  show ?case
    using s p by simp
qed

lemma final_stop_swapped:
  "set_monitor_deadline t (settle x r u l) = settle x r u (set_monitor_deadline t l)"
  by (cases "l_monitor l") (simp_all add: staging_defs)

lemma deactivate_ok:
  assumes s: "service_ok s" and now: "0 \<le> now"
  shows "service_ok (fst (deactivate_unwired_monitor mid now w s))"
  unfolding deactivate_unwired_monitor_def
proof (rule monitor_op_ok [OF s], goal_cases)
  case (1 l st)
  then show ?case
    unfolding Let_def
    by (intro persist_ok [OF s 1(1)] final_stop_ok [OF 1(4) now]) simp_all
qed

lemma drop_accepted_ok: "service_ok s \<Longrightarrow> service_ok (drop_accepted mid fp s)"
proof -
  assume s: "service_ok s"
  have "l_id l = k \<and> loop_ok l"
    if "dict_get (loops s) k = Some l" for k l
    using service_ok_loop [OF s that] by simp
  moreover have "loops (drop_accepted mid fp s) = loops s" "disk (drop_accepted mid fp s) = disk s"
    by (simp_all add: drop_accepted_def)
  ultimately show ?thesis using s unfolding service_ok_def by presburger
qed

lemma drop_accepted_get:
  "dict_get (accepted (drop_accepted mid fp s)) mid \<noteq> Some fp"
  "find_monitor (drop_accepted mid fp s) k = find_monitor s k"
  by (simp_all add: drop_accepted_def find_monitor_def)


lemma claims_version:
  "monitor_ok l st \<Longrightarrow> claims st fp \<Longrightarrow> version st = MONITOR_STATE_VERSION"
  by (auto simp: monitor_ok_def claims_def)

lemma live_version: "monitor_ok l st \<Longrightarrow> outcome st = None \<Longrightarrow> version st = MONITOR_STATE_VERSION"
  by (auto simp: monitor_ok_def)

lemma mark_monitor_action_ok:
  assumes s: "service_ok s"
  shows "service_ok (fst (mark_monitor_action_in_flight mid fp now t w s))"
proof (cases "fp = [] \<or> now < 0")
  case True
  with s show ?thesis by (auto simp: mark_monitor_action_in_flight_def)
next
  case False
  then have fp: "fp \<noteq> []" and now: "0 \<le> now" by simp_all
  have "service_ok (fst (case find_monitor s mid of
        None \<Rightarrow> (s, Inr False)
      | Some (l, st) \<Rightarrow>
          if \<not> l_active l \<or> outcome st \<noteq> None \<or> wake_in_flight st \<or> last_wake_fingerprint st = fp
          then (s, Inr False)
          else if monitor_budget_reason st now \<noteq> [] then
            persist_staged_monitor w l (apply_monitor_budget_stop s (monitor_budget_reason st now) now l st)
              (sync_if_stopped t mid) False s
          else persist_staged_monitor w l
              (put_monitor l (st\<lparr>last_wake_fingerprint := fp, wake_in_flight := True, wake_delivery := None\<rparr>))
              (sync_if_stopped t mid) True s))"
  proof (rule monitor_op_ok [OF s], goal_cases)
    case (1 l st)
    note f = 1(1) and id = 1(2) and ok = 1(4)
    have budget: "loop_ok (apply_monitor_budget_stop s r now l st)"
      if "outcome st = None" for r
      unfolding apply_monitor_budget_stop_def
      by (rule retained_stop_ok [OF ok that]) (use id now in \<open>simp_all add: TERMINAL_WAITS_def\<close>)
    have claim: "loop_ok
        (put_monitor l (st\<lparr>last_wake_fingerprint := fp, wake_in_flight := True, wake_delivery := None\<rparr>))"
      if "outcome st = None" "\<not> wake_in_flight st" "monitor_budget_reason st now = []"
      by (rule claim_ok(1) [OF ok that(1,2) fp]) (use that(3) in \<open>simp add: budget_reason_empty\<close>)
    show ?case
      using s id budget claim by (auto intro!: persist_ok [OF s f] sync_if_timers_only)
  qed
  with fp now show ?thesis by (simp add: mark_monitor_action_in_flight_def)
qed

lemma dispatch_failure_ok:
  assumes s0: "service_ok s" and now: "0 \<le> now"
  shows "service_ok (fst (record_monitor_dispatch_failure mid fp now w s))"
proof -
  let ?s = "drop_accepted mid fp s"
  have s: "service_ok ?s" using s0 by (rule drop_accepted_ok)
  show ?thesis
    unfolding record_monitor_dispatch_failure_def Let_def
  proof (rule monitor_op_ok [OF s], goal_cases)
    case (1 l st)
    note f = 1(1) and id = 1(2) and ok = 1(4)
    have stop: "loop_ok
        (set_monitor_deadline 0 (settle OUT_TARGET_UNAVAILABLE MONITOR_STOP_SESSION_UNAVAILABLE now
           (put_monitor l (st\<lparr>wake_in_flight := False, wake_delivery := Some UNAVAILABLE,
              completion_evidence_deadline := 0\<rparr>))))"
      if "claims st fp"
      using final_stop_ok [OF ok now, of OUT_TARGET_UNAVAILABLE MONITOR_STOP_SESSION_UNAVAILABLE "Some UNAVAILABLE"]
        claims_version [OF ok that]
      by simp
    show ?case
      using s stop by (auto simp: id intro!: persist_ok [OF s f])
  qed
qed

lemma mark_accepted_ok:
  assumes s: "service_ok s"
  shows "service_ok (mark_monitor_turn_accepted mid fp s)"
proof (cases "find_monitor s mid")
  case None
  with s show ?thesis by (simp add: mark_monitor_turn_accepted_def)
next
  case (Some p)
  obtain l st where p: "find_monitor s mid = Some (l, st)" using Some by (cases p) simp
  show ?thesis
  proof (cases "l_active l \<and> outcome st = None \<and> claims st fp")
    case False
    with p have "mark_monitor_turn_accepted mid fp s = s"
      unfolding mark_monitor_turn_accepted_def by (simp only: option.case prod.case if_False)
    with s show ?thesis by simp
  next
    case True
    let ?s = "s\<lparr>accepted := dict_set mid fp (accepted s)\<rparr>"
    from service_ok_get [OF s p] have ok: "monitor_ok l st" by simp
    have l: "dict_get (loops s) mid = Some l" "l_monitor l = Some st" using p by (simp_all add: find_monitor_Some)
    have "loops ?s = loops s" "disk ?s = disk s" by simp_all
    then have "service_ok ?s" using s unfolding service_ok_def by presburger
    with True p show ?thesis by (simp add: mark_monitor_turn_accepted_def)
  qed
qed

lemma charged_deadline_ok:
  assumes ok: "monitor_ok l st" and cl: "claims st (c_fingerprint c)" and now: "0 \<le> c_completed_ts c"
    and t: "0 \<le> t" "l_active l \<longrightarrow> 0 < t"
  shows "loop_ok (set_monitor_deadline t (put_monitor l (charge c disp st)))"
  using assms claims_version [OF ok cl] by (simp add: ok_defs charge_def)

lemma charge_frame [simp]:
  "outcome (charge c disp st) = outcome st" "cadence_secs (charge c disp st) = cadence_secs st"
  "wake_in_flight (charge c disp st) = False" "wake_delivery (charge c disp st) = None"
  "completion_evidence_deadline (charge c disp st) = 0" "agent_turns (charge c disp st) = agent_turns st + 1"
  "last_wake_fingerprint (charge c disp st) = last_wake_fingerprint st"
  by (simp_all add: charge_def)

lemma charge_settled:
  "charge c disp st\<lparr>wake_in_flight := False, wake_delivery := None, completion_evidence_deadline := 0\<rparr> = charge c disp st"
  by (rule monitor_state.equality) (simp_all add: charge_def)

lemma charged_budget_stop:
  "dict_get (accepted s) (l_id l) \<noteq> Some (last_wake_fingerprint st) \<Longrightarrow> apply_monitor_budget_stop s r now l (charge c disp st) =
     settle OUT_BUDGET r now (set_monitor_deadline 0 (put_monitor l (charge c disp st)))"
  by (simp only: apply_monitor_budget_stop_def retain_accepted_terminal_completion_def charge_settled charge_frame
      simp_thms if_True)

lemma stage_completion_id [simp]: "l_id (stage_completion s c l st) = l_id l"
  by (simp add: stage_completion_def Let_def)

lemma stage_completion_ok:
  assumes ok: "monitor_ok l st" and cl: "claims st (c_fingerprint c)" and now: "0 \<le> c_completed_ts c"
    and acc: "dict_get (accepted s) (l_id l) \<noteq> Some (c_fingerprint c)"
  shows "loop_ok (stage_completion s c l st)"
proof -
  have ver: "version st = MONITOR_STATE_VERSION" by (rule claims_version [OF ok cl])
  have acc': "dict_get (accepted s) (l_id l) \<noteq> Some (last_wake_fingerprint st)" using acc cl by (simp add: claims_def)
  have q: "0 < c_completed_ts c + of_int (cadence_secs st)"
    by (rule later_pos [OF now monitor_ok_cadence [OF ok]])
  have stop: "loop_ok (settle x r (c_completed_ts c) (set_monitor_deadline 0 (put_monitor l (charge c d st))))" for x r d
    using ok cl now ver by (simp add: ok_defs charge_def)
  have terminal: "loop_ok (set_monitor_deadline 0 (put_monitor l (charge c d st)))" if "outcome st \<noteq> None" for d
    using that ok by (intro charged_deadline_ok [OF ok cl now]) (simp_all add: monitor_ok_def)
  have idle: "loop_ok (put_monitor l (charge c d st))" if "\<not> l_active l" for d
    using that ok cl now ver by (simp add: ok_defs charge_def)
  have later: "loop_ok (set_monitor_deadline (c_completed_ts c + of_int (cadence_secs st)) (put_monitor l (charge c d st)))" for d
    using q by (intro charged_deadline_ok [OF ok cl now]) simp_all
  show ?thesis
    unfolding stage_completion_def Let_def charged_budget_stop [OF acc']
    using terminal idle by (auto simp: stop later)
qed

lemma live_due:
  "service_ok s \<Longrightarrow> dict_get (loops s) mid = Some l \<Longrightarrow> l_monitor l = Some st \<Longrightarrow> l_active l \<Longrightarrow>
   \<not> wake_in_flight st \<Longrightarrow> 0 < l_next_due_ts l"
  using service_ok_loop [of s mid l] by (simp add: loop_ok_def monitor_ok_def)

text \<open>The bookkeeping that ends several operations: sync a stopped loop, re-arm a live one.\<close>

lemma sync_then_arm_timers_only:
  assumes s: "service_ok s" and due: "\<And>l. dict_get (loops s) mid = Some l \<Longrightarrow> P l \<Longrightarrow> 0 < l_next_due_ts l"
    and arm: "\<And>s' l. timers_only s s' \<Longrightarrow> go s' \<Longrightarrow> dict_get (loops s) mid = Some l \<Longrightarrow> P l"
  shows "timers_only s (let s1 = sync_if_stopped t mid s in if go s1 then arm_or_defer t mid s1 else s1)"
proof -
  let ?s1 = "sync_if_stopped t mid s"
  have t1: "timers_only s ?s1" by (rule sync_if_timers_only [OF s])
  have "timers_only ?s1 (arm_or_defer t mid ?s1)" if "go ?s1"
    by (rule arm_or_defer_timers_only) (use t1 arm [OF t1 that] due in \<open>simp add: timers_only_def\<close>)
  with t1 show ?thesis unfolding Let_def by (auto intro: timers_only_trans)
qed

lemma timers_only_live: "timers_only s s' \<Longrightarrow> live_in s' mid = live_in s mid \<and> active_in s' mid = active_in s mid"
  by (simp add: timers_only_def live_in_def active_in_def find_monitor_def)

lemma stage_completion_idle:
  "l_monitor (stage_completion s c l st) = Some st' \<Longrightarrow> outcome st' = None \<Longrightarrow> \<not> wake_in_flight st'"
  by (auto simp: stage_completion_def Let_def apply_monitor_budget_stop_def staging_defs charge_def
      split: if_splits)

lemma completion_ok:
  assumes s0: "service_ok s" and now: "0 \<le> c_completed_ts c"
  shows "service_ok (fst (record_monitor_turn_completion c t w s))"
proof -
  let ?mid = "c_monitor_id c"
  let ?s = "drop_accepted ?mid (c_fingerprint c) s"
  have s: "service_ok ?s" using s0 by (rule drop_accepted_ok)
  show ?thesis
    unfolding record_monitor_turn_completion_def Let_def
  proof (rule monitor_op_ok [OF s], goal_cases)
    case (1 l st)
    note f = 1(1) and id = 1(2) and m = 1(3) and ok = 1(4)
    let ?staged = "stage_completion ?s c l st"
    show ?case
    proof (cases "claims st (c_fingerprint c)")
      case False
      with s show ?thesis by simp
    next
      case True
      from stage_completion_ok [OF ok True now, of ?s] drop_accepted_get(1) id
      have staged: "loop_ok ?staged" "l_id ?staged = ?mid" by simp_all
      have "timers_only s' (let s1 = sync_if_stopped t ?mid s' in
          if live_in s1 ?mid then arm_or_defer t ?mid s1 else s1)"
        if s': "service_ok s'" "dict_get (loops s') ?mid = Some ?staged" for s'
      proof (rule sync_then_arm_timers_only [OF s'(1), where P = "\<lambda>l. live_in s' ?mid"])
        fix l' assume "dict_get (loops s') ?mid = Some l'" "live_in s' ?mid"
        with s'(2) obtain st' where st': "l_monitor ?staged = Some st'" "l_active ?staged" "outcome st' = None"
          and l': "l' = ?staged"
          by (auto simp: live_in_def find_monitor_def split: option.splits)
        from live_due [OF s' st'(1,2) stage_completion_idle [OF st'(1,3)]] show "0 < l_next_due_ts l'"
          by (simp add: l')
      qed (simp add: timers_only_live)
      then show ?thesis
        using True staged unfolding Let_def by (auto intro!: persist_ok [OF s f])
    qed
  qed
qed

lemma dispatch_busy_ok:
  assumes s0: "service_ok s" and now: "0 \<le> now"
  shows "service_ok (fst (record_monitor_dispatch_busy mid fp now t w s))"
proof -
  let ?s = "drop_accepted mid fp s"
  have s: "service_ok ?s" using s0 by (rule drop_accepted_ok)
  show ?thesis
    unfolding record_monitor_dispatch_busy_def Let_def
  proof (rule monitor_op_ok [OF s], goal_cases)
    case (1 l st)
    note f = 1(1) and id = 1(2) and ok = 1(4)
    show ?case
    proof (cases "l_active l \<and> claims st fp")
      case False
      with s show ?thesis by auto
    next
      case True
      let ?busy = "set_monitor_deadline (now + of_int (min MONITOR_BUSY_RETRY_SECS (cadence_secs st)))
        (put_monitor l (st\<lparr>wake_delivery := Some BUSY, completion_evidence_deadline := 0\<rparr>))"
      let ?staged = "if monitor_budget_reason st now \<noteq> []
        then apply_monitor_budget_stop ?s (monitor_budget_reason st now) now l st else ?busy"
      have live: "outcome st = None" using ok True by (auto simp: monitor_ok_def)
      have b: "0 < now + of_int (min MONITOR_BUSY_RETRY_SECS (cadence_secs st))"
        by (rule later_pos [OF now busy_delay_pos [OF monitor_ok_cadence [OF ok]]])
      have busy: "loop_ok ?busy"
        using ok live b True by (simp add: ok_defs)
      have budget: "loop_ok (apply_monitor_budget_stop ?s r now l st)" for r
        unfolding apply_monitor_budget_stop_def
        by (rule retained_stop_ok [OF ok live]) (use id now in \<open>simp_all add: TERMINAL_WAITS_def\<close>)
      have staged: "loop_ok ?staged" "l_id ?staged = mid"
        using busy budget id by auto
      have due: "0 < l_next_due_ts ?staged" if "l_active ?staged"
      proof (cases "monitor_budget_reason st now = []")
        case True
        with b show ?thesis by (simp add: staging_defs)
      next
        case False
        with that show ?thesis by (simp add: apply_monitor_budget_stop_def settle_def)
      qed
      have "timers_only s' (let s1 = sync_if_stopped t mid s' in
          if active_in s1 mid then arm_or_defer t mid s1 else s1)"
        if s': "service_ok s'" "dict_get (loops s') mid = Some ?staged" for s'
        by (rule sync_then_arm_timers_only [OF s'(1), where P = l_active])
          (use s'(2) due in \<open>auto simp: timers_only_def active_in_def\<close>)
      with True staged show ?thesis
        unfolding Let_def by (simp only: if_False simp_thms) (rule persist_ok [OF s f])
    qed
  qed
qed

lemma dispatched_ok:
  assumes s: "service_ok s" and now: "0 \<le> now"
  shows "service_ok (fst (record_monitor_dispatched mid fp now t w s))"
  unfolding record_monitor_dispatched_def Let_def
proof (rule monitor_op_ok [OF s], goal_cases)
  case (1 l st)
  note f = 1(1) and id = 1(2) and ok = 1(4)
  let ?deadline = "now + MONITOR_COMPLETION_EVIDENCE_TIMEOUT_SECS"
  have pos: "0 < ?deadline" using now by (simp add: MONITOR_COMPLETION_EVIDENCE_TIMEOUT_SECS_def)
  have staged: "loop_ok (set_monitor_deadline ?deadline
      (put_monitor l (st\<lparr>wake_count := n, wake_delivery := Some DISPATCHED, completion_evidence_deadline := ?deadline\<rparr>)))"
    if "l_active l" "claims st fp" for n
    using ok that pos by (auto simp: ok_defs)
  have due: "0 < l_next_due_ts (set_monitor_deadline ?deadline l')" for l'
    using pos by (simp add: set_monitor_deadline_def)
  show ?case
    using s staged [of "wake_count st"] staged [of "wake_count st + 1"] due
    by (auto simp: id intro!: persist_ok [OF s f] arm_or_defer_timers_only)
qed

lemma evidence_unavailable_ok:
  assumes s: "service_ok s" and now: "0 \<le> now"
  shows "service_ok (fst (record_monitor_completion_evidence_unavailable mid fp now w s))"
  unfolding record_monitor_completion_evidence_unavailable_def
proof (rule monitor_op_ok [OF s], goal_cases)
  case (1 l st)
  note f = 1(1) and id = 1(2) and m = 1(3) and ok = 1(4)
  let ?s = "drop_accepted mid fp s"
  let ?st = "st\<lparr>wake_in_flight := False, wake_delivery := None, completion_evidence_deadline := 0\<rparr>"
  have s': "service_ok ?s" by (rule drop_accepted_ok [OF s])
  have f': "find_monitor ?s mid = Some (l, st)" using f by (simp add: drop_accepted_get)
  have ok': "monitor_ok l st" using service_ok_get [OF s' f'] by simp
  have blocked: "loop_ok (set_monitor_deadline 0
      (settle OUT_BLOCKED MONITOR_STOP_COMPLETION_UNAVAILABLE now (put_monitor l ?st)))"
    using final_stop_ok [OF ok' now] by blast
  have ended: "loop_ok (set_monitor_deadline 0 (put_monitor l ?st))"
    if "claims st fp" "outcome st \<noteq> None"
    using ok' that claims_version [OF ok' that(1)]
    by (simp add: ok_defs)
  show ?case
    unfolding Let_def
    using s blocked ended by (auto simp: id intro!: persist_ok [OF s' f'])
qed

section \<open>Arming and configuring\<close>

lemma patched_budgets_ok: "patched_budgets b patch = Inr b' \<Longrightarrow> budgets_ok b'"
  by (auto simp: patched_budgets_def MonitorBudgets_def res_simps)

text \<open>What the callers of \<open>update_monitor\<close> check of their arguments.\<close>

definition patch_ok :: "monitor_patch \<Rightarrow> bool" where
  "patch_ok p \<longleftrightarrow> p_target p \<noteq> Some [] \<and> p_objective p \<noteq> Some [] \<and>
     (case p_budgets p of None \<Rightarrow> True | Some b \<Rightarrow> budgets_ok b)"

lemma clamp_cadence_pos: "0 < clamp_cadence n"
  by (simp add: clamp_cadence_def MIN_IDLE_SECS_def)

lemma patch_cadence_ok:
  assumes ok: "monitor_ok l st" and live: "outcome st = None" and t: "0 \<le> t"
    and n: "tg \<noteq> []" "ob \<noteq> []" and l: "l_monitor l = Some st"
  obtains st' where "l_monitor (patch_cadence c t l (st\<lparr>target := tg, objective := ob\<rparr>)) = Some st'"
    and "monitor_ok (patch_cadence c t l (st\<lparr>target := tg, objective := ob\<rparr>)) st'"
    and "outcome st' = None" and "wake_in_flight st' = wake_in_flight st"
    and "l_id (patch_cadence c t l (st\<lparr>target := tg, objective := ob\<rparr>)) = l_id l"
    and "l_active (patch_cadence c t l (st\<lparr>target := tg, objective := ob\<rparr>)) = l_active l"
proof (cases c)
  case None
  show ?thesis
    by (rule that [of "st\<lparr>target := tg, objective := ob\<rparr>"])
      (use None ok live n in \<open>simp_all add: patch_cadence_def ok_defs\<close>)
next
  case (Some k)
  have q: "0 < t + of_int (clamp_cadence k)" by (rule later_pos [OF t clamp_cadence_pos])
  show ?thesis
  proof (cases "l_active l \<and> \<not> wake_in_flight st \<and> 0 < l_next_due_ts l")
    case True
    show ?thesis
      by (rule that [of "st\<lparr>target := tg, objective := ob, cadence_secs := clamp_cadence k,
            next_probe_at := t + of_int (clamp_cadence k)\<rparr>"])
        (use Some True ok live n q clamp_cadence_pos [of k] in \<open>simp_all add: patch_cadence_def ok_defs\<close>)
  next
    case False
    then have "patch_cadence c t l (st\<lparr>target := tg, objective := ob\<rparr>) =
        put_monitor (l\<lparr>l_idle_secs := clamp_cadence k\<rparr>)
          (st\<lparr>target := tg, objective := ob, cadence_secs := clamp_cadence k\<rparr>)"
      by (auto simp: Some patch_cadence_def Let_def)
    then show ?thesis
      by (intro that [of "st\<lparr>target := tg, objective := ob, cadence_secs := clamp_cadence k\<rparr>"])
        (use ok live n clamp_cadence_pos [of k] in \<open>simp_all add: ok_defs\<close>)
  qed
qed

lemma reconfigured_ok:
  assumes "monitor_ok l st" and "outcome st = None" and "budgets_ok b"
  shows "monitor_ok l (st\<lparr>m_budgets := b, wake_instructions := wi\<rparr>)"
    and "\<not> wake_in_flight st \<Longrightarrow> monitor_ok l (clear_baseline (st\<lparr>m_budgets := b, wake_instructions := wi\<rparr>))"
  using assms by (simp_all add: ok_defs clear_baseline_def)

lemma update_monitor_ok:
  assumes s: "service_ok s" and t: "0 \<le> t" and p: "patch_ok p"
  shows "service_ok (fst (update_monitor mid p t t' w s))"
proof (cases "p_budgets p \<noteq> None \<and> p_budget_patch p \<noteq> None")
  case True
  with s show ?thesis unfolding update_monitor_def by (simp only: if_True) simp
next
  case False
  show ?thesis
    unfolding update_monitor_def if_not_P [OF False] Let_def
  proof (rule monitor_op_ok [OF s], goal_cases)
    case (1 l st)
    note f = 1(1) and id = 1(2) and m = 1(3) and ok = 1(4)
    let ?l1 = "patch_cadence (p_cadence p) t l (st\<lparr>target := set_or_keep (p_target p) (target st),
      objective := set_or_keep (p_objective p) (objective st)\<rparr>)"
    let ?b = "case p_budget_patch p of Some patch \<Rightarrow> patched_budgets (m_budgets st) patch
      | None \<Rightarrow> Inr (set_or_keep (p_budgets p) (m_budgets st))"
    show ?case
    proof (cases "outcome st \<noteq> None \<or> resets_baseline p st \<and> wake_in_flight st")
      case True
      with s show ?thesis by auto
    next
      case False
      then have live: "outcome st = None" and quiet: "resets_baseline p st \<Longrightarrow> \<not> wake_in_flight st" by auto
      have so: "state_ok st" using ok by (simp add: monitor_ok_def)
      have names: "set_or_keep (p_target p) (target st) \<noteq> []" "set_or_keep (p_objective p) (objective st) \<noteq> []"
        using p so by (auto simp: patch_ok_def set_or_keep_def state_ok_def split: option.splits)
      from patch_cadence_ok [OF ok live t names m, of "p_cadence p"] obtain st' where
        l1: "l_monitor ?l1 = Some st'" "monitor_ok ?l1 st'" "outcome st' = None"
          "wake_in_flight st' = wake_in_flight st" "l_id ?l1 = l_id l" "l_active ?l1 = l_active l" by blast
      have bok: "budgets_ok b" if "?b = Inr b" for b
        using that p so patched_budgets_ok
        by (auto simp: patch_ok_def set_or_keep_def state_ok_def split: option.splits)
      show ?thesis
      proof (cases ?b)
        case (Inl e)
        with s False show ?thesis by simp
      next
        case (Inr b)
        let ?staged = "?l1\<lparr>l_monitor := map_option (\<lambda>st1.
             let st2 = st1\<lparr>m_budgets := b, wake_instructions := set_or_keep (p_wake_instructions p) (wake_instructions st1)\<rparr>
             in if resets_baseline p st then clear_baseline st2 else st2) (l_monitor ?l1)\<rparr>"
        have mok: "monitor_ok (l'\<lparr>l_monitor := x\<rparr>) y = monitor_ok l' y" for l' x y
          by (simp add: monitor_ok_def)
        have staged: "loop_ok ?staged" "l_id ?staged = mid"
          using reconfigured_ok [OF l1(2,3) bok [OF Inr]] l1 quiet id
          by (simp_all add: loop_ok_def mok Let_def)
        have due: "0 < l_next_due_ts ?staged" if "l_active l" "\<not> wake_in_flight st"
          using l1(2,4,6) that by (simp add: monitor_ok_def)
        show ?thesis
          using False Inr staged due unfolding Let_def
          by (auto intro!: persist_ok [OF s f] arm_timers_only)
      qed
    qed
  qed
qed

lemma values_set_fresh: "dict_get d k = None \<Longrightarrow> map snd (dict_set k v d) = map snd d @ [v]"
  by (induction d) (auto split: if_splits)

lemma values_del:
  "list_all (\<lambda>(k, l). l_id l = k) d \<Longrightarrow> map snd (dict_del mid d) = filter (\<lambda>c. l_id c \<noteq> mid) (map snd d)"
  by (induction d) auto

lemma forget_loop_present:
  assumes "service_ok s" and "dict_get (loops s) mid = Some l"
  shows "loops (forget_loop mid s) = dict_del mid (loops s)"
    and "accepted (forget_loop mid s) = dict_del mid (accepted s)"
    and "map snd (loops (forget_loop mid s)) = filter (\<lambda>c. l_id c \<noteq> mid) (map snd (loops s))"
proof -
  show loops: "loops (forget_loop mid s) = dict_del mid (loops s)"
    and "accepted (forget_loop mid s) = dict_del mid (accepted s)"
    using assms(2) by (simp_all add: forget_loop_def cancel_timer_def)
  have "l_id l = k" if "(k, l) \<in> set (loops s)" for k l
    using that assms(1) service_ok_loop [OF assms(1), of k l] by (simp add: service_ok_def dict_get_eq_Some)
  then have "list_all (\<lambda>(k, l). l_id l = k) (loops s)" by (auto simp: list_all_iff)
  from values_del [OF this] show "map snd (loops (forget_loop mid s)) = filter (\<lambda>c. l_id c \<noteq> mid) (map snd (loops s))"
    by (simp add: loops)
qed

text \<open>What the caller of \<open>add_monitor\<close> guarantees: valid budgets and an unused id.\<close>

definition arm_ok :: "arm_request \<Rightarrow> string \<Rightarrow> service \<Rightarrow> bool" where
  "arm_ok r new_id s \<longleftrightarrow> budgets_ok (a_budgets r) \<and> dict_get (loops s) new_id = None"

definition tab_ok :: "(service \<Rightarrow> string \<Rightarrow> loop option) \<Rightarrow> bool" where
  "tab_ok by_tab \<longleftrightarrow> (\<forall>s slot l. by_tab s slot = Some l \<longrightarrow> dict_get (loops s) (l_id l) = Some l)"

lemma find_by_slot_present:
  assumes "service_ok s" and "tab_ok by_tab" and "find_by_slot by_tab s slot = Some l"
  shows "dict_get (loops s) (l_id l) = Some l"
proof (cases "find (\<lambda>(k, l). l_slot_key l = slot) (loops s)")
  case None
  with assms(2,3) show ?thesis by (simp add: find_by_slot_def tab_ok_def)
next
  case (Some p)
  obtain k where p: "p = (k, l)" using Some assms(3) by (cases p) (simp add: find_by_slot_def)
  with Some have "(k, l) \<in> set (loops s)" by (auto simp: find_Some_iff in_set_conv_nth)
  with assms(1) have g: "dict_get (loops s) k = Some l" by (simp add: service_ok_def dict_get_eq_Some)
  with service_ok_loop [OF assms(1) g] show ?thesis by simp
qed

lemma armed_loop_ok:
  assumes "budgets_ok (a_budgets r)" "a_kind r \<noteq> []" "a_target r \<noteq> []" "a_objective r \<noteq> []" "0 \<le> created"
  shows "loop_ok (armed_loop r new_id created)" and "l_id (armed_loop r new_id created) = new_id"
    and "0 < l_next_due_ts (armed_loop r new_id created)"
proof -
  have q: "0 < created + of_int (clamp_cadence n)" for n by (rule later_pos [OF assms(5) clamp_cadence_pos])
  then show "loop_ok (armed_loop r new_id created)" "l_id (armed_loop r new_id created) = new_id"
    "0 < l_next_due_ts (armed_loop r new_id created)"
    using assms clamp_cadence_pos [of "a_cadence r"] q [of "a_cadence r"]
    by (simp_all add: armed_loop_def Let_def ok_defs fresh_monitor_def MONITOR_STATE_VERSION_def
        DEFAULT_MONITOR_AGENT_TURNS_def less_imp_le)
qed

lemma saved_ok: "service_ok s \<Longrightarrow> service_ok (s\<lparr>disk := map snd (loops s)\<rparr>)"
proof -
  assume s: "service_ok s"
  show "service_ok (s\<lparr>disk := map snd (loops s)\<rparr>)"
    by (rule saved_service_ok) (use s service_ok_loop [OF s] in \<open>simp_all add: service_ok_def\<close>)
qed

lemma inserted_ok:
  assumes s: "service_ok s'" and fresh: "dict_get (loops s') k = None"
    and l: "l_id l = k" "loop_ok l" and d: "d = map snd (loops s') @ [l]"
  shows "service_ok (s'\<lparr>disk := d, loops := dict_set k l (loops s')\<rparr>)"
proof (rule saved_service_ok)
  fix k' l'
  assume "dict_get (loops (s'\<lparr>disk := d, loops := dict_set k l (loops s')\<rparr>)) k' = Some l'"
  then show "l_id l' = k' \<and> loop_ok l'"
    using l fresh service_ok_loop [OF s, of k' l'] by (simp split: if_splits)
qed (use s in \<open>simp_all add: service_ok_def d values_set_fresh [OF fresh]\<close>)

lemma forget_loop_ok:
  assumes "service_ok s" and "dict_get (loops s) mid = Some l"
  shows "service_ok ((forget_loop mid s)\<lparr>disk := map snd (loops (forget_loop mid s))\<rparr>)"
proof -
  have "l_id l' = k \<and> loop_ok l'"
    if "dict_get (loops (forget_loop mid s)) k = Some l'" for k l'
    using that service_ok_loop [OF assms(1), of k l'] forget_loop_present(1,2) [OF assms] by (simp split: if_splits)
  moreover have "dict_wf (loops (forget_loop mid s))"
    using assms(1) forget_loop_present(1) [OF assms] by (simp add: service_ok_def)
  ultimately show ?thesis by (intro saved_service_ok) simp_all
qed

lemma add_monitor_ok:
  assumes s: "service_ok s" and arm: "arm_ok r new_id s" and tab: "tab_ok by_tab" and w: "w \<noteq> WriteCancelled"
  shows "service_ok (fst (add_monitor by_tab r new_id created t w s))"
proof (cases "snd (add_monitor by_tab r new_id created t w s)")
  case (Inl e)
  then have "fst (add_monitor by_tab r new_id created t w s) = s"
    using w by (auto simp: add_monitor_def Let_def split: if_splits write_outcome.splits)
  with s show ?thesis by simp
next
  case (Inr l)
  let ?e = "find_by_slot by_tab s (a_slot_key r)"
  let ?l = "armed_loop r new_id created"
  let ?kept = "filter (\<lambda>c. case ?e of None \<Rightarrow> True | Some e \<Rightarrow> l_id c \<noteq> l_id e) (map snd (loops s))"
  let ?base = "case ?e of None \<Rightarrow> s | Some e \<Rightarrow> forget_loop (l_id e) s"
  let ?s1 = "s\<lparr>disk := ?kept @ [?l]\<rparr>"
  let ?s2 = "case ?e of None \<Rightarrow> ?s1 | Some e \<Rightarrow> forget_loop (l_id e) ?s1"
  let ?s3 = "?s2\<lparr>loops := dict_set new_id ?l (loops ?s2)\<rparr>"
  have args: "a_kind r \<noteq> [] \<and> a_target r \<noteq> [] \<and> a_objective r \<noteq> [] \<and> 0 \<le> created"
    and res: "fst (add_monitor by_tab r new_id created t w s) = (if tick_wired ?s3 then arm_from_deadline t new_id ?s3 else ?s3)"
    using Inr by (auto simp: add_monitor_def Let_def split: if_splits write_outcome.splits)
  have "budgets_ok (a_budgets r)" using arm by (simp add: arm_ok_def)
  with args armed_loop_ok [of r created new_id]
  have l: "loop_ok ?l" "l_id ?l = new_id" "0 < l_next_due_ts ?l" by simp_all
  have base: "service_ok (?base\<lparr>disk := map snd (loops ?base)\<rparr>)" "map snd (loops ?base) = ?kept"
    "dict_get (loops ?base) new_id = None"
  proof -
    have e: "dict_get (loops s) (l_id e) = Some e" if "?e = Some e" for e
      by (rule find_by_slot_present [OF s tab that])
    show "service_ok (?base\<lparr>disk := map snd (loops ?base)\<rparr>)"
      using saved_ok [OF s] forget_loop_ok [OF s e] by (auto split: option.split)
    show "map snd (loops ?base) = ?kept"
      using forget_loop_present(3) [OF s e] by (auto split: option.split)
    show "dict_get (loops ?base) new_id = None"
      using arm forget_loop_present(1,2) [OF s e] by (auto simp: arm_ok_def split: option.split)
  qed
  have eq: "?s3 = (?base\<lparr>disk := map snd (loops ?base)\<rparr>)
      \<lparr>disk := map snd (loops ?base) @ [?l], loops := dict_set new_id ?l (loops ?base)\<rparr>"
    unfolding base(2) by (cases ?e) (simp_all add: forget_loop_def cancel_timer_def)
  have ok3: "service_ok ?s3"
    unfolding eq
    using inserted_ok [OF base(1) _ l(2,1), of "map snd (loops ?base) @ [?l]"] base(3) by simp
  have "timers_only ?s3 (arm_from_deadline t new_id ?s3)"
    by (rule arm_timers_only) (use l(3) in simp)
  with ok3 res show ?thesis using timers_only_ok by simp
qed

end
