(* ===== verification/Monitor_Timers.thy ===== *)
theory Monitor_Timers
  imports Monitor_Invariant
begin

text \<open>
  The timers of the scheduler as far as monitors use them: the turn hooks that pause and resume
  a countdown, the firing window of a monitor tick, the background write, start and stop, and
  the reconciler that rescues a loop left without a timer. The lemmas keep the service
  invariant; the theorems bound every armed delay and show the rescue.
\<close>

section \<open>Turn hooks\<close>

definition notify_approval_stalled ::
  "(service \<Rightarrow> string \<Rightarrow> loop option) \<Rightarrow> string \<Rightarrow> service \<Rightarrow> service" where
  "notify_approval_stalled by_tab slot s =
     (case find_by_slot by_tab s slot of
        None \<Rightarrow> s
      | Some l \<Rightarrow>
          if \<not> l_active l \<or> l_approval_stalled l then s
          else s\<lparr>loops := dict_set (l_id l) (l\<lparr>l_approval_stalled := True\<rparr>) (loops s),
                 persist_pending := True\<rparr>)"

definition notify_turn_complete ::
  "(service \<Rightarrow> string \<Rightarrow> loop option) \<Rightarrow> string \<Rightarrow> rat \<Rightarrow> service \<Rightarrow> service" where
  "notify_turn_complete by_tab slot t s =
     (case find_by_slot by_tab s slot of
        None \<Rightarrow> s
      | Some l \<Rightarrow> if \<not> l_active l then s else arm_or_defer t (l_id l) s)"

definition notify_user_input ::
  "(service \<Rightarrow> string \<Rightarrow> loop option) \<Rightarrow> string \<Rightarrow> service \<Rightarrow> service" where
  "notify_user_input by_tab slot s =
     (case find_by_slot by_tab s slot of
        None \<Rightarrow> s
      | Some l \<Rightarrow>
          let s = s\<lparr>candidates := removeAll (l_id l) (candidates s)\<rparr>
          in if l_id l \<in> set (firing s)
             then s\<lparr>rearm_pending := removeAll (l_id l) (rearm_pending s)\<rparr>
             else cancel_timer (l_id l) s)"

section \<open>The monitor branch of a timer\<close>

datatype timer_step = TimerReturns | TimerEvidence string | TimerDeactivates | TimerTicks

text \<open>What a timer that has slept its delay does.\<close>

definition timer_step :: "bool \<Rightarrow> string \<Rightarrow> service \<Rightarrow> timer_step" where
  "timer_step shutdown mid s =
     (if shutdown then TimerReturns
      else case find_monitor s mid of
        None \<Rightarrow> TimerReturns
      | Some (l, st) \<Rightarrow>
          let waiting = waits_for_terminal_completion l
          in if \<not> l_active l \<and> \<not> waiting then TimerReturns
             else if \<not> tick_wired s then
               (if waiting then TimerEvidence (last_wake_fingerprint st) else TimerDeactivates)
             else TimerTicks)"

text \<open>The firing window around \<open>_on_monitor_tick\<close>: opened before it, closed by the \<open>finally\<close>.\<close>

definition begin_tick :: "string \<Rightarrow> service \<Rightarrow> service" where
  "begin_tick mid s = s\<lparr>firing := List.insert mid (firing s), timers := dict_del mid (timers s)\<rparr>"

definition end_tick :: "string \<Rightarrow> rat \<Rightarrow> service \<Rightarrow> service" where
  "end_tick mid t s =
     (let s = s\<lparr>firing := removeAll mid (firing s), rearm_pending := removeAll mid (rearm_pending s)\<rparr>
      in case dict_get (loops s) mid of
           None \<Rightarrow> s
         | Some l \<Rightarrow>
             if (l_active l \<or> waits_for_terminal_completion l) \<and> 0 < l_next_due_ts l
             then arm_from_deadline t mid s else s)"

section \<open>Start, stop and the reconciler\<close>

definition start_timers :: "rat \<Rightarrow> service \<Rightarrow> service" where
  "start_timers t s = fold (arm_from_deadline t) (map l_id (filter l_active (map snd (loops s)))) s"

definition stop_service :: "service \<Rightarrow> service" where
  "stop_service s = s\<lparr>timers := [], candidates := [], accepted := [], quiescing := []\<rparr>"

text \<open>A loop a reconciler pass finds eligible and without a live timer.\<close>

definition stranded :: "service \<Rightarrow> loop \<Rightarrow> bool" where
  "stranded s l \<longleftrightarrow>
     (l_active l \<or> waits_for_terminal_completion l) \<and>
     l_id l \<notin> set (firing s) \<and> l_id l \<notin> set (quiescing s) \<and>
     (case l_monitor l of
        None \<Rightarrow> True
      | Some st \<Rightarrow> version st = MONITOR_STATE_VERSION \<and>
          \<not> (wake_in_flight st \<and> completion_evidence_deadline st \<le> 0 \<and> wake_delivery st \<noteq> Some BUSY)) \<and>
     l_id l \<notin> fst ` set (timers s)"

text \<open>\<open>locked\<close> says that a mutation holds the service lock when the pass starts.\<close>

definition reconcile_once :: "bool \<Rightarrow> rat \<Rightarrow> service \<Rightarrow> service" where
  "reconcile_once locked t s =
     (if locked then s
      else
        let found = map l_id (filter (stranded s) (map snd (loops s)))
        in (fold (arm_from_deadline t) (filter (\<lambda>i. i \<in> set (candidates s)) found) s)
             \<lparr>candidates := filter (\<lambda>i. i \<notin> set (candidates s)) found\<rparr>)"

section \<open>The invariant\<close>

lemma arm_from_deadline_cases:
  obtains (skip) "arm_from_deadline t mid s = s"
  | (armed) l d where "dict_get (loops s) mid = Some l" "0 < l_next_due_ts l"
      "arm_from_deadline t mid s = arm_timer mid d s"
  | (fresh) l d where "dict_get (loops s) mid = Some l" "l_next_due_ts l \<le> 0"
      "arm_from_deadline t mid s = arm_timer mid d
         (s\<lparr>loops := dict_set mid (set_monitor_deadline (t + of_int (l_idle_secs l)) l) (loops s),
            persist_pending := True\<rparr>)"
proof (cases "dict_get (loops s) mid")
  case None
  with skip show ?thesis by (simp add: arm_from_deadline_def)
next
  case (Some l)
  show ?thesis
  proof (cases "case l_monitor l of None \<Rightarrow> False | Some st \<Rightarrow> version st \<noteq> MONITOR_STATE_VERSION")
    case True
    with Some skip show ?thesis by (simp add: arm_from_deadline_def)
  next
    case False
    with Some show ?thesis
    proof (cases "l_next_due_ts l \<le> 0")
      case True
      with Some False show ?thesis by (intro fresh [OF Some True]) (simp add: arm_from_deadline_def Let_def)
    next
      case due: False
      with Some False show ?thesis by (intro armed [OF Some]) (simp_all add: arm_from_deadline_def Let_def)
    qed
  qed
qed

lemma settled_deadline [simp]: "settled_part (set_monitor_deadline t l) = settled_part l"
  by (simp add: settled_part_def set_monitor_deadline_def option.map_comp o_def)

lemma settled_stall [simp]: "settled_part (l\<lparr>l_approval_stalled := b\<rparr>) = settled_part l"
  by (simp add: settled_part_def)

lemma monitor_ok_stall: "monitor_ok (l\<lparr>l_approval_stalled := b\<rparr>) st = monitor_ok l st"
  by (simp add: monitor_ok_def)

text \<open>A change of one loop in memory only, invisible in its settled part.\<close>

lemma memory_change_ok:
  assumes s: "service_ok s" and g: "dict_get (loops s) mid = Some l"
    and l': "loop_ok l'" "l_id l' = mid" "settled_part l' = settled_part l"
  shows "service_ok (s\<lparr>loops := dict_set mid l' (loops s), persist_pending := p\<rparr>)"
proof -
  have "map settled_part (map snd (dict_set mid l' d)) = map settled_part (map snd d)"
    if "dict_get d mid = Some l" for d
    using that l'(3) by (induction d) (auto split: if_splits)
  from this [OF g] have "disk_ok (dict_set mid l' (loops s)) (disk s)"
    using s by (simp only: service_ok_def disk_ok_def)
  moreover have "dict_wf (dict_set mid l' (loops s))" using s by (simp add: service_ok_def)
  moreover have "l_id c = k \<and> loop_ok c"
    if "dict_get (dict_set mid l' (loops s)) k = Some c" for k c
    using that l'(1,2) service_ok_loop [OF s, of k c] by (simp split: if_splits)
  ultimately show ?thesis by (simp add: service_ok_def)
qed

lemma arm_timer_ok: "service_ok s \<Longrightarrow> service_ok (arm_timer mid d s)"
  by (simp add: service_ok_def arm_timer_def)

lemma arm_from_deadline_ok:
  assumes s: "service_ok s" and t: "0 \<le> t"
  shows "service_ok (arm_from_deadline t mid s)"
proof (cases rule: arm_from_deadline_cases [of t mid s])
  case skip
  with s show ?thesis by simp
next
  case (armed l d)
  with s show ?thesis by (simp add: arm_timer_ok)
next
  case (fresh l d)
  from service_ok_loop [OF s fresh(1)] have l: "l_id l = mid" "loop_ok l" by simp_all
  have "loop_ok (set_monitor_deadline (t + of_int (l_idle_secs l)) l)"
  proof (cases "l_monitor l")
    case None
    then show ?thesis by (simp add: loop_ok_def set_monitor_deadline_def)
  next
    case (Some st)
    with l have ok: "monitor_ok l st" by (simp add: loop_ok_def)
    then have "0 < t + of_int (l_idle_secs l)" using t by (intro later_pos) (simp_all add: monitor_ok_def)
    with Some ok fresh(2) show ?thesis by (auto simp: ok_defs)
  qed
  from memory_change_ok [OF s fresh(1) this] l show ?thesis
    by (simp add: fresh(3) arm_timer_ok)
qed

lemma service_frame_ok [intro]:
  "service_ok s \<Longrightarrow> loops s' = loops s \<Longrightarrow> disk s' = disk s \<Longrightarrow> service_ok s'"
  by (simp add: service_ok_def)

lemma arm_or_defer_ok: "service_ok s \<Longrightarrow> 0 \<le> t \<Longrightarrow> service_ok (arm_or_defer t mid s)"
  by (auto simp: arm_or_defer_def arm_from_deadline_ok defer_rearm_def)

lemma turn_complete_ok: "service_ok s \<Longrightarrow> 0 \<le> t \<Longrightarrow> service_ok (notify_turn_complete by_tab slot t s)"
  by (simp add: notify_turn_complete_def arm_or_defer_ok split: option.split)

lemma user_input_ok: "service_ok s \<Longrightarrow> service_ok (notify_user_input by_tab slot s)"
  by (auto simp: notify_user_input_def cancel_timer_def Let_def split: option.split)

lemma approval_stalled_ok:
  assumes s: "service_ok s" and tab: "tab_ok by_tab"
  shows "service_ok (notify_approval_stalled by_tab slot s)"
proof (cases "find_by_slot by_tab s slot")
  case None
  with s show ?thesis by (simp add: notify_approval_stalled_def)
next
  case (Some l)
  have g: "dict_get (loops s) (l_id l) = Some l" by (rule find_by_slot_present [OF s tab Some])
  from service_ok_loop [OF s g] have "loop_ok (l\<lparr>l_approval_stalled := True\<rparr>)"
    by (cases "l_monitor l") (simp_all add: loop_ok_def monitor_ok_stall)
  from memory_change_ok [OF s g this] s Some show ?thesis
    by (simp add: notify_approval_stalled_def)
qed

lemma begin_tick_ok: "service_ok s \<Longrightarrow> service_ok (begin_tick mid s)"
  by (auto simp: begin_tick_def)

lemma end_tick_ok: "service_ok s \<Longrightarrow> 0 \<le> t \<Longrightarrow> service_ok (end_tick mid t s)"
proof -
  assume s: "service_ok s" and t: "0 \<le> t"
  let ?s = "s\<lparr>firing := removeAll mid (firing s), rearm_pending := removeAll mid (rearm_pending s)\<rparr>"
  have "service_ok ?s" using s by auto
  with t show "service_ok (end_tick mid t s)"
    by (simp add: end_tick_def Let_def arm_from_deadline_ok split: option.split)
qed

lemma flush_pending_ok: "service_ok s \<Longrightarrow> service_ok (flush_pending s)"
  using saved_ok [of s] by (auto simp: flush_pending_def service_ok_def)

lemma fold_arm_ok: "service_ok s \<Longrightarrow> 0 \<le> t \<Longrightarrow> service_ok (fold (arm_from_deadline t) ks s)"
  by (induction ks arbitrary: s) (simp_all add: arm_from_deadline_ok)

lemma start_timers_ok: "service_ok s \<Longrightarrow> 0 \<le> t \<Longrightarrow> service_ok (start_timers t s)"
  by (simp add: start_timers_def fold_arm_ok)

lemma reconcile_ok: "service_ok s \<Longrightarrow> 0 \<le> t \<Longrightarrow> service_ok (reconcile_once locked t s)"
  by (auto simp: reconcile_once_def Let_def intro: fold_arm_ok)

lemma stop_service_ok: "service_ok s \<Longrightarrow> service_ok (stop_service s)"
proof -
  assume s: "service_ok s"
  have "l_id l = k \<and> loop_ok l" if "dict_get (loops s) k = Some l" for k l
    using service_ok_loop [OF s that] by auto
  with s show ?thesis by (simp add: service_ok_def stop_service_def)
qed

lemma remove_loop_ok:
  assumes s: "service_ok s" and t: "0 \<le> t"
  shows "service_ok (fst (remove_loop mid t w s))"
proof (cases "dict_get (loops s) mid")
  case None
  with s show ?thesis by (simp add: remove_loop_def)
next
  case (Some l)
  let ?s' = "forget_loop mid s"
  let ?s'' = "?s'\<lparr>loops := dict_set mid l (loops ?s')\<rparr>"
  have gone: "service_ok (?s'\<lparr>disk := map snd (loops ?s')\<rparr>)" by (rule forget_loop_ok [OF s Some])
  have fresh: "dict_get (loops ?s') mid = None"
    using forget_loop_present(1) [OF s Some] by simp
  have "loop_ok l" "l_id l = mid"
    using service_ok_loop [OF s Some] by auto
  from inserted_ok [OF gone _ this(2,1) refl] fresh
  have again: "service_ok (?s'\<lparr>disk := map snd (loops ?s') @ [l], loops := dict_set mid l (loops ?s')\<rparr>)" by simp
  have "mset (map snd (loops s)) = mset (map snd (loops ?s') @ [l])"
  proof -
    have "mset (map snd (dict_del mid d)) + {#l#} = mset (map snd d)" if "dict_wf d" "dict_get d mid = Some l" for d
      using that by (induction d) (auto split: if_splits simp: delete_idem dom_map_of_conv_image_fst)
    from this [OF _ Some] s show ?thesis
      using forget_loop_present(1) [OF s Some] by (simp add: service_ok_def)
  qed
  then have "mset (map settled_part (disk s)) = mset (map settled_part (map snd (loops ?s') @ [l]))"
    using s by (simp add: service_ok_def disk_ok_def mset_map del: map_map map_append mset_append)
  then have disk: "disk_ok (dict_set mid l (loops ?s')) (disk s)"
    using s unfolding disk_ok_def values_set_fresh [OF fresh] by (simp add: service_ok_def disk_ok_def)
  have "disk ?s'' = disk s" by (simp add: forget_loop_def cancel_timer_def)
  with again disk have "service_ok ?s''" by (simp add: service_ok_def)
  with gone t Some show ?thesis
    by (cases w) (simp_all add: remove_loop_def Let_def arm_from_deadline_ok)
qed

section \<open>Every stranded watch is rescued\<close>

text \<open>A loop the scheduler may arm, and the delay it has been armed with.\<close>

definition armable :: "string \<Rightarrow> int \<Rightarrow> service \<Rightarrow> bool" where
  "armable mid n s \<longleftrightarrow> (\<exists>l. dict_get (loops s) mid = Some l \<and> l_idle_secs l = n \<and> 0 < n \<and>
     (case l_monitor l of None \<Rightarrow> True | Some st \<Rightarrow> version st = MONITOR_STATE_VERSION))"

definition armed_within :: "string \<Rightarrow> rat \<Rightarrow> service \<Rightarrow> bool" where
  "armed_within mid bound s \<longleftrightarrow> (case dict_get (timers s) mid of None \<Rightarrow> False | Some d \<Rightarrow> 0 < d \<and> d \<le> bound)"

lemma arm_frame:
  "firing (arm_from_deadline t i s) = firing s" "quiescing (arm_from_deadline t i s) = quiescing s"
  "candidates (arm_from_deadline t i s) = candidates s" "accepted (arm_from_deadline t i s) = accepted s"
  "mid \<noteq> i \<Longrightarrow> dict_get (loops (arm_from_deadline t i s)) mid = dict_get (loops s) mid"
  "mid \<noteq> i \<Longrightarrow> dict_get (timers (arm_from_deadline t i s)) mid = dict_get (timers s) mid"
  by (cases rule: arm_from_deadline_cases [of t i s]; simp add: arm_timer_def)+

lemma fold_arm_frame:
  "firing (fold (arm_from_deadline t) ks s) = firing s" "quiescing (fold (arm_from_deadline t) ks s) = quiescing s"
  "mid \<notin> set ks \<Longrightarrow> dict_get (loops (fold (arm_from_deadline t) ks s)) mid = dict_get (loops s) mid"
  "mid \<notin> set ks \<Longrightarrow> dict_get (timers (fold (arm_from_deadline t) ks s)) mid = dict_get (timers s) mid"
  by (induction ks arbitrary: s) (simp_all add: arm_frame)

lemma arm_keeps_armable: "armable mid n s \<Longrightarrow> armable mid n (arm_from_deadline t i s)"
  by (cases rule: arm_from_deadline_cases [of t i s])
    (auto simp: armable_def arm_timer_def set_monitor_deadline_def option.case_eq_if option.map_sel)

lemma arm_arms: "armable mid n s \<Longrightarrow> armed_within mid (max OVERDUE_REARM_SECS (of_int n)) (arm_from_deadline t mid s)"
  by (auto simp: armable_def armed_within_def arm_from_deadline_def arm_timer_def Let_def OVERDUE_REARM_SECS_def
      set_monitor_deadline_def min_def max_def split: option.splits)

lemma arm_keeps_armed:
  "armable mid n s \<Longrightarrow> armed_within mid (max OVERDUE_REARM_SECS (of_int n)) s \<Longrightarrow>
   armed_within mid (max OVERDUE_REARM_SECS (of_int n)) (arm_from_deadline t i s)"
  using arm_arms [of mid n s t] arm_frame(6) [where mid = mid and i = i and t = t and s = s] by (cases "i = mid") (auto simp: armed_within_def)

lemma fold_arms:
  "armable mid n s \<Longrightarrow> mid \<in> set ks \<or> armed_within mid (max OVERDUE_REARM_SECS (of_int n)) s \<Longrightarrow>
   armable mid n (fold (arm_from_deadline t) ks s) \<and>
   armed_within mid (max OVERDUE_REARM_SECS (of_int n)) (fold (arm_from_deadline t) ks s)"
proof (induction ks arbitrary: s)
  case (Cons k ks)
  have "armed_within mid (max OVERDUE_REARM_SECS (of_int n)) (arm_from_deadline t k s)" if "mid = k \<or> mid \<notin> set ks"
    using that Cons.prems arm_arms [OF Cons.prems(1)] arm_keeps_armed [OF Cons.prems(1)] by auto
  with Cons.IH [OF arm_keeps_armable [OF Cons.prems(1)]] show ?case by auto
qed simp

lemma pass_arms:
  assumes "armable mid n s"
    and "armed_within mid (max OVERDUE_REARM_SECS (of_int n)) s \<or>
      mid \<in> set (candidates s) \<and> dict_get (loops s) mid = Some l \<and> l_id l = mid \<and> stranded s l"
  shows "armed_within mid (max OVERDUE_REARM_SECS (of_int n)) (reconcile_once False t s) \<and>
    armable mid n (reconcile_once False t s)"
proof -
  let ?ks = "filter (\<lambda>i. i \<in> set (candidates s)) (map l_id (filter (stranded s) (map snd (loops s))))"
  have "mid \<in> set ?ks" if "mid \<in> set (candidates s)" "dict_get (loops s) mid = Some l" "l_id l = mid" "stranded s l"
  proof -
    have "l \<in> set (map snd (loops s))" using dict_get_Some_in_set [OF that(2)] by force
    with that show ?thesis by (auto intro!: image_eqI [where x = l])
  qed
  with assms fold_arms [OF assms(1), of ?ks t] show ?thesis
    by (auto simp: reconcile_once_def Let_def armed_within_def armable_def)
qed

lemma stranded_rescued:
  assumes "service_ok s" and "dict_get (loops s) mid = Some l" and "stranded s l" and "0 < l_idle_secs l"
  shows "armed_within mid (max OVERDUE_REARM_SECS (of_int (l_idle_secs l)))
    (reconcile_once False t' (reconcile_once False t s))"
proof -
  let ?s1 = "reconcile_once False t s" and ?n = "l_idle_secs l"
  let ?ks = "filter (\<lambda>i. i \<in> set (candidates s)) (map l_id (filter (stranded s) (map snd (loops s))))"
  have id: "l_id l = mid" using service_ok_loop [OF assms(1,2)] by simp
  have a: "armable mid ?n s"
    using assms(2-4) by (auto simp: armable_def stranded_def split: option.splits)
  show ?thesis
  proof (cases "mid \<in> set (candidates s)")
    case True
    with pass_arms [OF a, of l t] assms(2,3) id have "armed_within mid (max OVERDUE_REARM_SECS (of_int ?n)) ?s1"
      "armable mid ?n ?s1" by auto
    then show ?thesis using pass_arms by blast
  next
    case False
    then have k: "mid \<notin> set ?ks" by auto
    have same: "dict_get (loops ?s1) mid = Some l" "dict_get (timers ?s1) mid = dict_get (timers s) mid"
      "firing ?s1 = firing s" "quiescing ?s1 = quiescing s"
      using fold_arm_frame(1,2) [where t = t and ks = ?ks and s = s] fold_arm_frame(3,4) [OF k, where t = t and s = s] assms(2)
      by (simp_all add: reconcile_once_def Let_def)
    have "l \<in> set (map snd (loops s))" using dict_get_Some_in_set [OF assms(2)] by force
    with assms(3) False id have "mid \<in> set (candidates ?s1)"
      by (auto simp: reconcile_once_def Let_def intro!: image_eqI [where x = l])
    moreover have "stranded ?s1 l"
      using assms(3) same id unfolding stranded_def
      by (simp add: map_of_eq_None_iff [symmetric] del: map_of_eq_None_iff)
    moreover have "armable mid ?n ?s1" using a same(1) assms(2) by (simp add: armable_def)
    ultimately show ?thesis using pass_arms same(1) id by blast
  qed
qed

end
