(* ===== verification/Monitor_Runs.thy ===== *)
theory Monitor_Runs
  imports Monitor_Timers
begin

text \<open>
  The monitor service as a transition system: an \<open>action\<close> is one operation with what the outside
  chose for it, \<open>exec\<close> performs it, \<open>runs\<close> are the sequences of admissible actions. The theorems
  hold of every reachable state, whatever the interleaving and whichever disk writes failed or
  were cancelled; \<open>lifecycle\<close> is the abstract specification every action refines.

  An operation holds the lock while it waits for its disk write. The acceptance of a turn takes
  no lock, so it can fall into that wait: \<open>Raced a mid fp\<close> is the operation \<open>a\<close> whose write an
  acceptance overtakes.
\<close>

section \<open>Actions\<close>

datatype action =
    Probe string jobj observation rat int rat write_outcome
  | UserStop string rat string rat write_outcome
  | Retire string rat rat write_outcome
  | Restore string rat bool rat write_outcome
  | Unwire string rat write_outcome
  | Update string monitor_patch rat rat write_outcome
  | Claim string string rat rat write_outcome
  | Complete completion rat write_outcome
  | Fail string string rat write_outcome
  | Accept string string
  | Busy string string rat rat write_outcome
  | Sent string string rat rat write_outcome
  | Expire string string rat write_outcome
  | Arm arm_request string rat rat write_outcome
  | Remove string rat write_outcome
  | TurnComplete string rat
  | UserInput string
  | ApprovalStall string
  | BeginTick string
  | EndTick string rat
  | Flush
  | Start rat
  | Reconcile bool rat
  | Shutdown
  | Raced action string string

type_synonym tabs = "service \<Rightarrow> string \<Rightarrow> loop option"

text \<open>The actions that write the snapshot before they go on.\<close>

fun write_of :: "action \<Rightarrow> write_outcome option" where
  "write_of (Probe mid cn ob now gen t w) = Some w"
| "write_of (UserStop mid now r t w) = Some w"
| "write_of (Retire mid now t w) = Some w"
| "write_of (Restore mid now adm t w) = Some w"
| "write_of (Unwire mid now w) = Some w"
| "write_of (Update mid p t t' w) = Some w"
| "write_of (Claim mid fp now t w) = Some w"
| "write_of (Complete c t w) = Some w"
| "write_of (Fail mid fp now w) = Some w"
| "write_of (Busy mid fp now t w) = Some w"
| "write_of (Sent mid fp now t w) = Some w"
| "write_of (Expire mid fp now w) = Some w"
| "write_of (Arm r i created t w) = Some w"
| "write_of (Remove mid t w) = Some w"
| "write_of (Raced a mid fp) = write_of a"
| "write_of _ = None"

text \<open>
  What memory holds while the write runs: the records the operation started from, since a staged
  copy is published after its write; only a removal has taken its row out already.
\<close>

fun while_writing :: "action \<Rightarrow> service \<Rightarrow> service" where
  "while_writing (Remove mid t w) s = forget_loop mid s"
| "while_writing (Raced a mid fp) s = while_writing a s"
| "while_writing _ s = s"

text \<open>
  \<open>mark_monitor_turn_accepted\<close> during a write: it decides on the records \<open>seen\<close> then in memory, and
  the operation leaves its note alone when it goes on to \<open>s\<close>.
\<close>

definition accept_while_writing :: "service \<Rightarrow> string \<Rightarrow> string \<Rightarrow> service \<Rightarrow> service" where
  "accept_while_writing seen mid fp s =
     (case find_monitor seen mid of
        None \<Rightarrow> s
      | Some (l, st) \<Rightarrow>
          if l_active l \<and> outcome st = None \<and> claims st fp
          then s\<lparr>accepted := dict_set mid fp (accepted s)\<rparr> else s)"

lemma accept_between_writes: "mark_monitor_turn_accepted mid fp s = accept_while_writing s mid fp s"
  by (simp add: mark_monitor_turn_accepted_def accept_while_writing_def)

lemma accept_while_writing_frame [simp]:
  "loops (accept_while_writing u mid fp s) = loops s" "disk (accept_while_writing u mid fp s) = disk s"
  "tick_wired (accept_while_writing u mid fp s) = tick_wired s"
  by (simp_all add: accept_while_writing_def split: option.split prod.split)

lemma accept_while_writing_ok: "service_ok s \<Longrightarrow> service_ok (accept_while_writing u mid fp s)"
  by (simp add: service_ok_def)

text \<open>When the write changes nothing the acceptance looks at, it might as well come after it.\<close>

lemma accept_commutes:
  assumes "find_monitor (while_writing a s) mid = find_monitor s' mid"
  shows "accept_while_writing (while_writing a s) mid fp s' = mark_monitor_turn_accepted mid fp s'"
  by (simp add: accept_while_writing_def mark_monitor_turn_accepted_def assms)

fun exec :: "tabs \<Rightarrow> action \<Rightarrow> service \<Rightarrow> service" where
  "exec tab (Probe mid cn ob now gen t w) s = fst (apply_monitor_probe mid cn ob now gen t w s)"
| "exec tab (UserStop mid now r t w) s = fst (stop_monitor mid now r t w s)"
| "exec tab (Retire mid now t w) s = fst (retire_monitor_for_session_close mid now t w s)"
| "exec tab (Restore mid now adm t w) s = fst (restore_monitor_after_failed_session_close mid now adm t w s)"
| "exec tab (Unwire mid now w) s = fst (deactivate_unwired_monitor mid now w s)"
| "exec tab (Update mid p t t' w) s = fst (update_monitor mid p t t' w s)"
| "exec tab (Claim mid fp now t w) s = fst (mark_monitor_action_in_flight mid fp now t w s)"
| "exec tab (Complete c t w) s = fst (record_monitor_turn_completion c t w s)"
| "exec tab (Fail mid fp now w) s = fst (record_monitor_dispatch_failure mid fp now w s)"
| "exec tab (Accept mid fp) s = mark_monitor_turn_accepted mid fp s"
| "exec tab (Busy mid fp now t w) s = fst (record_monitor_dispatch_busy mid fp now t w s)"
| "exec tab (Sent mid fp now t w) s = fst (record_monitor_dispatched mid fp now t w s)"
| "exec tab (Expire mid fp now w) s = fst (record_monitor_completion_evidence_unavailable mid fp now w s)"
| "exec tab (Arm r i created t w) s = fst (add_monitor tab r i created t w s)"
| "exec tab (Remove mid t w) s = fst (remove_loop mid t w s)"
| "exec tab (TurnComplete slot t) s = notify_turn_complete tab slot t s"
| "exec tab (UserInput slot) s = notify_user_input tab slot s"
| "exec tab (ApprovalStall slot) s = notify_approval_stalled tab slot s"
| "exec tab (BeginTick mid) s = begin_tick mid s"
| "exec tab (EndTick mid t) s = end_tick mid t s"
| "exec tab Flush s = flush_pending s"
| "exec tab (Start t) s = start_timers t s"
| "exec tab (Reconcile locked t) s = reconcile_once locked t s"
| "exec tab Shutdown s = stop_service s"
| "exec tab (Raced a mid fp) s = accept_while_writing (while_writing a s) mid fp (exec tab a s)"

text \<open>
  What the callers guarantee: clocks do not run below zero, observations and completions passed
  their constructors, stop reasons fit, patches and budgets are valid, an id is new, a write of
  \<open>add_monitor\<close> is shielded from cancellation, and only a scheduler without a controller unwires.
\<close>

fun admissible :: "action \<Rightarrow> service \<Rightarrow> bool" where
  "admissible (Probe mid cn ob now gen t w) s \<longleftrightarrow> observation_ok ob \<and> strict_json (JObj cn) \<and> 0 \<le> now"
| "admissible (UserStop mid now r t w) s \<longleftrightarrow> 0 \<le> now \<and> length r \<le> MAX_MONITOR_STOP_REASON_CHARS"
| "admissible (Retire mid now t w) s \<longleftrightarrow> 0 \<le> now"
| "admissible (Restore mid now adm t w) s \<longleftrightarrow> 0 \<le> now"
| "admissible (Unwire mid now w) s \<longleftrightarrow> 0 \<le> now \<and> \<not> tick_wired s"
| "admissible (Update mid p t t' w) s \<longleftrightarrow> 0 \<le> t \<and> patch_ok p"
| "admissible (Claim mid fp now t w) s \<longleftrightarrow> True"
| "admissible (Complete c t w) s \<longleftrightarrow> MonitorActionCompletion c = Inr c"
| "admissible (Fail mid fp now w) s \<longleftrightarrow> 0 \<le> now"
| "admissible (Accept mid fp) s \<longleftrightarrow> True"
| "admissible (Busy mid fp now t w) s \<longleftrightarrow> 0 \<le> now"
| "admissible (Sent mid fp now t w) s \<longleftrightarrow> 0 \<le> now"
| "admissible (Expire mid fp now w) s \<longleftrightarrow> 0 \<le> now"
| "admissible (Arm r i created t w) s \<longleftrightarrow> arm_ok r i s \<and> w \<noteq> WriteCancelled"
| "admissible (Remove mid t w) s \<longleftrightarrow> 0 \<le> t"
| "admissible (TurnComplete slot t) s \<longleftrightarrow> 0 \<le> t"
| "admissible (EndTick mid t) s \<longleftrightarrow> 0 \<le> t"
| "admissible (BeginTick mid) s \<longleftrightarrow> timer_step False mid s = TimerTicks"
| "admissible (Start t) s \<longleftrightarrow> 0 \<le> t"
| "admissible (Reconcile locked t) s \<longleftrightarrow> 0 \<le> t"
| "admissible (Raced a mid fp) s \<longleftrightarrow> admissible a s \<and> write_of a \<noteq> None"
| "admissible _ s \<longleftrightarrow> True"

inductive runs :: "tabs \<Rightarrow> service \<Rightarrow> action list \<Rightarrow> service \<Rightarrow> bool" for tab :: tabs where
  start: "runs tab s [] s"
| act: "runs tab s as s' \<Longrightarrow> admissible a s' \<Longrightarrow> runs tab s (as @ [a]) (exec tab a s')"

lemma exec_ok:
  assumes "service_ok s" and "tab_ok tab" and "admissible a s"
  shows "service_ok (exec tab a s)"
  using assms
  by (induction a) (simp_all add: accept_while_writing_ok apply_monitor_probe_ok stop_monitor_ok retire_monitor_ok restore_monitor_ok
      deactivate_ok update_monitor_ok mark_monitor_action_ok completion_ok dispatch_failure_ok mark_accepted_ok
      dispatch_busy_ok dispatched_ok evidence_unavailable_ok add_monitor_ok remove_loop_ok turn_complete_ok user_input_ok
      approval_stalled_ok begin_tick_ok end_tick_ok flush_pending_ok start_timers_ok reconcile_ok stop_service_ok
      MonitorActionCompletion_def res_simps)

lemma runs_ok: "runs tab s as s' \<Longrightarrow> service_ok s \<Longrightarrow> tab_ok tab \<Longrightarrow> service_ok s'"
  by (induction rule: runs.induct) (simp_all add: exec_ok)

text \<open>No operation wires or unwires the controller.\<close>

lemma wired_arm [simp]: "tick_wired (arm_from_deadline t mid s) = tick_wired s"
  by (cases rule: arm_from_deadline_cases [of t mid s]) (simp_all add: arm_timer_def)

lemma wired_fold_arm [simp]: "tick_wired (fold (arm_from_deadline t) ks s) = tick_wired s"
  by (induction ks arbitrary: s) simp_all

lemma wired_timers [simp]:
  "tick_wired (cancel_timer mid s) = tick_wired s" "tick_wired (defer_rearm mid s) = tick_wired s"
  "tick_wired (arm_or_defer t mid s) = tick_wired s"
  "tick_wired (sync_terminal_completion_timer t mid s) = tick_wired s"
  "tick_wired (sync_if_stopped t mid s) = tick_wired s" "tick_wired (drop_accepted mid fp s) = tick_wired s"
  "tick_wired (forget_loop mid s) = tick_wired s"
  by (simp_all add: cancel_timer_def defer_rearm_def arm_or_defer_def sync_terminal_completion_timer_def
      sync_if_stopped_def drop_accepted_def forget_loop_def split: option.split)

lemma wired_persist [simp]:
  "(\<And>s. tick_wired (finish s) = tick_wired s) \<Longrightarrow>
   tick_wired (fst (persist_staged_monitor w l staged finish r s)) = tick_wired s"
  by (cases w) (simp_all add: persist_staged_monitor_def apply_staged_monitor_def)

lemma wired_ops [simp]:
  "tick_wired (fst (apply_monitor_probe mid cn ob now gen t w s)) = tick_wired s"
  "tick_wired (fst (stop_monitor mid now r t w s)) = tick_wired s"
  "tick_wired (fst (retire_monitor_for_session_close mid now t w s)) = tick_wired s"
  "tick_wired (fst (restore_monitor_after_failed_session_close mid now adm t w s)) = tick_wired s"
  "tick_wired (fst (deactivate_unwired_monitor mid now w s)) = tick_wired s"
  "tick_wired (fst (mark_monitor_action_in_flight mid fp now t w s)) = tick_wired s"
  "tick_wired (fst (record_monitor_turn_completion c t w s)) = tick_wired s"
  "tick_wired (fst (record_monitor_dispatch_failure mid fp now w s)) = tick_wired s"
  "tick_wired (mark_monitor_turn_accepted mid fp s) = tick_wired s"
  "tick_wired (fst (record_monitor_dispatch_busy mid fp now t w s)) = tick_wired s"
  "tick_wired (fst (record_monitor_dispatched mid fp now t w s)) = tick_wired s"
  "tick_wired (fst (record_monitor_completion_evidence_unavailable mid fp now w s)) = tick_wired s"
  by (simp_all add: apply_monitor_probe_def stop_monitor_def retire_monitor_for_session_close_def
      restore_monitor_after_failed_session_close_def deactivate_unwired_monitor_def
      mark_monitor_action_in_flight_def record_monitor_turn_completion_def record_monitor_dispatch_failure_def
      mark_monitor_turn_accepted_def record_monitor_dispatch_busy_def record_monitor_dispatched_def
      record_monitor_completion_evidence_unavailable_def Let_def split: option.split prod.split)

lemma wired_update [simp]: "tick_wired (fst (update_monitor mid p t t' w s)) = tick_wired s"
  by (simp add: update_monitor_def Let_def split: option.split prod.split sum.split)

lemma wired_rows [simp]:
  "tick_wired (fst (add_monitor tab r i created t w s)) = tick_wired s"
  "tick_wired (fst (remove_loop mid t w s)) = tick_wired s"
  "tick_wired (notify_turn_complete tab slot t s) = tick_wired s"
  "tick_wired (notify_user_input tab slot s) = tick_wired s"
  "tick_wired (notify_approval_stalled tab slot s) = tick_wired s"
  "tick_wired (begin_tick mid s) = tick_wired s" "tick_wired (end_tick mid t s) = tick_wired s"
  "tick_wired (flush_pending s) = tick_wired s" "tick_wired (start_timers t s) = tick_wired s"
  "tick_wired (reconcile_once locked t s) = tick_wired s" "tick_wired (stop_service s) = tick_wired s"
  by (simp_all add: add_monitor_def remove_loop_def notify_turn_complete_def notify_user_input_def
      notify_approval_stalled_def begin_tick_def end_tick_def flush_pending_def start_timers_def
      reconcile_once_def stop_service_def Let_def split: option.split write_outcome.split)

lemma exec_wired: "tick_wired (exec tab a s) = tick_wired s"
  by (induction a) simp_all

definition idle_service :: service where
  "idle_service = \<lparr>loops = [], accepted = [], firing = [], rearm_pending = [], timers = [], disk = [],
     persist_pending = False, tick_wired = True, candidates = [], quiescing = []\<rparr>"

lemma idle_service_ok: "service_ok idle_service"
  by (simp add: service_ok_def disk_ok_def idle_service_def)

end
