(* ===== verification/Monitor_View.thy ===== *)
theory Monitor_View
  imports Monitor_Timers
begin

text \<open>
  Views of one monitor that the countdown cannot change. The locale states that contract and
  proves once that no timer bookkeeping shows through such a view and that a staged operation
  shows through the view of its own monitor only; the phases of the life cycle and the ledger of
  charged turns are its interpretations.
\<close>

definition monitor_view :: "(monitor_state option \<Rightarrow> 'v) \<Rightarrow> string \<Rightarrow> service \<Rightarrow> 'v" where
  "monitor_view view k s = view (case dict_get (loops s) k of None \<Rightarrow> None | Some l \<Rightarrow> l_monitor l)"

lemma view_frame [simp]:
  "monitor_view view k (s\<lparr>firing := a\<rparr>) = monitor_view view k s"
  "monitor_view view k (s\<lparr>rearm_pending := a\<rparr>) = monitor_view view k s"
  "monitor_view view k (s\<lparr>timers := b\<rparr>) = monitor_view view k s"
  "monitor_view view k (s\<lparr>disk := c\<rparr>) = monitor_view view k s"
  "monitor_view view k (s\<lparr>accepted := d\<rparr>) = monitor_view view k s"
  "monitor_view view k (s\<lparr>persist_pending := e\<rparr>) = monitor_view view k s"
  "monitor_view view k (s\<lparr>candidates := a\<rparr>) = monitor_view view k s"
  "monitor_view view k (s\<lparr>quiescing := a\<rparr>) = monitor_view view k s"
  by (simp_all add: monitor_view_def)

lemma view_found:
  "find_monitor s mid = Some (l, st) \<Longrightarrow> monitor_view view mid s = view (Some st)"
  by (simp add: find_monitor_Some monitor_view_def)

lemma view_published [simp]:
  "monitor_view view k (apply_staged_monitor l staged s) =
     (if k = l_id l then view (l_monitor staged) else monitor_view view k s)"
  by (simp add: monitor_view_def apply_staged_monitor_def)

locale schedule_blind =
  fixes view :: "monitor_state option \<Rightarrow> 'v"
  assumes blind: "view (map_option (\<lambda>st. st\<lparr>next_probe_at := t\<rparr>) m) = view m"
begin

lemma deadline [simp]: "view (l_monitor (set_monitor_deadline t l)) = view (l_monitor l)"
  using blind by (simp add: set_monitor_deadline_def)

lemma probe_at [simp]: "view (Some (st\<lparr>next_probe_at := t\<rparr>)) = view (Some st)"
  using blind [of t "Some st"] by simp

lemma arm [simp]: "monitor_view view k (arm_from_deadline t mid s) = monitor_view view k s"
  by (cases rule: arm_from_deadline_cases [of t mid s]) (simp_all add: monitor_view_def arm_timer_def)

lemma fold_arm [simp]: "monitor_view view k (fold (arm_from_deadline t) ks s) = monitor_view view k s"
  by (induction ks arbitrary: s) simp_all

lemma timer_ops [simp]:
  "monitor_view view k (cancel_timer mid s) = monitor_view view k s"
  "monitor_view view k (defer_rearm mid s) = monitor_view view k s"
  "monitor_view view k (arm_or_defer t mid s) = monitor_view view k s"
  "monitor_view view k (sync_terminal_completion_timer t mid s) = monitor_view view k s"
  "monitor_view view k (sync_if_stopped t mid s) = monitor_view view k s"
  "monitor_view view k (drop_accepted mid fp s) = monitor_view view k s"
  by (simp_all add: cancel_timer_def defer_rearm_def arm_or_defer_def sync_terminal_completion_timer_def
      sync_if_stopped_def drop_accepted_def split: option.split)

lemma hooks [simp]:
  "monitor_view view k (notify_turn_complete tab slot t s) = monitor_view view k s"
  "monitor_view view k (notify_user_input tab slot s) = monitor_view view k s"
  "monitor_view view k (begin_tick mid s) = monitor_view view k s"
  "monitor_view view k (end_tick mid t s) = monitor_view view k s"
  "monitor_view view k (flush_pending s) = monitor_view view k s"
  "monitor_view view k (start_timers t s) = monitor_view view k s"
  "monitor_view view k (reconcile_once locked t s) = monitor_view view k s"
  "monitor_view view k (stop_service s) = monitor_view view k s"
  by (simp_all add: notify_turn_complete_def notify_user_input_def begin_tick_def end_tick_def Let_def
      flush_pending_def start_timers_def reconcile_once_def stop_service_def split: option.split)

text \<open>A staged copy shows in its own view, once its write is durable.\<close>

lemma persisted:
  assumes "l_id l = mid" and "\<And>s. monitor_view view k (finish s) = monitor_view view k s"
  shows "monitor_view view k (fst (persist_staged_monitor w l staged finish r s)) =
    (if k = mid \<and> w \<noteq> WriteFailed then view (l_monitor staged) else monitor_view view k s)"
  using assms(1) by (cases w) (simp_all add: persist_staged_monitor_def assms(2))

end

end
