(* ===== verification/Monitor_Lifecycle.thy ===== *)
theory Monitor_Lifecycle
  imports Monitor_Runs Monitor_View
begin

text \<open>
  The life of one monitor, seen from outside, and that every operation of the service refines
  it: \<open>phase\<close> is the abstraction, \<open>lifecycle\<close> the allowed moves.
\<close>

section \<open>The abstract machine\<close>

datatype phase =
    NoMonitor
  | Watching
  | Owed string
  | Winding monitor_outcome string
  | Settled monitor_outcome

inductive lifecycle :: "phase \<Rightarrow> phase \<Rightarrow> bool" where
  stay: "lifecycle p p"
| armed: "lifecycle NoMonitor Watching"
| claimed: "fp \<noteq> [] \<Longrightarrow> lifecycle Watching (Owed fp)"
| ended: "lifecycle Watching (Settled x)"
| paid: "lifecycle (Owed fp) Watching"
| dropped: "lifecycle (Owed fp) (Settled x)"
| winds: "x \<in> set TERMINAL_WAITS \<Longrightarrow> lifecycle (Owed fp) (Winding x fp)"
| wound: "lifecycle (Winding x fp) (Settled x)"
| reopened: "lifecycle (Settled OUT_SESSION_CLOSE) Watching"
| resumed: "lifecycle (Winding OUT_SESSION_CLOSE fp) (Owed fp)"
| replaced: "p \<in> {Watching, Settled x} \<Longrightarrow> lifecycle p NoMonitor"

inductive_cases lifecycle_SettledE: "lifecycle (Settled x) p"
inductive_cases lifecycle_OwedE: "lifecycle (Owed fp) p"

lemma settled_is_final: "lifecycle (Settled x) p \<Longrightarrow> x \<noteq> OUT_SESSION_CLOSE \<Longrightarrow> p = Settled x \<or> p = NoMonitor"
  by (elim lifecycle_SettledE) auto

lemma owed_keeps_its_turn:
  "lifecycle (Owed fp) p \<Longrightarrow> p \<in> {Owed fp, Watching} \<union> range Settled \<union> (\<lambda>x. Winding x fp) ` set TERMINAL_WAITS"
  by (elim lifecycle_OwedE) auto

definition phase_of :: "monitor_state option \<Rightarrow> phase" where
  "phase_of m =
     (case m of
        None \<Rightarrow> NoMonitor
      | Some st \<Rightarrow>
          if wake_in_flight st
          then (case outcome st of None \<Rightarrow> Owed (last_wake_fingerprint st)
                                 | Some x \<Rightarrow> Winding x (last_wake_fingerprint st))
          else (case outcome st of None \<Rightarrow> Watching | Some x \<Rightarrow> Settled x))"

lemma phase_of_simps:
  "phase_of None = NoMonitor"
  "phase_of (Some st) =
     (if wake_in_flight st
      then (case outcome st of None \<Rightarrow> Owed (last_wake_fingerprint st)
                             | Some x \<Rightarrow> Winding x (last_wake_fingerprint st))
      else (case outcome st of None \<Rightarrow> Watching | Some x \<Rightarrow> Settled x))"
  by (simp_all add: phase_of_def)

abbreviation phase :: "string \<Rightarrow> service \<Rightarrow> phase" where
  "phase k s \<equiv> monitor_view phase_of k s"

interpretation phases: schedule_blind phase_of
proof
  show "phase_of (map_option (\<lambda>st. st\<lparr>next_probe_at := t\<rparr>) m) = phase_of m" for t m
    by (cases m) (simp_all add: phase_of_simps split: option.split)
qed

section \<open>Every operation refines it\<close>

text \<open>A staged copy moves its own monitor only.\<close>

lemma persist_lifecycle:
  assumes "find_monitor s mid = Some (l, st)" and "l_id l = mid"
    and "\<And>s. phase k (finish s) = phase k s"
    and "lifecycle (phase_of (Some st)) (phase_of (l_monitor staged))"
  shows "lifecycle (phase k s) (phase k (fst (persist_staged_monitor w l staged finish r s)))"
  using assms(4) view_found [OF assms(1), of phase_of] by (simp add: phases.persisted [OF assms(2,3)] lifecycle.stay)

lemma persist_dropped_lifecycle:
  assumes "find_monitor (drop_accepted mid fp s) mid = Some (l, st)" and "l_id l = mid"
    and "\<And>s. phase k (finish s) = phase k s"
    and "lifecycle (phase_of (Some st)) (phase_of (l_monitor staged))"
  shows "lifecycle (phase k s) (phase k (fst (persist_staged_monitor w l staged finish r (drop_accepted mid fp s))))"
  using persist_lifecycle [OF assms, of w r] by simp

lemma monitor_op_lifecycle:
  assumes "service_ok s"
    and "\<And>l st. find_monitor s mid = Some (l, st) \<Longrightarrow> l_id l = mid \<Longrightarrow> l_monitor l = Some st \<Longrightarrow>
           monitor_ok l st \<Longrightarrow> lifecycle (phase k s) (phase k (fst (f l st)))"
  shows "lifecycle (phase k s) (phase k (fst (case find_monitor s mid of None \<Rightarrow> (s, r) | Some (l, st) \<Rightarrow> f l st)))"
proof (cases "find_monitor s mid")
  case None
  then show ?thesis by (simp add: lifecycle.stay)
next
  case (Some p)
  obtain l st where p: "p = (l, st)" by (cases p)
  with Some have f: "find_monitor s mid = Some (l, st)" by simp
  have "l_monitor l = Some st" using f by (simp add: find_monitor_Some)
  with assms(2) [OF f] service_ok_get [OF assms(1) f] f show ?thesis by simp
qed

lemma settle_phase:
  "phase_of (l_monitor (settle x r t l)) =
     (case l_monitor l of None \<Rightarrow> NoMonitor
      | Some st \<Rightarrow> if wake_in_flight st then Winding x (last_wake_fingerprint st) else Settled x)"
  by (cases "l_monitor l") (simp_all add: settle_def phase_of_simps)

lemma put_phase [simp]: "l_monitor (put_monitor l st) = Some st"
  by (simp add: put_monitor_def)

lemma deadline_monitor:
  "l_monitor (set_monitor_deadline t l) = map_option (\<lambda>st. st\<lparr>next_probe_at := t\<rparr>) (l_monitor l)"
  by (simp add: set_monitor_deadline_def)

lemma retained_phase:
  "phase_of (l_monitor (settle x r t (retain_accepted_terminal_completion s u l st))) \<in>
     {Settled x} \<union> (if wake_in_flight st then {Winding x (last_wake_fingerprint st)} else {})"
  by (simp add: settle_phase retain_accepted_terminal_completion_def Let_def deadline_monitor)

lemma retained_move:
  assumes "outcome st = None" and "x \<in> set TERMINAL_WAITS"
  shows "lifecycle (phase_of (Some st)) (phase_of (l_monitor (settle x r t (retain_accepted_terminal_completion s u l st))))"
  using retained_phase [of x r t s u l st] assms
  by (auto simp: phase_of_simps intro: lifecycle.intros split: if_splits)

lemma waits_members: "OUT_BUDGET \<in> set TERMINAL_WAITS" "OUT_SESSION_CLOSE \<in> set TERMINAL_WAITS" "OUT_USER_STOP \<in> set TERMINAL_WAITS"
  by (simp_all add: TERMINAL_WAITS_def)

lemma budget_move:
  "outcome st = None \<Longrightarrow> lifecycle (phase_of (Some st)) (phase_of (l_monitor (apply_monitor_budget_stop s r t l st)))"
  by (simp add: apply_monitor_budget_stop_def retained_move waits_members)

lemma apply_decision_move:
  assumes "outcome st = None" "\<not> wake_in_flight st" "d = WAKE_ACTIONABLE \<Longrightarrow> o_fingerprint ob \<noteq> []"
  shows "lifecycle Watching (phase_of (l_monitor (apply_decision s ob now d l st)))"
proof (cases d)
  case STOP_BUDGET
  have "phase_of (Some st) = Watching" using assms by (simp add: phase_of_simps)
  with budget_move [OF assms(1), of s "monitor_budget_reason st now" now l] show ?thesis
    by (simp add: apply_decision_def STOP_BUDGET)
next
  case WAKE_ACTIONABLE
  with assms lifecycle.claimed [of "o_fingerprint ob"] show ?thesis
    by (simp add: apply_decision_def phase_of_simps)
qed (use assms in \<open>simp_all add: apply_decision_def settle_phase deadline_monitor phase_of_simps lifecycle.intros\<close>)

lemma probe_lifecycle:
  assumes s: "service_ok s" and ob: "observation_ok ob"
  shows "lifecycle (phase k s) (phase k (fst (apply_monitor_probe mid cn ob now gen t w s)))"
  unfolding apply_monitor_probe_def
proof (rule monitor_op_lifecycle [OF s], goal_cases)
  case (1 l st)
  note f = 1(1) and id = 1(2) and m = 1(3)
  have w: "o_fingerprint ob \<noteq> []" if "decide_monitor st ob now = WAKE_ACTIONABLE"
    using wake_has_fingerprint(1) [OF ob that] .
  show ?case
  proof (cases "l_active l \<and> outcome st = None \<and> config_generation st = gen \<and> \<not> wake_in_flight st")
    case True
    then show ?thesis
      unfolding Let_def using view_found [OF f]
      by (simp add: id) (intro persist_lifecycle [OF f id] phases.timer_ops; simp add: phase_of_simps apply_decision_move w)
  next
    case False
    have "lifecycle (phase k s) (phase k (fst (persist_staged_monitor w l
        (set_monitor_deadline (now + of_int (cadence_secs st)) l) (sync_if_stopped t mid) NO_CHANGE s)))"
      by (intro persist_lifecycle [OF f id]) (simp_all add: m lifecycle.stay)
    with False show ?thesis by (auto simp: lifecycle.stay)
  qed
qed

lemma stop_lifecycle:
  assumes s: "service_ok s"
  shows "lifecycle (phase k s) (phase k (fst (stop_monitor mid now r t w s)))"
    and "lifecycle (phase k s) (phase k (fst (retire_monitor_for_session_close mid now t w s)))"
proof -
  have reason: "phase_of (map_option (\<lambda>st. st\<lparr>user_stop_reason := r\<rparr>) m) = phase_of m" for m
    by (cases m) (simp_all add: phase_of_simps split: option.split)
  show "lifecycle (phase k s) (phase k (fst (stop_monitor mid now r t w s)))"
    unfolding stop_monitor_def
  proof (rule monitor_op_lifecycle [OF s], goal_cases)
    case (1 l st)
    show ?case
      unfolding Let_def apply_monitor_user_stop_def
      by (auto simp: 1(2) lifecycle.stay reason intro!: persist_lifecycle [OF 1(1)] retained_move waits_members)
  qed
  show "lifecycle (phase k s) (phase k (fst (retire_monitor_for_session_close mid now t w s)))"
    unfolding retire_monitor_for_session_close_def
  proof (rule monitor_op_lifecycle [OF s], goal_cases)
    case (1 l st)
    show ?case
      unfolding Let_def
      by (auto simp: 1(2) lifecycle.stay intro!: persist_lifecycle [OF 1(1)] retained_move waits_members)
  qed
qed

lemma restore_lifecycle:
  assumes s: "service_ok s"
  shows "lifecycle (phase k s) (phase k (fst (restore_monitor_after_failed_session_close mid now adm t w s)))"
  unfolding restore_monitor_after_failed_session_close_def
proof (rule monitor_op_lifecycle [OF s], goal_cases)
  case (1 l st)
  have "lifecycle (phase_of (Some st)) (phase_of (l_monitor (restored_loop now l st)))"
    if "outcome st = Some OUT_SESSION_CLOSE"
    using that by (simp add: restored_loop_def Let_def deadline_monitor phase_of_simps lifecycle.intros)
  then show ?case
    by (auto simp: 1(2) lifecycle.stay intro!: persist_lifecycle [OF 1(1)])
qed

lemma claim_lifecycle:
  assumes s: "service_ok s"
  shows "lifecycle (phase k s) (phase k (fst (mark_monitor_action_in_flight mid fp now t w s)))"
proof (cases "fp = [] \<or> now < 0")
  case True
  then show ?thesis by (auto simp: mark_monitor_action_in_flight_def lifecycle.stay)
next
  case False
  then have fp: "fp \<noteq> []" and now: "\<not> now < 0" by simp_all
  show ?thesis
    unfolding mark_monitor_action_in_flight_def if_not_P [OF fp] if_not_P [OF now]
  proof (rule monitor_op_lifecycle [OF s], goal_cases)
    case (1 l st)
    have claim: "lifecycle (phase_of (Some st)) (phase_of (l_monitor
        (put_monitor l (st\<lparr>last_wake_fingerprint := fp, wake_in_flight := True, wake_delivery := None\<rparr>))))"
      if "outcome st = None" "\<not> wake_in_flight st"
      using that fp by (simp add: phase_of_simps lifecycle.claimed)
    show ?case
      by (auto simp: 1(2) lifecycle.stay intro!: persist_lifecycle [OF 1(1)] budget_move claim)
  qed
qed

lemma stage_completion_move:
  assumes "wake_in_flight st"
  shows "lifecycle (phase_of (Some st)) (phase_of (l_monitor (stage_completion s c l st)))"
proof -
  define disp where "disp = (if l_approval_stalled l then ACT_APPROVAL_STALL else c_disposition c)"
  let ?st = "charge c disp st"
  have budget: "phase_of (l_monitor (apply_monitor_budget_stop s r now l ?st)) = Settled OUT_BUDGET" for r now
    using retained_phase [of OUT_BUDGET r now s now l ?st] by (simp add: apply_monitor_budget_stop_def)
  have put: "phase_of (Some ?st) = (case outcome st of None \<Rightarrow> Watching | Some x \<Rightarrow> Settled x)"
    by (simp add: phase_of_simps)
  have "phase_of (l_monitor (stage_completion s c l st)) \<in>
      (case outcome st of None \<Rightarrow> {Watching, Settled OUT_BUDGET, Settled OUT_BLOCKED} | Some x \<Rightarrow> {Settled x})"
    unfolding stage_completion_def Let_def disp_def [symmetric]
    by (simp add: budget put settle_phase deadline_monitor split: option.split)
  with assms show ?thesis
    by (auto simp: phase_of_simps intro: lifecycle.intros split: option.splits)
qed

lemma completion_lifecycle:
  assumes s: "service_ok s"
  shows "lifecycle (phase k s) (phase k (fst (record_monitor_turn_completion c t w s)))"
proof -
  let ?s = "drop_accepted (c_monitor_id c) (c_fingerprint c) s"
  have s': "service_ok ?s" using s by (rule drop_accepted_ok)
  have "lifecycle (phase k ?s) (phase k (fst (record_monitor_turn_completion c t w s)))"
    unfolding record_monitor_turn_completion_def Let_def
  proof (rule monitor_op_lifecycle [OF s'], goal_cases)
    case (1 l st)
    have "wake_in_flight st" if "claims st (c_fingerprint c)" using that by (simp add: claims_def)
    then show ?case
      by (auto simp: 1(2) lifecycle.stay intro!: persist_dropped_lifecycle [OF 1(1)] stage_completion_move)
  qed
  then show ?thesis by simp
qed

lemma failure_lifecycle:
  assumes s: "service_ok s"
  shows "lifecycle (phase k s) (phase k (fst (record_monitor_dispatch_failure mid fp now w s)))"
proof -
  let ?s = "drop_accepted mid fp s"
  have s': "service_ok ?s" using s by (rule drop_accepted_ok)
  have "lifecycle (phase k ?s) (phase k (fst (record_monitor_dispatch_failure mid fp now w s)))"
    unfolding record_monitor_dispatch_failure_def Let_def
  proof (rule monitor_op_lifecycle [OF s'], goal_cases)
    case (1 l st)
    have "lifecycle (phase_of (Some st)) (Settled x)" if "claims st fp" "outcome st = None" for x
      using that by (simp add: claims_def phase_of_simps lifecycle.dropped)
    then show ?case
      by (auto simp: 1(2) settle_phase lifecycle.stay intro!: persist_dropped_lifecycle [OF 1(1)])
  qed
  then show ?thesis by simp
qed

lemma busy_lifecycle:
  assumes s: "service_ok s"
  shows "lifecycle (phase k s) (phase k (fst (record_monitor_dispatch_busy mid fp now t w s)))"
proof -
  let ?s = "drop_accepted mid fp s"
  have s': "service_ok ?s" using s by (rule drop_accepted_ok)
  have "lifecycle (phase k ?s) (phase k (fst (record_monitor_dispatch_busy mid fp now t w s)))"
    unfolding record_monitor_dispatch_busy_def Let_def
  proof (rule monitor_op_lifecycle [OF s'], goal_cases)
    case (1 l st)
    have "outcome st = None" if "l_active l" using 1(4) that by (auto simp: monitor_ok_def)
    moreover have "phase_of (Some (st\<lparr>wake_delivery := x, completion_evidence_deadline := 0\<rparr>)) = phase_of (Some st)" for x
      by (simp add: phase_of_simps split: option.split)
    ultimately show ?case
      by (auto simp: 1(2) lifecycle.stay intro!: persist_dropped_lifecycle [OF 1(1)] budget_move)
  qed
  then show ?thesis by simp
qed

lemma sent_lifecycle:
  assumes s: "service_ok s"
  shows "lifecycle (phase k s) (phase k (fst (record_monitor_dispatched mid fp now t w s)))"
  unfolding record_monitor_dispatched_def Let_def
proof (rule monitor_op_lifecycle [OF s], goal_cases)
  case (1 l st)
  have "phase_of (Some (st\<lparr>wake_count := n, wake_delivery := x, completion_evidence_deadline := d\<rparr>)) = phase_of (Some st)"
    "phase_of (Some (st\<lparr>wake_delivery := x, completion_evidence_deadline := d\<rparr>)) = phase_of (Some st)" for n x d
    by (simp_all add: phase_of_simps split: option.split)
  then show ?case
    by (auto simp: 1(2) lifecycle.stay intro!: persist_lifecycle [OF 1(1)])
qed

lemma expire_lifecycle:
  assumes s: "service_ok s"
  shows "lifecycle (phase k s) (phase k (fst (record_monitor_completion_evidence_unavailable mid fp now w s)))"
  unfolding record_monitor_completion_evidence_unavailable_def
proof (rule monitor_op_lifecycle [OF s], goal_cases)
  case (1 l st)
  let ?s = "drop_accepted mid fp s"
  have f: "find_monitor ?s mid = Some (l, st)" using 1(1) by (simp add: drop_accepted_get)
  have expired: "lifecycle (phase k s) (phase k (fst (persist_staged_monitor w l staged (cancel_timer mid) () ?s)))"
    if "lifecycle (phase_of (Some st)) (phase_of (l_monitor staged))" for staged
    by (rule persist_dropped_lifecycle [OF f 1(2) _ that]) simp
  have ended: "lifecycle (phase_of (Some st)) (case outcome st of None \<Rightarrow> Settled y | Some x \<Rightarrow> Settled x)"
    if "claims st fp" for y
    using that by (auto simp: claims_def phase_of_simps lifecycle.dropped lifecycle.wound split: option.split)
  show ?case
    unfolding Let_def
    using ended by (auto simp: lifecycle.stay settle_phase phase_of_simps intro!: expired split: option.splits)
qed

lemma reconfigured_phase:
  "phase_of (Some (st\<lparr>m_budgets := b, wake_instructions := i\<rparr>)) = phase_of (Some st)"
  "phase_of (Some (st\<lparr>target := tg, objective := ob\<rparr>)) = phase_of (Some st)"
  "phase_of (Some (st\<lparr>target := tg, objective := ob, cadence_secs := n\<rparr>)) = phase_of (Some st)"
  "\<not> wake_in_flight st \<Longrightarrow> outcome st = None \<Longrightarrow> phase_of (Some (clear_baseline st)) = Watching"
  by (simp_all add: phase_of_simps clear_baseline_def split: option.split)

lemma patch_cadence_move:
  assumes "outcome st = None"
  obtains st' where "l_monitor (patch_cadence c t l (st\<lparr>target := tg, objective := ob\<rparr>)) = Some st'"
    and "phase_of (Some st') = phase_of (Some st)" and "outcome st' = None" and "wake_in_flight st' = wake_in_flight st"
proof (cases c)
  case None
  show ?thesis
    by (rule that [of "st\<lparr>target := tg, objective := ob\<rparr>"])
      (use None assms in \<open>simp_all add: patch_cadence_def reconfigured_phase\<close>)
next
  case (Some n)
  let ?l = "put_monitor (l\<lparr>l_idle_secs := clamp_cadence n\<rparr>) (st\<lparr>target := tg, objective := ob, cadence_secs := clamp_cadence n\<rparr>)"
  have "patch_cadence c t l (st\<lparr>target := tg, objective := ob\<rparr>) \<in> {?l, set_monitor_deadline (t + of_int (clamp_cadence n)) ?l}"
    using Some by (simp add: patch_cadence_def Let_def)
  moreover have "l_monitor ?l = Some (st\<lparr>target := tg, objective := ob, cadence_secs := clamp_cadence n,
      next_probe_at := next_probe_at st\<rparr>)"
    by simp
  ultimately obtain v where "l_monitor (patch_cadence c t l (st\<lparr>target := tg, objective := ob\<rparr>)) =
      Some (st\<lparr>target := tg, objective := ob, cadence_secs := clamp_cadence n, next_probe_at := v\<rparr>)"
    by (metis insertE emptyE deadline_monitor put_phase option.simps(9))
  then show ?thesis
    by (rule that) (use assms in \<open>simp_all add: reconfigured_phase\<close>)
qed

lemma update_lifecycle:
  assumes s: "service_ok s"
  shows "lifecycle (phase k s) (phase k (fst (update_monitor mid p t t' w s)))"
proof (cases "p_budgets p \<noteq> None \<and> p_budget_patch p \<noteq> None")
  case True
  then show ?thesis unfolding update_monitor_def by (simp only: if_True) (simp add: lifecycle.stay)
next
  case False
  show ?thesis
    unfolding update_monitor_def if_not_P [OF False] Let_def
  proof (rule monitor_op_lifecycle [OF s], goal_cases)
    case (1 l st)
    let ?l1 = "patch_cadence (p_cadence p) t l (st\<lparr>target := set_or_keep (p_target p) (target st),
      objective := set_or_keep (p_objective p) (objective st)\<rparr>)"
    show ?case
    proof (cases "outcome st \<noteq> None \<or> resets_baseline p st \<and> wake_in_flight st")
      case True
      then show ?thesis by (auto simp: lifecycle.stay)
    next
      case False
      then have live: "outcome st = None" and quiet: "resets_baseline p st \<Longrightarrow> \<not> wake_in_flight st" by auto
      from patch_cadence_move [OF live] obtain st' where l1: "l_monitor ?l1 = Some st'"
        "phase_of (Some st') = phase_of (Some st)" "outcome st' = None" "wake_in_flight st' = wake_in_flight st" by blast
      have "lifecycle (phase_of (Some st)) (phase_of (Some (
          if resets_baseline p st then clear_baseline (st'\<lparr>m_budgets := b, wake_instructions := i\<rparr>)
          else st'\<lparr>m_budgets := b, wake_instructions := i\<rparr>)))" for b i
        using l1 quiet reconfigured_phase(4) [of "st'\<lparr>m_budgets := b, wake_instructions := i\<rparr>"] live
        by (auto simp: reconfigured_phase lifecycle.stay phase_of_simps(2) [of st])
      with False l1 show ?thesis
        unfolding Let_def
        by (auto simp: 1(2) lifecycle.stay intro!: persist_lifecycle [OF 1(1)] split: sum.split)
    qed
  qed
qed

lemma accept_lifecycle: "lifecycle (phase k s) (phase k (mark_monitor_turn_accepted mid fp s))"
  by (simp add: mark_monitor_turn_accepted_def lifecycle.stay split: option.split prod.split)

lemma stall_lifecycle:
  assumes "service_ok s" and "tab_ok tab"
  shows "lifecycle (phase k s) (phase k (notify_approval_stalled tab slot s))"
proof (cases "find_by_slot tab s slot")
  case (Some l)
  from find_by_slot_present [OF assms Some] show ?thesis
    using Some by (auto simp: notify_approval_stalled_def monitor_view_def lifecycle.stay)
qed (simp add: notify_approval_stalled_def lifecycle.stay)

lemma arm_lifecycle:
  assumes s: "service_ok s" and tab: "tab_ok tab" and arm: "arm_ok r i s"
  shows "lifecycle (phase k s) (phase k (fst (add_monitor tab r i created t w s)))"
proof (cases "snd (add_monitor tab r i created t w s)")
  case (Inl e)
  then have "loops (fst (add_monitor tab r i created t w s)) = loops s"
    by (auto simp: add_monitor_def Let_def split: if_splits write_outcome.splits)
  then show ?thesis by (simp add: monitor_view_def lifecycle.stay)
next
  case (Inr x)
  let ?e = "find_by_slot tab s (a_slot_key r)"
  let ?base = "\<lambda>d. case ?e of None \<Rightarrow> s\<lparr>disk := d\<rparr> | Some e \<Rightarrow> forget_loop (l_id e) (s\<lparr>disk := d\<rparr>)"
  from Inr obtain d where res: "phase k (fst (add_monitor tab r i created t w s)) =
      phase k (?base d\<lparr>loops := dict_set i (armed_loop r i created) (loops (?base d))\<rparr>)"
    and free: "\<forall>e. ?e = Some e \<longrightarrow> \<not> existing_conflicts r e"
    by (auto simp: add_monitor_def Let_def split: if_splits write_outcome.splits option.splits)
  have new: "phase_of (l_monitor (armed_loop r i created)) = Watching"
    by (simp add: armed_loop_def Let_def phase_of_simps fresh_monitor_def)
  have fresh: "dict_get (loops s) i = None" using arm by (simp add: arm_ok_def)
  have gone: "lifecycle (phase (l_id e) s) NoMonitor" if "?e = Some e" for e
  proof -
    have g: "dict_get (loops s) (l_id e) = Some e" by (rule find_by_slot_present [OF s tab that])
    have "\<not> wake_in_flight st" if "l_monitor e = Some st" for st
      using free \<open>?e = Some e\<close> that by (auto simp: existing_conflicts_def)
    with g show ?thesis
      by (cases "l_monitor e") (auto simp: monitor_view_def phase_of_simps intro: lifecycle.intros split: option.split)
  qed
  have other: "dict_get (loops (?base d)) k = (if \<exists>e. ?e = Some e \<and> l_id e = k then None else dict_get (loops s) k)"
    using find_by_slot_present [OF s tab]
    by (auto simp: forget_loop_def cancel_timer_def split: option.split)
  show ?thesis
  proof (cases "k = i")
    case True
    then show ?thesis unfolding res using fresh new by (simp add: monitor_view_def phase_of_simps(1) lifecycle.armed)
  next
    case False
    then show ?thesis
      unfolding res using gone other by (auto simp: monitor_view_def phase_of_simps(1) lifecycle.stay)
  qed
qed

lemma remove_phase: "k \<noteq> mid \<Longrightarrow> phase k (fst (remove_loop mid t w s)) = phase k s"
  by (cases w) (simp_all add: remove_loop_def Let_def monitor_view_def forget_loop_def cancel_timer_def
      arm_frame(5) split: option.split)

lemma raced_phase: "phase k (accept_while_writing u mid fp s) = phase k s"
  by (simp add: monitor_view_def)

text \<open>The explicit deletion of a monitor is the one operation that may end any phase.\<close>

fun removes :: "action \<Rightarrow> string \<Rightarrow> bool" where
  "removes (Remove mid t w) k \<longleftrightarrow> mid = k"
| "removes (Raced a mid fp) k \<longleftrightarrow> removes a k"
| "removes _ k \<longleftrightarrow> False"

text \<open>
  A scheduler without a controller settles the monitor whose timer fires as blocked, without
  looking at the phase it is in.
\<close>

fun unwires :: "action \<Rightarrow> string \<Rightarrow> bool" where
  "unwires (Unwire mid now w) k \<longleftrightarrow> mid = k"
| "unwires (Raced a mid fp) k \<longleftrightarrow> unwires a k"
| "unwires _ k \<longleftrightarrow> False"

lemma unwire_lifecycle:
  assumes s: "service_ok s"
  shows "lifecycle (phase k s) (phase k (fst (deactivate_unwired_monitor mid now w s))) \<or>
    mid = k \<and> phase k (fst (deactivate_unwired_monitor mid now w s)) = Settled OUT_BLOCKED"
proof (cases "find_monitor s mid")
  case None
  then show ?thesis by (simp add: deactivate_unwired_monitor_def lifecycle.stay)
next
  case (Some p)
  obtain l st where p: "p = (l, st)" by (cases p)
  with Some service_ok_get [OF s] have id: "l_id l = mid" by blast
  show ?thesis
    using Some p
    by (simp add: deactivate_unwired_monitor_def Let_def phases.persisted [OF id] settle_phase lifecycle.stay)
qed

text \<open>C2. Whatever an admissible operation does to a monitor, short of deleting it, is a move of the
  abstract life cycle, with one exception: the timer of a scheduler that has no controller wired
  settles its monitor as blocked from any phase. Otherwise no interleaving of operations, no
  failed or cancelled write claims a second turn while one is owed, drops an owed turn for a
  replacement, reopens a settled monitor other than a failed session close, or changes the
  outcome it settled with.\<close>

theorem service_refines_lifecycle:
  assumes "service_ok s" and "tab_ok tab" and "admissible a s" and "\<not> removes a k"
  shows "lifecycle (phase k s) (phase k (exec tab a s)) \<or>
    unwires a k \<and> \<not> tick_wired s \<and> phase k (exec tab a s) = Settled OUT_BLOCKED"
  using assms unwire_lifecycle [OF assms(1), of k]
  by (induction a) (auto simp: raced_phase probe_lifecycle stop_lifecycle restore_lifecycle update_lifecycle claim_lifecycle
      completion_lifecycle failure_lifecycle busy_lifecycle sent_lifecycle expire_lifecycle accept_lifecycle
      stall_lifecycle arm_lifecycle remove_phase lifecycle.stay)

definition no_tab :: tabs where "no_tab = (\<lambda>s slot. None)"

definition sample_arm :: arm_request where
  "sample_arm = \<lparr>a_slot_key = ''tab'', a_kind = ''github_pull_request'', a_target = ''o/r#7'',
     a_objective = ''merge it'', a_cadence = 60, a_budgets = default_budgets, a_wake_instructions = [],
     a_replace_existing = False, a_replace_stopped = False, a_expected = None, a_admitted = True\<rparr>"

definition sample_watch :: service where
  "sample_watch = exec no_tab (Arm sample_arm ''m1'' 100 100 WriteOk) idle_service"

definition sample_claim :: service where
  "sample_claim = exec no_tab (Claim ''m1'' ''f1'' 160 160 WriteOk) sample_watch"

lemma no_tab_ok: "tab_ok no_tab"
  by (simp add: tab_ok_def no_tab_def)

lemma sample_arm_admissible: "admissible (Arm sample_arm ''m1'' 100 100 WriteOk) idle_service"
  by (simp add: arm_ok_def sample_arm_def idle_service_def default_budgets_def budgets_ok_def
      DEFAULT_MONITOR_RUNTIME_SECS_def DEFAULT_MONITOR_AGENT_TURNS_def DEFAULT_MONITOR_TOKENS_def
      DEFAULT_MONITOR_PROVIDER_ERRORS_def)

lemma sample_watch_ok: "service_ok sample_watch"
  unfolding sample_watch_def by (rule exec_ok [OF idle_service_ok no_tab_ok sample_arm_admissible])

lemma sample_claim_ok: "service_ok sample_claim"
  unfolding sample_claim_def by (rule exec_ok [OF sample_watch_ok no_tab_ok]) simp

lemma sample_phases:
  "phase ''m1'' sample_watch = Watching" "phase ''m1'' sample_claim = Owed ''f1''"
  by code_simp+

lemma service_refines_lifecycle_witness:
  "lifecycle (phase ''m1'' sample_watch) (phase ''m1'' sample_claim) \<and> phase ''m1'' sample_claim = Owed ''f1''"
  using service_refines_lifecycle [OF sample_watch_ok no_tab_ok, of "Claim ''m1'' ''f1'' 160 160 WriteOk" "''m1''"]
    sample_phases(2) by (simp add: sample_claim_def)

end
