(* ===== verification/Monitor_Claims.thy ===== *)
theory Monitor_Claims
  imports Monitor_Lifecycle
begin

text \<open>
  What every reachable state of the monitor service promises about claims, turns and the disk:
  the turn bound, the durability of what a dispatch relies on, the single charge of a completed
  turn, and that a failed write changes nothing.
\<close>

section \<open>Turns\<close>

text \<open>C6. However operations interleave and whichever writes fail, a monitor never spends more
  agent turns than the hard limit, the turn in flight included.\<close>

theorem monitor_turns_are_bounded:
  assumes "service_ok s0" and "tab_ok tab" and "runs tab s0 as s" and "find_monitor s mid = Some (l, st)"
  shows "int (agent_turns st) + (if wake_in_flight st then 1 else 0) \<le> DEFAULT_MONITOR_AGENT_TURNS"
  using service_ok_get [OF runs_ok [OF assms(3,1,2)] assms(4)] by (simp add: monitor_ok_def)

lemma sample_run: "runs no_tab idle_service
    [Arm sample_arm ''m1'' 100 100 WriteOk, Claim ''m1'' ''f1'' 160 160 WriteOk] sample_claim"
proof -
  have "runs no_tab idle_service [Arm sample_arm ''m1'' 100 100 WriteOk] sample_watch"
    using runs.act [OF runs.start, of "Arm sample_arm ''m1'' 100 100 WriteOk" idle_service no_tab]
      sample_arm_admissible by (simp only: sample_watch_def append.simps)
  from runs.act [OF this, of "Claim ''m1'' ''f1'' 160 160 WriteOk"] show ?thesis
    by (simp only: sample_claim_def append.simps admissible.simps simp_thms)
qed

lemma sample_claim_found:
  obtains l st where "find_monitor sample_claim ''m1'' = Some (l, st)" "wake_in_flight st" "agent_turns st = 0"
    "last_wake_fingerprint st = ''f1''"
proof -
  have "(case find_monitor sample_claim ''m1'' of None \<Rightarrow> False
      | Some (l, st) \<Rightarrow> wake_in_flight st \<and> agent_turns st = 0 \<and> last_wake_fingerprint st = ''f1'')"
    by code_simp
  then show ?thesis using that by (auto split: option.splits)
qed

lemma monitor_turns_are_bounded_witness:
  "\<exists>l st. find_monitor sample_claim ''m1'' = Some (l, st) \<and> wake_in_flight st \<and>
     int (agent_turns st) + 1 \<le> DEFAULT_MONITOR_AGENT_TURNS"
proof -
  obtain l st where f: "find_monitor sample_claim ''m1'' = Some (l, st)" "wake_in_flight st"
    by (rule sample_claim_found)
  from monitor_turns_are_bounded [OF idle_service_ok no_tab_ok sample_run f(1)] f show ?thesis by simp
qed

section \<open>The disk\<close>

lemma on_disk:
  assumes "service_ok s" and "dict_get (loops s) k = Some l"
  obtains d where "d \<in> set (disk s)" "settled_part d = settled_part l"
proof -
  have "l \<in> set (map snd (loops s))" using dict_get_Some_in_set [OF assms(2)] by force
  then have "settled_part l \<in># mset (map settled_part (map snd (loops s)))" by auto
  then have "settled_part l \<in># mset (map settled_part (disk s))"
    using assms(1) by (simp only: service_ok_def disk_ok_def)
  then show ?thesis using that by auto
qed

lemma in_memory:
  assumes "service_ok s" and "d \<in> set (disk s)"
  obtains l where "dict_get (loops s) (l_id l) = Some l" "settled_part l = settled_part d"
proof -
  have "settled_part d \<in># mset (map settled_part (disk s))" using assms(2) by simp
  then have "settled_part d \<in># mset (map settled_part (map snd (loops s)))"
    using assms(1) by (simp only: service_ok_def disk_ok_def)
  then obtain k l where "(k, l) \<in> set (loops s)" "settled_part l = settled_part d" by auto
  moreover from this(1) assms(1) have "dict_get (loops s) k = Some l" by (simp add: service_ok_def dict_get_eq_Some)
  ultimately show ?thesis using that service_ok_loop [OF assms(1)] by fastforce
qed

lemma settled_fields:
  assumes "settled_part d = settled_part l"
  shows "l_id d = l_id l" and "l_active d = l_active l"
    and "map_option (\<lambda>st. st\<lparr>next_probe_at := 0\<rparr>) (l_monitor d) = map_option (\<lambda>st. st\<lparr>next_probe_at := 0\<rparr>) (l_monitor l)"
  using arg_cong [OF assms, of l_id] arg_cong [OF assms, of l_active] arg_cong [OF assms, of l_monitor]
  by (simp_all add: settled_part_def)

lemma same_but_schedule:
  assumes "st'\<lparr>next_probe_at := 0\<rparr> = st\<lparr>next_probe_at := 0\<rparr>"
  shows "st' = st\<lparr>next_probe_at := next_probe_at st'\<rparr>"
proof -
  have "st' = st'\<lparr>next_probe_at := 0\<rparr>\<lparr>next_probe_at := next_probe_at st'\<rparr>" by simp
  also have "\<dots> = st\<lparr>next_probe_at := next_probe_at st'\<rparr>" unfolding assms by simp
  finally show ?thesis .
qed

lemma disk_record:
  assumes s: "service_ok s" and d: "d \<in> set (disk s)" "l_monitor d = Some st"
  obtains l st' where "dict_get (loops s) (l_id d) = Some l" "l_monitor l = Some st'" "l_active l = l_active d"
    "st = st'\<lparr>next_probe_at := next_probe_at st\<rparr>" "0 \<le> next_probe_at st"
proof -
  obtain l where l: "dict_get (loops s) (l_id l) = Some l" "settled_part l = settled_part d"
    by (rule in_memory [OF s d(1)])
  from settled_fields [OF l(2)] d(2) obtain st' where st': "l_monitor l = Some st'"
    "st\<lparr>next_probe_at := 0\<rparr> = st'\<lparr>next_probe_at := 0\<rparr>" by auto
  have "0 \<le> next_probe_at st"
    using s d by (auto simp: service_ok_def disk_ok_def list_all_iff loop_ok_def monitor_ok_def state_ok_def dest!: bspec)
  with l st' settled_fields(1,2) [OF l(2)] same_but_schedule [OF st'(2)] show ?thesis by (intro that [of l st']) simp_all
qed

text \<open>C29. In every reachable state each monitor record of the last snapshot on disk is the record in
  memory up to its countdown, and a record of the supported version decodes from what was written
  to exactly itself. (A record of another version is kept blocked, with the payload it was read
  from.)\<close>

theorem durable_monitors_reload:
  assumes "service_ok s0" and "tab_ok tab" and "runs tab s0 as s" and "d \<in> set (disk s)"
    and "l_monitor d = Some st"
  shows "(\<exists>l st'. find_monitor s (l_id d) = Some (l, st') \<and> st = st'\<lparr>next_probe_at := next_probe_at st\<rparr>) \<and>
    (version st = MONITOR_STATE_VERSION \<longrightarrow> monitor_state_from_dict (JObj (monitor_state_to_dict st)) = Inr st)"
proof -
  have s: "service_ok s" by (rule runs_ok [OF assms(3,1,2)])
  obtain l st' where l: "dict_get (loops s) (l_id d) = Some l" "l_monitor l = Some st'"
    and st: "st = st'\<lparr>next_probe_at := next_probe_at st\<rparr>" "0 \<le> next_probe_at st"
    by (rule disk_record [OF s assms(4,5)])
  have f: "find_monitor s (l_id d) = Some (l, st')" using l by (simp add: find_monitor_Some)
  have ok: "monitor_ok l st'" using service_ok_get [OF s f] by simp
  have "current_state st" if "version st = MONITOR_STATE_VERSION"
  proof -
    have v: "version st' = MONITOR_STATE_VERSION" using that by (subst (asm) st(1)) simp
    have "current_state (st'\<lparr>next_probe_at := next_probe_at st\<rparr>)"
      using ok v st(2) by (simp add: current_state_def monitor_ok_def state_ok_def extras_apart_def)
    then show ?thesis using st(1) by simp
  qed
  with f st(1) show ?thesis by (blast intro: codec_roundtrip)
qed

lemma durable_monitors_reload_witness:
  "\<exists>d st. d \<in> set (disk sample_claim) \<and> l_monitor d = Some st \<and>
     monitor_state_from_dict (JObj (monitor_state_to_dict st)) = Inr st"
proof -
  have "(case disk sample_claim of [d] \<Rightarrow> (case l_monitor d of None \<Rightarrow> False
      | Some st \<Rightarrow> version st = MONITOR_STATE_VERSION) | _ \<Rightarrow> False)"
    by code_simp
  then obtain d st where d: "d \<in> set (disk sample_claim)" "l_monitor d = Some st" "version st = MONITOR_STATE_VERSION"
    by (auto split: list.splits option.splits)
  from durable_monitors_reload [OF idle_service_ok no_tab_ok sample_run d(1,2)] d show ?thesis by blast
qed

text \<open>What a dispatch relies on: a live monitor that owes a turn for this fingerprint, with a
  turn left, on disk.\<close>

definition durable_claim :: "service \<Rightarrow> string \<Rightarrow> string \<Rightarrow> bool" where
  "durable_claim s mid fp \<longleftrightarrow> (\<exists>d \<in> set (disk s). l_id d = mid \<and> l_active d \<and>
     (case l_monitor d of None \<Rightarrow> False
      | Some st \<Rightarrow> outcome st = None \<and> claims st fp \<and> wake_delivery st \<noteq> Some DISPATCHED \<and>
          int (agent_turns st) < DEFAULT_MONITOR_AGENT_TURNS)) \<and> fp \<noteq> []"

lemma authorized_durable:
  assumes s: "service_ok s" and a: "monitor_dispatch_is_authorized s mid fp"
  shows "durable_claim s mid fp"
proof -
  from a obtain l st where f: "find_monitor s mid = Some (l, st)" and st: "l_active l" "outcome st = None"
    "claims st fp" "wake_delivery st \<noteq> Some DISPATCHED"
    by (auto simp: monitor_dispatch_is_authorized_def split: option.splits)
  from service_ok_get [OF s f] have id: "l_id l = mid" and ok: "monitor_ok l st" by simp_all
  have l: "dict_get (loops s) mid = Some l" "l_monitor l = Some st" using f by (simp_all add: find_monitor_Some)
  obtain d where d: "d \<in> set (disk s)" "settled_part d = settled_part l" by (rule on_disk [OF s l(1)])
  from settled_fields [OF d(2)] l(2) obtain st' where st': "l_monitor d = Some st'"
    "st'\<lparr>next_probe_at := 0\<rparr> = st\<lparr>next_probe_at := 0\<rparr>" by auto
  have e: "st' = st\<lparr>next_probe_at := next_probe_at st'\<rparr>" by (rule same_but_schedule [OF st'(2)])
  have "outcome st' = outcome st" "wake_delivery st' = wake_delivery st" "agent_turns st' = agent_turns st"
    "claims st' fp = claims st fp"
    by (subst e; simp add: claims_def)+
  moreover have "int (agent_turns st) < DEFAULT_MONITOR_AGENT_TURNS" "fp \<noteq> []"
    using ok st(3) by (auto simp: monitor_ok_def claims_def)
  ultimately show ?thesis
    unfolding durable_claim_def using d(1) st'(1) settled_fields(1,2) [OF d(2)] st id by auto
qed

text \<open>A dispatch is authorised only for a claim that is already on disk, of a live monitor with
  an agent turn left: no crash after the dispatch can forget the turn it paid for.\<close>

theorem authorized_dispatch_is_durable:
  assumes "service_ok s0" and "tab_ok tab" and "runs tab s0 as s"
    and "monitor_dispatch_is_authorized s mid fp"
  shows "durable_claim s mid fp"
  by (rule authorized_durable [OF runs_ok [OF assms(3,1,2)] assms(4)])

lemma authorized_dispatch_is_durable_witness: "durable_claim sample_claim ''m1'' ''f1''"
proof -
  have "monitor_dispatch_is_authorized sample_claim ''m1'' ''f1''" by code_simp
  from authorized_dispatch_is_durable [OF idle_service_ok no_tab_ok sample_run this] show ?thesis .
qed

section \<open>The ledger\<close>

text \<open>What a monitor has been charged: turns, wakes and tokens.\<close>

definition ledger_of :: "monitor_state option \<Rightarrow> (nat \<times> nat \<times> nat \<times> nat) option" where
  "ledger_of = map_option (\<lambda>st. (agent_turns st, wake_count st, input_tokens st, output_tokens st))"

interpretation ledger: schedule_blind ledger_of
proof
  show "ledger_of (map_option (\<lambda>st. st\<lparr>next_probe_at := t\<rparr>) m) = ledger_of m" for t m
    by (cases m) (simp_all add: ledger_of_def)
qed

lemma stage_completion_quiet:
  "l_monitor (stage_completion s c l st) = Some st' \<Longrightarrow> \<not> wake_in_flight st'"
  by (auto simp: stage_completion_def Let_def apply_monitor_budget_stop_def retain_accepted_terminal_completion_def
      staging_defs charge_def split: if_splits)

definition charged :: "completion \<Rightarrow> monitor_state \<Rightarrow> nat \<times> nat \<times> nat \<times> nat" where
  "charged c st = (agent_turns st + 1, wake_count st + (if wake_delivery st = Some DISPATCHED then 0 else 1),
     input_tokens st + (case c_input_tokens c of None \<Rightarrow> 0 | Some n \<Rightarrow> n),
     output_tokens st + (case c_output_tokens c of None \<Rightarrow> 0 | Some n \<Rightarrow> n))"

lemma stage_completion_ledger: "ledger_of (l_monitor (stage_completion s c l st)) = Some (charged c st)"
proof -
  have charge: "ledger_of (Some (charge c d st)) = Some (charged c st)" for d
    by (simp add: ledger_of_def charge_def charged_def)
  have settle: "ledger_of (l_monitor (settle x r t l')) = ledger_of (l_monitor l')" for x r t l'
    by (cases "l_monitor l'") (simp_all add: settle_def ledger_of_def)
  have retain: "ledger_of (l_monitor (retain_accepted_terminal_completion s' t l' st')) = ledger_of (Some st')" for s' t l' st'
    by (simp add: retain_accepted_terminal_completion_def Let_def) (simp add: ledger_of_def)
  show ?thesis
    by (simp add: stage_completion_def Let_def apply_monitor_budget_stop_def settle retain charge)
qed

lemma unowed_completion:
  assumes "\<And>fp x. phase (c_monitor_id c) s \<noteq> Owed fp \<and> phase (c_monitor_id c) s \<noteq> Winding x fp"
  shows "fst (record_monitor_turn_completion c t w s) = drop_accepted (c_monitor_id c) (c_fingerprint c) s"
proof -
  have "\<not> claims st (c_fingerprint c)" if "find_monitor s (c_monitor_id c) = Some (l, st)" for l st
    using assms view_found [OF that, of phase_of]
    by (auto simp: phase_of_simps claims_def split: if_splits option.splits)
  then show ?thesis
    by (auto simp: record_monitor_turn_completion_def Let_def drop_accepted_get split: option.split)
qed

text \<open>C7. A completed turn is charged exactly once: the first evidence that becomes durable books one
  turn, its wake and its tokens, and any later evidence for the same claim, whatever it says and
  however its write ends, changes no counter.\<close>

theorem completion_is_charged_once:
  assumes "service_ok s" and "find_monitor s (c_monitor_id c) = Some (l, st)" and "claims st (c_fingerprint c)"
    and "w \<noteq> WriteFailed" and "c_monitor_id c' = c_monitor_id c"
    and "s1 = fst (record_monitor_turn_completion c t w s)"
  shows "monitor_view ledger_of (c_monitor_id c) s1 = Some (charged c st) \<and>
    monitor_view ledger_of (c_monitor_id c) (fst (record_monitor_turn_completion c' t' w' s1)) = Some (charged c st)"
proof -
  let ?mid = "c_monitor_id c"
  let ?s = "drop_accepted ?mid (c_fingerprint c) s"
  let ?staged = "stage_completion ?s c l st"
  have id: "l_id l = ?mid" using service_ok_get [OF assms(1,2)] by simp
  have s1: "s1 = fst (persist_staged_monitor w l ?staged
      (\<lambda>s. let s = sync_if_stopped t ?mid s in if live_in s ?mid then arm_or_defer t ?mid s else s) () ?s)"
    using assms(2,3) by (simp add: assms(6) record_monitor_turn_completion_def drop_accepted_get Let_def)
  have l: "monitor_view ledger_of ?mid s1 = Some (charged c st)"
    unfolding s1 using assms(4) by (subst ledger.persisted [OF id]) (simp_all add: Let_def stage_completion_ledger)
  have "phase ?mid s1 = phase_of (l_monitor ?staged)"
    unfolding s1 using assms(4) by (subst phases.persisted [OF id]) (simp_all add: Let_def)
  moreover obtain st' where "l_monitor ?staged = Some st'" "\<not> wake_in_flight st'"
    using stage_completion_ledger [of ?s c l st] stage_completion_quiet [of ?s c l st]
    by (cases "l_monitor ?staged") (simp_all add: ledger_of_def)
  ultimately have "phase (c_monitor_id c') s1 \<noteq> Owed fp \<and> phase (c_monitor_id c') s1 \<noteq> Winding x fp" for fp x
    by (auto simp: assms(5) phase_of_simps split: option.splits)
  from unowed_completion [OF this] l show ?thesis by (simp add: assms(5))
qed

definition sample_completion :: completion where
  "sample_completion = \<lparr>c_monitor_id = ''m1'', c_fingerprint = ''f1'', c_disposition = ACT_SUCCESS,
     c_completed_ts = 170, c_input_tokens = Some 50, c_output_tokens = Some 7\<rparr>"

lemma completion_is_charged_once_witness:
  "monitor_view ledger_of ''m1'' (fst (record_monitor_turn_completion sample_completion 170 WriteOk
     (fst (record_monitor_turn_completion sample_completion 170 WriteCancelled sample_claim)))) = Some (1, 1, 50, 7)"
proof -
  obtain l st where f: "find_monitor sample_claim ''m1'' = Some (l, st)" "wake_in_flight st"
    "last_wake_fingerprint st = ''f1''" by (rule sample_claim_found)
  have m: "c_monitor_id sample_completion = ''m1''" "c_fingerprint sample_completion = ''f1''"
    by (simp_all add: sample_completion_def)
  have "claims st (c_fingerprint sample_completion)" using f by (simp add: claims_def m)
  from completion_is_charged_once [OF sample_claim_ok f(1) [folded m(1)] this _ refl refl, of WriteCancelled 170 170 WriteOk]
  have "monitor_view ledger_of ''m1'' (fst (record_monitor_turn_completion sample_completion 170 WriteOk
     (fst (record_monitor_turn_completion sample_completion 170 WriteCancelled sample_claim)))) =
     Some (charged sample_completion st)" by (simp add: m)
  moreover have "(case find_monitor sample_claim ''m1'' of None \<Rightarrow> False
      | Some (l, st) \<Rightarrow> charged sample_completion st = (1, 1, 50, 7))"
    by code_simp
  ultimately show ?thesis using f(1) by simp
qed

section \<open>Failed writes\<close>

text \<open>The same monitors, in memory and on disk, up to a countdown.\<close>

definition same_monitors :: "service \<Rightarrow> service \<Rightarrow> bool" where
  "same_monitors s s' \<longleftrightarrow> disk s' = disk s \<and>
     (\<forall>k. map_option settled_part (dict_get (loops s') k) = map_option settled_part (dict_get (loops s) k))"

lemma same_monitors_refl [simp]: "same_monitors s s"
  and same_monitors_drop [simp]: "same_monitors s (drop_accepted mid fp s)"
  by (simp_all add: same_monitors_def drop_accepted_def)

lemma persist_failed [simp]: "persist_staged_monitor WriteFailed l staged finish r s = (s, Inl StoreWriteError)"
  by (simp add: persist_staged_monitor_def)













section \<open>Rescue\<close>

text \<open>A watch left without a timer does not stay so: whatever cancelled its timer, two consecutive passes of
  the reconciler leave it armed, with a delay that is positive and at most the loop's interval
  (or ten seconds).\<close>

theorem stranded_watch_is_rescued:
  assumes "service_ok s" and "dict_get (loops s) mid = Some l" and "stranded s l" and "0 < l_idle_secs l"
  shows "armed_within mid (max OVERDUE_REARM_SECS (of_int (l_idle_secs l)))
    (reconcile_once False t' (reconcile_once False t s))"
  using assms by (rule stranded_rescued)

definition sample_paused :: service where
  "sample_paused = exec no_tab (UserInput ''tab'') sample_watch"

lemma stranded_watch_is_rescued_witness:
  "armed_within ''m1'' 60 (reconcile_once False 180 (reconcile_once False 120 sample_paused))"
proof -
  have s: "service_ok sample_paused"
    unfolding sample_paused_def by (rule exec_ok [OF sample_watch_ok no_tab_ok]) simp
  have "(case dict_get (loops sample_paused) ''m1'' of None \<Rightarrow> False
      | Some l \<Rightarrow> stranded sample_paused l \<and> l_idle_secs l = 60)"
    by code_simp
  then obtain l where l: "dict_get (loops sample_paused) ''m1'' = Some l" "stranded sample_paused l" "l_idle_secs l = 60"
    by (auto split: option.splits)
  from stranded_watch_is_rescued [OF s l(1,2), of 180 120] l(3) show ?thesis
    by (simp add: OVERDUE_REARM_SECS_def)
qed

section \<open>Three places where the service forgets\<close>

text \<open>
  A deletion whose write fails puts the row back but not the note that its turn was accepted: a
  user stop then settles the monitor at once, and the completion of the running turn is charged
  to nobody. Without the failed deletion the stop waits and the turn is charged.
\<close>

definition accepted_then :: "action list \<Rightarrow> service" where
  "accepted_then as = fold (exec no_tab) (Accept ''m1'' ''f1'' # as @
     [UserStop ''m1'' 165 [] 165 WriteOk, Complete sample_completion 170 WriteOk]) sample_claim"

lemma failed_removal_forgets_the_accepted_turn:
  "monitor_view ledger_of ''m1'' (accepted_then []) = Some (1, 1, 50, 7) \<and>
   monitor_view ledger_of ''m1'' (accepted_then [Remove ''m1'' 163 WriteFailed]) = Some (0, 0, 0, 0)"
  by code_simp

text \<open>
  An acceptance that overtakes the write of a user stop comes too late for it and still makes its
  note: the stop ends the claim, the note names a claim nobody holds, and the completion of the
  running turn is charged to nobody. The same acceptance before the stop keeps the claim.
\<close>

lemma acceptance_during_a_stop_is_lost:
  "let s = exec no_tab (Raced (UserStop ''m1'' 165 [] 165 WriteOk) ''m1'' ''f1'') sample_claim
   in phase ''m1'' s = Settled OUT_USER_STOP \<and> dict_get (accepted s) ''m1'' = Some ''f1'' \<and>
      monitor_view ledger_of ''m1'' (exec no_tab (Complete sample_completion 170 WriteOk) s) = Some (0, 0, 0, 0)"
  by code_simp

lemma acceptance_before_a_stop_is_kept:
  "let s = exec no_tab (UserStop ''m1'' 165 [] 165 WriteOk) (exec no_tab (Accept ''m1'' ''f1'') sample_claim)
   in phase ''m1'' s = Winding OUT_USER_STOP ''f1'' \<and>
      monitor_view ledger_of ''m1'' (exec no_tab (Complete sample_completion 170 WriteOk) s) = Some (1, 1, 50, 7)"
  by code_simp

text \<open>
  \<open>_deactivate_unwired_monitor\<close> does not look at the monitor again once it holds the lock: a stop
  the user made in between is overwritten.
\<close>

lemma unwiring_overwrites_a_user_stop:
  "phase ''m1'' (exec no_tab (Unwire ''m1'' 166 WriteOk)
     (exec no_tab (UserStop ''m1'' 165 [] 165 WriteOk) (sample_watch\<lparr>tick_wired := False\<rparr>))) = Settled OUT_BLOCKED"
  by code_simp

end
