(* ===== verification/Monitor_Controller.thy ===== *)
theory Monitor_Controller
  imports Monitor_Claims
begin

text \<open>
  The probe-first controller (\<open>monitoring/controller.py\<close>) on top of the scheduler: one tick, the
  dispatch of a claimed wake, the wake envelope, and the timer that runs a tick inside its
  firing window.

  Every \<open>await\<close> is a point where other operations may run: \<open>world\<close> lists them, with the probe's
  result, the dispatcher's answer and the clock. An operation of that list that is not
  admissible when its turn comes is skipped, so the list stands for an arbitrary environment. The
  writes of the tick's own operations may be overtaken by acceptances as well (\<open>w_accepts\<close>).
\<close>

section \<open>The wake envelope\<close>

definition MONITOR_WAKE_PREFIX :: string where "MONITOR_WAKE_PREFIX = ''[Monitor wake]''"
definition MONITOR_WAKE_MAX_CHARS :: nat where "MONITOR_WAKE_MAX_CHARS = 4096"

definition newline :: string where "newline = [CHR 0x0A]"

fun separated :: "string \<Rightarrow> string list \<Rightarrow> string" where
  "separated sep [] = []"
| "separated sep [x] = x"
| "separated sep (x # y # xs) = x @ sep @ separated sep (y # xs)"

text \<open>The changed facts: \<open>rep\<close> is CPython's \<open>repr\<close> of numbers.\<close>

definition changed_checks :: "(json \<Rightarrow> string) \<Rightarrow> jobj \<Rightarrow> string list" where
  "changed_checks rep canonical =
     (case as_obj (jget canonical ''checks'') of
        None \<Rightarrow> []
      | Some checks \<Rightarrow> concat (map (\<lambda>state.
          case jget checks state of
            JArr (v # vs) \<Rightarrow> [state @ '' checks: '' @ rep (JInt (int (length (v # vs))))]
          | _ \<Rightarrow> []) [''failed'', ''pending'', ''unknown'']))"

definition changed_fields :: "(json \<Rightarrow> string) \<Rightarrow> jobj \<Rightarrow> string list" where
  "changed_fields rep canonical = concat (map (\<lambda>name.
     let v = jget canonical name
     in case v of
          JStr s \<Rightarrow> [name @ ''='' @ s]
        | JInt n \<Rightarrow> [name @ ''='' @ py_str rep v]
        | JBool b \<Rightarrow> [name @ ''='' @ py_str rep v]
        | _ \<Rightarrow> []) [''blocking_review'', ''mergeability'', ''review_decision'', ''state''])"

text \<open>\<open>redact\<close> is the pair of redactions of \<open>security.py\<close>, applied before the cap.\<close>

definition format_monitor_wake ::
  "(json \<Rightarrow> string) \<Rightarrow> (string \<Rightarrow> string) \<Rightarrow> string \<Rightarrow> monitor_state \<Rightarrow> string" where
  "format_monitor_wake rep redact mid st =
     (let changed = changed_checks rep (last_observation st) @ changed_fields rep (last_observation st);
          head = jget (last_observation st) ''head_revision'';
          action = (if strip (wake_instructions st) \<noteq> [] then strip (wake_instructions st)
                    else ''Inspect the changed facts and take the next safe action.'')
      in take MONITOR_WAKE_MAX_CHARS (redact
          (MONITOR_WAKE_PREFIX @ newline @
           ''Monitor '' @ mid @ '': GitHub pull request '' @ target st @ ''; objective: '' @ objective st @ ''.'' @ newline @
           ''Fingerprint: '' @ last_wake_fingerprint st @ ''. Classification: '' @
             (if last_wake_reason_code st \<noteq> [] then last_wake_reason_code st else ''actionable'') @ ''.'' @ newline @
           ''Head: '' @ (case as_str head of Some h \<Rightarrow> h | None \<Rightarrow> ''unknown'') @ ''. Changed: '' @
             (if changed \<noteq> [] then separated ''; '' changed else ''canonical state changed'') @ ''.'' @ newline @
           ''Next action: '' @ action)))"

section \<open>One tick\<close>

datatype delivery = Delivered dispatch_result | DeliveryRaised | DeliveryCancelled | DeliveryUntyped

record world =
  w_probe :: "(jobj \<times> observation) option"
  w_while_probing :: "action list"
  w_before_authorizing :: "action list"
  w_while_dispatching :: "action list"
  w_before_recording :: "action list"
  w_delivery :: delivery
  w_clock :: rat
  w_time :: rat
  w_probe_write :: write_outcome
  w_record_write :: write_outcome
  w_accepts :: "(string \<times> string) list"

definition perform :: "tabs \<Rightarrow> action list \<Rightarrow> service \<Rightarrow> service" where
  "perform tab = fold (\<lambda>a s. if admissible a s then exec tab a s else s)"

text \<open>An operation of the tick called in \<open>s\<close>: turns accepted while it writes.\<close>

definition racing :: "world \<Rightarrow> service \<Rightarrow> service \<times> 'r \<Rightarrow> service \<times> 'r" where
  "racing w s p = (fold (\<lambda>(mid, fp). accept_while_writing s mid fp) (w_accepts w) (fst p), snd p)"

text \<open>\<open>loop.monitor\<close>, the live object: its last contents once the loop has been removed.\<close>

definition live_state :: "string \<Rightarrow> monitor_state \<Rightarrow> service \<Rightarrow> monitor_state" where
  "live_state mid st s = (case find_monitor s mid of None \<Rightarrow> st | Some (l, st') \<Rightarrow> st')"

definition provider_raised :: "jobj \<times> observation" where
  "provider_raised = ([], \<lparr>o_fingerprint = [], o_status = OBS_PROVIDER_ERROR, o_provider_error = Some TRANSIENT,
     o_supplemental = None, o_reason_code = ''provider_transient'', o_summary = [], o_head_changed = False\<rparr>)"

text \<open>
  A tick returns the wakes it handed to the dispatcher. Each comes with the state of the service at
  that call, which the code does not keep: it is there for the theorems to speak of.
\<close>

type_synonym wake = "service \<times> string \<times> string"
type_synonym tick_result = "service \<times> monitor_decision res \<times> wake list"

definition finish_tick :: "service \<times> unit res \<Rightarrow> monitor_decision res \<Rightarrow> service \<times> monitor_decision res" where
  "finish_tick p r = (fst p, case snd p of Inl e \<Rightarrow> Inl e | Inr u \<Rightarrow> r)"

definition delivered_result :: "delivery \<Rightarrow> dispatch_result" where
  "delivered_result d = (case d of Delivered r \<Rightarrow> r | DeliveryRaised \<Rightarrow> BUSY | DeliveryCancelled \<Rightarrow> BUSY
     | DeliveryUntyped \<Rightarrow> UNAVAILABLE)"

text \<open>The recovery path of each answer; a cancelled delivery is recorded busy, then re-raised.\<close>

definition record_delivery :: "world \<Rightarrow> rat \<Rightarrow> string \<Rightarrow> string \<Rightarrow> service \<Rightarrow> service \<times> monitor_decision res" where
  "record_delivery w now mid fp s =
     finish_tick
       (racing w s (case delivered_result (w_delivery w) of
          UNAVAILABLE \<Rightarrow> record_monitor_dispatch_failure mid fp now (w_record_write w) s
        | BUSY \<Rightarrow> record_monitor_dispatch_busy mid fp now (w_time w) (w_record_write w) s
        | DISPATCHED \<Rightarrow> record_monitor_dispatched mid fp (w_clock w) (w_time w) (w_record_write w) s))
       (if w_delivery w = DeliveryCancelled then Inl CancelledError else Inr WAKE_ACTIONABLE)"

definition dispatch_claimed ::
  "(string \<Rightarrow> monitor_state \<Rightarrow> string) \<Rightarrow> tabs \<Rightarrow> world \<Rightarrow> rat \<Rightarrow> string \<Rightarrow> monitor_state \<Rightarrow> service \<Rightarrow> tick_result" where
  "dispatch_claimed envelope tab w now mid st s =
     (let st = live_state mid st s;
          s1 = perform tab (w_before_authorizing w) s
      in if \<not> monitor_dispatch_is_authorized s1 mid (last_wake_fingerprint st) then (s1, Inr STOP_BLOCKED, [])
         else
           let s2 = perform tab (w_while_dispatching w) s1;
               fp = last_wake_fingerprint (live_state mid (live_state mid st s1) s2);
               (s3, r) = record_delivery w now mid fp (perform tab (w_before_recording w) s2)
           in (s3, r, [(s1, last_wake_fingerprint st, envelope mid st)]))"

definition expire_claim :: "tabs \<Rightarrow> world \<Rightarrow> rat \<Rightarrow> string \<Rightarrow> monitor_state \<Rightarrow> monitor_decision \<Rightarrow> service \<Rightarrow> tick_result" where
  "expire_claim tab w now mid st d s =
     (if 0 < completion_evidence_deadline st \<and> completion_evidence_deadline st \<le> now
      then let s = perform tab (w_before_recording w) s;
               (s, r) = finish_tick (racing w s (record_monitor_completion_evidence_unavailable mid
                          (last_wake_fingerprint st) now (w_record_write w) s)) (Inr d)
           in (s, r, [])
      else (s, Inr d, []))"

text \<open>A probe that claimed a wake is dispatched; its other decisions end the tick.\<close>

definition after_probe ::
  "(string \<Rightarrow> monitor_state \<Rightarrow> string) \<Rightarrow> tabs \<Rightarrow> world \<Rightarrow> rat \<Rightarrow> string \<Rightarrow> monitor_state \<Rightarrow>
   service \<times> monitor_decision res \<Rightarrow> tick_result" where
  "after_probe envelope tab w now mid st p =
     (case snd p of
        Inl e \<Rightarrow> (fst p, Inl e, [])
      | Inr d \<Rightarrow> if d \<noteq> WAKE_ACTIONABLE then (fst p, Inr d, [])
                 else dispatch_claimed envelope tab w now mid st (fst p))"

definition tick ::
  "(string \<Rightarrow> monitor_state \<Rightarrow> string) \<Rightarrow> tabs \<Rightarrow> world \<Rightarrow> rat \<Rightarrow> string \<Rightarrow> service \<Rightarrow> tick_result" where
  "tick envelope tab w now mid s =
     (case find_monitor s mid of
        None \<Rightarrow> (s, Inl ValueError, [])
      | Some (l, st) \<Rightarrow>
          if outcome st \<noteq> None then
            (if wake_in_flight st then expire_claim tab w now mid st STOP_BLOCKED s else (s, Inr STOP_BLOCKED, []))
          else if wake_in_flight st then
            (if wake_delivery st = Some BUSY then
               (if now < next_probe_at st then (s, Inr NO_CHANGE, [])
                else if monitor_budget_reason st now \<noteq> [] then
                  let s = perform tab (w_before_recording w) s;
                      (s, r) = finish_tick (racing w s (record_monitor_dispatch_busy mid (last_wake_fingerprint st)
                                 now (w_time w) (w_record_write w) s)) (Inr STOP_BUDGET)
                  in (s, r, [])
                else dispatch_claimed envelope tab w now mid st s)
             else if wake_delivery st = Some DISPATCHED then expire_claim tab w now mid st NO_CHANGE s
             else (s, Inr NO_CHANGE, []))
          else
            let s1 = perform tab (w_while_probing w) s;
                p = (case w_probe w of None \<Rightarrow> provider_raised | Some p \<Rightarrow> p)
            in after_probe envelope tab w now mid (live_state mid st s1)
                 (racing w s1 (apply_monitor_probe mid (fst p) (snd p) now (config_generation st) (w_time w)
                   (w_probe_write w) s1)))"

text \<open>A timer that has slept its delay: the tick runs inside the firing window.\<close>

definition monitor_timer ::
  "(string \<Rightarrow> monitor_state \<Rightarrow> string) \<Rightarrow> tabs \<Rightarrow> world \<Rightarrow> bool \<Rightarrow> rat \<Rightarrow> string \<Rightarrow> service \<Rightarrow>
   service \<times> wake list" where
  "monitor_timer envelope tab w shutdown now mid s =
     (case timer_step shutdown mid s of
        TimerReturns \<Rightarrow> (s, [])
      | TimerEvidence fp \<Rightarrow>
          let s = perform tab (w_before_recording w) s
          in (fst (racing w s (record_monitor_completion_evidence_unavailable mid fp now (w_record_write w) s)), [])
      | TimerDeactivates \<Rightarrow>
          let s = perform tab (w_before_recording w) s
          in (fst (racing w s (deactivate_unwired_monitor mid now (w_record_write w) s)), [])
      | TimerTicks \<Rightarrow>
          let (s, r, sends) = tick envelope tab w now mid (begin_tick mid s) in (end_tick mid (w_time w) s, sends))"

section \<open>A tick is a run of the service\<close>

definition world_ok :: "world \<Rightarrow> rat \<Rightarrow> bool" where
  "world_ok w now \<longleftrightarrow> 0 \<le> now \<and> 0 \<le> w_clock w \<and> 0 \<le> w_time w \<and>
     (case w_probe w of None \<Rightarrow> True | Some (cn, ob) \<Rightarrow> observation_ok ob \<and> strict_json (JObj cn))"

text \<open>\<open>s'\<close> is reached from \<open>s\<close> by some admissible actions.\<close>

definition reaches :: "tabs \<Rightarrow> service \<Rightarrow> service \<Rightarrow> bool" where
  "reaches tab s s' \<longleftrightarrow> (\<exists>as. runs tab s as s')"

lemma reaches_refl [simp, intro]: "reaches tab s s"
  unfolding reaches_def using runs.start by blast

lemma reaches_step: "reaches tab s s' \<Longrightarrow> admissible a s' \<Longrightarrow> reaches tab s (exec tab a s')"
  unfolding reaches_def using runs.act by blast

lemma runs_append: "runs tab t bs u \<Longrightarrow> runs tab s as t \<Longrightarrow> runs tab s (as @ bs) u"
proof (induction rule: runs.induct)
  case (act t bs s' a)
  then show ?case using runs.act [of tab s "as @ bs" s' a] by simp
qed simp

lemma reaches_trans [trans]: "reaches tab s t \<Longrightarrow> reaches tab t u \<Longrightarrow> reaches tab s u"
  unfolding reaches_def using runs_append by blast

lemma reaches_ok: "reaches tab s s' \<Longrightarrow> service_ok s \<Longrightarrow> tab_ok tab \<Longrightarrow> service_ok s'"
  unfolding reaches_def using runs_ok by blast

lemma perform_reaches: "reaches tab s (perform tab as s)"
proof (induction as arbitrary: s)
  case Nil
  show ?case by (simp add: perform_def)
next
  case (Cons a as)
  let ?s = "if admissible a s then exec tab a s else s"
  have "reaches tab s ?s" using reaches_step [OF reaches_refl] by simp
  also have "reaches tab ?s (perform tab (a # as) s)" using Cons [of ?s] by (simp add: perform_def)
  finally show ?case .
qed

text \<open>An operation of the tick with its overtaking acceptances is one action.\<close>

lemma accepts_raced:
  assumes "admissible a s" and "write_of a \<noteq> None" and "while_writing a s = s"
  shows "\<exists>a'. admissible a' s \<and> write_of a' \<noteq> None \<and> while_writing a' s = s \<and>
    exec tab a' s = fold (\<lambda>(mid, fp). accept_while_writing s mid fp) ms (exec tab a s)"
  using assms
proof (induction ms arbitrary: a)
  case Nil
  then show ?case by (intro exI [of _ a]) simp
next
  case (Cons m ms)
  obtain mid fp where m: "m = (mid, fp)" by (cases m)
  from Cons.IH [of "Raced a mid fp"] Cons.prems show ?case by (simp add: m)
qed

lemma op_reaches:
  assumes "fst p = exec tab a s" and "admissible a s" and "write_of a \<noteq> None" and "while_writing a s = s"
  shows "reaches tab s (fst (racing w s p))"
proof -
  from accepts_raced [OF assms(2-4)] obtain a' where "admissible a' s" "exec tab a' s = fst (racing w s p)"
    by (auto simp: racing_def assms(1))
  then show ?thesis using reaches_step [OF reaches_refl] by metis
qed

lemma perform_op_reaches:
  assumes "\<And>u. fst (f u) = exec tab a u" and "\<And>u. u = perform tab as s \<Longrightarrow> admissible a u"
    and "write_of a \<noteq> None" and "\<And>u. while_writing a u = u"
  shows "reaches tab s (fst (racing w (perform tab as s) (f (perform tab as s))))"
  using reaches_trans [OF perform_reaches op_reaches [OF assms(1,2) _ assms(4)]] assms(3) by blast

lemma racing_view [simp]:
  "monitor_view view k (fst (racing w s p)) = monitor_view view k (fst p)" "snd (racing w s p) = snd p"
proof -
  have "monitor_view view k (fold (\<lambda>(mid, fp). accept_while_writing s mid fp) ms u) = monitor_view view k u" for ms u
    by (induction ms arbitrary: u) (auto simp: monitor_view_def)
  then show "monitor_view view k (fst (racing w s p)) = monitor_view view k (fst p)" "snd (racing w s p) = snd p"
    by (simp_all add: racing_def)
qed

lemma record_delivery_reaches:
  assumes "world_ok w now"
  shows "reaches tab s (fst (record_delivery w now mid fp s))"
proof (cases "delivered_result (w_delivery w)")
  case DISPATCHED
  then show ?thesis
    using assms op_reaches [of "record_monitor_dispatched mid fp (w_clock w) (w_time w) (w_record_write w) s" tab
        "Sent mid fp (w_clock w) (w_time w) (w_record_write w)"]
    by (simp add: record_delivery_def finish_tick_def world_ok_def)
next
  case BUSY
  then show ?thesis
    using assms op_reaches [of "record_monitor_dispatch_busy mid fp now (w_time w) (w_record_write w) s" tab
        "Busy mid fp now (w_time w) (w_record_write w)"]
    by (simp add: record_delivery_def finish_tick_def world_ok_def)
next
  case UNAVAILABLE
  then show ?thesis
    using assms op_reaches [of "record_monitor_dispatch_failure mid fp now (w_record_write w) s" tab
        "Fail mid fp now (w_record_write w)"]
    by (simp add: record_delivery_def finish_tick_def world_ok_def)
qed

text \<open>
  What a dispatch leaves: at most one dispatch, made in a state on the way from \<open>s\<close> to \<open>t\<close> that
  authorises it.
\<close>

definition sent_rightly :: "tabs \<Rightarrow> service \<Rightarrow> string \<Rightarrow> wake list \<Rightarrow> service \<Rightarrow> bool" where
  "sent_rightly tab s mid sends t \<longleftrightarrow> sends = [] \<or>
     (\<exists>u fp e. sends = [(u, fp, e)] \<and> reaches tab s u \<and> reaches tab u t \<and> monitor_dispatch_is_authorized u mid fp)"

lemma sent_rightly_Nil [simp]: "sent_rightly tab s mid [] t"
  by (simp add: sent_rightly_def)

lemma sent_rightly_later:
  "reaches tab s s' \<Longrightarrow> sent_rightly tab s' mid sends t \<Longrightarrow> reaches tab t t' \<Longrightarrow> sent_rightly tab s mid sends t'"
  unfolding sent_rightly_def using reaches_trans by blast

lemma dispatch_claimed_run:
  assumes "world_ok w now"
  shows "reaches tab s (fst (dispatch_claimed env tab w now mid st s)) \<and>
    sent_rightly tab s mid (snd (snd (dispatch_claimed env tab w now mid st s))) (fst (dispatch_claimed env tab w now mid st s))"
proof -
  let ?st = "live_state mid st s"
  let ?s1 = "perform tab (w_before_authorizing w) s"
  let ?s2 = "perform tab (w_while_dispatching w) ?s1"
  let ?s3 = "perform tab (w_before_recording w) ?s2"
  have s1: "reaches tab s ?s1" by (rule perform_reaches)
  have "reaches tab ?s1 ?s3" using reaches_trans [OF perform_reaches perform_reaches] .
  then have after: "reaches tab ?s1 (fst (record_delivery w now mid fp ?s3))" for fp
    using record_delivery_reaches [OF assms] reaches_trans by blast
  then have "reaches tab s (fst (record_delivery w now mid fp ?s3))" for fp
    using reaches_trans [OF s1] by blast
  with s1 after show ?thesis
    by (auto simp: dispatch_claimed_def Let_def sent_rightly_def case_prod_unfold)
qed

lemma expire_claim_run:
  assumes "world_ok w now"
  shows "reaches tab s (fst (expire_claim tab w now mid st d s)) \<and> snd (snd (expire_claim tab w now mid st d s)) = []"
proof -
  have "reaches tab s (fst (racing w (perform tab (w_before_recording w) s)
      (record_monitor_completion_evidence_unavailable mid fp now (w_record_write w) (perform tab (w_before_recording w) s))))" for fp
    using assms by (intro perform_op_reaches [of _ _ "Expire mid fp now (w_record_write w)"]) (simp_all add: world_ok_def)
  then show ?thesis by (simp add: expire_claim_def finish_tick_def case_prod_unfold Let_def)
qed

lemma provider_raised_ok: "observation_ok (snd provider_raised)" "strict_json (JObj (fst provider_raised))"
  by code_simp+

lemma probe_reaches:
  assumes "world_ok w now" and "p = (case w_probe w of None \<Rightarrow> provider_raised | Some p \<Rightarrow> p)"
  shows "reaches tab s (fst (racing w s (apply_monitor_probe mid (fst p) (snd p) now gen t wr s)))"
  using assms provider_raised_ok
  by (intro op_reaches [of _ _ "Probe mid (fst p) (snd p) now gen t wr"])
    (auto simp: world_ok_def split: option.splits prod.splits)

lemma after_probe_run:
  assumes "world_ok w now" and "reaches tab s (fst p)"
  shows "reaches tab s (fst (after_probe env tab w now mid st p)) \<and>
    sent_rightly tab s mid (snd (snd (after_probe env tab w now mid st p))) (fst (after_probe env tab w now mid st p))"
  using assms(2) dispatch_claimed_run [OF assms(1), of tab "fst p" env mid st]
    reaches_trans [OF assms(2)] sent_rightly_later [OF assms(2) _ reaches_refl]
  by (simp add: after_probe_def split: sum.split)

lemma tick_run:
  assumes w: "world_ok w now"
  shows "reaches tab s (fst (tick env tab w now mid s)) \<and>
    sent_rightly tab s mid (snd (snd (tick env tab w now mid s))) (fst (tick env tab w now mid s))"
proof (cases "find_monitor s mid")
  case None
  then show ?thesis by (simp add: tick_def)
next
  case (Some p)
  obtain l st where p: "p = (l, st)" by (cases p)
  have busy: "reaches tab s (fst (racing w (perform tab (w_before_recording w) s)
      (record_monitor_dispatch_busy mid fp now (w_time w) (w_record_write w) (perform tab (w_before_recording w) s))))" for fp
    using w by (intro perform_op_reaches [of _ _ "Busy mid fp now (w_time w) (w_record_write w)"]) (simp_all add: world_ok_def)
  show ?thesis
  proof (cases "outcome st \<noteq> None \<or> wake_in_flight st")
    case True
    show ?thesis
    proof (cases "outcome st")
      case None
      with True show ?thesis
        using Some p expire_claim_run [OF w] dispatch_claimed_run [OF w] busy
        by (simp add: tick_def finish_tick_def case_prod_unfold Let_def)
    next
      case x: (Some x)
      then show ?thesis using Some p expire_claim_run [OF w] by (simp add: tick_def)
    qed
  next
    case False
    have "reaches tab s (fst (racing w (perform tab as s)
        (apply_monitor_probe mid (fst p') (snd p') now g t wr (perform tab as s))))"
      if "p' = (case w_probe w of None \<Rightarrow> provider_raised | Some p \<Rightarrow> p)" for p' g t wr as
      using reaches_trans [OF perform_reaches probe_reaches [OF w that]] .
    then show ?thesis
      using Some p False after_probe_run [OF w] by (simp add: tick_def Let_def)
  qed
qed

lemma timer_run:
  assumes w: "world_ok w now"
  shows "reaches tab s (fst (monitor_timer env tab w shutdown now mid s)) \<and>
    sent_rightly tab s mid (snd (monitor_timer env tab w shutdown now mid s)) (fst (monitor_timer env tab w shutdown now mid s))"
proof (cases "timer_step shutdown mid s")
  case TimerReturns
  then show ?thesis by (simp add: monitor_timer_def)
next
  case (TimerEvidence fp)
  have "reaches tab s (fst (racing w (perform tab (w_before_recording w) s)
      (record_monitor_completion_evidence_unavailable mid fp now (w_record_write w) (perform tab (w_before_recording w) s))))"
    using w by (intro perform_op_reaches [of _ _ "Expire mid fp now (w_record_write w)"]) (simp_all add: world_ok_def)
  with TimerEvidence show ?thesis by (simp add: monitor_timer_def Let_def)
next
  case TimerDeactivates
  have wired: "tick_wired (exec tab a s') = tick_wired s'" for a s'
    by (rule exec_wired)
  have "tick_wired (perform tab as s') = tick_wired s'" for as s'
    by (induction as arbitrary: s') (simp_all add: perform_def wired)
  moreover have "\<not> tick_wired s" using TimerDeactivates
    by (auto simp: timer_step_def Let_def split: if_splits option.splits)
  ultimately have "reaches tab s (fst (racing w (perform tab (w_before_recording w) s)
      (deactivate_unwired_monitor mid now (w_record_write w) (perform tab (w_before_recording w) s))))"
    using w by (intro perform_op_reaches [of _ _ "Unwire mid now (w_record_write w)"]) (simp_all add: world_ok_def)
  with TimerDeactivates show ?thesis by (simp add: monitor_timer_def Let_def)
next
  case TimerTicks
  let ?b = "begin_tick mid s"
  have "\<not> shutdown" using TimerTicks by (auto simp: timer_step_def)
  with TimerTicks have b: "reaches tab s ?b" using reaches_step [OF reaches_refl, of "BeginTick mid" s tab] by simp
  let ?r = "tick env tab w now mid ?b"
  have r: "reaches tab s (fst ?r)" using reaches_trans [OF b] tick_run [OF w] by blast
  have e: "reaches tab (fst ?r) (end_tick mid (w_time w) (fst ?r))"
    using reaches_step [OF reaches_refl, of "EndTick mid (w_time w)"] w by (simp add: world_ok_def)
  have "reaches tab s (end_tick mid (w_time w) (fst ?r))" using reaches_trans [OF r e] .
  moreover have "sent_rightly tab s mid (snd (snd ?r)) (end_tick mid (w_time w) (fst ?r))"
    using sent_rightly_later [OF b _ e] tick_run [OF w] by blast
  ultimately show ?thesis using TimerTicks by (simp add: monitor_timer_def case_prod_unfold Let_def)
qed

section \<open>What a tick guarantees\<close>

text \<open>C4. When a monitor's timer fires, whatever other operations run at its awaits and however the
  probe, the dispatcher and the disk behave, the service stays in its invariant, and at most one
  wake is dispatched. It is handed to the dispatcher in a state between the timer's firing and its
  end, and in that very state its claim is live in memory and on disk.\<close>

theorem timer_dispatches_only_durable_claims:
  assumes "service_ok s" and "tab_ok tab" and "world_ok w now"
  shows "service_ok (fst (monitor_timer env tab w shutdown now mid s)) \<and>
    (case snd (monitor_timer env tab w shutdown now mid s) of
       [] \<Rightarrow> True
     | (u, fp, e) # rest \<Rightarrow> rest = [] \<and> reaches tab s u \<and>
         reaches tab u (fst (monitor_timer env tab w shutdown now mid s)) \<and>
         monitor_dispatch_is_authorized u mid fp \<and> durable_claim u mid fp)"
proof -
  from timer_run [OF assms(3), of tab s env shutdown mid]
  have r: "reaches tab s (fst (monitor_timer env tab w shutdown now mid s))"
    and sends: "sent_rightly tab s mid (snd (monitor_timer env tab w shutdown now mid s))
      (fst (monitor_timer env tab w shutdown now mid s))" by simp_all
  have d: "durable_claim u mid fp" if "reaches tab s u" "monitor_dispatch_is_authorized u mid fp" for u fp
    using authorized_durable [OF reaches_ok [OF that(1) assms(1,2)] that(2)] .
  show ?thesis
    using reaches_ok [OF r assms(1,2)] sends d unfolding sent_rightly_def by auto
qed

text \<open>No turn is waited for beyond its evidence deadline: the tick that finds the deadline of a
  dispatched or a terminal claim passed leaves the monitor settled, so the claim cannot block its
  session for ever; a terminal monitor keeps the outcome it had.\<close>

theorem owed_turn_is_not_waited_for_ever:
  assumes "service_ok s" and "find_monitor s mid = Some (l, st)" and "wake_in_flight st"
    and "outcome st = None \<longrightarrow> wake_delivery st = Some DISPATCHED"
    and "0 < completion_evidence_deadline st" and "completion_evidence_deadline st \<le> now"
    and "w_record_write w \<noteq> WriteFailed" and "w_before_recording w = []"
  shows "phase mid (fst (tick env tab w now mid s)) =
    Settled (case outcome st of None \<Rightarrow> OUT_BLOCKED | Some x \<Rightarrow> x)"
proof -
  have id: "l_id l = mid" and ok: "monitor_ok l st"
    using service_ok_get [OF assms(1,2)] by simp_all
  have waits: "x \<in> set TERMINAL_WAITS" if "outcome st = Some x" for x
    using ok that assms(3) by (auto simp: monitor_ok_def)
  let ?e = "record_monitor_completion_evidence_unavailable mid (last_wake_fingerprint st) now (w_record_write w) s"
  have "phase mid (fst (tick env tab w now mid s)) = phase mid (fst ?e)"
    using assms(2-6,8)
    by (simp add: tick_def expire_claim_def finish_tick_def perform_def case_prod_unfold Let_def split: option.split)
  moreover have "phase mid (fst ?e) = Settled (case outcome st of None \<Rightarrow> OUT_BLOCKED | Some x \<Rightarrow> x)"
  proof -
    let ?st = "st\<lparr>wake_in_flight := False, wake_delivery := None, completion_evidence_deadline := 0\<rparr>"
    have "fst ?e = fst (persist_staged_monitor (w_record_write w) l (set_monitor_deadline 0
        (if outcome st = None then settle OUT_BLOCKED MONITOR_STOP_COMPLETION_UNAVAILABLE now (put_monitor l ?st)
         else put_monitor l ?st)) (cancel_timer mid) () (drop_accepted mid (last_wake_fingerprint st) s))"
      using assms(2,3,5,6) waits
      by (simp add: record_monitor_completion_evidence_unavailable_def claims_def Let_def split: option.split)
    then show ?thesis
      using assms(7) by (simp add: phases.persisted [OF id] settle_phase phase_of_simps split: option.split)
  qed
  ultimately show ?thesis by simp
qed









definition sample_world :: world where
  "sample_world = \<lparr>w_probe = None, w_while_probing = [], w_before_authorizing = [], w_while_dispatching = [],
     w_before_recording = [], w_delivery = Delivered DISPATCHED, w_clock = 175, w_time = 175,
     w_probe_write = WriteOk, w_record_write = WriteOk, w_accepts = []\<rparr>"

text \<open>A claim whose first delivery met a busy session.\<close>

definition sample_busy :: service where
  "sample_busy = exec no_tab (Busy ''m1'' ''f1'' 161 161 WriteOk) sample_claim"

definition sample_sent :: service where
  "sample_sent = exec no_tab (Sent ''m1'' ''f1'' 161 161 WriteOk) sample_claim"

definition no_envelope :: "string \<Rightarrow> monitor_state \<Rightarrow> string" where
  "no_envelope mid st = format_monitor_wake (\<lambda>v. []) (\<lambda>s. s) mid st"

lemma sample_world_ok: "world_ok sample_world 300"
  by (simp add: world_ok_def sample_world_def)

lemma sample_busy_ok: "service_ok sample_busy" and sample_sent_ok: "service_ok sample_sent"
  unfolding sample_busy_def sample_sent_def by (rule exec_ok [OF sample_claim_ok no_tab_ok], simp)+

lemma timer_dispatches_only_durable_claims_witness:
  "\<exists>u e. snd (monitor_timer no_envelope no_tab sample_world False 300 ''m1'' sample_busy) = [(u, ''f1'', e)] \<and>
     reaches no_tab sample_busy u \<and> durable_claim u ''m1'' ''f1''"
proof -
  have "map (fst \<circ> snd) (snd (monitor_timer no_envelope no_tab sample_world False 300 ''m1'' sample_busy)) = [''f1'']"
    by code_simp
  then obtain u e where e: "snd (monitor_timer no_envelope no_tab sample_world False 300 ''m1'' sample_busy) = [(u, ''f1'', e)]"
    by auto
  from timer_dispatches_only_durable_claims [OF sample_busy_ok no_tab_ok sample_world_ok, of no_envelope False "''m1''"] e
  show ?thesis by auto
qed

lemma owed_turn_is_not_waited_for_ever_witness:
  "phase ''m1'' (fst (tick no_envelope no_tab sample_world 9000 ''m1'' sample_sent)) = Settled OUT_BLOCKED"
proof -
  have "(case find_monitor sample_sent ''m1'' of None \<Rightarrow> False | Some (l, st) \<Rightarrow>
      wake_in_flight st \<and> outcome st = None \<and> wake_delivery st = Some DISPATCHED \<and>
      0 < completion_evidence_deadline st \<and> completion_evidence_deadline st \<le> 9000)"
    by code_simp
  then obtain l st where f: "find_monitor sample_sent ''m1'' = Some (l, st)" "wake_in_flight st" "outcome st = None"
      "wake_delivery st = Some DISPATCHED" "0 < completion_evidence_deadline st" "completion_evidence_deadline st \<le> 9000"
    by (auto split: option.splits)
  from owed_turn_is_not_waited_for_ever [OF sample_sent_ok f(1,2) _ f(5,6), of sample_world no_envelope no_tab] f(3,4)
  show ?thesis by (simp add: sample_world_def)
qed


end
