(* ===== verification/Monitor_Restart.thy ===== *)
theory Monitor_Restart
  imports Monitor_Claims
begin

text \<open>
  What a restart makes of the store: the branch of \<open>_load\<close> for one row, with the decoding of its
  monitor, the recovery of claims that were in flight when the process died, and the repair of
  the schedule. The theorem shows that recovery of the service's own snapshots neither loses nor
  invents a charge and leaves no claim without an end.

  A row reaches these definitions with its plain fields typed; \<open>stored_gate\<close> says whether the row
  had a \<open>gate\<close> key, \<open>fire\<close> whether the prompt callback is wired. The stop sentinel, the banner
  and the redaction of the message are not modelled.
\<close>

section \<open>Loading a row\<close>

text \<open>\<open>_repair_number\<close> after Python's \<open>float()\<close>, which answers \<open>None\<close> where it raises.\<close>

definition repair_number :: "pyfloat option \<Rightarrow> rat \<Rightarrow> rat option \<Rightarrow> rat \<Rightarrow> rat \<times> bool" where
  "repair_number v lo hi fallback =
     (case v of
        Some (Fin num) \<Rightarrow>
          let clamped = (case hi of None \<Rightarrow> max lo num | Some h \<Rightarrow> max lo (min h num))
          in (clamped, clamped \<noteq> num)
      | _ \<Rightarrow> (fallback, True))"

text \<open>Decode the monitor of a row, or quarantine it; a row whose quarantine fails is skipped.\<close>

definition load_monitor :: "bool \<Rightarrow> json option \<Rightarrow> loop \<Rightarrow> (loop \<times> bool) option" where
  "load_monitor stored_gate raw l =
     (case raw of
        None \<Rightarrow> Some (l, False)
      | Some v \<Rightarrow>
          (case monitor_state_from_dict v of
             Inr st \<Rightarrow>
               if \<not> stored_gate \<and> version st = MONITOR_STATE_VERSION then Some (l\<lparr>l_monitor := None\<rparr>, True)
               else Some (put_monitor l st, False)
           | Inl e \<Rightarrow>
               (case quarantine_monitor_state v of
                  Inl e \<Rightarrow> None
                | Inr st \<Rightarrow> Some (put_monitor (l\<lparr>l_active := False, l_next_due_ts := 0\<rparr>) st, True))))"

text \<open>
  A claim found in flight, of a live structured record of this version: a snapshot with an
  evidence deadline but no delivery is one that was dispatched.
\<close>

definition type_delivery :: "monitor_state \<Rightarrow> monitor_state" where
  "type_delivery st =
     (if wake_delivery st = None \<and> 0 < completion_evidence_deadline st then st\<lparr>wake_delivery := Some DISPATCHED\<rparr> else st)"

definition resume_claim :: "loop \<Rightarrow> monitor_state \<Rightarrow> loop \<times> bool" where
  "resume_claim l st =
     (if wake_delivery st = Some BUSY \<and> 0 < l_next_due_ts l then
        (put_monitor l (st\<lparr>next_probe_at := l_next_due_ts l\<rparr>), next_probe_at st \<noteq> l_next_due_ts l)
      else if completion_evidence_deadline st \<le> 0 then
        (put_monitor (l\<lparr>l_active := False, l_next_due_ts := 0\<rparr>)
           (st\<lparr>wake_in_flight := False, outcome := Some OUT_BLOCKED,
             stopped_reason := MONITOR_STOP_COMPLETION_UNAVAILABLE\<rparr>), True)
      else if l_next_due_ts l \<noteq> completion_evidence_deadline st then
        (put_monitor (l\<lparr>l_next_due_ts := completion_evidence_deadline st\<rparr>)
           (st\<lparr>next_probe_at := completion_evidence_deadline st\<rparr>), True)
      else (put_monitor l st, False))"

definition recover_claim :: "loop \<Rightarrow> monitor_state \<Rightarrow> loop \<times> bool" where
  "recover_claim l st =
     (let (l', dirty) = resume_claim l (type_delivery st)
      in (l', dirty \<or> wake_delivery (type_delivery st) \<noteq> wake_delivery st))"

definition recover_monitor :: "bool \<Rightarrow> bool \<Rightarrow> rat \<Rightarrow> loop \<Rightarrow> loop \<times> bool" where
  "recover_monitor wired fire t l =
     (case l_monitor l of
        None \<Rightarrow> (l, False)
      | Some st \<Rightarrow>
          if version st \<noteq> MONITOR_STATE_VERSION then
            let l' = put_monitor l (st\<lparr>outcome := Some OUT_BLOCKED, stopped_reason := MONITOR_STOP_UNSUPPORTED_VERSION\<rparr>)
            in if is_structured_monitor_loop l
               then (l'\<lparr>l_active := False, l_next_due_ts := 0\<rparr>, l_active l \<or> l_next_due_ts l \<noteq> 0)
               else (l', False)
          else if outcome st \<noteq> None then
            (put_monitor (l\<lparr>l_active := False, l_next_due_ts := 0\<rparr>)
               (st\<lparr>wake_in_flight := False, completion_evidence_deadline := 0\<rparr>),
             l_active l \<or> wake_in_flight st \<or> l_next_due_ts l \<noteq> 0)
          else if is_structured_monitor_loop l \<and> wake_in_flight st then recover_claim l st
          else if is_structured_monitor_loop l \<and> l_active l \<and> \<not> wired \<and> fire then
            (put_monitor (l\<lparr>l_active := False, l_next_due_ts := 0\<rparr>)
               (st\<lparr>outcome := Some OUT_BLOCKED, stopped_reason := MONITOR_STOP_SESSION_UNAVAILABLE, stopped_at := t\<rparr>), True)
          else (l, False))"

text \<open>The schedule in range, and mirrored in the monitor.\<close>

definition repair_schedule :: "loop \<Rightarrow> loop \<times> bool" where
  "repair_schedule l =
     (let (due, due_repaired) = repair_number (Some (Fin (l_next_due_ts l))) 0 None 0;
          (idle, idle_repaired) = repair_number (Some (Fin (of_int (l_idle_secs l)))) (of_int MIN_IDLE_SECS)
            (Some (of_int MAX_IDLE_SECS)) (of_int MIN_IDLE_SECS);
          l = l\<lparr>l_next_due_ts := due, l_idle_secs := floor idle\<rparr>
      in case l_monitor l of
           None \<Rightarrow> (l, due_repaired \<or> idle_repaired)
         | Some st \<Rightarrow>
             if version st = MONITOR_STATE_VERSION \<and> next_probe_at st \<noteq> due
             then (put_monitor l (st\<lparr>next_probe_at := due\<rparr>), True)
             else (l, due_repaired \<or> idle_repaired))"

definition load_row :: "bool \<Rightarrow> bool \<Rightarrow> rat \<Rightarrow> bool \<Rightarrow> json option \<Rightarrow> loop \<Rightarrow> (loop \<times> bool) option" where
  "load_row wired fire t stored_gate raw l =
     (case load_monitor stored_gate raw l of
        None \<Rightarrow> None
      | Some (l, dirty1) \<Rightarrow>
          let (l, dirty2) = recover_monitor wired fire t l; (l, dirty3) = repair_schedule l
          in Some (l, dirty1 \<or> dirty2 \<or> dirty3))"

text \<open>\<open>_serialize_loop\<close>: the monitor is written in its wire format, and every row has its gate.\<close>

definition serialized_monitor :: "loop \<Rightarrow> json option" where
  "serialized_monitor l = map_option (\<lambda>st. JObj (monitor_state_to_dict st)) (l_monitor l)"

definition reload_row :: "bool \<Rightarrow> bool \<Rightarrow> rat \<Rightarrow> loop \<Rightarrow> (loop \<times> bool) option" where
  "reload_row wired fire t l = load_row wired fire t True (serialized_monitor l) (l\<lparr>l_monitor := None\<rparr>)"

section \<open>Recovery\<close>

lemma repair_schedule_keeps:
  assumes "l_monitor l = Some st" and "version st = MONITOR_STATE_VERSION" and "0 \<le> l_next_due_ts l"
  obtains n where "0 < n"
    and "fst (repair_schedule l) = put_monitor (l\<lparr>l_idle_secs := n\<rparr>) (st\<lparr>next_probe_at := l_next_due_ts l\<rparr>)"
proof -
  obtain idle r where i: "repair_number (Some (Fin (of_int (l_idle_secs l)))) (of_int MIN_IDLE_SECS)
      (Some (of_int MAX_IDLE_SECS)) (of_int MIN_IDLE_SECS) = (idle, r)" by (rule prod.exhaust)
  then have "15 \<le> idle" by (auto simp: repair_number_def Let_def MIN_IDLE_SECS_def)
  then have n: "0 < floor idle" by linarith
  have d: "repair_number (Some (Fin (l_next_due_ts l))) 0 None 0 = (l_next_due_ts l, False)"
    using assms(3) by (simp add: repair_number_def Let_def)
  have "fst (repair_schedule l) = put_monitor (l\<lparr>l_idle_secs := floor idle\<rparr>) (st\<lparr>next_probe_at := l_next_due_ts l\<rparr>)"
  proof (cases "next_probe_at st = l_next_due_ts l")
    case True
    then have "st\<lparr>next_probe_at := l_next_due_ts l\<rparr> = st" by (simp add: True [symmetric])
    with True i d assms(1,2) show ?thesis
      by (simp add: repair_schedule_def Let_def) (simp add: put_monitor_def)
  next
    case False
    with i d assms(1,2) show ?thesis by (simp add: repair_schedule_def Let_def put_monitor_def)
  qed
  with n show ?thesis by (rule that)
qed

text \<open>What recovery may make of a structured record of this version.\<close>

definition recovered :: "loop \<Rightarrow> monitor_state \<Rightarrow> loop \<Rightarrow> monitor_state \<Rightarrow> bool" where
  "recovered l st l' st' \<longleftrightarrow>
     monitor_ok l' st' \<and> l_id l' = l_id l \<and> ledger_of (Some st') = ledger_of (Some st) \<and>
     (outcome st \<noteq> None \<longrightarrow> outcome st' = outcome st) \<and>
     (wake_in_flight st' \<longrightarrow> wake_in_flight st \<and> last_wake_fingerprint st' = last_wake_fingerprint st \<and>
        outcome st' = None \<and> 0 < l_next_due_ts l' \<and>
        (wake_delivery st' = Some BUSY \<or> l_next_due_ts l' = completion_evidence_deadline st')) \<and>
     (\<not> wake_in_flight st \<longrightarrow> phase_of (Some st') = phase_of (Some st) \<and> l_active l' = l_active l)"

text \<open>The result of a recovery step, before the schedule is mirrored.\<close>

definition recovers :: "loop \<Rightarrow> monitor_state \<Rightarrow> loop \<Rightarrow> bool" where
  "recovers l st l' \<longleftrightarrow> (\<exists>st'. l_monitor l' = Some st' \<and> version st' = MONITOR_STATE_VERSION \<and>
     0 \<le> l_next_due_ts l' \<and> recovered l st l' (st'\<lparr>next_probe_at := l_next_due_ts l'\<rparr>))"

lemma recoversI:
  assumes "l' = put_monitor l1 st'" and "version st' = MONITOR_STATE_VERSION" and "0 \<le> l_next_due_ts l1"
    and "recovered l st (put_monitor l1 st') (st'\<lparr>next_probe_at := l_next_due_ts l1\<rparr>)"
  shows "recovers l st l'"
  using assms by (simp add: recovers_def put_monitor_def)

lemma recovered_put [simp]: "recovered l st (put_monitor l1 x) st' = recovered l st l1 st'"
  by (simp add: recovered_def put_monitor_def monitor_ok_def)

lemma recovered_idle: "recovered l st l1 st' \<Longrightarrow> 0 < n \<Longrightarrow> recovered l st (l1\<lparr>l_idle_secs := n\<rparr>) st'"
  by (auto simp: recovered_def monitor_ok_def)

lemma resume_claim_ok:
  assumes ok: "monitor_ok l st" and live: "outcome st = None" "wake_in_flight st"
    and v: "version st = MONITOR_STATE_VERSION"
  shows "recovers l st (fst (resume_claim l st))"
proof -
  note turns = monitor_ok_turns [OF ok]
  have due: "0 \<le> l_next_due_ts l" using ok by (simp add: monitor_ok_def state_ok_def)
  show ?thesis
  proof (cases "wake_delivery st = Some BUSY \<and> 0 < l_next_due_ts l")
    case True
    then have eq: "fst (resume_claim l st) = put_monitor l (st\<lparr>next_probe_at := l_next_due_ts l\<rparr>)"
      by (simp add: resume_claim_def)
    show ?thesis
      by (rule recoversI [OF eq]) (use True ok live v in \<open>simp_all add: recovered_def ledger_of_def ok_defs\<close>)
  next
    case busy: False
    show ?thesis
    proof (cases "completion_evidence_deadline st \<le> 0")
      case True
      then have z: "completion_evidence_deadline st = 0" using ok by (simp add: monitor_ok_def state_ok_def)
      have eq: "fst (resume_claim l st) = put_monitor (l\<lparr>l_active := False, l_next_due_ts := 0\<rparr>)
           (st\<lparr>wake_in_flight := False, outcome := Some OUT_BLOCKED,
             stopped_reason := MONITOR_STOP_COMPLETION_UNAVAILABLE\<rparr>)"
        using busy True by (simp only: resume_claim_def if_False if_True fst_conv)
      show ?thesis
        by (rule recoversI [OF eq]) (use z ok live v turns in \<open>simp_all add: recovered_def ledger_of_def ok_defs\<close>)
    next
      case d: False
      show ?thesis
      proof (cases "l_next_due_ts l = completion_evidence_deadline st")
        case True
        with busy d have eq: "fst (resume_claim l st) = put_monitor l st"
          by (auto simp: resume_claim_def)
        show ?thesis
          by (rule recoversI [OF eq]) (use True d ok live v in \<open>simp_all add: recovered_def ledger_of_def ok_defs\<close>)
      next
        case False
        with busy d have eq: "fst (resume_claim l st) = put_monitor (l\<lparr>l_next_due_ts := completion_evidence_deadline st\<rparr>)
            (st\<lparr>next_probe_at := completion_evidence_deadline st\<rparr>)"
          by (auto simp: resume_claim_def)
        show ?thesis
          by (rule recoversI [OF eq]) (use d ok live v in \<open>simp_all add: recovered_def ledger_of_def ok_defs\<close>)
      qed
    qed
  qed
qed

lemma recover_claim_ok:
  assumes ok: "monitor_ok l st" and live: "outcome st = None" "wake_in_flight st"
    and v: "version st = MONITOR_STATE_VERSION"
  shows "recovers l st (fst (recover_claim l st))"
proof -
  have "recovers l (type_delivery st) (fst (resume_claim l (type_delivery st)))"
    by (rule resume_claim_ok) (use assms in \<open>simp_all add: type_delivery_def ok_defs\<close>)
  moreover have "recovered l (type_delivery st) = recovered l st"
    by (intro ext) (simp add: recovered_def ledger_of_def type_delivery_def live)
  moreover have "fst (recover_claim l st) = fst (resume_claim l (type_delivery st))"
    by (simp add: recover_claim_def Let_def case_prod_unfold)
  ultimately show ?thesis by (simp add: recovers_def)
qed

lemma recover_monitor_ok:
  assumes ok: "monitor_ok l st" and m: "l_monitor l = Some st" and v: "version st = MONITOR_STATE_VERSION"
    and structured: "\<not> l_gate l"
  shows "recovers l st (fst (recover_monitor True fire t l))"
proof -
  note turns = monitor_ok_turns [OF ok]
  have due: "0 \<le> l_next_due_ts l" "next_probe_at st = l_next_due_ts l" using ok by (simp_all add: monitor_ok_def state_ok_def)
  have s: "is_structured_monitor_loop l" using m structured by (simp add: is_structured_monitor_loop_def)
  consider (settled) x where "outcome st = Some x" | (owed) "outcome st = None" "wake_in_flight st"
    | (idle) "outcome st = None" "\<not> wake_in_flight st" by blast
  then show ?thesis
  proof cases
    case settled
    have eq: "fst (recover_monitor True fire t l) = put_monitor (l\<lparr>l_active := False, l_next_due_ts := 0\<rparr>)
        (st\<lparr>wake_in_flight := False, completion_evidence_deadline := 0\<rparr>)"
      using settled m v by (simp add: recover_monitor_def)
    show ?thesis
      by (rule recoversI [OF eq])
        (use settled ok v turns in \<open>auto simp: recovered_def ledger_of_def ok_defs phase_of_simps\<close>)
  next
    case owed
    then have "fst (recover_monitor True fire t l) = fst (recover_claim l st)"
      using m v s by (simp add: recover_monitor_def)
    with recover_claim_ok [OF ok owed v] show ?thesis by simp
  next
    case idle
    have "fst (recover_monitor True fire t l) = l" using idle m v s by (simp add: recover_monitor_def)
    moreover have "monitor_ok l (st\<lparr>next_probe_at := l_next_due_ts l\<rparr>)" using ok by (simp add: ok_defs)
    ultimately show ?thesis
      using idle m v due by (simp add: recovers_def recovered_def)
  qed
qed

text \<open>C27. A crash loses and invents nothing: reloading, in a scheduler with a controller, any monitor
  row of the supported version that a run of the service left on disk gives a valid monitor with the same ledger and, if it had settled, the same outcome; a claim
  survives only of a live monitor, for the same fingerprint, and with a retry or an evidence
  deadline ahead, every other claim ends in a settled monitor; an idle monitor is as it was.\<close>

theorem restart_recovers_every_monitor:
  assumes "service_ok s0" and "tab_ok tab" and "runs tab s0 as s" and "d \<in> set (disk s)"
    and "l_monitor d = Some st" and "version st = MONITOR_STATE_VERSION" and "\<not> l_gate d"
  shows "\<exists>l st' dirty. reload_row True fire t d = Some (l, dirty) \<and> l_monitor l = Some st' \<and> recovered d st l st'"
proof -
  have s: "service_ok s" by (rule runs_ok [OF assms(3,1,2)])
  have ok: "monitor_ok d st"
    using s assms(4,5) by (auto simp: service_ok_def disk_ok_def list_all_iff loop_ok_def dest!: bspec)
  have cur: "current_state st" using ok assms(6) by (simp add: current_state_def monitor_ok_def)
  let ?d = "put_monitor (d\<lparr>l_monitor := None\<rparr>) st"
  have d: "?d = d" using assms(5) by (simp add: put_monitor_def)
  have "load_monitor True (serialized_monitor d) (d\<lparr>l_monitor := None\<rparr>) = Some (d, False)"
    using codec_roundtrip [OF cur] d by (simp add: load_monitor_def serialized_monitor_def assms(5))
  then have load: "reload_row True fire t d = Some (fst (repair_schedule (fst (recover_monitor True fire t d))),
      snd (recover_monitor True fire t d) \<or> snd (repair_schedule (fst (recover_monitor True fire t d))))"
    by (simp add: reload_row_def load_row_def Let_def case_prod_unfold)
  from recover_monitor_ok [OF ok assms(5,6,7), of fire t] obtain st' where
    st': "l_monitor (fst (recover_monitor True fire t d)) = Some st'" "version st' = MONITOR_STATE_VERSION"
      "0 \<le> l_next_due_ts (fst (recover_monitor True fire t d))"
    and rec: "recovered d st (fst (recover_monitor True fire t d))
      (st'\<lparr>next_probe_at := l_next_due_ts (fst (recover_monitor True fire t d))\<rparr>)"
    by (auto simp: recovers_def)
  obtain n where n: "0 < n" "fst (repair_schedule (fst (recover_monitor True fire t d))) =
      put_monitor (fst (recover_monitor True fire t d)\<lparr>l_idle_secs := n\<rparr>)
        (st'\<lparr>next_probe_at := l_next_due_ts (fst (recover_monitor True fire t d))\<rparr>)"
    by (rule repair_schedule_keeps [OF st'])
  have "recovered d st (fst (recover_monitor True fire t d)\<lparr>l_idle_secs := n\<rparr>)
      (st'\<lparr>next_probe_at := l_next_due_ts (fst (recover_monitor True fire t d))\<rparr>)"
    using rec n(1) by (rule recovered_idle)
  with load n(2) show ?thesis by simp
qed

lemma restart_recovers_every_monitor_witness:
  "\<exists>d st l st' dirty. d \<in> set (disk sample_claim) \<and> wake_in_flight st \<and> reload_row True True 200 d = Some (l, dirty) \<and>
     l_monitor l = Some st' \<and> recovered d st l st'"
proof -
  have "(case disk sample_claim of [d] \<Rightarrow> \<not> l_gate d \<and> (case l_monitor d of None \<Rightarrow> False
      | Some st \<Rightarrow> version st = MONITOR_STATE_VERSION \<and> wake_in_flight st) | _ \<Rightarrow> False)"
    by code_simp
  then obtain d st where d: "d \<in> set (disk sample_claim)" "l_monitor d = Some st"
    "version st = MONITOR_STATE_VERSION" "\<not> l_gate d" "wake_in_flight st"
    by (auto split: list.splits option.splits)
  from restart_recovers_every_monitor [OF idle_service_ok no_tab_ok sample_run d(1-4), of True 200] d(1,5)
  show ?thesis by blast
qed

end
