(* ===== verification/Approval_Ladder.thy ===== *)
theory Approval_Ladder
  imports Prelude
begin

text \<open>
  The approval ladder of \<open>TurnDriver\<close> (\<open>messaging/driver.py\<close>): what happens to a permission
  request of a turn, from the switch for untrusted senders over the PreToolUse gate and the
  automatic approvals to the decider, and the configuration of it by the WhatsApp dispatcher.
  The gate, the check of a name grant and the predicates are arguments of the turn; what the
  decider answers is the subject of \<open>Approval_Typed\<close> and \<open>Approval_Widget\<close>.
\<close>

section \<open>A permission request and the turn it comes from\<close>

text \<open>What a request carries as far as the driver reads it; \<open>'e\<close> is the event the gate sees.\<close>

record 'e permission =
  p_event :: 'e
  p_tool_kind :: string

definition APPROVAL_AUTO :: string where "APPROVAL_AUTO = ''auto''"
definition APPROVAL_TRUST :: string where "APPROVAL_TRUST = ''trust''"
definition APPROVAL_TRUST_READS :: string where "APPROVAL_TRUST_READS = ''trust-reads''"
definition APPROVAL_INTERACTIVE :: string where "APPROVAL_INTERACTIVE = ''interactive''"

text \<open>The arguments of the driver; a predicate that is not given is \<open>None\<close>.\<close>

record 'e turn_policy =
  deny_all_tools :: bool
  tool_gate :: "('e \<Rightarrow> string) option"
  name_refused :: "'e \<Rightarrow> bool"
  auto_approve_tool :: "('e \<Rightarrow> bool) option"
  auto_approve_session :: "bool option"
  approval_mode :: string
  has_decider :: bool

datatype ladder_answer = LadderApprove | LadderReject | LadderAsk bool

text \<open>\<open>_approve\<close>. \<open>LadderAsk\<close> is the call of the decider; its argument says whether the
  renderer was given a prompt before.\<close>

definition approve_step :: "'e turn_policy \<Rightarrow> 'e permission \<Rightarrow> ladder_answer" where
  "approve_step pol ev =
     (if approval_mode pol = APPROVAL_AUTO \<or> approval_mode pol = APPROVAL_TRUST then LadderApprove
      else if approval_mode pol = APPROVAL_TRUST_READS
      then if p_tool_kind ev = ''read'' then LadderApprove else LadderReject
      else if has_decider pol then LadderAsk (approval_mode pol = APPROVAL_INTERACTIVE)
      else LadderReject)"

definition permission_request :: "'e turn_policy \<Rightarrow> 'e permission \<Rightarrow> ladder_answer" where
  "permission_request pol ev =
     (let gate = (case tool_gate pol of None \<Rightarrow> [] | Some g \<Rightarrow> g (p_event ev))
      in if deny_all_tools pol then LadderReject
         else if gate = ''deny'' then LadderReject
         else if gate = ''auto_approve'' \<and> \<not> name_refused pol (p_event ev) then LadderApprove
         else if (case auto_approve_tool pol of None \<Rightarrow> False | Some p \<Rightarrow> p (p_event ev)) then LadderApprove
         else if auto_approve_session pol = Some True then LadderApprove
         else approve_step pol ev)"

section \<open>The WhatsApp turn\<close>

text \<open>The driver's arguments for a message: by the sender being the operator, the turn being
  unprompted, the configured mode and the session's trust.\<close>

definition whatsapp_turn ::
  "('e \<Rightarrow> string) \<Rightarrow> ('e \<Rightarrow> bool) \<Rightarrow> ('e \<Rightarrow> bool) option \<Rightarrow> string \<Rightarrow> bool \<Rightarrow> bool \<Rightarrow> bool \<Rightarrow> 'e turn_policy" where
  "whatsapp_turn gate refused spawn_hook configured_mode is_operator unprompted trusted =
     (let may_approve = is_operator \<and> \<not> unprompted;
          mode = (if is_operator then configured_mode else APPROVAL_INTERACTIVE);
          decider = (mode = APPROVAL_INTERACTIVE \<and> may_approve)
      in \<lparr>deny_all_tools = \<not> is_operator, tool_gate = Some gate, name_refused = refused,
          auto_approve_tool = spawn_hook, auto_approve_session = (if decider then Some trusted else None),
          approval_mode = mode, has_decider = decider\<rparr>)"

section \<open>What the ladder guarantees\<close>

text \<open>A hard denial is final and silence is no consent: a request runs without asking anybody only
  if the turn admits tools, the gate does not deny it, and the gate, a predicate of the caller, or a
  mode that approves vouches for it; and nobody is asked about a request the gate denies.\<close>

theorem approval_needs_a_grant:
  "permission_request pol ev = LadderApprove \<longleftrightarrow>
     \<not> deny_all_tools pol \<and> (\<forall>g. tool_gate pol = Some g \<longrightarrow> g (p_event ev) \<noteq> ''deny'') \<and>
     ((\<exists>g. tool_gate pol = Some g \<and> g (p_event ev) = ''auto_approve'') \<and> \<not> name_refused pol (p_event ev) \<or>
      (\<exists>p. auto_approve_tool pol = Some p \<and> p (p_event ev)) \<or> auto_approve_session pol = Some True \<or>
      approval_mode pol \<in> {APPROVAL_AUTO, APPROVAL_TRUST} \<or>
      approval_mode pol = APPROVAL_TRUST_READS \<and> p_tool_kind ev = ''read'')"
  by (cases "tool_gate pol"; cases "auto_approve_tool pol")
     (auto simp: permission_request_def approve_step_def APPROVAL_AUTO_def APPROVAL_TRUST_def
       APPROVAL_TRUST_READS_def Let_def)

lemma asked_requests_passed_the_gate:
  "permission_request pol ev = LadderAsk b \<Longrightarrow>
     \<not> deny_all_tools pol \<and> has_decider pol \<and> (\<forall>g. tool_gate pol = Some g \<longrightarrow> g (p_event ev) \<noteq> ''deny'')"
  by (auto simp: permission_request_def approve_step_def Let_def split: if_splits option.splits)

text \<open>A sender who is not the operator can talk to the agent and cannot make it act: whatever the
  configured mode, the gate's grants and the session's trust, every request of such a turn is
  refused at once, without a prompt.\<close>

theorem strangers_run_no_tool:
  "permission_request (whatsapp_turn gate refused hook mode False unprompted trusted) ev = LadderReject"
  by (simp add: permission_request_def whatsapp_turn_def Let_def)

text \<open>A turn nobody watches never asks.\<close>

lemma unprompted_turn_never_asks:
  "permission_request (whatsapp_turn gate refused hook mode op True trusted) ev \<noteq> LadderAsk b"
  by (simp add: permission_request_def approve_step_def whatsapp_turn_def Let_def split: option.split)

end
