(* ===== verification/Approval_Typed.thy ===== *)
theory Approval_Typed
  imports Approval_Ladder
begin

text \<open>
  Tool approval by typed reply (the first half of \<open>messaging/approval.py\<close>), with its callers: the
  WhatsApp renderer that opens a request and sends the prompt, the decider that waits for the
  answer, and the dispatcher that reads a message as an answer.

  The registry is process-local and its functions do not suspend, so each is one atomic function;
  the renderer and the decider suspend, and \<open>ask_phase\<close> says where. Entries are objects that
  outlive their place in the registry, so they live in a store and the registry holds numbers.
  A timer may fire in the same turn of the event loop in which an answer arrives: the wait then
  ends in a denial, so \<open>TimedOut\<close> is possible as long as the waiter has not resumed.

  History fields: \<open>evidence\<close> numbers and keeps the answer that resolved an entry, \<open>answers\<close>
  counts them, and \<open>since\<close> is the count when a request was made.
\<close>

section \<open>Reading an answer\<close>

datatype verdict = VApprove | VDeny | VTrust

definition APPROVAL_ORDINALS :: "(string, verdict) dict" where
  "APPROVAL_ORDINALS = [(''1'', VApprove), (''2'', VDeny), (''3'', VTrust)]"

definition APPROVAL_WORDS :: "(string, verdict) dict" where
  "APPROVAL_WORDS = [(''approve'', VApprove), (''allow'', VApprove), (''yes'', VApprove), (''y'', VApprove),
     (''ok'', VApprove), (''deny'', VDeny), (''no'', VDeny), (''n'', VDeny), (''reject'', VDeny),
     (''cancel'', VDeny), (''trust'', VTrust), (''always'', VTrust)]"

definition rstrip_marks :: "string \<Rightarrow> string" where
  "rstrip_marks s = rev (dropWhile (\<lambda>c. c \<in> set ''.!'') (rev s))"

definition parse_approval_reply :: "string \<Rightarrow> verdict option" where
  "parse_approval_reply text =
     (let token = rstrip_marks (casefold (strip text))
      in if token = [] then None
         else case dict_get APPROVAL_ORDINALS token of
           Some v \<Rightarrow> Some v
         | None \<Rightarrow> dict_get APPROVAL_WORDS token)"

section \<open>The registry\<close>

text \<open>The future of an entry; nothing in the code cancels it (\<open>wait\<close> shields it).\<close>

datatype reply_future = Unanswered | Answered verdict

record pending_approval =
  pa_session :: string
  pa_request :: string
  pa_conversation :: string
  pa_title :: string
  pa_notice :: bool
  pa_future :: reply_future

datatype ask_phase =
    NotAsked
  | Prompting bool
  | AwaitingReply nat
  | Announcing nat
  | Concluded bool
  | TornDown

record question =
  q_session :: string
  q_request :: string
  q_conversation :: string

record desk =
  pending :: "(string, nat) dict"
  approval_at :: "nat \<Rightarrow> pending_approval"
  next_approval :: nat
  approval_policy :: "(string, string) dict"
  asker :: "nat \<Rightarrow> ask_phase"
  asked :: "nat \<Rightarrow> question"
  evidence :: "nat \<Rightarrow> (nat \<times> string \<times> string \<times> string) option"
  answers :: nat
  since :: "nat \<Rightarrow> nat"

definition key_sep :: char where "key_sep = CHR 0x0A"

definition registry_key :: "string \<Rightarrow> string \<Rightarrow> string" where
  "registry_key session_key request_id = session_key @ key_sep # request_id"

definition forget_approval :: "string \<Rightarrow> string \<Rightarrow> desk \<Rightarrow> desk" where
  "forget_approval session_key request_id w =
     w\<lparr>pending := dict_del (registry_key session_key request_id) (pending w)\<rparr>"

definition open_approval :: "string \<Rightarrow> string \<Rightarrow> string \<Rightarrow> string \<Rightarrow> bool \<Rightarrow> desk \<Rightarrow> desk" where
  "open_approval session_key request_id tool_title conversation_id notice w =
     (let key = registry_key session_key request_id
      in case dict_get (pending w) key of
        None \<Rightarrow> w\<lparr>approval_at := (approval_at w)(next_approval w :=
                    \<lparr>pa_session = session_key, pa_request = request_id, pa_conversation = conversation_id,
                     pa_title = tool_title, pa_notice = notice, pa_future = Unanswered\<rparr>),
                  pending := dict_set key (next_approval w) (pending w),
                  next_approval := next_approval w + 1\<rparr>
      | Some e \<Rightarrow>
          if tool_title \<noteq> [] \<and> pa_title (approval_at w e) = []
          then w\<lparr>approval_at := (approval_at w)(e := (approval_at w e)\<lparr>pa_title := tool_title\<rparr>)\<rparr> else w)"

definition claim_approval :: "string \<Rightarrow> string \<Rightarrow> desk \<Rightarrow> nat option" where
  "claim_approval session_key request_id w = dict_get (pending w) (registry_key session_key request_id)"

definition answerable :: "string \<Rightarrow> string \<Rightarrow> pending_approval \<Rightarrow> bool" where
  "answerable session_key conversation_id e \<longleftrightarrow> pa_session e = session_key \<and> pa_future e = Unanswered \<and>
     \<not> (conversation_id \<noteq> [] \<and> pa_conversation e \<noteq> [] \<and> pa_conversation e \<noteq> conversation_id)"

definition pending_for :: "string \<Rightarrow> string \<Rightarrow> desk \<Rightarrow> nat option" where
  "pending_for session_key conversation_id w =
     find (\<lambda>e. answerable session_key conversation_id (approval_at w e)) (map snd (pending w))"

datatype receipt = ReceiptApproved | ReceiptDenied | ReceiptTrusted | ReceiptExpired

fun receipt_for :: "verdict \<Rightarrow> receipt" where
  "receipt_for VApprove = ReceiptApproved"
| "receipt_for VTrust = ReceiptTrusted"
| "receipt_for VDeny = ReceiptDenied"

text \<open>\<open>deliver_verdict\<close>, with the answer's text for the history.\<close>

definition deliver_verdict :: "string \<Rightarrow> verdict \<Rightarrow> string \<Rightarrow> string \<Rightarrow> desk \<Rightarrow> desk \<times> receipt" where
  "deliver_verdict session_key v conversation_id text w =
     (case pending_for session_key conversation_id w of
        None \<Rightarrow> (w, ReceiptExpired)
      | Some e \<Rightarrow>
          (forget_approval (pa_session (approval_at w e)) (pa_request (approval_at w e))
             (w\<lparr>approval_at := (approval_at w)(e := (approval_at w e)\<lparr>pa_future := Answered v\<rparr>),
                evidence := (evidence w)(e \<mapsto> (answers w, session_key, conversation_id, text)),
                answers := answers w + 1\<rparr>),
           receipt_for v))"

definition abandon_approval :: "string \<Rightarrow> string \<Rightarrow> desk \<Rightarrow> desk" where
  "abandon_approval = forget_approval"

text \<open>\<open>_consume_approval_reply\<close>: no receipt means the message is not an answer and goes on to the
  commands and the agent.\<close>

definition consume_approval_reply :: "string \<Rightarrow> string \<Rightarrow> string \<Rightarrow> desk \<Rightarrow> (desk \<times> receipt) option" where
  "consume_approval_reply session_key conversation_id text w =
     (case parse_approval_reply text of
        None \<Rightarrow> None
      | Some v \<Rightarrow> if pending_for session_key conversation_id w = None then None
                  else Some (deliver_verdict session_key v conversation_id text w))"

section \<open>The renderer and the decider\<close>

definition set_asker :: "nat \<Rightarrow> ask_phase \<Rightarrow> desk \<Rightarrow> desk" where
  "set_asker t ph w = w\<lparr>asker := (asker w)(t := ph)\<rparr>"

text \<open>\<open>_grant_session_trust\<close> and \<open>trusted\<close>.\<close>

definition grant_session_trust :: "string \<Rightarrow> desk \<Rightarrow> desk" where
  "grant_session_trust session_key w = w\<lparr>approval_policy := dict_set session_key ''auto'' (approval_policy w)\<rparr>"

definition session_trusted :: "string \<Rightarrow> desk \<Rightarrow> bool" where
  "session_trusted session_key w \<longleftrightarrow> dict_get (approval_policy w) session_key = Some ''auto''"

text \<open>\<open>on_prompt_choice\<close> up to the send: a muted renderer opens nothing.\<close>

definition render_prompt :: "nat \<Rightarrow> question \<Rightarrow> string \<Rightarrow> bool \<Rightarrow> desk \<Rightarrow> desk" where
  "render_prompt t q title muted w =
     (let w = w\<lparr>asked := (asked w)(t := q), since := (since w)(t := answers w)\<rparr>
      in set_asker t (Prompting (\<not> muted))
           (if muted then w else open_approval (q_session q) (q_request q) title (q_conversation q) True w))"

text \<open>The end of \<open>wait\<close>, and the decider's reading of the verdict.\<close>

definition end_wait :: "nat \<Rightarrow> nat \<Rightarrow> ask_phase \<Rightarrow> desk \<Rightarrow> desk" where
  "end_wait t e ph w =
     set_asker t ph (forget_approval (pa_session (approval_at w e)) (pa_request (approval_at w e)) w)"

definition conclude :: "nat \<Rightarrow> nat \<Rightarrow> verdict \<Rightarrow> desk \<Rightarrow> desk" where
  "conclude t e v w =
     (let w = end_wait t e (Concluded (v \<noteq> VDeny)) w
      in if v = VTrust then grant_session_trust (q_session (asked w t)) w else w)"

definition call_decider :: "nat \<Rightarrow> desk \<Rightarrow> desk" where
  "call_decider t w =
     (case claim_approval (q_session (asked w t)) (q_request (asked w t)) w of
        None \<Rightarrow> set_asker t (Concluded False) w
      | Some e \<Rightarrow> (case pa_future (approval_at w e) of
            Answered v \<Rightarrow> conclude t e v w
          | Unanswered \<Rightarrow> set_asker t (AwaitingReply e) w))"

section \<open>Actions\<close>

datatype desk_action =
    AskFor nat question string bool
  | PromptSent nat
  | PromptFailed nat
  | Message string string string
  | ReplyWakes nat
  | TimedOut nat
  | Announced nat
  | TurnTorn nat

fun desk_step :: "desk_action \<Rightarrow> desk \<Rightarrow> desk option" where
  "desk_step (AskFor t q title muted) w =
     (if asker w t = NotAsked then Some (render_prompt t q title muted w) else None)"
| "desk_step (PromptSent t) w =
     (case asker w t of Prompting b \<Rightarrow> Some (call_decider t w) | _ \<Rightarrow> None)"
| "desk_step (PromptFailed t) w =
     (case asker w t of
        Prompting True \<Rightarrow> Some (set_asker t TornDown
          (abandon_approval (q_session (asked w t)) (q_request (asked w t)) w))
      | _ \<Rightarrow> None)"
| "desk_step (Message s c text) w =
     Some (case consume_approval_reply s c text w of None \<Rightarrow> w | Some (v, r) \<Rightarrow> v)"
| "desk_step (ReplyWakes t) w =
     (case asker w t of
        AwaitingReply e \<Rightarrow> (case pa_future (approval_at w e) of
            Answered v \<Rightarrow> Some (conclude t e v w) | Unanswered \<Rightarrow> None)
      | _ \<Rightarrow> None)"
| "desk_step (TimedOut t) w =
     (case asker w t of
        AwaitingReply e \<Rightarrow>
          Some (if pa_notice (approval_at w e) then set_asker t (Announcing e) w
                else end_wait t e (Concluded False) w)
      | _ \<Rightarrow> None)"
| "desk_step (Announced t) w =
     (case asker w t of Announcing e \<Rightarrow> Some (end_wait t e (Concluded False) w) | _ \<Rightarrow> None)"
| "desk_step (TurnTorn t) w =
     (case asker w t of
        Prompting b \<Rightarrow> Some (set_asker t TornDown w)
      | AwaitingReply e \<Rightarrow> Some (end_wait t e TornDown w)
      | Announcing e \<Rightarrow> Some (end_wait t e TornDown w)
      | _ \<Rightarrow> None)"

definition start_desk :: "(string, string) dict \<Rightarrow> desk" where
  "start_desk policy = \<lparr>pending = [],
     approval_at = (\<lambda>_. \<lparr>pa_session = [], pa_request = [], pa_conversation = [], pa_title = [],
       pa_notice = False, pa_future = Unanswered\<rparr>),
     next_approval = 0, approval_policy = policy, asker = (\<lambda>_. NotAsked),
     asked = (\<lambda>_. \<lparr>q_session = [], q_request = [], q_conversation = []\<rparr>),
     evidence = (\<lambda>_. None), answers = 0, since = (\<lambda>_. 0)\<rparr>"

inductive desk_run :: "(desk_action \<Rightarrow> desk \<Rightarrow> bool) \<Rightarrow> desk \<Rightarrow> bool" for P where
  desk_start: "desk_run P (start_desk policy)"
| desk_next: "desk_run P w \<Longrightarrow> P a w \<Longrightarrow> desk_step a w = Some w' \<Longrightarrow> desk_run P w'"

fun desk_steps :: "desk_action list \<Rightarrow> desk \<Rightarrow> desk option" where
  "desk_steps [] w = Some w"
| "desk_steps (a # as) w = (case desk_step a w of None \<Rightarrow> None | Some w \<Rightarrow> desk_steps as w)"

end
