(* ===== verification/Approval_Widget.thy ===== *)
theory Approval_Widget
  imports Approval_Typed
begin

text \<open>
  Tool approval by card press or typed digit (\<open>PendingApprovals\<close>, the second half of
  \<open>messaging/approval.py\<close>), with its callers in the Webex dispatcher and renderer: a renderer
  reserves the decision window and shows the nonce on the card, the decider adopts the reservation
  and waits, a press or a typed answer resolves it, and the end of every turn of a session discards
  the reservations of that session.

  Futures outlive their place in the registry, so they live in a store. The nonce generator
  (\<open>secrets\<close>) is the parameter \<open>mint\<close>: the nonce of its n-th call. What suspends is the send between
  \<open>reserve\<close> and \<open>decide\<close>, and the wait inside \<open>decide\<close>; a timeout or a cancellation first cancels the
  future the task waits on, and the task runs its \<open>finally\<close> a turn of the event loop later.

  History fields: \<open>window_key\<close> is the address a future was made for, \<open>rulings\<close> numbers and keeps the answer that resolved a future, \<open>ruled\<close> counts
  them, \<open>put_at\<close> is the count when a question was put, and \<open>minted_for\<close> the future a nonce was
  minted with.
\<close>

section \<open>The registry\<close>

datatype window = WOpen | WResult bool | WCancelled

text \<open>A ruling: a typed digit in a session, or a press with its request id and nonce.\<close>

datatype ruling = Typed string string | Pressed string string string

datatype widget_phase =
    WIdle
  | WSending
  | WDeciding nat
  | WClosing "bool option"
  | WDecided bool
  | WTorn

record board =
  windows :: "(string, nat) dict"
  nonces :: "(string, string) dict"
  window_at :: "nat \<Rightarrow> window"
  next_window :: nat
  next_nonce :: nat
  decider :: "nat \<Rightarrow> widget_phase"
  put :: "nat \<Rightarrow> string \<times> string"
  carded :: "nat \<Rightarrow> bool"
  window_key :: "nat \<Rightarrow> string"
  rulings :: "nat \<Rightarrow> (nat \<times> ruling) option"
  ruled :: nat
  put_at :: "nat \<Rightarrow> nat"
  minted_for :: "nat \<Rightarrow> nat"

definition prompt_key :: "string \<Rightarrow> string \<Rightarrow> string" where
  "prompt_key session_key request_id = session_key @ CHR 0x3A # request_id"

abbreviation window_open :: "board \<Rightarrow> nat \<Rightarrow> bool" where
  "window_open w e \<equiv> window_at w e = WOpen"

definition session_prefix :: "string \<Rightarrow> string" where
  "session_prefix session_key = session_key @ [CHR 0x3A]"

definition first_pending :: "string \<Rightarrow> string option \<Rightarrow> board \<Rightarrow> (string \<times> nat) option" where
  "first_pending session_key request_id w =
     (case request_id of
        Some r \<Rightarrow>
          (case dict_get (windows w) (prompt_key session_key r) of
             Some e \<Rightarrow> if window_open w e then Some (prompt_key session_key r, e) else None
           | None \<Rightarrow> None)
      | None \<Rightarrow>
          find (\<lambda>(k, e). starts_with k (session_prefix session_key) \<and> window_open w e) (windows w))"

definition has_pending :: "string \<Rightarrow> board \<Rightarrow> bool" where
  "has_pending session_key w \<longleftrightarrow> first_pending session_key None w \<noteq> None"

text \<open>\<open>resolve\<close>, with the ruling for the history.\<close>

definition resolve_prompt :: "string \<Rightarrow> bool \<Rightarrow> string option \<Rightarrow> string \<Rightarrow> ruling \<Rightarrow> board \<Rightarrow> board \<times> bool" where
  "resolve_prompt session_key approved request_id expected_nonce rl w =
     (case first_pending session_key request_id w of
        None \<Rightarrow> (w, False)
      | Some (key, e) \<Rightarrow>
          if expected_nonce \<noteq> [] \<and>
             (dict_get_default (nonces w) key [] = [] \<or> expected_nonce \<noteq> dict_get_default (nonces w) key [])
          then (w, False)
          else (w\<lparr>window_at := (window_at w)(e := WResult approved),
                  rulings := (rulings w)(e \<mapsto> (ruled w, rl)), ruled := ruled w + 1\<rparr>, True))"

definition new_window :: "string \<Rightarrow> board \<Rightarrow> board" where
  "new_window key w =
     w\<lparr>windows := dict_set key (next_window w) (windows w),
       window_at := (window_at w)(next_window w := WOpen), window_key := (window_key w)(next_window w := key),
       next_window := next_window w + 1\<rparr>"

definition window_done :: "string \<Rightarrow> board \<Rightarrow> bool" where
  "window_done key w \<longleftrightarrow> (case dict_get (windows w) key of None \<Rightarrow> True | Some e \<Rightarrow> \<not> window_open w e)"

definition mint_nonce :: "(nat \<Rightarrow> string) \<Rightarrow> string \<Rightarrow> board \<Rightarrow> board" where
  "mint_nonce mint key w =
     w\<lparr>nonces := dict_set key (mint (next_nonce w)) (nonces w), next_nonce := next_nonce w + 1,
       minted_for := (minted_for w)(next_nonce w := the (dict_get (windows w) key))\<rparr>"

definition reserve_prompt :: "(nat \<Rightarrow> string) \<Rightarrow> string \<Rightarrow> string \<Rightarrow> board \<Rightarrow> board \<times> string" where
  "reserve_prompt mint session_key request_id w =
     (let key = prompt_key session_key request_id;
          w = (if window_done key w then new_window key w else w);
          w = (if dict_get_default (nonces w) key [] = [] then mint_nonce mint key w else w)
      in (w, dict_get_default (nonces w) key []))"

definition retire :: "string \<Rightarrow> board \<Rightarrow> board" where
  "retire key w = w\<lparr>windows := dict_del key (windows w), nonces := dict_del key (nonces w)\<rparr>"

definition unawaited :: "string \<Rightarrow> board \<Rightarrow> string list" where
  "unawaited session_key w =
     map fst (filter (\<lambda>(k, e). starts_with k (session_prefix session_key) \<and> window_open w e) (windows w))"

definition discard_reservations :: "string \<Rightarrow> board \<Rightarrow> board" where
  "discard_reservations session_key w = fold retire (unawaited session_key w) w"

section \<open>The renderer and the decider\<close>

definition set_decider :: "nat \<Rightarrow> widget_phase \<Rightarrow> board \<Rightarrow> board" where
  "set_decider t ph w = w\<lparr>decider := (decider w)(t := ph)\<rparr>"

definition put_key :: "board \<Rightarrow> nat \<Rightarrow> string" where
  "put_key w t = prompt_key (fst (put w t)) (snd (put w t))"

text \<open>\<open>on_prompt_choice\<close> up to the send: only a card reserves.\<close>

definition put_question :: "(nat \<Rightarrow> string) \<Rightarrow> nat \<Rightarrow> string \<Rightarrow> string \<Rightarrow> bool \<Rightarrow> board \<Rightarrow> board" where
  "put_question mint t session_key request_id with_card w =
     (let w = w\<lparr>put := (put w)(t := (session_key, request_id)), carded := (carded w)(t := with_card),
                put_at := (put_at w)(t := ruled w)\<rparr>
      in set_decider t WSending (if with_card then fst (reserve_prompt mint session_key request_id w) else w))"

text \<open>\<open>decide\<close> up to its first suspension: a result already there is the decision; the result of a
  cancelled future raises.\<close>

definition decide :: "nat \<Rightarrow> board \<Rightarrow> board" where
  "decide t w =
     (case dict_get (windows w) (put_key w t) of
        None \<Rightarrow> set_decider t (WDeciding (next_window w)) (new_window (put_key w t) w)
      | Some e \<Rightarrow>
          (case window_at w e of
             WResult b \<Rightarrow> set_decider t (WDecided b) (retire (put_key w t) w)
           | WCancelled \<Rightarrow> set_decider t WTorn (retire (put_key w t) w)
           | WOpen \<Rightarrow> set_decider t (WDeciding e) w))"

definition cancel_window :: "nat \<Rightarrow> board \<Rightarrow> board" where
  "cancel_window e w = (if window_open w e then w\<lparr>window_at := (window_at w)(e := WCancelled)\<rparr> else w)"

section \<open>The inbound side\<close>

definition APPROVE_REPLIES :: "string list" where "APPROVE_REPLIES = [''1'', ''approve'']"
definition DENY_REPLIES :: "string list" where "DENY_REPLIES = [''2'', ''deny'']"

datatype intake = NotAnAnswer | Dropped | Applied bool | NotPending

text \<open>\<open>handle_message\<close> up to \<open>_maybe_answer_approval\<close>, and that function.\<close>

definition typed_answer :: "string \<Rightarrow> string \<Rightarrow> bool \<Rightarrow> board \<Rightarrow> board \<times> intake" where
  "typed_answer session_key text permitted w =
     (let answer = casefold (strip text);
          approved = answer \<in> set APPROVE_REPLIES;
          denied = answer \<in> set DENY_REPLIES
      in if \<not> has_pending session_key w then (w, NotAnAnswer)
         else if \<not> approved \<and> \<not> denied then (w, NotAnAnswer)
         else if approved \<and> \<not> permitted then (w, Dropped)
         else case resolve_prompt session_key approved None [] (Typed session_key text) w of
           (w, ok) \<Rightarrow> (w, if ok then Applied approved else NotPending))"

text \<open>\<open>_handle_card_press\<close> on an approval card from an allowed sender, and \<open>_resolve_card_approval\<close>.\<close>

definition card_press :: "string \<Rightarrow> string \<Rightarrow> string \<Rightarrow> string \<Rightarrow> bool \<Rightarrow> board \<Rightarrow> board \<times> intake" where
  "card_press session_key choice nonce request_id permitted w =
     (let approved = (choice = ''approve'')
      in if approved \<and> \<not> permitted then (w, Dropped)
         else if nonce = [] \<or> request_id = [] then (w, NotPending)
         else case resolve_prompt session_key approved (Some request_id) nonce (Pressed session_key request_id nonce) w of
           (w, ok) \<Rightarrow> (w, if ok then Applied approved else NotPending))"

section \<open>Actions\<close>

datatype board_action =
    Put nat string string bool
  | Sent nat
  | SendTorn nat
  | TypedIn string string bool
  | CardPress string string string string bool
  | DeciderWakes nat
  | WaitExpires nat
  | WaitCancelled nat
  | WaitUnwinds nat
  | TurnEnds string

fun board_step :: "(nat \<Rightarrow> string) \<Rightarrow> board_action \<Rightarrow> board \<Rightarrow> board option" where
  "board_step mint (Put t s r with_card) w =
     (if decider w t = WIdle then Some (put_question mint t s r with_card w) else None)"
| "board_step mint (Sent t) w = (if decider w t = WSending then Some (decide t w) else None)"
| "board_step mint (SendTorn t) w = (if decider w t = WSending then Some (set_decider t WTorn w) else None)"
| "board_step mint (TypedIn s text permitted) w = Some (fst (typed_answer s text permitted w))"
| "board_step mint (CardPress s choice nonce r permitted) w = Some (fst (card_press s choice nonce r permitted w))"
| "board_step mint (DeciderWakes t) w =
     (case decider w t of
        WDeciding e \<Rightarrow> (case window_at w e of
            WResult b \<Rightarrow> Some (set_decider t (WDecided b) (retire (put_key w t) w))
          | WCancelled \<Rightarrow> Some (set_decider t WTorn (retire (put_key w t) w))
          | WOpen \<Rightarrow> None)
      | _ \<Rightarrow> None)"
| "board_step mint (WaitExpires t) w =
     (case decider w t of WDeciding e \<Rightarrow> Some (set_decider t (WClosing (Some False)) (cancel_window e w)) | _ \<Rightarrow> None)"
| "board_step mint (WaitCancelled t) w =
     (case decider w t of WDeciding e \<Rightarrow> Some (set_decider t (WClosing None) (cancel_window e w)) | _ \<Rightarrow> None)"
| "board_step mint (WaitUnwinds t) w =
     (case decider w t of
        WClosing r \<Rightarrow> Some (set_decider t (case r of Some b \<Rightarrow> WDecided b | None \<Rightarrow> WTorn) (retire (put_key w t) w))
      | _ \<Rightarrow> None)"
| "board_step mint (TurnEnds s) w = Some (discard_reservations s w)"

definition start_board :: board where
  "start_board = \<lparr>windows = [], nonces = [], window_at = (\<lambda>_. WCancelled), next_window = 0, next_nonce = 0,
     decider = (\<lambda>_. WIdle), put = (\<lambda>_. ([], [])), carded = (\<lambda>_. False), window_key = (\<lambda>_. []), rulings = (\<lambda>_. None), ruled = 0,
     put_at = (\<lambda>_. 0), minted_for = (\<lambda>_. 0)\<rparr>"

inductive board_run :: "(nat \<Rightarrow> string) \<Rightarrow> (board_action \<Rightarrow> board \<Rightarrow> bool) \<Rightarrow> board \<Rightarrow> bool" for mint P where
  board_start: "board_run mint P start_board"
| board_next: "board_run mint P w \<Longrightarrow> P a w \<Longrightarrow> board_step mint a w = Some w' \<Longrightarrow> board_run mint P w'"

fun board_steps :: "(nat \<Rightarrow> string) \<Rightarrow> board_action list \<Rightarrow> board \<Rightarrow> board option" where
  "board_steps mint [] w = Some w"
| "board_steps mint (a # as) w = (case board_step mint a w of None \<Rightarrow> None | Some w \<Rightarrow> board_steps mint as w)"

end
