(* ===== verification/Approval_Consent.thy ===== *)
theory Approval_Consent
  imports Approval_Typed
begin

text \<open>
  What the typed-reply approvals guarantee in every interleaving of renderers, deciders, messages
  and timers: an approval is backed by an answer to this very request, given after it was made,
  by a message of its session (and, while no request is made over one still registered, of its
  conversation). The last section shows where a receipt and the outcome part ways.
\<close>

section \<open>The invariant\<close>

definition backed :: "desk \<Rightarrow> nat \<Rightarrow> nat \<Rightarrow> bool" where
  "backed w t e \<longleftrightarrow> e < next_approval w \<and>
     registry_key (q_session (asked w t)) (q_request (asked w t)) =
       registry_key (pa_session (approval_at w e)) (pa_request (approval_at w e)) \<and>
     (\<forall>x. evidence w e = Some x \<longrightarrow> since w t \<le> fst x)"

fun phase_ok :: "desk \<Rightarrow> nat \<Rightarrow> ask_phase \<Rightarrow> bool" where
  "phase_ok w t (AwaitingReply e) = backed w t e"
| "phase_ok w t (Announcing e) = backed w t e"
| "phase_ok w t (Concluded b) =
     (b \<longrightarrow> (\<exists>e v. backed w t e \<and> pa_future (approval_at w e) = Answered v \<and> v \<noteq> VDeny))"
| "phase_ok w t _ = True"

definition entry_ok :: "desk \<Rightarrow> nat \<Rightarrow> bool" where
  "entry_ok w e \<longleftrightarrow>
     (pa_future (approval_at w e) = Unanswered \<longrightarrow> evidence w e = None) \<and>
     (\<forall>v. pa_future (approval_at w e) = Answered v \<longrightarrow>
        (\<exists>n c text. evidence w e = Some (n, pa_session (approval_at w e), c, text) \<and> n < answers w \<and>
          parse_approval_reply text = Some v \<and>
          (c = [] \<or> pa_conversation (approval_at w e) = [] \<or> pa_conversation (approval_at w e) = c)))"

definition desk_ok :: "desk \<Rightarrow> bool" where
  "desk_ok w \<longleftrightarrow> dict_wf (pending w) \<and>
     (\<forall>k e. dict_get (pending w) k = Some e \<longrightarrow> e < next_approval w \<and>
        k = registry_key (pa_session (approval_at w e)) (pa_request (approval_at w e)) \<and>
        pa_future (approval_at w e) = Unanswered) \<and>
     (\<forall>e < next_approval w. entry_ok w e) \<and> (\<forall>e \<ge> next_approval w. evidence w e = None) \<and>
     (\<forall>t. since w t \<le> answers w) \<and> (\<forall>t. phase_ok w t (asker w t))"

lemma desk_okD:
  assumes "desk_ok w"
  shows "dict_wf (pending w)" "dict_get (pending w) k = Some e \<Longrightarrow> e < next_approval w"
    "dict_get (pending w) k = Some e \<Longrightarrow> k = registry_key (pa_session (approval_at w e)) (pa_request (approval_at w e))"
    "dict_get (pending w) k = Some e \<Longrightarrow> pa_future (approval_at w e) = Unanswered"
    "e < next_approval w \<Longrightarrow> entry_ok w e" "next_approval w \<le> e \<Longrightarrow> evidence w e = None"
    "since w t \<le> answers w" "phase_ok w t (asker w t)"
  using assms unfolding desk_ok_def by blast+

lemma registered_unanswered:
  "desk_ok w \<Longrightarrow> dict_get (pending w) k = Some e \<Longrightarrow> evidence w e = None"
  using desk_okD(2,4,5) by (metis entry_ok_def)

text \<open>Titles, policies and phases do not matter to a phase or an entry.\<close>

definition same_entries :: "desk \<Rightarrow> desk \<Rightarrow> bool" where
  "same_entries w w' \<longleftrightarrow> next_approval w' = next_approval w \<and> asked w' = asked w \<and> since w' = since w \<and>
     evidence w' = evidence w \<and> answers w' = answers w \<and>
     (\<forall>e. pa_future (approval_at w' e) = pa_future (approval_at w e) \<and>
          pa_session (approval_at w' e) = pa_session (approval_at w e) \<and>
          pa_request (approval_at w' e) = pa_request (approval_at w e) \<and>
          pa_conversation (approval_at w' e) = pa_conversation (approval_at w e))"

lemma same_entries_ok:
  assumes "same_entries w w'"
  shows "phase_ok w' t ph = phase_ok w t ph" "entry_ok w' e = entry_ok w e"
proof -
  have b: "backed w' t e = backed w t e" for e
    using assms by (simp add: backed_def same_entries_def)
  show "phase_ok w' t ph = phase_ok w t ph"
    using assms by (cases ph) (simp_all add: b same_entries_def)
  show "entry_ok w' e = entry_ok w e"
    using assms unfolding entry_ok_def same_entries_def by simp
qed

lemma same_desk_ok:
  assumes "desk_ok w" "same_entries w w'" "dict_wf (pending w')"
    and "\<And>k e. dict_get (pending w') k = Some e \<Longrightarrow> dict_get (pending w) k = Some e"
    and "\<And>t. asker w' t = asker w t \<or> phase_ok w t (asker w' t)"
  shows "desk_ok w'"
proof -
  have "phase_ok w t (asker w' t)" for t using assms(1,5) by (metis desk_okD(8))
  then show ?thesis
    using assms(1,3,4) same_entries_ok [OF assms(2)] assms(2) unfolding desk_ok_def same_entries_def
    by (simp only:) blast
qed

lemma end_wait_ok: "desk_ok w \<Longrightarrow> phase_ok w t ph \<Longrightarrow> desk_ok (end_wait t e ph w)"
  by (rule same_desk_ok)
     (auto simp: end_wait_def set_asker_def forget_approval_def same_entries_def desk_okD(1) simp del: map_of_eq_Some_iff split: if_splits)

lemma set_asker_ok: "desk_ok w \<Longrightarrow> phase_ok w t ph \<Longrightarrow> desk_ok (set_asker t ph w)"
  by (rule same_desk_ok) (auto simp: set_asker_def same_entries_def desk_okD(1))

lemma forget_ok: "desk_ok w \<Longrightarrow> desk_ok (forget_approval s r w)"
  by (rule same_desk_ok)
     (auto simp: forget_approval_def same_entries_def desk_okD(1) simp del: map_of_eq_Some_iff split: if_splits)

lemma grant_ok: "desk_ok w \<Longrightarrow> desk_ok (grant_session_trust s w)"
  by (rule same_desk_ok) (auto simp: grant_session_trust_def same_entries_def desk_okD(1))

lemma conclude_ok:
  assumes "desk_ok w" "backed w t e" "pa_future (approval_at w e) = Answered v"
  shows "desk_ok (conclude t e v w)"
proof -
  have "desk_ok (end_wait t e (Concluded (v \<noteq> VDeny)) w)" using assms by (intro end_wait_ok) auto
  then show ?thesis by (cases "v = VTrust") (simp_all add: conclude_def Let_def grant_ok)
qed

lemma backed_mono:
  assumes "phase_ok w t ph" and b: "\<And>e. backed w t e \<Longrightarrow> backed w' t e"
    and f: "\<And>e v. e < next_approval w \<Longrightarrow> pa_future (approval_at w e) = Answered v \<Longrightarrow> pa_future (approval_at w' e) = Answered v"
  shows "phase_ok w' t ph"
proof (cases ph)
  case (Concluded y)
  show ?thesis
  proof (cases y)
    case True
    with Concluded assms(1) obtain e v where "backed w t e" "pa_future (approval_at w e) = Answered v" "v \<noteq> VDeny" by auto
    then have "backed w' t e" "pa_future (approval_at w' e) = Answered v" "v \<noteq> VDeny"
      using b f unfolding backed_def by blast+
    then show ?thesis unfolding Concluded phase_ok.simps by blast
  qed (simp add: Concluded)
qed (use assms(1) b in simp_all)

lemma open_approval_ok:
  assumes "desk_ok w"
  shows "desk_ok (open_approval s r title c notice w)" (is "desk_ok ?w")
proof (cases "dict_get (pending w) (registry_key s r)")
  case None
  let ?n = "next_approval w"
  have at: "approval_at ?w e = approval_at w e" if "e \<noteq> ?n" for e
    using that None by (simp add: open_approval_def)
  have new: "pa_future (approval_at ?w ?n) = Unanswered" "pa_session (approval_at ?w ?n) = s"
    "pa_request (approval_at ?w ?n) = r" "pending ?w = dict_set (registry_key s r) ?n (pending w)"
    "next_approval ?w = Suc ?n" "evidence ?w = evidence w" "answers ?w = answers w" "since ?w = since w"
    "asker ?w = asker w" "asked ?w = asked w"
    using None by (simp_all add: open_approval_def)
  have "backed ?w t e" if "backed w t e" for t e
    using that at [of e] by (simp add: backed_def new)
  then have "phase_ok ?w t (asker w t)" for t
    by (rule backed_mono [OF desk_okD(8) [OF assms]]) (simp_all add: at)
  moreover have "entry_ok ?w e" if "e < Suc ?n" for e
    using that desk_okD(5,6) [OF assms, of e] at [of e] by (cases "e = ?n") (auto simp: entry_ok_def new)
  moreover have "e < Suc ?n \<and> k = registry_key (pa_session (approval_at ?w e)) (pa_request (approval_at ?w e)) \<and>
      pa_future (approval_at ?w e) = Unanswered" if "dict_get (pending ?w) k = Some e" for k e
    using that desk_okD(2-4) [OF assms, of k e] at [of e]
    by (auto simp: new less_Suc_eq simp del: map_of_eq_Some_iff split: if_splits)
  ultimately show ?thesis
    using desk_okD(1,6,7) [OF assms] unfolding desk_ok_def new(5-9) by (simp add: new(4))
next
  case (Some e)
  then show ?thesis
    by (intro same_desk_ok [OF assms]) (auto simp: open_approval_def same_entries_def desk_okD(1) [OF assms]
         simp del: map_of_eq_Some_iff split: if_splits)
qed


lemma pending_for_Some:
  assumes "pending_for s c w = Some e"
  shows "e \<in> snd ` set (pending w)" "answerable s c (approval_at w e)"
  using assms by (auto simp: pending_for_def find_Some_iff in_set_conv_nth image_iff Bex_def)
     (metis nth_mem prod.collapse)

lemma deliver_ok:
  assumes "desk_ok w" "parse_approval_reply text = Some v" "pending_for s c w = Some e"
  shows "desk_ok (fst (deliver_verdict s v c text w))" (is "desk_ok ?w")
proof -
  let ?k = "registry_key (pa_session (approval_at w e)) (pa_request (approval_at w e))"
  obtain k where k: "dict_get (pending w) k = Some e"
    using pending_for_Some(1) [OF assms(3)] desk_okD(1) [OF assms(1)] by auto
  have e: "e < next_approval w" "k = ?k" "pa_future (approval_at w e) = Unanswered" "evidence w e = None"
    using desk_okD(2-4) [OF assms(1) k] registered_unanswered [OF assms(1) k] by simp_all
  have a: "answerable s c (approval_at w e)" by (rule pending_for_Some(2) [OF assms(3)])
  have new: "next_approval ?w = next_approval w" "asked ?w = asked w" "since ?w = since w" "asker ?w = asker w"
    "evidence ?w = (evidence w)(e \<mapsto> (answers w, s, c, text))" "answers ?w = Suc (answers w)"
    "pending ?w = dict_del ?k (pending w)"
    "approval_at ?w = (approval_at w)(e := (approval_at w e)\<lparr>pa_future := Answered v\<rparr>)"
    by (simp_all add: deliver_verdict_def assms(3) forget_approval_def)
  have backed: "backed ?w t x" if "backed w t x" for t x
    using that desk_okD(7) [OF assms(1), of t] by (auto simp: backed_def new)
  have "phase_ok ?w t (asker w t)" for t
    by (rule backed_mono [OF desk_okD(8) [OF assms(1)] backed]) (use e(3) in \<open>auto simp: new\<close>)
  moreover have "entry_ok ?w x" if "x < next_approval w" for x
  proof (cases "x = e")
    case True
    then show ?thesis using a assms(2) by (auto simp: entry_ok_def new answerable_def)
  next
    case False
    then show ?thesis using desk_okD(5) [OF assms(1) that] by (auto simp: entry_ok_def new)
  qed
  moreover have "x < next_approval w \<and> j = registry_key (pa_session (approval_at ?w x)) (pa_request (approval_at ?w x)) \<and>
      pa_future (approval_at ?w x) = Unanswered" if "dict_get (pending ?w) j = Some x" for j x
  proof -
    have j: "j \<noteq> ?k" "dict_get (pending w) j = Some x"
      using that by (simp_all add: new del: map_of_eq_Some_iff split: if_splits)
    then have "x \<noteq> e" using desk_okD(3) [OF assms(1) j(2)] by blast
    then show ?thesis using desk_okD(2-4) [OF assms(1) j(2)] by (simp add: new)
  qed
  ultimately show ?thesis
    using desk_okD(1,6,7) [OF assms(1)] e(1) unfolding desk_ok_def new(1-6) by (simp add: new(7) le_SucI)
qed


lemma call_decider_ok:
  assumes "desk_ok w"
  shows "desk_ok (call_decider t w)"
proof (cases "claim_approval (q_session (asked w t)) (q_request (asked w t)) w")
  case (Some e)
  then have k: "dict_get (pending w) (registry_key (q_session (asked w t)) (q_request (asked w t))) = Some e"
    by (simp add: claim_approval_def)
  have "backed w t e"
    using desk_okD(2,3) [OF assms k] registered_unanswered [OF assms k] by (simp add: backed_def)
  then show ?thesis
    using Some desk_okD(4) [OF assms k] by (simp add: call_decider_def set_asker_ok [OF assms])
qed (simp add: call_decider_def set_asker_ok [OF assms])

lemma render_prompt_ok:
  assumes "desk_ok w" "asker w t = NotAsked"
  shows "desk_ok (render_prompt t q title muted w)"
proof -
  let ?v = "w\<lparr>asked := (asked w)(t := q), since := (since w)(t := answers w)\<rparr>"
  have "phase_ok ?v u (asker w u)" for u
  proof (cases "u = t")
    case False
    have "backed ?v u e = backed w u e" for e using False by (simp add: backed_def)
    then show ?thesis
      using backed_mono [OF desk_okD(8) [OF assms(1), of u], of ?v] by simp
  qed (simp add: assms(2))
  then have "desk_ok ?v" using assms(1) by (simp add: desk_ok_def entry_ok_def del: map_of_eq_Some_iff)
  then show ?thesis by (simp add: render_prompt_def Let_def set_asker_ok open_approval_ok)
qed

lemma desk_step_ok:
  assumes "desk_ok w" "desk_step a w = Some w'"
  shows "desk_ok w'"
proof (cases a)
  case (AskFor t q title muted)
  with assms show ?thesis using render_prompt_ok by (auto split: if_splits)
next
  case (PromptSent t)
  with assms show ?thesis using call_decider_ok by (auto split: ask_phase.splits)
next
  case (PromptFailed t)
  with assms show ?thesis
    by (auto simp: abandon_approval_def set_asker_ok forget_ok split: ask_phase.splits bool.splits)
next
  case (Message s c body)
  with assms show ?thesis
    using deliver_ok [OF assms(1)]
    by (auto simp: consume_approval_reply_def split: option.splits if_splits) (metis fst_conv)+
next
  case (ReplyWakes t)
  with assms show ?thesis
    using desk_okD(8) [OF assms(1), of t] conclude_ok [OF assms(1)] by (auto split: ask_phase.splits reply_future.splits)
next
  case (TimedOut t)
  with assms show ?thesis
    using desk_okD(8) [OF assms(1), of t] by (auto simp: set_asker_ok end_wait_ok split: ask_phase.splits if_splits)
next
  case (Announced t)
  with assms show ?thesis by (auto simp: end_wait_ok split: ask_phase.splits)
next
  case (TurnTorn t)
  with assms show ?thesis by (auto simp: end_wait_ok set_asker_ok split: ask_phase.splits)
qed

lemma desk_run_ok: "desk_run P w \<Longrightarrow> desk_ok w"
proof (induction rule: desk_run.induct)
  case (desk_start policy)
  show ?case by (simp add: start_desk_def desk_ok_def)
next
  case (desk_next w a w')
  then show ?case using desk_step_ok by blast
qed


section \<open>Consent\<close>

text \<open>The registry's keys are unambiguous as long as session keys contain no newline.\<close>

lemma registry_key_inj:
  assumes "key_sep \<notin> set s" "key_sep \<notin> set s'"
  shows "registry_key s r = registry_key s' r' \<longleftrightarrow> s = s' \<and> r = r'"
proof
  assume "registry_key s r = registry_key s' r'"
  then have "partition_at key_sep (s @ key_sep # r) = partition_at key_sep (s' @ key_sep # r')"
    by (simp only: registry_key_def)
  then show "s = s' \<and> r = r'" unfolding partition_at_append [OF assms(1)] partition_at_append [OF assms(2)] by simp
qed simp

definition plain_sessions :: "desk_action \<Rightarrow> desk \<Rightarrow> bool" where
  "plain_sessions a w \<longleftrightarrow> (case a of AskFor t q title muted \<Rightarrow> key_sep \<notin> set (q_session q) | _ \<Rightarrow> True)"

definition sessions_plain :: "desk \<Rightarrow> bool" where
  "sessions_plain w \<longleftrightarrow> (\<forall>t. key_sep \<notin> set (q_session (asked w t))) \<and>
     (\<forall>e. key_sep \<notin> set (pa_session (approval_at w e)))"

lemma sessions_plain_cong:
  "sessions_plain w \<Longrightarrow> asked w' = asked w \<Longrightarrow> (\<And>e. pa_session (approval_at w' e) = pa_session (approval_at w e)) \<Longrightarrow>
   sessions_plain w'"
  by (simp add: sessions_plain_def)

lemma question_frames [simp]:
  "asked (forget_approval s r w) = asked w" "approval_at (forget_approval s r w) = approval_at w"
  "asked (set_asker t ph w) = asked w" "approval_at (set_asker t ph w) = approval_at w"
  "asked (grant_session_trust s w) = asked w" "approval_at (grant_session_trust s w) = approval_at w"
  "asked (end_wait t e ph w) = asked w" "approval_at (end_wait t e ph w) = approval_at w"
  "asked (conclude t e v w) = asked w" "approval_at (conclude t e v w) = approval_at w"
  "asked (call_decider t w) = asked w" "approval_at (call_decider t w) = approval_at w"
  by (simp_all add: call_decider_def conclude_def end_wait_def Let_def set_asker_def forget_approval_def
      grant_session_trust_def split: option.split reply_future.split)

lemma render_prompt_plain:
  "sessions_plain w \<Longrightarrow> key_sep \<notin> set (q_session q) \<Longrightarrow> sessions_plain (render_prompt t q title muted w)"
  by (auto simp: sessions_plain_def render_prompt_def Let_def set_asker_def open_approval_def split: option.split)

lemma desk_step_plain:
  assumes "sessions_plain w" "plain_sessions a w" "desk_step a w = Some w'"
  shows "sessions_plain w'"
proof (cases a)
  case (AskFor t q title muted)
  with assms show ?thesis using render_prompt_plain by (auto simp: plain_sessions_def split: if_splits)
next
  case (Message s c body)
  have "asked w' = asked w \<and> (\<forall>e. pa_session (approval_at w' e) = pa_session (approval_at w e))"
    using assms(3) unfolding Message
    by (auto simp: consume_approval_reply_def deliver_verdict_def forget_approval_def split: option.splits if_splits)
  then show ?thesis using sessions_plain_cong [OF assms(1)] by blast
qed (rule sessions_plain_cong [OF assms(1)];
      use assms(3) in \<open>auto simp: abandon_approval_def split: ask_phase.splits reply_future.splits bool.splits\<close>)+

lemma plain_run: "desk_run plain_sessions w \<Longrightarrow> sessions_plain w"
proof (induction rule: desk_run.induct)
  case (desk_start policy)
  show ?case by (simp add: start_desk_def sessions_plain_def)
next
  case (desk_next w a w')
  then show ?case using desk_step_plain by blast
qed

text \<open>Every entry was registered by a turn that asked with its session, request and conversation.\<close>

definition registered :: "desk \<Rightarrow> bool" where
  "registered w \<longleftrightarrow> (\<forall>e < next_approval w. \<exists>t. asker w t \<noteq> NotAsked \<and>
     q_session (asked w t) = pa_session (approval_at w e) \<and> q_request (asked w t) = pa_request (approval_at w e) \<and>
     q_conversation (asked w t) = pa_conversation (approval_at w e))"

lemma registered_cong:
  assumes "registered w" "next_approval w' = next_approval w" "asked w' = asked w"
    and "\<And>e. pa_session (approval_at w' e) = pa_session (approval_at w e) \<and>
      pa_request (approval_at w' e) = pa_request (approval_at w e) \<and>
      pa_conversation (approval_at w' e) = pa_conversation (approval_at w e)"
    and "\<And>t. asker w t \<noteq> NotAsked \<Longrightarrow> asker w' t \<noteq> NotAsked"
  shows "registered w'"
  unfolding registered_def
proof (intro allI impI)
  fix e assume "e < next_approval w'"
  then obtain t where "asker w t \<noteq> NotAsked" "q_session (asked w t) = pa_session (approval_at w e)"
      "q_request (asked w t) = pa_request (approval_at w e)" "q_conversation (asked w t) = pa_conversation (approval_at w e)"
    using assms(1,2) unfolding registered_def by auto
  then show "\<exists>t. asker w' t \<noteq> NotAsked \<and> q_session (asked w' t) = pa_session (approval_at w' e) \<and>
      q_request (asked w' t) = pa_request (approval_at w' e) \<and> q_conversation (asked w' t) = pa_conversation (approval_at w' e)"
    using assms(3-5) by (intro exI [of _ t]) simp
qed

lemma asker_frames [simp]:
  "next_approval (set_asker t ph w) = next_approval w" "asker (set_asker t ph w) = (asker w)(t := ph)"
  "next_approval (end_wait t e ph w) = next_approval w" "asker (end_wait t e ph w) = (asker w)(t := ph)"
  "next_approval (conclude t e v w) = next_approval w" "asker (conclude t e v w) = (asker w)(t := Concluded (v \<noteq> VDeny))"
  "next_approval (call_decider t w) = next_approval w" "asker (call_decider t w) u = NotAsked \<longleftrightarrow> u \<noteq> t \<and> asker w u = NotAsked"
  "next_approval (forget_approval s r w) = next_approval w" "asker (forget_approval s r w) = asker w"
  by (simp_all add: call_decider_def conclude_def end_wait_def Let_def set_asker_def forget_approval_def
      grant_session_trust_def split: option.split reply_future.split)

lemma render_prompt_registered:
  assumes "registered w" "asker w t = NotAsked"
  shows "registered (render_prompt t q title muted w)"
  unfolding registered_def
proof (intro allI impI)
  fix e assume e: "e < next_approval (render_prompt t q title muted w)"
  show "\<exists>u. asker (render_prompt t q title muted w) u \<noteq> NotAsked \<and>
      q_session (asked (render_prompt t q title muted w) u) = pa_session (approval_at (render_prompt t q title muted w) e) \<and>
      q_request (asked (render_prompt t q title muted w) u) = pa_request (approval_at (render_prompt t q title muted w) e) \<and>
      q_conversation (asked (render_prompt t q title muted w) u) = pa_conversation (approval_at (render_prompt t q title muted w) e)"
  proof (cases "e < next_approval w")
    case True
    then obtain u where u: "asker w u \<noteq> NotAsked" "q_session (asked w u) = pa_session (approval_at w e)"
        "q_request (asked w u) = pa_request (approval_at w e)" "q_conversation (asked w u) = pa_conversation (approval_at w e)"
      using assms(1) unfolding registered_def by blast
    then have "u \<noteq> t" using assms(2) by auto
    with u True show ?thesis
      by (intro exI [of _ u]) (auto simp: render_prompt_def Let_def set_asker_def open_approval_def split: option.split)
  next
    case False
    with e show ?thesis
      by (intro exI [of _ t]) (auto simp: render_prompt_def Let_def set_asker_def open_approval_def split: option.splits if_splits)
  qed
qed

lemma desk_step_registered:
  assumes "registered w" "desk_step a w = Some w'"
  shows "registered w'"
proof (cases a)
  case (AskFor t q title muted)
  with assms show ?thesis using render_prompt_registered by (auto split: if_splits)
next
  case (Message s c body)
  then show ?thesis
    using assms(2) by (intro registered_cong [OF assms(1)])
      (auto simp: consume_approval_reply_def deliver_verdict_def forget_approval_def split: option.splits if_splits)
qed (rule registered_cong [OF assms(1)];
      use assms(2) in \<open>auto simp: abandon_approval_def split: ask_phase.splits reply_future.splits bool.splits if_splits\<close>)+

lemma registered_run: "desk_run P w \<Longrightarrow> registered w"
proof (induction rule: desk_run.induct)
  case (desk_start policy)
  show ?case by (simp add: start_desk_def registered_def)
next
  case (desk_next w a w')
  then show ?case using desk_step_registered by blast
qed

text \<open>C19. A tool is approved only on an answer: while session keys hold no newline, when a request ends
  in approval, a message of its session that is entirely an approving word or number was read as
  the answer to the prompt of this very request, after the request was made. If the message names
  its conversation, it is the conversation of the turn that registered the request, where that
  turn named one: this turn, unless an earlier one left the same request number of the session
  registered. Silence, a timeout, a torn turn, a prompt nobody saw and an answer to an older
  request do not approve.\<close>

theorem approval_needs_a_fresh_answer:
  assumes "desk_run plain_sessions w" "asker w t = Concluded True"
  shows "\<exists>e n c body u. evidence w e = Some (n, q_session (asked w t), c, body) \<and> since w t \<le> n \<and>
    pa_session (approval_at w e) = q_session (asked w t) \<and> pa_request (approval_at w e) = q_request (asked w t) \<and>
    (c = [] \<or> pa_conversation (approval_at w e) = [] \<or> pa_conversation (approval_at w e) = c) \<and>
    asker w u \<noteq> NotAsked \<and> asked w u = (asked w t)\<lparr>q_conversation := pa_conversation (approval_at w e)\<rparr> \<and>
    parse_approval_reply body \<in> {Some VApprove, Some VTrust}"
proof -
  have ok: "desk_ok w" by (rule desk_run_ok [OF assms(1)])
  have plain: "sessions_plain w" by (rule plain_run [OF assms(1)])
  from desk_okD(8) [OF ok, of t] assms(2)
  obtain e v where e: "backed w t e" "pa_future (approval_at w e) = Answered v" "v \<noteq> VDeny" by auto
  then have same: "q_session (asked w t) = pa_session (approval_at w e)" "q_request (asked w t) = pa_request (approval_at w e)"
    using plain registry_key_inj unfolding backed_def sessions_plain_def by blast+
  have "entry_ok w e" using e(1) desk_okD(5) [OF ok] by (simp add: backed_def)
  with e(2) obtain n c body where b: "evidence w e = Some (n, pa_session (approval_at w e), c, body)"
    "parse_approval_reply body = Some v" "c = [] \<or> pa_conversation (approval_at w e) = [] \<or> pa_conversation (approval_at w e) = c"
    unfolding entry_ok_def by blast
  have "since w t \<le> n" using e(1) b(1) by (simp add: backed_def)
  moreover have "v \<in> {VApprove, VTrust}" using e(3) by (cases v) simp_all
  moreover obtain u where "asker w u \<noteq> NotAsked" "q_session (asked w u) = pa_session (approval_at w e)"
      "q_request (asked w u) = pa_request (approval_at w e)" "q_conversation (asked w u) = pa_conversation (approval_at w e)"
    using registered_run [OF assms(1)] e(1) unfolding registered_def backed_def by blast
  ultimately show ?thesis
    using b same by (intro exI [of _ e] exI [of _ n] exI [of _ c] exI [of _ body] exI [of _ u]) simp
qed


text \<open>An answer that reaches a waiting request decides it: the message is consumed, the receipt
  names the verdict, the request leaves the registry, and the waiter, once it resumes, ends with
  that verdict.\<close>

theorem answer_decides_the_request:
  assumes "desk_run P w" "asker w t = AwaitingReply e" "pending_for s c w = Some e"
    and "parse_approval_reply body = Some v"
  shows "\<exists>w' w''. consume_approval_reply s c body w = Some (w', receipt_for v) \<and> desk_step (ReplyWakes t) w' = Some w'' \<and>
    asker w'' t = Concluded (v \<noteq> VDeny) \<and>
    claim_approval (q_session (asked w t)) (q_request (asked w t)) w'' = None \<and>
    (session_trusted (q_session (asked w t)) w'' \<longleftrightarrow> v = VTrust \<or> session_trusted (q_session (asked w t)) w)"
proof -
  have "backed w t e" using desk_okD(8) [OF desk_run_ok [OF assms(1)], of t] assms(2) by simp
  then have k: "registry_key (q_session (asked w t)) (q_request (asked w t)) =
      registry_key (pa_session (approval_at w e)) (pa_request (approval_at w e))"
    by (simp add: backed_def)
  define w' where "w' = fst (deliver_verdict s v c body w)"
  have "consume_approval_reply s c body w = Some (w', receipt_for v)"
    by (simp add: consume_approval_reply_def w'_def deliver_verdict_def assms(3,4))
  moreover have w': "asker w' = asker w" "asked w' = asked w" "pa_future (approval_at w' e) = Answered v"
    "approval_policy w' = approval_policy w" "pa_session (approval_at w' e) = pa_session (approval_at w e)"
    "pa_request (approval_at w' e) = pa_request (approval_at w e)"
    by (simp_all add: w'_def deliver_verdict_def assms(3) forget_approval_def)
  then have "desk_step (ReplyWakes t) w' = Some (conclude t e v w')" using assms(2) by simp
  moreover have "claim_approval (q_session (asked w t)) (q_request (asked w t)) (conclude t e v w') = None"
    unfolding claim_approval_def k
    by (simp add: w' conclude_def end_wait_def set_asker_def forget_approval_def grant_session_trust_def Let_def
        del: map_of_eq_None_iff)
  moreover have "asker (conclude t e v w') t = Concluded (v \<noteq> VDeny)"
    "session_trusted (q_session (asked w t)) (conclude t e v w') \<longleftrightarrow>
       v = VTrust \<or> session_trusted (q_session (asked w t)) w"
    by (auto simp: w' conclude_def end_wait_def set_asker_def forget_approval_def grant_session_trust_def
        session_trusted_def Let_def simp del: map_of_eq_Some_iff)
  ultimately show ?thesis by blast
qed

text \<open>A message changes at most one entry: the oldest open one of its session and conversation.\<close>

lemma message_reaches_one_request:
  assumes "desk_step (Message s c body) w = Some w'" "approval_at w' e \<noteq> approval_at w e"
  shows "pending_for s c w = Some e \<and> answerable s c (approval_at w e)"
  using assms pending_for_Some(2) [of s c w]
  by (auto simp: consume_approval_reply_def deliver_verdict_def split: option.splits if_splits)

section \<open>Sample runs\<close>

definition sample_question :: "string \<Rightarrow> string \<Rightarrow> question" where
  "sample_question r c = \<lparr>q_session = ''s'', q_request = r, q_conversation = c\<rparr>"

definition observe_desk :: "desk_action list \<Rightarrow> (desk \<Rightarrow> bool) \<Rightarrow> bool" where
  "observe_desk as Q = (case desk_steps as (start_desk []) of None \<Rightarrow> False | Some w \<Rightarrow> Q w)"

lemma desk_steps_run:
  assumes "desk_steps as w = Some w'" "desk_run P w" "\<And>a v. a \<in> set as \<Longrightarrow> P a v"
  shows "desk_run P w'"
  using assms
proof (induction as arbitrary: w)
  case (Cons a as)
  from Cons.prems(1) obtain v where v: "desk_step a w = Some v" "desk_steps as v = Some w'"
    by (auto split: option.splits)
  have "desk_run P v" by (rule desk_run.desk_next [OF Cons.prems(2) _ v(1)]) (simp add: Cons.prems(3))
  then show ?case by (rule Cons.IH [OF v(2)]) (simp add: Cons.prems(3))
qed simp

lemma observed_desk:
  assumes "observe_desk as Q" "\<And>a v. a \<in> set as \<Longrightarrow> P a v"
  obtains w where "desk_run P w" "Q w"
proof -
  from assms(1) obtain w where w: "desk_steps as (start_desk []) = Some w" "Q w"
    by (auto simp: observe_desk_def split: option.splits)
  have "desk_run P w" by (rule desk_steps_run [OF w(1) desk_run.desk_start assms(2)])
  then show ?thesis using w(2) that by blast
qed

lemma sample_plain: "key_sep \<notin> set (q_session (sample_question r c))"
  by (simp add: sample_question_def key_sep_def)

definition approved_run :: "desk_action list" where
  "approved_run = [AskFor 0 (sample_question ''1'' ''A'') ''rm'' False, PromptSent 0, Message ''s'' ''A'' '' Yes! '',
     ReplyWakes 0]"

lemma approval_needs_a_fresh_answer_witness:
  "\<exists>(w :: desk) e n c body. asker w 0 = Concluded True \<and> evidence w e = Some (n, ''s'', c, body) \<and> since w 0 \<le> n \<and>
     pa_request (approval_at w e) = ''1'' \<and> parse_approval_reply body \<in> {Some VApprove, Some VTrust}"
proof -
  have "observe_desk approved_run (\<lambda>w. asker w 0 = Concluded True \<and> asked w 0 = sample_question ''1'' ''A'')"
    by code_simp
  then obtain w where w: "desk_run plain_sessions w" "asker w 0 = Concluded True \<and> asked w 0 = sample_question ''1'' ''A''"
    by (rule observed_desk [where P = plain_sessions]) (auto simp: approved_run_def plain_sessions_def sample_plain)
  have q: "q_session (asked w 0) = ''s''" "q_request (asked w 0) = ''1''" using w(2) by (simp_all add: sample_question_def)
  show ?thesis using approval_needs_a_fresh_answer [OF w(1) conjunct1 [OF w(2)]] w(2) unfolding q by metis
qed

lemma answer_decides_the_request_witness:
  "\<exists>w w' w''. consume_approval_reply ''s'' ''A'' ''always'' w = Some (w', ReceiptTrusted) \<and>
     desk_step (ReplyWakes 0) w' = Some w'' \<and> asker w'' 0 = Concluded True \<and> session_trusted ''s'' w''"
proof -
  have "observe_desk [AskFor 0 (sample_question ''1'' ''A'') ''rm'' False, PromptSent 0]
      (\<lambda>w. asker w 0 = AwaitingReply 0 \<and> asked w 0 = sample_question ''1'' ''A'' \<and> pending_for ''s'' ''A'' w = Some 0)"
    by code_simp
  then obtain w where w: "desk_run plain_sessions w" "asker w 0 = AwaitingReply 0 \<and>
      asked w 0 = sample_question ''1'' ''A'' \<and> pending_for ''s'' ''A'' w = Some 0"
    by (rule observed_desk [where P = plain_sessions]) (auto simp: plain_sessions_def sample_plain)
  have p: "parse_approval_reply ''always'' = Some VTrust" by code_simp
  from answer_decides_the_request [OF w(1) conjunct1 [OF w(2)] _ p, of "''s''" "''A''"] w(2) show ?thesis
    by (auto simp: sample_question_def)
qed

section \<open>Where receipt and outcome part\<close>

text \<open>While the timeout is being announced the request is still open: an answer is confirmed, and the
  tool denied.\<close>

theorem answer_during_the_notice_is_lost:
  "\<exists>w w' w''. desk_run plain_sessions w \<and> asker w 0 = Announcing 0 \<and>
     consume_approval_reply ''s'' ''A'' ''1'' w = Some (w', ReceiptApproved) \<and>
     desk_step (Announced 0) w' = Some w'' \<and> asker w'' 0 = Concluded False"
proof -
  have "observe_desk [AskFor 0 (sample_question ''1'' ''A'') ''rm'' False, PromptSent 0, TimedOut 0]
      (\<lambda>w. asker w 0 = Announcing 0 \<and> (case consume_approval_reply ''s'' ''A'' ''1'' w of
         Some (w', ReceiptApproved) \<Rightarrow>
           (case desk_step (Announced 0) w' of Some w'' \<Rightarrow> asker w'' 0 = Concluded False | None \<Rightarrow> False)
       | _ \<Rightarrow> False))"
    by code_simp
  then show ?thesis
    by (rule observed_desk [where P = plain_sessions])
       (auto simp: plain_sessions_def sample_plain split: option.splits prod.splits receipt.splits)
qed

text \<open>An answer that arrives before the decider is called takes the request out of the registry: it is
  confirmed, and the decider, finding no request, denies at once.\<close>

theorem answer_before_the_decider_is_lost:
  "\<exists>w w' w''. desk_run plain_sessions w \<and> asker w 0 = Prompting True \<and>
     consume_approval_reply ''s'' ''A'' ''1'' w = Some (w', ReceiptApproved) \<and>
     desk_step (PromptSent 0) w' = Some w'' \<and> asker w'' 0 = Concluded False"
proof -
  have "observe_desk [AskFor 0 (sample_question ''1'' ''A'') ''rm'' False]
      (\<lambda>w. asker w 0 = Prompting True \<and> (case consume_approval_reply ''s'' ''A'' ''1'' w of
         Some (w', ReceiptApproved) \<Rightarrow>
           (case desk_step (PromptSent 0) w' of Some w'' \<Rightarrow> asker w'' 0 = Concluded False | None \<Rightarrow> False)
       | _ \<Rightarrow> False))"
    by code_simp
  then show ?thesis
    by (rule observed_desk [where P = plain_sessions])
       (auto simp: plain_sessions_def sample_plain split: option.splits prod.splits receipt.splits)
qed

text \<open>A turn torn while its prompt is being sent leaves the request behind: the next answer of the
  conversation goes to it, and the request the user sees stays unanswered.\<close>

theorem torn_prompt_swallows_an_answer:
  "\<exists>w w'. desk_run plain_sessions w \<and> asker w 0 = TornDown \<and> asker w 1 = AwaitingReply 1 \<and>
     consume_approval_reply ''s'' ''A'' ''1'' w = Some (w', ReceiptApproved) \<and>
     pa_future (approval_at w' 1) = Unanswered"
proof -
  have "observe_desk [AskFor 0 (sample_question ''1'' ''A'') ''rm'' False, TurnTorn 0,
        AskFor 1 (sample_question ''2'' ''A'') ''ls'' False, PromptSent 1]
      (\<lambda>w. asker w 0 = TornDown \<and> asker w 1 = AwaitingReply 1 \<and> (case consume_approval_reply ''s'' ''A'' ''1'' w of
         Some (w', ReceiptApproved) \<Rightarrow> pa_future (approval_at w' 1) = Unanswered | _ \<Rightarrow> False))"
    by code_simp
  then show ?thesis
    by (rule observed_desk [where P = plain_sessions])
       (auto simp: plain_sessions_def sample_plain split: option.splits prod.splits receipt.splits)
qed

text \<open>The request left behind is also adopted by a later request with the same number, with the old
  conversation: a message there approves a tool the user was asked about elsewhere.\<close>

theorem adopted_prompt_answers_elsewhere:
  "\<exists>w. desk_run plain_sessions w \<and> asker w 1 = Concluded True \<and> q_conversation (asked w 1) = ''B'' \<and>
     evidence w 0 = Some (0, ''s'', ''A'', ''1'')"
proof -
  have "observe_desk [AskFor 0 (sample_question ''1'' ''A'') ''rm'' False, TurnTorn 0,
        AskFor 1 (sample_question ''1'' ''B'') ''ls'' False, PromptSent 1, Message ''s'' ''A'' ''1'', ReplyWakes 1]
      (\<lambda>w. asker w 1 = Concluded True \<and> q_conversation (asked w 1) = ''B'' \<and> evidence w 0 = Some (0, ''s'', ''A'', ''1''))"
    by code_simp
  then show ?thesis
    by (rule observed_desk [where P = plain_sessions]) (auto simp: plain_sessions_def sample_plain)
qed

end
