(* ===== verification/Approval_Presses.thy ===== *)
theory Approval_Presses
  imports Approval_Widget Approval_Consent
begin

text \<open>
  What the widget approvals guarantee in every interleaving of turns, answers, presses and timers:
  an approval is backed by a typed answer or a press addressed to the very question, given after it
  was put; a card answers only the prompt it was shown with; an answer that arrives while the
  prompt is still being sent counts. The last section shows what the address prefix and the
  reservation left behind by an answered, never awaited prompt break.
\<close>

section \<open>The invariant\<close>

fun ruling_fits :: "string \<Rightarrow> bool \<Rightarrow> ruling \<Rightarrow> bool" where
  "ruling_fits key b (Typed s text) \<longleftrightarrow> starts_with key (session_prefix s) \<and>
     (b \<longrightarrow> casefold (strip text) \<in> set APPROVE_REPLIES)"
| "ruling_fits key b (Pressed s r nonce) \<longleftrightarrow> key = prompt_key s r \<and> nonce \<noteq> [] \<and> r \<noteq> []"

definition window_ok :: "board \<Rightarrow> nat \<Rightarrow> bool" where
  "window_ok w e \<longleftrightarrow>
     (case window_at w e of
        WResult b \<Rightarrow> (\<exists>n rl. rulings w e = Some (n, rl) \<and> n < ruled w \<and> ruling_fits (window_key w e) b rl)
      | _ \<Rightarrow> rulings w e = None)"

definition registry_ok :: "board \<Rightarrow> bool" where
  "registry_ok w \<longleftrightarrow> dict_wf (windows w) \<and>
     (\<forall>k e. dict_get (windows w) k = Some e \<longrightarrow> e < next_window w \<and> window_key w e = k) \<and>
     (\<forall>e. window_ok w e) \<and> (\<forall>e \<ge> next_window w. rulings w e = None)"

definition fresh :: "board \<Rightarrow> nat \<Rightarrow> nat \<Rightarrow> bool" where
  "fresh w t e \<longleftrightarrow> e < next_window w \<and> window_key w e = put_key w t \<and>
     (carded w t \<longrightarrow> (\<forall>x. rulings w e = Some x \<longrightarrow> put_at w t \<le> fst x))"

fun widget_phase_ok :: "board \<Rightarrow> nat \<Rightarrow> widget_phase \<Rightarrow> bool" where
  "widget_phase_ok w t WSending =
     (carded w t \<longrightarrow> (\<forall>e. dict_get (windows w) (put_key w t) = Some e \<longrightarrow> fresh w t e))"
| "widget_phase_ok w t (WDeciding e) = fresh w t e"
| "widget_phase_ok w t (WClosing r) = (r \<noteq> Some True)"
| "widget_phase_ok w t (WDecided b) = (b \<longrightarrow> (\<exists>e. fresh w t e \<and> window_at w e = WResult True))"
| "widget_phase_ok w t _ = True"

definition board_ok :: "board \<Rightarrow> bool" where
  "board_ok w \<longleftrightarrow> registry_ok w \<and> (\<forall>t. put_at w t \<le> ruled w \<and> widget_phase_ok w t (decider w t))"

text \<open>A step of the registry: it makes new windows, rules open ones and drops addresses.\<close>

definition board_grows :: "board \<Rightarrow> board \<Rightarrow> bool" where
  "board_grows w w' \<longleftrightarrow> next_window w \<le> next_window w' \<and> ruled w \<le> ruled w' \<and>
     put w' = put w \<and> carded w' = carded w \<and> put_at w' = put_at w \<and> decider w' = decider w \<and>
     (\<forall>e < next_window w. window_key w' e = window_key w e) \<and>
     (\<forall>e b. e < next_window w \<longrightarrow> window_at w e = WResult b \<longrightarrow> window_at w' e = WResult b) \<and>
     (\<forall>e x. rulings w' e = Some x \<longrightarrow> rulings w e = Some x \<or> ruled w \<le> fst x) \<and>
     (\<forall>k e. dict_get (windows w') k = Some e \<longrightarrow> dict_get (windows w) k = Some e \<or> rulings w' e = None)"

lemma fresh_grows:
  assumes "board_grows w w'" "put_at w t \<le> ruled w" "fresh w t e"
  shows "fresh w' t e"
proof -
  have "put_at w t \<le> fst x" if "rulings w' e = Some x" "carded w t" for x
    using that assms unfolding board_grows_def fresh_def by (meson order_trans)
  then show ?thesis using assms(1,3) unfolding board_grows_def fresh_def put_key_def by auto
qed

lemma phase_grows:
  assumes g: "board_grows w w'" and r: "registry_ok w'" and l: "put_at w t \<le> ruled w" and ph: "widget_phase_ok w t ph"
  shows "widget_phase_ok w' t ph"
proof (cases ph)
  case WSending
  have "fresh w' t e" if e: "dict_get (windows w') (put_key w' t) = Some e" and c: "carded w' t" for e
  proof (cases "dict_get (windows w) (put_key w t) = Some e")
    case True
    have "carded w t" using g c by (simp add: board_grows_def)
    with True ph have "fresh w t e" unfolding WSending by simp
    then show ?thesis by (rule fresh_grows [OF g l])
  next
    case False
    then have "rulings w' e = None" using g e unfolding board_grows_def put_key_def by metis
    then show ?thesis using r e unfolding fresh_def registry_ok_def by simp
  qed
  then show ?thesis unfolding WSending by simp
next
  case (WDecided b)
  show ?thesis
  proof (cases b)
    case True
    with ph WDecided obtain e where e: "fresh w t e" "window_at w e = WResult True" by auto
    then have "window_at w' e = WResult True" using g unfolding board_grows_def fresh_def by blast
    then show ?thesis using fresh_grows [OF g l e(1)] unfolding WDecided widget_phase_ok.simps by blast
  qed (simp add: WDecided)
qed (use ph fresh_grows [OF g l] in simp_all)

lemma board_ok_grows:
  assumes "board_ok w" "board_grows w w'" "registry_ok w'"
  shows "board_ok w'"
proof -
  have "put_at w' t \<le> ruled w' \<and> widget_phase_ok w' t (decider w' t)" for t
  proof -
    have "put_at w t \<le> ruled w" "widget_phase_ok w t (decider w t)" using assms(1) by (simp_all add: board_ok_def)
    then show ?thesis using phase_grows [OF assms(2,3)] assms(2) unfolding board_grows_def by (metis order_trans)
  qed
  then show ?thesis using assms(3) by (simp add: board_ok_def)
qed

lemma set_decider_ok:
  "board_ok w \<Longrightarrow> widget_phase_ok w t ph \<Longrightarrow> board_ok (set_decider t ph w)"
proof -
  assume ok: "board_ok w" "widget_phase_ok w t ph"
  have f: "fresh (set_decider t ph w) u e = fresh w u e" for u e by (simp add: fresh_def set_decider_def put_key_def)
  have "widget_phase_ok (set_decider t ph w) u p = widget_phase_ok w u p" for u p
    by (cases p) (simp_all add: f, simp_all add: set_decider_def put_key_def)
  moreover have "window_ok (set_decider t ph w) e = window_ok w e" for e
    by (simp add: window_ok_def set_decider_def split: window.split)
  ultimately show ?thesis using ok by (simp add: board_ok_def registry_ok_def) (simp add: set_decider_def)
qed

section \<open>The operations keep it\<close>

lemma board_okD: "board_ok w \<Longrightarrow> registry_ok w" "board_ok w \<Longrightarrow> put_at w t \<le> ruled w"
  "board_ok w \<Longrightarrow> widget_phase_ok w t (decider w t)"
  by (simp_all add: board_ok_def)

lemma registry_okD:
  assumes "registry_ok w"
  shows "dict_wf (windows w)" "dict_get (windows w) k = Some e \<Longrightarrow> e < next_window w"
    "dict_get (windows w) k = Some e \<Longrightarrow> window_key w e = k" "window_ok w e"
    "next_window w \<le> e \<Longrightarrow> rulings w e = None"
  using assms unfolding registry_ok_def by blast+

lemma open_unruled: "registry_ok w \<Longrightarrow> window_open w e \<Longrightarrow> rulings w e = None"
  using registry_okD(4) [of w e] by (simp add: window_ok_def)

lemma result_ruled: "registry_ok w \<Longrightarrow> window_at w e = WResult b \<Longrightarrow>
   \<exists>n rl. rulings w e = Some (n, rl) \<and> n < ruled w \<and> ruling_fits (window_key w e) b rl"
  using registry_okD(4) [of w e] by (simp add: window_ok_def)

lemma new_window_grows: "registry_ok w \<Longrightarrow> board_grows w (new_window key w) \<and> registry_ok (new_window key w)"
proof -
  assume ok: "registry_ok w"
  have "window_ok (new_window key w) e" for e
    using registry_okD(4,5) [OF ok, of e]
    by (auto simp: window_ok_def new_window_def split: window.splits)
  then show ?thesis
    using registry_okD(1,2,3,5) [OF ok]
    by (auto simp: board_grows_def registry_ok_def new_window_def less_Suc_eq simp del: map_of_eq_Some_iff split: if_splits)
qed

lemma mint_nonce_grows: "registry_ok w \<Longrightarrow> board_grows w (mint_nonce mint key w) \<and> registry_ok (mint_nonce mint key w)"
proof -
  assume ok: "registry_ok w"
  have "window_ok (mint_nonce mint key w) e = window_ok w e" for e
    by (simp add: window_ok_def mint_nonce_def split: window.split)
  then show ?thesis using ok by (simp add: board_grows_def registry_ok_def) (simp add: mint_nonce_def)
qed

lemma retire_grows: "registry_ok w \<Longrightarrow> board_grows w (retire key w) \<and> registry_ok (retire key w)"
proof -
  assume ok: "registry_ok w"
  have "window_ok (retire key w) e = window_ok w e" for e
    by (simp add: window_ok_def retire_def split: window.split)
  then show ?thesis
    using registry_okD(1,2,3,5) [OF ok] ok
    by (simp add: board_grows_def registry_ok_def del: map_of_eq_Some_iff) (simp add: retire_def del: map_of_eq_Some_iff)
qed

lemma registry_steps_ok:
  assumes "board_ok w"
  shows "board_ok (new_window key w)" "board_ok (mint_nonce mint key w)" "board_ok (retire key w)"
  using assms new_window_grows mint_nonce_grows retire_grows board_ok_grows board_okD(1) by metis+

lemma discard_ok: "board_ok w \<Longrightarrow> board_ok (discard_reservations s w)"
proof -
  have "board_ok w \<Longrightarrow> board_ok (fold retire ks w)" for ks w
    by (induction ks arbitrary: w) (simp_all add: registry_steps_ok)
  then show "board_ok w \<Longrightarrow> board_ok (discard_reservations s w)" by (simp add: discard_reservations_def)
qed

lemma cancel_window_ok: "board_ok w \<Longrightarrow> board_ok (cancel_window e w)"
proof -
  assume ok: "board_ok w"
  have r: "registry_ok w" by (rule board_okD(1) [OF ok])
  have "window_ok (cancel_window e w) x" for x
    using registry_okD(4) [OF r, of x] by (auto simp: window_ok_def cancel_window_def split: window.splits)
  then have "registry_ok (cancel_window e w)"
    using r by (simp add: registry_ok_def) (simp add: cancel_window_def)
  moreover have "board_grows w (cancel_window e w)" by (simp add: board_grows_def cancel_window_def)
  ultimately show ?thesis using board_ok_grows ok by blast
qed

lemma first_pending_Some:
  assumes "registry_ok w" "first_pending s r w = Some (key, e)"
  shows "dict_get (windows w) key = Some e" "window_open w e"
    "(case r of Some r \<Rightarrow> key = prompt_key s r | None \<Rightarrow> starts_with key (session_prefix s))"
proof -
  have "dict_get (windows w) key = Some e \<and> window_open w e \<and>
     (case r of Some r \<Rightarrow> key = prompt_key s r | None \<Rightarrow> starts_with key (session_prefix s))"
    using assms(2) registry_okD(1) [OF assms(1)]
    by (auto simp: first_pending_def find_Some_iff simp del: map_of_eq_Some_iff split: option.splits if_splits)
       (metis map_of_eq_Some_iff nth_mem)
  then show "dict_get (windows w) key = Some e" "window_open w e"
    "(case r of Some r \<Rightarrow> key = prompt_key s r | None \<Rightarrow> starts_with key (session_prefix s))" by blast+
qed

lemma resolve_ok:
  assumes "board_ok w" "\<And>key. (case r of Some r \<Rightarrow> key = prompt_key s r | None \<Rightarrow> starts_with key (session_prefix s)) \<Longrightarrow> ruling_fits key b rl"
  shows "board_ok (fst (resolve_prompt s b r nonce rl w))"
proof (cases "fst (resolve_prompt s b r nonce rl w) = w")
  case False
  then obtain key e where e: "first_pending s r w = Some (key, e)"
    by (auto simp: resolve_prompt_def split: option.splits)
  let ?w = "w\<lparr>window_at := (window_at w)(e := WResult b), rulings := (rulings w)(e \<mapsto> (ruled w, rl)), ruled := ruled w + 1\<rparr>"
  have w': "fst (resolve_prompt s b r nonce rl w) = ?w" using False by (auto simp: resolve_prompt_def e split: if_splits)
  have r: "registry_ok w" by (rule board_okD(1) [OF assms(1)])
  note f = first_pending_Some [OF r e]
  have "ruling_fits (window_key w e) b rl" using assms(2) [OF f(3)] registry_okD(3) [OF r f(1)] by simp
  then have "window_ok ?w x" for x
    using registry_okD(4) [OF r, of x] by (cases "x = e") (auto simp: window_ok_def less_SucI split: window.splits)
  then have "registry_ok ?w"
    using registry_okD(1,2,3,5) [OF r] registry_okD(2) [OF r f(1)]
    by (auto simp: registry_ok_def simp del: map_of_eq_Some_iff)
  moreover have "board_grows w ?w" using f(2) by (auto simp: board_grows_def)
  ultimately show ?thesis unfolding w' using board_ok_grows assms(1) by blast
qed (simp add: assms(1))

lemma typed_answer_ok:
  assumes "board_ok w"
  shows "board_ok (fst (typed_answer s text permitted w))"
proof -
  let ?b = "casefold (strip text) \<in> set APPROVE_REPLIES"
  have "board_ok (fst (resolve_prompt s ?b None [] (Typed s text) w))" by (rule resolve_ok [OF assms]) simp
  then show ?thesis using assms by (cases ?b) (simp_all add: typed_answer_def Let_def case_prod_beta)
qed

lemma card_press_ok:
  assumes "board_ok w"
  shows "board_ok (fst (card_press s choice nonce r permitted w))"
proof (cases "nonce = [] \<or> r = []")
  case False
  have "board_ok (fst (resolve_prompt s (choice = ''approve'') (Some r) nonce (Pressed s r nonce) w))"
    by (rule resolve_ok [OF assms]) (use False in simp)
  then show ?thesis using assms by (simp add: card_press_def Let_def case_prod_beta)
qed (use assms in \<open>auto simp: card_press_def Let_def\<close>)

lemma reserve_ok:
  assumes "board_ok w"
  shows "board_ok (fst (reserve_prompt mint s r w))"
    "dict_get (windows (fst (reserve_prompt mint s r w))) (prompt_key s r) = Some e \<Longrightarrow> window_open (fst (reserve_prompt mint s r w)) e"
    "put (fst (reserve_prompt mint s r w)) = put w" "carded (fst (reserve_prompt mint s r w)) = carded w"
    "put_at (fst (reserve_prompt mint s r w)) = put_at w"
proof -
  let ?k = "prompt_key s r"
  let ?v = "if window_done ?k w then new_window ?k w else w"
  let ?u = "if dict_get_default (nonces ?v) ?k [] = [] then mint_nonce mint ?k ?v else ?v"
  have u: "fst (reserve_prompt mint s r w) = ?u" unfolding reserve_prompt_def Let_def by (simp only: fst_conv)
  have v: "board_ok ?v" by (simp add: assms registry_steps_ok)
  show "board_ok (fst (reserve_prompt mint s r w))" unfolding u using v registry_steps_ok(2) by simp
  have "windows ?u = windows ?v" "window_at ?u = window_at ?v" by (simp_all add: mint_nonce_def)
  moreover have "window_open ?v e" if "dict_get (windows ?v) ?k = Some e" for e
    using that by (auto simp: new_window_def window_done_def simp del: map_of_eq_Some_iff split: option.splits if_splits)
  ultimately show "dict_get (windows (fst (reserve_prompt mint s r w))) ?k = Some e \<Longrightarrow> window_open (fst (reserve_prompt mint s r w)) e"
    unfolding u by simp
  show "put (fst (reserve_prompt mint s r w)) = put w" "carded (fst (reserve_prompt mint s r w)) = carded w"
    "put_at (fst (reserve_prompt mint s r w)) = put_at w"
    unfolding u by (simp_all add: mint_nonce_def new_window_def)
qed

lemma put_question_ok:
  assumes "board_ok w" "decider w t = WIdle"
  shows "board_ok (put_question mint t s r c w)"
proof -
  define v where "v = w\<lparr>put := (put w)(t := (s, r)), carded := (carded w)(t := c), put_at := (put_at w)(t := ruled w)\<rparr>"
  have f: "fresh v u e = fresh w u e" if "u \<noteq> t" for u e using that by (simp add: fresh_def put_key_def v_def)
  have "widget_phase_ok v u (decider w u)" for u
  proof (cases "u = t")
    case False
    then show ?thesis using board_okD(3) [OF assms(1), of u]
      by (cases "decider w u") (simp_all add: f, simp_all add: put_key_def v_def)
  qed (simp add: assms(2))
  moreover have "window_ok v = window_ok w" by (rule ext) (simp add: window_ok_def v_def split: window.split)
  ultimately have v: "board_ok v"
    using assms(1) unfolding board_ok_def registry_ok_def by (simp add: v_def) blast
  let ?u = "if c then fst (reserve_prompt mint s r v) else v"
  have u: "board_ok ?u" using v reserve_ok(1) [OF v] by simp
  have "fresh ?u t e" if e: "dict_get (windows ?u) (put_key ?u t) = Some e" and c for e
  proof -
    have k: "put_key ?u t = prompt_key s r" using \<open>c\<close> by (simp add: put_key_def reserve_ok(3) [OF v]) (simp add: v_def)
    have "window_open ?u e" using e \<open>c\<close> reserve_ok(2) [OF v] unfolding k by simp
    then have "rulings ?u e = None" by (rule open_unruled [OF board_okD(1) [OF u]])
    then show ?thesis using registry_okD(2,3) [OF board_okD(1) [OF u] e] by (simp add: fresh_def)
  qed
  moreover have "carded ?u = carded v" by (simp add: reserve_ok(4) [OF v])
  then have "carded ?u t = c" by (simp add: v_def)
  ultimately have "board_ok (set_decider t WSending ?u)" by (intro set_decider_ok [OF u]) simp
  then show ?thesis by (simp only: put_question_def Let_def v_def)
qed

lemma frames_retire [simp]: "put_key (retire key w) t = put_key w t" "fresh (retire key w) t e = fresh w t e"
  "window_at (retire key w) = window_at w" "put_key (cancel_window e w) t = put_key w t"
  by (simp_all add: put_key_def fresh_def retire_def cancel_window_def)

lemma decide_ok:
  assumes "board_ok w" "decider w t = WSending"
  shows "board_ok (decide t w)"
proof (cases "dict_get (windows w) (put_key w t)")
  case None
  let ?v = "new_window (put_key w t) w"
  have v: "board_ok ?v" by (rule registry_steps_ok(1) [OF assms(1)])
  have "rulings ?v (next_window w) = None"
    using registry_okD(5) [OF board_okD(1) [OF assms(1)]] by (simp add: new_window_def)
  then have "fresh ?v t (next_window w)" by (simp add: fresh_def new_window_def put_key_def)
  then show ?thesis using None set_decider_ok [OF v] by (simp add: decide_def)
next
  case (Some e)
  have "fresh w t e" if "carded w t" using that Some board_okD(3) [OF assms(1), of t] assms(2) by simp
  moreover have "e < next_window w" "window_key w e = put_key w t"
    using registry_okD(2,3) [OF board_okD(1) [OF assms(1)] Some] by simp_all
  ultimately have "fresh w t e" by (auto simp: fresh_def)
  then show ?thesis
    using Some assms(1) registry_steps_ok(3) [OF assms(1), of "put_key w t"]
    by (cases "window_at w e") (auto simp: decide_def intro!: set_decider_ok, blast)
qed

lemma board_step_ok:
  assumes "board_ok w" "board_step mint a w = Some w'"
  shows "board_ok w'"
proof (cases a)
  case (DeciderWakes t)
  with assms show ?thesis
    using board_okD(3) [OF assms(1), of t]
    by (auto split: widget_phase.splits window.splits intro!: set_decider_ok registry_steps_ok) blast+
next
  case (WaitUnwinds t)
  with assms show ?thesis
    using board_okD(3) [OF assms(1), of t]
    by (auto split: widget_phase.splits option.splits intro!: set_decider_ok registry_steps_ok)
qed (use assms in \<open>auto simp: put_question_ok decide_ok typed_answer_ok card_press_ok cancel_window_ok discard_ok
      intro!: set_decider_ok split: if_splits widget_phase.splits\<close>)

lemma board_run_ok: "board_run mint P w \<Longrightarrow> board_ok w"
proof (induction rule: board_run.induct)
  case board_start
  show ?case by (simp add: board_ok_def registry_ok_def window_ok_def start_board_def)
next
  case (board_next w a w')
  then show ?case using board_step_ok by blast
qed

section \<open>Consent\<close>

text \<open>An address names its request when the request id has no colon; the session prefix of a typed
  answer then names the session itself or one that extends it by further segments.\<close>

lemma prompt_key_inj:
  assumes "CHR 0x3A \<notin> set r" "CHR 0x3A \<notin> set r'"
  shows "prompt_key s r = prompt_key s' r' \<longleftrightarrow> s = s' \<and> r = r'"
proof
  assume "prompt_key s r = prompt_key s' r'"
  then have "partition_at (CHR 0x3A) (rev r @ CHR 0x3A # rev s) = partition_at (CHR 0x3A) (rev r' @ CHR 0x3A # rev s')"
    by (simp add: prompt_key_def) (metis append.assoc append_Cons append_Nil rev_append rev_singleton_conv)
  then show "s = s' \<and> r = r'" using assms by simp
qed simp

lemma session_prefix_of_key:
  assumes "CHR 0x3A \<notin> set r" "starts_with (prompt_key s r) (session_prefix s')"
  shows "s = s' \<or> (\<exists>x. s = s' @ CHR 0x3A # x)"
proof -
  from assms(2) obtain x where x: "s @ CHR 0x3A # r = s' @ CHR 0x3A # x"
    by (auto simp: starts_with_iff prompt_key_def session_prefix_def)
  from x obtain us where "s = s' @ us \<and> us @ CHR 0x3A # r = CHR 0x3A # x \<or> s @ us = s' \<and> CHR 0x3A # r = us @ CHR 0x3A # x"
    unfolding append_eq_append_conv2 by blast
  then show ?thesis using assms(1) by (cases us) auto
qed

text \<open>C20. A tool is approved only on an answer to its own prompt: when the decider of a question
  shown on a card says yes, the window it read was resolved after the question was put, either by a
  press that carried a nonce and named the question's address, or by a typed approval in a session
  whose prefix that address has. Where request ids have no colon the press named this session and
  this request, and the typed approval came from this session or from one whose key this one
  extends by further segments, which an earlier generation of the conversation is.\<close>

theorem press_or_reply_approves:
  assumes "board_run mint P w" "decider w t = WDecided True" "carded w t" "put w t = (s, r)"
  shows "\<exists>e n rl. rulings w e = Some (n, rl) \<and> put_at w t \<le> n \<and>
    (case rl of
       Pressed s' r' nonce \<Rightarrow> nonce \<noteq> [] \<and> prompt_key s' r' = prompt_key s r \<and>
         (CHR 0x3A \<notin> set r \<and> CHR 0x3A \<notin> set r' \<longrightarrow> s' = s \<and> r' = r)
     | Typed s' text \<Rightarrow> casefold (strip text) \<in> set APPROVE_REPLIES \<and>
         starts_with (prompt_key s r) (session_prefix s') \<and>
         (CHR 0x3A \<notin> set r \<longrightarrow> s = s' \<or> (\<exists>x. s = s' @ CHR 0x3A # x)))"
proof -
  have ok: "board_ok w" by (rule board_run_ok [OF assms(1)])
  from board_okD(3) [OF ok, of t] assms(2) obtain e where e: "fresh w t e" "window_at w e = WResult True" by auto
  obtain n rl where rl: "rulings w e = Some (n, rl)" "ruling_fits (window_key w e) True rl"
    using result_ruled [OF board_okD(1) [OF ok] e(2)] by blast
  have k: "window_key w e = prompt_key s r" using e(1) assms(4) by (simp add: fresh_def put_key_def)
  have "case rl of
       Pressed s' r' nonce \<Rightarrow> nonce \<noteq> [] \<and> prompt_key s' r' = prompt_key s r \<and>
         (CHR 0x3A \<notin> set r \<and> CHR 0x3A \<notin> set r' \<longrightarrow> s' = s \<and> r' = r)
     | Typed s' text \<Rightarrow> casefold (strip text) \<in> set APPROVE_REPLIES \<and>
         starts_with (prompt_key s r) (session_prefix s') \<and>
         (CHR 0x3A \<notin> set r \<longrightarrow> s = s' \<or> (\<exists>x. s = s' @ CHR 0x3A # x))"
    using rl(2) prompt_key_inj [of r] session_prefix_of_key [of r s] unfolding k
    by (cases rl) auto
  moreover have "put_at w t \<le> n" using e(1) assms(3) rl(1) by (simp add: fresh_def)
  ultimately show ?thesis using rl(1) by blast
qed

text \<open>An answer given while the prompt is still being sent is not lost: once it has resolved the
  reserved window, the decider, when it is called, ends at once with that decision and retires the
  address.\<close>

theorem early_answer_is_honoured:
  assumes "decider w t = WSending" "dict_get (windows w) (put_key w t) = Some e"
    and "resolve_prompt (fst (put w t)) b (Some (snd (put w t))) nonce rl w = (w', True)"
  shows "\<exists>w''. board_step mint (Sent t) w' = Some w'' \<and> decider w'' t = WDecided b \<and>
    dict_get (windows w'') (put_key w t) = None \<and> dict_get (nonces w'') (put_key w t) = None"
proof -
  have "first_pending (fst (put w t)) (Some (snd (put w t))) w = Some (put_key w t, e)"
    using assms(2,3)
    by (auto simp: resolve_prompt_def first_pending_def put_key_def simp del: map_of_eq_Some_iff split: option.splits if_splits)
  then have w': "w' = w\<lparr>window_at := (window_at w)(e := WResult b), rulings := (rulings w)(e \<mapsto> (ruled w, rl)), ruled := ruled w + 1\<rparr>"
    using assms(3) by (auto simp: resolve_prompt_def split: if_splits)
  show ?thesis
    using assms(1,2) unfolding w'
    by (simp add: decide_def put_key_def set_decider_def retire_def del: map_of_eq_Some_iff map_of_eq_None_iff)
qed

section \<open>A card answers the prompt it was shown with\<close>

text \<open>Runs in which a prompt is never put at an address where an answered one was left behind.\<close>

definition no_leftover :: "board_action \<Rightarrow> board \<Rightarrow> bool" where
  "no_leftover a w \<longleftrightarrow> (case a of
     Put t s r with_card \<Rightarrow>
       dict_get (nonces w) (prompt_key s r) = None \<or> \<not> window_done (prompt_key s r) w
   | _ \<Rightarrow> True)"

definition nonces_bound :: "(nat \<Rightarrow> string) \<Rightarrow> board \<Rightarrow> bool" where
  "nonces_bound mint w \<longleftrightarrow> (\<forall>k n. dict_get (nonces w) k = Some n \<longrightarrow>
     (\<exists>j < next_nonce w. n = mint j \<and> dict_get (windows w) k = Some (minted_for w j)))"

lemma nonces_bound_cong:
  "nonces_bound mint w \<Longrightarrow> nonces w' = nonces w \<Longrightarrow> windows w' = windows w \<Longrightarrow> next_nonce w' = next_nonce w \<Longrightarrow>
   minted_for w' = minted_for w \<Longrightarrow> nonces_bound mint w'"
  by (simp add: nonces_bound_def)

lemma set_decider_bound [simp]: "nonces_bound mint (set_decider t ph w) = nonces_bound mint w"
  by (simp add: nonces_bound_def set_decider_def)

lemma cancel_window_bound [simp]: "nonces_bound mint (cancel_window e w) = nonces_bound mint w"
  by (simp add: nonces_bound_def cancel_window_def)

lemma retire_bound: "nonces_bound mint w \<Longrightarrow> nonces_bound mint (retire k w)"
  by (auto simp: nonces_bound_def retire_def simp del: map_of_eq_Some_iff split: if_splits)

lemma new_window_bound:
  "nonces_bound mint w \<Longrightarrow> dict_get (nonces w) k = None \<Longrightarrow> nonces_bound mint (new_window k w)"
  by (force simp: nonces_bound_def new_window_def simp del: map_of_eq_Some_iff map_of_eq_None_iff split: if_splits)

lemma mint_nonce_bound:
  assumes "nonces_bound mint w" "dict_get (windows w) k = Some e"
  shows "nonces_bound mint (mint_nonce mint k w)"
  unfolding nonces_bound_def
proof (intro allI impI)
  fix k' n assume n: "dict_get (nonces (mint_nonce mint k w)) k' = Some n"
  show "\<exists>j < next_nonce (mint_nonce mint k w). n = mint j \<and>
      dict_get (windows (mint_nonce mint k w)) k' = Some (minted_for (mint_nonce mint k w) j)"
  proof (cases "k' = k")
    case True
    then show ?thesis using n assms(2)
      by (intro exI [of _ "next_nonce w"]) (simp add: mint_nonce_def del: map_of_eq_Some_iff)
  next
    case False
    then obtain j where "j < next_nonce w" "n = mint j" "dict_get (windows w) k' = Some (minted_for w j)"
      using n assms(1) unfolding nonces_bound_def mint_nonce_def by (auto simp del: map_of_eq_Some_iff)
    then show ?thesis by (intro exI [of _ j]) (simp add: mint_nonce_def del: map_of_eq_Some_iff)
  qed
qed

lemma board_step_bound:
  assumes "nonces_bound mint w" "no_leftover a w" "board_step mint a w = Some w'"
  shows "nonces_bound mint w'"
proof (cases a)
  case (Put t s r c)
  define v where "v = w\<lparr>put := (put w)(t := (s, r)), carded := (carded w)(t := c), put_at := (put_at w)(t := ruled w)\<rparr>"
  let ?k = "prompt_key s r"
  let ?u = "if window_done ?k v then new_window ?k v else v"
  have v: "nonces_bound mint v" by (rule nonces_bound_cong [OF assms(1)]) (simp_all add: v_def)
  have "dict_get (nonces v) ?k = None \<or> \<not> window_done ?k v"
    using assms(2) by (simp add: Put no_leftover_def v_def window_done_def cong: option.case_cong)
  then have u: "nonces_bound mint ?u" using v new_window_bound
    by (cases "window_done ?k v") (simp_all del: map_of_eq_None_iff)
  obtain e where "dict_get (windows ?u) ?k = Some e"
    by (cases "dict_get (windows v) ?k"; cases "window_done ?k v")
       (auto simp: new_window_def window_done_def simp del: map_of_eq_Some_iff map_of_eq_None_iff)
  then have "nonces_bound mint (fst (reserve_prompt mint s r v))"
    using u mint_nonce_bound unfolding reserve_prompt_def Let_def by simp
  then have "nonces_bound mint (if c then fst (reserve_prompt mint s r v) else v)" using v by simp
  then have "nonces_bound mint (put_question mint t s r c w)"
    unfolding put_question_def Let_def v_def by (rule nonces_bound_cong) (simp_all add: set_decider_def)
  then show ?thesis using assms(3) by (simp add: Put split: if_splits)
next
  case (Sent t)
  have "nonces_bound mint (new_window (put_key w t) w)" if "dict_get (windows w) (put_key w t) = None"
    using that assms(1) new_window_bound unfolding nonces_bound_def by (metis not_None_eq)
  then have "nonces_bound mint (decide t w)"
    using retire_bound [OF assms(1)] assms(1)
    by (simp add: decide_def split: option.split window.split)
  then show ?thesis using assms(3) by (simp add: Sent split: if_splits)
next
  case (TurnEnds s)
  have "nonces_bound mint w \<Longrightarrow> nonces_bound mint (fold retire ks w)" for ks w
    by (induction ks arbitrary: w) (simp_all add: retire_bound)
  then show ?thesis using assms(1,3) by (simp add: TurnEnds discard_reservations_def) blast
qed (use assms(1,3) retire_bound [OF assms(1)] in
     \<open>auto simp: typed_answer_def card_press_def resolve_prompt_def Let_def
       split: if_splits widget_phase.splits window.splits option.splits prod.splits intro: nonces_bound_cong\<close>)

lemma board_run_bound: "board_run mint no_leftover w \<Longrightarrow> nonces_bound mint w"
proof (induction rule: board_run.induct)
  case board_start
  show ?case by (simp add: nonces_bound_def start_board_def)
next
  case (board_next w a w')
  then show ?case using board_step_bound by blast
qed

text \<open>C21. A card answers only the prompt it was shown with: as long as no prompt is put where an
  answered one was left behind, and nonces do not repeat, a press that decides anything decides the
  open window its nonce was minted for, at the address it names. The buttons of an older card,
  which the platform cannot disable, do nothing.\<close>

theorem stale_card_is_inert:
  assumes "board_run mint no_leftover w" "inj mint"
    and "board_step mint (CardPress s choice (mint j) r permitted) w = Some w'"
    and "window_at w' e \<noteq> window_at w e"
  shows "minted_for w j = e \<and> window_open w e \<and> dict_get (windows w) (prompt_key s r) = Some e"
proof -
  have "fst (card_press s choice (mint j) r permitted w) = w'" using assms(3) by simp
  then obtain b rl where w': "fst (resolve_prompt s b (Some r) (mint j) rl w) = w'" "mint j \<noteq> []"
    using assms(4) by (auto simp: card_press_def Let_def case_prod_beta split: if_splits)
  then obtain key x where x: "first_pending s (Some r) w = Some (key, x)"
    using assms(4) by (auto simp: resolve_prompt_def split: option.splits)
  have n: "dict_get_default (nonces w) key [] = mint j" and e: "e = x"
    using w' assms(4) by (auto simp: resolve_prompt_def x split: if_splits)
  note f = first_pending_Some [OF board_okD(1) [OF board_run_ok [OF assms(1)]] x]
  have "dict_get (nonces w) key = Some (mint j)"
    using n w'(2) by (auto simp: dict_get_default_def simp del: map_of_eq_Some_iff split: option.splits)
  then obtain i where "mint j = mint i" "dict_get (windows w) key = Some (minted_for w i)"
    using board_run_bound [OF assms(1)] unfolding nonces_bound_def by blast
  then show ?thesis using f assms(2) by (simp add: e inj_eq del: map_of_eq_Some_iff)
qed

section \<open>Sample runs\<close>

definition sample_mint :: "nat \<Rightarrow> string" where
  "sample_mint n = replicate (Suc n) (CHR ''n'')"

lemma sample_mint_inj: "inj sample_mint"
  by (rule injI) (simp add: sample_mint_def replicate_eq_replicate)

definition observe_board :: "board_action list \<Rightarrow> (board \<Rightarrow> bool) \<Rightarrow> bool" where
  "observe_board as Q = (case board_steps sample_mint as start_board of None \<Rightarrow> False | Some w \<Rightarrow> Q w)"

text \<open>The steps of a list, each admitted by \<open>P\<close>.\<close>

fun admitted :: "(board_action \<Rightarrow> board \<Rightarrow> bool) \<Rightarrow> board_action list \<Rightarrow> board \<Rightarrow> bool" where
  "admitted P [] w = True"
| "admitted P (a # as) w = (P a w \<and> (case board_step sample_mint a w of None \<Rightarrow> False | Some w \<Rightarrow> admitted P as w))"

lemma board_steps_run:
  assumes "board_steps sample_mint as w = Some w'" "board_run sample_mint P w" "admitted P as w"
  shows "board_run sample_mint P w'"
  using assms
proof (induction as arbitrary: w)
  case (Cons a as)
  from Cons.prems(1) obtain v where v: "board_step sample_mint a w = Some v" "board_steps sample_mint as v = Some w'"
    by (auto split: option.splits)
  have "board_run sample_mint P v" using board_run.board_next [OF Cons.prems(2) _ v(1)] Cons.prems(3) by simp
  then show ?case using Cons.IH [OF v(2)] Cons.prems(3) v(1) by simp
qed simp

lemma observed_board:
  assumes "observe_board as Q" "admitted P as start_board"
  obtains w where "board_run sample_mint P w" "Q w"
proof -
  from assms(1) obtain w where w: "board_steps sample_mint as start_board = Some w" "Q w"
    by (auto simp: observe_board_def split: option.splits)
  show ?thesis using that board_steps_run [OF w(1) board_run.board_start assms(2)] w(2) by blast
qed

definition gen0 :: string where "gen0 = ''webex:a:direct:u''"
definition gen1 :: string where "gen1 = ''webex:a:direct:u:gen1''"

lemma press_or_reply_approves_witness:
  "\<exists>w :: board. decider w 0 = WDecided True \<and> (\<exists>e n rl. rulings w e = Some (n, rl) \<and> put_at w 0 \<le> n \<and>
    (case rl of
       Pressed s' r' nonce \<Rightarrow> nonce \<noteq> [] \<and> prompt_key s' r' = prompt_key gen0 ''7'' \<and>
         (CHR 0x3A \<notin> set ''7'' \<and> CHR 0x3A \<notin> set r' \<longrightarrow> s' = gen0 \<and> r' = ''7'')
     | Typed s' text \<Rightarrow> casefold (strip text) \<in> set APPROVE_REPLIES \<and>
         starts_with (prompt_key gen0 ''7'') (session_prefix s') \<and>
         (CHR 0x3A \<notin> set ''7'' \<longrightarrow> gen0 = s' \<or> (\<exists>x. gen0 = s' @ CHR 0x3A # x))))"
proof -
  let ?as = "[Put 0 gen0 ''7'' True, Sent 0, CardPress gen0 ''approve'' ''n'' ''7'' True, DeciderWakes 0]"
  have "observe_board ?as (\<lambda>w. decider w 0 = WDecided True \<and> carded w 0 \<and> put w 0 = (gen0, ''7''))"
    by code_simp
  then obtain w where w: "board_run sample_mint (\<lambda>_ _. True) w"
    "decider w 0 = WDecided True \<and> carded w 0 \<and> put w 0 = (gen0, ''7'')"
    by (rule observed_board [where P = "\<lambda>_ _. True"]) (code_simp, simp)
  show ?thesis
    using press_or_reply_approves [OF w(1) conjunct1 [OF w(2)] conjunct1 [OF conjunct2 [OF w(2)]]
        conjunct2 [OF conjunct2 [OF w(2)]]] w(2)
    by blast
qed

lemma early_answer_is_honoured_witness:
  "\<exists>w w' w''. board_run sample_mint (\<lambda>_ _. True) w \<and> decider w 0 = WSending \<and>
     resolve_prompt gen0 True (Some ''7'') ''n'' (Pressed gen0 ''7'' ''n'') w = (w', True) \<and>
     board_step sample_mint (Sent 0) w' = Some w'' \<and> decider w'' 0 = WDecided True"
proof -
  have "observe_board [Put 0 gen0 ''7'' True] (\<lambda>w. decider w 0 = WSending \<and> put w 0 = (gen0, ''7'') \<and>
      dict_get (windows w) (put_key w 0) = Some 0 \<and>
      snd (resolve_prompt gen0 True (Some ''7'') ''n'' (Pressed gen0 ''7'' ''n'') w))"
    by code_simp
  then obtain w where w: "board_run sample_mint (\<lambda>_ _. True) w" "decider w 0 = WSending \<and> put w 0 = (gen0, ''7'') \<and>
      dict_get (windows w) (put_key w 0) = Some 0 \<and>
      snd (resolve_prompt gen0 True (Some ''7'') ''n'' (Pressed gen0 ''7'' ''n'') w)"
    by (rule observed_board [where P = "\<lambda>_ _. True"]) (code_simp, simp)
  obtain w' where w': "resolve_prompt gen0 True (Some ''7'') ''n'' (Pressed gen0 ''7'' ''n'') w = (w', True)"
    using w(2) by (metis prod.collapse)
  have "resolve_prompt (fst (put w 0)) True (Some (snd (put w 0))) ''n'' (Pressed gen0 ''7'' ''n'') w = (w', True)"
    using w' w(2) by simp
  from early_answer_is_honoured [OF _ _ this] w(2) w' w(1) show ?thesis by blast
qed

lemma stale_card_is_inert_witness:
  "\<exists>w w'. board_step sample_mint (CardPress gen0 ''approve'' (sample_mint 0) ''7'' True) w = Some w' \<and>
     window_at w' 0 \<noteq> window_at w 0 \<and> minted_for w 0 = 0"
proof -
  let ?a = "CardPress gen0 ''approve'' (sample_mint 0) ''7'' True"
  have "observe_board [Put 0 gen0 ''7'' True]
      (\<lambda>w. case board_step sample_mint ?a w of Some w' \<Rightarrow> window_at w' 0 \<noteq> window_at w 0 | None \<Rightarrow> False)"
    by code_simp
  then obtain w where w: "board_run sample_mint no_leftover w"
    "case board_step sample_mint ?a w of Some w' \<Rightarrow> window_at w' 0 \<noteq> window_at w 0 | None \<Rightarrow> False"
    by (rule observed_board [where P = no_leftover]) (code_simp, simp)
  then obtain w' where w': "board_step sample_mint ?a w = Some w'" "window_at w' 0 \<noteq> window_at w 0"
    by (auto split: option.splits simp del: board_step.simps)
  show ?thesis using stale_card_is_inert [OF w(1) sample_mint_inj w'] w' by blast
qed

section \<open>What the address breaks\<close>

text \<open>The first generation's key is a prefix of the later ones': the end of a turn of generation 0
  drops the prompt a turn of generation 1 is waiting on, and its user's answer is not read.\<close>

theorem old_turn_drops_a_live_prompt:
  "\<exists>w w'. board_run sample_mint no_leftover w \<and> decider w 1 = WDeciding 0 \<and> has_pending gen1 w \<and>
     board_step sample_mint (TurnEnds gen0) w = Some w' \<and> decider w' 1 = WDeciding 0 \<and> window_open w' 0 \<and>
     typed_answer gen1 ''1'' True w' = (w', NotAnAnswer) \<and>
     card_press gen1 ''approve'' (sample_mint 0) ''7'' True w' = (w', NotPending)"
proof -
  have "observe_board [Put 1 gen1 ''7'' True, Sent 1]
     (\<lambda>w. decider w 1 = WDeciding 0 \<and> has_pending gen1 w \<and>
        (case board_step sample_mint (TurnEnds gen0) w of None \<Rightarrow> False
         | Some w' \<Rightarrow> decider w' 1 = WDeciding 0 \<and> window_open w' 0 \<and> windows w' = []))"
    by code_simp
  then obtain w where w: "board_run sample_mint no_leftover w" "decider w 1 = WDeciding 0 \<and> has_pending gen1 w \<and>
        (case board_step sample_mint (TurnEnds gen0) w of None \<Rightarrow> False
         | Some w' \<Rightarrow> decider w' 1 = WDeciding 0 \<and> window_open w' 0 \<and> windows w' = [])"
    by (rule observed_board [where P = no_leftover]) (code_simp, simp)
  let ?v = "discard_reservations gen0 w"
  have "windows ?v = []" using w(2) by simp
  then have "typed_answer gen1 ''1'' True ?v = (?v, NotAnAnswer)"
    "card_press gen1 ''approve'' (sample_mint 0) ''7'' True ?v = (?v, NotPending)"
    by (simp_all add: typed_answer_def card_press_def has_pending_def first_pending_def resolve_prompt_def Let_def)
  then show ?thesis using w by (intro exI [of _ w] exI [of _ ?v]) simp
qed

text \<open>A typed answer in generation 0 answers a prompt of generation 1.\<close>

theorem old_generation_answers_the_new:
  "\<exists>w. board_run sample_mint no_leftover w \<and> decider w 1 = WDecided True \<and> put w 1 = (gen1, ''7'') \<and>
     rulings w 0 = Some (0, Typed gen0 ''1'')"
proof -
  have "observe_board [Put 1 gen1 ''7'' True, Sent 1, TypedIn gen0 ''1'' True, DeciderWakes 1]
     (\<lambda>w. decider w 1 = WDecided True \<and> put w 1 = (gen1, ''7'') \<and> rulings w 0 = Some (0, Typed gen0 ''1''))"
    by code_simp
  then show ?thesis by (rule observed_board [where P = no_leftover]) (code_simp, blast)
qed

text \<open>A prompt answered while it is sent, whose turn then fails before the decider is called, stays
  behind with its nonce: the next prompt with the same request id shows the same nonce, and the
  old card, for another tool, approves it.\<close>

theorem leftover_nonce_approves_a_later_tool:
  "\<exists>w. board_run sample_mint (\<lambda>_ _. True) w \<and> decider w 1 = WDecided True \<and> next_nonce w = 1 \<and>
     minted_for w 0 = 0 \<and> rulings w 1 = Some (1, Pressed gen0 ''7'' (sample_mint 0))"
proof -
  let ?press = "CardPress gen0 ''approve'' (sample_mint 0) ''7'' True"
  have "observe_board [Put 0 gen0 ''7'' True, CardPress gen0 ''deny'' (sample_mint 0) ''7'' True, SendTorn 0,
        TurnEnds gen0, Put 1 gen0 ''7'' True, Sent 1, ?press, DeciderWakes 1]
     (\<lambda>w. decider w 1 = WDecided True \<and> next_nonce w = 1 \<and> minted_for w 0 = 0 \<and>
       rulings w 1 = Some (1, Pressed gen0 ''7'' (sample_mint 0)))"
    by code_simp
  then show ?thesis by (rule observed_board [where P = "\<lambda>_ _. True"]) (code_simp, blast)
qed

end
