(* ===== verification/Session_Keys.thy ===== *)
theory Session_Keys
  imports Pool_Key Url
begin

text \<open>
  Session keys and channel links (\<open>messaging/link.py\<close>): the namespaces of conversations, the shim
  between bare Slack timestamps and \<open>slack:\<close> keys, the file stem of a key, the grammar
  \<open>surface:agent:chat_type:scope[:genN]\<close> with its builder and its parser, and the link record.
  Digits and word characters are ASCII here; Python's \<open>\d\<close> and \<open>\w\<close> admit more.
\<close>

section \<open>Namespaces\<close>

definition CHANNEL_SESSION_NAMESPACES :: "string list" where
  "CHANNEL_SESSION_NAMESPACES = [''slack'', ''discord'', ''telegram'', ''whatsapp'', ''webex'', ''wecom'',
     ''teams'', ''weixin'', ''imessage'', ''feishu'', ''unified'']"

definition in_namespace :: "string \<Rightarrow> string \<Rightarrow> bool" where
  "in_namespace key ns \<longleftrightarrow> starts_with key (ns @ '':'') \<or> starts_with key (ns @ ''_'')"

definition is_channel_session_key :: "string \<Rightarrow> bool" where
  "is_channel_session_key key \<longleftrightarrow> list_ex (in_namespace key) CHANNEL_SESSION_NAMESPACES"

definition channel_namespace_of :: "string \<Rightarrow> string" where
  "channel_namespace_of key = (case find (in_namespace key) CHANNEL_SESSION_NAMESPACES of None \<Rightarrow> [] | Some ns \<Rightarrow> ns)"

section \<open>Bare and namespaced Slack keys\<close>

definition digit_run :: "string \<Rightarrow> bool" where
  "digit_run s \<longleftrightarrow> 1 \<le> length s \<and> length s \<le> 20 \<and> list_all is_digit s"

definition is_legacy_slack_key :: "string \<Rightarrow> bool" where
  "is_legacy_slack_key key \<longleftrightarrow>
     (case partition_at (CHR ''.'') key of (secs, dot, micros) \<Rightarrow> dot \<and> digit_run secs \<and> digit_run micros)"

definition canonical_key :: "string \<Rightarrow> string" where
  "canonical_key key = (if is_legacy_slack_key key then ''slack:'' @ key else key)"

definition legacy_key :: "string \<Rightarrow> string option" where
  "legacy_key key =
     (if starts_with key ''slack:'' \<and> is_legacy_slack_key (drop 6 key) then Some (drop 6 key) else None)"

definition safe_char :: "char \<Rightarrow> bool" where
  "safe_char c \<longleftrightarrow> is_digit c \<or>
     (let n = (of_char c :: nat) in (65 \<le> n \<and> n \<le> 90) \<or> (97 \<le> n \<and> n \<le> 122)) \<or> c \<in> set ''_-.''"

definition safe_key :: "string \<Rightarrow> string" where
  "safe_key key = map (\<lambda>c. if safe_char c then c else CHR ''_'') key"

definition legacy_dashboard_mirror_key :: "string \<Rightarrow> string" where
  "legacy_dashboard_mirror_key key = ''dashboard:'' @ safe_key key"

section \<open>Channel links\<close>

text \<open>The fields as \<open>from_dict\<close> reads them, without a check of their types.\<close>

record channel_link =
  channel_type :: json
  channel_id :: json
  thread_id :: json

definition link_to_dict :: "channel_link \<Rightarrow> jobj" where
  "link_to_dict l = [(''channel_type'', channel_type l), (''channel_id'', channel_id l), (''thread_id'', thread_id l)]"

definition link_from_dict :: "jobj \<Rightarrow> channel_link" where
  "link_from_dict d = \<lparr>channel_type = jget_default d ''channel_type'' (JStr []), channel_id = jget d ''channel_id'',
     thread_id = jget d ''thread_id''\<rparr>"

lemma link_roundtrip [simp]: "link_from_dict (link_to_dict l) = l"
  by (simp add: link_from_dict_def link_to_dict_def jget_def jget_default_def dict_get_default_def)

section \<open>The key grammar\<close>

record session_address =
  surface :: string
  agent_seg :: string
  chat_type :: string
  scope :: "string list"
  gen :: nat

definition address_bucket :: "session_address \<Rightarrow> string" where
  "address_bucket a = join_with (CHR '':'') (surface a # agent_seg a # chat_type a # scope a)"

text \<open>The \<open>$\<close> of the pattern also matches before a final newline.\<close>

definition gen_suffix :: "string \<Rightarrow> nat option" where
  "gen_suffix t =
     (let n = drop 3 t;
          digits = (if n \<noteq> [] \<and> last n = CHR 0x0A then butlast n else n)
      in if starts_with t ''gen'' \<and> digits \<noteq> [] \<and> list_all is_digit digits then Some (digits_val digits 0)
         else None)"

definition parse_session_key :: "string \<Rightarrow> session_address option" where
  "parse_session_key key =
     (let segments = split_on (CHR '':'') key
      in if key = [] \<or> length segments < 4 \<or> hd segments \<notin> set CHANNEL_SESSION_NAMESPACES then None
         else let n = gen_suffix (last segments);
                  body = (if n = None then segments else butlast segments)
              in if length body < 4 \<or> [] \<in> set body then None
                 else Some \<lparr>surface = body ! 0, agent_seg = body ! 1, chat_type = body ! 2, scope = drop 3 body,
                   gen = (case n of None \<Rightarrow> 0 | Some n \<Rightarrow> n)\<rparr>)"

definition assert_colon_free :: "string \<Rightarrow> unit res" where
  "assert_colon_free segment = ensure (CHR '':'' \<notin> set segment) ValueError"

definition gen_text :: "nat \<Rightarrow> string" where
  "gen_text n = (if n = 0 then [] else '':gen'' @ decimal n)"

definition build_dm_session_key :: "string \<Rightarrow> string \<Rightarrow> string \<Rightarrow> nat \<Rightarrow> string \<Rightarrow> string \<Rightarrow> string res" where
  "build_dm_session_key channel agent user n dm_scope chat =
     (if dm_scope = ''unified'' \<and> chat = ''direct''
      then rbind (assert_colon_free agent) (\<lambda>_. Inr (''unified:'' @ agent @ gen_text n))
      else if CHR '':'' \<in> set user \<and> [] \<in> set (split_on (CHR '':'') user) then Inl ValueError
      else rbind (assert_colon_free channel) (\<lambda>_.
           rbind (assert_colon_free agent) (\<lambda>_.
           rbind (assert_colon_free chat) (\<lambda>_.
             Inr (join_with (CHR '':'') [channel, agent, chat, user] @ gen_text n)))))"

section \<open>Facts about keys\<close>

lemma canonical_not_legacy: "\<not> is_legacy_slack_key (''slack:'' @ key)"
proof
  assume "is_legacy_slack_key (''slack:'' @ key)"
  then obtain h t where p: "partition_at (CHR ''.'') (''slack:'' @ key) = (h, True, t)" "list_all is_digit h" "h \<noteq> []"
    by (auto simp: is_legacy_slack_key_def digit_run_def split: prod.splits)
  from partition_at_found [OF p(1)] have "hd h = CHR ''s''" using p(3) by (cases h) auto
  with p(2,3) show False by (cases h) (simp_all add: is_digit_def)
qed

lemma canonical_idem [simp]: "canonical_key (canonical_key key) = canonical_key key"
  using canonical_not_legacy by (simp add: canonical_key_def)

lemma legacy_dashboard_canonical [simp]:
  "canonical_key (legacy_dashboard_mirror_key key) = legacy_dashboard_mirror_key key"
  "\<not> is_channel_session_key (legacy_dashboard_mirror_key key)"
proof -
  have "\<not> is_legacy_slack_key (''dashboard:'' @ s)" for s
  proof
    assume "is_legacy_slack_key (''dashboard:'' @ s)"
    then obtain h t where p: "partition_at (CHR ''.'') (''dashboard:'' @ s) = (h, True, t)" "list_all is_digit h" "h \<noteq> []"
      by (auto simp: is_legacy_slack_key_def digit_run_def split: prod.splits)
    from partition_at_found [OF p(1)] have "hd h = CHR ''d''" using p(3) by (cases h) auto
    with p(2,3) show False by (cases h) (simp_all add: is_digit_def)
  qed
  then show "canonical_key (legacy_dashboard_mirror_key key) = legacy_dashboard_mirror_key key"
    by (simp add: canonical_key_def legacy_dashboard_mirror_key_def)
  show "\<not> is_channel_session_key (legacy_dashboard_mirror_key key)"
    by (simp add: is_channel_session_key_def in_namespace_def CHANNEL_SESSION_NAMESPACES_def legacy_dashboard_mirror_key_def)
qed

lemma decimal_nonempty [simp]: "decimal n \<noteq> []"
  by (subst decimal.simps) simp

lemma hex_digit_value: "n < 10 \<Longrightarrow> is_digit (hex_digit n) \<and> (of_char (hex_digit n) :: nat) = 48 + n"
  by (auto simp: hex_digit_def is_digit_def less_Suc_eq numeral_nat)

lemma decimal_is_digits: "list_all is_digit (decimal n)"
  using decimal_digits hex_digit_value by (fastforce simp: list_all_iff digit_def)

lemma digits_val_append: "digits_val (s @ t) acc = digits_val t (digits_val s acc)"
  by (induction s arbitrary: acc) auto

lemma digits_val_decimal [simp]: "digits_val (decimal n) 0 = n"
proof (induction n rule: decimal.induct)
  case (1 n)
  then show ?case
    by (subst decimal.simps) (simp add: digits_val_append hex_digit_value mult.commute)
qed

lemma last_decimal: "last (decimal n) \<noteq> CHR 0x0A"
proof
  assume "last (decimal n) = CHR 0x0A"
  then have "is_digit (CHR 0x0A)" using decimal_is_digits [of n] by (metis decimal_nonempty last_in_set list_all_iff)
  then show False by (simp add: is_digit_def)
qed

lemma gen_suffix_gen [simp]: "gen_suffix (CHR ''g'' # CHR ''e'' # CHR ''n'' # decimal n) = Some n"
  using last_decimal [of n] decimal_is_digits [of n] by (simp add: gen_suffix_def)

lemma join_with_Cons: "join_with c ((a # p) # ps) = a # join_with c (p # ps)"
  by (cases ps) auto

lemma join_split: "join_with c (split_on c s) = s"
proof (induction s)
  case (Cons x s)
  then show ?case by (cases "split_on c s") (auto simp: join_with_Cons)
qed simp

text \<open>The builder and the parser of conversation keys agree: the key built for a channel's
  agent, chat type and scope path parses to exactly these parts and the generation, and its bucket
  is the key of generation 0. The one exception is a generation-0 key whose scope path itself ends
  in a generation suffix, and the collapsed \<open>unified\<close> keys, which the grammar does not cover.\<close>

theorem conversation_key_roundtrip:
  assumes "build_dm_session_key channel agent user n dm_scope chat = Inr key"
    and "channel \<in> set CHANNEL_SESSION_NAMESPACES" "agent \<noteq> []" "chat \<noteq> []" "user \<noteq> []"
    and "\<not> (dm_scope = ''unified'' \<and> chat = ''direct'')"
    and "n = 0 \<longrightarrow> gen_suffix (last (split_on (CHR '':'') user)) = None"
  shows "parse_session_key key = Some \<lparr>surface = channel, agent_seg = agent, chat_type = chat,
      scope = split_on (CHR '':'') user, gen = n\<rparr> \<and>
    build_dm_session_key channel agent user 0 dm_scope chat =
      Inr (address_bucket \<lparr>surface = channel, agent_seg = agent, chat_type = chat,
        scope = split_on (CHR '':'') user, gen = n\<rparr>)"
proof -
  let ?c = "CHR '':''" and ?us = "split_on (CHR '':'') user"
  have colon: "?c \<notin> set channel" "?c \<notin> set agent" "?c \<notin> set chat"
    and key: "key = join_with ?c [channel, agent, chat, user] @ gen_text n"
    and parts: "[] \<notin> set ?us"
    using assms(1,5,6) by (auto simp: build_dm_session_key_def assert_colon_free_def res_simps split: if_splits)
  have ch: "channel \<noteq> []" using assms(2) by (auto simp: CHANNEL_SESSION_NAMESPACES_def)
  have join: "join_with ?c ?us = user" by (rule join_split)
  have scope: "split_on ?c (join_with ?c [channel, agent, chat, user]) = channel # agent # chat # ?us"
    using colon by (simp add: split_on_append)
  have tail: "split_on ?c (u @ ?c # ''gen'' @ decimal n) = split_on ?c u @ [''gen'' @ decimal n]" for u
  proof -
    have "?c \<notin> set (''gen'' @ decimal n)" using decimal_is_digits [of n] by (auto simp: list_all_iff is_digit_def)
    then show ?thesis by (induction u) (auto split: list.splits)
  qed
  have "split_on ?c key = (channel # agent # chat # ?us) @ (if n = 0 then [] else [''gen'' @ decimal n])"
    using tail [of "join_with ?c [channel, agent, chat, user]"] scope unfolding key gen_text_def by simp
  then have "parse_session_key key = Some \<lparr>surface = channel, agent_seg = agent, chat_type = chat, scope = ?us, gen = n\<rparr>"
    using assms(2-4,7) parts ch key
    by (auto simp: parse_session_key_def Let_def butlast_append Suc_le_eq last_append)
  moreover have "build_dm_session_key channel agent user 0 dm_scope chat = Inr (join_with ?c [channel, agent, chat, user])"
    using assms(5,6) colon parts by (auto simp: build_dm_session_key_def assert_colon_free_def ensure_def gen_text_def)
  moreover have "join_with ?c (channel # agent # chat # ?us) = join_with ?c [channel, agent, chat, user]"
    using join by (cases ?us) auto
  ultimately show ?thesis by (simp add: address_bucket_def)
qed

lemma conversation_key_roundtrip_witness:
  "parse_session_key ''telegram:coder:forum:7:9:gen3'' = Some \<lparr>surface = ''telegram'', agent_seg = ''coder'',
     chat_type = ''forum'', scope = [''7'', ''9''], gen = 3\<rparr>"
proof -
  have "build_dm_session_key ''telegram'' ''coder'' ''7:9'' 3 ''unified'' ''forum'' = Inr ''telegram:coder:forum:7:9:gen3''"
    by code_simp
  from conversation_key_roundtrip [OF this] show ?thesis by (simp add: CHANNEL_SESSION_NAMESPACES_def)
qed

text \<open>The exception is real: the first conversation of a user, or of a topic, named like a generation.\<close>

theorem generation_like_scope_misparses:
  "build_dm_session_key ''discord'' ''a'' ''7:gen5'' 0 ''per-channel-peer'' ''direct'' = Inr ''discord:a:direct:7:gen5'' \<and>
   parse_session_key ''discord:a:direct:7:gen5'' = Some \<lparr>surface = ''discord'', agent_seg = ''a'',
     chat_type = ''direct'', scope = [''7''], gen = 5\<rparr>"
  by code_simp

end
