(* ===== verification/Session_Map.thy ===== *)
theory Session_Map
  imports Session_Keys
begin

text \<open>
  The session map (\<open>session_map.py\<close>): conversations to backend sessions, with the Slack thread and
  the mirror each is bound to. Entries are the JSON objects the code keeps, so a malformed file is
  a state of the model. Each method runs under the map lock and is one function here; the write it
  owes is counted by \<open>saves\<close>, and how that write reaches the disk is the subject of
  \<open>Session_Flush\<close>. \<open>unbound\<close> is the sequence of announcements \<open>_note_inbound_unbind\<close> made.
  The transcript files enter as arguments: whether the \<open>.json\<close> of a session exists, and the size
  of its \<open>.jsonl\<close>.
\<close>

section \<open>State\<close>

record smap =
  entries :: "(string, jobj) dict"
  thread_index :: "(string, string) dict"
  saves :: nat
  unbound :: "(string \<times> channel_link \<times> string) list"

definition empty_map :: smap where
  "empty_map = \<lparr>entries = [], thread_index = [], saves = 0, unbound = []\<rparr>"

definition owe_write :: "smap \<Rightarrow> smap" where
  "owe_write s = s\<lparr>saves := saves s + 1\<rparr>"

definition put_entry :: "string \<Rightarrow> jobj \<Rightarrow> smap \<Rightarrow> smap" where
  "put_entry key e s = s\<lparr>entries := dict_set key e (entries s)\<rparr>"

text \<open>\<open>entry = self._data.get(key)\<close> followed by \<open>if not entry\<close>: an empty object counts as none.\<close>

definition entry_of :: "string \<Rightarrow> smap \<Rightarrow> jobj option" where
  "entry_of key s = (case dict_get (entries s) key of Some e \<Rightarrow> if e = [] then None else Some e | None \<Rightarrow> None)"

definition blank_entry :: jobj where
  "blank_entry = [(''sid'', JStr []), (''slack_thread_ts'', JNull), (''slack_channel_id'', JNull)]"

section \<open>Bindings and staleness\<close>

definition DURABLE_FLAGS :: "string list" where "DURABLE_FLAGS = [''mirror_opt_out'']"

definition has_durable_flag :: "jobj \<Rightarrow> bool" where
  "has_durable_flag e =
     (case jget e ''flags'' of JObj flags \<Rightarrow> list_ex (\<lambda>name. truthy (jget flags name)) DURABLE_FLAGS | _ \<Rightarrow> False)"

definition survives_prune :: "jobj \<Rightarrow> bool" where
  "survives_prune e \<longleftrightarrow> has_durable_flag e \<or> truthy (jget e ''slack_thread_ts'') \<or> truthy (jget e ''mirror'')"

definition inbound_binding :: "jobj \<Rightarrow> channel_link option" where
  "inbound_binding e =
     (if \<not> truthy (jget e ''mirror_accepts_inbound'') then None
      else case jget e ''mirror'' of JObj d \<Rightarrow> Some (link_from_dict d) | _ \<Rightarrow> None)"

definition UNBIND_REASONS :: "string list" where
  "UNBIND_REASONS = [''unspecified'', ''user_unlink'', ''dashboard_unlink'', ''origin_rebind'',
     ''session_destroyed'', ''entry_deleted'', ''pruned_stale'']"

definition normalize_unbind_reason :: "string \<Rightarrow> string" where
  "normalize_unbind_reason reason = (if reason \<in> set UNBIND_REASONS then reason else ''unspecified'')"

definition note_inbound_unbind :: "string \<Rightarrow> channel_link \<Rightarrow> string \<Rightarrow> smap \<Rightarrow> smap" where
  "note_inbound_unbind key link reason s = s\<lparr>unbound := unbound s @ [(key, link, normalize_unbind_reason reason)]\<rparr>"

definition note_lost :: "string \<Rightarrow> channel_link option \<Rightarrow> string \<Rightarrow> smap \<Rightarrow> smap" where
  "note_lost key lost reason s = (case lost of None \<Rightarrow> s | Some link \<Rightarrow> note_inbound_unbind key link reason s)"

section \<open>The thread index\<close>

text \<open>A timestamp is used as a key of the index, which raises for a list or an object.\<close>

fun unhashable :: "json \<Rightarrow> bool" where
  "unhashable (JArr _) = True"
| "unhashable (JObj _) = True"
| "unhashable _ = False"

definition thread_owner :: "json \<Rightarrow> smap \<Rightarrow> string option" where
  "thread_owner ts s = (case ts of JStr t \<Rightarrow> dict_get (thread_index s) t | _ \<Rightarrow> None)"

definition drop_thread :: "json \<Rightarrow> smap \<Rightarrow> smap" where
  "drop_thread ts s = (case ts of JStr t \<Rightarrow> s\<lparr>thread_index := dict_del t (thread_index s)\<rparr> | _ \<Rightarrow> s)"

definition get_session_for_thread :: "string \<Rightarrow> smap \<Rightarrow> string option" where
  "get_session_for_thread thread_ts s = dict_get (thread_index s) thread_ts"

definition ends_with :: "string \<Rightarrow> string \<Rightarrow> bool" where
  "ends_with s t = starts_with (rev s) (rev t)"

definition is_self_derived :: "string \<Rightarrow> string \<Rightarrow> bool" where
  "is_self_derived key thread_ts \<longleftrightarrow> is_channel_session_key key \<and> ends_with key thread_ts"

definition set_default :: "'k \<Rightarrow> 'v \<Rightarrow> ('k, 'v) dict \<Rightarrow> ('k, 'v) dict" where
  "set_default k v d = (if dict_get d k = None then dict_set k v d else d)"

text \<open>The two dictionaries of \<open>_rebuild_thread_index\<close>: claims by others, and self-derived ones.\<close>

definition index_entry :: "string \<times> jobj \<Rightarrow> (string, string) dict \<times> (string, string) dict \<Rightarrow>
    (string, string) dict \<times> (string, string) dict" where
  "index_entry kv acc =
     (case (kv, acc) of ((key, e), (rebuilt, derived)) \<Rightarrow>
        (case jget e ''slack_thread_ts'' of
           JStr ts \<Rightarrow> if ts = [] then (rebuilt, derived)
                     else if is_self_derived key ts then (rebuilt, set_default ts key derived)
                     else (dict_set ts key rebuilt, derived)
         | _ \<Rightarrow> (rebuilt, derived)))"

definition rebuild_index :: "(string, jobj) dict \<Rightarrow> (string, string) dict" where
  "rebuild_index d =
     (case fold index_entry d ([], []) of (rebuilt, derived) \<Rightarrow>
        fold (\<lambda>(ts, key). set_default ts key) derived rebuilt)"

definition rebuild_thread_index :: "smap \<Rightarrow> smap" where
  "rebuild_thread_index s = s\<lparr>thread_index := rebuild_index (entries s)\<rparr>"

section \<open>Entries\<close>

definition remove_entry :: "string \<Rightarrow> string \<Rightarrow> smap \<Rightarrow> smap \<times> unit res" where
  "remove_entry key reason s =
     (case dict_get (entries s) key of
        None \<Rightarrow> (s, Inr ())
      | Some e \<Rightarrow>
          let s = s\<lparr>entries := dict_del key (entries s)\<rparr>; ts = jget e ''slack_thread_ts''
          in if e = [] then (s, Inr ())
             else if truthy ts \<and> unhashable ts then (s, Inl TypeError)
             else (note_lost key (inbound_binding e) reason
                     (owe_write (if truthy ts \<and> thread_owner ts s = Some key then drop_thread ts s else s)),
                   Inr ()))"

definition resolve_alias :: "string \<Rightarrow> smap \<Rightarrow> string \<times> jobj option" where
  "resolve_alias key s =
     (let canon = canonical_key key;
          (k1, e1) =
            (if entry_of key s = None \<and> canon \<noteq> key
             then (if entry_of canon s \<noteq> None then canon else key, dict_get (entries s) canon)
             else (key, dict_get (entries s) key));
          folded = ''dashboard:'' @ drop 20 k1
      in if (e1 = None \<or> e1 = Some []) \<and> starts_with k1 ''dashboard:dashboard_''
         then (if entry_of folded s \<noteq> None then folded else k1, dict_get (entries s) folded)
         else (k1, e1))"

definition repair_or_remove_stale :: "string \<Rightarrow> smap \<Rightarrow> smap \<times> unit res" where
  "repair_or_remove_stale key s =
     (case dict_get (entries s) key of
        Some e \<Rightarrow>
          if survives_prune e
          then (if truthy (jget e ''sid'') then owe_write (put_entry key (dict_set ''sid'' (JStr []) e) s) else s, Inr ())
          else remove_entry key ''entry_deleted'' s
      | None \<Rightarrow> remove_entry key ''entry_deleted'' s)"

definition native_backend :: "jobj \<Rightarrow> bool" where
  "native_backend e \<longleftrightarrow> \<not> truthy (jget e ''provider'') \<or> jget e ''provider'' = JStr ''acp''"

text \<open>\<open>get\<close>: the session id when it can still be resumed, \<open>None\<close> otherwise.\<close>

definition get_sid :: "(json \<Rightarrow> bool) \<Rightarrow> (json \<Rightarrow> nat) \<Rightarrow> string \<Rightarrow> smap \<Rightarrow> smap \<times> json res" where
  "get_sid has_json jsonl_size key s =
     (case resolve_alias key s of (matched, entry) \<Rightarrow>
        (case entry of
           None \<Rightarrow> (s, Inr JNull)
         | Some e \<Rightarrow>
             let sid = jget e ''sid''
             in if e = [] then (s, Inr JNull)
                else if \<not> jhas e ''sid'' then (s, Inl KeyError)
                else if \<not> native_backend e then (s, Inr sid)
                else if truthy sid \<and> (has_json sid \<longrightarrow> jsonl_size sid < 10) then
                  (case repair_or_remove_stale matched s of (s, r) \<Rightarrow> (s, rbind r (\<lambda>_. Inr JNull)))
                else (s, Inr (if truthy sid then sid else JNull))))"

definition has_hint :: "string \<Rightarrow> smap \<Rightarrow> bool" where
  "has_hint key s \<longleftrightarrow> snd (resolve_alias key s) \<noteq> None"

definition set_optional :: "string \<Rightarrow> string \<Rightarrow> jobj \<Rightarrow> jobj" where
  "set_optional k v e = (if v \<noteq> [] then dict_set k (JStr v) e else e)"

definition set_sid :: "string \<Rightarrow> string \<Rightarrow> string \<Rightarrow> string \<Rightarrow> smap \<Rightarrow> smap" where
  "set_sid key sid provider cwd s =
     (let key = canonical_key key;
          e = (case entry_of key s of Some e \<Rightarrow> dict_set ''sid'' (JStr sid) e
               | None \<Rightarrow> dict_set ''sid'' (JStr sid) blank_entry)
      in owe_write (put_entry key (set_optional ''cwd'' cwd (set_optional ''provider'' provider e)) s))"

definition field_or :: "string \<Rightarrow> string \<Rightarrow> smap \<Rightarrow> json" where
  "field_or name key s =
     (case entry_of (canonical_key key) s of None \<Rightarrow> JStr [] | Some e \<Rightarrow> jget_default e name (JStr []))"

definition get_cwd :: "string \<Rightarrow> smap \<Rightarrow> json" where "get_cwd = field_or ''cwd''"
definition get_provider :: "string \<Rightarrow> smap \<Rightarrow> json" where "get_provider = field_or ''provider''"
definition get_discarded_sid :: "string \<Rightarrow> smap \<Rightarrow> json" where "get_discarded_sid = field_or ''discarded_sid''"

definition clear_sid :: "string \<Rightarrow> smap \<Rightarrow> smap" where
  "clear_sid key s =
     (case entry_of (canonical_key key) s of
        Some e \<Rightarrow>
          if truthy (jget e ''sid'')
          then owe_write (put_entry (canonical_key key)
                 (dict_set ''sid'' (JStr []) (dict_set ''discarded_sid'' (jget e ''sid'') e)) s)
          else s
      | None \<Rightarrow> s)"

definition delete_entry :: "string \<Rightarrow> string \<Rightarrow> smap \<Rightarrow> smap \<times> unit res" where
  "delete_entry key reason s = remove_entry (canonical_key key) reason s"

section \<open>Pruning\<close>

datatype prune_verdict = KeepEntry | ResetSid | CollectEntry

definition prune_entry :: "(json \<Rightarrow> bool) \<Rightarrow> jobj \<Rightarrow> prune_verdict" where
  "prune_entry has_json e =
     (if \<not> native_backend e then KeepEntry
      else if truthy (jget e ''sid'') then
        if has_json (jget e ''sid'') then KeepEntry else if survives_prune e then ResetSid else CollectEntry
      else if survives_prune e then KeepEntry else CollectEntry)"

fun remove_entries :: "string list \<Rightarrow> string \<Rightarrow> smap \<Rightarrow> smap \<times> unit res" where
  "remove_entries [] reason s = (s, Inr ())"
| "remove_entries (k # ks) reason s =
     (case remove_entry k reason s of (s, r) \<Rightarrow> (case r of Inl x \<Rightarrow> (s, Inl x) | Inr _ \<Rightarrow> remove_entries ks reason s))"

definition prune_map :: "(json \<Rightarrow> bool) \<Rightarrow> smap \<Rightarrow> smap \<times> nat res" where
  "prune_map has_json s =
     (let stale = map fst (filter (\<lambda>kv. prune_entry has_json (snd kv) = CollectEntry) (entries s));
          repaired = list_ex (\<lambda>kv. prune_entry has_json (snd kv) = ResetSid) (entries s);
          s = s\<lparr>entries := map (\<lambda>kv. (fst kv, if prune_entry has_json (snd kv) = ResetSid
                 then dict_set ''sid'' (JStr []) (snd kv) else snd kv)) (entries s)\<rparr>
      in if stale \<noteq> [] then
           (case remove_entries stale ''pruned_stale'' s of (s, r) \<Rightarrow>
              (case r of Inl x \<Rightarrow> (s, Inl x)
               | Inr _ \<Rightarrow> (owe_write (rebuild_thread_index s), Inr (length stale))))
         else (if repaired then owe_write s else s, Inr 0))"

definition mapped_sids_by_key :: "smap \<Rightarrow> (string, string) dict" where
  "mapped_sids_by_key s =
     concat (map (\<lambda>(k, e). case jget e ''sid'' of JStr sid \<Rightarrow> if sid \<noteq> [] then [(k, sid)] else [] | _ \<Rightarrow> []) (entries s))"

end
