(* ===== verification/Session_Links.thy ===== *)
theory Session_Links
  imports Session_Map
begin

text \<open>
  The bindings of the session map: the Slack link with its reverse index, the mirror link of the
  other channels with its inbound marker, the mutes, the conversation's own link, and the settings
  on an entry; then every public method as an action on the map.
\<close>

section \<open>Slack threads\<close>

definition drop_slack_fields :: "jobj \<Rightarrow> jobj" where
  "drop_slack_fields e = dict_del ''slack_channel_id'' (dict_del ''slack_thread_ts'' e)"

definition rival_claim :: "string \<Rightarrow> string \<Rightarrow> string \<times> jobj \<Rightarrow> bool" where
  "rival_claim key thread_ts kv \<longleftrightarrow> fst kv \<noteq> key \<and> jget (snd kv) ''slack_thread_ts'' = JStr thread_ts"

definition evict_rival_claimants :: "string \<Rightarrow> string \<Rightarrow> smap \<Rightarrow> smap \<times> string list" where
  "evict_rival_claimants key thread_ts s =
     (if is_self_derived key thread_ts then (s, [])
      else (s\<lparr>entries := map (\<lambda>kv. (fst kv, if rival_claim key thread_ts kv then drop_slack_fields (snd kv) else snd kv))
                (entries s)\<rparr>,
            map fst (filter (rival_claim key thread_ts) (entries s))))"

definition index_thread :: "string \<Rightarrow> string \<Rightarrow> smap \<Rightarrow> smap" where
  "index_thread thread_ts key s = s\<lparr>thread_index := dict_set thread_ts key (thread_index s)\<rparr>"

definition index_default :: "string \<Rightarrow> string \<Rightarrow> smap \<Rightarrow> smap" where
  "index_default thread_ts key s = s\<lparr>thread_index := set_default thread_ts key (thread_index s)\<rparr>"

text \<open>The claim of a thread after the entry was written: a self-derived claim displaces nobody.\<close>

definition claim_thread :: "string \<Rightarrow> string \<Rightarrow> smap \<Rightarrow> smap" where
  "claim_thread thread_ts key s =
     (if thread_ts = [] then s
      else if is_self_derived key thread_ts then index_default thread_ts key s else index_thread thread_ts key s)"

definition relink_fields :: "string \<Rightarrow> json \<Rightarrow> jobj \<Rightarrow> jobj" where
  "relink_fields thread_ts channel e =
     dict_set ''slack_channel_id'' channel (dict_set ''slack_thread_ts'' (JStr thread_ts) e)"

definition set_slack_link :: "string \<Rightarrow> string \<Rightarrow> json \<Rightarrow> smap \<Rightarrow> smap \<times> unit res" where
  "set_slack_link key thread_ts channel s =
     (let key = canonical_key key;
          (s, evicted) = (if thread_ts \<noteq> [] then evict_rival_claimants key thread_ts s else (s, []))
      in case entry_of key s of
           Some e \<Rightarrow>
             if jget e ''slack_thread_ts'' = JStr thread_ts \<and> jget e ''slack_channel_id'' = channel
             then let s = (if thread_ts = [] then s
                           else if evicted \<noteq> [] then index_thread thread_ts key s else index_default thread_ts key s)
                  in (if evicted \<noteq> [] then owe_write s else s, Inr ())
             else let e = dict_del ''slack_paused'' e; old_ts = jget e ''slack_thread_ts'';
                      moved = truthy old_ts \<and> old_ts \<noteq> JStr thread_ts
                  in if moved \<and> unhashable old_ts then (put_entry key e s, Inl TypeError)
                     else (owe_write (claim_thread thread_ts key
                             (put_entry key (relink_fields thread_ts channel e) (if moved then drop_thread old_ts s else s))),
                           Inr ())
         | None \<Rightarrow> (owe_write (claim_thread thread_ts key (put_entry key (relink_fields thread_ts channel blank_entry) s)),
                    Inr ()))"

definition get_slack_link :: "string \<Rightarrow> smap \<Rightarrow> json \<times> json" where
  "get_slack_link key s =
     (case entry_of (canonical_key key) s of None \<Rightarrow> (JNull, JNull)
      | Some e \<Rightarrow> (jget e ''slack_thread_ts'', jget e ''slack_channel_id''))"

text \<open>The index is compared with the key as given, not with its canonical form.\<close>

definition clear_slack_link :: "string \<Rightarrow> smap \<Rightarrow> smap \<times> bool res" where
  "clear_slack_link key s =
     (case entry_of (canonical_key key) s of
        None \<Rightarrow> (s, Inr False)
      | Some e \<Rightarrow>
          let old_ts = jget e ''slack_thread_ts'';
              had_link = truthy old_ts \<or> truthy (jget e ''slack_channel_id'');
              was_paused = jget e ''slack_paused'' \<noteq> JNull
          in if truthy old_ts \<and> unhashable old_ts then (s, Inl TypeError)
             else let s = (if truthy old_ts \<and> thread_owner old_ts s = Some key then drop_thread old_ts s else s);
                      s = put_entry (canonical_key key) (dict_del ''slack_paused'' (drop_slack_fields e)) s
                  in (if had_link \<or> was_paused then owe_write s else s, Inr had_link))"

definition set_marker :: "string \<Rightarrow> string \<Rightarrow> bool \<Rightarrow> smap \<Rightarrow> smap \<times> bool" where
  "set_marker key name on s =
     (case entry_of key s of
        None \<Rightarrow> (s, False)
      | Some e \<Rightarrow>
          let was = (jget e name = JBool True)
          in if on \<and> \<not> was then (owe_write (put_entry key (dict_set name (JBool True) e) s), was)
             else if \<not> on \<and> was then (owe_write (put_entry key (dict_del name e) s), was) else (s, was))"

definition set_slack_paused :: "string \<Rightarrow> bool \<Rightarrow> smap \<Rightarrow> smap \<times> bool" where
  "set_slack_paused key = set_marker (canonical_key key) ''slack_paused''"

definition is_slack_paused :: "string \<Rightarrow> smap \<Rightarrow> bool" where
  "is_slack_paused key s =
     (case entry_of (canonical_key key) s of None \<Rightarrow> False
      | Some e \<Rightarrow> (truthy (jget e ''slack_thread_ts'') \<or> truthy (jget e ''slack_channel_id'')) \<and>
          jget e ''slack_paused'' = JBool True)"

section \<open>Mirrors\<close>

definition mirrors_at :: "channel_link \<Rightarrow> bool \<Rightarrow> jobj \<Rightarrow> bool" where
  "mirrors_at link inbound_only e \<longleftrightarrow>
     (case jget e ''mirror'' of
        JObj d \<Rightarrow> (inbound_only \<longrightarrow> truthy (jget e ''mirror_accepts_inbound'')) \<and> link_from_dict d = link
      | _ \<Rightarrow> False)"

definition find_mirror_sessions :: "channel_link \<Rightarrow> bool \<Rightarrow> smap \<Rightarrow> string list" where
  "find_mirror_sessions link inbound_only s = map fst (filter (\<lambda>kv. mirrors_at link inbound_only (snd kv)) (entries s))"

definition mirror_key :: "string \<Rightarrow> smap \<Rightarrow> string" where
  "mirror_key key s =
     (let canon = canonical_key key;
          holds = (\<lambda>k. case entry_of k s of None \<Rightarrow> False | Some e \<Rightarrow> jget e ''mirror'' \<noteq> JNull)
      in if holds canon then canon
         else if is_channel_session_key canon \<and> holds (legacy_dashboard_mirror_key canon)
         then legacy_dashboard_mirror_key canon else canon)"

definition mirror_claim_blockers :: "string \<Rightarrow> channel_link \<Rightarrow> bool \<Rightarrow> smap \<Rightarrow> string list" where
  "mirror_claim_blockers key link accepts_inbound s =
     (let key = canonical_key key;
          rivals = filter (\<lambda>other. other \<noteq> key \<and> other \<noteq> mirror_key key s \<and> canonical_key other \<noteq> key)
                     (find_mirror_sessions link False s)
      in if accepts_inbound \<or>
            list_ex (\<lambda>other. case dict_get (entries s) other of None \<Rightarrow> False
                             | Some e \<Rightarrow> truthy (jget e ''mirror_accepts_inbound'')) rivals
         then rivals else [])"

definition drop_mirror_fields :: "jobj \<Rightarrow> jobj" where
  "drop_mirror_fields e = dict_del ''mirror_paused'' (dict_del ''mirror_accepts_inbound'' (dict_del ''mirror'' e))"

definition clear_mirror_link :: "string \<Rightarrow> string \<Rightarrow> smap \<Rightarrow> smap \<times> bool res" where
  "clear_mirror_link key reason s =
     (let mkey = mirror_key key s
      in case entry_of mkey s of
           None \<Rightarrow> (s, Inr False)
         | Some e \<Rightarrow>
             if jget e ''mirror'' \<noteq> JNull
             then (note_lost mkey (inbound_binding e) reason (owe_write (put_entry mkey (drop_mirror_fields e) s)), Inr True)
             else if truthy (jget e ''slack_thread_ts'') \<or> truthy (jget e ''slack_channel_id'')
             then clear_slack_link mkey s
             else (s, Inr False))"

definition ensure_entry :: "string \<Rightarrow> smap \<Rightarrow> jobj" where
  "ensure_entry key s = (case dict_get (entries s) key of None \<Rightarrow> blank_entry | Some e \<Rightarrow> e)"

definition bind_mirror :: "channel_link \<Rightarrow> bool \<Rightarrow> jobj \<Rightarrow> jobj" where
  "bind_mirror link accepts_inbound e =
     (let e = dict_set ''mirror'' (JObj (link_to_dict link)) e
      in dict_del ''mirror_paused''
           (if accepts_inbound then dict_set ''mirror_accepts_inbound'' (JBool True) e
            else dict_del ''mirror_accepts_inbound'' e))"

definition set_mirror_link :: "string \<Rightarrow> channel_link option \<Rightarrow> bool \<Rightarrow> string \<Rightarrow> smap \<Rightarrow> smap \<times> unit res" where
  "set_mirror_link key link accepts_inbound reason s =
     (case link of
        None \<Rightarrow> (case clear_mirror_link key reason s of (s, r) \<Rightarrow> (s, rbind r (\<lambda>_. Inr ())))
      | Some l \<Rightarrow>
          if channel_type l = JStr ''slack''
          then set_slack_link key (case thread_id l of JStr t \<Rightarrow> t | _ \<Rightarrow> []) (channel_id l) s
          else let key = canonical_key key
               in if mirror_claim_blockers key l accepts_inbound s \<noteq> [] then (s, Inl ConversationOwnershipConflict)
                  else let e = ensure_entry key s; displaced = inbound_binding e;
                           s = owe_write (put_entry key (bind_mirror l accepts_inbound e) s)
                       in (if displaced \<noteq> Some l \<or> \<not> accepts_inbound then note_lost key displaced reason s else s, Inr ()))"

definition read_link :: "json \<Rightarrow> channel_link res" where
  "read_link v = (case v of JObj d \<Rightarrow> Inr (link_from_dict d) | _ \<Rightarrow> Inl AttributeError)"

definition get_mirror_link :: "string \<Rightarrow> smap \<Rightarrow> channel_link option res" where
  "get_mirror_link key s =
     (case entry_of (mirror_key key s) s of
        None \<Rightarrow> Inr None
      | Some e \<Rightarrow>
          if truthy (jget e ''mirror'') then rbind (read_link (jget e ''mirror'')) (\<lambda>l. Inr (Some l))
          else if truthy (jget e ''slack_thread_ts'') \<or> truthy (jget e ''slack_channel_id'')
          then Inr (Some \<lparr>channel_type = JStr ''slack'', channel_id = jget e ''slack_channel_id'',
                 thread_id = jget e ''slack_thread_ts''\<rparr>)
          else Inr None)"

definition mirror_accepts_inbound :: "string \<Rightarrow> smap \<Rightarrow> bool" where
  "mirror_accepts_inbound key s =
     (case dict_get (entries s) (canonical_key key) of None \<Rightarrow> False | Some e \<Rightarrow> truthy (jget e ''mirror_accepts_inbound''))"

definition clear_mirror_links_at :: "channel_link \<Rightarrow> string \<Rightarrow> smap \<Rightarrow> smap \<times> string list" where
  "clear_mirror_links_at link reason s =
     (let cleared = find_mirror_sessions link False s;
          lost = concat (map (\<lambda>kv. if mirrors_at link False (snd kv)
                   then case inbound_binding (snd kv) of None \<Rightarrow> [] | Some l \<Rightarrow> [(fst kv, l)] else []) (entries s));
          s = s\<lparr>entries := map (\<lambda>kv. (fst kv, if mirrors_at link False (snd kv) then drop_mirror_fields (snd kv) else snd kv))
                (entries s)\<rparr>;
          s = (if cleared \<noteq> [] then owe_write s else s)
      in (fold (\<lambda>(k, l). note_inbound_unbind k l reason) lost s, cleared))"

definition set_mirror_paused :: "string \<Rightarrow> bool \<Rightarrow> bool \<Rightarrow> smap \<Rightarrow> smap \<times> bool" where
  "set_mirror_paused key on origin s =
     set_marker (if origin then canonical_key key else mirror_key key s)
       (if origin then ''origin_paused'' else ''mirror_paused'') on s"

definition is_mirror_paused :: "string \<Rightarrow> bool \<Rightarrow> smap \<Rightarrow> bool" where
  "is_mirror_paused key origin s =
     (case entry_of (if origin then canonical_key key else mirror_key key s) s of
        None \<Rightarrow> False
      | Some e \<Rightarrow>
          if origin then is_channel_session_key (canonical_key key) \<and> jget e ''origin_paused'' = JBool True
          else (case jget e ''mirror'' of JObj d \<Rightarrow> jget e ''mirror_paused'' = JBool True | _ \<Rightarrow> False))"

section \<open>Lookups\<close>

definition max_generation :: "string \<Rightarrow> smap \<Rightarrow> int" where
  "max_generation bucket s =
     (let bucket = canonical_key bucket; prefix = bucket @ '':gen'';
          suffixes = map (\<lambda>kv. drop (length prefix) (fst kv)) (filter (\<lambda>kv. starts_with (fst kv) prefix) (entries s))
      in foldl (\<lambda>best d. if d \<noteq> [] \<and> list_all is_digit d then max best (int (digits_val d 0)) else best)
           (if dict_get (entries s) bucket = None then -1 else 0) suffixes)"

definition find_key_by_sid :: "string \<Rightarrow> smap \<Rightarrow> string option" where
  "find_key_by_sid session_id s =
     map_option fst (find (\<lambda>(k, e). jget e ''sid'' = JStr session_id) (entries s))"

definition channel_key_for_stem :: "string \<Rightarrow> smap \<Rightarrow> string" where
  "channel_key_for_stem stem s =
     (if stem = [] then []
      else case find (\<lambda>(k, e). is_channel_session_key k \<and> safe_key k = stem) (entries s) of
             None \<Rightarrow> [] | Some (k, e) \<Rightarrow> k)"

section \<open>The conversation's own link, flags and overrides\<close>

definition get_link :: "string \<Rightarrow> smap \<Rightarrow> channel_link option res" where
  "get_link key s =
     (case entry_of (canonical_key key) s of
        None \<Rightarrow> Inr None
      | Some e \<Rightarrow> if truthy (jget e ''link'') then rbind (read_link (jget e ''link'')) (\<lambda>l. Inr (Some l)) else Inr None)"

definition set_link :: "string \<Rightarrow> channel_link \<Rightarrow> smap \<Rightarrow> smap" where
  "set_link key l s =
     (let key = canonical_key key;
          e = (case entry_of key s of Some e \<Rightarrow> e | None \<Rightarrow> blank_entry)
      in owe_write (put_entry key (dict_set ''link'' (JObj (link_to_dict l)) e) s))"

text \<open>Assigning a flag to a value that is no dictionary raises: a list has no string indices and no
  \<open>pop\<close> with a default, other values no \<open>pop\<close> at all.\<close>

definition set_flag :: "string \<Rightarrow> string \<Rightarrow> bool \<Rightarrow> smap \<Rightarrow> smap \<times> unit res" where
  "set_flag key flag on s =
     (let key = canonical_key key;
          e = ensure_entry key s;
          flags = jor (jget e ''flags'') (JObj [])
      in if \<not> on \<and> entry_of key s = None then (s, Inr ())
         else (case flags of
                 JObj d \<Rightarrow>
                   let d = (if on then dict_set flag (JBool True) d else dict_del flag d)
                   in (owe_write (put_entry key (if d \<noteq> [] then dict_set ''flags'' (JObj d) e else dict_del ''flags'' e) s),
                       Inr ())
               | _ \<Rightarrow> (if on then put_entry key e s else s,
                       Inl (if on then TypeError else case flags of JArr _ \<Rightarrow> TypeError | _ \<Rightarrow> AttributeError))))"

definition get_flag :: "string \<Rightarrow> string \<Rightarrow> smap \<Rightarrow> bool res" where
  "get_flag key flag s =
     (case entry_of (canonical_key key) s of
        None \<Rightarrow> Inr False
      | Some e \<Rightarrow>
          if \<not> truthy (jget e ''flags'') then Inr False
          else (case jget e ''flags'' of JObj d \<Rightarrow> Inr (truthy (jget d flag)) | _ \<Rightarrow> Inl AttributeError))"

definition set_override :: "string \<Rightarrow> string \<Rightarrow> string \<Rightarrow> smap \<Rightarrow> smap" where
  "set_override name key value s =
     (let key = canonical_key key
      in if value \<noteq> [] then owe_write (put_entry key (dict_set name (JStr value) (ensure_entry key s)) s)
         else case entry_of key s of
           None \<Rightarrow> s
         | Some e \<Rightarrow> if jhas e name then owe_write (put_entry key (dict_del name e) s) else s)"

definition set_agent_override :: "string \<Rightarrow> string \<Rightarrow> smap \<Rightarrow> smap" where
  "set_agent_override = set_override ''agent_override''"

definition set_project_override :: "string \<Rightarrow> string \<Rightarrow> smap \<Rightarrow> smap" where
  "set_project_override = set_override ''project_override''"

definition get_override :: "string \<Rightarrow> string \<Rightarrow> smap \<Rightarrow> json" where
  "get_override name key s = (case entry_of (canonical_key key) s of None \<Rightarrow> JNull | Some e \<Rightarrow> jget e name)"

section \<open>The refusal of automatic mirroring\<close>

text \<open>\<open>_opt_out_key\<close>, \<open>set_mirror_opt_out\<close> and \<open>mirror_opt_out\<close> of \<open>session.py\<close>.\<close>

definition opt_out_key :: "string \<Rightarrow> string" where
  "opt_out_key key =
     (case rpartition_at (CHR '':'') (canonical_key key) of (head, sep, t) \<Rightarrow>
        if sep \<and> gen_suffix t \<noteq> None then head else canonical_key key)"

definition set_mirror_opt_out :: "string \<Rightarrow> bool \<Rightarrow> smap \<Rightarrow> smap \<times> unit res" where
  "set_mirror_opt_out key opted_out s =
     (case set_flag (opt_out_key key) ''mirror_opt_out'' opted_out s of (s, r) \<Rightarrow>
        (case r of Inl x \<Rightarrow> (s, Inl x)
         | Inr _ \<Rightarrow> if canonical_key key \<noteq> opt_out_key key
                    then set_flag (canonical_key key) ''mirror_opt_out'' False s else (s, Inr ())))"

definition mirror_opt_out :: "string \<Rightarrow> smap \<Rightarrow> smap \<times> bool res" where
  "mirror_opt_out key s =
     (let bucket = opt_out_key key; legacy = canonical_key key
      in case get_flag bucket ''mirror_opt_out'' s of
           Inl x \<Rightarrow> (s, Inl x)
         | Inr True \<Rightarrow> (s, Inr True)
         | Inr False \<Rightarrow>
             if legacy = bucket then (s, Inr False)
             else (case get_flag legacy ''mirror_opt_out'' s of
                     Inl x \<Rightarrow> (s, Inl x)
                   | Inr False \<Rightarrow> (s, Inr False)
                   | Inr True \<Rightarrow>
                       (case set_flag bucket ''mirror_opt_out'' True s of (s, r) \<Rightarrow>
                          (case r of Inl x \<Rightarrow> (s, Inl x)
                           | Inr _ \<Rightarrow> (case set_flag legacy ''mirror_opt_out'' False s of (s, r) \<Rightarrow>
                               (s, rbind r (\<lambda>_. Inr True)))))))"

section \<open>Conversation locations\<close>

text \<open>\<open>release_conversation_location\<close>: the number of bindings that fell, and the swept sessions.\<close>

definition release_location :: "string \<Rightarrow> channel_link \<Rightarrow> smap \<Rightarrow> smap \<times> (nat \<times> string list) res" where
  "release_location key location s =
     (case clear_mirror_link key ''user_unlink'' s of (s, a) \<Rightarrow>
        (case a of Inl x \<Rightarrow> (s, Inl x) | Inr a \<Rightarrow>
           (case clear_mirror_link (legacy_dashboard_mirror_key key) ''user_unlink'' s of (s, b) \<Rightarrow>
              (case b of Inl x \<Rightarrow> (s, Inl x) | Inr b \<Rightarrow>
                 (case clear_mirror_links_at location ''user_unlink'' s of (s, swept) \<Rightarrow>
                    (s, Inr (of_bool a + of_bool b + length swept, swept)))))))"

text \<open>\<open>rebind_conversation_location\<close>.\<close>

definition rebind_location :: "string \<Rightarrow> channel_link \<Rightarrow> smap \<Rightarrow> smap \<times> unit res" where
  "rebind_location key location s =
     (case set_mirror_link key (Some location) False ''origin_rebind'' s of (s, a) \<Rightarrow>
        (case a of Inl x \<Rightarrow> (s, Inl x) | Inr _ \<Rightarrow>
           (case set_mirror_opt_out key False s of (s, b) \<Rightarrow>
              (case b of Inl x \<Rightarrow> (s, Inl x) | Inr _ \<Rightarrow>
                 (case clear_mirror_link (legacy_dashboard_mirror_key key) ''origin_rebind'' s of (s, c) \<Rightarrow>
                    (s, rbind c (\<lambda>_. Inr ())))))))"

definition unrouted_slack_placeholder :: "channel_link \<Rightarrow> bool" where
  "unrouted_slack_placeholder l \<longleftrightarrow> channel_type l = JStr ''slack'' \<and> \<not> truthy (thread_id l)"

text \<open>\<open>bind_origin_mirror\<close>: the handler around the bind swallows its exceptions, those of the reads
  before it pass through.\<close>

definition bind_origin_mirror :: "string \<Rightarrow> channel_link \<Rightarrow> smap \<Rightarrow> smap \<times> bool res" where
  "bind_origin_mirror key location s =
     (if channel_namespace_of key = ''unified'' then (s, Inr False)
      else (case mirror_opt_out key s of (s, out) \<Rightarrow>
        (case out of
           Inl x \<Rightarrow> (s, Inl x)
         | Inr True \<Rightarrow> (s, Inr False)
         | Inr False \<Rightarrow>
             (case get_mirror_link key s of
                Inl x \<Rightarrow> (s, Inl x)
              | Inr existing \<Rightarrow>
                  if (case existing of None \<Rightarrow> False | Some l \<Rightarrow> \<not> unrouted_slack_placeholder l) then (s, Inr False)
                  else (case set_mirror_link key (Some location) False ''unspecified'' s of (s, r) \<Rightarrow>
                          (s, Inr (case r of Inl _ \<Rightarrow> False | Inr _ \<Rightarrow> True)))))))"

section \<open>Actions\<close>

text \<open>The public methods that may change the map; \<open>Get\<close> and \<open>Prune\<close> carry what the disk says.\<close>

datatype map_action =
    Get string "json \<Rightarrow> bool" "json \<Rightarrow> nat"
  | SetSid string string string string
  | ClearSid string
  | Delete string string
  | Prune "json \<Rightarrow> bool"
  | SlackLink string string json
  | ClearSlack string
  | PauseSlack string bool
  | MirrorLink string "channel_link option" bool string
  | ClearMirror string string
  | ClearMirrorsAt channel_link string
  | PauseMirror string bool bool
  | OwnLink string channel_link
  | Flag string string bool
  | Agent string string
  | Project string string

fun map_step :: "map_action \<Rightarrow> smap \<Rightarrow> smap" where
  "map_step (Get k f g) s = fst (get_sid f g k s)"
| "map_step (SetSid k sid p c) s = set_sid k sid p c s"
| "map_step (ClearSid k) s = clear_sid k s"
| "map_step (Delete k r) s = fst (delete_entry k r s)"
| "map_step (Prune f) s = fst (prune_map f s)"
| "map_step (SlackLink k t c) s = fst (set_slack_link k t c s)"
| "map_step (ClearSlack k) s = fst (clear_slack_link k s)"
| "map_step (PauseSlack k b) s = fst (set_slack_paused k b s)"
| "map_step (MirrorLink k l b r) s = fst (set_mirror_link k l b r s)"
| "map_step (ClearMirror k r) s = fst (clear_mirror_link k r s)"
| "map_step (ClearMirrorsAt l r) s = fst (clear_mirror_links_at l r s)"
| "map_step (PauseMirror k b ori) s = fst (set_mirror_paused k b ori s)"
| "map_step (OwnLink k l) s = set_link k l s"
| "map_step (Flag k f b) s = fst (set_flag k f b s)"
| "map_step (Agent k a) s = set_agent_override k a s"
| "map_step (Project k p) s = set_project_override k p s"

end
