(* ===== verification/Session_Load.thy ===== *)
theory Session_Load
  imports Session_Links
begin

text \<open>
  Reading the session map back (\<open>_load\<close>): the repairs of older formats, the choice between
  colliding rows, and that what was loaded loads to itself. Then the invariant every method keeps,
  whatever the file held, and the runs of the map.
\<close>

section \<open>Loading\<close>

definition scrub_signature :: "string \<Rightarrow> jobj \<Rightarrow> bool" where
  "scrub_signature canon e \<longleftrightarrow> starts_with canon ''dashboard:'' \<and> \<not> truthy (jget e ''slack_thread_ts'') \<and>
     (case jget e ''slack_channel_id'' of JStr c \<Rightarrow> starts_with c ''discord:'' | _ \<Rightarrow> False)"

definition adopt_thread :: "string \<Rightarrow> jobj \<Rightarrow> jobj" where
  "adopt_thread key e =
     (let e = (if truthy (jget e ''slack_thread_ts'') then e else dict_set ''slack_thread_ts'' (JStr key) e)
      in if jhas e ''link'' then e
         else dict_set ''link'' (JObj (link_to_dict \<lparr>channel_type = JStr ''slack'',
                channel_id = jget e ''slack_channel_id'', thread_id = JStr key\<rparr>)) e)"

text \<open>One row: its canonical key, the entry, and whether it was migrated; \<open>None\<close> for a corrupt row.\<close>

definition row_of :: "json \<Rightarrow> (jobj \<times> bool) option" where
  "row_of val =
     (case val of JStr sid \<Rightarrow> Some (dict_set ''sid'' (JStr sid) blank_entry, True)
      | JObj d \<Rightarrow> if jhas d ''sid'' then Some (d, False) else None
      | _ \<Rightarrow> None)"

definition migrate_row :: "string \<Rightarrow> jobj \<times> bool \<Rightarrow> string \<times> jobj \<times> bool" where
  "migrate_row key row =
     (let canon = canonical_key key;
          (e, m) = (if scrub_signature canon (fst row) then (drop_slack_fields (fst row), True) else row)
      in (canon, if canon \<noteq> key then (adopt_thread key e, True) else (e, m)))"

definition load_row_entry :: "string \<Rightarrow> json \<Rightarrow> (string \<times> jobj \<times> bool) option" where
  "load_row_entry key val = map_option (migrate_row key) (row_of val)"

definition load_row_into :: "string \<times> json \<Rightarrow> (string, jobj) dict \<times> bool \<Rightarrow> (string, jobj) dict \<times> bool" where
  "load_row_into kv acc =
     (case load_row_entry (fst kv) (snd kv) of
        None \<Rightarrow> acc
      | Some (canon, e, m) \<Rightarrow>
          (case dict_get (fst acc) canon of
             Some old \<Rightarrow>
               if truthy (jget e ''sid'') \<and> \<not> truthy (jget old ''sid'')
               then (dict_set canon e (fst acc), snd acc \<or> m) else (fst acc, snd acc \<or> m)
           | None \<Rightarrow> (dict_set canon e (fst acc), snd acc \<or> m)))"

text \<open>\<open>None\<close> is a file that is missing or does not parse.\<close>

definition load_map :: "json option \<Rightarrow> smap" where
  "load_map saved =
     (case saved of
        Some (JObj rows) \<Rightarrow>
          (case fold load_row_into rows ([], False) of (d, migrated) \<Rightarrow>
             rebuild_thread_index (empty_map\<lparr>entries := d, saves := of_bool migrated\<rparr>))
      | _ \<Rightarrow> empty_map)"

definition file_of :: "smap \<Rightarrow> json" where
  "file_of s = JObj (map (\<lambda>(k, e). (k, JObj e)) (entries s))"

section \<open>Loading twice\<close>

lemma jget_set_field [simp]: "jget (dict_set k v d) k' = (if k' = k then v else jget d k')"
  by (simp add: jget_def dict_get_default_def)

lemma jget_del_field [simp]: "jget (dict_del k d) k' = (if k' = k then JNull else jget d k')"
  by (simp add: jget_def dict_get_default_def)

lemma jhas_set_field [simp]: "jhas (dict_set k v d) k' \<longleftrightarrow> k' = k \<or> jhas d k'"
  by (simp add: jhas_def dict_keys_set)

lemma jhas_del_field [simp]: "jhas (dict_del k d) k' \<longleftrightarrow> k' \<noteq> k \<and> jhas d k'"
  by (auto simp: jhas_def dict_keys_del)

text \<open>What every row of a loaded map is: canonical, with a session id field, without the signature.\<close>

definition loaded_row :: "string \<times> jobj \<Rightarrow> bool" where
  "loaded_row kv \<longleftrightarrow> canonical_key (fst kv) = fst kv \<and> jhas (snd kv) ''sid'' \<and> \<not> scrub_signature (fst kv) (snd kv)"

lemma no_signature:
  "\<not> starts_with k ''dashboard:'' \<Longrightarrow> \<not> scrub_signature k e" "\<not> scrub_signature k (drop_slack_fields e)"
  by (simp_all add: scrub_signature_def drop_slack_fields_def)

lemma sid_kept: "jhas (drop_slack_fields e) ''sid'' = jhas e ''sid''" "jhas (adopt_thread k e) ''sid'' = jhas e ''sid''"
  by (simp_all add: drop_slack_fields_def adopt_thread_def Let_def)

lemma row_of_sid: "row_of val = Some (e, m) \<Longrightarrow> jhas e ''sid''"
  by (auto simp: row_of_def blank_entry_def jhas_def split: json.splits if_splits)

lemma migrate_row_loaded: "jhas (fst row) ''sid'' \<Longrightarrow> migrate_row key row = (canon, e, m) \<Longrightarrow> loaded_row (canon, e)"
proof -
  assume sid: "jhas (fst row) ''sid''" and m: "migrate_row key row = (canon, e, m)"
  have "\<not> scrub_signature (canonical_key key) x" if "canonical_key key \<noteq> key" for x
    by (rule no_signature) (use that in \<open>simp add: canonical_key_def split: if_splits\<close>)
  then show "loaded_row (canon, e)"
    using m sid no_signature(2) by (cases row) (auto simp: migrate_row_def loaded_row_def sid_kept Let_def split: if_splits)
qed

lemma load_row_loaded: "load_row_entry key val = Some (canon, e, m) \<Longrightarrow> loaded_row (canon, e)"
  using row_of_sid migrate_row_loaded by (fastforce simp: load_row_entry_def)

lemma load_row_again: "loaded_row (k, e) \<Longrightarrow> load_row_entry k (JObj e) = Some (k, e, False)"
  by (simp add: loaded_row_def load_row_entry_def row_of_def migrate_row_def Let_def)

lemma dict_set_mem: "dict_wf d \<Longrightarrow> kv \<in> set (dict_set k v d) \<Longrightarrow> kv = (k, v) \<or> kv \<in> set d"
  by (induction d) (auto split: if_splits)

lemma dict_set_fresh: "dict_get d k = None \<Longrightarrow> dict_set k v d = d @ [(k, v)]"
  by (induction d) (auto split: if_splits)

lemma load_rows_loaded:
  "dict_wf (fst acc) \<Longrightarrow> (\<forall>kv \<in> set (fst acc). loaded_row kv) \<Longrightarrow>
   dict_wf (fst (fold load_row_into rows acc)) \<and> (\<forall>kv \<in> set (fst (fold load_row_into rows acc)). loaded_row kv)"
proof (induction rows arbitrary: acc)
  case (Cons kv rows)
  have "dict_wf (fst (load_row_into kv acc)) \<and> (\<forall>kv \<in> set (fst (load_row_into kv acc)). loaded_row kv)"
  proof (cases "load_row_entry (fst kv) (snd kv)")
    case (Some r)
    obtain canon e m where r: "r = (canon, e, m)" by (cases r)
    have "loaded_row (canon, e)" using load_row_loaded Some r by simp
    then have "\<forall>kv \<in> set (dict_set canon e (fst acc)). loaded_row kv"
      using Cons.prems dict_set_mem [OF Cons.prems(1)] by blast
    then show ?thesis using Cons.prems by (simp add: load_row_into_def Some r split: option.split)
  qed (use Cons.prems in \<open>simp add: load_row_into_def\<close>)
  then show ?case using Cons.IH [of "load_row_into kv acc"] unfolding fold_Cons comp_apply by blast
qed simp

lemma fold_loaded_rows:
  assumes "\<forall>kv \<in> set rows. loaded_row kv" "dict_wf (d @ rows)"
  shows "fold load_row_into (map (\<lambda>(k, e). (k, JObj e)) rows) (d, b) = (d @ rows, b)"
  using assms
proof (induction rows arbitrary: d)
  case (Cons kv rows)
  obtain k e where kv: "kv = (k, e)" by (cases kv)
  have "dict_get d k = None" using Cons.prems(2) by (auto simp: kv map_of_eq_None_iff)
  then have "load_row_into (k, JObj e) (d, b) = (d @ [(k, e)], b)"
    using Cons.prems(1) load_row_again [of k e] by (simp add: kv load_row_into_def dict_set_fresh)
  then show ?case using Cons.IH [of "d @ [(k, e)]"] Cons.prems by (simp add: kv)
qed simp

lemma load_map_rows:
  "dict_wf (entries (load_map saved)) \<and> (\<forall>kv \<in> set (entries (load_map saved)). loaded_row kv)"
  using load_rows_loaded [of "([], False)"]
  by (auto simp: load_map_def empty_map_def rebuild_thread_index_def split: option.split json.split prod.split)
     (metis fst_conv)+

text \<open>C32. Loading repairs once: the map that was read from a file, of whatever age and damage, writes a
  file that loads to the very same entries and thread routing without any further repair.\<close>

theorem loading_is_idempotent:
  "entries (load_map (Some (file_of (load_map saved)))) = entries (load_map saved) \<and>
   thread_index (load_map (Some (file_of (load_map saved)))) = thread_index (load_map saved) \<and>
   saves (load_map (Some (file_of (load_map saved)))) = 0"
proof -
  let ?s = "load_map saved"
  have "fold load_row_into (map (\<lambda>(k, e). (k, JObj e)) (entries ?s)) ([], False) = (entries ?s, False)"
    using fold_loaded_rows [of "entries ?s" "[]" False] load_map_rows [of saved] by simp
  then have again: "load_map (Some (file_of ?s)) = rebuild_thread_index (empty_map\<lparr>entries := entries ?s, saves := 0\<rparr>)"
    by (simp add: load_map_def file_of_def)
  moreover have "thread_index ?s = rebuild_index (entries ?s)"
    by (auto simp: load_map_def empty_map_def rebuild_thread_index_def rebuild_index_def split: option.split json.split prod.split)
  ultimately show ?thesis by (simp add: rebuild_thread_index_def empty_map_def)
qed

section \<open>The invariant of the map\<close>

text \<open>Distinct keys, canonical ones, a session id field in every entry, and timestamps that can be looked
  up; the last is a property of the file, which no method breaks.\<close>

definition hashable_thread :: "jobj \<Rightarrow> bool" where
  "hashable_thread e \<longleftrightarrow> \<not> (truthy (jget e ''slack_thread_ts'') \<and> unhashable (jget e ''slack_thread_ts''))"

definition entry_fits :: "string \<Rightarrow> jobj \<Rightarrow> bool" where
  "entry_fits k e \<longleftrightarrow> canonical_key k = k \<and> jhas e ''sid'' \<and> hashable_thread e"

definition map_ok :: "smap \<Rightarrow> bool" where
  "map_ok s \<longleftrightarrow> dict_wf (entries s) \<and> dict_wf (thread_index s) \<and>
     (\<forall>k e. dict_get (entries s) k = Some e \<longrightarrow> entry_fits k e)"

lemma map_okD:
  assumes "map_ok s"
  shows "dict_wf (entries s)" "dict_wf (thread_index s)" "dict_get (entries s) k = Some e \<Longrightarrow> entry_fits k e"
  using assms by (auto simp: map_ok_def)

lemma entry_of_ok: "map_ok s \<Longrightarrow> entry_of k s = dict_get (entries s) k"
  by (force simp: entry_of_def map_ok_def entry_fits_def jhas_def simp del: map_of_eq_Some_iff split: option.split)

lemma dict_get_map: "dict_get (map (\<lambda>kv. (fst kv, f (fst kv) (snd kv))) d) k = map_option (f k) (dict_get d k)"
  by (induction d) auto

lemma put_entry_ok: "map_ok s \<Longrightarrow> entry_fits k e \<Longrightarrow> map_ok (put_entry k e s)"
  by (auto simp: map_ok_def put_entry_def simp del: map_of_eq_Some_iff split: if_splits)

lemma owe_write_ok [simp]: "map_ok (owe_write s) = map_ok s"
  by (simp add: map_ok_def owe_write_def)

lemma note_lost_ok [simp]: "map_ok (note_lost k l r s) = map_ok s"
  by (simp add: map_ok_def note_lost_def note_inbound_unbind_def split: option.split)

lemma index_ok [simp]: "map_ok s \<Longrightarrow> map_ok (drop_thread ts s)" "map_ok s \<Longrightarrow> map_ok (index_thread t k s)"
  "map_ok s \<Longrightarrow> map_ok (index_default t k s)" "map_ok s \<Longrightarrow> map_ok (claim_thread t k s)"
  by (simp_all add: map_ok_def drop_thread_def index_thread_def index_default_def claim_thread_def set_default_def split: json.split)

lemma entry_fits_field [intro]:
  "entry_fits k e \<Longrightarrow> f \<noteq> ''slack_thread_ts'' \<Longrightarrow> entry_fits k (dict_set f v e)"
  "entry_fits k e \<Longrightarrow> f \<noteq> ''sid'' \<Longrightarrow> entry_fits k (dict_del f e)"
  by (simp_all add: entry_fits_def hashable_thread_def)

lemma entry_fits_thread: "entry_fits k e \<Longrightarrow> entry_fits k (relink_fields t c e)"
  by (simp add: entry_fits_def hashable_thread_def relink_fields_def)

lemma blank_fits: "canonical_key k = k \<Longrightarrow> entry_fits k blank_entry"
  by (simp add: entry_fits_def blank_entry_def hashable_thread_def jhas_def jget_def dict_get_default_def)

lemma drop_fits: "entry_fits k e \<Longrightarrow> entry_fits k (drop_slack_fields e)" "entry_fits k e \<Longrightarrow> entry_fits k (drop_mirror_fields e)"
  by (auto simp: drop_slack_fields_def drop_mirror_fields_def intro!: entry_fits_field)

lemma bind_fits: "entry_fits k e \<Longrightarrow> entry_fits k (bind_mirror l b e)"
  by (auto simp: bind_mirror_def Let_def intro!: entry_fits_field)

lemma ensure_fits: "map_ok s \<Longrightarrow> canonical_key k = k \<Longrightarrow> entry_fits k (ensure_entry k s)"
  using map_okD(3) blank_fits by (auto simp: ensure_entry_def simp del: map_of_eq_Some_iff split: option.split)

lemma entry_of_fits: "map_ok s \<Longrightarrow> entry_of k s = Some e \<Longrightarrow> entry_fits k e"
  using map_okD(3) by (simp add: entry_of_ok)

text \<open>Maps over the entries.\<close>

lemma map_entries_ok:
  assumes "map_ok s" "\<And>k e. entry_fits k e \<Longrightarrow> entry_fits k (f k e)"
  shows "map_ok (s\<lparr>entries := map (\<lambda>kv. (fst kv, f (fst kv) (snd kv))) (entries s)\<rparr>)"
proof -
  have "map fst (map (\<lambda>kv. (fst kv, f (fst kv) (snd kv))) (entries s)) = map fst (entries s)" by (simp add: comp_def)
  then show ?thesis
    using assms unfolding map_ok_def by (auto simp: dict_get_map comp_def simp del: map_of_eq_Some_iff)
qed

lemma remove_entry_step:
  assumes "map_ok s"
  shows "snd (remove_entry k r s) = Inr ()" "map_ok (fst (remove_entry k r s))"
    "entries (fst (remove_entry k r s)) = dict_del k (entries s)"
proof -
  have "snd (remove_entry k r s) = Inr () \<and> map_ok (fst (remove_entry k r s)) \<and>
      entries (fst (remove_entry k r s)) = dict_del k (entries s)"
  proof (cases "dict_get (entries s) k")
    case None
    then have "dict_del k (entries s) = entries s" using delete_id by (metis map_of_eq_None_iff)
    with None show ?thesis using assms by (simp add: remove_entry_def)
  next
    case (Some e)
    let ?s = "s\<lparr>entries := dict_del k (entries s)\<rparr>"
    have ok: "map_ok ?s"
      using assms by (auto simp: map_ok_def simp del: map_of_eq_Some_iff split: if_splits)
    have "hashable_thread e" using map_okD(3) [OF assms Some] by (simp add: entry_fits_def)
    then show ?thesis
      using Some ok by (simp add: remove_entry_def Let_def hashable_thread_def)
        (auto simp: note_lost_def note_inbound_unbind_def owe_write_def drop_thread_def split: option.split json.split)
  qed
  then show "snd (remove_entry k r s) = Inr ()" "map_ok (fst (remove_entry k r s))"
    "entries (fst (remove_entry k r s)) = dict_del k (entries s)" by blast+
qed

lemma remove_entries_step:
  assumes "map_ok s"
  shows "snd (remove_entries ks r s) = Inr () \<and> map_ok (fst (remove_entries ks r s)) \<and>
     entries (fst (remove_entries ks r s)) = fold dict_del ks (entries s)"
  using assms
proof (induction ks arbitrary: s)
  case (Cons k ks)
  obtain v where v: "remove_entry k r s = (v, Inr ())" "map_ok v" "entries v = dict_del k (entries s)"
    using remove_entry_step [OF Cons.prems, of k r] by (metis prod.collapse)
  then show ?case using Cons.IH [OF v(2)] by simp
qed simp

lemma remove_entries_result:
  assumes "map_ok s"
  obtains v where "remove_entries ks r s = (v, Inr ())" "map_ok v" "entries v = fold dict_del ks (entries s)"
  using remove_entries_step [OF assms, of ks r] by (cases "remove_entries ks r s") simp

lemma repair_ok: "map_ok s \<Longrightarrow> map_ok (fst (repair_or_remove_stale k s))"
  using remove_entry_step(2) entry_fits_field(1) put_entry_ok map_okD(3)
  by (auto simp: repair_or_remove_stale_def simp del: map_of_eq_Some_iff split: option.split)

lemma get_sid_ok: "map_ok s \<Longrightarrow> map_ok (fst (get_sid f g k s))"
  using repair_ok [of s] by (auto simp: get_sid_def Let_def split: prod.split option.split) (metis fst_conv)+

lemma set_sid_ok: "map_ok s \<Longrightarrow> map_ok (set_sid k sid p c s)"
  by (auto simp: set_sid_def Let_def set_optional_def entry_of_fits blank_fits intro!: put_entry_ok entry_fits_field
      split: option.split)

lemma clear_sid_ok: "map_ok s \<Longrightarrow> map_ok (clear_sid k s)"
  by (auto simp: clear_sid_def entry_of_fits intro!: put_entry_ok entry_fits_field split: option.split)

lemma rebuild_fold_ok:
  "dict_wf (fst acc) \<Longrightarrow> dict_wf (snd acc) \<Longrightarrow>
   dict_wf (fst (fold index_entry d acc)) \<and> dict_wf (snd (fold index_entry d acc))"
proof (induction d arbitrary: acc)
  case (Cons kv d)
  have "dict_wf (fst (index_entry kv acc)) \<and> dict_wf (snd (index_entry kv acc))"
    using Cons.prems by (auto simp: index_entry_def set_default_def split: prod.split json.split)
  then show ?case using Cons.IH [of "index_entry kv acc"] by simp
qed simp

lemma fold_default_ok: "dict_wf r \<Longrightarrow> dict_wf (fold (\<lambda>(ts, key). set_default ts key) d r)"
  by (induction d arbitrary: r) (auto simp: set_default_def)

lemma rebuild_ok: "map_ok s \<Longrightarrow> map_ok (rebuild_thread_index s)"
  using rebuild_fold_ok [of "([], [])" "entries s"]
  by (auto simp: map_ok_def rebuild_thread_index_def rebuild_index_def fold_default_ok split: prod.split)

lemma prune_ok: "map_ok s \<Longrightarrow> map_ok (fst (prune_map f s))"
proof -
  assume ok: "map_ok s"
  let ?stale = "map fst (filter (\<lambda>kv. prune_entry f (snd kv) = CollectEntry) (entries s))"
  let ?s = "s\<lparr>entries := map (\<lambda>kv. (fst kv, if prune_entry f (snd kv) = ResetSid then dict_set ''sid'' (JStr []) (snd kv) else snd kv)) (entries s)\<rparr>"
  have s: "map_ok ?s" by (rule map_entries_ok [OF ok]) (auto intro: entry_fits_field)
  obtain v where v: "remove_entries ?stale ''pruned_stale'' ?s = (v, Inr ())" "map_ok v"
    by (rule remove_entries_result [OF s])
  show ?thesis
  proof (cases "?stale = []")
    case False
    then have "fst (prune_map f s) = owe_write (rebuild_thread_index v)"
      unfolding prune_map_def Let_def v(1) by (simp only: if_True not_False_eq_True prod.case sum.case fst_conv)
    then show ?thesis using rebuild_ok [OF v(2)] by simp
  next
    case True
    then show ?thesis unfolding prune_map_def Let_def True using s by (simp only: if_False split: if_split) simp
  qed
qed

text \<open>The sweep before a claim: the rivals lose their link fields and nothing else.\<close>

definition sweep :: "string \<Rightarrow> string \<Rightarrow> smap \<Rightarrow> smap \<times> string list" where
  "sweep key t s = (if t \<noteq> [] then evict_rival_claimants key t s else (s, []))"

lemma sweep_entry:
  assumes "sweep key t s = (v, ev)"
  shows "dict_get (entries v) j =
     map_option (\<lambda>e. if t \<noteq> [] \<and> \<not> is_self_derived key t \<and> rival_claim key t (j, e) then drop_slack_fields e else e)
       (dict_get (entries s) j)"
    "thread_index v = thread_index s" "unbound v = unbound s" "map_ok s \<Longrightarrow> map_ok v"
    "ev \<noteq> [] \<Longrightarrow> t \<noteq> [] \<and> \<not> is_self_derived key t"
proof -
  let ?f = "\<lambda>j e. if rival_claim key t (j, e) then drop_slack_fields e else e"
  show "dict_get (entries v) j =
     map_option (\<lambda>e. if t \<noteq> [] \<and> \<not> is_self_derived key t \<and> rival_claim key t (j, e) then drop_slack_fields e else e)
       (dict_get (entries s) j)"
    using assms dict_get_map [of ?f "entries s" j]
    by (auto simp: sweep_def evict_rival_claimants_def option.map_ident split: if_splits)
  show "thread_index v = thread_index s" "unbound v = unbound s"
    using assms by (auto simp: sweep_def evict_rival_claimants_def split: if_splits)
  show "map_ok s \<Longrightarrow> map_ok v"
    using assms map_entries_ok [of s ?f] drop_fits(1) by (auto simp: sweep_def evict_rival_claimants_def split: if_splits)
  show "ev \<noteq> [] \<Longrightarrow> t \<noteq> [] \<and> \<not> is_self_derived key t"
    using assms by (auto simp: sweep_def evict_rival_claimants_def split: if_splits)
qed

text \<open>\<open>set_slack_link\<close> after the sweep, by what it finds under the key.\<close>

lemma set_slack_link_cases:
  assumes "sweep (canonical_key k) t s = (v, ev)"
  shows "entry_of (canonical_key k) v = None \<Longrightarrow> fst (set_slack_link k t c s) =
      owe_write (claim_thread t (canonical_key k) (put_entry (canonical_key k) (relink_fields t c blank_entry) v))"
    "entry_of (canonical_key k) v = Some e \<Longrightarrow> jget e ''slack_thread_ts'' = JStr t \<Longrightarrow> jget e ''slack_channel_id'' = c \<Longrightarrow>
     fst (set_slack_link k t c s) =
      (if ev \<noteq> [] then owe_write (index_thread t (canonical_key k) v) else if t = [] then v else index_default t (canonical_key k) v)"
    "entry_of (canonical_key k) v = Some e \<Longrightarrow> \<not> (jget e ''slack_thread_ts'' = JStr t \<and> jget e ''slack_channel_id'' = c) \<Longrightarrow>
     hashable_thread e \<Longrightarrow> fst (set_slack_link k t c s) =
      owe_write (claim_thread t (canonical_key k) (put_entry (canonical_key k) (relink_fields t c (dict_del ''slack_paused'' e))
        (if truthy (jget e ''slack_thread_ts'') \<and> jget e ''slack_thread_ts'' \<noteq> JStr t
         then drop_thread (jget e ''slack_thread_ts'') v else v)))"
  using assms sweep_entry(5) [OF assms]
  by (auto simp: set_slack_link_def sweep_def Let_def hashable_thread_def)

lemma slack_link_ok: "map_ok s \<Longrightarrow> map_ok (fst (set_slack_link k t c s))"
proof -
  assume ok: "map_ok s"
  let ?k = "canonical_key k"
  obtain v ev where v: "sweep ?k t s = (v, ev)" by (metis prod.exhaust)
  note vok = sweep_entry(4) [OF v ok] and c = set_slack_link_cases [OF v]
  show ?thesis
  proof (cases "entry_of ?k v")
    case None
    then show ?thesis using c(1) vok put_entry_ok [OF vok entry_fits_thread [OF blank_fits]] by simp
  next
    case (Some e)
    have e: "entry_fits ?k e" "entry_fits ?k (dict_del ''slack_paused'' e)"
      using entry_of_fits [OF vok Some] by (auto intro: entry_fits_field)
    then have h: "hashable_thread e" by (simp add: entry_fits_def)
    show ?thesis
    proof (cases "jget e ''slack_thread_ts'' = JStr t \<and> jget e ''slack_channel_id'' = c")
      case True
      then show ?thesis using c(2) [OF Some] vok by simp
    next
      case False
      then show ?thesis
        using c(3) [OF Some False h] vok put_entry_ok [OF _ entry_fits_thread [OF e(2)]] by simp
    qed
  qed
qed

lemma clear_slack_ok: "map_ok s \<Longrightarrow> map_ok (fst (clear_slack_link k s))"
  by (auto simp: clear_slack_link_def Let_def entry_of_fits drop_fits intro!: put_entry_ok entry_fits_field split: option.split)

lemma set_marker_ok: "map_ok s \<Longrightarrow> name \<notin> {''sid'', ''slack_thread_ts''} \<Longrightarrow> map_ok (fst (set_marker k name b s))"
  by (auto simp: set_marker_def Let_def entry_of_fits intro!: put_entry_ok entry_fits_field split: option.split)

lemma clear_mirror_ok: "map_ok s \<Longrightarrow> map_ok (fst (clear_mirror_link k r s))"
  by (auto simp: clear_mirror_link_def Let_def entry_of_fits drop_fits clear_slack_ok intro!: put_entry_ok split: option.split)

lemma mirror_link_ok: "map_ok s \<Longrightarrow> map_ok (fst (set_mirror_link k l b r s))"
  using clear_mirror_ok [of s k r]
  by (auto simp: set_mirror_link_def Let_def slack_link_ok ensure_fits bind_fits intro!: put_entry_ok split: option.split prod.split)

lemma fold_note: "fold (\<lambda>(k, l). note_inbound_unbind k l r) ls s =
    s\<lparr>unbound := unbound s @ map (\<lambda>(k, l). (k, l, normalize_unbind_reason r)) ls\<rparr>"
  by (induction ls arbitrary: s) (auto simp: note_inbound_unbind_def)

lemma unbound_ok [simp]: "map_ok (s\<lparr>unbound := u\<rparr>) = map_ok s"
  by (simp add: map_ok_def)

lemma clear_at_ok: "map_ok s \<Longrightarrow> map_ok (fst (clear_mirror_links_at l r s))"
  using map_entries_ok [of s "\<lambda>k e. if mirrors_at l False e then drop_mirror_fields e else e"] drop_fits(2)
  by (simp add: clear_mirror_links_at_def Let_def fold_note)

lemma set_flag_ok: "map_ok s \<Longrightarrow> map_ok (fst (set_flag k f b s))"
  by (auto simp: set_flag_def Let_def ensure_fits intro!: put_entry_ok entry_fits_field split: json.split)

lemma set_override_ok: "map_ok s \<Longrightarrow> name \<notin> {''sid'', ''slack_thread_ts''} \<Longrightarrow> map_ok (set_override name k v s)"
  by (auto simp: set_override_def Let_def ensure_fits entry_of_fits intro!: put_entry_ok entry_fits_field split: option.split)

lemma map_step_ok: "map_ok s \<Longrightarrow> map_ok (map_step a s)"
proof (cases a)
  case (OwnLink k l)
  then show "map_ok s \<Longrightarrow> map_ok (map_step a s)"
    by (auto simp: set_link_def Let_def entry_of_fits blank_fits intro!: put_entry_ok entry_fits_field split: option.split)
qed (simp_all add: get_sid_ok set_sid_ok clear_sid_ok delete_entry_def remove_entry_step prune_ok slack_link_ok clear_slack_ok
      set_slack_paused_def set_marker_ok mirror_link_ok clear_mirror_ok clear_at_ok set_mirror_paused_def set_flag_ok
      set_agent_override_def set_project_override_def set_override_ok)

section \<open>Runs\<close>

text \<open>The map of a process: loaded from a file whose timestamps can be looked up, then any methods the
  predicate admits.\<close>

inductive map_run :: "(map_action \<Rightarrow> smap \<Rightarrow> bool) \<Rightarrow> smap \<Rightarrow> bool" for P where
  map_start: "map_ok (load_map saved) \<Longrightarrow> map_run P (load_map saved)"
| map_next: "map_run P s \<Longrightarrow> P a s \<Longrightarrow> map_run P (map_step a s)"

lemma map_run_ok: "map_run P s \<Longrightarrow> map_ok s"
  by (induction rule: map_run.induct) (auto intro: map_step_ok)

end
