(* ===== verification/Session_Bindings.thy ===== *)
theory Session_Bindings
  imports Session_Load
begin

text \<open>
  Inbound bindings: the location whose messages resume a session. Every loss of one is announced,
  with an audited reason, and nothing else is.
\<close>

section \<open>The binding of a session\<close>

text \<open>The location an entry mirrors to, with the inbound marker, and the binding it amounts to.\<close>

definition mirror_view :: "jobj \<Rightarrow> (channel_link \<times> bool) option" where
  "mirror_view e =
     (case jget e ''mirror'' of JObj d \<Rightarrow> Some (link_from_dict d, truthy (jget e ''mirror_accepts_inbound'')) | _ \<Rightarrow> None)"

definition inbound_of :: "(channel_link \<times> bool) option \<Rightarrow> channel_link option" where
  "inbound_of v = (case v of Some (l, True) \<Rightarrow> Some l | _ \<Rightarrow> None)"

definition view :: "smap \<Rightarrow> string \<Rightarrow> (channel_link \<times> bool) option" where
  "view s k = (case dict_get (entries s) k of None \<Rightarrow> None | Some e \<Rightarrow> mirror_view e)"

definition bound :: "smap \<Rightarrow> string \<Rightarrow> channel_link option" where
  "bound s k = (case dict_get (entries s) k of None \<Rightarrow> None | Some e \<Rightarrow> inbound_binding e)"

lemma inbound_of_simps [simp]: "inbound_of None = None" "inbound_of (Some (l, b)) = (if b then Some l else None)"
  by (simp_all add: inbound_of_def split: bool.split)

lemma inbound_view: "inbound_binding e = inbound_of (mirror_view e)"
  by (simp add: inbound_binding_def mirror_view_def split: json.split)

lemma bound_view: "bound s k = inbound_of (view s k)"
  by (simp add: bound_def view_def inbound_view split: option.split)

lemma mirrors_at_view: "mirrors_at l b e \<longleftrightarrow> (\<exists>i. mirror_view e = Some (l, i) \<and> (b \<longrightarrow> i))"
  by (auto simp: mirrors_at_def mirror_view_def split: json.split)

lemma view_fields [simp]:
  "f \<noteq> ''mirror'' \<Longrightarrow> f \<noteq> ''mirror_accepts_inbound'' \<Longrightarrow> mirror_view (dict_set f v e) = mirror_view e"
  "f \<noteq> ''mirror'' \<Longrightarrow> f \<noteq> ''mirror_accepts_inbound'' \<Longrightarrow> mirror_view (dict_del f e) = mirror_view e"
  "mirror_view (drop_slack_fields e) = mirror_view e" "mirror_view (relink_fields t c e) = mirror_view e"
  "mirror_view (drop_mirror_fields e) = None" "mirror_view (bind_mirror l b e) = Some (l, b)"
  "f \<noteq> ''mirror'' \<Longrightarrow> f \<noteq> ''mirror_accepts_inbound'' \<Longrightarrow> mirror_view (set_optional f w e) = mirror_view e"
  by (simp_all add: mirror_view_def drop_slack_fields_def relink_fields_def drop_mirror_fields_def bind_mirror_def
      Let_def set_optional_def cong: json.case_cong)

lemma view_blank [simp]: "mirror_view blank_entry = None"
  by (simp add: mirror_view_def blank_entry_def jget_def dict_get_default_def)

lemma view_put [simp]: "view (put_entry k e s) j = (if j = k then mirror_view e else view s j)"
  by (simp add: view_def put_entry_def)

lemma view_frames [simp]:
  "view (owe_write s) = view s" "view (drop_thread ts s) = view s" "view (index_thread t k s) = view s"
  "view (index_default t k s) = view s" "view (claim_thread t k s) = view s" "view (note_lost k l r s) = view s"
  "view (rebuild_thread_index s) = view s" "view (s\<lparr>unbound := u\<rparr>) = view s"
  by (simp_all add: fun_eq_iff view_def owe_write_def drop_thread_def index_thread_def index_default_def claim_thread_def
      note_lost_def note_inbound_unbind_def rebuild_thread_index_def split: option.split json.split)

lemma unbound_frames [simp]:
  "unbound (owe_write s) = unbound s" "unbound (drop_thread ts s) = unbound s" "unbound (index_thread t k s) = unbound s"
  "unbound (index_default t k s) = unbound s" "unbound (claim_thread t k s) = unbound s" "unbound (put_entry k e s) = unbound s"
  "unbound (rebuild_thread_index s) = unbound s"
  "unbound (note_lost k l r s) = unbound s @ (case l of None \<Rightarrow> [] | Some x \<Rightarrow> [(k, x, normalize_unbind_reason r)])"
  by (simp_all add: owe_write_def drop_thread_def index_thread_def index_default_def claim_thread_def put_entry_def
      note_lost_def note_inbound_unbind_def rebuild_thread_index_def split: option.split json.split)

lemma view_entry: "map_ok s \<Longrightarrow> view s k = (case entry_of k s of None \<Rightarrow> None | Some e \<Rightarrow> mirror_view e)"
  by (simp add: view_def entry_of_ok)

lemma view_at: "dict_get (entries s) k = Some e \<Longrightarrow> view s k = mirror_view e"
  by (simp add: view_def)

lemma view_entry_at: "map_ok s \<Longrightarrow> entry_of k s = Some e \<Longrightarrow> view s k = mirror_view e"
  by (simp add: view_entry)

lemma view_map:
  "view (s\<lparr>entries := map (\<lambda>kv. (fst kv, f (fst kv) (snd kv))) (entries s)\<rparr>) k =
     (case dict_get (entries s) k of None \<Rightarrow> None | Some e \<Rightarrow> mirror_view (f k e))"
  by (simp add: view_def dict_get_map split: option.split)

section \<open>What a step announces\<close>

definition announces :: "smap \<Rightarrow> smap \<Rightarrow> bool" where
  "announces s s' \<longleftrightarrow> (\<exists>new. unbound s' = unbound s @ new \<and>
     (\<forall>k l r. (k, l, r) \<in> set new \<longrightarrow> bound s k = Some l \<and> bound s' k \<noteq> Some l \<and> r \<in> set UNBIND_REASONS) \<and>
     (\<forall>k l. bound s k = Some l \<and> bound s' k \<noteq> Some l \<longrightarrow> (\<exists>r. (k, l, r) \<in> set new)))"

text \<open>A step that only takes bindings away.\<close>

definition sheds :: "smap \<Rightarrow> smap \<Rightarrow> bool" where
  "sheds s s' \<longleftrightarrow> announces s s' \<and> (\<forall>k. view s' k = view s k \<or> view s' k = None)"

lemma sheds_quiet: "unbound s' = unbound s \<Longrightarrow> (\<And>k. view s' k = view s k) \<Longrightarrow> sheds s s'"
  by (simp add: sheds_def announces_def bound_view)

lemma sheds_announces: "sheds s s' \<Longrightarrow> announces s s'"
  by (simp add: sheds_def)

lemma normalize_reason [simp]: "normalize_unbind_reason r \<in> set UNBIND_REASONS"
  by (simp add: normalize_unbind_reason_def UNBIND_REASONS_def)

lemma sheds_one:
  assumes "unbound s' = unbound s @ (case bound s k of None \<Rightarrow> [] | Some x \<Rightarrow> [(k, x, normalize_unbind_reason r)])"
    and "\<And>j. view s' j = (if j = k then None else view s j)"
  shows "sheds s s'"
  using assms by (auto simp: sheds_def announces_def bound_view split: option.splits if_splits)

lemma sheds_trans: "sheds s s1 \<Longrightarrow> sheds s1 s2 \<Longrightarrow> sheds s s2"
proof -
  assume a: "sheds s s1" "sheds s1 s2"
  obtain n1 where n1: "unbound s1 = unbound s @ n1"
    "\<And>k l r. (k, l, r) \<in> set n1 \<Longrightarrow> bound s k = Some l \<and> bound s1 k \<noteq> Some l \<and> r \<in> set UNBIND_REASONS"
    "\<And>k l. bound s k = Some l \<Longrightarrow> bound s1 k \<noteq> Some l \<Longrightarrow> \<exists>r. (k, l, r) \<in> set n1"
    using a(1) unfolding sheds_def announces_def by blast
  obtain n2 where n2: "unbound s2 = unbound s1 @ n2"
    "\<And>k l r. (k, l, r) \<in> set n2 \<Longrightarrow> bound s1 k = Some l \<and> bound s2 k \<noteq> Some l \<and> r \<in> set UNBIND_REASONS"
    "\<And>k l. bound s1 k = Some l \<Longrightarrow> bound s2 k \<noteq> Some l \<Longrightarrow> \<exists>r. (k, l, r) \<in> set n2"
    using a(2) unfolding sheds_def announces_def by blast
  have vdown: "view s1 k = view s k \<or> view s1 k = None" "view s2 k = view s1 k \<or> view s2 k = None" for k
    using a unfolding sheds_def by simp_all
  then have down: "bound s1 k = bound s k \<or> bound s1 k = None" "bound s2 k = bound s1 k \<or> bound s2 k = None" for k
    unfolding bound_view by (metis inbound_of_simps(1))+
  have "bound s k = Some l \<and> bound s2 k \<noteq> Some l \<and> r \<in> set UNBIND_REASONS" if "(k, l, r) \<in> set (n1 @ n2)" for k l r
    using that n1(2) [of k l r] n2(2) [of k l r] down [of k] by auto
  moreover have "\<exists>r. (k, l, r) \<in> set (n1 @ n2)" if "bound s k = Some l" "bound s2 k \<noteq> Some l" for k l
    using that n1(3) [of k l] n2(3) [of k l] by (metis Un_iff set_append)
  moreover have "unbound s2 = unbound s @ (n1 @ n2)" using n1(1) n2(1) by simp
  moreover have "view s2 k = view s k \<or> view s2 k = None" for k using vdown [of k] by auto
  ultimately show ?thesis unfolding sheds_def announces_def by blast
qed

lemma remove_entry_sheds:
  assumes "map_ok s"
  shows "sheds s (fst (remove_entry k r s))"
proof (cases "dict_get (entries s) k")
  case None
  then show ?thesis by (simp add: remove_entry_def sheds_quiet)
next
  case (Some e)
  have "entry_fits k e" by (rule map_okD(3) [OF assms Some])
  then have e: "hashable_thread e" "e \<noteq> []" by (auto simp: entry_fits_def jhas_def)
  then have "unbound (fst (remove_entry k r s)) = unbound s @ (case bound s k of None \<Rightarrow> [] | Some x \<Rightarrow> [(k, x, normalize_unbind_reason r)])"
    using Some by (auto simp: remove_entry_def Let_def hashable_thread_def bound_def)
  moreover have "view (fst (remove_entry k r s)) j = (if j = k then None else view s j)" for j
    using remove_entry_step(3) [OF assms, of k r] by (simp add: view_def)
  ultimately show ?thesis by (rule sheds_one)
qed

lemma remove_entries_sheds: "map_ok s \<Longrightarrow> sheds s (fst (remove_entries ks r s))"
proof (induction ks arbitrary: s)
  case (Cons k ks)
  obtain v where v: "remove_entry k r s = (v, Inr ())" "map_ok v"
    using remove_entry_step [OF Cons.prems, of k r] by (metis prod.collapse)
  have "sheds s v" using remove_entry_sheds [OF Cons.prems, of k r] v by simp
  then show ?case using sheds_trans [OF _ Cons.IH [OF v(2)]] v(1) by simp
qed (simp add: sheds_quiet)

lemma repair_sheds: "map_ok s \<Longrightarrow> sheds s (fst (repair_or_remove_stale k s))"
proof (cases "dict_get (entries s) k")
  case (Some e)
  moreover assume "map_ok s"
  ultimately show ?thesis
    using remove_entry_sheds sheds_quiet [of s s] view_at [OF Some]
    by (auto simp: repair_or_remove_stale_def intro!: sheds_quiet)
qed (simp add: repair_or_remove_stale_def remove_entry_sheds)

lemma get_sid_sheds: "map_ok s \<Longrightarrow> sheds s (fst (get_sid f g k s))"
proof -
  assume ok: "map_ok s"
  have "fst (get_sid f g k s) = s \<or> (\<exists>j. fst (get_sid f g k s) = fst (repair_or_remove_stale j s))"
    by (auto simp: get_sid_def Let_def split: prod.split option.split) (metis fst_conv)+
  then show ?thesis using repair_sheds [OF ok] sheds_quiet by metis
qed

lemma prune_sheds: "map_ok s \<Longrightarrow> sheds s (fst (prune_map f s))"
proof -
  assume ok: "map_ok s"
  let ?stale = "map fst (filter (\<lambda>kv. prune_entry f (snd kv) = CollectEntry) (entries s))"
  let ?s = "s\<lparr>entries := map (\<lambda>kv. (fst kv, if prune_entry f (snd kv) = ResetSid then dict_set ''sid'' (JStr []) (snd kv) else snd kv)) (entries s)\<rparr>"
  have s: "map_ok ?s" by (rule map_entries_ok [OF ok]) (auto intro: entry_fits_field)
  have q: "sheds s ?s"
  proof (rule sheds_quiet)
    show "view ?s k = view s k" for k
      using view_map [of "\<lambda>k e. if prune_entry f e = ResetSid then dict_set ''sid'' (JStr []) e else e" s k]
      by (simp add: view_def split: option.split)
  qed simp
  obtain v where v: "remove_entries ?stale ''pruned_stale'' ?s = (v, Inr ())" by (rule remove_entries_result [OF s])
  then have sv: "sheds s v" using sheds_trans [OF q remove_entries_sheds [OF s, of ?stale "''pruned_stale''"]] by simp
  show ?thesis
  proof (cases "?stale = []")
    case False
    then have "fst (prune_map f s) = owe_write (rebuild_thread_index v)"
      unfolding prune_map_def Let_def v by (simp only: if_True not_False_eq_True prod.case sum.case fst_conv)
    moreover have "sheds v (owe_write (rebuild_thread_index v))" by (rule sheds_quiet) simp_all
    ultimately show ?thesis using sheds_trans [OF sv] by simp
  next
    case True
    have "fst (prune_map f s) = ?s \<or> fst (prune_map f s) = owe_write ?s"
      unfolding prune_map_def Let_def True by (simp only: if_False simp_thms split: if_split) simp
    then show ?thesis using q sheds_trans [OF q sheds_quiet, of "owe_write ?s"] by auto
  qed
qed

lemma sweep_view: "sweep key t s = (v, ev) \<Longrightarrow> view v j = view s j"
  using sweep_entry(1) [of key t s v ev j] by (simp add: view_def split: option.split)

lemma slack_link_quiet: "map_ok s \<Longrightarrow> sheds s (fst (set_slack_link k t c s))"
proof -
  assume ok: "map_ok s"
  let ?k = "canonical_key k"
  obtain v ev where v: "sweep ?k t s = (v, ev)" by (metis prod.exhaust)
  note vok = sweep_entry(4) [OF v ok] and c = set_slack_link_cases [OF v] and same = sweep_view [OF v] sweep_entry(3) [OF v]
  show ?thesis
  proof (cases "entry_of ?k v")
    case None
    then have "view v ?k = None" by (simp add: view_entry [OF vok])
    then show ?thesis using c(1) [OF None] same by (intro sheds_quiet) auto
  next
    case (Some e)
    then have b: "mirror_view e = view v ?k" by (simp add: view_entry [OF vok])
    have h: "hashable_thread e" using entry_of_fits [OF vok Some] by (simp add: entry_fits_def)
    show ?thesis
    proof (cases "jget e ''slack_thread_ts'' = JStr t \<and> jget e ''slack_channel_id'' = c")
      case True
      then show ?thesis using c(2) [OF Some] same by (intro sheds_quiet) auto
    next
      case False
      then show ?thesis using c(3) [OF Some False h] same b by (intro sheds_quiet) auto
    qed
  qed
qed

lemma clear_slack_quiet: "map_ok s \<Longrightarrow> sheds s (fst (clear_slack_link k s))"
  by (rule sheds_quiet) (auto simp: clear_slack_link_def Let_def view_entry_at split: option.split)

lemma clear_mirror_sheds: "map_ok s \<Longrightarrow> sheds s (fst (clear_mirror_link k r s))"
proof -
  assume ok: "map_ok s"
  show ?thesis
  proof (cases "entry_of (mirror_key k s) s")
    case (Some e)
    show ?thesis
    proof (cases "jget e ''mirror'' \<noteq> JNull")
      case True
      then show ?thesis
        using Some view_entry [OF ok, of "mirror_key k s"] entry_of_ok [OF ok]
        by (intro sheds_one [of _ _ "mirror_key k s" r]) (auto simp: clear_mirror_link_def Let_def bound_def)
    next
      case False
      then show ?thesis using Some clear_slack_quiet [OF ok] sheds_quiet by (auto simp: clear_mirror_link_def Let_def)
    qed
  qed (simp add: clear_mirror_link_def Let_def sheds_quiet)
qed

lemma clear_at_sheds: "map_ok s \<Longrightarrow> sheds s (fst (clear_mirror_links_at l r s))"
proof -
  assume ok: "map_ok s"
  let ?s = "fst (clear_mirror_links_at l r s)"
  let ?f = "\<lambda>k e. if mirrors_at l False e then drop_mirror_fields e else e"
  let ?lost = "concat (map (\<lambda>kv. if mirrors_at l False (snd kv)
     then case inbound_binding (snd kv) of None \<Rightarrow> [] | Some l \<Rightarrow> [(fst kv, l)] else []) (entries s))"
  have vw: "view ?s k = (case dict_get (entries s) k of None \<Rightarrow> None | Some e \<Rightarrow> mirror_view (?f k e))" for k
    using view_map [of ?f s k] by (simp add: clear_mirror_links_at_def Let_def fold_note)
  then have b: "bound ?s k = (case dict_get (entries s) k of None \<Rightarrow> None | Some e \<Rightarrow> inbound_binding (?f k e))" for k
    by (simp add: bound_view inbound_view split: option.split)
  have "unbound ?s = unbound s @ map (\<lambda>(k, l). (k, l, normalize_unbind_reason r)) ?lost"
    by (simp add: clear_mirror_links_at_def Let_def fold_note)
  moreover have lost: "(k, x) \<in> set ?lost \<longleftrightarrow> bound s k = Some x \<and> bound ?s k \<noteq> Some x" for k x
  proof -
    have "(k, x) \<in> set ?lost \<longleftrightarrow> (\<exists>e. dict_get (entries s) k = Some e \<and> mirrors_at l False e \<and> inbound_binding e = Some x)"
      using dict_get_eq_Some [OF map_okD(1) [OF ok]] by (force split: option.splits if_splits)
    then show ?thesis
      using b [of k] by (cases "dict_get (entries s) k") (auto simp: bound_def [of s] inbound_view simp del: map_of_eq_Some_iff)
  qed
  ultimately have "announces s ?s" unfolding announces_def by (intro exI [of _ "map (\<lambda>(k, l). (k, l, normalize_unbind_reason r)) ?lost"]) force
  moreover have "view ?s k = view s k \<or> view ?s k = None" for k
    using vw [of k] by (cases "dict_get (entries s) k") (auto simp: view_def [of s])
  ultimately show ?thesis by (simp add: sheds_def)
qed

section \<open>Binding a mirror\<close>

lemma ensure_view: "map_ok s \<Longrightarrow> mirror_view (ensure_entry k s) = view s k"
  by (simp add: ensure_entry_def view_def split: option.split)

lemma canonical_claims [simp]:
  "mirror_key (canonical_key k) s = mirror_key k s"
  "mirror_claim_blockers (canonical_key k) l b s = mirror_claim_blockers k l b s"
  by (simp_all add: mirror_claim_blockers_def mirror_key_def canonical_idem)

lemma bind_step:
  assumes "map_ok s" "channel_type l \<noteq> JStr ''slack''" "mirror_claim_blockers k l b s = []"
  shows "view (fst (set_mirror_link k (Some l) b r s)) j = (if j = canonical_key k then Some (l, b) else view s j)"
    "unbound (fst (set_mirror_link k (Some l) b r s)) = unbound s @
       (case bound s (canonical_key k) of None \<Rightarrow> [] | Some x \<Rightarrow>
          if x \<noteq> l \<or> \<not> b then [(canonical_key k, x, normalize_unbind_reason r)] else [])"
proof -
  have e: "inbound_binding (ensure_entry (canonical_key k) s) = bound s (canonical_key k)"
    by (simp add: inbound_view ensure_view [OF assms(1)] bound_view)
  show "view (fst (set_mirror_link k (Some l) b r s)) j = (if j = canonical_key k then Some (l, b) else view s j)"
    using assms(2,3) by (simp add: set_mirror_link_def Let_def)
  show "unbound (fst (set_mirror_link k (Some l) b r s)) = unbound s @
       (case bound s (canonical_key k) of None \<Rightarrow> [] | Some x \<Rightarrow>
          if x \<noteq> l \<or> \<not> b then [(canonical_key k, x, normalize_unbind_reason r)] else [])"
    using assms(2,3) by (auto simp: set_mirror_link_def Let_def e split: option.split)
qed

lemma mirror_link_cases:
  assumes "map_ok s"
  obtains (bind) l where "lk = Some l" "channel_type l \<noteq> JStr ''slack''" "mirror_claim_blockers k l b s = []"
  | (other) "sheds s (fst (set_mirror_link k lk b r s))"
proof (cases lk)
  case None
  then have "fst (set_mirror_link k lk b r s) = fst (clear_mirror_link k r s)"
    by (simp add: set_mirror_link_def case_prod_beta)
  then show ?thesis using clear_mirror_sheds [OF assms] other by simp
next
  case (Some l)
  consider "channel_type l = JStr ''slack''" | "channel_type l \<noteq> JStr ''slack''" "mirror_claim_blockers k l b s \<noteq> []"
    | "channel_type l \<noteq> JStr ''slack''" "mirror_claim_blockers k l b s = []" by blast
  then show ?thesis
  proof cases
    case 1
    then show ?thesis using Some other slack_link_quiet [OF assms] by (simp add: set_mirror_link_def)
  next
    case 2
    then show ?thesis using Some other by (simp add: set_mirror_link_def Let_def sheds_quiet)
  qed (rule bind [OF Some])
qed

lemma bind_announces:
  assumes "map_ok s" "channel_type l \<noteq> JStr ''slack''" "mirror_claim_blockers k l b s = []"
  shows "announces s (fst (set_mirror_link k (Some l) b r s))"
proof -
  let ?s = "fst (set_mirror_link k (Some l) b r s)"
  let ?c = "canonical_key k"
  have at: "bound ?s j = (if j = ?c then if b then Some l else None else bound s j)" for j
    by (simp add: bound_view bind_step(1) [OF assms])
  show ?thesis
  proof (cases "bound s ?c = None \<or> bound s ?c = Some l \<and> b")
    case True
    then have "unbound ?s = unbound s" by (auto simp: bind_step(2) [OF assms])
    then show ?thesis using True at unfolding announces_def by (intro exI [of _ "[]"]) auto
  next
    case False
    then obtain x where x: "bound s ?c = Some x" "x \<noteq> l \<or> \<not> b" by auto
    then have "unbound ?s = unbound s @ [(?c, x, normalize_unbind_reason r)]" by (auto simp: bind_step(2) [OF assms])
    then show ?thesis using x at unfolding announces_def
      by (intro exI [of _ "[(?c, x, normalize_unbind_reason r)]"]) auto
  qed
qed

lemma marker_sheds: "map_ok s \<Longrightarrow> name \<notin> {''mirror'', ''mirror_accepts_inbound''} \<Longrightarrow> sheds s (fst (set_marker k name b s))"
  by (rule sheds_quiet) (auto simp: set_marker_def Let_def view_entry_at split: option.split)

lemma other_steps_shed:
  assumes ok: "map_ok s" and "\<And>k lk b r. a \<noteq> MirrorLink k lk b r"
  shows "sheds s (map_step a s)"
proof (cases a)
  case (Get k f g)
  then show ?thesis using get_sid_sheds [OF ok] by simp
next
  case (SetSid k sid p c)
  then show ?thesis using ok by (intro sheds_quiet) (auto simp: set_sid_def Let_def view_entry split: option.split)
next
  case (ClearSid k)
  then show ?thesis using ok by (intro sheds_quiet) (auto simp: clear_sid_def view_entry_at split: option.split)
next
  case (Delete k r)
  then show ?thesis using remove_entry_sheds [OF ok] by (simp add: delete_entry_def)
next
  case (Prune f)
  then show ?thesis using prune_sheds [OF ok] by simp
next
  case (SlackLink k t c)
  then show ?thesis using slack_link_quiet [OF ok] by simp
next
  case (ClearSlack k)
  then show ?thesis using clear_slack_quiet [OF ok] by simp
next
  case (PauseSlack k b)
  then show ?thesis using marker_sheds [OF ok] by (simp add: set_slack_paused_def)
next
  case (MirrorLink k lk b r)
  then show ?thesis using assms(2) by blast
next
  case (ClearMirror k r)
  then show ?thesis using clear_mirror_sheds [OF ok] by simp
next
  case (ClearMirrorsAt l r)
  then show ?thesis using clear_at_sheds [OF ok] by simp
next
  case (PauseMirror k b ori)
  then show ?thesis using marker_sheds [OF ok] by (simp add: set_mirror_paused_def)
next
  case (OwnLink k l)
  then show ?thesis using ok by (intro sheds_quiet) (auto simp: set_link_def Let_def view_entry split: option.split)
next
  case (Flag k f b)
  then show ?thesis
    using ok ensure_view [OF ok] by (intro sheds_quiet) (auto simp: set_flag_def Let_def split: json.split)
next
  case (Agent k v)
  then show ?thesis using ok ensure_view [OF ok]
    by (intro sheds_quiet) (auto simp: set_agent_override_def set_override_def Let_def view_entry_at split: option.split)
next
  case (Project k v)
  then show ?thesis using ok ensure_view [OF ok]
    by (intro sheds_quiet) (auto simp: set_project_override_def set_override_def Let_def view_entry_at split: option.split)
qed

text \<open>C11. No inbound binding dies silently: whatever method runs on a reachable map, it announces, under an
  audited reason, exactly the sessions whose messages it stopped from resuming them, whether it
  cleared a binding, displaced it by another, deleted its row or swept the location.\<close>

theorem lost_bindings_are_announced:
  assumes "map_run P s"
  shows "\<exists>new. unbound (map_step a s) = unbound s @ new \<and> (\<forall>(k, l, r) \<in> set new. r \<in> set UNBIND_REASONS) \<and>
    (\<forall>k l. (\<exists>r. (k, l, r) \<in> set new) \<longleftrightarrow> bound s k = Some l \<and> bound (map_step a s) k \<noteq> Some l)"
proof -
  have ok: "map_ok s" by (rule map_run_ok [OF assms])
  have "announces s (map_step a s)"
  proof (cases "\<exists>k lk b r. a = MirrorLink k lk b r")
    case True
    then obtain k lk b r where a: "a = MirrorLink k lk b r" by blast
    show ?thesis
      by (rule mirror_link_cases [OF ok, where lk = lk and k = k and b = b and r = r])
        (use bind_announces [OF ok] sheds_announces in \<open>simp_all add: a\<close>)
  next
    case False
    then show ?thesis using other_steps_shed [OF ok] sheds_announces by blast
  qed
  then show ?thesis unfolding announces_def by blast
qed

end
