(* ===== verification/Session_Owners.thy ===== *)
theory Session_Owners
  imports Session_Bindings
begin

text \<open>
  What a binding is worth: no location that is bound inbound has a second session, and pruning takes
  nothing but session ids from an entry that carries a binding or a setting.
\<close>

section \<open>One owner per location\<close>

text \<open>A location whose messages resume session \<open>k\<close> is mirrored by a second session \<open>j\<close> as well.\<close>

definition contested :: "channel_link \<Rightarrow> string \<Rightarrow> string \<Rightarrow> smap \<Rightarrow> bool" where
  "contested l k j s \<longleftrightarrow> j \<noteq> k \<and> view s k = Some (l, True) \<and> (\<exists>i. view s j = Some (l, i))"

text \<open>A bind that addresses the conversation's own row, not the row an older release kept for it under
  the dashboard namespace.\<close>

definition own_row :: "map_action \<Rightarrow> smap \<Rightarrow> bool" where
  "own_row a s \<longleftrightarrow> (case a of MirrorLink k (Some l) b r \<Rightarrow> mirror_key k s = canonical_key k | _ \<Rightarrow> True)"

fun run_owned :: "map_action list \<Rightarrow> smap \<Rightarrow> bool" where
  "run_owned [] s = True"
| "run_owned (a # acts) s = (own_row a s \<and> run_owned acts (map_step a s))"

lemma mirrors_at_lookup:
  assumes "map_ok s"
  shows "j \<in> set (find_mirror_sessions l b s) \<longleftrightarrow> (\<exists>i. view s j = Some (l, i) \<and> (b \<longrightarrow> i))"
proof -
  have "j \<in> set (find_mirror_sessions l b s) \<longleftrightarrow> (\<exists>e. (j, e) \<in> set (entries s) \<and> mirrors_at l b e)"
    by (auto simp: find_mirror_sessions_def image_iff)
  also have "\<dots> \<longleftrightarrow> (\<exists>e. dict_get (entries s) j = Some e \<and> mirrors_at l b e)"
    by (simp only: dict_get_eq_Some [OF map_okD(1) [OF assms]])
  also have "\<dots> \<longleftrightarrow> (\<exists>i. view s j = Some (l, i) \<and> (b \<longrightarrow> i))"
    by (simp add: view_def mirrors_at_view del: map_of_eq_Some_iff split: option.split)
  finally show ?thesis .
qed


lemma one_element: "distinct xs \<Longrightarrow> set xs = {k} \<Longrightarrow> xs = [k]"
  by (cases xs; cases "tl xs") auto

lemma contested_sheds: "contested l k j s' \<Longrightarrow> sheds s s' \<Longrightarrow> contested l k j s"
  unfolding contested_def sheds_def by (metis option.distinct(1))

lemma unblocked_claims:
  assumes "map_ok s" "mirror_key k s = canonical_key k" "mirror_claim_blockers k l b s = []"
    and "j \<noteq> canonical_key k" "view s j = Some (l, i)"
  shows "\<not> b \<and> \<not> i"
proof -
  obtain e where e: "dict_get (entries s) j = Some e" "mirror_view e = Some (l, i)"
    using assms(5) by (auto simp: view_def simp del: map_of_eq_Some_iff split: option.splits)
  have c: "canonical_key j = j" using map_okD(3) [OF assms(1) e(1)] by (simp add: entry_fits_def)
  have "j \<in> set (find_mirror_sessions l False s)" using mirrors_at_lookup [OF assms(1)] assms(5) by simp
  define R where "R = filter (\<lambda>other. other \<noteq> canonical_key k \<and> other \<noteq> mirror_key k s \<and> canonical_key other \<noteq> canonical_key k)
      (find_mirror_sessions l False s)"
  let ?P = "\<lambda>other. case dict_get (entries s) other of None \<Rightarrow> False | Some e \<Rightarrow> truthy (jget e ''mirror_accepts_inbound'')"
  have R: "j \<in> set R" using \<open>j \<in> set (find_mirror_sessions l False s)\<close> assms(2,4) c by (simp add: R_def)
  have "(if b \<or> list_ex ?P R then R else []) = []"
    using assms(3) unfolding mirror_claim_blockers_def Let_def canonical_claims R_def .
  then have "\<not> b \<and> \<not> list_ex ?P R" using R by (auto split: if_splits)
  moreover have "i \<longleftrightarrow> truthy (jget e ''mirror_accepts_inbound'')"
    using e(2) by (auto simp: mirror_view_def split: json.splits)
  ultimately show ?thesis using R e(1) by (auto simp: list_ex_iff simp del: map_of_eq_Some_iff)
qed

text \<open>No method whose binds address the conversation's own row makes a location contested.\<close>

lemma contested_step:
  assumes ok: "map_ok s" and c: "contested m p q (map_step a s)" and own: "own_row a s"
  shows "contested m p q s"
proof (cases "\<exists>k lk b r. a = MirrorLink k lk b r")
  case False
  then show ?thesis using contested_sheds [OF c] other_steps_shed [OF ok] by blast
next
  case True
  then obtain k lk b r where a: "a = MirrorLink k lk b r" by blast
  show ?thesis
  proof (rule mirror_link_cases [OF ok, where lk = lk and k = k and b = b and r = r])
    fix l assume l: "lk = Some l" "channel_type l \<noteq> JStr ''slack''" "mirror_claim_blockers k l b s = []"
    then have free: "\<not> b \<and> \<not> i" if "j \<noteq> canonical_key k" "view s j = Some (l, i)" for j i
      using unblocked_claims [OF ok _ l(3) that] own by (simp add: own_row_def a)
    have at: "view (map_step a s) j = (if j = canonical_key k then Some (l, b) else view s j)" for j
      using bind_step(1) [OF ok l(2,3)] by (simp add: a l(1))
    show ?thesis
      using c free unfolding contested_def at by (auto split: if_splits)
  qed (use c contested_sheds in \<open>simp add: a\<close>)
qed

lemma contested_run:
  "map_ok s \<Longrightarrow> run_owned acts s \<Longrightarrow> contested l k j (fold map_step acts s) \<Longrightarrow> contested l k j s"
proof (induction acts arbitrary: s)
  case (Cons a acts)
  then have "contested l k j (map_step a s)" by (simp add: map_step_ok)
  with contested_step Cons.prems show ?case by auto
qed simp

lemma contested_lookup:
  "map_ok s \<Longrightarrow> contested l k j s \<longleftrightarrow>
     j \<noteq> k \<and> k \<in> set (find_mirror_sessions l True s) \<and> j \<in> set (find_mirror_sessions l False s)"
  by (auto simp: contested_def mirrors_at_lookup)

lemma uncontested_lookup:
  assumes ok: "map_ok s" and x: "\<And>j. \<not> contested l k j s" and k: "k \<in> set (find_mirror_sessions l True s)"
  shows "find_mirror_sessions l False s = [k]"
proof -
  have "k \<in> set (find_mirror_sessions l False s)" using k by (auto simp: mirrors_at_lookup [OF ok])
  then have "set (find_mirror_sessions l False s) = {k}"
    using x k unfolding contested_lookup [OF ok] by blast
  moreover have "distinct (find_mirror_sessions l False s)"
    using map_okD(1) [OF ok] by (simp add: find_mirror_sessions_def distinct_map_filter)
  ultimately show ?thesis by (rule one_element [rotated])
qed

text \<open>C22. No bind makes two sessions share a location whose messages resume one of them. After any methods
  whose binds address the conversation's own row, a session resumed by a location is the only one
  mirrored there, unless the two that share it shared it before: a map written by a release that
  did not check may hold such a pair, and the methods only ever end it.\<close>

theorem inbound_location_has_one_session:
  assumes "map_run P s" "run_owned acts s" "k \<in> set (find_mirror_sessions l True (fold map_step acts s))"
  shows "find_mirror_sessions l False (fold map_step acts s) = [k] \<or>
    k \<in> set (find_mirror_sessions l True s) \<and>
    (\<exists>j. j \<noteq> k \<and> j \<in> set (find_mirror_sessions l False s) \<and>
       j \<in> set (find_mirror_sessions l False (fold map_step acts s)))"
proof (cases "\<exists>j. contested l k j (fold map_step acts s)")
  case True
  then obtain j where j: "contested l k j (fold map_step acts s)" by blast
  have ok: "map_ok s" "map_ok (fold map_step acts s)"
    using map_run_ok [OF assms(1)] by (induction acts arbitrary: s) (simp_all add: map_step_ok)
  from contested_run [OF ok(1) assms(2) j] j show ?thesis
    unfolding contested_lookup [OF ok(1)] contested_lookup [OF ok(2)] by blast
next
  case False
  have "map_ok (fold map_step acts s)"
    using map_run_ok [OF assms(1)] by (induction acts arbitrary: s) (simp_all add: map_step_ok)
  with uncontested_lookup assms(3) False show ?thesis by blast
qed

text \<open>A run over a Discord location: it is bound to one dashboard session, refused to a second, which
  mirrors elsewhere, and passed on when the first is unlinked.\<close>

definition sample_place :: "string \<Rightarrow> channel_link" where
  "sample_place c = \<lparr>channel_type = JStr ''discord'', channel_id = JStr c, thread_id = JNull\<rparr>"

definition sample_binds :: "map_action list" where
  "sample_binds =
     [MirrorLink ''dashboard:a'' (Some (sample_place ''1'')) True ''unspecified'',
      MirrorLink ''dashboard:b'' (Some (sample_place ''1'')) False ''unspecified'',
      MirrorLink ''dashboard:b'' (Some (sample_place ''2'')) False ''unspecified'',
      ClearMirror ''dashboard:a'' ''user_unlink'',
      MirrorLink ''dashboard:b'' (Some (sample_place ''1'')) True ''unspecified'']"

lemma empty_run: "map_run P empty_map"
proof -
  have "load_map None = empty_map" "map_ok empty_map" by (simp_all add: load_map_def map_ok_def empty_map_def)
  then show "map_run P empty_map" using map_start [of None] by simp
qed

lemma inbound_location_has_one_session_witness:
  "find_mirror_sessions (sample_place ''1'') False (fold map_step sample_binds empty_map) = [''dashboard:b'']"
proof -
  have "run_owned sample_binds empty_map" by code_simp
  moreover have "''dashboard:b'' \<in> set (find_mirror_sessions (sample_place ''1'') True (fold map_step sample_binds empty_map))"
    by code_simp
  moreover have "find_mirror_sessions (sample_place ''1'') True empty_map = []" by code_simp
  ultimately show ?thesis using inbound_location_has_one_session [OF empty_run] by fastforce
qed

text \<open>The restriction to own rows is needed: a conversation whose binding an older release left under the
  dashboard namespace counts that row as itself, so binding the same location again is accepted
  and the location then has two inbound sessions, which the next bind by either is refused for.\<close>

definition legacy_file :: json where
  "legacy_file = JObj [(''dashboard:telegram_a_direct_u'', JObj [(''sid'', JStr []),
     (''mirror'', JObj (link_to_dict (sample_place ''1''))), (''mirror_accepts_inbound'', JBool True)])]"

lemma map_start_at: "load_map saved = s \<Longrightarrow> map_ok s \<Longrightarrow> map_run P s"
  using map_start by blast

lemma map_ok_load:
  "load_map saved = s \<Longrightarrow> list_all (\<lambda>(k, e). hashable_thread e) (entries s) \<Longrightarrow> dict_wf (thread_index s) \<Longrightarrow> map_ok s"
  using load_map_rows [of saved] dict_get_eq_Some
  by (fastforce simp: map_ok_def entry_fits_def loaded_row_def list_all_iff simp del: map_of_eq_Some_iff)

definition legacy_rebind :: map_action where
  "legacy_rebind = MirrorLink ''telegram:a:direct:u'' (Some (sample_place ''1'')) True ''unspecified''"

theorem legacy_row_shares_location:
  "let s = map_step legacy_rebind (load_map (Some legacy_file))
   in map_run (\<lambda>a s. True) (load_map (Some legacy_file)) \<and>
      find_mirror_sessions (sample_place ''1'') True s = [''dashboard:telegram_a_direct_u'', ''telegram:a:direct:u''] \<and>
      snd (set_mirror_link ''telegram:a:direct:u'' (Some (sample_place ''1'')) True ''unspecified'' s)
        = Inl ConversationOwnershipConflict"
proof -
  have "list_all (\<lambda>(k, e). hashable_thread e) (entries (load_map (Some legacy_file)))"
    "dict_wf (thread_index (load_map (Some legacy_file)))" by code_simp+
  then have "map_run (\<lambda>a s. True) (load_map (Some legacy_file))" by (intro map_start_at map_ok_load) simp_all
  moreover have "find_mirror_sessions (sample_place ''1'') True (map_step legacy_rebind (load_map (Some legacy_file)))
      = [''dashboard:telegram_a_direct_u'', ''telegram:a:direct:u'']"
    and "snd (set_mirror_link ''telegram:a:direct:u'' (Some (sample_place ''1'')) True ''unspecified''
      (map_step legacy_rebind (load_map (Some legacy_file)))) = Inl ConversationOwnershipConflict" by code_simp+
  ultimately show ?thesis unfolding Let_def by blast
qed

lemma lost_bindings_are_announced_witness:
  "\<exists>r. (''dashboard:a'', sample_place ''1'', r) \<in> set (unbound
     (map_step (Delete ''dashboard:a'' ''anything'')
       (map_step (MirrorLink ''dashboard:a'' (Some (sample_place ''1'')) True ''unspecified'') empty_map)))"
proof -
  let ?s = "map_step (MirrorLink ''dashboard:a'' (Some (sample_place ''1'')) True ''unspecified'') empty_map"
  let ?d = "Delete ''dashboard:a'' ''anything''"
  have "map_run (\<lambda>a s. True) ?s" by (rule map_next [OF empty_run]) simp
  from lost_bindings_are_announced [OF this, of ?d] obtain new where
    new: "unbound (map_step ?d ?s) = unbound ?s @ new"
      "\<forall>k l. (\<exists>r. (k, l, r) \<in> set new) \<longleftrightarrow> bound ?s k = Some l \<and> bound (map_step ?d ?s) k \<noteq> Some l" by blast
  have "bound ?s ''dashboard:a'' = Some (sample_place ''1'') \<and> bound (map_step ?d ?s) ''dashboard:a'' \<noteq> Some (sample_place ''1'')"
    by code_simp
  then show ?thesis using new by (metis UnCI set_append)
qed

section \<open>What pruning may take\<close>

lemma remove_entries_entries:
  "map_ok s \<Longrightarrow> dict_get (entries (fst (remove_entries ks r s))) j = (if j \<in> set ks then None else dict_get (entries s) j)"
proof (induction ks arbitrary: s)
  case (Cons k ks)
  obtain v where v: "remove_entry k r s = (v, Inr ())" "map_ok v" "entries v = dict_del k (entries s)"
    using remove_entry_step [OF Cons.prems, of k r] by (metis prod.collapse)
  then show ?case using Cons.IH [OF v(2)] by simp
qed simp

lemma rebuild_entries [simp]: "entries (rebuild_thread_index s) = entries s" "entries (owe_write s) = entries s"
  by (simp_all add: rebuild_thread_index_def owe_write_def)

lemma prune_effect:
  assumes ok: "map_ok s"
  shows "dict_get (entries (fst (prune_map f s))) k =
      (case dict_get (entries s) k of None \<Rightarrow> None
       | Some e \<Rightarrow> if prune_entry f e = CollectEntry then None
           else Some (if prune_entry f e = ResetSid then dict_set ''sid'' (JStr []) e else e))"
    "snd (prune_map f s) = Inr (length (filter (\<lambda>kv. prune_entry f (snd kv) = CollectEntry) (entries s)))"
proof -
  let ?stale = "map fst (filter (\<lambda>kv. prune_entry f (snd kv) = CollectEntry) (entries s))"
  let ?f = "\<lambda>k e. if prune_entry f e = ResetSid then dict_set ''sid'' (JStr []) e else e"
  let ?s = "s\<lparr>entries := map (\<lambda>kv. (fst kv, ?f (fst kv) (snd kv))) (entries s)\<rparr>"
  have s: "map_ok ?s" by (rule map_entries_ok [OF ok]) (auto intro: entry_fits_field)
  obtain v where v: "remove_entries ?stale ''pruned_stale'' ?s = (v, Inr ())" by (rule remove_entries_result [OF s])
  have sel: "entries ?s = map (\<lambda>kv. (fst kv, ?f (fst kv) (snd kv))) (entries s)" by simp
  have ent: "dict_get (entries v) k = (if k \<in> set ?stale then None else map_option (?f k) (dict_get (entries s) k))"
    using remove_entries_entries [OF s, of ?stale "''pruned_stale''" k] unfolding v fst_conv sel dict_get_map [of ?f "entries s"] .
  have mem: "k \<in> set ?stale \<longleftrightarrow> (\<exists>e. dict_get (entries s) k = Some e \<and> prune_entry f e = CollectEntry)"
    using dict_get_eq_Some [OF map_okD(1) [OF ok]] by (force simp del: map_of_eq_Some_iff)
  have out: "entries (fst (prune_map f s)) = (if ?stale = [] then entries ?s else entries v)"
    "snd (prune_map f s) = Inr (length ?stale)"
    unfolding prune_map_def Let_def v by simp_all
  show "snd (prune_map f s) = Inr (length (filter (\<lambda>kv. prune_entry f (snd kv) = CollectEntry) (entries s)))"
    using out(2) by simp
  have "dict_get (entries (fst (prune_map f s))) k = (if k \<in> set ?stale then None else map_option (?f k) (dict_get (entries s) k))"
  proof (cases "?stale = []")
    case True
    have "dict_get (entries ?s) k = map_option (?f k) (dict_get (entries s) k)" unfolding sel by (rule dict_get_map)
    then show ?thesis unfolding out(1) if_P [OF True] True by (simp only: list.set empty_iff if_False simp_thms if_True)
  next
    case False
    then show ?thesis unfolding out(1) if_not_P [OF False] by (intro ent)
  qed
  then show "dict_get (entries (fst (prune_map f s))) k =
      (case dict_get (entries s) k of None \<Rightarrow> None
       | Some e \<Rightarrow> if prune_entry f e = CollectEntry then None
           else Some (if prune_entry f e = ResetSid then dict_set ''sid'' (JStr []) e else e))"
    unfolding mem by (simp split: option.split)
qed

lemma dict_length: "dict_wf d \<Longrightarrow> length d = card {k. dict_get d k \<noteq> None}"
proof -
  assume "dict_wf d"
  then have "length d = card (fst ` set d)" using distinct_card by fastforce
  also have "fst ` set d = {k. dict_get d k \<noteq> None}" by (auto simp: map_of_eq_None_iff)
  finally show ?thesis .
qed

lemma dict_finite: "finite {k. dict_get d k \<noteq> None}"
  by (rule finite_subset [of _ "fst ` set d"]) (auto simp: map_of_eq_None_iff)

lemma prune_length:
  assumes ok: "map_ok s"
  shows "snd (prune_map f s) = Inr (length (entries s) - length (entries (fst (prune_map f s))))"
proof -
  let ?s = "fst (prune_map f s)"
  let ?dead = "filter (\<lambda>kv. prune_entry f (snd kv) = CollectEntry) (entries s)"
  have wf: "dict_wf (entries s)" "dict_wf (entries ?s)" using map_okD(1) ok prune_ok by blast+
  have "length ?dead = card (fst ` set ?dead)"
    using wf(1) distinct_card [of "map fst ?dead"] by (simp add: distinct_map_filter)
  also have "fst ` set ?dead = {k. dict_get (entries s) k \<noteq> None} - {k. dict_get (entries ?s) k \<noteq> None}"
    unfolding prune_effect(1) [OF ok] using dict_get_eq_Some [OF wf(1)]
    by (force simp del: map_of_eq_Some_iff not_None_eq split: option.splits if_splits)
  also have "card \<dots> = length (entries s) - length (entries ?s)"
    unfolding dict_length [OF wf(1)] dict_length [OF wf(2)]
    by (rule card_Diff_subset [OF dict_finite])
      (auto simp: prune_effect(1) [OF ok] simp del: map_of_eq_Some_iff map_of_eq_None_iff split: option.splits)
  finally show ?thesis by (simp add: prune_effect(2) [OF ok])
qed

text \<open>A session id whose transcript is still there; an entry with another entry's settings.\<close>

definition resumable :: "(json \<Rightarrow> bool) \<Rightarrow> jobj \<Rightarrow> bool" where
  "resumable has_json e \<longleftrightarrow> truthy (jget e ''sid'') \<and> has_json (jget e ''sid'')"

definition same_settings :: "jobj \<Rightarrow> jobj \<Rightarrow> bool" where
  "same_settings e e' \<longleftrightarrow> (\<forall>name. name \<noteq> ''sid'' \<longrightarrow> jget e' name = jget e name)"

text \<open>C36. Pruning collects exactly the native rows that can no longer be resumed and hold no thread, no
  mirror and no durable refusal, and reports how many; every other row keeps all its settings, and
  its session id unless that id has lost its transcript; no row appears.\<close>

theorem prune_takes_only_dead_rows:
  assumes "map_run P s"
  shows "snd (prune_map f s) = Inr (length (entries s) - length (entries (fst (prune_map f s)))) \<and>
    (\<forall>k. case dict_get (entries s) k of
       None \<Rightarrow> dict_get (entries (fst (prune_map f s))) k = None
     | Some e \<Rightarrow> (case dict_get (entries (fst (prune_map f s))) k of
         None \<Rightarrow> native_backend e \<and> \<not> survives_prune e \<and> \<not> resumable f e
       | Some e' \<Rightarrow> \<not> (native_backend e \<and> \<not> survives_prune e \<and> \<not> resumable f e) \<and> same_settings e e' \<and>
           jget e' ''sid'' = (if native_backend e \<and> truthy (jget e ''sid'') \<and> \<not> resumable f e then JStr [] else jget e ''sid'')))"
proof -
  have ok: "map_ok s" by (rule map_run_ok [OF assms])
  show ?thesis
    unfolding prune_effect(1) [OF ok]
    by (auto simp: prune_length [OF ok] prune_entry_def resumable_def same_settings_def
        simp del: map_of_eq_Some_iff map_of_eq_None_iff split: option.split if_splits)
qed

lemma prune_takes_only_dead_rows_witness:
  "snd (prune_map (\<lambda>sid. False) (map_step (SetSid ''dashboard:a'' ''s1'' [] [])
     (map_step (MirrorLink ''dashboard:b'' (Some (sample_place ''1'')) True ''unspecified'') empty_map))) = Inr 1"
proof -
  let ?m = "map_step (MirrorLink ''dashboard:b'' (Some (sample_place ''1'')) True ''unspecified'') empty_map"
  let ?s = "map_step (SetSid ''dashboard:a'' ''s1'' [] []) ?m"
  have "map_run (\<lambda>a s. True) ?s" by (rule map_next [OF map_next [OF empty_run]]) simp_all
  note prune = prune_takes_only_dead_rows [OF this, of "\<lambda>sid. False", THEN conjunct1]
  have "length (entries ?s) - length (entries (fst (prune_map (\<lambda>sid. False) ?s))) = 1" by code_simp
  with prune show ?thesis by (simp only:)
qed

end
