(* ===== verification/Session_Threads.thy ===== *)
theory Session_Threads
  imports Session_Owners
begin

text \<open>
  Where a reply in a Slack thread goes: the reverse index against the entries that claim the thread.
  A claim is self-derived when the thread is the conversation of the session itself; any other claim
  is a hand-over, which must win.
\<close>

section \<open>Claims and routes\<close>

definition thread_field :: "jobj \<Rightarrow> string option" where
  "thread_field e = (case jget e ''slack_thread_ts'' of JStr t \<Rightarrow> if t = [] then None else Some t | _ \<Rightarrow> None)"

definition claim_of :: "smap \<Rightarrow> string \<Rightarrow> string option" where
  "claim_of s k = (case dict_get (entries s) k of None \<Rightarrow> None | Some e \<Rightarrow> thread_field e)"

definition routed :: "smap \<Rightarrow> bool" where
  "routed s \<longleftrightarrow>
     (\<forall>t k. get_session_for_thread t s = Some k \<longrightarrow> claim_of s k = Some t) \<and>
     (\<forall>t k. claim_of s k = Some t \<and> \<not> is_self_derived k t \<longrightarrow> get_session_for_thread t s = Some k)"

lemma thread_field_keeps [simp]:
  "f \<noteq> ''slack_thread_ts'' \<Longrightarrow> thread_field (dict_set f v e) = thread_field e"
  "f \<noteq> ''slack_thread_ts'' \<Longrightarrow> thread_field (dict_del f e) = thread_field e"
  "f \<noteq> ''slack_thread_ts'' \<Longrightarrow> thread_field (set_optional f w e) = thread_field e"
  "thread_field (drop_mirror_fields e) = thread_field e" "thread_field (bind_mirror l b e) = thread_field e"
  by (simp_all add: thread_field_def drop_mirror_fields_def bind_mirror_def Let_def set_optional_def cong: json.case_cong)

lemma thread_field_links [simp]:
  "thread_field (drop_slack_fields e) = None" "thread_field (relink_fields t c e) = (if t = [] then None else Some t)"
  "thread_field blank_entry = None"
  by (simp_all add: thread_field_def drop_slack_fields_def relink_fields_def blank_entry_def jget_def dict_get_default_def)

lemma claim_frames [simp]:
  "claim_of (put_entry k e s) j = (if j = k then thread_field e else claim_of s j)"
  "claim_of (owe_write s) = claim_of s" "claim_of (drop_thread ts s) = claim_of s" "claim_of (index_thread t k s) = claim_of s"
  "claim_of (index_default t k s) = claim_of s" "claim_of (claim_thread t k s) = claim_of s"
  "claim_of (note_lost k l r s) = claim_of s" "claim_of (rebuild_thread_index s) = claim_of s"
  "claim_of (s\<lparr>unbound := u\<rparr>) = claim_of s"
  by (simp_all add: fun_eq_iff claim_of_def put_entry_def owe_write_def drop_thread_def index_thread_def index_default_def
      claim_thread_def note_lost_def note_inbound_unbind_def rebuild_thread_index_def split: option.splits json.split)

lemma route_frames [simp]:
  "get_session_for_thread u (put_entry k e s) = get_session_for_thread u s"
  "get_session_for_thread u (owe_write s) = get_session_for_thread u s"
  "get_session_for_thread u (note_lost k l r s) = get_session_for_thread u s"
  "get_session_for_thread u (s\<lparr>unbound := w\<rparr>) = get_session_for_thread u s"
  "get_session_for_thread u (s\<lparr>entries := d\<rparr>) = get_session_for_thread u s"
  "get_session_for_thread u (index_thread t k s) = (if u = t then Some k else get_session_for_thread u s)"
  "get_session_for_thread u (index_default t k s) =
     (if u = t \<and> get_session_for_thread t s = None then Some k else get_session_for_thread u s)"
  by (auto simp: get_session_for_thread_def put_entry_def owe_write_def index_thread_def index_default_def set_default_def
      note_lost_def note_inbound_unbind_def split: option.split)

lemma claim_deleted [simp]:
  "claim_of (s\<lparr>entries := dict_del k (entries s)\<rparr>) j = (if j = k then None else claim_of s j)"
  by (simp add: claim_of_def)

lemma thread_is: "t \<noteq> [] \<Longrightarrow> jget e ''slack_thread_ts'' = JStr t \<longleftrightarrow> thread_field e = Some t"
  by (auto simp: thread_field_def split: json.split)

lemma route_dropped:
  "get_session_for_thread u (drop_thread ts s) = (if ts = JStr u then None else get_session_for_thread u s)"
  by (cases ts) (auto simp: drop_thread_def get_session_for_thread_def)

lemma claim_entry_at: "map_ok s \<Longrightarrow> entry_of k s = Some e \<Longrightarrow> claim_of s k = thread_field e"
  by (simp add: claim_of_def entry_of_ok)

lemma claim_absent: "map_ok s \<Longrightarrow> entry_of k s = None \<Longrightarrow> claim_of s k = None"
  by (simp add: claim_of_def entry_of_ok)

lemma claim_ensure: "thread_field (ensure_entry k s) = claim_of s k"
  by (simp add: ensure_entry_def claim_of_def split: option.split)

section \<open>What keeps the routes\<close>

lemma routedD:
  assumes "routed s"
  shows "get_session_for_thread t s = Some k \<Longrightarrow> claim_of s k = Some t"
    "claim_of s k = Some t \<Longrightarrow> \<not> is_self_derived k t \<Longrightarrow> get_session_for_thread t s = Some k"
  using assms unfolding routed_def by blast+

lemma routedI:
  "(\<And>t k. get_session_for_thread t s = Some k \<Longrightarrow> claim_of s k = Some t) \<Longrightarrow>
   (\<And>t k. claim_of s k = Some t \<Longrightarrow> \<not> is_self_derived k t \<Longrightarrow> get_session_for_thread t s = Some k) \<Longrightarrow> routed s"
  unfolding routed_def by blast

lemma routed_frame:
  assumes "routed s" "\<And>k. claim_of s' k = claim_of s k" "\<And>t. get_session_for_thread t s' = get_session_for_thread t s"
  shows "routed s'"
proof -
  have "routed s' = routed s" unfolding routed_def assms(2,3) ..
  then show ?thesis using assms(1) by simp
qed

lemma routed_release:
  assumes "routed s" "\<And>j. claim_of s' j = (if j = k then None else claim_of s j)"
    and "\<And>t. get_session_for_thread t s' =
      (if claim_of s k = Some t \<and> get_session_for_thread t s = Some k then None else get_session_for_thread t s)"
  shows "routed s'"
proof (rule routedI)
  show "claim_of s' j = Some t" if "get_session_for_thread t s' = Some j" for t j
    using that routedD(1) [OF assms(1), of t j] unfolding assms(2,3) by (auto split: if_splits)
  show "get_session_for_thread t s' = Some j" if "claim_of s' j = Some t" "\<not> is_self_derived j t" for t j
    using that routedD(2) [OF assms(1), of j t] unfolding assms(2,3) by (auto split: if_splits)
qed

text \<open>A claim by a key whose previous thread, if it leaves one, is routed to nobody else.\<close>

lemma routed_claim:
  assumes "routed s" "t \<noteq> []"
    and "\<And>j. claim_of s' j =
      (if j = c then Some t else if \<not> is_self_derived c t \<and> claim_of s j = Some t then None else claim_of s j)"
    and "\<And>u. get_session_for_thread u s' =
      (if u = t then (if is_self_derived c t \<and> get_session_for_thread t s \<noteq> None then get_session_for_thread t s else Some c)
       else if claim_of s c = Some u then None else get_session_for_thread u s)"
    and "\<And>u. claim_of s c = Some u \<Longrightarrow> u \<noteq> t \<Longrightarrow> get_session_for_thread u s \<in> {None, Some c}"
  shows "routed s'"
proof (rule routedI)
  show "claim_of s' k = Some u" if "get_session_for_thread u s' = Some k" for u k
    using that routedD(1) [OF assms(1), of u k] unfolding assms(3,4) by (auto split: if_splits)
  show "get_session_for_thread u s' = Some k" if "claim_of s' k = Some u" "\<not> is_self_derived k u" for u k
    using that routedD(2) [OF assms(1), of k u] assms(5) [of u] unfolding assms(3,4)
    by (cases "u = t") (auto split: if_splits)
qed

lemma routed_unlink:
  assumes "routed s" "\<And>j. claim_of s' j = (if j = c then None else claim_of s j)"
    and "\<And>u. get_session_for_thread u s' = (if claim_of s c = Some u then None else get_session_for_thread u s)"
    and "\<And>u. claim_of s c = Some u \<Longrightarrow> get_session_for_thread u s \<in> {None, Some c}"
  shows "routed s'"
proof (rule routed_release [OF assms(1,2)])
  show "get_session_for_thread u s' =
      (if claim_of s c = Some u \<and> get_session_for_thread u s = Some c then None else get_session_for_thread u s)" for u
    using assms(4) [of u] unfolding assms(3) by auto
qed

section \<open>The operations\<close>

lemma truthy_thread: "truthy (jget e ''slack_thread_ts'') \<and> jget e ''slack_thread_ts'' = JStr t \<longleftrightarrow> thread_field e = Some t"
  by (auto simp: thread_field_def split: json.split)

lemma thread_field_value: "thread_field e = Some t \<Longrightarrow> jget e ''slack_thread_ts'' = JStr t"
  by (auto simp: thread_field_def split: json.splits if_splits)

lemma owns_thread:
  "truthy (jget e ''slack_thread_ts'') \<and> thread_owner (jget e ''slack_thread_ts'') s = Some k \<longleftrightarrow>
     (\<exists>t. thread_field e = Some t \<and> get_session_for_thread t s = Some k)"
  by (auto simp: thread_field_def thread_owner_def get_session_for_thread_def split: json.split)

lemma remove_entry_routed:
  assumes ok: "map_ok s" and r: "routed s"
  shows "routed (fst (remove_entry k why s))"
proof (cases "dict_get (entries s) k")
  case None
  then show ?thesis by (simp add: remove_entry_def r)
next
  case (Some e)
  let ?t = "jget e ''slack_thread_ts''"
  have "entry_fits k e" by (rule map_okD(3) [OF ok Some])
  then have e: "hashable_thread e" "e \<noteq> []" by (auto simp: entry_fits_def jhas_def)
  have c: "claim_of s k = thread_field e" by (simp add: claim_of_def Some)
  have eq: "fst (remove_entry k why s) = note_lost k (inbound_binding e) why (owe_write
      (if truthy ?t \<and> thread_owner ?t s = Some k then drop_thread ?t (s\<lparr>entries := dict_del k (entries s)\<rparr>)
       else s\<lparr>entries := dict_del k (entries s)\<rparr>))"
    using Some e by (auto simp: remove_entry_def Let_def hashable_thread_def thread_owner_def cong: json.case_cong)
  show ?thesis
  proof (rule routed_release [OF r])
    show "claim_of (fst (remove_entry k why s)) j = (if j = k then None else claim_of s j)" for j
      unfolding eq by simp
    show "get_session_for_thread u (fst (remove_entry k why s)) =
        (if claim_of s k = Some u \<and> get_session_for_thread u s = Some k then None else get_session_for_thread u s)" for u
    proof (cases "\<exists>t. thread_field e = Some t \<and> get_session_for_thread t s = Some k")
      case True
      then obtain t where t: "thread_field e = Some t" "get_session_for_thread t s = Some k" by blast
      then show ?thesis using thread_field_value [OF t(1)] unfolding eq c owns_thread by (auto simp: route_dropped)
    next
      case False
      then show ?thesis unfolding eq c owns_thread by auto
    qed
  qed
qed

lemma slack_link_routed:
  assumes ok: "map_ok s" and r: "routed s"
    and g: "\<And>u. claim_of s (canonical_key k) = Some u \<Longrightarrow> u \<noteq> t \<Longrightarrow> get_session_for_thread u s \<in> {None, Some (canonical_key k)}"
  shows "routed (fst (set_slack_link k t c s))"
proof -
  let ?k = "canonical_key k" and ?s = "fst (set_slack_link k t c s)"
  obtain v ev where v: "sweep ?k t s = (v, ev)" by (metis prod.exhaust)
  note vok = sweep_entry(4) [OF v ok] and c = set_slack_link_cases [OF v]
  have vc: "claim_of v j = (if j \<noteq> ?k \<and> t \<noteq> [] \<and> \<not> is_self_derived ?k t \<and> claim_of s j = Some t then None else claim_of s j)" for j
    unfolding claim_of_def sweep_entry(1) [OF v]
    by (auto simp: rival_claim_def thread_is split: option.split)
  have vr: "get_session_for_thread u v = get_session_for_thread u s" for u
    by (simp add: get_session_for_thread_def sweep_entry(2) [OF v])
  have own: "claim_of v ?k = claim_of s ?k" by (simp add: vc)
  have nothing: "thread_field e = Some u" if "claim_of s ?k = Some u" "entry_of ?k v = Some e" for u e
    using that own claim_entry_at [OF vok] by simp
  have "(\<forall>j. claim_of ?s j = (if j = ?k then if t = [] then None else Some t else claim_of v j)) \<and>
    (\<forall>u. get_session_for_thread u ?s =
      (if u = t \<and> t \<noteq> [] then (if is_self_derived ?k t \<and> get_session_for_thread t s \<noteq> None then get_session_for_thread t s else Some ?k)
       else if claim_of s ?k = Some u then None else get_session_for_thread u s))"
  proof (cases "entry_of ?k v")
    case None
    then have "claim_of s ?k = None" using claim_absent [OF vok] own by simp
    then show ?thesis unfolding c(1) [OF None] by (auto simp: claim_thread_def vr)
  next
    case (Some e)
    then have own_e: "claim_of s ?k = thread_field e" using claim_entry_at [OF vok] own by simp
    have h: "hashable_thread e" using entry_of_fits [OF vok Some] by (simp add: entry_fits_def)
    show ?thesis
    proof (cases "jget e ''slack_thread_ts'' = JStr t \<and> jget e ''slack_channel_id'' = c")
      case True
      then have "claim_of s ?k = (if t = [] then None else Some t)" by (simp add: own_e thread_field_def)
      then show ?thesis
        using True routedD(2) [OF r, of ?k t] sweep_entry(5) [OF v] unfolding c(2) [OF Some conjunct1 [OF True] conjunct2 [OF True]]
        by (auto simp: own vr)
    next
      case False
      show ?thesis unfolding c(3) [OF Some False h] own_e
        by (auto simp: claim_thread_def vr route_dropped truthy_thread [symmetric])
    qed
  qed
  then have claims: "claim_of ?s j = (if j = ?k then if t = [] then None else Some t else claim_of v j)"
    and routes: "get_session_for_thread u ?s =
      (if u = t \<and> t \<noteq> [] then (if is_self_derived ?k t \<and> get_session_for_thread t s \<noteq> None then get_session_for_thread t s else Some ?k)
       else if claim_of s ?k = Some u then None else get_session_for_thread u s)" for j u
    by blast+
  show ?thesis
  proof (cases "t = []")
    case True
    have ne: "claim_of s ?k \<noteq> Some []" by (auto simp: claim_of_def thread_field_def split: option.splits json.splits)
    show ?thesis
    proof (rule routed_unlink [OF r, of _ ?k])
      show "claim_of ?s j = (if j = ?k then None else claim_of s j)" for j unfolding claims vc using True by simp
      show "get_session_for_thread u ?s = (if claim_of s ?k = Some u then None else get_session_for_thread u s)" for u
        unfolding routes using True by simp
      show "get_session_for_thread u s \<in> {None, Some ?k}" if "claim_of s ?k = Some u" for u
        using g [OF that] that ne True by auto
    qed
  next
    case False
    show ?thesis
    proof (rule routed_claim [OF r False, of _ ?k])
      show "claim_of ?s j = (if j = ?k then Some t
          else if \<not> is_self_derived ?k t \<and> claim_of s j = Some t then None else claim_of s j)" for j
        unfolding claims vc using False by simp
      show "get_session_for_thread u ?s =
          (if u = t then (if is_self_derived ?k t \<and> get_session_for_thread t s \<noteq> None then get_session_for_thread t s else Some ?k)
           else if claim_of s ?k = Some u then None else get_session_for_thread u s)" for u
        unfolding routes using False by simp
    qed (rule g)
  qed
qed

lemma clear_slack_routed:
  assumes ok: "map_ok s" and r: "routed s" and k: "canonical_key k = k"
  shows "routed (fst (clear_slack_link k s))"
proof (cases "entry_of k s")
  case None
  then show ?thesis by (simp add: clear_slack_link_def k r)
next
  case (Some e)
  let ?t = "jget e ''slack_thread_ts''" and ?s = "fst (clear_slack_link k s)"
  let ?v = "put_entry k (dict_del ''slack_paused'' (drop_slack_fields e))
      (if truthy ?t \<and> thread_owner ?t s = Some k then drop_thread ?t s else s)"
  have c: "claim_of s k = thread_field e" by (rule claim_entry_at [OF ok Some])
  have "hashable_thread e" using entry_of_fits [OF ok Some] by (simp add: entry_fits_def)
  then have nh: "\<not> (truthy ?t \<and> unhashable ?t)" by (simp add: hashable_thread_def)
  have s: "?s = ?v \<or> ?s = owe_write ?v"
    unfolding clear_slack_link_def k Some Let_def option.case if_not_P [OF nh] by simp
  have "routed ?v"
  proof (rule routed_release [OF r])
    show "claim_of ?v j = (if j = k then None else claim_of s j)" for j by simp
    show "get_session_for_thread u ?v =
        (if claim_of s k = Some u \<and> get_session_for_thread u s = Some k then None else get_session_for_thread u s)" for u
    proof (cases "\<exists>t. thread_field e = Some t \<and> get_session_for_thread t s = Some k")
      case True
      then obtain t where t: "thread_field e = Some t" "get_session_for_thread t s = Some k" by blast
      then show ?thesis using thread_field_value [OF t(1)] unfolding c owns_thread by (auto simp: route_dropped)
    next
      case False
      then show ?thesis unfolding c owns_thread by auto
    qed
  qed
  then have "routed (owe_write ?v)" using routed_frame [of ?v "owe_write ?v"] by simp
  from s show ?thesis
  proof
    assume "?s = ?v"
    then show ?thesis using \<open>routed ?v\<close> by (simp only:)
  next
    assume "?s = owe_write ?v"
    then show ?thesis using \<open>routed (owe_write ?v)\<close> by (simp only:)
  qed
qed

lemma clear_mirror_routed:
  assumes ok: "map_ok s" and r: "routed s"
  shows "routed (fst (clear_mirror_link k why s))"
proof -
  let ?k = "mirror_key k s"
  have k: "canonical_key ?k = ?k" by (simp add: mirror_key_def Let_def)
  have "fst (clear_mirror_link k why s) = s \<or> fst (clear_mirror_link k why s) = fst (clear_slack_link ?k s) \<or>
      (\<exists>e. entry_of ?k s = Some e \<and>
        fst (clear_mirror_link k why s) = note_lost ?k (inbound_binding e) why (owe_write (put_entry ?k (drop_mirror_fields e) s)))"
    by (auto simp: clear_mirror_link_def Let_def split: option.split)
  then consider "fst (clear_mirror_link k why s) = s" | "fst (clear_mirror_link k why s) = fst (clear_slack_link ?k s)"
    | e where "entry_of ?k s = Some e"
      "fst (clear_mirror_link k why s) = note_lost ?k (inbound_binding e) why (owe_write (put_entry ?k (drop_mirror_fields e) s))"
    by blast
  then show ?thesis
  proof cases
    case 3
    show ?thesis unfolding 3(2) by (rule routed_frame [OF r]) (auto simp: claim_entry_at [OF ok 3(1)])
  qed (use r clear_slack_routed [OF ok r k] in simp_all)
qed

section \<open>Rebuilding the index\<close>

lemma set_default_entries: "set (set_default k v d) \<subseteq> insert (k, v) (set d)"
  by (auto simp: set_default_def dict_set_fresh split: if_splits)

lemma set_default_get: "dict_get (set_default k v d) j = (if j = k \<and> dict_get d k = None then Some v else dict_get d j)"
  by (auto simp: set_default_def simp del: map_of_eq_Some_iff map_of_eq_None_iff)

lemma index_entry_thread:
  "index_entry (k, e) (r, d) = (case thread_field e of None \<Rightarrow> (r, d)
     | Some t \<Rightarrow> if is_self_derived k t then (r, set_default t k d) else (dict_set t k r, d))"
  by (simp add: index_entry_def thread_field_def split: json.split)

text \<open>What the fold over the entries has collected.\<close>

definition collected :: "(string \<times> jobj) list \<Rightarrow> (string, string) dict \<Rightarrow> (string, string) dict \<Rightarrow> bool" where
  "collected es r d \<longleftrightarrow>
     (\<forall>t k. dict_get r t = Some k \<longrightarrow> (\<exists>e. (k, e) \<in> set es \<and> thread_field e = Some t \<and> \<not> is_self_derived k t)) \<and>
     (\<forall>k e t. (k, e) \<in> set es \<and> thread_field e = Some t \<and> \<not> is_self_derived k t \<longrightarrow> dict_get r t \<noteq> None) \<and>
     (\<forall>t k. (t, k) \<in> set d \<longrightarrow> (\<exists>e. (k, e) \<in> set es \<and> thread_field e = Some t))"

lemma collect_entry:
  assumes c: "collected es r d" and x: "index_entry (k, e) (r, d) = (r', d')"
  shows "collected (es @ [(k, e)]) r' d'"
proof -
  note c = c [unfolded collected_def]
  have r': "dict_get r' t = Some j \<longleftrightarrow> (if thread_field e = Some t \<and> \<not> is_self_derived k t then j = k else dict_get r t = Some j)" for t j
    using x by (auto simp: index_entry_thread simp del: map_of_eq_Some_iff split: option.splits if_splits)
  have d': "(t, j) \<in> set d' \<Longrightarrow> thread_field e = Some t \<and> j = k \<or> (t, j) \<in> set d" for t j
    using x set_default_entries by (fastforce simp: index_entry_thread split: option.splits if_splits)
  have "\<exists>e'. (j, e') \<in> set (es @ [(k, e)]) \<and> thread_field e' = Some t \<and> \<not> is_self_derived j t" if j: "dict_get r' t = Some j" for t j
  proof (cases "thread_field e = Some t \<and> \<not> is_self_derived k t")
    case True
    then have "j = k" using j [unfolded r'] by simp
    then show ?thesis using True by auto
  next
    case False
    then have "dict_get r t = Some j" using j [unfolded r'] by (simp only: if_False)
    then obtain e' where "(j, e') \<in> set es" "thread_field e' = Some t" "\<not> is_self_derived j t" using c by blast
    then show ?thesis by auto
  qed
  moreover have "dict_get r' t \<noteq> None"
    if t: "(j, e') \<in> set (es @ [(k, e)])" "thread_field e' = Some t" "\<not> is_self_derived j t" for j e' t
  proof -
    have "\<exists>i. dict_get r t = Some i" if "(j, e') \<in> set es" using that t c by blast
    then have "\<exists>i. dict_get r' t = Some i" unfolding r' using t by (auto split: if_splits)
    then show ?thesis by blast
  qed
  moreover have "\<exists>e'. (j, e') \<in> set (es @ [(k, e)]) \<and> thread_field e' = Some t" if "(t, j) \<in> set d'" for t j
    using d' [OF that] c by (metis Un_iff list.set_intros(1) set_append)
  ultimately show ?thesis unfolding collected_def by blast
qed

lemma collect_entries: "collected es r d \<Longrightarrow> collected (es @ es') (fst (fold index_entry es' (r, d))) (snd (fold index_entry es' (r, d)))"
proof (induction es' arbitrary: es r d)
  case (Cons kv es')
  obtain k e r' d' where "kv = (k, e)" "index_entry (k, e) (r, d) = (r', d')" by (metis prod.exhaust)
  then show ?case using Cons.IH [OF collect_entry [OF Cons.prems]] by simp
qed simp

lemma defaults_get:
  "dict_get (fold (\<lambda>(t, k). set_default t k) d r) t = Some k \<Longrightarrow> dict_get r t = Some k \<or> dict_get r t = None \<and> (t, k) \<in> set d"
  "dict_get r t = Some k \<Longrightarrow> dict_get (fold (\<lambda>(t, k). set_default t k) d r) t = Some k"
proof (induction d arbitrary: r)
  case (Cons tk d)
  obtain t' k' where tk: "tk = (t', k')" by (cases tk)
  {
    case 1
    then show ?case using Cons.IH(1) [of "set_default t' k' r"]
      by (auto simp: tk set_default_get simp del: map_of_eq_Some_iff map_of_eq_None_iff split: if_splits)
  next
    case 2
    then have "dict_get (set_default t' k' r) t = Some k" by (auto simp: set_default_get)
    from Cons.IH(2) [OF this] show ?case by (simp add: tk)
  }
qed simp_all

text \<open>A rebuild gives the same answer as the operations, where the hand-overs of a thread are unique.\<close>

definition one_handover :: "smap \<Rightarrow> bool" where
  "one_handover s \<longleftrightarrow> (\<forall>t k j. claim_of s k = Some t \<and> \<not> is_self_derived k t \<and>
     claim_of s j = Some t \<and> \<not> is_self_derived j t \<longrightarrow> k = j)"

lemma one_handoverD:
  "one_handover s \<Longrightarrow> claim_of s k = Some t \<Longrightarrow> \<not> is_self_derived k t \<Longrightarrow> claim_of s j = Some t \<Longrightarrow> \<not> is_self_derived j t \<Longrightarrow> k = j"
  unfolding one_handover_def by blast

lemma routed_handovers: "routed s \<Longrightarrow> one_handover s"
  unfolding one_handover_def using routedD(2) by (metis option.inject)

lemma rebuild_routed:
  assumes ok: "map_ok s" and r: "one_handover s"
  shows "routed (rebuild_thread_index s)"
proof -
  obtain R D where rd: "fold index_entry (entries s) ([], []) = (R, D)" by (metis prod.exhaust)
  have "collected [] [] []" by (simp add: collected_def)
  then have c: "collected (entries s) R D" using collect_entries [of "[]" "[]" "[]" "entries s"] rd by simp
  have claim: "claim_of s k = Some t" if "(k, e) \<in> set (entries s)" "thread_field e = Some t" for k e t
    using that dict_get_eq_Some [OF map_okD(1) [OF ok], of k e] by (simp add: claim_of_def)
  have route: "get_session_for_thread t (rebuild_thread_index s) = dict_get (fold (\<lambda>(t, k). set_default t k) D R) t" for t
    by (simp add: get_session_for_thread_def rebuild_thread_index_def rebuild_index_def rd)
  show ?thesis
  proof (rule routedI)
    fix t k assume g: "get_session_for_thread t (rebuild_thread_index s) = Some k"
    have "dict_get R t = Some k \<or> (t, k) \<in> set D" using defaults_get(1) [OF g [unfolded route]] by blast
    then obtain e where "(k, e) \<in> set (entries s)" "thread_field e = Some t" using c unfolding collected_def by blast
    then show "claim_of (rebuild_thread_index s) k = Some t" using claim by simp
  next
    fix t k assume a: "claim_of (rebuild_thread_index s) k = Some t" "\<not> is_self_derived k t"
    then have k: "claim_of s k = Some t" by simp
    obtain e where "dict_get (entries s) k = Some e" "thread_field e = Some t"
      using a(1) by (auto simp: claim_of_def simp del: map_of_eq_Some_iff split: option.splits)
    then have "(k, e) \<in> set (entries s)" using dict_get_eq_Some [OF map_okD(1) [OF ok]] by simp
    then obtain j where j: "dict_get R t = Some j" using c a(2) \<open>thread_field e = Some t\<close> unfolding collected_def by blast
    then obtain e' where "(j, e') \<in> set (entries s)" "thread_field e' = Some t" "\<not> is_self_derived j t"
      using c unfolding collected_def by blast
    then have "j = k" using one_handoverD [OF r claim _ k a(2)] by blast
    then show "get_session_for_thread t (rebuild_thread_index s) = Some k"
      unfolding route using defaults_get(2) [OF j] by (simp only:)
  qed
qed

section \<open>Every method\<close>

lemma remove_entries_routed: "map_ok s \<Longrightarrow> routed s \<Longrightarrow> routed (fst (remove_entries ks why s))"
proof (induction ks arbitrary: s)
  case (Cons k ks)
  obtain v where v: "remove_entry k why s = (v, Inr ())" "map_ok v"
    using remove_entry_step [OF Cons.prems(1), of k why] by (metis prod.collapse)
  then have "routed v" using remove_entry_routed [OF Cons.prems, of k why] by simp
  then show ?case using Cons.IH [OF v(2)] v(1) by simp
qed simp

lemma claim_map:
  assumes "\<And>e. thread_field (f k e) = thread_field e"
  shows "claim_of (s\<lparr>entries := map (\<lambda>kv. (fst kv, f (fst kv) (snd kv))) (entries s)\<rparr>) k = claim_of s k"
  using assms by (simp add: claim_of_def dict_get_map split: option.split)

lemma prune_routed:
  assumes ok: "map_ok s" and r: "routed s"
  shows "routed (fst (prune_map f s))"
proof -
  let ?stale = "map fst (filter (\<lambda>kv. prune_entry f (snd kv) = CollectEntry) (entries s))"
  let ?f = "\<lambda>k e. if prune_entry f e = ResetSid then dict_set ''sid'' (JStr []) e else e"
  let ?s = "s\<lparr>entries := map (\<lambda>kv. (fst kv, ?f (fst kv) (snd kv))) (entries s)\<rparr>"
  have s: "map_ok ?s" by (rule map_entries_ok [OF ok]) (auto intro: entry_fits_field)
  have rs: "routed ?s"
    by (rule routed_frame [OF r claim_map]) simp_all
  obtain v where v: "remove_entries ?stale ''pruned_stale'' ?s = (v, Inr ())" "map_ok v"
    by (rule remove_entries_result [OF s])
  have rv: "routed v" using remove_entries_routed [OF s rs, of ?stale "''pruned_stale''"] v(1) by simp
  have owe: "routed (owe_write w)" if "routed w" for w using routed_frame [OF that, of "owe_write w"] by simp
  show ?thesis
  proof (cases "?stale = []")
    case False
    then have "fst (prune_map f s) = owe_write (rebuild_thread_index v)"
      unfolding prune_map_def Let_def v(1) by (simp only: if_True not_False_eq_True prod.case sum.case fst_conv)
    then show ?thesis using owe [OF rebuild_routed [OF v(2) routed_handovers [OF rv]]] by simp
  next
    case True
    have "fst (prune_map f s) = ?s \<or> fst (prune_map f s) = owe_write ?s"
      unfolding prune_map_def Let_def True by (simp only: if_False simp_thms split: if_split) simp
    then show ?thesis using rs owe [OF rs] by presburger
  qed
qed

text \<open>The two uses that would break a route: an unlink by an alias of the key, and a rebind away from a
  thread that is routed to another session.\<close>

definition leaves_own_thread :: "string \<Rightarrow> string \<Rightarrow> smap \<Rightarrow> bool" where
  "leaves_own_thread key t s \<longleftrightarrow>
     (case claim_of s (canonical_key key) of
        None \<Rightarrow> True
      | Some u \<Rightarrow> u = t \<or> get_session_for_thread u s = None \<or> get_session_for_thread u s = Some (canonical_key key))"

definition keeps_routes :: "map_action \<Rightarrow> smap \<Rightarrow> bool" where
  "keeps_routes a s \<longleftrightarrow>
     (case a of
        SlackLink k t c \<Rightarrow> leaves_own_thread k t s
      | ClearSlack k \<Rightarrow> canonical_key k = k
      | MirrorLink k (Some l) b r \<Rightarrow>
          channel_type l = JStr ''slack'' \<longrightarrow> leaves_own_thread k (case thread_id l of JStr t \<Rightarrow> t | _ \<Rightarrow> []) s
      | _ \<Rightarrow> True)"

fun run_routed :: "map_action list \<Rightarrow> smap \<Rightarrow> bool" where
  "run_routed [] s = True"
| "run_routed (a # acts) s = (keeps_routes a s \<and> run_routed acts (map_step a s))"

lemma slack_relink_routed:
  "map_ok s \<Longrightarrow> routed s \<Longrightarrow> leaves_own_thread k t s \<Longrightarrow> routed (fst (set_slack_link k t c s))"
  by (rule slack_link_routed) (auto simp: leaves_own_thread_def)

lemma mirror_link_routed:
  assumes ok: "map_ok s" and r: "routed s" and g: "keeps_routes (MirrorLink k lk b why) s"
  shows "routed (fst (set_mirror_link k lk b why s))"
proof (cases lk)
  case None
  then have "fst (set_mirror_link k lk b why s) = fst (clear_mirror_link k why s)"
    by (simp add: set_mirror_link_def case_prod_beta)
  then show ?thesis using clear_mirror_routed [OF ok r] by simp
next
  case (Some l)
  show ?thesis
  proof (cases "channel_type l = JStr ''slack''")
    case True
    then show ?thesis using slack_relink_routed [OF ok r] g Some by (simp add: set_mirror_link_def keeps_routes_def)
  next
    case False
    show ?thesis
      by (rule routed_frame [OF r])
        (use False Some in \<open>auto simp: set_mirror_link_def Let_def claim_ensure\<close>)
  qed
qed

lemma marker_routed: "map_ok s \<Longrightarrow> routed s \<Longrightarrow> name \<noteq> ''slack_thread_ts'' \<Longrightarrow> routed (fst (set_marker k name b s))"
  by (erule routed_frame) (auto simp: set_marker_def Let_def claim_entry_at split: option.split)

lemma get_sid_routed: "map_ok s \<Longrightarrow> routed s \<Longrightarrow> routed (fst (get_sid f g k s))"
proof -
  assume ok: "map_ok s" and r: "routed s"
  have "routed (fst (repair_or_remove_stale j s))" for j
  proof (cases "dict_get (entries s) j")
    case (Some e)
    then have c: "claim_of s j = thread_field e" by (simp add: claim_of_def)
    have "routed (owe_write (put_entry j (dict_set ''sid'' (JStr []) e) s))"
      by (rule routed_frame [OF r]) (simp_all add: c)
    then show ?thesis using Some r remove_entry_routed [OF ok r] by (simp add: repair_or_remove_stale_def)
  qed (simp add: repair_or_remove_stale_def remove_entry_routed [OF ok r])
  moreover have "fst (get_sid f g k s) = s \<or> (\<exists>j. fst (get_sid f g k s) = fst (repair_or_remove_stale j s))"
    by (auto simp: get_sid_def Let_def split: prod.split option.split) (metis fst_conv)+
  ultimately show ?thesis using r by metis
qed

lemma clear_at_routed:
  assumes "routed s"
  shows "routed (fst (clear_mirror_links_at l why s))"
  by (rule routed_frame [OF assms])
    (use claim_map [of "\<lambda>k e. if mirrors_at l False e then drop_mirror_fields e else e" _ s]
      in \<open>simp_all add: clear_mirror_links_at_def Let_def fold_note\<close>)

lemma map_step_routed:
  assumes ok: "map_ok s" and r: "routed s" and g: "keeps_routes a s"
  shows "routed (map_step a s)"
proof (cases a)
  case (SetSid k sid p c)
  then show ?thesis using ok
    by (intro routed_frame [OF r]) (auto simp: set_sid_def Let_def claim_entry_at claim_absent split: option.split)
next
  case (ClearSid k)
  then show ?thesis using ok
    by (intro routed_frame [OF r]) (auto simp: clear_sid_def claim_entry_at split: option.split)
next
  case (OwnLink k l)
  then show ?thesis using ok
    by (intro routed_frame [OF r]) (auto simp: set_link_def Let_def claim_entry_at claim_absent split: option.split)
next
  case (Flag k f b)
  then show ?thesis by (intro routed_frame [OF r]) (auto simp: set_flag_def Let_def claim_ensure split: json.split)
next
  case (Agent k v)
  then show ?thesis using ok by (intro routed_frame [OF r])
    (auto simp: set_agent_override_def set_override_def Let_def claim_ensure claim_entry_at split: option.split)
next
  case (Project k v)
  then show ?thesis using ok by (intro routed_frame [OF r])
    (auto simp: set_project_override_def set_override_def Let_def claim_ensure claim_entry_at split: option.split)
qed (use g in \<open>simp_all add: get_sid_routed [OF ok r] delete_entry_def remove_entry_routed [OF ok r] prune_routed [OF ok r]
      slack_relink_routed [OF ok r] clear_slack_routed [OF ok r] set_slack_paused_def marker_routed [OF ok r]
      mirror_link_routed [OF ok r] clear_mirror_routed [OF ok r] clear_at_routed [OF r] set_mirror_paused_def keeps_routes_def\<close>)

text \<open>A file that gives no thread away twice loads to a map whose index agrees with its entries.\<close>

lemma load_routed:
  assumes ok: "map_ok (load_map saved)" and one: "one_handover (load_map saved)"
  shows "routed (load_map saved)"
proof -
  have again: "rebuild_thread_index (load_map saved) = load_map saved"
    by (auto simp: load_map_def empty_map_def rebuild_thread_index_def rebuild_index_def
        split: option.split json.split prod.split)
  from rebuild_routed [OF ok one] show ?thesis unfolding again .
qed

text \<open>C23. A reply in a Slack thread reaches the session the thread was handed to: in a process that loaded
  a file in which no thread is handed to two sessions, after any methods that keep two rules, a
  thread is routed only to a session that is linked to it, and a session that was given another
  conversation's thread is the one it is routed to. The rules are those of \<open>keeps_routes\<close>: a Slack
  link is cleared by the canonical key, and no session is linked away from a thread that is
  routed to another.\<close>

theorem thread_replies_reach_their_session:
  assumes "map_ok (load_map saved)" "one_handover (load_map saved)" "run_routed acts (load_map saved)"
    and "s = fold map_step acts (load_map saved)"
  shows "(get_session_for_thread t s = Some k \<longrightarrow> fst (get_slack_link k s) = JStr t) \<and>
    (fst (get_slack_link k s) = JStr t \<and> t \<noteq> [] \<and> \<not> is_self_derived (canonical_key k) t \<longrightarrow>
       get_session_for_thread t s = Some (canonical_key k))"
proof -
  have "map_ok (fold map_step acts u) \<and> routed (fold map_step acts u)"
    if "map_ok u" "routed u" "run_routed acts u" for u
    using that by (induction acts arbitrary: u) (simp_all add: map_step_ok map_step_routed)
  then have ok: "map_ok s" and r: "routed s" using load_routed assms by blast+
  have link: "fst (get_slack_link k s) = JStr t \<longleftrightarrow> claim_of s (canonical_key k) = Some t" if "t \<noteq> []" for k t
    using that by (auto simp: get_slack_link_def claim_of_def entry_of_ok [OF ok] thread_is split: option.split)
  have ne: "claim_of s k = Some t \<Longrightarrow> t \<noteq> [] \<and> canonical_key k = k" for k t
    using map_okD(3) [OF ok, of k]
    by (auto simp: claim_of_def thread_field_def entry_fits_def simp del: map_of_eq_Some_iff split: option.splits json.splits if_splits)
  show ?thesis using routedD [OF r] link ne by metis
qed

definition handed_thread :: "map_action list" where
  "handed_thread =
     [SlackLink ''slack:1712.0001'' ''1712.0001'' (JStr ''C1''), SlackLink ''dashboard:a'' ''1712.0001'' (JStr ''C1''),
      SlackLink ''slack:1712.0001'' ''1712.0001'' (JStr ''C1''), SetSid ''dashboard:a'' ''s1'' [] []]"

lemma thread_replies_reach_their_session_witness:
  "get_session_for_thread ''1712.0001'' (fold map_step handed_thread empty_map) = Some ''dashboard:a''"
proof -
  have e: "load_map None = empty_map" by (simp add: load_map_def)
  have "map_ok (load_map None)" using map_run_ok [OF empty_run] by (simp add: e)
  moreover have "one_handover (load_map None)" by (simp add: one_handover_def claim_of_def empty_map_def e)
  moreover have "run_routed handed_thread (load_map None)" unfolding e by code_simp
  ultimately have "fst (get_slack_link ''dashboard:a'' (fold map_step handed_thread empty_map)) = JStr ''1712.0001'' \<and>
      ''1712.0001'' \<noteq> [] \<and> \<not> is_self_derived (canonical_key ''dashboard:a'') ''1712.0001'' \<longrightarrow>
    get_session_for_thread ''1712.0001'' (fold map_step handed_thread empty_map) = Some (canonical_key ''dashboard:a'')"
    using thread_replies_reach_their_session [of None handed_thread, OF _ _ _ refl] unfolding e by blast
  moreover have "fst (get_slack_link ''dashboard:a'' (fold map_step handed_thread empty_map)) = JStr ''1712.0001''"
    "\<not> is_self_derived (canonical_key ''dashboard:a'') ''1712.0001''" "canonical_key ''dashboard:a'' = ''dashboard:a''" by code_simp+
  ultimately show ?thesis by simp
qed

text \<open>Both exclusions are needed. An unlink by the bare timestamp, the spelling older callers use for a
  Slack conversation, leaves the route of the thread it unlinked; and the conversation a thread was
  handed over from takes the route away from its new session when it is linked elsewhere itself.\<close>

theorem unlink_by_alias_leaves_the_route:
  "let s = fold map_step [SlackLink ''1712.0001'' ''1712.0001'' (JStr ''C1''), ClearSlack ''1712.0001''] empty_map
   in fst (get_slack_link ''1712.0001'' s) = JNull \<and> get_session_for_thread ''1712.0001'' s = Some ''slack:1712.0001''"
  by code_simp

theorem rebind_takes_a_foreign_route:
  "let s = fold map_step (handed_thread @ [SlackLink ''slack:1712.0001'' ''1999.0002'' (JStr ''C1'')]) empty_map
   in fst (get_slack_link ''dashboard:a'' s) = JStr ''1712.0001'' \<and> get_session_for_thread ''1712.0001'' s = None"
  by code_simp

end
