(* ===== verification/Session_Generations.thy ===== *)
theory Session_Generations
  imports Session_Threads
begin

text \<open>
  The generations of a conversation: the counter each DM channel keeps per peer
  (\<open>messaging/conversation.py\<close>), seeded from the session map, and the clock that rotates it
  (\<open>should_rotate_generation\<close> of \<open>messaging/link.py\<close>). The Discord dispatcher
  (\<open>_scope_id\<close>, \<open>_session_key\<close>, \<open>_seed_gen\<close>) ties both to the map, for one agent and one setting of
  \<open>dm_scope\<close>.
\<close>

section \<open>Counters\<close>

text \<open>Times are seconds as rationals; the seconds since local midnight are an argument.\<close>

definition should_rotate_generation :: "(rat \<Rightarrow> int) \<Rightarrow> rat \<Rightarrow> rat \<Rightarrow> int \<Rightarrow> int \<Rightarrow> bool" where
  "should_rotate_generation local_seconds last_active now idle_minutes daily_reset_hour =
     (if last_active \<le> 0 then False
      else if idle_minutes > 0 \<and> now - last_active \<ge> of_int (idle_minutes * 60) then True
      else if 0 \<le> daily_reset_hour \<and> daily_reset_hour \<le> 23 then
        (let midnight = now - of_int (local_seconds now);
             boundary = midnight + of_int (daily_reset_hour * 3600);
             boundary = (if boundary > now then boundary - 86400 else boundary)
         in last_active < boundary \<and> boundary \<le> now)
      else False)"

record conv_entry =
  conv_gen :: nat
  awaiting_compact :: bool
  last_active :: rat

type_synonym conversations = "(string, conv_entry) dict"

text \<open>The seed may raise, before anything is stored.\<close>

definition conv_get :: "(string \<Rightarrow> int res) \<Rightarrow> string \<Rightarrow> conversations \<Rightarrow> conv_entry res" where
  "conv_get seed_fn key st =
     (case dict_get st key of Some e \<Rightarrow> Inr e
      | None \<Rightarrow> rbind (seed_fn key) (\<lambda>n. Inr \<lparr>conv_gen = nat (max 0 n), awaiting_compact = False, last_active = 0\<rparr>))"

definition bump_gen :: "(string \<Rightarrow> int res) \<Rightarrow> string \<Rightarrow> conversations \<Rightarrow> (conversations \<times> nat) res" where
  "bump_gen seed_fn key st =
     rbind (conv_get seed_fn key st) (\<lambda>e.
       Inr (dict_set key (e\<lparr>conv_gen := conv_gen e + 1, awaiting_compact := False\<rparr>) st, conv_gen e + 1))"

definition maybe_rotate ::
  "(string \<Rightarrow> int res) \<Rightarrow> (rat \<Rightarrow> int) \<Rightarrow> string \<Rightarrow> rat \<Rightarrow> int \<Rightarrow> int \<Rightarrow> conversations \<Rightarrow> (conversations \<times> bool) res" where
  "maybe_rotate seed_fn local_seconds key now idle_minutes daily_reset_hour st =
     rbind (conv_get seed_fn key st) (\<lambda>e.
       let rotate = should_rotate_generation local_seconds (last_active e) now idle_minutes daily_reset_hour;
           e = (if rotate then e\<lparr>conv_gen := conv_gen e + 1, awaiting_compact := False\<rparr> else e)
       in Inr (dict_set key (e\<lparr>last_active := now\<rparr>) st, rotate))"

definition current_gen :: "(string \<Rightarrow> int res) \<Rightarrow> string \<Rightarrow> conversations \<Rightarrow> (conversations \<times> nat) res" where
  "current_gen seed_fn key st = rbind (conv_get seed_fn key st) (\<lambda>e. Inr (dict_set key e st, conv_gen e))"

definition mark_awaiting :: "(string \<Rightarrow> int res) \<Rightarrow> string \<Rightarrow> bool \<Rightarrow> conversations \<Rightarrow> conversations res" where
  "mark_awaiting seed_fn key b st = rbind (conv_get seed_fn key st) (\<lambda>e. Inr (dict_set key (e\<lparr>awaiting_compact := b\<rparr>) st))"

definition is_awaiting :: "(string \<Rightarrow> int res) \<Rightarrow> string \<Rightarrow> conversations \<Rightarrow> (conversations \<times> bool) res" where
  "is_awaiting seed_fn key st = rbind (conv_get seed_fn key st) (\<lambda>e. Inr (dict_set key e st, awaiting_compact e))"

section \<open>The daily boundary\<close>

text \<open>A clock at a fixed offset from UTC, read in whole seconds as \<open>localtime\<close> does.\<close>

definition local_clock :: "int \<Rightarrow> rat \<Rightarrow> int" where
  "local_clock offset now = (\<lfloor>now\<rfloor> + offset) mod 86400"

definition reset_on :: "int \<Rightarrow> int \<Rightarrow> int \<Rightarrow> rat" where
  "reset_on offset hour day = of_int (day * 86400 + hour * 3600 - offset)"

text \<open>The code finds midnight by subtracting whole seconds from the time of the message, so the reset it
  compares with carries the fraction of that message's second.\<close>

definition reset_at :: "int \<Rightarrow> int \<Rightarrow> rat \<Rightarrow> int \<Rightarrow> rat" where
  "reset_at offset hour now day = reset_on offset hour day + frac now"

lemma reset_mono: "reset_at offset hour now d \<le> reset_at offset hour now d' \<longleftrightarrow> d \<le> d'"
  by (simp add: reset_at_def reset_on_def)

lemma last_reset:
  assumes "reset_at offset hour now m \<le> now" "now < reset_at offset hour now (m + 1)"
  shows "prev < reset_at offset hour now m \<longleftrightarrow>
    (\<exists>day. prev < reset_at offset hour now day \<and> reset_at offset hour now day \<le> now)"
proof
  assume "\<exists>day. prev < reset_at offset hour now day \<and> reset_at offset hour now day \<le> now"
  then obtain d where d: "prev < reset_at offset hour now d" "reset_at offset hour now d \<le> now" by blast
  then have "\<not> reset_at offset hour now (m + 1) \<le> reset_at offset hour now d" using assms(2) by linarith
  then have "d \<le> m" by (simp add: reset_mono)
  then have "reset_at offset hour now d \<le> reset_at offset hour now m" by (simp add: reset_mono)
  then show "prev < reset_at offset hour now m" using d(1) by linarith
qed (use assms(1) in blast)

text \<open>With the idle limit off, a message rotates the conversation exactly when one of those lies between
  the previous message and it.\<close>

lemma rotation_at_reset:
  assumes "0 < prev" "0 \<le> hour" "hour \<le> 23"
  shows "should_rotate_generation (local_clock offset) prev now 0 hour \<longleftrightarrow>
    (\<exists>day. prev < reset_at offset hour now day \<and> reset_at offset hour now day \<le> now)"
proof -
  let ?L = "\<lfloor>now\<rfloor> + offset" and ?B = "reset_at offset hour now"
  let ?D = "?L div 86400" and ?s = "?L mod 86400"
  have s: "0 \<le> ?s" "?s < 86400" by simp_all
  have L: "of_int ?L = of_int ?D * 86400 + (of_int ?s :: rat)"
    by (metis div_mult_mod_eq of_int_add of_int_mult of_int_numeral)
  have now: "now = of_int \<lfloor>now\<rfloor> + frac now" by (simp add: frac_def)
  have m: "now - of_int ?s + of_int (hour * 3600) = ?B ?D"
    using now L by (simp add: reset_at_def reset_on_def)
  have next_day: "?B (d + 1) = ?B d + 86400" for d by (simp add: reset_at_def reset_on_def algebra_simps)
  have hour: "0 \<le> (of_int (hour * 3600) :: rat)" "of_int (hour * 3600) \<le> (82800 :: rat)"
    using assms(2,3) by simp_all
  have s': "0 \<le> (of_int ?s :: rat)" "of_int ?s < (86400 :: rat)" using s by simp_all
  let ?b = "if ?B ?D > now then ?B ?D - 86400 else ?B ?D"
  have eq: "should_rotate_generation (local_clock offset) prev now 0 hour \<longleftrightarrow> prev < ?b \<and> ?b \<le> now"
    using assms unfolding should_rotate_generation_def Let_def local_clock_def m by simp
  show ?thesis
  proof (cases "?B ?D > now")
    case True
    have "?B (?D - 1) = ?B ?D - 86400" using next_day [of "?D - 1"] by simp
    moreover have "?B ?D - 86400 \<le> now" using m hour s' by linarith
    ultimately show ?thesis using eq True last_reset [of offset hour now "?D - 1" prev] by simp
  next
    case False
    have "now < ?B (?D + 1)" unfolding next_day using m hour s' by linarith
    then show ?thesis using eq False last_reset [of offset hour now ?D prev] by simp
  qed
qed

lemma rotation_idle:
  assumes "0 < prev"
  shows "should_rotate_generation clock prev now idle hour \<longleftrightarrow>
    0 < idle \<and> of_int (idle * 60) \<le> now - prev \<or> should_rotate_generation clock prev now 0 hour"
proof -
  have p: "\<not> prev \<le> 0" using assms by simp
  show ?thesis
    unfolding should_rotate_generation_def if_not_P [OF p]
    by (cases "0 < idle \<and> of_int (idle * 60) \<le> now - prev") (simp_all only: if_True if_False simp_thms less_irrefl)
qed

lemma reset_second:
  "reset_on offset hour day \<le> reset_at offset hour now day" "reset_at offset hour now day < reset_on offset hour day + 1"
  "reset_at offset hour now day \<le> now \<longleftrightarrow> reset_on offset hour day \<le> now"
proof -
  have "reset_on offset hour day \<le> now \<longleftrightarrow> reset_on offset hour day \<le> of_int \<lfloor>now\<rfloor>"
    unfolding reset_on_def by (simp add: le_floor_iff del: of_int_add of_int_diff of_int_mult)
  then show "reset_at offset hour now day \<le> now \<longleftrightarrow> reset_on offset hour day \<le> now"
    by (simp add: reset_at_def frac_def)
qed (simp_all add: reset_at_def frac_lt_1)

text \<open>C39. By a clock at a fixed offset from UTC, a message that arrives at or after a day's reset
  rotates the conversation when the previous message came before that reset; and a message
  rotates it only if the idle limit has passed, or a reset is not after it and the previous
  message came less than a second after that reset or earlier.\<close>

theorem daily_rotation_is_at_the_boundary:
  assumes "0 < prev" "0 \<le> hour" "hour \<le> 23"
  shows "(prev < reset_on offset hour day \<and> reset_on offset hour day \<le> now \<longrightarrow>
      should_rotate_generation (local_clock offset) prev now idle hour) \<and>
    (should_rotate_generation (local_clock offset) prev now idle hour \<longrightarrow>
      0 < idle \<and> of_int (idle * 60) \<le> now - prev \<or>
      (\<exists>day. reset_on offset hour day \<le> now \<and> prev < reset_on offset hour day + 1))"
proof -
  have "should_rotate_generation (local_clock offset) prev now idle hour \<longleftrightarrow>
      0 < idle \<and> of_int (idle * 60) \<le> now - prev \<or>
      (\<exists>day. prev < reset_at offset hour now day \<and> reset_on offset hour day \<le> now)"
    unfolding rotation_idle [OF assms(1), of _ now idle] rotation_at_reset [OF assms] reset_second(3) ..
  moreover have "prev < reset_on offset hour d \<Longrightarrow> prev < reset_at offset hour now d"
    "prev < reset_at offset hour now d \<Longrightarrow> prev < reset_on offset hour d + 1" for d
    using reset_second(1,2) [where offset = offset and hour = hour and day = d and now = now] by linarith+
  ultimately show ?thesis by metis
qed

lemma daily_rotation_is_at_the_boundary_witness:
  "should_rotate_generation (local_clock 3600) 100 (10800 + 1 / 2) 30 4"
proof -
  have "100 < reset_on 3600 4 0 \<and> reset_on 3600 4 0 \<le> 10800 + 1 / 2" by (simp add: reset_on_def)
  then show ?thesis using daily_rotation_is_at_the_boundary [of 100 4 3600 0 "10800 + 1 / 2" 30] by simp
qed

text \<open>The second is not idle: a message half a second after the reset is followed by a second rotation,
  when the next message arrives later within its own second.\<close>

theorem reset_repeats_within_its_second:
  "let reset = 14400 :: rat; first = reset + 1 / 2; second = reset + 60 + 3 / 4
   in should_rotate_generation (local_clock 0) 100 first 0 4 \<and> should_rotate_generation (local_clock 0) first second 0 4"
proof -
  have "\<lfloor>28801 / 2 :: rat\<rfloor> = 14400" "\<lfloor>57843 / 4 :: rat\<rfloor> = 14460" by (simp_all add: floor_eq_iff)
  then show ?thesis by (simp add: should_rotate_generation_def local_clock_def)
qed

section \<open>Counters over a seed\<close>

text \<open>What a dispatcher's seed owes the counters: it is at or past \<open>top\<close>, the highest generation that is
  stored for a peer. Then so is every counter that was at or past it before, and a new generation is
  beyond.\<close>

locale counter_seed =
  fixes seed :: "'s \<Rightarrow> string \<Rightarrow> int res" and top :: "'s \<Rightarrow> string \<Rightarrow> int" and peer :: "string \<Rightarrow> bool"
  assumes seed_covers: "peer k \<Longrightarrow> seed s k = Inr n \<Longrightarrow> top s k \<le> n"
begin

lemma get_covers:
  assumes "peer k" "\<And>e. dict_get st k = Some e \<Longrightarrow> top s k \<le> int (conv_gen e)" "conv_get (seed s) k st = Inr e"
  shows "top s k \<le> int (conv_gen e)"
proof (cases "dict_get st k")
  case (Some e')
  then show ?thesis using assms(2,3) by (simp add: conv_get_def)
next
  case None
  then obtain n where "seed s k = Inr n" "int (conv_gen e) = max 0 n"
    using assms(3) by (auto simp: conv_get_def res_simps)
  then show ?thesis using seed_covers [OF assms(1)] by fastforce
qed

lemma bump_beyond:
  assumes "peer k" "\<And>e. dict_get st k = Some e \<Longrightarrow> top s k \<le> int (conv_gen e)" "bump_gen (seed s) k st = Inr (c, n)"
  shows "top s k < int n"
proof -
  obtain e where "conv_get (seed s) k st = Inr e" "n = conv_gen e + 1" using assms(3) by (auto simp: bump_gen_def res_simps)
  then show ?thesis using get_covers [OF assms(1,2)] by fastforce
qed

lemma rotate_beyond:
  assumes "peer k" "\<And>e. dict_get st k = Some e \<Longrightarrow> top s k \<le> int (conv_gen e)"
    and "maybe_rotate (seed s) clock k now idle hour st = Inr (c, True)" "dict_get c k = Some e"
  shows "top s k < int (conv_gen e)"
proof -
  obtain e' where "conv_get (seed s) k st = Inr e'" "conv_gen e = conv_gen e' + 1"
    using assms(3,4) by (auto simp: maybe_rotate_def res_simps Let_def)
  then show ?thesis using get_covers [OF assms(1,2)] by fastforce
qed

end

section \<open>The Discord dispatcher\<close>

text \<open>\<open>seed_generation\<close>, and the dispatcher's address of a peer or a thread. A key that cannot be built
  raises before the counter is touched.\<close>

definition seed_generation :: "string \<Rightarrow> string \<Rightarrow> string \<Rightarrow> string \<Rightarrow> string \<Rightarrow> smap \<Rightarrow> int res" where
  "seed_generation channel agent user dm_scope chat s =
     rbind (build_dm_session_key channel agent user 0 dm_scope chat) (\<lambda>bucket. Inr (max_generation bucket s))"

definition scope_id :: "string \<Rightarrow> string \<Rightarrow> string" where
  "scope_id user thread = (if thread \<noteq> [] then ''thread:'' @ thread else ''user:'' @ user)"

definition remove_prefix :: "string \<Rightarrow> string \<Rightarrow> string" where
  "remove_prefix p s = (if starts_with s p then drop (length p) s else s)"

definition discord_seed :: "string \<Rightarrow> string \<Rightarrow> smap \<Rightarrow> string \<Rightarrow> int res" where
  "discord_seed agent dm_scope s sid =
     (if starts_with sid ''thread:''
      then seed_generation ''discord'' agent (remove_prefix ''thread:'' sid) ''per-channel-peer'' ''group'' s
      else seed_generation ''discord'' agent (remove_prefix ''user:'' sid) dm_scope ''direct'' s)"

definition discord_key :: "string \<Rightarrow> string \<Rightarrow> string \<Rightarrow> string \<Rightarrow> nat \<Rightarrow> string res" where
  "discord_key agent dm_scope user thread n =
     build_dm_session_key ''discord'' agent (if thread \<noteq> [] then thread else user) n
       (if thread \<noteq> [] then ''per-channel-peer'' else dm_scope) (if thread \<noteq> [] then ''group'' else ''direct'')"

section \<open>The highest generation\<close>

definition gen_of :: "string \<Rightarrow> string \<Rightarrow> int option" where
  "gen_of bucket key =
     (let prefix = bucket @ '':gen''; d = drop (length prefix) key
      in if key = bucket then Some 0
         else if starts_with key prefix \<and> d \<noteq> [] \<and> list_all is_digit d then Some (int (digits_val d 0)) else None)"

lemma drop_prefix: "drop (length p) (p @ d) = d"
  by simp

lemma gen_of_iff:
  "gen_of b k = Some v \<longleftrightarrow> k = b \<and> v = 0 \<or>
     (\<exists>d. k = b @ '':gen'' @ d \<and> d \<noteq> [] \<and> list_all is_digit d \<and> v = int (digits_val d 0))"
proof (cases "starts_with k (b @ '':gen'')")
  case True
  then obtain d where k: "k = (b @ '':gen'') @ d" by (auto simp: starts_with_iff)
  have drop: "drop (length (b @ '':gen'')) k = d" unfolding k by (rule drop_prefix)
  show ?thesis unfolding gen_of_def Let_def drop using True k by auto
next
  case False
  then have "k \<noteq> b @ '':gen'' @ d" for d using starts_with_append [of "b @ '':gen''" d] by auto
  then show ?thesis using False by (auto simp: gen_of_def Let_def)
qed

lemma best_le:
  "foldl (\<lambda>best d. if d \<noteq> [] \<and> list_all is_digit d then max best (int (digits_val d 0)) else best) x ds \<le> m \<longleftrightarrow>
     x \<le> m \<and> (\<forall>d \<in> set ds. d \<noteq> [] \<and> list_all is_digit d \<longrightarrow> int (digits_val d 0) \<le> m)"
  by (induction ds arbitrary: x) auto

lemma max_generation_le:
  "max_generation b s \<le> m \<longleftrightarrow> -1 \<le> m \<and>
     (\<forall>k v. dict_get (entries s) k \<noteq> None \<and> gen_of (canonical_key b) k = Some v \<longrightarrow> v \<le> m)"
proof -
  let ?b = "canonical_key b" let ?p = "?b @ '':gen''"
  let ?start = "if dict_get (entries s) ?b = None then -1 else 0 :: int"
  let ?ds = "map (\<lambda>kv. drop (length ?p) (fst kv)) (filter (\<lambda>kv. starts_with (fst kv) ?p) (entries s))"
  have ds: "d \<in> set ?ds \<longleftrightarrow> dict_get (entries s) (?p @ d) \<noteq> None" for d
  proof
    assume "d \<in> set ?ds"
    then obtain k e where k: "(k, e) \<in> set (entries s)" "starts_with k ?p" "d = drop (length ?p) k" by auto
    then have "k = ?p @ d" by (metis append_eq_conv_conj starts_with_iff)
    then show "dict_get (entries s) (?p @ d) \<noteq> None" using k(1) by (metis weak_map_of_SomeI option.distinct(1))
  next
    assume "dict_get (entries s) (?p @ d) \<noteq> None"
    then obtain e where "(?p @ d, e) \<in> set (entries s)" by (meson map_of_SomeD not_None_eq)
    moreover have "starts_with (?p @ d) ?p" "drop (length ?p) (?p @ d) = d"
      by (rule starts_with_append, rule drop_prefix)
    ultimately show "d \<in> set ?ds" by force
  qed
  have "max_generation b s \<le> m \<longleftrightarrow> ?start \<le> m \<and> (\<forall>d \<in> set ?ds. d \<noteq> [] \<and> list_all is_digit d \<longrightarrow> int (digits_val d 0) \<le> m)"
    unfolding max_generation_def Let_def best_le ..
  also have "\<dots> \<longleftrightarrow> ?start \<le> m \<and>
      (\<forall>d. dict_get (entries s) (?p @ d) \<noteq> None \<longrightarrow> d \<noteq> [] \<and> list_all is_digit d \<longrightarrow> int (digits_val d 0) \<le> m)"
    by (simp only: Ball_def ds)
  also have "\<dots> \<longleftrightarrow> -1 \<le> m \<and> (\<forall>k v. dict_get (entries s) k \<noteq> None \<and> gen_of ?b k = Some v \<longrightarrow> v \<le> m)" (is "?l \<longleftrightarrow> ?r")
  proof
    assume l: ?l
    show ?r
    proof (intro conjI allI impI)
      fix k v assume k: "dict_get (entries s) k \<noteq> None \<and> gen_of ?b k = Some v"
      then consider "k = ?b" "v = 0" | d where "k = ?p @ d" "d \<noteq> []" "list_all is_digit d" "v = int (digits_val d 0)"
        unfolding gen_of_iff by auto
      then show "v \<le> m" using l k by cases auto
    qed (use l in \<open>simp split: if_splits\<close>)
  next
    assume r: ?r
    have "?start \<le> m" using r gen_of_iff [of ?b ?b 0] by auto
    moreover have "int (digits_val d 0) \<le> m"
      if "dict_get (entries s) (?p @ d) \<noteq> None" "d \<noteq> []" "list_all is_digit d" for d
      using r that gen_of_iff [of ?b "?p @ d" "int (digits_val d 0)"] by simp
    ultimately show ?l by blast
  qed
  finally show ?thesis .
qed

lemma max_generation_bounds:
  "-1 \<le> max_generation b s"
  "dict_get (entries s) k \<noteq> None \<Longrightarrow> gen_of (canonical_key b) k = Some v \<Longrightarrow> v \<le> max_generation b s"
  using max_generation_le [of b s "max_generation b s"] by blast+

section \<open>Discord keys\<close>

lemma legacy_digit: "is_legacy_slack_key key \<Longrightarrow> key \<noteq> [] \<and> is_digit (hd key)"
proof -
  assume "is_legacy_slack_key key"
  then obtain h t where h: "partition_at (CHR ''.'') key = (h, True, t)" "list_all is_digit h" "1 \<le> length h"
    by (auto simp: is_legacy_slack_key_def digit_run_def split: prod.splits)
  from partition_at_found [OF h(1)] h(2,3) show ?thesis by (cases h) auto
qed

lemma split_on_last: "c \<notin> set v \<Longrightarrow> split_on c (u @ c # v) = split_on c u @ [v]"
  by (induction u) (auto split: list.splits)

definition discord_bucket :: "string \<Rightarrow> string \<Rightarrow> string \<Rightarrow> string" where
  "discord_bucket agent user thread =
     join_with (CHR '':'') [''discord'', agent, if thread \<noteq> [] then ''group'' else ''direct'', if thread \<noteq> [] then thread else user]"

text \<open>Discord's identifiers are runs of digits.\<close>

definition discord_ids :: "string \<Rightarrow> string \<Rightarrow> bool" where
  "discord_ids user thread \<longleftrightarrow> user \<noteq> [] \<and> list_all is_digit user \<and> list_all is_digit thread"

lemma digits_no_colon: "list_all is_digit s \<Longrightarrow> CHR '':'' \<notin> set s"
  by (auto simp: list_all_iff is_digit_def)

lemma discord_key_eq:
  assumes "dm_scope \<noteq> ''unified''" "discord_ids user thread"
  shows "discord_key agent dm_scope user thread n =
     (if CHR '':'' \<in> set agent then Inl ValueError else Inr (discord_bucket agent user thread @ gen_text n))"
  using assms digits_no_colon [of user] digits_no_colon [of thread]
  by (auto simp: discord_key_def build_dm_session_key_def discord_ids_def discord_bucket_def assert_colon_free_def ensure_def rbind_def)

lemma discord_canonical [simp]: "canonical_key (discord_bucket agent user thread @ t) = discord_bucket agent user thread @ t"
  using legacy_digit [of "discord_bucket agent user thread @ t"]
  by (auto simp: canonical_key_def discord_bucket_def is_digit_def)

lemma discord_bucket_canonical [simp]: "canonical_key (discord_bucket agent user thread) = discord_bucket agent user thread"
  using discord_canonical [of agent user thread "[]"] by simp

lemma discord_split:
  assumes "CHR '':'' \<notin> set agent" "discord_ids user thread"
  shows "split_on (CHR '':'') (discord_bucket agent user thread) =
    [''discord'', agent, if thread \<noteq> [] then ''group'' else ''direct'', if thread \<noteq> [] then thread else user]"
  unfolding discord_bucket_def
  by (rule split_join) (use assms digits_no_colon in \<open>auto simp: discord_ids_def\<close>)

lemma gen_of_self: "gen_of b (b @ gen_text n) = Some (int n)"
  using decimal_is_digits [of n] by (simp add: gen_of_iff gen_text_def)

text \<open>A key of one conversation is no generation of another.\<close>

lemma gen_of_other:
  assumes "CHR '':'' \<notin> set agent" "discord_ids u t" "discord_ids u' t'"
    and "gen_of (discord_bucket agent u' t') (discord_bucket agent u t @ gen_text n) = Some v"
  shows "scope_id u' t' = scope_id u t \<and> v = int n"
proof -
  let ?c = "CHR '':''"
  from assms(4) have "\<exists>d. list_all is_digit d \<and> v = int (digits_val d 0) \<and>
      discord_bucket agent u t @ gen_text n = discord_bucket agent u' t' @ (if d = [] then [] else '':gen'' @ d)"
    unfolding gen_of_iff
  proof (elim disjE exE conjE)
    assume "discord_bucket agent u t @ gen_text n = discord_bucket agent u' t'" "v = 0"
    then show ?thesis by (intro exI [of _ "[]"]) simp
  next
    fix d assume "discord_bucket agent u t @ gen_text n = discord_bucket agent u' t' @ '':gen'' @ d" "d \<noteq> []"
      "list_all is_digit d" "v = int (digits_val d 0)"
    then show ?thesis by (intro exI [of _ d]) simp
  qed
  then obtain d where d: "list_all is_digit d" "v = int (digits_val d 0)"
    "discord_bucket agent u t @ gen_text n = discord_bucket agent u' t' @ (if d = [] then [] else '':gen'' @ d)" by blast
  have split: "split_on ?c (discord_bucket agent x y @ (if w = [] then [] else '':gen'' @ w)) =
      [''discord'', agent, if y \<noteq> [] then ''group'' else ''direct'', if y \<noteq> [] then y else x] @ (if w = [] then [] else [''gen'' @ w])"
    if "discord_ids x y" "list_all is_digit w" for x y w
    using discord_split [OF assms(1) that(1)] digits_no_colon [OF that(2)] split_on_last [of ?c "''gen'' @ w" "discord_bucket agent x y"]
    by simp
  let ?w = "if n = 0 then [] else decimal n"
  have g: "gen_text n = (if ?w = [] then [] else '':gen'' @ ?w)" "list_all is_digit ?w" "digits_val ?w 0 = n"
    using decimal_is_digits by (simp_all add: gen_text_def)
  have "split_on ?c (discord_bucket agent u t @ (if ?w = [] then [] else '':gen'' @ ?w)) =
      split_on ?c (discord_bucket agent u' t' @ (if d = [] then [] else '':gen'' @ d))"
    using d(3) g(1) by argo
  note this [unfolded split [OF assms(2) g(2)] split [OF assms(3) d(1)]]
  then have "?w = d \<and> (if t \<noteq> [] then t = t' else t' = [] \<and> u = u')"
    by (cases "t = []"; cases "t' = []"; cases "d = []"; cases "n = 0") simp_all
  then show ?thesis using d(2) g(3) by (auto simp: scope_id_def)
qed

section \<open>Runs of the dispatcher\<close>

record dm_desk =
  dm_map :: smap
  dm_convs :: conversations

definition seed_from :: "string \<Rightarrow> string \<Rightarrow> dm_desk \<Rightarrow> string \<Rightarrow> int res" where
  "seed_from agent dm_scope w = discord_seed agent dm_scope (dm_map w)"

text \<open>A turn writes the session it ran in, under the key it was given when its message arrived; every other
  method of the map is admitted as long as it creates no later generation of any conversation.\<close>

inductive dm_run :: "string \<Rightarrow> string \<Rightarrow> (rat \<Rightarrow> int) \<Rightarrow> dm_desk \<Rightarrow> bool" for agent dm_scope clock where
  dm_start: "map_ok s \<Longrightarrow> dm_run agent dm_scope clock \<lparr>dm_map = s, dm_convs = []\<rparr>"
| dm_new: "dm_run agent dm_scope clock w \<Longrightarrow> discord_ids u t \<Longrightarrow>
    bump_gen (seed_from agent dm_scope w) (scope_id u t) (dm_convs w) = Inr (c, n) \<Longrightarrow>
    dm_run agent dm_scope clock (w\<lparr>dm_convs := c\<rparr>)"
| dm_arrives: "dm_run agent dm_scope clock w \<Longrightarrow> discord_ids u t \<Longrightarrow>
    maybe_rotate (seed_from agent dm_scope w) clock (scope_id u t) now idle hour (dm_convs w) = Inr (c, rotated) \<Longrightarrow>
    dm_run agent dm_scope clock (w\<lparr>dm_convs := c\<rparr>)"
| dm_turn: "dm_run agent dm_scope clock w \<Longrightarrow> discord_ids u t \<Longrightarrow>
    dict_get (dm_convs w) (scope_id u t) = Some e \<Longrightarrow> n \<le> conv_gen e \<Longrightarrow> discord_key agent dm_scope u t n = Inr key \<Longrightarrow>
    dm_run agent dm_scope clock (w\<lparr>dm_map := set_sid key sid provider cwd (dm_map w)\<rparr>)"
| dm_elsewhere: "dm_run agent dm_scope clock w \<Longrightarrow>
    (\<And>b. max_generation b (map_step a (dm_map w)) \<le> max_generation b (dm_map w)) \<Longrightarrow>
    dm_run agent dm_scope clock (w\<lparr>dm_map := map_step a (dm_map w)\<rparr>)"

text \<open>Every counter is at or past the generations the map holds.\<close>

definition caught_up :: "string \<Rightarrow> dm_desk \<Rightarrow> bool" where
  "caught_up agent w \<longleftrightarrow>
     (\<forall>u t e. discord_ids u t \<and> dict_get (dm_convs w) (scope_id u t) = Some e \<longrightarrow>
        CHR '':'' \<notin> set agent \<and> max_generation (discord_bucket agent u t) (dm_map w) \<le> int (conv_gen e))"

lemma discord_seed_eq:
  assumes "dm_scope \<noteq> ''unified''" "discord_ids u t"
  shows "discord_seed agent dm_scope s (scope_id u t) =
    (if CHR '':'' \<in> set agent then Inl ValueError else Inr (max_generation (discord_bucket agent u t) s))"
  using discord_key_eq [OF assms, of agent 0] assms
  by (auto simp: discord_seed_def seed_generation_def scope_id_def remove_prefix_def discord_key_def gen_text_def rbind_def)

definition bucket_at :: "string \<Rightarrow> string \<Rightarrow> string" where
  "bucket_at agent k = (if starts_with k ''thread:'' then discord_bucket agent [] (remove_prefix ''thread:'' k)
     else discord_bucket agent (remove_prefix ''user:'' k) [])"

lemma bucket_at_scope [simp]: "bucket_at agent (scope_id u t) = discord_bucket agent u t"
  by (simp add: bucket_at_def scope_id_def remove_prefix_def discord_bucket_def)

interpretation dc: counter_seed "discord_seed agent dm_scope" "\<lambda>s k. max_generation (bucket_at agent k) s"
    "\<lambda>k. dm_scope \<noteq> ''unified'' \<and> (\<exists>u t. discord_ids u t \<and> k = scope_id u t)" for agent dm_scope
  by unfold_locales (auto simp: discord_seed_eq split: if_splits)

lemma conv_get_caught_up:
  assumes "caught_up agent w" "dm_scope \<noteq> ''unified''" "discord_ids u t"
    and "conv_get (seed_from agent dm_scope w) (scope_id u t) (dm_convs w) = Inr e"
  shows "CHR '':'' \<notin> set agent \<and> max_generation (discord_bucket agent u t) (dm_map w) \<le> int (conv_gen e)"
proof
  show "CHR '':'' \<notin> set agent"
    using assms discord_seed_eq [OF assms(2,3), of agent "dm_map w"]
    by (auto simp: conv_get_def caught_up_def seed_from_def rbind_def split: option.splits if_splits)
  show "max_generation (discord_bucket agent u t) (dm_map w) \<le> int (conv_gen e)"
    using dc.get_covers [of dm_scope "scope_id u t" "dm_convs w" agent "dm_map w" e] assms
    by (auto simp: caught_up_def seed_from_def)
qed

lemma scope_bucket: "scope_id u t = scope_id u' t' \<Longrightarrow> discord_bucket agent u t = discord_bucket agent u' t'"
  by (auto simp: scope_id_def discord_bucket_def split: if_splits)

lemma caught_up_update:
  assumes "caught_up agent w" "CHR '':'' \<notin> set agent"
    and "max_generation (discord_bucket agent u t) (dm_map w) \<le> int (conv_gen e)"
  shows "caught_up agent (w\<lparr>dm_convs := dict_set (scope_id u t) e (dm_convs w)\<rparr>)"
  unfolding caught_up_def
proof (intro allI impI)
  fix u' t' e' assume a: "discord_ids u' t' \<and> dict_get (dm_convs (w\<lparr>dm_convs := dict_set (scope_id u t) e (dm_convs w)\<rparr>)) (scope_id u' t') = Some e'"
  show "CHR '':'' \<notin> set agent \<and>
      max_generation (discord_bucket agent u' t') (dm_map (w\<lparr>dm_convs := dict_set (scope_id u t) e (dm_convs w)\<rparr>)) \<le> int (conv_gen e')"
  proof (cases "scope_id u' t' = scope_id u t")
    case True
    then show ?thesis using a assms(2,3) scope_bucket [OF True] by simp
  next
    case False
    then show ?thesis using a assms(1,2) by (simp add: caught_up_def)
  qed
qed

lemma set_sid_keys:
  "dict_get (entries (set_sid key sid provider cwd s)) j \<noteq> None \<longleftrightarrow> j = canonical_key key \<or> dict_get (entries s) j \<noteq> None"
  by (simp add: set_sid_def Let_def owe_write_def put_entry_def)

lemma turn_caught_up:
  assumes "caught_up agent w" "dm_scope \<noteq> ''unified''" "discord_ids u t" "dict_get (dm_convs w) (scope_id u t) = Some e"
    and "n \<le> conv_gen e" "discord_key agent dm_scope u t n = Inr key"
  shows "caught_up agent (w\<lparr>dm_map := set_sid key sid provider cwd (dm_map w)\<rparr>)"
  unfolding caught_up_def
proof (intro allI impI)
  fix u' t' e'
  assume a: "discord_ids u' t' \<and> dict_get (dm_convs (w\<lparr>dm_map := set_sid key sid provider cwd (dm_map w)\<rparr>)) (scope_id u' t') = Some e'"
  have agent: "CHR '':'' \<notin> set agent" and key: "key = discord_bucket agent u t @ gen_text n"
    using assms(6) unfolding discord_key_eq [OF assms(2,3)] by (simp_all split: if_splits)
  have old: "max_generation (discord_bucket agent u' t') (dm_map w) \<le> int (conv_gen e')"
    using assms(1) a by (simp add: caught_up_def)
  have "v \<le> int (conv_gen e')"
    if "gen_of (discord_bucket agent u' t') (discord_bucket agent u t @ gen_text n) = Some v" for v
    using gen_of_other [OF agent assms(3) conjunct1 [OF a] that] assms(4,5) a by simp
  then have "max_generation (discord_bucket agent u' t') (set_sid key sid provider cwd (dm_map w)) \<le> int (conv_gen e')"
    using old unfolding max_generation_le set_sid_keys key discord_canonical discord_bucket_canonical by blast
  then show "CHR '':'' \<notin> set agent \<and> max_generation (discord_bucket agent u' t')
      (dm_map (w\<lparr>dm_map := set_sid key sid provider cwd (dm_map w)\<rparr>)) \<le> int (conv_gen e')"
    using agent by simp
qed

lemma caught_up_other:
  assumes "caught_up agent w" and le: "\<And>b. max_generation b s \<le> max_generation b (dm_map w)"
  shows "caught_up agent (w\<lparr>dm_map := s\<rparr>)"
  unfolding caught_up_def
proof (intro allI impI)
  fix u t e assume a: "discord_ids u t \<and> dict_get (dm_convs (w\<lparr>dm_map := s\<rparr>)) (scope_id u t) = Some e"
  then have "CHR '':'' \<notin> set agent \<and> max_generation (discord_bucket agent u t) (dm_map w) \<le> int (conv_gen e)"
    using assms(1) by (simp add: caught_up_def)
  then show "CHR '':'' \<notin> set agent \<and> max_generation (discord_bucket agent u t) (dm_map (w\<lparr>dm_map := s\<rparr>)) \<le> int (conv_gen e)"
    using le [of "discord_bucket agent u t"] by simp
qed

lemma dm_run_caught_up: "dm_run agent dm_scope clock w \<Longrightarrow> dm_scope \<noteq> ''unified'' \<Longrightarrow> caught_up agent w"
proof (induction rule: dm_run.induct)
  case (dm_new w u t c n)
  then obtain e where e: "conv_get (seed_from agent dm_scope w) (scope_id u t) (dm_convs w) = Inr e"
    "c = dict_set (scope_id u t) (e\<lparr>conv_gen := conv_gen e + 1, awaiting_compact := False\<rparr>) (dm_convs w)"
    by (auto simp: bump_gen_def res_simps)
  show ?case unfolding e(2)
    by (rule caught_up_update) (use conv_get_caught_up [OF dm_new.IH _ dm_new.hyps(2) e(1)] dm_new in auto)
next
  case (dm_arrives w u t now idle hour c rotated)
  then obtain e e' where e: "conv_get (seed_from agent dm_scope w) (scope_id u t) (dm_convs w) = Inr e"
    "c = dict_set (scope_id u t) e' (dm_convs w)" "conv_gen e \<le> conv_gen e'"
    by (auto simp: maybe_rotate_def res_simps Let_def)
  show ?case unfolding e(2)
    by (rule caught_up_update) (use conv_get_caught_up [OF dm_arrives.IH _ dm_arrives.hyps(2) e(1)] dm_arrives e(3) in auto)
next
  case (dm_turn w u t e n key sid provider cwd)
  show ?case by (rule turn_caught_up [OF dm_turn.IH [OF dm_turn.prems] dm_turn.prems dm_turn.hyps(2-5)])
next
  case (dm_elsewhere w a)
  show ?case by (rule caught_up_other [OF dm_elsewhere.IH [OF dm_elsewhere.prems] dm_elsewhere.hyps(2)])
qed (simp add: caught_up_def)

text \<open>C33. A new conversation of a Discord peer is a fresh one, under every \<open>dm_scope\<close> but \<open>unified\<close>: for
  well-formed ids, whatever was persisted before the restart, and whatever ran since without
  storing a generation past the peer's counter, the session key that \<open>/new\<close> or a rotation by the
  clock moves a peer or a thread to has no entry in the map, so no older session is resumed under
  it.\<close>

theorem new_generation_is_unused:
  assumes "dm_run agent dm_scope clock w" "dm_scope \<noteq> ''unified''" "discord_ids u t"
    and "bump_gen (seed_from agent dm_scope w) (scope_id u t) (dm_convs w) = Inr (c, n) \<or>
      maybe_rotate (seed_from agent dm_scope w) clock (scope_id u t) now idle hour (dm_convs w) = Inr (c, True) \<and>
      (\<exists>e. dict_get c (scope_id u t) = Some e \<and> n = conv_gen e)"
    and "discord_key agent dm_scope u t n = Inr key"
  shows "dict_get (entries (dm_map w)) key = None"
proof -
  have peer: "dm_scope \<noteq> ''unified'' \<and> (\<exists>x y. discord_ids x y \<and> scope_id u t = scope_id x y)" using assms(2,3) by blast
  have covered: "max_generation (bucket_at agent (scope_id u t)) (dm_map w) \<le> int (conv_gen e)"
    if "dict_get (dm_convs w) (scope_id u t) = Some e" for e
    using dm_run_caught_up [OF assms(1,2)] assms(3) that by (simp add: caught_up_def)
  have "max_generation (discord_bucket agent u t) (dm_map w) < int n"
    using dc.bump_beyond [OF peer covered] dc.rotate_beyond [OF peer covered] assms(4) unfolding seed_from_def by fastforce
  moreover have "key = discord_bucket agent u t @ gen_text n"
    using assms(5) unfolding discord_key_eq [OF assms(2,3)] by (simp split: if_splits)
  ultimately have v: "max_generation (discord_bucket agent u t) (dm_map w) < int n"
    "gen_of (canonical_key (discord_bucket agent u t)) key = Some (int n)"
    using gen_of_self [of "discord_bucket agent u t" n] by simp_all
  show ?thesis
  proof (rule ccontr)
    assume "dict_get (entries (dm_map w)) key \<noteq> None"
    from max_generation_bounds(2) [OF this v(2)] v(1) show False by simp
  qed
qed

definition one_peer :: conversations where
  "one_peer = [(''user:1'', \<lparr>conv_gen = 0, awaiting_compact = False, last_active = 0\<rparr>)]"

lemma new_generation_is_unused_witness:
  "dict_get (entries (set_sid ''discord:a:direct:1'' ''s1'' [] [] empty_map)) ''discord:a:direct:1:gen1'' = None"
proof -
  let ?w0 = "\<lparr>dm_map = empty_map, dm_convs = []\<rparr>" and ?w1 = "\<lparr>dm_map = empty_map, dm_convs = one_peer\<rparr>"
  let ?w2 = "\<lparr>dm_map = set_sid ''discord:a:direct:1'' ''s1'' [] [] empty_map, dm_convs = one_peer\<rparr>"
  have ids: "discord_ids ''1'' []" by code_simp
  have "dm_run ''a'' ''main'' (local_clock 0) ?w0" by (rule dm_start) (simp add: map_ok_def empty_map_def)
  moreover have "maybe_rotate (seed_from ''a'' ''main'' ?w0) (local_clock 0) (scope_id ''1'' []) 0 0 0 (dm_convs ?w0)
      = Inr (one_peer, False)" by code_simp
  ultimately have "dm_run ''a'' ''main'' (local_clock 0) (?w0\<lparr>dm_convs := one_peer\<rparr>)" by (rule dm_arrives [OF _ ids])
  then have w1: "dm_run ''a'' ''main'' (local_clock 0) ?w1" by simp
  have "dict_get (dm_convs ?w1) (scope_id ''1'' []) = Some \<lparr>conv_gen = 0, awaiting_compact = False, last_active = 0\<rparr>"
    "discord_key ''a'' ''main'' ''1'' [] 0 = Inr ''discord:a:direct:1''" by code_simp+
  from dm_turn [OF w1 ids this(1) _ this(2), of "''s1''" "[]" "[]"]
  have w2: "dm_run ''a'' ''main'' (local_clock 0) ?w2" by simp
  have "bump_gen (seed_from ''a'' ''main'' ?w2) (scope_id ''1'' []) (dm_convs ?w2) =
      Inr ([(''user:1'', \<lparr>conv_gen = 1, awaiting_compact = False, last_active = 0\<rparr>)], 1)"
    "discord_key ''a'' ''main'' ''1'' [] 1 = Inr ''discord:a:direct:1:gen1''" by code_simp+
  from new_generation_is_unused [OF w2 _ ids disjI1 [OF this(1)] this(2)] show ?thesis by simp
qed

text \<open>With \<open>dm_scope = unified\<close> the peers share one bucket and keep a counter each: \<open>/new\<close> by the one,
  whose counter was seeded before, gives the key the other's new conversation already runs under.\<close>

theorem unified_new_resumes_another_conversation:
  "let seed = discord_seed ''a'' ''unified''; s0 = set_sid ''unified:a'' ''s0'' [] [] empty_map in
   case (current_gen (seed s0) (scope_id ''1'' []) [], current_gen (seed s0) (scope_id ''2'' []) []) of
     (Inr (c1, _), Inr (c2, _)) \<Rightarrow>
       (case bump_gen (seed s0) (scope_id ''1'' []) (c1 @ c2) of
          Inr (c, n) \<Rightarrow>
            (let s1 = set_sid ''unified:a:gen1'' ''s1'' [] [] s0 in
             discord_key ''a'' ''unified'' ''1'' [] n = Inr ''unified:a:gen1'' \<and>
             (case bump_gen (seed s1) (scope_id ''2'' []) c of
                Inr (_, m) \<Rightarrow> discord_key ''a'' ''unified'' ''2'' [] m = Inr ''unified:a:gen1'' \<and>
                  snd (get_sid (\<lambda>sid. True) (\<lambda>sid. 100) ''unified:a:gen1'' s1) = Inr (JStr ''s1'')
              | Inl _ \<Rightarrow> False))
        | Inl _ \<Rightarrow> False)
   | _ \<Rightarrow> False"
  by code_simp

end
