(* ===== verification/Session_Flush.thy ===== *)
theory Session_Flush
  imports Prelude
begin

text \<open>
  How the session map reaches its file (\<open>session_map.py\<close>: \<open>batched_save\<close>, \<open>_save\<close>, the deferred flush
  task, \<open>flush\<close>, \<open>aflush\<close>, \<open>aclose\<close>). The content of the map is represented by the number of
  mutations so far, so \<open>version\<close> is what is in memory and \<open>on_disk\<close> what the file holds. The guarded
  methods run under the map lock and are atomic; a write by a worker thread is a step of its own,
  with success or failure as its outcome, and a coroutine is cut at its awaits. A batch holds the
  lock, so only its own mutations, the writes of workers and the coroutines' bookkeeping without
  the lock run while it is open.
\<close>

section \<open>State\<close>

text \<open>A job is a serialized snapshot, its content and its ticket, handed to a worker, and whether the worker
  is done with it and succeeded.\<close>

record job =
  payload :: nat
  ticket :: nat
  result :: "bool option"

datatype flush_phase = NoTask | Created | Debouncing | Writing job | Ended

datatype caller_phase = Quiet | Awaiting job | Returned | Raised

datatype close_phase = NotClosing | Reaping nat | ReadyToFlush | Flushing | Closed | CloseFailed

record map_file =
  version :: nat
  on_disk :: nat
  batch_depth :: nat
  batch_dirty :: bool
  dirty :: bool
  flush_task :: "nat option"
  snapshot_seq :: nat
  written_seq :: nat
  tasks :: "nat \<Rightarrow> flush_phase"
  next_task :: nat
  callers :: "nat \<Rightarrow> caller_phase"
  closers :: "nat \<Rightarrow> close_phase"
  orphans :: "job list"
  floor_of :: "nat \<Rightarrow> nat"

text \<open>\<open>callers\<close> are the coroutines in \<open>aflush\<close>, \<open>closers\<close> those in \<open>aclose\<close>, which call \<open>aflush\<close> under their
  own number; \<open>orphans\<close> are jobs whose coroutine was cancelled. \<open>floor_of\<close> is history: the version in
  memory when the caller or closer came in.\<close>

definition loaded_file :: "nat \<Rightarrow> map_file" where
  "loaded_file v = \<lparr>version = v, on_disk = v, batch_depth = 0, batch_dirty = False, dirty = False, flush_task = None,
     snapshot_seq = 0, written_seq = 0, tasks = (\<lambda>_. NoTask), next_task = 0, callers = (\<lambda>_. Quiet),
     closers = (\<lambda>_. NotClosing), orphans = [], floor_of = (\<lambda>_. 0)\<rparr>"

section \<open>Writing\<close>

definition serialize :: "map_file \<Rightarrow> map_file \<times> job" where
  "serialize s = (s\<lparr>snapshot_seq := snapshot_seq s + 1\<rparr>,
     \<lparr>payload = version s, ticket = snapshot_seq s + 1, result = None\<rparr>)"

text \<open>\<open>_write_payload\<close>: a stale ticket is dropped, which counts as success.\<close>

definition write_payload :: "job \<Rightarrow> bool \<Rightarrow> map_file \<Rightarrow> map_file \<times> bool" where
  "write_payload j ok s =
     (if ticket j \<le> written_seq s then (s, True)
      else if ok then (s\<lparr>on_disk := payload j, written_seq := ticket j\<rparr>, True)
      else (s, False))"

definition write_inline :: "bool \<Rightarrow> map_file \<Rightarrow> map_file \<times> bool" where
  "write_inline ok s = (case serialize s of (s, j) \<Rightarrow> write_payload j ok s)"

definition live_task :: "flush_phase \<Rightarrow> bool" where
  "live_task p \<longleftrightarrow> (case p of Created \<Rightarrow> True | Debouncing \<Rightarrow> True | Writing j \<Rightarrow> True | _ \<Rightarrow> False)"

text \<open>\<open>_save\<close> after a mutation; \<open>on_loop\<close> is whether the thread runs the event loop.\<close>

definition save_owed :: "bool \<Rightarrow> bool \<Rightarrow> map_file \<Rightarrow> map_file \<times> bool" where
  "save_owed on_loop ok s =
     (if batch_depth s > 0 then (s\<lparr>batch_dirty := True\<rparr>, True)
      else if \<not> on_loop then write_inline ok s
      else let s = s\<lparr>dirty := True\<rparr>
           in (if (case flush_task s of None \<Rightarrow> True | Some t \<Rightarrow> \<not> live_task (tasks s t))
               then s\<lparr>flush_task := Some (next_task s), tasks := (tasks s)(next_task s := Created), next_task := next_task s + 1\<rparr>
               else s, True))"

definition mutate :: "bool \<Rightarrow> bool \<Rightarrow> map_file \<Rightarrow> map_file \<times> bool" where
  "mutate on_loop ok s = save_owed on_loop ok (s\<lparr>version := version s + 1\<rparr>)"

definition batch_enter :: "map_file \<Rightarrow> map_file" where
  "batch_enter s = s\<lparr>batch_depth := batch_depth s + 1\<rparr>"

definition batch_exit :: "bool \<Rightarrow> map_file \<Rightarrow> map_file \<times> bool" where
  "batch_exit ok s =
     (let s = s\<lparr>batch_depth := batch_depth s - 1\<rparr>
      in if batch_depth s = 0 \<and> batch_dirty s then write_inline ok (s\<lparr>batch_dirty := False, dirty := False\<rparr>) else (s, True))"

section \<open>Claiming\<close>

text \<open>\<open>who\<close> is the current task, \<open>None\<close> outside one.\<close>

definition retire_task :: "nat option \<Rightarrow> map_file \<Rightarrow> map_file" where
  "retire_task who s = (if who \<noteq> None \<and> flush_task s = who then s\<lparr>flush_task := None\<rparr> else s)"

definition take_pending_snapshot :: "nat \<Rightarrow> map_file \<Rightarrow> map_file \<times> job option" where
  "take_pending_snapshot t s =
     (if \<not> dirty s then (retire_task (Some t) s, None)
      else case serialize (s\<lparr>dirty := False\<rparr>) of (s, j) \<Rightarrow> (s, Some j))"

definition restore_dirty :: "nat option \<Rightarrow> map_file \<Rightarrow> map_file" where
  "restore_dirty who s = retire_task who (s\<lparr>dirty := True\<rparr>)"

definition claim_for_flush :: "map_file \<Rightarrow> map_file \<times> job option" where
  "claim_for_flush s =
     (if batch_depth s > 0 \<or> (\<not> dirty s \<and> snapshot_seq s \<le> written_seq s) then (s, None)
      else case serialize (s\<lparr>dirty := False\<rparr>) of (s, j) \<Rightarrow> (s, Some j))"

definition flush_sync :: "bool \<Rightarrow> map_file \<Rightarrow> map_file \<times> bool" where
  "flush_sync ok s =
     (case claim_for_flush s of
        (s, None) \<Rightarrow> (s, True)
      | (s, Some j) \<Rightarrow> (case write_payload j ok s of (s, done) \<Rightarrow> (if done then s else restore_dirty None s, done)))"

section \<open>Coroutines\<close>

definition set_task :: "nat \<Rightarrow> flush_phase \<Rightarrow> map_file \<Rightarrow> map_file" where
  "set_task t p s = s\<lparr>tasks := (tasks s)(t := p)\<rparr>"

definition set_caller :: "nat \<Rightarrow> caller_phase \<Rightarrow> map_file \<Rightarrow> map_file" where
  "set_caller c p s = s\<lparr>callers := (callers s)(c := p)\<rparr>"

definition set_closer :: "nat \<Rightarrow> close_phase \<Rightarrow> map_file \<Rightarrow> map_file" where
  "set_closer c p s = s\<lparr>closers := (closers s)(c := p)\<rparr>"

text \<open>A worker runs a job; cancelling the coroutine of a job that no worker has finished leaves the job
  behind, unless no worker had taken it yet.\<close>

definition work :: "job \<Rightarrow> bool \<Rightarrow> map_file \<Rightarrow> map_file \<times> job" where
  "work j ok s = (case write_payload j ok s of (s, done) \<Rightarrow> (s, j\<lparr>result := Some done\<rparr>))"

definition leave_job :: "job \<Rightarrow> bool \<Rightarrow> map_file \<Rightarrow> map_file" where
  "leave_job j taken s = (if result j = None \<and> taken then s\<lparr>orphans := orphans s @ [j]\<rparr> else s)"

definition task_wakes :: "nat \<Rightarrow> map_file \<Rightarrow> map_file" where
  "task_wakes t s =
     (case take_pending_snapshot t s of
        (s, None) \<Rightarrow> set_task t Ended s
      | (s, Some j) \<Rightarrow> set_task t (Writing j) s)"

definition task_resumes :: "nat \<Rightarrow> bool \<Rightarrow> map_file \<Rightarrow> map_file" where
  "task_resumes t written s =
     (if written then set_task t Debouncing s else set_task t Ended (restore_dirty (Some t) s))"

definition task_cancelled :: "nat \<Rightarrow> bool \<Rightarrow> map_file \<Rightarrow> map_file" where
  "task_cancelled t taken s =
     (case tasks s t of
        Debouncing \<Rightarrow> set_task t Ended (restore_dirty (Some t) s)
      | Writing j \<Rightarrow> set_task t Ended (restore_dirty (Some t) (leave_job j taken s))
      | _ \<Rightarrow> set_task t Ended s)"

definition aflush_enter :: "nat \<Rightarrow> map_file \<Rightarrow> map_file" where
  "aflush_enter c s =
     (case claim_for_flush s of
        (s, None) \<Rightarrow> set_caller c Returned s
      | (s, Some j) \<Rightarrow> set_caller c (Awaiting j) s)"

definition aflush_resumes :: "nat \<Rightarrow> bool \<Rightarrow> map_file \<Rightarrow> map_file" where
  "aflush_resumes c written s =
     (if written then set_caller c Returned s else set_caller c Raised (restore_dirty None s))"

definition aflush_cancelled :: "nat \<Rightarrow> job \<Rightarrow> bool \<Rightarrow> map_file \<Rightarrow> map_file" where
  "aflush_cancelled c j taken s = set_caller c Raised (restore_dirty None (leave_job j taken s))"

text \<open>The head of the loop of \<open>aclose\<close>, and what follows the awaited task and the awaited \<open>aflush\<close>.\<close>

definition close_loop :: "nat \<Rightarrow> map_file \<Rightarrow> map_file" where
  "close_loop c s = set_closer c (case flush_task s of None \<Rightarrow> ReadyToFlush | Some t \<Rightarrow> Reaping t) s"

definition close_reaped :: "nat \<Rightarrow> nat \<Rightarrow> bool \<Rightarrow> map_file \<Rightarrow> map_file" where
  "close_reaped c t cancelled s = set_closer c (if cancelled then CloseFailed else ReadyToFlush) (retire_task (Some t) s)"

definition close_checks :: "nat \<Rightarrow> map_file \<Rightarrow> map_file" where
  "close_checks c s =
     (if callers s c = Raised then set_closer c CloseFailed s
      else if flush_task s = None then set_closer c Closed s else close_loop c s)"

datatype flush_action =
    Mutate bool bool
  | BatchEnter
  | BatchExit bool
  | FlushSync bool
  | TaskStarts nat
  | TaskWakes nat
  | TaskWrites nat bool
  | TaskResumes nat
  | TaskCancelled nat bool
  | AflushCalled nat
  | AflushWrites nat bool
  | AflushResumes nat
  | AflushCancelled nat bool
  | OrphanWrites nat bool
  | CloseCalled nat
  | CloseReaps nat bool
  | CloseFlushes nat
  | CloseChecks nat

text \<open>\<open>None\<close> where the action is not enabled: the lock is held by a batch, or the coroutine is elsewhere.\<close>

definition unlocked :: "map_file \<Rightarrow> map_file \<Rightarrow> map_file option" where
  "unlocked s s' = (if batch_depth s = 0 then Some s' else None)"

fun flush_step :: "flush_action \<Rightarrow> map_file \<Rightarrow> map_file option" where
  "flush_step (Mutate on_loop ok) s = Some (fst (mutate on_loop ok s))"
| "flush_step BatchEnter s = Some (batch_enter s)"
| "flush_step (BatchExit ok) s = (if batch_depth s = 0 then None else Some (fst (batch_exit ok s)))"
| "flush_step (FlushSync ok) s = Some (fst (flush_sync ok s))"
| "flush_step (TaskStarts t) s = (if tasks s t = Created then Some (set_task t Debouncing s) else None)"
| "flush_step (TaskWakes t) s = (if tasks s t = Debouncing then unlocked s (task_wakes t s) else None)"
| "flush_step (TaskWrites t ok) s =
     (case tasks s t of
        Writing j \<Rightarrow> if result j = None then (case work j ok s of (s, j) \<Rightarrow> Some (set_task t (Writing j) s)) else None
      | _ \<Rightarrow> None)"
| "flush_step (TaskResumes t) s =
     (case tasks s t of
        Writing j \<Rightarrow> (case result j of None \<Rightarrow> None | Some b \<Rightarrow> unlocked s (task_resumes t b s))
      | _ \<Rightarrow> None)"
| "flush_step (TaskCancelled t taken) s = (if live_task (tasks s t) then unlocked s (task_cancelled t taken s) else None)"
| "flush_step (AflushCalled c) s =
     (if callers s c = Quiet \<and> closers s c = NotClosing then unlocked s (aflush_enter c (s\<lparr>floor_of := (floor_of s)(c := version s)\<rparr>))
      else None)"
| "flush_step (AflushWrites c ok) s =
     (case callers s c of
        Awaiting j \<Rightarrow> if result j = None then (case work j ok s of (s, j) \<Rightarrow> Some (set_caller c (Awaiting j) s)) else None
      | _ \<Rightarrow> None)"
| "flush_step (AflushResumes c) s =
     (case callers s c of
        Awaiting j \<Rightarrow> (case result j of None \<Rightarrow> None | Some b \<Rightarrow> unlocked s (aflush_resumes c b s))
      | _ \<Rightarrow> None)"
| "flush_step (AflushCancelled c taken) s =
     (case callers s c of Awaiting j \<Rightarrow> unlocked s (aflush_cancelled c j taken s) | _ \<Rightarrow> None)"
| "flush_step (OrphanWrites i ok) s =
     (if i < length (orphans s)
      then Some (fst (work (orphans s ! i) ok (s\<lparr>orphans := take i (orphans s) @ drop (Suc i) (orphans s)\<rparr>))) else None)"
| "flush_step (CloseCalled c) s =
     (if callers s c = Quiet \<and> closers s c = NotClosing then unlocked s (close_loop c (s\<lparr>floor_of := (floor_of s)(c := version s)\<rparr>))
      else None)"
| "flush_step (CloseReaps c cancelled) s =
     (case closers s c of
        Reaping t \<Rightarrow> if cancelled \<or> \<not> live_task (tasks s t) then unlocked s (close_reaped c t cancelled s) else None
      | _ \<Rightarrow> None)"
| "flush_step (CloseFlushes c) s =
     (if closers s c = ReadyToFlush then unlocked s (set_closer c Flushing (aflush_enter c s)) else None)"
| "flush_step (CloseChecks c) s =
     (if closers s c = Flushing \<and> callers s c \<in> {Returned, Raised} then unlocked s (close_checks c s) else None)"

inductive flush_run :: "(flush_action \<Rightarrow> bool) \<Rightarrow> map_file \<Rightarrow> bool" for P where
  flush_start: "flush_run P (loaded_file v)"
| flush_next: "flush_run P s \<Longrightarrow> P a \<Longrightarrow> flush_step a s = Some s' \<Longrightarrow> flush_run P s'"

section \<open>Snapshots and the file\<close>

text \<open>\<open>core\<close> relates the version in memory and on disk, the two counters, whether a mark says a write is
  owed, and the jobs under way: a newer ticket never carries older content.\<close>

definition core :: "nat \<Rightarrow> nat \<Rightarrow> nat \<Rightarrow> nat \<Rightarrow> bool \<Rightarrow> job set \<Rightarrow> bool" where
  "core v d sn w debt J \<longleftrightarrow> d \<le> v \<and> w \<le> sn \<and> (d < v \<longrightarrow> debt \<or> w < sn) \<and>
     (\<forall>j \<in> J. payload j \<le> v \<and> ticket j \<le> sn \<and> (w < ticket j \<longrightarrow> d \<le> payload j) \<and> (ticket j \<le> w \<longrightarrow> payload j \<le> d) \<and>
        (result j = Some True \<longrightarrow> ticket j \<le> w) \<and> (ticket j = sn \<and> payload j < v \<longrightarrow> debt)) \<and>
     (\<forall>i \<in> J. \<forall>j \<in> J. ticket i \<le> ticket j \<longrightarrow> payload i \<le> payload j)"

lemma core_mono: "core v d sn w debt J \<Longrightarrow> J' \<subseteq> J \<Longrightarrow> (debt \<Longrightarrow> debt') \<Longrightarrow> core v d sn w debt' J'"
  unfolding core_def by blast

lemma core_mutate: "core v d sn w debt J \<Longrightarrow> core (Suc v) d sn w True J"
  unfolding core_def by auto

lemma core_claim:
  "core v d sn w debt J \<Longrightarrow> core v d (Suc sn) w False (insert \<lparr>payload = v, ticket = Suc sn, result = None\<rparr> J)"
  unfolding core_def by auto

lemma core_write:
  assumes "core v d sn w debt J" "j \<in> J" "w < ticket j"
  shows "core v (payload j) sn (ticket j) debt J" "d \<le> payload j"
proof -
  have j: "payload j \<le> v" "ticket j \<le> sn" "d \<le> payload j" "ticket j = sn \<and> payload j < v \<longrightarrow> debt"
    using assms unfolding core_def by blast+
  have order: "ticket i \<le> ticket j \<Longrightarrow> payload i \<le> payload j" "ticket j \<le> ticket i \<Longrightarrow> payload j \<le> payload i" if "i \<in> J" for i
    using that assms unfolding core_def by blast+
  have rest: "payload i \<le> v" "ticket i \<le> sn" "result i = Some True \<longrightarrow> ticket i \<le> w" "ticket i = sn \<and> payload i < v \<longrightarrow> debt"
    "\<forall>k \<in> J. ticket i \<le> ticket k \<longrightarrow> payload i \<le> payload k" if "i \<in> J" for i
    using that assms(1) unfolding core_def by blast+
  show "core v (payload j) sn (ticket j) debt J"
    unfolding core_def
  proof (intro conjI ballI)
    show "payload j < v \<longrightarrow> debt \<or> ticket j < sn" using j(2,4) by (cases "ticket j = sn") auto
    fix i assume i: "i \<in> J"
    show "payload i \<le> v" "ticket i \<le> sn" "ticket i = sn \<and> payload i < v \<longrightarrow> debt" using rest [OF i] by blast+
    show "ticket j < ticket i \<longrightarrow> payload j \<le> payload i" "ticket i \<le> ticket j \<longrightarrow> payload i \<le> payload j"
      using order [OF i] by simp_all
    show "result i = Some True \<longrightarrow> ticket i \<le> ticket j" using rest(3) [OF i] assms(3) by auto
    show "ticket i \<le> ticket k \<longrightarrow> payload i \<le> payload k" if "k \<in> J" for k using rest(5) [OF i] that by blast
  qed (use j in simp_all)
  show "d \<le> payload j" by (rule j)
qed

lemma core_result:
  assumes "core v d sn w debt J" "j \<in> J" "b \<Longrightarrow> ticket j \<le> w"
  shows "core v d sn w debt (insert (j\<lparr>result := Some b\<rparr>) J)"
  using assms unfolding core_def by auto

section \<open>The invariant\<close>

definition jobs :: "map_file \<Rightarrow> job set" where
  "jobs s = {j. \<exists>t. tasks s t = Writing j} \<union> {j. \<exists>c. callers s c = Awaiting j} \<union> set (orphans s)"

definition file_core :: "map_file \<Rightarrow> bool" where
  "file_core s \<longleftrightarrow>
     core (version s) (on_disk s) (snapshot_seq s) (written_seq s) (dirty s \<or> batch_dirty s) (jobs s) \<and>
     (batch_depth s = 0 \<longrightarrow> \<not> batch_dirty s)"

text \<open>What a caller was promised: the file holds what was in memory when it came in, once it has returned.\<close>

definition promised :: "map_file \<Rightarrow> nat \<Rightarrow> bool" where
  "promised s c \<longleftrightarrow> floor_of s c \<le> version s \<and>
     (\<forall>j. callers s c = Awaiting j \<longrightarrow> floor_of s c \<le> payload j) \<and> (callers s c = Returned \<longrightarrow> floor_of s c \<le> on_disk s) \<and>
     (closers s c = Closed \<longrightarrow> floor_of s c \<le> on_disk s)"

definition file_ok :: "map_file \<Rightarrow> bool" where
  "file_ok s \<longleftrightarrow> file_core s \<and> (\<forall>c. promised s c)"

definition grows :: "map_file \<Rightarrow> map_file \<Rightarrow> bool" where
  "grows s s' \<longleftrightarrow> file_ok s' \<and> on_disk s \<le> on_disk s'"

lemma grows_trans: "grows s s1 \<Longrightarrow> (file_ok s1 \<Longrightarrow> grows s1 s2) \<Longrightarrow> grows s s2"
  by (auto simp: grows_def)

lemma file_coreD:
  assumes "file_core s"
  shows "core (version s) (on_disk s) (snapshot_seq s) (written_seq s) (dirty s \<or> batch_dirty s) (jobs s)"
    "batch_depth s = 0 \<Longrightarrow> \<not> batch_dirty s"
  using assms by (simp_all add: file_core_def)

text \<open>A change that leaves the counters alone and adds no job.\<close>

lemma frame_core:
  assumes "file_core s" "version s' = version s" "on_disk s' = on_disk s" "snapshot_seq s' = snapshot_seq s"
    "written_seq s' = written_seq s" "batch_dirty s' = batch_dirty s" "batch_depth s' = 0 \<Longrightarrow> batch_depth s = 0"
    "jobs s' \<subseteq> jobs s" "dirty s \<Longrightarrow> dirty s'"
  shows "file_core s'"
proof -
  have "core (version s) (on_disk s) (snapshot_seq s) (written_seq s) (dirty s' \<or> batch_dirty s) (jobs s')"
    by (rule core_mono [OF file_coreD(1) [OF assms(1)] assms(8)]) (use assms(9) in blast)
  then show ?thesis using assms(2-7) file_coreD(2) [OF assms(1)] by (simp add: file_core_def)
qed

lemma grows_frame:
  assumes "file_ok s" "version s' = version s" "on_disk s' = on_disk s" "snapshot_seq s' = snapshot_seq s"
    "written_seq s' = written_seq s" "batch_dirty s' = batch_dirty s" "batch_depth s' = 0 \<Longrightarrow> batch_depth s = 0"
    "jobs s' \<subseteq> jobs s" "dirty s \<Longrightarrow> dirty s'" "\<And>c. promised s c \<Longrightarrow> promised s' c"
  shows "grows s s'"
  using frame_core [OF _ assms(2-9)] assms(1,3,10) by (simp add: grows_def file_ok_def)

lemma jobs_frames [simp]:
  "jobs (s\<lparr>dirty := b\<rparr>) = jobs s" "jobs (s\<lparr>flush_task := t\<rparr>) = jobs s" "jobs (s\<lparr>snapshot_seq := n\<rparr>) = jobs s"
  "jobs (s\<lparr>on_disk := n, written_seq := m\<rparr>) = jobs s" "jobs (s\<lparr>version := n\<rparr>) = jobs s" "jobs (s\<lparr>batch_dirty := b\<rparr>) = jobs s"
  "jobs (s\<lparr>batch_depth := n\<rparr>) = jobs s" "jobs (s\<lparr>floor_of := f\<rparr>) = jobs s" "jobs (set_closer c q s) = jobs s"
  "jobs (s\<lparr>next_task := n\<rparr>) = jobs s"
  by (simp_all add: jobs_def set_closer_def)

lemma jobs_set_task: "jobs (set_task t p s) \<subseteq> (case p of Writing j \<Rightarrow> insert j (jobs s) | _ \<Rightarrow> jobs s)"
  by (auto simp: jobs_def set_task_def split: flush_phase.splits if_splits)

lemma jobs_set_caller: "jobs (set_caller c p s) \<subseteq> (case p of Awaiting j \<Rightarrow> insert j (jobs s) | _ \<Rightarrow> jobs s)"
  by (auto simp: jobs_def set_caller_def split: caller_phase.splits if_splits)

lemma job_of: "tasks s t = Writing j \<Longrightarrow> j \<in> jobs s" "callers s c = Awaiting j \<Longrightarrow> j \<in> jobs s" "i < length (orphans s) \<Longrightarrow> orphans s ! i \<in> jobs s"
  by (auto simp: jobs_def)

lemma promised_more:
  "promised s c \<Longrightarrow> floor_of s' c = floor_of s c \<Longrightarrow> callers s' c = callers s c \<Longrightarrow> (closers s' c = Closed \<Longrightarrow> closers s c = Closed) \<Longrightarrow>
   version s \<le> version s' \<Longrightarrow> on_disk s \<le> on_disk s' \<Longrightarrow> promised s' c"
  by (auto simp: promised_def)

section \<open>Writes\<close>

lemma write_core:
  assumes "core (version s) (on_disk s) (snapshot_seq s) (written_seq s) debt J" "j \<in> J"
  shows "core (version s) (on_disk (fst (write_payload j ok s))) (snapshot_seq s) (written_seq (fst (write_payload j ok s))) debt J"
    "on_disk s \<le> on_disk (fst (write_payload j ok s))"
    "snd (write_payload j ok s) \<Longrightarrow> ticket j \<le> written_seq (fst (write_payload j ok s))"
  using assms core_write [OF assms] by (auto simp: write_payload_def split: if_splits)

lemma write_frames [simp]:
  "version (fst (write_payload j ok s)) = version s" "snapshot_seq (fst (write_payload j ok s)) = snapshot_seq s"
  "dirty (fst (write_payload j ok s)) = dirty s" "batch_dirty (fst (write_payload j ok s)) = batch_dirty s"
  "batch_depth (fst (write_payload j ok s)) = batch_depth s" "jobs (fst (write_payload j ok s)) = jobs s"
  "tasks (fst (write_payload j ok s)) = tasks s" "callers (fst (write_payload j ok s)) = callers s"
  "closers (fst (write_payload j ok s)) = closers s" "floor_of (fst (write_payload j ok s)) = floor_of s"
  "orphans (fst (write_payload j ok s)) = orphans s" "flush_task (fst (write_payload j ok s)) = flush_task s"
  by (simp_all add: write_payload_def)

text \<open>A snapshot taken and written in one go; \<open>s\<close> is any state the marks of which the write settles.\<close>

lemma write_inline_core:
  assumes "core (version s) (on_disk s) (snapshot_seq s) (written_seq s) debt (jobs s)" "batch_depth s = 0 \<Longrightarrow> \<not> batch_dirty s"
  shows "file_core (fst (write_inline ok s))" "on_disk s \<le> on_disk (fst (write_inline ok s))"
    "snd (write_inline ok s) \<Longrightarrow> on_disk (fst (write_inline ok s)) = version s"
proof -
  let ?s = "s\<lparr>snapshot_seq := snapshot_seq s + 1\<rparr>" and ?j = "\<lparr>payload = version s, ticket = snapshot_seq s + 1, result = None\<rparr>"
  have w: "write_inline ok s = write_payload ?j ok ?s" by (simp add: write_inline_def serialize_def)
  have c: "core (version ?s) (on_disk ?s) (snapshot_seq ?s) (written_seq ?s) False (insert ?j (jobs s))"
    using core_claim [OF assms(1)] by simp
  note c' = write_core [OF c, of ?j ok]
  show "file_core (fst (write_inline ok s))"
    using core_mono [OF c'(1), of "jobs s" "dirty s \<or> batch_dirty s"] assms(2) by (auto simp: file_core_def w)
  show "on_disk s \<le> on_disk (fst (write_inline ok s))" using c'(2) by (simp add: w)
  have "written_seq s < snapshot_seq s + 1" using assms(1) by (simp add: core_def)
  then show "snd (write_inline ok s) \<Longrightarrow> on_disk (fst (write_inline ok s)) = version s"
    by (auto simp: w write_payload_def split: if_splits)
qed

lemma write_inline_frames [simp]:
  "version (fst (write_inline ok s)) = version s" "callers (fst (write_inline ok s)) = callers s"
  "closers (fst (write_inline ok s)) = closers s" "floor_of (fst (write_inline ok s)) = floor_of s"
  by (simp_all add: write_inline_def serialize_def)

lemma write_inline_grows:
  assumes "file_ok s" "batch_depth s' = 0 \<Longrightarrow> \<not> batch_dirty s'"
    and "version s' = version s" "on_disk s' = on_disk s" "snapshot_seq s' = snapshot_seq s" "written_seq s' = written_seq s"
    "jobs s' = jobs s" "callers s' = callers s" "closers s' = closers s" "floor_of s' = floor_of s"
  shows "grows s (fst (write_inline ok s'))" "snd (write_inline ok s') \<Longrightarrow> on_disk (fst (write_inline ok s')) = version s'"
proof -
  have "core (version s') (on_disk s') (snapshot_seq s') (written_seq s') (dirty s \<or> batch_dirty s) (jobs s')"
    using assms(1) file_coreD(1) unfolding assms(3-7) file_ok_def by blast
  note w = write_inline_core [OF this assms(2), of ok]
  have "promised (fst (write_inline ok s')) c" for c
    using assms(1) promised_more [of s c "fst (write_inline ok s')"] w(2) assms(3,4,8-10) by (simp add: file_ok_def)
  then show "grows s (fst (write_inline ok s'))" using w(1,2) assms(4) by (simp add: grows_def file_ok_def)
  show "snd (write_inline ok s') \<Longrightarrow> on_disk (fst (write_inline ok s')) = version s'" by (rule w(3))
qed

section \<open>The steps of the mark\<close>

lemma restore_grows: "file_ok s \<Longrightarrow> grows s (restore_dirty who s)"
  by (rule grows_frame) (auto simp: restore_dirty_def retire_task_def promised_def split: if_splits)

lemma retire_task_grows: "file_ok s \<Longrightarrow> grows s (retire_task who s)"
  by (rule grows_frame) (auto simp: retire_task_def promised_def split: if_splits)

lemma set_task_grows:
  assumes "file_ok s" "\<And>j. p \<noteq> Writing j"
  shows "grows s (set_task t p s)"
  using jobs_set_task [of t p s] assms(2)
  by (intro grows_frame [OF assms(1)]) (auto simp: set_task_def promised_def split: flush_phase.splits)

lemma set_closer_grows:
  assumes "file_ok s" "q = Closed \<Longrightarrow> floor_of s c \<le> on_disk s"
  shows "grows s (set_closer c q s)"
  by (rule grows_frame [OF assms(1)]) (auto simp: jobs_def set_closer_def promised_def assms(2))

lemma set_open_closer_grows: "file_ok s \<Longrightarrow> q \<noteq> Closed \<Longrightarrow> grows s (set_closer c q s)"
  by (rule set_closer_grows) simp_all

lemma set_caller_grows:
  assumes "file_ok s" "p = Raised \<or> p = Returned \<and> floor_of s c \<le> on_disk s"
  shows "grows s (set_caller c p s)"
  using jobs_set_caller [of c p s] assms(2)
  by (intro grows_frame [OF assms(1)]) (auto simp: set_caller_def promised_def)

lemma mutate_grows: "file_ok s \<Longrightarrow> grows s (fst (mutate on_loop ok s))"
proof -
  assume ok: "file_ok s"
  let ?s = "s\<lparr>version := version s + 1\<rparr>"
  have c: "core (version ?s) (on_disk ?s) (snapshot_seq ?s) (written_seq ?s) True (jobs ?s)"
    using core_mutate [OF file_coreD(1)] ok by (simp add: file_ok_def)
  show ?thesis
  proof (cases "batch_depth s > 0")
    case True
    then show ?thesis
      using ok c by (auto simp: mutate_def save_owed_def grows_def file_ok_def file_core_def promised_def intro: le_SucI)
  next
    case False
    then have nb: "\<not> batch_dirty s" using ok by (simp add: file_ok_def file_core_def)
    show ?thesis
    proof (cases on_loop)
      case True
      have "jobs (s\<lparr>version := Suc (version s), dirty := True, flush_task := Some (next_task s),
          tasks := (tasks s)(next_task s := Created), next_task := Suc (next_task s)\<rparr>) \<subseteq> jobs s" by (auto simp: jobs_def split: if_splits)
      from core_mono [OF c, of _ True] this show ?thesis
        using ok True False c by (auto simp: mutate_def save_owed_def grows_def file_ok_def file_core_def promised_def Let_def intro: le_SucI)
    next
      case False
      have w: "fst (mutate on_loop ok s) = fst (write_inline ok ?s)"
        using False \<open>\<not> batch_depth s > 0\<close> by (simp add: mutate_def save_owed_def)
      note i = write_inline_core [OF c, of ok]
      have "promised (fst (write_inline ok ?s)) x" for x
        using ok promised_more [of s x "fst (write_inline ok ?s)"] i(2) nb by (simp add: file_ok_def)
      then show ?thesis using i nb by (simp add: w grows_def file_ok_def)
    qed
  qed
qed

section \<open>Claims and jobs\<close>

lemma claim_grows:
  assumes ok: "file_ok s" and d: "batch_depth s = 0" and s': "version s' = version s" "on_disk s' = on_disk s"
    "snapshot_seq s' = Suc (snapshot_seq s)" "written_seq s' = written_seq s" "\<not> dirty s'" "batch_dirty s' = batch_dirty s"
    "batch_depth s' = 0" "jobs s' \<subseteq> insert \<lparr>payload = version s, ticket = Suc (snapshot_seq s), result = None\<rparr> (jobs s)"
    and p: "\<And>c. promised s c \<Longrightarrow> promised s' c"
  shows "grows s s'"
proof -
  have "\<not> batch_dirty s" using ok d by (simp add: file_ok_def file_core_def)
  moreover have "core (version s) (on_disk s) (Suc (snapshot_seq s)) (written_seq s) False (jobs s')"
    using core_mono [OF core_claim [OF file_coreD(1)] s'(8)] ok by (simp add: file_ok_def)
  ultimately show ?thesis using s' ok p by (simp add: grows_def file_ok_def file_core_def)
qed

lemma task_wakes_grows: "file_ok s \<Longrightarrow> batch_depth s = 0 \<Longrightarrow> grows s (task_wakes t s)"
proof (cases "dirty s")
  case False
  then have "task_wakes t s = set_task t Ended (retire_task (Some t) s)" by (simp add: task_wakes_def take_pending_snapshot_def)
  moreover assume "file_ok s"
  ultimately show ?thesis using grows_trans [OF retire_task_grows set_task_grows] by simp
next
  case True
  let ?j = "\<lparr>payload = version s, ticket = Suc (snapshot_seq s), result = None\<rparr>"
  assume ok: "file_ok s" and d: "batch_depth s = 0"
  have "task_wakes t s = set_task t (Writing ?j) (s\<lparr>dirty := False, snapshot_seq := Suc (snapshot_seq s)\<rparr>)"
    using True by (simp add: task_wakes_def take_pending_snapshot_def serialize_def)
  then show ?thesis
    using jobs_set_task [of t "Writing ?j" "s\<lparr>dirty := False, snapshot_seq := Suc (snapshot_seq s)\<rparr>"] d
    by (intro claim_grows [OF ok d]) (auto simp: set_task_def promised_def)
qed

text \<open>With nothing owed the file is what is in memory.\<close>

lemma nothing_owed: "file_ok s \<Longrightarrow> batch_depth s = 0 \<Longrightarrow> \<not> dirty s \<Longrightarrow> snapshot_seq s \<le> written_seq s \<Longrightarrow> on_disk s = version s"
  by (auto simp: file_ok_def file_core_def core_def)

lemma aflush_enter_grows:
  assumes ok: "file_ok s" and d: "batch_depth s = 0"
  shows "grows s (aflush_enter c s)"
proof (cases "\<not> dirty s \<and> snapshot_seq s \<le> written_seq s")
  case True
  then have "on_disk s = version s" using nothing_owed [OF ok d] by blast
  moreover have "floor_of s c \<le> version s" using ok by (simp add: file_ok_def promised_def)
  moreover have "aflush_enter c s = set_caller c Returned s" using True by (simp add: aflush_enter_def claim_for_flush_def d)
  ultimately show ?thesis using set_caller_grows [OF ok] by simp
next
  case False
  let ?j = "\<lparr>payload = version s, ticket = Suc (snapshot_seq s), result = None\<rparr>"
  have "aflush_enter c s = set_caller c (Awaiting ?j) (s\<lparr>dirty := False, snapshot_seq := Suc (snapshot_seq s)\<rparr>)"
    using False by (auto simp: aflush_enter_def claim_for_flush_def serialize_def d)
  then show ?thesis
    using jobs_set_caller [of c "Awaiting ?j" "s\<lparr>dirty := False, snapshot_seq := Suc (snapshot_seq s)\<rparr>"] d
    by (intro claim_grows [OF ok d]) (auto simp: set_caller_def promised_def)
qed

lemma leave_grows: "file_ok s \<Longrightarrow> j \<in> jobs s \<Longrightarrow> grows s (leave_job j taken s)"
  by (rule grows_frame) (auto simp: leave_job_def jobs_def promised_def split: if_splits)

text \<open>A worker's write, and where its outcome is kept.\<close>

lemma work_grows:
  assumes ok: "file_ok s" and j: "j \<in> jobs s"
    and s': "version s' = version s" "snapshot_seq s' = snapshot_seq s" "dirty s' = dirty s" "batch_dirty s' = batch_dirty s"
      "batch_depth s' = batch_depth s" "on_disk s' = on_disk (fst (work j w s))" "written_seq s' = written_seq (fst (work j w s))"
      "jobs s' \<subseteq> insert (snd (work j w s)) (jobs s)"
    and p: "\<And>c. promised s c \<Longrightarrow> on_disk s \<le> on_disk s' \<Longrightarrow> promised s' c"
  shows "grows s s'"
proof -
  have c: "core (version s) (on_disk s) (snapshot_seq s) (written_seq s) (dirty s \<or> batch_dirty s) (jobs s)"
    and nb: "batch_depth s = 0 \<longrightarrow> \<not> batch_dirty s" using ok by (simp_all add: file_ok_def file_core_def)
  have work: "fst (work j w s) = fst (write_payload j w s)" "snd (work j w s) = j\<lparr>result := Some (snd (write_payload j w s))\<rparr>"
    by (simp_all add: work_def case_prod_beta)
  note wr = write_core [OF c j, of w]
  have "core (version s) (on_disk s') (snapshot_seq s) (written_seq s') (dirty s \<or> batch_dirty s) (insert (snd (work j w s)) (jobs s))"
    using core_result [OF wr(1) j, of "snd (write_payload j w s)"] wr(3) s'(6,7) by (simp add: work)
  then have "file_core s'"
    using core_mono [OF _ s'(8)] s'(1-5) nb by (auto simp: file_core_def)
  moreover have "on_disk s \<le> on_disk s'" using wr(2) s'(6) by (simp add: work)
  ultimately show ?thesis using p ok by (simp add: grows_def file_ok_def)
qed

lemma work_frames [simp]:
  "version (fst (work j ok s)) = version s" "snapshot_seq (fst (work j ok s)) = snapshot_seq s"
  "dirty (fst (work j ok s)) = dirty s" "batch_dirty (fst (work j ok s)) = batch_dirty s"
  "batch_depth (fst (work j ok s)) = batch_depth s" "jobs (fst (work j ok s)) = jobs s"
  "tasks (fst (work j ok s)) = tasks s" "callers (fst (work j ok s)) = callers s"
  "closers (fst (work j ok s)) = closers s" "floor_of (fst (work j ok s)) = floor_of s" "orphans (fst (work j ok s)) = orphans s"
  "payload (snd (work j ok s)) = payload j"
  by (simp_all add: work_def case_prod_beta)

lemma done_job:
  assumes "file_ok s" "callers s c = Awaiting j" "result j = Some True"
  shows "floor_of s c \<le> on_disk s"
proof -
  have "j \<in> jobs s" using job_of(2) assms(2) by blast
  then have "payload j \<le> on_disk s" using assms(1,3) unfolding file_ok_def file_core_def core_def by blast
  moreover have "floor_of s c \<le> payload j" using assms(1,2) by (simp add: file_ok_def promised_def)
  ultimately show ?thesis by linarith
qed

section \<open>Every step\<close>

lemma unlocked_eq: "unlocked s x = Some s' \<longleftrightarrow> batch_depth s = 0 \<and> s' = x"
  by (auto simp: unlocked_def)

lemma flush_sync_cases:
  "batch_depth s > 0 \<or> (\<not> dirty s \<and> snapshot_seq s \<le> written_seq s) \<Longrightarrow> flush_sync ok s = (s, True)"
  "\<not> (batch_depth s > 0 \<or> (\<not> dirty s \<and> snapshot_seq s \<le> written_seq s)) \<Longrightarrow>
   flush_sync ok s = (if snd (write_inline ok (s\<lparr>dirty := False\<rparr>)) then fst (write_inline ok (s\<lparr>dirty := False\<rparr>))
      else restore_dirty None (fst (write_inline ok (s\<lparr>dirty := False\<rparr>))), snd (write_inline ok (s\<lparr>dirty := False\<rparr>)))"
  by (auto simp: flush_sync_def claim_for_flush_def write_inline_def serialize_def case_prod_beta)

lemma flush_sync_grows:
  assumes "file_ok s"
  shows "grows s (fst (flush_sync ok s))"
    "batch_depth s = 0 \<Longrightarrow> snd (flush_sync ok s) \<Longrightarrow> on_disk (fst (flush_sync ok s)) = version s"
proof -
  let ?idle = "batch_depth s > 0 \<or> (\<not> dirty s \<and> snapshot_seq s \<le> written_seq s)"
  let ?w = "write_inline ok (s\<lparr>dirty := False\<rparr>)"
  note idle = flush_sync_cases(1) [of s ok] and busy = flush_sync_cases(2) [of s ok]
  have w: "grows s (fst ?w)" "snd ?w \<Longrightarrow> on_disk (fst ?w) = version s" if "\<not> ?idle"
    using write_inline_grows [OF assms, of "s\<lparr>dirty := False\<rparr>" ok] assms that by (auto simp: file_ok_def file_core_def)
  show "grows s (fst (flush_sync ok s))"
  proof (cases ?idle)
    case True
    then show ?thesis using idle assms by (simp add: grows_def)
  next
    case False
    then show ?thesis using busy [OF False] w(1) [OF False] grows_trans [OF w(1) [OF False] restore_grows] by simp
  qed
  show "on_disk (fst (flush_sync ok s)) = version s" if "batch_depth s = 0" "snd (flush_sync ok s)"
    using idle busy w(2) nothing_owed [OF assms that(1)] that by (cases ?idle) auto
qed

lemma batch_grows:
  assumes "file_ok s"
  shows "grows s (batch_enter s)" "grows s (fst (batch_exit ok s))"
proof -
  show "grows s (batch_enter s)"
    by (rule grows_frame [OF assms]) (auto simp: batch_enter_def promised_def)
  let ?s = "s\<lparr>batch_depth := batch_depth s - 1\<rparr>"
  show "grows s (fst (batch_exit ok s))"
  proof (cases "batch_depth ?s = 0 \<and> batch_dirty s")
    case True
    then have "fst (batch_exit ok s) = fst (write_inline ok (?s\<lparr>batch_dirty := False, dirty := False\<rparr>))"
      by (simp add: batch_exit_def Let_def)
    then show ?thesis using write_inline_grows(1) [OF assms, of "?s\<lparr>batch_dirty := False, dirty := False\<rparr>" ok] by simp
  next
    case False
    then have e: "fst (batch_exit ok s) = ?s" by (auto simp: batch_exit_def Let_def)
    have "file_core ?s" using assms False by (simp add: file_ok_def file_core_def)
    moreover have "promised ?s c" for c using assms by (simp add: file_ok_def promised_def)
    ultimately show ?thesis by (simp add: e grows_def file_ok_def)
  qed
qed

lemma floor_grows:
  assumes "file_ok s" "callers s c = Quiet" "closers s c = NotClosing"
  shows "file_ok (s\<lparr>floor_of := (floor_of s)(c := version s)\<rparr>)"
  using assms by (simp add: file_ok_def file_core_def promised_def)

lemma task_cancelled_grows:
  assumes "file_ok s"
  shows "grows s (task_cancelled t taken s)"
proof (cases "tasks s t")
  case (Writing j)
  have "grows s (restore_dirty (Some t) (leave_job j taken s))"
    by (rule grows_trans [OF leave_grows [OF assms job_of(1) [OF Writing]] restore_grows])
  then show ?thesis using grows_trans [OF _ set_task_grows] Writing by (simp add: task_cancelled_def)
next
  case Debouncing
  then show ?thesis using grows_trans [OF restore_grows [OF assms] set_task_grows] by (simp add: task_cancelled_def)
qed (simp_all add: task_cancelled_def set_task_grows [OF assms])

lemma aflush_exit_grows:
  assumes ok: "file_ok s" and j: "callers s c = Awaiting j"
  shows "result j = Some b \<Longrightarrow> grows s (aflush_resumes c b s)" "grows s (aflush_cancelled c j taken s)"
proof -
  show "result j = Some b \<Longrightarrow> grows s (aflush_resumes c b s)"
    using set_caller_grows [OF ok, of Returned c] done_job [OF ok j] grows_trans [OF restore_grows [OF ok, of None] set_caller_grows]
    by (cases b) (simp_all add: aflush_resumes_def)
  have "grows s (restore_dirty None (leave_job j taken s))"
    by (rule grows_trans [OF leave_grows [OF ok job_of(2) [OF j]] restore_grows])
  then show "grows s (aflush_cancelled c j taken s)"
    using grows_trans [OF _ set_caller_grows] by (simp add: aflush_cancelled_def)
qed

lemma close_grows:
  assumes ok: "file_ok s"
  shows "grows s (close_loop c s)" "grows s (close_reaped c t cancelled s)"
    "callers s c \<in> {Returned, Raised} \<Longrightarrow> grows s (close_checks c s)"
proof -
  show loop: "grows s (close_loop c s)" using set_open_closer_grows [OF ok] by (simp add: close_loop_def split: option.split)
  show "grows s (close_reaped c t cancelled s)"
    using grows_trans [OF retire_task_grows [OF ok] set_open_closer_grows] by (simp add: close_reaped_def)
  show "callers s c \<in> {Returned, Raised} \<Longrightarrow> grows s (close_checks c s)"
    using loop set_closer_grows [OF ok] ok by (auto simp: close_checks_def file_ok_def promised_def)
qed

lemma worker_grows:
  assumes ok: "file_ok s"
  shows "tasks s t = Writing j \<Longrightarrow> grows s (set_task t (Writing (snd (work j w s))) (fst (work j w s)))"
    "callers s c = Awaiting j \<Longrightarrow> grows s (set_caller c (Awaiting (snd (work j w s))) (fst (work j w s)))"
    "i < length (orphans s) \<Longrightarrow> grows s (fst (work (orphans s ! i) w (s\<lparr>orphans := take i (orphans s) @ drop (Suc i) (orphans s)\<rparr>)))"
proof -
  show "grows s (set_task t (Writing (snd (work j w s))) (fst (work j w s)))" if t: "tasks s t = Writing j"
    using jobs_set_task [of t "Writing (snd (work j w s))" "fst (work j w s)"]
    by (intro work_grows [OF ok job_of(1) [OF t], of _ w]) (auto simp: set_task_def promised_def)
  show "grows s (set_caller c (Awaiting (snd (work j w s))) (fst (work j w s)))" if c: "callers s c = Awaiting j"
    using jobs_set_caller [of c "Awaiting (snd (work j w s))" "fst (work j w s)"] c
    by (intro work_grows [OF ok job_of(2) [OF c], of _ w]) (auto simp: set_caller_def promised_def)
  let ?s = "s\<lparr>orphans := take i (orphans s) @ drop (Suc i) (orphans s)\<rparr>" and ?j = "orphans s ! i"
  have out: "on_disk (fst (work ?j w ?s)) = on_disk (fst (work ?j w s))" "written_seq (fst (work ?j w ?s)) = written_seq (fst (work ?j w s))"
    by (simp_all add: work_def write_payload_def)
  have "set (take i (orphans s) @ drop (Suc i) (orphans s)) \<subseteq> set (orphans s)" by (auto dest: in_set_takeD in_set_dropD)
  then have js: "jobs ?s \<subseteq> jobs s" by (auto simp: jobs_def)
  show "grows s (fst (work ?j w ?s))" if i: "i < length (orphans s)"
    by (intro work_grows [OF ok job_of(3) [OF i], of _ w]) (use js out in \<open>auto simp: promised_def\<close>)
qed

lemma flush_step_grows:
  assumes ok: "file_ok s" and st: "flush_step a s = Some s'"
  shows "grows s s'"
proof (cases a)
  case (AflushCalled c)
  let ?s = "s\<lparr>floor_of := (floor_of s)(c := version s)\<rparr>"
  have "callers s c = Quiet" "closers s c = NotClosing" "batch_depth s = 0" and s': "s' = aflush_enter c ?s"
    using st AflushCalled by (auto simp: unlocked_eq split: if_splits)
  then have "grows ?s s'" using aflush_enter_grows [OF floor_grows [OF ok]] by simp
  then show ?thesis by (simp add: grows_def)
next
  case (CloseCalled c)
  let ?s = "s\<lparr>floor_of := (floor_of s)(c := version s)\<rparr>"
  have "callers s c = Quiet" "closers s c = NotClosing" and s': "s' = close_loop c ?s"
    using st CloseCalled by (auto simp: unlocked_eq split: if_splits)
  then have "grows ?s s'" using close_grows(1) [OF floor_grows [OF ok]] by simp
  then show ?thesis by (simp add: grows_def)
next
  case (CloseFlushes c)
  then have "batch_depth s = 0" "s' = set_closer c Flushing (aflush_enter c s)" using st by (auto simp: unlocked_eq split: if_splits)
  then show ?thesis using grows_trans [OF aflush_enter_grows [OF ok] set_open_closer_grows] by simp
next
  case (TaskResumes t)
  then obtain b where "s' = task_resumes t b s"
    using st by (auto simp: unlocked_eq split: flush_phase.splits option.splits)
  then show ?thesis
    using set_task_grows [OF ok] grows_trans [OF restore_grows [OF ok, of "Some t"] set_task_grows] by (simp add: task_resumes_def)
qed (use st mutate_grows [OF ok] batch_grows [OF ok] flush_sync_grows(1) [OF ok] set_task_grows [OF ok] task_wakes_grows [OF ok]
       task_cancelled_grows [OF ok] worker_grows [OF ok] aflush_exit_grows [OF ok] close_grows [OF ok]
      in \<open>auto simp: unlocked_eq case_prod_beta split: if_splits flush_phase.splits caller_phase.splits close_phase.splits option.splits\<close>)

lemma flush_run_ok: "flush_run P s \<Longrightarrow> file_ok s"
proof (induction rule: flush_run.induct)
  case (flush_start v)
  show ?case by (simp add: file_ok_def file_core_def promised_def core_def jobs_def loaded_file_def)
next
  case (flush_next s a s')
  then show ?case using flush_step_grows by (simp add: grows_def)
qed

section \<open>Durability\<close>

text \<open>C30. The file never goes back to an older map, and whenever it is behind the one in memory, some mark
  says that a write is owed: the dirty mark, the open batch's, or a ticket that has not been written;
  through failed and cancelled writes, by whichever thread.\<close>

theorem file_never_regresses:
  assumes "flush_run P s" "flush_step a s = Some s'"
  shows "on_disk s \<le> on_disk s' \<and> on_disk s' \<le> version s' \<and>
    (on_disk s' < version s' \<longrightarrow> dirty s' \<or> batch_dirty s' \<or> written_seq s' < snapshot_seq s')"
  using flush_step_grows [OF flush_run_ok [OF assms(1)] assms(2)] by (auto simp: grows_def file_ok_def file_core_def core_def)

fun run_acts :: "flush_action list \<Rightarrow> map_file \<Rightarrow> map_file option" where
  "run_acts [] s = Some s"
| "run_acts (a # acts) s = (case flush_step a s of None \<Rightarrow> None | Some s' \<Rightarrow> run_acts acts s')"

lemma run_acts_run: "flush_run P s \<Longrightarrow> list_all P acts \<Longrightarrow> run_acts acts s = Some s' \<Longrightarrow> flush_run P s'"
  by (induction acts arbitrary: s) (auto intro: flush_next split: option.splits)

lemma file_never_regresses_witness:
  "\<exists>s s'. run_acts [Mutate True True, TaskStarts 0, TaskWakes 0, FlushSync True] (loaded_file 7) = Some s \<and>
     flush_step (TaskWrites 0 True) s = Some s' \<and> on_disk s \<le> on_disk s'"
proof -
  let ?acts = "[Mutate True True, TaskStarts 0, TaskWakes 0, FlushSync True]"
  have "case run_acts ?acts (loaded_file 7) of Some s \<Rightarrow> flush_step (TaskWrites 0 True) s \<noteq> None | None \<Rightarrow> False" by code_simp
  then obtain s s' where s: "run_acts ?acts (loaded_file 7) = Some s" "flush_step (TaskWrites 0 True) s = Some s'"
    by (auto split: option.splits)
  have "flush_run (\<lambda>a. True) s" by (rule run_acts_run [OF flush_start _ s(1)]) simp
  from file_never_regresses [OF this s(2)] s show ?thesis by blast
qed

text \<open>C12. Durability points keep their word: when \<open>flush\<close>, a write without a loop, \<open>aflush\<close> or \<open>aclose\<close>
  returns, everything that was in memory when it was called is in the file, whatever was written,
  cancelled or failed in between.\<close>

theorem durability_points_are_durable:
  assumes "flush_run P s"
  shows "(batch_depth s = 0 \<and> snd (flush_sync ok s) \<longrightarrow> on_disk (fst (flush_sync ok s)) = version s) \<and>
    (batch_depth s = 0 \<and> snd (mutate False ok s) \<longrightarrow> on_disk (fst (mutate False ok s)) = version (fst (mutate False ok s))) \<and>
    (callers s c = Returned \<longrightarrow> floor_of s c \<le> on_disk s) \<and> (closers s c = Closed \<longrightarrow> floor_of s c \<le> on_disk s)"
proof -
  have ok: "file_ok s" by (rule flush_run_ok [OF assms])
  let ?s = "s\<lparr>version := version s + 1\<rparr>"
  have "core (version ?s) (on_disk ?s) (snapshot_seq ?s) (written_seq ?s) True (jobs ?s)"
    using core_mutate [OF file_coreD(1)] ok by (simp add: file_ok_def)
  from write_inline_core(3) [OF this, of ok] show ?thesis
    using flush_sync_grows(2) [OF ok] ok by (auto simp: file_ok_def file_core_def promised_def mutate_def save_owed_def)
qed

definition closing_run :: "flush_action list" where
  "closing_run = [Mutate True True, CloseCalled 0, TaskCancelled 0 True, CloseReaps 0 False, CloseFlushes 0]"

lemma durability_points_are_durable_witness:
  "\<exists>s. run_acts (closing_run @ [AflushWrites 0 True, AflushResumes 0, CloseChecks 0]) (loaded_file 7) = Some s \<and>
     closers s 0 = Closed \<and> 8 \<le> on_disk s"
proof -
  let ?acts = "closing_run @ [AflushWrites 0 True, AflushResumes 0, CloseChecks 0]"
  have "case run_acts ?acts (loaded_file 7) of Some s \<Rightarrow> closers s 0 = Closed \<and> floor_of s 0 = 8 | None \<Rightarrow> False" by code_simp
  then obtain s where s: "run_acts ?acts (loaded_file 7) = Some s" "closers s 0 = Closed" "floor_of s 0 = 8"
    by (auto split: option.splits)
  have "flush_run (\<lambda>a. True) s" by (rule run_acts_run [OF flush_start _ s(1)]) (simp add: closing_run_def)
  from durability_points_are_durable [OF this, of True 0] s show ?thesis by auto
qed

text \<open>It promises no more: a mutation made while \<open>aclose\<close> awaits its flush, whose own deferred write then
  fails, is left only in memory, with no task to retry it, though \<open>aclose\<close> returns normally.\<close>

theorem close_returns_with_an_owed_write:
  "case run_acts (closing_run @ [Mutate True True, TaskStarts 1, TaskWakes 1, TaskWrites 1 False, TaskResumes 1,
       AflushWrites 0 True, AflushResumes 0, CloseChecks 0]) (loaded_file 7) of
     None \<Rightarrow> False
   | Some s \<Rightarrow> closers s 0 = Closed \<and> dirty s \<and> flush_task s = None \<and> on_disk s < version s"
  by code_simp

section \<open>The deferred write\<close>

text \<open>Runs without failed writes, cancellations and shutdown.\<close>

definition smooth :: "flush_action \<Rightarrow> bool" where
  "smooth a \<longleftrightarrow>
     (case a of
        Mutate on_loop ok \<Rightarrow> ok | BatchExit ok \<Rightarrow> ok | FlushSync ok \<Rightarrow> ok | TaskWrites t ok \<Rightarrow> ok | AflushWrites c ok \<Rightarrow> ok
      | OrphanWrites i ok \<Rightarrow> ok | TaskCancelled t taken \<Rightarrow> False | AflushCancelled c taken \<Rightarrow> False | CloseCalled c \<Rightarrow> False | _ \<Rightarrow> True)"

definition on_schedule :: "map_file \<Rightarrow> bool" where
  "on_schedule s \<longleftrightarrow>
     (\<forall>t. live_task (tasks s t) \<longleftrightarrow> flush_task s = Some t) \<and> (dirty s \<longrightarrow> flush_task s \<noteq> None) \<and>
     (\<forall>t j. tasks s t = Writing j \<longrightarrow> result j \<noteq> Some False) \<and> (\<forall>c j. callers s c = Awaiting j \<longrightarrow> result j \<noteq> Some False) \<and>
     (\<forall>c. closers s c = NotClosing)"

lemma live_task_simps [simp]:
  "live_task Created" "live_task Debouncing" "live_task (Writing j)" "\<not> live_task NoTask" "\<not> live_task Ended"
  by (simp_all add: live_task_def)

lemma on_scheduleD:
  assumes "on_schedule s"
  shows "live_task (tasks s t) \<longleftrightarrow> flush_task s = Some t" "dirty s \<Longrightarrow> flush_task s \<noteq> None"
    "tasks s t = Writing j \<Longrightarrow> result j \<noteq> Some False" "callers s c = Awaiting j \<Longrightarrow> result j \<noteq> Some False" "closers s c = NotClosing"
  using assms by (simp_all add: on_schedule_def)

lemma on_scheduleI:
  "(\<And>t. live_task (tasks s t) \<longleftrightarrow> flush_task s = Some t) \<Longrightarrow> (dirty s \<Longrightarrow> flush_task s \<noteq> None) \<Longrightarrow>
   (\<And>t j. tasks s t = Writing j \<Longrightarrow> result j \<noteq> Some False) \<Longrightarrow> (\<And>c j. callers s c = Awaiting j \<Longrightarrow> result j \<noteq> Some False) \<Longrightarrow>
   (\<And>c. closers s c = NotClosing) \<Longrightarrow> on_schedule s"
  unfolding on_schedule_def by blast

lemma write_ok [simp]: "snd (write_payload j True s)" "result (snd (work j True s)) = Some True"
  by (simp_all add: work_def write_payload_def case_prod_beta)

lemma on_schedule_frame:
  assumes "on_schedule s" "tasks s' = tasks s" "flush_task s' = flush_task s" "dirty s' \<Longrightarrow> dirty s \<or> flush_task s \<noteq> None" "closers s' = closers s"
    "\<And>c j. callers s' c = Awaiting j \<Longrightarrow> result j = Some False \<Longrightarrow> callers s c = Awaiting j"
  shows "on_schedule s'"
  using assms(1,4,6) unfolding on_schedule_def assms(2,3,5) by blast

lemma inline_frames [simp]:
  "tasks (fst (write_inline ok s)) = tasks s" "flush_task (fst (write_inline ok s)) = flush_task s"
  "dirty (fst (write_inline ok s)) = dirty s" "batch_depth (fst (write_inline ok s)) = batch_depth s"
  "flush_task (fst (work j ok s)) = flush_task s"
  by (simp_all add: write_inline_def serialize_def work_def case_prod_beta)

lemma mutate_schedule: "on_schedule s \<Longrightarrow> on_schedule (fst (mutate on_loop True s))"
proof -
  assume on: "on_schedule s"
  show ?thesis
  proof (cases "0 < batch_depth s \<or> \<not> on_loop")
    case True
    then have "fst (mutate on_loop True s) = s\<lparr>version := Suc (version s), batch_dirty := True\<rparr> \<or>
        fst (mutate on_loop True s) = fst (write_inline True (s\<lparr>version := Suc (version s)\<rparr>))"
      by (auto simp: mutate_def save_owed_def)
    then show ?thesis
    proof
      assume m: "fst (mutate on_loop True s) = s\<lparr>version := Suc (version s), batch_dirty := True\<rparr>"
      show ?thesis unfolding m by (rule on_schedule_frame [OF on]) simp_all
    next
      assume m: "fst (mutate on_loop True s) = fst (write_inline True (s\<lparr>version := Suc (version s)\<rparr>))"
      show ?thesis unfolding m by (rule on_schedule_frame [OF on]) simp_all
    qed
  next
    case False
    show ?thesis
    proof (cases "flush_task s")
      case None
      then have m: "fst (mutate on_loop True s) = s\<lparr>version := Suc (version s), dirty := True, flush_task := Some (next_task s),
          tasks := (tasks s)(next_task s := Created), next_task := Suc (next_task s)\<rparr>"
        using False by (simp add: mutate_def save_owed_def)
      have dead: "\<not> live_task (tasks s t)" for t using on_scheduleD(1) [OF on, of t] None by simp
      show ?thesis unfolding m
      proof (rule on_scheduleI)
        fix t j assume "tasks (s\<lparr>version := Suc (version s), dirty := True, flush_task := Some (next_task s),
          tasks := (tasks s)(next_task s := Created), next_task := Suc (next_task s)\<rparr>) t = Writing j"
        then show "result j \<noteq> Some False" using on_scheduleD(3) [OF on, of t j] by (simp split: if_splits)
      qed (use dead on_scheduleD(4,5) [OF on] in \<open>simp_all\<close>)
    next
      case (Some t)
      then have m: "fst (mutate on_loop True s) = s\<lparr>version := Suc (version s), dirty := True\<rparr>"
        using False on_scheduleD(1) [OF on, of t] by (simp add: mutate_def save_owed_def)
      show ?thesis unfolding m by (rule on_schedule_frame [OF on]) (simp_all add: Some)
    qed
  qed
qed

lemma flush_schedule: "on_schedule s \<Longrightarrow> on_schedule (fst (flush_sync True s))"
proof -
  assume on: "on_schedule s"
  have "snd (write_inline True (s\<lparr>dirty := False\<rparr>))" by (simp add: write_inline_def serialize_def)
  then have "fst (flush_sync True s) = s \<or> fst (flush_sync True s) = fst (write_inline True (s\<lparr>dirty := False\<rparr>))"
    by (cases "batch_depth s > 0 \<or> (\<not> dirty s \<and> snapshot_seq s \<le> written_seq s)") (auto simp: flush_sync_cases)
  moreover have "on_schedule (fst (write_inline True (s\<lparr>dirty := False\<rparr>)))" by (rule on_schedule_frame [OF on]) simp_all
  ultimately show ?thesis using on by (auto simp only:)
qed

lemma batch_schedule: "on_schedule s \<Longrightarrow> on_schedule (batch_enter s)" "on_schedule s \<Longrightarrow> on_schedule (fst (batch_exit True s))"
proof -
  show "on_schedule s \<Longrightarrow> on_schedule (batch_enter s)" by (erule on_schedule_frame) (auto simp: batch_enter_def)
  show "on_schedule s \<Longrightarrow> on_schedule (fst (batch_exit True s))"
    by (erule on_schedule_frame) (auto simp: batch_exit_def Let_def split: if_splits)
qed

lemma set_live_schedule:
  assumes "on_schedule s" "live_task (tasks s t)" "live_task p" "\<And>j. p = Writing j \<Longrightarrow> result j \<noteq> Some False"
    and "\<And>t. tasks s' t = tasks s t" "flush_task s' = flush_task s" "dirty s' \<Longrightarrow> dirty s" "closers s' = closers s" "callers s' = callers s"
  shows "on_schedule (set_task t p s')"
proof (rule on_scheduleI)
  note d = on_scheduleD [OF assms(1)]
  show "live_task (tasks (set_task t p s') u) \<longleftrightarrow> flush_task (set_task t p s') = Some u" for u
    using d(1) [of u] d(1) [of t] assms(2,3,5,6) by (auto simp: set_task_def)
  show "dirty (set_task t p s') \<Longrightarrow> flush_task (set_task t p s') \<noteq> None"
    using d(2) assms(6,7) by (auto simp: set_task_def)
  show "tasks (set_task t p s') u = Writing j \<Longrightarrow> result j \<noteq> Some False" for u j
    using d(3) [of u j] assms(4,5) by (auto simp: set_task_def split: if_splits)
  show "callers (set_task t p s') c = Awaiting j \<Longrightarrow> result j \<noteq> Some False" "closers (set_task t p s') c = NotClosing" for c j
    using d(4) [of c j] d(5) [of c] assms(8,9) by (simp_all add: set_task_def)
qed

lemma wakes_schedule:
  assumes "on_schedule s" "tasks s t = Debouncing"
  shows "on_schedule (task_wakes t s)"
proof (cases "dirty s")
  case True
  then show ?thesis
    using set_live_schedule [OF assms(1), of t "Writing \<lparr>payload = version s, ticket = snapshot_seq s + 1, result = None\<rparr>"] assms(2)
    by (simp add: task_wakes_def take_pending_snapshot_def serialize_def)
next
  case False
  note d = on_scheduleD [OF assms(1)]
  have t: "flush_task s = Some t" using d(1) [of t] assms(2) by simp
  then have w: "task_wakes t s = set_task t Ended (s\<lparr>flush_task := None\<rparr>)"
    using False by (simp add: task_wakes_def take_pending_snapshot_def retire_task_def)
  show ?thesis unfolding w set_task_def
    by (rule on_scheduleI) (use d t False in \<open>auto split: if_splits\<close>)
qed

lemma enter_schedule: "on_schedule s \<Longrightarrow> on_schedule (aflush_enter c s)"
  by (erule on_schedule_frame) (auto simp: aflush_enter_def claim_for_flush_def serialize_def set_caller_def split: if_splits)

lemma schedule_step:
  assumes on: "on_schedule s" and st: "flush_step a s = Some s'" and sm: "smooth a"
  shows "on_schedule s'"
proof (cases a)
  case (AflushCalled c)
  then have "s' = aflush_enter c (s\<lparr>floor_of := (floor_of s)(c := version s)\<rparr>)" using st by (auto simp: unlocked_eq split: if_splits)
  moreover have "on_schedule (s\<lparr>floor_of := (floor_of s)(c := version s)\<rparr>)" by (rule on_schedule_frame [OF on]) auto
  ultimately show ?thesis using enter_schedule by simp
next
  case (TaskStarts t)
  then have "tasks s t = Created" "s' = set_task t Debouncing s" using st by (auto split: if_splits)
  then show ?thesis using set_live_schedule [OF on, of t Debouncing s] by simp
next
  case (TaskWakes t)
  then show ?thesis using st wakes_schedule [OF on] by (auto simp: unlocked_eq split: if_splits)
next
  case (TaskWrites t ok)
  then obtain j where j: "tasks s t = Writing j" "s' = set_task t (Writing (snd (work j True s))) (fst (work j True s))"
    using st sm by (auto simp: smooth_def case_prod_beta split: flush_phase.splits if_splits)
  then show ?thesis
    using set_live_schedule [OF on, of t "Writing (snd (work j True s))" "fst (work j True s)"] by simp
next
  case (TaskResumes t)
  then obtain j b where j: "tasks s t = Writing j" "result j = Some b" "s' = task_resumes t b s"
    using st by (auto simp: unlocked_eq split: flush_phase.splits option.splits)
  then have b using on_scheduleD(3,4) [OF on] by (cases b) auto
  then show ?thesis using j set_live_schedule [OF on, of t Debouncing s] by (simp add: task_resumes_def)
next
  case (AflushWrites c ok)
  then obtain j where j: "callers s c = Awaiting j" "s' = set_caller c (Awaiting (snd (work j True s))) (fst (work j True s))"
    using st sm by (auto simp: smooth_def case_prod_beta split: caller_phase.splits if_splits)
  show ?thesis unfolding j(2) by (rule on_schedule_frame [OF on]) (auto simp: set_caller_def split: if_splits)
next
  case (AflushResumes c)
  then obtain j b where j: "callers s c = Awaiting j" "result j = Some b" "s' = aflush_resumes c b s"
    using st by (auto simp: unlocked_eq split: caller_phase.splits option.splits)
  then have b using on_scheduleD(3,4) [OF on] by (cases b) auto
  then show ?thesis unfolding j(3)
    by (intro on_schedule_frame [OF on]) (auto simp: aflush_resumes_def set_caller_def split: if_splits)
next
  case (OrphanWrites i ok)
  then have "s' = fst (work (orphans s ! i) ok (s\<lparr>orphans := take i (orphans s) @ drop (Suc i) (orphans s)\<rparr>))"
    using st by (auto split: if_splits)
  then show ?thesis by (intro on_schedule_frame [OF on]) auto
next
  case (Mutate on_loop ok)
  then show ?thesis using st sm mutate_schedule [OF on] by (auto simp: smooth_def)
next
  case (BatchExit ok)
  then show ?thesis using st sm batch_schedule(2) [OF on] by (auto simp: smooth_def split: if_splits)
next
  case (FlushSync ok)
  then show ?thesis using st sm flush_schedule [OF on] by (auto simp: smooth_def)
qed (use st sm on_scheduleD(5) [OF on] batch_schedule(1) [OF on] in \<open>simp_all add: smooth_def\<close>)

lemma smooth_schedule: "flush_run smooth s \<Longrightarrow> on_schedule s"
proof (induction rule: flush_run.induct)
  case (flush_start v)
  show ?case by (simp add: on_schedule_def loaded_file_def live_task_def)
qed (use schedule_step in blast)

text \<open>From its sleep a task lands what is in memory in two steps.\<close>

lemma wake_lands:
  assumes ok: "file_ok s" and d: "dirty s" "batch_depth s = 0" and t: "tasks s t = Debouncing"
  shows "\<exists>s'. run_acts [TaskWakes t, TaskWrites t True] s = Some s' \<and> version s' = version s \<and> on_disk s' = version s"
proof -
  let ?j = "\<lparr>payload = version s, ticket = snapshot_seq s + 1, result = None\<rparr>"
  let ?s = "set_task t (Writing ?j) (s\<lparr>dirty := False, snapshot_seq := snapshot_seq s + 1\<rparr>)"
  have "written_seq s \<le> snapshot_seq s" using ok by (simp add: file_ok_def file_core_def core_def)
  then have "on_disk (fst (work ?j True ?s)) = version s" by (simp add: work_def write_payload_def set_task_def)
  moreover have "flush_step (TaskWakes t) s = Some ?s"
    using t d by (simp add: unlocked_def task_wakes_def take_pending_snapshot_def serialize_def)
  moreover have "flush_step (TaskWrites t True) ?s = Some (set_task t (Writing (snd (work ?j True ?s))) (fst (work ?j True ?s)))"
    by (simp add: set_task_def case_prod_beta)
  ultimately show ?thesis by (simp add: set_task_def)
qed

lemma resume_lands:
  assumes ok: "file_ok s" and d: "dirty s" "batch_depth s = 0" and t: "tasks s t = Writing j" "result j = Some True"
  shows "\<exists>s'. run_acts [TaskResumes t, TaskWakes t, TaskWrites t True] s = Some s' \<and> version s' = version s \<and> on_disk s' = version s"
proof -
  let ?s = "set_task t Debouncing s"
  have "flush_step (TaskResumes t) s = Some ?s" using t d by (simp add: unlocked_def task_resumes_def)
  moreover have "file_ok ?s" using set_task_grows [OF ok, of Debouncing t] by (simp add: grows_def)
  ultimately show ?thesis using wake_lands [of ?s t] d by (simp add: set_task_def)
qed

text \<open>C35. A deferred write is never stranded: while no write fails and nothing is cancelled, a map with the
  dirty mark has a registered flush task, and that task alone, within four of its own steps, brings
  everything in memory to the file.\<close>

theorem deferred_write_lands:
  assumes "flush_run smooth s" "dirty s" "batch_depth s = 0"
  shows "\<exists>t acts s'. flush_task s = Some t \<and> length acts \<le> 4 \<and>
    set acts \<subseteq> {TaskStarts t, TaskWakes t, TaskWrites t True, TaskResumes t} \<and>
    run_acts acts s = Some s' \<and> version s' = version s \<and> on_disk s' = version s"
proof -
  have ok: "file_ok s" by (rule flush_run_ok [OF assms(1)])
  have on: "on_schedule s" by (rule smooth_schedule [OF assms(1)])
  obtain t where t: "flush_task s = Some t" using on_scheduleD(2) [OF on assms(2)] by blast
  then have "live_task (tasks s t)" using on_scheduleD(1) [OF on] by blast
  then consider "tasks s t = Created" | "tasks s t = Debouncing" | j where "tasks s t = Writing j" "result j = None"
    | j where "tasks s t = Writing j" "result j = Some True"
    using on_scheduleD(3) [OF on, of t] by (cases "tasks s t") (auto, metis (full_types) not_Some_eq)
  then have "\<exists>acts s'. length acts \<le> 4 \<and> set acts \<subseteq> {TaskStarts t, TaskWakes t, TaskWrites t True, TaskResumes t} \<and>
      run_acts acts s = Some s' \<and> version s' = version s \<and> on_disk s' = version s"
  proof cases
    case 1
    let ?s = "set_task t Debouncing s"
    have "file_ok ?s" using set_task_grows [OF ok, of Debouncing t] by (simp add: grows_def)
    then have "\<exists>s'. run_acts [TaskStarts t, TaskWakes t, TaskWrites t True] s = Some s' \<and> version s' = version s \<and> on_disk s' = version s"
      using wake_lands [of ?s t] assms(2,3) 1 by (simp add: set_task_def)
    then show ?thesis by (intro exI [of _ "[TaskStarts t, TaskWakes t, TaskWrites t True]"]) simp
  next
    case 2
    then show ?thesis using wake_lands [OF ok assms(2,3)] by (intro exI [of _ "[TaskWakes t, TaskWrites t True]"]) simp
  next
    case (3 j)
    let ?s = "set_task t (Writing (snd (work j True s))) (fst (work j True s))"
    have st: "flush_step (TaskWrites t True) s = Some ?s" using 3 by (simp add: case_prod_beta)
    have "file_ok ?s" using worker_grows(1) [OF ok 3(1)] by (simp add: grows_def)
    then have "\<exists>s'. run_acts [TaskResumes t, TaskWakes t, TaskWrites t True] ?s = Some s' \<and>
        version s' = version s \<and> on_disk s' = version s"
      using resume_lands [of ?s t "snd (work j True s)"] assms(2,3) by (simp add: set_task_def)
    moreover have "run_acts [TaskWrites t True, TaskResumes t, TaskWakes t, TaskWrites t True] s =
        run_acts [TaskResumes t, TaskWakes t, TaskWrites t True] ?s"
      by (subst run_acts.simps(2)) (simp only: st option.case)
    ultimately have "\<exists>s'. run_acts [TaskWrites t True, TaskResumes t, TaskWakes t, TaskWrites t True] s = Some s' \<and>
        version s' = version s \<and> on_disk s' = version s" by (simp only:)
    then show ?thesis by (intro exI [of _ "[TaskWrites t True, TaskResumes t, TaskWakes t, TaskWrites t True]"]) simp
  next
    case (4 j)
    then show ?thesis using resume_lands [OF ok assms(2,3) 4] by (intro exI [of _ "[TaskResumes t, TaskWakes t, TaskWrites t True]"]) simp
  qed
  then show ?thesis using t by blast
qed

lemma deferred_write_lands_witness:
  "\<exists>s acts s'. run_acts [Mutate True True, TaskStarts 0, TaskWakes 0, Mutate True True] (loaded_file 7) = Some s \<and>
     run_acts acts s = Some s' \<and> on_disk s' = 9"
proof -
  let ?acts = "[Mutate True True, TaskStarts 0, TaskWakes 0, Mutate True True]"
  have "case run_acts ?acts (loaded_file 7) of Some s \<Rightarrow> dirty s \<and> batch_depth s = 0 \<and> version s = 9 | None \<Rightarrow> False" by code_simp
  then obtain s where s: "run_acts ?acts (loaded_file 7) = Some s" "dirty s" "batch_depth s = 0" "version s = 9"
    by (auto split: option.splits)
  have "flush_run smooth s" by (rule run_acts_run [OF flush_start _ s(1)]) (simp add: smooth_def)
  from deferred_write_lands [OF this s(2,3)] s show ?thesis by auto
qed

end
