(* ===== verification/Subagent_State.thy ===== *)
theory Subagent_State
  imports Prelude
begin

text \<open>
  The state of the subagent manager (\<open>subagent.py\<close>, \<open>subagent_manager/\<close>) as far as admission, concurrency
  slots and terminal reports go. A coroutine of a run is a control point: its task (\<open>sa_run\<close>), the task
  that may respawn it after an unexpected cancellation (\<open>sa_recovery\<close>), the \<open>_force_reap\<close> calls suspended
  at the session reset (\<open>sa_reaps\<close>) and the task delivering its terminal report (\<open>sa_report\<close>). Code
  between two awaits is one step. Times are integers in one unit; a step reads the clock once.
\<close>

section \<open>Runs\<close>

datatype run_phase = RunNone | RunUnstarted | ApprovalUnstarted | ApprovalAsked | RunExecuting | RunTearingDown | RunEnded

datatype recovery_phase = RecoveryNone | RecoveryUnstarted | AwaitsTeardown | AwaitsSlot | RecoveryEnded

datatype report_phase = ReportNone | ReportUnstarted | ReportStarted

text \<open>\<open>SubagentInfo\<close>. \<open>sa_failed\<close> is whether \<open>error\<close> is set. \<open>sa_listed\<close> is membership in \<open>_agents\<close>,
  \<open>sa_in_tasks\<close> and \<open>sa_recovery_in_tasks\<close> that in \<open>_tasks\<close>; a \<open>_cancelled\<close> flag is a requested
  cancellation that has not arrived yet.\<close>

record subagent =
  sa_parent :: string
  sa_batch :: string
  sa_total :: int
  sa_done :: bool
  sa_failed :: bool
  sa_user_stopped :: bool
  sa_queued :: bool
  sa_reap_started :: bool
  sa_reaped :: bool
  sa_recovering :: bool
  sa_finalized :: bool
  sa_slot_released :: bool
  sa_retry_used :: bool
  sa_awaiting_approval :: bool
  sa_exec_started :: bool
  sa_held_at :: int
  sa_listed :: bool
  sa_run :: run_phase
  sa_run_cancelled :: bool
  sa_in_tasks :: bool
  sa_recovery :: recovery_phase
  sa_recovery_cancelled :: bool
  sa_recovery_in_tasks :: bool
  sa_reaps :: nat
  sa_report :: report_phase

definition new_subagent :: "string \<Rightarrow> string \<Rightarrow> int \<Rightarrow> subagent" where
  "new_subagent parent batch expected =
     \<lparr>sa_parent = parent, sa_batch = batch, sa_total = max 0 expected, sa_done = False, sa_failed = False,
      sa_user_stopped = False, sa_queued = False, sa_reap_started = False, sa_reaped = False,
      sa_recovering = False, sa_finalized = False, sa_slot_released = False, sa_retry_used = False,
      sa_awaiting_approval = False, sa_exec_started = False, sa_held_at = 0, sa_listed = True,
      sa_run = RunNone, sa_run_cancelled = False, sa_in_tasks = False, sa_recovery = RecoveryNone,
      sa_recovery_cancelled = False, sa_recovery_in_tasks = False, sa_reaps = 0, sa_report = ReportNone\<rparr>"

definition run_live :: "subagent \<Rightarrow> bool" where
  "run_live x \<longleftrightarrow> sa_run x \<in> {RunUnstarted, ApprovalUnstarted, ApprovalAsked, RunExecuting, RunTearingDown}"

definition recovery_live :: "subagent \<Rightarrow> bool" where
  "recovery_live x \<longleftrightarrow> sa_recovery x \<in> {RecoveryUnstarted, AwaitsTeardown, AwaitsSlot}"

section \<open>The one-shot tokens\<close>

text \<open>\<open>_claim_finalize_impl\<close>: whether this caller may report, and the record with the token taken.\<close>

definition claim_finalize :: "bool \<Rightarrow> subagent \<Rightarrow> bool \<times> subagent" where
  "claim_finalize supersede x =
     (if sa_recovering x \<and> \<not> supersede then (False, x)
      else if sa_finalized x then (False, x)
      else (True, x\<lparr>sa_recovering := False, sa_finalized := True\<rparr>))"

definition release_slot :: "subagent \<Rightarrow> bool \<times> subagent" where
  "release_slot x = (if sa_slot_released x then (False, x) else (True, x\<lparr>sa_slot_released := True\<rparr>))"

section \<open>The manager\<close>

text \<open>A queued spawn keeps the arguments it was made with; those the manager only passes on to the run are
  not represented. \<open>rq_id\<close> is the identity assigned at the first call.\<close>

record spawn_request =
  rq_id :: string
  rq_task :: string
  rq_parent :: string
  rq_agent :: string
  rq_cwd :: string
  rq_auto :: bool
  rq_batch :: string
  rq_total :: int
  rq_app :: string
  rq_prevalidated :: bool

text \<open>What is handed to the completion consumer: the report of a run, a rejected spawn, a submission that
  never arrived, and the flush of a wave's held results.\<close>

datatype announcement = Terminal string string | Rejection string string | LostSubmission string | DigestFlush string

record manager =
  agents :: "(string, subagent) dict"
  running_count :: int
  max_concurrent :: int
  stagger :: int
  last_spawn :: int
  waiting :: "spawn_request list"
  drain_timers :: nat
  seen_batches :: "string list"
  batch_submitted :: "(string, int \<times> int) dict"
  batch_progress :: "(string, int) dict"
  shutting_down :: bool
  on_done :: bool
  on_spawn_approval :: bool
  announced :: "announcement list"
  starts :: "int list"

text \<open>\<open>announced\<close> lists the announcements scheduled so far and \<open>starts\<close> the times of the starts admitted by
  \<open>spawn\<close>; the other fields are the manager's own.\<close>

definition fresh_manager :: "int \<Rightarrow> int \<Rightarrow> bool \<Rightarrow> bool \<Rightarrow> manager" where
  "fresh_manager limit gap consumer approval =
     \<lparr>agents = [], running_count = 0, max_concurrent = limit, stagger = max 0 gap, last_spawn = 0, waiting = [],
      drain_timers = 0, seen_batches = [], batch_submitted = [], batch_progress = [], shutting_down = False,
      on_done = consumer, on_spawn_approval = approval, announced = [], starts = []\<rparr>"

definition set_agent :: "string \<Rightarrow> subagent \<Rightarrow> manager \<Rightarrow> manager" where
  "set_agent i x m = m\<lparr>agents := dict_set i x (agents m)\<rparr>"

text \<open>What one step finds outside the manager: the two clocks, the memory and admission verdicts, the working
  directory check, governance, the agent lookup, the trust switches, and the hooks' auto-approval.\<close>

record surroundings =
  monotonic :: int
  wall :: int
  memory_ok :: bool
  admitted :: bool
  check_cwd :: "string \<Rightarrow> string option"
  governance_denies :: "string \<Rightarrow> string \<Rightarrow> string \<Rightarrow> bool"
  agent_ok :: "string \<Rightarrow> string \<Rightarrow> bool"
  yolo :: bool
  parent_trusted :: "string \<Rightarrow> bool"
  auto_approve :: "bool option"

section \<open>Announcements and waves\<close>

definition announce :: "announcement \<Rightarrow> manager \<Rightarrow> manager" where
  "announce a m = m\<lparr>announced := announced m @ [a]\<rparr>"

text \<open>\<open>_announce_rejection_impl\<close>: only a wave member's rejection is announced.\<close>

definition announce_rejection :: "spawn_request \<Rightarrow> manager \<Rightarrow> manager" where
  "announce_rejection rq m =
     (if rq_batch rq \<noteq> '''' \<and> on_done m then announce (Rejection (rq_id rq) (rq_batch rq)) m else m)"

text \<open>Counting a wave member as submitted: \<open>setdefault\<close> fixes the expected total at the first member.\<close>

definition count_submission :: "int \<Rightarrow> string \<Rightarrow> int \<Rightarrow> manager \<Rightarrow> manager" where
  "count_submission now b expected m =
     (let (n, t) = dict_get_default (batch_submitted m) b (0, max 0 expected) in
      m\<lparr>batch_submitted := dict_set b (n + 1, t) (batch_submitted m), batch_progress := dict_set b now (batch_progress m)\<rparr>)"

definition batch_members_pending :: "string \<Rightarrow> manager \<Rightarrow> bool" where
  "batch_members_pending b m \<longleftrightarrow> b \<noteq> '''' \<and>
     ((case dict_get (batch_submitted m) b of Some (n, t) \<Rightarrow> t > 0 \<and> n < t | None \<Rightarrow> False) \<or>
      (\<exists>(i, x) \<in> set (agents m). sa_listed x \<and> sa_batch x = b \<and> \<not> sa_done x) \<or>
      (\<exists>rq \<in> set (waiting m). rq_batch rq = b))"

definition finalize_batch :: "string \<Rightarrow> manager \<Rightarrow> manager" where
  "finalize_batch b m =
     (if b = '''' then m
      else m\<lparr>seen_batches := removeAll b (seen_batches m), batch_submitted := dict_del b (batch_submitted m),
             batch_progress := dict_del b (batch_progress m)\<rparr>)"

definition record_lost_submission :: "int \<Rightarrow> string \<Rightarrow> int \<Rightarrow> manager \<Rightarrow> manager" where
  "record_lost_submission now b expected m =
     (if b = '''' then m
      else let m1 = count_submission now b expected m in
        if on_done m then announce (LostSubmission b) m1 else m1)"

section \<open>Slots\<close>

text \<open>A run occupies a slot from its registration, or its respawn, until its token is taken. A record with
  no task never had one, or gave it back when it was turned away.\<close>

definition occupies :: "subagent \<Rightarrow> bool" where
  "occupies x \<longleftrightarrow> sa_run x \<noteq> RunNone \<and> \<not> sa_slot_released x"

definition occupants :: "manager \<Rightarrow> nat" where
  "occupants m = length (filter (\<lambda>(i, x). occupies x) (agents m))"

lemmas sub_defs = claim_finalize_def release_slot_def set_agent_def announce_def

end
