(* ===== verification/Subagent_Admission.thy ===== *)
theory Subagent_Admission
  imports Subagent_State
begin

text \<open>
  Admission (\<open>subagent_manager/admission.py\<close>): \<open>spawn\<close> with every rejection, the stagger queue and its pump.
  \<open>spawn\<close> and \<open>_drain_queue\<close> call each other: a spawn that finds no approval mechanism gives its slot
  back and pumps the queue. Here \<open>admit\<close> is \<open>spawn\<close> up to that point, \<open>drain\<close> the pump and \<open>spawn\<close> the
  composition.
\<close>

section \<open>Admission\<close>

datatype refusal = EmptyTask | LowMemory | MemoryCritical | InvalidCwd | GovernanceDenied | WouldQueue | UnknownAgent

datatype spawn_result = Refused refusal | Queued | Started | TurnedAway

fun rejected :: "spawn_result \<Rightarrow> bool" where
  "rejected (Refused why) = True"
| "rejected TurnedAway = True"
| "rejected r = False"

definition should_stagger_queue :: "int \<Rightarrow> manager \<Rightarrow> bool \<times> bool" where
  "should_stagger_queue now m =
     (let slot_free = running_count m < max_concurrent m; too_soon = now - last_spawn m < stagger m
      in (\<not> slot_free \<or> too_soon, slot_free))"

text \<open>The gates before the queue, in the order of the code; the working directory is resolved.\<close>

definition vet_spawn :: "surroundings \<Rightarrow> spawn_request \<Rightarrow> refusal + string" where
  "vet_spawn e rq =
     (if strip (rq_task rq) = '''' then Inl EmptyTask
      else if \<not> memory_ok e then Inl LowMemory
      else if \<not> admitted e then Inl MemoryCritical
      else case (if rq_cwd rq = '''' then Some '''' else check_cwd e (rq_cwd rq)) of
          None \<Rightarrow> Inl InvalidCwd
        | Some cwd \<Rightarrow> if governance_denies e (rq_parent rq) (rq_agent rq) (rq_app rq) then Inl GovernanceDenied else Inr cwd)"

definition enqueue :: "spawn_request \<Rightarrow> bool \<Rightarrow> manager \<Rightarrow> manager" where
  "enqueue rq slot_free m =
     m\<lparr>waiting := waiting m @ [rq], drain_timers := drain_timers m + (if slot_free then 1 else 0)\<rparr>"

definition register :: "surroundings \<Rightarrow> spawn_request \<Rightarrow> subagent \<Rightarrow> manager \<Rightarrow> manager" where
  "register e rq x m =
     (set_agent (rq_id rq) x m)\<lparr>running_count := running_count m + 1, last_spawn := monotonic e,
       starts := starts m @ [monotonic e],
       seen_batches := (if rq_batch rq \<noteq> '''' \<and> rq_batch rq \<notin> set (seen_batches m)
                        then seen_batches m @ [rq_batch rq] else seen_batches m)\<rparr>"

text \<open>The task the approval ladder creates for an admitted run; None where there is no mechanism.\<close>

definition first_task :: "surroundings \<Rightarrow> spawn_request \<Rightarrow> manager \<Rightarrow> run_phase option" where
  "first_task e rq m =
     (if yolo e \<or> rq_auto rq \<or> (rq_parent rq \<noteq> '''' \<and> parent_trusted e (rq_parent rq)) \<or> auto_approve e = Some True
      then Some RunUnstarted
      else if on_spawn_approval m then Some ApprovalUnstarted
      else None)"

text \<open>A run with no approval mechanism stays registered as done; its slot is taken back by a bare decrement
  that leaves the slot token alone.\<close>

definition start_run :: "surroundings \<Rightarrow> spawn_request \<Rightarrow> manager \<Rightarrow> manager \<times> spawn_result" where
  "start_run e rq m =
     (let x = new_subagent (rq_parent rq) (rq_batch rq) (rq_total rq) in
      case first_task e rq m of
        Some t \<Rightarrow> (register e rq (x\<lparr>sa_run := t, sa_in_tasks := True\<rparr>) m, Started)
      | None \<Rightarrow> ((register e rq (x\<lparr>sa_done := True, sa_failed := True\<rparr>) m)\<lparr>running_count := running_count m\<rparr>, TurnedAway))"

definition admit :: "surroundings \<Rightarrow> spawn_request \<Rightarrow> bool \<Rightarrow> manager \<Rightarrow> manager \<times> spawn_result" where
  "admit e rq from_queue m =
     (let m = (if rq_batch rq \<noteq> '''' \<and> \<not> from_queue then count_submission (wall e) (rq_batch rq) (rq_total rq) m else m) in
      case vet_spawn e rq of
        Inl r \<Rightarrow> (announce_rejection rq m, Refused r)
      | Inr cwd \<Rightarrow>
          (case should_stagger_queue (monotonic e) m of (should_queue, slot_free) \<Rightarrow>
           if should_queue then
             (if rq_prevalidated rq then (announce_rejection rq m, Refused WouldQueue)
              else (enqueue (rq\<lparr>rq_cwd := cwd\<rparr>) slot_free m, Queued))
           else if rq_agent rq \<noteq> '''' \<and> \<not> rq_prevalidated rq \<and> \<not> agent_ok e (rq_agent rq) cwd then
             (announce_rejection rq m, Refused UnknownAgent)
           else start_run e rq m))"

text \<open>After the slot is given back: with hooks the rejection follows \<open>_announce_rejection\<close>, without hooks it
  is announced whether or not the run is a wave member.\<close>

definition announce_turned_away :: "surroundings \<Rightarrow> spawn_request \<Rightarrow> manager \<Rightarrow> manager" where
  "announce_turned_away e rq m =
     (if auto_approve e \<noteq> None then announce_rejection rq m
      else if on_done m then announce (Rejection (rq_id rq) (rq_batch rq)) m else m)"

section \<open>The pump\<close>

text \<open>A queued run whose record says it is over is skipped.\<close>

definition over_while_waiting :: "spawn_request \<Rightarrow> manager \<Rightarrow> bool" where
  "over_while_waiting rq m \<longleftrightarrow>
     (case dict_get (agents m) (rq_id rq) of None \<Rightarrow> False
      | Some x \<Rightarrow> sa_listed x \<and> (sa_done x \<or> sa_user_stopped x \<or> sa_reaped x))"

text \<open>A drained spawn has no caller to read its rejection: outside a wave the pump announces it.\<close>

definition announce_drained :: "spawn_request \<Rightarrow> spawn_result \<Rightarrow> manager \<Rightarrow> manager" where
  "announce_drained rq r m =
     (if rejected r \<and> rq_batch rq = '''' \<and> on_done m
      then announce (Rejection (rq_id rq) '''') m else m)"

definition rearm_pump :: "manager \<Rightarrow> manager" where
  "rearm_pump m =
     (if waiting m \<noteq> [] \<and> running_count m < max_concurrent m then m\<lparr>drain_timers := drain_timers m + 1\<rparr> else m)"

lemma admit_turned_away_waiting:
  "admit e rq True m = (m', TurnedAway) \<Longrightarrow> waiting m' = waiting m"
  by (auto simp: admit_def Let_def start_run_def register_def set_agent_def split: sum.splits prod.splits option.splits if_splits)

function drain :: "surroundings \<Rightarrow> manager \<Rightarrow> manager" where
  "drain e m =
     (case waiting m of [] \<Rightarrow> m
      | rq # rest \<Rightarrow>
          if running_count m \<ge> max_concurrent m then m
          else if monotonic e - last_spawn m < stagger m then m\<lparr>drain_timers := drain_timers m + 1\<rparr>
          else
            let m1 = m\<lparr>waiting := rest\<rparr> in
            if over_while_waiting rq m1 then (if rest = [] then m1 else drain e m1)
            else
              let (m2, r) = admit e rq True m1;
                  m3 = (if r = TurnedAway then announce_turned_away e rq (drain e m2) else m2)
              in rearm_pump (announce_drained rq r m3))"
  by pat_completeness auto
termination
  by (relation "measure (\<lambda>(e, m). length (waiting m))")
    (auto dest!: sym [where t = "admit _ _ _ _"] admit_turned_away_waiting)

declare drain.simps [simp del]

definition spawn :: "surroundings \<Rightarrow> spawn_request \<Rightarrow> manager \<Rightarrow> manager \<times> spawn_result" where
  "spawn e rq m =
     (let (m1, r) = admit e rq False m
      in (if r = TurnedAway then announce_turned_away e rq (drain e m1) else m1, r))"

text \<open>Giving a slot back through the token, with the decrement of the caller.\<close>

definition free_slot :: "surroundings \<Rightarrow> string \<Rightarrow> bool \<Rightarrow> manager \<Rightarrow> manager" where
  "free_slot e i floored m =
     (case dict_get (agents m) i of None \<Rightarrow> m
      | Some x \<Rightarrow>
          (case release_slot x of (won, y) \<Rightarrow>
             if won then drain e ((set_agent i y m)\<lparr>running_count :=
               (if floored then max 0 (running_count m - 1) else running_count m - 1)\<rparr>)
             else m))"

end
