(* ===== verification/Subagent_Runs.thy ===== *)
theory Subagent_Runs
  imports Subagent_Admission
begin

text \<open>
  The life of a run (\<open>subagent_manager/run.py\<close>, \<open>terminal.py\<close>, \<open>cancellation.py\<close>, \<open>monitoring.py\<close>) as
  steps: each operation is the code between two awaits, and \<open>sub_step\<close> picks the operation an event starts
  or resumes. An event that cannot happen in a state has no successor.
\<close>

definition upd_agent :: "string \<Rightarrow> (subagent \<Rightarrow> subagent) \<Rightarrow> manager \<Rightarrow> manager" where
  "upd_agent i f m = (case dict_get (agents m) i of None \<Rightarrow> m | Some x \<Rightarrow> set_agent i (f x) m)"

section \<open>Reporting and the end of a run\<close>

text \<open>Taking the report claim and, for its winner, starting the terminal report.\<close>

definition report_claimed :: "bool \<Rightarrow> string \<Rightarrow> manager \<Rightarrow> manager" where
  "report_claimed supersede i m =
     (case dict_get (agents m) i of None \<Rightarrow> m
      | Some x \<Rightarrow>
          (case claim_finalize supersede x of (won, y) \<Rightarrow>
             if won then announce (Terminal i (sa_batch x)) (set_agent i (y\<lparr>sa_report := ReportUnstarted\<rparr>) m) else m))"

text \<open>The inner \<open>finally\<close> of \<open>_run\<close>, after the session teardown.\<close>

definition end_run :: "surroundings \<Rightarrow> string \<Rightarrow> manager \<Rightarrow> manager" where
  "end_run e i m =
     upd_agent i (\<lambda>x. x\<lparr>sa_in_tasks := False, sa_run := RunEnded, sa_run_cancelled := False\<rparr>) (free_slot e i False m)"

text \<open>The outer \<open>finally\<close>: the claim comes before the teardown, which a reaped run skips.\<close>

definition finish_run :: "surroundings \<Rightarrow> string \<Rightarrow> manager \<Rightarrow> manager" where
  "finish_run e i m =
     (let m1 = report_claimed False i m in
      case dict_get (agents m1) i of None \<Rightarrow> m1
      | Some x \<Rightarrow> if sa_reaped x then end_run e i m1
                  else set_agent i (x\<lparr>sa_run := RunTearingDown, sa_run_cancelled := False\<rparr>) m1)"

text \<open>How \<open>_run_inner\<close> comes back: completed, bailed out on a limit (it sets the record itself), or raised or
  timed out (the record is left alone once the run is reaped).\<close>

datatype run_outcome = Completed | Bailed | Broke

definition settle_record :: "run_outcome \<Rightarrow> subagent \<Rightarrow> subagent" where
  "settle_record how x =
     (case how of
        Completed \<Rightarrow> x\<lparr>sa_done := True\<rparr>
      | Bailed \<Rightarrow> x\<lparr>sa_done := True, sa_failed := True\<rparr>
      | Broke \<Rightarrow> if sa_reaped x then x else x\<lparr>sa_done := True, sa_failed := True\<rparr>)"

text \<open>The \<open>CancelledError\<close> arm: an unexpected cancellation of a run that has called no tool yet is recovered
  once, on a task of its own.\<close>

definition cancelled_record :: "bool \<Rightarrow> nat \<Rightarrow> bool \<Rightarrow> subagent \<Rightarrow> subagent" where
  "cancelled_record shutting tools draining x =
     (if sa_reaped x then x
      else if \<not> sa_user_stopped x \<and> \<not> shutting \<and> \<not> sa_retry_used x \<and> \<not> draining \<and> tools = 0
        then x\<lparr>sa_retry_used := True, sa_recovering := True, sa_recovery := RecoveryUnstarted,
               sa_recovery_in_tasks := True, sa_recovery_cancelled := False\<rparr>
      else x\<lparr>sa_done := True, sa_failed := True\<rparr>)"

section \<open>The reap\<close>

text \<open>\<open>_cancel_task_intentionally\<close>: without a terminal marker the recovery budget is spent first.\<close>

definition cancel_intentionally :: "bool \<Rightarrow> subagent \<Rightarrow> subagent" where
  "cancel_intentionally shutting x =
     (if shutting \<or> sa_user_stopped x \<or> sa_reaped x \<or> sa_done x then x else x\<lparr>sa_retry_used := True\<rparr>)
     \<lparr>sa_run_cancelled := True\<rparr>"

text \<open>\<open>_force_reap\<close> up to the session reset.\<close>

definition begin_reap :: "subagent \<Rightarrow> subagent" where
  "begin_reap x =
     x\<lparr>sa_reap_started := True, sa_reaps := sa_reaps x + 1, sa_recovery_in_tasks := False,
       sa_recovery_cancelled := (sa_recovery_cancelled x \<or> (sa_recovery_in_tasks x \<and> recovery_live x))\<rparr>"

text \<open>The record as \<open>_force_reap\<close> leaves it after the reset, before the slot and the report.\<close>

definition reap_record :: "bool \<Rightarrow> subagent \<Rightarrow> subagent" where
  "reap_record shutting x =
     (let y = (if sa_in_tasks x \<and> run_live x then cancel_intentionally shutting (x\<lparr>sa_reaped := True\<rparr>) else x)
      in y\<lparr>sa_in_tasks := False, sa_reaped := True, sa_reaps := sa_reaps x - 1, sa_done := True,
           sa_failed := (sa_failed x \<or> (\<not> sa_done x \<and> \<not> sa_user_stopped x))\<rparr>)"

definition resume_reap :: "surroundings \<Rightarrow> string \<Rightarrow> manager \<Rightarrow> manager" where
  "resume_reap e i m =
     report_claimed True i (free_slot e i True (upd_agent i (reap_record (shutting_down m)) m))"

section \<open>The recovery of a cancelled run\<close>

definition recovery_off :: "subagent \<Rightarrow> bool \<Rightarrow> bool" where
  "recovery_off x shutting \<longleftrightarrow> sa_done x \<or> sa_reap_started x \<or> sa_reaped x \<or> shutting"

definition end_recovery :: "subagent \<Rightarrow> subagent" where
  "end_recovery x = x\<lparr>sa_recovering := False, sa_recovery := RecoveryEnded, sa_recovery_in_tasks := False,
     sa_recovery_cancelled := False\<rparr>"

text \<open>The respawn takes a slot, arms the token again and creates the task in one step.\<close>

definition respawn :: "string \<Rightarrow> subagent \<Rightarrow> manager \<Rightarrow> manager" where
  "respawn i x m =
     (set_agent i ((end_recovery x)\<lparr>sa_slot_released := False, sa_run := RunUnstarted, sa_run_cancelled := False,
        sa_in_tasks := True\<rparr>) m)\<lparr>running_count := running_count m + 1\<rparr>"

definition fail_recovery :: "string \<Rightarrow> subagent \<Rightarrow> manager \<Rightarrow> manager" where
  "fail_recovery i x m =
     (let y = end_recovery x;
          z = (if sa_done y \<or> sa_reap_started y \<or> sa_reaped y then y else y\<lparr>sa_done := True, sa_failed := True\<rparr>)
      in report_claimed False i (set_agent i z m))"

text \<open>Once the interrupted run is gone: stop, wait for capacity, or respawn.\<close>

definition resume_recovery :: "string \<Rightarrow> subagent \<Rightarrow> manager \<Rightarrow> manager" where
  "resume_recovery i x m =
     (if recovery_off x (shutting_down m) then set_agent i (end_recovery x) m
      else if running_count m \<ge> max_concurrent m then set_agent i (x\<lparr>sa_recovery := AwaitsSlot\<rparr>) m
      else respawn i x m)"

definition poll_slot :: "string \<Rightarrow> bool \<Rightarrow> subagent \<Rightarrow> manager \<Rightarrow> manager" where
  "poll_slot i expired x m =
     (if running_count m \<ge> max_concurrent m
      then (if expired \<or> shutting_down m then fail_recovery i x m else m)
      else if recovery_off x (shutting_down m) then set_agent i (end_recovery x) m
      else respawn i x m)"

text \<open>\<open>_resume_guarded\<close> on a cancellation; a task cancelled before its first step runs none of it.\<close>

definition cancel_recovery :: "subagent \<Rightarrow> subagent" where
  "cancel_recovery x =
     (if sa_recovery x = RecoveryUnstarted
      then x\<lparr>sa_recovery := RecoveryEnded, sa_recovery_cancelled := False\<rparr>
      else if sa_in_tasks x \<and> run_live x then end_recovery x
      else if sa_done x \<or> sa_reap_started x \<or> sa_reaped x then end_recovery x
      else (end_recovery x)\<lparr>sa_done := True, sa_failed := True\<rparr>)"

section \<open>Stopping\<close>

definition unqueue :: "string \<Rightarrow> manager \<Rightarrow> (spawn_request \<times> manager) option" where
  "unqueue i m =
     (case filter (\<lambda>rq. rq_id rq = i) (waiting m) of [] \<Rightarrow> None
      | rq # _ \<Rightarrow> Some (rq, m\<lparr>waiting := remove1 rq (waiting m)\<rparr>))"

text \<open>The synthetic record of a run stopped in the queue is registered not done; its report will set it.\<close>

definition report_queued_stop :: "spawn_request \<Rightarrow> manager \<Rightarrow> manager" where
  "report_queued_stop rq m =
     (if rq_id rq = '''' then m
      else report_claimed False (rq_id rq)
        (set_agent (rq_id rq)
          ((new_subagent (rq_parent rq) (rq_batch rq) (rq_total rq))\<lparr>sa_user_stopped := True, sa_queued := True\<rparr>) m))"

text \<open>\<open>cancel\<close> up to its await.\<close>

definition stop_agent :: "string \<Rightarrow> manager \<Rightarrow> manager" where
  "stop_agent i m =
     (case dict_get (agents m) i of
        Some x \<Rightarrow> if sa_listed x \<and> \<not> sa_done x
                   then set_agent i (begin_reap (x\<lparr>sa_user_stopped := True\<rparr>)) m
                   else (case unqueue i m of None \<Rightarrow> m | Some (rq, m') \<Rightarrow> report_queued_stop rq m')
      | None \<Rightarrow> (case unqueue i m of None \<Rightarrow> m | Some (rq, m') \<Rightarrow> report_queued_stop rq m'))"

text \<open>\<open>cancel_for_parent\<close> before its first await; the running agents it then cancels are \<open>stop_agent\<close> steps.\<close>

definition stop_waiting :: "string \<Rightarrow> manager \<Rightarrow> manager" where
  "stop_waiting parent m =
     (if parent = '''' then m
      else fold (\<lambda>i m. case unqueue i m of None \<Rightarrow> m | Some (rq, m') \<Rightarrow> report_queued_stop rq m')
             (map rq_id (filter (\<lambda>rq. rq_parent rq = parent \<and> rq_id rq \<noteq> '''') (waiting m))) m)"

definition stoppable :: "string \<Rightarrow> subagent \<Rightarrow> bool" where
  "stoppable parent x \<longleftrightarrow> sa_listed x \<and> sa_parent x = parent \<and> \<not> sa_done x \<and> \<not> sa_queued x \<and>
     \<not> (sa_awaiting_approval x \<and> \<not> sa_exec_started x)"

text \<open>\<open>cancel_all\<close>: every registered task that is not finished is cancelled.\<close>

definition shut_down_agent :: "subagent \<Rightarrow> subagent" where
  "shut_down_agent x =
     (let y = (if sa_in_tasks x \<and> run_live x then cancel_intentionally True x else x)
      in y\<lparr>sa_recovery_cancelled := (sa_recovery_cancelled x \<or> (sa_recovery_in_tasks x \<and> recovery_live x))\<rparr>)"

definition shut_down :: "manager \<Rightarrow> manager" where
  "shut_down m = m\<lparr>shutting_down := True, agents := map (map_prod id shut_down_agent) (agents m)\<rparr>"

section \<open>Steps\<close>

datatype sub_event =
    Spawn spawn_request
  | DrainTimer
  | RunBegins string
  | ApprovalBegins string
  | ApprovalAnswered string bool
  | RunReturns string run_outcome
  | CancelArrives string nat bool
  | TeardownOver string
  | RecoveryBegins string
  | TeardownSeen string
  | TeardownLate string
  | SlotPolled string bool
  | RecoveryCancelArrives string
  | StopAgent string
  | StopWaiting string
  | ReaperFires string
  | ReapResumes string
  | ReportBegins string
  | StrayCancel string
  | CloseManager
  | ClearCompleted string
  | Evicted string
  | ResultHeld string int
  | MemberLost string int
  | WaveOver string

definition with_agent :: "string \<Rightarrow> manager \<Rightarrow> (subagent \<Rightarrow> manager option) \<Rightarrow> manager option" where
  "with_agent i m f = (case dict_get (agents m) i of None \<Rightarrow> None | Some x \<Rightarrow> f x)"

text \<open>The identity of a spawn is fresh (a UUID in the code).\<close>

definition unused_id :: "string \<Rightarrow> manager \<Rightarrow> bool" where
  "unused_id i m \<longleftrightarrow> i \<noteq> '''' \<and> i \<notin> fst ` set (agents m) \<and> i \<notin> rq_id ` set (waiting m)"

text \<open>A denied or failed spawn approval.\<close>

definition deny_approval :: "surroundings \<Rightarrow> string \<Rightarrow> subagent \<Rightarrow> manager \<Rightarrow> manager" where
  "deny_approval e i x m =
     (let m1 = free_slot e i False (set_agent i (x\<lparr>sa_awaiting_approval := False, sa_done := True, sa_failed := True\<rparr>) m);
          m2 = upd_agent i (\<lambda>y. y\<lparr>sa_in_tasks := False, sa_run := RunEnded, sa_run_cancelled := False\<rparr>) m1
      in if on_done m2 then report_claimed False i m2 else m2)"

text \<open>A requested cancellation reaches the run's task.\<close>

definition cancel_arrives :: "surroundings \<Rightarrow> string \<Rightarrow> nat \<Rightarrow> bool \<Rightarrow> subagent \<Rightarrow> manager \<Rightarrow> manager" where
  "cancel_arrives e i tools draining x m =
     (case sa_run x of
        RunExecuting \<Rightarrow> finish_run e i (set_agent i (cancelled_record (shutting_down m) tools draining x) m)
      | RunTearingDown \<Rightarrow> end_run e i m
      | _ \<Rightarrow> set_agent i (x\<lparr>sa_run := RunEnded, sa_run_cancelled := False, sa_awaiting_approval := False\<rparr>) m)"

fun sub_step :: "surroundings \<Rightarrow> sub_event \<Rightarrow> manager \<Rightarrow> manager option" where
  "sub_step e (Spawn rq) m = (if unused_id (rq_id rq) m then Some (fst (spawn e rq m)) else None)"
| "sub_step e DrainTimer m =
     (if drain_timers m > 0 then Some (drain e (m\<lparr>drain_timers := drain_timers m - 1\<rparr>)) else None)"
| "sub_step e (RunBegins i) m = with_agent i m (\<lambda>x.
     if sa_run x = RunUnstarted \<and> \<not> sa_run_cancelled x
     then Some (set_agent i (x\<lparr>sa_run := RunExecuting, sa_exec_started := True\<rparr>) m) else None)"
| "sub_step e (ApprovalBegins i) m = with_agent i m (\<lambda>x.
     if sa_run x = ApprovalUnstarted \<and> \<not> sa_run_cancelled x
     then Some (set_agent i (x\<lparr>sa_run := ApprovalAsked, sa_awaiting_approval := True\<rparr>) m) else None)"
| "sub_step e (ApprovalAnswered i approved) m = with_agent i m (\<lambda>x.
     if sa_run x = ApprovalAsked \<and> \<not> sa_run_cancelled x
     then Some (if approved
       then set_agent i (x\<lparr>sa_awaiting_approval := False, sa_run := RunExecuting, sa_exec_started := True\<rparr>) m
       else deny_approval e i x m) else None)"
| "sub_step e (RunReturns i how) m = with_agent i m (\<lambda>x.
     if sa_run x = RunExecuting \<and> \<not> sa_run_cancelled x
     then Some (finish_run e i (set_agent i (settle_record how x) m)) else None)"
| "sub_step e (CancelArrives i tools draining) m = with_agent i m (\<lambda>x.
     if run_live x \<and> sa_run_cancelled x then Some (cancel_arrives e i tools draining x m) else None)"
| "sub_step e (TeardownOver i) m = with_agent i m (\<lambda>x.
     if sa_run x = RunTearingDown \<and> \<not> sa_run_cancelled x then Some (end_run e i m) else None)"
| "sub_step e (RecoveryBegins i) m = with_agent i m (\<lambda>x.
     if sa_recovery x = RecoveryUnstarted \<and> \<not> sa_recovery_cancelled x
     then Some (set_agent i (x\<lparr>sa_recovery := AwaitsTeardown\<rparr>) m) else None)"
| "sub_step e (TeardownSeen i) m = with_agent i m (\<lambda>x.
     if sa_recovery x = AwaitsTeardown \<and> \<not> sa_recovery_cancelled x \<and> sa_run x = RunEnded
     then Some (resume_recovery i x m) else None)"
| "sub_step e (TeardownLate i) m = with_agent i m (\<lambda>x.
     if sa_recovery x = AwaitsTeardown \<and> \<not> sa_recovery_cancelled x \<and> sa_run x \<noteq> RunEnded
     then Some (fail_recovery i x m) else None)"
| "sub_step e (SlotPolled i expired) m = with_agent i m (\<lambda>x.
     if sa_recovery x = AwaitsSlot \<and> \<not> sa_recovery_cancelled x then Some (poll_slot i expired x m) else None)"
| "sub_step e (RecoveryCancelArrives i) m = with_agent i m (\<lambda>x.
     if recovery_live x \<and> sa_recovery_cancelled x then Some (set_agent i (cancel_recovery x) m) else None)"
| "sub_step e (StopAgent i) m = Some (stop_agent i m)"
| "sub_step e (StopWaiting parent) m = Some (stop_waiting parent m)"
| "sub_step e (ReaperFires i) m = with_agent i m (\<lambda>x.
     if sa_listed x \<and> \<not> sa_done x \<and> \<not> shutting_down m then Some (set_agent i (begin_reap x) m) else None)"
| "sub_step e (ReapResumes i) m = with_agent i m (\<lambda>x. if sa_reaps x > 0 then Some (resume_reap e i m) else None)"
| "sub_step e (ReportBegins i) m = with_agent i m (\<lambda>x.
     if sa_report x = ReportUnstarted then Some (set_agent i (x\<lparr>sa_done := True, sa_report := ReportStarted\<rparr>) m) else None)"
| "sub_step e (StrayCancel i) m = with_agent i m (\<lambda>x.
     if run_live x then Some (set_agent i (x\<lparr>sa_run_cancelled := True\<rparr>) m) else None)"
| "sub_step e CloseManager m = Some (shut_down m)"
| "sub_step e (ClearCompleted i) m = with_agent i m (\<lambda>x.
     if sa_listed x \<and> sa_done x then Some (set_agent i (x\<lparr>sa_listed := False, sa_in_tasks := False\<rparr>) m) else None)"
| "sub_step e (Evicted i) m = with_agent i m (\<lambda>x.
     if sa_listed x \<and> sa_done x then Some (set_agent i (x\<lparr>sa_listed := False\<rparr>) m) else None)"
| "sub_step e (ResultHeld i t) m = with_agent i m (\<lambda>x. Some (set_agent i (x\<lparr>sa_held_at := t\<rparr>) m))"
| "sub_step e (MemberLost b n) m = Some (record_lost_submission (wall e) b n m)"
| "sub_step e (WaveOver b) m = Some (finalize_batch b m)"

text \<open>Runs whose events satisfy a condition; \<open>anything\<close> is no condition.\<close>

inductive manager_run :: "(sub_event \<Rightarrow> manager \<Rightarrow> bool) \<Rightarrow> manager \<Rightarrow> bool" for P where
  manager_fresh: "manager_run P (fresh_manager limit gap consumer approval)"
| manager_next: "manager_run P m \<Longrightarrow> P ev m \<Longrightarrow> sub_step e ev m = Some m' \<Longrightarrow> manager_run P m'"

lemma manager_run_mono: "manager_run P m \<Longrightarrow> (\<And>ev m. P ev m \<Longrightarrow> Q ev m) \<Longrightarrow> manager_run Q m"
  by (induction rule: manager_run.induct) (auto intro: manager_run.intros)

end
