(* ===== verification/Subagent_Slots.thy ===== *)
theory Subagent_Slots
  imports Subagent_Runs
begin

text \<open>
  Concurrency slots. The counter of the manager is the number of runs that occupy a slot, it never exceeds
  the limit, starts keep the stagger distance, and a queue that could move has a pump timer. The pump and
  the spawn only add records (\<open>pumped\<close>), so every other step is a change of one record followed by a pump.
\<close>

section \<open>What the operations leave alone\<close>

lemma set_agent_fields [simp]:
  "agents (set_agent i x m) = dict_set i x (agents m)"
  "running_count (set_agent i x m) = running_count m"
  "max_concurrent (set_agent i x m) = max_concurrent m"
  "stagger (set_agent i x m) = stagger m"
  "last_spawn (set_agent i x m) = last_spawn m"
  "waiting (set_agent i x m) = waiting m"
  "drain_timers (set_agent i x m) = drain_timers m"
  "shutting_down (set_agent i x m) = shutting_down m"
  "on_done (set_agent i x m) = on_done m"
  "on_spawn_approval (set_agent i x m) = on_spawn_approval m"
  "starts (set_agent i x m) = starts m"
  "announced (set_agent i x m) = announced m"
  "batch_submitted (set_agent i x m) = batch_submitted m"
  "batch_progress (set_agent i x m) = batch_progress m"
  by (simp_all add: set_agent_def)

lemma announce_fields [simp]:
  "agents (announce a m) = agents m"
  "running_count (announce a m) = running_count m"
  "max_concurrent (announce a m) = max_concurrent m"
  "stagger (announce a m) = stagger m"
  "last_spawn (announce a m) = last_spawn m"
  "waiting (announce a m) = waiting m"
  "drain_timers (announce a m) = drain_timers m"
  "shutting_down (announce a m) = shutting_down m"
  "on_done (announce a m) = on_done m"
  "on_spawn_approval (announce a m) = on_spawn_approval m"
  "starts (announce a m) = starts m"
  "batch_submitted (announce a m) = batch_submitted m"
  "batch_progress (announce a m) = batch_progress m"
  "announced (announce a m) = announced m @ [a]"
  by (simp_all add: announce_def)

text \<open>The part of the state admission and slots depend on.\<close>

definition slot_view :: "manager \<Rightarrow> _" where
  "slot_view m = (agents m, running_count m, max_concurrent m, stagger m, last_spawn m, waiting m, drain_timers m,
     shutting_down m, on_done m, on_spawn_approval m, starts m)"

lemma slot_view_announce [simp]: "slot_view (announce a m) = slot_view m"
  by (simp add: slot_view_def)

lemma slot_view_announcements [simp]:
  "slot_view (announce_rejection rq m) = slot_view m"
  "slot_view (announce_turned_away e rq m) = slot_view m"
  "slot_view (announce_drained rq r m) = slot_view m"
  by (simp_all add: announce_rejection_def announce_turned_away_def announce_drained_def)

lemma slot_view_waves [simp]:
  "slot_view (count_submission now b n m) = slot_view m"
  "slot_view (finalize_batch b m) = slot_view m"
  "slot_view (record_lost_submission now b n m) = slot_view m"
proof -
  show c: "slot_view (count_submission now b n m) = slot_view m" for m
    by (simp add: count_submission_def slot_view_def split: prod.splits)
  show "slot_view (finalize_batch b m) = slot_view m" by (simp add: finalize_batch_def slot_view_def)
  show "slot_view (record_lost_submission now b n m) = slot_view m"
    using c by (simp add: record_lost_submission_def Let_def)
qed

lemma slot_view_eq:
  "slot_view m' = slot_view m \<longleftrightarrow> agents m' = agents m \<and> running_count m' = running_count m \<and>
     max_concurrent m' = max_concurrent m \<and> stagger m' = stagger m \<and> last_spawn m' = last_spawn m \<and>
     waiting m' = waiting m \<and> drain_timers m' = drain_timers m \<and> shutting_down m' = shutting_down m \<and>
     on_done m' = on_done m \<and> on_spawn_approval m' = on_spawn_approval m \<and> starts m' = starts m"
  by (simp add: slot_view_def)

lemmas same_view = slot_view_announcements [unfolded slot_view_eq] slot_view_waves [unfolded slot_view_eq]

section \<open>Admission, case by case\<close>

text \<open>The record \<open>spawn\<close> registers.\<close>

definition newborn :: "subagent \<Rightarrow> bool" where
  "newborn x \<longleftrightarrow>
     (\<exists>parent batch n. \<exists>t \<in> {RunUnstarted, ApprovalUnstarted}.
        x = (new_subagent parent batch n)\<lparr>sa_run := t, sa_in_tasks := True\<rparr>) \<or>
     (\<exists>parent batch n. x = (new_subagent parent batch n)\<lparr>sa_done := True, sa_failed := True\<rparr>)"

definition constants :: "manager \<Rightarrow> _" where
  "constants m = (max_concurrent m, stagger m, on_done m, on_spawn_approval m, shutting_down m)"

lemma constants_of_view: "slot_view m' = slot_view m \<Longrightarrow> constants m' = constants m"
  by (simp add: slot_view_eq constants_def)

lemma admit_cases:
  assumes "admit e rq fq m = (m', r)"
  obtains (refused) why where "r = Refused why" "slot_view m' = slot_view m"
  | (queued) cwd k where "r = Queued" "slot_view m' = slot_view (m\<lparr>waiting := waiting m @ [rq\<lparr>rq_cwd := cwd\<rparr>], drain_timers := k\<rparr>)"
      "running_count m \<ge> max_concurrent m \<or> monotonic e - last_spawn m < stagger m"
      "running_count m < max_concurrent m \<Longrightarrow> k > 0" "k \<ge> drain_timers m"
  | (started) x where "r = Started" "newborn x" "sa_run x \<noteq> RunNone" "sa_batch x = rq_batch rq"
      "slot_view m' = slot_view (m\<lparr>agents := dict_set (rq_id rq) x (agents m), running_count := running_count m + 1,
         last_spawn := monotonic e, starts := starts m @ [monotonic e]\<rparr>)"
      "running_count m < max_concurrent m" "monotonic e - last_spawn m \<ge> stagger m"
  | (turned_away) x where "r = TurnedAway" "newborn x" "sa_run x = RunNone" "sa_batch x = rq_batch rq" "sa_done x"
      "slot_view m' = slot_view (m\<lparr>agents := dict_set (rq_id rq) x (agents m), last_spawn := monotonic e,
         starts := starts m @ [monotonic e]\<rparr>)"
      "running_count m < max_concurrent m" "monotonic e - last_spawn m \<ge> stagger m"
proof -
  define m0 where "m0 = (if rq_batch rq \<noteq> '''' \<and> \<not> fq then count_submission (wall e) (rq_batch rq) (rq_total rq) m else m)"
  have v: "slot_view m0 = slot_view m" by (simp add: m0_def)
  note v0 = v [unfolded slot_view_eq]
  have a: "admit e rq fq m =
      (case vet_spawn e rq of
        Inl r \<Rightarrow> (announce_rejection rq m0, Refused r)
      | Inr cwd \<Rightarrow>
          (case should_stagger_queue (monotonic e) m0 of (should_queue, slot_free) \<Rightarrow>
           if should_queue then
             (if rq_prevalidated rq then (announce_rejection rq m0, Refused WouldQueue)
              else (enqueue (rq\<lparr>rq_cwd := cwd\<rparr>) slot_free m0, Queued))
           else if rq_agent rq \<noteq> '''' \<and> \<not> rq_prevalidated rq \<and> \<not> agent_ok e (rq_agent rq) cwd then
             (announce_rejection rq m0, Refused UnknownAgent)
           else start_run e rq m0))"
    unfolding admit_def m0_def Let_def by (rule refl)
  show thesis
  proof (cases "vet_spawn e rq")
    case (Inl why)
    then show thesis using assms refused v by (auto simp: a)
  next
    case (Inr cwd)
    show thesis
    proof (cases "running_count m < max_concurrent m \<and> monotonic e - last_spawn m \<ge> stagger m")
      case False
      then have q: "fst (should_stagger_queue (monotonic e) m0)" using v0 by (auto simp: should_stagger_queue_def Let_def)
      show thesis
      proof (cases "rq_prevalidated rq")
        case True
        then show thesis using assms refused v Inr q by (auto simp: a split: prod.splits)
      next
        case ready: False
        then have "r = Queued"
          "m' = m0\<lparr>waiting := waiting m @ [rq\<lparr>rq_cwd := cwd\<rparr>],
             drain_timers := drain_timers m + (if running_count m < max_concurrent m then 1 else 0)\<rparr>"
          using assms Inr q v0 by (auto simp: a enqueue_def should_stagger_queue_def Let_def)
        then show thesis using False v0
          by (intro queued [where cwd = cwd and k = "drain_timers m + (if running_count m < max_concurrent m then 1 else 0)"])
            (auto simp: slot_view_def)
      qed
    next
      case True
      then have q: "\<not> fst (should_stagger_queue (monotonic e) m0)" using v0 by (auto simp: should_stagger_queue_def Let_def)
      show thesis
      proof (cases "rq_agent rq \<noteq> '''' \<and> \<not> rq_prevalidated rq \<and> \<not> agent_ok e (rq_agent rq) cwd")
        case bad: True
        then have "m' = announce_rejection rq m0" "r = Refused UnknownAgent" using assms Inr q by (auto simp: a split: prod.splits)
        then show thesis using refused v by simp
      next
        case False
        then have s: "start_run e rq m0 = (m', r)" using assms Inr q by (auto simp: a split: prod.splits if_splits)
        show thesis
        proof (cases "first_task e rq m0")
          case None
          then show thesis
            using s v0 True
            by (intro turned_away [where x = "(new_subagent (rq_parent rq) (rq_batch rq) (rq_total rq))\<lparr>sa_done := True, sa_failed := True\<rparr>"])
              (auto simp: start_run_def register_def slot_view_def newborn_def new_subagent_def Let_def)
        next
          case (Some t)
          then have t: "t \<in> {RunUnstarted, ApprovalUnstarted}" by (auto simp: first_task_def split: if_splits)
          then show thesis
            using s v0 True Some
            by (intro started [where x = "(new_subagent (rq_parent rq) (rq_batch rq) (rq_total rq))\<lparr>sa_run := t, sa_in_tasks := True\<rparr>"])
              (auto simp: start_run_def register_def slot_view_def newborn_def new_subagent_def Let_def)
        qed
      qed
    qed
  qed
qed

end
