(* ===== verification/Subagent_Pump.thy ===== *)
theory Subagent_Pump
  imports Subagent_Slots "HOL-Library.Multiset"
begin

section \<open>The pump only adds records\<close>

definition pumped :: "manager \<Rightarrow> manager \<Rightarrow> bool" where
  "pumped m m' \<longleftrightarrow>
     (\<exists>new. agents m' = agents m @ new \<and> (\<forall>(i, x) \<in> set new. newborn x) \<and>
        running_count m' = running_count m + int (length (filter (\<lambda>(i, x). occupies x) new)) \<and>
        running_count m' \<le> max (running_count m) (max_concurrent m) \<and>
        mset (map fst new) + mset (map rq_id (waiting m')) \<subseteq># mset (map rq_id (waiting m)) \<and>
        constants m' = constants m)"

definition well_formed :: "manager \<Rightarrow> bool" where
  "well_formed m \<longleftrightarrow> distinct (map fst (agents m) @ map rq_id (waiting m))"

lemma pumped_refl: "slot_view m' = slot_view m \<Longrightarrow> pumped m m'"
  unfolding pumped_def by (rule exI [of _ "[]"]) (auto simp: slot_view_eq constants_def)

lemma pumped_trans:
  assumes "pumped m m'" "pumped m' m''"
  shows "pumped m m''"
proof -
  obtain new where n: "agents m' = agents m @ new" "\<forall>(i, x) \<in> set new. newborn x"
      "running_count m' = running_count m + int (length (filter (\<lambda>(i, x). occupies x) new))"
      "running_count m' \<le> max (running_count m) (max_concurrent m)"
      "mset (map fst new) + mset (map rq_id (waiting m')) \<subseteq># mset (map rq_id (waiting m))" "constants m' = constants m"
    using assms(1) unfolding pumped_def by blast
  obtain new' where n': "agents m'' = agents m' @ new'" "\<forall>(i, x) \<in> set new'. newborn x"
      "running_count m'' = running_count m' + int (length (filter (\<lambda>(i, x). occupies x) new'))"
      "running_count m'' \<le> max (running_count m') (max_concurrent m')"
      "mset (map fst new') + mset (map rq_id (waiting m'')) \<subseteq># mset (map rq_id (waiting m'))" "constants m'' = constants m'"
    using assms(2) unfolding pumped_def by blast
  have "mset (map fst (new @ new')) + mset (map rq_id (waiting m'')) \<subseteq># mset (map rq_id (waiting m))"
    using subset_mset.order_trans [OF subset_mset.add_left_mono [OF n'(5), of "mset (map fst new)"] n(5)]
    by (simp add: ac_simps)
  then show ?thesis
    unfolding pumped_def using n n' by (intro exI [of _ "new @ new'"]) (auto simp: constants_def)
qed

lemma pumped_view: "pumped m m' \<Longrightarrow> slot_view m'' = slot_view m' \<Longrightarrow> pumped m m''"
  using pumped_trans pumped_refl by blast

lemma pumped_start_view: "slot_view m' = slot_view m \<Longrightarrow> pumped m m'' \<longleftrightarrow> pumped m' m''"
  by (simp add: pumped_def slot_view_eq constants_def)

lemma dict_set_new: "k \<notin> fst ` set d \<Longrightarrow> dict_set k v d = d @ [(k, v)]"
  by (induction d) auto

lemma distinct_mset_sub:
  assumes "mset ys \<subseteq># mset xs" "distinct xs"
  shows "distinct ys"
proof -
  have "count (mset ys) a \<le> count (mset xs) a" for a by (rule mset_subset_eq_count [OF assms(1)])
  moreover have "count (mset xs) a \<le> 1" for a using assms(2) by (simp add: distinct_count_atmost_1)
  ultimately show ?thesis
    by (metis count_greater_eq_one_iff distinct_count_atmost_1 le_antisym le_trans not_in_iff set_mset_mset)
qed

lemma well_formed_pumped:
  assumes "well_formed m" "pumped m m'"
  shows "well_formed m'"
proof -
  obtain new where n: "agents m' = agents m @ new"
      "mset (map fst new) + mset (map rq_id (waiting m')) \<subseteq># mset (map rq_id (waiting m))"
    using assms(2) unfolding pumped_def by blast
  have "mset (map fst (agents m') @ map rq_id (waiting m')) \<subseteq># mset (map fst (agents m) @ map rq_id (waiting m))"
    using subset_mset.add_left_mono [OF n(2), of "mset (map fst (agents m))"] by (simp add: n(1) ac_simps)
  then show ?thesis using assms(1) distinct_mset_sub unfolding well_formed_def by blast
qed

lemma newborn_occupies: "newborn x \<Longrightarrow> occupies x \<longleftrightarrow> sa_run x \<noteq> RunNone"
  by (auto simp: newborn_def occupies_def new_subagent_def)

lemma admit_pumped:
  assumes "admit e rq fq m = (m', r)" "rq_id rq \<notin> fst ` set (agents m)"
  shows "pumped (m\<lparr>waiting := rq # waiting m\<rparr>) m'"
  using assms(1)
proof (cases rule: admit_cases)
  case (refused why)
  then show ?thesis unfolding pumped_def by (intro exI [of _ "[]"]) (auto simp: slot_view_eq constants_def)
next
  case (queued cwd k)
  then show ?thesis unfolding pumped_def by (intro exI [of _ "[]"]) (auto simp: slot_view_eq constants_def)
next
  case (started x)
  then show ?thesis using assms(2) unfolding pumped_def
    by (intro exI [of _ "[(rq_id rq, x)]"]) (auto simp: slot_view_eq constants_def dict_set_new newborn_occupies)
next
  case (turned_away x)
  then show ?thesis using assms(2) unfolding pumped_def
    by (intro exI [of _ "[(rq_id rq, x)]"]) (auto simp: slot_view_eq constants_def dict_set_new newborn_occupies)
qed

lemma pumped_timers: "pumped m (m'\<lparr>drain_timers := k\<rparr>) \<longleftrightarrow> pumped m m'" "pumped (m\<lparr>drain_timers := k\<rparr>) m' \<longleftrightarrow> pumped m m'"
  by (simp_all add: pumped_def constants_def)

lemma pumped_drop: "waiting m = rq # rest \<Longrightarrow> pumped m (m\<lparr>waiting := rest\<rparr>)"
  unfolding pumped_def by (rule exI [of _ "[]"]) (auto simp: constants_def)

lemma drain_pumped: "well_formed m \<Longrightarrow> pumped m (drain e m)"
proof (induction e m rule: drain.induct)
  case (1 e m)
  show ?case
  proof (cases "waiting m")
    case Nil
    then show ?thesis by (subst drain.simps) (simp add: pumped_refl)
  next
    case (Cons rq rest)
    let ?m1 = "m\<lparr>waiting := rest\<rparr>"
    have wf1: "well_formed ?m1" and fresh: "rq_id rq \<notin> fst ` set (agents ?m1)"
      using 1(3) Cons by (auto simp: well_formed_def)
    consider "running_count m \<ge> max_concurrent m \<or> monotonic e - last_spawn m < stagger m"
      | (skip) "\<not> running_count m \<ge> max_concurrent m" "\<not> monotonic e - last_spawn m < stagger m" "over_while_waiting rq ?m1"
      | (go) "\<not> running_count m \<ge> max_concurrent m" "\<not> monotonic e - last_spawn m < stagger m" "\<not> over_while_waiting rq ?m1"
      by blast
    then show ?thesis
    proof cases
      case 1
      then show ?thesis using Cons by (subst drain.simps) (auto simp: pumped_refl pumped_timers)
    next
      case skip
      show ?thesis
      proof (cases "rest = []")
        case True
        then show ?thesis using skip Cons pumped_drop [OF Cons] by (subst drain.simps) simp
      next
        case False
        have "pumped ?m1 (drain e ?m1)" by (rule "1.IH"(1)) (use skip Cons False wf1 in auto)
        then show ?thesis using skip Cons False pumped_trans [OF pumped_drop [OF Cons]] by (subst drain.simps) simp
      qed
    next
      case go
      obtain m2 r where a: "admit e rq True ?m1 = (m2, r)" by fastforce
      have p2: "pumped m m2"
        using admit_pumped [OF a fresh] Cons by (simp add: pumped_def constants_def)
      let ?m3 = "if r = TurnedAway then announce_turned_away e rq (drain e m2) else m2"
      have p3: "pumped m ?m3"
      proof (cases "r = TurnedAway")
        case True
        have "pumped m2 (drain e m2)"
          by (rule "1.IH"(2) [OF Cons go(1) go(2) refl go(3) a [symmetric] refl True well_formed_pumped [OF 1(3) p2]])
        then show ?thesis using True pumped_trans [OF p2] pumped_view slot_view_announcements(2) by (metis (full_types))
      qed (simp add: p2)
      have "drain e m = rearm_pump (announce_drained rq r ?m3)"
        using go Cons a by (subst drain.simps) (simp add: Let_def)
      then show ?thesis using pumped_view [OF p3 slot_view_announcements(3)]
        by (simp add: rearm_pump_def pumped_timers)
    qed
  qed
qed

end
