(* ===== verification/Subagent_Records.thy ===== *)
theory Subagent_Records
  imports Subagent_Pump
begin

text \<open>
  The protocol of one run. A step of the manager moves at most the record it names (closing the manager
  moves all of them), and \<open>record_after\<close> is that move; every other record is untouched, and a record that
  appears is newborn or the synthetic record of a queued stop. A property of records that these moves
  keep holds of every record of every run: the locale \<open>run_law\<close> states that once.
\<close>

section \<open>Moves of one record\<close>

definition claimed :: "bool \<Rightarrow> subagent \<Rightarrow> subagent" where
  "claimed supersede x = (case claim_finalize supersede x of (won, y) \<Rightarrow> if won then y\<lparr>sa_report := ReportUnstarted\<rparr> else x)"

definition released :: "subagent \<Rightarrow> subagent" where
  "released x = x\<lparr>sa_slot_released := True\<rparr>"

definition ended :: "subagent \<Rightarrow> subagent" where
  "ended x = (released x)\<lparr>sa_in_tasks := False, sa_run := RunEnded, sa_run_cancelled := False\<rparr>"

definition finished :: "subagent \<Rightarrow> subagent" where
  "finished x = (let y = claimed False x in if sa_reaped y then ended y else y\<lparr>sa_run := RunTearingDown, sa_run_cancelled := False\<rparr>)"

definition moves :: "string \<Rightarrow> (subagent \<Rightarrow> subagent) \<Rightarrow> manager \<Rightarrow> manager \<Rightarrow> bool" where
  "moves i h m m' \<longleftrightarrow>
     (\<forall>j. case dict_get (agents m) j of
        None \<Rightarrow> (case dict_get (agents m') j of None \<Rightarrow> True | Some y \<Rightarrow> newborn y)
      | Some x \<Rightarrow> dict_get (agents m') j = Some (if j = i then h x else x))"

lemma moves_get: "moves i h m m' \<Longrightarrow> dict_get (agents m) i = Some x \<Longrightarrow> dict_get (agents m') i = Some (h x)"
  unfolding moves_def by (drule spec [of _ i]) simp

lemma moves_other:
  "moves i h m m' \<Longrightarrow> dict_get (agents m) j = Some x \<Longrightarrow> j \<noteq> i \<Longrightarrow> dict_get (agents m') j = Some x"
  unfolding moves_def by (drule spec [of _ j]) simp

lemma moves_new:
  "moves i h m m' \<Longrightarrow> dict_get (agents m) j = None \<Longrightarrow> dict_get (agents m') j = Some y \<Longrightarrow> newborn y"
  unfolding moves_def by (drule spec [of _ j]) simp

lemma movesI:
  assumes "\<And>j x. dict_get (agents m) j = Some x \<Longrightarrow> dict_get (agents m') j = Some (if j = i then h x else x)"
    and "\<And>j y. dict_get (agents m) j = None \<Longrightarrow> dict_get (agents m') j = Some y \<Longrightarrow> newborn y"
  shows "moves i h m m'"
  unfolding moves_def using assms by (auto split: option.splits)

lemma moves_trans:
  assumes "moves i h m m'" "moves i g m' m''" "dict_get (agents m) i \<noteq> None" "\<And>x. dict_get (agents m) i = Some x \<Longrightarrow> k x = g (h x)"
  shows "moves i k m m''"
proof (rule movesI)
  fix j x assume "dict_get (agents m) j = Some x"
  then show "dict_get (agents m'') j = Some (if j = i then k x else x)"
    using assms(1,2,4) moves_get [OF assms(1)] moves_get [OF assms(2)] moves_other [OF assms(1)] moves_other [OF assms(2)]
    by (cases "j = i") simp_all
next
  fix j y assume n: "dict_get (agents m) j = None" and y: "dict_get (agents m'') j = Some y"
  then have "j \<noteq> i" using assms(3) by auto
  then show "newborn y"
    using n y moves_new [OF assms(1) n] moves_new [OF assms(2)] moves_other [OF assms(2)]
    by (cases "dict_get (agents m') j") auto
qed

lemma pumped_moves:
  assumes "pumped m m'"
  shows "moves i id m m'"
proof -
  obtain new where n: "agents m' = agents m @ new" "\<forall>(i, x) \<in> set new. newborn x"
    using assms unfolding pumped_def by blast
  have g: "dict_get (agents m') j = (case dict_get (agents m) j of None \<Rightarrow> dict_get new j | Some x \<Rightarrow> Some x)" for j
    unfolding n(1) by (simp add: map_add_def split: option.splits)
  show ?thesis
  proof (rule movesI)
    fix j y assume "dict_get (agents m) j = None" "dict_get (agents m') j = Some y"
    then have "(j, y) \<in> set new" using g [of j] by (simp add: dict_get_Some_in_set)
    then show "newborn y" using n(2) by blast
  qed (simp add: g)
qed

lemma set_moves: "dict_get (agents m) i = Some x \<Longrightarrow> y = h x \<Longrightarrow> moves i h m (set_agent i y m)"
  by (auto intro!: movesI split: if_splits)

lemma upd_moves: "moves i h m (upd_agent i h m)"
  by (auto intro!: movesI simp: upd_agent_def split: option.splits if_splits)

lemma view_moves: "slot_view m' = slot_view m \<Longrightarrow> moves i id m m'"
  by (rule pumped_moves [OF pumped_refl])

lemma moves_count [simp]: "moves i h m (m'\<lparr>running_count := k\<rparr>) \<longleftrightarrow> moves i h m m'"
  by (simp add: moves_def split: option.splits)

lemma report_claimed_cases:
  obtains (lost) "report_claimed s i m = m" "\<And>x. dict_get (agents m) i = Some x \<Longrightarrow> claimed s x = x"
  | (won) x y where "dict_get (agents m) i = Some x" "claim_finalize s x = (True, y)" "claimed s x = y\<lparr>sa_report := ReportUnstarted\<rparr>"
      "report_claimed s i m = announce (Terminal i (sa_batch x)) (set_agent i (claimed s x) m)"
proof (cases "dict_get (agents m) i")
  case None
  then show thesis using lost by (simp add: report_claimed_def)
next
  case (Some x)
  obtain w y where "claim_finalize s x = (w, y)" by fastforce
  then show thesis using Some lost won by (cases w) (simp_all add: report_claimed_def claimed_def)
qed

lemma report_claimed_moves: "moves i (claimed s) m (report_claimed s i m)"
proof (cases rule: report_claimed_cases [of s i m])
  case lost
  then show ?thesis by (auto intro!: movesI)
next
  case (won x y)
  have "moves i (claimed s) m (set_agent i (claimed s x) m)" by (rule set_moves [OF won(1) refl])
  then show ?thesis unfolding won(4) moves_def announce_fields(1) .
qed

lemma dict_set_keys: "dict_get d k = Some v \<Longrightarrow> map fst (dict_set k w d) = map fst d"
  by (induction d) (auto split: if_splits)

lemma well_formed_set: "well_formed m \<Longrightarrow> dict_get (agents m) i = Some x \<Longrightarrow> well_formed (set_agent i y m)"
  by (simp add: well_formed_def dict_set_keys)

lemma well_formed_count [simp]: "well_formed (m\<lparr>running_count := k\<rparr>) \<longleftrightarrow> well_formed m"
  by (simp add: well_formed_def)

lemma released_alt: "release_slot x = (\<not> sa_slot_released x, released x)"
  by (simp add: release_slot_def released_def)

lemma free_slot_moves:
  assumes "well_formed m"
  shows "moves i released m (free_slot e i fl m)"
proof (cases "dict_get (agents m) i")
  case None
  then show ?thesis by (auto intro!: movesI simp: free_slot_def)
next
  case (Some x)
  show ?thesis
  proof (cases "sa_slot_released x")
    case True
    then have "released x = x" by (simp add: released_def)
    then show ?thesis using True Some by (auto intro!: movesI simp: free_slot_def released_alt)
  next
    case False
    let ?m = "(set_agent i (released x) m)\<lparr>running_count := if fl then max 0 (running_count m - 1) else running_count m - 1\<rparr>"
    have w: "well_formed ?m" using well_formed_set [OF assms Some] by simp
    have "moves i released m ?m" using set_moves [OF Some refl, of released] by simp
    moreover have "free_slot e i fl m = drain e ?m" using False Some by (simp add: free_slot_def released_alt)
    ultimately show ?thesis
      using moves_trans [OF _ pumped_moves [OF drain_pumped [OF w]], of i released m released] Some by simp
  qed
qed

lemma well_formed_view: "slot_view m' = slot_view m \<Longrightarrow> well_formed m \<Longrightarrow> well_formed m'"
  by (simp add: well_formed_def slot_view_eq)

lemma well_formed_report: "well_formed m \<Longrightarrow> well_formed (report_claimed s i m)"
  by (cases rule: report_claimed_cases [of s i m])
    (auto intro: well_formed_view [OF slot_view_announce] well_formed_set)

lemma well_formed_free: "well_formed m \<Longrightarrow> well_formed (free_slot e i fl m)"
  by (cases "dict_get (agents m) i")
    (auto simp: free_slot_def released_alt intro!: well_formed_pumped [OF _ drain_pumped] well_formed_set)

lemma end_run_moves:
  assumes "well_formed m" "dict_get (agents m) i = Some x"
  shows "moves i ended m (end_run e i m)"
  unfolding end_run_def
  by (rule moves_trans [OF free_slot_moves [OF assms(1)] upd_moves]) (use assms(2) in \<open>simp_all add: ended_def\<close>)

lemma finish_run_moves:
  assumes "well_formed m" "dict_get (agents m) i = Some x"
  shows "moves i finished m (finish_run e i m)"
proof -
  let ?m1 = "report_claimed False i m" and ?y = "claimed False x"
  have g: "dict_get (agents ?m1) i = Some ?y" using moves_get [OF report_claimed_moves assms(2)] .
  show ?thesis
  proof (cases "sa_reaped ?y")
    case True
    show ?thesis unfolding finish_run_def Let_def g option.case if_P [OF True]
      by (rule moves_trans [OF report_claimed_moves end_run_moves [OF well_formed_report [OF assms(1)] g]])
        (use assms True in \<open>auto simp: finished_def\<close>)
  next
    case False
    show ?thesis unfolding finish_run_def Let_def g option.case if_not_P [OF False]
      by (rule moves_trans [OF report_claimed_moves set_moves [OF g refl, where h = "\<lambda>y. y\<lparr>sa_run := RunTearingDown, sa_run_cancelled := False\<rparr>"]])
        (use assms False in \<open>auto simp: finished_def\<close>)
  qed
qed

lemma resume_reap_moves:
  assumes "well_formed m" "dict_get (agents m) i = Some x"
  shows "moves i (\<lambda>x. claimed True (released (reap_record (shutting_down m) x))) m (resume_reap e i m)"
proof -
  let ?m1 = "upd_agent i (reap_record (shutting_down m)) m"
  have w: "well_formed ?m1" using assms by (simp add: upd_agent_def well_formed_set)
  have "moves i (\<lambda>x. released (reap_record (shutting_down m) x)) m (free_slot e i True ?m1)"
    by (rule moves_trans [OF upd_moves free_slot_moves [OF w]]) (use assms in simp_all)
  then show ?thesis unfolding resume_reap_def
    by (rule moves_trans [OF _ report_claimed_moves]) (use assms in simp_all)
qed

definition denied :: "bool \<Rightarrow> subagent \<Rightarrow> subagent" where
  "denied consumer x =
     (let y = ended (x\<lparr>sa_awaiting_approval := False, sa_done := True, sa_failed := True\<rparr>)
      in if consumer then claimed False y else y)"

lemma pumped_constants: "pumped m m' \<Longrightarrow> constants m' = constants m"
  by (auto simp: pumped_def)

lemma free_slot_constants: "well_formed m \<Longrightarrow> constants (free_slot e i fl m) = constants m"
proof (cases "dict_get (agents m) i")
  case (Some x)
  assume w: "well_formed m"
  let ?m = "(set_agent i (released x) m)\<lparr>running_count := if fl then max 0 (running_count m - 1) else running_count m - 1\<rparr>"
  have "constants (drain e ?m) = constants ?m"
    by (rule pumped_constants [OF drain_pumped]) (use w Some in \<open>simp add: well_formed_set\<close>)
  then show ?thesis using Some by (simp add: free_slot_def released_alt constants_def)
qed (simp add: free_slot_def)

lemma deny_approval_moves:
  assumes "well_formed m" "dict_get (agents m) i = Some x"
  shows "moves i (denied (on_done m)) m (deny_approval e i x m)"
proof -
  let ?f = "\<lambda>x. x\<lparr>sa_awaiting_approval := False, sa_done := True, sa_failed := True\<rparr>"
  let ?g = "\<lambda>y. y\<lparr>sa_in_tasks := False, sa_run := RunEnded, sa_run_cancelled := False\<rparr>"
  let ?m0 = "set_agent i (?f x) m" and ?h = "\<lambda>x. ended (?f x)"
  let ?m2 = "upd_agent i ?g (free_slot e i False ?m0)"
  have w: "well_formed ?m0" by (rule well_formed_set [OF assms])
  have "moves i (\<lambda>x. released (?f x)) m (free_slot e i False ?m0)"
    by (rule moves_trans [OF set_moves [OF assms(2) refl, of ?f] free_slot_moves [OF w]]) (use assms in simp_all)
  then have m2: "moves i ?h m ?m2"
    by (rule moves_trans [OF _ upd_moves]) (use assms in \<open>simp_all add: ended_def\<close>)
  have "on_done (free_slot e i False ?m0) = on_done m"
    using free_slot_constants [OF w, of e i False] by (simp add: constants_def)
  then have od: "on_done ?m2 = on_done m" by (simp add: upd_agent_def split: option.splits)
  show ?thesis
  proof (cases "on_done m")
    case True
    show ?thesis unfolding deny_approval_def Let_def od if_P [OF True]
      by (rule moves_trans [OF m2 report_claimed_moves]) (use assms True in \<open>simp_all add: denied_def\<close>)
  next
    case False
    have "denied False = ?h" by (rule ext) (simp add: denied_def)
    then show ?thesis unfolding deny_approval_def Let_def od using m2 False by simp
  qed
qed

section \<open>The protocol of one run\<close>

fun target :: "sub_event \<Rightarrow> string option" where
  "target (RunBegins i) = Some i" | "target (ApprovalBegins i) = Some i" | "target (ApprovalAnswered i b) = Some i"
| "target (RunReturns i how) = Some i" | "target (CancelArrives i tools draining) = Some i"
| "target (TeardownOver i) = Some i" | "target (RecoveryBegins i) = Some i" | "target (TeardownSeen i) = Some i"
| "target (TeardownLate i) = Some i" | "target (SlotPolled i b) = Some i" | "target (RecoveryCancelArrives i) = Some i"
| "target (StopAgent i) = Some i" | "target (ReaperFires i) = Some i" | "target (ReapResumes i) = Some i"
| "target (ReportBegins i) = Some i" | "target (StrayCancel i) = Some i" | "target (ClearCompleted i) = Some i"
| "target (Evicted i) = Some i" | "target (ResultHeld i t) = Some i"
| "target ev = None"

definition recovery_failed :: "subagent \<Rightarrow> subagent" where
  "recovery_failed x =
     (let y = end_recovery x
      in claimed False (if sa_done y \<or> sa_reap_started y \<or> sa_reaped y then y else y\<lparr>sa_done := True, sa_failed := True\<rparr>))"

definition respawned :: "subagent \<Rightarrow> subagent" where
  "respawned x = (end_recovery x)\<lparr>sa_slot_released := False, sa_run := RunUnstarted, sa_run_cancelled := False, sa_in_tasks := True\<rparr>"

definition cancelled_run :: "bool \<Rightarrow> nat \<Rightarrow> bool \<Rightarrow> subagent \<Rightarrow> subagent" where
  "cancelled_run shutting tools draining x =
     (if sa_run x = RunExecuting then finished (cancelled_record shutting tools draining x)
      else if sa_run x = RunTearingDown then ended x
      else x\<lparr>sa_run := RunEnded, sa_run_cancelled := False, sa_awaiting_approval := False\<rparr>)"

text \<open>The move of the record an event names, under the guard of the step.\<close>

fun record_after :: "manager \<Rightarrow> sub_event \<Rightarrow> subagent \<Rightarrow> subagent option" where
  "record_after m (RunBegins i) x =
     (if sa_run x = RunUnstarted \<and> \<not> sa_run_cancelled x then Some (x\<lparr>sa_run := RunExecuting, sa_exec_started := True\<rparr>) else None)"
| "record_after m (ApprovalBegins i) x =
     (if sa_run x = ApprovalUnstarted \<and> \<not> sa_run_cancelled x
      then Some (x\<lparr>sa_run := ApprovalAsked, sa_awaiting_approval := True\<rparr>) else None)"
| "record_after m (ApprovalAnswered i approved) x =
     (if sa_run x = ApprovalAsked \<and> \<not> sa_run_cancelled x
      then Some (if approved then x\<lparr>sa_awaiting_approval := False, sa_run := RunExecuting, sa_exec_started := True\<rparr>
                 else denied (on_done m) x) else None)"
| "record_after m (RunReturns i how) x =
     (if sa_run x = RunExecuting \<and> \<not> sa_run_cancelled x then Some (finished (settle_record how x)) else None)"
| "record_after m (CancelArrives i tools draining) x =
     (if run_live x \<and> sa_run_cancelled x then Some (cancelled_run (shutting_down m) tools draining x) else None)"
| "record_after m (TeardownOver i) x =
     (if sa_run x = RunTearingDown \<and> \<not> sa_run_cancelled x then Some (ended x) else None)"
| "record_after m (RecoveryBegins i) x =
     (if sa_recovery x = RecoveryUnstarted \<and> \<not> sa_recovery_cancelled x then Some (x\<lparr>sa_recovery := AwaitsTeardown\<rparr>) else None)"
| "record_after m (TeardownSeen i) x =
     (if sa_recovery x = AwaitsTeardown \<and> \<not> sa_recovery_cancelled x \<and> sa_run x = RunEnded
      then Some (if recovery_off x (shutting_down m) then end_recovery x
                 else if running_count m \<ge> max_concurrent m then x\<lparr>sa_recovery := AwaitsSlot\<rparr> else respawned x) else None)"
| "record_after m (TeardownLate i) x =
     (if sa_recovery x = AwaitsTeardown \<and> \<not> sa_recovery_cancelled x \<and> sa_run x \<noteq> RunEnded then Some (recovery_failed x) else None)"
| "record_after m (SlotPolled i expired) x =
     (if sa_recovery x = AwaitsSlot \<and> \<not> sa_recovery_cancelled x
      then Some (if running_count m \<ge> max_concurrent m then (if expired \<or> shutting_down m then recovery_failed x else x)
                 else if recovery_off x (shutting_down m) then end_recovery x else respawned x) else None)"
| "record_after m (RecoveryCancelArrives i) x =
     (if recovery_live x \<and> sa_recovery_cancelled x then Some (cancel_recovery x) else None)"
| "record_after m (StopAgent i) x =
     (if sa_listed x \<and> \<not> sa_done x then Some (begin_reap (x\<lparr>sa_user_stopped := True\<rparr>)) else None)"
| "record_after m (ReaperFires i) x =
     (if sa_listed x \<and> \<not> sa_done x \<and> \<not> shutting_down m then Some (begin_reap x) else None)"
| "record_after m (ReapResumes i) x =
     (if sa_reaps x > 0 then Some (claimed True (released (reap_record (shutting_down m) x))) else None)"
| "record_after m (ReportBegins i) x =
     (if sa_report x = ReportUnstarted then Some (x\<lparr>sa_done := True, sa_report := ReportStarted\<rparr>) else None)"
| "record_after m (StrayCancel i) x = (if run_live x then Some (x\<lparr>sa_run_cancelled := True\<rparr>) else None)"
| "record_after m (ClearCompleted i) x =
     (if sa_listed x \<and> sa_done x then Some (x\<lparr>sa_listed := False, sa_in_tasks := False\<rparr>) else None)"
| "record_after m (Evicted i) x = (if sa_listed x \<and> sa_done x then Some (x\<lparr>sa_listed := False\<rparr>) else None)"
| "record_after m (ResultHeld i t) x = Some (x\<lparr>sa_held_at := t\<rparr>)"
| "record_after m CloseManager x = Some (shut_down_agent x)"
| "record_after m ev x = None"

definition stop_record :: "subagent \<Rightarrow> bool" where
  "stop_record x \<longleftrightarrow>
     (\<exists>parent b n. x = claimed False ((new_subagent parent b n)\<lparr>sa_user_stopped := True, sa_queued := True\<rparr>))"

text \<open>What a step may do to the records.\<close>

definition protocol_step :: "sub_event \<Rightarrow> manager \<Rightarrow> manager \<Rightarrow> bool" where
  "protocol_step ev m m' \<longleftrightarrow>
     (\<forall>j. case dict_get (agents m) j of
        None \<Rightarrow> (case dict_get (agents m') j of None \<Rightarrow> True | Some y \<Rightarrow> newborn y \<or> stop_record y)
      | Some x \<Rightarrow> (\<exists>y. dict_get (agents m') j = Some y \<and>
          (y = x \<or> (target ev = Some j \<or> ev = CloseManager) \<and> record_after m ev x = Some y)))"

lemma protocol_moves:
  assumes "moves i h m m'" "target ev = Some i" "dict_get (agents m) i = Some x" "record_after m ev x = Some (h x)"
  shows "protocol_step ev m m'"
  unfolding protocol_step_def
proof (rule allI)
  fix j
  show "case dict_get (agents m) j of
        None \<Rightarrow> (case dict_get (agents m') j of None \<Rightarrow> True | Some y \<Rightarrow> newborn y \<or> stop_record y)
      | Some x \<Rightarrow> (\<exists>y. dict_get (agents m') j = Some y \<and>
          (y = x \<or> (target ev = Some j \<or> ev = CloseManager) \<and> record_after m ev x = Some y))"
  proof (cases "dict_get (agents m) j")
    case None
    then show ?thesis using moves_new [OF assms(1) None] by (simp split: option.splits)
  next
    case (Some y)
    then show ?thesis using assms moves_get [OF assms(1,3)] moves_other [OF assms(1) Some] by (cases "j = i") auto
  qed
qed

lemma protocol_same:
  assumes "moves i id m m'"
  shows "protocol_step ev m m'"
  unfolding protocol_step_def
proof (rule allI)
  fix j
  show "case dict_get (agents m) j of
        None \<Rightarrow> (case dict_get (agents m') j of None \<Rightarrow> True | Some y \<Rightarrow> newborn y \<or> stop_record y)
      | Some x \<Rightarrow> (\<exists>y. dict_get (agents m') j = Some y \<and>
          (y = x \<or> (target ev = Some j \<or> ev = CloseManager) \<and> record_after m ev x = Some y))"
  proof (cases "dict_get (agents m) j")
    case None
    then show ?thesis using moves_new [OF assms None] by (simp split: option.splits)
  next
    case (Some y)
    then show ?thesis using moves_get [OF assms, of y] moves_other [OF assms Some] by (cases "j = i") auto
  qed
qed

end
