(* ===== verification/Subagent_Protocol.thy ===== *)
theory Subagent_Protocol
  imports Subagent_Records
begin

text \<open>
  Every step of the manager follows the protocol of single runs, and keeps identities apart. The locale
  \<open>run_law\<close> turns a property of records that the protocol keeps into an invariant of the manager.
\<close>

section \<open>Stopping queued runs\<close>

definition adds_stops :: "manager \<Rightarrow> manager \<Rightarrow> bool" where
  "adds_stops m m' \<longleftrightarrow> well_formed m' \<and>
     (\<forall>j. case dict_get (agents m) j of
        None \<Rightarrow> (case dict_get (agents m') j of None \<Rightarrow> True | Some y \<Rightarrow> stop_record y)
      | Some x \<Rightarrow> dict_get (agents m') j = Some x) \<and>
     running_count m' = running_count m \<and> occupants m' = occupants m \<and> constants m' = constants m"

lemma adds_stopsD:
  assumes "adds_stops m m'"
  shows "dict_get (agents m) j = Some x \<Longrightarrow> dict_get (agents m') j = Some x"
    and "dict_get (agents m) j = None \<Longrightarrow> dict_get (agents m') j = Some y \<Longrightarrow> stop_record y"
  using assms unfolding adds_stops_def by (force dest: spec [of _ j])+

lemma adds_stopsI:
  assumes "well_formed m'" "\<And>j x. dict_get (agents m) j = Some x \<Longrightarrow> dict_get (agents m') j = Some x"
    and "\<And>j y. dict_get (agents m) j = None \<Longrightarrow> dict_get (agents m') j = Some y \<Longrightarrow> stop_record y"
    and "running_count m' = running_count m" "occupants m' = occupants m" "constants m' = constants m"
  shows "adds_stops m m'"
  unfolding adds_stops_def using assms by (auto split: option.splits)

lemma adds_stops_refl: "well_formed m \<Longrightarrow> adds_stops m m"
  by (rule adds_stopsI) auto

lemma adds_stops_trans:
  assumes "adds_stops m m'" "adds_stops m' m''"
  shows "adds_stops m m''"
proof (rule adds_stopsI)
  fix j y assume n: "dict_get (agents m) j = None" and y: "dict_get (agents m'') j = Some y"
  show "stop_record y"
    using adds_stopsD(2) [OF assms(1) n] adds_stopsD [OF assms(2), of j] y by (cases "dict_get (agents m') j") auto
next
  fix j x assume "dict_get (agents m) j = Some x"
  then show "dict_get (agents m'') j = Some x" using adds_stopsD(1) [OF assms(1)] adds_stopsD(1) [OF assms(2)] by blast
qed (use assms in \<open>simp_all add: adds_stops_def\<close>)

lemma unqueueD:
  assumes "unqueue i m = Some (rq, m1)"
  shows "rq \<in> set (waiting m)" "rq_id rq = i" "m1 = m\<lparr>waiting := remove1 rq (waiting m)\<rparr>"
proof -
  obtain r rs where f: "filter (\<lambda>rq. rq_id rq = i) (waiting m) = r # rs" "rq = r" "m1 = m\<lparr>waiting := remove1 r (waiting m)\<rparr>"
    using assms by (auto simp: unqueue_def split: list.splits)
  have "r \<in> set (filter (\<lambda>rq. rq_id rq = i) (waiting m))" unfolding f(1) by simp
  then have "r \<in> set (waiting m) \<and> rq_id r = i" by simp
  then show "rq \<in> set (waiting m)" "rq_id rq = i" "m1 = m\<lparr>waiting := remove1 rq (waiting m)\<rparr>" using f(2,3) by auto
qed

lemma distinct_remove1_map: "distinct (map f xs) \<Longrightarrow> x \<in> set xs \<Longrightarrow> f x \<notin> f ` set (remove1 x xs) \<and> distinct (map f (remove1 x xs))"
  by (induction xs) (auto dest: set_remove1_subset [THEN subsetD] simp: image_iff)

lemma report_queued_stop_adds:
  assumes "well_formed m" "unqueue i m = Some (rq, m1)"
  shows "adds_stops m (report_queued_stop rq m1)"
proof -
  note u = unqueueD [OF assms(2)]
  have fresh: "i \<notin> fst ` set (agents m)" using assms(1) u(1,2) by (auto simp: well_formed_def)
  have q: "i \<notin> rq_id ` set (remove1 rq (waiting m))" "distinct (map rq_id (remove1 rq (waiting m)))"
    using assms(1) u(1,2) distinct_remove1_map [of rq_id "waiting m" rq] by (auto simp: well_formed_def)
  have sub: "rq_id ` set (remove1 rq (waiting m)) \<subseteq> rq_id ` set (waiting m)"
    by (rule image_mono) (rule set_remove1_subset)
  have w1: "well_formed m1" using assms(1) q sub by (auto simp: well_formed_def u(3))
  show ?thesis
  proof (cases "i = ''''")
    case True
    then have "report_queued_stop rq m1 = m1" by (simp add: report_queued_stop_def u(2))
    then show ?thesis using w1 by (auto intro!: adds_stopsI simp: u(3) occupants_def constants_def)
  next
    case False
    let ?x = "(new_subagent (rq_parent rq) (rq_batch rq) (rq_total rq))\<lparr>sa_user_stopped := True, sa_queued := True\<rparr>"
    have "fst (claim_finalize False ?x)" by (simp add: claim_finalize_def new_subagent_def)
    then have eq: "report_queued_stop rq m1 = announce (Terminal i (sa_batch ?x)) (set_agent i (claimed False ?x) (set_agent i ?x m1))"
      using False u(2) by (auto simp: report_queued_stop_def report_claimed_def claimed_def split: prod.splits)
    have "dict_set i (claimed False ?x) (dict_set i ?x (agents m1)) = agents m @ [(i, claimed False ?x)]"
      unfolding update_last u(3) using fresh by (simp add: dict_set_new)
    then have ag: "agents (report_queued_stop rq m1) = agents m @ [(i, claimed False ?x)]" by (simp add: eq)
    have wf: "distinct (map fst (agents m))" and "fst ` set (agents m) \<inter> rq_id ` set (waiting m) = {}"
      using assms(1) by (simp_all add: well_formed_def)
    then have disj: "fst ` set (agents m) \<inter> rq_id ` set (remove1 rq (waiting m)) = {}" using sub by blast
    have fields: "waiting (report_queued_stop rq m1) = remove1 rq (waiting m)"
        "running_count (report_queued_stop rq m1) = running_count m" "constants (report_queued_stop rq m1) = constants m"
      unfolding eq by (simp_all add: u(3) constants_def)
    have "sa_run (claimed False ?x) = RunNone" by (simp add: claimed_def claim_finalize_def new_subagent_def)
    then have "\<not> occupies (claimed False ?x)" by (simp add: occupies_def)
    then have "occupants (report_queued_stop rq m1) = occupants m" by (simp add: occupants_def ag)
    moreover have stop: "stop_record (claimed False ?x)" unfolding stop_record_def by blast
    moreover have "well_formed (report_queued_stop rq m1)"
      using wf q fresh disj by (simp add: well_formed_def ag fields)
    moreover have g: "dict_get (agents (report_queued_stop rq m1)) j =
        (case dict_get (agents m) j of None \<Rightarrow> if j = i then Some (claimed False ?x) else None | Some y \<Rightarrow> Some y)" for j
      unfolding ag by (simp add: map_add_def split: option.splits)
    ultimately show ?thesis by (intro adds_stopsI) (auto simp: fields g split: if_splits)
  qed
qed

lemma stop_waiting_adds:
  assumes "well_formed m"
  shows "adds_stops m (stop_waiting parent m)"
proof -
  let ?f = "\<lambda>i m. case unqueue i m of None \<Rightarrow> m | Some (rq, m') \<Rightarrow> report_queued_stop rq m'"
  have one: "adds_stops n (?f i n)" if "well_formed n" for i n
    using that report_queued_stop_adds [OF that] by (auto split: option.splits intro: adds_stops_refl)
  have "adds_stops n (fold ?f is n)" if "well_formed n" for "is" n
    using that
  proof (induction "is" arbitrary: n)
    case (Cons i "is")
    have first: "adds_stops n (?f i n)" by (rule one [OF Cons.prems])
    then have "well_formed (?f i n)" by (simp only: adds_stops_def)
    from adds_stops_trans [OF first Cons.IH [OF this]] show ?case by simp
  qed (simp add: adds_stops_refl)
  then show ?thesis using assms adds_stops_refl by (simp add: stop_waiting_def)
qed

lemma protocol_adds:
  assumes "adds_stops m m'"
  shows "protocol_step ev m m'"
  unfolding protocol_step_def
proof (rule allI)
  fix j
  show "case dict_get (agents m) j of
        None \<Rightarrow> (case dict_get (agents m') j of None \<Rightarrow> True | Some y \<Rightarrow> newborn y \<or> stop_record y)
      | Some x \<Rightarrow> (\<exists>y. dict_get (agents m') j = Some y \<and>
          (y = x \<or> (target ev = Some j \<or> ev = CloseManager) \<and> record_after m ev x = Some y))"
    using adds_stopsD [OF assms, of j] by (cases "dict_get (agents m) j") (simp_all split: option.splits)
qed

section \<open>Identities stay apart\<close>

lemma well_formed_view_eq: "slot_view m' = slot_view m \<Longrightarrow> well_formed m' \<longleftrightarrow> well_formed m"
  by (simp add: well_formed_def slot_view_eq)

lemma well_formed_upd: "well_formed m \<Longrightarrow> well_formed (upd_agent i f m)"
  by (auto simp: upd_agent_def well_formed_set split: option.splits)

lemma well_formed_end: "well_formed m \<Longrightarrow> well_formed (end_run e i m)"
  by (simp add: end_run_def well_formed_upd well_formed_free)

lemma well_formed_finish: "well_formed m \<Longrightarrow> well_formed (finish_run e i m)"
  by (auto simp: finish_run_def Let_def well_formed_report well_formed_end well_formed_set split: option.splits)

lemma well_formed_timers [simp]: "well_formed (m\<lparr>drain_timers := k\<rparr>) \<longleftrightarrow> well_formed m"
  by (simp add: well_formed_def)

lemma spawn_pumped:
  assumes "well_formed m" "unused_id (rq_id rq) m"
  shows "pumped (m\<lparr>waiting := rq # waiting m\<rparr>) (fst (spawn e rq m))"
    and "well_formed (m\<lparr>waiting := rq # waiting m\<rparr>)"
proof -
  show w: "well_formed (m\<lparr>waiting := rq # waiting m\<rparr>)"
    using assms by (auto simp: well_formed_def unused_id_def)
  obtain m1 r where a: "admit e rq False m = (m1, r)" by fastforce
  have p: "pumped (m\<lparr>waiting := rq # waiting m\<rparr>) m1"
    by (rule admit_pumped [OF a]) (use assms(2) in \<open>simp add: unused_id_def\<close>)
  have "pumped (m\<lparr>waiting := rq # waiting m\<rparr>) (announce_turned_away e rq (drain e m1))"
    by (rule pumped_view [OF pumped_trans [OF p drain_pumped [OF well_formed_pumped [OF w p]]]]) simp
  then show "pumped (m\<lparr>waiting := rq # waiting m\<rparr>) (fst (spawn e rq m))"
    using p by (simp add: spawn_def a)
qed

lemma stop_agent_cases:
  obtains (reap) x where "dict_get (agents m) i = Some x" "sa_listed x" "\<not> sa_done x"
      "stop_agent i m = set_agent i (begin_reap (x\<lparr>sa_user_stopped := True\<rparr>)) m"
  | (queued) rq m1 where "unqueue i m = Some (rq, m1)" "stop_agent i m = report_queued_stop rq m1"
  | (nothing) "stop_agent i m = m"
  by (cases "dict_get (agents m) i"; cases "unqueue i m") (force simp: stop_agent_def split: if_splits)+

lemma shut_down_get: "dict_get (agents (shut_down m)) j = map_option shut_down_agent (dict_get (agents m) j)"
proof -
  have "dict_get (map (map_prod id f) d) j = map_option f (dict_get d j)" for f and d :: "(string, subagent) dict"
    by (induction d) auto
  then show ?thesis by (simp add: shut_down_def)
qed

text \<open>The two results are proved together, event by event.\<close>

definition tracked :: "sub_event \<Rightarrow> manager \<Rightarrow> manager \<Rightarrow> bool" where
  "tracked ev m m' \<longleftrightarrow> protocol_step ev m m' \<and> well_formed m'"

lemma tracked_set:
  assumes "well_formed m" "dict_get (agents m) i = Some x" "target ev = Some i" "record_after m ev x = Some y"
  shows "tracked ev m (set_agent i y m)"
  unfolding tracked_def
  using protocol_moves [OF set_moves [OF assms(2) refl, of "\<lambda>_. y"] assms(3,2)] assms(4) well_formed_set [OF assms(1,2)]
  by simp

lemma tracked_moves:
  assumes "moves i h m m'" "well_formed m'" "dict_get (agents m) i = Some x" "target ev = Some i" "record_after m ev x = Some (h x)"
  shows "tracked ev m m'"
  unfolding tracked_def using protocol_moves [OF assms(1,4,3,5)] assms(2) by simp

lemma tracked_adds: "adds_stops m m' \<Longrightarrow> tracked ev m m'"
  unfolding tracked_def using protocol_adds by (auto simp: adds_stops_def)

lemma tracked_view: "well_formed m \<Longrightarrow> slot_view m' = slot_view m \<Longrightarrow> tracked ev m m'"
  unfolding tracked_def using protocol_same [OF view_moves] well_formed_view by blast

lemma tracked_pumped:
  assumes "well_formed m0" "agents m0 = agents m" "pumped m0 m'"
  shows "tracked ev m m'"
proof -
  have "moves [] id m m'" using pumped_moves [OF assms(3), of "[]"] unfolding moves_def assms(2) .
  then show ?thesis unfolding tracked_def using protocol_same well_formed_pumped [OF assms(1,3)] by blast
qed

lemma set_then_moves:
  assumes "dict_get (agents m) i = Some x" "moves i h (set_agent i y m) m'"
  shows "moves i (\<lambda>_. h y) m m'"
  by (rule moves_trans [OF set_moves [OF assms(1) refl, of "\<lambda>_. y"] assms(2)]) (use assms(1) in simp_all)

lemma tracked_finish:
  assumes "well_formed m" "dict_get (agents m) i = Some x" "target ev = Some i" "record_after m ev x = Some (finished y)"
  shows "tracked ev m (finish_run e i (set_agent i y m))"
proof (rule tracked_moves [OF set_then_moves])
  have w: "well_formed (set_agent i y m)" by (rule well_formed_set [OF assms(1,2)])
  show "moves i finished (set_agent i y m) (finish_run e i (set_agent i y m))" by (rule finish_run_moves [OF w]) simp
  show "well_formed (finish_run e i (set_agent i y m))" by (rule well_formed_finish [OF w])
qed (use assms in simp_all)

lemma tracked_report:
  assumes "well_formed m" "dict_get (agents m) i = Some x" "target ev = Some i" "record_after m ev x = Some (claimed s y)"
  shows "tracked ev m (report_claimed s i (set_agent i y m))"
  by (rule tracked_moves [OF set_then_moves [OF assms(2) report_claimed_moves]])
    (use assms in \<open>simp_all add: well_formed_report well_formed_set\<close>)

lemma respawn_alt: "respawn i x m = (set_agent i (respawned x) m)\<lparr>running_count := running_count m + 1\<rparr>"
  by (simp add: respawn_def respawned_def)

lemma tracked_agents:
  assumes "tracked ev m n" "agents n' = agents n" "waiting n' = waiting n"
  shows "tracked ev m n'"
  using assms(1) unfolding tracked_def protocol_step_def well_formed_def assms(2,3) .

lemma tracked_respawn:
  assumes "well_formed m" "dict_get (agents m) i = Some x" "target ev = Some i" "record_after m ev x = Some (respawned x)"
  shows "tracked ev m (respawn i x m)"
  by (rule tracked_agents [OF tracked_set [OF assms]]) (simp_all add: respawn_alt)

lemma tracked_fail:
  assumes "well_formed m" "dict_get (agents m) i = Some x" "target ev = Some i" "record_after m ev x = Some (recovery_failed x)"
  shows "tracked ev m (fail_recovery i x m)"
  unfolding fail_recovery_def Let_def
  by (rule tracked_report [OF assms(1-3)]) (use assms(4) in \<open>simp add: recovery_failed_def Let_def\<close>)

theorem step_tracked:
  assumes w: "well_formed m" and s: "sub_step e ev m = Some m'"
  shows "tracked ev m m'"
proof (cases ev)
  case (Spawn rq)
  then have u: "unused_id (rq_id rq) m" and m': "m' = fst (spawn e rq m)" using s by (simp_all split: if_splits)
  show ?thesis unfolding m' by (rule tracked_pumped [OF spawn_pumped(2) [OF w u] _ spawn_pumped(1) [OF w u]]) simp
next
  case DrainTimer
  then have m': "m' = drain e (m\<lparr>drain_timers := drain_timers m - 1\<rparr>)" using s by (simp split: if_splits)
  show ?thesis unfolding m' by (rule tracked_pumped [OF _ _ drain_pumped]) (use w in simp_all)
next
  case (ApprovalAnswered i approved)
  then obtain x where x: "dict_get (agents m) i = Some x" "sa_run x = ApprovalAsked" "\<not> sa_run_cancelled x"
      "m' = (if approved then set_agent i (x\<lparr>sa_awaiting_approval := False, sa_run := RunExecuting, sa_exec_started := True\<rparr>) m
             else deny_approval e i x m)"
    using s by (auto simp: with_agent_def split: option.splits if_splits)
  show ?thesis
  proof (cases approved)
    case True
    then show ?thesis using tracked_set [OF w x(1), where ev = ev] x ApprovalAnswered by simp
  next
    case False
    have "well_formed (deny_approval e i x m)"
      using w x(1) by (simp add: deny_approval_def Let_def well_formed_report well_formed_upd well_formed_free well_formed_set)
    then show ?thesis
      using tracked_moves [OF deny_approval_moves [OF w x(1), where e = e], where ev = ev] x ApprovalAnswered False by simp
  qed
next
  case (RunReturns i how)
  then show ?thesis using s w by (auto simp: with_agent_def intro!: tracked_finish split: option.splits if_splits)
next
  case (CancelArrives i tools draining)
  then obtain x where x: "dict_get (agents m) i = Some x" "run_live x" "sa_run_cancelled x"
      "m' = cancel_arrives e i tools draining x m"
    using s by (auto simp: with_agent_def split: option.splits if_splits)
  have r: "record_after m ev x = Some (cancelled_run (shutting_down m) tools draining x)" using x CancelArrives by simp
  consider "sa_run x = RunExecuting" | "sa_run x = RunTearingDown" | "sa_run x \<notin> {RunExecuting, RunTearingDown}" by blast
  then show ?thesis
  proof cases
    case 1
    then show ?thesis using tracked_finish [OF w x(1), where ev = ev] r CancelArrives by (simp add: x(4) cancel_arrives_def cancelled_run_def)
  next
    case 2
    then show ?thesis
      using tracked_moves [OF end_run_moves [OF w x(1)] well_formed_end [OF w] x(1), where ev = ev] r CancelArrives
      by (simp add: x(4) cancel_arrives_def cancelled_run_def)
  next
    case 3
    then have "m' = set_agent i (cancelled_run (shutting_down m) tools draining x) m"
      by (cases "sa_run x") (auto simp: x(4) cancel_arrives_def cancelled_run_def)
    then show ?thesis using tracked_set [OF w x(1) _ r] CancelArrives by simp
  qed
next
  case (TeardownOver i)
  then show ?thesis using s w
    by (auto simp: with_agent_def intro!: tracked_moves [OF end_run_moves] well_formed_end split: option.splits if_splits)
next
  case (TeardownSeen i)
  then show ?thesis using s w
    by (auto simp: with_agent_def resume_recovery_def intro!: tracked_set tracked_respawn split: option.splits if_splits)
next
  case (TeardownLate i)
  then show ?thesis using s w by (auto simp: with_agent_def intro!: tracked_fail split: option.splits if_splits)
next
  case (SlotPolled i expired)
  then show ?thesis using s w tracked_view [OF w refl]
    by (auto simp: with_agent_def poll_slot_def intro!: tracked_set tracked_respawn tracked_fail split: option.splits if_splits)
next
  case (StopAgent i)
  show ?thesis
  proof (cases rule: stop_agent_cases [of m i])
    case (reap x)
    then show ?thesis using StopAgent s tracked_set [OF w reap(1), where ev = ev] by simp
  next
    case (queued rq m1)
    then show ?thesis using StopAgent s tracked_adds [OF report_queued_stop_adds [OF w queued(1)]] by simp
  next
    case nothing
    then show ?thesis using StopAgent s tracked_view [OF w refl] by simp
  qed
next
  case (StopWaiting parent)
  then show ?thesis using s by (auto intro: tracked_adds [OF stop_waiting_adds [OF w]])
next
  case (ReapResumes i)
  then obtain x where x: "dict_get (agents m) i = Some x" "sa_reaps x > 0" "m' = resume_reap e i m"
    using s by (auto simp: with_agent_def split: option.splits if_splits)
  have "well_formed (resume_reap e i m)"
    using w by (simp add: resume_reap_def well_formed_report well_formed_free well_formed_upd)
  then show ?thesis using tracked_moves [OF resume_reap_moves [OF w x(1), where e = e] _ x(1), where ev = ev] x ReapResumes by simp
next
  case CloseManager
  then have m': "m' = shut_down m" using s by simp
  have "map fst (agents m') = map fst (agents m)" "waiting m' = waiting m" by (simp_all add: m' shut_down_def)
  then have "well_formed m'" using w by (simp add: well_formed_def)
  moreover have "protocol_step ev m m'" unfolding protocol_step_def m' shut_down_get
    using CloseManager by (auto split: option.splits)
  ultimately show ?thesis by (simp add: tracked_def)
next
  case (MemberLost b n)
  then show ?thesis using s tracked_view [OF w] by auto
next
  case (WaveOver b)
  then show ?thesis using s tracked_view [OF w] by auto
qed (use s w in \<open>auto simp: with_agent_def intro!: tracked_set split: option.splits if_splits\<close>)

lemma run_well_formed: "manager_run P m \<Longrightarrow> well_formed m"
proof (induction rule: manager_run.induct)
  case (manager_fresh limit gap consumer approval)
  show ?case by (simp add: well_formed_def fresh_manager_def)
next
  case (manager_next m ev e m')
  then show ?case using step_tracked by (auto simp: tracked_def)
qed

section \<open>Laws of single runs\<close>

text \<open>A law of records: newborn and stopped records satisfy it, and so does what the protocol makes of a
  record that does, at the events considered.\<close>

locale run_law =
  fixes law :: "subagent \<Rightarrow> bool" and P :: "sub_event \<Rightarrow> manager \<Rightarrow> bool" and env :: "manager \<Rightarrow> bool"
  assumes law_newborn: "newborn x \<Longrightarrow> law x"
    and law_stopped: "stop_record x \<Longrightarrow> law x"
    and law_step: "law x \<Longrightarrow> env m \<Longrightarrow> P ev m \<Longrightarrow> target ev = Some i \<or> ev = CloseManager \<Longrightarrow>
      (\<And>j. target ev = Some j \<Longrightarrow> dict_get (agents m) j = Some x) \<Longrightarrow> record_after m ev x = Some y \<Longrightarrow> law y"
begin

lemma law_kept:
  assumes "\<And>j x. dict_get (agents m) j = Some x \<Longrightarrow> law x" "well_formed m" "env m" "P ev m" "sub_step e ev m = Some m'"
    and y: "dict_get (agents m') j = Some y"
  shows "law y"
proof -
  have p: "protocol_step ev m m'" using step_tracked [OF assms(2,5)] by (simp add: tracked_def)
  show ?thesis
  proof (cases "dict_get (agents m) j")
    case None
    then show ?thesis using p y law_newborn law_stopped unfolding protocol_step_def by (auto dest!: spec [of _ j])
  next
    case (Some x)
    then have "y = x \<or> (target ev = Some j \<or> ev = CloseManager) \<and> record_after m ev x = Some y"
      using p y unfolding protocol_step_def by (auto dest!: spec [of _ j])
    then show ?thesis using law_step [of x m ev j y] assms(1) [OF Some] assms(3,4) Some by auto
  qed
qed

lemma law_holds:
  assumes "manager_run P m" "\<And>m. manager_run P m \<Longrightarrow> env m"
  shows "dict_get (agents m) j = Some x \<Longrightarrow> law x"
  using assms(1)
proof (induction arbitrary: j x rule: manager_run.induct)
  case (manager_fresh limit gap consumer approval)
  then show ?case by (simp add: fresh_manager_def)
next
  case (manager_next m ev e m')
  show ?case
    by (rule law_kept [OF manager_next.IH run_well_formed [OF manager_next(1)] assms(2) [OF manager_next(1)] manager_next(2,3) manager_next.prems])
qed

end

end
