(* ===== verification/Subagent_Laws.thy ===== *)
theory Subagent_Laws
  imports Subagent_Protocol
begin

text \<open>
  Laws of the whole manager. Every step is made of a few operations: a change of one record that keeps its
  report claim and its wave, a claimed report, a slot count, the pump, \<open>spawn\<close>, a queued stop, the wave
  bookkeeping. The locale \<open>manager_law\<close> derives from a law kept by these that it is kept by every step whose
  event satisfies \<open>P\<close>.
\<close>

definition same_claim :: "subagent \<Rightarrow> subagent \<Rightarrow> bool" where
  "same_claim x y \<longleftrightarrow> sa_finalized y = sa_finalized x \<and> sa_batch y = sa_batch x \<and> (sa_run y = RunNone \<longleftrightarrow> sa_run x = RunNone)"

locale manager_law =
  fixes law :: "manager \<Rightarrow> bool" and P :: "sub_event \<Rightarrow> manager \<Rightarrow> bool"
  assumes law_fresh: "law (fresh_manager limit gap consumer approval)"
    and law_set: "law m \<Longrightarrow> well_formed m \<Longrightarrow> dict_get (agents m) i = Some x \<Longrightarrow> same_claim x y \<Longrightarrow> law (set_agent i y m)"
    and law_report: "law m \<Longrightarrow> well_formed m \<Longrightarrow> dict_get (agents m) i = Some x \<Longrightarrow> sa_run x \<noteq> RunNone \<Longrightarrow> law (report_claimed s i m)"
    and law_up: "law m \<Longrightarrow> law (m\<lparr>running_count := running_count m + 1\<rparr>)"
    and law_drain: "law m \<Longrightarrow> well_formed m \<Longrightarrow> law (drain e (m\<lparr>running_count := c\<rparr>))"
    and law_timer: "law m \<Longrightarrow> well_formed m \<Longrightarrow> law (drain e (m\<lparr>drain_timers := k\<rparr>))"
    and law_spawn: "law m \<Longrightarrow> well_formed m \<Longrightarrow> unused_id (rq_id rq) m \<Longrightarrow> law (fst (spawn e rq m))"
    and law_stop: "law m \<Longrightarrow> well_formed m \<Longrightarrow> unqueue i m = Some (rq, m1) \<Longrightarrow> law (report_queued_stop rq m1)"
    and law_lost: "law m \<Longrightarrow> P (MemberLost b n) m \<Longrightarrow> law (record_lost_submission now b n m)"
    and law_over: "law m \<Longrightarrow> P (WaveOver b) m \<Longrightarrow> law (finalize_batch b m)"
    and law_shut: "law m \<Longrightarrow> law (shut_down m)"
begin

lemma law_free:
  assumes "law m" "well_formed m" "dict_get (agents m) i = Some x"
  shows "law (free_slot e i fl m)"
proof -
  have "law (drain e ((set_agent i (released x) m)\<lparr>running_count := c\<rparr>))" for c
    by (rule law_drain [OF law_set [OF assms] well_formed_set [OF assms(2,3)]]) (simp add: same_claim_def released_def)
  then show ?thesis using assms by (auto simp: free_slot_def released_alt)
qed

lemma law_end:
  assumes "law m" "well_formed m" "dict_get (agents m) i = Some x" "sa_run x \<noteq> RunNone"
  shows "law (end_run e i m)"
proof -
  let ?m = "free_slot e i False m"
  have g: "dict_get (agents ?m) i = Some (released x)" by (rule moves_get [OF free_slot_moves [OF assms(2)] assms(3)])
  have "law (set_agent i ((released x)\<lparr>sa_in_tasks := False, sa_run := RunEnded, sa_run_cancelled := False\<rparr>) ?m)"
    by (rule law_set [OF law_free [OF assms(1-3)] well_formed_free [OF assms(2)] g])
      (use assms(4) in \<open>simp add: same_claim_def released_def\<close>)
  then show ?thesis by (simp add: end_run_def upd_agent_def g)
qed

lemma law_finish:
  assumes "law m" "well_formed m" "dict_get (agents m) i = Some x" "sa_run x \<noteq> RunNone"
  shows "law (finish_run e i m)"
proof -
  let ?m = "report_claimed False i m"
  have g: "dict_get (agents ?m) i = Some (claimed False x)" by (rule moves_get [OF report_claimed_moves assms(3)])
  have r: "sa_run (claimed False x) \<noteq> RunNone" using assms(4) by (simp add: claimed_def claim_finalize_def)
  note l = law_report [OF assms] and w = well_formed_report [OF assms(2), of False i]
  have "law (set_agent i ((claimed False x)\<lparr>sa_run := RunTearingDown, sa_run_cancelled := False\<rparr>) ?m)"
    by (rule law_set [OF l w g]) (use r in \<open>simp add: same_claim_def\<close>)
  then show ?thesis using law_end [OF l w g r] by (simp add: finish_run_def Let_def g)
qed

lemma law_fail:
  assumes "law m" "well_formed m" "dict_get (agents m) i = Some x" "sa_run x \<noteq> RunNone"
  shows "law (fail_recovery i x m)"
proof -
  let ?y = "end_recovery x"
  let ?z = "if sa_done ?y \<or> sa_reap_started ?y \<or> sa_reaped ?y then ?y else ?y\<lparr>sa_done := True, sa_failed := True\<rparr>"
  have z: "same_claim x ?z" "sa_run ?z \<noteq> RunNone" using assms(4) by (simp_all add: same_claim_def end_recovery_def)
  show ?thesis unfolding fail_recovery_def Let_def
    by (rule law_report [OF law_set [OF assms(1-3) z(1)] well_formed_set [OF assms(2,3)], where x = ?z]) (use z(2) in simp_all)
qed

lemma law_respawn:
  assumes "law m" "well_formed m" "dict_get (agents m) i = Some x" "sa_run x \<noteq> RunNone"
  shows "law (respawn i x m)"
proof -
  have "law (set_agent i (respawned x) m)"
    by (rule law_set [OF assms(1-3)]) (use assms(4) in \<open>simp add: same_claim_def respawned_def end_recovery_def\<close>)
  then show ?thesis using law_up by (fastforce simp: respawn_alt)
qed

lemma law_stop_waiting:
  assumes "law m" "well_formed m"
  shows "law (stop_waiting parent m)"
proof -
  let ?f = "\<lambda>i m. case unqueue i m of None \<Rightarrow> m | Some (rq, m') \<Rightarrow> report_queued_stop rq m'"
  have one: "law (?f i n) \<and> well_formed (?f i n)" if "law n" "well_formed n" for i n
    using that law_stop report_queued_stop_adds [OF that(2)] by (auto simp: adds_stops_def split: option.splits)
  have "law (fold ?f is n)" if "law n" "well_formed n" for "is" n
    using that
  proof (induction "is" arbitrary: n)
    case (Cons i "is")
    then show ?case using one [OF Cons.prems, of i] Cons.IH [of "?f i n"] by simp
  qed simp
  then show ?thesis using assms by (simp add: stop_waiting_def)
qed

lemma law_deny:
  assumes "law m" "well_formed m" "dict_get (agents m) i = Some x" "sa_run x \<noteq> RunNone"
  shows "law (deny_approval e i x m)"
proof -
  let ?y = "x\<lparr>sa_awaiting_approval := False, sa_done := True, sa_failed := True\<rparr>"
  let ?g = "\<lambda>y. y\<lparr>sa_in_tasks := False, sa_run := RunEnded, sa_run_cancelled := False\<rparr>"
  let ?m0 = "set_agent i ?y m" and ?m1 = "free_slot e i False (set_agent i ?y m)"
  have l0: "law ?m0" and w0: "well_formed ?m0" and g0: "dict_get (agents ?m0) i = Some ?y"
    using law_set [OF assms(1-3), of ?y] well_formed_set [OF assms(2,3)] by (simp_all add: same_claim_def)
  have g1: "dict_get (agents ?m1) i = Some (released ?y)" by (rule moves_get [OF free_slot_moves [OF w0] g0])
  have l2: "law (set_agent i (?g (released ?y)) ?m1)"
    by (rule law_set [OF law_free [OF l0 w0 g0] well_formed_free [OF w0] g1])
      (use assms(4) in \<open>simp add: same_claim_def released_def\<close>)
  have "law (report_claimed False i (set_agent i (?g (released ?y)) ?m1))"
    by (rule law_report [OF l2 well_formed_set [OF well_formed_free [OF w0] g1], where x = "?g (released ?y)"]) simp_all
  then show ?thesis using l2 by (simp add: deny_approval_def Let_def upd_agent_def g1)
qed

lemma law_sub_step:
  assumes l: "law m" and w: "well_formed m" and P: "P ev m" and s: "sub_step e ev m = Some m'"
    and rec: "\<And>i x. dict_get (agents m) i = Some x \<Longrightarrow> recovery_live x \<or> sa_reaps x > 0 \<Longrightarrow> sa_run x \<noteq> RunNone"
  shows "law m'"
proof (cases ev)
  case (Spawn rq)
  then show ?thesis using s law_spawn [OF l w] by (auto split: if_splits)
next
  case DrainTimer
  then have "m' = drain e (m\<lparr>drain_timers := drain_timers m - 1\<rparr>)" using s by (simp split: if_splits)
  then show ?thesis using law_timer [OF l w] by blast
next
  case (ApprovalAnswered i approved)
  then obtain x where x: "dict_get (agents m) i = Some x" "sa_run x = ApprovalAsked"
      "m' = (if approved then set_agent i (x\<lparr>sa_awaiting_approval := False, sa_run := RunExecuting, sa_exec_started := True\<rparr>) m
             else deny_approval e i x m)"
    using s by (auto simp: with_agent_def split: option.splits if_splits)
  have "law (set_agent i (x\<lparr>sa_awaiting_approval := False, sa_run := RunExecuting, sa_exec_started := True\<rparr>) m)"
    by (rule law_set [OF l w x(1)]) (simp add: same_claim_def x(2))
  then show ?thesis using law_deny [OF l w x(1)] x(2,3) by simp
next
  case (RunReturns i how)
  then obtain x where x: "dict_get (agents m) i = Some x" "sa_run x = RunExecuting"
      "m' = finish_run e i (set_agent i (settle_record how x) m)"
    using s by (auto simp: with_agent_def split: option.splits if_splits)
  have r: "same_claim x (settle_record how x)" "sa_run (settle_record how x) = RunExecuting"
    using x(2) by (cases how; simp add: settle_record_def same_claim_def)+
  show ?thesis unfolding x(3)
    by (rule law_finish [OF law_set [OF l w x(1) r(1)] well_formed_set [OF w x(1)], where x = "settle_record how x"])
      (simp_all add: r(2))
next
  case (CancelArrives i tools draining)
  then obtain x where x: "dict_get (agents m) i = Some x" "run_live x" "m' = cancel_arrives e i tools draining x m"
    using s by (auto simp: with_agent_def split: option.splits if_splits)
  have live: "sa_run x \<noteq> RunNone" using x(2) by (auto simp: run_live_def)
  consider "sa_run x = RunExecuting" | "sa_run x = RunTearingDown" | "sa_run x \<notin> {RunExecuting, RunTearingDown}" by blast
  then show ?thesis
  proof cases
    case 1
    let ?y = "cancelled_record (shutting_down m) tools draining x"
    have r: "sa_run ?y = RunExecuting" "same_claim x ?y" using 1 by (simp_all add: cancelled_record_def same_claim_def)
    have "m' = finish_run e i (set_agent i ?y m)" using x(3) 1 by (simp add: cancel_arrives_def)
    moreover have "law (finish_run e i (set_agent i ?y m))"
      by (rule law_finish [OF law_set [OF l w x(1) r(2)] well_formed_set [OF w x(1)], where x = ?y]) (simp_all add: r(1))
    ultimately show ?thesis by simp
  next
    case 2
    then show ?thesis using law_end [OF l w x(1) live] x(3) by (simp add: cancel_arrives_def)
  next
    case 3
    then have m': "m' = set_agent i (x\<lparr>sa_run := RunEnded, sa_run_cancelled := False, sa_awaiting_approval := False\<rparr>) m"
      using x(3) by (cases "sa_run x") (auto simp: cancel_arrives_def)
    show ?thesis unfolding m' by (rule law_set [OF l w x(1)]) (simp add: same_claim_def live)
  qed
next
  case (TeardownOver i)
  then show ?thesis using s law_end [OF l w] by (auto simp: with_agent_def split: option.splits if_splits)
next
  case (TeardownSeen i)
  then obtain x where x: "dict_get (agents m) i = Some x" "sa_run x = RunEnded" "m' = resume_recovery i x m"
    using s by (auto simp: with_agent_def split: option.splits if_splits)
  have "law (set_agent i (end_recovery x) m)" "law (set_agent i (x\<lparr>sa_recovery := AwaitsSlot\<rparr>) m)"
    by (rule law_set [OF l w x(1)], simp add: same_claim_def end_recovery_def)+
  then show ?thesis using law_respawn [OF l w x(1)] x(2,3) by (simp add: resume_recovery_def)
next
  case (TeardownLate i)
  then obtain x where x: "dict_get (agents m) i = Some x" "recovery_live x" "m' = fail_recovery i x m"
    using s by (auto simp: with_agent_def recovery_live_def split: option.splits if_splits)
  show ?thesis unfolding x(3) by (rule law_fail [OF l w x(1)]) (use rec x in blast)
next
  case (SlotPolled i expired)
  then obtain x where x: "dict_get (agents m) i = Some x" "recovery_live x" "m' = poll_slot i expired x m"
    using s by (auto simp: with_agent_def recovery_live_def split: option.splits if_splits)
  have r: "sa_run x \<noteq> RunNone" using rec x by blast
  have "law (set_agent i (end_recovery x) m)" by (rule law_set [OF l w x(1)]) (simp add: same_claim_def end_recovery_def)
  then show ?thesis using law_respawn [OF l w x(1) r] law_fail [OF l w x(1) r] l x(3) by (simp add: poll_slot_def)
next
  case (RecoveryCancelArrives i)
  then obtain x where x: "dict_get (agents m) i = Some x" "m' = set_agent i (cancel_recovery x) m"
    using s by (auto simp: with_agent_def split: option.splits if_splits)
  show ?thesis unfolding x(2)
    by (rule law_set [OF l w x(1)]) (simp add: same_claim_def cancel_recovery_def end_recovery_def)
next
  case (StopAgent i)
  show ?thesis
  proof (cases rule: stop_agent_cases [of m i])
    case (reap x)
    have "law (set_agent i (begin_reap (x\<lparr>sa_user_stopped := True\<rparr>)) m)"
      by (rule law_set [OF l w reap(1)]) (simp add: begin_reap_def same_claim_def)
    then show ?thesis using StopAgent s reap(4) by simp
  next
    case (queued rq m1)
    then show ?thesis using StopAgent s law_stop [OF l w queued(1)] by simp
  next
    case nothing
    then show ?thesis using StopAgent s l by simp
  qed
next
  case (StopWaiting parent)
  then show ?thesis using s law_stop_waiting [OF l w] by auto
next
  case (ReapResumes i)
  then obtain x where x: "dict_get (agents m) i = Some x" "sa_reaps x > 0" "m' = resume_reap e i m"
    using s by (auto simp: with_agent_def split: option.splits if_splits)
  let ?y = "reap_record (shutting_down m) x"
  let ?m0 = "set_agent i ?y m"
  have r: "sa_run ?y = sa_run x" "same_claim x ?y" by (simp_all add: reap_record_def cancel_intentionally_def same_claim_def Let_def)
  have live: "sa_run x \<noteq> RunNone" using rec x by blast
  have l0: "law ?m0" and w0: "well_formed ?m0" and g0: "dict_get (agents ?m0) i = Some ?y"
    using law_set [OF l w x(1) r(2)] well_formed_set [OF w x(1)] by simp_all
  have "law (report_claimed True i (free_slot e i True ?m0))"
    by (rule law_report [OF law_free [OF l0 w0 g0] well_formed_free [OF w0] moves_get [OF free_slot_moves [OF w0] g0]])
      (simp add: released_def r(1) live)
  then show ?thesis using x(1,3) by (simp add: resume_reap_def upd_agent_def)
next
  case (ReaperFires i)
  then show ?thesis using s
    by (auto simp: with_agent_def same_claim_def begin_reap_def intro!: law_set [OF l w] split: option.splits if_splits)
next
  case (StrayCancel i)
  then show ?thesis using s
    by (auto simp: with_agent_def same_claim_def intro!: law_set [OF l w] split: option.splits if_splits)
next
  case CloseManager
  then show ?thesis using s law_shut [OF l] by auto
next
  case (MemberLost b n)
  then show ?thesis using s law_lost [OF l] P by auto
next
  case (WaveOver b)
  then show ?thesis using s law_over [OF l] P by auto
qed (use s in \<open>auto simp: with_agent_def same_claim_def intro!: law_set [OF l w] split: option.splits if_splits\<close>)

end

end
