(* ===== verification/Subagent_Limits.thy ===== *)
theory Subagent_Limits
  imports Subagent_Protocol
begin

text \<open>
  The concurrency limit. The counter is the number of records that occupy a slot, so a slot is neither
  given back twice nor leaked, and it stays within the limit. One interleaving is excluded: stopping a run
  whose queued stop is still waiting for its report, which gives back a slot the run never had.
\<close>

section \<open>Records and slots\<close>

text \<open>A stop or a reap does not hit the record of a queued stop before its report has begun.\<close>

fun single_stop :: "sub_event \<Rightarrow> manager \<Rightarrow> bool" where
  "single_stop (StopAgent i) m = (case dict_get (agents m) i of None \<Rightarrow> True | Some x \<Rightarrow> sa_done x \<or> sa_run x \<noteq> RunNone)"
| "single_stop (ReaperFires i) m = (case dict_get (agents m) i of None \<Rightarrow> True | Some x \<Rightarrow> sa_done x \<or> sa_run x \<noteq> RunNone)"
| "single_stop ev m = True"

definition slot_law :: "subagent \<Rightarrow> bool" where
  "slot_law x \<longleftrightarrow>
     (sa_run x = RunNone \<longrightarrow> sa_reaps x = 0 \<and> sa_recovery x = RecoveryNone) \<and>
     (recovery_live x \<longrightarrow> sa_run x = RunTearingDown \<or> sa_run x = RunEnded \<and> sa_slot_released x) \<and>
     (sa_recovery x = AwaitsSlot \<longrightarrow> sa_run x = RunEnded) \<and>
     (sa_recovery x \<noteq> RecoveryNone \<longrightarrow> sa_retry_used x)"

lemmas record_defs = claimed_def claim_finalize_def released_def ended_def finished_def denied_def recovery_failed_def
  respawned_def cancelled_run_def cancelled_record_def settle_record_def cancel_intentionally_def begin_reap_def
  reap_record_def recovery_off_def end_recovery_def cancel_recovery_def shut_down_agent_def run_live_def
  recovery_live_def

lemma claimed_fields [simp]:
  "sa_run (claimed s x) = sa_run x" "sa_reaps (claimed s x) = sa_reaps x" "sa_recovery (claimed s x) = sa_recovery x"
  "sa_slot_released (claimed s x) = sa_slot_released x" "sa_retry_used (claimed s x) = sa_retry_used x"
  "sa_done (claimed s x) = sa_done x" "sa_reaped (claimed s x) = sa_reaped x" "sa_listed (claimed s x) = sa_listed x"
  "sa_reap_started (claimed s x) = sa_reap_started x" "sa_recovery_cancelled (claimed s x) = sa_recovery_cancelled x"
  "sa_batch (claimed s x) = sa_batch x" "sa_run_cancelled (claimed s x) = sa_run_cancelled x"
  "sa_in_tasks (claimed s x) = sa_in_tasks x" "sa_failed (claimed s x) = sa_failed x"
  "sa_recovery_in_tasks (claimed s x) = sa_recovery_in_tasks x"
  by (simp_all add: claimed_def claim_finalize_def split: prod.splits)

lemma finished_fields [simp]:
  "sa_run (finished x) = (if sa_reaped x then RunEnded else RunTearingDown)" "sa_reaps (finished x) = sa_reaps x"
  "sa_recovery (finished x) = sa_recovery x" "sa_slot_released (finished x) = (sa_reaped x \<or> sa_slot_released x)"
  "sa_retry_used (finished x) = sa_retry_used x" "sa_done (finished x) = sa_done x" "sa_reaped (finished x) = sa_reaped x"
  "sa_listed (finished x) = sa_listed x" "sa_reap_started (finished x) = sa_reap_started x"
  "sa_recovery_cancelled (finished x) = sa_recovery_cancelled x" "sa_batch (finished x) = sa_batch x"
  "sa_finalized (finished x) = sa_finalized (claimed False x)" "sa_recovering (finished x) = sa_recovering (claimed False x)"
  "sa_report (finished x) = sa_report (claimed False x)"
  by (simp_all add: finished_def ended_def released_def Let_def)

lemma ended_fields [simp]:
  "sa_run (ended x) = RunEnded" "sa_reaps (ended x) = sa_reaps x"
  "sa_recovery (ended x) = sa_recovery x" "sa_slot_released (ended x) = True"
  "sa_retry_used (ended x) = sa_retry_used x" "sa_done (ended x) = sa_done x" "sa_reaped (ended x) = sa_reaped x"
  "sa_listed (ended x) = sa_listed x" "sa_reap_started (ended x) = sa_reap_started x"
  "sa_recovery_cancelled (ended x) = sa_recovery_cancelled x" "sa_batch (ended x) = sa_batch x"
  "sa_finalized (ended x) = sa_finalized x" "sa_recovering (ended x) = sa_recovering x" "sa_report (ended x) = sa_report x"
  by (simp_all add: ended_def released_def)

lemma recovery_live_alt: "recovery_live x \<longleftrightarrow> sa_recovery x \<noteq> RecoveryNone \<and> sa_recovery x \<noteq> RecoveryEnded"
  by (cases "sa_recovery x") (simp_all add: recovery_live_def)

lemma newborn_fields:
  assumes "newborn x"
  shows "sa_reaps x = 0" "sa_recovery x = RecoveryNone" "\<not> sa_slot_released x" "\<not> sa_finalized x" "\<not> sa_recovering x"
    "\<not> sa_reap_started x" "\<not> sa_reaped x" "sa_listed x" "sa_report x = ReportNone" "\<not> sa_recovery_cancelled x"
    "\<not> sa_run_cancelled x" "sa_run x \<in> {RunNone, RunUnstarted, ApprovalUnstarted}" "sa_done x \<longleftrightarrow> sa_run x = RunNone"
    "\<not> recovery_live x" "\<not> sa_recovery_in_tasks x" "\<not> sa_queued x"
  using assms by (auto simp: newborn_def new_subagent_def recovery_live_def)

lemma stop_record_fields:
  assumes "stop_record x"
  shows "sa_reaps x = 0" "sa_recovery x = RecoveryNone" "\<not> sa_slot_released x" "sa_finalized x" "\<not> sa_recovering x"
    "\<not> sa_reap_started x" "\<not> sa_reaped x" "sa_listed x" "sa_report x = ReportUnstarted" "\<not> sa_recovery_cancelled x"
    "\<not> sa_run_cancelled x" "sa_run x = RunNone" "\<not> recovery_live x" "\<not> sa_recovery_in_tasks x" "sa_queued x"
  using assms by (auto simp: stop_record_def claimed_def claim_finalize_def new_subagent_def recovery_live_def)

lemma reap_record_fields [simp]:
  "sa_run (reap_record b x) = sa_run x" "sa_reaps (reap_record b x) = sa_reaps x - 1" "sa_recovery (reap_record b x) = sa_recovery x"
  "sa_slot_released (reap_record b x) = sa_slot_released x" "sa_done (reap_record b x)" "sa_reaped (reap_record b x)"
  "sa_listed (reap_record b x) = sa_listed x" "sa_reap_started (reap_record b x) = sa_reap_started x"
  "sa_finalized (reap_record b x) = sa_finalized x" "sa_recovering (reap_record b x) = sa_recovering x"
  "sa_report (reap_record b x) = sa_report x" "sa_batch (reap_record b x) = sa_batch x"
  "sa_recovery_cancelled (reap_record b x) = sa_recovery_cancelled x"
  "sa_retry_used x \<Longrightarrow> sa_retry_used (reap_record b x)"
  by (simp_all add: reap_record_def cancel_intentionally_def Let_def)

lemma shut_down_fields [simp]:
  "sa_run (shut_down_agent x) = sa_run x" "sa_reaps (shut_down_agent x) = sa_reaps x"
  "sa_recovery (shut_down_agent x) = sa_recovery x" "sa_slot_released (shut_down_agent x) = sa_slot_released x"
  "sa_retry_used (shut_down_agent x) = sa_retry_used x"
  by (simp_all add: shut_down_agent_def cancel_intentionally_def Let_def)

lemma released_fields [simp]:
  "sa_run (released x) = sa_run x" "sa_reaps (released x) = sa_reaps x" "sa_recovery (released x) = sa_recovery x"
  "sa_slot_released (released x)" "sa_retry_used (released x) = sa_retry_used x" "sa_done (released x) = sa_done x"
  "sa_finalized (released x) = sa_finalized x" "sa_recovering (released x) = sa_recovering x" "sa_report (released x) = sa_report x"
  "sa_reaped (released x) = sa_reaped x" "sa_listed (released x) = sa_listed x" "sa_reap_started (released x) = sa_reap_started x"
  "sa_batch (released x) = sa_batch x" "sa_recovery_cancelled (released x) = sa_recovery_cancelled x"
  by (simp_all add: released_def)

lemma law_moves:
  assumes "slot_law x" "sa_recovery x \<noteq> RecoveryNone"
  shows "slot_law (end_recovery x)" "slot_law (recovery_failed x)" "slot_law (respawned x)"
proof -
  show e: "slot_law (end_recovery x)" using assms by (simp add: slot_law_def end_recovery_def recovery_live_alt)
  have "slot_law ((end_recovery x)\<lparr>sa_done := True, sa_failed := True\<rparr>)" using e by (simp add: slot_law_def recovery_live_alt)
  then show "slot_law (recovery_failed x)" using e by (simp add: recovery_failed_def slot_law_def recovery_live_alt Let_def)
  show "slot_law (respawned x)" using assms by (simp add: slot_law_def respawned_def end_recovery_def recovery_live_alt)
qed

interpretation slots: run_law slot_law single_stop "\<lambda>_. True"
proof unfold_locales
  show "newborn x \<Longrightarrow> slot_law x" for x using newborn_fields [of x] by (simp add: slot_law_def)
  show "stop_record x \<Longrightarrow> slot_law x" for x using stop_record_fields [of x] by (simp add: slot_law_def)
next
  fix x m ev i y
  assume l: "slot_law x" and P: "single_stop ev m" and t: "target ev = Some i \<or> ev = CloseManager"
    and g: "\<And>j. target ev = Some j \<Longrightarrow> dict_get (agents m) j = Some x" and r: "record_after m ev x = Some y"
  show "slot_law y"
  proof (cases ev)
    case (StopAgent k)
    then have "sa_done x \<or> sa_run x \<noteq> RunNone" using P g by simp
    then show ?thesis using l r StopAgent by (auto simp: slot_law_def begin_reap_def recovery_live_alt split: if_splits)
  next
    case (ReaperFires k)
    then have "sa_done x \<or> sa_run x \<noteq> RunNone" using P g by simp
    then show ?thesis using l r ReaperFires by (auto simp: slot_law_def begin_reap_def recovery_live_alt split: if_splits)
  next
    case (RunReturns k how)
    then show ?thesis using l r
      by (cases how) (auto simp: slot_law_def settle_record_def recovery_live_alt split: if_splits)
  next
    case (CancelArrives k tools draining)
    then have y: "y = cancelled_run (shutting_down m) tools draining x" and live: "sa_run x \<noteq> RunNone"
      using r by (auto simp: run_live_def split: if_splits)
    consider "sa_run x = RunExecuting" | "sa_run x = RunTearingDown" | "sa_run x \<notin> {RunExecuting, RunTearingDown}" by blast
    then show ?thesis
    proof cases
      case 1
      then show ?thesis using l by (auto simp: y slot_law_def cancelled_run_def cancelled_record_def recovery_live_alt)
    next
      case 2
      then show ?thesis using l by (auto simp: y slot_law_def cancelled_run_def recovery_live_alt)
    next
      case 3
      then show ?thesis using l live by (auto simp: y slot_law_def cancelled_run_def recovery_live_alt)
    qed
  next
    case (ApprovalAnswered k approved)
    then show ?thesis using l r
      by (auto simp: slot_law_def denied_def recovery_live_alt Let_def split: if_splits)
  next
    case (SlotPolled k expired)
    then have "y = recovery_failed x \<or> y = x \<or> y = end_recovery x \<or> y = respawned x" "sa_recovery x = AwaitsSlot"
      using r by (auto split: if_splits)
    then show ?thesis using l by (auto simp: law_moves)
  next
    case (TeardownSeen k)
    then have "y = end_recovery x \<or> y = x\<lparr>sa_recovery := AwaitsSlot\<rparr> \<or> y = respawned x" "sa_recovery x = AwaitsTeardown" "sa_run x = RunEnded"
      using r by (auto split: if_splits)
    then show ?thesis using l by (auto simp: law_moves) (auto simp: slot_law_def recovery_live_alt)
  next
    case (ReapResumes k)
    then have "y = claimed True (released (reap_record (shutting_down m) x))" using r by (auto split: if_splits)
    then show ?thesis using l by (simp add: slot_law_def recovery_live_alt) blast
  next
    case CloseManager
    then have "y = shut_down_agent x" using r by simp
    then show ?thesis using l by (simp add: slot_law_def recovery_live_alt)
  next
    case (TeardownLate k)
    then have "y = recovery_failed x" "sa_recovery x \<noteq> RecoveryNone" using r by (auto split: if_splits)
    then show ?thesis using l by (simp add: law_moves)
  next
    case (RecoveryCancelArrives k)
    then have y: "y = cancel_recovery x" and "recovery_live x" using r by (auto split: if_splits)
    then have n: "sa_recovery x \<noteq> RecoveryNone" by (simp add: recovery_live_alt)
    have "slot_law ((end_recovery x)\<lparr>sa_done := True, sa_failed := True\<rparr>)"
      using law_moves(1) [OF l n] by (simp add: slot_law_def recovery_live_alt)
    moreover have "slot_law (x\<lparr>sa_recovery := RecoveryEnded, sa_recovery_cancelled := False\<rparr>)"
      using l n by (simp add: slot_law_def recovery_live_alt)
    ultimately show ?thesis using law_moves(1) [OF l n] by (simp add: y cancel_recovery_def)
  next
    case (TeardownOver k)
    then have "y = ended x" "sa_run x \<noteq> RunNone" using r by (auto split: if_splits)
    then show ?thesis using l by (auto simp: slot_law_def recovery_live_alt)
next
    case (RunBegins k)
    then have "y = x\<lparr>sa_run := RunExecuting, sa_exec_started := True\<rparr>" "sa_run x = RunUnstarted" using r by (auto split: if_splits)
    then show ?thesis using l by (simp add: slot_law_def recovery_live_alt)
  next
    case (ApprovalBegins k)
    then have "y = x\<lparr>sa_run := ApprovalAsked, sa_awaiting_approval := True\<rparr>" "sa_run x = ApprovalUnstarted" using r by (auto split: if_splits)
    then show ?thesis using l by (simp add: slot_law_def recovery_live_alt)
  next
    case (RecoveryBegins k)
    then have "y = x\<lparr>sa_recovery := AwaitsTeardown\<rparr>" "sa_recovery x = RecoveryUnstarted" using r by (auto split: if_splits)
    then show ?thesis using l by (simp add: slot_law_def recovery_live_alt)
  next
    case (ReportBegins k)
    then have "y = x\<lparr>sa_done := True, sa_report := ReportStarted\<rparr>" using r by (auto split: if_splits)
    then show ?thesis using l by (simp add: slot_law_def recovery_live_alt)
  next
    case (StrayCancel k)
    then have "y = x\<lparr>sa_run_cancelled := True\<rparr>" using r by (auto split: if_splits)
    then show ?thesis using l by (simp add: slot_law_def recovery_live_alt)
  next
    case (ClearCompleted k)
    then have "y = x\<lparr>sa_listed := False, sa_in_tasks := False\<rparr>" using r by (auto split: if_splits)
    then show ?thesis using l by (simp add: slot_law_def recovery_live_alt)
  next
    case (Evicted k)
    then have "y = x\<lparr>sa_listed := False\<rparr>" using r by (auto split: if_splits)
    then show ?thesis using l by (simp add: slot_law_def recovery_live_alt)
  next
    case (ResultHeld k t)
    then have "y = x\<lparr>sa_held_at := t\<rparr>" using r by (auto split: if_splits)
    then show ?thesis using l by (simp add: slot_law_def recovery_live_alt)
  qed (use r in simp_all)
qed

section \<open>The counter counts\<close>

definition counted :: "manager \<Rightarrow> bool" where
  "counted m \<longleftrightarrow> well_formed m \<and> running_count m = int (occupants m) \<and> running_count m \<le> max 0 (max_concurrent m)"

lemma counted_view: "slot_view m' = slot_view m \<Longrightarrow> counted m' \<longleftrightarrow> counted m"
  by (simp add: counted_def well_formed_def slot_view_eq occupants_def)

lemma counted_timers [simp]: "counted (m\<lparr>drain_timers := k\<rparr>) \<longleftrightarrow> counted m"
  by (simp add: counted_def occupants_def)

lemma filter_dict_set:
  "dict_wf d \<Longrightarrow> dict_get d i = Some x \<Longrightarrow>
    length (filter (\<lambda>(j, y). f y) (dict_set i z d)) + (if f x then 1 else 0) = length (filter (\<lambda>(j, y). f y) d) + (if f z then 1 else (0::nat))"
proof (induction d)
  case (Cons p d)
  show ?case
  proof (cases "fst p = i")
    case True
    then show ?thesis using Cons.prems by (cases p) (auto split: if_splits)
  next
    case False
    then show ?thesis using Cons by (cases p) (auto split: if_splits)
  qed
qed simp

lemma occupants_set:
  assumes "well_formed m" "dict_get (agents m) i = Some x"
  shows "int (occupants (set_agent i y m)) = int (occupants m) - (if occupies x then 1 else 0) + (if occupies y then 1 else 0)"
proof -
  have "dict_wf (agents m)" using assms(1) by (simp add: well_formed_def)
  from filter_dict_set [OF this assms(2), of occupies y] show ?thesis by (simp add: occupants_def split: if_splits)
qed

lemma counted_set:
  assumes "counted m" "dict_get (agents m) i = Some x" "occupies y = occupies x"
  shows "counted (set_agent i y m)"
  using assms occupants_set [of m i x y] well_formed_set [of m i x y] by (auto simp: counted_def)

lemma counted_pumped:
  assumes "counted m" "pumped m m'"
  shows "counted m'"
proof -
  obtain new where n: "agents m' = agents m @ new" "running_count m' = running_count m + int (length (filter (\<lambda>(i, x). occupies x) new))"
      "running_count m' \<le> max (running_count m) (max_concurrent m)" "constants m' = constants m"
    using assms(2) unfolding pumped_def by blast
  have "well_formed m'" by (rule well_formed_pumped [OF _ assms(2)]) (use assms(1) in \<open>simp add: counted_def\<close>)
  then show ?thesis using assms(1) n by (auto simp: counted_def occupants_def constants_def)
qed

lemma occupants_positive: "dict_get (agents m) i = Some x \<Longrightarrow> occupies x \<Longrightarrow> occupants m > 0"
  unfolding occupants_def by (auto dest!: dict_get_Some_in_set simp: length_greater_0_conv filter_empty_conv)

lemma counted_free:
  assumes "counted m" "dict_get (agents m) i = Some x" "sa_run x \<noteq> RunNone"
  shows "counted (free_slot e i fl m)"
proof (cases "sa_slot_released x")
  case True
  then show ?thesis using assms by (simp add: free_slot_def released_alt)
next
  case False
  then have o: "occupies x" "\<not> occupies (released x)" using assms(3) by (simp_all add: occupies_def released_def)
  let ?c = "if fl then max 0 (running_count m - 1) else running_count m - 1"
  have w: "well_formed m" using assms(1) by (simp add: counted_def)
  have c: "?c = running_count m - 1" using occupants_positive [OF assms(2) o(1)] assms(1) by (simp add: counted_def)
  have "counted ((set_agent i (released x) m)\<lparr>running_count := running_count m - 1\<rparr>)"
    using assms(1) o occupants_set [OF w assms(2), of "released x"] well_formed_set [OF w assms(2), of "released x"]
    by (auto simp: counted_def occupants_def)
  moreover have "free_slot e i fl m = drain e ((set_agent i (released x) m)\<lparr>running_count := ?c\<rparr>)"
    using False assms(2) by (simp add: free_slot_def released_alt)
  ultimately show ?thesis unfolding c
    using counted_pumped [OF _ drain_pumped] by (metis counted_def)
qed

lemma occupies_claimed [simp]: "occupies (claimed s x) \<longleftrightarrow> occupies x"
  by (simp add: occupies_def)

lemma counted_report: "counted m \<Longrightarrow> counted (report_claimed s i m)"
proof (cases rule: report_claimed_cases [of s i m])
  case (won x y)
  assume c: "counted m"
  have "counted (set_agent i (claimed s x) m)" by (rule counted_set [OF c won(1)]) simp
  then show ?thesis unfolding won(4) using counted_view [OF slot_view_announce] by blast
qed simp

lemma counted_upd:
  assumes "counted m" "\<And>x. dict_get (agents m) i = Some x \<Longrightarrow> occupies (f x) = occupies x"
  shows "counted (upd_agent i f m)"
  using assms counted_set [OF assms(1)] by (auto simp: upd_agent_def split: option.splits)

lemma counted_wf: "counted m \<Longrightarrow> well_formed m"
  by (simp add: counted_def)

lemma counted_end:
  assumes "counted m" "dict_get (agents m) i = Some x" "sa_run x \<noteq> RunNone"
  shows "counted (end_run e i m)"
  unfolding end_run_def
proof (rule counted_upd [OF counted_free [OF assms]])
  fix y assume "dict_get (agents (free_slot e i False m)) i = Some y"
  then have "y = released x" using moves_get [OF free_slot_moves [OF counted_wf [OF assms(1)]] assms(2)] by simp
  then show "occupies (y\<lparr>sa_in_tasks := False, sa_run := RunEnded, sa_run_cancelled := False\<rparr>) = occupies y"
    by (simp add: occupies_def released_def)
qed

lemma counted_finish:
  assumes "counted m" "dict_get (agents m) i = Some x" "sa_run x \<noteq> RunNone"
  shows "counted (finish_run e i m)"
proof -
  have g: "dict_get (agents (report_claimed False i m)) i = Some (claimed False x)"
    by (rule moves_get [OF report_claimed_moves assms(2)])
  note c = counted_report [OF assms(1), of False i]
  show ?thesis
    using counted_end [OF c g] counted_set [OF c g] assms(3) by (simp add: finish_run_def Let_def g occupies_def)
qed

lemma counted_respawn:
  assumes "counted m" "dict_get (agents m) i = Some x" "\<not> occupies x" "running_count m < max_concurrent m"
  shows "counted (respawn i x m)"
proof -
  have "occupies (respawned x)" by (simp add: occupies_def respawned_def)
  then show ?thesis
    using assms occupants_set [OF counted_wf [OF assms(1)] assms(2), of "respawned x"] well_formed_set [OF counted_wf [OF assms(1)] assms(2)]
    by (simp add: counted_def respawn_alt occupants_def)
qed

lemma occupies_end_recovery [simp]: "occupies (end_recovery x) \<longleftrightarrow> occupies x"
  by (simp add: occupies_def end_recovery_def)

lemma counted_fail:
  assumes "counted m" "dict_get (agents m) i = Some x"
  shows "counted (fail_recovery i x m)"
  unfolding fail_recovery_def Let_def
proof (rule counted_report)
  let ?y = "end_recovery x"
  let ?z = "if sa_done ?y \<or> sa_reap_started ?y \<or> sa_reaped ?y then ?y else ?y\<lparr>sa_done := True, sa_failed := True\<rparr>"
  have "occupies ?z = occupies x" by (simp add: occupies_def end_recovery_def)
  then show "counted (set_agent i ?z m)" by (rule counted_set [OF assms])
qed

lemma counted_stop:
  assumes "counted m" "adds_stops m m'"
  shows "counted m'"
  using assms by (simp add: counted_def adds_stops_def constants_def)

lemma occupies_shut [simp]: "occupies (shut_down_agent x) \<longleftrightarrow> occupies x"
  by (simp add: occupies_def shut_down_agent_def cancel_intentionally_def Let_def)

lemma counted_shut: "counted m \<Longrightarrow> counted (shut_down m)"
  by (simp add: counted_def well_formed_def occupants_def shut_down_def filter_map comp_def case_prod_unfold)

lemma step_counted:
  assumes c: "counted m" and law: "\<And>j x. dict_get (agents m) j = Some x \<Longrightarrow> slot_law x"
    and P: "single_stop ev m" and s: "sub_step e ev m = Some m'"
  shows "counted m'"
proof (cases ev)
  case (Spawn rq)
  then have u: "unused_id (rq_id rq) m" and m': "m' = fst (spawn e rq m)" using s by (simp_all split: if_splits)
  note p = spawn_pumped(1) [OF counted_wf [OF c] u, of e] spawn_pumped(2) [OF counted_wf [OF c] u]
  have "counted (m\<lparr>waiting := rq # waiting m\<rparr>)" using c p(2) by (simp add: counted_def occupants_def)
  then show ?thesis unfolding m' using p(1) by (rule counted_pumped)
next
  case DrainTimer
  then have m': "m' = drain e (m\<lparr>drain_timers := drain_timers m - 1\<rparr>)" using s by (simp split: if_splits)
  show ?thesis unfolding m' by (rule counted_pumped [OF _ drain_pumped]) (use c counted_wf in auto)
next
  case (ApprovalAnswered i approved)
  then obtain x where x: "dict_get (agents m) i = Some x" "sa_run x = ApprovalAsked"
      "m' = (if approved then set_agent i (x\<lparr>sa_awaiting_approval := False, sa_run := RunExecuting, sa_exec_started := True\<rparr>) m
             else deny_approval e i x m)"
    using s by (auto simp: with_agent_def split: option.splits if_splits)
  show ?thesis
  proof (cases approved)
    case True
    then show ?thesis using counted_set [OF c x(1)] x(2,3) by (simp add: occupies_def)
  next
    case False
    let ?y = "x\<lparr>sa_awaiting_approval := False, sa_done := True, sa_failed := True\<rparr>"
    let ?m0 = "set_agent i ?y m"
    let ?g = "\<lambda>y. y\<lparr>sa_in_tasks := False, sa_run := RunEnded, sa_run_cancelled := False\<rparr>"
    have c0: "counted ?m0" by (rule counted_set [OF c x(1)]) (simp add: occupies_def)
    have g0: "dict_get (agents ?m0) i = Some ?y" by simp
    have f: "counted (free_slot e i False ?m0)" by (rule counted_free [OF c0 g0]) (simp add: x(2))
    have "counted (upd_agent i ?g (free_slot e i False ?m0))"
    proof (rule counted_upd [OF f])
      fix z assume "dict_get (agents (free_slot e i False ?m0)) i = Some z"
      then have "z = released ?y" using moves_get [OF free_slot_moves [OF counted_wf [OF c0]] g0] by simp
      then show "occupies (?g z) = occupies z" by (simp add: occupies_def released_def)
    qed
    then show ?thesis using False x(3) counted_report by (simp add: deny_approval_def Let_def)
  qed
next
  case (RunReturns i how)
  then obtain x where x: "dict_get (agents m) i = Some x" "sa_run x = RunExecuting"
      "m' = finish_run e i (set_agent i (settle_record how x) m)"
    using s by (auto simp: with_agent_def split: option.splits if_splits)
  have r: "sa_run (settle_record how x) = RunExecuting" "occupies (settle_record how x) = occupies x"
    using x(2) by (cases how; simp add: settle_record_def occupies_def)+
  show ?thesis unfolding x(3)
    by (rule counted_finish [OF counted_set [OF c x(1) r(2)], where x = "settle_record how x"]) (simp_all add: r(1))
next
  case (CancelArrives i tools draining)
  then obtain x where x: "dict_get (agents m) i = Some x" "run_live x" "m' = cancel_arrives e i tools draining x m"
    using s by (auto simp: with_agent_def split: option.splits if_splits)
  consider "sa_run x = RunExecuting" | "sa_run x = RunTearingDown" | "sa_run x \<notin> {RunExecuting, RunTearingDown}" by blast
  then show ?thesis
  proof cases
    case 1
    let ?y = "cancelled_record (shutting_down m) tools draining x"
    have r: "sa_run ?y = RunExecuting" "occupies ?y = occupies x" using 1 by (simp_all add: cancelled_record_def occupies_def)
    have "m' = finish_run e i (set_agent i ?y m)" using x(3) 1 by (simp add: cancel_arrives_def)
    moreover have "counted (finish_run e i (set_agent i ?y m))"
      by (rule counted_finish [OF counted_set [OF c x(1) r(2)], where x = ?y]) (simp_all add: r(1))
    ultimately show ?thesis by simp
  next
    case 2
    then show ?thesis using counted_end [OF c x(1)] x(3) by (simp add: cancel_arrives_def)
  next
    case 3
    then have m': "m' = set_agent i (x\<lparr>sa_run := RunEnded, sa_run_cancelled := False, sa_awaiting_approval := False\<rparr>) m"
      using x(3) by (cases "sa_run x") (auto simp: cancel_arrives_def)
    have "sa_run x \<noteq> RunNone" using x(2) by (auto simp: run_live_def)
    then show ?thesis unfolding m' by (intro counted_set [OF c x(1)]) (simp add: occupies_def)
  qed
next
  case (TeardownOver i)
  then show ?thesis using s counted_end [OF c] by (auto simp: with_agent_def split: option.splits if_splits)
next
  case (TeardownSeen i)
  then obtain x where x: "dict_get (agents m) i = Some x" "sa_recovery x = AwaitsTeardown" "sa_run x = RunEnded"
      "m' = resume_recovery i x m"
    using s by (auto simp: with_agent_def split: option.splits if_splits)
  have set_off: "counted (set_agent i (end_recovery x) m)" by (rule counted_set [OF c x(1)]) simp
  have set_wait: "counted (set_agent i (x\<lparr>sa_recovery := AwaitsSlot\<rparr>) m)" by (rule counted_set [OF c x(1)]) (simp add: occupies_def)
  have "\<not> occupies x" using law [OF x(1)] x(2,3) by (auto simp: slot_law_def recovery_live_alt occupies_def)
  then show ?thesis
    using counted_respawn [OF c x(1)] set_off set_wait x(4) by (auto simp: resume_recovery_def)
next
  case (TeardownLate i)
  then show ?thesis using s counted_fail [OF c] by (auto simp: with_agent_def split: option.splits if_splits)
next
  case (SlotPolled i expired)
  then obtain x where x: "dict_get (agents m) i = Some x" "sa_recovery x = AwaitsSlot" "m' = poll_slot i expired x m"
    using s by (auto simp: with_agent_def split: option.splits if_splits)
  have set_off: "counted (set_agent i (end_recovery x) m)" by (rule counted_set [OF c x(1)]) simp
  have "\<not> occupies x" using law [OF x(1)] x(2) by (auto simp: slot_law_def recovery_live_alt occupies_def)
  then show ?thesis
    using counted_respawn [OF c x(1)] set_off counted_fail [OF c x(1)] c x(3) by (auto simp: poll_slot_def)
next
  case (RecoveryCancelArrives i)
  then obtain x where x: "dict_get (agents m) i = Some x" "m' = set_agent i (cancel_recovery x) m"
    using s by (auto simp: with_agent_def split: option.splits if_splits)
  show ?thesis unfolding x(2) by (rule counted_set [OF c x(1)]) (simp add: cancel_recovery_def occupies_def end_recovery_def)
next
  case (StopAgent i)
  show ?thesis
  proof (cases rule: stop_agent_cases [of m i])
    case (reap x)
    have "counted (set_agent i (begin_reap (x\<lparr>sa_user_stopped := True\<rparr>)) m)"
      by (rule counted_set [OF c reap(1)]) (simp add: begin_reap_def occupies_def)
    then show ?thesis using StopAgent s reap(4) by simp
  next
    case (queued rq m1)
    then show ?thesis using StopAgent s counted_stop [OF c report_queued_stop_adds [OF counted_wf [OF c] queued(1)]] by simp
  next
    case nothing
    then show ?thesis using StopAgent s c by simp
  qed
next
  case (StopWaiting parent)
  then show ?thesis using s counted_stop [OF c stop_waiting_adds [OF counted_wf [OF c]]] by auto
next
  case (ReapResumes i)
  then obtain x where x: "dict_get (agents m) i = Some x" "sa_reaps x > 0" "m' = resume_reap e i m"
    using s by (auto simp: with_agent_def split: option.splits if_splits)
  let ?y = "reap_record (shutting_down m) x"
  have r: "sa_run ?y = sa_run x" "occupies ?y = occupies x" by (simp_all add: reap_record_def cancel_intentionally_def occupies_def Let_def)
  have live: "sa_run x \<noteq> RunNone" using law [OF x(1)] x(2) by (auto simp: slot_law_def)
  have "counted (free_slot e i True (set_agent i ?y m))"
    by (rule counted_free [OF counted_set [OF c x(1) r(2)], where x = ?y]) (simp_all add: r(1) live)
  then show ?thesis using counted_report x(1,3) by (simp add: resume_reap_def upd_agent_def)
next
  case CloseManager
  then show ?thesis using s counted_shut [OF c] by auto
next
  case (MemberLost b n)
  then show ?thesis using s counted_view [OF slot_view_waves(3)] c by auto
next
  case (WaveOver b)
  then show ?thesis using s counted_view [OF slot_view_waves(2)] c by auto
next
  case (RunBegins i)
  then show ?thesis using s by (auto simp: with_agent_def occupies_def intro!: counted_set [OF c] split: option.splits if_splits)
next
  case (ApprovalBegins i)
  then show ?thesis using s by (auto simp: with_agent_def occupies_def intro!: counted_set [OF c] split: option.splits if_splits)
next
  case (RecoveryBegins i)
  then show ?thesis using s by (auto simp: with_agent_def occupies_def intro!: counted_set [OF c] split: option.splits if_splits)
next
  case (ReaperFires i)
  then show ?thesis using s
    by (auto simp: with_agent_def occupies_def begin_reap_def intro!: counted_set [OF c] split: option.splits if_splits)
qed (use s in \<open>auto simp: with_agent_def occupies_def intro!: counted_set [OF c] split: option.splits if_splits\<close>)

lemma run_counted: "manager_run single_stop m \<Longrightarrow> counted m"
proof (induction rule: manager_run.induct)
  case (manager_fresh limit gap consumer approval)
  show ?case by (simp add: counted_def well_formed_def occupants_def fresh_manager_def)
next
  case (manager_next m ev e m')
  show ?case
    by (rule step_counted [OF manager_next.IH slots.law_holds [OF manager_next(1)] manager_next(2,3)]) simp_all
qed

end
