(* ===== verification/Subagent_Reports.thy ===== *)
theory Subagent_Reports
  imports Subagent_Laws Subagent_Limits
begin

text \<open>
  Terminal reports. The claim makes a run report at most once; the protocol between the run, the reap and
  the recovery makes sure that a run without a report still has somebody to make it.
\<close>

context manager_law
begin

lemma law_run:
  assumes stops: "\<And>ev m. P ev m \<Longrightarrow> single_stop ev m"
  shows "manager_run P m \<Longrightarrow> law m"
proof (induction rule: manager_run.induct)
  case (manager_fresh limit gap consumer approval)
  show ?case by (rule law_fresh)
next
  case (manager_next m ev e m')
  have r: "manager_run single_stop m" using manager_next(1) stops by (rule manager_run_mono)
  have "sa_run x \<noteq> RunNone" if "dict_get (agents m) i = Some x" "recovery_live x \<or> sa_reaps x > 0" for i x
    using slots.law_holds [OF r _ that(1)] that(2) by (auto simp: slot_law_def recovery_live_alt)
  then show ?case by (rule law_sub_step [OF manager_next.IH run_well_formed [OF manager_next(1)] manager_next(2,3)])
qed

end

section \<open>Counting announcements\<close>

definition tally :: "(announcement \<Rightarrow> bool) \<Rightarrow> manager \<Rightarrow> nat" where
  "tally f m = length (filter f (announced m))"

lemma tally_simps [simp]:
  "tally f (set_agent i x m) = tally f m" "tally f (upd_agent i g m) = tally f m"
  "tally f (announce a m) = tally f m + (if f a then 1 else 0)"
  "tally f (m\<lparr>running_count := c\<rparr>) = tally f m" "tally f (m\<lparr>drain_timers := k\<rparr>) = tally f m"
  "tally f (m\<lparr>waiting := q\<rparr>) = tally f m"
  "tally f (count_submission now b n m) = tally f m" "tally f (finalize_batch b m) = tally f m"
  "tally f (rearm_pump m) = tally f m" "tally f (shut_down m) = tally f m"
  by (simp_all add: tally_def upd_agent_def count_submission_def finalize_batch_def rearm_pump_def shut_down_def
      split: option.splits prod.splits)

text \<open>Admission announces at most the rejection it returns.\<close>

lemma admit_tally:
  assumes "admit e rq fq m = (m', r)"
  shows "tally f m' = tally f m + (if rejected r \<and> r \<noteq> TurnedAway \<and> rq_batch rq \<noteq> '''' \<and> on_done m \<and> f (Rejection (rq_id rq) (rq_batch rq)) then 1 else 0)"
proof -
  have od: "on_done (count_submission now b n m) = on_done m" for now b n
    using slot_view_waves(1) [of now b n m] unfolding slot_view_eq by blast
  show ?thesis
    using assms
    by (auto simp: admit_def Let_def announce_rejection_def od start_run_def register_def enqueue_def tally_def
        count_submission_def split: sum.splits prod.splits option.splits if_splits)
qed

section \<open>At most one report\<close>

fun reports :: "string \<Rightarrow> announcement \<Rightarrow> bool" where
  "reports i (Terminal j b) = (j = i)"
| "reports i a = False"

definition reported_once :: "manager \<Rightarrow> bool" where
  "reported_once m \<longleftrightarrow>
     (\<forall>i. tally (reports i) m = (case dict_get (agents m) i of None \<Rightarrow> 0 | Some x \<Rightarrow> if sa_finalized x then 1 else 0))"

lemma announcements_no_report [simp]:
  "tally (reports i) (announce_rejection rq m) = tally (reports i) m"
  "tally (reports i) (announce_turned_away e rq m) = tally (reports i) m"
  "tally (reports i) (announce_drained rq r m) = tally (reports i) m"
  by (simp_all add: announce_rejection_def announce_turned_away_def announce_drained_def)

lemma drain_no_report [simp]: "tally (reports i) (drain e m) = tally (reports i) m"
proof (induction e m rule: drain.induct)
  case (1 e m)
  show ?case
  proof (cases "waiting m")
    case (Cons rq rest)
    let ?m1 = "m\<lparr>waiting := rest\<rparr>"
    consider "running_count m \<ge> max_concurrent m \<or> monotonic e - last_spawn m < stagger m"
      | (skip) "\<not> running_count m \<ge> max_concurrent m" "\<not> monotonic e - last_spawn m < stagger m" "over_while_waiting rq ?m1"
      | (go) "\<not> running_count m \<ge> max_concurrent m" "\<not> monotonic e - last_spawn m < stagger m" "\<not> over_while_waiting rq ?m1"
      by blast
    then show ?thesis
    proof cases
      case 1
      then show ?thesis using Cons by (subst drain.simps) auto
    next
      case skip
      then show ?thesis using Cons "1.IH"(1) [OF Cons skip(1,2) refl skip(3)] by (subst drain.simps) (auto simp: Let_def)
    next
      case go
      obtain m2 r where a: "admit e rq True ?m1 = (m2, r)" by fastforce
      have t: "tally (reports i) m2 = tally (reports i) m" using admit_tally [OF a, of "reports i"] by simp
      show ?thesis using go Cons a t "1.IH"(2) [OF Cons go(1,2) refl go(3) a [symmetric] refl]
        by (subst drain.simps) (simp add: Let_def)
    qed
  qed (subst drain.simps, simp)
qed

lemma spawn_no_report [simp]: "tally (reports i) (fst (spawn e rq m)) = tally (reports i) m"
proof -
  obtain m1 r where a: "admit e rq False m = (m1, r)" by fastforce
  then show ?thesis using admit_tally [OF a, of "reports i"] by (simp add: spawn_def a)
qed

lemma reported_once_pumped:
  assumes "reported_once m" "pumped m0 m'" "agents m0 = agents m" "\<And>i. tally (reports i) m' = tally (reports i) m"
  shows "reported_once m'"
  unfolding reported_once_def
proof (rule allI)
  fix i
  have mv: "moves [] id m m'" using pumped_moves [OF assms(2), of "[]"] unfolding moves_def assms(3) .
  show "tally (reports i) m' = (case dict_get (agents m') i of None \<Rightarrow> 0 | Some x \<Rightarrow> if sa_finalized x then 1 else 0)"
  proof (cases "dict_get (agents m) i")
    case None
    then have z: "tally (reports i) m = 0" using assms(1) by (simp add: reported_once_def)
    show ?thesis using moves_new [OF mv None] newborn_fields(4) z assms(4) by (auto split: option.splits)
  next
    case (Some x)
    then have "dict_get (agents m') i = Some x" using moves_get [OF mv, of x] moves_other [OF mv Some] by (cases "i = []") auto
    then show ?thesis using assms(1,4) Some by (simp add: reported_once_def)
  qed
qed

lemma claim_alt: "claim_finalize s x = (True, y) \<Longrightarrow> \<not> sa_finalized x \<and> sa_finalized y \<and> sa_batch y = sa_batch x \<and> sa_run y = sa_run x"
  by (auto simp: claim_finalize_def split: if_splits)

lemma reported_once_report:
  assumes "reported_once m"
  shows "reported_once (report_claimed s i m)"
proof (cases rule: report_claimed_cases [of s i m])
  case lost
  then show ?thesis using assms by simp
next
  case (won x y)
  have "sa_finalized (claimed s x)" "\<not> sa_finalized x" using claim_alt [OF won(2)] won(3) by simp_all
  then show ?thesis using assms won(1) unfolding won(4) reported_once_def by (auto split: option.splits)
qed

lemma reported_once_set:
  assumes "reported_once m" "dict_get (agents m) i = Some x" "sa_finalized y = sa_finalized x"
  shows "reported_once (set_agent i y m)"
  using assms unfolding reported_once_def by (auto split: option.splits)

lemma queued_stop_eq:
  assumes "well_formed m" "unqueue i m = Some (rq, m1)" "i \<noteq> ''''"
  obtains x where "report_queued_stop rq m1 = announce (Terminal i (rq_batch rq)) (set_agent i x m1)" "sa_finalized x"
    "sa_batch x = rq_batch rq" "sa_run x = RunNone"
proof -
  let ?x = "(new_subagent (rq_parent rq) (rq_batch rq) (rq_total rq))\<lparr>sa_user_stopped := True, sa_queued := True\<rparr>"
  let ?y = "?x\<lparr>sa_recovering := False, sa_finalized := True, sa_report := ReportUnstarted\<rparr>"
  have "rq_id rq = i" by (rule unqueueD(2) [OF assms(2)])
  then have "report_queued_stop rq m1 = announce (Terminal i (rq_batch rq)) (set_agent i ?y m1)"
    using assms(3) by (simp add: report_queued_stop_def report_claimed_def claim_finalize_def new_subagent_def set_agent_def)
  then show thesis by (rule that) (simp_all add: new_subagent_def)
qed

lemma fresh_unqueue:
  assumes "well_formed m" "unqueue i m = Some (rq, m1)"
  shows "dict_get (agents m) i = None"
proof -
  have "i \<in> rq_id ` set (waiting m)" using unqueueD(1,2) [OF assms(2)] by blast
  then have "i \<notin> fst ` set (agents m)" using assms(1) by (auto simp: well_formed_def)
  then show ?thesis by (simp add: map_of_eq_None_iff)
qed

lemma reported_once_stop:
  assumes "reported_once m" "well_formed m" "unqueue i m = Some (rq, m1)"
  shows "reported_once (report_queued_stop rq m1)"
proof (cases "i = ''''")
  case True
  then have "report_queued_stop rq m1 = m1" using unqueueD(2) [OF assms(3)] by (simp add: report_queued_stop_def)
  then show ?thesis using assms(1) by (simp add: unqueueD(3) [OF assms(3)] reported_once_def)
next
  case False
  obtain x where x: "report_queued_stop rq m1 = announce (Terminal i (rq_batch rq)) (set_agent i x m1)" "sa_finalized x"
    by (rule queued_stop_eq [OF assms(2,3) False])
  have m1: "agents m1 = agents m" "\<And>f. tally f m1 = tally f m" by (simp_all add: unqueueD(3) [OF assms(3)])
  show ?thesis using assms(1) fresh_unqueue [OF assms(2,3)] x(2)
    unfolding x(1) reported_once_def by (auto simp: m1 split: option.splits)
qed

interpretation once: manager_law reported_once single_stop
proof unfold_locales
  show "reported_once (fresh_manager limit gap consumer approval)" for limit gap consumer approval
    by (simp add: reported_once_def tally_def fresh_manager_def)
  show "reported_once m \<Longrightarrow> well_formed m \<Longrightarrow> dict_get (agents m) i = Some x \<Longrightarrow> same_claim x y \<Longrightarrow> reported_once (set_agent i y m)"
    for m i x y by (rule reported_once_set) (simp_all add: same_claim_def)
  show "reported_once m \<Longrightarrow> reported_once (m\<lparr>running_count := running_count m + 1\<rparr>)" for m by (simp add: reported_once_def)
  show "reported_once m \<Longrightarrow> well_formed m \<Longrightarrow> reported_once (drain e (m\<lparr>running_count := c\<rparr>))" for m e c
    by (rule reported_once_pumped [OF _ drain_pumped]) simp_all
  show "reported_once m \<Longrightarrow> well_formed m \<Longrightarrow> reported_once (drain e (m\<lparr>drain_timers := k\<rparr>))" for m e k
    by (rule reported_once_pumped [OF _ drain_pumped]) simp_all
  show "reported_once m \<Longrightarrow> well_formed m \<Longrightarrow> unused_id (rq_id rq) m \<Longrightarrow> reported_once (fst (spawn e rq m))" for m e rq
    by (rule reported_once_pumped [OF _ spawn_pumped(1)]) simp_all
  show "reported_once m \<Longrightarrow> reported_once (record_lost_submission now b n m)" for m now b n
    by (simp add: reported_once_def record_lost_submission_def Let_def slot_view_waves [unfolded slot_view_eq])
  show "reported_once m \<Longrightarrow> reported_once (finalize_batch b m)" for m b
    by (simp add: reported_once_def slot_view_waves [unfolded slot_view_eq])
  show "reported_once m \<Longrightarrow> reported_once (shut_down m)" for m
    by (auto simp: reported_once_def shut_down_get shut_down_agent_def cancel_intentionally_def Let_def split: option.splits)
qed (simp_all add: reported_once_report reported_once_stop)

end
