(* ===== verification/Subagent_Delivery.thy ===== *)
theory Subagent_Delivery
  imports Subagent_Reports
begin

text \<open>
  No outcome is lost while the manager is open: a run that has not reported still has a task that will take
  the claim, a pending recovery, or a reap under way, or it is a live entry of \<open>_agents\<close> that the reaper's
  deadline sweep will find; and a record is done only once its report is claimed.
\<close>

text \<open>The manager is open and has a completion consumer.\<close>

fun open_event :: "sub_event \<Rightarrow> manager \<Rightarrow> bool" where
  "open_event CloseManager m = False"
| "open_event ev m = (single_stop ev m \<and> on_done m \<and> \<not> shutting_down m)"

lemma open_event_single: "open_event ev m \<Longrightarrow> single_stop ev m \<and> on_done m \<and> \<not> shutting_down m \<and> ev \<noteq> CloseManager"
  by (cases ev) simp_all

definition before_claim :: "run_phase set" where
  "before_claim = {RunUnstarted, ApprovalUnstarted, ApprovalAsked, RunExecuting}"

definition someone_reports :: "subagent \<Rightarrow> bool" where
  "someone_reports x \<longleftrightarrow> sa_run x \<in> before_claim \<or> recovery_live x \<or> sa_reaps x > 0"

definition claim_law :: "subagent \<Rightarrow> bool" where
  "claim_law x \<longleftrightarrow>
     (sa_recovering x \<longrightarrow> recovery_live x \<or> sa_reaps x > 0 \<or> sa_finalized x) \<and>
     (sa_run x \<in> before_claim \<longrightarrow> \<not> sa_recovering x) \<and>
     (sa_reap_started x \<longrightarrow> sa_reaps x > 0 \<or> sa_finalized x) \<and>
     (sa_recovery_cancelled x \<and> recovery_live x \<longrightarrow> sa_reap_started x) \<and>
     (sa_reaped x \<longrightarrow> sa_reap_started x) \<and>
     (sa_reaps x > 0 \<longrightarrow> sa_reap_started x) \<and>
     (\<not> sa_done x \<longrightarrow> sa_listed x)"

definition heard_law :: "subagent \<Rightarrow> bool" where
  "heard_law x \<longleftrightarrow> slot_law x \<and> claim_law x \<and>
     (sa_run x \<noteq> RunNone \<and> sa_done x \<longrightarrow> sa_finalized x) \<and>
     (sa_run x \<noteq> RunNone \<and> \<not> sa_finalized x \<longrightarrow> someone_reports x \<or> sa_run x = RunEnded)"

lemma claimed_finalized:
  "\<not> sa_recovering x \<Longrightarrow> sa_finalized (claimed s x)" "sa_finalized (claimed True x)" "\<not> sa_recovering (claimed True x) \<or> sa_finalized x"
  "sa_finalized x \<Longrightarrow> sa_finalized (claimed s x)" "sa_recovering (claimed s x) \<Longrightarrow> sa_recovering x"
  by (auto simp: claimed_def claim_finalize_def split: if_splits prod.splits)

lemma heard_same:
  assumes "heard_law x" "sa_recovering y = sa_recovering x" "sa_recovery y = sa_recovery x" "sa_reaps y = sa_reaps x"
    "sa_finalized y = sa_finalized x" "sa_run y = sa_run x" "sa_reap_started y = sa_reap_started x"
    "sa_recovery_cancelled y = sa_recovery_cancelled x" "sa_reaped y = sa_reaped x" "sa_done y = sa_done x" "sa_listed y = sa_listed x"
    "sa_slot_released y = sa_slot_released x" "sa_retry_used y = sa_retry_used x"
  shows "heard_law y"
  using assms(1) by (simp add: heard_law_def slot_law_def claim_law_def someone_reports_def recovery_live_alt assms(2-))

lemma heard_finished:
  assumes "slot_law x" "claim_law x" "sa_run x = RunExecuting" "sa_done x"
  shows "slot_law (finished x)" "claim_law (finished x)" "sa_finalized (finished x)"
proof -
  have f: "sa_finalized (claimed False x)" by (rule claimed_finalized(1)) (use assms in \<open>simp add: claim_law_def before_claim_def\<close>)
  then show "sa_finalized (finished x)" by simp
  show "slot_law (finished x)" using assms(1,3) by (auto simp: slot_law_def recovery_live_alt)
  show "claim_law (finished x)" using assms f claimed_finalized(5)
    by (auto simp: claim_law_def before_claim_def recovery_live_alt)
qed

lemma heardI:
  assumes "slot_law y" "claim_law y" "sa_finalized y \<or> \<not> sa_done y \<and> (someone_reports y \<or> sa_run y = RunEnded)"
  shows "heard_law y"
  using assms by (auto simp: heard_law_def)

lemma cancelled_record_cases:
  "cancelled_record s tools draining x = x \<and> sa_reaped x \<or>
   \<not> sa_reaped x \<and> cancelled_record s tools draining x = x\<lparr>sa_retry_used := True, sa_recovering := True,
     sa_recovery := RecoveryUnstarted, sa_recovery_in_tasks := True, sa_recovery_cancelled := False\<rparr> \<or>
   cancelled_record s tools draining x = x\<lparr>sa_done := True, sa_failed := True\<rparr>"
  by (simp add: cancelled_record_def)

text \<open>The recovery and the reap, while a recovery is pending.\<close>

lemma pending_recovery:
  assumes "heard_law x" "recovery_live x"
  shows "sa_run x \<notin> before_claim" "sa_run x \<noteq> RunNone" "sa_done x \<Longrightarrow> sa_finalized x" "claim_law x"
    "sa_reap_started x \<Longrightarrow> sa_reaps x > 0 \<or> sa_finalized x"
proof -
  have r: "sa_run x = RunTearingDown \<or> sa_run x = RunEnded" using assms by (simp add: heard_law_def slot_law_def) blast
  then show "sa_run x \<notin> before_claim" "sa_run x \<noteq> RunNone" by (auto simp: before_claim_def)
  show "sa_done x \<Longrightarrow> sa_finalized x" using assms(1) r by (auto simp: heard_law_def)
  show c: "claim_law x" using assms(1) by (simp add: heard_law_def)
  show "sa_reap_started x \<Longrightarrow> sa_reaps x > 0 \<or> sa_finalized x" using c by (simp add: claim_law_def)
qed

lemma claim_law_end_recovery:
  assumes "claim_law x" "sa_run x \<notin> before_claim"
  shows "claim_law (end_recovery x)"
  using assms by (simp add: claim_law_def end_recovery_def recovery_live_alt)

lemma heard_end_recovery:
  assumes "heard_law x" "recovery_live x" "sa_finalized x \<or> sa_reaps x > 0" "slot_law (end_recovery x)"
  shows "heard_law (end_recovery x)"
proof -
  note p = pending_recovery [OF assms(1,2)]
  have "sa_finalized (end_recovery x) \<or> \<not> sa_done (end_recovery x) \<and> someone_reports (end_recovery x)"
    using assms(3) p(3) by (auto simp: end_recovery_def someone_reports_def)
  then show ?thesis using assms(4) claim_law_end_recovery [OF p(4,1)] by (intro heardI) auto
qed

lemma recovery_off_reported:
  assumes "heard_law x" "recovery_live x" "recovery_off x False"
  shows "sa_finalized x \<or> sa_reaps x > 0"
  using assms(3) pending_recovery [OF assms(1,2)] by (auto simp: recovery_off_def claim_law_def)

lemma heard_recovery_failed:
  assumes "heard_law x" "recovery_live x" "slot_law (recovery_failed x)"
  shows "heard_law (recovery_failed x)"
proof -
  note p = pending_recovery [OF assms(1,2)]
  let ?y = "end_recovery x"
  let ?z = "if sa_done ?y \<or> sa_reap_started ?y \<or> sa_reaped ?y then ?y else ?y\<lparr>sa_done := True, sa_failed := True\<rparr>"
  have y: "recovery_failed x = claimed False ?z" by (simp add: recovery_failed_def Let_def)
  have z: "\<not> sa_recovering ?z" "claim_law ?z"
    using claim_law_end_recovery [OF p(4,1)] by (auto simp: end_recovery_def claim_law_def before_claim_def recovery_live_alt)
  have f: "sa_finalized (claimed False ?z)" by (rule claimed_finalized(1) [OF z(1)])
  have "\<not> sa_recovering (claimed False ?z)" using claimed_finalized(5) z(1) by blast
  then have "claim_law (claimed False ?z)" using z(2) f by (simp add: claim_law_def recovery_live_alt)
  then show ?thesis using assms(3) f unfolding y by (intro heardI) simp_all
qed

lemma heard_respawned:
  assumes "heard_law x" "recovery_live x" "\<not> recovery_off x False" "slot_law (respawned x)"
  shows "heard_law (respawned x)"
proof -
  note p = pending_recovery [OF assms(1,2)]
  have o: "\<not> sa_done x" "\<not> sa_reap_started x" "\<not> sa_reaped x" using assms(3) by (simp_all add: recovery_off_def)
  have "claim_law (respawned x)" "someone_reports (respawned x)" "\<not> sa_done (respawned x)"
    using o p(4) by (simp_all add: claim_law_def respawned_def end_recovery_def recovery_live_alt before_claim_def someone_reports_def)
  then show ?thesis using assms(4) by (intro heardI) simp_all
qed

lemma heard_cancel_recovery:
  assumes "heard_law x" "recovery_live x" "sa_recovery_cancelled x" "slot_law (cancel_recovery x)"
  shows "heard_law (cancel_recovery x)"
proof -
  note p = pending_recovery [OF assms(1,2)]
  have s: "sa_reap_started x" using p(4) assms(2,3) by (simp add: claim_law_def)
  then have r: "sa_finalized x \<or> sa_reaps x > 0" using p(4) by (auto simp: claim_law_def)
  show ?thesis
  proof (cases "sa_recovery x = RecoveryUnstarted")
    case True
    let ?y = "x\<lparr>sa_recovery := RecoveryEnded, sa_recovery_cancelled := False\<rparr>"
    have y: "cancel_recovery x = ?y" using True by (simp add: cancel_recovery_def)
    have "claim_law ?y" "sa_finalized ?y \<or> \<not> sa_done ?y \<and> someone_reports ?y"
      using p r by (auto simp: claim_law_def recovery_live_alt someone_reports_def)
    then show ?thesis using assms(4) unfolding y by (intro heardI) auto
  next
    case False
    then have y: "cancel_recovery x = end_recovery x" using s by (simp add: cancel_recovery_def)
    show ?thesis using heard_end_recovery [OF assms(1,2) r] assms(4) unfolding y by simp
  qed
qed

lemma heard_begin_reap:
  assumes "heard_law x" "slot_law (begin_reap x)"
  shows "heard_law (begin_reap x)"
  using assms by (auto simp: heard_law_def claim_law_def begin_reap_def someone_reports_def recovery_live_alt)

text \<open>A report task exists only for a claimed run.\<close>

definition ticket_law :: "subagent \<Rightarrow> bool" where
  "ticket_law x \<longleftrightarrow> (sa_report x \<noteq> ReportNone \<longrightarrow> sa_finalized x)"

lemma ticket_claimed: "ticket_law x \<Longrightarrow> ticket_law (claimed s x)"
  by (auto simp: ticket_law_def claimed_def claim_finalize_def split: if_splits prod.splits)

lemma ticket_same: "ticket_law x \<Longrightarrow> sa_report y = sa_report x \<Longrightarrow> sa_finalized y = sa_finalized x \<Longrightarrow> ticket_law y"
  by (simp add: ticket_law_def)

definition tickets :: "manager \<Rightarrow> bool" where
  "tickets m \<longleftrightarrow> (\<forall>j x. dict_get (agents m) j = Some x \<longrightarrow> ticket_law x)"

lemma ticket_failed: "ticket_law x \<Longrightarrow> ticket_law (recovery_failed x)"
  unfolding recovery_failed_def Let_def by (rule ticket_claimed) (simp add: ticket_law_def end_recovery_def)

lemma ticket_finished: "ticket_law x \<Longrightarrow> ticket_law (finished x)"
  by (rule ticket_same [OF ticket_claimed [of x False]]) simp_all

interpretation ticket: run_law ticket_law "\<lambda>_ _. True" "\<lambda>_. True"
proof unfold_locales
  show "newborn x \<Longrightarrow> ticket_law x" for x using newborn_fields [of x] by (simp add: ticket_law_def)
  show "stop_record x \<Longrightarrow> ticket_law x" for x using stop_record_fields [of x] by (simp add: ticket_law_def)
next
  fix x m ev i y
  assume l: "ticket_law x" and r: "record_after m ev x = Some y"
  show "ticket_law y"
  proof (cases ev)
    case (ApprovalAnswered k approved)
    have "ticket_law (denied b x)" for b
      using ticket_claimed [OF ticket_same [OF l, of "ended (x\<lparr>sa_awaiting_approval := False, sa_done := True, sa_failed := True\<rparr>)"]]
        ticket_same [OF l, of "ended (x\<lparr>sa_awaiting_approval := False, sa_done := True, sa_failed := True\<rparr>)"]
      by (simp add: denied_def Let_def)
    then show ?thesis using r ApprovalAnswered ticket_same [OF l, of y] by (auto split: if_splits)
  next
    case (RunReturns k how)
    then have "y = finished (settle_record how x)" using r by (auto split: if_splits)
    then show ?thesis using ticket_finished [OF ticket_same [OF l, of "settle_record how x"]] by (cases how) (simp_all add: settle_record_def)
  next
    case (CancelArrives k tools draining)
    let ?s = "shutting_down m"
    have y: "y = cancelled_run ?s tools draining x" using r CancelArrives by (auto split: if_splits)
    have "ticket_law (finished (cancelled_record ?s tools draining x))"
      by (rule ticket_finished, rule ticket_same [OF l]) (simp_all add: cancelled_record_def)
    then show ?thesis using ticket_same [OF l, of y] by (auto simp: y cancelled_run_def)
  next
    case (TeardownOver k)
    then have "y = ended x" using r by (auto split: if_splits)
    then show ?thesis using ticket_same [OF l, of y] by simp
  next
    case (TeardownSeen k)
    then have "y = end_recovery x \<or> y = x\<lparr>sa_recovery := AwaitsSlot\<rparr> \<or> y = respawned x" using r by (auto split: if_splits)
    then show ?thesis using ticket_same [OF l, of y] by (auto simp: end_recovery_def respawned_def)
  next
    case (TeardownLate k)
    then have "y = recovery_failed x" using r by (auto split: if_splits)
    then show ?thesis using ticket_failed [OF l] by simp
  next
    case (SlotPolled k expired)
    then have "y = recovery_failed x \<or> y = x \<or> y = end_recovery x \<or> y = respawned x" using r by (auto split: if_splits)
    then show ?thesis using ticket_failed [OF l] l ticket_same [OF l, of y] by (auto simp: end_recovery_def respawned_def)
  next
    case (RecoveryCancelArrives k)
    then have "y = cancel_recovery x" using r by (auto split: if_splits)
    then show ?thesis using ticket_same [OF l, of y] by (simp add: cancel_recovery_def end_recovery_def)
  next
    case (ReapResumes k)
    then have "y = claimed True (released (reap_record (shutting_down m) x))" using r by (auto split: if_splits)
    then show ?thesis using ticket_claimed [OF ticket_same [OF l, of "released (reap_record (shutting_down m) x)"]] by simp
  next
    case CloseManager
    then have "y = shut_down_agent x" using r by simp
    then show ?thesis using ticket_same [OF l, of y] by (simp add: shut_down_agent_def cancel_intentionally_def Let_def)
  next
    case (StopAgent k)
    then show ?thesis using r ticket_same [OF l, of y] by (auto simp: begin_reap_def split: if_splits)
  next
    case (ReaperFires k)
    then show ?thesis using r ticket_same [OF l, of y] by (auto simp: begin_reap_def split: if_splits)
  next
    case (ReportBegins k)
    then show ?thesis using r l by (auto simp: ticket_law_def split: if_splits)
  qed (use r l in \<open>auto simp: ticket_law_def split: if_splits\<close>)
qed

interpretation heard: run_law heard_law open_event tickets
proof unfold_locales
  fix x assume n: "newborn x"
  show "heard_law x"
    using newborn_fields [OF n] slots.law_newborn [OF n]
    by (auto simp: heard_law_def claim_law_def someone_reports_def before_claim_def)
next
  fix x assume n: "stop_record x"
  show "heard_law x"
    using stop_record_fields [OF n] slots.law_stopped [OF n]
    by (auto simp: heard_law_def claim_law_def before_claim_def)
next
  fix x m ev i y
  assume h: "heard_law x" and tk: "tickets m" and P: "open_event ev m" and t: "target ev = Some i \<or> ev = CloseManager"
    and g: "\<And>j. target ev = Some j \<Longrightarrow> dict_get (agents m) j = Some x" and r: "record_after m ev x = Some y"
  note P' = open_event_single [OF P]
  have sx: "slot_law x" and cx: "claim_law x" using h by (simp_all add: heard_law_def)
  have sy: "slot_law y" by (rule slots.law_step [OF sx TrueI _ t g r]) (use P' in simp_all)
  show "heard_law y"
  proof (cases ev)
    case (RunBegins k)
    then have "y = x\<lparr>sa_run := RunExecuting, sa_exec_started := True\<rparr>" "sa_run x = RunUnstarted" using r by (auto split: if_splits)
    then show ?thesis using h sy by (simp add: heard_law_def claim_law_def someone_reports_def before_claim_def recovery_live_alt)
  next
    case (ApprovalBegins k)
    then have "y = x\<lparr>sa_run := ApprovalAsked, sa_awaiting_approval := True\<rparr>" "sa_run x = ApprovalUnstarted" using r by (auto split: if_splits)
    then show ?thesis using h sy by (simp add: heard_law_def claim_law_def someone_reports_def before_claim_def recovery_live_alt)
  next
    case (ApprovalAnswered k approved)
    then have a: "sa_run x = ApprovalAsked" and y: "y = (if approved
        then x\<lparr>sa_awaiting_approval := False, sa_run := RunExecuting, sa_exec_started := True\<rparr> else denied True x)"
      using r P' by (auto split: if_splits)
    show ?thesis
    proof (cases approved)
      case True
      then show ?thesis using h sy a y by (simp add: heard_law_def claim_law_def someone_reports_def before_claim_def recovery_live_alt)
    next
      case False
      let ?z = "ended (x\<lparr>sa_awaiting_approval := False, sa_done := True, sa_failed := True\<rparr>)"
      have y: "y = claimed False ?z" using y False by (simp add: denied_def)
      have nr: "\<not> sa_recovering x" using cx a by (simp add: claim_law_def before_claim_def)
      then have "sa_finalized y" unfolding y by (intro claimed_finalized(1)) simp
      moreover have "\<not> sa_recovering y" using nr claimed_finalized(5) [of False ?z] unfolding y by auto
      ultimately show ?thesis
        using sy cx by (intro heardI) (auto simp: y claim_law_def before_claim_def recovery_live_alt)
    qed
  next
    case (RunReturns k how)
    then have y: "y = finished (settle_record how x)" and e: "sa_run x = RunExecuting" using r by (auto split: if_splits)
    let ?z = "settle_record how x"
    show ?thesis
    proof (cases "sa_reaped x \<and> how = Broke")
      case True
      then have z: "?z = x" by (simp add: settle_record_def)
      have "sa_recovering (finished x) \<Longrightarrow> sa_recovering x" using claimed_finalized(5) by simp
      moreover have "sa_finalized (finished x)"
        using claimed_finalized(1) [of x False] cx e by (simp add: claim_law_def before_claim_def)
      ultimately show ?thesis
        using sy cx by (intro heardI) (auto simp: y z claim_law_def before_claim_def recovery_live_alt)
    next
      case False
      have z: "sa_done ?z" "sa_run ?z = RunExecuting" "slot_law ?z" "claim_law ?z"
        using False sx cx e by (cases how; simp add: settle_record_def slot_law_def claim_law_def recovery_live_alt before_claim_def)+
      note f = heard_finished [OF z(3,4,2,1)]
      show ?thesis using sy f(2,3) unfolding y by (intro heardI) simp_all
    qed
  next
    case (CancelArrives k tools draining)
    then have y: "y = cancelled_run False tools draining x" and live: "run_live x" using r P' by (auto split: if_splits)
    consider (exec) "sa_run x = RunExecuting" | (tear) "sa_run x = RunTearingDown"
      | (early) "sa_run x \<in> {RunUnstarted, ApprovalUnstarted, ApprovalAsked}" using live by (auto simp: run_live_def)
    then show ?thesis
    proof cases
      case exec
      let ?z = "cancelled_record False tools draining x"
      have y: "y = finished ?z" using y exec by (simp add: cancelled_run_def)
      consider (reaped) "?z = x" "sa_reaped x"
        | (recover) "\<not> sa_reaped x" "?z = x\<lparr>sa_retry_used := True, sa_recovering := True, sa_recovery := RecoveryUnstarted,
               sa_recovery_in_tasks := True, sa_recovery_cancelled := False\<rparr>"
        | (over) "?z = x\<lparr>sa_done := True, sa_failed := True\<rparr>"
        using cancelled_record_cases [of False tools draining x] by blast
      then show ?thesis
      proof cases
        case reaped
        have "sa_recovering (finished x) \<Longrightarrow> sa_recovering x" using claimed_finalized(5) by simp
        moreover have "sa_finalized (finished x)"
          using claimed_finalized(1) [of x False] cx exec by (simp add: claim_law_def before_claim_def)
        ultimately show ?thesis
          using sy cx by (intro heardI) (auto simp: y reaped claim_law_def before_claim_def recovery_live_alt)
      next
        case recover
        have "\<not> sa_done x \<or> sa_finalized x" using h exec by (auto simp: heard_law_def)
        moreover have "claimed False ?z = ?z" unfolding recover(2) by (simp add: claimed_def claim_finalize_def)
        ultimately show ?thesis
          using sy cx exec recover(1) unfolding y
          by (intro heardI) (auto simp: recover(2) claim_law_def before_claim_def recovery_live_alt someone_reports_def)
      next
        case over
        have z: "sa_done ?z" "sa_run ?z = RunExecuting" "slot_law ?z" "claim_law ?z"
          using sx cx exec unfolding over by (simp_all add: slot_law_def claim_law_def recovery_live_alt before_claim_def)
        note f = heard_finished [OF z(3,4,2,1)]
        show ?thesis using sy f(2,3) unfolding y by (intro heardI) simp_all
      qed
    next
      case tear
      then have y: "y = ended x" using y by (simp add: cancelled_run_def)
      have d: "sa_done x \<Longrightarrow> sa_finalized x" using h tear by (simp add: heard_law_def)
      have "claim_law y" using cx by (simp add: y claim_law_def before_claim_def recovery_live_alt)
      then show ?thesis using sy d by (intro heardI) (auto simp: y)
    next
      case early
      then have y: "y = x\<lparr>sa_run := RunEnded, sa_run_cancelled := False, sa_awaiting_approval := False\<rparr>"
        using y by (auto simp: cancelled_run_def)
      have d: "sa_done x \<Longrightarrow> sa_finalized x" using h early by (auto simp: heard_law_def)
      have "claim_law y" using cx by (simp add: y claim_law_def before_claim_def recovery_live_alt)
      then show ?thesis using sy d by (intro heardI) (auto simp: y)
    qed
  next
    case (TeardownOver k)
    then have y: "y = ended x" and tear: "sa_run x = RunTearingDown" using r by (auto split: if_splits)
    have d: "sa_done x \<Longrightarrow> sa_finalized x" using h tear by (simp add: heard_law_def)
    have "claim_law y" using cx by (simp add: y claim_law_def before_claim_def recovery_live_alt)
    then show ?thesis using sy d by (intro heardI) (auto simp: y)
  next
    case CloseManager
    then show ?thesis using P' by simp
  next
    case (ReapResumes k)
    let ?z = "released (reap_record (shutting_down m) x)"
    have y: "y = claimed True ?z" "sa_reaps x > 0" using r ReapResumes by (auto split: if_splits)
    have f: "sa_finalized y" unfolding y(1) by (rule claimed_finalized(2))
    have b: "sa_recovering y \<Longrightarrow> sa_recovering x" using claimed_finalized(5) [of True ?z] unfolding y(1) by simp
    show ?thesis using sy f b cx y(2) by (intro heardI) (auto simp: y(1) claim_law_def)
  next
    case (RecoveryBegins k)
    then have y: "y = x\<lparr>sa_recovery := AwaitsTeardown\<rparr>" "sa_recovery x = RecoveryUnstarted" using r by (auto split: if_splits)
    show ?thesis using h sy unfolding y(1)
      by (simp add: heard_law_def claim_law_def someone_reports_def recovery_live_alt y(2))
  next
    case (TeardownSeen k)
    then have live: "recovery_live x" and y: "y = (if recovery_off x False then end_recovery x
        else if running_count m \<ge> max_concurrent m then x\<lparr>sa_recovery := AwaitsSlot\<rparr> else respawned x)"
      and w: "sa_recovery x = AwaitsTeardown"
      using r P' by (auto simp: recovery_live_alt split: if_splits)
    have "heard_law (x\<lparr>sa_recovery := AwaitsSlot\<rparr>)" if "slot_law (x\<lparr>sa_recovery := AwaitsSlot\<rparr>)"
      using h that by (simp add: heard_law_def claim_law_def someone_reports_def recovery_live_alt w)
    then show ?thesis using sy heard_end_recovery [OF h live recovery_off_reported [OF h live]] heard_respawned [OF h live]
      unfolding y by (simp split: if_splits)
  next
    case (TeardownLate k)
    then have "recovery_live x" "y = recovery_failed x" using r by (auto simp: recovery_live_alt split: if_splits)
    then show ?thesis using heard_recovery_failed [OF h] sy by simp
  next
    case (SlotPolled k expired)
    then have live: "recovery_live x" and y: "y = (if running_count m \<ge> max_concurrent m then (if expired then recovery_failed x else x)
        else if recovery_off x False then end_recovery x else respawned x)"
      using r P' by (auto simp: recovery_live_alt split: if_splits)
    show ?thesis
      using sy h heard_end_recovery [OF h live recovery_off_reported [OF h live]] heard_respawned [OF h live] heard_recovery_failed [OF h live]
      unfolding y by (simp split: if_splits)
  next
    case (RecoveryCancelArrives k)
    then have "recovery_live x" "sa_recovery_cancelled x" "y = cancel_recovery x" using r by (auto split: if_splits)
    then show ?thesis using heard_cancel_recovery [OF h] sy by simp
  next
    case (StopAgent k)
    then have y: "y = begin_reap (x\<lparr>sa_user_stopped := True\<rparr>)" using r by (auto split: if_splits)
    have "heard_law (x\<lparr>sa_user_stopped := True\<rparr>)" by (rule heard_same [OF h]) simp_all
    then show ?thesis using heard_begin_reap sy unfolding y by blast
  next
    case (ReaperFires k)
    then have "y = begin_reap x" using r by (auto split: if_splits)
    then show ?thesis using heard_begin_reap [OF h] sy by simp
  next
    case (ReportBegins k)
    then have y: "y = x\<lparr>sa_done := True, sa_report := ReportStarted\<rparr>" "sa_report x = ReportUnstarted" using r by (auto split: if_splits)
    have "sa_finalized x" using tk g ReportBegins y(2) by (auto simp: tickets_def ticket_law_def)
    then show ?thesis using h sy unfolding y(1)
      by (simp add: heard_law_def claim_law_def someone_reports_def recovery_live_alt)
  next
    case (StrayCancel k)
    then have "y = x\<lparr>sa_run_cancelled := True\<rparr>" using r by (auto split: if_splits)
    then show ?thesis using heard_same [OF h, of y] by simp
  next
    case (ClearCompleted k)
    then have y: "y = x\<lparr>sa_listed := False, sa_in_tasks := False\<rparr>" "sa_done x" using r by (auto split: if_splits)
    show ?thesis using h sy unfolding y(1) using y(2)
      by (simp add: heard_law_def claim_law_def someone_reports_def recovery_live_alt)
  next
    case (Evicted k)
    then have y: "y = x\<lparr>sa_listed := False\<rparr>" "sa_done x" using r by (auto split: if_splits)
    show ?thesis using h sy unfolding y(1) using y(2)
      by (simp add: heard_law_def claim_law_def someone_reports_def recovery_live_alt)
  next
    case (ResultHeld k t)
    then have "y = x\<lparr>sa_held_at := t\<rparr>" using r by simp
    then show ?thesis using heard_same [OF h, of y] by simp
  qed (use r in simp_all)
qed

end
