(* ===== verification/Subagent_Waves.thy ===== *)
theory Subagent_Waves
  imports Subagent_Delivery
begin

text \<open>
  Waves (\<open>subagent_manager/waves.py\<close>). Every counted submission of a wave is waiting, running without a
  report, or announced, so a wave that is no longer pending has announced each of its members exactly
  once. The two reaper sweeps close a wave that lost submissions and release held results.
\<close>

section \<open>Every submission is accounted for\<close>

definition submitted :: "string \<Rightarrow> manager \<Rightarrow> int" where
  "submitted b m = (case dict_get (batch_submitted m) b of None \<Rightarrow> 0 | Some (n, t) \<Rightarrow> n)"

definition waiting_in :: "string \<Rightarrow> manager \<Rightarrow> nat" where
  "waiting_in b m = length (filter (\<lambda>rq. rq_batch rq = b) (waiting m))"

definition unreported :: "string \<Rightarrow> subagent \<Rightarrow> bool" where
  "unreported b x \<longleftrightarrow> sa_batch x = b \<and> sa_run x \<noteq> RunNone \<and> \<not> sa_finalized x"

definition outstanding :: "string \<Rightarrow> manager \<Rightarrow> nat" where
  "outstanding b m = length (filter (\<lambda>(i, x). unreported b x) (agents m))"

fun of_wave :: "string \<Rightarrow> announcement \<Rightarrow> bool" where
  "of_wave b (Terminal i c) = (c = b)"
| "of_wave b (Rejection i c) = (c = b)"
| "of_wave b (LostSubmission c) = (c = b)"
| "of_wave b (DigestFlush c) = False"

text \<open>The balance of a wave, up to \<open>d\<close> submissions in the hands of a step.\<close>

definition balanced :: "string \<Rightarrow> int \<Rightarrow> manager \<Rightarrow> bool" where
  "balanced b d m \<longleftrightarrow> submitted b m = int (waiting_in b m) + int (outstanding b m) + int (tally (of_wave b) m) + d"

lemma wave_simps [simp]:
  "submitted b (announce a m) = submitted b m" "waiting_in b (announce a m) = waiting_in b m"
  "outstanding b (announce a m) = outstanding b m"
  "submitted b (set_agent i x m) = submitted b m" "waiting_in b (set_agent i x m) = waiting_in b m"
  by (simp_all add: submitted_def waiting_in_def outstanding_def)

lemma submitted_count [simp]:
  "submitted b (count_submission now c n m) = submitted b m + (if b = c then 1 else 0)"
  by (cases "b = c") (auto simp: submitted_def count_submission_def dict_get_default_def split: option.splits prod.splits)

lemma count_same [simp]:
  "agents (count_submission now c n m) = agents m" "waiting (count_submission now c n m) = waiting m"
  "on_done (count_submission now c n m) = on_done m"
  using slot_view_waves(1) [of now c n m] unfolding slot_view_eq by blast+

lemma balanced_cong:
  "submitted b m' = submitted b m \<Longrightarrow> agents m' = agents m \<Longrightarrow> waiting m' = waiting m \<Longrightarrow>
    tally (of_wave b) m' = tally (of_wave b) m \<Longrightarrow> balanced b d m' \<longleftrightarrow> balanced b d m"
  by (simp add: balanced_def waiting_in_def outstanding_def)

lemma admit_submitted:
  assumes "admit e rq fq m = (m', r)"
  shows "submitted b m' = submitted b m + (if rq_batch rq \<noteq> '''' \<and> \<not> fq \<and> b = rq_batch rq then 1 else 0)"
proof -
  have "batch_submitted m' = batch_submitted
      (if rq_batch rq \<noteq> '''' \<and> \<not> fq then count_submission (wall e) (rq_batch rq) (rq_total rq) m else m)"
    using assms
    by (auto simp: admit_def Let_def announce_rejection_def start_run_def register_def enqueue_def
        split: sum.splits prod.splits option.splits if_splits)
  then have "submitted b m' = submitted b
      (if rq_batch rq \<noteq> '''' \<and> \<not> fq then count_submission (wall e) (rq_batch rq) (rq_total rq) m else m)"
    by (simp add: submitted_def)
  then show ?thesis by simp
qed

lemma newborn_unreported: "newborn x \<Longrightarrow> unreported b x \<longleftrightarrow> sa_batch x = b \<and> sa_run x \<noteq> RunNone"
  by (simp add: unreported_def newborn_fields)

text \<open>Admission moves the submission into the queue, among the runs, or to the consumer; a run that is
  turned away stays in the hands of the caller.\<close>

lemma balanced_admit:
  assumes "admit e rq fq m = (m', r)" "rq_id rq \<notin> fst ` set (agents m)" "on_done m" "b \<noteq> ''''" "balanced b d m"
  shows "balanced b (d + (if fq \<or> rq_batch rq \<noteq> b then 0 else 1) - (if r = TurnedAway \<or> rq_batch rq \<noteq> b then 0 else 1)) m'"
proof -
  note s = admit_submitted [OF assms(1), of b] and t = admit_tally [OF assms(1), of "of_wave b"]
  from assms(1) show ?thesis
  proof (cases rule: admit_cases)
    case (refused why)
    then have "waiting_in b m' = waiting_in b m" "outstanding b m' = outstanding b m"
      by (simp_all add: slot_view_eq waiting_in_def outstanding_def)
    then show ?thesis using assms(3-5) s t refused(1) by (auto simp: balanced_def)
  next
    case (queued cwd k)
    then have "waiting_in b m' = waiting_in b m + (if rq_batch rq = b then 1 else 0)" "outstanding b m' = outstanding b m"
      by (simp_all add: slot_view_eq waiting_in_def outstanding_def)
    then show ?thesis using assms(3-5) s t queued(1) by (auto simp: balanced_def)
  next
    case (started x)
    then have "waiting_in b m' = waiting_in b m" "outstanding b m' = outstanding b m + (if rq_batch rq = b then 1 else 0)"
      using assms(2) by (simp_all add: slot_view_eq waiting_in_def outstanding_def dict_set_new newborn_unreported)
    then show ?thesis using assms(3-5) s t started(1) by (auto simp: balanced_def)
  next
    case (turned_away x)
    then have "waiting_in b m' = waiting_in b m" "outstanding b m' = outstanding b m"
      using assms(2) by (simp_all add: slot_view_eq waiting_in_def outstanding_def dict_set_new newborn_unreported)
    then show ?thesis using assms(3-5) s t turned_away(1) by (auto simp: balanced_def)
  qed
qed

lemma balanced_turned_away:
  assumes "balanced b d m" "on_done m" "b \<noteq> ''''"
  shows "balanced b (d - (if rq_batch rq = b then 1 else 0)) (announce_turned_away e rq m)"
  using assms by (auto simp: announce_turned_away_def announce_rejection_def balanced_def)

lemma balanced_drained: "b \<noteq> '''' \<Longrightarrow> balanced b d (announce_drained rq r m) \<longleftrightarrow> balanced b d m"
  by (auto simp: announce_drained_def balanced_def)

lemma balanced_timers: "balanced b d (m\<lparr>drain_timers := k\<rparr>) \<longleftrightarrow> balanced b d m" "balanced b d (m\<lparr>running_count := c\<rparr>) \<longleftrightarrow> balanced b d m"
  by (simp_all add: balanced_def submitted_def waiting_in_def outstanding_def)

lemma on_done_drain: "well_formed m \<Longrightarrow> on_done (drain e m) = on_done m"
  using pumped_constants [OF drain_pumped, of m e] by (simp add: constants_def)

lemma not_over_while_waiting: "rq_id rq \<notin> fst ` set (agents m) \<Longrightarrow> \<not> over_while_waiting rq m"
  by (simp add: over_while_waiting_def map_of_eq_None_iff [THEN iffD2])

lemma balanced_drain: "well_formed m \<Longrightarrow> on_done m \<Longrightarrow> b \<noteq> '''' \<Longrightarrow> balanced b d m \<Longrightarrow> balanced b d (drain e m)"
proof (induction e m arbitrary: d rule: drain.induct)
  case (1 e m)
  show ?case
  proof (cases "waiting m")
    case Nil
    then show ?thesis using "1.prems" by (subst drain.simps) simp
  next
    case (Cons rq rest)
    let ?m1 = "m\<lparr>waiting := rest\<rparr>" and ?w = "if rq_batch rq = b then 1 else 0 :: int"
    have fresh: "rq_id rq \<notin> fst ` set (agents ?m1)" and wf1: "well_formed ?m1"
      using "1.prems"(1) Cons by (auto simp: well_formed_def)
    consider "running_count m \<ge> max_concurrent m \<or> monotonic e - last_spawn m < stagger m"
      | (go) "\<not> running_count m \<ge> max_concurrent m" "\<not> monotonic e - last_spawn m < stagger m" "\<not> over_while_waiting rq ?m1"
      using not_over_while_waiting [OF fresh] by blast
    then show ?thesis
    proof cases
      case 1
      then show ?thesis using Cons "1.prems" by (subst drain.simps) (auto simp: balanced_timers)
    next
      case go
      obtain m2 r where a: "admit e rq True ?m1 = (m2, r)" by fastforce
      have b1: "balanced b (d + ?w) ?m1"
        using "1.prems"(4) Cons by (auto simp: balanced_def waiting_in_def submitted_def outstanding_def)
      have b2: "balanced b (d + ?w - (if r = TurnedAway \<or> rq_batch rq \<noteq> b then 0 else 1)) m2"
        using balanced_admit [OF a fresh _ "1.prems"(3) b1] "1.prems"(2) by simp
      have w2: "well_formed m2"
        by (rule well_formed_pumped [OF _ admit_pumped [OF a fresh]]) (use "1.prems"(1) Cons in \<open>simp add: well_formed_def\<close>)
      have o2: "on_done m2" using admit_pumped [OF a fresh] "1.prems"(2) by (auto simp: pumped_def constants_def)
      let ?m3 = "if r = TurnedAway then announce_turned_away e rq (drain e m2) else m2"
      have b3: "balanced b d ?m3"
      proof (cases "r = TurnedAway")
        case True
        have "balanced b (d + ?w) (drain e m2)"
          by (rule "1.IH"(2) [OF Cons go(1,2) refl go(3) a [symmetric] refl True w2 o2 "1.prems"(3)]) (use b2 True in simp)
        then have "balanced b (d + ?w - ?w) (announce_turned_away e rq (drain e m2))"
          by (rule balanced_turned_away) (use o2 on_done_drain [OF w2] "1.prems"(3) in auto)
        then show ?thesis using True by simp
      next
        case False
        then show ?thesis using b2 by (simp split: if_splits)
      qed
      then have "balanced b d (rearm_pump (announce_drained rq r ?m3))"
        using balanced_drained [OF "1.prems"(3)] by (simp add: rearm_pump_def balanced_timers)
      then show ?thesis using go Cons a by (subst drain.simps) (simp add: Let_def)
    qed
  qed
qed

lemma balanced_spawn:
  assumes "balanced b d m" "well_formed m" "unused_id (rq_id rq) m" "on_done m" "b \<noteq> ''''"
  shows "balanced b d (fst (spawn e rq m))"
proof -
  obtain m1 r where a: "admit e rq False m = (m1, r)" by fastforce
  have fresh: "rq_id rq \<notin> fst ` set (agents m)" using assms(3) by (simp add: unused_id_def)
  note w = well_formed_pumped [OF spawn_pumped(2) [OF assms(2,3)] admit_pumped [OF a fresh]]
  have o: "on_done m1" using admit_pumped [OF a fresh] assms(4) by (auto simp: pumped_def constants_def)
  have b1: "balanced b (d + (if rq_batch rq \<noteq> b then 0 else 1) - (if r = TurnedAway \<or> rq_batch rq \<noteq> b then 0 else 1)) m1"
    using balanced_admit [OF a fresh assms(4,5,1)] by simp
  show ?thesis
  proof (cases "r = TurnedAway")
    case True
    let ?w = "if rq_batch rq = b then 1 else 0 :: int"
    have "balanced b (d + ?w) (drain e m1)" by (rule balanced_drain [OF w o assms(5)]) (use b1 True in \<open>simp split: if_splits\<close>)
    then have "balanced b (d + ?w - ?w) (announce_turned_away e rq (drain e m1))"
      by (rule balanced_turned_away) (use o on_done_drain [OF w] assms(5) in auto)
    then show ?thesis using True by (simp add: spawn_def a)
  next
    case False
    then show ?thesis using b1 by (simp add: spawn_def a split: if_splits)
  qed
qed

lemma outstanding_set:
  assumes "well_formed m" "dict_get (agents m) i = Some x"
  shows "int (outstanding b (set_agent i y m)) = int (outstanding b m) - (if unreported b x then 1 else 0) + (if unreported b y then 1 else 0)"
proof -
  have "dict_wf (agents m)" using assms(1) by (simp add: well_formed_def)
  from filter_dict_set [OF this assms(2), of "unreported b" y] show ?thesis by (simp add: outstanding_def split: if_splits)
qed

definition accounted :: "string \<Rightarrow> manager \<Rightarrow> bool" where
  "accounted b m \<longleftrightarrow> '''' \<notin> rq_id ` set (waiting m) \<and> (on_done m \<and> b \<noteq> '''' \<longrightarrow> balanced b 0 m)"

fun keeps_wave :: "string \<Rightarrow> sub_event \<Rightarrow> manager \<Rightarrow> bool" where
  "keeps_wave b (WaveOver c) m = (c \<noteq> b \<and> open_event (WaveOver c) m)"
| "keeps_wave b ev m = open_event ev m"

lemma keeps_wave_open: "keeps_wave b ev m \<Longrightarrow> open_event ev m"
  by (cases ev) auto

lemma balanced_set:
  assumes "balanced b d m" "well_formed m" "dict_get (agents m) i = Some x" "unreported b y = unreported b x"
  shows "balanced b d (set_agent i y m)"
  using assms(1) outstanding_set [OF assms(2,3), of b y] assms(4) by (simp add: balanced_def)

lemma balanced_report:
  assumes "balanced b d m" "well_formed m" "dict_get (agents m) i = Some z" "sa_run z \<noteq> RunNone"
  shows "balanced b d (report_claimed s i m)"
proof (cases rule: report_claimed_cases [of s i m])
  case lost
  then show ?thesis using assms(1) by simp
next
  case (won x y)
  have x: "x = z" using won(1) assms(3) by simp
  have "unreported b x \<longleftrightarrow> sa_batch x = b" "\<not> unreported b (claimed s x)"
    using claim_alt [OF won(2)] won(3) assms(4) x by (simp_all add: unreported_def)
  then show ?thesis using assms(1) outstanding_set [OF assms(2) won(1), of b "claimed s x"]
    unfolding won(4) by (auto simp: balanced_def)
qed

lemma length_filter_remove1:
  "x \<in> set xs \<Longrightarrow> length (filter f xs) = length (filter f (remove1 x xs)) + (if f x then 1 else 0)"
  by (induction xs) auto

lemma balanced_stop:
  assumes "balanced b d m" "well_formed m" "unqueue i m = Some (rq, m1)" "i \<noteq> ''''"
  shows "balanced b d (report_queued_stop rq m1)"
proof -
  obtain x where x: "report_queued_stop rq m1 = announce (Terminal i (rq_batch rq)) (set_agent i x m1)" "sa_finalized x" "sa_run x = RunNone"
    by (rule queued_stop_eq [OF assms(2-4)])
  have m1: "agents m1 = agents m" "submitted b m1 = submitted b m" "tally (of_wave b) m1 = tally (of_wave b) m"
    by (simp_all add: unqueueD(3) [OF assms(3)] submitted_def)
  have "i \<notin> fst ` set (agents m)" using fresh_unqueue [OF assms(2,3)] by (simp add: map_of_eq_None_iff)
  then have o: "outstanding b (set_agent i x m1) = outstanding b m"
    using x(3) by (simp add: outstanding_def m1 dict_set_new unreported_def)
  have "length (filter f (waiting m)) = length (filter f (waiting m1)) + (if f rq then 1 else 0)" for f
    using length_filter_remove1 [OF unqueueD(1) [OF assms(3)]] by (simp add: unqueueD(3) [OF assms(3)])
  then have "waiting_in b m = waiting_in b m1 + (if rq_batch rq = b then 1 else 0)" by (simp add: waiting_in_def)
  then show ?thesis using assms(1) o unfolding x(1) by (simp add: balanced_def m1)
qed

lemma accounted_cong:
  "on_done m' = on_done m \<Longrightarrow> rq_id ` set (waiting m') \<subseteq> rq_id ` set (waiting m) \<Longrightarrow> (b \<noteq> '''' \<Longrightarrow> on_done m \<Longrightarrow> balanced b 0 m \<Longrightarrow> balanced b 0 m') \<Longrightarrow> accounted b m \<Longrightarrow> accounted b m'"
  by (auto simp: accounted_def)

lemma on_done_spawn: "well_formed m \<Longrightarrow> unused_id (rq_id rq) m \<Longrightarrow> on_done (fst (spawn e rq m)) = on_done m"
  using pumped_constants [OF spawn_pumped(1), of m rq e] by (simp add: constants_def)

lemma on_done_report [simp]: "on_done (report_claimed s i m) = on_done m"
  by (cases rule: report_claimed_cases [of s i m]) simp_all

lemma waiting_pumped:
  assumes "pumped m m'"
  shows "rq_id ` set (waiting m') \<subseteq> rq_id ` set (waiting m)"
proof -
  obtain new :: "(string, subagent) dict" where "mset (map fst new) + mset (map rq_id (waiting m')) \<subseteq># mset (map rq_id (waiting m))"
    using assms unfolding pumped_def by blast
  then have "set_mset (mset (map rq_id (waiting m'))) \<subseteq> set_mset (mset (map rq_id (waiting m)))"
    by (meson mset_subset_eq_add_right set_mset_mono subset_mset.order_trans)
  then show ?thesis by simp
qed

lemma accounted_drain:
  assumes "accounted b m" "well_formed m"
  shows "accounted b (drain e (m\<lparr>running_count := c\<rparr>))" "accounted b (drain e (m\<lparr>drain_timers := k\<rparr>))"
proof -
  have d: "accounted b (drain e n)" if "accounted b n" "well_formed n" for n
    by (rule accounted_cong [OF on_done_drain [OF that(2)] waiting_pumped [OF drain_pumped [OF that(2)]] _ that(1)])
      (rule balanced_drain [OF that(2)])
  show "accounted b (drain e (m\<lparr>running_count := c\<rparr>))" "accounted b (drain e (m\<lparr>drain_timers := k\<rparr>))"
    by (rule d; use assms in \<open>simp add: accounted_def balanced_timers\<close>)+
qed

lemma accounted_spawn:
  assumes "accounted b m" "well_formed m" "unused_id (rq_id rq) m"
  shows "accounted b (fst (spawn e rq m))"
proof -
  have "rq_id ` set (waiting (fst (spawn e rq m))) \<subseteq> insert (rq_id rq) (rq_id ` set (waiting m))"
    using waiting_pumped [OF spawn_pumped(1) [OF assms(2,3)], of e] by simp
  moreover have "on_done (fst (spawn e rq m)) = on_done m" by (rule on_done_spawn [OF assms(2,3)])
  ultimately show ?thesis using assms balanced_spawn by (auto simp: accounted_def unused_id_def)
qed

lemma accounted_stop:
  assumes "accounted b m" "well_formed m" "unqueue i m = Some (rq, m1)"
  shows "accounted b (report_queued_stop rq m1)"
proof -
  note u = unqueueD [OF assms(3)]
  have "i \<in> rq_id ` set (waiting m)" using u(1,2) by blast
  moreover have "'''' \<notin> rq_id ` set (waiting m)" using assms(1) unfolding accounted_def by blast
  ultimately have i: "i \<noteq> ''''" by blast
  obtain x where x: "report_queued_stop rq m1 = announce (Terminal i (rq_batch rq)) (set_agent i x m1)"
    by (rule queued_stop_eq [OF assms(2,3) i])
  have m1: "waiting m1 = remove1 rq (waiting m)" "on_done m1 = on_done m" by (simp_all add: u(3))
  have f: "on_done (report_queued_stop rq m1) = on_done m" "waiting (report_queued_stop rq m1) = remove1 rq (waiting m)"
    unfolding x by (simp_all add: m1)
  have "rq_id ` set (remove1 rq (waiting m)) \<subseteq> rq_id ` set (waiting m)" by (rule image_mono) (rule set_remove1_subset)
  then show ?thesis
    by (intro accounted_cong [OF _ _ _ assms(1)] balanced_stop [OF _ assms(2,3) i]) (simp_all add: f)
qed

lemma submitted_shut [simp]: "submitted b (shut_down m) = submitted b m" "waiting_in b (shut_down m) = waiting_in b m"
  by (simp_all add: submitted_def waiting_in_def shut_down_def)

lemma unreported_shut [simp]: "unreported b (shut_down_agent x) \<longleftrightarrow> unreported b x"
  by (simp add: unreported_def shut_down_agent_def cancel_intentionally_def Let_def)

lemma outstanding_shut [simp]: "outstanding b (shut_down m) = outstanding b m"
  by (simp add: outstanding_def shut_down_def filter_map comp_def case_prod_unfold)

lemma shut_fields: "on_done (shut_down m) = on_done m" "waiting (shut_down m) = waiting m"
  by (simp_all add: shut_down_def)

lemma calm_report_waiting [simp]: "waiting (report_claimed s i m) = waiting m"
  by (cases rule: report_claimed_cases [of s i m]) simp_all

lemma lost_fields:
  "on_done (record_lost_submission now c n m) = on_done m" "waiting (record_lost_submission now c n m) = waiting m"
  "agents (record_lost_submission now c n m) = agents m"
  using slot_view_waves(3) [of now c n m] unfolding slot_view_eq by blast+

lemma over_fields:
  "on_done (finalize_batch c m) = on_done m" "waiting (finalize_batch c m) = waiting m" "agents (finalize_batch c m) = agents m"
  using slot_view_waves(2) [of c m] unfolding slot_view_eq by blast+

lemma balanced_lost: "balanced b d m \<Longrightarrow> on_done m \<Longrightarrow> b \<noteq> '''' \<Longrightarrow> balanced b d (record_lost_submission now c n m)"
  by (auto simp: record_lost_submission_def Let_def balanced_def waiting_in_def outstanding_def)

lemma submitted_over: "c \<noteq> b \<Longrightarrow> submitted b (finalize_batch c m) = submitted b m"
  by (simp add: finalize_batch_def submitted_def)

lemma balanced_over: "c \<noteq> b \<Longrightarrow> balanced b d (finalize_batch c m) \<longleftrightarrow> balanced b d m"
  by (rule balanced_cong) (simp_all add: submitted_over over_fields)

interpretation waves: manager_law "accounted b" "keeps_wave b" for b
proof unfold_locales
  show "accounted b (fresh_manager limit gap consumer approval)" for limit gap consumer approval
    by (simp add: accounted_def balanced_def fresh_manager_def submitted_def waiting_in_def outstanding_def tally_def)
  show "accounted b m \<Longrightarrow> well_formed m \<Longrightarrow> dict_get (agents m) i = Some x \<Longrightarrow> same_claim x y \<Longrightarrow> accounted b (set_agent i y m)"
    for m i x y by (rule accounted_cong) (auto intro: balanced_set simp: same_claim_def unreported_def)
  show "accounted b m \<Longrightarrow> well_formed m \<Longrightarrow> dict_get (agents m) i = Some x \<Longrightarrow> sa_run x \<noteq> RunNone \<Longrightarrow> accounted b (report_claimed s i m)"
    for m i x s
    by (rule accounted_cong) (auto intro: balanced_report simp: calm_report_waiting)
  show "accounted b m \<Longrightarrow> accounted b (m\<lparr>running_count := running_count m + 1\<rparr>)" for m by (simp add: accounted_def balanced_timers)
  show "accounted b m \<Longrightarrow> keeps_wave b (MemberLost c n) m \<Longrightarrow> accounted b (record_lost_submission now c n m)" for m c n now
    by (rule accounted_cong) (auto intro: balanced_lost simp: lost_fields)
  show "accounted b m \<Longrightarrow> keeps_wave b (WaveOver c) m \<Longrightarrow> accounted b (finalize_batch c m)" for m c
    by (rule accounted_cong) (simp_all add: over_fields balanced_over)
  show "accounted b m \<Longrightarrow> accounted b (shut_down m)" for m
    by (rule accounted_cong) (simp_all add: balanced_def shut_fields)
qed (simp_all add: accounted_drain accounted_spawn accounted_stop)

lemma keeps_wave_single: "keeps_wave b ev m \<Longrightarrow> single_stop ev m"
  using keeps_wave_open open_event_single by blast

lemma run_open: "manager_run (keeps_wave b) m \<Longrightarrow> manager_run open_event m"
  by (erule manager_run_mono) (rule keeps_wave_open)

lemma run_heard:
  assumes "manager_run open_event m" "dict_get (agents m) i = Some x"
  shows "heard_law x"
proof (rule heard.law_holds [OF assms(1) _ assms(2)])
  fix n assume "manager_run open_event n"
  then have "manager_run (\<lambda>_ _. True) n" by (rule manager_run_mono) simp
  then show "tickets n" using ticket.law_holds unfolding tickets_def by blast
qed

text \<open>Nothing of a wave that is not pending is outstanding.\<close>

lemma not_pending_outstanding:
  assumes "manager_run open_event m" "\<not> batch_members_pending b m" "b \<noteq> ''''"
  shows "waiting_in b m = 0" "outstanding b m = 0"
proof -
  show "waiting_in b m = 0" using assms(2,3) by (simp add: batch_members_pending_def waiting_in_def filter_empty_conv)
  have "\<not> unreported b x" if "(i, x) \<in> set (agents m)" for i x
  proof
    assume u: "unreported b x"
    have "dict_wf (agents m)" using run_well_formed [OF assms(1)] by (simp add: well_formed_def)
    then have "heard_law x" using run_heard [OF assms(1)] that by (simp add: dict_get_eq_Some)
    then have "\<not> sa_done x" "sa_listed x" using u by (auto simp: heard_law_def unreported_def claim_law_def)
    then show False using assms(2,3) that u by (auto simp: batch_members_pending_def unreported_def)
  qed
  then show "outstanding b m = 0" by (auto simp: outstanding_def filter_empty_conv)
qed

lemma run_accounted: "manager_run (keeps_wave b) m \<Longrightarrow> accounted b m"
  by (rule waves.law_run) (rule keeps_wave_single)

section \<open>The liveness sweep\<close>

definition WAVE_STUCK_SECS :: int where
  "WAVE_STUCK_SECS = 1800"

definition stuck :: "int \<Rightarrow> string \<Rightarrow> manager \<Rightarrow> bool" where
  "stuck now b m \<longleftrightarrow>
     (case dict_get (batch_submitted m) b of None \<Rightarrow> False
      | Some (n, t) \<Rightarrow> 0 < t \<and> n < t \<and> now - dict_get_default (batch_progress m) b 0 \<ge> WAVE_STUCK_SECS \<and>
          (\<forall>(i, x) \<in> set (agents m). sa_listed x \<and> sa_batch x = b \<longrightarrow> sa_done x) \<and>
          (\<forall>rq \<in> set (waiting m). rq_batch rq \<noteq> b))"

definition sweep_wave :: "int \<Rightarrow> string \<Rightarrow> manager \<Rightarrow> manager" where
  "sweep_wave now b m =
     (if stuck now b m
      then record_lost_submission now b (case dict_get (batch_submitted m) b of None \<Rightarrow> 0 | Some (n, t) \<Rightarrow> t) m
      else m)"

definition sweep_stuck_waves :: "int \<Rightarrow> manager \<Rightarrow> manager" where
  "sweep_stuck_waves now m = fold (sweep_wave now) (map fst (batch_submitted m)) m"

definition expected :: "string \<Rightarrow> manager \<Rightarrow> int" where
  "expected b m = (case dict_get (batch_submitted m) b of None \<Rightarrow> 0 | Some (n, t) \<Rightarrow> t)"

definition progress :: "string \<Rightarrow> manager \<Rightarrow> int" where
  "progress b m = dict_get_default (batch_progress m) b 0"

text \<open>A wave that only waits for submissions that will never arrive.\<close>

definition lost_wave :: "string \<Rightarrow> manager \<Rightarrow> bool" where
  "lost_wave b m \<longleftrightarrow> b \<noteq> '''' \<and> submitted b m < expected b m \<and> 0 < expected b m \<and>
     (\<forall>(i, x) \<in> set (agents m). sa_listed x \<and> sa_batch x = b \<longrightarrow> sa_done x) \<and>
     (\<forall>rq \<in> set (waiting m). rq_batch rq \<noteq> b)"

lemma lost_wave_stuck: "b \<noteq> '''' \<Longrightarrow> stuck now b m \<longleftrightarrow> lost_wave b m \<and> now - progress b m \<ge> WAVE_STUCK_SECS"
  by (auto simp: lost_wave_def stuck_def progress_def submitted_def expected_def split: option.splits)

text \<open>What the sweep of one wave does to a wave.\<close>

definition wave_view :: "string \<Rightarrow> manager \<Rightarrow> _" where
  "wave_view b m = (submitted b m, expected b m, progress b m, agents m, waiting m, on_done m, tally (of_wave b) m)"

lemma count_wave:
  "expected b (count_submission now c n m) = (if b = c then (case dict_get (batch_submitted m) c of None \<Rightarrow> max 0 n | Some (k, t) \<Rightarrow> t) else expected b m)"
  "progress b (count_submission now c n m) = (if b = c then now else progress b m)"
  by (cases "b = c"; auto simp: expected_def progress_def count_submission_def dict_get_default_def split: option.splits prod.splits)+

lemma announce_wave [simp]: "expected b (announce a m) = expected b m" "progress b (announce a m) = progress b m"
  by (simp_all add: expected_def progress_def)

lemma lost_other: "c \<noteq> b \<Longrightarrow> wave_view b (record_lost_submission now c n m) = wave_view b m"
  by (simp add: record_lost_submission_def Let_def wave_view_def count_wave)

lemma sweep_other: "c \<noteq> b \<Longrightarrow> wave_view b (sweep_wave now c m) = wave_view b m"
  by (simp add: sweep_wave_def lost_other)

lemma stuck_view: "wave_view b m' = wave_view b m \<Longrightarrow> b \<noteq> '''' \<Longrightarrow> stuck now b m' \<longleftrightarrow> stuck now b m"
  by (simp add: lost_wave_stuck wave_view_def lost_wave_def)

lemma sweep_self:
  assumes "b \<noteq> ''''" "stuck now b m"
  shows "wave_view b (sweep_wave now b m) = (submitted b m + 1, expected b m, now, agents m, waiting m, on_done m,
    tally (of_wave b) m + (if on_done m then 1 else 0))"
proof -
  obtain n t where "dict_get (batch_submitted m) b = Some (n, t)" using assms(2) by (auto simp: stuck_def split: option.splits)
  moreover from this have "expected b m = t" by (simp add: expected_def)
  ultimately show ?thesis using assms by (auto simp: sweep_wave_def record_lost_submission_def Let_def wave_view_def count_wave)
qed

lemma fold_sweep_others:
  "b \<notin> set cs \<Longrightarrow> wave_view b (fold (sweep_wave now) cs m) = wave_view b m"
  by (induction cs arbitrary: m) (auto simp: sweep_other)

lemma fold_sweep_view:
  assumes "distinct cs" "b \<in> set cs" "b \<noteq> ''''"
  shows "wave_view b (fold (sweep_wave now) cs m) = wave_view b (sweep_wave now b m)"
  using assms(1,2)
proof (induction cs arbitrary: m)
  case (Cons c cs)
  show ?case
  proof (cases "c = b")
    case True
    then show ?thesis using Cons.prems fold_sweep_others by simp
  next
    case False
    have v: "wave_view b (sweep_wave now c m) = wave_view b m" by (rule sweep_other [OF False])
    have "wave_view b (sweep_wave now b (sweep_wave now c m)) = wave_view b (sweep_wave now b m)"
    proof (cases "stuck now b m")
      case True
      then show ?thesis using sweep_self [OF assms(3)] stuck_view [OF v assms(3)] v by (simp add: wave_view_def)
    next
      case False
      then show ?thesis using stuck_view [OF v assms(3)] v by (simp add: sweep_wave_def)
    qed
    then show ?thesis using Cons False by simp
  qed
qed simp

lemma sweep_keys: "distinct (map fst (batch_submitted m)) \<Longrightarrow> distinct (map fst (batch_submitted (sweep_wave now c m)))"
  by (auto simp: sweep_wave_def record_lost_submission_def count_submission_def Let_def announce_def split: prod.splits)

lemma swept_wave_view:
  assumes "distinct (map fst (batch_submitted m))" "b \<noteq> ''''"
  shows "wave_view b (sweep_stuck_waves now m) = wave_view b (sweep_wave now b m)"
proof (cases "b \<in> set (map fst (batch_submitted m))")
  case True
  then show ?thesis unfolding sweep_stuck_waves_def using fold_sweep_view [OF assms(1) _ assms(2)] by blast
next
  case False
  then have "dict_get (batch_submitted m) b = None" by (simp add: map_of_eq_None_iff)
  then have "sweep_wave now b m = m" by (simp add: sweep_wave_def stuck_def)
  then show ?thesis using fold_sweep_others [OF False] by (simp add: sweep_stuck_waves_def)
qed

lemma sweep_stuck_keys:
  assumes "distinct (map fst (batch_submitted m))"
  shows "distinct (map fst (batch_submitted (sweep_stuck_waves now m)))"
proof -
  have "distinct (map fst (batch_submitted (fold (sweep_wave now) cs n)))" if "distinct (map fst (batch_submitted n))" for cs n
    using that by (induction cs arbitrary: n) (simp_all add: sweep_keys)
  then show ?thesis using assms by (simp add: sweep_stuck_waves_def)
qed

text \<open>Sweeps at the given times, one after the other.\<close>

definition sweeps :: "int list \<Rightarrow> manager \<Rightarrow> manager" where
  "sweeps ts m = fold sweep_stuck_waves ts m"

text \<open>Times that leave the grace window of the previous progress.\<close>

fun apart :: "int \<Rightarrow> int list \<Rightarrow> bool" where
  "apart prev [] = True"
| "apart prev (t # ts) = (WAVE_STUCK_SECS \<le> t - prev \<and> apart t ts)"

lemma sweeps_converge:
  assumes "distinct (map fst (batch_submitted m))" "b \<noteq> ''''" "apart (progress b m) ts"
    "int (length ts) = expected b m - submitted b m" "0 < expected b m"
    "\<forall>(i, x) \<in> set (agents m). sa_listed x \<and> sa_batch x = b \<longrightarrow> sa_done x" "\<forall>rq \<in> set (waiting m). rq_batch rq \<noteq> b" "on_done m"
  shows "submitted b (sweeps ts m) = expected b (sweeps ts m) \<and> agents (sweeps ts m) = agents m \<and> waiting (sweeps ts m) = waiting m \<and>
    tally (of_wave b) (sweeps ts m) = tally (of_wave b) m + length ts"
  using assms
proof (induction ts arbitrary: m)
  case Nil
  then show ?case by (simp add: sweeps_def)
next
  case (Cons t ts)
  let ?m = "sweep_stuck_waves t m"
  have "stuck t b m" using Cons.prems by (simp add: lost_wave_stuck lost_wave_def)
  then have v: "wave_view b ?m = (submitted b m + 1, expected b m, t, agents m, waiting m, on_done m, tally (of_wave b) m + 1)"
    using swept_wave_view [OF Cons.prems(1,2)] sweep_self [OF Cons.prems(2)] Cons.prems(8) by simp
  have "submitted b (sweeps ts ?m) = expected b (sweeps ts ?m) \<and> agents (sweeps ts ?m) = agents ?m \<and> waiting (sweeps ts ?m) = waiting ?m \<and>
    tally (of_wave b) (sweeps ts ?m) = tally (of_wave b) ?m + length ts"
    by (rule Cons.IH [OF sweep_stuck_keys [OF Cons.prems(1)] Cons.prems(2)]) (use v Cons.prems in \<open>simp_all add: wave_view_def\<close>)
  then show ?case using v by (simp add: sweeps_def wave_view_def)
qed

section \<open>The hold deadline\<close>

text \<open>The oldest held result of a wave among the registered members.\<close>

definition holds :: "string \<Rightarrow> manager \<Rightarrow> int list" where
  "holds b m = map (\<lambda>(i, x). sa_held_at x) (filter (\<lambda>(i, x). sa_listed x \<and> sa_batch x = b \<and> sa_held_at x > 0) (agents m))"

definition held_waves :: "manager \<Rightarrow> string list" where
  "held_waves m = rev (remdups (rev (map (\<lambda>(i, x). sa_batch x)
     (filter (\<lambda>(i, x). sa_listed x \<and> sa_batch x \<noteq> '''' \<and> sa_held_at x > 0) (agents m)))))"

definition hold_expired :: "int \<Rightarrow> int \<Rightarrow> manager \<Rightarrow> string \<Rightarrow> bool" where
  "hold_expired limit now m b \<longleftrightarrow> now - Min (set (holds b m)) \<ge> limit \<and> batch_members_pending b m"

definition sweep_digest_holds :: "int \<Rightarrow> int \<Rightarrow> manager \<Rightarrow> manager" where
  "sweep_digest_holds limit now m =
     (if limit \<le> 0 \<or> \<not> on_done m then m
      else m\<lparr>announced := announced m @ map DigestFlush (filter (hold_expired limit now m) (held_waves m))\<rparr>)"

end
