(* ===== verification/Subagent_Queue.thy ===== *)
theory Subagent_Queue
  imports Subagent_Protocol
begin

text \<open>
  The stagger queue. A law of the queue is kept by every step as soon as it is kept by the pump, by
  \<open>spawn\<close>, by taking a run out of the queue and by changes that leave queue and clock alone (the locale
  \<open>queue_law\<close>). Its interpretations: a queue that could move has a pump timer, and starts keep their
  distance.
\<close>

section \<open>Laws of the queue\<close>

definition calm :: "manager \<Rightarrow> manager \<Rightarrow> bool" where
  "calm m m' \<longleftrightarrow> waiting m' = waiting m \<and> drain_timers m' = drain_timers m \<and> running_count m \<le> running_count m' \<and>
     max_concurrent m' = max_concurrent m \<and> stagger m' = stagger m \<and> last_spawn m' = last_spawn m \<and> starts m' = starts m"

lemma calm_simps [simp]:
  "calm m m" "calm m (set_agent i x m)" "calm m (announce a m)" "calm m (upd_agent i f m)" "calm m (report_claimed s i m)"
  "calm m (respawn i x m)" "calm m (shut_down m)"
  by (auto simp: calm_def upd_agent_def report_claimed_def respawn_def shut_down_def split: option.splits prod.splits)

lemma calm_trans: "calm m m' \<Longrightarrow> calm m' m'' \<Longrightarrow> calm m m''"
  by (simp add: calm_def)

lemma calm_view: "slot_view m' = slot_view m \<Longrightarrow> calm m m'"
  by (simp add: calm_def slot_view_eq)

lemma calm_recovery [simp]:
  "calm m (fail_recovery i x m)" "calm m (resume_recovery i x m)" "calm m (poll_slot i b x m)"
proof -
  show f: "calm m (fail_recovery i x m)" unfolding fail_recovery_def Let_def by (rule calm_trans) (rule calm_simps)+
  show "calm m (resume_recovery i x m)" by (simp add: resume_recovery_def)
  show "calm m (poll_slot i b x m)" using f by (simp add: poll_slot_def)
qed

locale queue_law =
  fixes law :: "manager \<Rightarrow> bool"
  assumes law_fresh: "law (fresh_manager limit gap consumer approval)"
    and law_calm: "calm m m' \<Longrightarrow> law m \<Longrightarrow> law m'"
    and law_unqueue: "law m \<Longrightarrow> law (m\<lparr>waiting := remove1 rq (waiting m)\<rparr>)"
    and law_drain: "law m \<Longrightarrow> law (drain e (m\<lparr>running_count := c\<rparr>))"
    and law_timer: "law m \<Longrightarrow> law (drain e (m\<lparr>drain_timers := k\<rparr>))"
    and law_spawn: "law m \<Longrightarrow> law (fst (spawn e rq m))"
begin

lemma law_free: "law m \<Longrightarrow> law (free_slot e i fl m)"
proof -
  assume l: "law m"
  have "law (drain e ((set_agent i y m)\<lparr>running_count := c\<rparr>))" for y c by (rule law_drain [OF law_calm [OF calm_simps(2) l]])
  then show ?thesis using l by (auto simp: free_slot_def split: option.splits prod.splits)
qed

lemma law_end: "law m \<Longrightarrow> law (end_run e i m)"
  unfolding end_run_def by (rule law_calm [OF calm_simps(4) law_free])

lemma law_finish: "law m \<Longrightarrow> law (finish_run e i m)"
  using law_calm [OF calm_simps(5)] law_calm [OF calm_simps(2)] law_end
  by (auto simp: finish_run_def Let_def split: option.splits)

lemma law_stop: "law m \<Longrightarrow> unqueue i m = Some (rq, m1) \<Longrightarrow> law (report_queued_stop rq m1)"
proof -
  assume l: "law m" and u: "unqueue i m = Some (rq, m1)"
  have "law m1" unfolding unqueueD(3) [OF u] by (rule law_unqueue [OF l])
  moreover have "calm m1 (report_queued_stop rq m1)"
    unfolding report_queued_stop_def by (auto intro: calm_trans [OF calm_simps(2) calm_simps(5)])
  ultimately show ?thesis by (rule law_calm [rotated])
qed

lemma law_stop_waiting: "law m \<Longrightarrow> law (stop_waiting parent m)"
proof -
  let ?f = "\<lambda>i m. case unqueue i m of None \<Rightarrow> m | Some (rq, m') \<Rightarrow> report_queued_stop rq m'"
  have one: "law n \<Longrightarrow> law (?f i n)" for i n using law_stop by (auto split: option.splits)
  have "law n \<Longrightarrow> law (fold ?f is n)" for "is" n by (induction "is" arbitrary: n) (simp_all add: one)
  then show "law m \<Longrightarrow> law (stop_waiting parent m)" by (simp add: stop_waiting_def)
qed

lemma law_deny: "law m \<Longrightarrow> law (deny_approval e i x m)"
  using law_calm [OF calm_simps(4) law_free [OF law_calm [OF calm_simps(2)]]] law_calm [OF calm_simps(5)]
  by (simp add: deny_approval_def Let_def)

lemma law_sub_step:
  assumes "law m" "sub_step e ev m = Some m'"
  shows "law m'"
proof (cases ev)
  case (Spawn rq)
  then show ?thesis using assms law_spawn by (auto split: if_splits)
next
  case DrainTimer
  then have "m' = drain e (m\<lparr>drain_timers := drain_timers m - 1\<rparr>)" using assms(2) by (simp split: if_splits)
  then show ?thesis using law_timer [OF assms(1)] by blast
next
  case (ApprovalAnswered i approved)
  then show ?thesis using assms law_deny law_calm [OF calm_simps(2)] by (auto simp: with_agent_def split: option.splits if_splits)
next
  case (RunReturns i how)
  then show ?thesis using assms law_finish [OF law_calm [OF calm_simps(2)]] by (auto simp: with_agent_def split: option.splits if_splits)
next
  case (CancelArrives i tools draining)
  then obtain x where x: "m' = cancel_arrives e i tools draining x m"
    using assms(2) by (auto simp: with_agent_def split: option.splits if_splits)
  show ?thesis unfolding x cancel_arrives_def
    by (cases "sa_run x") (simp_all add: law_finish law_end law_calm [OF calm_simps(2)] assms(1))
next
  case (TeardownOver i)
  then show ?thesis using assms law_end by (auto simp: with_agent_def split: option.splits if_splits)
next
  case (StopAgent i)
  then show ?thesis
    using assms law_stop law_calm [OF calm_simps(2)] by (cases rule: stop_agent_cases [of m i]) auto
next
  case (StopWaiting parent)
  then show ?thesis using assms law_stop_waiting by auto
next
  case (ReapResumes i)
  then show ?thesis using assms law_calm [OF calm_simps(5) law_free [OF law_calm [OF calm_simps(4)]]]
    by (auto simp: with_agent_def resume_reap_def split: option.splits if_splits)
next
  case (MemberLost b n)
  then show ?thesis using assms law_calm [OF calm_view [OF slot_view_waves(3)]] by auto
next
  case (WaveOver b)
  then show ?thesis using assms law_calm [OF calm_view [OF slot_view_waves(2)]] by auto
next
  case CloseManager
  then show ?thesis using assms law_calm [OF calm_simps(7)] by auto
next
  case (TeardownSeen i)
  then show ?thesis using assms law_calm [OF calm_recovery(2)] by (auto simp: with_agent_def split: option.splits if_splits)
next
  case (TeardownLate i)
  then show ?thesis using assms law_calm [OF calm_recovery(1)] by (auto simp: with_agent_def split: option.splits if_splits)
next
  case (SlotPolled i expired)
  then show ?thesis using assms law_calm [OF calm_recovery(3)] by (auto simp: with_agent_def split: option.splits if_splits)
qed (use assms law_calm [OF calm_simps(2)] in \<open>auto simp: with_agent_def split: option.splits if_splits\<close>)

lemma law_run: "manager_run P m \<Longrightarrow> law m"
  by (induction rule: manager_run.induct) (auto intro: law_fresh law_sub_step)

end

section \<open>The queue is pumped\<close>

text \<open>Waiting runs are behind a full pool, or a timer will pump them.\<close>

definition pump_armed :: "manager \<Rightarrow> bool" where
  "pump_armed m \<longleftrightarrow> waiting m \<noteq> [] \<longrightarrow> drain_timers m > 0 \<or> running_count m \<ge> max_concurrent m"

lemma pump_armed_drain: "pump_armed (drain e m)"
proof (induction e m rule: drain.induct)
  case (1 e m)
  show ?case
  proof (cases "waiting m")
    case (Cons rq rest)
    let ?m1 = "m\<lparr>waiting := rest\<rparr>"
    consider "running_count m \<ge> max_concurrent m \<or> monotonic e - last_spawn m < stagger m"
      | (skip) "\<not> running_count m \<ge> max_concurrent m" "\<not> monotonic e - last_spawn m < stagger m" "over_while_waiting rq ?m1"
      | (go) "\<not> running_count m \<ge> max_concurrent m" "\<not> monotonic e - last_spawn m < stagger m" "\<not> over_while_waiting rq ?m1"
      by blast
    then show ?thesis
    proof cases
      case 1
      then show ?thesis using Cons by (subst drain.simps) (auto simp: pump_armed_def)
    next
      case skip
      then show ?thesis using Cons "1.IH"(1) [OF Cons skip(1,2) refl skip(3)]
        by (subst drain.simps) (auto simp: pump_armed_def Let_def)
    next
      case go
      then show ?thesis using Cons
        by (subst drain.simps) (auto simp: Let_def pump_armed_def rearm_pump_def split: prod.splits)
    qed
  qed (subst drain.simps, simp add: pump_armed_def)
qed

lemma pump_armed_view: "slot_view m' = slot_view m \<Longrightarrow> pump_armed m' \<longleftrightarrow> pump_armed m"
  by (simp add: pump_armed_def slot_view_eq)

lemma pump_armed_spawn:
  assumes "pump_armed m"
  shows "pump_armed (fst (spawn e rq m))"
proof -
  obtain m1 r where a: "admit e rq False m = (m1, r)" by fastforce
  from a show ?thesis
  proof (cases rule: admit_cases)
    case (refused why)
    then show ?thesis using assms pump_armed_view [OF refused(2)] by (simp add: spawn_def a)
  next
    case (queued cwd k)
    then have "pump_armed m1" by (auto simp: slot_view_eq pump_armed_def)
    then show ?thesis using queued(1) by (simp add: spawn_def a)
  next
    case (started x)
    then have "pump_armed m1" using assms by (auto simp: slot_view_eq pump_armed_def)
    then show ?thesis using started(1) by (simp add: spawn_def a)
  next
    case (turned_away x)
    then show ?thesis using pump_armed_drain pump_armed_view [OF slot_view_announcements(2)] by (simp add: spawn_def a)
  qed
qed

interpretation pump: queue_law pump_armed
proof unfold_locales
  show "pump_armed (fresh_manager limit gap consumer approval)" for limit gap consumer approval
    by (simp add: pump_armed_def fresh_manager_def)
  show "pump_armed m \<Longrightarrow> pump_armed (m\<lparr>waiting := remove1 rq (waiting m)\<rparr>)" for m rq by (auto simp: pump_armed_def)
  show "calm m m' \<Longrightarrow> pump_armed m \<Longrightarrow> pump_armed m'" for m m' by (auto simp: calm_def pump_armed_def)
qed (simp_all add: pump_armed_drain pump_armed_spawn)

section \<open>Starts keep their distance\<close>

definition spaced :: "manager \<Rightarrow> bool" where
  "spaced m \<longleftrightarrow> successively (\<lambda>a b. stagger m \<le> b - a) (starts m) \<and> (starts m \<noteq> [] \<longrightarrow> last (starts m) = last_spawn m)"

lemma spaced_view: "slot_view m' = slot_view m \<Longrightarrow> spaced m' \<longleftrightarrow> spaced m"
  by (simp add: spaced_def slot_view_eq)

lemma spaced_start:
  assumes "spaced m" "stagger m \<le> now - last_spawn m" "starts m' = starts m @ [now]" "last_spawn m' = now" "stagger m' = stagger m"
  shows "spaced m'"
  using assms by (auto simp: spaced_def successively_append_iff)

lemma spaced_admit:
  assumes "spaced m" "admit e rq fq m = (m', r)"
  shows "spaced m'"
  using assms(2)
proof (cases rule: admit_cases)
  case (started x)
  then show ?thesis using spaced_start [OF assms(1) started(7), of m'] by (simp add: slot_view_eq)
next
  case (turned_away x)
  then show ?thesis using spaced_start [OF assms(1) turned_away(8), of m'] by (simp add: slot_view_eq)
qed (use assms(1) in \<open>auto simp: spaced_def slot_view_eq\<close>)

lemma spaced_drain: "spaced m \<Longrightarrow> spaced (drain e m)"
proof (induction e m rule: drain.induct)
  case (1 e m)
  show ?case
  proof (cases "waiting m")
    case (Cons rq rest)
    let ?m1 = "m\<lparr>waiting := rest\<rparr>"
    have s1: "spaced ?m1" using "1.prems" by (simp add: spaced_def)
    consider "running_count m \<ge> max_concurrent m \<or> monotonic e - last_spawn m < stagger m"
      | (skip) "\<not> running_count m \<ge> max_concurrent m" "\<not> monotonic e - last_spawn m < stagger m" "over_while_waiting rq ?m1"
      | (go) "\<not> running_count m \<ge> max_concurrent m" "\<not> monotonic e - last_spawn m < stagger m" "\<not> over_while_waiting rq ?m1"
      by blast
    then show ?thesis
    proof cases
      case 1
      then show ?thesis using Cons "1.prems" by (subst drain.simps) (auto simp: spaced_def)
    next
      case skip
      then show ?thesis using Cons s1 "1.IH"(1) [OF Cons skip(1,2) refl skip(3)] by (subst drain.simps) (auto simp: Let_def)
    next
      case go
      obtain m2 r where a: "admit e rq True ?m1 = (m2, r)" by fastforce
      have s2: "spaced m2" by (rule spaced_admit [OF s1 a])
      let ?m3 = "if r = TurnedAway then announce_turned_away e rq (drain e m2) else m2"
      have "spaced ?m3"
        using s2 "1.IH"(2) [OF Cons go(1,2) refl go(3) a [symmetric] refl _ s2] spaced_view [OF slot_view_announcements(2)] by simp
      then have "spaced (announce_drained rq r ?m3)" using spaced_view [OF slot_view_announcements(3)] by blast
      then have "spaced (rearm_pump (announce_drained rq r ?m3))" by (simp add: rearm_pump_def spaced_def)
      then show ?thesis using go Cons a by (subst drain.simps) (simp add: Let_def)
    qed
  qed (subst drain.simps, simp add: "1.prems")
qed

lemma spaced_spawn: "spaced m \<Longrightarrow> spaced (fst (spawn e rq m))"
  using spaced_admit spaced_drain spaced_view [OF slot_view_announcements(2)] by (auto simp: spawn_def split: prod.splits)

interpretation distance: queue_law spaced
proof unfold_locales
  show "spaced m \<Longrightarrow> spaced (drain e (m\<lparr>running_count := c\<rparr>))" for m e c by (rule spaced_drain) (simp add: spaced_def)
  show "spaced m \<Longrightarrow> spaced (drain e (m\<lparr>drain_timers := k\<rparr>))" for m e k by (rule spaced_drain) (simp add: spaced_def)
  show "spaced m \<Longrightarrow> spaced (fst (spawn e rq m))" for m e rq by (rule spaced_spawn)
  show "spaced (fresh_manager limit gap consumer approval)" for limit gap consumer approval
    by (simp add: spaced_def fresh_manager_def)
qed (simp_all add: spaced_def calm_def)

end
