(* ===== verification/Subagent_Promises.thy ===== *)
theory Subagent_Promises
  imports Subagent_Waves Subagent_Queue
begin

text \<open>
  What the subagent manager promises to its callers, over every interleaving of its steps: slots, reports,
  the queue, waves. Runs as lists of events give the concrete instances and the interleavings at which a
  condition is needed.
\<close>

section \<open>Runs as lists of events\<close>

fun play :: "(sub_event \<Rightarrow> manager \<Rightarrow> bool) \<Rightarrow> (surroundings \<times> sub_event) list \<Rightarrow> manager \<Rightarrow> manager option" where
  "play P [] m = Some m"
| "play P ((e, ev) # es) m =
     (if P ev m then (case sub_step e ev m of None \<Rightarrow> None | Some m' \<Rightarrow> play P es m') else None)"

lemma play_run: "manager_run P m \<Longrightarrow> play P es m = Some m' \<Longrightarrow> manager_run P m'"
proof (induction es arbitrary: m)
  case (Cons p es)
  then show ?case by (cases p) (auto split: option.splits if_splits dest: manager_next)
qed simp

lemma playE: "(case r of None \<Rightarrow> False | Some m \<Rightarrow> Q m) \<Longrightarrow> \<exists>m. r = Some m \<and> Q m"
  by (cases r) simp_all

definition quiet :: "int \<Rightarrow> surroundings" where
  "quiet now = \<lparr>monotonic = now, wall = now, memory_ok = True, admitted = True, check_cwd = Some,
     governance_denies = (\<lambda>parent agent app. False), agent_ok = (\<lambda>agent cwd. True), yolo = False,
     parent_trusted = (\<lambda>parent. False), auto_approve = None\<rparr>"

definition plain :: "string \<Rightarrow> string \<Rightarrow> int \<Rightarrow> spawn_request" where
  "plain i b n = \<lparr>rq_id = i, rq_task = ''t'', rq_parent = ''p'', rq_agent = [], rq_cwd = [], rq_auto = True,
     rq_batch = b, rq_total = n, rq_app = [], rq_prevalidated = False\<rparr>"

definition small_manager :: manager where
  "small_manager = fresh_manager 1 2 True False"

lemma small_run: "play P es small_manager = Some m \<Longrightarrow> manager_run P m"
  using play_run [OF manager_fresh] by (simp add: small_manager_def)

section \<open>Slots\<close>

text \<open>C13. The concurrency limit: in every run in which no stop or reap hits a queued stop before its report
  has begun, the running counter is the number of records that occupy a slot (so no slot is leaked or given
  back twice, whichever of completion, stop, reap, recovery and denial gets there first), and it never
  exceeds the limit.\<close>

theorem slots_never_exceed_limit:
  "manager_run single_stop m \<Longrightarrow> running_count m = int (occupants m) \<and> running_count m \<le> max 0 (max_concurrent m)"
  by (drule run_counted) (unfold counted_def, blast)

text \<open>A run is cancelled out of the blue, recovers, and is stopped, while another waits for its slot.\<close>

definition rescued :: "(surroundings \<times> sub_event) list" where
  "rescued = [(quiet 9, Spawn (plain ''a'' [] 0)), (quiet 9, RunBegins ''a''), (quiet 9, Spawn (plain ''b'' [] 0)),
     (quiet 9, StrayCancel ''a''), (quiet 9, CancelArrives ''a'' 0 False), (quiet 9, RecoveryBegins ''a''),
     (quiet 9, TeardownOver ''a''), (quiet 9, TeardownSeen ''a''), (quiet 20, StopAgent ''a''),
     (quiet 20, ReapResumes ''a''), (quiet 20, CancelArrives ''a'' 0 False)]"

lemma slots_never_exceed_limit_witness:
  "\<exists>m. play single_stop rescued small_manager = Some m \<and> int (occupants m) = 1 \<and> running_count m = 1 \<and> running_count m \<le> max_concurrent m"
proof -
  have "\<exists>m. play single_stop rescued small_manager = Some m \<and> max_concurrent m = 1 \<and> occupants m = 1" by (rule playE) code_simp
  then obtain m where m: "play single_stop rescued small_manager = Some m" "max_concurrent m = 1" "occupants m = 1" by blast
  from slots_never_exceed_limit [OF small_run [OF m(1)]] m show ?thesis by auto
qed

text \<open>The condition is needed: two stops of a queued run in one tick give back the slot of another run.\<close>

definition double_stop :: "(surroundings \<times> sub_event) list" where
  "double_stop = [(quiet 9, Spawn (plain ''a'' [] 0)), (quiet 9, Spawn (plain ''b'' [] 0)), (quiet 9, StopAgent ''b''),
     (quiet 9, StopAgent ''b''), (quiet 9, ReapResumes ''b'')]"

lemma double_stop_frees_foreign_slot:
  "\<exists>m. play (\<lambda>_ _. True) double_stop small_manager = Some m \<and> running_count m = 0 \<and> occupants m = 1"
  by (rule playE) code_simp

section \<open>Reports\<close>

text \<open>C14. One report: in every such run the terminal outcome of an agent is reported at most once, and exactly
  when its record says so, whichever of the run, the reap, a user stop, a failed recovery and a denied approval
  ends it.\<close>

theorem outcome_is_reported_once:
  assumes "manager_run single_stop m"
  shows "tally (reports i) m \<le> 1 \<and>
    (tally (reports i) m = 1 \<longleftrightarrow> (case dict_get (agents m) i of None \<Rightarrow> False | Some x \<Rightarrow> sa_finalized x))"
  using once.law_run [OF _ assms] by (auto simp: reported_once_def split: option.splits)

text \<open>The stop of \<open>rescued\<close> is reported by the reap, not by the run it cancels.\<close>

lemma outcome_is_reported_once_witness:
  "\<exists>m. play single_stop rescued small_manager = Some m \<and> tally (reports ''a'') m = 1"
proof -
  have "\<exists>m. play single_stop rescued small_manager = Some m \<and>
      (case dict_get (agents m) ''a'' of None \<Rightarrow> False | Some x \<Rightarrow> sa_finalized x)" by (rule playE) code_simp
  then obtain m where m: "play single_stop rescued small_manager = Some m"
      "case dict_get (agents m) ''a'' of None \<Rightarrow> False | Some x \<Rightarrow> sa_finalized x" by blast
  from outcome_is_reported_once [OF small_run [OF m(1)], of "''a''"] m show ?thesis by blast
qed

text \<open>The reap reports for a record that nobody has reported for.\<close>

lemma begun_reap_reports:
  assumes "well_formed m" "dict_get (agents m) i = Some x" "\<not> sa_finalized x" "0 < sa_reaps x"
  shows "\<exists>m'. sub_step e (ReapResumes i) m = Some m' \<and> tally (reports i) m' = tally (reports i) m + 1"
proof -
  let ?r = "reap_record (shutting_down m)"
  let ?m = "free_slot e i True (upd_agent i ?r m)"
  have u: "upd_agent i ?r m = set_agent i (?r x) m" by (simp add: upd_agent_def assms(2))
  have "dict_get (agents ?m) i = Some (released (?r x))"
    unfolding u by (rule moves_get [OF free_slot_moves [OF well_formed_set [OF assms(1,2)]]]) simp
  moreover have "tally (reports i) ?m = tally (reports i) m"
    by (simp add: free_slot_def split: option.splits prod.splits)
  ultimately have "tally (reports i) (report_claimed True i ?m) = tally (reports i) m + 1"
    using assms(3) by (simp add: report_claimed_def claim_finalize_def split: prod.splits)
  then show ?thesis using assms(2,4) by (simp add: with_agent_def resume_reap_def)
qed

text \<open>C15. No outcome is lost: while the manager is open, a run that nobody has reported is not done, and the
  reaper can find it: its sweep marks the run and the reap that follows reports it, whatever happened to the
  run's task, its recovery or earlier reaps.\<close>

theorem reaper_recovers_every_outcome:
  assumes "manager_run open_event m" "\<not> shutting_down m" "dict_get (agents m) i = Some x" "sa_run x \<noteq> RunNone"
    "tally (reports i) m = 0"
  shows "\<not> sa_done x \<and>
    (\<exists>m1 m2. sub_step e (ReaperFires i) m = Some m1 \<and> sub_step e' (ReapResumes i) m1 = Some m2 \<and> tally (reports i) m2 = 1)"
proof -
  have s: "manager_run single_stop m" using assms(1) by (rule manager_run_mono) (use open_event_single in blast)
  have f: "\<not> sa_finalized x" using once.law_run [OF _ s] assms(3,5) by (auto simp: reported_once_def)
  have h: "heard_law x" by (rule run_heard [OF assms(1,3)])
  then have d: "\<not> sa_done x" "sa_listed x" using assms(4) f by (auto simp: heard_law_def claim_law_def)
  let ?m = "set_agent i (begin_reap x) m"
  have "sub_step e (ReaperFires i) m = Some ?m" using assms(2,3) d by (simp add: with_agent_def)
  moreover have "\<exists>m2. sub_step e' (ReapResumes i) ?m = Some m2 \<and> tally (reports i) m2 = tally (reports i) ?m + 1"
    by (rule begun_reap_reports [OF well_formed_set [OF run_well_formed [OF assms(1)] assms(3)], where x = "begin_reap x"])
      (use f in \<open>simp_all add: begin_reap_def\<close>)
  ultimately show ?thesis using d(1) assms(5) by auto
qed

text \<open>The task of a run whose approval is still open is cancelled from outside: it ends without a report.\<close>

definition deserted :: "(surroundings \<times> sub_event) list" where
  "deserted = [(quiet 9, Spawn ((plain ''a'' [] 0)\<lparr>rq_auto := False\<rparr>)), (quiet 9, ApprovalBegins ''a''), (quiet 9, StrayCancel ''a''),
     (quiet 9, CancelArrives ''a'' 0 False)]"

lemma reaper_recovers_every_outcome_witness:
  "\<exists>m m1 m2. play open_event deserted (fresh_manager 1 2 True True) = Some m \<and> tally (reports ''a'') m = 0 \<and>
     sub_step (quiet 20) (ReaperFires ''a'') m = Some m1 \<and> sub_step (quiet 21) (ReapResumes ''a'') m1 = Some m2 \<and>
     tally (reports ''a'') m2 = 1"
proof -
  have "\<exists>m. play open_event deserted (fresh_manager 1 2 True True) = Some m \<and> (\<not> shutting_down m \<and> tally (reports ''a'') m = 0 \<and>
      (case dict_get (agents m) ''a'' of None \<Rightarrow> False | Some x \<Rightarrow> sa_run x = RunEnded))" by (rule playE) code_simp
  then obtain m x where m: "play open_event deserted (fresh_manager 1 2 True True) = Some m" "\<not> shutting_down m"
      "tally (reports ''a'') m = 0" "dict_get (agents m) ''a'' = Some x" "sa_run x = RunEnded"
    by (auto split: option.splits)
  have "sa_run x \<noteq> RunNone" using m(5) by simp
  from reaper_recovers_every_outcome [OF play_run [OF manager_fresh m(1)] m(2,4) this m(3)] m(1,3) show ?thesis by blast
qed

text \<open>Until the reaper's deadline such a run keeps its slot.\<close>

lemma deserted_run_keeps_its_slot:
  "\<exists>m. play open_event deserted (fresh_manager 1 2 True True) = Some m \<and> (running_count m = 1 \<and> tally (reports ''a'') m = 0 \<and>
     (case dict_get (agents m) ''a'' of None \<Rightarrow> False | Some x \<Rightarrow> sa_run x = RunEnded \<and> \<not> someone_reports x))"
  by (rule playE) code_simp

text \<open>Outside the condition an outcome does get lost: the recovery of a cancelled run waits for a slot when the
  manager shuts down. Its record is done, and no report is made.\<close>

definition parked_at_shutdown :: "(surroundings \<times> sub_event) list" where
  "parked_at_shutdown = [(quiet 9, Spawn (plain ''a'' [] 0)), (quiet 9, RunBegins ''a''), (quiet 9, Spawn (plain ''b'' [] 0)),
     (quiet 9, StrayCancel ''a''), (quiet 9, CancelArrives ''a'' 0 False), (quiet 9, RecoveryBegins ''a''),
     (quiet 20, TeardownOver ''a''), (quiet 20, TeardownSeen ''a''), (quiet 20, CloseManager), (quiet 20, RecoveryCancelArrives ''a'')]"

lemma recovery_parked_at_shutdown_is_not_reported:
  "\<exists>m. play (\<lambda>_ _. True) parked_at_shutdown small_manager = Some m \<and> (on_done m \<and> tally (reports ''a'') m = 0 \<and>
     (case dict_get (agents m) ''a'' of None \<Rightarrow> False | Some x \<Rightarrow> sa_done x \<and> sa_failed x \<and> \<not> someone_reports x))"
  by (rule playE) code_simp

section \<open>The queue\<close>

lemma admit_refused: "admit e rq True m = (m', Refused why) \<Longrightarrow> m' = announce_rejection rq m"
  by (auto simp: admit_def Let_def start_run_def split: sum.splits prod.splits option.splits if_splits)

lemma drain_ready:
  assumes "well_formed m" "waiting m = rq # rest" "running_count m < max_concurrent m" "stagger m \<le> monotonic e - last_spawn m"
    "admit e rq True (m\<lparr>waiting := rest\<rparr>) = (m2, r)"
  shows "drain e m = rearm_pump (announce_drained rq r (if r = TurnedAway then announce_turned_away e rq (drain e m2) else m2))"
proof -
  have "\<not> over_while_waiting rq (m\<lparr>waiting := rest\<rparr>)"
    by (rule not_over_while_waiting) (use assms(1,2) in \<open>auto simp: well_formed_def\<close>)
  then show ?thesis using assms by (subst drain.simps) (simp add: Let_def)
qed

lemma agents_drained: "well_formed m \<Longrightarrow> fst ` set (agents m) \<subseteq> fst ` set (agents (drain e m))"
  using drain_pumped [of m e] by (auto simp: pumped_def)

lemma waiting_not_registered: "well_formed m \<Longrightarrow> i \<in> fst ` set (agents m) \<Longrightarrow> i \<notin> rq_id ` set (waiting m)"
  by (auto simp: well_formed_def)

lemma rearm_fields [simp]:
  "agents (rearm_pump m) = agents m" "waiting (rearm_pump m) = waiting m" "announced (rearm_pump m) = announced m"
  by (simp_all add: rearm_pump_def)

text \<open>The run at the head of the queue is registered, or its rejection is announced.\<close>

lemma drain_settles_head:
  assumes w: "well_formed m" and h: "waiting m = rq # rest" "running_count m < max_concurrent m" "stagger m \<le> monotonic e - last_spawn m"
  shows "rq_id rq \<notin> rq_id ` set (waiting (drain e m)) \<and>
    (rq_id rq \<in> fst ` set (agents (drain e m)) \<or> (on_done m \<longrightarrow> Rejection (rq_id rq) (rq_batch rq) \<in> set (announced (drain e m))))"
proof -
  let ?m1 = "m\<lparr>waiting := rest\<rparr>"
  obtain m2 r where a: "admit e rq True ?m1 = (m2, r)" by fastforce
  note d = drain_ready [OF w h a]
  have wd: "well_formed (drain e m)" by (rule well_formed_pumped [OF w drain_pumped [OF w]])
  have fresh: "rq_id rq \<notin> fst ` set (agents ?m1)" "rq_id rq \<notin> rq_id ` set rest" using w h(1) by (auto simp: well_formed_def)
  note dict_new = dict_set_new [OF fresh(1) [simplified]]
  have "pumped m m2" using admit_pumped [OF a fresh(1)] h(1) by (simp add: pumped_def constants_def)
  then have w2: "well_formed m2" by (rule well_formed_pumped [OF w])
  from a show ?thesis
  proof (cases rule: admit_cases)
    case (refused why)
    then have "m2 = announce_rejection rq ?m1" using admit_refused a by blast
    then show ?thesis using refused fresh(2) unfolding d by (auto simp: slot_view_eq same_view announce_drained_def announce_rejection_def)
  next
    case (queued cwd k)
    then show ?thesis using h(2,3) by simp
  next
    case (started x)
    then have "rq_id rq \<in> fst ` set (agents (drain e m))" unfolding d by (simp add: slot_view_eq same_view dict_new)
    then show ?thesis using waiting_not_registered [OF wd] by blast
  next
    case (turned_away x)
    then have "rq_id rq \<in> fst ` set (agents m2)" by (simp add: slot_view_eq dict_new)
    then have "rq_id rq \<in> fst ` set (agents (drain e m2))" using agents_drained [OF w2] by blast
    then have "rq_id rq \<in> fst ` set (agents (drain e m))" using turned_away(1) unfolding d by (simp add: same_view)
    then show ?thesis using waiting_not_registered [OF wd] by blast
  qed
qed

text \<open>C24. The queue moves: whenever a run waits and a slot is free, a pump timer is pending, and if the stagger
  interval has passed when it fires, the head of the queue is settled: it leaves the queue for the registered
  runs, or its rejection is announced.\<close>

theorem waiting_runs_are_pumped:
  assumes "manager_run P m" "waiting m = rq # rest" "running_count m < max_concurrent m" "stagger m \<le> monotonic e - last_spawn m"
  shows "\<exists>m'. sub_step e DrainTimer m = Some m' \<and> rq_id rq \<notin> rq_id ` set (waiting m') \<and>
    (rq_id rq \<in> fst ` set (agents m') \<or> (on_done m \<longrightarrow> Rejection (rq_id rq) (rq_batch rq) \<in> set (announced m')))"
proof -
  have "0 < drain_timers m" using pump.law_run [OF assms(1)] assms(2,3) by (auto simp: pump_armed_def)
  moreover have "well_formed (m\<lparr>drain_timers := drain_timers m - 1\<rparr>)" using run_well_formed [OF assms(1)] by simp
  ultimately show ?thesis using drain_settles_head [of "m\<lparr>drain_timers := drain_timers m - 1\<rparr>" rq rest e] assms(2-4) by simp
qed

text \<open>The agent's working directory is gone when its turn comes.\<close>

definition queued_in :: "(surroundings \<times> sub_event) list" where
  "queued_in = [(quiet 9, Spawn (plain ''a'' [] 0)), (quiet 10, Spawn ((plain ''b'' [] 0)\<lparr>rq_cwd := ''d''\<rparr>)), (quiet 10, RunBegins ''a''),
     (quiet 10, RunReturns ''a'' Completed), (quiet 10, TeardownOver ''a'')]"

lemma waiting_runs_are_pumped_witness:
  "\<exists>m m'. play (\<lambda>_ _. True) queued_in small_manager = Some m \<and>
     sub_step ((quiet 12)\<lparr>check_cwd := (\<lambda>_. None)\<rparr>) DrainTimer m = Some m' \<and> ''b'' \<notin> rq_id ` set (waiting m') \<and>
     (''b'' \<in> fst ` set (agents m') \<or> Rejection ''b'' [] \<in> set (announced m'))"
proof -
  let ?rq = "(plain ''b'' [] 0)\<lparr>rq_cwd := ''d''\<rparr>" and ?e = "(quiet 12)\<lparr>check_cwd := (\<lambda>_. None)\<rparr>"
  have "\<exists>m. play (\<lambda>_ _. True) queued_in small_manager = Some m \<and> (waiting m = [?rq] \<and> running_count m < max_concurrent m \<and>
      stagger m \<le> monotonic ?e - last_spawn m \<and> on_done m)" by (rule playE) code_simp
  then obtain m where m: "play (\<lambda>_ _. True) queued_in small_manager = Some m" "waiting m = [?rq]"
      "running_count m < max_concurrent m" "stagger m \<le> monotonic ?e - last_spawn m" "on_done m" by blast
  have i: "rq_id ?rq = ''b''" "rq_batch ?rq = []" by (simp_all add: plain_def)
  from waiting_runs_are_pumped [OF small_run [OF m(1)] m(2-4)] m(1,5) show ?thesis unfolding i by blast
qed

lemma successively_distance:
  assumes "successively (\<lambda>a b. k \<le> b - a) xs" "i \<le> j" "j < length xs"
  shows "int (j - i) * k \<le> xs ! j - xs ! i"
  using assms(2,3)
proof (induction j rule: dec_induct)
  case (step j)
  have "k \<le> xs ! Suc j - xs ! j" using assms(1) step.prems by (simp add: successively_conv_nth)
  moreover have "int (Suc j - i) = int (j - i) + 1" using step.hyps by simp
  ultimately show ?case using step.IH step.prems by (simp add: algebra_simps)
qed simp

text \<open>C31. Starts do not burst: in every run the starts of any two runs, whether spawned at once or drained
  from the queue, are at least as many stagger intervals apart as there are starts between them.\<close>

theorem starts_keep_their_distance:
  assumes "manager_run P m" "i \<le> j" "j < length (starts m)"
  shows "int (j - i) * stagger m \<le> starts m ! j - starts m ! i"
  using distance.law_run [OF assms(1)] successively_distance [OF _ assms(2,3)] by (simp add: spaced_def)

lemma starts_keep_their_distance_witness:
  "\<exists>m. play (\<lambda>_ _. True) (queued_in @ [(quiet 12, DrainTimer)]) small_manager = Some m \<and> 2 \<le> starts m ! 1 - starts m ! 0"
proof -
  have "\<exists>m. play (\<lambda>_ _. True) (queued_in @ [(quiet 12, DrainTimer)]) small_manager = Some m \<and> (length (starts m) = 2 \<and> stagger m = 2)"
    by (rule playE) code_simp
  then obtain m where m: "play (\<lambda>_ _. True) (queued_in @ [(quiet 12, DrainTimer)]) small_manager = Some m"
      "length (starts m) = 2" "stagger m = 2" by blast
  from starts_keep_their_distance [OF small_run [OF m(1)], of 0 1] m show ?thesis by simp
qed

text \<open>A spawn that is drained, is no wave member and finds neither hooks nor an approval callback is announced
  by \<open>spawn\<close> and again by the pump.\<close>

definition turned_away_late :: "(surroundings \<times> sub_event) list" where
  "turned_away_late = [(quiet 9, Spawn (plain ''a'' [] 0)), (quiet 9, Spawn ((plain ''b'' [] 0)\<lparr>rq_auto := False\<rparr>)), (quiet 9, RunBegins ''a''),
     (quiet 9, RunReturns ''a'' Completed), (quiet 20, TeardownOver ''a'')]"

lemma drained_rejection_is_announced_twice:
  "\<exists>m. play (\<lambda>_ _. True) turned_away_late small_manager = Some m \<and> length (filter (\<lambda>a. a = Rejection ''b'' []) (announced m)) = 2"
  by (rule playE) code_simp

section \<open>Waves\<close>

text \<open>C16. A closed wave has spoken for every member: in every run of an open manager, which has a completion
  consumer, has not been shut down, and is not asked to stop a queued run a second time, and while the bookkeeping
  of the wave has not been dropped, as soon as the wave is no longer pending, all the members that were expected
  have been submitted, and exactly as many outcomes were announced for it as members were submitted, each run at
  most once.\<close>

theorem closed_wave_is_fully_announced:
  assumes "manager_run (keeps_wave b) m" "on_done m" "b \<noteq> ''''" "\<not> batch_members_pending b m"
  shows "int (tally (of_wave b) m) = submitted b m \<and> expected b m \<le> submitted b m \<and> (\<forall>i. tally (reports i) m \<le> 1)"
proof -
  have "balanced b 0 m" using run_accounted [OF assms(1)] assms(2,3) by (simp add: accounted_def)
  then have t: "int (tally (of_wave b) m) = submitted b m"
    using not_pending_outstanding [OF run_open [OF assms(1)] assms(4,3)] by (simp add: balanced_def)
  moreover have "expected b m \<le> submitted b m"
    using assms(3,4) t by (auto simp: batch_members_pending_def submitted_def expected_def split: option.splits)
  moreover have "manager_run single_stop m" using assms(1) by (rule manager_run_mono) (rule keeps_wave_single)
  ultimately show ?thesis using once.law_run by (auto simp: reported_once_def split: option.splits)
qed

text \<open>A wave of three: one member completes, one is stopped in the queue, one submission is lost.\<close>

definition wave_of_three :: "(surroundings \<times> sub_event) list" where
  "wave_of_three = [(quiet 9, Spawn (plain ''a'' ''w'' 3)), (quiet 9, Spawn (plain ''b'' ''w'' 3)), (quiet 9, RunBegins ''a''),
     (quiet 9, StopAgent ''b''), (quiet 9, ReportBegins ''b''), (quiet 9, MemberLost ''w'' 3), (quiet 9, RunReturns ''a'' Completed)]"

lemma closed_wave_is_fully_announced_witness:
  "\<exists>m. play (keeps_wave ''w'') wave_of_three small_manager = Some m \<and> tally (of_wave ''w'') m = 3 \<and> expected ''w'' m \<le> 3"
proof -
  have "\<exists>m. play (keeps_wave ''w'') wave_of_three small_manager = Some m \<and>
      (on_done m \<and> \<not> batch_members_pending ''w'' m \<and> submitted ''w'' m = 3)" by (rule playE) code_simp
  then obtain m where m: "play (keeps_wave ''w'') wave_of_three small_manager = Some m" "on_done m"
      "\<not> batch_members_pending ''w'' m" "submitted ''w'' m = 3" by blast
  have "''w'' \<noteq> ''''" by simp
  from closed_wave_is_fully_announced [OF small_run [OF m(1)] m(2) this m(3)] m(1,4) show ?thesis by auto
qed

text \<open>A shutdown breaks this: the only member of a wave is cancelled and waits for a slot to recover when the
  manager shuts down. The wave is over, and nothing was announced for it.\<close>

definition wave_at_shutdown :: "(surroundings \<times> sub_event) list" where
  "wave_at_shutdown = (quiet 9, Spawn (plain ''a'' ''w'' 1)) # tl parked_at_shutdown"

lemma shutdown_leaves_a_wave_silent:
  "\<exists>m. play (\<lambda>_ _. True) wave_at_shutdown small_manager = Some m \<and> (on_done m \<and> \<not> batch_members_pending ''w'' m \<and>
     submitted ''w'' m = 1 \<and> tally (of_wave ''w'') m = 0)"
  by (rule playE) code_simp

section \<open>The sweeps of the reaper\<close>

definition submission_keys :: "manager \<Rightarrow> bool" where
  "submission_keys m \<longleftrightarrow> dict_wf (batch_submitted m)"

lemma keys_count: "submission_keys m \<Longrightarrow> submission_keys (count_submission now b n m)"
  by (auto simp: submission_keys_def count_submission_def split: prod.splits)

lemma keys_same: "batch_submitted m' = batch_submitted m \<Longrightarrow> submission_keys m \<Longrightarrow> submission_keys m'"
  by (simp add: submission_keys_def)

lemma batches_announced [simp]:
  "batch_submitted (announce_rejection rq m) = batch_submitted m"
  "batch_submitted (announce_turned_away e rq m) = batch_submitted m"
  "batch_submitted (announce_drained rq r m) = batch_submitted m"
  "batch_submitted (rearm_pump m) = batch_submitted m"
  by (simp_all add: announce_rejection_def announce_turned_away_def announce_drained_def rearm_pump_def)

lemma admit_batches:
  assumes "admit e rq fq m = (m', r)"
  shows "batch_submitted m' = batch_submitted
    (if rq_batch rq \<noteq> '''' \<and> \<not> fq then count_submission (wall e) (rq_batch rq) (rq_total rq) m else m)"
  using assms by (auto simp: admit_def Let_def start_run_def register_def enqueue_def split: sum.splits prod.splits option.splits if_splits)

lemma drain_batches [simp]: "batch_submitted (drain e m) = batch_submitted m"
proof (induction e m rule: drain.induct)
  case (1 e m)
  show ?case
  proof (cases "waiting m")
    case (Cons rq rest)
    obtain m2 r where a: "admit e rq True (m\<lparr>waiting := rest\<rparr>) = (m2, r)" by fastforce
    have "batch_submitted m2 = batch_submitted m" using admit_batches [OF a] by simp
    then show ?thesis using Cons "1.IH"(1) [OF Cons] "1.IH"(2) [OF Cons _ _ refl _ a [symmetric] refl]
      by (subst drain.simps) (auto simp: Let_def a)
  qed (subst drain.simps, simp)
qed

lemma keys_spawn: "submission_keys m \<Longrightarrow> submission_keys (fst (spawn e rq m))"
proof -
  assume k: "submission_keys m"
  obtain m1 r where a: "admit e rq False m = (m1, r)" by fastforce
  have "submission_keys m1" using admit_batches [OF a] keys_count [OF k] keys_same k by (auto split: if_splits)
  then show ?thesis by (auto simp: spawn_def a submission_keys_def)
qed

lemma batches_reported [simp]: "batch_submitted (report_claimed s i m) = batch_submitted m"
  by (auto simp: report_claimed_def split: option.splits prod.splits)

interpretation waves_keyed: manager_law submission_keys single_stop
proof unfold_locales
  show "submission_keys (fresh_manager limit gap consumer approval)" for limit gap consumer approval
    by (simp add: submission_keys_def fresh_manager_def)
  show "submission_keys m \<Longrightarrow> unqueue i m = Some (rq, m1) \<Longrightarrow> submission_keys (report_queued_stop rq m1)" for m i rq m1
    using unqueueD(3) [of i m rq m1] by (auto simp: submission_keys_def report_queued_stop_def)
  show "submission_keys m \<Longrightarrow> submission_keys (record_lost_submission now b n m)" for m now b n
    using keys_count [of m now b n] by (auto simp: record_lost_submission_def Let_def submission_keys_def)
  show "submission_keys m \<Longrightarrow> submission_keys (finalize_batch b m)" for m b
    by (simp add: submission_keys_def finalize_batch_def)
qed (simp_all add: keys_spawn, simp_all add: submission_keys_def shut_down_def)

text \<open>C25. A wave wedged by lost submissions closes: if all its members are over, none waits and no further
  submission arrives, reaper sweeps that are a grace period apart count one lost member each, and after as many
  of them as submissions are missing the wave is no longer pending, with one announcement per missing member.\<close>

theorem lost_submissions_are_reconciled:
  assumes "manager_run single_stop m" "lost_wave b m" "on_done m" "apart (progress b m) ts"
    "int (length ts) = expected b m - submitted b m"
  shows "\<not> batch_members_pending b (sweeps ts m) \<and> tally (of_wave b) (sweeps ts m) = tally (of_wave b) m + length ts"
proof -
  have "dict_wf (batch_submitted m)" using waves_keyed.law_run [OF _ assms(1)] by (simp add: submission_keys_def)
  from sweeps_converge [OF this _ assms(4,5)] assms(2,3) have
    s: "submitted b (sweeps ts m) = expected b (sweeps ts m)" "agents (sweeps ts m) = agents m"
      "waiting (sweeps ts m) = waiting m" "tally (of_wave b) (sweeps ts m) = tally (of_wave b) m + length ts"
    by (simp_all add: lost_wave_def)
  have "\<not> batch_members_pending b (sweeps ts m)"
    using assms(2) s(1-3) by (auto simp: batch_members_pending_def lost_wave_def submitted_def expected_def split: option.splits)
  then show ?thesis using s(4) by blast
qed

text \<open>One sweep is not enough for two lost members: it restarts the grace period.\<close>

lemma sweep_restarts_the_grace_period:
  assumes "manager_run single_stop m" "stuck t b m" "t' < t + WAVE_STUCK_SECS" "b \<noteq> ''''"
  shows "\<not> stuck t' b (sweep_stuck_waves t m)"
proof -
  have "dict_wf (batch_submitted m)" using waves_keyed.law_run [OF _ assms(1)] by (simp add: submission_keys_def)
  then have "progress b (sweep_stuck_waves t m) = t"
    using swept_wave_view [of m b t] sweep_self [OF assms(4,2)] assms(4) by (simp add: wave_view_def)
  then show ?thesis using assms(3,4) by (simp add: lost_wave_stuck)
qed

definition wedged_wave :: "(surroundings \<times> sub_event) list" where
  "wedged_wave = [(quiet 9, Spawn (plain ''a'' ''w'' 3)), (quiet 9, RunBegins ''a''), (quiet 9, RunReturns ''a'' Completed)]"

lemma lost_submissions_are_reconciled_witness:
  "\<exists>m. play single_stop wedged_wave small_manager = Some m \<and> batch_members_pending ''w'' m \<and>
     \<not> batch_members_pending ''w'' (sweeps [1809, 3609] m) \<and> tally (of_wave ''w'') (sweeps [1809, 3609] m) = 3"
proof -
  have "\<exists>m. play single_stop wedged_wave small_manager = Some m \<and>
      (lost_wave ''w'' m \<and> on_done m \<and> apart (progress ''w'' m) [1809, 3609] \<and> int (length [1809, 3609 :: int]) = expected ''w'' m - submitted ''w'' m \<and>
       batch_members_pending ''w'' m \<and> tally (of_wave ''w'') m = 1)" by (rule playE) code_simp
  then obtain m where m: "play single_stop wedged_wave small_manager = Some m" "lost_wave ''w'' m" "on_done m"
      "apart (progress ''w'' m) [1809, 3609]" "int (length [1809, 3609 :: int]) = expected ''w'' m - submitted ''w'' m"
      "batch_members_pending ''w'' m" "tally (of_wave ''w'') m = 1" by blast
  from lost_submissions_are_reconciled [OF small_run [OF m(1)] m(2-5)] m(1,6,7) show ?thesis by simp
qed

text \<open>The hold deadline flushes exactly the pending waves with a result held for longer than the limit, once each.\<close>

lemma held_waves_set: "b \<in> set (held_waves m) \<longleftrightarrow> b \<noteq> '''' \<and> holds b m \<noteq> []"
  by (auto simp: held_waves_def holds_def filter_empty_conv)

lemma holds_released_exactly:
  assumes "0 < limit" "on_done m"
  shows "announced (sweep_digest_holds limit now m) = announced m @ map DigestFlush (filter (hold_expired limit now m) (held_waves m))"
    "distinct (filter (hold_expired limit now m) (held_waves m))"
    "b \<in> set (filter (hold_expired limit now m) (held_waves m)) \<longleftrightarrow> batch_members_pending b m \<and> (\<exists>t \<in> set (holds b m). limit \<le> now - t)"
proof -
  show "announced (sweep_digest_holds limit now m) = announced m @ map DigestFlush (filter (hold_expired limit now m) (held_waves m))"
    using assms by (simp add: sweep_digest_holds_def)
  show "distinct (filter (hold_expired limit now m) (held_waves m))" by (simp add: held_waves_def)
  have "limit \<le> now - Min (set (holds b m)) \<longleftrightarrow> (\<exists>t \<in> set (holds b m). limit \<le> now - t)" if "holds b m \<noteq> []"
  proof -
    have "limit \<le> now - Min (set (holds b m)) \<longleftrightarrow> Min (set (holds b m)) \<le> now - limit" by linarith
    also have "\<dots> \<longleftrightarrow> (\<exists>t \<in> set (holds b m). t \<le> now - limit)" using that by (subst Min_le_iff) auto
    finally show ?thesis by (metis add.commute le_diff_eq)
  qed
  then show "b \<in> set (filter (hold_expired limit now m) (held_waves m)) \<longleftrightarrow> batch_members_pending b m \<and> (\<exists>t \<in> set (holds b m). limit \<le> now - t)"
    by (cases "holds b m = []") (auto simp: hold_expired_def held_waves_set batch_members_pending_def)
qed

end
