(* ===== verification/Spec2Isabelle.thy ===== *)
theory Spec2Isabelle
  imports Gov_Profiles Pool_Tracking Monitor_Controller Monitor_Restart Approval_Presses
    Session_Generations Session_Flush Subagent_Promises
begin

text \<open>
  Codex Crew is a gateway that runs coding agents behind chat transports and a dashboard. Modelled
  here are the parts that decide what an unattended agent may do, when it may run, which tool
  server processes it may share, which session a message resumes, and how the agents it spawns are
  admitted, stopped and reported, from the Python sources under \<^verbatim>\<open>src/src/codex_crew\<close>.

  \<^bold>\<open>Conventions.\<close> A call that may raise returns \<open>'a res\<close>: \<open>Inl\<close> the exception's class, \<open>Inr\<close> the
  result. Dictionaries are association lists in insertion order with distinct keys, JSON values
  the datatype of \<open>Json\<close>, Python integers \<open>int\<close> (or \<open>nat\<close> where a constructor forbids negative
  ones), clock readings exact rationals that enter as arguments. Every loop of the sources that
  is modelled ends by itself or is cut at its awaits into steps, so no definition takes fuel: the two recursions that are not
  structural, the glob matcher and the walk over tool arguments, have termination proofs on the
  pattern's and the work list's size.

  \<^bold>\<open>Governance\<close> (\<^verbatim>\<open>platform/governance.py\<close>, \<^verbatim>\<open>platform/governance_profiles.py\<close>,
  \<^verbatim>\<open>platform/tool_paths.py\<close>, \<^verbatim>\<open>platform/agentcore_schema.py\<close>). A policy document is the ceiling
  of the installation, profiles narrow it per surface, and the gate consults both for each tool
  call.
  \<^item> \<open>Gov_Match\<close>: the match strategies and the action classes. \<open>Url\<close>: \<open>url_host\<close> on top of
    \<open>urlsplit\<close>. \<open>Tool_Paths\<close>: \<open>target_paths_of\<close>, its two stacks as lists.
  \<^item> \<open>Gov_Controls\<close>: the four control archetypes and their composition. The locales \<open>narrowing\<close>
    and \<open>chain_narrowing\<close> state "composition intersects" once; each archetype interprets them.
  \<^item> \<open>Gov_Parse\<close>, \<open>Gov_Policy\<close>: the scope catalog, the parser of controls, the carriers of the two
    documents with their loaders, pins and floors. What loads is well formed, and stays so.
  \<^item> \<open>Gov_Gate\<close>: \<open>resolve\<close>, the queries of a call, \<open>gate_decision\<close>, the pinned commands and the
    exemptions. The verdict is characterised on every call and shown monotone in the ceiling.
  \<^item> \<open>Gov_Extends\<close>: inheritance of profiles refines intersection; ordinal floors. \<open>Gov_Auto\<close>: an
    exempted MCP server is one the gate would not refuse. \<open>Gov_Profiles\<close>: the store, whose
    reload resolves inheritance in any order and never unbinds a surface by a broken file.

  \<^bold>\<open>The circuit breaker\<close> of the MCP gateway (\<^verbatim>\<open>mcp_gateway/breaker.py\<close>), \<open>Breaker\<close>: one record per key
  with a sliding window of fast deaths; it refines independent breakers while the keys fit.

  \<^bold>\<open>The backend pool\<close> of the MCP gateway (\<^verbatim>\<open>mcp_gateway/pool.py\<close>, and what changes its state in
  \<^verbatim>\<open>backend.py\<close> and \<^verbatim>\<open>gatewayd.py\<close>). Agents with equal pool keys share one server process.
  \<^item> \<open>Pool_Key\<close>: the twelve dimensions, \<open>from_register\<close>, and the canonical JSON text under the
    digest, which determines the key; SHA-256 is a parameter.
  \<^item> \<open>Backend_Pool\<close>: the state and each operation of \<open>BackendPool\<close>, atomic because every body under
    its lock runs without suspending. Backends and spawn locks are numbers into two stores.
    \<open>Pool_Callers\<close>: the coroutine \<open>get_or_create\<close> cut at its awaits (\<open>phase\<close>, the \<open>goc_\<close>
    segments), the sweepers, the credential watch, and \<open>step\<close> over all actions; \<open>credential_of\<close>,
    \<open>credential\<close> and \<open>drained_credential\<close> are history. A lock whose holder left is taken by the
    first waiter, and a newcomer queues behind waiters, as \<open>asyncio.Lock\<close> does.
  \<^item> \<open>Pool_Reservations\<close>, \<open>Pool_Index\<close>, \<open>Pool_Locks\<close>: the invariants, over every interleaving, of the
    reservation counts, of the index with its capacity and credential fence, and of the spawn
    locks; the last under \<open>calm\<close>: no eviction drops a lock in use, which the code assumes.
    \<open>Pool_Safety\<close> and \<open>Pool_Tracking\<close>: what follows for callers, and the runs in which the
    assumption fails and a running backend is forgotten.

  \<^bold>\<open>Monitors\<close> (\<^verbatim>\<open>monitoring/models.py\<close>, \<^verbatim>\<open>decision.py\<close>, \<^verbatim>\<open>completion.py\<close>, \<^verbatim>\<open>controller.py\<close>, and
  \<^verbatim>\<open>autonudge.py\<close>). A monitor watches a pull request and buys an agent turn when something
  actionable appears. The scheduler holds the loops and the timers, the controller runs a tick:
  probe, decide, claim, dispatch; the completion of the turn comes back through the scheduler.
  \<^item> \<open>Monitor_Model\<close>, \<open>Monitor_Codec\<close>: the durable record with its checks, decoding, quarantine and
    encoding; round trips and validity. \<open>Monitor_Decision\<close>: \<open>decide_monitor\<close> with the budgets.
  \<^item> \<open>Monitor_Service\<close>: the scheduler's state (\<open>service\<close>: loops, accepted turns, firing window,
    timers, the snapshot on disk) and one definition per operation, from guards to timer
    bookkeeping. The disk write's outcome is an argument: done, failed, or done while the caller
    was cancelled.
  \<^item> \<open>Monitor_Invariant\<close>: what every record and the disk promise, kept by every operation under
    every outcome. \<open>Monitor_Timers\<close>: turn hooks, firing window, start, stop, the reconciler.
  \<^item> \<open>Monitor_Runs\<close>: operations as actions and their admissible sequences. An operation holds the
    lock over its write and is one action; the acceptance of a turn takes no lock, so an action
    may also be an operation whose write acceptances overtake (\<open>Raced\<close>). \<open>Monitor_View\<close>: the
    locale of views a countdown cannot change; \<open>Monitor_Lifecycle\<close> interprets it for the phases
    and shows that every action refines the abstract life cycle; \<open>Monitor_Claims\<close> interprets it
    for the ledger and holds the theorems on turns, charges, durability and failed writes, with
    the runs in which a stop, a deletion or an acceptance is forgotten.
  \<^item> \<open>Monitor_Controller\<close>: \<open>tick\<close>, the dispatch and the wake envelope. Other operations may run at
    every await (\<open>world\<close>), so a tick is a run of the service and inherits its theorems; each wake
    it returns carries, as history, the state in which the dispatcher was called; two theorems
    bound how long a turn and a watch can be waited for. \<open>Monitor_Restart\<close>: the monitor part of
    \<open>_load\<close>; what a crash leaves on disk is recovered without losing or inventing a charge.

  \<^bold>\<open>Tool approval\<close> (\<^verbatim>\<open>messaging/approval.py\<close>, the permission branch of \<^verbatim>\<open>messaging/driver.py\<close>, and
  their callers for WhatsApp and Webex). A request the gate lets pass may still need a person.
  \<^item> \<open>Approval_Ladder\<close>: the ladder from the switch for strangers to the decider.
  \<^item> \<open>Approval_Typed\<close>: the registry of requests answered by a typed reply, and its users cut where
    they suspend: sending the prompt, waiting, announcing a timeout (\<open>ask_phase\<close>). \<open>Approval_Widget\<close>:
    the registry of card prompts with reservations and nonces (\<open>widget_phase\<close>); the nonce generator
    is a parameter. In both a timer may win over an answer of the same turn of the event loop, as in
    \<open>asyncio.wait_for\<close>; \<open>evidence\<close>, \<open>rulings\<close> and the counters beside them are history.
  \<^item> \<open>Approval_Consent\<close>, \<open>Approval_Presses\<close>: in every interleaving an approval is backed by a fresh
    answer to this very request, a card answers only its own prompt, and the runs in which the
    receipt says one thing and the outcome another.

  \<^bold>\<open>The session map\<close> (\<^verbatim>\<open>session_map.py\<close>, \<^verbatim>\<open>messaging/link.py\<close>, the refusal flag of
  \<^verbatim>\<open>session.py\<close>, \<^verbatim>\<open>messaging/conversation.py\<close>). Which backend session a conversation resumes, and the
  Slack thread and the mirror location each is bound to.
  \<^item> \<open>Session_Keys\<close>: session keys, their grammar and spellings, channel links. \<open>Session_Map\<close>,
    \<open>Session_Links\<close>: the entries as the JSON objects the code keeps, one function per method, and
    the public methods as actions. \<open>saves\<close> counts the writes owed, \<open>unbound\<close> is the history of
    announced losses; whether a transcript exists is an argument.
  \<^item> \<open>Session_Load\<close>: \<open>_load\<close> with its repairs, the invariant of the map, and its runs. A file whose
    timestamps cannot be looked up (a list or an object) is excluded from the runs.
  \<^item> \<open>Session_Bindings\<close>, \<open>Session_Owners\<close>, \<open>Session_Threads\<close>: inbound bindings are lost only with an
    announcement, a location has one owner, a thread reaches the session it was handed to, pruning
    takes only dead rows; with the runs that break this outside the stated conditions.
  \<^item> \<open>Session_Generations\<close>: the generation counters, the rotation clock, and the Discord dispatcher
    over the map, which interprets the locale of counter seeds. \<open>Session_Flush\<close>: the deferred write, with contents numbered by mutation and every
    worker's write and every cancellation a step; the durability points and the flush task.

  \<^bold>\<open>Subagents\<close> (\<^verbatim>\<open>subagent.py\<close>, \<^verbatim>\<open>subagent_manager/\<close>). An agent spawns others, alone or as a wave whose
  results are delivered together; a pool of slots and a stagger queue bound how many run.
  \<^item> \<open>Subagent_State\<close>, \<open>Subagent_Admission\<close>: the record of a run, the manager, and \<open>spawn\<close> with its
    refusals, the queue and its pump. \<open>spawn\<close> and \<open>_drain_queue\<close> call each other, so the code is cut into
    \<open>admit\<close>, \<open>drain\<close> (which ends because every call takes a run off the queue) and \<open>spawn\<close>.
    \<open>Subagent_Runs\<close>: every other operation cut at its awaits, and \<open>sub_step\<close> over all events:
    tasks that begin, return or are cancelled, the approval, the recovery of a cancelled run, reaps,
    stops, reports, shutdown. \<open>announced\<close> and \<open>starts\<close> are history.
  \<^item> \<open>Subagent_Slots\<close>, \<open>Subagent_Pump\<close>, \<open>Subagent_Records\<close>, \<open>Subagent_Protocol\<close>: what admission and each
    event make of the records (\<open>record_after\<close>), and that every step does exactly that.
  \<^item> Three locales carry the invariants: \<open>run_law\<close> for laws of one record (interpreted in
    \<open>Subagent_Limits\<close> for slots, in \<open>Subagent_Delivery\<close> for reports), \<open>queue_law\<close> in \<open>Subagent_Queue\<close> for
    the pump and the stagger interval, \<open>manager_law\<close> (\<open>Subagent_Laws\<close>) for counts over the whole
    manager (interpreted in \<open>Subagent_Reports\<close>, \<open>Subagent_Waves\<close> and \<open>Subagent_Promises\<close>).
  \<^item> \<open>Subagent_Waves\<close>: the balance of a wave and the two sweeps. \<open>Subagent_Promises\<close>: the theorems for
    callers over every interleaving, and the interleavings in which a slot, a report or a
    rejection goes wrong.

  \<^bold>\<open>How the parts meet.\<close> The gate decides the calls of every turn, those a monitor bought included;
  it is the \<open>tool_gate\<close> of the approval ladder, which never overrides its denial; the pool
  decides which server process serves a permitted call and asks the breaker whether one may be
  spawned; the session map decides which session a message's turn runs in, and approvals are keyed
  by its keys; a spawn is refused where governance denies it (an argument of \<open>vet_spawn\<close>). The parts read none of each other's state but the breaker's, which is a field of the
  pool, so the theories share only the prelude, JSON and text helpers.

  \<^bold>\<open>Parameters and hypotheses.\<close> Code outside the model enters as arguments: the file system and
  environment of path normalisation, Python's \<open>repr\<close> and \<open>float()\<close> of numbers, the provider's
  observation, the dispatcher's answer, the redactions of \<^verbatim>\<open>security.py\<close>, the slot-name fallback.
  \<open>admissible\<close> lists what callers guarantee: constructor checks, a fresh id, a shielded write.
  The scheduler's synchronous hooks other than the acceptance of a turn are taken to run between
  its operations, not during their writes.

  \<^bold>\<open>Not modelled.\<close> Logging, observers, file locking and the bytes of the files; the prompt loops of
  \<^verbatim>\<open>autonudge.py\<close> (they share the state but none of the monitor operations) and the sentinel,
  banner and message repairs of its loader; the GitHub provider behind an observation; the
  policy's signature and distribution transport; the pool's metrics and pid
  file and the JSON-RPC bridge of a backend; the session manager over the map and the
  transcripts; what a subagent does inside its run, its continuations and follow-ups, tombstones and
  orphans, and the digest the consumer composes of a wave; the transports, the dashboard, computer
  use and deployment, which are mostly I/O around these decisions.

  \<^bold>\<open>Further candidates.\<close> The MCP quarantine, queue receipts, subagent continuations, cron, rate limits,
  port allocation, and the prompt loops.
\<close>

end
